(* ===== verification/Prelude.thy ===== *)
theory Prelude
  imports Complex_Main "HOL-Library.AList" "HOL-Library.Multiset"
begin

text \<open>
  The library every component of the development rests on.

  The client under \<^verbatim>\<open>src/src\<close> is TypeScript. This theory fixes how its values are read:
  a \<^verbatim>\<open>number\<close> that the code checks for finiteness is a \<open>js_num\<close> (a rational, or one of the
  three non-finite values); an insertion-ordered \<^verbatim>\<open>Set\<close> is a list without duplicates; an
  insertion-ordered \<^verbatim>\<open>Map\<close> is an association list updated by \<open>AList.update\<close>, which keeps
  the position of a key that is present and appends a new one, as \<^verbatim>\<open>Map.prototype.set\<close> does;
  \<^verbatim>\<open>Array.prototype.sort\<close> is a stable sort by a comparator that returns a signed number.

  Three interfaces that several components share are stated here as locales: a consistent
  comparator (\<open>js_comparator\<close>), a keyed store (\<open>keyed_store\<close>) and a transition system with an
  invariant (\<open>machine\<close>).
\<close>

named_theorems js_eval \<open>equations that evaluate the model of the JavaScript operations\<close>
named_theorems js_mem \<open>membership in the results of the list, set and map operations\<close>

section \<open>Numbers\<close>

datatype js_num = Num rat | NaN | PosInf | NegInf

fun is_finite :: "js_num \<Rightarrow> bool" where
  "is_finite (Num _) = True"
| "is_finite _ = False"

definition rat_is_int :: "rat \<Rightarrow> bool" where
  "rat_is_int r \<longleftrightarrow> of_int (floor r) = r"

definition max_safe_integer :: int where
  "max_safe_integer = 2 ^ 53 - 1"

fun is_integer :: "js_num \<Rightarrow> bool" where
  "is_integer (Num r) = rat_is_int r"
| "is_integer _ = False"

fun is_safe_integer :: "js_num \<Rightarrow> bool" where
  "is_safe_integer (Num r) = (rat_is_int r \<and> \<bar>r\<bar> \<le> of_int max_safe_integer)"
| "is_safe_integer _ = False"

text \<open>Comparisons are false whenever one side is \<open>NaN\<close>.\<close>

fun js_le :: "js_num \<Rightarrow> js_num \<Rightarrow> bool" where
  "js_le NaN _ = False"
| "js_le _ NaN = False"
| "js_le NegInf _ = True"
| "js_le _ PosInf = True"
| "js_le (Num a) (Num b) = (a \<le> b)"
| "js_le _ _ = False"

definition js_lt :: "js_num \<Rightarrow> js_num \<Rightarrow> bool" where
  "js_lt a b \<longleftrightarrow> js_le a b \<and> \<not> js_le b a"

text \<open>\<^verbatim>\<open>Math.trunc\<close> rounds towards zero; \<^verbatim>\<open>%\<close> takes the sign of the dividend.\<close>

definition rat_trunc :: "rat \<Rightarrow> int" where
  "rat_trunc r = (if 0 \<le> r then floor r else ceiling r)"

definition js_mod :: "int \<Rightarrow> int \<Rightarrow> int" where
  "js_mod a b = sgn a * (\<bar>a\<bar> mod \<bar>b\<bar>)"

definition to_uint32 :: "int \<Rightarrow> int" where
  "to_uint32 a = a mod 2 ^ 32"

lemma rat_is_int_of_int [simp]: "rat_is_int (of_int i)"
  by (simp add: rat_is_int_def)

lemma rat_is_int_iff: "rat_is_int r \<longleftrightarrow> (\<exists>i. r = of_int i)"
  by (metis floor_of_int rat_is_int_def)

lemma is_finite_iff: "is_finite n \<longleftrightarrow> (\<exists>r. n = Num r)"
  by (cases n) auto

lemma is_integer_iff: "is_integer n \<longleftrightarrow> (\<exists>i. n = Num (of_int i))"
  by (cases n) (auto simp: rat_is_int_iff)

lemma is_safe_integer_iff:
  "is_safe_integer n \<longleftrightarrow> (\<exists>i. n = Num (of_int i) \<and> \<bar>i\<bar> \<le> max_safe_integer)"
proof (cases n)
  case (Num r)
  have "\<bar>of_int i :: rat\<bar> \<le> of_int max_safe_integer \<longleftrightarrow> \<bar>i\<bar> \<le> max_safe_integer" for i
    by (metis of_int_abs of_int_le_iff)
  then show ?thesis
    using Num by (auto simp: rat_is_int_iff)
qed auto

lemma rat_trunc_of_int [simp]: "rat_trunc (of_int i) = i"
  by (simp add: rat_trunc_def)

lemma js_mod_nonneg: "0 \<le> a \<Longrightarrow> 0 < b \<Longrightarrow> js_mod a b = a mod b"
  by (cases "a = 0") (auto simp: js_mod_def)

lemma js_mod_bounds:
  assumes "0 < b"
  shows "- b < js_mod a b" and "js_mod a b < b"
proof -
  define r where "r = \<bar>a\<bar> mod \<bar>b\<bar>"
  have "0 \<le> r" and "r < b"
    using assms by (simp_all add: r_def)
  moreover have "js_mod a b = sgn a * r"
    by (simp add: js_mod_def r_def)
  ultimately show "- b < js_mod a b" and "js_mod a b < b"
    by (simp_all add: sgn_if)
qed

section \<open>Arrays\<close>

text \<open>\<^verbatim>\<open>indexOf\<close> and \<^verbatim>\<open>findIndex\<close>, with \<open>None\<close> for \<^verbatim>\<open>-1\<close>.\<close>

fun find_index :: "('a \<Rightarrow> bool) \<Rightarrow> 'a list \<Rightarrow> nat option" where
  "find_index P [] = None"
| "find_index P (x # xs) = (if P x then Some 0 else map_option Suc (find_index P xs))"

definition index_of :: "'a \<Rightarrow> 'a list \<Rightarrow> nat option" where
  "index_of x = find_index (\<lambda>y. y = x)"

text \<open>\<^verbatim>\<open>xs.slice(from, to)\<close> for non-negative bounds, and reading one element.\<close>

definition slice :: "nat \<Rightarrow> nat \<Rightarrow> 'a list \<Rightarrow> 'a list" where
  "slice i j xs = take (j - i) (drop i xs)"

definition js_at :: "'a list \<Rightarrow> nat \<Rightarrow> 'a option" where
  "js_at xs i = (if i < length xs then Some (xs ! i) else None)"

lemma find_index_None: "find_index P xs = None \<longleftrightarrow> (\<forall>x \<in> set xs. \<not> P x)"
  by (induction xs) auto

lemma find_index_Some:
  "find_index P xs = Some i \<Longrightarrow> i < length xs \<and> P (xs ! i) \<and> (\<forall>j < i. \<not> P (xs ! j))"
proof (induction xs arbitrary: i)
  case (Cons x xs)
  then show ?case
    by (auto split: if_splits simp: less_Suc_eq_0_disj)
qed simp

lemma index_of_None [simp]: "index_of x xs = None \<longleftrightarrow> x \<notin> set xs"
  by (auto simp: index_of_def find_index_None)

lemma index_of_Some: "index_of x xs = Some i \<Longrightarrow> i < length xs \<and> xs ! i = x"
  using find_index_Some by (fastforce simp: index_of_def)

lemma index_of_ex: "x \<in> set xs \<Longrightarrow> \<exists>i. index_of x xs = Some i"
  by (metis index_of_None option.exhaust)

lemma set_slice: "set (slice i j xs) \<subseteq> set xs"
  unfolding slice_def by (meson set_drop_subset set_take_subset subset_trans)

lemma length_slice: "length (slice i j xs) = min (length xs - i) (j - i)"
  by (simp add: slice_def)

lemma nth_in_slice: "i \<le> k \<Longrightarrow> k < j \<Longrightarrow> k < length xs \<Longrightarrow> xs ! k \<in> set (slice i j xs)"
  by (auto simp: slice_def in_set_conv_nth intro!: exI [of _ "k - i"])

text \<open>\<^verbatim>\<open>a ?? b\<close>.\<close>

fun or_else :: "'a option \<Rightarrow> 'a option \<Rightarrow> 'a option" where
  "or_else (Some x) _ = Some x"
| "or_else None y = y"

fun or_value :: "'a option \<Rightarrow> 'a \<Rightarrow> 'a" where
  "or_value (Some x) _ = x"
| "or_value None y = y"

section \<open>Insertion-ordered sets\<close>

definition set_add :: "'a \<Rightarrow> 'a list \<Rightarrow> 'a list" where
  "set_add x xs = (if x \<in> set xs then xs else xs @ [x])"

definition set_delete :: "'a \<Rightarrow> 'a list \<Rightarrow> 'a list" where
  "set_delete x xs = filter (\<lambda>y. y \<noteq> x) xs"

text \<open>\<^verbatim>\<open>new Set(xs)\<close> keeps the first occurrence of every element.\<close>

definition set_from :: "'a list \<Rightarrow> 'a list" where
  "set_from xs = foldl (\<lambda>acc x. set_add x acc) [] xs"

lemma set_set_add [simp]: "set (set_add x xs) = insert x (set xs)"
  by (auto simp: set_add_def)

lemma distinct_set_add [simp]: "distinct (set_add x xs) = distinct xs"
  by (auto simp: set_add_def)

lemma set_set_delete [simp]: "set (set_delete x xs) = set xs - {x}"
  by (auto simp: set_delete_def)

lemma distinct_set_delete [simp]: "distinct xs \<Longrightarrow> distinct (set_delete x xs)"
  by (simp add: set_delete_def)

lemma foldl_set_add:
  "set (foldl (\<lambda>acc x. set_add x acc) acc xs) = set acc \<union> set xs
   \<and> (distinct acc \<longrightarrow> distinct (foldl (\<lambda>acc x. set_add x acc) acc xs))"
  by (induction xs arbitrary: acc) auto

lemma set_set_from [simp]: "set (set_from xs) = set xs"
  using foldl_set_add [of "[]" xs] by (simp add: set_from_def)

lemma distinct_set_from [simp]: "distinct (set_from xs)"
  using foldl_set_add [of "[]" xs] by (simp add: set_from_def)

lemma foldl_set_add_fresh:
  "distinct (acc @ xs) \<Longrightarrow> foldl (\<lambda>acc x. set_add x acc) acc xs = acc @ xs"
proof (induction xs arbitrary: acc)
  case (Cons x xs)
  then have "foldl (\<lambda>acc x. set_add x acc) (acc @ [x]) xs = (acc @ [x]) @ xs"
    by (intro Cons.IH) simp
  with Cons.prems show ?case by (simp add: set_add_def)
qed simp

lemma set_from_distinct [simp]: "distinct xs \<Longrightarrow> set_from xs = xs"
  using foldl_set_add_fresh [of "[]" xs] by (simp add: set_from_def)

section \<open>Insertion-ordered maps\<close>

text \<open>
  A keyed store: what a lookup returns after a write or a removal, and the invariant (no key
  twice) every operation keeps. The client code relies on nothing else of \<^verbatim>\<open>Map\<close> but the order
  in which it lists its entries.
\<close>

locale keyed_store =
  fixes look :: "'m \<Rightarrow> 'k \<Rightarrow> 'v option"
    and put :: "'k \<Rightarrow> 'v \<Rightarrow> 'm \<Rightarrow> 'm"
    and del :: "'k \<Rightarrow> 'm \<Rightarrow> 'm"
    and ok :: "'m \<Rightarrow> bool"
  assumes look_put: "look (put k v m) k' = (if k' = k then Some v else look m k')"
    and look_del: "look (del k m) k' = (if k' = k then None else look m k')"
    and ok_put: "ok m \<Longrightarrow> ok (put k v m)"
    and ok_del: "ok m \<Longrightarrow> ok (del k m)"
begin

lemma look_put_same: "look (put k v m) k = Some v"
  by (simp add: look_put)

lemma look_put_other: "k' \<noteq> k \<Longrightarrow> look (put k v m) k' = look m k'"
  by (simp add: look_put)

lemma put_many:
  "look (foldl (\<lambda>m x. put (key x) (val x) m) m xs) k =
   (case find (\<lambda>x. key x = k) (rev xs) of Some x \<Rightarrow> Some (val x) | None \<Rightarrow> look m k)"
proof (induction xs rule: rev_induct)
  case (snoc x xs)
  then show ?case by (auto simp: look_put)
qed simp

lemma ok_put_many: "ok m \<Longrightarrow> ok (foldl (\<lambda>m x. put (key x) (val x) m) m xs)"
  by (induction xs arbitrary: m) (auto intro: ok_put)

lemma look_del_many: "look (foldl (\<lambda>m k. del k m) m ks) k = (if k \<in> set ks then None else look m k)"
  by (induction ks arbitrary: m) (auto simp: look_del)

end

abbreviation (input) keys :: "('k \<times> 'v) list \<Rightarrow> 'k list" where
  "keys m \<equiv> map fst m"

abbreviation (input) vals :: "('k \<times> 'v) list \<Rightarrow> 'v list" where
  "vals m \<equiv> map snd m"

lemma keys_delete [simp]: "keys (AList.delete k m) = filter (\<lambda>x. x \<noteq> k) (keys m)"
  by (induction m) auto

lemma distinct_keys_update [simp]: "distinct (keys (AList.update k v m)) = distinct (keys m)"
  by (induction m) (auto simp: AList.update_keys)

interpretation omap: keyed_store map_of AList.update AList.delete "\<lambda>m. distinct (keys m)"
  by unfold_locales (auto simp: update_conv' delete_conv' fun_upd_apply)

lemma set_keys_update: "set (keys (AList.update k v m)) = insert k (set (keys m))"
  by (induction m) auto

lemma length_update:
  "length (AList.update k v m) = (if k \<in> set (keys m) then length m else Suc (length m))"
  by (induction m) auto

lemma length_delete_le: "length (AList.delete k m) \<le> length m"
  by (simp add: AList.delete_eq)

lemma length_delete_less: "k \<in> set (keys m) \<Longrightarrow> length (AList.delete k m) < length m"
proof -
  assume "k \<in> set (keys m)"
  then obtain v where "(k, v) \<in> set m" by auto
  then show ?thesis
    by (simp add: AList.delete_eq case_prod_unfold length_filter_less)
qed

lemma map_of_in_set: "map_of m k = Some v \<Longrightarrow> (k, v) \<in> set m"
  by (rule map_of_SomeD)

lemma set_update_subset: "set (AList.update k v m) \<subseteq> insert (k, v) (set m)"
  by (induction m) auto

lemma set_delete_subset: "set (AList.delete k m) \<subseteq> set m"
  by (auto simp: AList.delete_eq)

lemma map_of_None_keys: "map_of m k = None \<longleftrightarrow> k \<notin> set (keys m)"
  by (auto simp: map_of_eq_None_iff)

text \<open>What the values of a map add up to.\<close>

definition map_total :: "('v \<Rightarrow> 'a :: comm_monoid_add) \<Rightarrow> ('k \<times> 'v) list \<Rightarrow> 'a" where
  "map_total f m = sum_list (map (\<lambda>kv. f (snd kv)) m)"

definition old_value :: "('v \<Rightarrow> 'a :: comm_monoid_add) \<Rightarrow> ('k \<times> 'v) list \<Rightarrow> 'k \<Rightarrow> 'a" where
  "old_value f m k = (case map_of m k of Some v \<Rightarrow> f v | None \<Rightarrow> 0)"

lemma map_total_simps [simp]:
  "map_total f [] = 0" "map_total f (kv # m) = f (snd kv) + map_total f m"
  by (simp_all add: map_total_def)

lemma map_total_update: "map_total f (AList.update k v m) + old_value f m k = map_total f m + f v"
  by (induction m) (auto simp: old_value_def ac_simps)

lemma map_total_delete_absent: "k \<notin> fst ` set m \<Longrightarrow> map_total f (AList.delete k m) = map_total f m"
  by (induction m) auto

lemma map_total_delete:
  "distinct (keys m) \<Longrightarrow> map_total f (AList.delete k m) + old_value f m k = map_total f m"
  by (induction m) (auto simp: map_total_delete_absent old_value_def ac_simps)

lemma lookup_delete: "map_of (AList.delete k m) k' = (if k' = k then None else map_of m k')"
  by (rule omap.look_del)

lemma lookup_update: "map_of (AList.update k v m) k' = (if k' = k then Some v else map_of m k')"
  by (rule omap.look_put)

lemma map_of_entries: "distinct (keys m) \<Longrightarrow> kv \<in> set m \<Longrightarrow> map_of m (fst kv) = Some (snd kv)"
  by (cases kv) simp

section \<open>Sorting\<close>

text \<open>
  \<^verbatim>\<open>xs.sort(cmp)\<close>. ECMAScript requires a stable sort for a consistent comparator, which
  determines the result; stable insertion computes it.
\<close>

fun js_insert :: "('a \<Rightarrow> 'a \<Rightarrow> int) \<Rightarrow> 'a \<Rightarrow> 'a list \<Rightarrow> 'a list" where
  "js_insert cmp x [] = [x]"
| "js_insert cmp x (y # ys) = (if cmp x y \<le> 0 then x # y # ys else y # js_insert cmp x ys)"

definition js_sort :: "('a \<Rightarrow> 'a \<Rightarrow> int) \<Rightarrow> 'a list \<Rightarrow> 'a list" where
  "js_sort cmp xs = foldr (js_insert cmp) xs []"

lemma js_sort_simps [simp]:
  "js_sort cmp [] = []"
  "js_sort cmp (x # xs) = js_insert cmp x (js_sort cmp xs)"
  by (simp_all add: js_sort_def)

lemma mset_js_insert: "mset (js_insert cmp x xs) = add_mset x (mset xs)"
  by (induction xs) auto

lemma mset_js_sort [simp]: "mset (js_sort cmp xs) = mset xs"
  by (induction xs) (auto simp: mset_js_insert)

lemma set_js_sort [simp]: "set (js_sort cmp xs) = set xs"
  by (metis mset_js_sort set_mset_mset)

lemma length_js_sort [simp]: "length (js_sort cmp xs) = length xs"
  by (metis mset_js_sort size_mset)

lemma distinct_js_sort [simp]: "distinct (js_sort cmp xs) = distinct xs"
  by (metis mset_eq_imp_distinct_iff mset_js_sort)

text \<open>A comparator of the source that orders consistently: total and transitive.\<close>

locale js_comparator =
  fixes cmp :: "'a \<Rightarrow> 'a \<Rightarrow> int"
  assumes cmp_total: "cmp x y \<le> 0 \<or> cmp y x \<le> 0"
    and cmp_trans: "cmp x y \<le> 0 \<Longrightarrow> cmp y z \<le> 0 \<Longrightarrow> cmp x z \<le> 0"
begin

lemma cmp_refl: "cmp x x \<le> 0"
  using cmp_total by blast

lemma sorted_js_insert:
  "sorted_wrt (\<lambda>x y. cmp x y \<le> 0) ys \<Longrightarrow> sorted_wrt (\<lambda>x y. cmp x y \<le> 0) (js_insert cmp x ys)"
proof (induction ys)
  case (Cons y ys)
  have mem: "set (js_insert cmp x ys) = insert x (set ys)"
    by (metis mset_js_insert set_mset_add_mset_insert set_mset_mset)
  from Cons show ?case
    using cmp_total cmp_trans mem by auto
qed simp

lemma sorted_js_sort: "sorted_wrt (\<lambda>x y. cmp x y \<le> 0) (js_sort cmp xs)"
  by (induction xs) (auto intro: sorted_js_insert)

lemma filter_js_insert:
  assumes "\<And>a b. P a \<Longrightarrow> P b \<Longrightarrow> cmp a b \<le> 0"
  shows "filter P (js_insert cmp x ys) = (if P x then x # filter P ys else filter P ys)"
  using assms by (induction ys) auto

lemma js_sort_stable:
  "filter (\<lambda>y. cmp a y \<le> 0 \<and> cmp y a \<le> 0) (js_sort cmp xs)
   = filter (\<lambda>y. cmp a y \<le> 0 \<and> cmp y a \<le> 0) xs"
proof (induction xs)
  case (Cons x xs)
  have "filter (\<lambda>y. cmp a y \<le> 0 \<and> cmp y a \<le> 0) (js_insert cmp x (js_sort cmp xs)) =
    (if cmp a x \<le> 0 \<and> cmp x a \<le> 0
     then x # filter (\<lambda>y. cmp a y \<le> 0 \<and> cmp y a \<le> 0) (js_sort cmp xs)
     else filter (\<lambda>y. cmp a y \<le> 0 \<and> cmp y a \<le> 0) (js_sort cmp xs))"
    by (rule filter_js_insert) (blast intro: cmp_trans)
  with Cons show ?case by simp
qed simp

lemma js_sort_hd:
  assumes "x \<in> set xs"
  shows "cmp (hd (js_sort cmp xs)) x \<le> 0"
proof -
  from assms have "x \<in> set (js_sort cmp xs)" by simp
  then obtain y ys where s: "js_sort cmp xs = y # ys" and "x = y \<or> x \<in> set ys"
    by (cases "js_sort cmp xs") auto
  with sorted_js_sort [of xs] show ?thesis
    by (auto intro: cmp_refl)
qed

end

text \<open>\<^verbatim>\<open>a || b\<close> on comparison results: the second comparison breaks the ties of the first.\<close>

definition js_or :: "('a \<Rightarrow> 'a \<Rightarrow> int) \<Rightarrow> ('a \<Rightarrow> 'a \<Rightarrow> int) \<Rightarrow> 'a \<Rightarrow> 'a \<Rightarrow> int" where
  "js_or c d x y = (if c x y \<noteq> 0 then c x y else d x y)"

lemma js_or_le: "js_or c d x y \<le> 0 \<Longrightarrow> c x y \<le> 0"
  by (auto simp: js_or_def split: if_splits)

text \<open>A comparator that also changes sign when its arguments are swapped can be refined further.\<close>

locale signed_comparator = js_comparator +
  assumes cmp_sym: "cmp y x = - cmp x y"
begin

lemma js_comparator_or:
  assumes "js_comparator d"
  shows "js_comparator (js_or cmp d)"
proof
  have d_total: "d x y \<le> 0 \<or> d y x \<le> 0" for x y
    using assms by (rule js_comparator.cmp_total)
  show "js_or cmp d x y \<le> 0 \<or> js_or cmp d y x \<le> 0" for x y
    using d_total [of x y] cmp_sym [of y x] by (auto simp: js_or_def)
  fix x y z
  assume xy: "js_or cmp d x y \<le> 0" and yz: "js_or cmp d y z \<le> 0"
  note le = js_or_le [OF xy] js_or_le [OF yz]
  show "js_or cmp d x z \<le> 0"
  proof (cases "cmp x z = 0")
    case False
    with le show ?thesis by (simp add: js_or_def cmp_trans [of x y z])
  next
    case True
    then have zx: "cmp z x \<le> 0" by (simp add: cmp_sym [of z x])
    have "0 \<le> cmp x y" "0 \<le> cmp y z"
      using cmp_trans [OF le(2) zx] cmp_trans [OF zx le(1)] cmp_sym [of y x] cmp_sym [of z y] by simp_all
    with le have "cmp x y = 0" "cmp y z = 0" by simp_all
    with xy yz have "d x y \<le> 0" "d y z \<le> 0" by (simp_all add: js_or_def)
    with True show ?thesis
      using js_comparator.cmp_trans [OF assms] by (simp add: js_or_def)
  qed
qed

end

lemma signed_comparator_up: "signed_comparator (\<lambda>x y. f x - (f y :: int))"
  by unfold_locales auto

lemma signed_comparator_down: "signed_comparator (\<lambda>x y. f y - (f x :: int))"
  by unfold_locales auto

text \<open>\<^verbatim>\<open>(left, right) => left - right\<close> on integers.\<close>

definition by_number :: "int \<Rightarrow> int \<Rightarrow> int" where
  "by_number a b = a - b"

interpretation by_number: signed_comparator by_number
  by unfold_locales (auto simp: by_number_def)

lemma sorted_by_number: "sorted (js_sort by_number xs)"
  using by_number.sorted_js_sort [of xs] by (simp add: by_number_def)

lemma js_sort_by_number_eq: "js_sort by_number xs = sort xs"
  by (metis mset_js_sort properties_for_sort sorted_by_number)

section \<open>Transition systems\<close>

text \<open>
  Reducers, registries and controllers of the client are step functions on a state. The laws a
  provider promises are that the start satisfies the invariant and every step keeps it; the
  client's facts are about whole runs.
\<close>

locale machine =
  fixes step :: "'s \<Rightarrow> 'e \<Rightarrow> 's"
    and inv :: "'s \<Rightarrow> bool"
    and start :: "'s"
  assumes inv_start: "inv start"
    and inv_step: "inv s \<Longrightarrow> inv (step s e)"
begin

lemma inv_run: "inv s \<Longrightarrow> inv (foldl step s es)"
  by (induction es arbitrary: s) (auto intro: inv_step)

lemma inv_reachable: "inv (foldl step start es)"
  by (rule inv_run [OF inv_start])

end

end
