(* ===== verification/JsText.thy ===== *)
theory JsText
  imports Prelude
begin

text \<open>
  Strings. A string of the client is the list of the bytes of its UTF-8 form, so equality,
  concatenation, prefixes and substring tests are those of the program; a literal outside ASCII
  is written with its bytes. White space and letter case are modelled on ASCII, the alphabet of
  the identifiers, tags, dates and tokens the components compare. \<^verbatim>\<open>localeCompare\<close> and
  \<^verbatim>\<open>normalize("NFKC")\<close> belong to the host and are parameters of the definitions that use them;
  what the code relies on for the first is the locale \<open>collation\<close>.

  \<open>js_value\<close> is a value of type \<^verbatim>\<open>unknown\<close>: what \<^verbatim>\<open>JSON.parse\<close> or the backend hands over before
  the client has checked it.
\<close>

datatype js_value =
    JUndef | JNull | JBool bool | JNum js_num | JStr string
  | JArr "js_value list" | JObj "(string \<times> js_value) list"

section \<open>Characters\<close>

definition is_space :: "char \<Rightarrow> bool" where
  "is_space c \<longleftrightarrow> c \<in> {CHR '' '', CHR 0x09, CHR 0x0A, CHR 0x0B, CHR 0x0C, CHR 0x0D}"

definition upper_letters :: string where
  "upper_letters = ''ABCDEFGHIJKLMNOPQRSTUVWXYZ''"

definition lower_letters :: string where
  "lower_letters = ''abcdefghijklmnopqrstuvwxyz''"

definition lower_char :: "char \<Rightarrow> char" where
  "lower_char c = (case map_of (zip upper_letters lower_letters) c of Some d \<Rightarrow> d | None \<Rightarrow> c)"

definition digit_chars :: string where
  "digit_chars = ''0123456789''"

definition is_digit :: "char \<Rightarrow> bool" where
  "is_digit c \<longleftrightarrow> c \<in> set digit_chars"

text \<open>\<^verbatim>\<open>toLocaleLowerCase\<close>, \<^verbatim>\<open>trim\<close>, \<^verbatim>\<open>trimStart\<close>.\<close>

definition lower :: "string \<Rightarrow> string" where
  "lower = map lower_char"

definition trim_start :: "string \<Rightarrow> string" where
  "trim_start = dropWhile is_space"

definition trim :: "string \<Rightarrow> string" where
  "trim s = rev (dropWhile is_space (rev (dropWhile is_space s)))"

text \<open>\<^verbatim>\<open>startsWith\<close>, \<^verbatim>\<open>str_includes\<close>, \<^verbatim>\<open>padStart(n, "0")\<close> and decimal numerals.\<close>

definition starts_with :: "string \<Rightarrow> string \<Rightarrow> bool" where
  "starts_with p s \<longleftrightarrow> take (length p) s = p"

fun str_includes :: "string \<Rightarrow> string \<Rightarrow> bool" where
  "str_includes p [] = (p = [])"
| "str_includes p (c # s) = (starts_with p (c # s) \<or> str_includes p s)"

definition digit_char :: "nat \<Rightarrow> char" where
  "digit_char n = digit_chars ! (n mod 10)"

fun show_nat :: "nat \<Rightarrow> string" where
  "show_nat n = (if n < 10 then [digit_char n] else show_nat (n div 10) @ [digit_char (n mod 10)])"

declare show_nat.simps [simp del]

definition show_int :: "int \<Rightarrow> string" where
  "show_int i = (if i < 0 then CHR ''-'' # show_nat (nat (- i)) else show_nat (nat i))"

definition pad_start :: "nat \<Rightarrow> string \<Rightarrow> string" where
  "pad_start n s = replicate (n - length s) (CHR ''0'') @ s"

text \<open>\<^verbatim>\<open>xs.join(sep)\<close>.\<close>

fun join :: "string \<Rightarrow> string list \<Rightarrow> string" where
  "join sep [] = []"
| "join sep [s] = s"
| "join sep (s # t # ts) = s @ sep @ join sep (t # ts)"

section \<open>Facts about characters and trimming\<close>

lemma letters_disjoint:
  "\<forall>d \<in> set lower_letters. map_of (zip upper_letters lower_letters) d = None \<and> \<not> is_space d"
  "\<forall>d \<in> set upper_letters. \<not> is_space d"
  by code_simp+

lemma lower_char_idem [simp]: "lower_char (lower_char c) = lower_char c"
proof (cases "map_of (zip upper_letters lower_letters) c")
  case (Some d)
  then have "d \<in> set lower_letters"
    by (meson map_of_SomeD set_zip_rightD)
  then have "map_of (zip upper_letters lower_letters) d = None"
    using letters_disjoint by blast
  with Some show ?thesis by (simp add: lower_char_def)
qed (simp add: lower_char_def)

lemma lower_idem [simp]: "lower (lower s) = lower s"
  by (simp add: lower_def)

lemma lower_append [simp]: "lower (s @ t) = lower s @ lower t"
  by (simp add: lower_def)

lemma lower_Nil [simp]: "lower [] = []"
  by (simp add: lower_def)

lemma lower_eq_Nil [simp]: "lower s = [] \<longleftrightarrow> s = []"
  by (simp add: lower_def)

lemma lower_char_space [simp]: "is_space (lower_char c) = is_space c"
proof (cases "map_of (zip upper_letters lower_letters) c")
  case (Some d)
  then have "d \<in> set lower_letters" "c \<in> set upper_letters"
    by (meson map_of_SomeD set_zip_rightD set_zip_leftD)+
  then have "\<not> is_space c \<and> \<not> is_space d"
    using letters_disjoint by blast
  with Some show ?thesis by (simp add: lower_char_def)
qed (simp add: lower_char_def)

lemma dropWhile_space_lower:
  "dropWhile is_space (map lower_char s) = map lower_char (dropWhile is_space s)"
  by (induction s) auto

lemma trim_lower: "trim (lower s) = lower (trim s)"
  by (simp add: trim_def lower_def dropWhile_space_lower rev_map)

lemma dropWhile_rev_dropWhile:
  "dropWhile P (rev (dropWhile P (rev (dropWhile P s)))) = rev (dropWhile P (rev (dropWhile P s)))"
proof (cases "dropWhile P s")
  case (Cons c t)
  then have c: "\<not> P c" by (metis dropWhile_eq_Cons_conv)
  then have "dropWhile P (rev t @ [c]) = dropWhile P (rev t) @ [c]"
    by (simp add: dropWhile_append3)
  with Cons c show ?thesis by simp
next
  case Nil
  show ?thesis by (simp only: Nil rev.simps dropWhile.simps)
qed

lemma trim_idem [simp]: "trim (trim s) = trim s"
  unfolding trim_def by (simp add: dropWhile_rev_dropWhile)

lemma trim_Nil [simp]: "trim [] = []"
  by (simp add: trim_def)

lemma trim_no_space: "\<forall>c \<in> set s. \<not> is_space c \<Longrightarrow> trim s = s"
proof -
  assume a: "\<forall>c \<in> set s. \<not> is_space c"
  then have "dropWhile is_space s = s" "dropWhile is_space (rev s) = rev s"
    by (auto simp: dropWhile_eq_self_iff hd_rev)
  then show ?thesis by (simp add: trim_def)
qed

lemma starts_with_append [simp]: "starts_with p (p @ s)"
  by (simp add: starts_with_def)

lemma starts_with_iff: "starts_with p s \<longleftrightarrow> (\<exists>t. s = p @ t)"
  by (metis append_eq_conv_conj append_take_drop_id starts_with_append starts_with_def)

lemma starts_with_includes: "starts_with p s \<Longrightarrow> str_includes p s"
  by (cases s) (auto simp: starts_with_def)

lemma str_includes_iff: "str_includes p s \<longleftrightarrow> (\<exists>u v. s = u @ p @ v)"
proof (induction s)
  case (Cons c s)
  show ?case
  proof
    assume "str_includes p (c # s)"
    then consider "starts_with p (c # s)" | "str_includes p s" by auto
    then show "\<exists>u v. c # s = u @ p @ v"
    proof cases
      case 1
      then show ?thesis by (metis append_Nil starts_with_iff)
    next
      case 2
      then show ?thesis using Cons.IH by (metis append_Cons)
    qed
  next
    assume "\<exists>u v. c # s = u @ p @ v"
    then obtain u v where e: "c # s = u @ p @ v" by blast
    show "str_includes p (c # s)"
    proof (cases u)
      case Nil
      with e show ?thesis by (auto intro!: starts_with_includes simp: starts_with_iff simp del: str_includes.simps)
    next
      case (Cons d w)
      with e have "s = w @ p @ v" by simp
      then show ?thesis using Cons.IH by auto
    qed
  qed
qed auto

section \<open>Comparing strings\<close>

text \<open>\<^verbatim>\<open><\<close> and \<^verbatim>\<open>>\<close> on strings compare their units from the left.\<close>

fun lex_cmp :: "string \<Rightarrow> string \<Rightarrow> int" where
  "lex_cmp [] [] = 0"
| "lex_cmp [] (_ # _) = -1"
| "lex_cmp (_ # _) [] = 1"
| "lex_cmp (c # s) (d # t) =
     (if c = d then lex_cmp s t else if (of_char c :: nat) < of_char d then -1 else 1)"

lemma lex_cmp_refl [simp]: "lex_cmp s s = 0"
  by (induction s) auto

lemma lex_cmp_sym: "lex_cmp t s = - lex_cmp s t"
  by (induction s t rule: lex_cmp.induct) (auto simp: linorder_neq_iff)

lemma lex_cmp_eq_0 [simp]: "lex_cmp s t = 0 \<longleftrightarrow> s = t"
  by (induction s t rule: lex_cmp.induct) auto

lemma lex_cmp_trans: "lex_cmp s t \<le> 0 \<Longrightarrow> lex_cmp t u \<le> 0 \<Longrightarrow> lex_cmp s u \<le> 0"
proof (induction s t arbitrary: u rule: lex_cmp.induct)
  case (4 c s d t)
  then show ?case by (cases u) (auto split: if_splits)
next
  case (2 d t)
  then show ?case by (cases u) auto
qed auto

text \<open>What the code relies on for \<^verbatim>\<open>localeCompare\<close>: a consistent order with equal strings tied.\<close>

locale collation =
  fixes loc :: "string \<Rightarrow> string \<Rightarrow> int"
  assumes loc_sym: "loc t s = - loc s t"
    and loc_trans: "loc s t \<le> 0 \<Longrightarrow> loc t u \<le> 0 \<Longrightarrow> loc s u \<le> 0"
begin

lemma loc_refl [simp]: "loc s s = 0"
  using loc_sym [of s s] by simp

lemma loc_total: "loc s t \<le> 0 \<or> loc t s \<le> 0"
  using loc_sym [of s t] by linarith

text \<open>A comparison by one numeric key, ties broken by a text.\<close>

lemma js_comparator_key_text:
  "js_comparator (\<lambda>x y. if n x = n y then loc (f x) (f y) else (n x :: int) - n y)"
    (is "js_comparator ?c")
proof
  show "?c x y \<le> 0 \<or> ?c y x \<le> 0" for x y
    using loc_total [of "f x" "f y"] by (cases "n x" "n y" rule: linorder_cases) auto
  show "?c x z \<le> 0" if "?c x y \<le> 0" "?c y z \<le> 0" for x y z
  proof (cases "n x = n y \<and> n y = n z")
    case True
    with that show ?thesis by (simp add: loc_trans [of "f x" "f y" "f z"])
  next
    case False
    with that show ?thesis by (auto split: if_splits)
  qed
qed

lemma js_comparator_text: "js_comparator (\<lambda>x y. loc (f x) (f y))"
  by unfold_locales (rule loc_total, rule loc_trans)

lemma signed_comparator_text: "signed_comparator (\<lambda>x y. loc (f x) (f y))"
  by unfold_locales (rule loc_total, rule loc_trans, assumption, assumption, rule loc_sym)

lemma js_comparator_text_desc: "js_comparator (\<lambda>x y. loc (f y) (f x))"
  by unfold_locales (rule loc_total, erule (1) loc_trans [rotated])

lemma js_comparator_text_desc_id:
  "js_comparator (\<lambda>x y. if loc (f y) (f x) = 0 then (n y :: int) - n x else loc (f y) (f x))"
proof
  show "(if loc (f y) (f x) = 0 then n y - n x else loc (f y) (f x)) \<le> 0
      \<or> (if loc (f x) (f y) = 0 then n x - n y else loc (f x) (f y)) \<le> 0" for x y
    using loc_sym [of "f x" "f y"] by auto
  fix x y z
  assume xy: "(if loc (f y) (f x) = 0 then n y - n x else loc (f y) (f x)) \<le> 0"
    and yz: "(if loc (f z) (f y) = 0 then n z - n y else loc (f z) (f y)) \<le> 0"
  from xy yz have le: "loc (f y) (f x) \<le> 0" "loc (f z) (f y) \<le> 0"
    by (auto split: if_splits)
  then have zx: "loc (f z) (f x) \<le> 0" by (blast intro: loc_trans)
  have "loc (f y) (f x) = 0" "loc (f z) (f y) = 0" if "loc (f z) (f x) = 0"
  proof -
    from that have "loc (f x) (f z) \<le> 0" using loc_sym [of "f z" "f x"] by simp
    then have "loc (f x) (f y) \<le> 0" "loc (f y) (f z) \<le> 0"
      using loc_trans [OF _ le(2)] loc_trans [OF le(1)] by simp_all
    with le show "loc (f y) (f x) = 0" "loc (f z) (f y) = 0"
      using loc_sym [of "f x" "f y"] loc_sym [of "f y" "f z"] by auto
  qed
  with xy yz zx show "(if loc (f z) (f x) = 0 then n z - n x else loc (f z) (f x)) \<le> 0"
    by (auto split: if_splits)
qed

end

text \<open>The code-unit order is one such collation; witnesses use it.\<close>

interpretation units: collation lex_cmp
  by unfold_locales (rule lex_cmp_sym, rule lex_cmp_trans)

lemma collation_lex_cmp: "collation lex_cmp"
  by (rule units.collation_axioms)

end
