(* ===== verification/CoreTypes.thy ===== *)
theory CoreTypes
  imports JsText
begin

text \<open>
  The data of \<^verbatim>\<open>src/src/core/types.ts\<close> and the contracts of \<^verbatim>\<open>src/src/api/contracts.ts\<close> that
  more than one component reads. A type of the source is a record or a datatype with the
  source's fields and alternatives, in its order; an optional field is an \<open>option\<close>. Field names
  carry the initial of their type, since selectors are global. Identifiers, counts and revisions
  are integers; measured values (progress, popularity, pixel sizes) are rationals.
\<close>

section \<open>\<^verbatim>\<open>core/types.ts\<close>\<close>

type_synonym gallery_id = int

datatype view_id = Explore | AutoFind | Downloads

datatype display_mode = DetailMode | CompactMode

datatype language = Korean | Japanese | Chinese | English

text \<open>The string that stands for a language.\<close>

fun language_name :: "language \<Rightarrow> string" where
  "language_name Korean = ''korean''"
| "language_name Japanese = ''japanese''"
| "language_name Chinese = ''chinese''"
| "language_name English = ''english''"

datatype search_sort =
  Recent | PopularToday | PopularWeek | PopularMonth | PopularYear | RandomOrder

datatype download_state =
    Queued | ResolvingMetadata | Downloading | Hashing | Verifying | RetryWait
  | ReviewRequired | Interrupted | Failed | Completed | Quarantined | Cancelled

datatype preview_mode = AutomaticPreview | ManualPreview

record gallery_preview =
  gp_galleryId :: gallery_id
  gp_mode :: preview_mode
  gp_sourcePage :: "int option"
  gp_manualSourcePage :: "int option"
  gp_entryId :: "string option"
  gp_width :: "int option"
  gp_height :: "int option"
  gp_candidates :: "int list"
  gp_algorithmVersion :: int
  gp_updatedAt :: string

datatype review_kind = GalleryDuplicate | InternalPages

record download_info =
  d_entryId :: string
  d_revision :: "int option"
  d_state :: download_state
  d_progress :: "rat option"
  d_attempt :: "int option"
  d_errorCode :: "string option"
  d_errorMessage :: "string option"
  d_reviewKind :: "review_kind option"
  d_reviewId :: "string option"
  d_createdAt :: "string option"
  d_updatedAt :: "string option"

record page_dimension =
  pd_sourcePage :: int
  pd_width :: "int option"
  pd_height :: "int option"

record gallery =
  g_id :: gallery_id
  g_title :: string
  g_subtitle :: string
  g_artist :: string
  g_artists :: "string list option"
  g_group :: "string option"
  g_pages :: int
  g_score :: rat
  g_publishedAt :: string
  g_coverIndex :: int
  g_language :: language
  g_languageKnown :: "bool option"
  g_tags :: "string list"
  g_tagsKnown :: "bool option"
  g_series :: "string list"
  g_characters :: "string list"
  g_thumbnailKey :: "string option"
  g_thumbnailWidth :: "int option"
  g_thumbnailHeight :: "int option"
  g_representativePreview :: "gallery_preview option"
  g_pageDimensions :: "page_dimension list option"
  g_relatedIds :: "gallery_id list option"
  g_favorite :: "bool option"
  g_download :: "download_info option"

record search_ui =
  su_draft :: string
  su_committed :: string
  su_languages :: "language list"
  su_suggestionsOpen :: bool
  su_activeSuggestion :: "int option"

record selection_state =
  sel_ids :: "gallery_id list"
  sel_anchorId :: "gallery_id option"

record detail_state =
  dt_tabs :: "gallery_id list"
  dt_activeId :: "gallery_id option"
  dt_minimized :: bool

datatype download_filter = FilterAll | FilterActive | FilterReview | FilterFailed | FilterComplete

datatype popularity_period = PToday | PWeek | PMonth | PYear

datatype download_sort = SortRecent | SortPopular popularity_period

datatype grouping_mode = GroupAll | GroupDay | GroupArtist

datatype grouping_view = GVAutoFind | GVDownloads

definition retryable_download_states :: "download_state list" where
  "retryable_download_states = [Interrupted, Failed, Cancelled]"

record ui_state =
  ui_view :: view_id
  ui_search :: "view_id \<Rightarrow> search_ui"
  ui_exploreSort :: search_sort
  ui_downloadsFilter :: download_filter
  ui_downloadsSort :: "download_sort option"
  ui_grouping :: "grouping_view \<Rightarrow> grouping_mode"
  ui_displayMode :: "view_id \<Rightarrow> display_mode"
  ui_selection :: selection_state
  ui_detail :: detail_state
  ui_reviewGalleryId :: "gallery_id option"

section \<open>\<^verbatim>\<open>api/contracts.ts\<close>\<close>

datatype api_error_action = ActRetry | ActReview | ActReconnect | ActReveal | ActNone

record api_error =
  ae_code :: string
  ae_message :: string
  ae_retryable :: bool
  ae_action :: "api_error_action option"
  ae_details :: "(string \<times> js_value) list option"

text \<open>\<^verbatim>\<open>ApiResult<T>\<close> is a sum with the error on the left.\<close>

type_synonym 'a api_result = "api_error + 'a"

record download_changed_event =
  ev_entryId :: string
  ev_galleryId :: gallery_id
  ev_revision :: int
  ev_state :: download_state
  ev_progress :: "rat option"
  ev_attempt :: "int option"
  ev_errorCode :: "string option"
  ev_errorMessage :: "string option"
  ev_errorRetryable :: "bool option"
  ev_reviewKind :: "review_kind option"
  ev_reviewId :: "string option"

record download_entry =
  de_entryId :: string
  de_galleryId :: gallery_id
  de_revision :: int
  de_state :: download_state
  de_progress :: "rat option"
  de_attempt :: "int option"
  de_errorCode :: "string option"
  de_errorMessage :: "string option"
  de_errorRetryable :: "bool option"
  de_reviewKind :: "review_kind option"
  de_reviewId :: "string option"
  de_createdAt :: "string option"
  de_updatedAt :: "string option"

record search_request =
  sr_text :: string
  sr_includeTags :: "string list"
  sr_excludeTags :: "string list"
  sr_languages :: "language list"
  sr_sort :: search_sort
  sr_pageSize :: int

text \<open>
  A summary as it arrives: the fields the projection trusts are typed, those it checks at run
  time (\<^verbatim>\<open>RuntimeGallerySummary\<close>) are values of type \<^verbatim>\<open>unknown\<close>.
\<close>

record gallery_summary =
  gs_id :: gallery_id
  gs_title :: string
  gs_artist :: string
  gs_artists :: js_value
  gs_group :: "string option"
  gs_pages :: int
  gs_language :: js_value
  gs_tags :: js_value
  gs_series :: js_value
  gs_characters :: js_value
  gs_publishedRank :: js_value
  gs_popularity :: js_value
  gs_thumbnailKey :: js_value
  gs_thumbnailWidth :: js_value
  gs_thumbnailHeight :: js_value

record gallery_page =
  pg_page :: int
  pg_totalPages :: int
  pg_items :: "gallery_summary list"

record search_submission =
  ss_queryId :: string
  ss_firstPage :: gallery_page

section \<open>Concrete values for examples\<close>

text \<open>An undownloaded gallery and an entry, the base of the worked examples.\<close>

definition sample_gallery :: "int \<Rightarrow> gallery" where
  "sample_gallery i = \<lparr>g_id = i, g_title = ''T'', g_subtitle = [], g_artist = ''a'',
     g_artists = None, g_group = None, g_pages = 10, g_score = 0,
     g_publishedAt = ''2024-01-01'', g_coverIndex = 0, g_language = Korean,
     g_languageKnown = None, g_tags = [], g_tagsKnown = None, g_series = [], g_characters = [],
     g_thumbnailKey = None, g_thumbnailWidth = None, g_thumbnailHeight = None,
     g_representativePreview = None, g_pageDimensions = None, g_relatedIds = None,
     g_favorite = None, g_download = None\<rparr>"

definition sample_download :: "string \<Rightarrow> int \<Rightarrow> download_state \<Rightarrow> download_info" where
  "sample_download e r st = \<lparr>d_entryId = e, d_revision = Some r, d_state = st, d_progress = None,
     d_attempt = None, d_errorCode = None, d_errorMessage = None, d_reviewKind = None,
     d_reviewId = None, d_createdAt = None, d_updatedAt = None\<rparr>"

definition sample_entry :: "string \<Rightarrow> int \<Rightarrow> int \<Rightarrow> download_state \<Rightarrow> download_entry" where
  "sample_entry e g r st = \<lparr>de_entryId = e, de_galleryId = g, de_revision = r, de_state = st,
     de_progress = None, de_attempt = None, de_errorCode = None, de_errorMessage = None,
     de_errorRetryable = None, de_reviewKind = None, de_reviewId = None, de_createdAt = None,
     de_updatedAt = None\<rparr>"

end
