(* ===== verification/UiState.thy ===== *)
theory UiState
  imports CoreTypes
begin

text \<open>
  The reducer of \<^verbatim>\<open>src/src/state/uiState.ts\<close>: view, search drafts, sorting, multi-selection with
  an anchor, and the detail tabs. \<open>uiReducer\<close> has one equation per \<^verbatim>\<open>case\<close> of the source. The
  selection is an insertion-ordered set, the tabs an array. The facts say which parts of the
  state are kept well formed by every action, and what selecting, opening and closing do.
\<close>

section \<open>State and actions\<close>

definition searchState :: search_ui where
  "searchState = \<lparr>su_draft = [], su_committed = [], su_languages = [Korean],
     su_suggestionsOpen = False, su_activeSuggestion = None\<rparr>"

definition emptySelection :: selection_state where
  "emptySelection = \<lparr>sel_ids = [], sel_anchorId = None\<rparr>"

definition initialUiState :: ui_state where
  "initialUiState = \<lparr>ui_view = Explore, ui_search = (\<lambda>_. searchState),
     ui_exploreSort = Recent, ui_downloadsFilter = FilterAll,
     ui_downloadsSort = Some SortRecent, ui_grouping = (\<lambda>_. GroupAll),
     ui_displayMode = (\<lambda>_. DetailMode), ui_selection = emptySelection,
     ui_detail = \<lparr>dt_tabs = [], dt_activeId = None, dt_minimized = False\<rparr>,
     ui_reviewGalleryId = None\<rparr>"

datatype ui_action =
    Navigate view_id
  | SearchDraft view_id string
  | SearchSuggestions view_id bool "int option"
  | SearchCommit view_id "string option"
  | SearchLanguages view_id "language list"
  | SortSet search_sort
  | DownloadsFilter download_filter
  | DownloadsSort download_sort
  | GroupingSet grouping_view grouping_mode
  | DisplayModeSet view_id display_mode
  | SelectionClick gallery_id "gallery_id list" bool bool
    \<comment> \<open>id, visible ids, ctrl, shift\<close>
  | SelectionRange gallery_id gallery_id "gallery_id list"
    \<comment> \<open>anchor, id, visible ids\<close>
  | SelectionClear
  | SelectionRetain "gallery_id list"
  | SelectionRestore "gallery_id list" "gallery_id option"
  | SelectionAll "gallery_id list"
  | DetailOpen gallery_id "gallery_id option" "bool option"
    \<comment> \<open>id, parent, activate\<close>
  | DetailActivate gallery_id
  | DetailClose gallery_id
  | DetailCloseAll
  | DetailMinimize bool
  | OverlayReview "gallery_id option"

section \<open>Operations\<close>

definition updateSearch :: "ui_state \<Rightarrow> view_id \<Rightarrow> (search_ui \<Rightarrow> search_ui) \<Rightarrow> ui_state" where
  "updateSearch s v patch = s\<lparr>ui_search := (ui_search s)(v := patch (ui_search s v))\<rparr>"

text \<open>The elements of \<^verbatim>\<open>visibleIds\<close> between two positions, both included, added in order.\<close>

definition add_range :: "gallery_id list \<Rightarrow> nat \<Rightarrow> nat \<Rightarrow> gallery_id list \<Rightarrow> gallery_id list" where
  "add_range visible a b ids =
     foldl (\<lambda>acc x. set_add x acc) ids (slice (min a b) (max a b + 1) visible)"

definition selectFromClick ::
  "ui_state \<Rightarrow> gallery_id \<Rightarrow> gallery_id list \<Rightarrow> bool \<Rightarrow> bool \<Rightarrow> ui_state" where
  "selectFromClick s i visible ctrl shift =
     (let selected = sel_ids (ui_selection s); anchor = sel_anchorId (ui_selection s)
      in if shift \<and> anchor \<noteq> None
         then (case (index_of (the anchor) visible, index_of i visible) of
                 (Some a, Some b) \<Rightarrow>
                   s\<lparr>ui_selection := \<lparr>sel_ids = add_range visible a b selected,
                                      sel_anchorId = anchor\<rparr>\<rparr>
               | _ \<Rightarrow> s\<lparr>ui_selection := \<lparr>sel_ids = selected, sel_anchorId = anchor\<rparr>\<rparr>)
         else if ctrl
         then s\<lparr>ui_selection :=
                \<lparr>sel_ids = (if i \<in> set selected then set_delete i selected else set_add i selected),
                 sel_anchorId = Some i\<rparr>\<rparr>
         else if length selected = 1 \<and> i \<in> set selected
         then s\<lparr>ui_selection := \<lparr>sel_ids = [], sel_anchorId = None\<rparr>\<rparr>
         else s\<lparr>ui_selection := \<lparr>sel_ids = [i], sel_anchorId = Some i\<rparr>\<rparr>)"

text \<open>\<^verbatim>\<open>tabs[index] ?? tabs[index - 1] ?? null\<close> over the remaining tabs; index \<open>-1\<close> reads nothing.\<close>

definition neighbour_tab :: "gallery_id list \<Rightarrow> nat option \<Rightarrow> gallery_id option" where
  "neighbour_tab tabs ix =
     (case ix of
        None \<Rightarrow> None
      | Some i \<Rightarrow>
          (case js_at tabs i of
             Some t \<Rightarrow> Some t
           | None \<Rightarrow> if i = 0 then None else js_at tabs (i - 1)))"

definition closeDetail :: "ui_state \<Rightarrow> gallery_id \<Rightarrow> ui_state" where
  "closeDetail s i =
     (let ix = index_of i (dt_tabs (ui_detail s));
          tabs = filter (\<lambda>t. t \<noteq> i) (dt_tabs (ui_detail s));
          active = dt_activeId (ui_detail s)
      in s\<lparr>ui_detail :=
             \<lparr>dt_tabs = tabs,
              dt_activeId = (if active = Some i then neighbour_tab tabs ix else active),
              dt_minimized = (if tabs \<noteq> [] then dt_minimized (ui_detail s) else False)\<rparr>\<rparr>)"

text \<open>\<^verbatim>\<open>tabs.splice(parentIndex + 1, 0, id)\<close> beside the parent, else \<^verbatim>\<open>tabs.push(id)\<close>.\<close>

definition insert_tab :: "gallery_id list \<Rightarrow> gallery_id option \<Rightarrow> gallery_id \<Rightarrow> gallery_id list" where
  "insert_tab tabs parent i =
     (case (case parent of None \<Rightarrow> None | Some p \<Rightarrow> index_of p tabs) of
        Some k \<Rightarrow> take (k + 1) tabs @ [i] @ drop (k + 1) tabs
      | None \<Rightarrow> tabs @ [i])"

definition openDetail :: "ui_state \<Rightarrow> gallery_id \<Rightarrow> gallery_id option \<Rightarrow> bool option \<Rightarrow> ui_state" where
  "openDetail s i parent activate =
     (let d = ui_detail s
      in if i \<in> set (dt_tabs d)
         then (if activate = Some False then s
               else s\<lparr>ui_detail := d\<lparr>dt_activeId := Some i, dt_minimized := False\<rparr>\<rparr>)
         else let tabs = insert_tab (dt_tabs d) parent i
              in if activate = Some False
                 then s\<lparr>ui_detail :=
                        d\<lparr>dt_tabs := tabs,
                          dt_activeId := (case dt_activeId d of None \<Rightarrow> Some i | Some a \<Rightarrow> Some a),
                          dt_minimized := (if dt_activeId d = None then True else dt_minimized d)\<rparr>\<rparr>
                 else s\<lparr>ui_detail :=
                        \<lparr>dt_tabs = tabs, dt_activeId = Some i, dt_minimized = False\<rparr>\<rparr>)"

definition retainSelection :: "ui_state \<Rightarrow> gallery_id list \<Rightarrow> ui_state" where
  "retainSelection s allowed =
     (let old = ui_selection s;
          ids = filter (\<lambda>x. x \<in> set allowed) (sel_ids old);
          anchor = (case sel_anchorId old of
                      Some a \<Rightarrow> if a \<in> set allowed then Some a else None
                    | None \<Rightarrow> None)
      in if length ids = length (sel_ids old) \<and> anchor = sel_anchorId old then s
         else s\<lparr>ui_selection := \<lparr>sel_ids = ids, sel_anchorId = anchor\<rparr>\<rparr>)"

definition selectRange :: "ui_state \<Rightarrow> gallery_id \<Rightarrow> gallery_id \<Rightarrow> gallery_id list \<Rightarrow> ui_state" where
  "selectRange s anchor i visible =
     (case (index_of anchor visible, index_of i visible) of
        (Some a, Some b) \<Rightarrow>
          s\<lparr>ui_selection := \<lparr>sel_ids = add_range visible a b (sel_ids (ui_selection s)),
                             sel_anchorId = Some anchor\<rparr>\<rparr>
      | _ \<Rightarrow> s)"

fun uiReducer :: "ui_state \<Rightarrow> ui_action \<Rightarrow> ui_state" where
  "uiReducer s (Navigate v) =
     s\<lparr>ui_view := v, ui_selection := emptySelection,
       ui_search := (ui_search s)(ui_view s :=
         (ui_search s (ui_view s))\<lparr>su_suggestionsOpen := False, su_activeSuggestion := None\<rparr>)\<rparr>"
| "uiReducer s (SearchDraft v x) =
     updateSearch s v (\<lambda>u. u\<lparr>su_draft := x, su_activeSuggestion := None\<rparr>)"
| "uiReducer s (SearchSuggestions v opn active) =
     updateSearch s v (\<lambda>u. u\<lparr>su_suggestionsOpen := opn, su_activeSuggestion := active\<rparr>)"
| "uiReducer s (SearchCommit v x) =
     (let y = (case x of Some z \<Rightarrow> z | None \<Rightarrow> su_draft (ui_search s v))
      in (updateSearch s v (\<lambda>u. u\<lparr>su_draft := y, su_committed := trim y,
            su_suggestionsOpen := False, su_activeSuggestion := None\<rparr>))
         \<lparr>ui_selection := emptySelection\<rparr>)"
| "uiReducer s (SearchLanguages v ls) =
     (updateSearch s v (\<lambda>u. u\<lparr>su_languages := ls\<rparr>))\<lparr>ui_selection := emptySelection\<rparr>"
| "uiReducer s (SortSet x) = s\<lparr>ui_exploreSort := x\<rparr>"
| "uiReducer s (DownloadsSort x) = s\<lparr>ui_downloadsSort := Some x\<rparr>"
| "uiReducer s (DownloadsFilter f) = s\<lparr>ui_downloadsFilter := f, ui_selection := emptySelection\<rparr>"
| "uiReducer s (GroupingSet v g) = s\<lparr>ui_grouping := (ui_grouping s)(v := g)\<rparr>"
| "uiReducer s (DisplayModeSet v m) = s\<lparr>ui_displayMode := (ui_displayMode s)(v := m)\<rparr>"
| "uiReducer s (SelectionClick i visible ctrl shift) = selectFromClick s i visible ctrl shift"
| "uiReducer s (SelectionRange anchor i visible) = selectRange s anchor i visible"
| "uiReducer s SelectionClear = s\<lparr>ui_selection := emptySelection\<rparr>"
| "uiReducer s (SelectionRetain ids) = retainSelection s ids"
| "uiReducer s (SelectionRestore ids anchor) =
     s\<lparr>ui_selection := \<lparr>sel_ids = set_from ids,
       sel_anchorId = (case anchor of
          Some a \<Rightarrow> if a \<in> set (set_from ids) then Some a else None
        | None \<Rightarrow> None)\<rparr>\<rparr>"
| "uiReducer s (SelectionAll ids) =
     s\<lparr>ui_selection := \<lparr>sel_ids = set_from ids, sel_anchorId = js_at ids 0\<rparr>\<rparr>"
| "uiReducer s (DetailOpen i parent activate) = openDetail s i parent activate"
| "uiReducer s (DetailActivate i) =
     s\<lparr>ui_detail := (ui_detail s)\<lparr>dt_activeId := Some i, dt_minimized := False\<rparr>\<rparr>"
| "uiReducer s (DetailClose i) = closeDetail s i"
| "uiReducer s DetailCloseAll =
     s\<lparr>ui_detail := \<lparr>dt_tabs = [], dt_activeId = None, dt_minimized = False\<rparr>\<rparr>"
| "uiReducer s (DetailMinimize b) = s\<lparr>ui_detail := (ui_detail s)\<lparr>dt_minimized := b\<rparr>\<rparr>"
| "uiReducer s (OverlayReview g) = s\<lparr>ui_reviewGalleryId := g\<rparr>"

section \<open>Selecting\<close>

lemma set_add_range: "set (add_range visible a b ids) = set ids \<union> set (slice (min a b) (max a b + 1) visible)"
  using foldl_set_add [of ids] by (auto simp: add_range_def)

lemma distinct_add_range: "distinct ids \<Longrightarrow> distinct (add_range visible a b ids)"
  using foldl_set_add [of ids] by (auto simp: add_range_def)

text \<open>What lies between two positions of an array.\<close>

lemma set_slice_between:
  assumes "a < length xs" and "b < length xs"
  shows "set (slice (min a b) (Suc (max a b)) xs) = {xs ! k | k. min a b \<le> k \<and> k \<le> max a b}"
proof -
  have "slice i (Suc j) xs = map ((!) xs) [i..<Suc j]" if "i \<le> j" "j < length xs" for i j
    using that by (auto simp: slice_def intro!: nth_equalityI simp del: upt_Suc)
  from this [of "min a b" "max a b"] assms
  have "slice (min a b) (Suc (max a b)) xs = map ((!) xs) [min a b..<Suc (max a b)]"
    by simp
  then show ?thesis by (auto simp: less_Suc_eq_le simp del: upt_Suc)
qed

lemma selectFromClick_shift:
  assumes "sel_anchorId (ui_selection s) = Some p"
    and "index_of p visible = Some a" and "index_of i visible = Some b"
  shows "set (sel_ids (ui_selection (selectFromClick s i visible ctrl True)))
      = set (sel_ids (ui_selection s)) \<union> {visible ! k | k. min a b \<le> k \<and> k \<le> max a b}"
    and "sel_anchorId (ui_selection (selectFromClick s i visible ctrl True)) = Some p"
  using assms index_of_Some [OF assms(2)] index_of_Some [OF assms(3)]
  by (simp_all add: selectFromClick_def set_add_range set_slice_between)

section \<open>Detail tabs\<close>

lemma set_insert_tab [simp]: "set (insert_tab tabs parent i) = insert i (set tabs)"
proof (cases "case parent of None \<Rightarrow> None | Some p \<Rightarrow> index_of p tabs")
  case (Some k)
  have "set tabs = set (take (k + 1) tabs) \<union> set (drop (k + 1) tabs)"
    by (metis append_take_drop_id set_append)
  with Some show ?thesis by (auto simp: insert_tab_def)
qed (auto simp: insert_tab_def)

lemma distinct_insert_tab: "distinct tabs \<Longrightarrow> i \<notin> set tabs \<Longrightarrow> distinct (insert_tab tabs parent i)"
proof -
  assume d: "distinct tabs" and i: "i \<notin> set tabs"
  have "mset (insert_tab tabs parent i) = add_mset i (mset tabs)"
  proof (cases "case parent of None \<Rightarrow> None | Some p \<Rightarrow> index_of p tabs")
    case (Some k)
    have "mset (take (k + 1) tabs) + mset (drop (k + 1) tabs) = mset tabs"
      by (metis append_take_drop_id mset_append)
    with Some show ?thesis by (simp add: insert_tab_def)
  qed (simp add: insert_tab_def)
  then have "mset (insert_tab tabs parent i) = mset (i # tabs)" by simp
  then show ?thesis using mset_eq_imp_distinct_iff d i by (metis distinct.simps(2))
qed

lemma index_of_split: "i \<notin> set xs \<Longrightarrow> index_of i (xs @ i # ys) = Some (length xs)"
  by (induction xs) (auto simp: index_of_def)

lemma filter_split: "i \<notin> set xs \<Longrightarrow> i \<notin> set ys \<Longrightarrow> filter (\<lambda>t. t \<noteq> i) (xs @ i # ys) = xs @ ys"
proof -
  assume "i \<notin> set xs" "i \<notin> set ys"
  then have "filter (\<lambda>t. t \<noteq> i) xs = xs" "filter (\<lambda>t. t \<noteq> i) ys = ys"
    by (auto simp: filter_id_conv)
  then show ?thesis by simp
qed

lemma neighbour_tab_split:
  "neighbour_tab (xs @ ys) (Some (length xs)) =
     (if ys \<noteq> [] then Some (hd ys) else if xs \<noteq> [] then Some (last xs) else None)"
  by (cases ys; cases xs rule: rev_cases) (auto simp: neighbour_tab_def js_at_def nth_append)

lemma closeDetail_tabs: "dt_tabs (ui_detail (closeDetail s i)) = filter (\<lambda>t. t \<noteq> i) (dt_tabs (ui_detail s))"
  by (simp add: closeDetail_def Let_def)

lemma closeDetail_active:
  assumes "dt_tabs (ui_detail s) = xs @ i # ys" and "i \<notin> set xs" and "i \<notin> set ys"
    and "dt_activeId (ui_detail s) = Some i"
  shows "dt_activeId (ui_detail (closeDetail s i)) =
     (if ys \<noteq> [] then Some (hd ys) else if xs \<noteq> [] then Some (last xs) else None)"
  using assms(1,4) filter_split [OF assms(2,3)] neighbour_tab_split [of xs ys]
  by (simp add: closeDetail_def Let_def index_of_split [OF assms(2)] del: filter_append filter.simps)

section \<open>Invariants\<close>

text \<open>No gallery is selected twice and none is open in two tabs.\<close>

definition ui_ok :: "ui_state \<Rightarrow> bool" where
  "ui_ok s \<longleftrightarrow> distinct (sel_ids (ui_selection s)) \<and> distinct (dt_tabs (ui_detail s))"

lemma ui_ok_selectFromClick: "ui_ok s \<Longrightarrow> ui_ok (selectFromClick s i visible ctrl shift)"
  by (auto simp: ui_ok_def selectFromClick_def Let_def distinct_add_range split: option.splits)

lemma ui_ok_selectRange: "ui_ok s \<Longrightarrow> ui_ok (selectRange s anchor i visible)"
  by (auto simp: ui_ok_def selectRange_def distinct_add_range split: option.splits)

lemma ui_ok_retainSelection: "ui_ok s \<Longrightarrow> ui_ok (retainSelection s ids)"
  by (auto simp: ui_ok_def retainSelection_def Let_def)

lemma ui_ok_openDetail: "ui_ok s \<Longrightarrow> ui_ok (openDetail s i parent activate)"
  by (auto simp: ui_ok_def openDetail_def Let_def distinct_insert_tab)

lemma ui_ok_closeDetail: "ui_ok s \<Longrightarrow> ui_ok (closeDetail s i)"
  by (auto simp: ui_ok_def closeDetail_def Let_def)

lemmas ui_ok_parts =
  ui_ok_selectFromClick ui_ok_selectRange ui_ok_retainSelection ui_ok_openDetail ui_ok_closeDetail

lemma ui_ok_step: "ui_ok s \<Longrightarrow> ui_ok (uiReducer s a)"
  by (cases a) (simp_all add: ui_ok_parts, simp_all add: ui_ok_def updateSearch_def emptySelection_def Let_def)

interpretation ui: machine uiReducer ui_ok initialUiState
proof
  show "ui_ok initialUiState"
    by (simp add: ui_ok_def initialUiState_def emptySelection_def)
qed (rule ui_ok_step)

text \<open>
  The active tab is an open one, and there is one whenever a tab is open. \<^verbatim>\<open>detail.activate\<close> does
  not check its argument, so the second invariant is about the runs that activate open tabs.
\<close>

definition detail_ok :: "ui_state \<Rightarrow> bool" where
  "detail_ok s \<longleftrightarrow>
     (case dt_activeId (ui_detail s) of
        Some a \<Rightarrow> a \<in> set (dt_tabs (ui_detail s))
      | None \<Rightarrow> dt_tabs (ui_detail s) = [])"

definition activates_ok :: "ui_state \<Rightarrow> ui_action \<Rightarrow> bool" where
  "activates_ok s a \<longleftrightarrow> (\<forall>i \<in> (case a of DetailActivate i \<Rightarrow> {i} | _ \<Rightarrow> {}). i \<in> set (dt_tabs (ui_detail s)))"

fun activates_open :: "ui_state \<Rightarrow> ui_action list \<Rightarrow> bool" where
  "activates_open s [] = True"
| "activates_open s (a # as) =
     (activates_ok s a \<and> activates_open (uiReducer s a) as)"

lemma detail_ok_closeDetail:
  assumes ok: "detail_ok s" and "ui_ok s"
  shows "detail_ok (closeDetail s i)"
proof (cases "dt_activeId (ui_detail s) = Some i")
  case True
  with ok have "i \<in> set (dt_tabs (ui_detail s))" by (simp add: detail_ok_def)
  then obtain xs ys where t: "dt_tabs (ui_detail s) = xs @ i # ys"
    by (meson split_list)
  with assms(2) have n: "i \<notin> set xs" "i \<notin> set ys" by (auto simp: ui_ok_def)
  show ?thesis
    using closeDetail_active [OF t n True] closeDetail_tabs [of s i] filter_split [OF n]
    by (auto simp: detail_ok_def t)
next
  case False
  with ok show ?thesis
    by (auto simp: detail_ok_def closeDetail_def Let_def filter_empty_conv split: option.splits)
qed

lemma detail_ok_openDetail: "detail_ok s \<Longrightarrow> detail_ok (openDetail s i parent activate)"
  by (auto simp: detail_ok_def openDetail_def Let_def split: option.splits)

lemma detail_selection_only:
  "ui_detail (selectFromClick s i visible ctrl shift) = ui_detail s"
  "ui_detail (selectRange s anchor i visible) = ui_detail s"
  "ui_detail (retainSelection s ids) = ui_detail s"
  "ui_detail (updateSearch s v f) = ui_detail s"
  by (auto simp: selectFromClick_def selectRange_def retainSelection_def updateSearch_def Let_def
      split: option.splits)

lemma detail_ok_step:
  assumes "detail_ok s" and "ui_ok s"
    and "activates_ok s a"
  shows "detail_ok (uiReducer s a)"
proof -
  have same: "ui_detail (uiReducer s a) = ui_detail s \<Longrightarrow> ?thesis"
    using assms(1) by (simp add: detail_ok_def split: option.splits)
  show ?thesis
  proof (cases a)
    case (DetailOpen i p b)
    with assms(1) show ?thesis by (simp add: detail_ok_openDetail)
  next
    case (DetailClose i)
    with assms(1,2) show ?thesis by (simp add: detail_ok_closeDetail)
  next
    case (DetailActivate i)
    with assms(3) show ?thesis by (simp add: detail_ok_def activates_ok_def)
  next
    case DetailCloseAll
    then show ?thesis by (simp add: detail_ok_def)
  next
    case (DetailMinimize b)
    with assms(1) show ?thesis by (simp add: detail_ok_def split: option.splits)
  qed (rule same, simp add: detail_selection_only Let_def)+
qed

lemma detail_ok_run: "detail_ok s \<Longrightarrow> ui_ok s \<Longrightarrow> activates_open s as \<Longrightarrow> detail_ok (foldl uiReducer s as)"
  by (induction as arbitrary: s) (auto intro: detail_ok_step ui_ok_step)

lemma retainSelection_subset:
  "sel_ids (ui_selection (retainSelection s allowed)) = filter (\<lambda>x. x \<in> set allowed) (sel_ids (ui_selection s))"
proof (cases "length (filter (\<lambda>x. x \<in> set allowed) (sel_ids (ui_selection s))) = length (sel_ids (ui_selection s))")
  case True
  then have "filter (\<lambda>x. x \<in> set allowed) (sel_ids (ui_selection s)) = sel_ids (ui_selection s)"
    by (metis filter_id_conv length_filter_less less_irrefl)
  then show ?thesis by (simp add: retainSelection_def Let_def)
qed (simp add: retainSelection_def Let_def)

section \<open>Properties\<close>

text \<open>In every state the reducer can reach, whatever the actions, no gallery is selected twice
  and none is open in two detail tabs.\<close>

theorem ui_reachable_ok:
  "distinct (sel_ids (ui_selection (foldl uiReducer initialUiState as)))
   \<and> distinct (dt_tabs (ui_detail (foldl uiReducer initialUiState as)))"
  using ui.inv_reachable by (simp add: ui_ok_def)

text \<open>C10: In every run that activates only open tabs, the active detail tab is one of the open
  tabs, and there is an active tab as long as one is open.\<close>

theorem active_tab_open:
  assumes "activates_open initialUiState as"
  shows "case dt_activeId (ui_detail (foldl uiReducer initialUiState as)) of
       Some a \<Rightarrow> a \<in> set (dt_tabs (ui_detail (foldl uiReducer initialUiState as)))
     | None \<Rightarrow> dt_tabs (ui_detail (foldl uiReducer initialUiState as)) = []"
proof -
  have "detail_ok initialUiState"
    by (simp add: detail_ok_def initialUiState_def)
  then have "detail_ok (foldl uiReducer initialUiState as)"
    using ui.inv_start assms by (rule detail_ok_run)
  then show ?thesis by (simp add: detail_ok_def)
qed

theorem active_tab_open_witness:
  "let as = [DetailOpen 7 None None, DetailOpen 8 (Some 7) (Some False), DetailActivate 8, DetailClose 8]
   in activates_open initialUiState as
      \<and> dt_activeId (ui_detail (foldl uiReducer initialUiState as)) = Some 7"
proof -
  let ?as = "[DetailOpen 7 None None, DetailOpen 8 (Some 7) (Some False), DetailActivate 8, DetailClose 8]"
  have h: "activates_open initialUiState ?as"
    by (simp add: activates_ok_def initialUiState_def openDetail_def insert_tab_def index_of_def Let_def)
  from active_tab_open [OF h] h show ?thesis
    by (simp add: initialUiState_def openDetail_def closeDetail_def insert_tab_def neighbour_tab_def
        index_of_def js_at_def Let_def)
qed

text \<open>Closing the active tab removes it and activates its right neighbour, or the left one when
  it was last, or none when it was the only one; the other tabs keep their order.\<close>

theorem close_active_tab:
  assumes "dt_tabs (ui_detail s) = xs @ i # ys" and "distinct (xs @ i # ys)"
    and "dt_activeId (ui_detail s) = Some i"
  shows "dt_tabs (ui_detail (uiReducer s (DetailClose i))) = xs @ ys
    \<and> dt_activeId (ui_detail (uiReducer s (DetailClose i))) =
       (if ys \<noteq> [] then Some (hd ys) else if xs \<noteq> [] then Some (last xs) else None)"
  using closeDetail_active [OF assms(1) _ _ assms(3)] closeDetail_tabs [of s i] assms(1,2)
    filter_split [of i xs ys] by simp

theorem close_active_tab_witness:
  "let s = initialUiState\<lparr>ui_detail := \<lparr>dt_tabs = [1, 2, 3], dt_activeId = Some 3, dt_minimized = False\<rparr>\<rparr>
   in dt_tabs (ui_detail (uiReducer s (DetailClose 3))) = [1, 2]
      \<and> dt_activeId (ui_detail (uiReducer s (DetailClose 3))) = Some 2"
  using close_active_tab [of "initialUiState\<lparr>ui_detail := \<lparr>dt_tabs = [1, 2, 3], dt_activeId = Some 3,
      dt_minimized = False\<rparr>\<rparr>" "[1, 2]" 3 "[]"] by simp

text \<open>A shift-click with an anchor adds to the selection exactly the visible galleries between
  the anchor and the clicked card, both included, in either direction, drops none, and keeps the
  anchor.\<close>

theorem shift_click_range:
  assumes "sel_anchorId (ui_selection s) = Some p"
    and "index_of p visible = Some a" and "index_of i visible = Some b"
  shows "set (sel_ids (ui_selection (uiReducer s (SelectionClick i visible ctrl True))))
      = set (sel_ids (ui_selection s)) \<union> {visible ! k | k. min a b \<le> k \<and> k \<le> max a b}
    \<and> sel_anchorId (ui_selection (uiReducer s (SelectionClick i visible ctrl True))) = Some p"
  using selectFromClick_shift [OF assms] by simp

theorem shift_click_range_witness:
  "let s = initialUiState\<lparr>ui_selection := \<lparr>sel_ids = [30], sel_anchorId = Some 30\<rparr>\<rparr>
   in 20 \<in> set (sel_ids (ui_selection (uiReducer s (SelectionClick 10 [10, 20, 30, 40] False True))))"
proof -
  let ?s = "initialUiState\<lparr>ui_selection := \<lparr>sel_ids = [30], sel_anchorId = Some 30\<rparr>\<rparr>"
  have "set (sel_ids (ui_selection (uiReducer ?s (SelectionClick 10 [10, 20, 30, 40] False True))))
     = {30} \<union> {[10, 20, 30, 40] ! k | k. min 2 0 \<le> k \<and> k \<le> max 2 (0 :: nat)}"
    using shift_click_range [of ?s 30 "[10, 20, 30, 40]" 2 10 0 False]
    by (simp add: index_of_def numeral_2_eq_2)
  then show ?thesis by (auto intro!: exI [of _ 1])
qed

end
