(* ===== verification/GalleryQuery.thy ===== *)
theory GalleryQuery
  imports CoreTypes
begin

text \<open>
  The search request machine of \<^verbatim>\<open>src/src/state/galleryQuery.ts\<close>: a submission is identified by
  a token, a page request by its query and page number, and an answer that matches neither is
  dropped. \<open>query_ok\<close> is what each phase promises about the other fields.
\<close>

datatype query_phase = Idle | Submitting | LoadingPage | Ready | ErrorPhase

record gallery_query_state =
  q_phase :: query_phase
  q_submitToken :: int
  q_queryId :: "string option"
  q_page :: "gallery_page option"
  q_pendingPage :: "int option"
  q_error :: "api_error option"

definition initialGalleryQueryState :: gallery_query_state where
  "initialGalleryQueryState = \<lparr>q_phase = Idle, q_submitToken = 0, q_queryId = None,
     q_page = None, q_pendingPage = None, q_error = None\<rparr>"

datatype gallery_query_action =
    SubmitStarted int
  | SubmitSucceeded int search_submission
  | SubmitFailed int api_error
  | PageStarted string int
  | PageSucceeded string gallery_page
  | PageFailed string int api_error
  | Restore gallery_query_state
  | Reset

fun galleryQueryReducer :: "gallery_query_state \<Rightarrow> gallery_query_action \<Rightarrow> gallery_query_state" where
  "galleryQueryReducer s (SubmitStarted t) =
     \<lparr>q_phase = Submitting, q_submitToken = t, q_queryId = None, q_page = None,
      q_pendingPage = None, q_error = None\<rparr>"
| "galleryQueryReducer s (SubmitSucceeded t sub) =
     (if t \<noteq> q_submitToken s \<or> q_phase s \<noteq> Submitting then s
      else s\<lparr>q_phase := Ready, q_queryId := Some (ss_queryId sub),
             q_page := Some (ss_firstPage sub), q_error := None\<rparr>)"
| "galleryQueryReducer s (SubmitFailed t e) =
     (if t \<noteq> q_submitToken s \<or> q_phase s \<noteq> Submitting then s
      else s\<lparr>q_phase := ErrorPhase, q_error := Some e\<rparr>)"
| "galleryQueryReducer s (PageStarted q n) =
     (if Some q \<noteq> q_queryId s then s
      else s\<lparr>q_phase := LoadingPage, q_pendingPage := Some n, q_error := None\<rparr>)"
| "galleryQueryReducer s (PageSucceeded q p) =
     (if Some q \<noteq> q_queryId s \<or> q_phase s \<noteq> LoadingPage \<or> Some (pg_page p) \<noteq> q_pendingPage s then s
      else s\<lparr>q_phase := Ready, q_page := Some p, q_pendingPage := None, q_error := None\<rparr>)"
| "galleryQueryReducer s (PageFailed q n e) =
     (if Some q \<noteq> q_queryId s \<or> q_phase s \<noteq> LoadingPage \<or> Some n \<noteq> q_pendingPage s then s
      else s\<lparr>q_phase := ErrorPhase, q_pendingPage := None, q_error := Some e\<rparr>)"
| "galleryQueryReducer s (Restore t) = t"
| "galleryQueryReducer s Reset = initialGalleryQueryState\<lparr>q_submitToken := q_submitToken s + 1\<rparr>"

section \<open>What each phase promises\<close>

definition query_ok :: "gallery_query_state \<Rightarrow> bool" where
  "query_ok s \<longleftrightarrow>
     (case q_phase s of
        Idle \<Rightarrow> q_queryId s = None \<and> q_page s = None \<and> q_pendingPage s = None \<and> q_error s = None
      | Submitting \<Rightarrow> q_queryId s = None \<and> q_page s = None \<and> q_pendingPage s = None \<and> q_error s = None
      | LoadingPage \<Rightarrow> q_queryId s \<noteq> None \<and> q_page s \<noteq> None \<and> q_pendingPage s \<noteq> None \<and> q_error s = None
      | Ready \<Rightarrow> q_queryId s \<noteq> None \<and> q_page s \<noteq> None \<and> q_pendingPage s = None \<and> q_error s = None
      | ErrorPhase \<Rightarrow> (q_queryId s = None \<longleftrightarrow> q_page s = None) \<and> q_pendingPage s = None
                      \<and> q_error s \<noteq> None)"

text \<open>A restored snapshot is one an earlier run of the machine produced.\<close>

fun restores_ok :: "gallery_query_action \<Rightarrow> bool" where
  "restores_ok (Restore t) = query_ok t"
| "restores_ok _ = True"

lemma query_ok_initial: "query_ok initialGalleryQueryState"
  by (simp add: query_ok_def initialGalleryQueryState_def)

lemma query_ok_step: "query_ok s \<Longrightarrow> restores_ok a \<Longrightarrow> query_ok (galleryQueryReducer s a)"
  by (cases a; cases "q_phase s"; cases "q_queryId s"; cases "q_page s";
      simp add: query_ok_def initialGalleryQueryState_def)

text \<open>The machine whose snapshots are restored only when they satisfy the invariant.\<close>

definition guarded_reducer ::
  "gallery_query_state \<Rightarrow> gallery_query_action \<Rightarrow> gallery_query_state" where
  "guarded_reducer s a = (if restores_ok a then galleryQueryReducer s a else s)"

interpretation query: machine guarded_reducer query_ok initialGalleryQueryState
  by unfold_locales (auto simp: query_ok_initial guarded_reducer_def query_ok_step)

lemma guarded_run:
  "\<forall>a \<in> set as. restores_ok a \<Longrightarrow> foldl galleryQueryReducer s as = foldl guarded_reducer s as"
  by (induction as arbitrary: s) (auto simp: guarded_reducer_def)

section \<open>Late answers\<close>

text \<open>An answer to anything but the submission or the page the machine waits for.\<close>

fun late_answer :: "gallery_query_state \<Rightarrow> gallery_query_action \<Rightarrow> bool" where
  "late_answer s (SubmitSucceeded t _) = (t \<noteq> q_submitToken s)"
| "late_answer s (SubmitFailed t _) = (t \<noteq> q_submitToken s)"
| "late_answer s (PageSucceeded q p) =
     (Some q \<noteq> q_queryId s \<or> Some (pg_page p) \<noteq> q_pendingPage s)"
| "late_answer s (PageFailed q n _) = (Some q \<noteq> q_queryId s \<or> Some n \<noteq> q_pendingPage s)"
| "late_answer s _ = False"

lemma late_answer_ignored: "late_answer s a \<Longrightarrow> galleryQueryReducer s a = s"
  by (cases a) auto

lemma late_answers_ignored:
  "\<forall>a \<in> set as. late_answer s a \<Longrightarrow> foldl galleryQueryReducer s as = s"
  by (induction as) (auto simp: late_answer_ignored)

section \<open>Properties\<close>

text \<open>In every run from the initial state, whatever the order of submissions, pages, failures,
  resets and restored snapshots of earlier runs, a page is present exactly when a query is, a page
  is pending exactly while one loads, and an error is held exactly in the error phase.\<close>

theorem gallery_query_phases:
  assumes "\<forall>a \<in> set as. restores_ok a"
  shows "query_ok (foldl galleryQueryReducer initialGalleryQueryState as)"
  using query.inv_reachable guarded_run [OF assms] by metis

definition sample_page :: gallery_page where
  "sample_page = \<lparr>pg_page = 1, pg_totalPages = 3, pg_items = []\<rparr>"

definition sample_submission :: search_submission where
  "sample_submission = \<lparr>ss_queryId = ''q'', ss_firstPage = sample_page\<rparr>"

theorem gallery_query_phases_witness:
  "let s = foldl galleryQueryReducer initialGalleryQueryState
       [SubmitStarted 1, SubmitSucceeded 1 sample_submission, PageStarted ''q'' 2]
   in query_ok s \<and> q_phase s = LoadingPage"
  using gallery_query_phases [of "[SubmitStarted 1, SubmitSucceeded 1 sample_submission, PageStarted ''q'' 2]"]
  by (simp add: sample_submission_def)

text \<open>What belongs to the query \<open>q\<close>: its page requests and their answers.\<close>

fun about_query :: "string \<Rightarrow> gallery_query_action \<Rightarrow> bool" where
  "about_query q (PageStarted q' _) = (q' = q)"
| "about_query q (PageSucceeded q' _) = (q' = q)"
| "about_query q (PageFailed q' _ _) = (q' = q)"
| "about_query q _ = False"

text \<open>Actions that neither replace the submission with token \<open>t\<close> nor answer it.\<close>

fun beside :: "int \<Rightarrow> gallery_query_action \<Rightarrow> bool" where
  "beside t (SubmitStarted _) = False"
| "beside t (SubmitSucceeded t' _) = (t' \<noteq> t)"
| "beside t (SubmitFailed t' _) = (t' \<noteq> t)"
| "beside t (Restore _) = False"
| "beside t Reset = False"
| "beside t _ = True"

text \<open>The page of \<open>q\<close> that was asked for last.\<close>

fun asked_page :: "string \<Rightarrow> gallery_query_action \<Rightarrow> int option" where
  "asked_page q (PageStarted q' n) = (if q' = q then Some n else None)"
| "asked_page q _ = None"

fun last_some :: "'a option list \<Rightarrow> 'a option" where
  "last_some [] = None"
| "last_some (x # xs) = or_else (last_some xs) x"

lemma or_else_None: "or_else x None = x"
  by (cases x) simp_all

lemma last_some_snoc [simp]: "last_some (xs @ [x]) = or_else x (last_some xs)"
  by (induction xs; cases x) (auto simp: or_else_None)

definition last_asked :: "string \<Rightarrow> gallery_query_action list \<Rightarrow> int option" where
  "last_asked q as = last_some (map (asked_page q) as)"

lemma waiting_unmoved:
  "list_all (beside t) as \<Longrightarrow>
   foldl galleryQueryReducer (galleryQueryReducer s (SubmitStarted t)) as = galleryQueryReducer s (SubmitStarted t)"
proof (induction as rule: rev_induct)
  case (snoc a as)
  then show ?case by (cases a) auto
qed simp

text \<open>What holds of the machine once the submission \<open>t\<close> was answered with the query \<open>q\<close> and its first page.\<close>

definition answered :: "int \<Rightarrow> string \<Rightarrow> gallery_page \<Rightarrow> gallery_query_action list \<Rightarrow> gallery_query_state \<Rightarrow> bool" where
  "answered t q first as s \<longleftrightarrow> q_submitToken s = t \<and> q_queryId s = Some q
     \<and> q_phase s \<in> {Ready, LoadingPage, ErrorPhase}
     \<and> (\<exists>p. q_page s = Some p \<and> (p = first \<or> PageSucceeded q p \<in> set as)
          \<and> (q_phase s = Ready \<longrightarrow> (case last_asked q as of None \<Rightarrow> p = first
               | Some n \<Rightarrow> pg_page p = n \<and> PageSucceeded q p \<in> set as)))
     \<and> (q_phase s = LoadingPage \<longrightarrow> q_pendingPage s = last_asked q as)
     \<and> (q_phase s \<noteq> LoadingPage \<longrightarrow> q_pendingPage s = None)
     \<and> (q_phase s = ErrorPhase \<longrightarrow> last_asked q as \<noteq> None)"

lemma last_asked_snoc: "last_asked q (as @ [a]) = (case asked_page q a of Some n \<Rightarrow> Some n | None \<Rightarrow> last_asked q as)"
  by (simp add: last_asked_def split: option.split)

lemma answered_unmoved: "answered t q first as s \<Longrightarrow> asked_page q a = None \<Longrightarrow> answered t q first (as @ [a]) s"
proof -
  assume a: "answered t q first as s" and "asked_page q a = None"
  then have l: "last_asked q (as @ [a]) = last_asked q as" by (simp add: last_asked_snoc)
  show ?thesis using a unfolding answered_def l by (cases "last_asked q as") auto
qed

lemma answered_started: "answered t q first as s \<Longrightarrow>
    answered t q first (as @ [PageStarted q n]) (s\<lparr>q_phase := LoadingPage, q_pendingPage := Some n, q_error := None\<rparr>)"
  by (auto simp: answered_def last_asked_snoc)

lemma answered_succeeded: "answered t q first as s \<Longrightarrow> q_phase s = LoadingPage \<Longrightarrow> Some (pg_page p) = q_pendingPage s \<Longrightarrow>
    answered t q first (as @ [PageSucceeded q p]) (s\<lparr>q_phase := Ready, q_page := Some p, q_pendingPage := None, q_error := None\<rparr>)"
  by (auto simp: answered_def last_asked_snoc split: option.splits)

lemma answered_failed: "answered t q first as s \<Longrightarrow> q_phase s = LoadingPage \<Longrightarrow> Some n = q_pendingPage s \<Longrightarrow>
    answered t q first (as @ [PageFailed q n e]) (s\<lparr>q_phase := ErrorPhase, q_pendingPage := None, q_error := Some e\<rparr>)"
  by (cases "last_asked q as") (auto simp: answered_def last_asked_snoc)

lemma answered_step:
  assumes "answered t q first as s" and "beside t a"
  shows "answered t q first (as @ [a]) (galleryQueryReducer s a)"
proof -
  have st: "q_submitToken s = t" "q_queryId s = Some q" using assms(1) by (simp_all add: answered_def)
  show ?thesis
  proof (cases a)
    case (PageStarted q' n)
    with assms(1) st show ?thesis by (auto intro: answered_started answered_unmoved)
  next
    case (PageSucceeded q' p)
    with assms(1) st show ?thesis by (auto intro: answered_succeeded answered_unmoved)
  next
    case (PageFailed q' n e)
    with assms(1) st show ?thesis by (auto intro: answered_failed answered_unmoved)
  qed (use assms st in \<open>auto intro: answered_unmoved\<close>)
qed

lemma other_queries_ignored:
  "answered t q first as s \<Longrightarrow> beside t a \<Longrightarrow> \<not> about_query q a \<Longrightarrow> galleryQueryReducer s a = s"
  by (cases a) (auto simp: answered_def)

lemma answered_run:
  "answered t q first as s \<Longrightarrow> list_all (beside t) cs \<Longrightarrow>
   answered t q first (as @ cs) (foldl galleryQueryReducer s cs)
   \<and> foldl galleryQueryReducer s cs = foldl galleryQueryReducer s (filter (about_query q) cs)"
proof (induction cs arbitrary: as s)
  case (Cons c cs)
  from Cons.prems have st: "answered t q first (as @ [c]) (galleryQueryReducer s c)" by (intro answered_step) simp_all
  from Cons.IH [OF st] Cons.prems other_queries_ignored [OF Cons.prems(1), of c] show ?case by auto
qed simp

text \<open>C7: The last submission wins. Once a search was submitted, and until the next submission, restore or reset, what is
  shown is this search and nothing else, whatever answers of earlier submissions and of other queries come and in whatever
  order: until its own answer comes nothing is shown; then its first page; from then on the machine is in the state it
  would be in had the actions of other queries never come, and when it is not loading or in error it shows the page of
  this query that was asked for last. (The submission has one answer.)\<close>

theorem last_submission_wins:
  fixes s :: gallery_query_state and sub :: search_submission
  assumes "list_all (beside t) before" and "list_all (beside t) later"
  defines "start \<equiv> galleryQueryReducer s (SubmitStarted t)"
    and "s' \<equiv> foldl galleryQueryReducer (galleryQueryReducer s (SubmitStarted t)) (before @ SubmitSucceeded t sub # later)"
  shows "foldl galleryQueryReducer start before = start \<and> q_page start = None
    \<and> s' = foldl galleryQueryReducer start (SubmitSucceeded t sub # filter (about_query (ss_queryId sub)) later)
    \<and> q_submitToken s' = t \<and> q_queryId s' = Some (ss_queryId sub)
    \<and> (\<exists>p. q_page s' = Some p
         \<and> (p = ss_firstPage sub \<or> PageSucceeded (ss_queryId sub) p \<in> set later)
         \<and> (q_phase s' = Ready \<longrightarrow> (case last_asked (ss_queryId sub) later of
              None \<Rightarrow> p = ss_firstPage sub
            | Some n \<Rightarrow> pg_page p = n \<and> PageSucceeded (ss_queryId sub) p \<in> set later)))"
proof -
  let ?a = "galleryQueryReducer start (SubmitSucceeded t sub)"
  have b: "foldl galleryQueryReducer start before = start" unfolding start_def by (rule waiting_unmoved [OF assms(1)])
  have "answered t (ss_queryId sub) (ss_firstPage sub) [] ?a" by (simp add: start_def answered_def last_asked_def)
  note r = answered_run [OF this assms(2)]
  have s': "s' = foldl galleryQueryReducer ?a later"
    unfolding s'_def start_def [symmetric] by (simp add: b)
  show ?thesis using r b s' by (auto simp: start_def answered_def)
qed

text \<open>An answer of an earlier submission, a page of an earlier query while the same page is awaited, and the page asked for.\<close>

theorem last_submission_wins_witness:
  "q_page (foldl galleryQueryReducer (galleryQueryReducer initialGalleryQueryState (SubmitStarted 2))
      ([SubmitSucceeded 1 sample_submission] @ SubmitSucceeded 2 (sample_submission\<lparr>ss_queryId := ''new''\<rparr>)
       # [PageStarted ''new'' 1, PageSucceeded ''q'' (sample_page\<lparr>pg_totalPages := 9\<rparr>), PageSucceeded ''new'' (sample_page\<lparr>pg_totalPages := 5\<rparr>)]))
   = Some (sample_page\<lparr>pg_totalPages := 5\<rparr>)"
proof -
  have b: "list_all (beside 2) [SubmitSucceeded 1 sample_submission]"
    and l: "list_all (beside 2) [PageStarted ''new'' 1, PageSucceeded ''q'' (sample_page\<lparr>pg_totalPages := 9\<rparr>),
      PageSucceeded ''new'' (sample_page\<lparr>pg_totalPages := 5\<rparr>)]" by simp_all
  from last_submission_wins [OF b l, of initialGalleryQueryState "sample_submission\<lparr>ss_queryId := ''new''\<rparr>"]
  show ?thesis by (simp add: sample_submission_def sample_page_def)
qed

end
