(* ===== verification/OverlapTypes.thy ===== *)
theory OverlapTypes
  imports CoreTypes
begin

text \<open>
  The records of a download overlap review (\<^verbatim>\<open>src/src/api/contracts.ts\<close>): an incoming edition,
  the saved editions it overlaps with, and for each of them the page pairs the analyser matched.
  Page numbers, counts and hash distances are integers; confidences, coverages and similarities
  are rationals.
\<close>

datatype overlap_relation =
    NearEquivalent | IncomingContainsExisting | ExistingContainsIncoming
  | PartialOverlap | TranslationEdition

record overlap_gallery_ref =
  or_entryId :: string
  or_galleryId :: gallery_id
  or_title :: string
  or_artists :: "string list"
  or_pageCount :: int

record overlap_page_pair =
  pp_incomingSourcePage :: int
  pp_existingSourcePage :: int
  pp_exactSha256 :: bool
  pp_dHashDistance :: int
  pp_pHashDistance :: int
  pp_detailHashDistance :: int
  pp_edgeSimilarity :: rat
  pp_visualSimilarity :: rat
  pp_lowInformation :: bool

datatype candidate_decision = KeepBoth | FalsePositive | ExistingRemoved

record overlap_candidate =
  oc_candidateId :: string
  oc_existing :: overlap_gallery_ref
  oc_existingFingerprint :: string
  oc_relation :: overlap_relation
  oc_confidence :: rat
  oc_matchedPages :: int
  oc_exactPages :: int
  oc_visualPages :: int
  oc_existingCoverage :: rat
  oc_incomingCoverage :: rat
  oc_existingUniquePages :: int
  oc_incomingUniquePages :: int
  oc_longestAlignedRun :: int
  oc_rank :: int
  oc_decision :: "candidate_decision option"
  oc_pagePairs :: "overlap_page_pair list"

datatype decision_action =
  KeepBothContinue | FalsePositiveContinue | RemoveExistingContinue | RemoveIncoming

datatype decision_actor = Human | Automation

record overlap_decision_audit =
  oa_candidateId :: "string option"
  oa_action :: decision_action
  oa_actor :: decision_actor
  oa_reasonCode :: "string option"
  oa_ruleVersion :: "int option"
  oa_featureSnapshotJson :: "string option"
  oa_createdAt :: string

datatype review_state = RPending | RResolved | RCancelled | RStale

record overlap_review =
  rv_reviewId :: string
  rv_entryId :: string
  rv_incoming :: overlap_gallery_ref
  rv_revision :: int
  rv_state :: review_state
  rv_profileVersion :: int
  rv_policyVersion :: int
  rv_incomingFingerprint :: string
  rv_candidates :: "overlap_candidate list"
  rv_decisions :: "overlap_decision_audit list option"
  rv_createdAt :: string
  rv_updatedAt :: string
  rv_resolvedAt :: "string option"

datatype merge_side = MExisting | MIncoming

fun other_side :: "merge_side \<Rightarrow> merge_side" where
  "other_side MExisting = MIncoming"
| "other_side MIncoming = MExisting"

text \<open>\<^verbatim>\<open>selectedPages\<close>: one list of page numbers for each side.\<close>

record merge_selection =
  ms_existing :: "int list"
  ms_incoming :: "int list"

record overlap_merge_request =
  mr_reviewId :: string
  mr_expectedRevision :: int
  mr_candidateId :: string
  mr_sourceSide :: merge_side
  mr_sourcePages :: "int list"
  mr_selectedPages :: "merge_selection option"
  mr_automation :: "bool option"
  mr_excludeSource :: "bool option"

text \<open>The page of a pair on one side.\<close>

fun pair_page :: "merge_side \<Rightarrow> overlap_page_pair \<Rightarrow> int" where
  "pair_page MExisting p = pp_existingSourcePage p"
| "pair_page MIncoming p = pp_incomingSourcePage p"

text \<open>Consecutive pairs advance on both sides.\<close>

fun ascending_pairs :: "overlap_page_pair list \<Rightarrow> bool" where
  "ascending_pairs [] = True"
| "ascending_pairs [_] = True"
| "ascending_pairs (p # q # ps) =
     (pp_incomingSourcePage q > pp_incomingSourcePage p
      \<and> pp_existingSourcePage q > pp_existingSourcePage p
      \<and> ascending_pairs (q # ps))"

definition pair_in_range :: "int \<Rightarrow> int \<Rightarrow> overlap_page_pair \<Rightarrow> bool" where
  "pair_in_range existing incoming p \<longleftrightarrow>
     1 \<le> pp_existingSourcePage p \<and> pp_existingSourcePage p \<le> existing
     \<and> 1 \<le> pp_incomingSourcePage p \<and> pp_incomingSourcePage p \<le> incoming"

lemma ascending_pairs_iff:
  "ascending_pairs ps \<longleftrightarrow>
     sorted_wrt (\<lambda>p q. pp_incomingSourcePage p < pp_incomingSourcePage q
                       \<and> pp_existingSourcePage p < pp_existingSourcePage q) ps"
  by (induction ps rule: ascending_pairs.induct) fastforce+

lemma ascending_pairs_Cons: "ascending_pairs (p # ps) \<Longrightarrow> ascending_pairs ps"
  by (cases ps) auto

lemma ascending_pairs_later:
  "ascending_pairs (p # ps) \<Longrightarrow> q \<in> set ps \<Longrightarrow> pair_page side p < pair_page side q"
  by (cases side) (auto simp: ascending_pairs_iff)

text \<open>Values for the worked examples.\<close>

definition sample_ref :: "string \<Rightarrow> int \<Rightarrow> string \<Rightarrow> int \<Rightarrow> overlap_gallery_ref" where
  "sample_ref e g title n =
     \<lparr>or_entryId = e, or_galleryId = g, or_title = title, or_artists = [], or_pageCount = n\<rparr>"

definition sample_pair :: "int \<Rightarrow> int \<Rightarrow> overlap_page_pair" where
  "sample_pair existing incoming =
     \<lparr>pp_incomingSourcePage = incoming, pp_existingSourcePage = existing, pp_exactSha256 = True,
      pp_dHashDistance = 0, pp_pHashDistance = 0, pp_detailHashDistance = 0,
      pp_edgeSimilarity = 1, pp_visualSimilarity = 1, pp_lowInformation = False\<rparr>"

definition sample_candidate ::
  "string \<Rightarrow> overlap_gallery_ref \<Rightarrow> overlap_relation \<Rightarrow> overlap_page_pair list \<Rightarrow> int \<Rightarrow> overlap_candidate" where
  "sample_candidate cid existing rel pairs incoming =
     (let n = int (length pairs)
      in \<lparr>oc_candidateId = cid, oc_existing = existing, oc_existingFingerprint = ''f'',
          oc_relation = rel, oc_confidence = 1, oc_matchedPages = n, oc_exactPages = n,
          oc_visualPages = 0, oc_existingCoverage = of_int n / of_int (or_pageCount existing),
          oc_incomingCoverage = of_int n / of_int incoming,
          oc_existingUniquePages = or_pageCount existing - n, oc_incomingUniquePages = incoming - n,
          oc_longestAlignedRun = n, oc_rank = 1, oc_decision = None, oc_pagePairs = pairs\<rparr>)"

definition sample_review :: "overlap_gallery_ref \<Rightarrow> overlap_candidate list \<Rightarrow> overlap_review" where
  "sample_review incoming cs =
     \<lparr>rv_reviewId = ''r'', rv_entryId = or_entryId incoming, rv_incoming = incoming,
      rv_revision = 1, rv_state = RPending, rv_profileVersion = 1, rv_policyVersion = 1,
      rv_incomingFingerprint = ''i'', rv_candidates = cs, rv_decisions = None,
      rv_createdAt = ''2024-01-01'', rv_updatedAt = ''2024-01-01'', rv_resolvedAt = None\<rparr>"

end
