(* ===== verification/OverlapAlignment.thy ===== *)
theory OverlapAlignment
  imports OverlapTypes
begin

text \<open>
  \<^verbatim>\<open>src/src/downloadOverlap/alignment.ts\<close>: the shared page axis on which two editions are
  compared side by side. The loop over the matched pairs threads the columns built so far and the
  next page of each side. The main facts: whatever the persisted pairs are, corrupt ones included,
  every page of each edition gets exactly one column, in page order; and the printed page ranges
  denote exactly the pages they were built from.
\<close>

section \<open>The axis\<close>

record alignment_column =
  col_key :: string
  col_existing :: "int option"
  col_incoming :: "int option"
  col_pair :: "overlap_page_pair option"

definition page_or_gap :: "int option \<Rightarrow> string" where
  "page_or_gap p = (case p of Some n \<Rightarrow> show_int n | None \<Rightarrow> ''gap'')"

text \<open>\<^verbatim>\<open>...(page ? { page } : {})\<close>: a zero is left out like an absent page.\<close>

definition truthy_page :: "int option \<Rightarrow> int option" where
  "truthy_page p = (case p of Some n \<Rightarrow> if n = 0 then None else Some n | None \<Rightarrow> None)"

definition unmatched_column :: "int \<Rightarrow> int \<Rightarrow> int \<Rightarrow> int \<Rightarrow> int \<Rightarrow> nat \<Rightarrow> alignment_column" where
  "unmatched_column es ec is ic index pos =
     (let e = (if index < ec then Some (es + index) else None);
          i = (if index < ic then Some (is + index) else None)
      in \<lparr>col_key = ''unique:'' @ page_or_gap e @ '':'' @ page_or_gap i @ '':'' @ show_nat pos,
          col_existing = truthy_page e, col_incoming = truthy_page i, col_pair = None\<rparr>)"

definition appendUnmatched ::
  "alignment_column list \<Rightarrow> int \<Rightarrow> int \<Rightarrow> int \<Rightarrow> int \<Rightarrow> alignment_column list" where
  "appendUnmatched columns es ec is ic =
     foldl (\<lambda>cols index. cols @ [unmatched_column es ec is ic (int index) (length cols)])
       columns [0..<nat (max ec ic)]"

definition match_column :: "overlap_page_pair \<Rightarrow> alignment_column" where
  "match_column p =
     \<lparr>col_key = ''match:'' @ show_int (pp_existingSourcePage p) @ '':'' @ show_int (pp_incomingSourcePage p),
      col_existing = Some (pp_existingSourcePage p), col_incoming = Some (pp_incomingSourcePage p),
      col_pair = Some p\<rparr>"

definition by_existing_then_incoming :: "overlap_page_pair \<Rightarrow> overlap_page_pair \<Rightarrow> int" where
  "by_existing_then_incoming l r =
     (let d = pp_existingSourcePage l - pp_existingSourcePage r
      in if d \<noteq> 0 then d else pp_incomingSourcePage l - pp_incomingSourcePage r)"

interpretation by_pages: js_comparator by_existing_then_incoming
  by unfold_locales (auto simp: by_existing_then_incoming_def Let_def split: if_splits)

text \<open>One iteration over a pair: columns so far, next existing page, next incoming page.\<close>

fun align_pair ::
  "alignment_column list \<times> int \<times> int \<Rightarrow> overlap_page_pair \<Rightarrow> alignment_column list \<times> int \<times> int" where
  "align_pair (cols, ne, ni) p =
     (if pp_existingSourcePage p < ne \<or> pp_incomingSourcePage p < ni then (cols, ne, ni)
      else (appendUnmatched cols ne (pp_existingSourcePage p - ne) ni (pp_incomingSourcePage p - ni)
              @ [match_column p],
            pp_existingSourcePage p + 1, pp_incomingSourcePage p + 1))"

definition usable_pairs :: "overlap_candidate \<Rightarrow> int \<Rightarrow> int \<Rightarrow> overlap_page_pair list" where
  "usable_pairs c existing incoming =
     js_sort by_existing_then_incoming (filter (pair_in_range existing incoming) (oc_pagePairs c))"

definition buildDownloadOverlapAlignment :: "overlap_candidate \<Rightarrow> int \<Rightarrow> alignment_column list" where
  "buildDownloadOverlapAlignment c incomingPageCount =
     (let existing = max 0 (or_pageCount (oc_existing c));
          incoming = max 0 incomingPageCount
      in case foldl align_pair ([], 1, 1) (usable_pairs c existing incoming) of
           (cols, ne, ni) \<Rightarrow>
             appendUnmatched cols ne (max 0 (existing - ne + 1)) ni (max 0 (incoming - ni + 1)))"

fun col_page :: "merge_side \<Rightarrow> alignment_column \<Rightarrow> int option" where
  "col_page MExisting c = col_existing c"
| "col_page MIncoming c = col_incoming c"

definition uniquePagesForSide :: "alignment_column list \<Rightarrow> merge_side \<Rightarrow> int list" where
  "uniquePagesForSide columns side =
     concat (map (\<lambda>c. if col_pair c \<noteq> None then []
                       else case truthy_page (col_page side c) of Some p \<Rightarrow> [p] | None \<Rightarrow> [])
               columns)"

section \<open>Every page has one column\<close>

text \<open>The pages the columns show for one side, from left to right.\<close>

definition side_pages :: "merge_side \<Rightarrow> alignment_column list \<Rightarrow> int list" where
  "side_pages side cols =
     concat (map (\<lambda>c. case col_page side c of Some p \<Rightarrow> [p] | None \<Rightarrow> []) cols)"

lemma side_pages_append [simp]: "side_pages side (xs @ ys) = side_pages side xs @ side_pages side ys"
  by (simp add: side_pages_def)

lemma side_pages_Nil [simp]: "side_pages side [] = []"
  by (simp add: side_pages_def)

lemma side_pages_match [simp]: "side_pages side [match_column p] = [pair_page side p]"
  by (cases side) (auto simp: side_pages_def match_column_def)

lemma unmatched_column_fields [simp]:
  "col_existing (unmatched_column es ec is ic index pos) = truthy_page (if index < ec then Some (es + index) else None)"
  "col_incoming (unmatched_column es ec is ic index pos) = truthy_page (if index < ic then Some (is + index) else None)"
  "col_pair (unmatched_column es ec is ic index pos) = None"
  by (simp_all add: unmatched_column_def Let_def)

lemma side_pages_unmatched:
  assumes "1 \<le> es" and "1 \<le> is" and "0 \<le> index"
  shows "side_pages MExisting [unmatched_column es ec is ic index pos] = (if index < ec then [es + index] else [])"
    and "side_pages MIncoming [unmatched_column es ec is ic index pos] = (if index < ic then [is + index] else [])"
  using assms by (auto simp: side_pages_def truthy_page_def)

lemma upto_grow: "[a..a + min (int n) (max 0 c) - 1] @ (if int n < c then [a + int n] else []) =
    [a..a + min (int (Suc n)) (max 0 c) - 1]"
proof (cases "int n < c")
  case True
  then have "min (int n) (max 0 c) = int n" "min (int (Suc n)) (max 0 c) = int n + 1" by auto
  then show ?thesis using True by (simp add: upto_rec2 [of a "a + int n"])
next
  case False
  then have "min (int n) (max 0 c) = min (int (Suc n)) (max 0 c)" by auto
  with False show ?thesis by simp
qed

lemma side_pages_unmatched_loop:
  assumes "1 \<le> es" and "1 \<le> is"
  shows "side_pages MExisting (foldl (\<lambda>cols index. cols @ [unmatched_column es ec is ic (int index) (length cols)])
           cols [0..<n]) = side_pages MExisting cols @ [es..es + min (int n) (max 0 ec) - 1]"
    and "side_pages MIncoming (foldl (\<lambda>cols index. cols @ [unmatched_column es ec is ic (int index) (length cols)])
           cols [0..<n]) = side_pages MIncoming cols @ [is..is + min (int n) (max 0 ic) - 1]"
proof (induction n)
  case (Suc n)
  note grow = upto_grow [of es n ec] upto_grow [of "is" n ic]
  {
    case 1
    show ?case
      using Suc(1) side_pages_unmatched(1) [OF assms, of "int n"] grow(1) by simp
  next
    case 2
    show ?case
      using Suc(2) side_pages_unmatched(2) [OF assms, of "int n"] grow(2) by simp
  }
qed auto

lemma side_pages_appendUnmatched:
  assumes "1 \<le> es" and "1 \<le> is" and "0 \<le> ec" and "0 \<le> ic"
  shows "side_pages MExisting (appendUnmatched cols es ec is ic) = side_pages MExisting cols @ [es..es + ec - 1]"
    and "side_pages MIncoming (appendUnmatched cols es ec is ic) = side_pages MIncoming cols @ [is..is + ic - 1]"
  using side_pages_unmatched_loop [OF assms(1,2)] assms(3,4)
  by (auto simp: appendUnmatched_def max_def min_def)

text \<open>The loop invariant: the columns hold each side's pages up to the next one.\<close>

definition aligned :: "alignment_column list \<times> int \<times> int \<Rightarrow> bool" where
  "aligned st = (case st of (cols, ne, ni) \<Rightarrow>
     1 \<le> ne \<and> 1 \<le> ni
     \<and> side_pages MExisting cols = [1..ne - 1] \<and> side_pages MIncoming cols = [1..ni - 1])"

lemma upto_join: "1 \<le> a \<Longrightarrow> a \<le> b \<Longrightarrow> [1..a - 1] @ [a..b - 1] @ [b :: int] = [1..b]"
proof -
  assume a: "1 \<le> a" "a \<le> b"
  then have "[1..b - 1] = [1..a - 1] @ [a..b - 1]"
    using upto_split1 [of 1 a "b - 1"] by (cases "a \<le> b - 1") auto
  with a show ?thesis by (simp add: upto_rec2 [of 1 b])
qed

lemma upto_join': "1 \<le> a \<Longrightarrow> a \<le> b + 1 \<Longrightarrow> [1..a - 1] @ [a..b] = [1..(b :: int)]"
  using upto_split1 [of 1 a b] by (cases "a = b + 1") auto

lemma aligned_step: "aligned st \<Longrightarrow> aligned (align_pair st p)"
proof (cases st)
  case (fields cols ne ni)
  assume "aligned st"
  with fields show ?thesis
    using upto_join [of ne "pp_existingSourcePage p"] upto_join [of ni "pp_incomingSourcePage p"]
    by (auto simp: aligned_def side_pages_appendUnmatched)
qed

interpretation alignment: machine align_pair aligned "([], 1, 1)"
  by unfold_locales (simp add: aligned_def, rule aligned_step)

text \<open>The next pages never pass the end of an edition.\<close>

definition next_within :: "int \<Rightarrow> int \<Rightarrow> alignment_column list \<times> int \<times> int \<Rightarrow> bool" where
  "next_within existing incoming st = (case st of (_, ne, ni) \<Rightarrow> ne \<le> existing + 1 \<and> ni \<le> incoming + 1)"

lemma next_within_step:
  "next_within e i st \<Longrightarrow> pair_in_range e i p \<Longrightarrow> next_within e i (align_pair st p)"
  by (cases st) (simp add: next_within_def pair_in_range_def)

lemma next_within_run:
  "next_within e i st \<Longrightarrow> \<forall>p \<in> set ps. pair_in_range e i p \<Longrightarrow> next_within e i (foldl align_pair st ps)"
  by (induction ps arbitrary: st) (simp_all add: next_within_step del: align_pair.simps)

lemma usable_pairs_in_range: "p \<in> set (usable_pairs c e i) \<Longrightarrow> pair_in_range e i p"
  by (simp add: usable_pairs_def)

lemma alignment_side_pages:
  "side_pages MExisting (buildDownloadOverlapAlignment c n) = [1..max 0 (or_pageCount (oc_existing c))]"
  "side_pages MIncoming (buildDownloadOverlapAlignment c n) = [1..max 0 n]"
proof -
  define e where "e = max 0 (or_pageCount (oc_existing c))"
  define i where "i = max 0 n"
  obtain cols ne ni where st: "foldl align_pair ([], 1, 1) (usable_pairs c e i) = (cols, ne, ni)"
    by (metis prod_cases3)
  have al: "aligned (cols, ne, ni)"
    using alignment.inv_reachable [of "usable_pairs c e i"] by (simp add: st)
  have "next_within e i ([], 1, 1)" by (simp add: next_within_def e_def i_def)
  then have nx: "ne \<le> e + 1 \<and> ni \<le> i + 1"
    using next_within_run [of e i "([], 1, 1)" "usable_pairs c e i"] usable_pairs_in_range
    by (auto simp: st next_within_def)
  have b: "buildDownloadOverlapAlignment c n =
      appendUnmatched cols ne (max 0 (e - ne + 1)) ni (max 0 (i - ni + 1))"
    by (simp add: buildDownloadOverlapAlignment_def Let_def st flip: e_def i_def)
  have "[1..ne - 1] @ [ne..e] = [1..e]" "[1..ni - 1] @ [ni..i] = [1..i]"
    using al nx by (simp_all add: aligned_def upto_join')
  moreover have "max 0 (e - ne + 1) = e - ne + 1" "max 0 (i - ni + 1) = i - ni + 1"
    using nx by auto
  ultimately have "side_pages MExisting (buildDownloadOverlapAlignment c n) = [1..e]"
    "side_pages MIncoming (buildDownloadOverlapAlignment c n) = [1..i]"
    using al nx by (simp_all add: b aligned_def side_pages_appendUnmatched)
  then show "side_pages MExisting (buildDownloadOverlapAlignment c n) = [1..max 0 (or_pageCount (oc_existing c))]"
    and "side_pages MIncoming (buildDownloadOverlapAlignment c n) = [1..max 0 n]"
    by (simp_all add: e_def i_def)
qed

section \<open>Unique pages\<close>

text \<open>A column is a matched pair with its two pages, or has no pair; no page is zero.\<close>

definition good_column :: "alignment_column \<Rightarrow> bool" where
  "good_column c \<longleftrightarrow>
     (case col_pair c of
        Some p \<Rightarrow> col_existing c = Some (pp_existingSourcePage p) \<and> col_incoming c = Some (pp_incomingSourcePage p)
      | None \<Rightarrow> True)"

definition matched_pages :: "merge_side \<Rightarrow> alignment_column list \<Rightarrow> int list" where
  "matched_pages side cols =
     concat (map (\<lambda>c. case col_pair c of Some p \<Rightarrow> [pair_page side p] | None \<Rightarrow> []) cols)"

lemma side_pages_split:
  assumes "\<forall>c \<in> set cols. good_column c" and "0 \<notin> set (side_pages side cols)"
  shows "mset (side_pages side cols) = mset (uniquePagesForSide cols side) + mset (matched_pages side cols)"
  using assms
proof (induction cols)
  case (Cons c cols)
  have tl: "0 \<notin> set (side_pages side cols)"
    and hd: "0 \<notin> set (side_pages side [c])"
    using Cons.prems(2) side_pages_append [of side "[c]" cols] by auto
  have "mset (side_pages side [c]) = mset (uniquePagesForSide [c] side) + mset (matched_pages side [c])"
    using Cons.prems(1) hd
    by (cases side; cases "col_pair c")
       (auto simp: side_pages_def uniquePagesForSide_def matched_pages_def good_column_def
          truthy_page_def split: option.splits)
  moreover have "side_pages side (c # cols) = side_pages side [c] @ side_pages side cols"
    "uniquePagesForSide (c # cols) side = uniquePagesForSide [c] side @ uniquePagesForSide cols side"
    "matched_pages side (c # cols) = matched_pages side [c] @ matched_pages side cols"
    by (simp_all add: side_pages_def uniquePagesForSide_def matched_pages_def)
  ultimately show ?case using Cons tl by simp
qed (auto simp: side_pages_def uniquePagesForSide_def matched_pages_def)

lemma good_unmatched_loop:
  "\<forall>c \<in> set cols. good_column c \<Longrightarrow>
   \<forall>c \<in> set (foldl (\<lambda>cols index. cols @ [unmatched_column es ec is ic (int index) (length cols)]) cols ns).
     good_column c"
proof (induction ns arbitrary: cols)
  case (Cons n ns)
  have "\<forall>c \<in> set (cols @ [unmatched_column es ec is ic (int n) (length cols)]). good_column c"
    using Cons.prems by (auto simp: good_column_def)
  from Cons.IH [OF this] show ?case by simp
qed simp

lemma good_appendUnmatched:
  "\<forall>c \<in> set cols. good_column c \<Longrightarrow> \<forall>c \<in> set (appendUnmatched cols es ec is ic). good_column c"
  unfolding appendUnmatched_def by (rule good_unmatched_loop)

lemma good_align_run:
  "\<forall>c \<in> set (fst st). good_column c \<Longrightarrow> \<forall>c \<in> set (fst (foldl align_pair st ps)). good_column c"
proof (induction ps arbitrary: st)
  case (Cons p ps)
  obtain cols ne ni where st: "st = (cols, ne, ni)" by (metis prod_cases3)
  have "\<forall>c \<in> set (fst (align_pair st p)). good_column c"
    using Cons.prems good_appendUnmatched [of cols] by (auto simp: st match_column_def good_column_def)
  then show ?case using Cons.IH by simp
qed simp

lemma good_alignment: "\<forall>c \<in> set (buildDownloadOverlapAlignment c n). good_column c"
proof -
  obtain cols ne ni where st: "foldl align_pair ([], 1, 1)
      (usable_pairs c (max 0 (or_pageCount (oc_existing c))) (max 0 n)) = (cols, ne, ni)"
    by (metis prod_cases3)
  have "\<forall>c \<in> set cols. good_column c"
    using good_align_run [of "([], 1, 1)" "usable_pairs c (max 0 (or_pageCount (oc_existing c))) (max 0 n)"]
    by (simp add: st)
  then show ?thesis
    unfolding buildDownloadOverlapAlignment_def Let_def st prod.case by (rule good_appendUnmatched)
qed

section \<open>Page ranges\<close>

text \<open>The loop of \<^verbatim>\<open>formatPageRanges\<close> over a sorted list: the open range, then the rest.\<close>

fun collect_ranges :: "int \<Rightarrow> int \<Rightarrow> int list \<Rightarrow> (int \<times> int) list" where
  "collect_ranges st la [] = [(st, la)]"
| "collect_ranges st la (page # pages) =
     (if page = la + 1 then collect_ranges st page pages
      else (st, la) # collect_ranges page page pages)"

definition format_range :: "int \<times> int \<Rightarrow> string" where
  "format_range r = (if fst r = snd r then show_int (fst r) @ ''p''
                     else show_int (fst r) @ ''~'' @ show_int (snd r) @ ''p'')"

definition page_ranges :: "int list \<Rightarrow> (int \<times> int) list" where
  "page_ranges pages =
     (case js_sort by_number (set_from pages) of
        [] \<Rightarrow> []
      | p # ps \<Rightarrow> collect_ranges p p ps)"

text \<open>The text for no pages is the Korean word for none.\<close>

definition none_label :: string where
  "none_label = [CHR 0xEC, CHR 0x97, CHR 0x86, CHR 0xEC, CHR 0x9D, CHR 0x8C]"

definition formatPageRanges :: "int list \<Rightarrow> string" where
  "formatPageRanges pages =
     (case page_ranges pages of
        [] \<Rightarrow> none_label
      | rs \<Rightarrow> join '', '' (map format_range rs))"

definition expand_ranges :: "(int \<times> int) list \<Rightarrow> int list" where
  "expand_ranges rs = concat (map (\<lambda>r. [fst r..snd r]) rs)"

lemma expand_collect_ranges:
  "st \<le> la \<Longrightarrow> expand_ranges (collect_ranges st la pages) = [st..la] @ pages"
proof (induction st la pages rule: collect_ranges.induct)
  case (2 st la page pages)
  then show ?case by (auto simp: expand_ranges_def upto_rec2 [of st "la + 1"])
qed (simp add: expand_ranges_def)

lemma expand_page_ranges: "expand_ranges (page_ranges pages) = sort (set_from pages)"
proof (cases "sort (set_from pages)")
  case (Cons p ps)
  then show ?thesis
    using expand_collect_ranges [of p p ps] by (simp add: page_ranges_def js_sort_by_number_eq)
qed (simp add: page_ranges_def js_sort_by_number_eq expand_ranges_def)

text \<open>Ranges are non-empty, and between two of them a page is missing.\<close>

fun separated :: "(int \<times> int) list \<Rightarrow> bool" where
  "separated [] = True"
| "separated [r] = (fst r \<le> snd r)"
| "separated (r # q # rs) = (fst r \<le> snd r \<and> snd r + 1 < fst q \<and> separated (q # rs))"

lemma collect_ranges_hd: "collect_ranges st la pages \<noteq> [] \<and> fst (hd (collect_ranges st la pages)) = st"
  by (induction st la pages rule: collect_ranges.induct) auto

lemma separated_Cons:
  "rs \<noteq> [] \<Longrightarrow> separated (r # rs) \<longleftrightarrow> fst r \<le> snd r \<and> snd r + 1 < fst (hd rs) \<and> separated rs"
  by (cases rs) auto

lemma separated_collect:
  "st \<le> la \<Longrightarrow> sorted_wrt (<) (la # pages) \<Longrightarrow> separated (collect_ranges st la pages)"
proof (induction st la pages rule: collect_ranges.induct)
  case (2 st la page pages)
  show ?case
  proof (cases "page = la + 1")
    case True
    with 2 show ?thesis by simp
  next
    case False
    then have "separated (collect_ranges page page pages)" using 2 by simp
    with 2 False collect_ranges_hd [of page page pages] show ?thesis
      by (simp add: separated_Cons)
  qed
qed simp

lemma separated_page_ranges: "separated (page_ranges pages)"
proof -
  have "sorted_wrt (<) (sort (set_from pages))"
    by (simp add: strict_sorted_iff)
  then show ?thesis
    by (auto simp: page_ranges_def js_sort_by_number_eq intro!: separated_collect
        split: list.splits)
qed

section \<open>Properties\<close>

text \<open>The comparison axis shows every page of both editions exactly once and in page order,
  whatever the stored pairs are, corrupt, repeated or out of range ones included.\<close>

theorem alignment_complete:
  "side_pages MExisting (buildDownloadOverlapAlignment c n) = [1..max 0 (or_pageCount (oc_existing c))]
   \<and> side_pages MIncoming (buildDownloadOverlapAlignment c n) = [1..max 0 n]"
  using alignment_side_pages by blast

text \<open>On each side the pages reported as unique and the pages shown in a matched column are
  together the pages of the edition, each counted once.\<close>

theorem alignment_unique_pages:
  "mset (uniquePagesForSide (buildDownloadOverlapAlignment c n) side)
     + mset (matched_pages side (buildDownloadOverlapAlignment c n))
   = mset [1..(case side of MExisting \<Rightarrow> max 0 (or_pageCount (oc_existing c)) | MIncoming \<Rightarrow> max 0 n)]"
proof (cases side)
  case MExisting
  then show ?thesis
    using side_pages_split [OF good_alignment, of MExisting c n] alignment_side_pages(1) [of c n] by simp
next
  case MIncoming
  then show ?thesis
    using side_pages_split [OF good_alignment, of MIncoming c n] alignment_side_pages(2) [of c n] by simp
qed

text \<open>The printed ranges are exactly the given pages: expanded they are the pages sorted without
  repetition, each range is non-empty, and between two ranges at least one page is missing, so no
  two could be printed as one.\<close>

theorem page_ranges_exact:
  "expand_ranges (page_ranges pages) = sort (remdups pages) \<and> separated (page_ranges pages)"
proof -
  have "sort (set_from pages) = sort (remdups pages)"
    by (metis distinct_remdups distinct_set_from set_eq_iff_mset_eq_distinct set_remdups
        set_set_from properties_for_sort mset_sort sorted_sort)
  then show ?thesis by (simp add: expand_page_ranges separated_page_ranges)
qed

end
