(* ===== verification/MergeSelection.thy ===== *)
theory MergeSelection
  imports OverlapTypes
begin

text \<open>
  \<^verbatim>\<open>src/src/downloadOverlap/mergeSelection.ts\<close>: choosing, page by page, which edition's bytes a
  merged album keeps. \<open>selectMergePages\<close> toggles one page or adds a range and takes the selected
  counterparts off the other side; \<open>mergeOutputPages\<close> validates a request, each check an error
  value, and computes the page list of the merged album.
\<close>

section \<open>Selecting pages\<close>

definition emptyMergeSelection :: merge_selection where
  "emptyMergeSelection = \<lparr>ms_existing = [], ms_incoming = []\<rparr>"

fun selected_on :: "merge_side \<Rightarrow> merge_selection \<Rightarrow> int list" where
  "selected_on MExisting sel = ms_existing sel"
| "selected_on MIncoming sel = ms_incoming sel"

fun selection_of :: "merge_side \<Rightarrow> int list \<Rightarrow> int list \<Rightarrow> merge_selection" where
  "selection_of MExisting own opposite = \<lparr>ms_existing = own, ms_incoming = opposite\<rparr>"
| "selection_of MIncoming own opposite = \<lparr>ms_existing = opposite, ms_incoming = own\<rparr>"

text \<open>The loop body that adds a page and drops its counterpart from the other side.\<close>

definition add_page ::
  "overlap_candidate \<Rightarrow> merge_side \<Rightarrow> int list \<times> int list \<Rightarrow> int \<Rightarrow> int list \<times> int list" where
  "add_page c side st number =
     (case st of (own, opposite) \<Rightarrow>
        (set_add number own,
         case find (\<lambda>p. pair_page side p = number) (oc_pagePairs c) of
           Some p \<Rightarrow> set_delete (pair_page (other_side side) p) opposite
         | None \<Rightarrow> opposite))"

definition selectMergePages ::
  "overlap_candidate \<Rightarrow> merge_selection \<Rightarrow> merge_side \<Rightarrow> int \<Rightarrow> (merge_side \<times> int) option \<Rightarrow> bool
   \<Rightarrow> merge_selection" where
  "selectMergePages c sel side page anchor byRange =
     (let own = set_from (selected_on side sel);
          opposite = set_from (selected_on (other_side side) sel);
          ranged = (byRange \<and> (case anchor of Some (sd, _) \<Rightarrow> sd = side | None \<Rightarrow> False));
          start = (if ranged then min (snd (the anchor)) page else page);
          stop = (if ranged then max (snd (the anchor)) page else page);
          rem = (\<not> byRange \<and> page \<in> set own);
          result = (if rem then (foldl (\<lambda>acc n. set_delete n acc) own [start..stop], opposite)
                    else foldl (add_page c side) (own, opposite) [start..stop])
      in selection_of side (js_sort by_number (fst result)) (js_sort by_number (snd result)))"

section \<open>The merged album\<close>

datatype merge_error = CountsChanged | OrderInvalid | SelectionInvalid | BothSelected

definition side_count :: "overlap_candidate \<Rightarrow> int \<Rightarrow> merge_side \<Rightarrow> int" where
  "side_count c incomingCount side =
     (case side of MExisting \<Rightarrow> or_pageCount (oc_existing c) | MIncoming \<Rightarrow> incomingCount)"

definition by_existing :: "overlap_page_pair \<Rightarrow> overlap_page_pair \<Rightarrow> int" where
  "by_existing a b = pp_existingSourcePage a - pp_existingSourcePage b"

interpretation by_existing: js_comparator by_existing
  by unfold_locales (auto simp: by_existing_def)

definition valid_pages :: "int \<Rightarrow> int list \<Rightarrow> bool" where
  "valid_pages n ps \<longleftrightarrow>
     distinct ps \<and> (\<forall>p \<in> set ps. \<bar>p\<bar> \<le> max_safe_integer \<and> 1 \<le> p \<and> p \<le> n)"

text \<open>
  The two \<^verbatim>\<open>while\<close> loops before a pair push the target pages up to the pair and the selected
  source pages up to it; then the pair takes one slot. After the last pair both sides are drained.
\<close>

fun merge_loop ::
  "merge_side \<Rightarrow> (int \<Rightarrow> bool) \<Rightarrow> int \<Rightarrow> int \<Rightarrow> overlap_page_pair list \<Rightarrow> int \<Rightarrow> int \<Rightarrow> (merge_side \<times> int) list" where
  "merge_loop source chosen countT countS [] t s =
     map (Pair (other_side source)) [t..countT] @ map (Pair source) (filter chosen [s..countS])"
| "merge_loop source chosen countT countS (p # ps) t s =
     (let tp = pair_page (other_side source) p; sp = pair_page source p;
          t' = max t tp; s' = max s sp
      in map (Pair (other_side source)) [t..tp - 1]
         @ map (Pair source) (filter chosen [s..sp - 1])
         @ (if chosen s' then (source, s') else (other_side source, t'))
         # merge_loop source chosen countT countS ps (t' + 1) (s' + 1))"

definition mergeOutputPages ::
  "overlap_candidate \<Rightarrow> int \<Rightarrow> merge_side \<Rightarrow> merge_selection option \<Rightarrow> merge_error + (merge_side \<times> int) list" where
  "mergeOutputPages c incomingCount source selectedPages =
     (let selected = (case selectedPages of Some s \<Rightarrow> s | None \<Rightarrow> emptyMergeSelection);
          cnt = side_count c incomingCount;
          pairs = js_sort by_existing (oc_pagePairs c);
          n = int (length pairs)
      in if oc_matchedPages c \<noteq> n \<or> oc_existingUniquePages c \<noteq> cnt MExisting - n
            \<or> oc_incomingUniquePages c \<noteq> cnt MIncoming - n
         then Inl CountsChanged
         else if pairs = [] \<or> \<not> (\<forall>p \<in> set pairs. pair_in_range (cnt MExisting) (cnt MIncoming) p)
            \<or> \<not> ascending_pairs pairs
         then Inl OrderInvalid
         else if \<not> valid_pages (cnt MExisting) (ms_existing selected)
            \<or> \<not> valid_pages (cnt MIncoming) (ms_incoming selected)
         then Inl SelectionInvalid
         else if \<exists>p \<in> set pairs. pp_existingSourcePage p \<in> set (ms_existing selected)
                                  \<and> pp_incomingSourcePage p \<in> set (ms_incoming selected)
         then Inl BothSelected
         else Inr (merge_loop source (\<lambda>p. p \<in> set (selected_on source selected))
                     (cnt (other_side source)) (cnt source) pairs 1 1))"

section \<open>Selections stay exclusive\<close>

lemma other_side_simps [simp]:
  "other_side side \<noteq> side" "side \<noteq> other_side side" "other_side (other_side side) = side"
  by (cases side; simp)+

lemma selected_on_selection_of [simp]:
  "selected_on side (selection_of side a b) = a"
  "selected_on (other_side side) (selection_of side a b) = b"
  by (cases side; simp)+

text \<open>No matched pair is chosen on both sides.\<close>

definition exclusive :: "overlap_candidate \<Rightarrow> merge_side \<Rightarrow> int list \<times> int list \<Rightarrow> bool" where
  "exclusive c side st \<longleftrightarrow>
     (\<forall>p \<in> set (oc_pagePairs c). \<not> (pair_page side p \<in> set (fst st) \<and> pair_page (other_side side) p \<in> set (snd st)))"

lemma find_pair:
  "ascending_pairs ps \<Longrightarrow> p \<in> set ps \<Longrightarrow> find (\<lambda>q. pair_page side q = pair_page side p) ps = Some p"
proof (induction ps)
  case (Cons q ps)
  show ?case
  proof (cases "p = q")
    case False
    with Cons.prems have p: "p \<in> set ps" by simp
    with ascending_pairs_later [OF Cons.prems(1) p, of side] ascending_pairs_Cons [OF Cons.prems(1)] Cons.IH
    show ?thesis by simp
  qed simp
qed simp

lemma exclusive_add_page:
  assumes asc: "ascending_pairs (oc_pagePairs c)" and ex: "exclusive c side st"
  shows "exclusive c side (add_page c side st n)"
  unfolding exclusive_def
proof
  fix p
  assume p: "p \<in> set (oc_pagePairs c)"
  show "\<not> (pair_page side p \<in> set (fst (add_page c side st n))
           \<and> pair_page (other_side side) p \<in> set (snd (add_page c side st n)))"
  proof (cases "pair_page side p = n")
    case True
    then show ?thesis
      using find_pair [OF asc p, of side] by (auto simp: add_page_def split: prod.splits)
  next
    case False
    with ex p show ?thesis
      by (auto simp: add_page_def exclusive_def split: prod.splits option.splits)
  qed
qed

lemma exclusive_add_pages:
  "ascending_pairs (oc_pagePairs c) \<Longrightarrow> exclusive c side st \<Longrightarrow> exclusive c side (foldl (add_page c side) st ns)"
proof (induction ns arbitrary: st)
  case (Cons n ns)
  then show ?case using exclusive_add_page [of c side st n] by simp
qed simp

lemma foldl_set_delete: "set (foldl (\<lambda>acc n. set_delete n acc) own ns) = set own - set ns"
  by (induction ns arbitrary: own) auto

lemma exclusive_subset:
  "exclusive c side (own, opp) \<Longrightarrow> set own' \<subseteq> set own \<Longrightarrow> exclusive c side (own', opp)"
  by (auto simp: exclusive_def)

definition exclusive_selection :: "overlap_candidate \<Rightarrow> merge_selection \<Rightarrow> bool" where
  "exclusive_selection c sel \<longleftrightarrow>
     (\<forall>p \<in> set (oc_pagePairs c).
        \<not> (pp_existingSourcePage p \<in> set (ms_existing sel) \<and> pp_incomingSourcePage p \<in> set (ms_incoming sel)))"

lemma exclusive_selection_iff:
  "exclusive_selection c sel \<longleftrightarrow> exclusive c side (selected_on side sel, selected_on (other_side side) sel)"
  by (cases side) (auto simp: exclusive_selection_def exclusive_def)

lemma exclusive_set_cong:
  "exclusive c side (a, b) \<Longrightarrow> set a = set a' \<Longrightarrow> set b = set b' \<Longrightarrow> exclusive c side (a', b')"
  by (simp add: exclusive_def)

lemma exclusive_selectMergePages:
  assumes asc: "ascending_pairs (oc_pagePairs c)" and ex: "exclusive_selection c sel"
  shows "exclusive_selection c (selectMergePages c sel side page anchor byRange)"
proof -
  define own where "own = set_from (selected_on side sel)"
  define opp where "opp = set_from (selected_on (other_side side) sel)"
  have e: "exclusive c side (own, opp)"
    using ex exclusive_set_cong by (force simp: exclusive_selection_iff [of c sel side] own_def opp_def)
  have del: "exclusive c side (foldl (\<lambda>acc n. set_delete n acc) own ns, opp)" for ns
    using e by (rule exclusive_subset) (auto simp: foldl_set_delete)
  note add = exclusive_add_pages [OF asc e]
  have final: "exclusive_selection c (selection_of side (js_sort by_number (fst r)) (js_sort by_number (snd r)))"
    if "exclusive c side r" for r
    using that exclusive_set_cong [of c side "fst r" "snd r"] by (simp add: exclusive_selection_iff [of _ _ side])
  show ?thesis
    unfolding selectMergePages_def Let_def own_def [symmetric] opp_def [symmetric]
    using del [of "[page..page]"] del [of "[page]"] add by (intro final) (simp split: if_split)
qed

section \<open>What the merged album contains\<close>

definition pages_of :: "merge_side \<Rightarrow> (merge_side \<times> int) list \<Rightarrow> int list" where
  "pages_of side out = map snd (filter (\<lambda>x. fst x = side) out)"

lemma pages_of_simps [simp]:
  "pages_of side [] = []"
  "pages_of side (x # out) = (if fst x = side then snd x # pages_of side out else pages_of side out)"
  "pages_of side (out @ out') = pages_of side out @ pages_of side out'"
  by (auto simp: pages_of_def)

lemma pages_of_map [simp]: "pages_of side (map (Pair sd) ps) = (if sd = side then ps else [])"
  by (induction ps) auto

definition replaced :: "merge_side \<Rightarrow> (int \<Rightarrow> bool) \<Rightarrow> overlap_page_pair list \<Rightarrow> int \<Rightarrow> bool" where
  "replaced source chosen pairs p \<longleftrightarrow>
     (\<exists>q \<in> set pairs. pair_page (other_side source) q = p \<and> chosen (pair_page source q))"

lemma upto_split_at: "a \<le> b \<Longrightarrow> b \<le> c \<Longrightarrow> [a..(c :: int)] = [a..b - 1] @ b # [b + 1..c]"
  using upto_split1 [of a b c] by (simp add: upto_rec1)

lemma merge_loop_source:
  assumes "ascending_pairs pairs"
    and "\<forall>p \<in> set pairs. s \<le> pair_page source p \<and> pair_page source p \<le> countS"
  shows "pages_of source (merge_loop source chosen countT countS pairs t s) = filter chosen [s..countS]"
  using assms
proof (induction pairs arbitrary: t s)
  case (Cons p ps)
  have later: "\<forall>q \<in> set ps. pair_page source p + 1 \<le> pair_page source q \<and> pair_page source q \<le> countS"
    using Cons.prems(2) ascending_pairs_later [OF Cons.prems(1), of _ source] by force
  have s: "max s (pair_page source p) = pair_page source p" using Cons.prems(2) by auto
  note IH = Cons.IH [OF ascending_pairs_Cons [OF Cons.prems(1)] later]
  show ?case
    using IH upto_split_at [of s "pair_page source p" countS] Cons.prems(2) s
    by (simp add: Let_def)
qed simp

lemma merge_loop_target:
  assumes "ascending_pairs pairs"
    and "\<forall>p \<in> set pairs. s \<le> pair_page source p \<and> t \<le> pair_page (other_side source) p
                          \<and> pair_page (other_side source) p \<le> countT"
  shows "pages_of (other_side source) (merge_loop source chosen countT countS pairs t s)
       = filter (\<lambda>p. \<not> replaced source chosen pairs p) [t..countT]"
  using assms
proof (induction pairs arbitrary: t s)
  case Nil
  then show ?case by (simp add: replaced_def)
next
  case (Cons p ps)
  let ?tp = "pair_page (other_side source) p" and ?sp = "pair_page source p"
  have later: "\<forall>q \<in> set ps. ?sp + 1 \<le> pair_page source q \<and> ?tp + 1 \<le> pair_page (other_side source) q
                             \<and> pair_page (other_side source) q \<le> countT"
    using Cons.prems(2) ascending_pairs_later [OF Cons.prems(1), of _ source]
      ascending_pairs_later [OF Cons.prems(1), of _ "other_side source"] by force
  have mx: "max s ?sp = ?sp" "max t ?tp = ?tp" using Cons.prems(2) by auto
  have low: "\<not> replaced source chosen (p # ps) x" if "x < ?tp" for x
    using that later by (auto simp: replaced_def)
  have here: "replaced source chosen (p # ps) ?tp \<longleftrightarrow> chosen ?sp"
    using later by (auto simp: replaced_def)
  have high: "replaced source chosen (p # ps) x = replaced source chosen ps x" if "?tp < x" for x
    using that by (auto simp: replaced_def)
  have f: "filter (\<lambda>x. \<not> replaced source chosen (p # ps) x) [t..countT]
      = [t..?tp - 1] @ (if chosen ?sp then [] else [?tp])
        @ filter (\<lambda>x. \<not> replaced source chosen ps x) [?tp + 1..countT]"
  proof -
    have "filter (\<lambda>x. \<not> replaced source chosen (p # ps) x) [?tp + 1..countT]
        = filter (\<lambda>x. \<not> replaced source chosen ps x) [?tp + 1..countT]"
      by (rule filter_cong) (use high in auto)
    moreover have "filter (\<lambda>x. \<not> replaced source chosen (p # ps) x) [t..?tp - 1] = [t..?tp - 1]"
      using low by (simp add: filter_id_conv)
    moreover have "[t..countT] = [t..?tp - 1] @ ?tp # [?tp + 1..countT]"
      using Cons.prems(2) by (intro upto_split_at) simp_all
    ultimately show ?thesis using here by simp
  qed
  note IH = Cons.IH [OF ascending_pairs_Cons [OF Cons.prems(1)] later]
  show ?case
    unfolding f using IH mx by (simp add: Let_def)
qed

text \<open>A result is a merge of a request that passed every check.\<close>

lemma mergeOutputPages_Inr:
  assumes "mergeOutputPages c n source sel = Inr out"
  defines "pairs \<equiv> js_sort by_existing (oc_pagePairs c)"
    and "selected \<equiv> (case sel of Some s \<Rightarrow> s | None \<Rightarrow> emptyMergeSelection)"
  shows "ascending_pairs pairs"
    and "\<forall>p \<in> set pairs. pair_in_range (side_count c n MExisting) (side_count c n MIncoming) p"
    and "valid_pages (side_count c n source) (selected_on source selected)"
    and "out = merge_loop source (\<lambda>p. p \<in> set (selected_on source selected))
                 (side_count c n (other_side source)) (side_count c n source) pairs 1 1"
  using assms by (cases source; auto simp: mergeOutputPages_def Let_def split: if_splits)+

lemma in_range_page: "pair_in_range (side_count c n MExisting) (side_count c n MIncoming) p \<Longrightarrow>
    1 \<le> pair_page side p \<and> pair_page side p \<le> side_count c n side"
  by (cases side) (auto simp: pair_in_range_def)

lemma filter_mem_upto:
  assumes "valid_pages n ps"
  shows "filter (\<lambda>p. p \<in> set ps) [1..n] = sort ps"
proof -
  have "set (filter (\<lambda>p. p \<in> set ps) [1..n]) = set ps"
    using assms by (auto simp: valid_pages_def)
  moreover have "sorted (filter (\<lambda>p. p \<in> set ps) [1..n])" "distinct (filter (\<lambda>p. p \<in> set ps) [1..n])"
    by (simp_all add: sorted_wrt_filter)
  moreover have "distinct (sort ps)" "sorted (sort ps)" "set (sort ps) = set ps"
    using assms by (simp_all add: valid_pages_def)
  ultimately show ?thesis by (simp add: sorted_distinct_set_unique)
qed

lemma mergeOutputPages_pages:
  assumes "mergeOutputPages c n source sel = Inr out"
  defines "selected \<equiv> (case sel of Some s \<Rightarrow> s | None \<Rightarrow> emptyMergeSelection)"
  shows "pages_of source out = sort (selected_on source selected)"
    and "pages_of (other_side source) out
       = filter (\<lambda>p. \<not> replaced source (\<lambda>q. q \<in> set (selected_on source selected)) (oc_pagePairs c) p)
           [1..side_count c n (other_side source)]"
proof -
  note r = mergeOutputPages_Inr [OF assms(1), folded selected_def]
  let ?pairs = "js_sort by_existing (oc_pagePairs c)"
  have inr: "\<forall>p \<in> set ?pairs. 1 \<le> pair_page side p \<and> pair_page side p \<le> side_count c n side" for side
    using r(2) in_range_page by blast
  have same: "replaced source ch ?pairs = replaced source ch (oc_pagePairs c)" for ch
    by (simp add: replaced_def fun_eq_iff)
  show "pages_of source out = sort (selected_on source selected)"
    unfolding r(4) using inr by (subst merge_loop_source [OF r(1)]) (auto intro: filter_mem_upto r(3))
  show "pages_of (other_side source) out
       = filter (\<lambda>p. \<not> replaced source (\<lambda>q. q \<in> set (selected_on source selected)) (oc_pagePairs c) p)
           [1..side_count c n (other_side source)]"
    unfolding r(4) using inr by (subst merge_loop_target [OF r(1)]) (auto simp: same)
qed

definition sample_merge_candidate :: overlap_candidate where
  "sample_merge_candidate =
     sample_candidate ''c'' (sample_ref ''e'' 1 ''t'' 3) PartialOverlap [sample_pair 1 2, sample_pair 2 3] 4"

section \<open>Properties\<close>

text \<open>Choosing pages keeps the selection exclusive: when the candidate's pairs ascend and no matched
  pair is chosen on both sides, none is after \<open>selectMergePages\<close> toggles a page or adds a range.\<close>

theorem select_exclusive:
  assumes "ascending_pairs (oc_pagePairs c)" and "exclusive_selection c sel"
  shows "exclusive_selection c (selectMergePages c sel side page anchor byRange)"
  using assms by (rule exclusive_selectMergePages)

theorem select_exclusive_witness:
  "exclusive_selection sample_merge_candidate
     (selectMergePages sample_merge_candidate \<lparr>ms_existing = [1], ms_incoming = [1]\<rparr> MIncoming 3 (Some (MIncoming, 2)) True)
   \<and> selectMergePages sample_merge_candidate \<lparr>ms_existing = [1], ms_incoming = [1]\<rparr> MIncoming 3 (Some (MIncoming, 2)) True
     = \<lparr>ms_existing = [], ms_incoming = [1, 2, 3]\<rparr>"
  using select_exclusive [of sample_merge_candidate "\<lparr>ms_existing = [1], ms_incoming = [1]\<rparr>" MIncoming 3
      "Some (MIncoming, 2)" True]
  by (auto simp: sample_merge_candidate_def sample_candidate_def sample_pair_def Let_def exclusive_selection_def
      sample_ref_def selectMergePages_def add_page_def set_add_def set_delete_def by_number_def upto_rec1)

text \<open>C4: A merged album holds what the request asks for: the pages taken from the source are the
  selected source pages in order, each once, and the pages of the destination are all of its pages
  in order except those a selected counterpart replaces.\<close>

theorem merge_output_exact:
  assumes "mergeOutputPages c n source (Some sel) = Inr out"
  shows "pages_of source out = sort (selected_on source sel)
       \<and> pages_of (other_side source) out
         = filter (\<lambda>p. \<not> replaced source (\<lambda>q. q \<in> set (selected_on source sel)) (oc_pagePairs c) p)
             [1..side_count c n (other_side source)]"
  using mergeOutputPages_pages [OF assms] by simp

theorem merge_output_exact_witness:
  "mergeOutputPages sample_merge_candidate 4 MExisting (Some \<lparr>ms_existing = [3, 1], ms_incoming = [3]\<rparr>)
     = Inr [(MIncoming, 1), (MExisting, 1), (MIncoming, 3), (MIncoming, 4), (MExisting, 3)]
   \<and> pages_of MExisting [(MIncoming, 1), (MExisting, 1), (MIncoming, 3), (MIncoming, 4), (MExisting, 3)]
     = sort [3, 1]"
proof -
  have m: "mergeOutputPages sample_merge_candidate 4 MExisting (Some \<lparr>ms_existing = [3, 1], ms_incoming = [3]\<rparr>)
     = Inr [(MIncoming, 1), (MExisting, 1), (MIncoming, 3), (MIncoming, 4), (MExisting, 3)]"
    by (simp add: sample_merge_candidate_def sample_candidate_def sample_pair_def sample_ref_def Let_def
        mergeOutputPages_def side_count_def by_existing_def pair_in_range_def valid_pages_def
        max_safe_integer_def upto_rec1)
  show ?thesis using merge_output_exact [OF m] m by simp
qed

end
