(* ===== verification/OverlapAuto.thy ===== *)
theory OverlapAuto
  imports OverlapTypes
begin

text \<open>
  \<^verbatim>\<open>src/src/state/downloadOverlapAuto.ts\<close>: the rule that decides, without asking, which of two
  overlapping editions to keep. \<open>strictCandidateEvaluation\<close> judges one comparison and
  \<open>buildStrictOverlapPlan\<close> turns the pending comparisons of a review into decision steps;
  \<open>automaticUncensoredMerge\<close> proposes the one merge that is made automatically. The definitions
  keep the source's order of checks; the JSON text of a feature snapshot is the record it
  serialises. Unicode NFKC normalisation is the parameter \<open>nfkc\<close>. The main facts say what evidence
  stands behind every automatic exclusion.
\<close>

section \<open>Thresholds\<close>

definition auto_rule_version :: int where
  "auto_rule_version = 5"

definition auto_reason_code :: string where
  "auto_reason_code = ''balanced_overlap_v5''"

record strict_thresholds =
  st_loserCoverage :: rat
  st_maximumPageDifference :: int
  st_matchedPages :: int
  st_confidence :: rat
  st_alignedRunRatio :: rat
  st_informativeMatchRatio :: rat

definition strictOverlapThresholds :: strict_thresholds where
  "strictOverlapThresholds =
     \<lparr>st_loserCoverage = 95 / 100, st_maximumPageDifference = 5, st_matchedPages = 4,
      st_confidence = 9 / 10, st_alignedRunRatio = 75 / 100, st_informativeMatchRatio = 75 / 100\<rparr>"

record complete_thresholds =
  ct_loserCoverage :: rat
  ct_maximumContainedUniquePages :: int
  ct_matchedPages :: int
  ct_confidence :: rat
  ct_minimumAlignedRun :: int
  ct_informativeMatchRatio :: rat

definition completeContainmentThresholds :: complete_thresholds where
  "completeContainmentThresholds =
     \<lparr>ct_loserCoverage = 1, ct_maximumContainedUniquePages = 0, ct_matchedPages = 4,
      ct_confidence = 85 / 100, ct_minimumAlignedRun = 2, ct_informativeMatchRatio = 75 / 100\<rparr>"

lemmas threshold_defs = strictOverlapThresholds_def completeContainmentThresholds_def

datatype strict_winner = WinIncoming | WinExisting

datatype edition_preference = Uncensored | Censored | UnknownEdition

datatype decision_path = Balanced | CompleteContainment

datatype preference_reason = ByContainment | ByCompleteContainment | ByUncensored | ByPageCount | StableExisting

section \<open>Edition markers in titles\<close>

definition mark_wuxiuzheng_jp :: string where
  "mark_wuxiuzheng_jp = [CHR 0xE7, CHR 0x84, CHR 0xA1, CHR 0xE4, CHR 0xBF, CHR 0xAE, CHR 0xE6,
     CHR 0xAD, CHR 0xA3]"

definition mark_wuxiuzheng_cn :: string where
  "mark_wuxiuzheng_cn = [CHR 0xE6, CHR 0x97, CHR 0xA0, CHR 0xE4, CHR 0xBF, CHR 0xAE, CHR 0xE6,
     CHR 0xAD, CHR 0xA3]"

definition mark_wuma_jp :: string where
  "mark_wuma_jp = [CHR 0xE7, CHR 0x84, CHR 0xA1, CHR 0xE7, CHR 0xA2, CHR 0xBC]"

definition mark_wuma_cn :: string where
  "mark_wuma_cn = [CHR 0xE6, CHR 0x97, CHR 0xA0, CHR 0xE7, CHR 0xA0, CHR 0x81]"

definition mark_mosaic_jp :: string where
  "mark_mosaic_jp = [CHR 0xE3, CHR 0x83, CHR 0xA2, CHR 0xE3, CHR 0x82, CHR 0xB6, CHR 0xE3,
     CHR 0x82, CHR 0xA4, CHR 0xE3, CHR 0x82, CHR 0xAF]"

definition mark_corrected :: string where
  "mark_corrected = [CHR 0xE4, CHR 0xBF, CHR 0xAE, CHR 0xE6, CHR 0xAD, CHR 0xA3, CHR 0xE7,
     CHR 0x89, CHR 0x88]"

definition uncensored_markers :: "string list" where
  "uncensored_markers = [''uncensored'', ''decensored'', ''uncen'', mark_wuxiuzheng_jp,
     mark_wuxiuzheng_cn, mark_wuma_jp, mark_wuma_cn]"

definition censored_markers :: "string list" where
  "censored_markers = [''censored'', ''mosaic'', mark_mosaic_jp, mark_corrected]"

definition editionPreference :: "(string \<Rightarrow> string) \<Rightarrow> overlap_gallery_ref \<Rightarrow> edition_preference" where
  "editionPreference nfkc g =
     (let title = lower (nfkc (or_title g))
      in if \<exists>marker \<in> set uncensored_markers. str_includes marker title then Uncensored
         else if \<exists>marker \<in> set censored_markers. str_includes marker title then Censored
         else UnknownEdition)"

fun preferenceRank :: "edition_preference \<Rightarrow> int" where
  "preferenceRank Uncensored = 1"
| "preferenceRank Censored = -1"
| "preferenceRank UnknownEdition = 0"

definition safeRatio :: "rat \<Rightarrow> rat \<Rightarrow> rat" where
  "safeRatio numerator denominator = (if denominator > 0 then numerator / denominator else 0)"

section \<open>The automatic merge\<close>

definition by_existing_page :: "overlap_page_pair \<Rightarrow> overlap_page_pair \<Rightarrow> int" where
  "by_existing_page a b = pp_existingSourcePage a - pp_existingSourcePage b"

interpretation by_existing_page: js_comparator by_existing_page
  by unfold_locales (auto simp: by_existing_page_def)

definition informative :: "overlap_page_pair list \<Rightarrow> rat" where
  "informative ps = of_nat (length (filter (\<lambda>p. \<not> pp_lowInformation p) ps))"

text \<open>The request that merges the edition on one side into the other.\<close>

definition merge_from ::
  "(string \<Rightarrow> string) \<Rightarrow> overlap_review \<Rightarrow> overlap_candidate \<Rightarrow> merge_side \<Rightarrow> overlap_merge_request option" where
  "merge_from nfkc review c side =
     (let small = (if side = MIncoming then rv_incoming review else oc_existing c);
          large = (if side = MIncoming then oc_existing c else rv_incoming review);
          coverage = (if side = MIncoming then oc_incomingCoverage c else oc_existingCoverage c);
          unique = (if side = MIncoming then oc_incomingUniquePages c else oc_existingUniquePages c);
          pairs = js_sort by_existing_page (oc_pagePairs c)
      in if or_pageCount small \<ge> or_pageCount large \<or> or_pageCount small < 1 \<or> unique \<noteq> 0 \<or> coverage < 1
            \<or> editionPreference nfkc small \<noteq> Uncensored \<or> editionPreference nfkc large = Uncensored
            \<or> oc_confidence c < 85 / 100 \<or> oc_matchedPages c \<noteq> or_pageCount small
            \<or> int (length pairs) \<noteq> or_pageCount small
            \<or> oc_longestAlignedRun c < min 2 (or_pageCount small)
            \<or> informative pairs / of_int (or_pageCount small) < 75 / 100
            \<or> (or_pageCount small \<le> 3 \<and> oc_exactPages c \<noteq> or_pageCount small)
            \<or> \<not> (\<forall>p \<in> set pairs. pair_in_range (or_pageCount (oc_existing c)) (or_pageCount (rv_incoming review)) p)
            \<or> \<not> ascending_pairs pairs
         then None
         else Some \<lparr>mr_reviewId = rv_reviewId review, mr_expectedRevision = rv_revision review,
                    mr_candidateId = oc_candidateId c, mr_sourceSide = side,
                    mr_sourcePages = [1..or_pageCount small], mr_selectedPages = None,
                    mr_automation = Some True, mr_excludeSource = Some True\<rparr>)"

definition automaticUncensoredMerge ::
  "(string \<Rightarrow> string) \<Rightarrow> overlap_review \<Rightarrow> overlap_candidate \<Rightarrow> overlap_merge_request option" where
  "automaticUncensoredMerge nfkc review c =
     (if rv_state review \<noteq> RPending \<or> oc_decision c \<noteq> None
         \<or> or_galleryId (oc_existing c) = or_galleryId (rv_incoming review) then None
      else merge_from nfkc review c
        (if or_pageCount (rv_incoming review) < or_pageCount (oc_existing c) then MIncoming else MExisting))"

section \<open>Judging one comparison\<close>

definition containment_winner :: "overlap_review \<Rightarrow> overlap_candidate \<Rightarrow> strict_winner option" where
  "containment_winner review c =
     (let i = or_pageCount (rv_incoming review); e = or_pageCount (oc_existing c)
      in if oc_relation c = IncomingContainsExisting \<and> i > e then Some WinIncoming
         else if oc_relation c = ExistingContainsIncoming \<and> e > i then Some WinExisting
         else None)"

definition containment_loser_coverage :: "strict_winner option \<Rightarrow> overlap_candidate \<Rightarrow> rat" where
  "containment_loser_coverage w c =
     (case w of Some WinIncoming \<Rightarrow> oc_existingCoverage c | Some WinExisting \<Rightarrow> oc_incomingCoverage c | None \<Rightarrow> 0)"

definition contained_unique_pages :: "strict_winner option \<Rightarrow> overlap_candidate \<Rightarrow> int" where
  "contained_unique_pages w c =
     (case w of Some WinIncoming \<Rightarrow> oc_existingUniquePages c | Some WinExisting \<Rightarrow> oc_incomingUniquePages c
      | None \<Rightarrow> max (oc_existingUniquePages c) (oc_incomingUniquePages c))"

definition aligned_run_ratio :: "overlap_candidate \<Rightarrow> rat" where
  "aligned_run_ratio c = safeRatio (of_int (oc_longestAlignedRun c)) (of_int (oc_matchedPages c))"

definition informative_match_ratio :: "overlap_candidate \<Rightarrow> rat" where
  "informative_match_ratio c = safeRatio (informative (oc_pagePairs c)) (of_int (oc_matchedPages c))"

definition complete_containment :: "overlap_review \<Rightarrow> overlap_candidate \<Rightarrow> bool" where
  "complete_containment review c =
     (let w = containment_winner review c;
          t = completeContainmentThresholds;
          contained = min (or_pageCount (rv_incoming review)) (or_pageCount (oc_existing c))
      in w \<noteq> None
         \<and> containment_loser_coverage w c \<ge> ct_loserCoverage t
         \<and> contained_unique_pages w c \<le> ct_maximumContainedUniquePages t
         \<and> oc_matchedPages c = contained
         \<and> int (length (oc_pagePairs c)) = oc_matchedPages c
         \<and> oc_matchedPages c \<ge> min (ct_matchedPages t) contained
         \<and> oc_confidence c \<ge> ct_confidence t
         \<and> oc_longestAlignedRun c \<ge> min (ct_minimumAlignedRun t) (oc_matchedPages c)
         \<and> informative_match_ratio c \<ge> ct_informativeMatchRatio t
         \<and> (contained > 3 \<or> oc_exactPages c = oc_matchedPages c)
         \<and> ascending_pairs (oc_pagePairs c))"

definition fails_balanced :: "overlap_review \<Rightarrow> overlap_candidate \<Rightarrow> bool" where
  "fails_balanced review c =
     (let i = or_pageCount (rv_incoming review); e = or_pageCount (oc_existing c);
          t = strictOverlapThresholds; smaller = min i e
      in \<bar>i - e\<bar> > st_maximumPageDifference t
         \<or> oc_matchedPages c < min (st_matchedPages t) smaller
         \<or> oc_confidence c < st_confidence t
         \<or> aligned_run_ratio c < st_alignedRunRatio t
         \<or> informative_match_ratio c < st_informativeMatchRatio t
         \<or> (smaller \<le> 3 \<and> oc_exactPages c \<noteq> oc_matchedPages c))"

text \<open>The winner, the coverage of the loser, the reason and the path.\<close>

definition choose_winner ::
  "(string \<Rightarrow> string) \<Rightarrow> overlap_review \<Rightarrow> overlap_candidate
   \<Rightarrow> (strict_winner \<times> rat \<times> preference_reason \<times> decision_path) option" where
  "choose_winner nfkc review c =
     (let w = containment_winner review c;
          i = or_pageCount (rv_incoming review); e = or_pageCount (oc_existing c);
          ir = preferenceRank (editionPreference nfkc (rv_incoming review));
          er = preferenceRank (editionPreference nfkc (oc_existing c))
      in if complete_containment review c
         then Some (the w, containment_loser_coverage w c, ByCompleteContainment, CompleteContainment)
         else case oc_relation c of
           IncomingContainsExisting \<Rightarrow> Some (WinIncoming, oc_existingCoverage c, ByContainment, Balanced)
         | ExistingContainsIncoming \<Rightarrow> Some (WinExisting, oc_incomingCoverage c, ByContainment, Balanced)
         | NearEquivalent \<Rightarrow>
             (let cov = min (oc_existingCoverage c) (oc_incomingCoverage c)
              in if ir \<noteq> er
                 then Some (if ir > er then WinIncoming else WinExisting, cov, ByUncensored, Balanced)
                 else if i \<noteq> e
                 then Some (if i > e then WinIncoming else WinExisting, cov, ByPageCount, Balanced)
                 else Some (WinExisting, cov, StableExisting, Balanced))
         | _ \<Rightarrow> None)"

text \<open>What the snapshot's JSON text records.\<close>

record feature_snapshot =
  fs_rule :: string
  fs_ruleVersion :: int
  fs_reviewId :: string
  fs_reviewRevision :: int
  fs_candidateId :: string
  fs_incomingGalleryId :: gallery_id
  fs_existingGalleryId :: gallery_id
  fs_incomingFingerprint :: string
  fs_existingFingerprint :: string
  fs_relation :: overlap_relation
  fs_winner :: strict_winner
  fs_decisionPath :: decision_path
  fs_preferenceReason :: preference_reason
  fs_incomingPreference :: edition_preference
  fs_existingPreference :: edition_preference
  fs_confidence :: rat
  fs_matchedPages :: int
  fs_exactPages :: int
  fs_loserCoverage :: rat
  fs_pageDifference :: int
  fs_incomingPageCount :: int
  fs_existingPageCount :: int
  fs_containingPageCount :: int
  fs_containedPageCount :: int
  fs_containedUniquePages :: int
  fs_containingPageRatio :: rat
  fs_alignedRunRatio :: rat
  fs_informativeMatchRatio :: rat
  fs_monotonicPageOrder :: bool
  fs_thresholds :: strict_thresholds
  fs_requiredMatchedPages :: int
  fs_completeThresholds :: complete_thresholds
  fs_requiredCompleteMatches :: int
  fs_requiredAlignedRun :: int

record candidate_evaluation =
  ce_winner :: strict_winner
  ce_decisionPath :: decision_path
  ce_featureSnapshot :: feature_snapshot

definition snapshot_of ::
  "(string \<Rightarrow> string) \<Rightarrow> overlap_review \<Rightarrow> overlap_candidate
   \<Rightarrow> strict_winner \<times> rat \<times> preference_reason \<times> decision_path \<Rightarrow> feature_snapshot" where
  "snapshot_of nfkc review c choice =
     (case choice of (w, cov, reason, path) \<Rightarrow>
       let i = or_pageCount (rv_incoming review); e = or_pageCount (oc_existing c);
           cw = containment_winner review c
       in \<lparr>fs_rule = auto_reason_code, fs_ruleVersion = auto_rule_version,
           fs_reviewId = rv_reviewId review, fs_reviewRevision = rv_revision review,
           fs_candidateId = oc_candidateId c, fs_incomingGalleryId = or_galleryId (rv_incoming review),
           fs_existingGalleryId = or_galleryId (oc_existing c),
           fs_incomingFingerprint = rv_incomingFingerprint review,
           fs_existingFingerprint = oc_existingFingerprint c, fs_relation = oc_relation c,
           fs_winner = w, fs_decisionPath = path, fs_preferenceReason = reason,
           fs_incomingPreference = editionPreference nfkc (rv_incoming review),
           fs_existingPreference = editionPreference nfkc (oc_existing c),
           fs_confidence = oc_confidence c, fs_matchedPages = oc_matchedPages c,
           fs_exactPages = oc_exactPages c, fs_loserCoverage = cov, fs_pageDifference = \<bar>i - e\<bar>,
           fs_incomingPageCount = i, fs_existingPageCount = e, fs_containingPageCount = max i e,
           fs_containedPageCount = min i e, fs_containedUniquePages = contained_unique_pages cw c,
           fs_containingPageRatio = safeRatio (of_int (max i e)) (of_int (min i e)),
           fs_alignedRunRatio = aligned_run_ratio c, fs_informativeMatchRatio = informative_match_ratio c,
           fs_monotonicPageOrder = ascending_pairs (oc_pagePairs c),
           fs_thresholds = strictOverlapThresholds,
           fs_requiredMatchedPages = min (st_matchedPages strictOverlapThresholds) (min i e),
           fs_completeThresholds = completeContainmentThresholds,
           fs_requiredCompleteMatches = min (ct_matchedPages completeContainmentThresholds) (min i e),
           fs_requiredAlignedRun =
             min (ct_minimumAlignedRun completeContainmentThresholds) (oc_matchedPages c)\<rparr>)"

definition strictCandidateEvaluation ::
  "(string \<Rightarrow> string) \<Rightarrow> overlap_review \<Rightarrow> overlap_candidate \<Rightarrow> candidate_evaluation option" where
  "strictCandidateEvaluation nfkc review c =
     (if (oc_existingUniquePages c > 0 \<and> oc_incomingUniquePages c > 0)
         \<or> automaticUncensoredMerge nfkc review c \<noteq> None then None
      else if or_galleryId (oc_existing c) = or_galleryId (rv_incoming review)
         \<or> or_entryId (oc_existing c) = or_entryId (rv_incoming review) then None
      else if \<not> complete_containment review c \<and> fails_balanced review c then None
      else case choose_winner nfkc review c of
        None \<Rightarrow> None
      | Some (w, cov, reason, path) \<Rightarrow>
          if cov < st_loserCoverage strictOverlapThresholds then None
          else Some \<lparr>ce_winner = w, ce_decisionPath = path,
                     ce_featureSnapshot = snapshot_of nfkc review c (w, cov, reason, path)\<rparr>)"

section \<open>The plan of a review\<close>

definition txt_existing_no :: string where
  "txt_existing_no = [CHR 0xEA, CHR 0xB8, CHR 0xB0, CHR 0xEC, CHR 0xA1, CHR 0xB4] @ '' #''"

definition txt_keep_drop_incoming :: string where
  "txt_keep_drop_incoming = '' '' @ [CHR 0xEC, CHR 0x9C, CHR 0xA0, CHR 0xEC, CHR 0xA7,
     CHR 0x80] @ '' '' @ [CHR 0xC2, CHR 0xB7] @ '' '' @ [CHR 0xEC, CHR 0x8B, CHR 0xA0,
     CHR 0xEA, CHR 0xB7, CHR 0x9C] @ '' B '' @ [CHR 0xEC, CHR 0xA0, CHR 0x9C, CHR 0xEC,
     CHR 0x99, CHR 0xB8]"

definition txt_complete :: string where
  "txt_complete = '' ('' @ [CHR 0xEC, CHR 0x99, CHR 0x84, CHR 0xEC, CHR 0xA0,
     CHR 0x84] @ '' '' @ [CHR 0xED, CHR 0x8F, CHR 0xAC, CHR 0xED, CHR 0x95, CHR 0xA8] @ '')''"

definition txt_keep_incoming_existing :: string where
  "txt_keep_incoming_existing = [CHR 0xEC, CHR 0x8B, CHR 0xA0, CHR 0xEA, CHR 0xB7,
     CHR 0x9C] @ '' B '' @ [CHR 0xEC, CHR 0x9C, CHR 0xA0, CHR 0xEC, CHR 0xA7,
     CHR 0x80] @ '' '' @ [CHR 0xC2, CHR 0xB7] @ '' '' @ [CHR 0xEA, CHR 0xB8, CHR 0xB0,
     CHR 0xEC, CHR 0xA1, CHR 0xB4] @ '' ''"

definition txt_keep_incoming :: string where
  "txt_keep_incoming = [CHR 0xEC, CHR 0x8B, CHR 0xA0, CHR 0xEA, CHR 0xB7,
     CHR 0x9C] @ '' B '' @ [CHR 0xEC, CHR 0x9C, CHR 0xA0, CHR 0xEC, CHR 0xA7,
     CHR 0x80] @ '' '' @ [CHR 0xC2, CHR 0xB7] @ '' ''"

definition txt_existing :: string where
  "txt_existing = [CHR 0xEA, CHR 0xB8, CHR 0xB0, CHR 0xEC, CHR 0xA1, CHR 0xB4] @ '' ''"

definition txt_count_excluded :: string where
  "txt_count_excluded = [CHR 0xEA, CHR 0xB0, CHR 0x9C] @ '' '' @ [CHR 0xEC, CHR 0xA0, CHR 0x9C,
     CHR 0xEC, CHR 0x99, CHR 0xB8]"

definition txt_dot :: string where
  "txt_dot = '' '' @ [CHR 0xC2, CHR 0xB7] @ '' ''"

definition txt_count_review :: string where
  "txt_count_review = [CHR 0xEA, CHR 0xB0, CHR 0x9C] @ '' '' @ [CHR 0xEC, CHR 0xA7, CHR 0x81,
     CHR 0xEC, CHR 0xA0, CHR 0x91] @ '' '' @ [CHR 0xEA, CHR 0xB2, CHR 0x80, CHR 0xED, CHR 0x86,
     CHR 0xA0]"

definition txt_count :: string where
  "txt_count = [CHR 0xEA, CHR 0xB0, CHR 0x9C]"

definition txt_excluded :: string where
  "txt_excluded = '' '' @ [CHR 0xEC, CHR 0xA0, CHR 0x9C, CHR 0xEC, CHR 0x99, CHR 0xB8]"

record strict_step =
  ss_action :: decision_action
  ss_candidateId :: string
  ss_featureSnapshot :: feature_snapshot

record strict_plan =
  sp_winner :: strict_winner
  sp_steps :: "strict_step list"
  sp_summary :: string
  sp_pendingCandidateCount :: nat
  sp_remainingCandidateCount :: nat
  sp_isPartial :: bool

definition by_rank :: "overlap_candidate \<Rightarrow> overlap_candidate \<Rightarrow> int" where
  "by_rank l r = oc_rank l - oc_rank r"

interpretation by_rank: js_comparator by_rank
  by unfold_locales (auto simp: by_rank_def)

definition pending_candidates :: "overlap_review \<Rightarrow> overlap_candidate list" where
  "pending_candidates review = js_sort by_rank (filter (\<lambda>c. oc_decision c = None) (rv_candidates review))"

definition wins ::
  "(string \<Rightarrow> string) \<Rightarrow> overlap_review \<Rightarrow> strict_winner \<Rightarrow> overlap_candidate \<Rightarrow> bool" where
  "wins nfkc review w c =
     (case strictCandidateEvaluation nfkc review c of Some ev \<Rightarrow> ce_winner ev = w | None \<Rightarrow> False)"

definition step_for ::
  "(string \<Rightarrow> string) \<Rightarrow> overlap_review \<Rightarrow> decision_action \<Rightarrow> overlap_candidate \<Rightarrow> strict_step" where
  "step_for nfkc review act c =
     \<lparr>ss_action = act, ss_candidateId = oc_candidateId c,
      ss_featureSnapshot = ce_featureSnapshot (the (strictCandidateEvaluation nfkc review c))\<rparr>"

definition by_complete :: "(string \<Rightarrow> string) \<Rightarrow> overlap_review \<Rightarrow> overlap_candidate \<Rightarrow> bool" where
  "by_complete nfkc review c =
     (case strictCandidateEvaluation nfkc review c of
        Some ev \<Rightarrow> ce_decisionPath ev = CompleteContainment | None \<Rightarrow> False)"

definition existing_summary :: "(string \<Rightarrow> string) \<Rightarrow> overlap_review \<Rightarrow> overlap_candidate \<Rightarrow> string" where
  "existing_summary nfkc review c =
     txt_existing_no @ show_int (or_galleryId (oc_existing c)) @ txt_keep_drop_incoming
     @ (if by_complete nfkc review c then txt_complete else [])"

definition incoming_summary ::
  "(string \<Rightarrow> string) \<Rightarrow> overlap_review \<Rightarrow> overlap_candidate list \<Rightarrow> overlap_candidate list \<Rightarrow> string" where
  "incoming_summary nfkc review pend won =
     (let n = length pend; k = length won; complete = length (filter (by_complete nfkc review) won)
      in if k < n
         then txt_keep_incoming_existing @ show_nat k @ txt_count_excluded @ txt_dot @ show_nat (n - k) @ txt_count_review
         else txt_keep_incoming
              @ (if n = 1 then txt_existing_no @ show_int (or_galleryId (oc_existing (hd won)))
                 else txt_existing @ show_nat n @ txt_count)
              @ txt_excluded @ (if complete = n then txt_complete else []))"

definition buildStrictOverlapPlan :: "(string \<Rightarrow> string) \<Rightarrow> overlap_review \<Rightarrow> strict_plan option" where
  "buildStrictOverlapPlan nfkc review =
     (if rv_state review \<noteq> RPending then None
      else let pend = pending_candidates review; won = filter (wins nfkc review WinIncoming) pend
      in if pend = [] then None
         else case find (wins nfkc review WinExisting) pend of
           Some c \<Rightarrow> Some \<lparr>sp_winner = WinExisting, sp_steps = [step_for nfkc review RemoveIncoming c],
             sp_summary = existing_summary nfkc review c, sp_pendingCandidateCount = length pend,
             sp_remainingCandidateCount = 0, sp_isPartial = False\<rparr>
         | None \<Rightarrow>
             if won \<noteq> []
             then Some \<lparr>sp_winner = WinIncoming, sp_steps = map (step_for nfkc review RemoveExistingContinue) won,
               sp_summary = incoming_summary nfkc review pend won, sp_pendingCandidateCount = length pend,
               sp_remainingCandidateCount = length pend - length won, sp_isPartial = length won < length pend\<rparr>
             else None)"

section \<open>Evidence\<close>

definition loser_coverage :: "strict_winner \<Rightarrow> overlap_candidate \<Rightarrow> rat" where
  "loser_coverage w c = (case w of WinIncoming \<Rightarrow> oc_existingCoverage c | WinExisting \<Rightarrow> oc_incomingCoverage c)"

definition loser_side :: "strict_winner \<Rightarrow> merge_side" where
  "loser_side w = (case w of WinIncoming \<Rightarrow> MExisting | WinExisting \<Rightarrow> MIncoming)"

definition side_pages_of :: "overlap_review \<Rightarrow> overlap_candidate \<Rightarrow> merge_side \<Rightarrow> int" where
  "side_pages_of review c side =
     (case side of MExisting \<Rightarrow> or_pageCount (oc_existing c) | MIncoming \<Rightarrow> or_pageCount (rv_incoming review))"

text \<open>Strictly ascending page numbers that fill an edition are all of its pages.\<close>

lemma ascending_fills:
  assumes "sorted_wrt (<) xs" and "\<forall>x \<in> set xs. 1 \<le> x \<and> x \<le> n" and "int (length xs) = n"
  shows "xs = [1..n]"
proof -
  have "distinct xs" and "sorted xs"
    using assms(1) by (simp_all add: strict_sorted_iff)
  moreover have "set xs = {1..n}"
  proof (rule card_subset_eq)
    show "set xs \<subseteq> {1..n}" using assms(2) by auto
    show "card (set xs) = card {1..n}" using assms(3) distinct_card [OF \<open>distinct xs\<close>] by simp
  qed simp
  ultimately show ?thesis
    by (intro sorted_distinct_set_unique) simp_all
qed

lemma ascending_pages: "ascending_pairs ps \<Longrightarrow> sorted_wrt (<) (map (pair_page side) ps)"
proof (induction ps)
  case (Cons p ps)
  then show ?case
    using ascending_pairs_later [OF Cons.prems] ascending_pairs_Cons [OF Cons.prems] by auto
qed simp

lemma pairs_fill_side:
  assumes "ascending_pairs ps" and "int (length ps) = side_pages_of review c side"
    and "\<forall>p \<in> set ps. pair_in_range (or_pageCount (oc_existing c)) (or_pageCount (rv_incoming review)) p"
  shows "map (pair_page side) ps = [1..side_pages_of review c side]"
proof (rule ascending_fills)
  show "\<forall>x \<in> set (map (pair_page side) ps). 1 \<le> x \<and> x \<le> side_pages_of review c side"
    using assms(3) by (cases side) (auto simp: pair_in_range_def side_pages_of_def)
qed (use assms ascending_pages in auto)

lemma choose_winner_coverage:
  "choose_winner nfkc review c = Some (w, cov, reason, path) \<Longrightarrow> cov \<le> loser_coverage w c"
  by (auto simp: choose_winner_def loser_coverage_def containment_loser_coverage_def complete_containment_def
      Let_def split: if_splits overlap_relation.splits strict_winner.splits)

lemma evaluation_Some:
  assumes "strictCandidateEvaluation nfkc review c = Some ev"
  obtains cov reason where
    "\<not> (oc_existingUniquePages c > 0 \<and> oc_incomingUniquePages c > 0)"
    "automaticUncensoredMerge nfkc review c = None"
    "or_galleryId (oc_existing c) \<noteq> or_galleryId (rv_incoming review)"
    "or_entryId (oc_existing c) \<noteq> or_entryId (rv_incoming review)"
    "complete_containment review c \<or> \<not> fails_balanced review c"
    "choose_winner nfkc review c = Some (ce_winner ev, cov, reason, ce_decisionPath ev)"
    "st_loserCoverage strictOverlapThresholds \<le> cov"
  using assms unfolding strictCandidateEvaluation_def
  by (auto split: if_splits option.splits prod.splits)

lemma complete_path_iff:
  assumes "choose_winner nfkc review c = Some (w, cov, reason, path)"
  shows "path = CompleteContainment \<longleftrightarrow> complete_containment review c"
    and "path = CompleteContainment \<Longrightarrow> containment_winner review c = Some w"
  using assms
  by (auto simp: choose_winner_def complete_containment_def Let_def split: if_splits overlap_relation.splits)

lemma confidence_floor:
  "complete_containment review c \<or> \<not> fails_balanced review c \<Longrightarrow> oc_confidence c \<ge> 85 / 100"
  by (auto simp: complete_containment_def fails_balanced_def Let_def threshold_defs)

lemma merge_from_Some:
  assumes "merge_from nfkc review c side = Some req"
  shows "mr_sourceSide req = side"
    and "side_pages_of review c side < side_pages_of review c (other_side side)"
    and "editionPreference nfkc (if side = MIncoming then rv_incoming review else oc_existing c) = Uncensored"
    and "editionPreference nfkc (if side = MIncoming then oc_existing c else rv_incoming review) \<noteq> Uncensored"
    and "mr_sourcePages req = [1..side_pages_of review c side]"
    and "mr_expectedRevision req = rv_revision review"
    and "mr_candidateId req = oc_candidateId c"
    and "ascending_pairs (js_sort by_existing_page (oc_pagePairs c))"
    and "int (length (js_sort by_existing_page (oc_pagePairs c))) = side_pages_of review c side"
    and "\<forall>p \<in> set (js_sort by_existing_page (oc_pagePairs c)).
           pair_in_range (or_pageCount (oc_existing c)) (or_pageCount (rv_incoming review)) p"
  using assms
  by (cases side; simp add: merge_from_def Let_def side_pages_of_def split: if_split_asm; fastforce)+

section \<open>Plans\<close>

lemma winsD: "wins nfkc review w c \<Longrightarrow> \<exists>ev. strictCandidateEvaluation nfkc review c = Some ev \<and> ce_winner ev = w"
  by (auto simp: wins_def split: option.splits)

lemma pending_mem: "c \<in> set (pending_candidates review) \<longleftrightarrow> c \<in> set (rv_candidates review) \<and> oc_decision c = None"
  by (auto simp: pending_candidates_def)

lemma pending_length: "length (pending_candidates review) = length (filter (\<lambda>c. oc_decision c = None) (rv_candidates review))"
  by (simp add: pending_candidates_def)

lemma pending_wins: "mset (filter P (pending_candidates review)) = mset (filter (\<lambda>c. oc_decision c = None \<and> P c) (rv_candidates review))"
proof -
  have "mset (filter P (pending_candidates review)) = filter_mset P (mset (filter (\<lambda>c. oc_decision c = None) (rv_candidates review)))"
    by (simp add: pending_candidates_def mset_filter)
  also have "\<dots> = mset (filter (\<lambda>c. oc_decision c = None \<and> P c) (rv_candidates review))"
    by (simp only: mset_filter [symmetric] filter_filter)
  finally show ?thesis .
qed

lemma plan_cases:
  assumes "buildStrictOverlapPlan nfkc review = Some plan"
  obtains
    (existing) c where "rv_state review = RPending" "c \<in> set (pending_candidates review)"
      "wins nfkc review WinExisting c" "sp_winner plan = WinExisting"
      "sp_steps plan = [step_for nfkc review RemoveIncoming c]"
      "sp_remainingCandidateCount plan = 0" "\<not> sp_isPartial plan"
      "sp_pendingCandidateCount plan = length (pending_candidates review)"
  | (incoming) won where "rv_state review = RPending"
      "won = filter (wins nfkc review WinIncoming) (pending_candidates review)" "won \<noteq> []"
      "\<forall>c \<in> set (pending_candidates review). \<not> wins nfkc review WinExisting c"
      "sp_winner plan = WinIncoming"
      "sp_steps plan = map (step_for nfkc review RemoveExistingContinue) won"
      "sp_remainingCandidateCount plan = length (pending_candidates review) - length won"
      "sp_isPartial plan = (length won < length (pending_candidates review))"
      "sp_pendingCandidateCount plan = length (pending_candidates review)"
proof (cases "find (wins nfkc review WinExisting) (pending_candidates review)")
  case None
  then have n: "\<forall>c \<in> set (pending_candidates review). \<not> wins nfkc review WinExisting c"
    by (simp add: find_None_iff)
  show ?thesis
    using assms None by (intro incoming [OF _ refl _ n])
      (auto simp: buildStrictOverlapPlan_def Let_def split: if_splits)
next
  case (Some c)
  then have "wins nfkc review WinExisting c" "c \<in> set (pending_candidates review)"
    by (auto simp: find_Some_iff)
  then show ?thesis
    using assms Some by (intro existing [of c])
      (auto simp: buildStrictOverlapPlan_def Let_def split: if_splits)
qed

section \<open>Examples\<close>

definition sample_contained :: overlap_candidate where
  "sample_contained =
     sample_candidate ''c'' (sample_ref ''e'' 1 ''old'' 4) IncomingContainsExisting
       (map (\<lambda>i. sample_pair i (i + 1)) [1..4]) 6"

definition sample_open_review :: overlap_review where
  "sample_open_review = sample_review (sample_ref ''n'' 2 ''new'' 6) [sample_contained]"

definition sample_uncensored :: overlap_candidate where
  "sample_uncensored =
     sample_candidate ''u'' (sample_ref ''e'' 1 ''A (uncensored)'' 4) IncomingContainsExisting
       (map (\<lambda>i. sample_pair i (i + 1)) [1..4]) 6"

lemmas sample_overlap_defs = sample_contained_def sample_open_review_def sample_uncensored_def
  sample_review_def sample_ref_def sample_candidate_def sample_pair_def

lemma sample_evaluation:
  "strictCandidateEvaluation id sample_open_review sample_contained \<noteq> None"
  "map_option ce_winner (strictCandidateEvaluation id sample_open_review sample_contained) = Some WinIncoming"
  "map_option ce_decisionPath (strictCandidateEvaluation id sample_open_review sample_contained)
     = Some CompleteContainment"
  by code_simp+

lemma sample_plan: "map_option sp_winner (buildStrictOverlapPlan id sample_open_review) = Some WinIncoming"
  by code_simp

lemma sample_merge:
  "map_option mr_sourceSide (automaticUncensoredMerge id (sample_open_review) sample_uncensored) = Some MExisting"
  by code_simp

section \<open>Properties\<close>

text \<open>C1: No edition is excluded automatically without evidence. Whenever the rule names a winner, the
  two editions are different galleries, at most one of them has pages of its own, the loser is covered
  to at least 95 percent, the confidence is at least 85 percent, and no automatic merge applies.\<close>

theorem auto_exclusion_evidence:
  assumes "strictCandidateEvaluation nfkc review c = Some ev"
  shows "loser_coverage (ce_winner ev) c \<ge> 95 / 100 \<and> oc_confidence c \<ge> 85 / 100
    \<and> (oc_existingUniquePages c \<le> 0 \<or> oc_incomingUniquePages c \<le> 0)
    \<and> or_galleryId (oc_existing c) \<noteq> or_galleryId (rv_incoming review)
    \<and> oc_relation c \<in> {NearEquivalent, IncomingContainsExisting, ExistingContainsIncoming}
    \<and> automaticUncensoredMerge nfkc review c = None"
  using assms
proof (rule evaluation_Some)
  fix cov reason
  assume ch: "choose_winner nfkc review c = Some (ce_winner ev, cov, reason, ce_decisionPath ev)"
    and cov: "st_loserCoverage strictOverlapThresholds \<le> cov"
    and paths: "complete_containment review c \<or> \<not> fails_balanced review c"
    and rest: "\<not> (oc_existingUniquePages c > 0 \<and> oc_incomingUniquePages c > 0)"
      "automaticUncensoredMerge nfkc review c = None"
      "or_galleryId (oc_existing c) \<noteq> or_galleryId (rv_incoming review)"
  have "oc_relation c \<in> {NearEquivalent, IncomingContainsExisting, ExistingContainsIncoming}"
    using ch by (auto simp: choose_winner_def complete_containment_def containment_winner_def Let_def
        split: if_splits overlap_relation.splits)
  with choose_winner_coverage [OF ch] cov confidence_floor [OF paths] rest show ?thesis
    by (auto simp: threshold_defs)
qed

theorem auto_exclusion_evidence_witness:
  "\<exists>ev. strictCandidateEvaluation id sample_open_review sample_contained = Some ev
        \<and> loser_coverage (ce_winner ev) sample_contained \<ge> 95 / 100"
  using sample_evaluation(1) auto_exclusion_evidence [of id sample_open_review sample_contained] by blast

text \<open>C2: The path that skips the page-difference limit loses nothing. When an exclusion is decided by
  complete containment, the winner has strictly more pages, and if the stored pairs lie within the
  two editions then every page of the excluded edition, in order, is matched by exactly one pair.\<close>

theorem complete_containment_keeps_all:
  assumes "strictCandidateEvaluation nfkc review c = Some ev" and "ce_decisionPath ev = CompleteContainment"
    and "\<forall>p \<in> set (oc_pagePairs c).
           pair_in_range (or_pageCount (oc_existing c)) (or_pageCount (rv_incoming review)) p"
  shows "side_pages_of review c (loser_side (ce_winner ev))
           < side_pages_of review c (other_side (loser_side (ce_winner ev)))
    \<and> map (pair_page (loser_side (ce_winner ev))) (oc_pagePairs c)
        = [1..side_pages_of review c (loser_side (ce_winner ev))]"
proof -
  obtain cov reason where ch: "choose_winner nfkc review c = Some (ce_winner ev, cov, reason, ce_decisionPath ev)"
    using assms(1) by (rule evaluation_Some)
  have cc: "complete_containment review c" and w: "containment_winner review c = Some (ce_winner ev)"
    using complete_path_iff [OF ch] assms(2) by simp_all
  from w have less: "side_pages_of review c (loser_side (ce_winner ev))
      < side_pages_of review c (other_side (loser_side (ce_winner ev)))"
    by (auto simp: containment_winner_def Let_def side_pages_of_def loser_side_def split: if_splits)
  then have "min (or_pageCount (rv_incoming review)) (or_pageCount (oc_existing c))
      = side_pages_of review c (loser_side (ce_winner ev))"
    by (cases "ce_winner ev") (auto simp: side_pages_of_def loser_side_def)
  with cc have "int (length (oc_pagePairs c)) = side_pages_of review c (loser_side (ce_winner ev))"
    "ascending_pairs (oc_pagePairs c)"
    by (simp_all add: complete_containment_def Let_def)
  with less pairs_fill_side assms(3) show ?thesis by blast
qed

theorem complete_containment_keeps_all_witness:
  "\<exists>ev. strictCandidateEvaluation id sample_open_review sample_contained = Some ev
        \<and> map (pair_page (loser_side (ce_winner ev))) (oc_pagePairs sample_contained)
          = [1..side_pages_of sample_open_review sample_contained (loser_side (ce_winner ev))]"
proof -
  obtain ev where ev: "strictCandidateEvaluation id sample_open_review sample_contained = Some ev"
    "ce_decisionPath ev = CompleteContainment"
    using sample_evaluation(1,3) by auto
  have "\<forall>p \<in> set (oc_pagePairs sample_contained). pair_in_range
      (or_pageCount (oc_existing sample_contained)) (or_pageCount (rv_incoming sample_open_review)) p"
    by code_simp
  with complete_containment_keeps_all [OF ev] ev(1) show ?thesis by blast
qed

text \<open>C8: A plan only acts on what it judged. Every step of a plan is about a candidate of the pending
  review that has no decision yet and whose own comparison names the plan's winner. The plan either drops the incoming edition in one
  step, or no undecided comparison speaks for an existing edition and the plan removes exactly the
  existing ones whose comparison names the incoming. The counts it reports are exact: it counts the
  undecided candidates of the review, steps and remaining candidates add up to them, and it is
  partial exactly when some remain.\<close>

theorem strict_plan_sound:
  assumes "buildStrictOverlapPlan nfkc review = Some plan"
  shows "rv_state review = RPending
    \<and> (\<forall>st \<in> set (sp_steps plan). \<exists>c \<in> set (rv_candidates review). \<exists>ev.
          oc_decision c = None \<and> ss_candidateId st = oc_candidateId c
          \<and> strictCandidateEvaluation nfkc review c = Some ev \<and> ce_winner ev = sp_winner plan
          \<and> ss_featureSnapshot st = ce_featureSnapshot ev
          \<and> ss_action st = (if sp_winner plan = WinExisting then RemoveIncoming else RemoveExistingContinue))
    \<and> sp_pendingCandidateCount plan = length (filter (\<lambda>c. oc_decision c = None) (rv_candidates review))
    \<and> (if sp_winner plan = WinExisting then length (sp_steps plan) = 1 \<and> sp_remainingCandidateCount plan = 0
       else mset (map ss_candidateId (sp_steps plan)) = image_mset oc_candidateId
              (mset (filter (\<lambda>c. oc_decision c = None \<and> wins nfkc review WinIncoming c) (rv_candidates review)))
         \<and> (\<forall>c \<in> set (rv_candidates review). oc_decision c = None \<longrightarrow> \<not> wins nfkc review WinExisting c)
         \<and> length (sp_steps plan) + sp_remainingCandidateCount plan = sp_pendingCandidateCount plan)
    \<and> (sp_isPartial plan \<longleftrightarrow> sp_remainingCandidateCount plan > 0)"
  using assms
proof (cases rule: plan_cases)
  case (existing c)
  then show ?thesis
    using winsD [of nfkc review WinExisting c] by (auto simp: pending_mem step_for_def pending_length)
next
  case (incoming won)
  have le: "length won \<le> length (pending_candidates review)"
    by (simp add: incoming(2))
  have "\<exists>c \<in> set (rv_candidates review). \<exists>ev.
          oc_decision c = None \<and> ss_candidateId st = oc_candidateId c
          \<and> strictCandidateEvaluation nfkc review c = Some ev \<and> ce_winner ev = WinIncoming
          \<and> ss_featureSnapshot st = ce_featureSnapshot ev \<and> ss_action st = RemoveExistingContinue"
    if st: "st \<in> set (sp_steps plan)" for st
  proof -
    obtain c where c: "c \<in> set won" "st = step_for nfkc review RemoveExistingContinue c"
      using st by (auto simp: incoming(6))
    then have "c \<in> set (rv_candidates review) \<and> oc_decision c = None" "wins nfkc review WinIncoming c"
      by (simp_all add: incoming(2) pending_mem)
    then show ?thesis
      using winsD [of nfkc review WinIncoming c] c(2) by (auto simp: step_for_def)
  qed
  moreover have "length (sp_steps plan) + sp_remainingCandidateCount plan = sp_pendingCandidateCount plan"
    "sp_isPartial plan \<longleftrightarrow> sp_remainingCandidateCount plan > 0"
    using le by (simp_all add: incoming(6-9))
  moreover have "mset (map ss_candidateId (sp_steps plan)) = image_mset oc_candidateId
      (mset (filter (\<lambda>c. oc_decision c = None \<and> wins nfkc review WinIncoming c) (rv_candidates review)))"
    by (simp add: incoming(2,6) step_for_def comp_def pending_wins [simplified])
  ultimately show ?thesis
    using incoming(4) by (simp add: incoming(1,5,9) pending_mem pending_length)
qed

theorem strict_plan_sound_witness:
  "\<exists>plan. buildStrictOverlapPlan id sample_open_review = Some plan \<and> sp_winner plan = WinIncoming
          \<and> length (sp_steps plan) + sp_remainingCandidateCount plan = sp_pendingCandidateCount plan"
proof -
  obtain plan where p: "buildStrictOverlapPlan id sample_open_review = Some plan" "sp_winner plan = WinIncoming"
    using sample_plan by auto
  with strict_plan_sound [OF p(1)] show ?thesis by auto
qed

text \<open>C9: The automatic merge takes over every page of the smaller edition. A request is made only from
  an uncensored edition into a strictly larger one that is not, asks for all pages of the smaller
  one, and each of these pages has exactly one matched page in the larger one, in order.\<close>

theorem automatic_merge_total:
  assumes "automaticUncensoredMerge nfkc review c = Some req"
  shows "side_pages_of review c (mr_sourceSide req) < side_pages_of review c (other_side (mr_sourceSide req))
    \<and> editionPreference nfkc (if mr_sourceSide req = MIncoming then rv_incoming review else oc_existing c) = Uncensored
    \<and> editionPreference nfkc (if mr_sourceSide req = MIncoming then oc_existing c else rv_incoming review) \<noteq> Uncensored
    \<and> mr_sourcePages req = [1..side_pages_of review c (mr_sourceSide req)]
    \<and> map (pair_page (mr_sourceSide req)) (js_sort by_existing_page (oc_pagePairs c)) = mr_sourcePages req
    \<and> mr_expectedRevision req = rv_revision review"
proof -
  obtain side where m: "merge_from nfkc review c side = Some req"
    using assms by (auto simp: automaticUncensoredMerge_def split: if_splits)
  note f = merge_from_Some [OF m]
  show ?thesis using f(2-7) pairs_fill_side [OF f(8-10)] by (simp add: f(1))
qed

theorem automatic_merge_total_witness:
  "\<exists>req. automaticUncensoredMerge id sample_open_review sample_uncensored = Some req
         \<and> mr_sourceSide req = MExisting \<and> mr_sourcePages req = [1..4]"
proof -
  obtain req where r: "automaticUncensoredMerge id sample_open_review sample_uncensored = Some req"
    "mr_sourceSide req = MExisting"
    using sample_merge by auto
  have "side_pages_of sample_open_review sample_uncensored MExisting = 4" by code_simp
  with automatic_merge_total [OF r(1)] r show ?thesis by auto
qed

end
