(* ===== verification/OverlapContainment.thy ===== *)
theory OverlapContainment
  imports OverlapAuto
begin

text \<open>
  \<^verbatim>\<open>src/src/state/downloadOverlapContainment.ts\<close>: which saved or waiting editions one large
  edition directly contains, and in which order the pending reviews are shown. Both walk over the
  comparisons of all reviews; an insertion-ordered \<^verbatim>\<open>Map\<close> keeps one entry for each excluded
  edition. The facts: a group holds exactly the directly contained editions, each once, and reviews
  with more contained editions come first.
\<close>

section \<open>Contained editions of a keeper\<close>

record containment_item =
  ci_key :: string
  ci_review :: overlap_review
  ci_candidate :: overlap_candidate
  ci_action :: decision_action
  ci_excluded :: overlap_gallery_ref
  ci_keeperIsIncoming :: bool

record containment_group =
  cg_keeper :: overlap_gallery_ref
  cg_items :: "containment_item list"

text \<open>The winner of a comparison decided by complete containment, in a pending review.\<close>

definition containment_edge ::
  "(string \<Rightarrow> string) \<Rightarrow> overlap_review \<Rightarrow> overlap_candidate \<Rightarrow> strict_winner option" where
  "containment_edge nfkc review c =
     (if rv_state review \<noteq> RPending \<or> oc_decision c \<noteq> None then None
      else case strictCandidateEvaluation nfkc review c of
        Some ev \<Rightarrow> if ce_decisionPath ev = CompleteContainment then Some (ce_winner ev) else None
      | None \<Rightarrow> None)"

definition kept_ref :: "overlap_review \<Rightarrow> overlap_candidate \<Rightarrow> strict_winner \<Rightarrow> overlap_gallery_ref" where
  "kept_ref review c w = (if w = WinIncoming then rv_incoming review else oc_existing c)"

definition excluded_ref :: "overlap_review \<Rightarrow> overlap_candidate \<Rightarrow> strict_winner \<Rightarrow> overlap_gallery_ref" where
  "excluded_ref review c w = (if w = WinIncoming then oc_existing c else rv_incoming review)"

definition containment_item_of :: "overlap_review \<Rightarrow> overlap_candidate \<Rightarrow> strict_winner \<Rightarrow> containment_item" where
  "containment_item_of review c w =
     \<lparr>ci_key = rv_reviewId review @ '':'' @ oc_candidateId c, ci_review = review, ci_candidate = c,
      ci_action = (if w = WinIncoming then RemoveExistingContinue else RemoveIncoming),
      ci_excluded = excluded_ref review c w, ci_keeperIsIncoming = (w = WinIncoming)\<rparr>"

text \<open>The item one comparison contributes, if any, and how it enters the map.\<close>

definition keeper_item ::
  "(string \<Rightarrow> string) \<Rightarrow> gallery_id \<Rightarrow> overlap_review \<Rightarrow> overlap_candidate \<Rightarrow> containment_item option" where
  "keeper_item nfkc g review c =
     (case containment_edge nfkc review c of
        None \<Rightarrow> None
      | Some w \<Rightarrow>
          if or_galleryId (kept_ref review c w) \<noteq> g \<or> or_galleryId (excluded_ref review c w) = g then None
          else Some (containment_item_of review c w))"

type_synonym excluded_map = "(string \<times> containment_item) list"

definition record_item :: "excluded_map \<Rightarrow> containment_item \<Rightarrow> excluded_map" where
  "record_item m item =
     (let k = or_entryId (ci_excluded item)
      in case map_of m k of
           None \<Rightarrow> AList.update k item m
         | Some known \<Rightarrow>
             if ci_keeperIsIncoming item \<and> \<not> ci_keeperIsIncoming known then AList.update k item m else m)"

definition item_keeper :: "containment_item \<Rightarrow> overlap_gallery_ref" where
  "item_keeper item =
     (if ci_keeperIsIncoming item then rv_incoming (ci_review item) else oc_existing (ci_candidate item))"

definition visit_candidate ::
  "(string \<Rightarrow> string) \<Rightarrow> gallery_id \<Rightarrow> overlap_review \<Rightarrow> overlap_gallery_ref option \<times> excluded_map
   \<Rightarrow> overlap_candidate \<Rightarrow> overlap_gallery_ref option \<times> excluded_map" where
  "visit_candidate nfkc g review st c =
     (case keeper_item nfkc g review c of
        None \<Rightarrow> st
      | Some item \<Rightarrow>
          (case fst st of Some k \<Rightarrow> Some k | None \<Rightarrow> Some (item_keeper item), record_item (snd st) item))"

definition visit_review ::
  "(string \<Rightarrow> string) \<Rightarrow> gallery_id \<Rightarrow> overlap_gallery_ref option \<times> excluded_map
   \<Rightarrow> overlap_review \<Rightarrow> overlap_gallery_ref option \<times> excluded_map" where
  "visit_review nfkc g st review =
     (if rv_state review \<noteq> RPending then st
      else foldl (visit_candidate nfkc g review) st (rv_candidates review))"

definition by_own_review :: "containment_item \<Rightarrow> containment_item \<Rightarrow> int" where
  "by_own_review a b = of_bool (ci_keeperIsIncoming b) - of_bool (ci_keeperIsIncoming a)"

definition by_item :: "containment_item \<Rightarrow> containment_item \<Rightarrow> int" where
  "by_item = js_or by_own_review
     (js_or (\<lambda>a b. or_pageCount (ci_excluded b) - or_pageCount (ci_excluded a))
        (\<lambda>a b. or_galleryId (ci_excluded a) - or_galleryId (ci_excluded b)))"

interpretation by_own_review: signed_comparator by_own_review
  by unfold_locales (auto simp: by_own_review_def of_bool_def split: if_splits)

interpretation by_item: js_comparator by_item
  unfolding by_item_def
  by (intro by_own_review.js_comparator_or signed_comparator.js_comparator_or signed_comparator_down
      signed_comparator.axioms(1) [OF signed_comparator_up])

definition buildDownloadOverlapContainmentGroup ::
  "(string \<Rightarrow> string) \<Rightarrow> gallery_id \<Rightarrow> overlap_review list \<Rightarrow> containment_group option" where
  "buildDownloadOverlapContainmentGroup nfkc g reviews =
     (case foldl (visit_review nfkc g) (None, []) reviews of
        (None, _) \<Rightarrow> None
      | (Some k, m) \<Rightarrow>
          if m = [] then None
          else Some \<lparr>cg_keeper = k, cg_items = js_sort by_item (vals m)\<rparr>)"

section \<open>The items of all reviews\<close>

definition keeper_items ::
  "(string \<Rightarrow> string) \<Rightarrow> gallery_id \<Rightarrow> overlap_review list \<Rightarrow> containment_item list" where
  "keeper_items nfkc g reviews =
     concat (map (\<lambda>r. List.map_filter (keeper_item nfkc g r) (rv_candidates r)) reviews)"

lemma keeper_item_pending: "keeper_item nfkc g r c = Some item \<Longrightarrow> rv_state r = RPending"
  by (auto simp: keeper_item_def containment_edge_def split: if_splits option.splits)

lemma visit_candidates_snd:
  "snd (foldl (visit_candidate nfkc g r) st cs) = foldl record_item (snd st) (List.map_filter (keeper_item nfkc g r) cs)"
  by (induction cs arbitrary: st) (auto simp: visit_candidate_def map_filter_simps split: option.splits)

lemma visit_review_snd:
  "snd (visit_review nfkc g st r)
   = foldl record_item (snd st) (List.map_filter (keeper_item nfkc g r) (rv_candidates r))"
proof (cases "rv_state r = RPending")
  case False
  then have "keeper_item nfkc g r c = None" for c
    using keeper_item_pending by (metis not_Some_eq)
  then have "List.map_filter (keeper_item nfkc g r) (rv_candidates r) = []"
    by (simp add: List.map_filter_def)
  with False show ?thesis by (simp add: visit_review_def)
qed (simp add: visit_review_def visit_candidates_snd)

lemma visit_reviews_snd:
  "snd (foldl (visit_review nfkc g) st reviews) = foldl record_item (snd st) (keeper_items nfkc g reviews)"
  by (induction reviews arbitrary: st) (auto simp: keeper_items_def visit_review_snd)

lemma keeper_items_mem:
  "item \<in> set (keeper_items nfkc g reviews) \<longleftrightarrow>
   (\<exists>r \<in> set reviews. \<exists>c \<in> set (rv_candidates r). keeper_item nfkc g r c = Some item)"
proof -
  have "item \<in> set (List.map_filter f cs) \<longleftrightarrow> (\<exists>c \<in> set cs. f c = Some item)" for f :: "overlap_candidate \<Rightarrow> _" and cs
    by (induction cs) (auto simp: map_filter_simps split: option.split)
  then show ?thesis by (simp add: keeper_items_def)
qed

text \<open>The map after a run: one entry for each excluded edition, an own-review item when there is one.\<close>

definition recorded :: "containment_item list \<Rightarrow> excluded_map \<Rightarrow> bool" where
  "recorded items m \<longleftrightarrow>
     distinct (keys m)
     \<and> (\<forall>(k, v) \<in> set m. v \<in> set items \<and> k = or_entryId (ci_excluded v))
     \<and> (\<forall>item \<in> set items. \<exists>v. map_of m (or_entryId (ci_excluded item)) = Some v
          \<and> (ci_keeperIsIncoming item \<longrightarrow> ci_keeperIsIncoming v))"

lemma recorded_lookup:
  "recorded items m \<Longrightarrow> item \<in> set items \<Longrightarrow>
   \<exists>v. map_of m (or_entryId (ci_excluded item)) = Some v \<and> (ci_keeperIsIncoming item \<longrightarrow> ci_keeperIsIncoming v)"
  unfolding recorded_def by (elim conjE) (erule (1) bspec)

lemma recorded_step: "recorded items m \<Longrightarrow> recorded (items @ [item]) (record_item m item)"
proof -
  assume r: "recorded items m"
  let ?k = "or_entryId (ci_excluded item)"
  show "recorded (items @ [item]) (record_item m item)"
  proof (cases "map_of m ?k = None \<or> (ci_keeperIsIncoming item \<and> \<not> ci_keeperIsIncoming (the (map_of m ?k)))")
    case True
    then have e: "record_item m item = AList.update ?k item m"
      by (cases "map_of m ?k") (auto simp: record_item_def Let_def)
    have "\<forall>it \<in> set (items @ [item]). \<exists>v. map_of (AList.update ?k item m) (or_entryId (ci_excluded it)) = Some v
        \<and> (ci_keeperIsIncoming it \<longrightarrow> ci_keeperIsIncoming v)"
      using r True by (fastforce simp: recorded_def omap.look_put)
    moreover have "\<forall>(k, v) \<in> set (AList.update ?k item m). v \<in> set (items @ [item]) \<and> k = or_entryId (ci_excluded v)"
      using r set_update_subset [of ?k item m] by (fastforce simp: recorded_def)
    moreover have "distinct (keys (AList.update ?k item m))"
      using r by (simp add: recorded_def)
    ultimately show ?thesis unfolding e recorded_def by blast
  next
    case False
    then have e: "record_item m item = m"
      by (cases "map_of m ?k") (auto simp: record_item_def Let_def)
    show ?thesis unfolding e using r False by (auto simp: recorded_def)
  qed
qed

lemma recorded_run: "recorded items (foldl record_item [] items)"
proof (induction items rule: rev_induct)
  case (snoc item items)
  then show ?case using recorded_step [of items _ item] by simp
qed (simp add: recorded_def)

lemma group_items:
  assumes "buildDownloadOverlapContainmentGroup nfkc g reviews = Some grp"
  obtains m where "recorded (keeper_items nfkc g reviews) m" "cg_items grp = js_sort by_item (vals m)"
proof -
  let ?m = "snd (foldl (visit_review nfkc g) (None, []) reviews)"
  have "recorded (keeper_items nfkc g reviews) ?m"
    by (simp add: visit_reviews_snd recorded_run)
  moreover have "cg_items grp = js_sort by_item (vals ?m)"
    using assms by (auto simp: buildDownloadOverlapContainmentGroup_def split: prod.splits option.splits if_splits)
  ultimately show ?thesis by (rule that)
qed

section \<open>Order of the reviews\<close>

definition add_contained :: "(gallery_id \<times> string list) list \<Rightarrow> gallery_id \<Rightarrow> string \<Rightarrow> (gallery_id \<times> string list) list" where
  "add_contained m g e =
     AList.update g (set_add e (case map_of m g of Some ids \<Rightarrow> ids | None \<Rightarrow> [])) m"

definition count_candidate ::
  "(string \<Rightarrow> string) \<Rightarrow> overlap_review \<Rightarrow> (gallery_id \<times> string list) list \<Rightarrow> overlap_candidate
   \<Rightarrow> (gallery_id \<times> string list) list" where
  "count_candidate nfkc review m c =
     (case containment_edge nfkc review c of
        None \<Rightarrow> m
      | Some w \<Rightarrow> add_contained m (or_galleryId (kept_ref review c w)) (or_entryId (excluded_ref review c w)))"

definition contained_map ::
  "(string \<Rightarrow> string) \<Rightarrow> overlap_review list \<Rightarrow> (gallery_id \<times> string list) list" where
  "contained_map nfkc reviews =
     foldl (\<lambda>m r. foldl (count_candidate nfkc r) m (rv_candidates r)) [] reviews"

definition contained_size :: "(gallery_id \<times> string list) list \<Rightarrow> gallery_id \<Rightarrow> int" where
  "contained_size m g = (case map_of m g of Some ids \<Rightarrow> int (length ids) | None \<Rightarrow> 0)"

definition review_score :: "(gallery_id \<times> string list) list \<Rightarrow> overlap_review \<Rightarrow> int" where
  "review_score m review =
     foldl max (contained_size m (or_galleryId (rv_incoming review)))
       (map (\<lambda>c. contained_size m (or_galleryId (oc_existing c)))
          (filter (\<lambda>c. oc_decision c = None) (rv_candidates review)))"

definition by_priority ::
  "(string \<Rightarrow> string \<Rightarrow> int) \<Rightarrow> (gallery_id \<times> string list) list \<Rightarrow> overlap_review \<Rightarrow> overlap_review \<Rightarrow> int" where
  "by_priority loc m =
     js_or (\<lambda>a b. review_score m b - review_score m a)
       (js_or (\<lambda>a b. contained_size m (or_galleryId (rv_incoming b)) - contained_size m (or_galleryId (rv_incoming a)))
          (js_or (\<lambda>a b. loc (rv_createdAt a) (rv_createdAt b)) (\<lambda>a b. loc (rv_reviewId a) (rv_reviewId b))))"

definition prioritizeDownloadOverlapReviews ::
  "(string \<Rightarrow> string) \<Rightarrow> (string \<Rightarrow> string \<Rightarrow> int) \<Rightarrow> overlap_review list \<Rightarrow> overlap_review list" where
  "prioritizeDownloadOverlapReviews nfkc loc reviews = js_sort (by_priority loc (contained_map nfkc reviews)) reviews"

context collation
begin

lemma js_comparator_by_priority: "js_comparator (by_priority loc m)"
  unfolding by_priority_def
  by (intro signed_comparator.js_comparator_or signed_comparator_down signed_comparator_text js_comparator_text)

end

text \<open>The editions directly contained in a gallery, over all reviews.\<close>

definition directly_contained :: "(string \<Rightarrow> string) \<Rightarrow> overlap_review list \<Rightarrow> gallery_id \<Rightarrow> string set" where
  "directly_contained nfkc reviews g =
     {or_entryId (excluded_ref r c w) | r c w.
        r \<in> set reviews \<and> c \<in> set (rv_candidates r) \<and> containment_edge nfkc r c = Some w
        \<and> or_galleryId (kept_ref r c w) = g}"

definition contained_ids :: "(gallery_id \<times> string list) list \<Rightarrow> gallery_id \<Rightarrow> string list" where
  "contained_ids m g = (case map_of m g of Some ids \<Rightarrow> ids | None \<Rightarrow> [])"

lemma contained_size_ids: "contained_size m g = int (length (contained_ids m g))"
  by (simp add: contained_size_def contained_ids_def split: option.split)

lemma contained_ids_add:
  "contained_ids (add_contained m k e) g = (if g = k then set_add e (contained_ids m k) else contained_ids m g)"
  by (simp add: contained_ids_def add_contained_def omap.look_put)

lemma contained_ids_candidates:
  "set (contained_ids (foldl (count_candidate nfkc r) m cs) g)
     = set (contained_ids m g)
       \<union> {or_entryId (excluded_ref r c w) | c w. c \<in> set cs \<and> containment_edge nfkc r c = Some w
            \<and> or_galleryId (kept_ref r c w) = g}
   \<and> (distinct (contained_ids m g) \<longrightarrow> distinct (contained_ids (foldl (count_candidate nfkc r) m cs) g))"
proof (induction cs arbitrary: m)
  case (Cons c cs)
  show ?case
    using Cons.IH [of "count_candidate nfkc r m c"]
    by (cases "containment_edge nfkc r c") (auto simp: count_candidate_def contained_ids_add)
qed simp

lemma contained_ids_reviews:
  "set (contained_ids (foldl (\<lambda>m r. foldl (count_candidate nfkc r) m (rv_candidates r)) m rs) g)
     = set (contained_ids m g) \<union> directly_contained nfkc rs g
   \<and> (distinct (contained_ids m g)
      \<longrightarrow> distinct (contained_ids (foldl (\<lambda>m r. foldl (count_candidate nfkc r) m (rv_candidates r)) m rs) g))"
proof (induction rs arbitrary: m)
  case (Cons r rs)
  have "directly_contained nfkc (r # rs) g = directly_contained nfkc rs g \<union>
      {or_entryId (excluded_ref r c w) | c w. c \<in> set (rv_candidates r) \<and> containment_edge nfkc r c = Some w
            \<and> or_galleryId (kept_ref r c w) = g}"
    by (auto simp: directly_contained_def)
  then show ?case
    using Cons.IH [of "foldl (count_candidate nfkc r) m (rv_candidates r)"]
      contained_ids_candidates [of nfkc r m "rv_candidates r" g] by auto
qed (simp add: directly_contained_def)

lemma contained_size_card: "contained_size (contained_map nfkc rs) g = int (card (directly_contained nfkc rs g))"
proof -
  have "set (contained_ids (contained_map nfkc rs) g) = directly_contained nfkc rs g"
    "distinct (contained_ids (contained_map nfkc rs) g)"
    using contained_ids_reviews [of nfkc "[]" rs g] by (simp_all add: contained_map_def contained_ids_def)
  then show ?thesis by (metis contained_size_ids distinct_card)
qed

lemma foldl_max_ge: "(a :: int) \<le> foldl max a xs \<and> (\<forall>x \<in> set xs. x \<le> foldl max a xs)"
  by (induction xs arbitrary: a) (simp, metis (no_types, lifting) foldl_Cons max.bounded_iff set_ConsD)

section \<open>Properties\<close>

text \<open>A containment group holds exactly the editions the keeper directly contains: every item comes
  from a pending, undecided comparison that complete containment decided in favour of the keeper,
  each excluded edition appears once and never is the keeper, and no directly contained edition is
  left out; an edition contained in the keeper's own review is removed through that review.\<close>

theorem containment_group_exact:
  assumes "buildDownloadOverlapContainmentGroup nfkc g reviews = Some grp"
  shows "set (cg_items grp) \<subseteq> set (keeper_items nfkc g reviews)
    \<and> distinct (map (\<lambda>i. or_entryId (ci_excluded i)) (cg_items grp))
    \<and> (\<forall>item \<in> set (keeper_items nfkc g reviews). \<exists>i \<in> set (cg_items grp).
         or_entryId (ci_excluded i) = or_entryId (ci_excluded item)
         \<and> (ci_keeperIsIncoming item \<longrightarrow> ci_keeperIsIncoming i))
    \<and> sorted_wrt (\<lambda>a b. ci_keeperIsIncoming b \<longrightarrow> ci_keeperIsIncoming a) (cg_items grp)"
  using assms
proof (rule group_items)
  fix m
  assume r: "recorded (keeper_items nfkc g reviews) m" and i: "cg_items grp = js_sort by_item (vals m)"
  have k: "map (\<lambda>i. or_entryId (ci_excluded i)) (vals m) = keys m"
    using r by (auto simp: recorded_def)
  have "mset (map (\<lambda>i. or_entryId (ci_excluded i)) (cg_items grp)) = mset (keys m)"
    unfolding k [symmetric] by (simp add: i multiset.map_comp comp_def)
  then have "distinct (map (\<lambda>i. or_entryId (ci_excluded i)) (cg_items grp))"
    using r by (metis mset_eq_imp_distinct_iff recorded_def)
  moreover have "sorted_wrt (\<lambda>a b. ci_keeperIsIncoming b \<longrightarrow> ci_keeperIsIncoming a) (cg_items grp)"
    unfolding i
    by (rule sorted_wrt_mono_rel [OF _ by_item.sorted_js_sort])
       (auto simp: by_item_def by_own_review_def of_bool_def dest!: js_or_le split: if_splits)
  moreover have "set (cg_items grp) \<subseteq> set (keeper_items nfkc g reviews)"
    using r by (auto simp: i recorded_def)
  moreover have "\<exists>i \<in> set (cg_items grp). or_entryId (ci_excluded i) = or_entryId (ci_excluded item)
         \<and> (ci_keeperIsIncoming item \<longrightarrow> ci_keeperIsIncoming i)"
    if "item \<in> set (keeper_items nfkc g reviews)" for item
  proof -
    note mem_item = that
    obtain v where v: "map_of m (or_entryId (ci_excluded item)) = Some v" "ci_keeperIsIncoming item \<longrightarrow> ci_keeperIsIncoming v"
      using recorded_lookup [OF r mem_item] by (elim exE conjE)
    have mem: "(or_entryId (ci_excluded item), v) \<in> set m" using v(1) by (rule map_of_SomeD)
    have "\<forall>(k, v) \<in> set m. k = or_entryId (ci_excluded v)" using r by (auto simp: recorded_def)
    with mem have "or_entryId (ci_excluded v) = or_entryId (ci_excluded item)" by auto
    moreover have "v \<in> set (cg_items grp)"
      using imageI [OF mem, of snd] by (simp add: i)
    ultimately show ?thesis using v(2) by blast
  qed
  ultimately show ?thesis by simp
qed

theorem containment_group_exact_witness:
  "\<exists>grp. buildDownloadOverlapContainmentGroup id 2 [sample_open_review] = Some grp
         \<and> distinct (map (\<lambda>i. or_entryId (ci_excluded i)) (cg_items grp))"
proof -
  have "buildDownloadOverlapContainmentGroup id 2 [sample_open_review] \<noteq> None" by code_simp
  then show ?thesis using containment_group_exact by blast
qed

text \<open>Reviews are shown by what they can clear: the order is a rearrangement of the reviews in which
  the score never increases, and the score of a review is at least the number of editions its incoming
  edition, or one of its undecided existing ones, directly contains.\<close>

theorem reviews_by_contained_editions:
  assumes "collation loc"
  shows "mset (prioritizeDownloadOverlapReviews nfkc loc reviews) = mset reviews
    \<and> sorted_wrt (\<lambda>a b. review_score (contained_map nfkc reviews) b \<le> review_score (contained_map nfkc reviews) a)
        (prioritizeDownloadOverlapReviews nfkc loc reviews)
    \<and> (\<forall>g \<in> insert (or_galleryId (rv_incoming r))
              {or_galleryId (oc_existing c) | c. c \<in> set (rv_candidates r) \<and> oc_decision c = None}.
         int (card (directly_contained nfkc reviews g)) \<le> review_score (contained_map nfkc reviews) r)"
proof -
  let ?m = "contained_map nfkc reviews"
  have cmp: "js_comparator (by_priority loc ?m)"
    using assms by (rule collation.js_comparator_by_priority)
  have "sorted_wrt (\<lambda>a b. review_score ?m b \<le> review_score ?m a) (prioritizeDownloadOverlapReviews nfkc loc reviews)"
    unfolding prioritizeDownloadOverlapReviews_def
    by (rule sorted_wrt_mono_rel [OF _ js_comparator.sorted_js_sort [OF cmp]])
       (auto simp: by_priority_def dest!: js_or_le)
  moreover have "contained_size ?m g \<le> review_score ?m r"
    if "g \<in> insert (or_galleryId (rv_incoming r))
          {or_galleryId (oc_existing c) | c. c \<in> set (rv_candidates r) \<and> oc_decision c = None}" for g
    using that foldl_max_ge by (fastforce simp: review_score_def)
  ultimately show ?thesis
    by (simp add: prioritizeDownloadOverlapReviews_def contained_size_card)
qed

theorem reviews_by_contained_editions_witness:
  "mset (prioritizeDownloadOverlapReviews id lex_cmp [sample_open_review]) = mset [sample_open_review]
   \<and> int (card (directly_contained id [sample_open_review] 2))
       \<le> review_score (contained_map id [sample_open_review]) sample_open_review"
  using reviews_by_contained_editions [OF collation_lex_cmp, of id "[sample_open_review]" sample_open_review]
  by (simp add: sample_open_review_def sample_review_def sample_ref_def)

end
