(* ===== verification/DuplicateTypes.thy ===== *)
theory DuplicateTypes
  imports OverlapTypes
begin

text \<open>
  The records of a duplicate scan (\<^verbatim>\<open>src/src/api/contracts.ts\<close>): two saved editions, the evidence
  that they are the same work, and the decisions made about them.
\<close>

datatype duplicate_relation = DupExact | DupContains | DupPartial | DupTranslation

record duplicate_ref =
  dr_galleryId :: gallery_id
  dr_entryId :: string
  dr_title :: string
  dr_artist :: "string option"
  dr_group :: "string option"
  dr_pageCount :: int

record duplicate_candidate =
  dc_candidateId :: string
  dc_revision :: int
  dc_parent :: duplicate_ref
  dc_candidate :: duplicate_ref
  dc_relation :: duplicate_relation
  dc_confidence :: rat
  dc_matchedPages :: int
  dc_parentCoverage :: rat
  dc_candidateCoverage :: rat
  dc_createdAt :: string
  dc_updatedAt :: string

datatype evidence_kind = ExactSha | VisualHash | SequenceAlignment | EHentaiRelation

record duplicate_evidence =
  dv_evidenceId :: string
  dv_kind :: evidence_kind
  dv_confidence :: rat
  dv_matchedPages :: int
  dv_description :: string

record duplicate_page_pair =
  dp_parentSourcePage :: int
  dp_candidateSourcePage :: int
  dp_exactSha256 :: bool
  dp_dHashDistance :: int
  dp_pHashDistance :: int
  dp_detailHashDistance :: int
  dp_edgeSimilarity :: rat
  dp_visualSimilarity :: rat
  dp_lowInformation :: bool

datatype duplicate_action = HideParent | HideCandidate | SeriesLink | SeriesUnlink | ExcludePair

record duplicate_decision_request =
  dq_candidateId :: string
  dq_expectedRevision :: int
  dq_action :: duplicate_action
  dq_targetGalleryId :: "gallery_id option"
  dq_seriesGroupId :: "string option"
  dq_seriesName :: "string option"

record duplicate_decision =
  dd_decisionId :: string
  dd_candidateId :: string
  dd_candidateRevision :: int
  dd_action :: duplicate_action
  dd_targetGalleryId :: "gallery_id option"
  dd_seriesGroupId :: "string option"
  dd_createdAt :: string

record series_group =
  sg_seriesGroupId :: string
  sg_name :: string
  sg_revision :: int
  sg_members :: "duplicate_ref list"
  sg_createdAt :: string
  sg_updatedAt :: string

record duplicate_review =
  dw_resolved :: "bool option"
  dw_artifactStale :: "bool option"
  dw_candidate :: duplicate_candidate
  dw_evidence :: "duplicate_evidence list"
  dw_pagePairs :: "duplicate_page_pair list"
  dw_decisions :: "duplicate_decision list"
  dw_seriesGroups :: "series_group list"

definition sample_duplicate_ref :: "int \<Rightarrow> string \<Rightarrow> int \<Rightarrow> duplicate_ref" where
  "sample_duplicate_ref g e n =
     \<lparr>dr_galleryId = g, dr_entryId = e, dr_title = ''t'', dr_artist = None, dr_group = None, dr_pageCount = n\<rparr>"

definition sample_duplicate :: "string \<Rightarrow> duplicate_ref \<Rightarrow> duplicate_ref \<Rightarrow> duplicate_candidate" where
  "sample_duplicate cid p c =
     \<lparr>dc_candidateId = cid, dc_revision = 1, dc_parent = p, dc_candidate = c, dc_relation = DupExact,
      dc_confidence = 1, dc_matchedPages = 3, dc_parentCoverage = 1, dc_candidateCoverage = 1,
      dc_createdAt = ''2024-01-01'', dc_updatedAt = ''2024-01-01''\<rparr>"

definition sample_decision :: "duplicate_action \<Rightarrow> duplicate_decision" where
  "sample_decision act =
     \<lparr>dd_decisionId = ''d'', dd_candidateId = ''c'', dd_candidateRevision = 1, dd_action = act,
      dd_targetGalleryId = None, dd_seriesGroupId = None, dd_createdAt = ''2024-01-02''\<rparr>"

definition sample_duplicate_review :: "duplicate_decision list \<Rightarrow> duplicate_review" where
  "sample_duplicate_review ds =
     \<lparr>dw_resolved = None, dw_artifactStale = None,
      dw_candidate = sample_duplicate ''c'' (sample_duplicate_ref 1 ''p'' 3) (sample_duplicate_ref 2 ''q'' 3),
      dw_evidence = [],
      dw_pagePairs = map (\<lambda>i. \<lparr>dp_parentSourcePage = i, dp_candidateSourcePage = i, dp_exactSha256 = True,
        dp_dHashDistance = 0, dp_pHashDistance = 0, dp_detailHashDistance = 0, dp_edgeSimilarity = 1,
        dp_visualSimilarity = 1, dp_lowInformation = False\<rparr>) [1..3],
      dw_decisions = ds, dw_seriesGroups = []\<rparr>"

end
