(* ===== verification/CompletedPair.thy ===== *)
theory CompletedPair
  imports DuplicateTypes OverlapAuto
begin

text \<open>
  \<^verbatim>\<open>src/src/state/completedPairReview.ts\<close>: a duplicate found between two finished downloads, shown
  as an overlap review (the parent as the existing edition, the candidate as the incoming one). The
  facts: the run length it reports is the longest run of pages that advance together, and a pair that
  has been decided is never decided again automatically.
\<close>

definition duplicate_prefix :: string where
  "duplicate_prefix = ''duplicate:''"

definition completedPairReviewId :: "string \<Rightarrow> string" where
  "completedPairReviewId candidateId = duplicate_prefix @ candidateId"

definition isCompletedPairReview :: "string \<Rightarrow> bool" where
  "isCompletedPairReview i \<longleftrightarrow> starts_with duplicate_prefix i \<or> starts_with ''completed-pair:'' i"

definition pair_ref :: "duplicate_ref \<Rightarrow> overlap_gallery_ref" where
  "pair_ref v =
     \<lparr>or_entryId = dr_entryId v, or_galleryId = dr_galleryId v, or_title = dr_title v,
      or_artists = (case dr_artist v of Some a \<Rightarrow> if a = [] then [] else [a] | None \<Rightarrow> []),
      or_pageCount = dr_pageCount v\<rparr>"

definition pair_pages :: "duplicate_page_pair \<Rightarrow> overlap_page_pair" where
  "pair_pages p =
     \<lparr>pp_incomingSourcePage = dp_candidateSourcePage p, pp_existingSourcePage = dp_parentSourcePage p,
      pp_exactSha256 = dp_exactSha256 p, pp_dHashDistance = dp_dHashDistance p,
      pp_pHashDistance = dp_pHashDistance p, pp_detailHashDistance = dp_detailHashDistance p,
      pp_edgeSimilarity = dp_edgeSimilarity p, pp_visualSimilarity = dp_visualSimilarity p,
      pp_lowInformation = dp_lowInformation p\<rparr>"

section \<open>The longest run\<close>

definition next_pair :: "overlap_page_pair \<Rightarrow> overlap_page_pair \<Rightarrow> bool" where
  "next_pair p q \<longleftrightarrow>
     pp_incomingSourcePage p + 1 = pp_incomingSourcePage q \<and> pp_existingSourcePage p + 1 = pp_existingSourcePage q"

text \<open>The state of the loop: the previous page, the current run, the longest so far.\<close>

definition run_step ::
  "overlap_page_pair option \<times> nat \<times> nat \<Rightarrow> overlap_page_pair \<Rightarrow> overlap_page_pair option \<times> nat \<times> nat" where
  "run_step st page =
     (case st of (previous, run, longest) \<Rightarrow>
        let run' = (case previous of Some p \<Rightarrow> if next_pair p page then run + 1 else 1 | None \<Rightarrow> 1)
        in (Some page, run', max longest run'))"

definition longest_run :: "overlap_page_pair list \<Rightarrow> nat" where
  "longest_run pages = snd (snd (foldl run_step (None, 0, 0) pages))"

fun consecutive :: "overlap_page_pair list \<Rightarrow> bool" where
  "consecutive [] = True"
| "consecutive [_] = True"
| "consecutive (p # q # ps) = (next_pair p q \<and> consecutive (q # ps))"

lemma consecutive_snoc: "consecutive (xs @ [x]) \<longleftrightarrow> consecutive xs \<and> (xs = [] \<or> next_pair (last xs) x)"
  by (induction xs rule: consecutive.induct) auto

definition run_inv :: "overlap_page_pair list \<Rightarrow> overlap_page_pair option \<times> nat \<times> nat \<Rightarrow> bool" where
  "run_inv xs st =
     (case st of (previous, run, longest) \<Rightarrow>
        previous = (if xs = [] then None else Some (last xs))
        \<and> (\<exists>u v. xs = u @ v \<and> consecutive v \<and> length v = run)
        \<and> (\<forall>u v. xs = u @ v \<and> consecutive v \<longrightarrow> length v \<le> run)
        \<and> (\<exists>u v w. xs = u @ v @ w \<and> consecutive v \<and> length v = longest)
        \<and> (\<forall>u v w. xs = u @ v @ w \<and> consecutive v \<longrightarrow> length v \<le> longest))"

text \<open>A consecutive block at the end of an extended list extends one at the end of the list.\<close>

lemma suffix_snoc_cases:
  assumes "xs @ [x] = u @ v" and "v \<noteq> []"
  obtains v' where "v = v' @ [x]" "xs = u @ v'"
  using assms by (cases v rule: rev_cases) auto

lemma run_inv_step:
  assumes "run_inv xs st"
  shows "run_inv (xs @ [x]) (run_step st x)"
proof -
  obtain previous run longest where st: "st = (previous, run, longest)" by (metis prod_cases3)
  define run' where "run' = (case previous of Some p \<Rightarrow> if next_pair p x then run + 1 else 1 | None \<Rightarrow> 1)"
  have prev: "previous = (if xs = [] then None else Some (last xs))"
    and ex: "\<exists>u v. xs = u @ v \<and> consecutive v \<and> length v = run"
    and bound: "\<And>u v. xs = u @ v \<Longrightarrow> consecutive v \<Longrightarrow> length v \<le> run"
    and lex: "\<exists>u v w. xs = u @ v @ w \<and> consecutive v \<and> length v = longest"
    and lbound: "\<And>u v w. xs = u @ v @ w \<Longrightarrow> consecutive v \<Longrightarrow> length v \<le> longest"
    using assms unfolding run_inv_def st prod.case by blast+
  have s1: "\<exists>u v. xs @ [x] = u @ v \<and> consecutive v \<and> length v = run'"
  proof (cases "xs \<noteq> [] \<and> next_pair (last xs) x")
    case True
    obtain u v where v: "xs = u @ v" "consecutive v" "length v = run" using ex by blast
    have "consecutive (v @ [x])" using v True by (cases "v = []") (auto simp: consecutive_snoc)
    moreover have "run' = run + 1" using True prev by (simp add: run'_def)
    ultimately show ?thesis using v by (intro exI [of _ u] exI [of _ "v @ [x]"]) simp
  next
    case False
    then have "run' = 1" using prev by (auto simp: run'_def)
    then show ?thesis by (intro exI [of _ xs] exI [of _ "[x]"]) simp
  qed
  have s2: "length v \<le> run'" if e: "xs @ [x] = u @ v" and c: "consecutive v" for u v
  proof (cases "v = []")
    case False
    then obtain v' where v': "v = v' @ [x]" "xs = u @ v'" using suffix_snoc_cases [OF e] by metis
    show ?thesis
    proof (cases "v' = []")
      case True
      then show ?thesis using v' by (auto simp: run'_def split: option.split)
    next
      case False
      with c v' have "next_pair (last xs) x" "consecutive v'" by (simp_all add: consecutive_snoc)
      moreover from this bound v' have "length v' \<le> run" by blast
      ultimately show ?thesis using prev v' False by (simp add: run'_def)
    qed
  qed simp
  have s3: "\<exists>u v w. xs @ [x] = u @ v @ w \<and> consecutive v \<and> length v = max longest run'"
  proof (cases "run' \<le> longest")
    case True
    obtain u v w where "xs = u @ v @ w" "consecutive v" "length v = longest" using lex by blast
    with True show ?thesis by (intro exI [of _ u] exI [of _ v] exI [of _ "w @ [x]"]) simp
  next
    case False
    obtain u v where "xs @ [x] = u @ v" "consecutive v" "length v = run'" using s1 by blast
    with False show ?thesis by (intro exI [of _ u] exI [of _ v] exI [of _ "[]"]) simp
  qed
  have s4: "length v \<le> max longest run'" if e: "xs @ [x] = u @ v @ w" and c: "consecutive v" for u v w
  proof (cases w rule: rev_cases)
    case Nil
    with s2 [of u v] e c show ?thesis by simp
  next
    case (snoc w' y)
    with e have "xs = u @ v @ w'" by simp
    with lbound c show ?thesis by (simp add: le_max_iff_disj)
  qed
  have "run_step st x = (Some x, run', max longest run')"
    by (simp add: run_step_def st Let_def run'_def)
  then show ?thesis
    unfolding run_inv_def using s1 s2 s3 s4 by (simp only: prod.case) (intro conjI allI impI; (elim conjE)?; simp)
qed

lemma run_inv_run: "run_inv xs (foldl run_step (None, 0, 0) xs)"
proof (induction xs rule: rev_induct)
  case (snoc x xs)
  then show ?case using run_inv_step by simp
qed (simp add: run_inv_def)

section \<open>The review\<close>

definition decisive :: "duplicate_action \<Rightarrow> bool" where
  "decisive a \<longleftrightarrow> a \<in> {HideParent, HideCandidate, ExcludePair}"

definition last_decision :: "duplicate_review \<Rightarrow> duplicate_decision option" where
  "last_decision review = find (\<lambda>d. decisive (dd_action d)) (rev (dw_decisions review))"

definition pair_resolved :: "duplicate_review \<Rightarrow> bool" where
  "pair_resolved review \<longleftrightarrow>
     dw_resolved review = Some True \<or> (\<exists>d \<in> set (dw_decisions review). decisive (dd_action d))"

definition pair_state :: "duplicate_review \<Rightarrow> review_state" where
  "pair_state review =
     (if dw_artifactStale review = Some True then RStale
      else if map_option dd_action (last_decision review) = Some HideCandidate then RCancelled
      else if pair_resolved review then RResolved else RPending)"

definition pair_audit :: "duplicate_candidate \<Rightarrow> duplicate_decision \<Rightarrow> overlap_decision_audit" where
  "pair_audit pair d =
     \<lparr>oa_candidateId = Some (dc_candidateId pair),
      oa_action = (if dd_action d = HideParent then RemoveExistingContinue
                   else if dd_action d = HideCandidate then RemoveIncoming else KeepBothContinue),
      oa_actor = Human, oa_reasonCode = None, oa_ruleVersion = None,
      oa_featureSnapshotJson = None, oa_createdAt = dd_createdAt d\<rparr>"

definition pair_relation :: "duplicate_candidate \<Rightarrow> overlap_relation" where
  "pair_relation pair =
     (case dc_relation pair of
        DupExact \<Rightarrow> NearEquivalent
      | DupContains \<Rightarrow>
          (if dr_pageCount (dc_parent pair) \<ge> dr_pageCount (dc_candidate pair)
           then ExistingContainsIncoming else IncomingContainsExisting)
      | DupTranslation \<Rightarrow> TranslationEdition
      | DupPartial \<Rightarrow> PartialOverlap)"

definition pair_decision :: "duplicate_review \<Rightarrow> candidate_decision option" where
  "pair_decision review =
     (case map_option dd_action (last_decision review) of
        Some HideParent \<Rightarrow> Some ExistingRemoved
      | Some ExcludePair \<Rightarrow> Some KeepBoth
      | _ \<Rightarrow> None)"

definition completedPairReview :: "duplicate_review \<Rightarrow> overlap_review" where
  "completedPairReview review =
     (let pair = dw_candidate review;
          pages = map pair_pages (dw_pagePairs review);
          exact = int (length (filter pp_exactSha256 pages))
      in \<lparr>rv_reviewId = completedPairReviewId (dc_candidateId pair),
          rv_entryId = dr_entryId (dc_candidate pair), rv_incoming = pair_ref (dc_candidate pair),
          rv_revision = dc_revision pair, rv_state = pair_state review, rv_profileVersion = 1,
          rv_policyVersion = 2, rv_incomingFingerprint = [],
          rv_candidates =
            [\<lparr>oc_candidateId = dc_candidateId pair, oc_existing = pair_ref (dc_parent pair),
              oc_existingFingerprint = [], oc_relation = pair_relation pair,
              oc_confidence = dc_confidence pair, oc_matchedPages = dc_matchedPages pair,
              oc_exactPages = exact, oc_visualPages = max 0 (dc_matchedPages pair - exact),
              oc_existingCoverage = dc_parentCoverage pair, oc_incomingCoverage = dc_candidateCoverage pair,
              oc_existingUniquePages = max 0 (dr_pageCount (dc_parent pair) - dc_matchedPages pair),
              oc_incomingUniquePages = max 0 (dr_pageCount (dc_candidate pair) - dc_matchedPages pair),
              oc_longestAlignedRun = int (longest_run pages), oc_rank = 1,
              oc_decision = pair_decision review, oc_pagePairs = pages\<rparr>],
          rv_decisions = Some (case last_decision review of Some d \<Rightarrow> [pair_audit pair d] | None \<Rightarrow> []),
          rv_createdAt = dc_createdAt pair, rv_updatedAt = dc_updatedAt pair, rv_resolvedAt = None\<rparr>)"

lemma last_decision_None: "last_decision review = None \<longleftrightarrow> (\<forall>d \<in> set (dw_decisions review). \<not> decisive (dd_action d))"
  by (auto simp: last_decision_def find_None_iff)

lemma last_decision_append:
  "dw_decisions review = ds @ d # es \<Longrightarrow> decisive (dd_action d) \<Longrightarrow> \<forall>e \<in> set es. \<not> decisive (dd_action e)
   \<Longrightarrow> last_decision review = Some d"
proof -
  have "find P (xs @ y # ys) = Some y" if "\<forall>x \<in> set xs. \<not> P x" "P y" for P xs ys and y :: duplicate_decision
    using that by (induction xs) auto
  then show "dw_decisions review = ds @ d # es \<Longrightarrow> decisive (dd_action d) \<Longrightarrow>
      \<forall>e \<in> set es. \<not> decisive (dd_action e) \<Longrightarrow> last_decision review = Some d"
    by (simp add: last_decision_def)
qed

section \<open>Properties\<close>

text \<open>The run length shown for a pair is exact: it is the length of the longest block of its page pairs
  that advances by one page on both sides.\<close>

theorem longest_run_exact:
  "longest_run pages = Max {length v | u v w. pages = u @ v @ w \<and> consecutive v}"
proof -
  obtain previous run longest where st: "foldl run_step (None, 0, 0) pages = (previous, run, longest)"
    by (metis prod_cases3)
  have l: "longest_run pages = longest" by (simp add: longest_run_def st)
  have bound: "\<And>u v w. pages = u @ v @ w \<Longrightarrow> consecutive v \<Longrightarrow> length v \<le> longest"
    and ex: "\<exists>u v w. pages = u @ v @ w \<and> consecutive v \<and> length v = longest"
    using run_inv_run [of pages] unfolding st run_inv_def prod.case by blast+
  have "finite {length v | u v w. pages = u @ v @ w \<and> consecutive v}"
    by (rule finite_subset [of _ "{..longest}"]) (use bound in auto)
  moreover have "longest \<in> {length v | u v w. pages = u @ v @ w \<and> consecutive v}" using ex by auto
  ultimately show ?thesis unfolding l using bound by (intro Max_eqI [symmetric]) auto
qed

text \<open>The last decisive decision governs: a pair without a decisive decision and not marked resolved or
  stale is pending and undecided, and once a decision has hidden an edition or excluded the pair, whatever
  series links follow, the review is closed and no automatic plan exists for it.\<close>

theorem decided_pair_closed:
  assumes "dw_decisions review = ds @ d # es" and "decisive (dd_action d)"
    and "\<forall>e \<in> set es. \<not> decisive (dd_action e)"
  shows "rv_state (completedPairReview review) \<noteq> RPending
    \<and> buildStrictOverlapPlan nfkc (completedPairReview review) = None
    \<and> rv_decisions (completedPairReview review) = Some [pair_audit (dw_candidate review) d]
    \<and> (dw_artifactStale review \<noteq> Some True \<longrightarrow>
         rv_state (completedPairReview review) = (if dd_action d = HideCandidate then RCancelled else RResolved))"
proof -
  have l: "last_decision review = Some d" using last_decision_append assms by blast
  have "pair_resolved review" using assms by (auto simp: pair_resolved_def)
  with l show ?thesis
    by (simp add: completedPairReview_def Let_def pair_state_def buildStrictOverlapPlan_def)
qed

theorem decided_pair_closed_witness:
  "rv_state (completedPairReview (sample_duplicate_review
      [sample_decision HideParent, sample_decision SeriesLink])) = RResolved
   \<and> rv_state (completedPairReview (sample_duplicate_review [sample_decision SeriesLink])) = RPending"
proof -
  have "rv_state (completedPairReview (sample_duplicate_review
      [sample_decision HideParent, sample_decision SeriesLink])) = RResolved"
    using decided_pair_closed [of "sample_duplicate_review [sample_decision HideParent, sample_decision SeriesLink]"
        "[]" "sample_decision HideParent" "[sample_decision SeriesLink]"]
    by (simp add: sample_duplicate_review_def sample_decision_def decisive_def)
  moreover have "rv_state (completedPairReview (sample_duplicate_review [sample_decision SeriesLink])) = RPending"
    by code_simp
  ultimately show ?thesis by simp
qed

end
