(* ===== verification/Projection.thy ===== *)
theory Projection
  imports CoreTypes
begin

text \<open>
  \<^verbatim>\<open>src/src/state/galleryProjection.ts\<close> and \<^verbatim>\<open>src/src/state/downloadProjection.ts\<close>: how answers of
  the backend enter the map of galleries the views read. Search pages and details are merged into
  what is known already; download states are taken over only when they are newer. The second rule
  is the locale \<open>revision_gate\<close>, interpreted for both modules: a stale or repeated state changes
  nothing, and what is shown in the end does not depend on the order in which states arrive.
\<close>

section \<open>Reading unchecked values\<close>

fun finiteNumber :: "js_value \<Rightarrow> rat option" where
  "finiteNumber (JNum (Num r)) = Some r"
| "finiteNumber _ = None"

fun positiveInteger :: "js_value \<Rightarrow> int option" where
  "positiveInteger (JNum (Num r)) = (if rat_is_int r \<and> 0 < r then Some (floor r) else None)"
| "positiveInteger _ = None"

fun string_item :: "js_value \<Rightarrow> string option" where
  "string_item (JStr s) = Some s"
| "string_item _ = None"

fun stringArray :: "js_value \<Rightarrow> string list option" where
  "stringArray (JArr xs) = Some (List.map_filter string_item xs)"
| "stringArray _ = None"

fun string_value :: "js_value \<Rightarrow> string option" where
  "string_value (JStr s) = (if s = [] then None else Some s)"
| "string_value _ = None"

definition language_names :: "(string \<times> language) list" where
  "language_names = [(''korean'', Korean), (''japanese'', Japanese), (''chinese'', Chinese), (''english'', English)]"

fun language_of :: "js_value \<Rightarrow> language option" where
  "language_of (JStr s) = map_of language_names s"
| "language_of _ = None"

record page_dimension_dto =
  px_sourcePage :: js_value
  px_width :: js_value
  px_height :: js_value

definition add_dimension ::
  "int list \<times> page_dimension list \<Rightarrow> page_dimension_dto \<Rightarrow> int list \<times> page_dimension list" where
  "add_dimension st v =
     (case st of (known, result) \<Rightarrow>
        case positiveInteger (px_sourcePage v) of
          None \<Rightarrow> (known, result)
        | Some p \<Rightarrow>
            if p \<in> set known then (known, result)
            else (set_add p known,
                  result @ [\<lparr>pd_sourcePage = p, pd_width = positiveInteger (px_width v),
                             pd_height = positiveInteger (px_height v)\<rparr>]))"

definition pageDimensions :: "page_dimension_dto list \<Rightarrow> page_dimension list" where
  "pageDimensions vs = snd (foldl add_dimension ([], []) vs)"

definition no_date :: string where
  "no_date = ''0000-00-00''"

definition publishedAtFromRank :: "rat \<Rightarrow> string" where
  "publishedAtFromRank r =
     (let v = pad_start 8 (show_int (rat_trunc r))
      in if length v = 8 \<and> list_all is_digit v
         then slice 0 4 v @ ''-'' @ slice 4 6 v @ ''-'' @ slice 6 8 v
         else no_date)"

definition hash_step :: "int \<Rightarrow> char \<Rightarrow> int" where
  "hash_step h c = to_uint32 (h * 31 + int (of_char c))"

definition coverIndexFor :: "gallery_id \<Rightarrow> string option \<Rightarrow> int" where
  "coverIndexFor i key = js_mod (foldl hash_step \<bar>i\<bar> (or_value key [])) 6"

section \<open>Summaries and details\<close>

text \<open>A non-empty list of artists, from the summary or from what is known.\<close>

definition merged_artists :: "string list option \<Rightarrow> string list option \<Rightarrow> string list option" where
  "merged_artists incoming current =
     (case (case incoming of Some (a # as) \<Rightarrow> Some (a # as) | _ \<Rightarrow> current) of
        Some (a # as) \<Rightarrow> Some (a # as) | _ \<Rightarrow> None)"

definition nonempty :: "string option \<Rightarrow> string option" where
  "nonempty s = (case s of Some (c # cs) \<Rightarrow> Some (c # cs) | _ \<Rightarrow> None)"

definition projectGallerySummary :: "gallery_summary \<Rightarrow> gallery option \<Rightarrow> gallery" where
  "projectGallerySummary s current =
     (let key = or_else (string_value (gs_thumbnailKey s)) (Option.bind current g_thumbnailKey)
      in \<lparr>g_id = gs_id s, g_title = gs_title s,
          g_subtitle = or_value (map_option g_subtitle current) [],
          g_artist = gs_artist s,
          g_artists = merged_artists (stringArray (gs_artists s)) (Option.bind current g_artists),
          g_group = nonempty (gs_group s), g_pages = gs_pages s,
          g_score = or_value (or_else (finiteNumber (gs_popularity s)) (map_option g_score current)) 0,
          g_publishedAt =
            (case finiteNumber (gs_publishedRank s) of
               None \<Rightarrow> or_value (map_option g_publishedAt current) no_date
             | Some r \<Rightarrow> publishedAtFromRank r),
          g_coverIndex = or_value (map_option g_coverIndex current) (coverIndexFor (gs_id s) key),
          g_language = or_value (or_else (language_of (gs_language s)) (map_option g_language current)) Korean,
          g_languageKnown = None,
          g_tags = or_value (stringArray (gs_tags s)) (or_value (map_option g_tags current) []),
          g_tagsKnown = Some (stringArray (gs_tags s) \<noteq> None
                              \<or> (case current of Some g \<Rightarrow> g_tagsKnown g \<noteq> Some False | None \<Rightarrow> False)),
          g_series = or_value (stringArray (gs_series s)) (or_value (map_option g_series current) []),
          g_characters = or_value (stringArray (gs_characters s)) (or_value (map_option g_characters current) []),
          g_thumbnailKey = nonempty key,
          g_thumbnailWidth = or_else (positiveInteger (gs_thumbnailWidth s)) (Option.bind current g_thumbnailWidth),
          g_thumbnailHeight = or_else (positiveInteger (gs_thumbnailHeight s)) (Option.bind current g_thumbnailHeight),
          g_representativePreview = None,
          g_pageDimensions = Option.bind current g_pageDimensions,
          g_relatedIds = Option.bind current g_relatedIds,
          g_favorite = Option.bind current g_favorite,
          g_download = Option.bind current g_download\<rparr>)"

type_synonym gallery_map = "(gallery_id \<times> gallery) list"

definition merge_summary :: "gallery_map \<Rightarrow> gallery_summary \<Rightarrow> gallery_map" where
  "merge_summary m s = AList.update (gs_id s) (projectGallerySummary s (map_of m (gs_id s))) m"

definition mergeGalleryPage :: "gallery_map \<Rightarrow> gallery_page \<Rightarrow> gallery_map \<times> gallery_id list" where
  "mergeGalleryPage m page = (foldl merge_summary m (pg_items page), map gs_id (pg_items page))"

record gallery_detail =
  gd_summary :: gallery_summary
  gd_related :: "gallery_summary list"
  gd_pageDimensions :: "page_dimension_dto list"

definition mergeGalleryDetail :: "gallery_map \<Rightarrow> gallery_detail \<Rightarrow> gallery_map" where
  "mergeGalleryDetail m d =
     (let i = gs_id (gd_summary d);
          projected = projectGallerySummary (gd_summary d) (map_of m i);
          m' = AList.update i (projected\<lparr>g_relatedIds := Some (map gs_id (gd_related d)),
                                       g_pageDimensions := Some (pageDimensions (gd_pageDimensions d))\<rparr>) m
      in foldl merge_summary m' (gd_related d))"

section \<open>Download states\<close>

definition loading_label :: string where
  "loading_label = [CHR 0xEC, CHR 0xA0, CHR 0x95, CHR 0xEB, CHR 0xB3,
     CHR 0xB4] @ '' '' @ [CHR 0xEB, CHR 0xB6, CHR 0x88, CHR 0xEB, CHR 0x9F, CHR 0xAC, CHR 0xEC,
     CHR 0x98, CHR 0xA4, CHR 0xEB, CHR 0x8A, CHR 0x94] @ '' '' @ [CHR 0xEC, CHR 0xA4, CHR 0x91]"

definition placeholderGallery :: "gallery_id \<Rightarrow> gallery" where
  "placeholderGallery i =
     \<lparr>g_id = i, g_title = ''Gallery #'' @ show_int i, g_subtitle = [], g_artist = loading_label,
      g_artists = None, g_group = None, g_pages = 0, g_score = 0, g_publishedAt = no_date,
      g_coverIndex = js_mod \<bar>i\<bar> 6, g_language = Korean, g_languageKnown = Some False,
      g_tags = [], g_tagsKnown = Some False, g_series = [], g_characters = [],
      g_thumbnailKey = None, g_thumbnailWidth = None, g_thumbnailHeight = None,
      g_representativePreview = None, g_pageDimensions = None, g_relatedIds = None,
      g_favorite = None, g_download = None\<rparr>"

definition download_rev :: "download_info \<Rightarrow> int" where
  "download_rev d = or_value (d_revision d) (- 1)"

text \<open>The state of an entry, with the times that are known already where it brings none.\<close>

definition entry_download :: "download_entry \<Rightarrow> download_info option \<Rightarrow> download_info" where
  "entry_download e current =
     \<lparr>d_entryId = de_entryId e, d_revision = Some (de_revision e), d_state = de_state e,
      d_progress = de_progress e, d_attempt = de_attempt e, d_errorCode = de_errorCode e,
      d_errorMessage = de_errorMessage e, d_reviewKind = de_reviewKind e, d_reviewId = de_reviewId e,
      d_createdAt = or_else (de_createdAt e) (Option.bind current d_createdAt),
      d_updatedAt = or_else (de_updatedAt e) (Option.bind current d_updatedAt)\<rparr>"

definition stale_for :: "string \<Rightarrow> int \<Rightarrow> download_info option \<Rightarrow> bool" where
  "stale_for entry revision d =
     (case d of Some cur \<Rightarrow> d_entryId cur = entry \<and> revision \<le> download_rev cur | None \<Rightarrow> False)"

definition merge_entry :: "gallery_map \<Rightarrow> download_entry \<Rightarrow> gallery_map" where
  "merge_entry m e =
     (let current = or_value (map_of m (de_galleryId e)) (placeholderGallery (de_galleryId e))
      in if stale_for (de_entryId e) (de_revision e) (g_download current) then m
         else AList.update (de_galleryId e)
                (current\<lparr>g_download := Some (entry_download e (g_download current))\<rparr>) m)"

definition mergeDownloadEntries :: "gallery_map \<Rightarrow> download_entry list \<Rightarrow> gallery_map" where
  "mergeDownloadEntries = foldl merge_entry"

definition event_download :: "download_changed_event \<Rightarrow> download_info" where
  "event_download e =
     \<lparr>d_entryId = ev_entryId e, d_revision = Some (ev_revision e), d_state = ev_state e,
      d_progress = ev_progress e, d_attempt = ev_attempt e, d_errorCode = ev_errorCode e,
      d_errorMessage = ev_errorMessage e, d_reviewKind = ev_reviewKind e, d_reviewId = ev_reviewId e,
      d_createdAt = None, d_updatedAt = None\<rparr>"

definition applyDownloadChanged :: "gallery_map \<Rightarrow> download_changed_event \<Rightarrow> gallery_map \<times> bool" where
  "applyDownloadChanged m e =
     (case map_of m (ev_galleryId e) of
        None \<Rightarrow> (m, False)
      | Some g \<Rightarrow>
          if stale_for (ev_entryId e) (ev_revision e) (g_download g) then (m, False)
          else (AList.update (ev_galleryId e) (g\<lparr>g_download := Some (event_download e)\<rparr>) m, True))"

section \<open>The download library\<close>

record library_gallery =
  lg_id :: gallery_id
  lg_title :: "string option"
  lg_artist :: "string option"
  lg_artists :: js_value
  lg_group :: "string option"
  lg_pages :: "int option"
  lg_language :: "language option"
  lg_publishedRank :: "js_value option"
  lg_tags :: js_value

record library_item =
  li_gallery :: library_gallery
  li_download :: download_entry

record library_page =
  lp_page :: int
  lp_totalItems :: int
  lp_items :: "library_item list"

definition js_strings :: "string list \<Rightarrow> js_value" where
  "js_strings xs = JArr (map JStr xs)"

definition js_opt :: "('a \<Rightarrow> js_value) \<Rightarrow> 'a option \<Rightarrow> js_value" where
  "js_opt f x = (case x of Some v \<Rightarrow> f v | None \<Rightarrow> JUndef)"

definition tags_resolved :: "gallery option \<Rightarrow> bool" where
  "tags_resolved current = (case current of Some g \<Rightarrow> g_tagsKnown g \<noteq> Some False | None \<Rightarrow> False)"

definition library_summary :: "library_gallery \<Rightarrow> gallery option \<Rightarrow> gallery_summary" where
  "library_summary item current =
     (let saved = stringArray (lg_artists item);
          artists = (case Option.bind current g_artists of Some (a # as) \<Rightarrow> Some (a # as) | _ \<Rightarrow> saved)
      in \<lparr>gs_id = lg_id item,
          gs_title = or_value (or_else (lg_title item) (map_option g_title current)) (''Gallery #'' @ show_int (lg_id item)),
          gs_artist = or_value (or_else (lg_artist item) (map_option g_artist current)) loading_label,
          gs_artists = (case artists of Some (a # as) \<Rightarrow> js_strings (a # as) | _ \<Rightarrow> JUndef),
          gs_group = nonempty (or_else (lg_group item) (Option.bind current g_group)),
          gs_pages = or_value (or_else (lg_pages item) (map_option g_pages current)) 0,
          gs_language = JStr (language_name (or_value (or_else (lg_language item) (map_option g_language current)) Korean)),
          gs_tags = js_strings (if tags_resolved current then g_tags (the current)
                                else or_value (stringArray (lg_tags item)) []),
          gs_series = js_strings (or_value (map_option g_series current) []),
          gs_characters = js_strings (or_value (map_option g_characters current) []),
          gs_publishedRank = or_value (lg_publishedRank item) JUndef,
          gs_popularity = js_opt (\<lambda>g. JNum (Num (g_score g))) current,
          gs_thumbnailKey = js_opt JStr (nonempty (Option.bind current g_thumbnailKey)),
          gs_thumbnailWidth = js_opt (\<lambda>n. JNum (Num (of_int n))) (Option.bind current g_thumbnailWidth),
          gs_thumbnailHeight = js_opt (\<lambda>n. JNum (Num (of_int n))) (Option.bind current g_thumbnailHeight)\<rparr>)"

definition merge_library_item :: "gallery_map \<Rightarrow> library_item \<Rightarrow> gallery_map" where
  "merge_library_item m item =
     (let g = li_gallery item; current = map_of m (lg_id g);
          projected = projectGallerySummary (library_summary g current) current
      in AList.update (lg_id g)
           (projected\<lparr>g_languageKnown := Some (lg_language g \<noteq> None
                         \<or> (case current of Some c \<Rightarrow> g_languageKnown c \<noteq> Some False | None \<Rightarrow> False)),
                      g_tagsKnown := Some (tags_resolved current \<or> stringArray (lg_tags g) \<noteq> None),
                      g_download := Some (entry_download (li_download item) (Option.bind current g_download))\<rparr>) m)"

definition mergeDownloadLibraryPage :: "gallery_map \<Rightarrow> library_page \<Rightarrow> gallery_map \<times> gallery_id list" where
  "mergeDownloadLibraryPage m page =
     (foldl merge_library_item m (lp_items page), map (\<lambda>i. lg_id (li_gallery i)) (lp_items page))"

section \<open>The revision gate\<close>

text \<open>
  A store that takes over states of entries, each with a revision, under a key. The laws: only the
  key of the state is written; a state of the same entry that is not newer changes nothing; any
  other state is taken over where the key is known.
\<close>

locale revision_gate =
  fixes take :: "'m \<Rightarrow> 'e \<Rightarrow> 'm"
    and shown :: "'m \<Rightarrow> 'k \<Rightarrow> (string \<times> int) option"
    and key :: "'e \<Rightarrow> 'k"
    and entry :: "'e \<Rightarrow> string"
    and revision :: "'e \<Rightarrow> int"
  assumes take_other: "k \<noteq> key e \<Longrightarrow> shown (take m e) k = shown m k"
    and take_stale: "shown m (key e) = Some (entry e, r) \<Longrightarrow> revision e \<le> r \<Longrightarrow> take m e = m"
    and take_new: "shown m (key e) = Some (x, r) \<Longrightarrow> x \<noteq> entry e \<or> r < revision e
                   \<Longrightarrow> shown (take m e) (key e) = Some (entry e, revision e)"
begin

lemma take_same:
  "shown m k = Some (x, r) \<Longrightarrow> (key e = k \<longrightarrow> entry e = x)
   \<Longrightarrow> shown (take m e) k = Some (x, if key e = k then max r (revision e) else r)"
  using take_other [of k e m] take_stale [of m e r] take_new [of m e x r]
  by (cases "key e = k"; cases "revision e \<le> r") auto

text \<open>After any deliveries the newest revision is the one shown, in whatever order they came.\<close>

lemma take_run:
  "shown m k = Some (x, r) \<Longrightarrow> \<forall>e \<in> set es. key e = k \<longrightarrow> entry e = x
   \<Longrightarrow> shown (foldl take m es) k = Some (x, foldl max r (map revision (filter (\<lambda>e. key e = k) es)))"
proof (induction es arbitrary: m r)
  case (Cons e es)
  then show ?case using take_same [of m k x r e] by auto
qed simp

lemma foldl_max: "foldl max (r :: int) xs = Max (insert r (set xs))"
proof (induction xs rule: rev_induct)
  case (snoc x xs)
  have "Max (insert x (insert r (set xs))) = max x (Max (insert r (set xs)))"
    by (rule Max_insert) simp_all
  moreover have "insert r (set (xs @ [x])) = insert x (insert r (set xs))" by auto
  ultimately show ?case using snoc by (simp only: foldl_append foldl_Cons foldl_Nil max.commute)
qed simp

lemma take_run_Max:
  "shown m k = Some (x, r) \<Longrightarrow> \<forall>e \<in> set es. key e = k \<longrightarrow> entry e = x
   \<Longrightarrow> shown (foldl take m es) k = Some (x, Max (insert r (revision ` {e \<in> set es. key e = k})))"
  using take_run [of m k x r es] by (simp add: foldl_max)

lemma take_run_order:
  "shown m k = Some (x, r) \<Longrightarrow> \<forall>e \<in> set es. key e = k \<longrightarrow> entry e = x \<Longrightarrow> set es = set fs
   \<Longrightarrow> shown (foldl take m es) k = shown (foldl take m fs) k"
  using take_run_Max [of m k x r es] take_run_Max [of m k x r fs] by simp

lemma take_again: "shown m (key e) = Some (x, r) \<Longrightarrow> take (take m e) e = take m e"
  using take_stale [of "take m e" e "revision e"] take_stale [of m e r] take_new [of m e x r]
  by (cases "x = entry e \<and> revision e \<le> r") auto

end

text \<open>The entry and revision shown for a gallery; a missing revision counts as \<open>-1\<close>.\<close>

definition shown_download :: "gallery_map \<Rightarrow> gallery_id \<Rightarrow> (string \<times> int) option" where
  "shown_download m i =
     map_option (\<lambda>d. (d_entryId d, download_rev d)) (Option.bind (map_of m i) g_download)"

lemma shown_update:
  "shown_download (AList.update i g m) k =
     (if k = i then map_option (\<lambda>d. (d_entryId d, download_rev d)) (g_download g) else shown_download m k)"
  by (simp add: shown_download_def omap.look_put)

lemma shown_stale: "map_of m i = Some g \<Longrightarrow>
    stale_for entry revision (g_download g) \<longleftrightarrow> (\<exists>r. shown_download m i = Some (entry, r) \<and> revision \<le> r)"
  by (auto simp: stale_for_def shown_download_def split: option.splits)

lemma download_rev_event [simp]: "download_rev (event_download e) = ev_revision e"
  "d_entryId (event_download e) = ev_entryId e"
  by (simp_all add: download_rev_def event_download_def)

lemma download_rev_entry [simp]: "download_rev (entry_download e c) = de_revision e"
  "d_entryId (entry_download e c) = de_entryId e"
  by (simp_all add: download_rev_def entry_download_def)

lemma shown_known: "shown_download m i = Some (x, r) \<Longrightarrow> \<exists>g d. map_of m i = Some g \<and> g_download g = Some d
    \<and> d_entryId d = x \<and> download_rev d = r"
  by (auto simp: shown_download_def bind_eq_Some_conv)

interpretation event_gate: revision_gate "\<lambda>m e. fst (applyDownloadChanged m e)" shown_download
  ev_galleryId ev_entryId ev_revision
proof
  show "shown_download (fst (applyDownloadChanged m e)) k = shown_download m k" if "k \<noteq> ev_galleryId e" for k e m
    using that by (simp add: applyDownloadChanged_def shown_update split: option.split)
  show "fst (applyDownloadChanged m e) = m"
    if "shown_download m (ev_galleryId e) = Some (ev_entryId e, r)" "ev_revision e \<le> r" for m e r
    using shown_known [OF that(1)] that(2) by (auto simp: applyDownloadChanged_def stale_for_def)
  show "shown_download (fst (applyDownloadChanged m e)) (ev_galleryId e) = Some (ev_entryId e, ev_revision e)"
    if "shown_download m (ev_galleryId e) = Some (x, r)" "x \<noteq> ev_entryId e \<or> r < ev_revision e" for m e x r
    using shown_known [OF that(1)] that(2) by (auto simp: applyDownloadChanged_def stale_for_def shown_update)
qed

interpretation entry_gate: revision_gate merge_entry shown_download de_galleryId de_entryId de_revision
proof
  show "shown_download (merge_entry m e) k = shown_download m k" if "k \<noteq> de_galleryId e" for k e m
    using that by (simp add: merge_entry_def shown_update Let_def)
  show "merge_entry m e = m"
    if "shown_download m (de_galleryId e) = Some (de_entryId e, r)" "de_revision e \<le> r" for m e r
    using shown_known [OF that(1)] that(2) by (auto simp: merge_entry_def stale_for_def)
  show "shown_download (merge_entry m e) (de_galleryId e) = Some (de_entryId e, de_revision e)"
    if "shown_download m (de_galleryId e) = Some (x, r)" "x \<noteq> de_entryId e \<or> r < de_revision e" for m e x r
    using shown_known [OF that(1)] that(2) by (auto simp: merge_entry_def stale_for_def shown_update Let_def)
qed

section \<open>What a merge keeps\<close>

lemma language_of_name [simp]: "language_of (JStr (language_name l)) = Some l"
  by (cases l) (simp_all add: language_names_def)

lemma stringArray_js_strings [simp]: "stringArray (js_strings xs) = Some xs"
proof -
  have "List.map_filter string_item (map JStr xs) = xs"
    by (induction xs) (simp_all add: map_filter_simps)
  then show ?thesis by (simp add: js_strings_def)
qed

text \<open>What the session has resolved already and a later summary must not lose.\<close>

definition filled :: "'a list option \<Rightarrow> bool" where
  "filled x \<longleftrightarrow> x \<noteq> None \<and> x \<noteq> Some []"

definition keeps_resolved :: "gallery \<Rightarrow> gallery \<Rightarrow> bool" where
  "keeps_resolved g g' \<longleftrightarrow>
     g_download g' = g_download g \<and> g_favorite g' = g_favorite g \<and> g_relatedIds g' = g_relatedIds g
     \<and> g_pageDimensions g' = g_pageDimensions g \<and> g_subtitle g' = g_subtitle g \<and> g_coverIndex g' = g_coverIndex g
     \<and> (filled (g_artists g) \<longrightarrow> filled (g_artists g'))
     \<and> (filled (g_thumbnailKey g) \<longrightarrow> filled (g_thumbnailKey g'))
     \<and> (g_tagsKnown g \<noteq> Some False \<longrightarrow> g_tagsKnown g' = Some True)"

lemma keeps_resolvedD:
  assumes "keeps_resolved g g'"
  shows "g_download g' = g_download g" "g_favorite g' = g_favorite g" "g_relatedIds g' = g_relatedIds g"
    "g_pageDimensions g' = g_pageDimensions g" "g_subtitle g' = g_subtitle g" "g_coverIndex g' = g_coverIndex g"
    "filled (g_artists g) \<Longrightarrow> filled (g_artists g')" "filled (g_thumbnailKey g) \<Longrightarrow> filled (g_thumbnailKey g')"
    "g_tagsKnown g \<noteq> Some False \<Longrightarrow> g_tagsKnown g' = Some True"
  using assms by (simp_all add: keeps_resolved_def)

lemma string_value_nonempty: "string_value v = Some s \<Longrightarrow> s \<noteq> []"
  by (cases v) (auto split: if_splits)

lemma filled_nonempty [simp]: "filled (nonempty s) = filled s"
  by (auto simp: nonempty_def filled_def split: option.splits list.splits)

lemma filled_key: "filled k \<Longrightarrow> filled (or_else (string_value v) k)"
  using string_value_nonempty [of v] by (cases "string_value v") (auto simp: filled_def)

lemma filled_artists: "filled k \<Longrightarrow> filled (merged_artists a k)"
  by (auto simp: filled_def merged_artists_def split: option.splits list.splits)

lemma project_keeps: "keeps_resolved g (projectGallerySummary s (Some g))"
  by (simp add: keeps_resolved_def projectGallerySummary_def Let_def filled_key filled_artists)

lemma keeps_resolved_trans: "keeps_resolved a b \<Longrightarrow> keeps_resolved b c \<Longrightarrow> keeps_resolved a c"
  unfolding keeps_resolved_def [of a c]
  by (intro conjI impI) (simp_all add: keeps_resolvedD)

lemma g_id_project [simp]: "g_id (projectGallerySummary s c) = gs_id s" "g_title (projectGallerySummary s c) = gs_title s"
  "g_pages (projectGallerySummary s c) = gs_pages s"
  by (simp_all add: projectGallerySummary_def Let_def)

lemma map_of_merge_summary:
  "map_of (merge_summary m s) i = (if i = gs_id s then Some (projectGallerySummary s (map_of m i)) else map_of m i)"
  by (simp add: merge_summary_def omap.look_put)

lemma map_of_merge_summaries_other:
  "i \<notin> gs_id ` set ss \<Longrightarrow> map_of (foldl merge_summary m ss) i = map_of m i"
  by (induction ss arbitrary: m) (auto simp: map_of_merge_summary)

lemma merge_summaries_keep:
  "map_of m i = Some g \<Longrightarrow> i \<in> gs_id ` set ss
   \<Longrightarrow> \<exists>g'. map_of (foldl merge_summary m ss) i = Some g' \<and> keeps_resolved g g'"
proof (induction ss arbitrary: m g)
  case (Cons s ss)
  show ?case
  proof (cases "i = gs_id s")
    case True
    let ?g = "projectGallerySummary s (Some g)"
    have m: "map_of (merge_summary m s) i = Some ?g" using Cons.prems True by (simp add: map_of_merge_summary)
    show ?thesis
    proof (cases "i \<in> gs_id ` set ss")
      case True
      from Cons.IH [OF m True] show ?thesis
        using keeps_resolved_trans [OF project_keeps [of g s]] by auto
    next
      case False
      then show ?thesis using m project_keeps by (simp add: map_of_merge_summaries_other)
    qed
  next
    case False
    with Cons.prems have "map_of (merge_summary m s) i = Some g" by (simp add: map_of_merge_summary)
    with Cons.IH [of _ g] Cons.prems False show ?thesis by auto
  qed
qed simp

lemma merge_summaries_present: "i \<in> gs_id ` set ss \<Longrightarrow> map_of (foldl merge_summary m ss) i \<noteq> None"
proof (induction ss arbitrary: m)
  case (Cons s ss)
  then show ?case
    by (cases "i \<in> gs_id ` set ss") (auto simp: map_of_merge_summaries_other map_of_merge_summary)
qed simp

lemma merge_distinct: "distinct (keys m) \<Longrightarrow> distinct (keys (foldl merge_summary m ss))"
  by (induction ss arbitrary: m) (simp_all add: merge_summary_def)

section \<open>Printed dates and cover colours\<close>

lemma length_digits: "list_all is_digit v \<Longrightarrow> length v = 8 \<Longrightarrow>
    list_all is_digit (slice 0 4 v) \<and> list_all is_digit (slice 4 6 v) \<and> list_all is_digit (slice 6 8 v)
    \<and> length (slice 0 4 v) = 4 \<and> length (slice 4 6 v) = 2 \<and> length (slice 6 8 v) = 2"
  using set_slice [of _ _ v] by (force simp: list_all_iff length_slice)

definition date_shaped :: "string \<Rightarrow> bool" where
  "date_shaped s \<longleftrightarrow> (\<exists>y m d. s = y @ ''-'' @ m @ ''-'' @ d \<and> length y = 4 \<and> length m = 2 \<and> length d = 2
     \<and> list_all is_digit (y @ m @ d))"

lemma date_shaped_rank: "date_shaped (publishedAtFromRank r)"
proof -
  have "date_shaped no_date"
    unfolding date_shaped_def no_date_def
    by (intro exI [of _ "''0000''"] exI [of _ "''00''"] exI [of _ "''00''"]) (simp, code_simp)
  moreover have "date_shaped (slice 0 4 v @ ''-'' @ slice 4 6 v @ ''-'' @ slice 6 8 v)"
    if "length v = 8 \<and> list_all is_digit v" for v
    using that length_digits [of v] unfolding date_shaped_def
    by (intro exI [of _ "slice 0 4 v"] exI [of _ "slice 4 6 v"] exI [of _ "slice 6 8 v"]) simp
  ultimately show ?thesis by (simp add: publishedAtFromRank_def Let_def)
qed

lemma hash_bounds: "0 \<le> h \<Longrightarrow> 0 \<le> foldl hash_step h s"
  by (induction s arbitrary: h) (simp_all add: hash_step_def to_uint32_def)

lemma coverIndex_bounds: "0 \<le> coverIndexFor i k \<and> coverIndexFor i k < 6"
  using hash_bounds [of "\<bar>i\<bar>"] by (simp add: coverIndexFor_def js_mod_nonneg)

section \<open>All merges together\<close>

text \<open>Download states reach the map as events and as lists, in any interleaving.\<close>

datatype download_update = Changed download_changed_event | Listed download_entry

fun apply_update :: "gallery_map \<Rightarrow> download_update \<Rightarrow> gallery_map" where
  "apply_update m (Changed e) = fst (applyDownloadChanged m e)"
| "apply_update m (Listed e) = merge_entry m e"

fun upd_key :: "download_update \<Rightarrow> gallery_id" where
  "upd_key (Changed e) = ev_galleryId e"
| "upd_key (Listed e) = de_galleryId e"

fun upd_entry :: "download_update \<Rightarrow> string" where
  "upd_entry (Changed e) = ev_entryId e"
| "upd_entry (Listed e) = de_entryId e"

fun upd_revision :: "download_update \<Rightarrow> int" where
  "upd_revision (Changed e) = ev_revision e"
| "upd_revision (Listed e) = de_revision e"

interpretation update_gate: revision_gate apply_update shown_download upd_key upd_entry upd_revision
proof
  show "shown_download (apply_update m u) k = shown_download m k" if "k \<noteq> upd_key u" for k u m
    using that by (cases u) (simp_all add: event_gate.take_other entry_gate.take_other)
  show "apply_update m u = m" if "shown_download m (upd_key u) = Some (upd_entry u, r)" "upd_revision u \<le> r" for m u r
    using that by (cases u) (simp_all add: event_gate.take_stale entry_gate.take_stale)
  show "shown_download (apply_update m u) (upd_key u) = Some (upd_entry u, upd_revision u)"
    if "shown_download m (upd_key u) = Some (x, r)" "x \<noteq> upd_entry u \<or> r < upd_revision u" for m u x r
    using that by (cases u) (simp_all add: event_gate.take_new entry_gate.take_new)
qed

text \<open>The state that is shown of a download, and the one a delivery brings: all but its entry, revision and times.\<close>

definition download_content ::
  "download_info \<Rightarrow> download_state \<times> rat option \<times> int option \<times> string option \<times> string option \<times> review_kind option \<times> string option" where
  "download_content d = (d_state d, d_progress d, d_attempt d, d_errorCode d, d_errorMessage d, d_reviewKind d, d_reviewId d)"

definition shown_content where
  "shown_content m k = map_option download_content (Option.bind (map_of m k) g_download)"

fun upd_content where
  "upd_content (Changed e) = (ev_state e, ev_progress e, ev_attempt e, ev_errorCode e, ev_errorMessage e, ev_reviewKind e, ev_reviewId e)"
| "upd_content (Listed e) = (de_state e, de_progress e, de_attempt e, de_errorCode e, de_errorMessage e, de_reviewKind e, de_reviewId e)"

lemma content_update: "shown_content (AList.update i g m) k =
    (if k = i then map_option download_content (g_download g) else shown_content m k)"
  by (simp add: shown_content_def omap.look_put)

lemma content_other: "k \<noteq> upd_key u \<Longrightarrow> shown_content (apply_update m u) k = shown_content m k"
  by (cases u) (simp_all add: applyDownloadChanged_def merge_entry_def Let_def content_update split: option.split)

lemma content_new:
  assumes "shown_download m (upd_key u) = Some (upd_entry u, r)" and "r < upd_revision u"
  shows "shown_content (apply_update m u) (upd_key u) = Some (upd_content u)"
  using shown_known [OF assms(1)] assms(2)
  by (cases u) (auto simp: applyDownloadChanged_def merge_entry_def Let_def stale_for_def content_update download_content_def
      event_download_def entry_download_def)

lemma content_run:
  assumes "shown_download m k = Some (x, r)" and "\<forall>u \<in> set us. upd_key u = k \<longrightarrow> upd_entry u = x"
    and "r' = Max (insert r (upd_revision ` {u \<in> set us. upd_key u = k}))"
  shows "if r' = r then shown_content (foldl apply_update m us) k = shown_content m k
    else \<exists>u \<in> set us. upd_key u = k \<and> upd_revision u = r' \<and> shown_content (foldl apply_update m us) k = Some (upd_content u)"
  using assms(2,3)
proof (induction us arbitrary: r' rule: rev_induct)
  case (snoc u us)
  define q where "q = Max (insert r (upd_revision ` {u \<in> set us. upd_key u = k}))"
  let ?n = "foldl apply_update m us"
  have IH: "if q = r then shown_content ?n k = shown_content m k
      else \<exists>u \<in> set us. upd_key u = k \<and> upd_revision u = q \<and> shown_content ?n k = Some (upd_content u)"
    by (rule snoc.IH) (use snoc.prems(1) q_def in auto)
  have n: "shown_download ?n k = Some (x, q)"
    unfolding q_def by (rule update_gate.take_run_Max [OF assms(1)]) (use snoc.prems(1) in auto)
  have le: "r \<le> q" by (simp add: q_def)
  show ?case
  proof (cases "upd_key u = k")
    case False
    then have "{v \<in> set (us @ [u]). upd_key v = k} = {v \<in> set us. upd_key v = k}" by auto
    with snoc.prems(2) have "r' = q" by (simp add: q_def)
    with IH False show ?thesis by (auto simp: content_other split: if_splits)
  next
    case True
    then have "{v \<in> set (us @ [u]). upd_key v = k} = insert u {v \<in> set us. upd_key v = k}" by auto
    then have "insert r (upd_revision ` {v \<in> set (us @ [u]). upd_key v = k})
        = insert (upd_revision u) (insert r (upd_revision ` {v \<in> set us. upd_key v = k}))" by auto
    with snoc.prems(2) have r': "r' = max (upd_revision u) q" by (simp add: q_def)
    from snoc.prems(1) True have x: "upd_entry u = x" by simp
    show ?thesis
    proof (cases "upd_revision u \<le> q")
      case True
      with n x \<open>upd_key u = k\<close> have "apply_update ?n u = ?n" by (intro update_gate.take_stale [of _ _ q]) simp_all
      with IH True r' show ?thesis by (auto simp: max_def split: if_splits)
    next
      case False
      with content_new [of ?n u q] n x \<open>upd_key u = k\<close> r' le show ?thesis by auto
    qed
  qed
qed simp

lemma library_item_content:
  "shown_content (merge_library_item m item) (lg_id (li_gallery item)) = Some (upd_content (Listed (li_download item)))"
  by (simp add: merge_library_item_def Let_def content_update download_content_def entry_download_def)

text \<open>A gallery sits under its own identifier with a printable date and one of the six covers.\<close>

definition gallery_ok :: "gallery_id \<Rightarrow> gallery \<Rightarrow> bool" where
  "gallery_ok i g \<longleftrightarrow> g_id g = i \<and> date_shaped (g_publishedAt g) \<and> 0 \<le> g_coverIndex g \<and> g_coverIndex g < 6"

definition projection_ok :: "gallery_map \<Rightarrow> bool" where
  "projection_ok m \<longleftrightarrow> distinct (keys m) \<and> (\<forall>i g. map_of m i = Some g \<longrightarrow> gallery_ok i g)"

lemma projection_ok_update:
  "projection_ok m \<Longrightarrow> gallery_ok i g \<Longrightarrow> projection_ok (AList.update i g m)"
  by (simp add: projection_ok_def omap.look_put)

lemma projection_ok_lookup: "projection_ok m \<Longrightarrow> map_of m i = Some g \<Longrightarrow> gallery_ok i g"
  by (simp add: projection_ok_def)

lemma date_shaped_no_date: "date_shaped no_date"
  unfolding date_shaped_def no_date_def
  by (intro exI [of _ "''0000''"] exI [of _ "''00''"] exI [of _ "''00''"]) (simp, code_simp)

lemma gallery_ok_project:
  assumes "\<And>g. current = Some g \<Longrightarrow> gallery_ok (gs_id s) g"
  shows "gallery_ok (gs_id s) (projectGallerySummary s current)"
  using assms
  by (cases current; cases "finiteNumber (gs_publishedRank s)")
     (simp_all add: gallery_ok_def projectGallerySummary_def Let_def date_shaped_no_date date_shaped_rank coverIndex_bounds)

lemma projection_ok_summary: "projection_ok m \<Longrightarrow> projection_ok (merge_summary m s)"
  unfolding merge_summary_def
  by (intro projection_ok_update gallery_ok_project) (auto intro: projection_ok_lookup)

lemma projection_ok_summaries: "projection_ok m \<Longrightarrow> projection_ok (foldl merge_summary m ss)"
  by (induction ss arbitrary: m) (auto intro: projection_ok_summary)

lemma gallery_ok_placeholder: "gallery_ok i (placeholderGallery i)"
  using js_mod_bounds [of 6 "\<bar>i\<bar>"] by (auto simp: gallery_ok_def placeholderGallery_def date_shaped_no_date js_mod_def sgn_if)

lemma gallery_ok_with:
  "gallery_ok i (g\<lparr>g_download := d\<rparr>) = gallery_ok i g"
  "gallery_ok i (g\<lparr>g_relatedIds := r\<rparr>) = gallery_ok i g"
  "gallery_ok i (g\<lparr>g_pageDimensions := p\<rparr>) = gallery_ok i g"
  "gallery_ok i (g\<lparr>g_languageKnown := l\<rparr>) = gallery_ok i g"
  "gallery_ok i (g\<lparr>g_tagsKnown := t\<rparr>) = gallery_ok i g"
  by (simp_all add: gallery_ok_def)

lemma gallery_ok_or_value:
  "projection_ok m \<Longrightarrow> gallery_ok i (or_value (map_of m i) (placeholderGallery i))"
  by (cases "map_of m i") (auto intro: projection_ok_lookup gallery_ok_placeholder)

lemma projection_ok_entry: "projection_ok m \<Longrightarrow> projection_ok (merge_entry m e)"
  by (simp add: merge_entry_def Let_def projection_ok_update gallery_ok_with gallery_ok_or_value)

lemma projection_ok_entries: "projection_ok m \<Longrightarrow> projection_ok (mergeDownloadEntries m es)"
  unfolding mergeDownloadEntries_def by (induction es arbitrary: m) (auto intro: projection_ok_entry)

lemma projection_ok_event: "projection_ok m \<Longrightarrow> projection_ok (fst (applyDownloadChanged m e))"
  by (auto simp: applyDownloadChanged_def gallery_ok_with intro!: projection_ok_update
      intro: projection_ok_lookup split: option.split)

lemma projection_ok_detail: "projection_ok m \<Longrightarrow> projection_ok (mergeGalleryDetail m d)"
  unfolding mergeGalleryDetail_def Let_def
  by (intro projection_ok_summaries projection_ok_update)
     (auto simp: gallery_ok_with intro: gallery_ok_project projection_ok_lookup)

lemma projection_ok_library_item: "projection_ok m \<Longrightarrow> projection_ok (merge_library_item m item)"
proof -
  assume ok: "projection_ok m"
  let ?i = "lg_id (li_gallery item)"
  let ?s = "library_summary (li_gallery item) (map_of m ?i)"
  have i: "gs_id (library_summary (li_gallery item) c) = ?i" for c by (simp add: library_summary_def Let_def)
  have "gallery_ok (gs_id ?s) (projectGallerySummary ?s (map_of m ?i))"
    by (rule gallery_ok_project) (simp add: i projection_ok_lookup [OF ok])
  then show ?thesis
    unfolding merge_library_item_def Let_def by (intro projection_ok_update ok) (simp add: i gallery_ok_with)
qed

lemma projection_ok_library: "projection_ok m \<Longrightarrow> projection_ok (fst (mergeDownloadLibraryPage m page))"
proof -
  have "projection_ok m \<Longrightarrow> projection_ok (foldl merge_library_item m items)" for items
    by (induction items arbitrary: m) (auto intro: projection_ok_library_item)
  then show "projection_ok m \<Longrightarrow> ?thesis" by (simp add: mergeDownloadLibraryPage_def)
qed

datatype projection_event =
    SearchPage gallery_page | Detail gallery_detail | Entries "download_entry list"
  | StateChanged download_changed_event | LibraryPage library_page

fun project :: "gallery_map \<Rightarrow> projection_event \<Rightarrow> gallery_map" where
  "project m (SearchPage p) = fst (mergeGalleryPage m p)"
| "project m (Detail d) = mergeGalleryDetail m d"
| "project m (Entries es) = mergeDownloadEntries m es"
| "project m (StateChanged e) = fst (applyDownloadChanged m e)"
| "project m (LibraryPage p) = fst (mergeDownloadLibraryPage m p)"

interpretation projection: machine project projection_ok "[]"
proof
  show "projection_ok []" by (simp add: projection_ok_def)
  show "projection_ok (project m e)" if "projection_ok m" for m e
    using that
    by (cases e) (simp_all add: mergeGalleryPage_def projection_ok_summaries projection_ok_detail
        projection_ok_entries projection_ok_event projection_ok_library)
qed

section \<open>Two places where the merges differ\<close>

text \<open>
  A list of entries keeps the times of a download the new state does not bring, and the day groups
  and the order of the downloads read them; an event of the same entry drops them. A page of the
  library takes over the listed state without comparing revisions, unlike the other two.
\<close>

lemma entry_keeps_times:
  "map_of m (de_galleryId e) = Some g \<Longrightarrow> g_download g = Some d \<Longrightarrow> d_createdAt d = Some t \<Longrightarrow>
   \<exists>g' d'. map_of (merge_entry m e) (de_galleryId e) = Some g' \<and> g_download g' = Some d' \<and> d_createdAt d' \<noteq> None"
  by (cases "de_createdAt e") (auto simp: merge_entry_def Let_def omap.look_put entry_download_def)

lemma event_drops_times:
  "snd (applyDownloadChanged m e) \<Longrightarrow>
   \<exists>g d. map_of (fst (applyDownloadChanged m e)) (ev_galleryId e) = Some g \<and> g_download g = Some d
         \<and> d_createdAt d = None \<and> d_updatedAt d = None"
  by (auto simp: applyDownloadChanged_def omap.look_put event_download_def split: option.splits if_splits)

lemma library_item_state:
  "shown_download (merge_library_item m item) (lg_id (li_gallery item))
   = Some (de_entryId (li_download item), de_revision (li_download item))"
  by (simp add: merge_library_item_def Let_def shown_update)

section \<open>Properties\<close>

definition sample_event :: "int \<Rightarrow> int \<Rightarrow> download_state \<Rightarrow> download_changed_event" where
  "sample_event g r st =
     \<lparr>ev_entryId = ''e'', ev_galleryId = g, ev_revision = r, ev_state = st, ev_progress = None,
      ev_attempt = None, ev_errorCode = None, ev_errorMessage = None, ev_errorRetryable = None,
      ev_reviewKind = None, ev_reviewId = None\<rparr>"

definition sample_shown :: gallery_map where
  "sample_shown = [(7, (sample_gallery 7)\<lparr>g_download := Some (sample_download ''e'' 2 Queued)\<rparr>)]"

lemmas sample_projection_defs = sample_event_def sample_shown_def sample_gallery_def sample_download_def

text \<open>C37: What is shown of a download does not depend on the order of delivery. For a gallery that shows an
  entry, after any interleaving of events and listed states of that entry the newest revision delivered
  is shown, with the state, progress, attempt, error and review that came with this revision (what was shown
  before, if nothing newer came); deliveries for other galleries do not matter, and a repeated delivery changes
  nothing. Pages of the library are no part of this: an item of one is shown whatever its revision.\<close>

theorem newest_state_shown:
  assumes "shown_download m k = Some (x, r)" and "\<forall>u \<in> set us. upd_key u = k \<longrightarrow> upd_entry u = x"
  defines "newest \<equiv> Max (insert r (upd_revision ` {u \<in> set us. upd_key u = k}))"
  shows "shown_download (foldl apply_update m us) k = Some (x, newest)
    \<and> (if newest = r then shown_content (foldl apply_update m us) k = shown_content m k
       else \<exists>u \<in> set us. upd_key u = k \<and> upd_revision u = newest
              \<and> shown_content (foldl apply_update m us) k = Some (upd_content u))
    \<and> (\<forall>u \<in> set us. foldl apply_update m (us @ [u]) = foldl apply_update m us \<or> upd_key u \<noteq> k)
    \<and> (\<forall>item. lg_id (li_gallery item) = k \<longrightarrow>
         shown_content (merge_library_item (foldl apply_update m us) item) k = Some (upd_content (Listed (li_download item))))"
proof -
  note n = update_gate.take_run_Max [OF assms(1,2), folded newest_def]
  have "foldl apply_update m (us @ [u]) = foldl apply_update m us" if u: "u \<in> set us" "upd_key u = k" for u
  proof -
    have "upd_revision u \<in> insert r (upd_revision ` {u \<in> set us. upd_key u = k})" using u by auto
    then have "upd_revision u \<le> newest" unfolding newest_def by (intro Max_ge) simp_all
    with n u assms(2) show ?thesis by (simp, intro update_gate.take_stale [of _ _ newest]) simp_all
  qed
  then show ?thesis
    using n content_run [OF assms(1,2), of newest] library_item_content by (auto simp: newest_def)
qed

theorem newest_state_shown_witness:
  "shown_download (foldl apply_update sample_shown
      [Changed (sample_event 7 5 Completed), Listed (sample_entry ''e'' 7 3 Downloading), Changed (sample_event 8 9 Failed)]) 7
   = Some (''e'', 5)
   \<and> map_option fst (shown_content (foldl apply_update sample_shown
      [Changed (sample_event 7 5 Completed), Listed (sample_entry ''e'' 7 3 Downloading), Changed (sample_event 8 9 Failed)]) 7)
   = Some Completed"
proof -
  let ?us = "[Changed (sample_event 7 5 Completed), Listed (sample_entry ''e'' 7 3 Downloading),
      Changed (sample_event 8 9 Failed)]"
  have s: "shown_download sample_shown 7 = Some (''e'', 2)"
    by (simp add: shown_download_def sample_projection_defs download_rev_def)
  have e: "\<forall>u \<in> set ?us. upd_key u = 7 \<longrightarrow> upd_entry u = ''e''" by (simp add: sample_event_def sample_entry_def)
  have k: "{u \<in> set ?us. upd_key u = 7}
      = {Changed (sample_event 7 5 Completed), Listed (sample_entry ''e'' 7 3 Downloading)}"
    by (auto simp: sample_event_def sample_entry_def)
  have mx: "Max (insert 2 (upd_revision ` {u \<in> set ?us. upd_key u = 7})) = 5"
    unfolding k by (simp add: sample_event_def sample_entry_def)
  from newest_state_shown [OF s e, unfolded mx] have
    d: "shown_download (foldl apply_update sample_shown ?us) 7 = Some (''e'', 5)"
    and "\<exists>u \<in> set ?us. upd_key u = 7 \<and> upd_revision u = 5 \<and> shown_content (foldl apply_update sample_shown ?us) 7 = Some (upd_content u)"
    by simp_all
  then have "map_option fst (shown_content (foldl apply_update sample_shown ?us) 7) = Some Completed"
    by (auto simp: sample_event_def sample_entry_def)
  with d show ?thesis by blast
qed

text \<open>A search page adds and refreshes, and forgets nothing. Its galleries are all present afterwards,
  listed in the order of the page; every other gallery is untouched; and a gallery of the page that
  was known keeps its download, favourite mark, related galleries, page sizes, cover and resolved tags,
  and never loses its artists or thumbnail.\<close>

theorem search_page_keeps:
  "snd (mergeGalleryPage m page) = map gs_id (pg_items page)
   \<and> (\<forall>i \<in> gs_id ` set (pg_items page). map_of (fst (mergeGalleryPage m page)) i \<noteq> None)
   \<and> (\<forall>i g. map_of m i = Some g \<longrightarrow>
        (\<exists>g'. map_of (fst (mergeGalleryPage m page)) i = Some g'
              \<and> (if i \<in> gs_id ` set (pg_items page) then keeps_resolved g g' else g' = g)))"
proof -
  let ?m = "foldl merge_summary m (pg_items page)"
  have "\<exists>g'. map_of ?m i = Some g' \<and> (if i \<in> gs_id ` set (pg_items page) then keeps_resolved g g' else g' = g)"
    if "map_of m i = Some g" for i g
    using merge_summaries_keep [OF that, of "pg_items page"] map_of_merge_summaries_other [of i "pg_items page" m] that
    by (cases "i \<in> gs_id ` set (pg_items page)") simp_all
  then show ?thesis
    using merge_summaries_present [of _ "pg_items page" m] by (simp add: mergeGalleryPage_def)
qed

definition sample_summary :: "int \<Rightarrow> gallery_summary" where
  "sample_summary i =
     \<lparr>gs_id = i, gs_title = ''N'', gs_artist = ''a'', gs_artists = JUndef, gs_group = None, gs_pages = 3,
      gs_language = JUndef, gs_tags = JUndef, gs_series = JUndef, gs_characters = JUndef,
      gs_publishedRank = JNum (Num 20240131), gs_popularity = JUndef, gs_thumbnailKey = JUndef,
      gs_thumbnailWidth = JUndef, gs_thumbnailHeight = JUndef\<rparr>"

theorem search_page_keeps_witness:
  "\<exists>g'. map_of (fst (mergeGalleryPage sample_shown \<lparr>pg_page = 1, pg_totalPages = 1, pg_items = [sample_summary 7]\<rparr>)) 7
        = Some g' \<and> g_download g' = Some (sample_download ''e'' 2 Queued) \<and> g_title g' = ''N''"
proof -
  let ?p = "\<lparr>pg_page = 1, pg_totalPages = 1, pg_items = [sample_summary 7]\<rparr>"
  have m: "map_of sample_shown 7 = Some ((sample_gallery 7)\<lparr>g_download := Some (sample_download ''e'' 2 Queued)\<rparr>)"
    by (simp add: sample_shown_def)
  have "7 \<in> gs_id ` set (pg_items ?p)" by (simp add: sample_summary_def)
  with search_page_keeps [of sample_shown ?p] m obtain g' where
    g: "map_of (fst (mergeGalleryPage sample_shown ?p)) 7 = Some g'"
      "keeps_resolved ((sample_gallery 7)\<lparr>g_download := Some (sample_download ''e'' 2 Queued)\<rparr>) g'"
    by fastforce
  have "g_title g' = ''N''"
    using g(1) by (auto simp: mergeGalleryPage_def map_of_merge_summary sample_summary_def)
  with g keeps_resolvedD(1) [OF g(2)] show ?thesis by auto
qed

text \<open>In every map the merges can build, from search pages, details, lists, events and library pages in any
  order, no gallery is stored twice, each sits under its own identifier, has a date of the printed form
  and a cover number from 0 to 5, whatever unchecked values the backend sends.\<close>

theorem projected_galleries_ok:
  "projection_ok (foldl project [] es)"
  by (rule projection.inv_reachable)

end
