(* ===== verification/SearchTokens.thy ===== *)
theory SearchTokens
  imports CoreTypes
begin

text \<open>
  \<^verbatim>\<open>src/src/search/searchTokens.ts\<close> and \<^verbatim>\<open>src/src/search/globalSearchRules.ts\<close>: search tokens
  (a kind, a colon, a value in which runs of spaces and underscores are one underscore, an optional
  minus), the token under the caret of the search field, and the tags every search includes or
  excludes. The facts: canonical tokens are stable, editing a token leaves the rest of the field as
  it was, and normalising the rules of a request does not change which galleries they select.
\<close>

section \<open>Token values\<close>

datatype search_token_kind = KArtist | KGroup | KSeries | KCharacter | KTag | KFemale | KMale

fun kind_name :: "search_token_kind \<Rightarrow> string" where
  "kind_name KArtist = ''artist''"
| "kind_name KGroup = ''group''"
| "kind_name KSeries = ''series''"
| "kind_name KCharacter = ''character''"
| "kind_name KTag = ''tag''"
| "kind_name KFemale = ''female''"
| "kind_name KMale = ''male''"

definition knownKinds :: "search_token_kind list" where
  "knownKinds = [KArtist, KGroup, KSeries, KCharacter, KTag, KFemale, KMale]"

text \<open>An escaped underscore is an underscore; then runs of separators become one underscore.\<close>

definition backslash :: char where
  "backslash = CHR 0x5C"

fun unescape :: "string \<Rightarrow> string" where
  "unescape (c # d # s) =
     (if c = backslash \<and> d = CHR ''_'' then CHR ''_'' # unescape s else c # unescape (d # s))"
| "unescape s = s"

definition is_separator :: "char \<Rightarrow> bool" where
  "is_separator c \<longleftrightarrow> is_space c \<or> c = CHR ''_''"

fun collapse :: "bool \<Rightarrow> string \<Rightarrow> string" where
  "collapse inside [] = []"
| "collapse inside (c # s) =
     (if is_separator c then (if inside then collapse True s else CHR ''_'' # collapse True s)
      else c # collapse False s)"

definition normalizeTokenValue :: "string \<Rightarrow> string" where
  "normalizeTokenValue v = collapse False (unescape (lower (trim v)))"

definition colon :: char where
  "colon = CHR '':''"

definition kind_of_name :: "string \<Rightarrow> search_token_kind option" where
  "kind_of_name n = find (\<lambda>k. kind_name k = n) knownKinds"

definition searchTokenKind :: "string \<Rightarrow> search_token_kind option" where
  "searchTokenKind v =
     (case index_of colon v of
        None \<Rightarrow> None
      | Some i \<Rightarrow> if i < 1 then None else kind_of_name (lower (take i v)))"

text \<open>\<^verbatim>\<open>raw.slice(raw.indexOf(":") + 1)\<close>, the whole string when there is no colon.\<close>

definition after_colon :: "string \<Rightarrow> string" where
  "after_colon s = (case index_of colon s of None \<Rightarrow> s | Some i \<Rightarrow> drop (i + 1) s)"

fun strip_dash :: "string \<Rightarrow> string" where
  "strip_dash (c # s) = (if c = CHR ''-'' then s else c # s)"
| "strip_dash [] = []"

definition token_text :: "search_token_kind option \<Rightarrow> string \<Rightarrow> string" where
  "token_text kind v = (case kind of Some k \<Rightarrow> kind_name k @ '':'' @ v | None \<Rightarrow> v)"

definition canonicalSearchToken :: "string \<Rightarrow> search_token_kind option \<Rightarrow> string" where
  "canonicalSearchToken v defaultKind =
     (let negative = (if starts_with ''-'' (trim_start v) then ''-'' else []);
          raw = strip_dash (trim v);
          kind = or_else (searchTokenKind raw) defaultKind;
          tokenValue = normalizeTokenValue (if kind \<noteq> None then after_colon raw else raw)
      in if tokenValue = [] then negative else negative @ token_text kind tokenValue)"

section \<open>Tokens of card metadata\<close>

record metadata_token =
  mt_displayToken :: string
  mt_includeTag :: "string option"

definition spaces :: "string \<Rightarrow> string" where
  "spaces = map (\<lambda>c. if c = CHR ''_'' then CHR '' '' else c)"

text \<open>\<^verbatim>\<open>replace(/_+/g, " ")\<close>.\<close>

fun run_spaces :: "bool \<Rightarrow> string \<Rightarrow> string" where
  "run_spaces inside [] = []"
| "run_spaces inside (c # s) =
     (if c = CHR ''_'' then (if inside then run_spaces True s else CHR '' '' # run_spaces True s)
      else c # run_spaces False s)"

definition strip_prefix :: "string \<Rightarrow> string \<Rightarrow> string" where
  "strip_prefix p s = (if starts_with p s then drop (length p) s else s)"

text \<open>\<^verbatim>\<open>replace(/^(female|male):\s*/, "$1:")\<close> and \<^verbatim>\<open>replace(/^-?tag:/, "")\<close>.\<close>

definition tighten_gender :: "string \<Rightarrow> string" where
  "tighten_gender s =
     (if starts_with ''female:'' s then ''female:'' @ trim_start (drop 7 s)
      else if starts_with ''male:'' s then ''male:'' @ trim_start (drop 5 s) else s)"

definition strip_tag :: "string \<Rightarrow> string" where
  "strip_tag s = (if starts_with ''-tag:'' s then drop 5 s else strip_prefix ''tag:'' s)"

definition metadataSearchToken :: "string \<Rightarrow> string option \<Rightarrow> metadata_token" where
  "metadataSearchToken v searchValue =
     (let candidate = or_value searchValue v; kind = searchTokenKind candidate
      in case kind of
           Some KFemale \<Rightarrow>
             (let t = canonicalSearchToken candidate kind
              in \<lparr>mt_displayToken = t, mt_includeTag = Some (tighten_gender (run_spaces False (strip_dash t)))\<rparr>)
         | Some KMale \<Rightarrow>
             (let t = canonicalSearchToken candidate kind
              in \<lparr>mt_displayToken = t, mt_includeTag = Some (tighten_gender (run_spaces False (strip_dash t)))\<rparr>)
         | Some KTag \<Rightarrow>
             (let t = canonicalSearchToken candidate (Some KTag)
              in \<lparr>mt_displayToken = t, mt_includeTag = Some (spaces (strip_tag t))\<rparr>)
         | Some k \<Rightarrow> \<lparr>mt_displayToken = canonicalSearchToken candidate (Some k), mt_includeTag = None\<rparr>
         | None \<Rightarrow>
             (let t = canonicalSearchToken candidate (Some KTag)
              in \<lparr>mt_displayToken = t, mt_includeTag = Some (spaces (strip_prefix ''tag:'' t))\<rparr>))"

section \<open>The token under the caret\<close>

record active_token =
  at_start :: nat
  at_end :: nat
  at_value :: string

fun scan_left :: "string \<Rightarrow> nat \<Rightarrow> nat" where
  "scan_left s 0 = 0"
| "scan_left s (Suc n) = (if is_space (s ! n) then Suc n else scan_left s n)"

function scan_right :: "string \<Rightarrow> nat \<Rightarrow> nat" where
  "scan_right s n = (if n < length s \<and> \<not> is_space (s ! n) then scan_right s (Suc n) else n)"
  by auto
termination
  by (relation "measure (\<lambda>(s, n). length s - n)") auto

declare scan_right.simps [simp del]

definition clamp_caret :: "int \<Rightarrow> int \<Rightarrow> int \<Rightarrow> nat" where
  "clamp_caret lo hi x = nat (max lo (min hi x))"

definition activeSearchToken :: "string \<Rightarrow> int \<Rightarrow> int \<Rightarrow> active_token" where
  "activeSearchToken input caretStart caretEnd =
     (let s = clamp_caret 0 (int (length input)) caretStart;
          e = clamp_caret (int s) (int (length input)) caretEnd
      in if s \<noteq> e then \<lparr>at_start = s, at_end = e, at_value = slice s e input\<rparr>
         else let l = scan_left input s; r = scan_right input e
              in \<lparr>at_start = l, at_end = r, at_value = slice l r input\<rparr>)"

definition replaceActiveSearchToken :: "string \<Rightarrow> int \<Rightarrow> string \<Rightarrow> int \<Rightarrow> string" where
  "replaceActiveSearchToken input caretStart replacement caretEnd =
     (let active = activeSearchToken input caretStart caretEnd;
          preserveNegative = (starts_with ''-'' (at_value active) \<and> \<not> starts_with ''-'' replacement)
      in take (at_start active) input @ (if preserveNegative then ''-'' else []) @ replacement
         @ drop (at_end active) input)"

section \<open>Global rules\<close>

definition ruleToken :: "string \<Rightarrow> string" where
  "ruleToken v = strip_prefix ''tag:'' (normalizeTokenValue v)"

record rule_gallery =
  rg_artist :: string
  rg_tags :: "string list"
  rg_language :: language
  rg_artists :: "string list option"
  rg_group :: "string option"
  rg_series :: "string list option"
  rg_characters :: "string list option"

definition rule_tokens :: "rule_gallery \<Rightarrow> string list" where
  "rule_tokens g = set_from (map ruleToken
     (rg_tags g
      @ map (\<lambda>n. ''artist:'' @ n) (rg_artist g # or_value (rg_artists g) [])
      @ (case rg_group g of Some (c # cs) \<Rightarrow> [''group:'' @ (c # cs)] | _ \<Rightarrow> [])
      @ map (\<lambda>n. ''series:'' @ n) (or_value (rg_series g) [])
      @ map (\<lambda>n. ''character:'' @ n) (or_value (rg_characters g) [])
      @ [''language:'' @ language_name (rg_language g)]))"

definition matchesGlobalSearchRules :: "rule_gallery \<Rightarrow> string list \<Rightarrow> string list \<Rightarrow> bool" where
  "matchesGlobalSearchRules g includeTags excludeTags =
     (if includeTags = [] \<and> excludeTags = [] then True
      else let tokens = rule_tokens g; excluded = set_from (map ruleToken excludeTags)
           in \<not> (\<exists>tag \<in> set excluded. tag \<in> set tokens)
              \<and> (\<forall>tag \<in> set (map ruleToken includeTags). tag \<in> set excluded \<or> tag \<in> set tokens))"

definition normalizeGlobalSearchTag :: "string \<Rightarrow> string" where
  "normalizeGlobalSearchTag v = lower (trim v)"

definition normalizeGlobalSearchTagList :: "(string \<Rightarrow> string \<Rightarrow> int) \<Rightarrow> string list \<Rightarrow> string list" where
  "normalizeGlobalSearchTagList loc vs =
     js_sort loc (set_from (filter (\<lambda>t. t \<noteq> []) (map normalizeGlobalSearchTag vs)))"

text \<open>\<^verbatim>\<open>split(/[\r\n,]+/)\<close>: a run of separators is one cut.\<close>

definition is_tag_break :: "char \<Rightarrow> bool" where
  "is_tag_break c \<longleftrightarrow> c \<in> {CHR 0x0D, CHR 0x0A, CHR '',''}"

fun split_tags :: "bool \<Rightarrow> string \<Rightarrow> string \<Rightarrow> string list" where
  "split_tags inside cur [] = [cur]"
| "split_tags inside cur (c # s) =
     (if is_tag_break c then (if inside then split_tags True cur s else cur # split_tags True [] s)
      else split_tags False (cur @ [c]) s)"

definition parseGlobalSearchTagInput :: "(string \<Rightarrow> string \<Rightarrow> int) \<Rightarrow> string \<Rightarrow> string list" where
  "parseGlobalSearchTagInput loc v = normalizeGlobalSearchTagList loc (split_tags False [] v)"

definition applyGlobalSearchRules ::
  "(string \<Rightarrow> string \<Rightarrow> int) \<Rightarrow> search_request \<Rightarrow> string list \<Rightarrow> string list \<Rightarrow> search_request" where
  "applyGlobalSearchRules loc request searchIncludeTags searchExcludeTags =
     (let excludeTags = normalizeGlobalSearchTagList loc (sr_excludeTags request @ searchExcludeTags);
          includeTags = filter (\<lambda>t. t \<notin> set excludeTags)
            (normalizeGlobalSearchTagList loc (searchIncludeTags @ sr_includeTags request))
      in request\<lparr>sr_includeTags := includeTags, sr_excludeTags := excludeTags\<rparr>)"

section \<open>Canonical values\<close>

fun collapsed :: "bool \<Rightarrow> string \<Rightarrow> bool" where
  "collapsed after [] = True"
| "collapsed after (c # s) = (\<not> is_space c \<and> (c = CHR ''_'' \<longrightarrow> \<not> after) \<and> collapsed (c = CHR ''_'') s)"

lemma underscore_not_space [simp]: "\<not> is_space (CHR ''_'')"
  by code_simp

lemma collapsed_collapse: "collapsed inside (collapse inside s)"
  by (induction inside s rule: collapse.induct) (auto simp: is_separator_def)

lemma collapse_collapsed: "collapsed inside s \<Longrightarrow> collapse inside s = s"
  by (induction inside s rule: collapsed.induct) (auto simp: is_separator_def)

lemma collapsed_no_space: "collapsed inside s \<Longrightarrow> \<forall>c \<in> set s. \<not> is_space c"
  by (induction inside s rule: collapsed.induct) auto

lemma set_collapse: "set (collapse inside s) \<subseteq> insert (CHR ''_'') (set s)"
  by (induction inside s rule: collapse.induct) auto

lemma lower_char_underscore [simp]: "lower_char (CHR ''_'') = CHR ''_''"
  by code_simp

lemma lower_char_backslash: "lower_char c = backslash \<Longrightarrow> c = backslash"
proof (cases "map_of (zip upper_letters lower_letters) c")
  case (Some d)
  then have "d \<in> set lower_letters" by (meson map_of_SomeD set_zip_rightD)
  moreover have "backslash \<notin> set lower_letters" by code_simp
  ultimately show "lower_char c = backslash \<Longrightarrow> c = backslash" using Some by (auto simp: lower_char_def)
qed (simp add: lower_char_def)

lemma set_trim: "set (trim s) \<subseteq> set s"
  by (auto simp: trim_def dest!: set_dropWhileD)

lemma unescape_plain: "backslash \<notin> set s \<Longrightarrow> unescape s = s"
  by (induction s rule: unescape.induct) auto

lemma lower_id_iff: "lower s = s \<longleftrightarrow> (\<forall>c \<in> set s. lower_char c = c)"
  by (induction s) (auto simp: lower_def)

lemma lower_collapse: "lower s = s \<Longrightarrow> lower (collapse inside s) = collapse inside s"
  using set_collapse [of inside s] by (auto simp: lower_id_iff)

lemma backslash_lower_trim: "backslash \<notin> set v \<Longrightarrow> backslash \<notin> set (lower (trim v))"
  using set_trim [of v] by (auto simp: lower_def dest: lower_char_backslash [OF sym])

lemma normalize_plain: "backslash \<notin> set v \<Longrightarrow> normalizeTokenValue v = collapse False (lower (trim v))"
  by (simp add: normalizeTokenValue_def unescape_plain backslash_lower_trim)

lemma normalize_no_space: "\<forall>c \<in> set (normalizeTokenValue v). \<not> is_space c"
  unfolding normalizeTokenValue_def by (rule collapsed_no_space [OF collapsed_collapse])

lemma normalize_idem:
  assumes "backslash \<notin> set v"
  shows "normalizeTokenValue (normalizeTokenValue v) = normalizeTokenValue v"
proof -
  let ?n = "collapse False (lower (trim v))"
  have "backslash \<noteq> CHR ''_''" by code_simp
  then have "backslash \<notin> set ?n"
    using backslash_lower_trim [OF assms] set_collapse [of False "lower (trim v)"] by auto
  moreover have "trim ?n = ?n"
    by (rule trim_no_space) (use collapsed_no_space [OF collapsed_collapse] in blast)
  moreover have "lower ?n = ?n" by (simp add: lower_collapse)
  ultimately have "normalizeTokenValue ?n = ?n"
    by (simp add: normalize_plain collapse_collapsed collapsed_collapse)
  then show ?thesis by (simp add: normalize_plain assms)
qed

lemma normalize_Nil [simp]: "normalizeTokenValue [] = []"
  by (simp add: normalizeTokenValue_def)

lemma normalize_trim_lower: "normalizeTokenValue (lower (trim v)) = normalizeTokenValue v"
  by (simp add: normalizeTokenValue_def trim_lower)

section \<open>Canonical tokens\<close>

lemma kind_name_facts:
  "lower (kind_name k) = kind_name k \<and> colon \<notin> set (kind_name k) \<and> (\<forall>c \<in> set (kind_name k). \<not> is_space c)
   \<and> hd (kind_name k) \<noteq> CHR ''-'' \<and> kind_name k \<noteq> [] \<and> kind_of_name (kind_name k) = Some k"
  by (cases k; hypsubst; code_simp)

lemma index_of_append_colon: "colon \<notin> set p \<Longrightarrow> index_of colon (p @ colon # s) = Some (length p)"
  by (induction p) (auto simp: index_of_def)

lemma token_text_colon: "token_text (Some k) v = kind_name k @ colon # v"
  by (simp add: token_text_def colon_def)

lemma kind_of_token: "searchTokenKind (token_text (Some k) v) = Some k"
  using kind_name_facts [of k] by (simp add: searchTokenKind_def token_text_colon index_of_append_colon Suc_leI)

lemma value_of_token: "after_colon (token_text (Some k) v) = v"
  using kind_name_facts [of k] by (simp add: after_colon_def token_text_colon index_of_append_colon)

lemma strip_dash_token [simp]: "strip_dash (token_text (Some k) v) = token_text (Some k) v"
  "strip_dash (CHR ''-'' # token_text (Some k) v) = token_text (Some k) v"
  using kind_name_facts [of k] by (cases "kind_name k"; auto simp: token_text_colon)+

lemma colon_not_space [simp]: "\<not> is_space colon" and dash_not_space [simp]: "\<not> is_space (CHR ''-'')"
  by code_simp+

lemma trim_start_no_space: "\<forall>c \<in> set s. \<not> is_space c \<Longrightarrow> trim_start s = s"
  by (cases s) (simp_all add: trim_start_def)

lemma token_no_space: "\<forall>c \<in> set v. \<not> is_space c \<Longrightarrow> \<forall>c \<in> set (token_text (Some k) v). \<not> is_space c"
  using kind_name_facts [of k] by (auto simp: token_text_colon)

lemma token_not_negative: "\<not> starts_with ''-'' (token_text (Some k) v)"
  using kind_name_facts [of k] by (cases "kind_name k") (auto simp: token_text_colon starts_with_def)

lemma canonical_kind:
  "\<exists>kind tv neg. canonicalSearchToken v (Some k) = (if tv = [] then neg else neg @ token_text (Some kind) tv)
     \<and> neg \<in> {[], ''-''} \<and> (\<exists>u. tv = normalizeTokenValue u \<and> set u \<subseteq> set v)"
proof -
  let ?raw = "strip_dash (trim v)"
  obtain kind where k: "or_else (searchTokenKind ?raw) (Some k) = Some kind"
    by (cases "searchTokenKind ?raw") auto
  have "set (after_colon ?raw) \<subseteq> set ?raw"
    by (auto simp: after_colon_def split: option.splits dest: in_set_dropD)
  also have "\<dots> \<subseteq> set v"
    using set_trim [of v] by (cases "trim v") auto
  finally have "set (after_colon ?raw) \<subseteq> set v" .
  then have "\<exists>u. normalizeTokenValue (after_colon ?raw) = normalizeTokenValue u \<and> set u \<subseteq> set v" by blast
  moreover have "canonicalSearchToken v (Some k) =
      (if normalizeTokenValue (after_colon ?raw) = [] then (if starts_with ''-'' (trim_start v) then ''-'' else [])
       else (if starts_with ''-'' (trim_start v) then ''-'' else [])
         @ token_text (Some kind) (normalizeTokenValue (after_colon ?raw)))"
    by (simp only: canonicalSearchToken_def k Let_def option.distinct if_True not_False_eq_True simp_thms)
  moreover have "(if starts_with ''-'' (trim_start v) then ''-'' else []) \<in> {[], ''-''}" by simp
  ultimately show ?thesis by blast
qed

lemma canonical_of_canonical:
  assumes "neg \<in> {[], ''-''}" and "normalizeTokenValue tv = tv" and "\<forall>c \<in> set tv. \<not> is_space c" and "tv \<noteq> []"
  shows "canonicalSearchToken (neg @ token_text (Some kind) tv) d = neg @ token_text (Some kind) tv"
proof -
  let ?t = "neg @ token_text (Some kind) tv"
  have ns: "\<forall>c \<in> set ?t. \<not> is_space c" using assms(1,3) token_no_space [of tv kind] by auto
  have "trim ?t = ?t" "trim_start ?t = ?t"
    using ns by (auto intro: trim_no_space trim_start_no_space)
  moreover have "strip_dash ?t = token_text (Some kind) tv" using assms(1) by auto
  moreover have "starts_with ''-'' ?t \<longleftrightarrow> neg = ''-''"
    using assms(1) token_not_negative by (auto simp: starts_with_def)
  ultimately show ?thesis
    using assms by (auto simp: canonicalSearchToken_def Let_def kind_of_token value_of_token)
qed

lemma canonical_sign: "neg \<in> {[], ''-''} \<Longrightarrow> canonicalSearchToken neg (Some k) = neg"
  by (auto simp: canonicalSearchToken_def Let_def trim_no_space trim_start_no_space searchTokenKind_def
      after_colon_def index_of_def starts_with_def)

section \<open>Caret\<close>

lemma scan_left_le: "scan_left s n \<le> n"
  by (induction n) auto

lemma scan_left_stop: "scan_left s n = 0 \<or> is_space (s ! (scan_left s n - 1))"
  by (induction n) auto

lemma scan_left_token: "scan_left s n \<le> i \<Longrightarrow> i < n \<Longrightarrow> \<not> is_space (s ! i)"
  by (induction n) (auto simp: less_Suc_eq split: if_splits)

lemma scan_right_ge: "n \<le> scan_right s n"
  by (induction s n rule: scan_right.induct) (subst scan_right.simps, auto)

lemma scan_right_le: "n \<le> length s \<Longrightarrow> scan_right s n \<le> length s"
  by (induction s n rule: scan_right.induct) (subst scan_right.simps, auto)

lemma scan_right_stop: "n \<le> length s \<Longrightarrow> scan_right s n = length s \<or> is_space (s ! scan_right s n)"
  by (induction s n rule: scan_right.induct) (subst (1 2) scan_right.simps, auto)

lemma scan_right_token: "n \<le> i \<Longrightarrow> i < scan_right s n \<Longrightarrow> \<not> is_space (s ! i)"
proof (induction s n rule: scan_right.induct)
  case (1 s n)
  then show ?case
    by (cases "n < length s \<and> \<not> is_space (s ! n)"; cases "i = n") (auto simp: scan_right.simps [of s n])
qed

lemma clamp_caret_le: "lo \<le> hi \<Longrightarrow> 0 \<le> lo \<Longrightarrow> int (clamp_caret lo hi x) \<le> hi \<and> lo \<le> int (clamp_caret lo hi x)"
  by (auto simp: clamp_caret_def)

lemma active_bounds:
  "at_start (activeSearchToken input a b) \<le> at_end (activeSearchToken input a b)
   \<and> at_end (activeSearchToken input a b) \<le> length input
   \<and> at_value (activeSearchToken input a b)
     = slice (at_start (activeSearchToken input a b)) (at_end (activeSearchToken input a b)) input"
proof -
  define s where "s = clamp_caret 0 (int (length input)) a"
  define e where "e = clamp_caret (int s) (int (length input)) b"
  have "s \<le> length input" using clamp_caret_le [of 0 "int (length input)" a] by (simp add: s_def)
  moreover from this have "s \<le> e" "e \<le> length input"
    using clamp_caret_le [of "int s" "int (length input)" b] by (simp_all add: e_def)
  moreover have "activeSearchToken input a b =
      (if s \<noteq> e then \<lparr>at_start = s, at_end = e, at_value = slice s e input\<rparr>
       else \<lparr>at_start = scan_left input s, at_end = scan_right input e,
             at_value = slice (scan_left input s) (scan_right input e) input\<rparr>)"
    by (simp only: activeSearchToken_def Let_def s_def e_def)
  ultimately show ?thesis
    using scan_left_le [of input s] scan_right_ge [of e input] scan_right_le [of e input] by (cases "s = e") simp_all
qed

lemma take_slice_drop: "i \<le> j \<Longrightarrow> j \<le> length xs \<Longrightarrow> take i xs @ slice i j xs @ drop j xs = xs"
  by (metis append.assoc append_take_drop_id slice_def drop_drop le_add_diff_inverse2)

section \<open>Rules\<close>

lemma set_normalized_list:
  "set (normalizeGlobalSearchTagList loc vs) = {normalizeGlobalSearchTag v | v. v \<in> set vs \<and> trim v \<noteq> []}"
  by (auto simp: normalizeGlobalSearchTagList_def normalizeGlobalSearchTag_def)

lemma distinct_normalized_list: "distinct (normalizeGlobalSearchTagList loc vs)"
  by (simp add: normalizeGlobalSearchTagList_def)

lemma ruleToken_normalized [simp]: "ruleToken (normalizeGlobalSearchTag v) = ruleToken v"
  by (simp add: ruleToken_def normalizeGlobalSearchTag_def normalize_trim_lower)

lemma matches_iff:
  "matchesGlobalSearchRules g inc exc \<longleftrightarrow>
     (\<forall>t \<in> set exc. ruleToken t \<notin> set (rule_tokens g))
     \<and> (\<forall>t \<in> set inc. ruleToken t \<in> ruleToken ` set exc \<or> ruleToken t \<in> set (rule_tokens g))"
  by (auto simp: matchesGlobalSearchRules_def Let_def)

definition sample_request :: search_request where
  "sample_request = \<lparr>sr_text = [], sr_includeTags = ['' Big_Hair'', ''x''], sr_excludeTags = [''tag:y''],
     sr_languages = [], sr_sort = Recent, sr_pageSize = 25\<rparr>"

definition sample_rule_gallery :: rule_gallery where
  "sample_rule_gallery = \<lparr>rg_artist = ''a'', rg_tags = [''big hair''], rg_language = Korean, rg_artists = None,
     rg_group = None, rg_series = None, rg_characters = None\<rparr>"

section \<open>Properties\<close>

text \<open>Canonical search tokens are stable: for input without a backslash, canonicalising a canonical token
  gives the same token, and it contains no white space.\<close>

theorem canonical_token_stable:
  assumes "backslash \<notin> set v"
  shows "canonicalSearchToken (canonicalSearchToken v (Some k)) (Some k) = canonicalSearchToken v (Some k)
    \<and> list_all (\<lambda>c. \<not> is_space c) (canonicalSearchToken v (Some k))"
proof -
  obtain kind tv neg u where c: "canonicalSearchToken v (Some k) = (if tv = [] then neg else neg @ token_text (Some kind) tv)"
    and neg: "neg \<in> {[], ''-''}" and tv: "tv = normalizeTokenValue u" and u: "set u \<subseteq> set v"
    using canonical_kind [of v k] by blast
  have "normalizeTokenValue tv = tv" using normalize_idem [of u] u assms by (auto simp: tv)
  moreover have ns: "\<forall>c \<in> set tv. \<not> is_space c" by (simp add: tv normalize_no_space)
  ultimately show ?thesis
    using canonical_of_canonical [OF neg, of tv kind "Some k"] canonical_sign [OF neg, of k] neg
      token_no_space [OF ns, of kind]
    by (cases "tv = []") (auto simp: c list_all_iff)
qed

theorem canonical_token_stable_witness:
  "canonicalSearchToken ''- Big  Hair'' (Some KTag) = ''-tag:big_hair''
   \<and> canonicalSearchToken ''-tag:big_hair'' (Some KTag) = ''-tag:big_hair''"
proof -
  have c: "canonicalSearchToken ''- Big  Hair'' (Some KTag) = ''-tag:big_hair''" by code_simp
  with canonical_token_stable [of "''- Big  Hair''" KTag] show ?thesis by (simp add: backslash_def)
qed

text \<open>The token under the caret is a maximal piece without white space around the caret, and replacing it by
  itself gives back the field, whatever the caret or selection and wherever they lie outside the field.\<close>

theorem active_token_maximal:
  "replaceActiveSearchToken input a (at_value (activeSearchToken input a b)) b = input
   \<and> (let t = activeSearchToken input a a
      in list_all (\<lambda>c. \<not> is_space c) (at_value t)
         \<and> (at_start t = 0 \<or> is_space (input ! (at_start t - 1)))
         \<and> (at_end t = length input \<or> is_space (input ! at_end t)))"
proof -
  let ?t = "activeSearchToken input a b"
  have "replaceActiveSearchToken input a (at_value ?t) b = take (at_start ?t) input @ at_value ?t @ drop (at_end ?t) input"
    by (simp add: replaceActiveSearchToken_def Let_def)
  moreover have "take (at_start ?t) input @ at_value ?t @ drop (at_end ?t) input = input"
    using active_bounds [of input a b] take_slice_drop [of "at_start ?t" "at_end ?t" input] by simp
  moreover define s where "s = clamp_caret 0 (int (length input)) a"
  have s: "s \<le> length input" using clamp_caret_le [of 0 "int (length input)" a] by (simp add: s_def)
  have e: "clamp_caret (int s) (int (length input)) a = s"
    using s by (auto simp: clamp_caret_def s_def)
  have t: "activeSearchToken input a a = \<lparr>at_start = scan_left input s, at_end = scan_right input s,
      at_value = slice (scan_left input s) (scan_right input s) input\<rparr>"
    by (simp add: activeSearchToken_def Let_def e flip: s_def)
  have "list_all (\<lambda>c. \<not> is_space c) (slice (scan_left input s) (scan_right input s) input)"
  proof (clarsimp simp: list_all_length length_slice)
    fix i
    assume i: "i < length input - scan_left input s" "i < scan_right input s - scan_left input s"
    then have "slice (scan_left input s) (scan_right input s) input ! i = input ! (scan_left input s + i)"
      by (simp add: slice_def)
    moreover have "\<not> is_space (input ! (scan_left input s + i))"
      using scan_left_token [of input s "scan_left input s + i"] scan_right_token [of s "scan_left input s + i" input] i
      by (cases "scan_left input s + i < s") auto
    ultimately show "is_space (slice (scan_left input s) (scan_right input s) input ! i) \<Longrightarrow> False" by simp
  qed
  ultimately show ?thesis
    using scan_left_stop [of input s] scan_right_stop [OF s] by (simp add: t Let_def)
qed

text \<open>C38: The rules of a request keep their meaning when they are normalised. The lists sent are without
  repetitions and disjoint, excluding wins over including, and a gallery passes the lists that are sent
  exactly when it passes the tags as they were written, blank ones left out.\<close>

theorem global_rules_agree:
  fixes request :: search_request and loc :: "string \<Rightarrow> string \<Rightarrow> int" and inc exc :: "string list"
  defines "r \<equiv> applyGlobalSearchRules loc request inc exc"
  shows "distinct (sr_includeTags r) \<and> distinct (sr_excludeTags r)
    \<and> set (sr_includeTags r) \<inter> set (sr_excludeTags r) = {}
    \<and> matchesGlobalSearchRules g (sr_includeTags r) (sr_excludeTags r)
      = matchesGlobalSearchRules g (filter (\<lambda>t. trim t \<noteq> []) (inc @ sr_includeTags request))
          (filter (\<lambda>t. trim t \<noteq> []) (sr_excludeTags request @ exc))"
proof -
  let ?exc = "filter (\<lambda>t. trim t \<noteq> []) (sr_excludeTags request @ exc)"
  let ?inc = "filter (\<lambda>t. trim t \<noteq> []) (inc @ sr_includeTags request)"
  have e: "set (sr_excludeTags r) = normalizeGlobalSearchTag ` set ?exc"
    by (auto simp: r_def applyGlobalSearchRules_def Let_def set_normalized_list)
  have i: "set (sr_includeTags r) = normalizeGlobalSearchTag ` set ?inc - set (sr_excludeTags r)"
    by (auto simp: r_def applyGlobalSearchRules_def Let_def set_normalized_list)
  have re: "ruleToken ` set (sr_excludeTags r) = ruleToken ` set ?exc"
    by (simp only: e image_image ruleToken_normalized)
  have x: "(\<forall>t \<in> set (sr_excludeTags r). ruleToken t \<notin> T) \<longleftrightarrow> (\<forall>t \<in> set ?exc. ruleToken t \<notin> T)" for T
    by (simp only: e ball_simps ruleToken_normalized)
  have "(\<forall>t \<in> set (sr_includeTags r). ruleToken t \<in> ruleToken ` set ?exc \<or> ruleToken t \<in> T)
      \<longleftrightarrow> (\<forall>t \<in> set ?inc. ruleToken t \<in> ruleToken ` set ?exc \<or> ruleToken t \<in> T)" for T
  proof -
    have "ruleToken t \<in> ruleToken ` set ?exc" if "normalizeGlobalSearchTag t \<in> set (sr_excludeTags r)" for t
      using imageI [OF that, of ruleToken] by (simp only: re ruleToken_normalized)
    then have drop: "(\<forall>t \<in> set ?inc. normalizeGlobalSearchTag t \<notin> set (sr_excludeTags r) \<longrightarrow> P t)
        \<longleftrightarrow> (\<forall>t \<in> set ?inc. ruleToken t \<in> ruleToken ` set ?exc \<or> P t)"
      if "\<And>t. ruleToken t \<in> ruleToken ` set ?exc \<Longrightarrow> P t" for P
      using that by blast
    have "(\<forall>t \<in> set (sr_includeTags r). Q (ruleToken t))
        \<longleftrightarrow> (\<forall>t \<in> set ?inc. normalizeGlobalSearchTag t \<notin> set (sr_excludeTags r) \<longrightarrow> Q (ruleToken t))" for Q
    proof -
      have "(\<forall>x \<in> f ` A - B. R x) \<longleftrightarrow> (\<forall>t \<in> A. f t \<notin> B \<longrightarrow> R (f t))" for f :: "string \<Rightarrow> string" and A B R by blast
      then show ?thesis unfolding i by (simp only: ruleToken_normalized)
    qed
    from this [of "\<lambda>x. x \<in> ruleToken ` set ?exc \<or> x \<in> T"] show ?thesis
      using drop [of "\<lambda>t. ruleToken t \<in> ruleToken ` set ?exc \<or> ruleToken t \<in> T"] by simp
  qed
  with x have "matchesGlobalSearchRules g (sr_includeTags r) (sr_excludeTags r) = matchesGlobalSearchRules g ?inc ?exc"
    by (simp only: matches_iff re)
  moreover have "distinct (sr_includeTags r)" "distinct (sr_excludeTags r)"
    by (simp_all add: r_def applyGlobalSearchRules_def Let_def distinct_normalized_list)
  ultimately show ?thesis using i by auto
qed

end
