(* ===== verification/GalleryGroups.thy ===== *)
theory GalleryGroups
  imports SearchTokens
begin

text \<open>
  \<^verbatim>\<open>src/src/state/galleryGrouping.ts\<close> and \<^verbatim>\<open>src/src/state/autoFindFavorites.ts\<close>: the folders in which
  downloads and discoveries are shown, by day, by artist or by the favourite that found them. Both
  modules push galleries one by one into an insertion-ordered map of groups; \<open>push_item\<close> is that step.
  The facts: folders partition the galleries and keep their order, the newest download is the
  cover, a tag's count is the number of galleries that carry it, and a discovery is in exactly the
  folders of the favourites it matches. The collation of labels is a parameter.
\<close>

section \<open>Groups\<close>

datatype accordion = ByDay | ByArtist

fun accordion_name :: "accordion \<Rightarrow> string" where
  "accordion_name ByDay = ''day''"
| "accordion_name ByArtist = ''artist''"

record gallery_group =
  gg_key :: string
  gg_label :: string
  gg_items :: "gallery list"

definition unknown_artist :: string where
  "unknown_artist = [CHR 0xEC, CHR 0x9E, CHR 0x91, CHR 0xEA, CHR 0xB0,
     CHR 0x80] @ '' '' @ [CHR 0xEC, CHR 0xA0, CHR 0x95, CHR 0xEB, CHR 0xB3,
     CHR 0xB4] @ '' '' @ [CHR 0xEC, CHR 0x97, CHR 0x86, CHR 0xEC, CHR 0x9D, CHR 0x8C]"

definition unknown_day :: string where
  "unknown_day = [CHR 0xEB, CHR 0x82, CHR 0xA0, CHR 0xEC, CHR 0xA7,
     CHR 0x9C] @ '' '' @ [CHR 0xEC, CHR 0xA0, CHR 0x95, CHR 0xEB, CHR 0xB3,
     CHR 0xB4] @ '' '' @ [CHR 0xEC, CHR 0x97, CHR 0x86, CHR 0xEC, CHR 0x9D, CHR 0x8C]"

definition year_mark :: string where
  "year_mark = [CHR 0xEB, CHR 0x85, CHR 0x84] @ '' ''"

definition month_mark :: string where
  "month_mark = [CHR 0xEC, CHR 0x9B, CHR 0x94] @ '' ''"

definition day_mark :: string where
  "day_mark = [CHR 0xEC, CHR 0x9D, CHR 0xBC]"

definition group_word :: string where
  "group_word = [CHR 0xEA, CHR 0xB7, CHR 0xB8, CHR 0xEB, CHR 0xA3, CHR 0xB9]"

definition artist_word :: string where
  "artist_word = [CHR 0xEC, CHR 0x9E, CHR 0x91, CHR 0xEA, CHR 0xB0, CHR 0x80]"

definition middle_dot :: string where
  "middle_dot = '' '' @ [CHR 0xC2, CHR 0xB7] @ '' ''"

definition unit_separator :: char where
  "unit_separator = CHR 0x1F"

definition unknown_date :: string where
  "unknown_date = ''unknown''"

text \<open>\<^verbatim>\<open>/^(\d{4})-(\d{2})-(\d{2})/\<close>.\<close>

definition dated :: "string \<Rightarrow> bool" where
  "dated s \<longleftrightarrow> length s \<ge> 10 \<and> list_all is_digit (take 4 s) \<and> s ! 4 = CHR ''-''
     \<and> list_all is_digit (slice 5 7 s) \<and> s ! 7 = CHR ''-'' \<and> list_all is_digit (slice 8 10 s)"

definition dateKey :: "string option \<Rightarrow> string" where
  "dateKey v = (case v of
     Some s \<Rightarrow> if dated s then take 4 s @ ''-'' @ slice 5 7 s @ ''-'' @ slice 8 10 s else unknown_date
   | None \<Rightarrow> unknown_date)"

definition digit_value :: "char \<Rightarrow> nat" where
  "digit_value c = (case index_of c digit_chars of Some i \<Rightarrow> i | None \<Rightarrow> 0)"

definition digits_value :: "string \<Rightarrow> nat" where
  "digits_value = foldl (\<lambda>n c. 10 * n + digit_value c) 0"

definition dateLabel :: "string \<Rightarrow> string" where
  "dateLabel key =
     (if key = unknown_date then unknown_day
      else show_nat (digits_value (take 4 key)) @ year_mark @ show_nat (digits_value (slice 5 7 key)) @ month_mark
           @ show_nat (digits_value (slice 8 10 key)) @ day_mark)"

definition groupKey :: "accordion \<Rightarrow> string \<Rightarrow> string" where
  "groupKey grouping identity = accordion_name grouping @ unit_separator # lower (trim identity)"

type_synonym group_map = "(string \<times> gallery_group) list"

text \<open>A gallery goes into the group of its key, which is created with a label when it is new.\<close>

definition push_item :: "group_map \<Rightarrow> string \<times> string \<times> gallery \<Rightarrow> group_map" where
  "push_item m t =
     (case t of (key, label, g) \<Rightarrow>
        case map_of m key of
          Some grp \<Rightarrow> AList.update key (grp\<lparr>gg_items := gg_items grp @ [g]\<rparr>) m
        | None \<Rightarrow> AList.update key \<lparr>gg_key = key, gg_label = label, gg_items = [g]\<rparr> m)"

definition gallery_identity :: "accordion \<Rightarrow> (gallery \<Rightarrow> string option) \<Rightarrow> gallery \<Rightarrow> string" where
  "gallery_identity grouping dateFor g =
     (if grouping = ByArtist then (if trim (g_artist g) \<noteq> [] then trim (g_artist g) else unknown_artist)
      else dateKey (dateFor g))"

definition gallery_slot :: "accordion \<Rightarrow> (gallery \<Rightarrow> string option) \<Rightarrow> gallery \<Rightarrow> string \<times> string \<times> gallery" where
  "gallery_slot grouping dateFor g =
     (let i = gallery_identity grouping dateFor g
      in (groupKey grouping i, if grouping = ByArtist then i else dateLabel i, g))"

text \<open>\<^verbatim>\<open>key.split("\u001f")[1] ?? "unknown"\<close>.\<close>

definition key_identity :: "string \<Rightarrow> string" where
  "key_identity key =
     (case dropWhile (\<lambda>c. c \<noteq> unit_separator) key of
        [] \<Rightarrow> unknown_date
      | _ # rest \<Rightarrow> takeWhile (\<lambda>c. c \<noteq> unit_separator) rest)"

definition day_unknown :: "gallery_group \<Rightarrow> bool" where
  "day_unknown grp \<longleftrightarrow> key_identity (gg_key grp) = unknown_date"

definition by_group ::
  "(string \<Rightarrow> string \<Rightarrow> int) \<Rightarrow> accordion \<Rightarrow> gallery_group \<Rightarrow> gallery_group \<Rightarrow> int" where
  "by_group loc grouping =
     (if grouping = ByDay
      then js_or (\<lambda>l r. of_bool (day_unknown l) - of_bool (day_unknown r))
             (\<lambda>l r. loc (key_identity (gg_key r)) (key_identity (gg_key l)))
      else (\<lambda>l r. loc (gg_label l) (gg_label r)))"

definition groupGalleries ::
  "(string \<Rightarrow> string \<Rightarrow> int) \<Rightarrow> gallery list \<Rightarrow> accordion \<Rightarrow> (gallery \<Rightarrow> string option) \<Rightarrow> gallery_group list" where
  "groupGalleries loc galleries grouping dateFor =
     js_sort (by_group loc grouping) (vals (foldl push_item [] (map (gallery_slot grouping dateFor) galleries)))"

definition galleryGroupStorageKey :: "grouping_view \<Rightarrow> gallery_group \<Rightarrow> string" where
  "galleryGroupStorageKey view grp =
     (case view of GVAutoFind \<Rightarrow> ''auto-find'' | GVDownloads \<Rightarrow> ''downloads'') @ unit_separator # gg_key grp"

section \<open>Covers and tags of a folder\<close>

definition downloadRecency :: "gallery \<Rightarrow> string" where
  "downloadRecency g =
     or_value (or_else (Option.bind (g_download g) d_createdAt) (Option.bind (g_download g) d_updatedAt)) (g_publishedAt g)"

definition by_recency :: "(string \<Rightarrow> string \<Rightarrow> int) \<Rightarrow> gallery \<Rightarrow> gallery \<Rightarrow> int" where
  "by_recency loc = js_or (\<lambda>l r. loc (downloadRecency r) (downloadRecency l)) (\<lambda>l r. g_id r - g_id l)"

definition recentDownloadedGalleries ::
  "(string \<Rightarrow> string \<Rightarrow> int) \<Rightarrow> gallery list \<Rightarrow> int \<Rightarrow> gallery list" where
  "recentDownloadedGalleries loc galleries limit =
     (if limit \<le> 0 then [] else take (nat limit) (js_sort (by_recency loc) galleries))"

definition latestDownloadedGallery :: "(string \<Rightarrow> string \<Rightarrow> int) \<Rightarrow> gallery list \<Rightarrow> gallery option" where
  "latestDownloadedGallery loc galleries = js_at (recentDownloadedGalleries loc galleries 1) 0"

record folder_tag =
  ft_value :: string
  ft_count :: int
  ft_favorite :: bool

type_synonym tag_counts = "(string \<times> string \<times> int) list"

definition normal_tag :: "string \<Rightarrow> string" where
  "normal_tag v = lower (trim v)"

text \<open>The inner loop: the tags seen in this gallery, and the counts.\<close>

definition count_tag :: "string list \<times> tag_counts \<Rightarrow> string \<Rightarrow> string list \<times> tag_counts" where
  "count_tag st v =
     (case st of (seen, counts) \<Rightarrow>
        let n = normal_tag v
        in if n = [] \<or> n \<in> set seen then (seen, counts)
           else (set_add n seen,
                 case map_of counts n of
                   Some (w, k) \<Rightarrow> AList.update n (w, k + 1) counts
                 | None \<Rightarrow> AList.update n (trim v, 1) counts))"

definition count_gallery :: "tag_counts \<Rightarrow> gallery \<Rightarrow> tag_counts" where
  "count_gallery counts g = snd (foldl count_tag ([], counts) (g_tags g))"

definition tag_count_map :: "gallery list \<Rightarrow> tag_counts" where
  "tag_count_map galleries = foldl count_gallery [] galleries"

definition by_folder_tag :: "(string \<Rightarrow> string \<Rightarrow> int) \<Rightarrow> folder_tag \<Rightarrow> folder_tag \<Rightarrow> int" where
  "by_folder_tag loc =
     js_or (\<lambda>l r. of_bool (ft_favorite r) - of_bool (ft_favorite l))
       (js_or (\<lambda>l r. ft_count r - ft_count l) (\<lambda>l r. loc (ft_value l) (ft_value r)))"

definition summarizeArtistFolderTags ::
  "(string \<Rightarrow> string \<Rightarrow> int) \<Rightarrow> gallery list \<Rightarrow> string list \<Rightarrow> int \<Rightarrow> folder_tag list" where
  "summarizeArtistFolderTags loc galleries favorites limit =
     (if limit \<le> 0 then []
      else take (nat limit) (js_sort (by_folder_tag loc)
             (map (\<lambda>(n, w, k). \<lparr>ft_value = w, ft_count = k,
                                ft_favorite = (n \<in> set (map normal_tag favorites))\<rparr>)
                (tag_count_map galleries))))"

section \<open>Favourites behind a discovery\<close>

datatype match_namespace = MatchArtist | MatchGroup

fun match_name :: "match_namespace \<Rightarrow> string" where
  "match_name MatchArtist = ''artist''"
| "match_name MatchGroup = ''group''"

record favorite_match =
  fm_namespace :: match_namespace
  fm_value :: string

definition normalizedFavorites :: "string list \<Rightarrow> string list" where
  "normalizedFavorites values = set_from (map normalizeTokenValue values)"

definition named_artists :: "string list option \<Rightarrow> bool" where
  "named_artists artists = (case artists of Some ns \<Rightarrow> \<exists>n \<in> set ns. trim n \<noteq> [] | None \<Rightarrow> False)"

definition participatingArtists :: "gallery \<Rightarrow> string list" where
  "participatingArtists g = (if named_artists (g_artists g) then the (g_artists g) else [g_artist g])"

definition add_match ::
  "string list \<Rightarrow> (string \<times> favorite_match) list \<Rightarrow> match_namespace \<times> string \<Rightarrow> (string \<times> favorite_match) list" where
  "add_match normalized m c =
     (let v = normalizeTokenValue (snd c); token = match_name (fst c) @ '':'' @ v
      in if v \<noteq> [] \<and> token \<in> set normalized
         then AList.update token \<lparr>fm_namespace = fst c, fm_value = spaces v\<rparr> m else m)"

text \<open>A recorded match counts when it is a group, or an artist and the gallery names no participants.\<close>

definition recorded_claim :: "gallery \<Rightarrow> string \<Rightarrow> (match_namespace \<times> string) option" where
  "recorded_claim g recorded =
     (let ns = (case index_of colon recorded of Some i \<Rightarrow> take i recorded | None \<Rightarrow> butlast recorded);
          v = after_colon recorded
      in if ns = ''group'' then Some (MatchGroup, v)
         else if ns = ''artist'' \<and> \<not> named_artists (g_artists g) then Some (MatchArtist, v)
         else None)"

definition claims :: "gallery \<Rightarrow> string list \<Rightarrow> (match_namespace \<times> string) list" where
  "claims g recorded =
     map (Pair MatchArtist) (participatingArtists g)
     @ (case g_group g of Some (c # cs) \<Rightarrow> [(MatchGroup, c # cs)] | _ \<Rightarrow> [])
     @ List.map_filter (recorded_claim g) recorded"

definition autoFindFavoriteMatches :: "gallery \<Rightarrow> string list \<Rightarrow> string list \<Rightarrow> favorite_match list" where
  "autoFindFavoriteMatches g favorites recorded =
     vals (foldl (add_match (normalizedFavorites favorites)) [] (claims g recorded))"

definition uniqueAutoFindGalleries :: "gallery list \<Rightarrow> gallery list" where
  "uniqueAutoFindGalleries galleries =
     snd (foldl (\<lambda>st g. if g_id g \<in> set (fst st) then st else (set_add (g_id g) (fst st), snd st @ [g]))
            ([], []) galleries)"

definition match_slot :: "gallery \<Rightarrow> favorite_match \<Rightarrow> string \<times> string \<times> gallery" where
  "match_slot g m =
     (''artist'' @ unit_separator # match_name (fm_namespace m) @ '':'' @ fm_value m,
      (if fm_namespace m = MatchGroup then group_word else artist_word) @ middle_dot @ fm_value m, g)"

definition match_slots ::
  "string list \<Rightarrow> (gallery_id \<times> string list) list \<Rightarrow> gallery list \<Rightarrow> (string \<times> string \<times> gallery) list" where
  "match_slots favorites recorded galleries =
     concat (map (\<lambda>g. map (match_slot g) (autoFindFavoriteMatches g favorites (or_value (map_of recorded (g_id g)) [])))
               (uniqueAutoFindGalleries galleries))"

definition groupAutoFindGalleries ::
  "(string \<Rightarrow> string \<Rightarrow> int) \<Rightarrow> gallery list \<Rightarrow> accordion \<Rightarrow> (gallery \<Rightarrow> string option) \<Rightarrow> string list
   \<Rightarrow> (gallery_id \<times> string list) list \<Rightarrow> gallery_group list" where
  "groupAutoFindGalleries loc galleries grouping dateFor favorites recorded =
     (if grouping = ByDay then groupGalleries loc galleries grouping dateFor
      else js_sort (\<lambda>l r. loc (gg_label l) (gg_label r))
             (vals (foldl push_item [] (match_slots favorites recorded galleries))))"

section \<open>Pushing into groups\<close>

abbreviation (input) slot_key :: "string \<times> string \<times> gallery \<Rightarrow> string" where
  "slot_key t \<equiv> fst t"

definition slot_gallery :: "string \<times> string \<times> gallery \<Rightarrow> gallery" where
  "slot_gallery t = snd (snd t)"

definition group_of :: "(string \<times> string \<times> gallery) list \<Rightarrow> string \<Rightarrow> gallery_group option" where
  "group_of ts key =
     (case filter (\<lambda>t. slot_key t = key) ts of
        [] \<Rightarrow> None
      | t # us \<Rightarrow> Some \<lparr>gg_key = key, gg_label = fst (snd t), gg_items = map slot_gallery (t # us)\<rparr>)"

lemma group_of_snoc:
  "group_of (ts @ [t]) key =
     (if slot_key t \<noteq> key then group_of ts key
      else case group_of ts key of
        Some grp \<Rightarrow> Some (grp\<lparr>gg_items := gg_items grp @ [slot_gallery t]\<rparr>)
      | None \<Rightarrow> Some \<lparr>gg_key = key, gg_label = fst (snd t), gg_items = [slot_gallery t]\<rparr>)"
  by (cases "filter (\<lambda>t. slot_key t = key) ts") (auto simp: group_of_def)

lemma push_lookup: "map_of (foldl push_item [] ts) key = group_of ts key"
proof (induction ts rule: rev_induct)
  case (snoc t ts)
  show ?case
    unfolding group_of_snoc foldl_append foldl_Cons foldl_Nil snoc.IH [symmetric]
    by (cases t; cases "map_of (foldl push_item [] ts) (fst t)")
       (auto simp: push_item_def omap.look_put slot_gallery_def)
qed (simp add: group_of_def)

lemma push_distinct: "distinct (keys (foldl push_item [] ts))"
proof (induction ts rule: rev_induct)
  case (snoc t ts)
  then show ?case by (cases t) (simp add: push_item_def split: option.split)
qed simp

lemma group_of_None: "group_of ts key = None \<longleftrightarrow> key \<notin> set (map fst ts)"
proof (cases "filter (\<lambda>t. slot_key t = key) ts")
  case (Cons t us)
  then have "set (filter (\<lambda>t. slot_key t = key) ts) = set (t # us)" by (rule arg_cong)
  then have "t \<in> {x \<in> set ts. slot_key x = key}" by (simp only: set_filter list.set_intros(1))
  then have "key \<in> set (map fst ts)" by auto
  then show ?thesis by (simp add: group_of_def Cons)
qed (auto simp: group_of_def filter_empty_conv)

lemma group_of_Some:
  "group_of ts key = Some grp \<Longrightarrow>
   gg_key grp = key \<and> gg_items grp = map slot_gallery (filter (\<lambda>t. slot_key t = key) ts) \<and> gg_items grp \<noteq> []"
  by (auto simp: group_of_def split: list.splits)

lemma push_keys: "set (keys (foldl push_item [] ts)) = set (map fst ts)"
proof -
  have "k \<notin> set (keys (foldl push_item [] ts)) \<longleftrightarrow> k \<notin> set (map fst ts)" for k
    using map_of_None_keys [of "foldl push_item [] ts" k] unfolding push_lookup group_of_None by simp
  then show ?thesis by blast
qed

lemma push_group:
  assumes "grp \<in> set (vals (foldl push_item [] ts))"
  shows "group_of ts (gg_key grp) = Some grp"
proof -
  obtain k where k: "(k, grp) \<in> set (foldl push_item [] ts)" using assms by auto
  then have "group_of ts k = Some grp"
    using map_of_is_SomeI [OF push_distinct k] by (simp add: push_lookup)
  then show ?thesis using group_of_Some by metis
qed

lemma push_group_keys: "map gg_key (vals (foldl push_item [] ts)) = keys (foldl push_item [] ts)"
proof -
  have "gg_key (snd x) = fst x" if "x \<in> set (foldl push_item [] ts)" for x
    using group_of_Some [of ts "fst x" "snd x"] map_of_is_SomeI [OF push_distinct, of "fst x" "snd x" ts] that
    by (simp add: push_lookup)
  then show ?thesis by simp
qed

text \<open>Splitting a list by a key and joining the parts rearranges it.\<close>

lemma mset_split_by_key:
  "distinct ks \<Longrightarrow> set (map f xs) \<subseteq> set ks \<Longrightarrow> mset (concat (map (\<lambda>k. filter (\<lambda>x. f x = k) xs) ks)) = mset xs"
proof (induction xs)
  case Nil
  then show ?case by (induction ks) auto
next
  case (Cons x xs)
  then obtain as bs where ks: "ks = as @ f x # bs" "f x \<notin> set as" "f x \<notin> set bs"
    by (auto dest: split_list)
  have cut: "map (\<lambda>k. filter (\<lambda>y. f y = k) (x # xs)) cs = map (\<lambda>k. filter (\<lambda>y. f y = k) xs) cs" if "f x \<notin> set cs" for cs
    using that by auto
  have "mset (concat (map (\<lambda>k. filter (\<lambda>y. f y = k) (x # xs)) ks))
      = add_mset x (mset (concat (map (\<lambda>k. filter (\<lambda>y. f y = k) xs) ks)))"
    unfolding ks(1)
    by (simp only: map_append concat_append mset_append list.map concat.simps cut [OF ks(2)] cut [OF ks(3)]) simp
  then show ?case using Cons by simp
qed

lemma slot_filter:
  "map slot_gallery (filter (\<lambda>t. slot_key t = key) (map (gallery_slot k d) gs))
   = filter (\<lambda>g. groupKey k (gallery_identity k d g) = key) gs"
  by (induction gs) (auto simp: gallery_slot_def slot_gallery_def Let_def)

section \<open>Counting tags\<close>

definition carries :: "gallery \<Rightarrow> string \<Rightarrow> bool" where
  "carries g n \<longleftrightarrow> n \<in> normal_tag ` set (g_tags g)"

definition count_of :: "tag_counts \<Rightarrow> string \<Rightarrow> int" where
  "count_of m n = (case map_of m n of Some (_, k) \<Rightarrow> k | None \<Rightarrow> 0)"

definition counts_ok :: "tag_counts \<Rightarrow> bool" where
  "counts_ok m \<longleftrightarrow> distinct (keys m) \<and> (\<forall>n w k. map_of m n = Some (w, k) \<longrightarrow> n = normal_tag w)"

lemma normal_tag_trim [simp]: "normal_tag (trim v) = normal_tag v"
  by (simp add: normal_tag_def)

lemma count_tags_step:
  "counts_ok m \<Longrightarrow>
     set (fst (foldl count_tag (seen, m) vs)) = set seen \<union> (normal_tag ` set vs - {[]})
     \<and> counts_ok (snd (foldl count_tag (seen, m) vs))
     \<and> (n \<noteq> [] \<longrightarrow> count_of (snd (foldl count_tag (seen, m) vs)) n
          = count_of m n + of_bool (n \<in> normal_tag ` set vs \<and> n \<notin> set seen))"
proof (induction vs arbitrary: seen m)
  case (Cons v vs)
  let ?n = "normal_tag v"
  obtain seen' m' where st: "count_tag (seen, m) v = (seen', m')" by (cases "count_tag (seen, m) v")
  have seen': "set seen' = set seen \<union> ({?n} - {[]})"
    using st by (auto simp: count_tag_def Let_def split: if_splits)
  have ok': "counts_ok m'"
    using st Cons.prems by (auto simp: count_tag_def Let_def counts_ok_def omap.look_put
        simp del: map_of_eq_Some_iff
        split: if_splits option.splits)
  have cnt: "n \<noteq> [] \<longrightarrow> count_of m' n = count_of m n + of_bool (n = ?n \<and> n \<notin> set seen)"
    using st by (auto simp: count_tag_def Let_def count_of_def omap.look_put split: if_splits option.splits)
  from Cons.IH [OF ok', of seen'] show ?case
    using seen' cnt by (auto simp: st)
qed simp

lemma count_gallery_step:
  "counts_ok m \<Longrightarrow> counts_ok (count_gallery m g)
     \<and> (n \<noteq> [] \<longrightarrow> count_of (count_gallery m g) n = count_of m n + of_bool (carries g n))"
  using count_tags_step [of m "[]" "g_tags g" n] by (simp add: count_gallery_def carries_def)

lemma tag_counts_run:
  "counts_ok m \<Longrightarrow> counts_ok (foldl count_gallery m gs)
     \<and> (n \<noteq> [] \<longrightarrow> count_of (foldl count_gallery m gs) n = count_of m n + int (length (filter (\<lambda>g. carries g n) gs)))"
proof (induction gs arbitrary: m)
  case (Cons g gs)
  then show ?case using count_gallery_step [OF Cons.prems, of g n] Cons.IH [of "count_gallery m g"] by auto
qed simp

lemma no_blank_tags: "[] \<notin> set (keys (tag_count_map gs))"
proof -
  have "[] \<notin> set (keys m) \<Longrightarrow> [] \<notin> set (keys (snd (foldl count_tag (seen, m) vs)))" for m seen vs
  proof (induction vs arbitrary: seen m)
    case (Cons v vs)
    obtain seen' m' where st: "count_tag (seen, m) v = (seen', m')" by (cases "count_tag (seen, m) v")
    then have "[] \<notin> set (keys m')"
      using Cons.prems by (auto simp: count_tag_def Let_def set_keys_update split: if_splits option.splits prod.splits
          simp del: set_map)
    then show ?case using Cons.IH by (simp add: st)
  qed simp
  then have "[] \<notin> set (keys m) \<Longrightarrow> [] \<notin> set (keys (foldl count_gallery m gs))" for m
    by (induction gs arbitrary: m) (simp_all add: count_gallery_def)
  from this [of "[]"] show ?thesis by (simp add: tag_count_map_def)
qed

context collation
begin

lemma js_comparator_by_folder_tag: "js_comparator (by_folder_tag loc)"
proof -
  have "signed_comparator (\<lambda>l r. of_bool (ft_favorite r) - (of_bool (ft_favorite l) :: int))"
    by (rule signed_comparator_down)
  then show ?thesis
    unfolding by_folder_tag_def
    by (intro signed_comparator.js_comparator_or signed_comparator_down js_comparator_text)
qed

lemma signed_recency: "signed_comparator (\<lambda>l r. loc (f r) (f l))"
  by unfold_locales (rule loc_total, erule (1) loc_trans [rotated], rule loc_sym)

lemma js_comparator_by_recency: "js_comparator (by_recency loc)"
  unfolding by_recency_def
  by (intro signed_comparator.js_comparator_or signed_recency signed_comparator.axioms(1) [OF signed_comparator_down])

end

section \<open>Matches of a discovery\<close>

lemma unique_galleries:
  "fst (foldl (\<lambda>st g. if g_id g \<in> set (fst st) then st else (set_add (g_id g) (fst st), snd st @ [g])) (seen, out) gs)
     = foldl (\<lambda>acc x. set_add x acc) seen (map g_id gs)
   \<and> (map g_id out = seen \<longrightarrow>
      map g_id (snd (foldl (\<lambda>st g. if g_id g \<in> set (fst st) then st else (set_add (g_id g) (fst st), snd st @ [g])) (seen, out) gs))
      = foldl (\<lambda>acc x. set_add x acc) seen (map g_id gs))"
  by (induction gs arbitrary: seen out) (auto simp: set_add_def)

lemma unique_ids: "map g_id (uniqueAutoFindGalleries gs) = set_from (map g_id gs)"
  using unique_galleries [of "[]" "[]" gs] by (simp add: uniqueAutoFindGalleries_def set_from_def)

definition match_key :: "favorite_match \<Rightarrow> string" where
  "match_key m = ''artist'' @ unit_separator # match_name (fm_namespace m) @ '':'' @ fm_value m"

definition match_ok :: "string \<times> favorite_match \<Rightarrow> bool" where
  "match_ok x \<longleftrightarrow>
     (\<exists>v. fst x = match_name (fm_namespace (snd x)) @ '':'' @ v \<and> fm_value (snd x) = spaces v \<and> (\<forall>c \<in> set v. \<not> is_space c))"

definition matches_ok :: "(string \<times> favorite_match) list \<Rightarrow> bool" where
  "matches_ok m \<longleftrightarrow> distinct (keys m) \<and> (\<forall>x \<in> set m. match_ok x)"

lemma matches_ok_add: "matches_ok m \<Longrightarrow> matches_ok (add_match normalized m c)"
proof -
  assume ok: "matches_ok m"
  let ?v = "normalizeTokenValue (snd c)"
  let ?x = "(match_name (fst c) @ '':'' @ ?v, \<lparr>fm_namespace = fst c, fm_value = spaces ?v\<rparr>)"
  have "match_ok ?x"
    unfolding match_ok_def using normalize_no_space by (intro exI [of _ ?v]) simp
  then have "\<forall>x \<in> set (AList.update (fst ?x) (snd ?x) m). match_ok x"
    using ok set_update_subset [of "fst ?x" "snd ?x" m] by (auto simp: matches_ok_def)
  then show ?thesis
    using ok by (simp add: add_match_def Let_def matches_ok_def)
qed

lemma matches_ok_run: "matches_ok m \<Longrightarrow> matches_ok (foldl (add_match nf) m cs)"
  by (induction cs arbitrary: m) (auto intro: matches_ok_add)

lemma spaces_inj: "\<forall>c \<in> set v. \<not> is_space c \<Longrightarrow> \<forall>c \<in> set w. \<not> is_space c \<Longrightarrow> spaces v = spaces w \<Longrightarrow> v = w"
proof (induction v arbitrary: w)
  case (Cons c v)
  have sp: "is_space (CHR '' '')" by code_simp
  obtain d w' where w: "w = d # w'" using Cons.prems(3) by (cases w) (simp_all add: spaces_def)
  have "c \<noteq> CHR '' ''" "d \<noteq> CHR '' ''" using Cons.prems(1,2) sp w by auto
  moreover have "(if c = CHR ''_'' then CHR '' '' else c) = (if d = CHR ''_'' then CHR '' '' else d)"
    "spaces v = spaces w'"
    using Cons.prems(3) by (simp_all add: w spaces_def)
  ultimately have "c = d" "v = w'"
    using Cons.IH [of w'] Cons.prems(1,2) w by (auto split: if_splits)
  then show ?case by (simp add: w)
qed (simp add: spaces_def)

lemma match_keys_distinct:
  assumes "matches_ok m"
  shows "distinct (map match_key (vals m))"
proof -
  have "inj_on (\<lambda>x. match_key (snd x)) (set m)"
  proof (rule inj_onI)
    fix x y
    assume x: "x \<in> set m" and y: "y \<in> set m" and e: "match_key (snd x) = match_key (snd y)"
    have "match_ok x" "match_ok y" using assms x y by (simp_all add: matches_ok_def)
    then obtain v w where v: "fst x = match_name (fm_namespace (snd x)) @ '':'' @ v" "fm_value (snd x) = spaces v"
      "\<forall>c \<in> set v. \<not> is_space c"
      and w: "fst y = match_name (fm_namespace (snd y)) @ '':'' @ w" "fm_value (snd y) = spaces w"
      "\<forall>c \<in> set w. \<not> is_space c" unfolding match_ok_def by blast
    have ns: "fm_namespace (snd x) = fm_namespace (snd y)"
      using e by (cases "fm_namespace (snd x)"; cases "fm_namespace (snd y)") (simp_all add: match_key_def)
    then have "spaces v = spaces w" using e v(2) w(2) by (simp add: match_key_def)
    then have "v = w" using v(3) w(3) spaces_inj by blast
    then have "fst x = fst y" using v(1) w(1) ns by simp
    moreover have "distinct (keys m)" using assms by (simp add: matches_ok_def)
    ultimately show "x = y" using x y by (auto simp: distinct_map dest: inj_onD)
  qed
  moreover have "distinct m" using assms by (simp add: matches_ok_def distinct_map)
  ultimately show ?thesis by (simp add: distinct_map comp_def)
qed

lemma distinct_matches: "distinct (map match_key (autoFindFavoriteMatches g favs rec))"
  unfolding autoFindFavoriteMatches_def by (intro match_keys_distinct matches_ok_run) (simp add: matches_ok_def)

lemma slot_key_match: "slot_key (match_slot g m) = match_key m"
  by (simp add: match_slot_def match_key_def)

lemma slot_gallery_match: "slot_gallery (match_slot g m) = g"
  by (simp add: match_slot_def slot_gallery_def)

lemma slots_of_gallery:
  "distinct (map match_key ms) \<Longrightarrow>
   map slot_gallery (filter (\<lambda>t. slot_key t = key) (map (match_slot g) ms)) = (if key \<in> match_key ` set ms then [g] else [])"
proof (induction ms)
  case (Cons a ms)
  show ?case
  proof (cases "match_key a = key")
    case True
    with Cons.prems have "key \<notin> match_key ` set ms" by auto
    with Cons True show ?thesis by (simp add: slot_key_match slot_gallery_match)
  next
    case False
    with Cons show ?thesis by (auto simp: slot_key_match)
  qed
qed simp

lemma mem_map: "y \<in> set (map f xs) \<Longrightarrow> \<exists>x \<in> set xs. y = f x"
  by auto

lemma filter_concat: "filter P (concat xss) = concat (map (filter P) xss)"
  by (induction xss) auto

lemma concat_if_single: "concat (map (\<lambda>x. if P x then [x] else []) xs) = filter P xs"
  by (induction xs) auto

definition matches_of :: "string list \<Rightarrow> (gallery_id \<times> string list) list \<Rightarrow> gallery \<Rightarrow> favorite_match list" where
  "matches_of favorites recorded g = autoFindFavoriteMatches g favorites (or_value (map_of recorded (g_id g)) [])"

lemma match_slots_filter:
  "map slot_gallery (filter (\<lambda>t. slot_key t = key) (match_slots favs rec gs))
   = filter (\<lambda>g. key \<in> match_key ` set (matches_of favs rec g)) (uniqueAutoFindGalleries gs)"
proof -
  have one: "map slot_gallery (filter (\<lambda>t. slot_key t = key) (map (match_slot g) (matches_of favs rec g)))
      = (if key \<in> match_key ` set (matches_of favs rec g) then [g] else [])" for g
    by (rule slots_of_gallery) (simp add: matches_of_def distinct_matches)
  show ?thesis
    unfolding match_slots_def filter_concat map_concat map_map comp_def matches_of_def [symmetric] one
    by (rule concat_if_single)
qed

lemma match_slots_keys:
  "set (map fst (match_slots favs rec gs)) = (\<Union>g \<in> set (uniqueAutoFindGalleries gs). match_key ` set (matches_of favs rec g))"
  unfolding match_slots_def map_concat map_map comp_def slot_key_match matches_of_def by simp

section \<open>Properties\<close>

text \<open>Folders lose nothing and repeat nothing. The folders of a list of galleries are a rearrangement of it,
  no two folders share a key, and each holds, in the order of the list, exactly the galleries with its
  day or artist.\<close>

theorem folders_partition:
  "mset (concat (map gg_items (groupGalleries loc gs k d))) = mset gs
   \<and> distinct (map gg_key (groupGalleries loc gs k d))
   \<and> list_all (\<lambda>grp. gg_items grp = filter (\<lambda>g. groupKey k (gallery_identity k d g) = gg_key grp) gs
                    \<and> gg_items grp \<noteq> []) (groupGalleries loc gs k d)"
proof -
  let ?f = "\<lambda>g. groupKey k (gallery_identity k d g)"
  let ?ts = "map (gallery_slot k d) gs"
  let ?m = "foldl push_item [] ?ts"
  let ?gs = "groupGalleries loc gs k d"
  have mset: "mset ?gs = mset (vals ?m)" by (simp add: groupGalleries_def)
  have items: "gg_items grp = filter (\<lambda>g. ?f g = gg_key grp) gs \<and> gg_items grp \<noteq> []" if "grp \<in> set ?gs" for grp
  proof -
    have "grp \<in> set (vals ?m)" using that by (simp add: groupGalleries_def)
    from group_of_Some [OF push_group [OF this]] show ?thesis unfolding slot_filter by blast
  qed
  have keys: "mset (map gg_key ?gs) = mset (keys ?m)"
    by (metis mset mset_map push_group_keys)
  then have dist: "distinct (map gg_key ?gs)"
    by (metis mset_eq_imp_distinct_iff push_distinct)
  have "set (map gg_key ?gs) = set (keys ?m)" using keys by (rule mset_eq_setD)
  also have "\<dots> = set (map ?f gs)" by (subst push_keys) (simp add: gallery_slot_def Let_def comp_def)
  finally have "mset (concat (map (\<lambda>key. filter (\<lambda>g. ?f g = key) gs) (map gg_key ?gs))) = mset gs"
    using dist by (intro mset_split_by_key) simp_all
  moreover have "map (\<lambda>key. filter (\<lambda>g. ?f g = key) gs) (map gg_key ?gs) = map gg_items ?gs"
    unfolding map_map comp_def by (rule map_cong [OF refl]) (drule items, elim conjE, erule sym)
  ultimately have parts: "mset (concat (map gg_items ?gs)) = mset gs" by (simp only:)
  have "list_all (\<lambda>grp. gg_items grp = filter (\<lambda>g. ?f g = gg_key grp) gs \<and> gg_items grp \<noteq> []) ?gs"
    unfolding list_all_iff by (intro ballI items)
  with parts dist show ?thesis by (intro conjI)
qed

text \<open>The cover of a folder is its newest download: no gallery of the folder is more recent, and among equally
  recent ones the cover has the largest identifier; only an empty folder has none.\<close>

theorem newest_download_is_cover:
  assumes "collation loc"
  shows "case latestDownloadedGallery loc gs of
      None \<Rightarrow> gs = []
    | Some c \<Rightarrow> c \<in> set gs \<and> list_all (\<lambda>g. loc (downloadRecency g) (downloadRecency c) \<le> 0
         \<and> (loc (downloadRecency g) (downloadRecency c) = 0 \<longrightarrow> g_id g \<le> g_id c)) gs"
proof (cases gs)
  case Nil
  then show ?thesis by (simp add: latestDownloadedGallery_def recentDownloadedGalleries_def js_at_def)
next
  case (Cons a as)
  let ?s = "js_sort (by_recency loc) gs"
  have "?s \<noteq> []" using Cons by (metis list.distinct(1) mset_js_sort mset_zero_iff)
  then have l: "latestDownloadedGallery loc gs = Some (hd ?s)"
    using Cons by (simp add: latestDownloadedGallery_def recentDownloadedGalleries_def js_at_def hd_conv_nth del: js_sort_simps)
  have "by_recency loc (hd ?s) g \<le> 0" if "g \<in> set gs" for g
    using js_comparator.js_sort_hd [OF collation.js_comparator_by_recency [OF assms] that] .
  then have "list_all (\<lambda>g. loc (downloadRecency g) (downloadRecency (hd ?s)) \<le> 0
         \<and> (loc (downloadRecency g) (downloadRecency (hd ?s)) = 0 \<longrightarrow> g_id g \<le> g_id (hd ?s))) gs"
    by (fastforce simp: list_all_iff by_recency_def js_or_def split: if_splits)
  moreover have "hd ?s \<in> set ?s" using \<open>?s \<noteq> []\<close> by (rule hd_in_set)
  then have "hd ?s \<in> set gs" by (simp only: set_js_sort)
  ultimately show ?thesis by (simp add: l)
qed

definition sample_dated :: "int \<Rightarrow> string \<Rightarrow> gallery" where
  "sample_dated i t = (sample_gallery i)\<lparr>g_download := Some ((sample_download ''e'' 1 Completed)\<lparr>d_createdAt := Some t\<rparr>)\<rparr>"

theorem newest_download_is_cover_witness:
  "map_option g_id (latestDownloadedGallery lex_cmp [sample_dated 1 ''2024'', sample_dated 2 ''2025'']) = Some 2
   \<and> lex_cmp (downloadRecency (sample_dated 1 ''2024'')) (downloadRecency (sample_dated 2 ''2025'')) \<le> 0"
proof -
  have l: "latestDownloadedGallery lex_cmp [sample_dated 1 ''2024'', sample_dated 2 ''2025''] = Some (sample_dated 2 ''2025'')"
    by (simp add: latestDownloadedGallery_def recentDownloadedGalleries_def by_recency_def js_or_def js_at_def
        sample_dated_def downloadRecency_def sample_download_def sample_gallery_def)
  show ?thesis
    using newest_download_is_cover [OF collation_lex_cmp, of "[sample_dated 1 ''2024'', sample_dated 2 ''2025'']"]
    by (simp add: l) (simp add: sample_dated_def sample_gallery_def)
qed

text \<open>The tags shown for an artist folder are counted once per gallery: the number shown with a tag is the number
  of galleries that carry it, up to case and surrounding spaces; the favourite mark is right; and
  favourites come before the rest, each in order of decreasing count.\<close>

theorem folder_tags_counted:
  assumes "collation loc"
  shows "list_all (\<lambda>t. ft_count t = int (length (filter (\<lambda>g. carries g (normal_tag (ft_value t))) gs))
           \<and> ft_favorite t = (normal_tag (ft_value t) \<in> normal_tag ` set favs)) (summarizeArtistFolderTags loc gs favs n)
    \<and> sorted_wrt (\<lambda>a b. (ft_favorite b \<longrightarrow> ft_favorite a) \<and> (ft_favorite a = ft_favorite b \<longrightarrow> ft_count b \<le> ft_count a))
        (summarizeArtistFolderTags loc gs favs n)"
proof -
  let ?m = "tag_count_map gs"
  let ?tags = "map (\<lambda>(n, w, k). \<lparr>ft_value = w, ft_count = k, ft_favorite = (n \<in> set (map normal_tag favs))\<rparr>) ?m"
  let ?s = "js_sort (by_folder_tag loc) ?tags"
  have run: "counts_ok ?m" "n \<noteq> [] \<Longrightarrow> count_of ?m n = int (length (filter (\<lambda>g. carries g n) gs))" for n
    using tag_counts_run [of "[]" gs n] by (simp_all add: tag_count_map_def counts_ok_def count_of_def)
  have tag: "ft_count t = int (length (filter (\<lambda>g. carries g (normal_tag (ft_value t))) gs))
      \<and> ft_favorite t = (normal_tag (ft_value t) \<in> normal_tag ` set favs)" if "t \<in> set ?tags" for t
  proof -
    note t_in = that
    obtain x where "x \<in> set ?m" and "t = (case x of (n, w, k) \<Rightarrow>
        \<lparr>ft_value = w, ft_count = k, ft_favorite = (n \<in> set (map normal_tag favs))\<rparr>)"
      using mem_map [OF t_in] by blast
    moreover obtain n w k where "x = (n, w, k)" by (rule prod_cases3)
    ultimately have x: "(n, w, k) \<in> set ?m"
      and t: "t = \<lparr>ft_value = w, ft_count = k, ft_favorite = (n \<in> set (map normal_tag favs))\<rparr>"
      by (simp_all only: prod.case)
    have "map_of ?m n = Some (w, k)" using run(1) x by (simp add: counts_ok_def)
    moreover from this have "n = normal_tag w" using run(1) unfolding counts_ok_def by blast
    moreover have "n \<noteq> []" using x no_blank_tags [of gs] by force
    ultimately show ?thesis using run(2) [of n] by (simp add: t count_of_def)
  qed
  have take: "summarizeArtistFolderTags loc gs favs n = take (nat n) ?s"
    by (simp add: summarizeArtistFolderTags_def)
  have "sorted_wrt (\<lambda>a b. by_folder_tag loc a b \<le> 0) ?s"
    by (rule js_comparator.sorted_js_sort [OF collation.js_comparator_by_folder_tag [OF assms]])
  then have "sorted_wrt (\<lambda>a b. (ft_favorite b \<longrightarrow> ft_favorite a) \<and> (ft_favorite a = ft_favorite b \<longrightarrow> ft_count b \<le> ft_count a)) ?s"
    by (rule sorted_wrt_mono_rel [rotated]) (auto simp: by_folder_tag_def js_or_def of_bool_def split: if_splits)
  moreover have "list_all (\<lambda>t. ft_count t = int (length (filter (\<lambda>g. carries g (normal_tag (ft_value t))) gs))
      \<and> ft_favorite t = (normal_tag (ft_value t) \<in> normal_tag ` set favs)) (take (nat n) ?s)"
    unfolding list_all_iff by (intro ballI tag) (drule in_set_takeD, simp only: set_js_sort)
  ultimately show ?thesis
    unfolding take by (intro conjI sorted_wrt_take)
qed

theorem folder_tags_counted_witness:
  "let gs = [(sample_gallery 1)\<lparr>g_tags := [''Big'', ''big '']\<rparr>, (sample_gallery 2)\<lparr>g_tags := [''x'', ''BIG'']\<rparr>]
   in map ft_count (summarizeArtistFolderTags lex_cmp gs [] 6) = [2, 1]
      \<and> sorted_wrt (\<lambda>a b. (ft_favorite b \<longrightarrow> ft_favorite a) \<and> (ft_favorite a = ft_favorite b \<longrightarrow> ft_count b \<le> ft_count a))
          (summarizeArtistFolderTags lex_cmp gs [] 6)"
proof -
  let ?gs = "[(sample_gallery 1)\<lparr>g_tags := [''Big'', ''big '']\<rparr>, (sample_gallery 2)\<lparr>g_tags := [''x'', ''BIG'']\<rparr>]"
  have "map ft_count (summarizeArtistFolderTags lex_cmp ?gs [] 6) = [2, 1]" by code_simp
  with folder_tags_counted [OF collation_lex_cmp, of ?gs "[]" 6] show ?thesis by simp
qed

text \<open>A discovery is filed under every favourite it matches and under no other: the folders have different keys,
  a folder holds exactly the galleries with a match of its key, each gallery once however often it was
  found, in the order of discovery.\<close>

theorem discovery_folders_exact:
  "distinct (map gg_key (groupAutoFindGalleries loc gs ByArtist d favs rec))
   \<and> list_all (\<lambda>grp. gg_items grp = filter (\<lambda>g. gg_key grp \<in> match_key ` set (matches_of favs rec g)) (uniqueAutoFindGalleries gs))
       (groupAutoFindGalleries loc gs ByArtist d favs rec)
   \<and> gg_key ` set (groupAutoFindGalleries loc gs ByArtist d favs rec)
     = (\<Union>g \<in> set (uniqueAutoFindGalleries gs). match_key ` set (matches_of favs rec g))
   \<and> map g_id (uniqueAutoFindGalleries gs) = set_from (map g_id gs)"
proof -
  let ?ts = "match_slots favs rec gs"
  let ?m = "foldl push_item [] ?ts"
  let ?gs = "groupAutoFindGalleries loc gs ByArtist d favs rec"
  have mset: "mset ?gs = mset (vals ?m)" by (simp add: groupAutoFindGalleries_def)
  then have keys: "mset (map gg_key ?gs) = mset (keys ?m)" by (metis mset_map push_group_keys)
  then have dist: "distinct (map gg_key ?gs)" by (metis mset_eq_imp_distinct_iff push_distinct)
  have "gg_items grp = filter (\<lambda>g. gg_key grp \<in> match_key ` set (matches_of favs rec g)) (uniqueAutoFindGalleries gs)"
    if "grp \<in> set ?gs" for grp
  proof -
    have "grp \<in> set (vals ?m)" using that mset_eq_setD [OF mset] by simp
    from group_of_Some [OF push_group [OF this]] show ?thesis by (simp only: match_slots_filter)
  qed
  moreover have "set (map gg_key ?gs) = set (map fst ?ts)"
    using mset_eq_setD [OF keys] push_keys [of ?ts] by simp
  then have "gg_key ` set ?gs = (\<Union>g \<in> set (uniqueAutoFindGalleries gs). match_key ` set (matches_of favs rec g))"
    unfolding match_slots_keys by (simp only: set_map)
  ultimately show ?thesis using dist by (simp add: list_all_iff unique_ids)
qed

end
