(* ===== verification/GallerySelectors.thy ===== *)
theory GallerySelectors
  imports GalleryGroups UiState
begin

text \<open>
  \<^verbatim>\<open>src/src/state/selectors.ts\<close>: which galleries a view shows and in which order. The local query
  language (tokens with an optional namespace and an optional minus, all of which must hold), the
  filters of the three views and their orders. The facts: nothing is invented or shown twice, a view
  shows only what belongs to it, and the order is the one chosen.
\<close>

section \<open>Local queries\<close>

definition gallery_haystack :: "gallery \<Rightarrow> string" where
  "gallery_haystack g = normalizeTokenValue (join '' ''
     ([show_int (g_id g), g_title g, g_subtitle g] @ participatingArtists g @ [or_value (g_group g) []]
      @ g_series g @ g_characters g @ g_tags g))"

definition any_includes :: "string \<Rightarrow> string list \<Rightarrow> bool" where
  "any_includes v xs \<longleftrightarrow> (\<exists>x \<in> set xs. str_includes v (normalizeTokenValue x))"

definition plain_tag_matches :: "string \<Rightarrow> string \<Rightarrow> bool" where
  "plain_tag_matches v tag =
     (let n = lower tag
      in \<not> starts_with ''female:'' n \<and> \<not> starts_with ''male:'' n
         \<and> str_includes v (normalizeTokenValue (strip_prefix ''tag:'' n)))"

definition gender_tag_matches :: "string \<Rightarrow> string \<Rightarrow> string \<Rightarrow> bool" where
  "gender_tag_matches ns v tag =
     (let n = lower tag
      in starts_with (ns @ '':'') n \<and> str_includes v (normalizeTokenValue (after_colon n)))"

text \<open>A token without its minus: \<open>None\<close> when its value is blank, so that it restricts nothing.\<close>

definition token_matches :: "gallery \<Rightarrow> string \<Rightarrow> bool option" where
  "token_matches g token =
     (case index_of colon token of
        Some (Suc i) \<Rightarrow>
          (let ns = lower (take (Suc i) token); v = normalizeTokenValue (drop (Suc i + 1) token)
           in if v = [] then None
              else Some (if ns = ''artist'' then any_includes v (participatingArtists g)
                else if ns = ''group'' then (case g_group g of Some (c # cs) \<Rightarrow> str_includes v (normalizeTokenValue (c # cs)) | _ \<Rightarrow> False)
                else if ns = ''series'' then any_includes v (g_series g)
                else if ns = ''character'' then any_includes v (g_characters g)
                else if ns = ''language'' then str_includes v (language_name (g_language g))
                else if ns = ''tag'' then \<exists>t \<in> set (g_tags g). plain_tag_matches v t
                else if ns = ''female'' \<or> ns = ''male'' then \<exists>t \<in> set (g_tags g). gender_tag_matches ns v t
                else str_includes (normalizeTokenValue token) (gallery_haystack g)))
      | _ \<Rightarrow> Some (str_includes (normalizeTokenValue token) (gallery_haystack g)))"

definition matchesSearchToken :: "gallery \<Rightarrow> string \<Rightarrow> bool" where
  "matchesSearchToken g rawToken =
     (let negative = starts_with ''-'' rawToken; token = (if negative then drop 1 rawToken else rawToken)
      in if token = [] then True
         else case token_matches g token of
           None \<Rightarrow> True
         | Some matched \<Rightarrow> if negative then \<not> matched else matched)"

text \<open>\<^verbatim>\<open>split(/\s+/)\<close>.\<close>

fun words :: "string \<Rightarrow> string \<Rightarrow> string list" where
  "words cur [] = (if cur = [] then [] else [cur])"
| "words cur (c # s) = (if is_space c then (if cur = [] then words [] s else cur # words [] s) else words (cur @ [c]) s)"

definition matchesQuery :: "gallery \<Rightarrow> string \<Rightarrow> bool" where
  "matchesQuery g query \<longleftrightarrow> (\<forall>t \<in> set (words [] (trim query)). matchesSearchToken g t)"

section \<open>Views\<close>

definition matchesDownloadFilter :: "gallery \<Rightarrow> ui_state \<Rightarrow> bool" where
  "matchesDownloadFilter g st =
     (case g_download g of
        None \<Rightarrow> False
      | Some d \<Rightarrow>
          (case ui_downloadsFilter st of
             FilterAll \<Rightarrow> True
           | FilterActive \<Rightarrow> d_state d \<in> {Queued, ResolvingMetadata, Downloading, Hashing, Verifying, RetryWait}
           | FilterReview \<Rightarrow> d_state d = ReviewRequired
           | FilterFailed \<Rightarrow> d_state d \<in> {Failed, Interrupted}
           | FilterComplete \<Rightarrow> d_state d = Completed))"

definition isPendingAutoFindCandidate :: "gallery \<Rightarrow> bool" where
  "isPendingAutoFindCandidate g \<longleftrightarrow> g_download g = None"

definition direct_id :: "string \<Rightarrow> bool" where
  "direct_id s \<longleftrightarrow> length (trim s) = 7 \<and> list_all is_digit (trim s)"

definition language_visible :: "ui_state \<Rightarrow> gallery \<Rightarrow> bool" where
  "language_visible st g \<longleftrightarrow>
     (ui_view st = Explore \<and> direct_id (su_committed (ui_search st (ui_view st))))
     \<or> g_language g \<in> set (su_languages (ui_search st (ui_view st)))
     \<or> (ui_view st = Downloads \<and> g_languageKnown g = Some False)"

definition view_admits :: "ui_state \<Rightarrow> gallery \<Rightarrow> bool" where
  "view_admits st g =
     (case ui_view st of
        AutoFind \<Rightarrow> g_favorite g = Some True \<and> isPendingAutoFindCandidate g
      | Downloads \<Rightarrow> map_option d_state (g_download g) \<noteq> Some Quarantined \<and> matchesDownloadFilter g st
      | Explore \<Rightarrow> True)"

text \<open>
  \<^verbatim>\<open>(id * 2654435761) >>> 0\<close>: the product is a double, so it is rounded to 53 significant bits (ties
  to even) before it is reduced to 32 bits.
\<close>

function excess_bits :: "int \<Rightarrow> nat" where
  "excess_bits n = (if n < 2 ^ 53 then 0 else Suc (excess_bits (n div 2)))"
  by auto
termination
  by (relation "measure nat") auto

declare excess_bits.simps [simp del]

definition round_double :: "int \<Rightarrow> int" where
  "round_double n =
     (let u = 2 ^ excess_bits n; q = n div u; r = n mod u
      in if 2 * r > u \<or> (2 * r = u \<and> odd q) then (q + 1) * u else q * u)"

definition random_key :: "gallery \<Rightarrow> int" where
  "random_key g = to_uint32 (sgn (g_id g) * round_double (\<bar>g_id g\<bar> * 2654435761))"

definition by_score :: "gallery \<Rightarrow> gallery \<Rightarrow> int" where
  "by_score l r = (if g_score r < g_score l then -1 else if g_score l < g_score r then 1 else 0)"

definition by_published :: "(string \<Rightarrow> string \<Rightarrow> int) \<Rightarrow> gallery \<Rightarrow> gallery \<Rightarrow> int" where
  "by_published loc = js_or (\<lambda>l r. loc (g_publishedAt r) (g_publishedAt l)) (\<lambda>l r. g_id r - g_id l)"

type_synonym popularity_ranks = "popularity_period \<Rightarrow> (gallery_id \<times> int option) list option"

definition ranks_for :: "popularity_ranks \<Rightarrow> download_sort option \<Rightarrow> (gallery_id \<times> int option) list" where
  "ranks_for popularity sort_by =
     (case sort_by of Some (SortPopular p) \<Rightarrow> or_value (popularity p) [] | _ \<Rightarrow> [])"

definition rank_of :: "(gallery_id \<times> int option) list \<Rightarrow> gallery \<Rightarrow> int" where
  "rank_of ranks g = or_value (Option.bind (map_of ranks (g_id g)) id) max_safe_integer"

definition by_download ::
  "(string \<Rightarrow> string \<Rightarrow> int) \<Rightarrow> (gallery_id \<times> int option) list \<Rightarrow> gallery \<Rightarrow> gallery \<Rightarrow> int" where
  "by_download loc ranks = js_or (\<lambda>l r. rank_of ranks l - rank_of ranks r) (by_recency loc)"

definition view_order ::
  "(string \<Rightarrow> string \<Rightarrow> int) \<Rightarrow> ui_state \<Rightarrow> popularity_ranks \<Rightarrow> gallery \<Rightarrow> gallery \<Rightarrow> int" where
  "view_order loc st popularity =
     (case ui_view st of
        Explore \<Rightarrow>
          (case ui_exploreSort st of
             Recent \<Rightarrow> by_published loc
           | RandomOrder \<Rightarrow> (\<lambda>l r. random_key l - random_key r)
           | _ \<Rightarrow> by_score)
      | Downloads \<Rightarrow> by_download loc (ranks_for popularity (ui_downloadsSort st))
      | AutoFind \<Rightarrow> (\<lambda>l r. 0))"

definition visibleGalleries ::
  "(string \<Rightarrow> string \<Rightarrow> int) \<Rightarrow> ui_state \<Rightarrow> gallery list \<Rightarrow> popularity_ranks \<Rightarrow> gallery list" where
  "visibleGalleries loc st galleries popularity =
     (let items = filter (language_visible st) galleries;
          admitted = filter (view_admits st) items;
          matched = filter (\<lambda>g. matchesQuery g (su_committed (ui_search st (ui_view st)))) admitted
      in if ui_view st = AutoFind then matched else js_sort (view_order loc st popularity) matched)"

definition withGalleryPatch ::
  "(gallery_id \<times> gallery) list \<Rightarrow> gallery_id \<Rightarrow> (gallery \<Rightarrow> gallery) \<Rightarrow> (gallery_id \<times> gallery) list" where
  "withGalleryPatch items i patch =
     (case map_of items i of None \<Rightarrow> items | Some g \<Rightarrow> AList.update i (patch g) items)"

section \<open>Orders\<close>

lemma by_score_le: "by_score l r \<le> 0 \<longleftrightarrow> g_score r \<le> g_score l"
  by (simp add: by_score_def not_less)

lemma js_comparator_by_score: "js_comparator by_score"
proof
  show "by_score x y \<le> 0 \<or> by_score y x \<le> 0" for x y
    unfolding by_score_le by (rule linear)
  show "by_score x y \<le> 0 \<Longrightarrow> by_score y z \<le> 0 \<Longrightarrow> by_score x z \<le> 0" for x y z
    unfolding by_score_le by (erule (1) order_trans [rotated])
qed

context collation
begin

lemma js_comparator_by_published: "js_comparator (by_published loc)"
  unfolding by_published_def
  by (intro signed_comparator.js_comparator_or signed_recency signed_comparator.axioms(1) [OF signed_comparator_down])

lemma js_comparator_by_download: "js_comparator (by_download loc ranks)"
  unfolding by_download_def
  by (intro signed_comparator.js_comparator_or signed_comparator_up js_comparator_by_recency)

lemma js_comparator_view_order: "js_comparator (view_order loc st popularity)"
proof -
  have "js_comparator (\<lambda>l r. random_key l - random_key r)" "js_comparator (\<lambda>l r :: gallery. 0)"
    by (unfold_locales, auto)
  then show ?thesis
    using js_comparator_by_score js_comparator_by_published js_comparator_by_download
    by (auto simp: view_order_def split: view_id.split search_sort.split)
qed

end

section \<open>Words\<close>

lemma words_append_space:
  "is_space c \<Longrightarrow> words cur (s @ c # t) = words cur s @ words [] t"
  by (induction cur s rule: words.induct) auto

lemma words_trim_start: "words [] (dropWhile is_space s) = words [] s"
  by (induction s) auto

lemma words_snoc_space: "is_space c \<Longrightarrow> words cur (s @ [c]) = words cur s"
  using words_append_space [of c cur s "[]"] by simp

lemma words_trim_end: "words cur (rev (dropWhile is_space (rev s))) = words cur s"
proof (induction s rule: rev_induct)
  case (snoc c s)
  then show ?case by (simp add: words_snoc_space)
qed simp

lemma words_trim: "words [] (trim s) = words [] s"
  by (simp add: trim_def words_trim_end words_trim_start)

lemma matchesQuery_words: "matchesQuery g q \<longleftrightarrow> (\<forall>t \<in> set (words [] q). matchesSearchToken g t)"
  by (simp add: matchesQuery_def words_trim)

section \<open>Properties\<close>

text \<open>A view shows exactly the galleries that pass its language, its own rule and its query, each as often as it
  was given, in the chosen order; the Downloads view shows only galleries with a download that is not
  quarantined, Auto Find only favourites that are not downloaded yet.\<close>

theorem visible_galleries_exact:
  assumes "collation loc"
  shows "mset (visibleGalleries loc st gs pop)
      = mset (filter (\<lambda>g. language_visible st g \<and> view_admits st g
                        \<and> matchesQuery g (su_committed (ui_search st (ui_view st)))) gs)
    \<and> sorted_wrt (\<lambda>a b. view_order loc st pop a b \<le> 0) (visibleGalleries loc st gs pop)
    \<and> list_all (\<lambda>g. (ui_view st = Downloads \<longrightarrow> (\<exists>d. g_download g = Some d \<and> d_state d \<noteq> Quarantined))
                  \<and> (ui_view st = AutoFind \<longrightarrow> g_favorite g = Some True \<and> g_download g = None))
        (visibleGalleries loc st gs pop)"
proof -
  let ?P = "\<lambda>g. language_visible st g \<and> view_admits st g \<and> matchesQuery g (su_committed (ui_search st (ui_view st)))"
  have f: "filter (\<lambda>g. matchesQuery g (su_committed (ui_search st (ui_view st))))
      (filter (view_admits st) (filter (language_visible st) gs)) = filter ?P gs"
    by (simp add: conj_ac)
  have set: "set (visibleGalleries loc st gs pop) = set (filter ?P gs)"
    unfolding visibleGalleries_def Let_def f by simp
  have "mset (visibleGalleries loc st gs pop) = mset (filter ?P gs)"
    unfolding visibleGalleries_def Let_def f by simp
  moreover have "sorted_wrt (\<lambda>a b. view_order loc st pop a b \<le> 0) (visibleGalleries loc st gs pop)"
  proof (cases "ui_view st = AutoFind")
    case True
    have "sorted_wrt (\<lambda>a b. True) (visibleGalleries loc st gs pop)" by (simp add: sorted_wrt_iff_nth_less)
    then show ?thesis using True by (simp add: view_order_def)
  next
    case False
    then show ?thesis
      using js_comparator.sorted_js_sort [OF collation.js_comparator_view_order [OF assms]]
      by (simp add: visibleGalleries_def Let_def)
  qed
  moreover have "(ui_view st = Downloads \<longrightarrow> (\<exists>d. g_download g = Some d \<and> d_state d \<noteq> Quarantined))
      \<and> (ui_view st = AutoFind \<longrightarrow> g_favorite g = Some True \<and> g_download g = None)" if "view_admits st g" for g
    using that by (cases "g_download g") (auto simp: view_admits_def matchesDownloadFilter_def isPendingAutoFindCandidate_def)
  then have "list_all (\<lambda>g. (ui_view st = Downloads \<longrightarrow> (\<exists>d. g_download g = Some d \<and> d_state d \<noteq> Quarantined))
      \<and> (ui_view st = AutoFind \<longrightarrow> g_favorite g = Some True \<and> g_download g = None)) (visibleGalleries loc st gs pop)"
    unfolding list_all_iff set by simp
  ultimately show ?thesis by blast
qed

theorem visible_galleries_exact_witness:
  "let st = initialUiState\<lparr>ui_view := Downloads\<rparr>; gs = [sample_gallery 1, sample_dated 2 ''2025'']
   in list_all (\<lambda>g. \<exists>d. g_download g = Some d \<and> d_state d \<noteq> Quarantined) (visibleGalleries lex_cmp st gs (\<lambda>_. None))"
  using visible_galleries_exact [OF collation_lex_cmp, of "initialUiState\<lparr>ui_view := Downloads\<rparr>"
      "[sample_gallery 1, sample_dated 2 ''2025'']" "\<lambda>_. None"]
  by simp

text \<open>Queries combine as conjunctions: two queries joined by a space match what both match, whatever spaces surround
  them, and for a token with a value the negated token matches exactly the other galleries.\<close>

theorem query_conjunction:
  "matchesQuery g (q @ '' '' @ r) = (matchesQuery g q \<and> matchesQuery g r)
   \<and> (token_matches g t = None \<or> t = [] \<or> starts_with ''-'' t
      \<or> matchesSearchToken g (''-'' @ t) = (\<not> matchesSearchToken g t))"
proof -
  have "is_space (CHR '' '')" by code_simp
  then have "matchesQuery g (q @ '' '' @ r) = (matchesQuery g q \<and> matchesQuery g r)"
    using words_append_space [of "CHR '' ''" "[]" q r] by (auto simp: matchesQuery_words)
  moreover have "matchesSearchToken g (''-'' @ t) = (\<not> matchesSearchToken g t)"
    if "token_matches g t \<noteq> None" "t \<noteq> []" "\<not> starts_with ''-'' t"
    using that by (auto simp: matchesSearchToken_def Let_def starts_with_def)
  ultimately show ?thesis by blast
qed

end
