(* ===== verification/GalleryLayout.thy ===== *)
theory GalleryLayout
  imports CoreTypes
begin

text \<open>
  \<^verbatim>\<open>src/src/state/autoFindPagination.ts\<close>, \<^verbatim>\<open>src/src/layout/pageSizeAlignment.ts\<close>,
  \<^verbatim>\<open>src/src/layout/galleryColumns.ts\<close> and \<^verbatim>\<open>src/src/layout/galleryPreviewPresets.ts\<close>: cutting lists
  into pages, fitting pages to rows, rows to the window and card sizes to a fixed list of presets. The
  facts: the pages of a list are exactly the list, an aligned page is made of full rows within the
  limit, and every width has a preset that normalising again keeps.
\<close>

section \<open>Pages\<close>

definition positive_integer :: "js_num \<Rightarrow> int \<Rightarrow> int" where
  "positive_integer v fallback = (case v of Num r \<Rightarrow> if 1 \<le> r then floor r else fallback | _ \<Rightarrow> fallback)"

record 'a page_slice =
  ps_items :: "'a list"
  ps_page :: int
  ps_pageSize :: int
  ps_totalItems :: int
  ps_totalPages :: int
  ps_startIndex :: int

text \<open>\<^verbatim>\<open>Math.ceil(a / b)\<close> for positive integers.\<close>

definition ceil_div :: "int \<Rightarrow> int \<Rightarrow> int" where
  "ceil_div a b = - ((- a) div b)"

definition paginateGalleryItems :: "'a list \<Rightarrow> js_num \<Rightarrow> js_num \<Rightarrow> 'a page_slice" where
  "paginateGalleryItems items requestedPage requestedPageSize =
     (let pageSize = positive_integer requestedPageSize 1;
          totalItems = int (length items);
          totalPages = max 1 (ceil_div totalItems pageSize);
          page = min totalPages (positive_integer requestedPage 1);
          startIndex = (page - 1) * pageSize
      in \<lparr>ps_items = slice (nat startIndex) (nat (startIndex + pageSize)) items, ps_page = page,
          ps_pageSize = pageSize, ps_totalItems = totalItems, ps_totalPages = totalPages,
          ps_startIndex = startIndex\<rparr>)"

section \<open>Rows\<close>

definition positive_size :: "js_num \<Rightarrow> int \<Rightarrow> int" where
  "positive_size v fallback = (case v of Num r \<Rightarrow> if 1 \<le> r then max 1 (rat_trunc r) else fallback | _ \<Rightarrow> fallback)"

definition alignPageSizeToColumns :: "js_num \<Rightarrow> js_num \<Rightarrow> js_num \<Rightarrow> int" where
  "alignPageSizeToColumns configuredSize columns maximumSize =
     (let maximum = positive_size maximumSize 1;
          safeColumns = min maximum (positive_size columns 1);
          target = min maximum (positive_size configuredSize safeColumns);
          roundedUp = ceil_div target safeColumns * safeColumns
      in if roundedUp \<le> maximum then roundedUp
         else max safeColumns (maximum div safeColumns * safeColumns))"

definition resolveGalleryColumns :: "rat \<Rightarrow> rat \<Rightarrow> rat \<Rightarrow> int" where
  "resolveGalleryColumns availableWidth maximumColumns previewWidth =
     (let safeMaximum = min 4 (max 1 (rat_trunc maximumColumns));
          minimumCardWidth = max 460 (rat_trunc previewWidth + 260);
          fittingColumns = floor ((max 0 availableWidth + 12) / (of_int minimumCardWidth + 12))
      in min safeMaximum (max 1 fittingColumns))"

definition resolveCompactGalleryColumns :: "rat \<Rightarrow> rat \<Rightarrow> int" where
  "resolveCompactGalleryColumns availableWidth previewWidth =
     (let safePreviewWidth = max 1 (rat_trunc previewWidth);
          fittingColumns = floor ((max 0 availableWidth + 12) / (of_int safePreviewWidth + 12))
      in min 64 (max 1 fittingColumns))"

section \<open>Presets\<close>

record preview_preset =
  pr_key :: string
  pr_width :: int
  pr_legacyMax :: "int option"
  pr_maxTagRows :: int
  pr_titlePx :: rat
  pr_bodyPx :: rat
  pr_tagPx :: rat
  pr_footerPx :: rat
  pr_titleLinePx :: rat
  pr_bodyLinePx :: rat
  pr_tagLinePx :: rat
  pr_footerLinePx :: rat
  pr_chipHeightPx :: int
  pr_paddingPx :: int
  pr_gapPx :: int

text \<open>A row of the table: the four font sizes and the four line heights as one list.\<close>

definition preset :: "string \<Rightarrow> int \<Rightarrow> int option \<Rightarrow> int \<Rightarrow> rat list \<Rightarrow> int \<Rightarrow> int \<Rightarrow> int \<Rightarrow> preview_preset" where
  "preset key w legacy rows px chip padding gap =
     \<lparr>pr_key = key, pr_width = w, pr_legacyMax = legacy, pr_maxTagRows = rows,
      pr_titlePx = px ! 0, pr_bodyPx = px ! 1, pr_tagPx = px ! 2, pr_footerPx = px ! 3,
      pr_titleLinePx = px ! 4, pr_bodyLinePx = px ! 5, pr_tagLinePx = px ! 6, pr_footerLinePx = px ! 7,
      pr_chipHeightPx = chip, pr_paddingPx = padding, pr_gapPx = gap\<rparr>"

definition GALLERY_PREVIEW_PRESETS :: "preview_preset list" where
  "GALLERY_PREVIEW_PRESETS =
     [preset ''compact'' 160 (Some 175) 2 [14, 11, 11, 21 / 2, 18, 15, 15, 15] 22 9 3,
      preset ''small'' 190 (Some 205) 2 [15, 23 / 2, 11, 11, 19, 16, 15, 15] 22 10 4,
      preset ''standard'' 220 (Some 235) 3 [16, 12, 12, 12, 20, 16, 16, 16] 24 12 4,
      preset ''comfortable'' 250 (Some 265) 4 [17, 25 / 2, 25 / 2, 12, 21, 17, 17, 16] 25 13 5,
      preset ''large'' 280 (Some 305) 5 [18, 13, 13, 25 / 2, 22, 18, 18, 17] 26 14 5,
      preset ''xlarge'' 320 (Some 340) 6 [19, 14, 14, 13, 24, 19, 19, 18] 28 15 6,
      preset ''maximum'' 360 None 7 [20, 15, 15, 14, 25, 20, 20, 19] 30 16 6]"

definition normalizeGalleryPreviewWidth :: "js_num \<Rightarrow> int" where
  "normalizeGalleryPreviewWidth v =
     (let finite = (case v of Num r \<Rightarrow> r | _ \<Rightarrow> 220)
      in case find (\<lambda>p. case pr_legacyMax p of Some m \<Rightarrow> finite \<le> of_int m | None \<Rightarrow> False) GALLERY_PREVIEW_PRESETS of
           Some p \<Rightarrow> pr_width p
         | None \<Rightarrow> pr_width (last GALLERY_PREVIEW_PRESETS))"

definition galleryPreviewPreset :: "js_num \<Rightarrow> preview_preset" where
  "galleryPreviewPreset v =
     or_value (find (\<lambda>p. pr_width p = normalizeGalleryPreviewWidth v) GALLERY_PREVIEW_PRESETS)
       (GALLERY_PREVIEW_PRESETS ! 2)"

definition galleryPreviewPresetIndex :: "js_num \<Rightarrow> nat" where
  "galleryPreviewPresetIndex v =
     or_value (find_index (\<lambda>p. pr_width p = normalizeGalleryPreviewWidth v) GALLERY_PREVIEW_PRESETS) 0"

section \<open>Facts about pages\<close>

lemma positive_integer_ge: "1 \<le> fallback \<Longrightarrow> 1 \<le> positive_integer v fallback"
  by (auto simp: positive_integer_def split: js_num.split)

lemma positive_size_ge: "1 \<le> fallback \<Longrightarrow> 1 \<le> positive_size v fallback"
  by (auto simp: positive_size_def split: js_num.split)

lemma ceil_div_bounds:
  assumes "0 < b"
  shows "a \<le> ceil_div a b * b" and "ceil_div a b * b < a + b"
proof -
  define r where "r = (- a) mod b"
  have e: "- a = b * ((- a) div b) + r" by (simp add: r_def)
  have "0 \<le> r" "r < b" using assms by (simp_all add: r_def)
  moreover have "ceil_div a b * b = a + r"
    using e by (simp only: ceil_div_def mult_minus_left mult.commute [of "(- a) div b" b])
  ultimately show "a \<le> ceil_div a b * b" and "ceil_div a b * b < a + b"
    by simp_all
qed

lemma ceil_div_pos: "0 < b \<Longrightarrow> 1 \<le> a \<Longrightarrow> 1 \<le> ceil_div a b"
  using ceil_div_bounds(1) [of b a] by (smt (verit) mult_nonpos_nonneg)

text \<open>Consecutive slices of one size join to a prefix.\<close>

lemma concat_slices: "concat (map (\<lambda>p. slice (p * n) (p * n + n) xs) [0..<k]) = take (k * n) xs"
proof (induction k)
  case (Suc k)
  have "take (k * n) xs @ slice (k * n) (k * n + n) xs = take (k * n + n) xs"
    by (simp add: slice_def take_add)
  with Suc show ?case by (simp add: add.commute)
qed simp

lemma paginate_page:
  assumes "1 \<le> p" and "p \<le> ps_totalPages (paginateGalleryItems items (Num (of_int p)) (Num (of_int n)))" and "1 \<le> n"
  shows "ps_items (paginateGalleryItems items (Num (of_int p)) (Num (of_int n)))
       = slice ((nat p - 1) * nat n) ((nat p - 1) * nat n + nat n) items"
proof -
  have "positive_integer (Num (of_int n)) 1 = n" "positive_integer (Num (of_int p)) 1 = p"
    using assms(1,3) by (simp_all add: positive_integer_def)
  moreover have "nat ((p - 1) * n) = (nat p - 1) * nat n"
    using assms(1,3) by (simp add: nat_mult_distrib nat_diff_distrib)
  moreover have "nat ((p - 1) * n + n) = (nat p - 1) * nat n + nat n"
    using assms(1,3) by (simp add: nat_add_distrib nat_mult_distrib nat_diff_distrib)
  ultimately show ?thesis
    using assms(2) by (simp add: paginateGalleryItems_def Let_def)
qed

lemma presets_facts:
  "\<forall>p \<in> set GALLERY_PREVIEW_PRESETS. normalizeGalleryPreviewWidth (Num (of_int (pr_width p))) = pr_width p"
  "distinct (map pr_width GALLERY_PREVIEW_PRESETS)"
  "sorted (map pr_width GALLERY_PREVIEW_PRESETS)"
  "GALLERY_PREVIEW_PRESETS \<noteq> []"
  by (code_simp)+

lemma normalized_width: "\<exists>p \<in> set GALLERY_PREVIEW_PRESETS. normalizeGalleryPreviewWidth v = pr_width p"
proof -
  have "last GALLERY_PREVIEW_PRESETS \<in> set GALLERY_PREVIEW_PRESETS" using presets_facts(4) by (rule last_in_set)
  then show ?thesis
    unfolding normalizeGalleryPreviewWidth_def Let_def
    by (auto split: option.splits dest: find_Some_iff [THEN iffD1] intro: nth_mem)
qed

section \<open>Properties\<close>

text \<open>Pages are the list: with any positive page size, the pages from the first to the last, joined, are the items in
  order, none missing and none repeated, and no page is longer than the size.\<close>

theorem pages_are_the_list:
  assumes "1 \<le> n"
  shows "concat (map (\<lambda>p. ps_items (paginateGalleryItems items (Num (of_int p)) (Num (of_int n))))
           [1..ps_totalPages (paginateGalleryItems items (Num 1) (Num (of_int n)))]) = items
    \<and> int (length (ps_items (paginateGalleryItems items v (Num (of_int n))))) \<le> n"
proof -
  let ?t = "max 1 (ceil_div (int (length items)) n)"
  have n: "positive_integer (Num (of_int n)) 1 = n" using assms by (simp add: positive_integer_def)
  have t: "ps_totalPages (paginateGalleryItems items w (Num (of_int n))) = ?t" for w
    by (simp add: paginateGalleryItems_def Let_def n)
  have "[1..?t] = map (\<lambda>k. int k + 1) [0..<nat ?t]"
    by (rule nth_equalityI) (auto simp: nth_append)
  then have "concat (map (\<lambda>p. ps_items (paginateGalleryItems items (Num (of_int p)) (Num (of_int n)))) [1..?t])
      = concat (map (\<lambda>k. ps_items (paginateGalleryItems items (Num (of_int (int k + 1))) (Num (of_int n)))) [0..<nat ?t])"
    by (simp only: map_map comp_def)
  also have "map (\<lambda>k. ps_items (paginateGalleryItems items (Num (of_int (int k + 1))) (Num (of_int n)))) [0..<nat ?t]
      = map (\<lambda>k. slice (k * nat n) (k * nat n + nat n) items) [0..<nat ?t]"
  proof (rule map_cong [OF refl])
    fix k
    assume "k \<in> set [0..<nat ?t]"
    then have "int k + 1 \<le> ?t" by auto
    then show "ps_items (paginateGalleryItems items (Num (of_int (int k + 1))) (Num (of_int n)))
        = slice (k * nat n) (k * nat n + nat n) items"
      using paginate_page [of "int k + 1" items n] assms t by (simp add: nat_add_distrib)
  qed
  also have "concat (map (\<lambda>k. slice (k * nat n) (k * nat n + nat n) items) [0..<nat ?t]) = take (nat ?t * nat n) items"
    by (rule concat_slices)
  also have "int (length items) \<le> ?t * n"
    using ceil_div_bounds(1) [of n "int (length items)"] assms
    by (smt (verit) mult_right_mono)
  then have "length items \<le> nat ?t * nat n"
    using assms by (simp add: nat_mult_distrib [symmetric] le_nat_iff)
  then have "take (nat ?t * nat n) items = items" by simp
  finally have "concat (map (\<lambda>p. ps_items (paginateGalleryItems items (Num (of_int p)) (Num (of_int n)))) [1..?t]) = items" .
  moreover have "int (length (slice (nat q) (nat (q + n)) items)) \<le> n" if "0 \<le> q" for q
    using assms that by (simp add: length_slice nat_add_distrib)
  then have "int (length (ps_items (paginateGalleryItems items v (Num (of_int n))))) \<le> n"
    using positive_integer_ge [of 1 v] assms by (simp add: paginateGalleryItems_def Let_def n)
  moreover have "ps_totalPages (paginateGalleryItems items (Num 1) (Num (of_int n))) = ?t" by (rule t)
  ultimately show ?thesis by simp
qed

theorem pages_are_the_list_witness:
  "concat (map (\<lambda>p. ps_items (paginateGalleryItems ''abcde'' (Num (of_int p)) (Num (of_int 2))))
     [1..ps_totalPages (paginateGalleryItems ''abcde'' (Num 1) (Num (of_int 2)))]) = ''abcde''"
  using pages_are_the_list [of 2 "''abcde''"] by simp

text \<open>A page of results fills its rows: the aligned size is a positive multiple of the columns in use, never above the
  maximum, and never below the configured size unless the next full row would exceed the maximum.\<close>

theorem aligned_page_rectangular:
  fixes size columns maximum :: js_num
  defines "m \<equiv> positive_size maximum 1"
  defines "c \<equiv> min m (positive_size columns 1)"
  shows "c dvd alignPageSizeToColumns size columns maximum
    \<and> 1 \<le> alignPageSizeToColumns size columns maximum \<and> alignPageSizeToColumns size columns maximum \<le> m
    \<and> (min m (positive_size size c) \<le> alignPageSizeToColumns size columns maximum
       \<or> m < alignPageSizeToColumns size columns maximum + c)"
proof -
  have c: "1 \<le> c" "c \<le> m" using positive_size_ge [of 1] by (simp_all add: c_def m_def)
  let ?t = "min m (positive_size size c)"
  have t: "1 \<le> ?t" using positive_size_ge [of c size] c by simp
  let ?up = "ceil_div ?t c * c"
  let ?down = "m div c * c"
  have up: "?t \<le> ?up" using ceil_div_bounds(1) [of c ?t] c by simp
  have q: "1 \<le> m div c" using c by (simp add: pos_imp_zdiv_pos_iff int_one_le_iff_zero_less)
  then have "c * 1 \<le> c * (m div c)" using c by (intro mult_left_mono) simp_all
  moreover define r where "r = m mod c"
  have "m = ?down + r" "0 \<le> r" "r < c" using c by (simp_all add: r_def)
  ultimately have down: "c \<le> ?down" "?down \<le> m" "m < ?down + c"
    by (simp_all add: mult.commute)
  have a: "alignPageSizeToColumns size columns maximum = (if ?up \<le> m then ?up else max c ?down)"
    by (simp add: alignPageSizeToColumns_def Let_def m_def c_def)
  have up1: "1 \<le> ?up" using up t by (rule order_trans [rotated])
  show ?thesis
  proof (cases "?up \<le> m")
    case True
    then have "alignPageSizeToColumns size columns maximum = ?up" by (simp only: a if_True)
    with True up up1 show ?thesis by (simp only: dvd_triv_right simp_thms)
  next
    case False
    then have "alignPageSizeToColumns size columns maximum = ?down" using down(1) by (simp only: a if_False max_absorb2)
    with down c show ?thesis by (simp only: dvd_triv_right simp_thms)
  qed
qed

text \<open>Every preview width has a preset: normalising gives the width of one of the presets, normalising again keeps it,
  and the index points at the preset that is used.\<close>

theorem preview_width_normal:
  "normalizeGalleryPreviewWidth (Num (of_int (normalizeGalleryPreviewWidth v))) = normalizeGalleryPreviewWidth v
   \<and> pr_width (galleryPreviewPreset v) = normalizeGalleryPreviewWidth v
   \<and> galleryPreviewPresetIndex v < length GALLERY_PREVIEW_PRESETS
   \<and> GALLERY_PREVIEW_PRESETS ! galleryPreviewPresetIndex v = galleryPreviewPreset v"
proof -
  obtain p where p: "p \<in> set GALLERY_PREVIEW_PRESETS" "normalizeGalleryPreviewWidth v = pr_width p"
    using normalized_width by blast
  obtain i where i: "find_index (\<lambda>q. pr_width q = pr_width p) GALLERY_PREVIEW_PRESETS = Some i"
    using p(1) find_index_None [of "\<lambda>q. pr_width q = pr_width p"] by (metis not_None_eq)
  note fi = find_index_Some [OF i]
  have "find (\<lambda>q. pr_width q = pr_width p) GALLERY_PREVIEW_PRESETS = Some (GALLERY_PREVIEW_PRESETS ! i)"
    using fi by (subst find_Some_iff) blast
  then show ?thesis
    using p presets_facts(1) fi by (simp add: galleryPreviewPreset_def galleryPreviewPresetIndex_def i)
qed

end
