(* ===== verification/DownloadCancellation.thy ===== *)
theory DownloadCancellation
  imports CoreTypes
begin

text \<open>
  \<^verbatim>\<open>src/src/state/downloadCancellation.ts\<close>: cancelling any number of downloads through a backend
  command that takes at most 200 entries and either answers for all of them or rejects them all. The
  backend is a parameter: its answer to a request given the requests before it, a thrown error
  included. A rejection that names a stale entry is retried without that entry, which bounds the
  loop. The facts: requests respect the limit and never repeat an entry, and every entry asked for is
  reported exactly once.
\<close>

definition runningDownloadStates :: "download_state list" where
  "runningDownloadStates = [Queued, ResolvingMetadata, Downloading, Hashing, Verifying, RetryWait]"

definition canCancelDownload :: "download_state \<Rightarrow> bool" where
  "canCancelDownload st \<longleftrightarrow> st \<in> set runningDownloadStates \<or> st \<in> {ReviewRequired, Interrupted, Failed}"

record cancel_failure =
  cf_entryIds :: "string list"
  cf_message :: string

record cancel_result =
  cr_cancelled :: "download_entry list"
  cr_skipped :: "string list"
  cr_failed :: "cancel_failure list"
  cr_applied :: "download_entry list list"

text \<open>The answer to one request: a thrown error, or the result of the command.\<close>

datatype cancel_answer = Thrown | Answered "download_entry list api_result"

type_synonym cancel_backend = "string list list \<Rightarrow> string list \<Rightarrow> cancel_answer"

text \<open>\<^verbatim>\<open>String(value)\<close>, as far as it can be one of the compared state names.\<close>

fun text_of :: "js_value \<Rightarrow> string" where
  "text_of (JStr s) = s"
| "text_of (JArr [v]) = text_of v"
| "text_of _ = []"

definition error_detail :: "api_error \<Rightarrow> string \<Rightarrow> js_value" where
  "error_detail e k = or_value (Option.bind (ae_details e) (\<lambda>d. map_of d k)) JUndef"

definition stale_error :: "api_error \<Rightarrow> bool" where
  "stale_error e \<longleftrightarrow>
     ae_code e = ''DOWNLOAD_ENTRY_NOT_FOUND''
     \<or> (ae_code e = ''INVALID_DOWNLOAD_STATE'' \<and> text_of (error_detail e ''state'') \<in> {''completed'', ''quarantined''})"

text \<open>The entry a rejection names, when it may be dropped and the rest tried again.\<close>

definition rejected_entry :: "api_error \<Rightarrow> string list \<Rightarrow> string option" where
  "rejected_entry e pending =
     (case error_detail e ''entryId'' of
        JStr r \<Rightarrow> if stale_error e \<and> r \<in> set pending then Some r else None
      | _ \<Rightarrow> None)"

definition undelivered_message :: string where
  "undelivered_message = [CHR 0xEC, CHR 0xB7, CHR 0xA8, CHR 0xEC, CHR 0x86,
     CHR 0x8C] @ '' '' @ [CHR 0xEC, CHR 0x9A, CHR 0x94, CHR 0xEC, CHR 0xB2, CHR 0xAD, CHR 0xEC,
     CHR 0x9D, CHR 0x84] @ '' '' @ [CHR 0xEC, CHR 0xA0, CHR 0x84, CHR 0xEB, CHR 0x8B, CHR 0xAC,
     CHR 0xED, CHR 0x95, CHR 0x98, CHR 0xEC, CHR 0xA7, CHR 0x80] @ '' '' @ [CHR 0xEB, CHR 0xAA,
     CHR 0xBB, CHR 0xED, CHR 0x96, CHR 0x88, CHR 0xEC, CHR 0x8A, CHR 0xB5, CHR 0xEB, CHR 0x8B,
     CHR 0x88, CHR 0xEB, CHR 0x8B, CHR 0xA4] @ ''.''"

definition add_failure :: "string list \<Rightarrow> string \<Rightarrow> cancel_result \<Rightarrow> cancel_result" where
  "add_failure ids msg r = r\<lparr>cr_failed := cr_failed r @ [\<lparr>cf_entryIds = ids, cf_message = msg\<rparr>]\<rparr>"

definition add_answer :: "download_entry list \<Rightarrow> cancel_result \<Rightarrow> cancel_result" where
  "add_answer es r =
     r\<lparr>cr_cancelled := cr_cancelled r @ filter (\<lambda>e. de_state e = Cancelled) es,
       cr_skipped := cr_skipped r @ map de_entryId (filter (\<lambda>e. de_state e \<noteq> Cancelled) es),
       cr_applied := cr_applied r @ [es]\<rparr>"

definition add_skipped :: "string \<Rightarrow> cancel_result \<Rightarrow> cancel_result" where
  "add_skipped i r = r\<lparr>cr_skipped := cr_skipped r @ [i]\<rparr>"

lemma rejected_entry_mem: "rejected_entry e pending = Some i \<Longrightarrow> i \<in> set pending"
  by (auto simp: rejected_entry_def split: js_value.splits if_splits)

text \<open>The inner loop, with the requests made so far.\<close>

function cancel_batch ::
  "cancel_backend \<Rightarrow> string list list \<Rightarrow> cancel_result \<Rightarrow> string list \<Rightarrow> string list list \<times> cancel_result" where
  "cancel_batch answer h r pending =
     (if pending = [] then (h, r)
      else case answer h pending of
        Thrown \<Rightarrow> (h @ [pending], add_failure pending undelivered_message r)
      | Answered (Inr es) \<Rightarrow> (h @ [pending], add_answer es r)
      | Answered (Inl e) \<Rightarrow>
          (case rejected_entry e pending of
             Some i \<Rightarrow> cancel_batch answer (h @ [pending]) (add_skipped i r) (filter (\<lambda>x. x \<noteq> i) pending)
           | None \<Rightarrow> (h @ [pending], add_failure pending (ae_message e) r)))"
  by pat_completeness auto

termination
proof (relation "measure (\<lambda>(answer, h, r, pending). length pending)")
  fix answer :: cancel_backend and h r pending v e i
  assume "rejected_entry e pending = Some i"
  then have "length (filter (\<lambda>x. x \<noteq> i) pending) < length pending"
    using rejected_entry_mem by (auto intro!: length_filter_less)
  then show "((answer, h @ [pending], add_skipped i r, filter (\<lambda>x. x \<noteq> i) pending), answer, h, r, pending)
      \<in> measure (\<lambda>(answer, h, r, pending). length pending)" by simp
qed simp

declare cancel_batch.simps [simp del]

text \<open>The outer loop over slices of 200.\<close>

function cancel_slices ::
  "cancel_backend \<Rightarrow> string list list \<Rightarrow> cancel_result \<Rightarrow> string list \<Rightarrow> string list list \<times> cancel_result" where
  "cancel_slices answer h r ids =
     (if ids = [] then (h, r)
      else case cancel_batch answer h r (take 200 ids) of (h', r') \<Rightarrow> cancel_slices answer h' r' (drop 200 ids))"
  by pat_completeness auto
termination
  by (relation "measure (\<lambda>(answer, h, r, ids). length ids)") auto

declare cancel_slices.simps [simp del]

definition empty_result :: cancel_result where
  "empty_result = \<lparr>cr_cancelled = [], cr_skipped = [], cr_failed = [], cr_applied = []\<rparr>"

definition cancelDownloads :: "cancel_backend \<Rightarrow> string list \<Rightarrow> string list list \<times> cancel_result" where
  "cancelDownloads answer entryIds = cancel_slices answer [] empty_result (set_from entryIds)"

section \<open>Requests\<close>

definition request_ok :: "string list \<Rightarrow> string list \<Rightarrow> bool" where
  "request_ok ids q \<longleftrightarrow> q \<noteq> [] \<and> length q \<le> 200 \<and> distinct q \<and> set q \<subseteq> set ids"

lemma batch_requests:
  "distinct pending \<Longrightarrow> length pending \<le> 200 \<Longrightarrow> set pending \<subseteq> set ids \<Longrightarrow> \<forall>q \<in> set h. request_ok ids q
   \<Longrightarrow> \<forall>q \<in> set (fst (cancel_batch answer h r pending)). request_ok ids q"
proof (induction answer h r pending rule: cancel_batch.induct)
  case (1 answer h r pending)
  show ?case
  proof (cases "pending = []")
    case False
    then have here: "\<forall>q \<in> set (h @ [pending]). request_ok ids q" using "1.prems" by (simp add: request_ok_def)
    have less: "length (filter (\<lambda>x. x \<noteq> i) pending) \<le> 200" for i
      using "1.prems"(2) length_filter_le order_trans by blast
    show ?thesis
      using False here "1.IH" [OF False] "1.prems" less
      by (subst cancel_batch.simps) (auto split: cancel_answer.split sum.split option.split)
  qed (use "1.prems" in \<open>simp add: cancel_batch.simps\<close>)
qed

lemma slices_requests:
  "distinct xs \<Longrightarrow> set xs \<subseteq> set ids \<Longrightarrow> \<forall>q \<in> set h. request_ok ids q
   \<Longrightarrow> \<forall>q \<in> set (fst (cancel_slices answer h r xs)). request_ok ids q"
proof (induction answer h r xs rule: cancel_slices.induct)
  case (1 answer h r xs)
  show ?case
  proof (cases "xs = []")
    case False
    obtain h' r' where b: "cancel_batch answer h r (take 200 xs) = (h', r')" by fastforce
    have "set (take 200 xs) \<subseteq> set ids" "set (drop 200 xs) \<subseteq> set ids"
      using "1.prems"(2) by (meson set_take_subset set_drop_subset subset_trans)+
    moreover from this(1) have "\<forall>q \<in> set h'. request_ok ids q"
      using batch_requests [of "take 200 xs" ids h answer r] "1.prems" b by simp
    ultimately show ?thesis
      using "1.IH" [OF False b [symmetric]] "1.prems"(1) False b by (simp add: cancel_slices.simps [of _ _ _ xs])
  qed (use "1.prems" in \<open>simp add: cancel_slices.simps\<close>)
qed

section \<open>Reports\<close>

definition reported :: "cancel_result \<Rightarrow> string multiset" where
  "reported r = mset (map de_entryId (cr_cancelled r)) + mset (cr_skipped r) + mset (concat (map cf_entryIds (cr_failed r)))"

text \<open>The contract of the command: an answer that is no rejection lists the requested entries.\<close>

definition answers_all :: "cancel_backend \<Rightarrow> bool" where
  "answers_all answer \<longleftrightarrow>
     (\<forall>h q es. answer h q = Answered (Inr es) \<longrightarrow> mset (map de_entryId es) = mset q)"

lemma reported_failure: "reported (add_failure ids msg r) = reported r + mset ids"
  by (simp add: reported_def add_failure_def ac_simps)

lemma reported_skipped: "reported (add_skipped i r) = reported r + {#i#}"
  by (simp add: reported_def add_skipped_def)

lemma reported_answer: "reported (add_answer es r) = reported r + mset (map de_entryId es)"
proof -
  have "mset (map de_entryId es) = mset (map de_entryId (filter (\<lambda>e. de_state e = Cancelled) es))
      + mset (map de_entryId (filter (\<lambda>e. de_state e \<noteq> Cancelled) es))"
    by (induction es) auto
  then show ?thesis by (simp add: reported_def add_answer_def ac_simps)
qed

lemma mset_without: "distinct xs \<Longrightarrow> i \<in> set xs \<Longrightarrow> mset xs = add_mset i (mset (filter (\<lambda>x. x \<noteq> i) xs))"
proof (induction xs)
  case (Cons x xs)
  show ?case
  proof (cases "x = i")
    case True
    with Cons.prems have "filter (\<lambda>x. x \<noteq> i) xs = xs" by (auto simp: filter_id_conv)
    with True show ?thesis by simp
  next
    case False
    with Cons have "mset xs = add_mset i (mset (filter (\<lambda>x. x \<noteq> i) xs))" by auto
    with False show ?thesis by simp
  qed
qed simp

lemma batch_reported:
  "answers_all answer \<Longrightarrow> distinct pending \<Longrightarrow>
   reported (snd (cancel_batch answer h r pending)) = reported r + mset pending"
proof (induction answer h r pending rule: cancel_batch.induct)
  case (1 answer h r pending)
  show ?case
  proof (cases "pending = []")
    case False
    show ?thesis
    proof (cases "answer h pending")
      case Thrown
      with False show ?thesis by (simp add: cancel_batch.simps [of answer] reported_failure)
    next
      case (Answered res)
      show ?thesis
      proof (cases res)
        case (Inr es)
        with Answered "1.prems"(1) have "mset (map de_entryId es) = mset pending" by (simp add: answers_all_def)
        with Answered Inr False show ?thesis by (simp add: cancel_batch.simps [of answer] reported_answer)
      next
        case (Inl e)
        show ?thesis
        proof (cases "rejected_entry e pending")
          case None
          with Answered Inl False show ?thesis by (simp add: cancel_batch.simps [of answer] reported_failure)
        next
          case (Some i)
          have "mset pending = add_mset i (mset (filter (\<lambda>x. x \<noteq> i) pending))"
            using "1.prems"(2) rejected_entry_mem [OF Some] by (rule mset_without)
          then show ?thesis
            using "1.IH" [OF False Answered Inl Some] "1.prems" Answered Inl Some False
            by (simp add: cancel_batch.simps [of answer h r pending] reported_skipped)
        qed
      qed
    qed
  qed (simp add: cancel_batch.simps)
qed

lemma slices_reported:
  "answers_all answer \<Longrightarrow> distinct xs \<Longrightarrow> reported (snd (cancel_slices answer h r xs)) = reported r + mset xs"
proof (induction answer h r xs rule: cancel_slices.induct)
  case (1 answer h r xs)
  show ?case
  proof (cases "xs = []")
    case False
    obtain h' r' where b: "cancel_batch answer h r (take 200 xs) = (h', r')" by fastforce
    have "mset xs = mset (take 200 xs) + mset (drop 200 xs)" by (metis append_take_drop_id mset_append)
    moreover have "reported r' = reported r + mset (take 200 xs)"
      using batch_reported [of answer "take 200 xs" h r] "1.prems" b by simp
    ultimately show ?thesis
      using "1.IH" [OF False b [symmetric]] "1.prems" False b
      by (simp add: cancel_slices.simps [of _ _ _ xs] ac_simps)
  qed (simp add: cancel_slices.simps)
qed

section \<open>Properties\<close>

text \<open>A backend that knows two running entries and rejects any other one by name.\<close>

definition sample_cancel_backend :: cancel_backend where
  "sample_cancel_backend h q =
     (case find (\<lambda>i. i \<notin> {''a'', ''b''}) q of
        Some i \<Rightarrow> Answered (Inl \<lparr>ae_code = ''DOWNLOAD_ENTRY_NOT_FOUND'', ae_message = [], ae_retryable = False,
                                 ae_action = None, ae_details = Some [(''entryId'', JStr i)]\<rparr>)
      | None \<Rightarrow> Answered (Inr (map (\<lambda>i. sample_entry i 1 2 Cancelled) q)))"

lemma sample_cancel_answers_all: "answers_all sample_cancel_backend"
proof -
  have "map de_entryId (map (\<lambda>i. sample_entry i 1 2 Cancelled) q) = q" for q
    by (induction q) (simp_all add: sample_entry_def)
  then show ?thesis
    by (auto simp: answers_all_def sample_cancel_backend_def simp del: map_map mset_map split: option.splits)
qed

text \<open>Every entry is accounted for exactly once. Whatever the backend rejects or throws, provided it answers for
  all entries of a request it accepts, each entry asked for is reported once: as cancelled, as skipped or
  as failed, and nothing else is reported.\<close>

theorem every_cancel_reported_once:
  assumes "answers_all answer"
  shows "reported (snd (cancelDownloads answer ids)) = mset (remdups ids)"
proof -
  have "reported (snd (cancelDownloads answer ids)) = mset (set_from ids)"
    using slices_reported [OF assms, of "set_from ids" "[]" empty_result]
    by (simp add: cancelDownloads_def reported_def empty_result_def)
  also have "\<dots> = mset (remdups ids)"
    by (simp add: set_eq_iff_mset_eq_distinct [symmetric])
  finally show ?thesis .
qed

theorem every_cancel_reported_once_witness:
  "reported (snd (cancelDownloads sample_cancel_backend [''a'', ''x'', ''a'', ''b''])) = {#''a'', ''x'', ''b''#}"
  using every_cancel_reported_once [OF sample_cancel_answers_all, of "[''a'', ''x'', ''a'', ''b'']"]
  by (simp add: add_mset_commute)

text \<open>Requests respect the command's limits: each has between 1 and 200 entries, none twice, and only entries
  that were asked for, for every backend.\<close>

theorem cancel_requests_bounded:
  "list_all (\<lambda>q. q \<noteq> [] \<and> length q \<le> 200 \<and> distinct q \<and> set q \<subseteq> set ids) (fst (cancelDownloads answer ids))"
  using slices_requests [of "set_from ids" ids "[]" answer empty_result]
  by (simp add: cancelDownloads_def list_all_iff request_ok_def)

end
