(* ===== verification/DownloadRandom.thy ===== *)
theory DownloadRandom
  imports CoreTypes
begin

text \<open>
  \<^verbatim>\<open>src/src/state/downloadRandom.ts\<close>: opening a random finished album without letting prolific
  artists dominate. The two draws of \<^verbatim>\<open>random()\<close> and Unicode normalisation are parameters; the
  product of a draw and a length is taken exactly. The facts: only eligible albums are opened, one is
  opened whenever there is one, every eligible album can come up, and the first draw is over artists.
\<close>

definition unknown_artist_bucket :: string where
  "unknown_artist_bucket = CHR 0x00 # ''artist-unknown''"

definition label_loading :: string where
  "label_loading = [CHR 0xEC, CHR 0xA0, CHR 0x95, CHR 0xEB, CHR 0xB3,
     CHR 0xB4] @ '' '' @ [CHR 0xEB, CHR 0xB6, CHR 0x88, CHR 0xEB, CHR 0x9F, CHR 0xAC, CHR 0xEC,
     CHR 0x98, CHR 0xA4, CHR 0xEB, CHR 0x8A, CHR 0x94] @ '' '' @ [CHR 0xEC, CHR 0xA4, CHR 0x91]"

definition label_unknown_artist :: string where
  "label_unknown_artist = [CHR 0xEC, CHR 0x95, CHR 0x8C] @ '' '' @ [CHR 0xEC, CHR 0x88,
     CHR 0x98] @ '' '' @ [CHR 0xEC, CHR 0x97, CHR 0x86, CHR 0xEB, CHR 0x8A,
     CHR 0x94] @ '' '' @ [CHR 0xEC, CHR 0x9E, CHR 0x91, CHR 0xEA, CHR 0xB0, CHR 0x80]"

definition label_no_artist :: string where
  "label_no_artist = [CHR 0xEC, CHR 0x9E, CHR 0x91, CHR 0xEA, CHR 0xB0,
     CHR 0x80] @ '' '' @ [CHR 0xEC, CHR 0xA0, CHR 0x95, CHR 0xEB, CHR 0xB3,
     CHR 0xB4] @ '' '' @ [CHR 0xEC, CHR 0x97, CHR 0x86, CHR 0xEC, CHR 0x9D, CHR 0x8C]"

definition unknown_artist_labels :: "string list" where
  "unknown_artist_labels = [label_loading, label_unknown_artist, label_no_artist]"

text \<open>\<^verbatim>\<open>replace(/\s+/gu, " ")\<close>.\<close>

fun squeeze :: "bool \<Rightarrow> string \<Rightarrow> string" where
  "squeeze inside [] = []"
| "squeeze inside (c # s) =
     (if is_space c then (if inside then squeeze True s else CHR '' '' # squeeze True s) else c # squeeze False s)"

definition normalizedArtist :: "(string \<Rightarrow> string) \<Rightarrow> string \<Rightarrow> string" where
  "normalizedArtist nfkc a = lower (squeeze False (trim (nfkc a)))"

definition artistBucketKey :: "(string \<Rightarrow> string) \<Rightarrow> gallery \<Rightarrow> string" where
  "artistBucketKey nfkc g =
     (let a = normalizedArtist nfkc (g_artist g)
      in if a = [] \<or> a \<in> set unknown_artist_labels then unknown_artist_bucket else a)"

definition largest_draw :: rat where
  "largest_draw = 1 - 1 / 2 ^ 53"

definition randomIndex :: "nat \<Rightarrow> js_num \<Rightarrow> nat" where
  "randomIndex len sample =
     (let bounded = (case sample of Num r \<Rightarrow> max 0 (min r largest_draw) | _ \<Rightarrow> 0)
      in nat (floor (bounded * of_nat len)))"

definition eligible :: "gallery_id list \<Rightarrow> gallery \<Rightarrow> bool" where
  "eligible excluded g \<longleftrightarrow> map_option d_state (g_download g) = Some Completed \<and> g_id g \<notin> set excluded"

definition add_to_bucket ::
  "(string \<Rightarrow> string) \<Rightarrow> gallery_id list \<Rightarrow> (string \<times> gallery list) list \<Rightarrow> gallery \<Rightarrow> (string \<times> gallery list) list" where
  "add_to_bucket nfkc excluded m g =
     (if \<not> eligible excluded g then m
      else let key = artistBucketKey nfkc g
           in case map_of m key of
                Some b \<Rightarrow> AList.update key (b @ [g]) m
              | None \<Rightarrow> AList.update key [g] m)"

definition artist_buckets ::
  "(string \<Rightarrow> string) \<Rightarrow> gallery list \<Rightarrow> gallery_id list \<Rightarrow> (string \<times> gallery list) list" where
  "artist_buckets nfkc galleries excluded = foldl (add_to_bucket nfkc excluded) [] galleries"

definition pickArtistBalancedCompletedDownload ::
  "(string \<Rightarrow> string) \<Rightarrow> gallery list \<Rightarrow> gallery_id list \<Rightarrow> js_num \<Rightarrow> js_num \<Rightarrow> gallery option" where
  "pickArtistBalancedCompletedDownload nfkc galleries excluded first_draw second_draw =
     (let buckets = vals (artist_buckets nfkc galleries excluded)
      in if buckets = [] then None
         else let bucket = buckets ! randomIndex (length buckets) first_draw
              in js_at bucket (randomIndex (length bucket) second_draw))"

section \<open>Draws\<close>

lemma largest_draw_bounds: "0 \<le> largest_draw" "largest_draw < 1"
  by (simp_all add: largest_draw_def)

lemma randomIndex_less:
  assumes "0 < len"
  shows "randomIndex len s < len"
proof -
  define b where "b = (case s of Num r \<Rightarrow> max 0 (min r largest_draw) | _ \<Rightarrow> 0)"
  have b: "0 \<le> b" "b < 1" using largest_draw_bounds by (auto simp: b_def split: js_num.split)
  then have "b * of_nat len < 1 * of_nat len" using assms by (intro mult_strict_right_mono) simp_all
  then have "floor (b * of_nat len) < int len" by (simp add: floor_less_iff)
  then show ?thesis using assms by (simp add: randomIndex_def Let_def flip: b_def)
qed

text \<open>Every index of a list of reasonable length is drawn.\<close>

lemma randomIndex_onto:
  assumes "i < len" and "len \<le> 2 ^ 53"
  shows "\<exists>r. randomIndex len (Num r) = i"
proof -
  let ?r = "of_nat i / of_nat len :: rat"
  have len: "(of_nat len :: rat) > 0" "(of_nat len :: rat) \<le> 2 ^ 53"
    using assms by (simp, metis assms(2) of_nat_le_iff of_nat_numeral of_nat_power)
  have "?r \<le> (of_nat len - 1) / of_nat len"
    using assms(1) len(1) by (intro divide_right_mono) (simp_all add: of_nat_diff [symmetric] flip: of_nat_Suc)
  also have "\<dots> = 1 - 1 / of_nat len" using len(1) by (simp add: diff_divide_distrib)
  also have "\<dots> \<le> largest_draw"
    using len by (simp add: largest_draw_def frac_le)
  finally have "max 0 (min ?r largest_draw) = ?r" using len(1) by simp
  then have "randomIndex len (Num ?r) = i" using len(1) by (simp add: randomIndex_def)
  then show ?thesis by blast
qed

section \<open>Buckets\<close>

definition bucket_of :: "(string \<Rightarrow> string) \<Rightarrow> gallery_id list \<Rightarrow> gallery list \<Rightarrow> string \<Rightarrow> gallery list" where
  "bucket_of nfkc excluded gs key = filter (\<lambda>g. eligible excluded g \<and> artistBucketKey nfkc g = key) gs"

lemma buckets_lookup:
  "map_of (artist_buckets nfkc gs ex) key = (if bucket_of nfkc ex gs key = [] then None else Some (bucket_of nfkc ex gs key))
   \<and> distinct (keys (artist_buckets nfkc gs ex))"
proof (induction gs rule: rev_induct)
  case (snoc g gs)
  then show ?case
    by (cases "eligible ex g"; cases "map_of (artist_buckets nfkc gs ex) (artistBucketKey nfkc g)")
       (auto simp: artist_buckets_def add_to_bucket_def bucket_of_def Let_def omap.look_put simp del: map_of_eq_Some_iff
         split: if_splits)
qed (simp add: artist_buckets_def bucket_of_def)

lemma bucket_mem:
  "b \<in> set (vals (artist_buckets nfkc gs ex)) \<longleftrightarrow> (\<exists>key. bucket_of nfkc ex gs key = b \<and> b \<noteq> [])"
proof
  assume "b \<in> set (vals (artist_buckets nfkc gs ex))"
  then obtain k where "(k, b) \<in> set (artist_buckets nfkc gs ex)" by auto
  then have "map_of (artist_buckets nfkc gs ex) k = Some b" using buckets_lookup by (metis map_of_is_SomeI)
  then show "\<exists>key. bucket_of nfkc ex gs key = b \<and> b \<noteq> []"
    using buckets_lookup [of nfkc gs ex k] by (metis option.distinct(1) option.inject)
next
  assume "\<exists>key. bucket_of nfkc ex gs key = b \<and> b \<noteq> []"
  then obtain key where "bucket_of nfkc ex gs key = b" "b \<noteq> []" by blast
  then have "map_of (artist_buckets nfkc gs ex) key = Some b" using buckets_lookup [of nfkc gs ex key] by simp
  then show "b \<in> set (vals (artist_buckets nfkc gs ex))" by (force dest: map_of_SomeD)
qed

lemma no_buckets: "artist_buckets nfkc gs ex = [] \<longleftrightarrow> filter (eligible ex) gs = []"
proof
  assume "artist_buckets nfkc gs ex = []"
  then have "bucket_of nfkc ex gs key = []" for key
    using buckets_lookup [of nfkc gs ex key] by (auto split: if_splits)
  then show "filter (eligible ex) gs = []" by (auto simp: bucket_of_def filter_empty_conv)
next
  assume "filter (eligible ex) gs = []"
  then have "map_of (artist_buckets nfkc gs ex) key = None" for key
    using buckets_lookup [of nfkc gs ex key] by (auto simp: bucket_of_def filter_empty_conv)
  then show "artist_buckets nfkc gs ex = []" by (metis map_of_eq_empty_iff)
qed

section \<open>Properties\<close>

text \<open>The random album is a finished one that is not excluded, one is found exactly when there is one, whatever the
  draws are, and every eligible album comes up for some draws (of a library of at most \<open>2^53\<close> albums).\<close>

theorem random_album_eligible:
  assumes "length gs \<le> 2 ^ 53"
  shows "(case pickArtistBalancedCompletedDownload nfkc gs ex a b of
            Some g \<Rightarrow> g \<in> set gs \<and> eligible ex g
          | None \<Rightarrow> filter (eligible ex) gs = [])
    \<and> (\<forall>g \<in> set (filter (eligible ex) gs). \<exists>r s. pickArtistBalancedCompletedDownload nfkc gs ex (Num r) (Num s) = Some g)"
proof -
  let ?bs = "vals (artist_buckets nfkc gs ex)"
  have mem: "set b \<subseteq> set (filter (eligible ex) gs) \<and> b \<noteq> [] \<and> length b \<le> length gs" if "b \<in> set ?bs" for b
    using that unfolding bucket_mem by (auto simp: bucket_of_def)
  have nonempty: "?bs = [] \<longleftrightarrow> filter (eligible ex) gs = []" using no_buckets [of nfkc gs ex] by simp
  have "case pickArtistBalancedCompletedDownload nfkc gs ex a b of
            Some g \<Rightarrow> g \<in> set gs \<and> eligible ex g | None \<Rightarrow> filter (eligible ex) gs = []"
  proof (cases "?bs = []")
    case True
    with nonempty show ?thesis by (simp add: pickArtistBalancedCompletedDownload_def Let_def)
  next
    case False
    let ?b = "?bs ! randomIndex (length ?bs) a"
    have "?b \<in> set ?bs" using False by (intro nth_mem randomIndex_less) simp
    note m = mem [OF this]
    then have "randomIndex (length ?b) b < length ?b" by (intro randomIndex_less) simp
    moreover from this m have "?b ! randomIndex (length ?b) b \<in> set (filter (eligible ex) gs)" by (meson nth_mem subsetD)
    ultimately show ?thesis
      using False by (simp add: pickArtistBalancedCompletedDownload_def Let_def js_at_def del: map_is_Nil_conv length_map nth_map)
  qed
  moreover have "\<exists>r s. pickArtistBalancedCompletedDownload nfkc gs ex (Num r) (Num s) = Some g"
    if "g \<in> set (filter (eligible ex) gs)" for g
  proof -
    let ?b = "bucket_of nfkc ex gs (artistBucketKey nfkc g)"
    have g: "g \<in> set ?b" using that by (simp add: bucket_of_def)
    then have b: "?b \<in> set ?bs" unfolding bucket_mem by force
    then obtain i where i: "i < length ?bs" "?bs ! i = ?b" by (auto simp: in_set_conv_nth)
    obtain j where j: "j < length ?b" "?b ! j = g" using g by (auto simp: in_set_conv_nth)
    have "length ?bs \<le> length gs"
    proof -
      have "distinct (keys (artist_buckets nfkc gs ex))" using buckets_lookup by blast
      moreover have "set (keys (artist_buckets nfkc gs ex)) \<subseteq> artistBucketKey nfkc ` set gs"
      proof
        fix k
        assume "k \<in> set (keys (artist_buckets nfkc gs ex))"
        then have "map_of (artist_buckets nfkc gs ex) k \<noteq> None" by (simp only: map_of_None_keys) simp
        then have "bucket_of nfkc ex gs k \<noteq> []" using buckets_lookup [of nfkc gs ex k] by auto
        then show "k \<in> artistBucketKey nfkc ` set gs" by (auto simp: bucket_of_def filter_empty_conv)
      qed
      ultimately have "length (keys (artist_buckets nfkc gs ex)) \<le> card (artistBucketKey nfkc ` set gs)"
        by (metis card_mono distinct_card finite_imageI finite_set)
      also have "\<dots> \<le> length gs" by (meson card_image_le card_length finite_set order_trans)
      finally show ?thesis by simp
    qed
    then obtain r where r: "randomIndex (length ?bs) (Num r) = i"
      using randomIndex_onto [OF i(1)] assms order_trans by blast
    have "length ?b \<le> 2 ^ 53" using mem [OF b] assms by simp
    then obtain s where s: "randomIndex (length ?b) (Num s) = j"
      using randomIndex_onto [OF j(1)] by blast
    have "?bs \<noteq> []" using i(1) by force
    then have "pickArtistBalancedCompletedDownload nfkc gs ex (Num r) (Num s) = Some g"
      unfolding pickArtistBalancedCompletedDownload_def Let_def r i(2) s using j
      by (simp add: js_at_def del: map_is_Nil_conv)
    then show ?thesis by blast
  qed
  ultimately show ?thesis by blast
qed

theorem random_album_eligible_witness:
  "case pickArtistBalancedCompletedDownload id [sample_gallery 1, (sample_gallery 2)\<lparr>g_download := Some (sample_download ''e'' 1 Completed)\<rparr>]
          [] NaN PosInf of
     Some g \<Rightarrow> g_id g = 2 | None \<Rightarrow> False"
proof -
  let ?gs = "[sample_gallery 1, (sample_gallery 2)\<lparr>g_download := Some (sample_download ''e'' 1 Completed)\<rparr>]"
  let ?p = "pickArtistBalancedCompletedDownload id ?gs [] NaN PosInf"
  have len: "length ?gs \<le> 2 ^ 53" by simp
  have e: "filter (eligible []) ?gs \<noteq> []" "\<And>g. g \<in> set ?gs \<Longrightarrow> eligible [] g \<Longrightarrow> g_id g = 2"
    by (auto simp: eligible_def sample_gallery_def sample_download_def)
  note t = random_album_eligible [OF len, where nfkc = id and ex = "[]" and a = NaN and b = PosInf, THEN conjunct1]
  show ?thesis
  proof (cases ?p)
    case None
    with t e(1) show ?thesis by (simp only: option.case)
  next
    case (Some g)
    with t have "g \<in> set ?gs" "eligible [] g" by (simp_all only: option.case)
    then have "g_id g = 2" by (rule e(2))
    with Some show ?thesis by (simp only: option.case)
  qed
qed

end
