(* ===== verification/DuplicateProjection.thy ===== *)
theory DuplicateProjection
  imports DuplicateTypes
begin

text \<open>
  \<^verbatim>\<open>src/src/state/duplicateProjection.ts\<close>: events and snapshots of a duplicate scan arrive on two
  paths. An event is accepted when it is newer than the run known; a snapshot read in the background
  is dropped when the run it carries is older than the latest one. Numbers of a run are unchecked
  until \<open>validDuplicateRun\<close> has seen them. The facts: accepted events only move a run forward, and a
  late snapshot never takes the run back.
\<close>

record hash_profile =
  hp_profileVersion :: int
  hp_algorithmVersion :: int
  hp_dHashBits :: int
  hp_pHashBits :: int
  hp_visualMatchThreshold :: rat
  hp_lowInformationStdDevThreshold :: rat

record duplicate_run =
  du_runId :: string
  du_revision :: js_num
  du_state :: string
  du_totalArtifacts :: js_num
  du_hashedArtifacts :: js_num
  du_totalPairs :: js_num
  du_comparedPairs :: js_num
  du_candidatesFound :: js_num
  du_startedAt :: string
  du_updatedAt :: string
  du_finishedAt :: "string option"
  du_errorCode :: "string option"
  du_errorMessage :: "string option"

record duplicate_snapshot =
  dn_profile :: hash_profile
  dn_run :: "duplicate_run option"
  dn_candidates :: "duplicate_candidate list"

definition count_number :: "js_num \<Rightarrow> bool" where
  "count_number n \<longleftrightarrow> is_integer n \<and> js_le (Num 0) n"

definition validDuplicateRun :: "duplicate_run \<Rightarrow> bool" where
  "validDuplicateRun run \<longleftrightarrow>
     du_runId run \<noteq> [] \<and> is_integer (du_revision run) \<and> js_le (Num 0) (du_revision run)
     \<and> list_all count_number [du_totalArtifacts run, du_hashedArtifacts run, du_totalPairs run,
          du_comparedPairs run, du_candidatesFound run]
     \<and> js_le (du_hashedArtifacts run) (du_totalArtifacts run) \<and> js_le (du_comparedPairs run) (du_totalPairs run)
     \<and> du_startedAt run \<noteq> [] \<and> du_updatedAt run \<noteq> []
     \<and> du_state run \<in> {''running'', ''completed'', ''failed'', ''cancelled''}"

definition str_greater :: "string \<Rightarrow> string \<Rightarrow> bool" where
  "str_greater a b \<longleftrightarrow> lex_cmp a b > 0"

definition duplicateRunIsNewer :: "duplicate_run option \<Rightarrow> duplicate_run \<Rightarrow> bool" where
  "duplicateRunIsNewer current incoming =
     (case current of
        None \<Rightarrow> True
      | Some cur \<Rightarrow>
          if du_runId cur = du_runId incoming then js_lt (du_revision cur) (du_revision incoming)
          else str_greater (du_startedAt incoming) (du_startedAt cur))"

definition duplicateEventNeedsSnapshot :: "duplicate_run option \<Rightarrow> duplicate_run \<Rightarrow> bool" where
  "duplicateEventNeedsSnapshot previous incoming \<longleftrightarrow>
     du_state incoming \<noteq> ''running''
     \<or> js_lt (or_value (map_option du_candidatesFound previous) (Num 0)) (du_candidatesFound incoming)"

definition stale_snapshot :: "duplicate_run option \<Rightarrow> duplicate_run option \<Rightarrow> bool" where
  "stale_snapshot latest incoming =
     (case latest of
        None \<Rightarrow> False
      | Some l \<Rightarrow>
          (case incoming of
             None \<Rightarrow> True
           | Some r \<Rightarrow>
               (du_runId r = du_runId l \<and> js_lt (du_revision r) (du_revision l))
               \<or> (du_runId r \<noteq> du_runId l \<and> \<not> str_greater (du_startedAt r) (du_startedAt l))))"

definition mergeHydratedDuplicateSnapshot ::
  "duplicate_snapshot option \<Rightarrow> duplicate_snapshot \<Rightarrow> duplicate_run option \<Rightarrow> duplicate_snapshot" where
  "mergeHydratedDuplicateSnapshot current incoming latestRun =
     (if \<not> stale_snapshot latestRun (dn_run incoming) then incoming
      else case current of Some c \<Rightarrow> c | None \<Rightarrow> incoming\<lparr>dn_run := latestRun\<rparr>)"

section \<open>The scan shown by the feature\<close>

text \<open>
  \<^verbatim>\<open>HitomiFeature.tsx\<close> keeps the latest run, the snapshot shown and the token of the newest background
  read. Events, answers to starting and cancelling a scan and background reads all write them. A background
  read whose token is no longer the newest is dropped.
\<close>

record scan_view =
  sv_snapshot :: "duplicate_snapshot option"
  sv_run :: "duplicate_run option"
  sv_token :: nat

definition initialScanView :: scan_view where
  "initialScanView = \<lparr>sv_snapshot = None, sv_run = None, sv_token = 0\<rparr>"

definition show_run :: "duplicate_run \<Rightarrow> scan_view \<Rightarrow> scan_view" where
  "show_run run v =
     v\<lparr>sv_run := Some run, sv_snapshot := map_option (\<lambda>c. c\<lparr>dn_run := Some run\<rparr>) (sv_snapshot v)\<rparr>"

definition next_token :: "scan_view \<Rightarrow> scan_view" where
  "next_token v = v\<lparr>sv_token := Suc (sv_token v)\<rparr>"

definition other_run :: "duplicate_run \<Rightarrow> scan_view \<Rightarrow> bool" where
  "other_run run v \<longleftrightarrow> map_option du_runId (sv_run v) \<noteq> Some (du_runId run)"

definition scan_changed :: "duplicate_run \<Rightarrow> scan_view \<Rightarrow> scan_view" where
  "scan_changed run v =
     (if \<not> validDuplicateRun run \<or> \<not> duplicateRunIsNewer (sv_run v) run then v
      else
        let shown = show_run run (if other_run run v then next_token v else v)
        in if duplicateEventNeedsSnapshot (sv_run v) run then next_token shown else shown)"

definition startDuplicateScan :: "duplicate_run \<Rightarrow> scan_view \<Rightarrow> scan_view" where
  "startDuplicateScan run v = next_token (show_run run (if other_run run v then next_token v else v))"

definition cancelDuplicateScan :: "duplicate_run \<Rightarrow> scan_view \<Rightarrow> scan_view" where
  "cancelDuplicateScan run v = next_token (show_run run v)"

definition hydrateDuplicateSnapshot :: "nat \<Rightarrow> duplicate_snapshot \<Rightarrow> scan_view \<Rightarrow> scan_view" where
  "hydrateDuplicateSnapshot token incoming v =
     (if token \<noteq> sv_token v then v
      else
        let merged = mergeHydratedDuplicateSnapshot (sv_snapshot v) incoming (sv_run v)
        in v\<lparr>sv_snapshot := Some merged, sv_run := dn_run merged\<rparr>)"

datatype scan_event =
    ScanChanged duplicate_run
  | ScanStarted duplicate_run
  | ScanCancelled duplicate_run
  | ReadStarted
  | ReadAnswered nat duplicate_snapshot

fun scan_step :: "scan_view \<Rightarrow> scan_event \<Rightarrow> scan_view" where
  "scan_step v (ScanChanged run) = scan_changed run v"
| "scan_step v (ScanStarted run) = startDuplicateScan run v"
| "scan_step v (ScanCancelled run) = cancelDuplicateScan run v"
| "scan_step v ReadStarted = next_token v"
| "scan_step v (ReadAnswered token incoming) = hydrateDuplicateSnapshot token incoming v"

text \<open>The snapshot shown carries the latest run.\<close>

definition shows_latest :: "scan_view \<Rightarrow> bool" where
  "shows_latest v = (case sv_snapshot v of Some c \<Rightarrow> dn_run c = sv_run v | None \<Rightarrow> True)"

lemma sv_show_run [simp]:
  "sv_run (show_run run v) = Some run" "sv_run (next_token v) = sv_run v"
  "sv_snapshot (next_token v) = sv_snapshot v"
  by (simp_all add: show_run_def next_token_def)

lemma shows_latest_show_run [simp]: "shows_latest (show_run run v)"
  by (simp add: shows_latest_def show_run_def split: option.split)

lemma shows_latest_next_token [simp]: "shows_latest (next_token v) = shows_latest v"
  by (simp add: shows_latest_def split: option.split)

interpretation scan: machine scan_step shows_latest initialScanView
proof
  show "shows_latest initialScanView" by (simp add: shows_latest_def initialScanView_def)
  show "shows_latest (scan_step v e)" if "shows_latest v" for v e
  proof (cases e)
    case (ReadAnswered t d)
    with that show ?thesis by (simp add: hydrateDuplicateSnapshot_def Let_def shows_latest_def)
  qed (use that in \<open>simp_all add: scan_changed_def startDuplicateScan_def cancelDuplicateScan_def Let_def\<close>)
qed

text \<open>A run that does not go back: the same run at no earlier revision, or one that started later.\<close>

definition not_older :: "duplicate_run \<Rightarrow> duplicate_run \<Rightarrow> bool" where
  "not_older old run \<longleftrightarrow>
     (if du_runId run = du_runId old then \<not> js_lt (du_revision run) (du_revision old)
      else str_greater (du_startedAt run) (du_startedAt old))"

lemma not_older_refl [simp]: "not_older r r"
  by (simp add: not_older_def js_lt_def)

lemma newer_not_older: "duplicateRunIsNewer (Some old) run \<Longrightarrow> not_older old run"
  by (auto simp: duplicateRunIsNewer_def not_older_def js_lt_def split: if_splits)

lemma changed_not_older:
  "sv_run v = Some old \<Longrightarrow> \<exists>r. sv_run (scan_changed run v) = Some r \<and> not_older old r"
  using newer_not_older [of old run] by (cases "duplicateRunIsNewer (Some old) run") (simp_all add: scan_changed_def Let_def)

lemma hydrated_not_older:
  assumes "shows_latest v" and "sv_run v = Some old"
  shows "\<exists>r. sv_run (hydrateDuplicateSnapshot token incoming v) = Some r \<and> not_older old r"
proof (cases "stale_snapshot (Some old) (dn_run incoming)")
  case True
  with assms show ?thesis
    by (cases "sv_snapshot v")
      (simp_all add: hydrateDuplicateSnapshot_def mergeHydratedDuplicateSnapshot_def shows_latest_def Let_def)
next
  case False
  then obtain r where r: "dn_run incoming = Some r" by (cases "dn_run incoming") (simp_all add: stale_snapshot_def)
  with False have "not_older old r" by (auto simp: stale_snapshot_def not_older_def)
  with False r assms(2) show ?thesis
    by (simp add: hydrateDuplicateSnapshot_def mergeHydratedDuplicateSnapshot_def Let_def)
qed

text \<open>The answer to starting or cancelling a scan is shown whatever run is known.\<close>

lemma started_scan_overwrites: "sv_run (startDuplicateScan run v) = Some run"
  by (simp add: startDuplicateScan_def)

section \<open>Runs in order\<close>

text \<open>The run known after a sequence of events, each taken when it is newer.\<close>

definition take_event :: "duplicate_run option \<Rightarrow> duplicate_run \<Rightarrow> duplicate_run option" where
  "take_event current e = (if duplicateRunIsNewer current e then Some e else current)"

lemma str_greater_trans:
  assumes ab: "str_greater a b" and bc: "str_greater b c"
  shows "str_greater a c"
proof -
  have "lex_cmp b a \<le> 0" and "lex_cmp c b \<le> 0"
    using ab bc lex_cmp_sym [of b a] lex_cmp_sym [of c b] by (simp_all add: str_greater_def)
  then have ca: "lex_cmp c a \<le> 0" by (rule lex_cmp_trans [rotated])
  have "lex_cmp a c \<noteq> 0"
  proof
    assume "lex_cmp a c = 0"
    then have "a = c" by simp
    with ab bc lex_cmp_sym [of c b] show False by (simp add: str_greater_def)
  qed
  with ca lex_cmp_sym [of c a] show ?thesis unfolding str_greater_def by linarith
qed

lemma js_lt_trans: "js_lt a b \<Longrightarrow> js_lt b c \<Longrightarrow> js_lt a c"
  by (cases a; cases b; cases c) (auto simp: js_lt_def)

text \<open>What a run can be replaced by: the same run with a later revision, or a run that started later.\<close>

definition not_before :: "duplicate_run \<Rightarrow> duplicate_run \<Rightarrow> bool" where
  "not_before a b \<longleftrightarrow>
     a = b \<or> (du_runId a = du_runId b \<and> js_lt (du_revision a) (du_revision b))
     \<or> str_greater (du_startedAt b) (du_startedAt a)"

text \<open>A run keeps its start time.\<close>

definition same_start :: "duplicate_run list \<Rightarrow> bool" where
  "same_start rs \<longleftrightarrow> (\<forall>a \<in> set rs. \<forall>b \<in> set rs. du_runId a = du_runId b \<longrightarrow> du_startedAt a = du_startedAt b)"

lemma same_start_mono: "same_start xs \<Longrightarrow> set ys \<subseteq> set xs \<Longrightarrow> same_start ys"
  unfolding same_start_def by (simp add: subset_iff)

lemma same_startD:
  "same_start xs \<Longrightarrow> a \<in> set xs \<Longrightarrow> b \<in> set xs \<Longrightarrow> du_runId a = du_runId b
   \<Longrightarrow> du_startedAt a = du_startedAt b"
  unfolding same_start_def by (drule (1) bspec, drule (1) bspec, drule (1) mp)

lemma not_before_trans:
  assumes "not_before a b" and "not_before b c" and "same_start [a, b, c]"
  shows "not_before a c"
proof -
  have eq: "du_runId a = du_runId b \<Longrightarrow> du_startedAt a = du_startedAt b"
      "du_runId b = du_runId c \<Longrightarrow> du_startedAt b = du_startedAt c"
    using same_startD [OF assms(3), of a b] same_startD [OF assms(3), of b c] by simp_all
  show ?thesis
  proof (cases "a = b \<or> b = c")
    case True
    with assms(1,2) show ?thesis by (elim disjE) simp_all
  next
    case False
    then have ab: "(du_runId a = du_runId b \<and> js_lt (du_revision a) (du_revision b))
        \<or> str_greater (du_startedAt b) (du_startedAt a)"
      and bc: "(du_runId b = du_runId c \<and> js_lt (du_revision b) (du_revision c))
        \<or> str_greater (du_startedAt c) (du_startedAt b)"
      using assms(1,2) by (simp_all only: not_before_def de_Morgan_disj simp_thms)
    from ab show ?thesis
    proof
      assume l: "du_runId a = du_runId b \<and> js_lt (du_revision a) (du_revision b)"
      from bc show ?thesis
      proof
        assume "du_runId b = du_runId c \<and> js_lt (du_revision b) (du_revision c)"
        with l js_lt_trans [of "du_revision a" "du_revision b" "du_revision c"] show ?thesis
          unfolding not_before_def by (intro disjI2 disjI1) simp
      next
        assume "str_greater (du_startedAt c) (du_startedAt b)"
        with l eq(1) show ?thesis unfolding not_before_def by (intro disjI2) simp
      qed
    next
      assume l: "str_greater (du_startedAt b) (du_startedAt a)"
      from bc show ?thesis
      proof
        assume "du_runId b = du_runId c \<and> js_lt (du_revision b) (du_revision c)"
        with l eq(2) show ?thesis unfolding not_before_def by (intro disjI2) simp
      next
        assume "str_greater (du_startedAt c) (du_startedAt b)"
        from str_greater_trans [OF this l] show ?thesis unfolding not_before_def by (intro disjI2)
      qed
    qed
  qed
qed

lemma take_event_not_before: "\<exists>y. take_event (Some x) e = Some y \<and> not_before x y \<and> y \<in> {x, e}"
  by (auto simp: take_event_def duplicateRunIsNewer_def not_before_def)

lemma take_events_not_before:
  "same_start (x # es) \<Longrightarrow> \<exists>y. foldl take_event (Some x) es = Some y \<and> not_before x y \<and> y \<in> set (x # es)"
proof (induction es arbitrary: x)
  case Nil
  then show ?case by (simp add: not_before_def)
next
  case (Cons e es)
  obtain y where y: "take_event (Some x) e = Some y" "not_before x y" "y \<in> {x, e}"
    using take_event_not_before [of x e] by (elim exE conjE)
  have sub: "set (y # es) \<subseteq> set (x # e # es)" using y(3) by auto
  have "same_start (y # es)" by (rule same_start_mono [OF Cons.prems sub])
  from Cons.IH [OF this] obtain z where z: "foldl take_event (Some y) es = Some z" "not_before y z" "z \<in> set (y # es)"
    by (elim exE conjE)
  have "set [x, y, z] \<subseteq> set (x # e # es)" using sub z(3) by auto
  from not_before_trans [OF y(2) z(2) same_start_mono [OF Cons.prems this]]
  have "not_before x z" .
  moreover have "z \<in> set (x # e # es)" using sub z(3) by blast
  ultimately show ?case using y(1) z(1) by (intro exI [of _ z]) simp
qed

definition sample_run :: "string \<Rightarrow> int \<Rightarrow> string \<Rightarrow> duplicate_run" where
  "sample_run i r started =
     \<lparr>du_runId = i, du_revision = Num (of_int r), du_state = ''running'', du_totalArtifacts = Num 10,
      du_hashedArtifacts = Num 4, du_totalPairs = Num 3, du_comparedPairs = Num 1, du_candidatesFound = Num 0,
      du_startedAt = started, du_updatedAt = started, du_finishedAt = None, du_errorCode = None,
      du_errorMessage = None\<rparr>"

definition sample_profile :: hash_profile where
  "sample_profile = \<lparr>hp_profileVersion = 1, hp_algorithmVersion = 1, hp_dHashBits = 64, hp_pHashBits = 64,
     hp_visualMatchThreshold = 9 / 10, hp_lowInformationStdDevThreshold = 4\<rparr>"

section \<open>Properties\<close>

text \<open>Scan events never go back: whatever order they arrive in, repeated ones included, the run known afterwards is
  the first one, a later revision of it or a run that started later (a run keeping its start time).\<close>

theorem scan_events_forward:
  assumes "same_start (x # es)"
  shows "\<exists>y. foldl take_event (Some x) es = Some y \<and> not_before x y"
  using take_events_not_before [OF assms] by blast

theorem scan_events_forward_witness:
  "foldl take_event (Some (sample_run ''a'' 5 ''2024'')) [sample_run ''a'' 3 ''2024'', sample_run ''b'' 1 ''2025'',
      sample_run ''a'' 9 ''2024''] = Some (sample_run ''b'' 1 ''2025'')
   \<and> not_before (sample_run ''a'' 5 ''2024'') (sample_run ''b'' 1 ''2025'')"
proof -
  let ?es = "[sample_run ''a'' 3 ''2024'', sample_run ''b'' 1 ''2025'', sample_run ''a'' 9 ''2024'']"
  have s: "same_start (sample_run ''a'' 5 ''2024'' # ?es)"
    by (simp add: same_start_def sample_run_def)
  have "foldl take_event (Some (sample_run ''a'' 5 ''2024'')) ?es = Some (sample_run ''b'' 1 ''2025'')"
    by (simp add: take_event_def duplicateRunIsNewer_def sample_run_def js_lt_def str_greater_def)
  with scan_events_forward [OF s] show ?thesis by (simp only: option.inject) auto
qed

text \<open>Once a scan is known, no event of the backend and no snapshot read in the background takes it back, whatever
  happened before and in whatever order the answers arrive: the run known is the same run at no earlier revision, or
  one that started later. The answer to starting or cancelling a scan is the one thing shown as it comes.\<close>

theorem scan_never_goes_back:
  "let v = foldl scan_step initialScanView es; w = scan_step v e
   in case (sv_run v, e) of
        (None, _) \<Rightarrow> True
      | (_, ScanStarted run) \<Rightarrow> sv_run w = Some run
      | (_, ScanCancelled run) \<Rightarrow> sv_run w = Some run
      | (Some old, _) \<Rightarrow> (case sv_run w of Some run \<Rightarrow> not_older old run | None \<Rightarrow> False)"
proof (cases "sv_run (foldl scan_step initialScanView es)")
  case (Some old)
  note latest = scan.inv_reachable [of es]
  show ?thesis
  proof (cases e)
    case (ScanChanged run)
    from changed_not_older [OF Some, of run] obtain r
      where "sv_run (scan_changed run (foldl scan_step initialScanView es)) = Some r" "not_older old r"
      by (elim exE conjE)
    with Some ScanChanged show ?thesis by (simp add: Let_def)
  next
    case (ReadAnswered token incoming)
    from hydrated_not_older [OF latest Some, of token incoming] obtain r
      where "sv_run (hydrateDuplicateSnapshot token incoming (foldl scan_step initialScanView es)) = Some r" "not_older old r"
      by (elim exE conjE)
    with Some ReadAnswered show ?thesis by (simp add: Let_def)
  qed (simp_all add: Some Let_def startDuplicateScan_def cancelDuplicateScan_def)
qed (simp add: Let_def)

end
