(* ===== verification/JsonText.thy ===== *)
theory JsonText
  imports JsText
begin

text \<open>
  \<^verbatim>\<open>JSON.stringify\<close> as the client uses it, to make keys and to compare values: the quoting of strings,
  and the facts that numerals, quoted strings and separated parts can be read back from their text, so that equal
  text means equal values.
\<close>

section \<open>Quoted strings\<close>

text \<open>\<^verbatim>\<open>JSON.stringify\<close> of a string.\<close>

definition quote_char :: char where "quote_char = CHR 0x22"

definition escape_char :: char where "escape_char = CHR 0x5C"

definition hex_char :: "nat \<Rightarrow> char" where
  "hex_char n = ''0123456789abcdef'' ! (n mod 16)"

definition short_escapes :: "(char \<times> char) list" where
  "short_escapes = [(CHR 0x08, CHR ''b''), (CHR 0x09, CHR ''t''), (CHR 0x0A, CHR ''n''), (CHR 0x0C, CHR ''f''),
     (CHR 0x0D, CHR ''r'')]"

definition json_char :: "char \<Rightarrow> string" where
  "json_char c =
     (if c = quote_char \<or> c = escape_char then [escape_char, c]
      else if (of_char c :: nat) < 32 then
        (case map_of short_escapes c of
           Some d \<Rightarrow> [escape_char, d]
         | None \<Rightarrow> escape_char # ''u00'' @ [hex_char (of_char c div 16), hex_char (of_char c)])
      else [c])"

definition json_string :: "string \<Rightarrow> string" where
  "json_string s = quote_char # concat (map json_char s) @ [quote_char]"

definition json_list :: "('a \<Rightarrow> string) \<Rightarrow> 'a list \<Rightarrow> string" where
  "json_list f xs = ''['' @ join '','' (map f xs) @ '']''"

section \<open>Numerals and quoting can be read back\<close>

lemma digit_chars_nth: "n < 10 \<Longrightarrow> digit_char n = digit_chars ! n"
  by (simp add: digit_char_def)

lemma digit_char_inj: "m < 10 \<Longrightarrow> n < 10 \<Longrightarrow> digit_char m = digit_char n \<longleftrightarrow> m = n"
proof -
  have "distinct digit_chars" "length digit_chars = 10" by (simp_all add: digit_chars_def)
  then show "m < 10 \<Longrightarrow> n < 10 \<Longrightarrow> digit_char m = digit_char n \<longleftrightarrow> m = n"
    by (simp add: digit_chars_nth nth_eq_iff_index_eq)
qed

lemma is_digit_digit_char: "is_digit (digit_char n)"
proof -
  have "n mod 10 < length digit_chars" by (simp add: digit_chars_def)
  then show ?thesis unfolding is_digit_def digit_char_def by (rule nth_mem)
qed

lemma show_nat_digits: "c \<in> set (show_nat n) \<Longrightarrow> is_digit c"
proof (induction n rule: show_nat.induct)
  case (1 n)
  then show ?case
    by (subst (asm) show_nat.simps) (auto simp: is_digit_digit_char split: if_splits)
qed

lemma show_nat_ne [simp]: "show_nat n \<noteq> []"
  by (subst show_nat.simps) simp

lemma show_nat_inj: "show_nat m = show_nat n \<Longrightarrow> m = n"
proof (induction m arbitrary: n rule: show_nat.induct)
  case (1 m)
  have last: "last (show_nat k) = digit_char (k mod 10)" for k
    by (subst show_nat.simps) simp
  have but: "butlast (show_nat k) = (if k < 10 then [] else show_nat (k div 10))" for k
    by (subst show_nat.simps) simp
  from 1(2) have "digit_char (m mod 10) = digit_char (n mod 10)" by (metis last)
  then have md: "m mod 10 = n mod 10" by (simp add: digit_char_inj)
  from 1(2) have b: "(if m < 10 then [] else show_nat (m div 10)) = (if n < 10 then [] else show_nat (n div 10))"
    by (metis but)
  show ?case
  proof (cases "m < 10 \<or> n < 10")
    case True
    with b have "m < 10" "n < 10"
      using show_nat_ne [of "m div 10"] show_nat_ne [of "n div 10"] by (metis (full_types))+
    with md show ?thesis by simp
  next
    case False
    with b 1(1) have "m div 10 = n div 10" by simp
    with md show ?thesis by (metis div_mult_mod_eq)
  qed
qed

lemma show_int_chars: "c \<in> set (show_int i) \<Longrightarrow> is_digit c \<or> c = CHR ''-''"
  by (auto simp: show_int_def dest: show_nat_digits split: if_splits)

lemma show_int_inj: "show_int i = show_int j \<longleftrightarrow> i = j"
proof
  assume e: "show_int i = show_int j"
  have no_minus: "show_nat n \<noteq> CHR ''-'' # s" for n s
    using show_nat_digits [of "CHR ''-''" n] by (auto simp: is_digit_def digit_chars_def)
  show "i = j"
  proof (cases "i < 0")
    case True
    with e no_minus have "j < 0" by (auto simp: show_int_def split: if_splits) metis
    with e True show_nat_inj show ?thesis by (fastforce simp: show_int_def)
  next
    case False
    with e no_minus have "\<not> j < 0" by (auto simp: show_int_def split: if_splits)
    with e False show_nat_inj show ?thesis by (fastforce simp: show_int_def)
  qed
qed simp

lemma show_int_plain:
  "CHR '':'' \<notin> set (show_int i)" "CHR '','' \<notin> set (show_int i)" "CHR '']'' \<notin> set (show_int i)"
  using show_int_chars [of _ i] by (auto simp: is_digit_def digit_chars_def)

text \<open>Splitting at a separator that one part does not contain.\<close>

lemma split_before:
  "c \<notin> set s \<Longrightarrow> c \<notin> set t \<Longrightarrow> s @ c # u = t @ c # v \<longleftrightarrow> s = t \<and> u = v"
proof (induction s arbitrary: t)
  case Nil
  then show ?case by (cases t) auto
next
  case (Cons a s)
  then show ?case by (cases t) auto
qed

lemma split_after:
  assumes "c \<notin> set u" and "c \<notin> set v"
  shows "s @ c # u = t @ c # v \<longleftrightarrow> s = t \<and> u = v"
proof -
  have "s @ c # u = t @ c # v \<longleftrightarrow> rev u @ c # rev s = rev v @ c # rev t"
    by (metis append.assoc append_Cons append_Nil rev.simps(2) rev_append rev_rev_ident)
  also have "\<dots> \<longleftrightarrow> rev u = rev v \<and> rev s = rev t"
    using assms by (intro split_before) simp_all
  finally show ?thesis by auto
qed

definition escaped_chars :: string where
  "escaped_chars = quote_char # escape_char # map char_of [0..<32::nat]"

lemma json_char_plain: "c \<notin> set escaped_chars \<Longrightarrow> json_char c = [c]"
proof -
  assume a: "c \<notin> set escaped_chars"
  have "c \<in> set (map char_of [0..<32::nat])" if "(of_char c :: nat) < 32"
    using that by (auto simp: image_iff intro!: bexI [of _ "of_char c"])
  with a show ?thesis by (auto simp: json_char_def escaped_chars_def)
qed

definition escape_texts :: "string list" where
  "escape_texts =
    [[escape_char, quote_char], [escape_char, escape_char], escape_char # ''u0000'', escape_char # ''u0001'', escape_char # ''u0002'',
     escape_char # ''u0003'', escape_char # ''u0004'', escape_char # ''u0005'', escape_char # ''u0006'', escape_char # ''u0007'',
     [escape_char, CHR ''b''], [escape_char, CHR ''t''], [escape_char, CHR ''n''], escape_char # ''u000b'', [escape_char, CHR ''f''],
     [escape_char, CHR ''r''], escape_char # ''u000e'', escape_char # ''u000f'', escape_char # ''u0010'', escape_char # ''u0011'',
     escape_char # ''u0012'', escape_char # ''u0013'', escape_char # ''u0014'', escape_char # ''u0015'', escape_char # ''u0016'',
     escape_char # ''u0017'', escape_char # ''u0018'', escape_char # ''u0019'', escape_char # ''u001a'', escape_char # ''u001b'',
     escape_char # ''u001c'', escape_char # ''u001d'', escape_char # ''u001e'', escape_char # ''u001f'']"

lemma escape_texts: "map json_char escaped_chars = escape_texts"
  by code_simp

lemma escape_texts_prefix_free:
  "distinct escape_texts \<and> list_all (\<lambda>s. hd s = escape_char \<and> tl s \<noteq> []
     \<and> list_all (\<lambda>t. take (length t) s = t \<longrightarrow> s = t) escape_texts) escape_texts"
  by code_simp

lemma json_char_escaped:
  assumes "c \<in> set escaped_chars"
  shows "hd (json_char c) = escape_char" and "tl (json_char c) \<noteq> []"
    and "d \<in> set escaped_chars \<Longrightarrow> take (length (json_char d)) (json_char c) = json_char d \<Longrightarrow> c = d"
proof -
  have mem: "json_char e \<in> set escape_texts" if "e \<in> set escaped_chars" for e
    using that by (metis escape_texts image_eqI list.set_map)
  have inj: "inj_on json_char (set escaped_chars)"
    using escape_texts_prefix_free by (metis distinct_map escape_texts)
  show "hd (json_char c) = escape_char" "tl (json_char c) \<noteq> []"
    using mem [OF assms] escape_texts_prefix_free by (auto simp: list_all_iff)
  show "c = d" if "d \<in> set escaped_chars" "take (length (json_char d)) (json_char c) = json_char d"
    using mem [OF assms] mem [OF that(1)] that escape_texts_prefix_free inj assms
    by (auto simp: list_all_iff dest: inj_onD)
qed

lemma json_char_prefix:
  assumes "json_char c @ x = json_char d @ y"
  shows "c = d \<and> x = y"
proof -
  have q: "escape_char \<in> set escaped_chars" by (simp add: escaped_chars_def)
  have esc: "\<exists>k. json_char e = escape_char # k" if "e \<in> set escaped_chars" for e
    using json_char_escaped(1,2) [OF that] by (metis hd_Cons_tl tl_Nil)
  have "c \<in> set escaped_chars \<longleftrightarrow> d \<in> set escaped_chars"
    using assms esc json_char_plain q by (metis append_Cons list.inject)
  moreover have "c = d" if e: "c \<in> set escaped_chars" "d \<in> set escaped_chars"
  proof (cases "length (json_char d) \<le> length (json_char c)")
    case True
    from assms have "take (length (json_char d)) (json_char c @ x) = json_char d" by simp
    with True have "take (length (json_char d)) (json_char c) = json_char d" by simp
    with json_char_escaped(3) [OF e(1,2)] show ?thesis by blast
  next
    case False
    from assms have "take (length (json_char c)) (json_char d @ y) = json_char c" by (metis append_eq_conv_conj)
    with False have "take (length (json_char c)) (json_char d) = json_char c" by simp
    with json_char_escaped(3) [OF e(2,1)] show ?thesis by blast
  qed
  moreover have "c = d" if "c \<notin> set escaped_chars" "d \<notin> set escaped_chars"
    using assms that by (simp add: json_char_plain)
  ultimately have "c = d" by blast
  with assms show ?thesis by simp
qed

lemma json_char_not_quote: "json_char c @ x \<noteq> quote_char # y"
proof (cases "c \<in> set escaped_chars")
  case True
  then have "hd (json_char c) = escape_char" "json_char c \<noteq> []" using json_char_escaped(1,2) by force+
  then show ?thesis by (cases "json_char c") (auto simp: quote_char_def escape_char_def)
next
  case False
  then show ?thesis by (auto simp: json_char_plain escaped_chars_def)
qed

lemma json_body_inj:
  "concat (map json_char s) @ quote_char # x = concat (map json_char t) @ quote_char # y \<longleftrightarrow> s = t \<and> x = y"
proof (induction s arbitrary: t)
  case Nil
  then show ?case using json_char_not_quote by (cases t) (auto, metis)
next
  case (Cons a s)
  show ?case
  proof (cases t)
    case Nil
    then show ?thesis using json_char_not_quote by auto
  next
    case (Cons b t')
    then show ?thesis using Cons.IH [of t'] json_char_prefix [of a _ b] by auto
  qed
qed

lemma json_string_inj: "json_string s @ x = json_string t @ y \<longleftrightarrow> s = t \<and> x = y"
  using json_body_inj by (simp add: json_string_def)

lemma json_string_inj' [simp]: "json_string s = json_string t \<longleftrightarrow> s = t"
  using json_string_inj [of s "[]" t "[]"] by simp

section \<open>Lists can be read back\<close>

text \<open>A text that can be told from what follows it in a list.\<close>

definition self_delimiting :: "('a \<Rightarrow> string) \<Rightarrow> bool" where
  "self_delimiting f \<longleftrightarrow> (\<forall>a b c d u v. c \<in> {CHR '','', CHR '']''} \<longrightarrow> d \<in> {CHR '','', CHR '']''} \<longrightarrow>
     f a @ c # u = f b @ d # v \<longrightarrow> a = b \<and> c = d \<and> u = v) \<and> (\<forall>a u v. f a @ u \<noteq> CHR '']'' # v)"

fun json_rest :: "('a \<Rightarrow> string) \<Rightarrow> 'a list \<Rightarrow> string" where
  "json_rest f [] = '']''"
| "json_rest f (x # xs) = CHR '','' # f x @ json_rest f xs"

lemma json_list_rest:
  "json_list f [] = ''[]''" "json_list f (x # xs) = CHR ''['' # f x @ json_rest f xs"
proof -
  have "join '','' (map f (x # xs)) @ '']'' = f x @ json_rest f xs" for x xs
    by (induction xs arbitrary: x) simp_all
  then show "json_list f [] = ''[]''" "json_list f (x # xs) = CHR ''['' # f x @ json_rest f xs"
    by (simp_all add: json_list_def)
qed

lemma json_rest_start: "\<exists>c u. json_rest f xs = c # u \<and> c \<in> {CHR '','', CHR '']''}"
  by (cases xs) auto

lemma self_delimiting_rest:
  assumes "self_delimiting f" and "f a @ json_rest f xs @ x = f b @ json_rest f ys @ y"
  shows "a = b \<and> json_rest f xs @ x = json_rest f ys @ y"
proof -
  obtain c u d v where "json_rest f xs = c # u" "json_rest f ys = d # v" "c \<in> {CHR '','', CHR '']''}" "d \<in> {CHR '','', CHR '']''}"
    using json_rest_start [of f] by meson
  with assms show ?thesis unfolding self_delimiting_def by (metis append_Cons)
qed

lemma json_rest_inj:
  assumes "self_delimiting f"
  shows "json_rest f xs @ x = json_rest f ys @ y \<Longrightarrow> xs = ys \<and> x = y"
proof (induction xs arbitrary: ys)
  case Nil
  then show ?case by (cases ys) auto
next
  case (Cons a xs)
  then obtain b zs where ys: "ys = b # zs" by (cases ys) auto
  with Cons.prems have "a = b \<and> json_rest f xs @ x = json_rest f zs @ y"
    by (intro self_delimiting_rest [OF assms]) simp
  with Cons.IH ys show ?case by auto
qed

lemma json_list_inj:
  assumes "self_delimiting f"
  shows "json_list f xs @ x = json_list f ys @ y \<longleftrightarrow> xs = ys \<and> x = y"
proof
  assume e: "json_list f xs @ x = json_list f ys @ y"
  have start: "f a @ u \<noteq> CHR '']'' # v" for a u v using assms by (simp add: self_delimiting_def)
  show "xs = ys \<and> x = y"
  proof (cases xs; cases ys)
    fix a as b bs assume "xs = a # as" "ys = b # bs"
    with e self_delimiting_rest [OF assms, of a as x b bs y] json_rest_inj [OF assms, of as x bs y]
    show ?thesis by (simp add: json_list_rest)
  qed (use e start in \<open>auto simp: json_list_rest dest: sym\<close>)
qed simp

lemma split_at_marks:
  assumes "\<forall>x \<in> set s \<union> set t. \<not> M x" and "M c" and "M d"
  shows "s @ c # u = t @ d # v \<longleftrightarrow> s = t \<and> c = d \<and> u = v"
  using assms
proof (induction s arbitrary: t)
  case Nil
  then show ?case by (cases t) auto
next
  case (Cons a s)
  then show ?case by (cases t) auto
qed

lemma show_int_start: "show_int a @ u \<noteq> CHR '']'' # v"
proof -
  have "show_int a \<noteq> []" by (simp add: show_int_def)
  then show ?thesis using show_int_plain(3) [of a] by (cases "show_int a") auto
qed

lemma self_delimiting_int: "self_delimiting show_int"
proof -
  have "a = b \<and> c = d \<and> u = v"
    if e: "c \<in> {CHR '','', CHR '']''}" "d \<in> {CHR '','', CHR '']''}" "show_int a @ c # u = show_int b @ d # v" for a b c d u v
  proof -
    have "\<forall>x \<in> set (show_int a) \<union> set (show_int b). x \<notin> {CHR '','', CHR '']''}"
      using show_int_plain by auto
    from split_at_marks [OF this e(1,2)] e(3) show ?thesis by (simp add: show_int_inj)
  qed
  then show ?thesis using show_int_start unfolding self_delimiting_def by blast
qed

lemma self_delimiting_string: "self_delimiting json_string"
  unfolding self_delimiting_def json_string_inj by (auto simp: json_string_def quote_char_def)

lemma json_strings_inj [simp]: "json_list json_string xs @ x = json_list json_string ys @ y \<longleftrightarrow> xs = ys \<and> x = y"
  by (rule json_list_inj [OF self_delimiting_string])

lemma join_ints_inj: "join '','' (map show_int xs) = join '','' (map show_int ys) \<longleftrightarrow> xs = ys"
  using json_list_inj [OF self_delimiting_int, of xs "[]" ys "[]"] by (auto simp: json_list_def)

end
