(* ===== verification/ThumbnailModel.thy ===== *)
theory ThumbnailModel
  imports CoreTypes JsonText
begin

text \<open>
  \<^verbatim>\<open>src/src/thumbnail/model.ts\<close> and \<^verbatim>\<open>memoryCost.ts\<close>: what a thumbnail request names, the identity under
  which requests for one picture are merged, and what a picture costs in memory. The main fact is that the
  identity names the picture: two keys share one exactly when they differ in nothing but the source hint and the
  fixture fallback. The identity of a review page goes through \<^verbatim>\<open>JSON.stringify\<close>, whose quoting is that of \<open>JsonText\<close>.
\<close>

section \<open>Keys and requests\<close>

datatype thumbnail_consumer = ForExplore | ForDownloads | ForDetail | ForReview

datatype thumbnail_priority = Critical | Visible | Prefetch

datatype review_side = ExistingSide | IncomingSide

datatype thumbnail_key =
    GalleryCover gallery_id "string option" "int option"
  | SourcePage gallery_id int "string option" "int option"
  | ArtifactPage string int "int option"
  | OverlapReviewPage string string int review_side int "int option"

record thumbnail_request =
  tr_key :: thumbnail_key
  tr_consumer :: thumbnail_consumer
  tr_priority :: thumbnail_priority

text \<open>\<^verbatim>\<open>((value % 6) + 6) % 6\<close>, and 0 for a number that is no integer.\<close>

definition normalizedFixtureCell :: "js_num \<Rightarrow> int" where
  "normalizedFixtureCell v =
     (case v of
        Num r \<Rightarrow> if rat_is_int r then js_mod (js_mod (floor r) 6 + 6) 6 else 0
      | _ \<Rightarrow> 0)"

definition int_num :: "int \<Rightarrow> js_num" where
  "int_num i = Num (of_int i)"

text \<open>\<^verbatim>\<open>gallery.thumbnailKey?.trim() ? ... : {}\<close>.\<close>

definition source_key :: "gallery \<Rightarrow> string option" where
  "source_key g =
     (case g_thumbnailKey g of Some k \<Rightarrow> if trim k \<noteq> [] then Some (trim k) else None | None \<Rightarrow> None)"

definition page_number :: "js_num \<Rightarrow> int option" where
  "page_number p = (case p of Num r \<Rightarrow> if rat_is_int r \<and> 1 \<le> r then Some (floor r) else None | _ \<Rightarrow> None)"

datatype range_error = BadSourcePage | EmptyEntryId | BadArtifactPage | BadReviewPage

definition artifactPageThumbnailKey ::
  "string \<Rightarrow> js_num \<Rightarrow> js_num option \<Rightarrow> range_error + thumbnail_key" where
  "artifactPageThumbnailKey entryId page fallbackIndex =
     (if trim entryId = [] then Inl EmptyEntryId
      else case page_number page of
        None \<Rightarrow> Inl BadArtifactPage
      | Some p \<Rightarrow>
          Inr (ArtifactPage (trim entryId) p
            (Some (normalizedFixtureCell (or_value fallbackIndex (int_num (p - 1)))))))"

text \<open>The saved page that stands for a finished download, when there is one.\<close>

definition representative_page :: "gallery \<Rightarrow> (string \<times> int) option" where
  "representative_page g =
     (case g_representativePreview g of
        None \<Rightarrow> None
      | Some p \<Rightarrow>
          (case (gp_sourcePage p, gp_entryId p, g_download g) of
             (Some page, Some e, Some d) \<Rightarrow>
               if page \<noteq> 0 \<and> e \<noteq> [] \<and> d_entryId d = e \<and> d_state d = Completed then Some (e, page) else None
           | _ \<Rightarrow> None))"

definition galleryCoverThumbnailKey :: "gallery \<Rightarrow> range_error + thumbnail_key" where
  "galleryCoverThumbnailKey g =
     (case representative_page g of
        Some (e, page) \<Rightarrow> artifactPageThumbnailKey e (int_num page) (Some (int_num (g_coverIndex g)))
      | None \<Rightarrow>
          Inr (GalleryCover (g_id g) (source_key g) (Some (normalizedFixtureCell (int_num (g_coverIndex g))))))"

definition sourcePageThumbnailKey :: "gallery \<Rightarrow> js_num \<Rightarrow> range_error + thumbnail_key" where
  "sourcePageThumbnailKey g page =
     (case page_number page of
        None \<Rightarrow> Inl BadSourcePage
      | Some p \<Rightarrow>
          Inr (SourcePage (g_id g) p (source_key g)
            (Some (normalizedFixtureCell (int_num (g_coverIndex g + p - 1))))))"

definition revision_number :: "js_num \<Rightarrow> int option" where
  "revision_number n =
     (case n of Num r \<Rightarrow> if is_safe_integer (Num r) \<and> 0 \<le> r then Some (floor r) else None | _ \<Rightarrow> None)"

definition overlapReviewPageThumbnailKey ::
  "string \<Rightarrow> string \<Rightarrow> js_num \<Rightarrow> review_side \<Rightarrow> js_num \<Rightarrow> js_num option \<Rightarrow> range_error + thumbnail_key" where
  "overlapReviewPageThumbnailKey reviewId candidateId reviewRevision side page fallbackIndex =
     (if trim reviewId = [] \<or> trim candidateId = [] then Inl BadReviewPage
      else case (revision_number reviewRevision, page_number page) of
        (Some n, Some p) \<Rightarrow>
          Inr (OverlapReviewPage reviewId candidateId n side p
            (Some (normalizedFixtureCell (or_value fallbackIndex (int_num (p - 1))))))
      | _ \<Rightarrow> Inl BadReviewPage)"

fun thumbnailConsumerForView :: "view_id \<Rightarrow> thumbnail_consumer" where
  "thumbnailConsumerForView Downloads = ForDownloads"
| "thumbnailConsumerForView AutoFind = ForReview"
| "thumbnailConsumerForView Explore = ForExplore"

section \<open>The identity of a key\<close>

fun side_name :: "review_side \<Rightarrow> string" where
  "side_name ExistingSide = ''existing''"
| "side_name IncomingSide = ''incoming''"

fun thumbnailKeyIdentity :: "thumbnail_key \<Rightarrow> string" where
  "thumbnailKeyIdentity (GalleryCover g _ _) = ''gallery-cover:'' @ show_int g"
| "thumbnailKeyIdentity (SourcePage g p _ _) = ''source-page:'' @ show_int g @ '':'' @ show_int p"
| "thumbnailKeyIdentity (OverlapReviewPage r c n side p _) =
     ''overlap-review-page:['' @ json_string r @ '','' @ json_string c @ '','' @ show_int n @ '',''
       @ json_string (side_name side) @ '','' @ show_int p @ '']''"
| "thumbnailKeyIdentity (ArtifactPage e p _) = ''artifact-page:'' @ e @ '':'' @ show_int p"

section \<open>Pictures\<close>

datatype thumbnail_asset =
    ImageAsset string js_num js_num "js_num option"
  | SpriteAsset string js_num js_num js_num js_num js_num
  | MissingAsset "string option"

text \<open>The cost of a picture the client has validated: its dimensions are finite.\<close>

fun num_value :: "js_num \<Rightarrow> rat" where
  "num_value (Num r) = r"
| "num_value _ = 0"

definition memory_cost :: "rat \<Rightarrow> rat option \<Rightarrow> rat" where
  "memory_cost pixels encoded =
     min (of_int max_safe_integer)
       (of_int (ceiling (pixels * 4))
        + (case encoded of Some b \<Rightarrow> b | None \<Rightarrow> max (16 * 1024) (of_int (ceiling (pixels / 2)))))"

fun thumbnailMemoryCost :: "thumbnail_asset \<Rightarrow> rat" where
  "thumbnailMemoryCost (MissingAsset _) = 1024"
| "thumbnailMemoryCost (ImageAsset _ w h b) = memory_cost (num_value w * num_value h) (map_option num_value b)"
| "thumbnailMemoryCost (SpriteAsset _ w h _ _ _) = memory_cost (num_value w * num_value h) None"

section \<open>The picture of a key\<close>

text \<open>A key without what its identity leaves out.\<close>

fun bare_key :: "thumbnail_key \<Rightarrow> thumbnail_key" where
  "bare_key (GalleryCover g _ _) = GalleryCover g None None"
| "bare_key (SourcePage g p _ _) = SourcePage g p None None"
| "bare_key (ArtifactPage e p _) = ArtifactPage e p None"
| "bare_key (OverlapReviewPage r c n side p _) = OverlapReviewPage r c n side p None"

lemma review_identity_inj:
  "thumbnailKeyIdentity (OverlapReviewPage r c n s p f) = thumbnailKeyIdentity (OverlapReviewPage r' c' n' s' p' f')
   \<longleftrightarrow> r = r' \<and> c = c' \<and> n = n' \<and> s = s' \<and> p = p'"
proof -
  have "side_name s = side_name s' \<longleftrightarrow> s = s'" by (cases s; cases s') simp_all
  then show ?thesis
    by (simp add: json_string_inj split_before show_int_plain show_int_inj)
qed

lemma identity_iff:
  "thumbnailKeyIdentity k = thumbnailKeyIdentity k' \<longleftrightarrow> bare_key k = bare_key k'"
proof (cases k; cases k')
  fix g s f g' s' f'
  assume "k = GalleryCover g s f" "k' = GalleryCover g' s' f'"
  then show ?thesis by (simp add: show_int_inj)
next
  fix g p s f g' p' s' f'
  assume "k = SourcePage g p s f" "k' = SourcePage g' p' s' f'"
  then show ?thesis by (simp add: split_after show_int_plain show_int_inj)
next
  fix e p f e' p' f'
  assume "k = ArtifactPage e p f" "k' = ArtifactPage e' p' f'"
  then show ?thesis by (simp add: split_after show_int_plain show_int_inj)
next
  fix r c n s p f r' c' n' s' p' f'
  assume "k = OverlapReviewPage r c n s p f" "k' = OverlapReviewPage r' c' n' s' p' f'"
  then show ?thesis by (simp only: review_identity_inj bare_key.simps thumbnail_key.inject simp_thms)
qed simp_all

section \<open>Properties\<close>

text \<open>The identity under which thumbnail requests are merged names the picture: two keys have the same one
  exactly when they are of the same kind and agree on everything but the source hint and the fixture fallback,
  whatever characters the entry, review and candidate ids hold.\<close>

theorem identity_names_picture:
  "thumbnailKeyIdentity k = thumbnailKeyIdentity k' \<longleftrightarrow> bare_key k = bare_key k'"
  by (rule identity_iff)

text \<open>The cell of the fixture sheet is always one of its six cells.\<close>

theorem fixture_cell_bounds: "normalizedFixtureCell v \<in> {0..<6}"
proof (cases v)
  case (Num r)
  have "- 6 < js_mod (floor r) 6" "js_mod (floor r) 6 < 6" using js_mod_bounds [of 6 "floor r"] by simp_all
  then show ?thesis using Num by (simp add: normalizedFixtureCell_def js_mod_nonneg)
qed (simp_all add: normalizedFixtureCell_def)

end
