(* ===== verification/ThumbnailClient.thy ===== *)
theory ThumbnailClient
  imports ThumbnailModel
begin

text \<open>
  \<^verbatim>\<open>src/src/thumbnail/client.ts\<close>: the registry that merges the subscriptions to one picture, retries
  transient failures, keeps a few display handles after their last subscriber left, and gives every handle back.

  An entry object is known by its number, so a resolution or timer of an entry that was replaced is told apart
  from the present one; \<^verbatim>\<open>active\<close> is membership in the map. A timer is a flag that says it is armed, and
  its firing is an event. The adapter is a parameter: what its \<open>n\<close>-th \<^verbatim>\<open>resolve\<close> returns (a picture, a
  promise or an exception); its other hooks are best-effort, and their calls are logged as effects. Listeners are
  numbers whose calls are logged; they do not call the client back before it returns.
\<close>

section \<open>State\<close>

record thumbnail_error =
  te_name :: string
  te_message :: string
  te_retryable :: bool

text \<open>A rejection is an \<^verbatim>\<open>Error\<close> or some other value.\<close>

type_synonym rejection = "thumbnail_error option"

datatype resolution = Now thumbnail_asset | Promised | Thrown rejection

record thumbnail_adapter =
  ad_resolve :: "nat \<Rightarrow> thumbnail_request \<Rightarrow> resolution"

datatype thumbnail_snapshot =
    Idle | Loading | Resolved thumbnail_asset | ErrorShown string "string option"

record thumbnail_entry =
  en_uid :: nat
  en_version :: nat
  en_retryTimer :: bool
  en_orphanTimer :: bool
  en_retainedTimer :: bool
  en_retained :: bool
  en_lastUsed :: nat
  en_retryable :: bool
  en_priorityRetry :: bool
  en_displayFailures :: nat
  en_snapshot :: thumbnail_snapshot
  en_request :: thumbnail_request
  en_listeners :: "nat list"

text \<open>A promise of the adapter that has not settled, with the entry and version it is for.\<close>

record pending_resolution =
  pn_identity :: string
  pn_uid :: nat
  pn_version :: nat

datatype client_effect =
    Delivered string thumbnail_asset
  | ReleaseHandle string thumbnail_asset
  | CancelRequest string
  | Reprioritize thumbnail_request
  | ReportFailure thumbnail_request string
  | Notified nat

record thumbnail_client =
  cl_entries :: "(string \<times> thumbnail_entry) list"
  cl_sequence :: nat
  cl_uids :: nat
  cl_resolves :: nat
  cl_pending :: "pending_resolution list"
  cl_effects :: "client_effect list"

definition new_client :: thumbnail_client where
  "new_client = \<lparr>cl_entries = [], cl_sequence = 0, cl_uids = 0, cl_resolves = 0, cl_pending = [], cl_effects = []\<rparr>"

definition retained_capacity :: nat where "retained_capacity = 256"

definition retained_byte_budget :: rat where "retained_byte_budget = 64 * 1024 * 1024"

fun priorityRank :: "thumbnail_priority \<Rightarrow> nat" where
  "priorityRank Prefetch = 0"
| "priorityRank Visible = 1"
| "priorityRank Critical = 2"

fun retainsDisplayHandle :: "thumbnail_key \<Rightarrow> bool" where
  "retainsDisplayHandle (SourcePage _ _ _ _) = False"
| "retainsDisplayHandle (OverlapReviewPage _ _ _ _ _ _) = False"
| "retainsDisplayHandle _ = True"

definition retryableThumbnailErrorNames :: "string list" where
  "retryableThumbnailErrorNames =
     [''THUMBNAIL_cancelled'', ''THUMBNAIL_temporarilyUnavailable'', ''THUMBNAIL_resolver'',
      ''THUMBNAIL_coordinatorClosed'', ''THUMBNAIL_COORDINATOR_CLOSED'', ''THUMBNAIL_COMPLETION_TIMEOUT'',
      ''THUMBNAIL_WORKER_UNAVAILABLE'']"

section \<open>Checking what the adapter returns\<close>

definition validPositiveDimension :: "js_num \<Rightarrow> bool" where
  "validPositiveDimension n \<longleftrightarrow> is_finite n \<and> js_lt (Num 0) n"

definition byte_length_ok :: "js_num option \<Rightarrow> bool" where
  "byte_length_ok b = (case b of Some n \<Rightarrow> is_safe_integer n \<and> js_le (Num 0) n | None \<Rightarrow> True)"

fun validatedAsset :: "thumbnail_asset \<Rightarrow> string + thumbnail_asset" where
  "validatedAsset (ImageAsset url w h b) =
     (if trim url = [] then Inl ''Thumbnail adapter returned an empty image URL''
      else if \<not> validPositiveDimension w \<or> \<not> validPositiveDimension h
        then Inl ''Thumbnail adapter returned invalid intrinsic dimensions''
      else if \<not> byte_length_ok b then Inl ''Thumbnail adapter returned an invalid byte length''
      else Inr (ImageAsset url w h b))"
| "validatedAsset (SpriteAsset url w h columns rows cell) =
     (if trim url = [] then Inl ''Thumbnail adapter returned an empty sprite URL''
      else if \<not> validPositiveDimension w \<or> \<not> validPositiveDimension h
          \<or> \<not> is_integer columns \<or> js_lt columns (Num 1) \<or> \<not> is_integer rows \<or> js_lt rows (Num 1)
          \<or> \<not> is_integer cell \<or> js_lt cell (Num 0) \<or> num_value columns * num_value rows \<le> num_value cell
        then Inl ''Thumbnail adapter returned invalid sprite metadata''
      else Inr (SpriteAsset url w h columns rows cell))"
| "validatedAsset (MissingAsset reason) = Inr (MissingAsset reason)"

definition errorMessage :: "rejection \<Rightarrow> string" where
  "errorMessage err =
     (case err of Some e \<Rightarrow> if trim (te_message e) \<noteq> [] then te_message e else ''Thumbnail resolution failed''
      | None \<Rightarrow> ''Thumbnail resolution failed'')"

definition isRetryableThumbnailError :: "rejection \<Rightarrow> bool" where
  "isRetryableThumbnailError err =
     (case err of Some e \<Rightarrow> te_retryable e \<or> te_name e \<in> set retryableThumbnailErrorNames | None \<Rightarrow> False)"

definition thumbnailErrorCode :: "rejection \<Rightarrow> string option" where
  "thumbnailErrorCode err =
     (case err of Some e \<Rightarrow> if starts_with ''THUMBNAIL_'' (te_name e) then Some (te_name e) else None | None \<Rightarrow> None)"

definition plain_error :: "string \<Rightarrow> rejection" where
  "plain_error m = Some \<lparr>te_name = ''Error'', te_message = m, te_retryable = False\<rparr>"

section \<open>Publishing and resolving\<close>

definition log_effects :: "client_effect list \<Rightarrow> thumbnail_client \<Rightarrow> thumbnail_client" where
  "log_effects es c = c\<lparr>cl_effects := cl_effects c @ es\<rparr>"

definition put_entry :: "string \<Rightarrow> thumbnail_entry \<Rightarrow> thumbnail_client \<Rightarrow> thumbnail_client" where
  "put_entry i e c = c\<lparr>cl_entries := AList.update i e (cl_entries c)\<rparr>"

definition publish :: "string \<Rightarrow> thumbnail_entry \<Rightarrow> thumbnail_snapshot \<Rightarrow> thumbnail_client \<Rightarrow> thumbnail_client" where
  "publish i e snap c = log_effects (map Notified (en_listeners e)) (put_entry i (e\<lparr>en_snapshot := snap\<rparr>) c)"

fun is_error :: "thumbnail_snapshot \<Rightarrow> bool" where
  "is_error (ErrorShown _ _) = True"
| "is_error _ = False"

definition may_retry :: "thumbnail_entry \<Rightarrow> bool" where
  "may_retry e \<longleftrightarrow> en_listeners e \<noteq> [] \<and> en_retryable e \<and> is_error (en_snapshot e)"

definition scheduleRetry :: "thumbnail_entry \<Rightarrow> thumbnail_entry" where
  "scheduleRetry e = (if may_retry e then e\<lparr>en_retryTimer := True\<rparr> else e)"

definition fail :: "string \<Rightarrow> thumbnail_entry \<Rightarrow> rejection \<Rightarrow> thumbnail_client \<Rightarrow> thumbnail_client" where
  "fail i e err c =
     (let e1 = e\<lparr>en_retryable := isRetryableThumbnailError err,
                 en_snapshot := ErrorShown (errorMessage err) (thumbnailErrorCode err)\<rparr>
      in log_effects (map Notified (en_listeners e)) (put_entry i (scheduleRetry e1) c))"

definition settle :: "string \<Rightarrow> thumbnail_entry \<Rightarrow> thumbnail_asset \<Rightarrow> thumbnail_client \<Rightarrow> thumbnail_client" where
  "settle i e a c =
     publish i (e\<lparr>en_retryTimer := False, en_retryable := False, en_priorityRetry := False\<rparr>) (Resolved a) c"

definition resolve :: "thumbnail_adapter \<Rightarrow> string \<Rightarrow> thumbnail_entry \<Rightarrow> thumbnail_client \<Rightarrow> thumbnail_client" where
  "resolve ad i e c =
     (let e1 = e\<lparr>en_version := Suc (en_version e)\<rparr>;
          c1 = c\<lparr>cl_resolves := Suc (cl_resolves c)\<rparr>
      in case ad_resolve ad (cl_resolves c) (en_request e) of
           Promised \<Rightarrow>
             put_entry i e1 (c1\<lparr>cl_pending := cl_pending c
               @ [\<lparr>pn_identity = i, pn_uid = en_uid e1, pn_version = en_version e1\<rparr>]\<rparr>)
         | Thrown err \<Rightarrow> fail i e1 err c1
         | Now a \<Rightarrow>
             (let c2 = log_effects [Delivered i a] c1
              in case validatedAsset a of
                   Inl m \<Rightarrow> fail i e1 (plain_error m) c2
                 | Inr v \<Rightarrow> settle i e1 v c2))"

definition beginRetry :: "thumbnail_adapter \<Rightarrow> string \<Rightarrow> thumbnail_entry \<Rightarrow> thumbnail_client \<Rightarrow> thumbnail_client" where
  "beginRetry ad i e c =
     (if \<not> may_retry e then put_entry i e c
      else
        let e1 = e\<lparr>en_retryTimer := False, en_retryable := False, en_snapshot := Loading\<rparr>
        in resolve ad i e1 (log_effects (map Notified (en_listeners e)) (put_entry i e1 c)))"

section \<open>Cleaning up and retaining\<close>

definition farewell :: "string \<Rightarrow> thumbnail_entry \<Rightarrow> client_effect list" where
  "farewell i e =
     (case en_snapshot e of Loading \<Rightarrow> [CancelRequest i] | Resolved a \<Rightarrow> [ReleaseHandle i a] | _ \<Rightarrow> [])"

definition cleanup :: "string \<Rightarrow> thumbnail_entry \<Rightarrow> thumbnail_client \<Rightarrow> thumbnail_client" where
  "cleanup i e c = log_effects (farewell i e) (c\<lparr>cl_entries := AList.delete i (cl_entries c)\<rparr>)"

definition kept :: "thumbnail_entry \<Rightarrow> bool" where
  "kept e \<longleftrightarrow> en_retained e \<and> en_listeners e = []"

definition entry_cost :: "thumbnail_entry \<Rightarrow> rat" where
  "entry_cost e = (if kept e then (case en_snapshot e of Resolved a \<Rightarrow> thumbnailMemoryCost a | _ \<Rightarrow> 0) else 0)"

definition retained_count :: "(string \<times> thumbnail_entry) list \<Rightarrow> nat" where
  "retained_count = map_total (\<lambda>e. of_bool (kept e))"

definition retained_bytes :: "(string \<times> thumbnail_entry) list \<Rightarrow> rat" where
  "retained_bytes = map_total entry_cost"

definition within_budget :: "(string \<times> thumbnail_entry) list \<Rightarrow> bool" where
  "within_budget es \<longleftrightarrow> retained_count es \<le> retained_capacity \<and> retained_bytes es \<le> retained_byte_budget"

definition older :: "(string \<times> thumbnail_entry) option \<Rightarrow> string \<times> thumbnail_entry \<Rightarrow> (string \<times> thumbnail_entry) option" where
  "older best ie =
     (if \<not> kept (snd ie) then best
      else case best of
        None \<Rightarrow> Some ie
      | Some b \<Rightarrow> if en_lastUsed (snd ie) < en_lastUsed (snd b) then Some ie else best)"

definition oldest_kept :: "(string \<times> thumbnail_entry) list \<Rightarrow> (string \<times> thumbnail_entry) option" where
  "oldest_kept es = foldl older None es"

lemma older_run: "foldl older best es = Some ie \<Longrightarrow> best = Some ie \<or> (ie \<in> set es \<and> kept (snd ie))"
proof (induction es arbitrary: best)
  case (Cons x es)
  from Cons.prems have "older best x = Some ie \<or> (ie \<in> set es \<and> kept (snd ie))" by (auto dest: Cons.IH)
  then show ?case by (auto simp: older_def split: if_splits option.splits)
qed simp

lemma oldest_kept_Some: "oldest_kept es = Some ie \<Longrightarrow> ie \<in> set es \<and> kept (snd ie)"
  using older_run [of None es ie] by (simp add: oldest_kept_def)

function evictRetainedEntries :: "thumbnail_client \<Rightarrow> thumbnail_client" where
  "evictRetainedEntries c =
     (if within_budget (cl_entries c) then c
      else case oldest_kept (cl_entries c) of
        None \<Rightarrow> c
      | Some ie \<Rightarrow> evictRetainedEntries (cleanup (fst ie) (snd ie) c))"
  by pat_completeness auto
termination
proof (relation "measure (\<lambda>c. length (cl_entries c))")
  fix c :: thumbnail_client and ie
  assume "oldest_kept (cl_entries c) = Some ie"
  then have "fst ie \<in> set (keys (cl_entries c))" using oldest_kept_Some by fastforce
  then show "(cleanup (fst ie) (snd ie) c, c) \<in> measure (\<lambda>c. length (cl_entries c))"
    using length_delete_less by (simp add: cleanup_def log_effects_def)
qed simp

declare evictRetainedEntries.simps [simp del]

definition retain :: "string \<Rightarrow> thumbnail_entry \<Rightarrow> thumbnail_client \<Rightarrow> thumbnail_client" where
  "retain i e c =
     evictRetainedEntries
       (put_entry i (e\<lparr>en_retained := True, en_lastUsed := Suc (cl_sequence c), en_retainedTimer := True\<rparr>)
          (c\<lparr>cl_sequence := Suc (cl_sequence c)\<rparr>))"

definition scheduleOrphanCleanup :: "string \<Rightarrow> thumbnail_entry \<Rightarrow> thumbnail_client \<Rightarrow> thumbnail_client" where
  "scheduleOrphanCleanup i e c =
     (if en_listeners e \<noteq> [] \<or> en_orphanTimer e then put_entry i e c
      else case tr_key (en_request e) of
        OverlapReviewPage _ _ _ _ _ _ \<Rightarrow> cleanup i e c
      | _ \<Rightarrow> put_entry i (e\<lparr>en_orphanTimer := True\<rparr>) c)"

section \<open>Subscriptions\<close>

definition getSnapshot :: "thumbnail_client \<Rightarrow> thumbnail_key \<Rightarrow> thumbnail_snapshot" where
  "getSnapshot c k =
     (case map_of (cl_entries c) (thumbnailKeyIdentity k) of Some e \<Rightarrow> en_snapshot e | None \<Rightarrow> Idle)"

definition new_entry :: "nat \<Rightarrow> thumbnail_request \<Rightarrow> nat \<Rightarrow> thumbnail_entry" where
  "new_entry uid request l =
     \<lparr>en_uid = uid, en_version = 0, en_retryTimer = False, en_orphanTimer = False, en_retainedTimer = False,
      en_retained = False, en_lastUsed = 0, en_retryable = False, en_priorityRetry = False,
      en_displayFailures = 0, en_snapshot = Loading, en_request = request, en_listeners = [l]\<rparr>"

text \<open>Joining an entry: timers are cleared, the request may be replaced, the listener is added.\<close>

definition joined :: "thumbnail_request \<Rightarrow> nat \<Rightarrow> thumbnail_entry \<Rightarrow> thumbnail_entry" where
  "joined request l e =
     e\<lparr>en_orphanTimer := False, en_retainedTimer := False, en_retained := False,
       en_request := (if en_retained e then request else en_request e),
       en_listeners := set_add l (en_listeners e)\<rparr>"

definition subscribe ::
  "thumbnail_adapter \<Rightarrow> thumbnail_request \<Rightarrow> nat \<Rightarrow> thumbnail_client \<Rightarrow> thumbnail_client" where
  "subscribe ad request l c =
     (let i = thumbnailKeyIdentity (tr_key request)
      in case map_of (cl_entries c) i of
           None \<Rightarrow>
             let e = new_entry (cl_uids c) request l
             in resolve ad i e (put_entry i e (c\<lparr>cl_uids := Suc (cl_uids c)\<rparr>))
         | Some e \<Rightarrow>
             let e1 = joined request l e;
                 promoted = priorityRank (tr_priority (en_request e1)) < priorityRank (tr_priority request);
                 e2 = (if promoted then e1\<lparr>en_request := request\<rparr> else e1);
                 c1 = (if promoted then log_effects [Reprioritize request] c else c)
             in if is_error (en_snapshot e2) \<and> en_retryable e2 \<and> tr_priority request \<noteq> Prefetch
                   \<and> \<not> en_priorityRetry e2
                then beginRetry ad i (e2\<lparr>en_priorityRetry := True\<rparr>) c1
                else put_entry i (scheduleRetry e2) c1)"

text \<open>The function \<^verbatim>\<open>subscribe\<close> returns, for the entry it captured.\<close>

definition unsubscribe :: "string \<Rightarrow> nat \<Rightarrow> nat \<Rightarrow> thumbnail_client \<Rightarrow> thumbnail_client" where
  "unsubscribe i uid l c =
     (case map_of (cl_entries c) i of
        None \<Rightarrow> c
      | Some e \<Rightarrow>
          if en_uid e \<noteq> uid then c
          else
            let e1 = e\<lparr>en_listeners := set_delete l (en_listeners e)\<rparr>
            in if en_listeners e1 = [] then scheduleOrphanCleanup i e1 c else put_entry i e1 c)"

definition cleanup_each :: "(string \<times> thumbnail_entry) list \<Rightarrow> thumbnail_client \<Rightarrow> thumbnail_client" where
  "cleanup_each ies c = foldl (\<lambda>d ie. cleanup (fst ie) (snd ie) d) c ies"

definition dispose :: "thumbnail_client \<Rightarrow> thumbnail_client" where
  "dispose c = cleanup_each (cl_entries c) c"

definition recreatable :: "thumbnail_entry \<Rightarrow> bool" where
  "recreatable e \<longleftrightarrow>
     en_listeners e = [] \<and> (case en_snapshot e of Resolved _ \<Rightarrow> True | _ \<Rightarrow> False)
     \<and> retainsDisplayHandle (tr_key (en_request e))"

definition clearRetainedCache :: "thumbnail_client \<Rightarrow> thumbnail_client \<times> nat" where
  "clearRetainedCache c =
     (let ies = filter (\<lambda>ie. recreatable (snd ie)) (cl_entries c) in (cleanup_each ies c, length ies))"

definition invalidated :: "thumbnail_entry \<Rightarrow> thumbnail_entry" where
  "invalidated e =
     e\<lparr>en_version := Suc (en_version e), en_retryTimer := False, en_orphanTimer := False,
       en_retainedTimer := False, en_retained := False, en_retryable := False, en_priorityRetry := False,
       en_displayFailures := 0\<rparr>"

definition invalidate_entry :: "thumbnail_adapter \<Rightarrow> thumbnail_client \<Rightarrow> string \<times> thumbnail_entry \<Rightarrow> thumbnail_client" where
  "invalidate_entry ad c ie =
     (case map_of (cl_entries c) (fst ie) of
        None \<Rightarrow> c
      | Some e \<Rightarrow>
          if en_uid e \<noteq> en_uid (snd ie) then c
          else if en_listeners e = [] then cleanup (fst ie) e c
          else
            let e1 = (invalidated e)\<lparr>en_snapshot := Loading\<rparr>;
                c1 = log_effects (farewell (fst ie) e @ map Notified (en_listeners e)) (put_entry (fst ie) e1 c)
            in resolve ad (fst ie) e1 c1)"

definition invalidate ::
  "thumbnail_adapter \<Rightarrow> (thumbnail_key \<Rightarrow> bool) \<Rightarrow> thumbnail_client \<Rightarrow> thumbnail_client \<times> nat" where
  "invalidate ad P c =
     (let matches = filter (\<lambda>ie. P (tr_key (en_request (snd ie)))) (cl_entries c)
      in (foldl (invalidate_entry ad) c matches, length matches))"

definition release_shown :: "string \<Rightarrow> thumbnail_entry \<Rightarrow> client_effect list" where
  "release_shown i e = (case en_snapshot e of Resolved a \<Rightarrow> [ReleaseHandle i a] | _ \<Rightarrow> [])"

definition reportDisplayFailure :: "thumbnail_request \<Rightarrow> string \<Rightarrow> thumbnail_client \<Rightarrow> thumbnail_client" where
  "reportDisplayFailure request reason c =
     (let i = thumbnailKeyIdentity (tr_key request)
      in case map_of (cl_entries c) i of
           None \<Rightarrow> c
         | Some e \<Rightarrow>
             if is_error (en_snapshot e) then c
             else
               let again = (en_displayFailures e = 0);
                   e1 = e\<lparr>en_retryTimer := False, en_displayFailures := Suc (en_displayFailures e),
                          en_retryable := again, en_snapshot := ErrorShown reason (Some ''THUMBNAIL_decodeFailed'')\<rparr>
               in log_effects (release_shown i e @ map Notified (en_listeners e) @ [ReportFailure request reason])
                    (put_entry i (if again then scheduleRetry e1 else e1) c))"

section \<open>Answers and timers\<close>

definition entry_for :: "pending_resolution \<Rightarrow> thumbnail_client \<Rightarrow> thumbnail_entry option" where
  "entry_for p c =
     (case map_of (cl_entries c) (pn_identity p) of
        Some e \<Rightarrow> if en_uid e = pn_uid p \<and> en_version e = pn_version p then Some e else None
      | None \<Rightarrow> None)"

definition take_pending :: "pending_resolution \<Rightarrow> thumbnail_client \<Rightarrow> thumbnail_client" where
  "take_pending p c = c\<lparr>cl_pending := set_delete p (cl_pending c)\<rparr>"

text \<open>A rejection of an entry that is gone or has moved on changes nothing.\<close>

definition answer_rejected :: "pending_resolution \<Rightarrow> rejection \<Rightarrow> thumbnail_client \<Rightarrow> thumbnail_client" where
  "answer_rejected p err c = (case entry_for p c of Some e \<Rightarrow> fail (pn_identity p) e err c | None \<Rightarrow> c)"

definition answer_resolved :: "pending_resolution \<Rightarrow> thumbnail_asset \<Rightarrow> thumbnail_client \<Rightarrow> thumbnail_client" where
  "answer_resolved p a c =
     (let c1 = log_effects [Delivered (pn_identity p) a] c
      in case validatedAsset a of
           Inl m \<Rightarrow> answer_rejected p (plain_error m) c1
         | Inr v \<Rightarrow>
             (case entry_for p c1 of
                Some e \<Rightarrow> settle (pn_identity p) e v c1
              | None \<Rightarrow> log_effects [ReleaseHandle (pn_identity p) v] c1))"

definition retry_fired :: "thumbnail_adapter \<Rightarrow> string \<Rightarrow> thumbnail_client \<Rightarrow> thumbnail_client" where
  "retry_fired ad i c =
     (case map_of (cl_entries c) i of
        None \<Rightarrow> c
      | Some e \<Rightarrow> if en_retryTimer e then beginRetry ad i (e\<lparr>en_retryTimer := False\<rparr>) c else c)"

definition orphan_fired :: "string \<Rightarrow> thumbnail_client \<Rightarrow> thumbnail_client" where
  "orphan_fired i c =
     (case map_of (cl_entries c) i of
        None \<Rightarrow> c
      | Some e \<Rightarrow>
          if \<not> en_orphanTimer e then c
          else
            let e1 = e\<lparr>en_orphanTimer := False\<rparr>
            in if en_listeners e1 \<noteq> [] then put_entry i e1 c
               else if recreatable e1 then retain i e1 c
               else cleanup i e1 c)"

text \<open>
  A retained handle may be given a second timer before the first has fired, and the first then still fires: its
  event is not tied to the flag.
\<close>

definition retained_fired :: "string \<Rightarrow> thumbnail_client \<Rightarrow> thumbnail_client" where
  "retained_fired i c =
     (case map_of (cl_entries c) i of
        None \<Rightarrow> c
      | Some e \<Rightarrow>
          let e1 = e\<lparr>en_retainedTimer := False\<rparr>
          in if kept e1 then cleanup i e1 c else put_entry i e1 c)"

datatype client_event =
    Subscribe thumbnail_request nat
  | Unsubscribe string nat nat
  | AnswerResolved pending_resolution thumbnail_asset
  | AnswerRejected pending_resolution rejection
  | RetryFired string
  | OrphanFired string
  | RetainedFired string
  | Invalidate "thumbnail_key \<Rightarrow> bool"
  | ClearRetained
  | DisplayFailed thumbnail_request string
  | Dispose

fun client_step :: "thumbnail_adapter \<Rightarrow> thumbnail_client \<Rightarrow> client_event \<Rightarrow> thumbnail_client" where
  "client_step ad c (Subscribe request l) = subscribe ad request l c"
| "client_step ad c (Unsubscribe i uid l) = unsubscribe i uid l c"
| "client_step ad c (AnswerResolved p a) =
     (if p \<in> set (cl_pending c) then answer_resolved p a (take_pending p c) else c)"
| "client_step ad c (AnswerRejected p err) =
     (if p \<in> set (cl_pending c) then answer_rejected p err (take_pending p c) else c)"
| "client_step ad c (RetryFired i) = retry_fired ad i c"
| "client_step ad c (OrphanFired i) = orphan_fired i c"
| "client_step ad c (RetainedFired i) = retained_fired i c"
| "client_step ad c (Invalidate P) = fst (invalidate ad P c)"
| "client_step ad c ClearRetained = fst (clearRetainedCache c)"
| "client_step ad c (DisplayFailed request reason) = reportDisplayFailure request reason c"
| "client_step ad c Dispose = dispose c"

end
