(* ===== verification/ThumbnailFacts.thy ===== *)
theory ThumbnailFacts
  imports ThumbnailClient
begin

text \<open>
  Facts about the thumbnail client: the account of display handles, the invariant of its entries, and the
  properties that follow for every sequence of subscriptions, answers, timers, invalidations and failures.
\<close>

section \<open>The account of display handles\<close>

text \<open>A picture is delivered when the adapter answers with it, and accepted when it passes the validation.\<close>

fun delivered_by :: "client_effect \<Rightarrow> thumbnail_asset multiset" where
  "delivered_by (Delivered _ a) = {#a#}"
| "delivered_by _ = {#}"

definition handles_delivered :: "thumbnail_client \<Rightarrow> thumbnail_asset multiset" where
  "handles_delivered c = sum_list (map delivered_by (cl_effects c))"

definition valid_asset :: "thumbnail_asset \<Rightarrow> bool" where
  "valid_asset a \<longleftrightarrow> validatedAsset a = Inr a"

fun accepted_by :: "client_effect \<Rightarrow> thumbnail_asset multiset" where
  "accepted_by (Delivered _ a) = (if valid_asset a then {#a#} else {#})"
| "accepted_by _ = {#}"

fun released_by :: "client_effect \<Rightarrow> thumbnail_asset multiset" where
  "released_by (ReleaseHandle _ a) = {#a#}"
| "released_by _ = {#}"

definition handles_accepted :: "thumbnail_client \<Rightarrow> thumbnail_asset multiset" where
  "handles_accepted c = sum_list (map accepted_by (cl_effects c))"

definition handles_released :: "thumbnail_client \<Rightarrow> thumbnail_asset multiset" where
  "handles_released c = sum_list (map released_by (cl_effects c))"

definition shown_asset :: "thumbnail_entry \<Rightarrow> thumbnail_asset multiset" where
  "shown_asset e = (case en_snapshot e of Resolved a \<Rightarrow> {#a#} | _ \<Rightarrow> {#})"

definition handles_shown :: "thumbnail_client \<Rightarrow> thumbnail_asset multiset" where
  "handles_shown c = map_total shown_asset (cl_entries c)"

definition accounted :: "thumbnail_client \<Rightarrow> bool" where
  "accounted c \<longleftrightarrow> handles_accepted c = handles_released c + handles_shown c"

lemma accepted_valid: "handles_accepted c = filter_mset valid_asset (handles_delivered c)"
proof -
  have "sum_list (map accepted_by es) = filter_mset valid_asset (sum_list (map delivered_by es))" for es
  proof (induction es)
    case (Cons x es)
    then show ?case by (cases x) simp_all
  qed simp
  then show ?thesis by (simp add: handles_accepted_def handles_delivered_def)
qed

lemmas handle_defs = handles_accepted_def handles_released_def handles_shown_def

lemma log_fields [simp]:
  "cl_entries (log_effects es c) = cl_entries c" "cl_pending (log_effects es c) = cl_pending c"
  "cl_uids (log_effects es c) = cl_uids c" "cl_resolves (log_effects es c) = cl_resolves c"
  "cl_sequence (log_effects es c) = cl_sequence c"
  "handles_accepted (log_effects es c) = handles_accepted c + sum_list (map accepted_by es)"
  "handles_released (log_effects es c) = handles_released c + sum_list (map released_by es)"
  by (simp_all add: log_effects_def handle_defs)

lemma put_fields [simp]:
  "cl_pending (put_entry i e c) = cl_pending c" "cl_uids (put_entry i e c) = cl_uids c"
  "cl_resolves (put_entry i e c) = cl_resolves c"
  "cl_entries (put_entry i e c) = AList.update i e (cl_entries c)"
  "handles_accepted (put_entry i e c) = handles_accepted c" "handles_released (put_entry i e c) = handles_released c"
  by (simp_all add: put_entry_def handle_defs)

lemma counter_fields [simp]:
  "handles_accepted (c\<lparr>cl_resolves := n\<rparr>) = handles_accepted c" "handles_released (c\<lparr>cl_resolves := n\<rparr>) = handles_released c"
  "handles_accepted (c\<lparr>cl_pending := ps\<rparr>) = handles_accepted c" "handles_released (c\<lparr>cl_pending := ps\<rparr>) = handles_released c"
  "handles_accepted (c\<lparr>cl_uids := n\<rparr>) = handles_accepted c" "handles_released (c\<lparr>cl_uids := n\<rparr>) = handles_released c"
  "handles_accepted (c\<lparr>cl_sequence := n\<rparr>) = handles_accepted c" "handles_released (c\<lparr>cl_sequence := n\<rparr>) = handles_released c"
  "handles_accepted (c\<lparr>cl_entries := es\<rparr>) = handles_accepted c" "handles_released (c\<lparr>cl_entries := es\<rparr>) = handles_released c"
  by (simp_all add: handle_defs)

lemma notified_neutral [simp]:
  "sum_list (map (accepted_by \<circ> Notified) ls) = {#}" "sum_list (map (released_by \<circ> Notified) ls) = {#}"
  by (induction ls) simp_all

lemma farewell_account [simp]:
  "sum_list (map accepted_by (farewell i e)) = {#}" "sum_list (map released_by (farewell i e)) = shown_asset e"
  by (simp_all add: farewell_def shown_asset_def split: thumbnail_snapshot.split)

lemma release_shown_account [simp]:
  "sum_list (map accepted_by (release_shown i e)) = {#}" "sum_list (map released_by (release_shown i e)) = shown_asset e"
  by (simp_all add: release_shown_def shown_asset_def split: thumbnail_snapshot.split)

section \<open>What pictures cost\<close>

lemma validated_same: "validatedAsset a = Inr v \<Longrightarrow> v = a"
  by (cases a) (auto split: if_splits)

lemma memory_cost_nonneg: "0 \<le> p \<Longrightarrow> (\<And>b. enc = Some b \<Longrightarrow> 0 \<le> b) \<Longrightarrow> 0 \<le> memory_cost p enc"
proof -
  assume p: "0 \<le> p" and enc: "\<And>b. enc = Some b \<Longrightarrow> 0 \<le> b"
  have "0 \<le> (of_int (ceiling (p * 4)) :: rat)" using p by (simp add: zero_le_ceiling order_less_le_trans [of "-1" 0])
  moreover have "0 \<le> (case enc of Some b \<Rightarrow> b | None \<Rightarrow> max (16 * 1024) (of_int (ceiling (p / 2))))"
    using enc by (simp add: le_max_iff_disj split: option.split)
  moreover have "(0 :: rat) \<le> of_int max_safe_integer" by (simp add: max_safe_integer_def)
  ultimately show ?thesis by (simp add: memory_cost_def)
qed

lemma positive_dimension: "validPositiveDimension n \<Longrightarrow> 0 < num_value n"
  by (cases n) (simp_all add: validPositiveDimension_def js_lt_def)

lemma cost_nonneg: "validatedAsset a = Inr a \<Longrightarrow> 0 \<le> thumbnailMemoryCost a"
proof (cases a)
  case (ImageAsset url w h b)
  assume "validatedAsset a = Inr a"
  with ImageAsset have d: "0 < num_value w" "0 < num_value h" "byte_length_ok b"
    by (auto intro!: positive_dimension split: if_splits)
  have nn: "0 \<le> v" if "map_option num_value b = Some v" for v
    using that d(3) by (auto simp: byte_length_ok_def is_safe_integer_iff)
  show ?thesis
    unfolding ImageAsset thumbnailMemoryCost.simps
    by (rule memory_cost_nonneg) (use d(1,2) nn in \<open>simp_all only: mult_nonneg_nonneg less_imp_le\<close>)
next
  case (SpriteAsset url w h columns rows cell)
  assume "validatedAsset a = Inr a"
  with SpriteAsset have "0 < num_value w" "0 < num_value h" by (auto intro!: positive_dimension split: if_splits)
  then have "0 \<le> num_value w * num_value h" by simp
  then show ?thesis unfolding SpriteAsset thumbnailMemoryCost.simps by (rule memory_cost_nonneg) simp
qed simp

section \<open>The invariant\<close>

definition ticket :: "string \<Rightarrow> thumbnail_entry \<Rightarrow> pending_resolution" where
  "ticket i e = \<lparr>pn_identity = i, pn_uid = en_uid e, pn_version = en_version e\<rparr>"

text \<open>What holds of an entry at every moment between two calls, its picture apart.\<close>

definition base_ok :: "nat \<Rightarrow> pending_resolution list \<Rightarrow> string \<Rightarrow> thumbnail_entry \<Rightarrow> bool" where
  "base_ok uids pend i e \<longleftrightarrow>
     thumbnailKeyIdentity (tr_key (en_request e)) = i \<and> en_uid e < uids
     \<and> (\<forall>p \<in> set pend. pn_identity p = i \<longrightarrow> pn_uid p = en_uid e \<longrightarrow> pn_version p \<le> en_version e)
     \<and> (en_listeners e = [] \<longrightarrow> en_orphanTimer e \<or> (kept e \<and> en_retainedTimer e))
     \<and> (en_retained e \<longrightarrow> en_listeners e = [] \<and> ticket i e \<notin> set pend)"

definition picture_ok :: "pending_resolution list \<Rightarrow> string \<Rightarrow> thumbnail_entry \<Rightarrow> bool" where
  "picture_ok pend i e \<longleftrightarrow>
     (case en_snapshot e of
        Resolved a \<Rightarrow> validatedAsset a = Inr a \<and> ticket i e \<notin> set pend
      | Loading \<Rightarrow> ticket i e \<in> set pend
      | ErrorShown _ _ \<Rightarrow> en_listeners e \<noteq> [] \<longrightarrow> en_retryable e \<longrightarrow> en_retryTimer e
      | Idle \<Rightarrow> False)"

definition entry_ok :: "thumbnail_client \<Rightarrow> string \<Rightarrow> thumbnail_entry \<Rightarrow> bool" where
  "entry_ok c i e \<longleftrightarrow> base_ok (cl_uids c) (cl_pending c) i e \<and> picture_ok (cl_pending c) i e"

definition frame_ok :: "thumbnail_client \<Rightarrow> bool" where
  "frame_ok c \<longleftrightarrow>
     distinct (keys (cl_entries c)) \<and> distinct (cl_pending c) \<and> list_all (\<lambda>p. pn_uid p < cl_uids c) (cl_pending c)
     \<and> accounted c \<and> within_budget (cl_entries c)"

definition good :: "thumbnail_client \<Rightarrow> bool" where
  "good c \<longleftrightarrow> frame_ok c \<and> (\<forall>i e. map_of (cl_entries c) i = Some e \<longrightarrow> entry_ok c i e)"

text \<open>All but one entry are fine, and that one shows nothing and is not retained.\<close>

definition good_at :: "string \<Rightarrow> thumbnail_client \<Rightarrow> bool" where
  "good_at i c \<longleftrightarrow>
     frame_ok c \<and> (\<forall>j e. j \<noteq> i \<longrightarrow> map_of (cl_entries c) j = Some e \<longrightarrow> entry_ok c j e)
     \<and> (\<forall>e. map_of (cl_entries c) i = Some e \<longrightarrow> shown_asset e = {#} \<and> \<not> kept e)"

lemma goodD: "good c \<Longrightarrow> map_of (cl_entries c) i = Some e \<Longrightarrow> entry_ok c i e"
  unfolding good_def by blast

lemma entry_ok_log [simp]: "entry_ok (log_effects es c) i e = entry_ok c i e"
  by (simp add: entry_ok_def)

lemma entry_ok_put [simp]: "entry_ok (put_entry j e' c) i e = entry_ok c i e"
  by (simp add: entry_ok_def)

lemma entry_ok_resolves [simp]: "entry_ok (c\<lparr>cl_resolves := n\<rparr>) i e = entry_ok c i e"
  by (simp add: entry_ok_def)

lemma entry_cost_nonneg: "entry_ok c i e \<Longrightarrow> 0 \<le> entry_cost e"
  by (auto simp: entry_cost_def entry_ok_def picture_ok_def cost_nonneg split: thumbnail_snapshot.splits)

text \<open>Replacing one entry keeps the budget when the new one costs no more.\<close>

lemma within_budget_put:
  assumes "within_budget es" and "of_bool (kept e) \<le> old_value (\<lambda>e. of_bool (kept e) :: nat) es i"
    and "entry_cost e \<le> old_value entry_cost es i"
  shows "within_budget (AList.update i e es)"
  using assms map_total_update [of "\<lambda>e. of_bool (kept e) :: nat" i e es] map_total_update [of entry_cost i e es]
  by (simp add: within_budget_def retained_count_def retained_bytes_def)

lemma within_budget_delete:
  assumes "within_budget es" and "distinct (keys es)" and "0 \<le> old_value entry_cost es i"
  shows "within_budget (AList.delete i es)"
  using assms map_total_delete [of es "\<lambda>e. of_bool (kept e) :: nat" i] map_total_delete [of es entry_cost i]
  by (simp add: within_budget_def retained_count_def retained_bytes_def)

lemma accounted_put:
  assumes "accounted c" and "handles_accepted d = handles_accepted c + D" and "handles_released d = handles_released c + R"
    and "cl_entries d = AList.update i e (cl_entries c)" and "shown_asset e + R = old_value shown_asset (cl_entries c) i + D"
  shows "accounted d"
proof -
  have t: "handles_shown d + old_value shown_asset (cl_entries c) i = handles_shown c + shown_asset e"
    unfolding handles_shown_def assms(4) by (rule map_total_update)
  have "handles_accepted d + old_value shown_asset (cl_entries c) i
      = handles_released c + handles_shown c + (old_value shown_asset (cl_entries c) i + D)"
    using assms(1,2) by (simp add: accounted_def ac_simps)
  also have "\<dots> = handles_released c + R + (handles_shown c + shown_asset e)"
    unfolding assms(5) [symmetric] by (simp add: ac_simps)
  also have "\<dots> = handles_released d + handles_shown d + old_value shown_asset (cl_entries c) i"
    unfolding t [symmetric] assms(3) by (simp add: ac_simps)
  finally show ?thesis by (simp add: accounted_def)
qed

text \<open>Changing an entry, with the effects that account for its picture.\<close>

lemma good_change:
  assumes good: "good_at i c" and e: "entry_ok c i e" and kept: "\<not> kept e"
    and acc: "sum_list (map accepted_by es) = shown_asset e" "sum_list (map released_by es) = {#}"
  shows "good (log_effects es (put_entry i e c))"
proof -
  let ?d = "log_effects es (put_entry i e c)"
  have old: "old_value shown_asset (cl_entries c) i = {#}"
    using good by (auto simp: good_at_def old_value_def split: option.split)
  have cost: "entry_cost e = 0" "entry_cost e \<le> old_value entry_cost (cl_entries c) i"
    using kept good by (auto simp: good_at_def entry_cost_def old_value_def split: option.split)
  have "accounted ?d"
    by (rule accounted_put [where c = c and D = "shown_asset e" and R = "{#}" and i = i and e = e])
      (use good acc old in \<open>simp_all add: good_at_def frame_ok_def\<close>)
  moreover have "within_budget (cl_entries ?d)"
    using within_budget_put [of "cl_entries c" e i] good kept cost(2) by (simp add: good_at_def frame_ok_def)
  moreover have "entry_ok ?d j e'" if "map_of (cl_entries ?d) j = Some e'" for j e'
    using that good e by (auto simp: good_at_def lookup_update split: if_splits)
  ultimately show ?thesis using good by (simp add: good_def good_at_def frame_ok_def)
qed

lemma good_modify:
  assumes good: "good c" and old: "map_of (cl_entries c) i = Some e0" and e: "entry_ok c i e"
    and same: "shown_asset e = shown_asset e0" and kept: "kept e \<Longrightarrow> kept e0 \<and> en_snapshot e = en_snapshot e0"
  shows "good (put_entry i e c)"
proof -
  let ?d = "put_entry i e c"
  have cost: "entry_cost e \<le> entry_cost e0"
    using kept entry_cost_nonneg [OF goodD [OF good old]] by (auto simp: entry_cost_def)
  have "accounted ?d"
    by (rule accounted_put [where c = c and D = "{#}" and R = "{#}" and i = i and e = e])
      (use good old same in \<open>simp_all add: good_def frame_ok_def old_value_def\<close>)
  moreover have "within_budget (cl_entries ?d)"
    using within_budget_put [of "cl_entries c" e i] good kept cost old by (auto simp: good_def frame_ok_def old_value_def)
  moreover have "entry_ok ?d j e'" if "map_of (cl_entries ?d) j = Some e'" for j e'
    using that e goodD [OF good, of j e'] by (auto simp: lookup_update split: if_splits)
  ultimately show ?thesis using good by (simp add: good_def frame_ok_def)
qed

lemma good_log:
  "good c \<Longrightarrow> sum_list (map accepted_by es) = sum_list (map released_by es) \<Longrightarrow> good (log_effects es c)"
  by (simp add: good_def frame_ok_def accounted_def handles_shown_def)

text \<open>Taking the picture off an entry, with the release that goes with it.\<close>

lemma good_take:
  assumes good: "good c" and old: "map_of (cl_entries c) i = Some e0" and e: "shown_asset e = {#}" "\<not> kept e"
    and acc: "sum_list (map accepted_by es) = {#}" "sum_list (map released_by es) = shown_asset e0"
  shows "good_at i (log_effects es (put_entry i e c))"
proof -
  let ?d = "log_effects es (put_entry i e c)"
  have "accounted ?d"
    by (rule accounted_put [where c = c and D = "{#}" and R = "shown_asset e0" and i = i and e = e])
      (use good old e acc in \<open>simp_all add: good_def frame_ok_def old_value_def\<close>)
  moreover have "within_budget (cl_entries ?d)"
    using within_budget_put [of "cl_entries c" e i] good e old entry_cost_nonneg [OF goodD [OF good old]]
    by (auto simp: good_def frame_ok_def old_value_def entry_cost_def)
  moreover have "entry_ok ?d j e'" if "j \<noteq> i" "map_of (cl_entries ?d) j = Some e'" for j e'
    using that goodD [OF good, of j e'] by (simp add: lookup_update)
  ultimately show ?thesis using good e by (auto simp: good_def good_at_def frame_ok_def lookup_update)
qed

text \<open>The same without the budget, for the loop that restores it.\<close>

definition sound :: "thumbnail_client \<Rightarrow> bool" where
  "sound c \<longleftrightarrow>
     distinct (keys (cl_entries c)) \<and> distinct (cl_pending c) \<and> list_all (\<lambda>p. pn_uid p < cl_uids c) (cl_pending c)
     \<and> accounted c \<and> (\<forall>i e. map_of (cl_entries c) i = Some e \<longrightarrow> entry_ok c i e)"

lemma good_iff: "good c \<longleftrightarrow> sound c \<and> within_budget (cl_entries c)"
  unfolding good_def sound_def frame_ok_def by blast

lemma sound_cleanup:
  assumes sound: "sound c" and old: "map_of (cl_entries c) i = Some e"
  shows "sound (cleanup i e c)"
proof -
  let ?d = "cleanup i e c"
  have d: "distinct (keys (cl_entries c))" using sound by (simp add: sound_def)
  have "handles_shown ?d + shown_asset e = handles_shown c"
    using map_total_delete [OF d, of shown_asset i] old by (simp add: handles_shown_def cleanup_def old_value_def)
  then have "accounted ?d"
    using sound by (simp add: sound_def accounted_def cleanup_def ac_simps flip: handles_shown_def)
  moreover have "entry_ok ?d j e'" if "map_of (cl_entries ?d) j = Some e'" for j e'
    using that sound by (auto simp: sound_def cleanup_def lookup_delete entry_ok_def split: if_splits)
  ultimately show ?thesis using sound by (simp add: sound_def cleanup_def)
qed

lemma good_cleanup:
  assumes good: "good c" and old: "map_of (cl_entries c) i = Some e"
  shows "good (cleanup i e c)"
proof -
  have "distinct (keys (cl_entries c))" using good by (simp add: good_def frame_ok_def)
  then have "within_budget (cl_entries (cleanup i e c))"
    using within_budget_delete [of "cl_entries c" i] good old entry_cost_nonneg [OF goodD [OF good old]]
    by (simp add: good_def frame_ok_def cleanup_def old_value_def)
  with good sound_cleanup [OF _ old] show ?thesis by (simp add: good_iff)
qed

text \<open>Losing a picture while staying retained.\<close>

lemma good_drop:
  assumes good: "good c" and old: "map_of (cl_entries c) i = Some e0" and ok: "entry_ok c i e"
    and e: "shown_asset e = {#}" "kept e \<Longrightarrow> kept e0"
    and acc: "sum_list (map accepted_by es) = {#}" "sum_list (map released_by es) = shown_asset e0"
  shows "good (log_effects es (put_entry i e c))"
proof -
  let ?d = "log_effects es (put_entry i e c)"
  have "entry_cost e = 0" using e(1) by (auto simp: entry_cost_def shown_asset_def split: thumbnail_snapshot.splits)
  then have cost: "entry_cost e \<le> entry_cost e0" using entry_cost_nonneg [OF goodD [OF good old]] by simp
  have "accounted ?d"
    by (rule accounted_put [where c = c and D = "{#}" and R = "shown_asset e0" and i = i and e = e])
      (use good old e acc in \<open>simp_all add: good_def frame_ok_def old_value_def\<close>)
  moreover have "within_budget (cl_entries ?d)"
    using within_budget_put [of "cl_entries c" e i] good e(2) cost old by (auto simp: good_def frame_ok_def old_value_def)
  moreover have "entry_ok ?d j e'" if "map_of (cl_entries ?d) j = Some e'" for j e'
    using that ok goodD [OF good, of j e'] by (auto simp: lookup_update split: if_splits)
  ultimately show ?thesis using good by (simp add: good_def frame_ok_def)
qed

section \<open>Failing, settling and resolving\<close>

text \<open>An entry about to be resolved: it waits, and its next version is new.\<close>

lemma entry_ok_failed:
  assumes "base_ok (cl_uids c) (cl_pending c) i e" and "is_error (en_snapshot e)"
  shows "entry_ok c i (scheduleRetry e)"
  using assms
  by (cases "en_snapshot e")
    (auto simp: entry_ok_def picture_ok_def base_ok_def scheduleRetry_def may_retry_def kept_def ticket_def)

lemma scheduleRetry_fields [simp]:
  "shown_asset (scheduleRetry e) = shown_asset e" "kept (scheduleRetry e) = kept e"
  "en_snapshot (scheduleRetry e) = en_snapshot e"
  by (simp_all add: scheduleRetry_def shown_asset_def kept_def)

lemma base_ok_cong:
  assumes "base_ok uids pend i e" and "en_request e' = en_request e" and "en_uid e' = en_uid e"
    and "en_version e \<le> en_version e'" and "en_listeners e' = en_listeners e" and "en_orphanTimer e' = en_orphanTimer e"
    and "en_retained e' = en_retained e" and "en_retainedTimer e' = en_retainedTimer e"
    and "en_retained e \<Longrightarrow> en_version e' = en_version e"
  shows "base_ok uids pend i e'"
  using assms unfolding base_ok_def kept_def ticket_def by (auto intro: order_trans)

lemma fail_good:
  assumes "good_at i c" and "base_ok (cl_uids c) (cl_pending c) i e" and "\<not> kept e"
  shows "good (fail i e err c)"
proof -
  let ?e = "e\<lparr>en_retryable := isRetryableThumbnailError err, en_snapshot := ErrorShown (errorMessage err) (thumbnailErrorCode err)\<rparr>"
  have "base_ok (cl_uids c) (cl_pending c) i ?e" by (rule base_ok_cong [OF assms(2)]) simp_all
  then have "entry_ok c i (scheduleRetry ?e)" by (rule entry_ok_failed) simp
  moreover have "\<not> kept (scheduleRetry ?e)" unfolding scheduleRetry_fields using assms(3) by (simp add: kept_def)
  moreover have "shown_asset (scheduleRetry ?e) = {#}" unfolding scheduleRetry_fields by (simp add: shown_asset_def)
  ultimately show ?thesis
    unfolding fail_def Let_def by (intro good_change [OF assms(1)]) simp_all
qed

lemma settle_good:
  assumes "good_at i c" and "base_ok (cl_uids c) (cl_pending c) i e" and "\<not> kept e"
    and "validatedAsset a = Inr a" and "ticket i e \<notin> set (cl_pending c)"
  shows "good (settle i e a (log_effects [Delivered i a] c))"
proof -
  let ?e = "e\<lparr>en_retryTimer := False, en_retryable := False, en_priorityRetry := False, en_snapshot := Resolved a\<rparr>"
  have "base_ok (cl_uids c) (cl_pending c) i ?e" by (rule base_ok_cong [OF assms(2)]) simp_all
  then have ok: "entry_ok c i ?e" using assms(4,5) by (simp add: entry_ok_def picture_ok_def ticket_def)
  have "good (log_effects (Delivered i a # map Notified (en_listeners e)) (put_entry i ?e c))"
    by (rule good_change [OF assms(1) ok]) (use assms(3,4) in \<open>simp_all add: shown_asset_def kept_def valid_asset_def\<close>)
  then show ?thesis
    by (simp add: settle_def publish_def log_effects_def put_entry_def)
qed

lemma good_at_log:
  "good_at i c \<Longrightarrow> sum_list (map accepted_by es) = sum_list (map released_by es) \<Longrightarrow> good_at i (log_effects es c)"
  by (simp add: good_at_def frame_ok_def accounted_def handles_shown_def)

lemma good_at_resolves: "good_at i c \<Longrightarrow> good_at i (c\<lparr>cl_resolves := n\<rparr>)"
  by (simp add: good_at_def frame_ok_def accounted_def handles_shown_def)

lemma resolve_good:
  assumes at: "good_at i c" and base: "base_ok (cl_uids c) (cl_pending c) i e" and "\<not> en_retained e"
    and "en_snapshot e = Loading"
  shows "good (resolve ad i e c)"
proof -
  let ?e = "e\<lparr>en_version := Suc (en_version e)\<rparr>"
  let ?c = "c\<lparr>cl_resolves := Suc (cl_resolves c)\<rparr>"
  have at': "good_at i ?c" by (rule good_at_resolves [OF at])
  have base': "base_ok (cl_uids ?c) (cl_pending ?c) i ?e"
    using base_ok_cong [OF base, of ?e] assms(3) by simp
  have kept: "\<not> kept ?e" using assms(3) by (simp add: kept_def)
  have new: "ticket i ?e \<notin> set (cl_pending c)"
    using base by (auto simp: base_ok_def ticket_def)
  show ?thesis
  proof (cases "ad_resolve ad (cl_resolves c) (en_request e)")
    case (Now a)
    show ?thesis
    proof (cases "validatedAsset a")
      case (Inl m)
      then have "good_at i (log_effects [Delivered i a] ?c)" by (intro good_at_log [OF at']) (simp add: valid_asset_def)
      from fail_good [OF this _ kept] base' Now Inl show ?thesis by (simp add: resolve_def Let_def)
    next
      case (Inr v)
      then have "validatedAsset v = Inr v" "a = v" using validated_same by metis+
      from settle_good [OF at' base' kept this(1)] this(2) new Now Inr show ?thesis by (simp add: resolve_def Let_def)
    qed
  next
    case (Thrown err)
    with fail_good [OF at' base' kept] show ?thesis by (simp add: resolve_def Let_def)
  next
    case Promised
    let ?d = "?c\<lparr>cl_pending := cl_pending c @ [ticket i ?e]\<rparr>"
    have other: "entry_ok ?d j x = entry_ok c j x" if "j \<noteq> i" for j x
      using that by (auto simp: entry_ok_def base_ok_def picture_ok_def ticket_def split: thumbnail_snapshot.split)
    have "good_at i ?d"
      using at new base other by (simp add: good_at_def frame_ok_def accounted_def handles_shown_def base_ok_def ticket_def)
    moreover have "entry_ok ?d i ?e"
      using base' assms(3,4) by (auto simp: entry_ok_def picture_ok_def base_ok_def ticket_def kept_def)
    ultimately have "good (log_effects [] (put_entry i ?e ?d))"
      by (rule good_change) (use kept assms(4) in \<open>simp_all add: shown_asset_def\<close>)
    with Promised show ?thesis by (simp add: resolve_def Let_def log_effects_def ticket_def)
  qed
qed

text \<open>Starting over from a failure.\<close>

lemma retry_good:
  assumes good: "good c" and old: "map_of (cl_entries c) i = Some e0"
    and base: "base_ok (cl_uids c) (cl_pending c) i e" and same: "en_snapshot e = en_snapshot e0"
    and retry: "may_retry e" and err: "is_error (en_snapshot e)"
  shows "good (beginRetry ad i e c)"
proof -
  let ?e = "e\<lparr>en_retryTimer := False, en_retryable := False, en_snapshot := Loading\<rparr>"
  have base': "base_ok (cl_uids c) (cl_pending c) i ?e" by (rule base_ok_cong [OF base]) simp_all
  have ret: "\<not> en_retained ?e" "\<not> kept ?e" using retry base by (auto simp: may_retry_def base_ok_def kept_def)
  have "shown_asset e0 = {#}" using err same by (cases "en_snapshot e0") (auto simp: shown_asset_def)
  then have "good_at i (log_effects (map Notified (en_listeners e)) (put_entry i ?e c))"
    using ret(2) by (intro good_take [OF good old]) (simp_all add: shown_asset_def)
  from resolve_good [OF this _ ret(1)] base' retry show ?thesis by (simp add: beginRetry_def Let_def)
qed

section \<open>Every event keeps the invariant\<close>

lemma older_run_None: "foldl older best es = None \<longleftrightarrow> best = None \<and> (\<forall>ie \<in> set es. \<not> kept (snd ie))"
  by (induction es arbitrary: best) (auto simp: older_def split: option.splits)

lemma none_kept_within: "\<forall>ie \<in> set es. \<not> kept (snd ie) \<Longrightarrow> within_budget es"
proof -
  assume a: "\<forall>ie \<in> set es. \<not> kept (snd ie)"
  then have "retained_count es = 0" "retained_bytes es = 0"
    by (induction es) (simp_all add: retained_count_def retained_bytes_def entry_cost_def)
  then show ?thesis by (simp add: within_budget_def retained_byte_budget_def)
qed

lemma evict_good: "sound c \<Longrightarrow> good (evictRetainedEntries c)"
proof (induction c rule: evictRetainedEntries.induct)
  case (1 c)
  show ?case
  proof (cases "within_budget (cl_entries c)")
    case True
    with 1(2) show ?thesis by (simp add: evictRetainedEntries.simps good_iff)
  next
    case False
    show ?thesis
    proof (cases "oldest_kept (cl_entries c)")
      case None
      then have "within_budget (cl_entries c)" by (intro none_kept_within) (simp add: oldest_kept_def older_run_None)
      with False show ?thesis by simp
    next
      case (Some ie)
      have "map_of (cl_entries c) (fst ie) = Some (snd ie)"
        using oldest_kept_Some [OF Some] 1(2) by (simp add: sound_def map_of_entries)
      from 1(1) [OF False Some sound_cleanup [OF 1(2) this]] False Some show ?thesis
        by (simp add: evictRetainedEntries.simps [of c])
    qed
  qed
qed

lemma entry_ok_scheduled:
  assumes "base_ok (cl_uids c) (cl_pending c) i e" and "is_error (en_snapshot e) \<or> picture_ok (cl_pending c) i e"
  shows "entry_ok c i (scheduleRetry e)"
proof (cases "is_error (en_snapshot e)")
  case True
  then show ?thesis by (rule entry_ok_failed [OF assms(1)])
next
  case False
  with assms show ?thesis by (simp add: entry_ok_def scheduleRetry_def may_retry_def)
qed

lemma entry_okD: "entry_ok c i e \<Longrightarrow> base_ok (cl_uids c) (cl_pending c) i e \<and> picture_ok (cl_pending c) i e"
  by (simp add: entry_ok_def)

lemma set_add_ne [simp]: "set_add x xs \<noteq> []"
  by (simp add: set_add_def) auto

lemma joined_fields [simp]:
  "en_snapshot (joined r l e) = en_snapshot e" "en_retained (joined r l e) = False"
  "en_listeners (joined r l e) = set_add l (en_listeners e)" "en_uid (joined r l e) = en_uid e"
  "en_version (joined r l e) = en_version e" "en_retryable (joined r l e) = en_retryable e"
  by (simp_all add: joined_def)

lemma subscribe_good:
  assumes good: "good c"
  shows "good (subscribe ad request l c)"
proof (cases "map_of (cl_entries c) (thumbnailKeyIdentity (tr_key request))")
  case None
  define i where "i = thumbnailKeyIdentity (tr_key request)"
  let ?e = "new_entry (cl_uids c) request l"
  let ?c = "c\<lparr>cl_uids := Suc (cl_uids c)\<rparr>"
  have fresh: "pn_uid p \<noteq> cl_uids c" if "p \<in> set (cl_pending c)" for p
    using that good by (auto simp: good_def frame_ok_def list_all_iff)
  have "entry_ok ?c j x" if "entry_ok c j x" for j x using that by (auto simp: entry_ok_def base_ok_def)
  then have "good ?c"
    using good by (auto simp: good_def frame_ok_def accounted_def handles_shown_def list_all_iff less_SucI)
  then have "good_at i (put_entry i ?e ?c)"
    using None within_budget_put [of "cl_entries c" ?e i]
      accounted_put [of ?c "put_entry i ?e ?c" "{#}" "{#}" i ?e]
    by (auto simp: good_def good_at_def frame_ok_def lookup_update i_def [symmetric] kept_def new_entry_def
        shown_asset_def entry_cost_def old_value_def)
  then have "good (resolve ad i ?e (put_entry i ?e ?c))"
    by (rule resolve_good) (auto simp: base_ok_def new_entry_def i_def kept_def dest: fresh)
  with None show ?thesis by (simp add: subscribe_def Let_def i_def)
next
  case (Some e)
  define i where "i = thumbnailKeyIdentity (tr_key request)"
  define e2 where "e2 = (if priorityRank (tr_priority (en_request (joined request l e))) < priorityRank (tr_priority request)
    then (joined request l e)\<lparr>en_request := request\<rparr> else joined request l e)"
  define c1 where "c1 = (if priorityRank (tr_priority (en_request (joined request l e))) < priorityRank (tr_priority request)
    then log_effects [Reprioritize request] c else c)"
  have e: "map_of (cl_entries c1) i = Some e" using Some by (simp add: c1_def i_def)
  have c1: "good c1" using good by (simp add: c1_def good_log)
  have ok: "entry_ok c1 i e" by (rule goodD [OF c1 e])
  have snap: "en_snapshot e2 = en_snapshot e" and ne: "en_listeners e2 \<noteq> []" and ret: "\<not> en_retained e2"
    by (simp_all add: e2_def)
  have base: "base_ok (cl_uids c1) (cl_pending c1) i e2"
    using entry_okD [OF ok] by (auto simp: base_ok_def e2_def joined_def i_def)
  have pic: "picture_ok (cl_pending c1) i e2 \<or> is_error (en_snapshot e2)"
    using entry_okD [OF ok] by (auto simp: picture_ok_def snap e2_def ticket_def split: thumbnail_snapshot.splits)
  show ?thesis
  proof (cases "is_error (en_snapshot e2) \<and> en_retryable e2 \<and> tr_priority request \<noteq> Prefetch \<and> \<not> en_priorityRetry e2")
    case True
    let ?f = "e2\<lparr>en_priorityRetry := True\<rparr>"
    have "good (beginRetry ad i ?f c1)"
      by (rule retry_good [OF c1 e]) (use base_ok_cong [OF base, of ?f] True snap ne in \<open>simp_all add: may_retry_def\<close>)
    with True Some show ?thesis by (simp add: subscribe_def Let_def flip: i_def e2_def c1_def)
  next
    case False
    have "good (put_entry i (scheduleRetry e2) c1)"
    proof (rule good_modify [OF c1 e])
      show "entry_ok c1 i (scheduleRetry e2)" by (rule entry_ok_scheduled [OF base]) (use pic in blast)
      show "shown_asset (scheduleRetry e2) = shown_asset e" using snap by (simp add: shown_asset_def)
      show "kept (scheduleRetry e2) \<Longrightarrow> kept e \<and> en_snapshot (scheduleRetry e2) = en_snapshot e"
        unfolding scheduleRetry_fields using ret by (simp add: kept_def)
    qed
    with False Some show ?thesis by (auto simp: subscribe_def Let_def simp flip: i_def e2_def c1_def)
  qed
qed

lemma cleanup_cong: "en_snapshot e' = en_snapshot e \<Longrightarrow> cleanup i e' c = cleanup i e c"
  by (simp add: cleanup_def farewell_def)

lemma picture_ok_cong:
  assumes "picture_ok pend i e" and "en_snapshot e' = en_snapshot e" and "en_uid e' = en_uid e"
    and "en_version e' = en_version e" and "en_retryable e' = en_retryable e" and "en_retryTimer e' = en_retryTimer e"
    and "en_listeners e' \<noteq> [] \<Longrightarrow> en_listeners e \<noteq> []"
  shows "picture_ok pend i e'"
  using assms by (auto simp: picture_ok_def ticket_def split: thumbnail_snapshot.splits)

text \<open>The last listener has left.\<close>

lemma orphan_good:
  assumes good: "good c" and old: "map_of (cl_entries c) i = Some e"
    and e1: "e1 = e\<lparr>en_listeners := ls\<rparr>" and sub: "ls \<noteq> [] \<Longrightarrow> en_listeners e \<noteq> []"
  shows "good (scheduleOrphanCleanup i e1 c)"
proof -
  have ok: "base_ok (cl_uids c) (cl_pending c) i e" "picture_ok (cl_pending c) i e"
    using entry_okD [OF goodD [OF good old]] by simp_all
  have keep: "kept x \<Longrightarrow> kept e \<and> en_snapshot x = en_snapshot e" if "x = e1 \<or> x = e1\<lparr>en_orphanTimer := True\<rparr>" for x
    using that ok(1) by (auto simp: e1 kept_def base_ok_def)
  have pic: "picture_ok (cl_pending c) i e1" "picture_ok (cl_pending c) i (e1\<lparr>en_orphanTimer := True\<rparr>)"
    by (rule picture_ok_cong [OF ok(2)]; use sub in \<open>simp add: e1\<close>)+
  have base: "base_ok (cl_uids c) (cl_pending c) i (e1\<lparr>en_orphanTimer := True\<rparr>)"
    using ok(1) sub by (auto simp: base_ok_def e1 kept_def ticket_def)
  show ?thesis
  proof (cases "en_listeners e1 \<noteq> [] \<or> en_orphanTimer e1")
    case True
    have "base_ok (cl_uids c) (cl_pending c) i e1" using ok(1) True sub by (auto simp: base_ok_def e1 kept_def ticket_def)
    with pic(1) have "good (put_entry i e1 c)"
      by (intro good_modify [OF good old] keep) (simp_all add: entry_ok_def e1 shown_asset_def)
    with True show ?thesis by (simp add: scheduleOrphanCleanup_def)
  next
    case False
    have "good (put_entry i (e1\<lparr>en_orphanTimer := True\<rparr>) c)"
      using pic(2) base by (intro good_modify [OF good old] keep) (simp_all add: entry_ok_def e1 shown_asset_def)
    moreover have "good (cleanup i e1 c)"
      using good_cleanup [OF good old] cleanup_cong [of e1 e i c] by (simp add: e1)
    ultimately show ?thesis using False by (simp add: scheduleOrphanCleanup_def split: thumbnail_key.split)
  qed
qed

lemma unsubscribe_good:
  assumes good: "good c"
  shows "good (unsubscribe i uid l c)"
proof (cases "map_of (cl_entries c) i")
  case (Some e)
  let ?e = "e\<lparr>en_listeners := set_delete l (en_listeners e)\<rparr>"
  have sub: "set_delete l (en_listeners e) \<noteq> [] \<Longrightarrow> en_listeners e \<noteq> []" by (auto simp: set_delete_def)
  have orphan: "good (scheduleOrphanCleanup i ?e c)" by (rule orphan_good [OF good Some refl sub])
  have "good (put_entry i ?e c)" if "en_listeners ?e \<noteq> []"
    using orphan that by (simp add: scheduleOrphanCleanup_def)
  with orphan Some good show ?thesis by (auto simp: unsubscribe_def Let_def)
qed (simp add: unsubscribe_def good)

lemma cleanup_each_good:
  "good c \<Longrightarrow> distinct (keys ies) \<Longrightarrow> \<forall>ie \<in> set ies. map_of (cl_entries c) (fst ie) = Some (snd ie)
   \<Longrightarrow> good (cleanup_each ies c)"
proof (induction ies arbitrary: c)
  case (Cons ie ies)
  have "good (cleanup (fst ie) (snd ie) c)" using Cons.prems by (intro good_cleanup) simp_all
  moreover have "map_of (cl_entries (cleanup (fst ie) (snd ie) c)) (fst je) = Some (snd je)" if "je \<in> set ies" for je
  proof -
    have "fst je \<noteq> fst ie" using that Cons.prems(2) by simp (metis image_eqI)
    with that Cons.prems(3) show ?thesis by (simp add: cleanup_def lookup_delete)
  qed
  ultimately have "good (cleanup_each ies (cleanup (fst ie) (snd ie) c))" using Cons.prems(2) by (intro Cons.IH) simp_all
  then show ?case by (simp add: cleanup_each_def)
qed (simp add: cleanup_each_def)

lemma good_keys: "good c \<Longrightarrow> distinct (keys (cl_entries c))"
  by (simp add: good_def frame_ok_def)

lemma clearRetained_good: "good c \<Longrightarrow> good (fst (clearRetainedCache c))"
  using good_keys [of c] by (auto simp: clearRetainedCache_def Let_def distinct_map_filter map_of_entries intro!: cleanup_each_good)

lemma dispose_good: "good c \<Longrightarrow> good (dispose c)"
  using good_keys [of c] by (auto simp: dispose_def map_of_entries intro!: cleanup_each_good)

lemma invalidate_entry_good:
  assumes good: "good c"
  shows "good (invalidate_entry ad c ie)"
proof (cases "map_of (cl_entries c) (fst ie)")
  case (Some e)
  let ?e = "(invalidated e)\<lparr>en_snapshot := Loading\<rparr>"
  let ?c = "log_effects (farewell (fst ie) e @ map Notified (en_listeners e)) (put_entry (fst ie) ?e c)"
  have base: "base_ok (cl_uids c) (cl_pending c) (fst ie) e" using entry_okD [OF goodD [OF good Some]] by simp
  have "good (resolve ad (fst ie) ?e ?c)" if ne: "en_listeners e \<noteq> []"
  proof (rule resolve_good)
    show "good_at (fst ie) ?c"
      by (rule good_take [OF good Some]) (simp_all add: shown_asset_def kept_def invalidated_def)
    show "base_ok (cl_uids ?c) (cl_pending ?c) (fst ie) ?e"
      using base ne by (auto simp: base_ok_def invalidated_def kept_def intro: le_SucI)
  qed (simp_all add: invalidated_def)
  with Some good good_cleanup [OF good Some] show ?thesis by (simp add: invalidate_entry_def Let_def)
qed (simp add: invalidate_entry_def good)

lemma invalidate_run_good: "good c \<Longrightarrow> good (foldl (invalidate_entry ad) c ies)"
  by (induction ies arbitrary: c) (simp_all add: invalidate_entry_good)

lemma display_failure_good:
  assumes good: "good c"
  shows "good (reportDisplayFailure request reason c)"
proof (cases "map_of (cl_entries c) (thumbnailKeyIdentity (tr_key request))")
  case (Some e)
  define i where "i = thumbnailKeyIdentity (tr_key request)"
  let ?again = "en_displayFailures e = 0"
  let ?e = "e\<lparr>en_retryTimer := False, en_displayFailures := Suc (en_displayFailures e), en_retryable := ?again,
    en_snapshot := ErrorShown reason (Some ''THUMBNAIL_decodeFailed'')\<rparr>"
  let ?f = "if ?again then scheduleRetry ?e else ?e"
  have old: "map_of (cl_entries c) i = Some e" using Some by (simp add: i_def)
  have base: "base_ok (cl_uids c) (cl_pending c) i ?e"
    by (rule base_ok_cong [of _ _ _ e]) (use entry_okD [OF goodD [OF good old]] in simp_all)
  have "entry_ok c i (scheduleRetry ?e)" by (rule entry_ok_failed [OF base]) simp
  moreover have "entry_ok c i ?e" if "\<not> ?again" using base that by (simp add: entry_ok_def picture_ok_def)
  ultimately have ok: "entry_ok c i ?f" by presburger
  have f: "shown_asset ?f = {#}" "kept ?f = kept e" by (simp_all add: shown_asset_def) (simp_all add: kept_def)
  have "good (log_effects (release_shown i e @ map Notified (en_listeners e) @ [ReportFailure request reason])
      (put_entry i ?f c))"
    by (rule good_drop [OF good old ok]) (use f in simp_all)
  with Some good show ?thesis by (simp add: reportDisplayFailure_def Let_def flip: i_def)
qed (simp add: reportDisplayFailure_def good)

section \<open>Answers and timers keep the invariant\<close>

lemma take_pending_fields [simp]:
  "cl_entries (take_pending p c) = cl_entries c" "cl_uids (take_pending p c) = cl_uids c"
  "cl_pending (take_pending p c) = set_delete p (cl_pending c)" "entry_for q (take_pending p c) = entry_for q c"
  by (simp_all add: take_pending_def entry_for_def)

lemma entry_for_Some:
  "entry_for p c = Some e \<longleftrightarrow> map_of (cl_entries c) (pn_identity p) = Some e \<and> p = ticket (pn_identity p) e"
  by (cases p) (auto simp: entry_for_def ticket_def split: option.splits)

lemma entry_ok_take:
  "entry_ok c i e \<Longrightarrow> ticket i e \<noteq> p \<Longrightarrow> entry_ok (take_pending p c) i e"
  by (auto simp: entry_ok_def base_ok_def picture_ok_def split: thumbnail_snapshot.splits)

lemma base_ok_take: "base_ok uids pend i e \<Longrightarrow> base_ok uids (set_delete p pend) i e"
  by (simp add: base_ok_def)

lemma frame_ok_take: "frame_ok c \<Longrightarrow> frame_ok (take_pending p c)"
  by (auto simp: frame_ok_def accounted_def handles_shown_def list_all_iff) (simp_all add: take_pending_def)

text \<open>Whose answer it is: the entry that waits for it, or nobody.\<close>

lemma take_unclaimed:
  assumes "good c" and "entry_for p c = None"
  shows "good (take_pending p c)"
proof -
  have "ticket i e \<noteq> p" if "map_of (cl_entries c) i = Some e" for i e
    using assms(2) that entry_for_Some [of p c e] by (auto simp: ticket_def)
  then show ?thesis
    using assms(1) frame_ok_take [of c p] by (simp add: good_def entry_ok_take)
qed

lemma take_claimed:
  assumes good: "good c" and "entry_for p c = Some e" and "p \<in> set (cl_pending c)"
  shows "good_at (pn_identity p) (take_pending p c)" and "base_ok (cl_uids c) (set_delete p (cl_pending c)) (pn_identity p) e"
    and "\<not> kept e" and "ticket (pn_identity p) e \<notin> set (set_delete p (cl_pending c))"
proof -
  have e: "map_of (cl_entries c) (pn_identity p) = Some e" "p = ticket (pn_identity p) e"
    using assms(2) by (simp_all add: entry_for_Some)
  note ok = entry_okD [OF goodD [OF good e(1)]]
  have tick: "ticket (pn_identity p) e \<in> set (cl_pending c)" using assms(3) e(2) by simp
  with ok show kept: "\<not> kept e" by (simp add: base_ok_def kept_def)
  have shown: "shown_asset e = {#}"
    using ok tick by (simp add: picture_ok_def shown_asset_def split: thumbnail_snapshot.splits)
  have "entry_ok (take_pending p c) j x" if "j \<noteq> pn_identity p" "map_of (cl_entries c) j = Some x" for j x
    using that goodD [OF good that(2)] by (intro entry_ok_take) (auto simp: ticket_def)
  with e(1) good kept shown frame_ok_take [of c p] show "good_at (pn_identity p) (take_pending p c)"
    by (simp add: good_at_def good_def)
  show "base_ok (cl_uids c) (set_delete p (cl_pending c)) (pn_identity p) e" using ok by (simp add: base_ok_take)
  show "ticket (pn_identity p) e \<notin> set (set_delete p (cl_pending c))" using e(2) by simp
qed

lemma rejected_good:
  assumes "good c" and "p \<in> set (cl_pending c)"
  shows "good (answer_rejected p err (take_pending p c))"
proof (cases "entry_for p c")
  case None
  with take_unclaimed [OF assms(1)] show ?thesis by (simp add: answer_rejected_def)
next
  case (Some e)
  note t = take_claimed [OF assms(1) Some assms(2)]
  from fail_good [OF t(1) _ t(3)] t(2) Some show ?thesis by (simp add: answer_rejected_def)
qed

lemma resolved_good:
  assumes "good c" and "p \<in> set (cl_pending c)"
  shows "good (answer_resolved p a (take_pending p c))"
proof (cases "validatedAsset a")
  case (Inl m)
  have "good (log_effects [Delivered (pn_identity p) a] c)"
    using Inl by (intro good_log [OF assms(1)]) (simp add: valid_asset_def)
  from rejected_good [OF this] assms(2) have "good (answer_rejected p err (take_pending p (log_effects [Delivered (pn_identity p) a] c)))" for err
    by simp
  moreover have "take_pending p (log_effects es c) = log_effects es (take_pending p c)" for es
    by (simp add: take_pending_def log_effects_def)
  ultimately show ?thesis using Inl by (simp add: answer_resolved_def Let_def)
next
  case (Inr v)
  then have v: "validatedAsset v = Inr v" and av: "a = v" using validated_same by metis+
  have look: "entry_for p (log_effects es (take_pending p c)) = entry_for p c" for es by (simp add: entry_for_def)
  show ?thesis
  proof (cases "entry_for p c")
    case None
    have "good (log_effects [Delivered (pn_identity p) v, ReleaseHandle (pn_identity p) v] (take_pending p c))"
      by (rule good_log [OF take_unclaimed [OF assms(1) None]]) (simp add: valid_asset_def v)
    with Inr None look av show ?thesis by (simp add: answer_resolved_def Let_def log_effects_def)
  next
    case (Some e)
    note t = take_claimed [OF assms(1) Some assms(2)]
    from settle_good [OF t(1) _ t(3) v] t(2,4) Inr Some look av show ?thesis by (simp add: answer_resolved_def Let_def)
  qed
qed

lemma retry_fired_good:
  assumes good: "good c"
  shows "good (retry_fired ad i c)"
proof (cases "map_of (cl_entries c) i")
  case (Some e)
  let ?e = "e\<lparr>en_retryTimer := False\<rparr>"
  note ok = entry_okD [OF goodD [OF good Some]]
  have base: "base_ok (cl_uids c) (cl_pending c) i ?e" by (rule base_ok_cong [of _ _ _ e]) (use ok in simp_all)
  have "good (beginRetry ad i ?e c)"
  proof (cases "may_retry ?e")
    case True
    then show ?thesis by (intro retry_good [OF good Some base]) (simp_all add: may_retry_def)
  next
    case False
    have "picture_ok (cl_pending c) i ?e"
      using ok False by (auto simp: picture_ok_def may_retry_def ticket_def split: thumbnail_snapshot.splits)
    with base have "good (put_entry i ?e c)"
      by (intro good_modify [OF good Some]) (simp_all add: entry_ok_def shown_asset_def kept_def)
    with False show ?thesis by (simp add: beginRetry_def)
  qed
  with Some good show ?thesis by (simp add: retry_fired_def)
qed (simp add: retry_fired_def good)

lemma retain_good:
  assumes good: "good c" and old: "map_of (cl_entries c) i = Some e" and ls: "en_listeners e = []"
    and snap: "en_snapshot e = Resolved a"
  shows "good (retain i (e\<lparr>en_orphanTimer := False\<rparr>) c)"
proof -
  let ?c = "c\<lparr>cl_sequence := Suc (cl_sequence c)\<rparr>"
  let ?e = "e\<lparr>en_orphanTimer := False, en_retained := True, en_lastUsed := Suc (cl_sequence c), en_retainedTimer := True\<rparr>"
  note ok = entry_okD [OF goodD [OF good old]]
  have "entry_ok ?c i ?e"
    using ok ls snap by (auto simp: entry_ok_def base_ok_def picture_ok_def kept_def ticket_def)
  moreover have "accounted (put_entry i ?e ?c)"
    by (rule accounted_put [where c = c and D = "{#}" and R = "{#}" and i = i and e = ?e])
      (use good old in \<open>simp_all add: good_def frame_ok_def old_value_def shown_asset_def\<close>)
  moreover have "entry_ok ?c j x" if "map_of (cl_entries c) j = Some x" for j x
    using goodD [OF good that] by (simp add: entry_ok_def)
  ultimately have "sound (put_entry i ?e ?c)"
    using good by (auto simp: sound_def good_def frame_ok_def lookup_update)
  from evict_good [OF this] show ?thesis by (simp add: retain_def)
qed

lemma orphan_fired_good:
  assumes good: "good c"
  shows "good (orphan_fired i c)"
proof (cases "map_of (cl_entries c) i")
  case (Some e)
  let ?e = "e\<lparr>en_orphanTimer := False\<rparr>"
  note ok = entry_okD [OF goodD [OF good Some]]
  have "good (put_entry i ?e c)" if ne: "en_listeners e \<noteq> []"
  proof (rule good_modify [OF good Some])
    show "entry_ok c i ?e"
      using ok ne picture_ok_cong [of "cl_pending c" i e ?e] by (auto simp: entry_ok_def base_ok_def kept_def ticket_def)
  qed (simp_all add: shown_asset_def kept_def)
  moreover have "good (retain i ?e c)" if "recreatable ?e"
    using that by (cases "en_snapshot e") (auto simp: recreatable_def intro: retain_good [OF good Some])
  moreover have "good (cleanup i ?e c)" using good_cleanup [OF good Some] cleanup_cong [of ?e e i c] by simp
  ultimately show ?thesis using Some good by (simp add: orphan_fired_def Let_def)
qed (simp add: orphan_fired_def good)

lemma retained_fired_good:
  assumes good: "good c"
  shows "good (retained_fired i c)"
proof (cases "map_of (cl_entries c) i")
  case (Some e)
  let ?e = "e\<lparr>en_retainedTimer := False\<rparr>"
  note ok = entry_okD [OF goodD [OF good Some]]
  have "good (put_entry i ?e c)" if nk: "\<not> kept ?e"
  proof (rule good_modify [OF good Some])
    show "entry_ok c i ?e"
      using ok nk picture_ok_cong [of "cl_pending c" i e ?e] by (auto simp: entry_ok_def base_ok_def kept_def ticket_def)
  qed (use nk in \<open>simp_all add: shown_asset_def\<close>)
  moreover have "good (cleanup i ?e c)" using good_cleanup [OF good Some] cleanup_cong [of ?e e i c] by simp
  ultimately show ?thesis using Some by (simp add: retained_fired_def Let_def)
qed (simp add: retained_fired_def good)

lemma good_new_client: "good new_client"
  by (simp add: good_def frame_ok_def new_client_def accounted_def handle_defs within_budget_def retained_count_def
      retained_bytes_def retained_byte_budget_def)

lemma client_step_good: "good c \<Longrightarrow> good (client_step ad c e)"
  by (cases e)
    (simp_all add: subscribe_good unsubscribe_good resolved_good rejected_good retry_fired_good orphan_fired_good
      retained_fired_good invalidate_run_good clearRetained_good display_failure_good dispose_good invalidate_def Let_def)

interpretation thumbnails: machine "client_step ad" good new_client for ad
  by unfold_locales (rule good_new_client, rule client_step_good)

text \<open>An entry whose picture is on its way, there, or finally refused.\<close>

definition progressing :: "thumbnail_client \<Rightarrow> string \<times> thumbnail_entry \<Rightarrow> bool" where
  "progressing c ie =
     (case en_snapshot (snd ie) of
        Loading \<Rightarrow> ticket (fst ie) (snd ie) \<in> set (cl_pending c)
      | Resolved a \<Rightarrow> validatedAsset a = Inr a
      | ErrorShown _ _ \<Rightarrow> en_listeners (snd ie) = [] \<or> \<not> en_retryable (snd ie) \<or> en_retryTimer (snd ie)
      | Idle \<Rightarrow> False)"

text \<open>Somebody subscribes to an entry, or a timer will clean it up.\<close>

definition attended :: "thumbnail_entry \<Rightarrow> bool" where
  "attended e \<longleftrightarrow> (if en_listeners e = [] then en_orphanTimer e \<or> (kept e \<and> en_retainedTimer e) else True)"

section \<open>Properties\<close>

text \<open>C11: Every display handle is given back: whatever is subscribed, answered, retried, invalidated or evicted, in any
  order, the pictures the adapter delivered are exactly those released, those shown now and those that failed the
  validation, each as often as it was delivered; after the client is disposed, all that passed the validation have been
  released. (A picture that fails it is shown to nobody, and the client does not release it.)\<close>

theorem thumbnail_handles_balanced:
  "let c = foldl (client_step ad) new_client es
   in handles_delivered c = handles_released c + handles_shown c + filter_mset (\<lambda>a. \<not> valid_asset a) (handles_delivered c)
      \<and> handles_delivered (dispose c) = handles_released (dispose c) + filter_mset (\<lambda>a. \<not> valid_asset a) (handles_delivered (dispose c))"
proof -
  define c where "c = foldl (client_step ad) new_client es"
  have good: "good c" unfolding c_def by (rule thumbnails.inv_reachable)
  have gone: "cl_entries (foldl (\<lambda>d ie. cleanup (fst ie) (snd ie) d) d ies)
      = filter (\<lambda>je. fst je \<notin> fst ` set ies) (cl_entries d)" for d ies
    by (induction ies arbitrary: d) (auto simp: cleanup_def AList.delete_eq filter_filter case_prod_unfold intro!: filter_cong)
  have "cl_entries (dispose c) = []" by (simp add: dispose_def cleanup_each_def gone filter_empty_conv)
  then have "handles_shown (dispose c) = {#}" by (simp add: handles_shown_def)
  with good dispose_good [OF good] have
    "handles_accepted c = handles_released c + handles_shown c" "handles_accepted (dispose c) = handles_released (dispose c)"
    by (simp_all add: good_def frame_ok_def accounted_def)
  then show ?thesis
    unfolding Let_def c_def [symmetric] by (metis accepted_valid multiset_partition)
qed

text \<open>The handles kept after their last subscriber left never exceed 256 entries or 64 MiB.\<close>

theorem retained_handles_bounded:
  "let es = cl_entries (foldl (client_step ad) new_client events)
   in retained_count es \<le> 256 \<and> retained_bytes es \<le> 64 * 1024 * 1024"
  using thumbnails.inv_reachable [of ad events]
  by (simp add: good_def frame_ok_def within_budget_def retained_capacity_def retained_byte_budget_def Let_def)

text \<open>C34: No subscriber is left stuck: at every moment an entry that is loading has an unsettled resolution of its
  present version, one that shows a retryable failure to somebody has its retry timer armed, one that shows a
  picture shows a validated one, and one nobody subscribes to is going to be cleaned up or has its retention timer.\<close>

theorem no_subscriber_stuck:
  "let c = foldl (client_step ad) new_client events
   in list_all (\<lambda>ie. progressing c ie \<and> attended (snd ie)) (cl_entries c)"
proof -
  define c where "c = foldl (client_step ad) new_client events"
  have good: "good c" unfolding c_def by (rule thumbnails.inv_reachable)
  have "progressing c ie \<and> attended (snd ie)" if "ie \<in> set (cl_entries c)" for ie
  proof -
    have "entry_ok c (fst ie) (snd ie)" by (rule goodD [OF good map_of_entries [OF good_keys [OF good] that]])
    then show ?thesis
      by (auto simp: entry_ok_def base_ok_def picture_ok_def progressing_def attended_def split: thumbnail_snapshot.splits)
  qed
  then show ?thesis by (simp add: Let_def list_all_iff flip: c_def)
qed

text \<open>A picture that arrives goes to the subscribers that wait for it and to nobody else: the entry whose present
  version asked for it shows it and notifies every listener, and a picture for an entry that is gone, was replaced or
  has been invalidated since changes no entry and is released at once.\<close>

theorem answer_reaches_subscriber:
  "let c = foldl (client_step ad) new_client events; d = client_step ad c (AnswerResolved p a)
   in if p \<in> set (cl_pending c) \<and> validatedAsset a = Inr a
      then (case entry_for p c of
              Some e \<Rightarrow> map_option en_snapshot (map_of (cl_entries d) (pn_identity p)) = Some (Resolved a)
                \<and> cl_effects d = cl_effects c @ Delivered (pn_identity p) a # map Notified (en_listeners e)
            | None \<Rightarrow> cl_entries d = cl_entries c
                \<and> cl_effects d = cl_effects c @ [Delivered (pn_identity p) a, ReleaseHandle (pn_identity p) a])
      else True"
proof -
  define c where "c = foldl (client_step ad) new_client events"
  have look: "entry_for p (log_effects es (take_pending p c)) = entry_for p c" for es by (simp add: entry_for_def)
  have effects: "cl_effects (log_effects es x) = cl_effects x @ es" "cl_effects (put_entry i e x) = cl_effects x"
      "cl_effects (take_pending p x) = cl_effects x" for es x i e
    by (simp_all add: log_effects_def put_entry_def take_pending_def)
  have "client_step ad c (AnswerResolved p a)
      = (case entry_for p c of
           Some e \<Rightarrow> settle (pn_identity p) e a (log_effects [Delivered (pn_identity p) a] (take_pending p c))
         | None \<Rightarrow> log_effects [ReleaseHandle (pn_identity p) a] (log_effects [Delivered (pn_identity p) a] (take_pending p c)))"
    if "p \<in> set (cl_pending c)" "validatedAsset a = Inr a"
    using that by (simp add: answer_resolved_def Let_def look)
  then show ?thesis
    by (cases "entry_for p c") (simp_all add: Let_def settle_def publish_def lookup_update effects flip: c_def)
qed

end
