(* ===== verification/ExplorePageSession.thy ===== *)
theory ExplorePageSession
  imports CoreTypes
begin

text \<open>
  \<^verbatim>\<open>src/src/state/explorePageSession.ts\<close>: the pages of one Explore search. The session keeps a bounded
  cache of settled pages around the current one, joins requests for a page that is already asked for, prefetches
  both neighbours, and owns the leases that keep the covers of a page warm.

  The host is a parameter: the clock \<^verbatim>\<open>now\<close>, whether the optional callbacks are given, and whether
  warming or retaining a page hands out a release function (its lease, numbered here in order of the calls).
  Calls that leave the session are logged as effects. A fetch runs asynchronously: \<open>load\<close> logs the call, and
  \<open>resolvePage\<close> is its continuation, with the arguments the call captured. The facts: no lease is lost or
  released twice, the cache stays within its bound and its window, an answer to an earlier search changes
  nothing, and the page opened last is the one shown once it arrives.
\<close>

section \<open>State\<close>

datatype page_priority = Foreground | PrefetchNext | PrefetchPrevious

datatype page_source = FromCache | FromNetwork

datatype load_result = Ready gallery_page page_source rat | Failed api_error | Stale

record settled_page =
  sp_page :: gallery_page
  sp_lastAccessed :: int
  sp_lease :: "nat option"

record failed_prefetch =
  fp_error :: api_error
  fp_lastAccessed :: int

record in_flight_page =
  if_request :: nat
  if_requestId :: string
  if_priority :: page_priority
  if_intent :: "nat option"

text \<open>What the continuation of a fetch remembers; the request object is known by its number.\<close>

record fetch_call =
  fc_query :: string
  fc_generation :: nat
  fc_page :: int
  fc_request :: nat

datatype session_effect =
    FetchPage fetch_call string
  | CancelPage string
  | Acquired nat
  | Released nat
  | PromotePage string int

record session_host =
  h_cancel :: bool
  h_promote :: bool
  h_warm :: "(nat \<Rightarrow> gallery_page \<Rightarrow> page_priority \<Rightarrow> bool) option"
  h_retain :: "(nat \<Rightarrow> gallery_page \<Rightarrow> bool) option"
  h_maxSettled :: nat
  h_now :: "nat \<Rightarrow> int"

record page_session =
  xs_sessionId :: nat
  xs_generation :: nat
  xs_intent :: nat
  xs_sequence :: nat
  xs_query :: "string option"
  xs_current :: int
  xs_total :: int
  xs_pages :: "(int \<times> settled_page) list"
  xs_failures :: "(int \<times> failed_prefetch) list"
  xs_inFlight :: "(int \<times> in_flight_page) list"
  xs_scroll :: "(int \<times> rat) list"
  xs_parked :: bool
  xs_retained :: "nat option"
  xs_reads :: nat
  xs_leases :: nat
  xs_effects :: "session_effect list"

text \<open>The constructor; a capacity below one throws.\<close>

definition new_session :: "nat \<Rightarrow> js_num option \<Rightarrow> (nat \<times> page_session) option" where
  "new_session sid maxSettledPages =
     (case or_value maxSettledPages (Num 5) of
        Num r \<Rightarrow>
          if rat_is_int r \<and> 1 \<le> r
          then Some (nat (floor r),
            \<lparr>xs_sessionId = sid, xs_generation = 0, xs_intent = 0, xs_sequence = 0, xs_query = None,
             xs_current = 0, xs_total = 0, xs_pages = [], xs_failures = [], xs_inFlight = [], xs_scroll = [],
             xs_parked = False, xs_retained = None, xs_reads = 0, xs_leases = 0, xs_effects = []\<rparr>)
          else None
      | _ \<Rightarrow> None)"

section \<open>Leases\<close>

definition emit :: "session_effect list \<Rightarrow> page_session \<Rightarrow> page_session" where
  "emit es s = s\<lparr>xs_effects := xs_effects s @ es\<rparr>"

definition tick :: "page_session \<Rightarrow> page_session" where
  "tick s = s\<lparr>xs_reads := Suc (xs_reads s)\<rparr>"

definition now_at :: "session_host \<Rightarrow> page_session \<Rightarrow> int" where
  "now_at h s = h_now h (xs_reads s)"

definition released :: "nat option \<Rightarrow> session_effect list" where
  "released l = (case l of Some n \<Rightarrow> [Released n] | None \<Rightarrow> [])"

text \<open>One call of a lease-giving callback: the lease it hands out, if it hands one out.\<close>

definition leased :: "bool \<Rightarrow> page_session \<Rightarrow> nat option" where
  "leased given s = (if given then Some (xs_leases s) else None)"

definition acquire :: "nat option \<Rightarrow> page_session \<Rightarrow> page_session" where
  "acquire l s =
     emit (case l of Some n \<Rightarrow> [Acquired n] | None \<Rightarrow> []) (s\<lparr>xs_leases := Suc (xs_leases s)\<rparr>)"

definition set_lease :: "nat option \<Rightarrow> settled_page \<Rightarrow> settled_page" where
  "set_lease l e = e\<lparr>sp_lease := l\<rparr>"

definition releaseWarmups :: "page_session \<Rightarrow> page_session" where
  "releaseWarmups s =
     emit (concat (map (\<lambda>pe. released (sp_lease (snd pe))) (xs_pages s)))
       (s\<lparr>xs_pages := map (\<lambda>pe. (fst pe, set_lease None (snd pe))) (xs_pages s)\<rparr>)"

definition releaseRetainedPage :: "page_session \<Rightarrow> page_session" where
  "releaseRetainedPage s = emit (released (xs_retained s)) (s\<lparr>xs_retained := None\<rparr>)"

section \<open>Warming neighbours and evicting\<close>

definition warm_priority :: "int \<Rightarrow> page_priority" where
  "warm_priority distance = (if 0 < distance then PrefetchNext else PrefetchPrevious)"

definition sync_page ::
  "(nat \<Rightarrow> gallery_page \<Rightarrow> page_priority \<Rightarrow> bool) \<Rightarrow> page_session \<Rightarrow> int \<times> settled_page \<Rightarrow> page_session" where
  "sync_page warm s pe =
     (let p = fst pe; e = snd pe; distance = p - xs_current s
      in if distance = 0 \<or> \<bar>distance\<bar> > 1 then
           (if sp_lease e = None then s
            else emit (released (sp_lease e)) (s\<lparr>xs_pages := AList.update p (set_lease None e) (xs_pages s)\<rparr>))
         else if sp_lease e \<noteq> None then s
         else
           let l = leased (warm (xs_leases s) (sp_page e) (warm_priority distance)) s
           in acquire l (s\<lparr>xs_pages := AList.update p (set_lease l e) (xs_pages s)\<rparr>))"

definition syncWarmups :: "session_host \<Rightarrow> page_session \<Rightarrow> page_session" where
  "syncWarmups h s =
     (case h_warm h of
        None \<Rightarrow> s
      | Some warm \<Rightarrow> if xs_parked s then s else foldl (sync_page warm) s (xs_pages s))"

definition outside :: "int \<Rightarrow> int \<Rightarrow> bool" where
  "outside current p \<longleftrightarrow> \<bar>p - current\<bar> > 2"

definition by_eviction :: "int \<Rightarrow> int \<times> settled_page \<Rightarrow> int \<times> settled_page \<Rightarrow> int" where
  "by_eviction current =
     js_or (\<lambda>l r. of_bool (outside current (fst r)) - of_bool (outside current (fst l)))
       (js_or (\<lambda>l r. \<bar>fst r - current\<bar> - \<bar>fst l - current\<bar>)
          (\<lambda>l r. sp_lastAccessed (snd l) - sp_lastAccessed (snd r)))"

definition drop_page :: "int \<times> settled_page \<Rightarrow> page_session \<Rightarrow> page_session" where
  "drop_page pe s =
     emit (released (sp_lease (snd pe)))
       (s\<lparr>xs_pages := AList.delete (fst pe) (xs_pages s),
          xs_failures := AList.delete (fst pe) (xs_failures s),
          xs_scroll := AList.delete (fst pe) (xs_scroll s)\<rparr>)"

fun evict_loop :: "nat \<Rightarrow> page_session \<Rightarrow> (int \<times> settled_page) list \<Rightarrow> page_session" where
  "evict_loop limit s [] = s"
| "evict_loop limit s (pe # pes) =
     (if \<not> outside (xs_current s) (fst pe) \<and> length (xs_pages s) \<le> limit then s
      else evict_loop limit (drop_page pe s) pes)"

definition evictSettledPages :: "session_host \<Rightarrow> page_session \<Rightarrow> page_session" where
  "evictSettledPages h s =
     (if xs_current s = 0 then s
      else evict_loop (h_maxSettled h) s
             (js_sort (by_eviction (xs_current s)) (filter (\<lambda>pe. fst pe \<noteq> xs_current s) (xs_pages s))))"

definition by_access :: "int \<times> failed_prefetch \<Rightarrow> int \<times> failed_prefetch \<Rightarrow> int" where
  "by_access l r = fp_lastAccessed (snd l) - fp_lastAccessed (snd r)"

function drop_oldest :: "nat \<Rightarrow> (int \<times> failed_prefetch) list \<Rightarrow> (int \<times> failed_prefetch) list" where
  "drop_oldest limit fs =
     (if length fs \<le> limit then fs
      else case js_sort by_access fs of
        [] \<Rightarrow> fs
      | oldest # _ \<Rightarrow> drop_oldest limit (AList.delete (fst oldest) fs))"
  by pat_completeness auto
termination
proof (relation "measure (\<lambda>(limit, fs). length fs)")
  fix limit :: nat and fs oldest rest
  assume "js_sort by_access fs = oldest # rest"
  then have "oldest \<in> set fs" by (metis list.set_intros(1) set_js_sort)
  then have "fst oldest \<in> set (keys fs)" by simp
  then show "((limit, AList.delete (fst oldest) fs), limit, fs) \<in> measure (\<lambda>(limit, fs). length fs)"
    using length_delete_less by simp
qed simp

declare drop_oldest.simps [simp del]

definition evictFailures :: "session_host \<Rightarrow> page_session \<Rightarrow> page_session" where
  "evictFailures h s =
     s\<lparr>xs_failures := drop_oldest (h_maxSettled h) (filter (\<lambda>pf. \<not> outside (xs_current s) (fst pf)) (xs_failures s))\<rparr>"

section \<open>Loading pages\<close>

definition out_of_range_message :: string where
  "out_of_range_message = [CHR 0xEC, CHR 0x9A, CHR 0x94, CHR 0xEC, CHR 0xB2, CHR 0xAD,
     CHR 0xED, CHR 0x95, CHR 0x9C] @ '' '' @ [CHR 0xEA, CHR 0xB2, CHR 0x80, CHR 0xEC, CHR 0x83,
     CHR 0x89] @ '' '' @ [CHR 0xED, CHR 0x8E, CHR 0x98, CHR 0xEC, CHR 0x9D, CHR 0xB4, CHR 0xEC,
     CHR 0xA7, CHR 0x80, CHR 0xEA, CHR 0xB0, CHR 0x80] @ '' '' @ [CHR 0xEB, CHR 0xB2, CHR 0x94,
     CHR 0xEC, CHR 0x9C, CHR 0x84, CHR 0xEB, CHR 0xA5, CHR 0xBC] @ '' '' @ [CHR 0xEB, CHR 0xB2,
     CHR 0x97, CHR 0xEC, CHR 0x96, CHR 0xB4, CHR 0xEB, CHR 0x82, CHR 0xAC, CHR 0xEC, CHR 0x8A,
     CHR 0xB5, CHR 0xEB, CHR 0x8B, CHR 0x88, CHR 0xEB, CHR 0x8B, CHR 0xA4] @ ''.''"

definition out_of_range_error :: api_error where
  "out_of_range_error = \<lparr>ae_code = ''PAGE_OUT_OF_RANGE'', ae_message = out_of_range_message,
     ae_retryable = False, ae_action = Some ActNone, ae_details = None\<rparr>"

definition page_unavailable_message :: string where
  "page_unavailable_message = [CHR 0xEA, CHR 0xB2, CHR 0x80, CHR 0xEC, CHR 0x83,
     CHR 0x89] @ '' '' @ [CHR 0xED, CHR 0x8E, CHR 0x98, CHR 0xEC, CHR 0x9D, CHR 0xB4, CHR 0xEC,
     CHR 0xA7, CHR 0x80, CHR 0xEB, CHR 0xA5, CHR 0xBC] @ '' '' @ [CHR 0xEB, CHR 0xB6, CHR 0x88,
     CHR 0xEB, CHR 0x9F, CHR 0xAC, CHR 0xEC, CHR 0x98, CHR 0xA4, CHR 0xEC, CHR 0xA7,
     CHR 0x80] @ '' '' @ [CHR 0xEB, CHR 0xAA, CHR 0xBB, CHR 0xED, CHR 0x96, CHR 0x88, CHR 0xEC,
     CHR 0x8A, CHR 0xB5, CHR 0xEB, CHR 0x8B, CHR 0x88, CHR 0xEB, CHR 0x8B, CHR 0xA4] @ ''.''"

definition page_unavailable_error :: api_error where
  "page_unavailable_error = \<lparr>ae_code = ''BACKEND_UNAVAILABLE'', ae_message = page_unavailable_message,
     ae_retryable = True, ae_action = Some ActRetry, ae_details = None\<rparr>"

definition scrollFor :: "int \<Rightarrow> page_session \<Rightarrow> rat" where
  "scrollFor p s = or_value (map_of (xs_scroll s) p) 0"

text \<open>A load either settles at once or waits for the request with this number.\<close>

datatype load_outcome = Settled load_result | Waiting nat

definition touch_page :: "session_host \<Rightarrow> int \<Rightarrow> settled_page \<Rightarrow> page_session \<Rightarrow> page_session" where
  "touch_page h p e s =
     tick (s\<lparr>xs_pages := AList.update p (e\<lparr>sp_lastAccessed := now_at h s\<rparr>) (xs_pages s)\<rparr>)"

definition valid_page :: "page_session \<Rightarrow> js_num \<Rightarrow> int option" where
  "valid_page s n =
     (case n of
        Num r \<Rightarrow>
          if xs_query s \<notin> {None, Some []} \<and> rat_is_int r \<and> 1 \<le> r \<and> r \<le> of_int (xs_total s)
          then Some (floor r) else None
      | _ \<Rightarrow> None)"

definition request_id :: "page_session \<Rightarrow> nat \<Rightarrow> string" where
  "request_id s n =
     ''explore-page-'' @ show_nat (xs_sessionId s) @ ''-'' @ show_nat (xs_generation s) @ ''-'' @ show_nat n"

definition begin_request :: "int \<Rightarrow> page_priority \<Rightarrow> nat option \<Rightarrow> page_session \<Rightarrow> page_session" where
  "begin_request p priority intent s =
     (let n = Suc (xs_sequence s)
      in emit [FetchPage \<lparr>fc_query = or_value (xs_query s) [], fc_generation = xs_generation s, fc_page = p,
                  fc_request = n\<rparr> (request_id s n)]
           (s\<lparr>xs_sequence := n,
              xs_inFlight := AList.update p \<lparr>if_request = n, if_requestId = request_id s n, if_priority = priority,
                 if_intent = (if priority = Foreground then intent else None)\<rparr> (xs_inFlight s)\<rparr>))"

text \<open>A foreground load of a page that is already asked for takes the request over.\<close>

definition join_request ::
  "session_host \<Rightarrow> int \<Rightarrow> page_priority \<Rightarrow> nat option \<Rightarrow> in_flight_page \<Rightarrow> page_session \<Rightarrow> page_session" where
  "join_request h p priority intent f s =
     (if priority \<noteq> Foreground then s
      else
        let s1 = s\<lparr>xs_inFlight := AList.update p (f\<lparr>if_priority := Foreground, if_intent := intent\<rparr>) (xs_inFlight s)\<rparr>
        in if if_priority f \<noteq> Foreground \<and> h_promote h then emit [PromotePage (or_value (xs_query s) []) p] s1 else s1)"

definition ask_page ::
  "session_host \<Rightarrow> int \<Rightarrow> page_priority \<Rightarrow> nat option \<Rightarrow> page_session \<Rightarrow> page_session \<times> load_outcome" where
  "ask_page h p priority intent s =
     (case map_of (xs_inFlight s) p of
        Some f \<Rightarrow> (join_request h p priority intent f s, Waiting (if_request f))
      | None \<Rightarrow> (begin_request p priority intent s, Waiting (Suc (xs_sequence s))))"

text \<open>
  Loading, with what activating a foreground page does. A prefetch never activates, so the neighbours are
  loaded with an activation that is not called.
\<close>

definition load_with ::
  "(int \<Rightarrow> page_session \<Rightarrow> page_session) \<Rightarrow> session_host \<Rightarrow> js_num \<Rightarrow> page_priority \<Rightarrow> nat option
   \<Rightarrow> page_session \<Rightarrow> page_session \<times> load_outcome" where
  "load_with activate h n priority intent s =
     (case valid_page s n of
        None \<Rightarrow> (s, Settled (Failed out_of_range_error))
      | Some p \<Rightarrow>
          (case map_of (xs_pages s) p of
             Some e \<Rightarrow>
               let s1 = touch_page h p e s;
                   s2 = (if priority = Foreground \<and> intent = Some (xs_intent s1) then activate p s1 else s1)
               in (s2, Settled (Ready (sp_page e) FromCache (scrollFor p s2)))
           | None \<Rightarrow>
               if priority = Foreground
               then ask_page h p priority intent (s\<lparr>xs_failures := AList.delete p (xs_failures s)\<rparr>)
               else case map_of (xs_failures s) p of
                 Some f \<Rightarrow>
                   (tick (s\<lparr>xs_failures := AList.update p (f\<lparr>fp_lastAccessed := now_at h s\<rparr>) (xs_failures s)\<rparr>),
                    Settled (Failed (fp_error f)))
               | None \<Rightarrow> ask_page h p priority intent s))"

definition prefetch :: "session_host \<Rightarrow> int \<Rightarrow> page_priority \<Rightarrow> page_session \<Rightarrow> page_session" where
  "prefetch h p priority s = fst (load_with (\<lambda>_ t. t) h (Num (of_int p)) priority None s)"

definition prefetchAdjacent :: "session_host \<Rightarrow> page_session \<Rightarrow> page_session" where
  "prefetchAdjacent h s =
     (if xs_query s \<in> {None, Some []} \<or> map_of (xs_pages s) (xs_current s) = None then s
      else
        let s1 = (if xs_current s + 1 \<le> xs_total s then prefetch h (xs_current s + 1) PrefetchNext s else s)
        in if 1 \<le> xs_current s - 1 then prefetch h (xs_current s - 1) PrefetchPrevious s1 else s1)"

definition activateForeground :: "session_host \<Rightarrow> int \<Rightarrow> page_session \<Rightarrow> page_session" where
  "activateForeground h p s =
     (case map_of (xs_pages s) p of
        None \<Rightarrow> s
      | Some e \<Rightarrow> prefetchAdjacent h (syncWarmups h (evictSettledPages h ((touch_page h p e s)\<lparr>xs_current := p\<rparr>))))"

definition load_page ::
  "session_host \<Rightarrow> js_num \<Rightarrow> page_priority \<Rightarrow> nat option \<Rightarrow> page_session \<Rightarrow> page_session \<times> load_outcome" where
  "load_page h = load_with (activateForeground h) h"

definition open_page :: "session_host \<Rightarrow> js_num \<Rightarrow> page_session \<Rightarrow> page_session \<times> load_outcome" where
  "open_page h n s =
     (let s1 = s\<lparr>xs_intent := Suc (xs_intent s)\<rparr> in load_page h n Foreground (Some (xs_intent s1)) s1)"

text \<open>The continuation of a fetch; \<open>None\<close> is a rejected promise.\<close>

definition owns_request :: "fetch_call \<Rightarrow> page_session \<Rightarrow> in_flight_page option" where
  "owns_request c s =
     (if fc_generation c \<noteq> xs_generation s \<or> Some (fc_query c) \<noteq> xs_query s then None
      else case map_of (xs_inFlight s) (fc_page c) of
        Some f \<Rightarrow> if if_request f = fc_request c then Some f else None
      | None \<Rightarrow> None)"

definition store_page :: "session_host \<Rightarrow> int \<Rightarrow> gallery_page \<Rightarrow> page_session \<Rightarrow> page_session" where
  "store_page h p page s =
     tick (emit (released (Option.bind (map_of (xs_pages s) p) sp_lease))
       (s\<lparr>xs_failures := AList.delete p (xs_failures s),
          xs_pages := AList.update p \<lparr>sp_page = page, sp_lastAccessed = now_at h s, sp_lease = None\<rparr> (xs_pages s),
          xs_total := pg_totalPages page\<rparr>))"

definition store_failure :: "session_host \<Rightarrow> int \<Rightarrow> api_error \<Rightarrow> page_session \<Rightarrow> page_session" where
  "store_failure h p err s =
     evictFailures h (tick (s\<lparr>xs_failures := AList.update p \<lparr>fp_error = err, fp_lastAccessed = now_at h s\<rparr> (xs_failures s)\<rparr>))"

definition resolvePage ::
  "session_host \<Rightarrow> fetch_call \<Rightarrow> gallery_page api_result option \<Rightarrow> page_session \<Rightarrow> page_session \<times> load_result" where
  "resolvePage h c result s =
     (case owns_request c s of
        None \<Rightarrow> (s, Stale)
      | Some f \<Rightarrow>
          let p = fc_page c; s1 = s\<lparr>xs_inFlight := AList.delete p (xs_inFlight s)\<rparr>
          in case or_value result (Inl page_unavailable_error) of
               Inl err \<Rightarrow> (if if_priority f \<noteq> Foreground then store_failure h p err s1 else s1, Failed err)
             | Inr page \<Rightarrow>
                 let s2 = store_page h p page s1;
                     s3 = (if if_priority f = Foreground \<and> if_intent f = Some (xs_intent s2)
                           then activateForeground h p s2 else syncWarmups h (evictSettledPages h s2))
                 in (s3, Ready page FromNetwork (scrollFor p s3)))"

section \<open>Starting, leaving and returning\<close>

definition reset_session :: "session_host \<Rightarrow> page_session \<Rightarrow> page_session" where
  "reset_session h s =
     (let s1 = releaseWarmups (releaseRetainedPage s);
          s2 = (if h_cancel h then emit (map (\<lambda>pf. CancelPage (if_requestId (snd pf))) (xs_inFlight s1)) s1 else s1)
      in s2\<lparr>xs_query := None, xs_current := 0, xs_total := 0, xs_pages := [], xs_failures := [], xs_inFlight := [],
            xs_scroll := [], xs_parked := False\<rparr>)"

definition start_session :: "session_host \<Rightarrow> string \<Rightarrow> gallery_page \<Rightarrow> page_session \<Rightarrow> page_session" where
  "start_session h q page s =
     (let s1 = reset_session h s
      in tick (s1\<lparr>xs_generation := Suc (xs_generation s1), xs_query := Some q, xs_current := pg_page page,
           xs_total := pg_totalPages page,
           xs_pages := [(pg_page page, \<lparr>sp_page = page, sp_lastAccessed = now_at h s1, sp_lease = None\<rparr>)]\<rparr>))"

definition clear_session :: "session_host \<Rightarrow> page_session \<Rightarrow> page_session" where
  "clear_session h s = (let s1 = reset_session h s in s1\<lparr>xs_generation := Suc (xs_generation s1)\<rparr>)"

definition retain_current :: "session_host \<Rightarrow> page_session \<Rightarrow> page_session" where
  "retain_current h s =
     (case (map_of (xs_pages s) (xs_current s), h_retain h, xs_retained s) of
        (Some e, Some retain, None) \<Rightarrow>
          let l = leased (retain (xs_leases s) (sp_page e)) s in (acquire l s)\<lparr>xs_retained := l\<rparr>
      | _ \<Rightarrow> s)"

definition park_session :: "session_host \<Rightarrow> page_session \<Rightarrow> page_session" where
  "park_session h s =
     (if xs_parked s \<or> xs_query s \<in> {None, Some []} then s
      else releaseWarmups (retain_current h (s\<lparr>xs_parked := True\<rparr>)))"

definition resume_session :: "session_host \<Rightarrow> page_session \<Rightarrow> page_session" where
  "resume_session h s = (if \<not> xs_parked s then s else syncWarmups h (s\<lparr>xs_parked := False\<rparr>))"

definition recordScroll :: "js_num \<Rightarrow> js_num \<Rightarrow> page_session \<Rightarrow> page_session" where
  "recordScroll n scrollTop s =
     (case n of
        Num r \<Rightarrow>
          if xs_query s \<in> {None, Some []} \<or> \<not> rat_is_int r \<or> map_of (xs_pages s) (floor r) = None \<or> r < 1 then s
          else s\<lparr>xs_scroll := AList.update (floor r) (case scrollTop of Num t \<Rightarrow> max 0 t | _ \<Rightarrow> 0) (xs_scroll s)\<rparr>
      | _ \<Rightarrow> s)"

definition cachedPageNumbers :: "page_session \<Rightarrow> int list" where
  "cachedPageNumbers s = js_sort by_number (keys (xs_pages s))"

definition inFlightPageNumbers :: "page_session \<Rightarrow> int list" where
  "inFlightPageNumbers s = js_sort by_number (keys (xs_inFlight s))"

end
