(* ===== verification/ExplorePageFacts.thy ===== *)
theory ExplorePageFacts
  imports ExplorePageSession
begin

text \<open>
  Facts about the Explore page session: which fields each operation touches, the account of leases, the bounds of
  the cache, the requests in flight, and the properties that follow for every reachable session.
\<close>

section \<open>What each operation leaves alone\<close>

lemma emit_fields [simp]:
  "xs_sessionId (emit es s) = xs_sessionId s" "xs_generation (emit es s) = xs_generation s"
  "xs_intent (emit es s) = xs_intent s" "xs_sequence (emit es s) = xs_sequence s"
  "xs_query (emit es s) = xs_query s" "xs_current (emit es s) = xs_current s" "xs_total (emit es s) = xs_total s"
  "xs_pages (emit es s) = xs_pages s" "xs_failures (emit es s) = xs_failures s"
  "xs_inFlight (emit es s) = xs_inFlight s" "xs_scroll (emit es s) = xs_scroll s"
  "xs_parked (emit es s) = xs_parked s" "xs_retained (emit es s) = xs_retained s"
  "xs_effects (emit es s) = xs_effects s @ es"
  by (simp_all add: emit_def)

lemma tick_fields [simp]:
  "xs_generation (tick s) = xs_generation s" "xs_intent (tick s) = xs_intent s"
  "xs_sequence (tick s) = xs_sequence s" "xs_query (tick s) = xs_query s" "xs_current (tick s) = xs_current s"
  "xs_total (tick s) = xs_total s" "xs_pages (tick s) = xs_pages s" "xs_failures (tick s) = xs_failures s"
  "xs_inFlight (tick s) = xs_inFlight s" "xs_parked (tick s) = xs_parked s" "xs_retained (tick s) = xs_retained s"
  "xs_effects (tick s) = xs_effects s"
  by (simp_all add: tick_def)

lemma acquire_fields [simp]:
  "xs_generation (acquire l s) = xs_generation s" "xs_intent (acquire l s) = xs_intent s"
  "xs_sequence (acquire l s) = xs_sequence s" "xs_query (acquire l s) = xs_query s"
  "xs_current (acquire l s) = xs_current s" "xs_total (acquire l s) = xs_total s"
  "xs_pages (acquire l s) = xs_pages s" "xs_failures (acquire l s) = xs_failures s"
  "xs_inFlight (acquire l s) = xs_inFlight s" "xs_parked (acquire l s) = xs_parked s"
  "xs_retained (acquire l s) = xs_retained s"
  by (simp_all add: acquire_def)

text \<open>Maintenance of the cache: the request bookkeeping is untouched, and only lease effects are added.\<close>

fun lease_effect :: "session_effect \<Rightarrow> bool" where
  "lease_effect (Acquired _) = True"
| "lease_effect (Released _) = True"
| "lease_effect _ = False"

definition request_view where
  "request_view s =
     (xs_generation s, xs_intent s, xs_sequence s, xs_query s, xs_inFlight s, xs_parked s,
      filter (\<lambda>e. \<not> lease_effect e) (xs_effects s))"

lemma filter_released [simp]: "filter (\<lambda>e. \<not> lease_effect e) (released l) = []"
  by (simp add: released_def split: option.split)

lemma request_view_emit_released [simp]: "request_view (emit (released l) s) = request_view s"
  by (simp add: request_view_def)

lemma request_view_acquire [simp]: "request_view (acquire l s) = request_view s"
  by (simp add: request_view_def acquire_def split: option.split)

lemma request_view_fields [simp]:
  "request_view (s\<lparr>xs_pages := ps\<rparr>) = request_view s" "request_view (s\<lparr>xs_failures := fs\<rparr>) = request_view s"
  "request_view (s\<lparr>xs_scroll := sc\<rparr>) = request_view s" "request_view (s\<lparr>xs_current := c\<rparr>) = request_view s"
  "request_view (s\<lparr>xs_total := n\<rparr>) = request_view s" "request_view (s\<lparr>xs_retained := r\<rparr>) = request_view s"
  "request_view (tick s) = request_view s"
  by (simp_all add: request_view_def)

lemma request_view_sync_page [simp]: "request_view (sync_page warm s pe) = request_view s"
  by (simp add: sync_page_def Let_def)

lemma sync_page_fields [simp]:
  "xs_current (sync_page warm s pe) = xs_current s" "xs_total (sync_page warm s pe) = xs_total s"
  "xs_retained (sync_page warm s pe) = xs_retained s" "xs_parked (sync_page warm s pe) = xs_parked s"
  "xs_failures (sync_page warm s pe) = xs_failures s"
  by (simp_all add: sync_page_def Let_def)

lemma sync_run_fields [simp]:
  "xs_current (foldl (sync_page warm) s pes) = xs_current s"
  "xs_total (foldl (sync_page warm) s pes) = xs_total s"
  "xs_retained (foldl (sync_page warm) s pes) = xs_retained s"
  "xs_parked (foldl (sync_page warm) s pes) = xs_parked s"
  "xs_failures (foldl (sync_page warm) s pes) = xs_failures s"
  "request_view (foldl (sync_page warm) s pes) = request_view s"
  by (induction pes arbitrary: s) simp_all

lemma syncWarmups_fields [simp]:
  "xs_current (syncWarmups h s) = xs_current s" "xs_total (syncWarmups h s) = xs_total s"
  "xs_retained (syncWarmups h s) = xs_retained s" "xs_parked (syncWarmups h s) = xs_parked s"
  "xs_failures (syncWarmups h s) = xs_failures s" "request_view (syncWarmups h s) = request_view s"
  by (simp_all add: syncWarmups_def split: option.split)

lemma drop_page_fields [simp]:
  "xs_current (drop_page pe s) = xs_current s" "xs_total (drop_page pe s) = xs_total s"
  "xs_retained (drop_page pe s) = xs_retained s" "xs_parked (drop_page pe s) = xs_parked s"
  "xs_pages (drop_page pe s) = AList.delete (fst pe) (xs_pages s)"
  "xs_failures (drop_page pe s) = AList.delete (fst pe) (xs_failures s)"
  "request_view (drop_page pe s) = request_view s"
  by (simp_all add: drop_page_def)

lemma evict_loop_frame [simp]:
  "xs_current (evict_loop limit s pes) = xs_current s" "xs_total (evict_loop limit s pes) = xs_total s"
  "xs_retained (evict_loop limit s pes) = xs_retained s" "xs_parked (evict_loop limit s pes) = xs_parked s"
  "request_view (evict_loop limit s pes) = request_view s"
  by (induction pes arbitrary: s) simp_all

lemma evictSettled_frame [simp]:
  "xs_current (evictSettledPages h s) = xs_current s" "xs_total (evictSettledPages h s) = xs_total s"
  "xs_retained (evictSettledPages h s) = xs_retained s" "xs_parked (evictSettledPages h s) = xs_parked s"
  "request_view (evictSettledPages h s) = request_view s"
  by (simp_all add: evictSettledPages_def)

lemma touch_page_fields [simp]:
  "xs_current (touch_page h p e s) = xs_current s" "xs_total (touch_page h p e s) = xs_total s"
  "xs_retained (touch_page h p e s) = xs_retained s" "xs_intent (touch_page h p e s) = xs_intent s"
  "xs_inFlight (touch_page h p e s) = xs_inFlight s" "xs_effects (touch_page h p e s) = xs_effects s"
  "xs_generation (touch_page h p e s) = xs_generation s" "xs_query (touch_page h p e s) = xs_query s"
  "xs_sequence (touch_page h p e s) = xs_sequence s" "xs_parked (touch_page h p e s) = xs_parked s"
  "xs_failures (touch_page h p e s) = xs_failures s"
  by (simp_all add: touch_page_def)

section \<open>The account of leases\<close>

definition lease_of :: "nat option \<Rightarrow> nat multiset" where
  "lease_of l = (case l of Some n \<Rightarrow> {#n#} | None \<Rightarrow> {#})"

lemma lease_of_simps [simp]: "lease_of None = {#}" "lease_of (Some n) = {#n#}"
  by (simp_all add: lease_of_def)

fun acquired_by :: "session_effect \<Rightarrow> nat multiset" where
  "acquired_by (Acquired n) = {#n#}"
| "acquired_by _ = {#}"

fun released_by :: "session_effect \<Rightarrow> nat multiset" where
  "released_by (Released n) = {#n#}"
| "released_by _ = {#}"

definition leases_acquired :: "page_session \<Rightarrow> nat multiset" where
  "leases_acquired s = sum_list (map acquired_by (xs_effects s))"

definition leases_released :: "page_session \<Rightarrow> nat multiset" where
  "leases_released s = sum_list (map released_by (xs_effects s))"

definition page_leases :: "(int \<times> settled_page) list \<Rightarrow> nat multiset" where
  "page_leases = map_total (\<lambda>e. lease_of (sp_lease e))"

definition leases_held :: "page_session \<Rightarrow> nat multiset" where
  "leases_held s = lease_of (xs_retained s) + page_leases (xs_pages s)"

definition balanced :: "page_session \<Rightarrow> bool" where
  "balanced s \<longleftrightarrow> leases_acquired s = leases_released s + leases_held s"

lemmas account_defs = leases_acquired_def leases_released_def leases_held_def

lemma page_leases_simps [simp]:
  "page_leases [] = {#}" "page_leases (pe # pes) = lease_of (sp_lease (snd pe)) + page_leases pes"
  by (simp_all add: page_leases_def)

lemma sum_released [simp]:
  "sum_list (map released_by (released l)) = lease_of l" "sum_list (map acquired_by (released l)) = {#}"
  by (simp_all add: released_def split: option.split)

lemma old_lease: "old_value (\<lambda>e. lease_of (sp_lease e)) pes p = lease_of (Option.bind (map_of pes p) sp_lease)"
  by (simp add: old_value_def split: option.split)

lemma page_leases_update:
  "page_leases (AList.update p e pes) + lease_of (Option.bind (map_of pes p) sp_lease)
   = page_leases pes + lease_of (sp_lease e)"
  unfolding page_leases_def old_lease [symmetric] by (rule map_total_update)

lemma page_leases_update_same:
  "map_of pes p = Some e \<Longrightarrow> sp_lease e' = sp_lease e \<Longrightarrow> page_leases (AList.update p e' pes) = page_leases pes"
  using page_leases_update [of p e' pes] by simp

lemma page_leases_delete:
  "distinct (keys pes) \<Longrightarrow>
   page_leases (AList.delete p pes) + lease_of (Option.bind (map_of pes p) sp_lease) = page_leases pes"
  unfolding page_leases_def old_lease [symmetric] by (rule map_total_delete)

lemma account_emit [simp]:
  "leases_acquired (emit es s) = leases_acquired s + sum_list (map acquired_by es)"
  "leases_released (emit es s) = leases_released s + sum_list (map released_by es)"
  "leases_held (emit es s) = leases_held s"
  by (simp_all add: account_defs)

lemma account_tick [simp]:
  "leases_acquired (tick s) = leases_acquired s" "leases_released (tick s) = leases_released s"
  "leases_held (tick s) = leases_held s"
  by (simp_all add: account_defs)

lemma account_acquire [simp]:
  "leases_acquired (acquire l s) = leases_acquired s + lease_of l"
  "leases_released (acquire l s) = leases_released s"
  "leases_held (acquire l s) = leases_held s"
  by (simp_all add: account_defs acquire_def emit_def split: option.split)

lemma keys_update_present: "p \<in> fst ` set m \<Longrightarrow> keys (AList.update p v m) = keys m"
  by (simp add: AList.update_keys)

lemma balanced_pages:
  assumes "balanced s"
    and "leases_acquired t = leases_acquired s + A"
    and "leases_released t = leases_released s + R"
    and "xs_retained t = xs_retained s"
    and "page_leases (xs_pages t) + R = page_leases (xs_pages s) + A"
  shows "balanced t"
proof -
  have "leases_acquired t = leases_released s + lease_of (xs_retained s) + (page_leases (xs_pages s) + A)"
    using assms(1,2) by (simp add: balanced_def leases_held_def ac_simps)
  also have "\<dots> = leases_released s + lease_of (xs_retained s) + (page_leases (xs_pages t) + R)"
    by (simp only: assms(5))
  also have "\<dots> = leases_released t + leases_held t"
    using assms(3,4) by (simp add: leases_held_def ac_simps)
  finally show ?thesis by (simp add: balanced_def)
qed

lemma account_fields [simp]:
  "leases_acquired (s\<lparr>xs_pages := ps\<rparr>) = leases_acquired s" "leases_released (s\<lparr>xs_pages := ps\<rparr>) = leases_released s"
  "leases_acquired (s\<lparr>xs_failures := fs\<rparr>) = leases_acquired s" "leases_released (s\<lparr>xs_failures := fs\<rparr>) = leases_released s"
  "leases_acquired (s\<lparr>xs_scroll := sc\<rparr>) = leases_acquired s" "leases_released (s\<lparr>xs_scroll := sc\<rparr>) = leases_released s"
  "leases_acquired (s\<lparr>xs_total := n\<rparr>) = leases_acquired s" "leases_released (s\<lparr>xs_total := n\<rparr>) = leases_released s"
  by (simp_all add: account_defs)

section \<open>Warming\<close>

lemma sync_page_step:
  fixes warm
  assumes "map_of (xs_pages s) p = Some e" and "balanced s"
  defines "t \<equiv> sync_page warm s (p, e)"
  shows "keys (xs_pages t) = keys (xs_pages s)" and "balanced t"
    and "\<exists>l. map_of (xs_pages t) = (map_of (xs_pages s))(p \<mapsto> set_lease l e) \<and> (l \<noteq> None \<longrightarrow> \<bar>p - xs_current s\<bar> = 1)"
proof -
  have p: "p \<in> fst ` set (xs_pages s)" using assms(1) by (force dest: map_of_SomeD)
  then show "keys (xs_pages t) = keys (xs_pages s)"
    unfolding t_def sync_page_def Let_def
    by (simp only: fst_conv snd_conv split: if_splits)
      (simp add: keys_update_present [OF p])
  have same: "map_of (xs_pages s) = (map_of (xs_pages s))(p \<mapsto> set_lease (sp_lease e) e)"
    using assms(1) by (simp add: set_lease_def map_upd_triv)
  note upd = page_leases_update [of p "set_lease l e" "xs_pages s" for l]
  consider (far) "p - xs_current s = 0 \<or> \<bar>p - xs_current s\<bar> > 1" "sp_lease e \<noteq> None"
    | (idle) "p - xs_current s = 0 \<or> \<bar>p - xs_current s\<bar> > 1" "sp_lease e = None"
    | (kept) "\<not> (p - xs_current s = 0 \<or> \<bar>p - xs_current s\<bar> > 1)" "sp_lease e \<noteq> None"
    | (taken) "\<not> (p - xs_current s = 0 \<or> \<bar>p - xs_current s\<bar> > 1)" "sp_lease e = None"
    by blast
  then have "balanced t \<and> (\<exists>l. map_of (xs_pages t) = (map_of (xs_pages s))(p \<mapsto> set_lease l e)
      \<and> (l \<noteq> None \<longrightarrow> \<bar>p - xs_current s\<bar> = 1))"
  proof cases
    case far
    then have t: "t = emit (released (sp_lease e)) (s\<lparr>xs_pages := AList.update p (set_lease None e) (xs_pages s)\<rparr>)"
      by (auto simp: t_def sync_page_def Let_def)
    have "balanced t"
      by (rule balanced_pages [OF assms(2), where A = "{#}" and R = "lease_of (sp_lease e)"])
        (use upd [of None] assms(1) in \<open>simp_all add: t set_lease_def\<close>)
    with t show ?thesis by (auto simp: update_conv' intro!: exI [of _ None])
  next
    case idle
    then have "t = s" by (simp add: t_def sync_page_def Let_def)
    with same idle assms(2) show ?thesis by (auto intro!: exI [of _ None])
  next
    case kept
    then have near: "\<bar>p - xs_current s\<bar> = 1" by linarith
    from kept have "t = s" by (simp add: t_def sync_page_def Let_def)
    with same near assms(2) show ?thesis by (simp del: fun_upd_apply) blast
  next
    case taken
    define l where "l = leased (warm (xs_leases s) (sp_page e) (warm_priority (p - xs_current s))) s"
    from taken have t: "t = acquire l (s\<lparr>xs_pages := AList.update p (set_lease l e) (xs_pages s)\<rparr>)"
      by (simp add: t_def sync_page_def Let_def l_def)
    have "balanced t"
      by (rule balanced_pages [OF assms(2), where A = "lease_of l" and R = "{#}"])
        (use upd [of l] assms(1) taken in \<open>simp_all add: t set_lease_def\<close>)
    with t taken show ?thesis by (auto simp: update_conv' intro!: exI [of _ l])
  qed
  then show "balanced t"
    and "\<exists>l. map_of (xs_pages t) = (map_of (xs_pages s))(p \<mapsto> set_lease l e) \<and> (l \<noteq> None \<longrightarrow> \<bar>p - xs_current s\<bar> = 1)"
    by blast+
qed

text \<open>After a pass over some of the pages, those pages are leased only next to the current one.\<close>

definition leased_near :: "page_session \<Rightarrow> int \<Rightarrow> bool" where
  "leased_near s p \<longleftrightarrow> (\<forall>e. map_of (xs_pages s) p = Some e \<longrightarrow> sp_lease e \<noteq> None \<longrightarrow> \<bar>p - xs_current s\<bar> = 1)"

lemma sync_run:
  fixes warm
  assumes "distinct (keys pes)" and "\<forall>pe \<in> set pes. map_of (xs_pages s) (fst pe) = Some (snd pe)" and "balanced s"
  defines "t \<equiv> foldl (sync_page warm) s pes"
  shows "keys (xs_pages t) = keys (xs_pages s) \<and> balanced t \<and> (\<forall>p \<in> fst ` set pes. leased_near t p)
    \<and> (\<forall>p. p \<notin> fst ` set pes \<longrightarrow> map_of (xs_pages t) p = map_of (xs_pages s) p)"
  using assms(1-3) unfolding t_def
proof (induction pes arbitrary: s)
  case (Cons pe pes)
  obtain p e where pe: "pe = (p, e)" by (cases pe)
  let ?u = "sync_page warm s pe"
  from Cons.prems(2) pe have p: "map_of (xs_pages s) p = Some e" by simp
  note step = sync_page_step [OF p Cons.prems(3), of warm]
  from step(3) obtain l where l: "map_of (xs_pages ?u) = (map_of (xs_pages s))(p \<mapsto> set_lease l e)"
      "l \<noteq> None \<longrightarrow> \<bar>p - xs_current s\<bar> = 1"
    unfolding pe by blast
  have "map_of (xs_pages ?u) (fst qe) = Some (snd qe)" if "qe \<in> set pes" for qe
  proof -
    have "fst qe \<noteq> p" using that Cons.prems(1) pe by force
    with l(1) Cons.prems(2) that show ?thesis by simp
  qed
  with Cons.IH [of ?u] Cons.prems(1) step(2) have IH:
    "keys (xs_pages (foldl (sync_page warm) ?u pes)) = keys (xs_pages ?u)"
    "balanced (foldl (sync_page warm) ?u pes)"
    "\<forall>q \<in> fst ` set pes. leased_near (foldl (sync_page warm) ?u pes) q"
    "\<forall>q. q \<notin> fst ` set pes \<longrightarrow> map_of (xs_pages (foldl (sync_page warm) ?u pes)) q = map_of (xs_pages ?u) q"
    by (simp_all add: pe)
  have "p \<notin> fst ` set pes" using Cons.prems(1) pe by simp
  with IH(4) l have "leased_near (foldl (sync_page warm) ?u pes) p"
    by (simp add: leased_near_def set_lease_def)
  with IH l(1) step(1) pe show ?case by simp
qed simp

text \<open>The leases a cache may hold: only while shown, only when the host warms pages, only next to the current page.\<close>

definition warm_ok :: "session_host \<Rightarrow> page_session \<Rightarrow> bool" where
  "warm_ok h s \<longleftrightarrow>
     (\<forall>p e. map_of (xs_pages s) p = Some e \<longrightarrow> sp_lease e \<noteq> None \<longrightarrow>
        \<not> xs_parked s \<and> h_warm h \<noteq> None \<and> \<bar>p - xs_current s\<bar> = 1)"

text \<open>No lease is possible at all while the session is parked or the host does not warm pages.\<close>

definition no_leases :: "page_session \<Rightarrow> bool" where
  "no_leases s \<longleftrightarrow> (\<forall>p e. map_of (xs_pages s) p = Some e \<longrightarrow> sp_lease e = None)"

lemma syncWarmups_ok:
  assumes "distinct (keys (xs_pages s))" and "balanced s"
    and "xs_parked s \<or> h_warm h = None \<Longrightarrow> no_leases s"
  shows "keys (xs_pages (syncWarmups h s)) = keys (xs_pages s)" and "balanced (syncWarmups h s)"
    and "warm_ok h (syncWarmups h s)"
proof -
  have "keys (xs_pages (syncWarmups h s)) = keys (xs_pages s) \<and> balanced (syncWarmups h s)
      \<and> warm_ok h (syncWarmups h s)"
  proof (cases "xs_parked s \<or> h_warm h = None")
    case True
    then have "syncWarmups h s = s" by (auto simp: syncWarmups_def split: option.split)
    with True assms(2,3) show ?thesis by (simp add: warm_ok_def no_leases_def)
  next
    case False
    then obtain warm where w: "h_warm h = Some warm" "\<not> xs_parked s" by auto
    let ?t = "foldl (sync_page warm) s (xs_pages s)"
    have r: "keys (xs_pages ?t) = keys (xs_pages s) \<and> balanced ?t \<and> (\<forall>p \<in> fst ` set (xs_pages s). leased_near ?t p)"
      using sync_run [OF assms(1) _ assms(2), of warm] map_of_entries [OF assms(1)] by blast
    have "warm_ok h ?t"
      unfolding warm_ok_def
    proof (intro allI impI)
      fix p e
      assume e: "map_of (xs_pages ?t) p = Some e" "sp_lease e \<noteq> None"
      then have "p \<in> set (keys (xs_pages ?t))" by (force dest: map_of_SomeD)
      with r have "p \<in> fst ` set (xs_pages s)" by simp
      with r have "leased_near ?t p" by blast
      with e have "\<bar>p - xs_current ?t\<bar> = 1" by (simp add: leased_near_def)
      with w show "\<not> xs_parked ?t \<and> h_warm h \<noteq> None \<and> \<bar>p - xs_current ?t\<bar> = 1" by simp
    qed
    with r w show ?thesis by (simp add: syncWarmups_def)
  qed
  then show "keys (xs_pages (syncWarmups h s)) = keys (xs_pages s)" and "balanced (syncWarmups h s)"
    and "warm_ok h (syncWarmups h s)" by blast+
qed

section \<open>Evicting\<close>

lemma js_comparator_eviction: "js_comparator (by_eviction current)"
  unfolding by_eviction_def
  by (intro signed_comparator.js_comparator_or signed_comparator_down
      signed_comparator.axioms(1) [OF signed_comparator_up])

lemma by_eviction_outside: "by_eviction current l r \<le> 0 \<Longrightarrow> outside current (fst r) \<Longrightarrow> outside current (fst l)"
  by (cases "outside current (fst l)") (auto simp: by_eviction_def dest!: js_or_le)

lemma drop_page_balanced:
  assumes "map_of (xs_pages s) (fst pe) = Some (snd pe)" and "distinct (keys (xs_pages s))" and "balanced s"
  shows "balanced (drop_page pe s)"
  by (rule balanced_pages [OF assms(3), where A = "{#}" and R = "lease_of (sp_lease (snd pe))"])
    (use page_leases_delete [OF assms(2), of "fst pe"] assms(1) in \<open>simp_all add: drop_page_def\<close>)

text \<open>
  The loop over the candidates, sorted so that the pages outside the window come first: what is left fits, is
  inside the window and still holds the current page.
\<close>

lemma evict_loop_result:
  assumes "distinct (keys (xs_pages s))" and "map_of (xs_pages s) (xs_current s) = Some e"
    and "distinct (keys cs)" and "\<forall>pe \<in> set cs. map_of (xs_pages s) (fst pe) = Some (snd pe)"
    and "fst ` set (xs_pages s) = insert (xs_current s) (fst ` set cs)" and "xs_current s \<notin> fst ` set cs"
    and "sorted_wrt (\<lambda>l r. outside (xs_current s) (fst r) \<longrightarrow> outside (xs_current s) (fst l)) cs"
    and "1 \<le> limit" and "balanced s"
  defines "t \<equiv> evict_loop limit s cs"
  shows "distinct (keys (xs_pages t)) \<and> balanced t \<and> map_of (xs_pages t) (xs_current s) = Some e
    \<and> length (xs_pages t) \<le> limit \<and> (\<forall>p \<in> fst ` set (xs_pages t). \<not> outside (xs_current s) p)
    \<and> map_of (xs_pages t) \<subseteq>\<^sub>m map_of (xs_pages s)"
  using assms(1-9) unfolding t_def
proof (induction cs arbitrary: s)
  case Nil
  then have "fst ` set (xs_pages s) = {xs_current s}" by simp
  then have "length (xs_pages s) = 1" using distinct_card [OF Nil(1)] by simp
  with Nil \<open>fst ` set (xs_pages s) = {xs_current s}\<close> show ?case by (simp add: outside_def)
next
  case (Cons pe cs)
  show ?case
  proof (cases "\<not> outside (xs_current s) (fst pe) \<and> length (xs_pages s) \<le> limit")
    case True
    with Cons.prems(7) have "\<forall>qe \<in> set cs. \<not> outside (xs_current s) (fst qe)" by auto
    with True Cons.prems show ?thesis by (auto simp: outside_def)
  next
    case False
    let ?u = "drop_page pe s"
    have look: "map_of (xs_pages ?u) = (map_of (xs_pages s))(fst pe := None)"
      by (simp add: fun_eq_iff lookup_delete)
    have pe: "map_of (xs_pages s) (fst pe) = Some (snd pe)" and ne: "fst pe \<noteq> xs_current s"
      using Cons.prems(4,6) by auto
    have keys: "fst ` set (xs_pages ?u) = fst ` set (xs_pages s) - {fst pe}"
      by (simp flip: set_map) auto
    have new: "fst pe \<notin> fst ` set cs" using Cons.prems(3) by simp
    have IH: "distinct (keys (xs_pages (evict_loop limit ?u cs))) \<and> balanced (evict_loop limit ?u cs)
        \<and> map_of (xs_pages (evict_loop limit ?u cs)) (xs_current ?u) = Some e
        \<and> length (xs_pages (evict_loop limit ?u cs)) \<le> limit
        \<and> (\<forall>p \<in> fst ` set (xs_pages (evict_loop limit ?u cs)). \<not> outside (xs_current ?u) p)
        \<and> map_of (xs_pages (evict_loop limit ?u cs)) \<subseteq>\<^sub>m map_of (xs_pages ?u)"
    proof (rule Cons.IH)
      show "distinct (keys (xs_pages ?u))" using Cons.prems(1) by simp
      show "map_of (xs_pages ?u) (xs_current ?u) = Some e" using Cons.prems(2) ne by (simp add: lookup_delete)
      show "distinct (keys cs)" using Cons.prems(3) by simp
      show "\<forall>qe \<in> set cs. map_of (xs_pages ?u) (fst qe) = Some (snd qe)"
      proof
        fix qe
        assume q: "qe \<in> set cs"
        then have "fst qe \<noteq> fst pe" using new by (metis image_eqI)
        with q Cons.prems(4) show "map_of (xs_pages ?u) (fst qe) = Some (snd qe)" by (simp add: lookup_delete)
      qed
      show "fst ` set (xs_pages ?u) = insert (xs_current ?u) (fst ` set cs)"
        unfolding keys Cons.prems(5) using ne new by (simp add: insert_Diff_if)
      show "xs_current ?u \<notin> fst ` set cs" using Cons.prems(6) by simp
      show "sorted_wrt (\<lambda>l r. outside (xs_current ?u) (fst r) \<longrightarrow> outside (xs_current ?u) (fst l)) cs"
        using Cons.prems(7) by simp
      show "1 \<le> limit" by (rule Cons.prems(8))
      show "balanced ?u" by (rule drop_page_balanced [OF pe Cons.prems(1,9)])
    qed
    have "map_of (xs_pages ?u) \<subseteq>\<^sub>m map_of (xs_pages s)" unfolding look by (simp add: map_le_def)
    with IH False show ?thesis by (auto intro: map_le_trans)
  qed
qed

lemma evictSettled_ok:
  assumes "distinct (keys (xs_pages s))" and "map_of (xs_pages s) (xs_current s) = Some e"
    and "1 \<le> h_maxSettled h" and "balanced s" and "xs_current s \<noteq> 0"
  defines "t \<equiv> evictSettledPages h s"
  shows "distinct (keys (xs_pages t))" and "balanced t" and "map_of (xs_pages t) (xs_current s) = Some e"
    and "length (xs_pages t) \<le> h_maxSettled h" and "\<forall>p \<in> fst ` set (xs_pages t). \<not> outside (xs_current s) p"
    and "map_of (xs_pages t) \<subseteq>\<^sub>m map_of (xs_pages s)"
proof -
  let ?rest = "filter (\<lambda>pe. fst pe \<noteq> xs_current s) (xs_pages s)"
  let ?cs = "js_sort (by_eviction (xs_current s)) ?rest"
  have cur: "xs_current s \<in> fst ` set (xs_pages s)" using assms(2) by (force dest: map_of_SomeD)
  have "distinct (keys ?rest)" using assms(1) by (simp add: distinct_map_filter)
  moreover have "mset (keys ?cs) = mset (keys ?rest)" by (simp only: mset_map mset_js_sort)
  ultimately have d: "distinct (keys ?cs)" by (metis mset_eq_imp_distinct_iff)
  have "sorted_wrt (\<lambda>l r. by_eviction (xs_current s) l r \<le> 0) ?cs"
    by (rule js_comparator.sorted_js_sort [OF js_comparator_eviction])
  then have srt: "sorted_wrt (\<lambda>l r. outside (xs_current s) (fst r) \<longrightarrow> outside (xs_current s) (fst l)) ?cs"
    by (rule sorted_wrt_mono_rel [rotated]) (blast intro: by_eviction_outside)
  have t: "t = evict_loop (h_maxSettled h) s ?cs" using assms(5) by (simp add: t_def evictSettledPages_def)
  have "distinct (keys (xs_pages t)) \<and> balanced t \<and> map_of (xs_pages t) (xs_current s) = Some e
    \<and> length (xs_pages t) \<le> h_maxSettled h \<and> (\<forall>p \<in> fst ` set (xs_pages t). \<not> outside (xs_current s) p)
    \<and> map_of (xs_pages t) \<subseteq>\<^sub>m map_of (xs_pages s)"
    unfolding t
  proof (rule evict_loop_result [OF assms(1,2) d _ _ _ srt assms(3,4)])
    show "\<forall>pe \<in> set ?cs. map_of (xs_pages s) (fst pe) = Some (snd pe)"
      using map_of_entries [OF assms(1)] by simp
    show "fst ` set (xs_pages s) = insert (xs_current s) (fst ` set ?cs)" using cur by force
    show "xs_current s \<notin> fst ` set ?cs" by auto
  qed
  then show "distinct (keys (xs_pages t))" and "balanced t" and "map_of (xs_pages t) (xs_current s) = Some e"
    and "length (xs_pages t) \<le> h_maxSettled h" and "\<forall>p \<in> fst ` set (xs_pages t). \<not> outside (xs_current s) p"
    and "map_of (xs_pages t) \<subseteq>\<^sub>m map_of (xs_pages s)" by blast+
qed

section \<open>The cache as a whole\<close>

definition window_ok :: "session_host \<Rightarrow> page_session \<Rightarrow> bool" where
  "window_ok h s \<longleftrightarrow>
     (if xs_current s = 0 then xs_pages s = []
      else map_of (xs_pages s) (xs_current s) \<noteq> None \<and> (\<forall>p \<in> fst ` set (xs_pages s). \<not> outside (xs_current s) p))
     \<and> length (xs_pages s) \<le> h_maxSettled h \<and> length (xs_failures s) \<le> h_maxSettled h"

definition cache_ok :: "session_host \<Rightarrow> page_session \<Rightarrow> bool" where
  "cache_ok h s \<longleftrightarrow> distinct (keys (xs_pages s)) \<and> balanced s \<and> warm_ok h s \<and> window_ok h s"

text \<open>What activating a page needs: the cache may be over its bound and away from the new page.\<close>

definition cache_pre :: "session_host \<Rightarrow> page_session \<Rightarrow> bool" where
  "cache_pre h s \<longleftrightarrow>
     distinct (keys (xs_pages s)) \<and> balanced s \<and> (xs_parked s \<or> h_warm h = None \<longrightarrow> no_leases s)
     \<and> length (xs_failures s) \<le> h_maxSettled h"

lemma cache_ok_pre: "cache_ok h s \<Longrightarrow> cache_pre h s"
  unfolding cache_ok_def cache_pre_def window_ok_def warm_ok_def no_leases_def by blast

lemma touch_page_pages:
  "xs_pages (touch_page h p e s) = AList.update p (e\<lparr>sp_lastAccessed := now_at h s\<rparr>) (xs_pages s)"
  by (simp add: touch_page_def)

lemma touch_page_lookup:
  "map_of (xs_pages (touch_page h p e s)) = (map_of (xs_pages s))(p \<mapsto> e\<lparr>sp_lastAccessed := now_at h s\<rparr>)"
  by (simp add: touch_page_pages update_conv')

lemma touch_page_keys:
  "map_of (xs_pages s) p = Some e \<Longrightarrow> keys (xs_pages (touch_page h p e s)) = keys (xs_pages s)"
  unfolding touch_page_pages by (auto intro!: keys_update_present dest: map_of_SomeD intro: rev_image_eqI)

lemma touch_page_balanced:
  assumes "map_of (xs_pages s) p = Some e" and "balanced s"
  shows "balanced (touch_page h p e s)"
  by (rule balanced_pages [OF assms(2), where A = "{#}" and R = "{#}"])
    (use assms(1) page_leases_update_same [of "xs_pages s" p e] in \<open>simp_all add: touch_page_def\<close>)

lemma touch_page_leases:
  assumes "map_of (xs_pages s) p = Some e" and "map_of (xs_pages (touch_page h p e s)) q = Some e'"
  shows "\<exists>e0. map_of (xs_pages s) q = Some e0 \<and> sp_lease e' = sp_lease e0"
  using assms by (auto simp: touch_page_lookup split: if_splits)

lemma length_by_keys: "keys m = keys m' \<Longrightarrow> length m = length m'"
  by (metis length_map)

lemma cache_pre_touch:
  assumes "map_of (xs_pages s) p = Some e" and "cache_pre h s"
  shows "cache_pre h (touch_page h p e s)"
  using assms(2) touch_page_keys [OF assms(1), of h] touch_page_balanced [OF assms(1), of h]
    touch_page_leases [OF assms(1), of h]
  unfolding cache_pre_def no_leases_def by (simp only: touch_page_fields) metis

lemma window_by_keys:
  assumes "window_ok h s" and "keys (xs_pages t) = keys (xs_pages s)" and "xs_current t = xs_current s"
    and "length (xs_failures t) \<le> length (xs_failures s)"
  shows "window_ok h t"
proof -
  have "map_of (xs_pages t) c = None \<longleftrightarrow> map_of (xs_pages s) c = None" for c
    by (simp only: map_of_None_keys assms(2))
  moreover have "fst ` set (xs_pages t) = fst ` set (xs_pages s)" by (metis assms(2) set_map)
  moreover have "xs_pages t = [] \<longleftrightarrow> xs_pages s = []" by (metis assms(2) map_is_Nil_conv)
  ultimately show ?thesis
    using assms(1,3,4) length_by_keys [OF assms(2)] unfolding window_ok_def by simp
qed

lemma cache_ok_touch:
  assumes "map_of (xs_pages s) p = Some e" and "cache_ok h s"
  shows "cache_ok h (touch_page h p e s)"
proof -
  have "warm_ok h (touch_page h p e s)"
    unfolding warm_ok_def
  proof (intro allI impI)
    fix q e'
    assume q: "map_of (xs_pages (touch_page h p e s)) q = Some e'" "sp_lease e' \<noteq> None"
    from touch_page_leases [OF assms(1) q(1)] obtain e0 where "map_of (xs_pages s) q = Some e0" "sp_lease e' = sp_lease e0"
      by (elim exE conjE)
    with q(2) assms(2)
    show "\<not> xs_parked (touch_page h p e s) \<and> h_warm h \<noteq> None \<and> \<bar>q - xs_current (touch_page h p e s)\<bar> = 1"
      unfolding cache_ok_def warm_ok_def by simp
  qed
  with assms(2) touch_page_keys [OF assms(1), of h] touch_page_balanced [OF assms(1), of h]
    window_by_keys [of h s "touch_page h p e s"]
  show ?thesis unfolding cache_ok_def by simp
qed

text \<open>Asking for a page leaves the cache alone.\<close>

lemma ask_page_fields [simp]:
  "xs_pages (fst (ask_page h p prio intent s)) = xs_pages s"
  "xs_current (fst (ask_page h p prio intent s)) = xs_current s"
  "xs_total (fst (ask_page h p prio intent s)) = xs_total s"
  "xs_parked (fst (ask_page h p prio intent s)) = xs_parked s"
  "xs_retained (fst (ask_page h p prio intent s)) = xs_retained s"
  "xs_failures (fst (ask_page h p prio intent s)) = xs_failures s"
  "xs_generation (fst (ask_page h p prio intent s)) = xs_generation s"
  "xs_intent (fst (ask_page h p prio intent s)) = xs_intent s"
  "xs_query (fst (ask_page h p prio intent s)) = xs_query s"
  "leases_acquired (fst (ask_page h p prio intent s)) = leases_acquired s"
  "leases_released (fst (ask_page h p prio intent s)) = leases_released s"
  by (simp_all add: ask_page_def begin_request_def join_request_def Let_def account_defs split: option.split)

lemma cache_ok_cong:
  assumes "cache_ok h s" and "xs_pages t = xs_pages s" and "xs_current t = xs_current s" and "xs_parked t = xs_parked s"
    and "xs_retained t = xs_retained s" and "length (xs_failures t) \<le> length (xs_failures s)"
    and "leases_acquired t = leases_acquired s" and "leases_released t = leases_released s"
  shows "cache_ok h t"
  using assms unfolding cache_ok_def warm_ok_def window_ok_def balanced_def leases_held_def by simp

lemma cache_ok_ask: "cache_ok h s \<Longrightarrow> cache_ok h (fst (ask_page h p prio intent s))"
  by (erule cache_ok_cong) simp_all

lemma length_update_present: "map_of m k = Some v \<Longrightarrow> length (AList.update k w m) = length m"
  by (auto simp: length_update dest: map_of_SomeD intro: rev_image_eqI)

lemma account_tick_failures [simp]:
  "leases_acquired (tick (s\<lparr>xs_failures := fs\<rparr>)) = leases_acquired s"
  "leases_released (tick (s\<lparr>xs_failures := fs\<rparr>)) = leases_released s"
  by simp_all

lemma cache_ok_load:
  assumes ok: "cache_ok h s"
    and act: "\<And>p e t. priority = Foreground \<Longrightarrow> map_of (xs_pages t) p = Some e \<Longrightarrow> cache_ok h t \<Longrightarrow> 1 \<le> p
      \<Longrightarrow> cache_ok h (activate p t)"
  shows "cache_ok h (fst (load_with activate h n priority intent s))"
proof (cases "valid_page s n")
  case (Some p)
  have p: "1 \<le> p" using Some by (auto simp: valid_page_def le_floor_iff split: js_num.splits if_splits)
  show ?thesis
  proof (cases "map_of (xs_pages s) p")
    case e: (Some e)
    let ?t = "touch_page h p e s"
    have "cache_ok h ?t" by (rule cache_ok_touch [OF e ok])
    moreover have "map_of (xs_pages ?t) p \<noteq> None" by (simp add: touch_page_lookup)
    ultimately show ?thesis using act [of ?t p] p Some e by (auto simp: load_with_def Let_def)
  next
    case None
    show ?thesis
    proof (cases "priority = Foreground")
      case True
      let ?t = "s\<lparr>xs_failures := AList.delete p (xs_failures s)\<rparr>"
      have "cache_ok h ?t" by (rule cache_ok_cong [OF ok]) (simp_all add: length_delete_le)
      with True Some None show ?thesis by (simp add: load_with_def cache_ok_ask)
    next
      case False
      then show ?thesis
        using Some None ok
        by (auto simp: load_with_def cache_ok_ask length_update_present intro: cache_ok_cong [OF ok] split: option.split)
    qed
  qed
qed (simp add: load_with_def ok)

lemma cache_ok_prefetch: "priority \<noteq> Foreground \<Longrightarrow> cache_ok h s \<Longrightarrow> cache_ok h (prefetch h p priority s)"
  unfolding prefetch_def by (rule cache_ok_load) simp_all

lemma cache_ok_adjacent: "cache_ok h s \<Longrightarrow> cache_ok h (prefetchAdjacent h s)"
  by (simp add: prefetchAdjacent_def Let_def cache_ok_prefetch)

lemma no_leases_le: "map_of (xs_pages t) \<subseteq>\<^sub>m map_of (xs_pages s) \<Longrightarrow> no_leases s \<Longrightarrow> no_leases t"
  unfolding no_leases_def map_le_def by (metis domI)

lemma length_drop_oldest: "length (drop_oldest limit fs) \<le> limit"
proof (induction limit fs rule: drop_oldest.induct)
  case (1 limit fs)
  show ?case
  proof (cases "length fs \<le> limit")
    case True
    then show ?thesis by (simp add: drop_oldest.simps)
  next
    case False
    then obtain x xs where "js_sort by_access fs = x # xs"
      by (cases "js_sort by_access fs") (auto dest: arg_cong [where f = length])
    with 1 False show ?thesis by (simp add: drop_oldest.simps [of limit fs])
  qed
qed

lemma evict_loop_failures: "length (xs_failures (evict_loop limit s pes)) \<le> length (xs_failures s)"
proof (induction pes arbitrary: s)
  case (Cons pe pes)
  have "length (xs_failures (evict_loop limit (drop_page pe s) pes)) \<le> length (xs_failures s)"
    using Cons.IH [of "drop_page pe s"] length_delete_le [of "fst pe" "xs_failures s"]
    by (simp only: drop_page_fields)
  then show ?case by simp
qed simp

lemma evictSettled_failures: "length (xs_failures (evictSettledPages h s)) \<le> length (xs_failures s)"
  by (simp add: evictSettledPages_def evict_loop_failures)

text \<open>Evicting and warming around the current page.\<close>

lemma cache_ok_settle:
  assumes pre: "cache_pre h s" and cur: "map_of (xs_pages s) (xs_current s) = Some e" "xs_current s \<noteq> 0"
    and limit: "1 \<le> h_maxSettled h"
  shows "cache_ok h (syncWarmups h (evictSettledPages h s))"
proof -
  let ?t = "evictSettledPages h s"
  have pre': "distinct (keys (xs_pages s))" "balanced s" using pre by (simp_all add: cache_pre_def)
  note ev = evictSettled_ok [OF pre'(1) cur(1) limit pre'(2) cur(2)]
  have "no_leases ?t" if "xs_parked ?t \<or> h_warm h = None"
    using that pre no_leases_le [OF ev(6)] by (simp add: cache_pre_def)
  note sync = syncWarmups_ok [OF ev(1,2) this]
  have w: "window_ok h ?t"
    using ev(3-5) cur(2) pre evictSettled_failures [of h s] by (simp add: window_ok_def cache_pre_def)
  have "window_ok h (syncWarmups h ?t)"
    by (rule window_by_keys [OF w sync(1)]) simp_all
  with sync ev(1) show ?thesis by (simp add: cache_ok_def)
qed

lemma cache_ok_activate:
  assumes "cache_pre h s" and "map_of (xs_pages s) p = Some e" and "1 \<le> p" and "1 \<le> h_maxSettled h"
  shows "cache_ok h (activateForeground h p s)"
proof -
  let ?t = "(touch_page h p e s)\<lparr>xs_current := p\<rparr>"
  have touched: "cache_pre h (touch_page h p e s)" by (rule cache_pre_touch [OF assms(2,1)])
  then have "cache_pre h ?t"
    by (simp add: cache_pre_def balanced_def account_defs no_leases_def)
  moreover have "\<exists>e'. map_of (xs_pages ?t) (xs_current ?t) = Some e'" by (simp add: touch_page_lookup)
  ultimately have "cache_ok h (syncWarmups h (evictSettledPages h ?t))"
    using cache_ok_settle [of h ?t] assms(3,4) by auto
  with assms(2) show ?thesis by (simp add: activateForeground_def cache_ok_adjacent)
qed

lemma cache_ok_open:
  assumes "cache_ok h s" and "1 \<le> h_maxSettled h"
  shows "cache_ok h (fst (open_page h n s))"
proof -
  have "cache_ok h (s\<lparr>xs_intent := Suc (xs_intent s)\<rparr>)"
    by (rule cache_ok_cong [OF assms(1)]) (simp_all add: account_defs)
  then show ?thesis
    unfolding open_page_def load_page_def Let_def
    by (rule cache_ok_load) (blast intro: cache_ok_activate cache_ok_pre assms(2))
qed

section \<open>Answers, starts and parking\<close>

lemma store_page_pages:
  "xs_pages (store_page h p page s)
   = AList.update p \<lparr>sp_page = page, sp_lastAccessed = now_at h s, sp_lease = None\<rparr> (xs_pages s)"
  by (simp add: store_page_def)

lemma store_page_fields [simp]:
  "xs_current (store_page h p page s) = xs_current s" "xs_parked (store_page h p page s) = xs_parked s"
  "xs_retained (store_page h p page s) = xs_retained s" "xs_intent (store_page h p page s) = xs_intent s"
  "xs_total (store_page h p page s) = pg_totalPages page"
  "xs_failures (store_page h p page s) = AList.delete p (xs_failures s)"
  "request_view (store_page h p page s) = request_view s"
  by (simp_all add: store_page_def)

lemma store_page_pre:
  assumes "cache_ok h s"
  shows "cache_pre h (store_page h p page s)"
proof -
  have b: "balanced s" using assms by (simp add: cache_ok_def)
  have "balanced (store_page h p page s)"
    by (rule balanced_pages [OF b, where A = "{#}" and R = "lease_of (Option.bind (map_of (xs_pages s) p) sp_lease)"])
      (use page_leases_update [of p "\<lparr>sp_page = page, sp_lastAccessed = now_at h s, sp_lease = None\<rparr>" "xs_pages s"]
        in \<open>simp_all add: store_page_def\<close>)
  moreover have "no_leases s \<Longrightarrow> no_leases (store_page h p page s)"
    by (simp add: no_leases_def store_page_pages update_conv')
  moreover have "length (xs_failures s) \<le> h_maxSettled h" using cache_ok_pre [OF assms] by (simp add: cache_pre_def)
  then have "length (AList.delete p (xs_failures s)) \<le> h_maxSettled h" by (rule order_trans [OF length_delete_le])
  ultimately show ?thesis
    using cache_ok_pre [OF assms] by (simp add: cache_pre_def store_page_pages)
qed

lemma store_failure_fields [simp]:
  "xs_pages (store_failure h p err s) = xs_pages s" "xs_current (store_failure h p err s) = xs_current s"
  "xs_parked (store_failure h p err s) = xs_parked s" "xs_retained (store_failure h p err s) = xs_retained s"
  "leases_acquired (store_failure h p err s) = leases_acquired s"
  "leases_released (store_failure h p err s) = leases_released s"
  "request_view (store_failure h p err s) = request_view s"
  by (simp_all add: store_failure_def evictFailures_def)

lemma cache_ok_failure: "cache_ok h s \<Longrightarrow> cache_ok h (store_failure h p err s)"
  unfolding cache_ok_def warm_ok_def window_ok_def balanced_def leases_held_def
  by (simp add: store_failure_def evictFailures_def length_drop_oldest)

lemma cache_ok_inFlight: "cache_ok h s \<Longrightarrow> cache_ok h (s\<lparr>xs_inFlight := fs\<rparr>)"
  by (erule cache_ok_cong) (simp_all add: account_defs)

lemma cache_ok_resolve:
  assumes ok: "cache_ok h s" and limit: "1 \<le> h_maxSettled h" and page: "owns_request c s \<noteq> None \<Longrightarrow> 1 \<le> fc_page c"
    and shown: "owns_request c s \<noteq> None \<Longrightarrow> xs_current s \<noteq> 0"
  shows "cache_ok h (fst (resolvePage h c result s))"
proof (cases "owns_request c s")
  case (Some f)
  let ?s1 = "s\<lparr>xs_inFlight := AList.delete (fc_page c) (xs_inFlight s)\<rparr>"
  have ok1: "cache_ok h ?s1" by (rule cache_ok_inFlight [OF ok])
  show ?thesis
  proof (cases "or_value result (Inl page_unavailable_error)")
    case (Inl err)
    with Some ok1 show ?thesis by (simp add: resolvePage_def Let_def cache_ok_failure)
  next
    case (Inr page)
    let ?s2 = "store_page h (fc_page c) page ?s1"
    have pre: "cache_pre h ?s2" by (rule store_page_pre [OF ok1])
    have "\<exists>e. map_of (xs_pages ?s2) (fc_page c) = Some e" by (simp add: store_page_pages update_conv')
    then have act: "cache_ok h (activateForeground h (fc_page c) ?s2)"
      using cache_ok_activate [OF pre _ _ limit] assms(3) Some by blast
    have "map_of (xs_pages s) (xs_current s) \<noteq> None"
      using ok shown Some by (simp add: cache_ok_def window_ok_def del: not_None_eq)
    then have "\<exists>e. map_of (xs_pages ?s2) (xs_current ?s2) = Some e"
      by (auto simp: store_page_pages update_conv')
    then have "cache_ok h (syncWarmups h (evictSettledPages h ?s2))"
      using cache_ok_settle [OF pre _ _ limit] shown Some by auto
    with act Some Inr show ?thesis by (simp add: resolvePage_def Let_def)
  qed
qed (simp add: resolvePage_def ok)

lemma releaseWarmups_fields [simp]:
  "xs_current (releaseWarmups s) = xs_current s" "xs_total (releaseWarmups s) = xs_total s"
  "xs_retained (releaseWarmups s) = xs_retained s" "xs_parked (releaseWarmups s) = xs_parked s"
  "xs_failures (releaseWarmups s) = xs_failures s" "xs_inFlight (releaseWarmups s) = xs_inFlight s"
  "xs_generation (releaseWarmups s) = xs_generation s" "xs_query (releaseWarmups s) = xs_query s"
  "xs_pages (releaseWarmups s) = map (\<lambda>pe. (fst pe, set_lease None (snd pe))) (xs_pages s)"
  by (simp_all add: releaseWarmups_def)

lemma filter_concat_released [simp]: "filter (\<lambda>e. \<not> lease_effect e) (concat (map (\<lambda>x. released (f x)) xs)) = []"
  by (induction xs) simp_all

lemma request_view_releaseWarmups [simp]: "request_view (releaseWarmups s) = request_view s"
  by (simp add: releaseWarmups_def request_view_def)

lemma request_view_releaseRetained [simp]: "request_view (releaseRetainedPage s) = request_view s"
  by (simp add: releaseRetainedPage_def)

lemma sum_concat_released [simp]:
  "sum_list (map released_by (concat (map (\<lambda>pe. released (sp_lease (snd pe))) pes))) = page_leases pes"
  "sum_list (map acquired_by (concat (map (\<lambda>pe. released (sp_lease (snd pe))) pes))) = {#}"
  by (induction pes) simp_all

lemma page_leases_none [simp]: "page_leases (map (\<lambda>pe. (fst pe, set_lease None (snd pe))) pes) = {#}"
  by (induction pes) (simp_all add: set_lease_def)

lemma balanced_releaseWarmups:
  assumes "balanced s"
  shows "balanced (releaseWarmups s)"
  by (rule balanced_pages [OF assms, where A = "{#}" and R = "page_leases (xs_pages s)"])
    (simp_all add: releaseWarmups_def)

lemma balanced_releaseRetained: "balanced s \<Longrightarrow> balanced (releaseRetainedPage s)"
  by (simp add: balanced_def releaseRetainedPage_def account_defs ac_simps)

lemma map_of_map_values: "map_of (map (\<lambda>kv. (fst kv, f (snd kv))) m) k = map_option f (map_of m k)"
  by (induction m) auto

lemma no_leases_releaseWarmups: "no_leases (releaseWarmups s)"
  by (auto simp: no_leases_def map_of_map_values set_lease_def)

lemma cache_ok_releaseWarmups:
  assumes "distinct (keys (xs_pages s))" and "balanced s" and "window_ok h s"
  shows "cache_ok h (releaseWarmups s)"
proof -
  have k: "keys (xs_pages (releaseWarmups s)) = keys (xs_pages s)" by (simp add: comp_def)
  have w: "window_ok h (releaseWarmups s)" by (rule window_by_keys [OF assms(3) k]) simp_all
  have l: "warm_ok h (releaseWarmups s)" using no_leases_releaseWarmups [of s] by (simp add: no_leases_def warm_ok_def)
  have "distinct (keys (xs_pages (releaseWarmups s)))" using assms(1) by (simp only: k)
  with w l balanced_releaseWarmups [OF assms(2)] show ?thesis by (simp only: cache_ok_def simp_thms)
qed

lemma cache_ok_releaseRetained:
  assumes "cache_ok h s"
  shows "cache_ok h (releaseRetainedPage s)"
  using assms balanced_releaseRetained [of s]
  unfolding cache_ok_def warm_ok_def window_ok_def by (simp add: releaseRetainedPage_def)

lemma acquired_by_cancel [simp]: "sum_list (map (acquired_by \<circ> (\<lambda>x. CancelPage (f x))) xs) = {#}"
  "sum_list (map (released_by \<circ> (\<lambda>x. CancelPage (f x))) xs) = {#}"
  by (induction xs) simp_all

lemma reset_account:
  assumes "balanced s"
  shows "leases_acquired (reset_session h s) = leases_released (reset_session h s)"
proof -
  have b: "balanced (releaseWarmups (releaseRetainedPage s))"
    by (intro balanced_releaseWarmups balanced_releaseRetained assms)
  have "leases_held (releaseWarmups (releaseRetainedPage s)) = {#}"
    by (simp add: leases_held_def releaseRetainedPage_def)
  with b have "leases_acquired (releaseWarmups (releaseRetainedPage s)) = leases_released (releaseWarmups (releaseRetainedPage s))"
    by (simp add: balanced_def)
  then show ?thesis by (simp add: reset_session_def Let_def leases_acquired_def leases_released_def)
qed

lemma reset_fields [simp]:
  "xs_generation (reset_session h s) = xs_generation s" "xs_query (reset_session h s) = None"
  "xs_current (reset_session h s) = 0" "xs_pages (reset_session h s) = []" "xs_failures (reset_session h s) = []"
  "xs_inFlight (reset_session h s) = []" "xs_parked (reset_session h s) = False"
  "xs_retained (reset_session h s) = None"
  by (simp_all add: reset_session_def Let_def releaseRetainedPage_def releaseWarmups_def)

lemma cache_ok_start:
  assumes "cache_ok h s" and "1 \<le> h_maxSettled h" and "1 \<le> pg_page page"
  shows "cache_ok h (start_session h q page s)"
  using assms reset_account [of s h]
  by (simp add: cache_ok_def start_session_def Let_def warm_ok_def window_ok_def balanced_def account_defs outside_def)

lemma cache_ok_clear:
  assumes "cache_ok h s"
  shows "cache_ok h (clear_session h s)"
  using assms reset_account [of s h]
  by (simp add: cache_ok_def clear_session_def Let_def warm_ok_def window_ok_def balanced_def account_defs)

lemma retain_current_ok:
  assumes "balanced s"
  shows "balanced (retain_current h s)" and "xs_pages (retain_current h s) = xs_pages s"
    and "xs_current (retain_current h s) = xs_current s" and "xs_failures (retain_current h s) = xs_failures s"
    and "request_view (retain_current h s) = request_view s"
  using assms
  by (auto simp: retain_current_def Let_def balanced_def leases_held_def account_defs acquire_def emit_def
      request_view_def split: option.split)

lemma cache_ok_park:
  assumes "cache_ok h s"
  shows "cache_ok h (park_session h s)"
proof (cases "xs_parked s \<or> xs_query s \<in> {None, Some []}")
  case True
  with assms show ?thesis by (simp add: park_session_def)
next
  case False
  let ?t = "s\<lparr>xs_parked := True\<rparr>"
  have "balanced ?t" using assms by (simp add: cache_ok_def balanced_def account_defs)
  note r = retain_current_ok [OF this, of h]
  have "window_ok h (retain_current h ?t)"
    using assms r(2-4) by (simp add: cache_ok_def window_ok_def)
  then have "cache_ok h (releaseWarmups (retain_current h ?t))"
    using assms r(1,2) by (intro cache_ok_releaseWarmups) (simp_all add: cache_ok_def)
  with False show ?thesis by (auto simp: park_session_def)
qed

lemma cache_ok_resume:
  assumes "cache_ok h s"
  shows "cache_ok h (resume_session h s)"
proof (cases "xs_parked s")
  case True
  let ?t = "s\<lparr>xs_parked := False\<rparr>"
  have pre: "distinct (keys (xs_pages ?t))" "balanced ?t" "no_leases ?t"
    using assms True by (simp_all add: cache_ok_def balanced_def account_defs warm_ok_def no_leases_def)
  note sync = syncWarmups_ok [OF pre(1,2), of h]
  have "window_ok h ?t" using assms by (simp add: cache_ok_def window_ok_def)
  then have "window_ok h (syncWarmups h ?t)" by (rule window_by_keys) (simp_all add: sync(1) pre(3))
  with True sync pre show ?thesis by (simp add: resume_session_def cache_ok_def)
qed (simp add: resume_session_def assms)

lemma cache_ok_scroll: "cache_ok h s \<Longrightarrow> cache_ok h (recordScroll n y s)"
  by (erule cache_ok_cong) (simp_all add: recordScroll_def account_defs split: js_num.split)

section \<open>Requests\<close>

definition call_logged :: "fetch_call \<Rightarrow> page_session \<Rightarrow> bool" where
  "call_logged c s \<longleftrightarrow> (\<exists>rid. FetchPage c rid \<in> set (xs_effects s))"

definition call_for :: "int \<Rightarrow> in_flight_page \<Rightarrow> page_session \<Rightarrow> fetch_call" where
  "call_for p f s =
     \<lparr>fc_query = or_value (xs_query s) [], fc_generation = xs_generation s, fc_page = p, fc_request = if_request f\<rparr>"

text \<open>Calls are numbered up to now; a request in flight is one of this search that was really sent.\<close>

definition calls_ok :: "page_session \<Rightarrow> bool" where
  "calls_ok s \<longleftrightarrow>
     (\<forall>c. call_logged c s \<longrightarrow> fc_generation c \<le> xs_generation s)
     \<and> (\<forall>p f. map_of (xs_inFlight s) p = Some f \<longrightarrow> xs_query s \<noteq> None \<and> 1 \<le> p \<and> call_logged (call_for p f s) s)"

lemma calls_ok_cong:
  assumes "calls_ok s" and "request_view t = request_view s"
  shows "calls_ok t"
proof -
  have mem: "FetchPage c rid \<in> set (xs_effects u)
      \<longleftrightarrow> FetchPage c rid \<in> set (filter (\<lambda>e. \<not> lease_effect e) (xs_effects u))" for u c rid by simp
  have "filter (\<lambda>e. \<not> lease_effect e) (xs_effects t) = filter (\<lambda>e. \<not> lease_effect e) (xs_effects s)"
    using assms(2) by (simp add: request_view_def)
  then have "FetchPage c rid \<in> set (xs_effects t) \<longleftrightarrow> FetchPage c rid \<in> set (xs_effects s)" for c rid
    by (simp only: mem [of _ _ t] mem [of _ _ s])
  then have "call_logged c t \<longleftrightarrow> call_logged c s" for c by (simp add: call_logged_def)
  with assms show ?thesis by (simp add: calls_ok_def call_for_def request_view_def)
qed

lemma call_logged_emit [simp]: "call_logged c (emit es s) \<longleftrightarrow> (\<exists>rid. FetchPage c rid \<in> set es) \<or> call_logged c s"
  by (auto simp: call_logged_def)

lemma call_logged_fields [simp]:
  "call_logged c (s\<lparr>xs_inFlight := fs\<rparr>) = call_logged c s" "call_logged c (s\<lparr>xs_sequence := n\<rparr>) = call_logged c s"
  "call_logged c (s\<lparr>xs_failures := gs\<rparr>) = call_logged c s" "call_logged c (s\<lparr>xs_intent := i\<rparr>) = call_logged c s"
  by (simp_all add: call_logged_def)

lemma calls_ok_join:
  assumes "calls_ok s" and "map_of (xs_inFlight s) p = Some f"
  shows "calls_ok (join_request h p prio intent f s)"
proof (cases "prio = Foreground")
  case True
  have look: "map_of (AList.update p g (xs_inFlight s)) = (map_of (xs_inFlight s))(p \<mapsto> g)" for g
    by (rule update_conv')
  show ?thesis
    using assms True unfolding calls_ok_def
    by (auto simp: join_request_def Let_def call_for_def look)
qed (simp add: join_request_def assms)

lemma calls_ok_begin:
  assumes "calls_ok s" and "xs_query s \<noteq> None" and "1 \<le> p"
  shows "calls_ok (begin_request p prio intent s)"
  using assms unfolding calls_ok_def
  by (auto simp: begin_request_def Let_def call_for_def update_conv' split: if_splits)

lemma calls_ok_ask:
  assumes "calls_ok s" and "xs_query s \<noteq> None" and "1 \<le> p"
  shows "calls_ok (fst (ask_page h p prio intent s))"
  using calls_ok_join [OF assms(1)] calls_ok_begin [OF assms] by (simp add: ask_page_def split: option.split)

lemma valid_page_Some: "valid_page s n = Some p \<Longrightarrow> xs_query s \<notin> {None, Some []} \<and> 1 \<le> p \<and> p \<le> xs_total s"
  by (auto simp: valid_page_def le_floor_iff floor_le_iff split: js_num.splits if_splits)

lemma request_view_touch [simp]: "request_view (touch_page h p e s) = request_view s"
  by (simp add: touch_page_def)

lemma calls_ok_load:
  assumes ok: "calls_ok s"
    and act: "\<And>p t. priority = Foreground \<Longrightarrow> calls_ok t \<Longrightarrow> calls_ok (activate p t)"
  shows "calls_ok (fst (load_with activate h n priority intent s))"
proof (cases "valid_page s n")
  case (Some p)
  note v = valid_page_Some [OF Some]
  have touched: "calls_ok (touch_page h p e s)" for e by (rule calls_ok_cong [OF ok]) simp
  have fs: "calls_ok (s\<lparr>xs_failures := fs\<rparr>)" "calls_ok (tick (s\<lparr>xs_failures := fs\<rparr>))" for fs
    by (rule calls_ok_cong [OF ok], simp)+
  show ?thesis
    using v touched fs act calls_ok_ask [OF ok, of p] calls_ok_ask [OF fs(1), of _ p]
    by (simp add: load_with_def Some Let_def split: option.split)
qed (simp add: load_with_def ok)

lemma calls_ok_prefetch: "priority \<noteq> Foreground \<Longrightarrow> calls_ok s \<Longrightarrow> calls_ok (prefetch h p priority s)"
  unfolding prefetch_def by (rule calls_ok_load) simp_all

lemma calls_ok_adjacent: "calls_ok s \<Longrightarrow> calls_ok (prefetchAdjacent h s)"
  by (simp add: prefetchAdjacent_def Let_def calls_ok_prefetch)

lemma calls_ok_activate: "calls_ok s \<Longrightarrow> calls_ok (activateForeground h p s)"
  unfolding activateForeground_def
  by (auto intro!: calls_ok_adjacent elim: calls_ok_cong split: option.split)

lemma calls_ok_intent: "calls_ok s \<Longrightarrow> calls_ok (s\<lparr>xs_intent := i\<rparr>)"
  by (simp add: calls_ok_def call_for_def)

lemma calls_ok_open: "calls_ok s \<Longrightarrow> calls_ok (fst (open_page h n s))"
  unfolding open_page_def load_page_def Let_def
  by (rule calls_ok_load) (rule calls_ok_intent, assumption, rule calls_ok_activate)

lemma calls_ok_deliver:
  assumes "calls_ok s"
  shows "calls_ok (s\<lparr>xs_inFlight := AList.delete p (xs_inFlight s)\<rparr>)"
  using assms unfolding calls_ok_def by (auto simp: call_for_def lookup_delete split: if_splits)

lemma calls_ok_resolve:
  assumes "calls_ok s"
  shows "calls_ok (fst (resolvePage h c result s))"
proof (cases "owns_request c s")
  case (Some f)
  let ?s1 = "s\<lparr>xs_inFlight := AList.delete (fc_page c) (xs_inFlight s)\<rparr>"
  have one: "calls_ok ?s1" by (rule calls_ok_deliver [OF assms])
  have "calls_ok (store_failure h (fc_page c) err ?s1)" for err by (rule calls_ok_cong [OF one]) simp
  moreover have two: "calls_ok (store_page h (fc_page c) page ?s1)" for page by (rule calls_ok_cong [OF one]) simp
  moreover have "calls_ok (syncWarmups h (evictSettledPages h (store_page h (fc_page c) page ?s1)))" for page
    by (rule calls_ok_cong [OF two]) simp
  ultimately show ?thesis
    using one calls_ok_activate by (simp add: resolvePage_def Some Let_def split: sum.split)
qed (simp add: resolvePage_def assms)

lemma reset_calls: "call_logged c (reset_session h s) \<longleftrightarrow> call_logged c s"
proof -
  have "FetchPage c rid \<notin> set (released l)" for rid l by (simp add: released_def split: option.split)
  then show ?thesis
    by (auto simp: reset_session_def Let_def releaseWarmups_def releaseRetainedPage_def call_logged_def)
qed

lemma calls_ok_start: "calls_ok s \<Longrightarrow> calls_ok (start_session h q page s)"
  using reset_calls [of _ h s]
  by (auto simp: calls_ok_def start_session_def Let_def call_logged_def intro: le_SucI)

lemma calls_ok_clear: "calls_ok s \<Longrightarrow> calls_ok (clear_session h s)"
  using reset_calls [of _ h s]
  by (auto simp: calls_ok_def clear_session_def Let_def call_logged_def intro: le_SucI)

section \<open>Reachable sessions\<close>

text \<open>
  A session is created, then used by the view in any order; the answer to a page request comes at any time after
  the request was sent, and search results number their pages from one.
\<close>

inductive session_step :: "session_host \<Rightarrow> page_session \<Rightarrow> page_session \<Rightarrow> bool" for h where
  start: "1 \<le> pg_page page \<Longrightarrow> session_step h s (start_session h q page s)"
| clear: "session_step h s (clear_session h s)"
| park: "session_step h s (park_session h s)"
| resume: "session_step h s (resume_session h s)"
| unpin: "session_step h s (releaseRetainedPage s)"
| scroll: "session_step h s (recordScroll n y s)"
| opened: "session_step h s (fst (open_page h n s))"
| adjacent: "session_step h s (prefetchAdjacent h s)"
| answer: "call_logged c s \<Longrightarrow> session_step h s (fst (resolvePage h c result s))"

inductive session_reach :: "session_host \<Rightarrow> page_session \<Rightarrow> bool" for h where
  created: "new_session sid capacity = Some (h_maxSettled h, s) \<Longrightarrow> session_reach h s"
| stepped: "session_reach h s \<Longrightarrow> session_step h s t \<Longrightarrow> session_reach h t"

definition session_ok :: "session_host \<Rightarrow> page_session \<Rightarrow> bool" where
  "session_ok h s \<longleftrightarrow>
     cache_ok h s \<and> calls_ok s \<and> (xs_query s \<noteq> None \<longrightarrow> 1 \<le> xs_current s) \<and> 1 \<le> h_maxSettled h"

lemma owns_request_Some:
  "owns_request c s = Some f \<Longrightarrow>
   fc_generation c = xs_generation s \<and> xs_query s = Some (fc_query c) \<and> map_of (xs_inFlight s) (fc_page c) = Some f
   \<and> if_request f = fc_request c"
  by (auto simp: owns_request_def split: if_splits option.splits)

lemma ask_keeps: "xs_current (fst (ask_page h p prio intent s)) = xs_current s" by simp

lemma prefetch_keeps [simp]:
  "priority \<noteq> Foreground \<Longrightarrow> xs_current (prefetch h p priority s) = xs_current s"
  "priority \<noteq> Foreground \<Longrightarrow> xs_query (prefetch h p priority s) = xs_query s"
  "priority \<noteq> Foreground \<Longrightarrow> xs_generation (prefetch h p priority s) = xs_generation s"
  by (simp_all add: prefetch_def load_with_def Let_def split: option.split)

lemma adjacent_keeps [simp]:
  "xs_current (prefetchAdjacent h s) = xs_current s" "xs_query (prefetchAdjacent h s) = xs_query s"
  "xs_generation (prefetchAdjacent h s) = xs_generation s"
  by (simp_all add: prefetchAdjacent_def Let_def)

lemma request_view_parts:
  "request_view t = request_view s \<Longrightarrow> xs_query t = xs_query s \<and> xs_generation t = xs_generation s"
  by (simp add: request_view_def)

lemma settle_keeps [simp]:
  "xs_query (syncWarmups h (evictSettledPages h s)) = xs_query s"
  "xs_generation (syncWarmups h (evictSettledPages h s)) = xs_generation s"
  using request_view_parts [of "syncWarmups h (evictSettledPages h s)" s] by simp_all

lemma activate_keeps [simp]:
  "xs_query (activateForeground h p s) = xs_query s" "xs_generation (activateForeground h p s) = xs_generation s"
  by (simp_all add: activateForeground_def split: option.split)

lemma activate_current:
  "map_of (xs_pages s) p = Some e \<Longrightarrow> xs_current (activateForeground h p s) = p"
  by (simp add: activateForeground_def)

lemma load_keeps:
  "xs_query (fst (load_page h n prio intent s)) = xs_query s"
  "xs_generation (fst (load_page h n prio intent s)) = xs_generation s"
  by (simp_all add: load_page_def load_with_def Let_def split: option.split)

lemma load_current:
  "xs_current (fst (load_page h n prio intent s)) = xs_current s
   \<or> (\<exists>p. valid_page s n = Some p \<and> xs_current (fst (load_page h n prio intent s)) = p)"
proof (cases "valid_page s n")
  case (Some p)
  show ?thesis
  proof (cases "map_of (xs_pages s) p")
    case (Some e)
    have "map_of (xs_pages (touch_page h p e s)) p = Some (e\<lparr>sp_lastAccessed := now_at h s\<rparr>)"
      by (simp add: touch_page_lookup)
    then show ?thesis
      using Some \<open>valid_page s n = Some p\<close> by (simp add: load_page_def load_with_def Let_def activate_current)
  qed (simp add: load_page_def load_with_def Some split: option.split)
qed (simp add: load_page_def load_with_def)

lemma open_keeps:
  "xs_query (fst (open_page h n s)) = xs_query s" "xs_generation (fst (open_page h n s)) = xs_generation s"
  by (simp_all add: open_page_def Let_def load_keeps)

lemma open_current: "1 \<le> xs_current s \<Longrightarrow> 1 \<le> xs_current (fst (open_page h n s))"
  using load_current [of h n Foreground "Some (Suc (xs_intent s))" "s\<lparr>xs_intent := Suc (xs_intent s)\<rparr>"]
  by (auto simp: open_page_def Let_def dest: valid_page_Some)

lemma store_keeps [simp]:
  "xs_query (store_page h p page s) = xs_query s" "xs_generation (store_page h p page s) = xs_generation s"
  "xs_query (store_failure h p err s) = xs_query s" "xs_generation (store_failure h p err s) = xs_generation s"
  by (simp_all add: store_page_def store_failure_def evictFailures_def)

lemma store_page_lookup:
  "map_of (xs_pages (store_page h p page s)) p = Some \<lparr>sp_page = page, sp_lastAccessed = now_at h s, sp_lease = None\<rparr>"
  by (simp add: store_page_pages update_conv')

lemma resolve_keeps:
  "xs_query (fst (resolvePage h c result s)) = xs_query s"
  "xs_generation (fst (resolvePage h c result s)) = xs_generation s"
  by (simp_all add: resolvePage_def Let_def split: option.split sum.split)

lemma resolve_current:
  "xs_current (fst (resolvePage h c result s)) \<in> {xs_current s, fc_page c}"
  by (auto simp: resolvePage_def Let_def activate_current [OF store_page_lookup] split: option.split sum.split)

lemma owned_page: "session_ok h s \<Longrightarrow> owns_request c s \<noteq> None \<Longrightarrow> 1 \<le> fc_page c \<and> 1 \<le> xs_current s"
  by (auto simp: session_ok_def calls_ok_def dest!: owns_request_Some)

lemma park_keeps:
  "xs_query (park_session h s) = xs_query s" "xs_generation (park_session h s) = xs_generation s"
  "xs_current (park_session h s) = xs_current s"
  by (auto simp: park_session_def retain_current_def Let_def split: option.split)

lemma calls_ok_park: "calls_ok s \<Longrightarrow> calls_ok (park_session h s)"
proof -
  have retain: "request_view (retain_current h t) = request_view t" for t
    by (auto simp: retain_current_def Let_def split: option.split)
  assume "calls_ok s"
  then have "calls_ok (s\<lparr>xs_parked := True\<rparr>)" by (simp add: calls_ok_def call_logged_def call_for_def)
  then have "calls_ok (releaseWarmups (retain_current h (s\<lparr>xs_parked := True\<rparr>)))"
    by (rule calls_ok_cong) (simp add: retain)
  with \<open>calls_ok s\<close> show ?thesis by (simp add: park_session_def)
qed

lemma calls_ok_resume: "calls_ok s \<Longrightarrow> calls_ok (resume_session h s)"
proof -
  assume ok: "calls_ok s"
  then have "calls_ok (s\<lparr>xs_parked := False\<rparr>)" by (simp add: calls_ok_def call_logged_def call_for_def)
  then have "calls_ok (syncWarmups h (s\<lparr>xs_parked := False\<rparr>))" by (rule calls_ok_cong) simp
  with ok show ?thesis by (simp add: resume_session_def)
qed

lemma resume_keeps:
  "xs_query (resume_session h s) = xs_query s" "xs_generation (resume_session h s) = xs_generation s"
  "xs_current (resume_session h s) = xs_current s"
proof -
  have "request_view (syncWarmups h (s\<lparr>xs_parked := False\<rparr>)) = request_view (s\<lparr>xs_parked := False\<rparr>)" by simp
  from request_view_parts [OF this]
  show "xs_query (resume_session h s) = xs_query s" "xs_generation (resume_session h s) = xs_generation s"
    by (simp_all add: resume_session_def)
qed (simp add: resume_session_def)

lemma scroll_keeps:
  "xs_query (recordScroll n y s) = xs_query s" "xs_generation (recordScroll n y s) = xs_generation s"
  "xs_current (recordScroll n y s) = xs_current s" "request_view (recordScroll n y s) = request_view s"
  by (simp_all add: recordScroll_def split: js_num.split)

lemma session_ok_step: "session_step h s t \<Longrightarrow> session_ok h s \<Longrightarrow> session_ok h t"
proof (induction rule: session_step.induct)
  case (start page s q)
  then show ?case
    by (simp add: session_ok_def cache_ok_start calls_ok_start) (simp add: start_session_def Let_def)
next
  case (clear s)
  then show ?case
    by (simp add: session_ok_def cache_ok_clear calls_ok_clear) (simp add: clear_session_def Let_def)
next
  case (park s)
  then show ?case by (simp add: session_ok_def cache_ok_park calls_ok_park park_keeps)
next
  case (resume s)
  then show ?case by (simp add: session_ok_def cache_ok_resume calls_ok_resume resume_keeps)
next
  case (unpin s)
  then have "calls_ok (releaseRetainedPage s)" by (auto simp: session_ok_def elim: calls_ok_cong)
  with unpin show ?case
    by (simp add: session_ok_def cache_ok_releaseRetained) (simp add: releaseRetainedPage_def)
next
  case (scroll s n y)
  then have "calls_ok (recordScroll n y s)" by (auto simp: session_ok_def scroll_keeps elim: calls_ok_cong)
  with scroll show ?case by (simp add: session_ok_def cache_ok_scroll scroll_keeps)
next
  case (opened s n)
  then show ?case by (auto simp: session_ok_def cache_ok_open calls_ok_open open_keeps intro: open_current)
next
  case (adjacent s)
  then show ?case by (simp add: session_ok_def cache_ok_adjacent calls_ok_adjacent)
next
  case (answer c s result)
  have "cache_ok h (fst (resolvePage h c result s))"
    using answer owned_page [OF answer(2), of c] by (intro cache_ok_resolve) (auto simp: session_ok_def)
  moreover have "xs_query s \<noteq> None \<longrightarrow> 1 \<le> xs_current (fst (resolvePage h c result s))"
  proof (cases "owns_request c s")
    case None
    with answer(2) show ?thesis by (simp add: resolvePage_def session_ok_def)
  next
    case (Some f)
    with owned_page [OF answer(2), of c] resolve_current [of h c result s] show ?thesis by auto
  qed
  ultimately show ?case using answer(2) by (simp add: session_ok_def calls_ok_resolve resolve_keeps)
qed

lemma new_session_ok:
  assumes "new_session sid capacity = Some (h_maxSettled h, s)"
  shows "session_ok h s"
proof -
  obtain r where r: "or_value capacity (Num 5) = Num r" "rat_is_int r \<and> 1 \<le> r"
      "(h_maxSettled h, s) = (nat (floor r), s)" "xs_pages s = []" "xs_effects s = []" "xs_inFlight s = []"
      "xs_retained s = None" "xs_query s = None" "xs_current s = 0" "xs_failures s = []"
    using assms by (auto simp: new_session_def split: js_num.splits if_splits)
  have "1 \<le> floor r" using r(2) by (simp add: le_floor_iff)
  moreover have "h_maxSettled h = nat (floor r)" using r(3) by simp
  ultimately have "1 \<le> h_maxSettled h" by linarith
  with r show ?thesis
    by (simp add: session_ok_def cache_ok_def balanced_def account_defs warm_ok_def window_ok_def calls_ok_def
        call_logged_def)
qed

lemma session_reach_ok: "session_reach h s \<Longrightarrow> session_ok h s"
  by (induction rule: session_reach.induct) (blast intro: new_session_ok session_ok_step)+

lemma generation_step: "session_step h s t \<Longrightarrow> xs_generation s \<le> xs_generation t"
  by (induction rule: session_step.induct)
    (simp_all add: start_session_def clear_session_def Let_def park_keeps resume_keeps scroll_keeps open_keeps
      resolve_keeps releaseRetainedPage_def)

lemma generation_steps: "(session_step h)\<^sup>*\<^sup>* s t \<Longrightarrow> xs_generation s \<le> xs_generation t"
  by (induction rule: rtranclp_induct) (auto dest: generation_step intro: order_trans)

section \<open>The page that was opened\<close>

definition shown_page :: "page_session \<Rightarrow> int \<Rightarrow> gallery_page option" where
  "shown_page s p = map_option sp_page (map_of (xs_pages s) p)"

lemma shown_touch: "map_of (xs_pages s) q = Some e \<Longrightarrow> shown_page (touch_page h q e s) p = shown_page s p"
  by (simp add: shown_page_def touch_page_lookup)

lemma shown_prefetch: "priority \<noteq> Foreground \<Longrightarrow> shown_page (prefetch h q priority s) p = shown_page s p"
proof -
  assume "priority \<noteq> Foreground"
  moreover have "shown_page (fst (ask_page h q' pr i t)) p = shown_page t p" for q' pr i t by (simp add: shown_page_def)
  moreover have "shown_page (tick (s\<lparr>xs_failures := fs\<rparr>)) p = shown_page s p" for fs by (simp add: shown_page_def)
  ultimately show ?thesis
    by (simp add: prefetch_def load_with_def Let_def shown_touch split: option.split)
qed

lemma shown_adjacent: "shown_page (prefetchAdjacent h s) p = shown_page s p"
  by (simp add: prefetchAdjacent_def Let_def shown_prefetch)

lemma shown_sync_run:
  assumes "distinct (keys pes)" and "\<forall>pe \<in> set pes. map_of (xs_pages s) (fst pe) = Some (snd pe)" and "balanced s"
  shows "shown_page (foldl (sync_page warm) s pes) p = shown_page s p"
  using assms
proof (induction pes arbitrary: s)
  case (Cons pe pes)
  let ?u = "sync_page warm s pe"
  have pe: "map_of (xs_pages s) (fst pe) = Some (snd pe)" using Cons.prems(2) by simp
  note step = sync_page_step [OF pe Cons.prems(3), of warm, unfolded prod.collapse]
  from step(3) obtain l where l: "map_of (xs_pages ?u) = (map_of (xs_pages s))(fst pe \<mapsto> set_lease l (snd pe))"
    by blast
  have "map_of (xs_pages ?u) (fst qe) = Some (snd qe)" if "qe \<in> set pes" for qe
  proof -
    have "fst qe \<noteq> fst pe" using that Cons.prems(1) by simp (metis image_eqI)
    with l Cons.prems(2) that show ?thesis by simp
  qed
  then have "shown_page (foldl (sync_page warm) ?u pes) p = shown_page ?u p"
    using Cons.IH [of ?u] Cons.prems(1) step(2) by simp
  also have "\<dots> = shown_page s p" using pe by (simp add: shown_page_def l set_lease_def)
  finally show ?case by simp
qed simp

lemma shown_sync: "distinct (keys (xs_pages s)) \<Longrightarrow> balanced s \<Longrightarrow> shown_page (syncWarmups h s) p = shown_page s p"
  by (auto simp: syncWarmups_def map_of_entries intro!: shown_sync_run split: option.split)

lemma shown_activate:
  assumes "cache_pre h s" and "map_of (xs_pages s) p = Some e" and "1 \<le> p" and "1 \<le> h_maxSettled h"
  shows "shown_page (activateForeground h p s) p = Some (sp_page e)"
proof -
  let ?t = "(touch_page h p e s)\<lparr>xs_current := p\<rparr>"
  have pre: "cache_pre h (touch_page h p e s)" by (rule cache_pre_touch [OF assms(2,1)])
  have t: "map_of (xs_pages ?t) (xs_current ?t) = Some (e\<lparr>sp_lastAccessed := now_at h s\<rparr>)"
    by (simp add: touch_page_lookup)
  have d: "distinct (keys (xs_pages ?t))" "balanced ?t"
    using pre by (simp_all add: cache_pre_def balanced_def account_defs)
  note ev = evictSettled_ok [OF d(1) t assms(4) d(2)]
  have "shown_page (evictSettledPages h ?t) p = Some (sp_page e)"
    using ev(3) assms(3) by (simp add: shown_page_def)
  then have "shown_page (syncWarmups h (evictSettledPages h ?t)) p = Some (sp_page e)"
    using shown_sync [of "evictSettledPages h ?t" h p] ev(1,2) assms(3) by simp
  with assms(2) show ?thesis by (simp add: activateForeground_def shown_adjacent)
qed

text \<open>Asking for a page in the foreground makes its request the newest.\<close>

lemma ask_foreground:
  fixes h p i
  assumes "calls_ok s" and "xs_query s \<noteq> None"
  defines "t \<equiv> fst (ask_page h p Foreground (Some i) s)"
  shows "\<exists>c f. snd (ask_page h p Foreground (Some i) s) = Waiting (fc_request c) \<and> call_logged c t \<and> fc_page c = p
    \<and> owns_request c t = Some f \<and> if_priority f = Foreground \<and> if_intent f = Some i"
proof (cases "map_of (xs_inFlight s) p")
  case None
  let ?f = "\<lparr>if_request = Suc (xs_sequence s), if_requestId = request_id s (Suc (xs_sequence s)),
    if_priority = Foreground, if_intent = Some i\<rparr>"
  from None assms(2) show ?thesis
    by (intro exI [of _ "call_for p ?f s"] exI [of _ ?f])
      (auto simp: t_def ask_page_def begin_request_def Let_def call_for_def owns_request_def update_conv')
next
  case (Some f)
  let ?f = "f\<lparr>if_priority := Foreground, if_intent := Some i\<rparr>"
  have "call_logged (call_for p f s) s" using assms(1) Some by (simp add: calls_ok_def)
  with Some assms(2) show ?thesis
    by (intro exI [of _ "call_for p f s"] exI [of _ ?f])
      (auto simp: t_def ask_page_def join_request_def Let_def call_for_def owns_request_def update_conv')
qed

section \<open>A session to try the properties on\<close>

definition sample_host :: session_host where
  "sample_host = \<lparr>h_cancel = True, h_promote = True, h_warm = Some (\<lambda>_ _ _. True), h_retain = Some (\<lambda>_ _. True),
     h_maxSettled = 5, h_now = int\<rparr>"

definition sample_page :: "int \<Rightarrow> gallery_page" where
  "sample_page n = \<lparr>pg_page = n, pg_totalPages = 9, pg_items = []\<rparr>"

definition sample_new :: page_session where
  "sample_new = snd (the (new_session 1 None))"

definition sample_started :: page_session where
  "sample_started = start_session sample_host ''q'' (sample_page 1) sample_new"

lemma sample_new_session: "new_session 1 None = Some (h_maxSettled sample_host, sample_new)"
  unfolding sample_host_def sample_new_def by (simp add: new_session_def rat_is_int_def)

lemma sample_reach: "session_reach sample_host sample_started"
  unfolding sample_started_def
  by (rule session_reach.stepped [OF session_reach.created [OF sample_new_session]], rule session_step.start)
    (simp add: sample_page_def)

section \<open>Properties\<close>

text \<open>C35: No lease on the covers of a page is lost or released twice: in every reachable session the leases handed out
  by the host are exactly those released plus those still held, and a page is kept warm only while the session is
  shown and only next to the current page. Leaving the search releases every lease.\<close>

theorem session_leases_balanced:
  assumes "session_reach h s"
  shows "leases_acquired s = leases_released s + leases_held s \<and> warm_ok h s
    \<and> leases_acquired (clear_session h s) = leases_released (clear_session h s)"
proof -
  have ok: "session_ok h s" by (rule session_reach_ok [OF assms])
  have "cache_ok h (clear_session h s)" using ok by (simp add: session_ok_def cache_ok_clear)
  moreover have "leases_held (clear_session h s) = {#}" by (simp add: leases_held_def clear_session_def Let_def)
  ultimately show ?thesis using ok by (simp add: session_ok_def cache_ok_def balanced_def)
qed

theorem session_leases_balanced_witness:
  "leases_acquired (clear_session sample_host sample_started) = leases_released (clear_session sample_host sample_started)"
  using session_leases_balanced [OF sample_reach] by simp

text \<open>The cache of an Explore search stays bounded: never more settled pages or remembered failures than its
  capacity, no cached page further than two from the current one, and the current page is always cached.\<close>

theorem session_cache_bounded:
  assumes "session_reach h s"
  shows "length (xs_pages s) \<le> h_maxSettled h \<and> length (xs_failures s) \<le> h_maxSettled h
    \<and> distinct (cachedPageNumbers s)
    \<and> (case xs_query s of
         None \<Rightarrow> True
       | Some _ \<Rightarrow> xs_current s \<in> set (cachedPageNumbers s)
                 \<and> list_all (\<lambda>p. \<bar>p - xs_current s\<bar> \<le> 2) (cachedPageNumbers s))"
proof -
  have ok: "session_ok h s" by (rule session_reach_ok [OF assms])
  then have w: "window_ok h s" "distinct (keys (xs_pages s))" by (simp_all add: session_ok_def cache_ok_def)
  have cur: "xs_current s \<in> fst ` set (xs_pages s) \<and> (\<forall>p \<in> fst ` set (xs_pages s). \<bar>p - xs_current s\<bar> \<le> 2)"
    if "xs_query s \<noteq> None"
  proof -
    have "xs_current s \<noteq> 0" using that ok by (auto simp: session_ok_def)
    with w(1) have c: "map_of (xs_pages s) (xs_current s) \<noteq> None" "\<forall>p \<in> fst ` set (xs_pages s). \<not> outside (xs_current s) p"
      by (simp_all add: window_ok_def del: not_None_eq)
    from c(1) have "xs_current s \<in> set (keys (xs_pages s))" by (simp only: map_of_None_keys) simp
    with c(2) show ?thesis by (simp add: outside_def not_less)
  qed
  with w show ?thesis
    by (cases "xs_query s") (auto simp: window_ok_def cachedPageNumbers_def list_all_iff)
qed

theorem session_cache_bounded_witness:
  "list_all (\<lambda>p. \<bar>p - xs_current sample_started\<bar> \<le> 2) (cachedPageNumbers sample_started)"
proof -
  have "xs_query sample_started = Some ''q''" by (simp add: sample_started_def start_session_def Let_def tick_def)
  with session_cache_bounded [OF sample_reach] show ?thesis by simp
qed

text \<open>An answer to a request of an earlier search changes nothing, however late it arrives and whatever was done
  since the new search began: it is reported as stale.\<close>

theorem late_page_ignored:
  assumes "session_reach h s" and "call_logged c s" and "(session_step h)\<^sup>*\<^sup>* (start_session h q page s) t"
  shows "resolvePage h c result t = (t, Stale)"
proof -
  have "fc_generation c \<le> xs_generation s"
    using session_reach_ok [OF assms(1)] assms(2) by (simp add: session_ok_def calls_ok_def)
  also have "\<dots> < xs_generation (start_session h q page s)" by (simp add: start_session_def Let_def)
  also have "\<dots> \<le> xs_generation t" by (rule generation_steps [OF assms(3)])
  finally show ?thesis by (simp add: resolvePage_def owns_request_def)
qed

definition sample_opened :: page_session where
  "sample_opened = fst (open_page sample_host (Num 4) sample_started)"

definition sample_call :: fetch_call where
  "sample_call = \<lparr>fc_query = ''q'', fc_generation = 1, fc_page = 4, fc_request = 1\<rparr>"

lemma sample_opened_eval:
  "snd (open_page sample_host (Num 4) sample_started) = Waiting 1" "call_logged sample_call sample_opened"
  by (simp_all add: sample_opened_def sample_call_def sample_started_def sample_new_def new_session_def
      rat_is_int_def sample_page_def sample_host_def open_page_def load_page_def load_with_def valid_page_def
      ask_page_def begin_request_def start_session_def reset_session_def releaseWarmups_def releaseRetainedPage_def
      released_def tick_def Let_def call_logged_def emit_def)

theorem late_page_ignored_witness:
  "resolvePage sample_host sample_call (Some (Inr (sample_page 4))) (start_session sample_host ''r'' (sample_page 1) sample_opened)
   = (start_session sample_host ''r'' (sample_page 1) sample_opened, Stale)"
proof -
  have "session_reach sample_host sample_opened"
    unfolding sample_opened_def by (rule session_reach.stepped [OF sample_reach session_step.opened])
  from late_page_ignored [OF this sample_opened_eval(2) rtranclp.rtrancl_refl] show ?thesis .
qed

text \<open>Opening a page of the search always gets there: either it is cached and is the current page at once, or its
  request is in flight as the newest intent of the user, and when the answer arrives the page is current, cached
  with what the answer brought, and reported as ready.\<close>

theorem opened_page_arrives:
  assumes "session_reach h s" and "valid_page s n = Some p"
  shows "case open_page h n s of (t, outcome) \<Rightarrow>
    (case outcome of
       Settled r \<Rightarrow> xs_current t = p \<and> (\<exists>page y. r = Ready page FromCache y \<and> shown_page t p = Some page)
     | Waiting k \<Rightarrow>
         (\<exists>c. call_logged c t \<and> fc_page c = p \<and> fc_request c = k
            \<and> (\<forall>page. let u = fst (resolvePage h c (Some (Inr page)) t) in
                 xs_current u = p \<and> shown_page u p = Some page
                 \<and> snd (resolvePage h c (Some (Inr page)) t) = Ready page FromNetwork (scrollFor p u))))"
proof -
  let ?s = "s\<lparr>xs_intent := Suc (xs_intent s)\<rparr>"
  have ok: "session_ok h s" by (rule session_reach_ok [OF assms(1)])
  have v: "valid_page ?s n = Some p" using assms(2) by (simp add: valid_page_def cong: js_num.case_cong)
  note p = valid_page_Some [OF assms(2)]
  have cok: "cache_ok h ?s"
    by (rule cache_ok_cong [of h s]) (use ok in \<open>simp_all add: session_ok_def account_defs\<close>)
  have lim: "1 \<le> h_maxSettled h" using ok by (simp add: session_ok_def)
  show ?thesis
  proof (cases "map_of (xs_pages s) p")
    case (Some e)
    let ?t = "touch_page h p e ?s"
    have e: "map_of (xs_pages ?s) p = Some e" using Some by simp
    have t: "map_of (xs_pages ?t) p = Some (e\<lparr>sp_lastAccessed := now_at h ?s\<rparr>)" by (simp add: touch_page_lookup)
    have pre: "cache_pre h ?t" by (rule cache_pre_touch [OF e cache_ok_pre [OF cok]])
    have "open_page h n s
        = (activateForeground h p ?t, Settled (Ready (sp_page e) FromCache (scrollFor p (activateForeground h p ?t))))"
      using v Some by (simp add: open_page_def load_page_def load_with_def Let_def)
    with activate_current [OF t] shown_activate [OF pre t _ lim] p show ?thesis by simp
  next
    case None
    let ?t = "?s\<lparr>xs_failures := AList.delete p (xs_failures ?s)\<rparr>"
    let ?r = "ask_page h p Foreground (Some (Suc (xs_intent s))) ?t"
    have o: "open_page h n s = ?r" using v None by (simp add: open_page_def load_page_def load_with_def Let_def)
    have calls: "calls_ok ?t" using ok by (simp add: session_ok_def calls_ok_def call_for_def)
    have q: "xs_query ?t \<noteq> None" using p by auto
    from ask_foreground [OF calls q, of h p "Suc (xs_intent s)"] obtain c f where
      c: "snd ?r = Waiting (fc_request c)" "call_logged c (fst ?r)" "fc_page c = p"
        "owns_request c (fst ?r) = Some f" "if_priority f = Foreground" "if_intent f = Some (Suc (xs_intent s))"
      by (elim exE conjE)
    let ?one = "(fst ?r)\<lparr>xs_inFlight := AList.delete p (xs_inFlight (fst ?r))\<rparr>"
    have "cache_ok h ?t" by (rule cache_ok_cong [OF cok]) (simp_all add: length_delete_le)
    then have "cache_ok h ?one" by (intro cache_ok_inFlight cache_ok_ask)
    note pre = store_page_pre [OF this, of p]
    have res: "resolvePage h c (Some (Inr page)) (fst ?r)
        = (activateForeground h p (store_page h p page ?one),
           Ready page FromNetwork (scrollFor p (activateForeground h p (store_page h p page ?one))))" for page
      using c by (simp add: resolvePage_def Let_def)
    have "xs_current (activateForeground h p (store_page h p page ?one)) = p
        \<and> shown_page (activateForeground h p (store_page h p page ?one)) p = Some page" for page
      using activate_current [OF store_page_lookup] shown_activate [OF pre store_page_lookup _ lim] p by simp
    with c res show ?thesis unfolding o by (auto simp: case_prod_unfold Let_def intro!: exI [of _ c])
  qed
qed

theorem opened_page_arrives_witness:
  "\<exists>c. call_logged c sample_opened \<and> fc_page c = 4
     \<and> xs_current (fst (resolvePage sample_host c (Some (Inr (sample_page 4))) sample_opened)) = 4"
proof -
  have v: "valid_page sample_started (Num 4) = Some 4"
    by (simp add: valid_page_def sample_started_def start_session_def Let_def tick_def sample_page_def rat_is_int_def)
  from opened_page_arrives [OF sample_reach v] sample_opened_eval(1) show ?thesis
    by (auto simp: sample_opened_def case_prod_unfold Let_def)
qed

end
