(* ===== verification/InternalDuplicate.thy ===== *)
theory InternalDuplicate
  imports CoreTypes JsonText
begin

text \<open>
  \<^verbatim>\<open>src/src/components/internalDuplicateReviewModel.ts\<close> and the choices of
  \<^verbatim>\<open>InternalDuplicateDialog.tsx\<close>: pages that repeat inside one album. Groups of equal pages are collected into
  blocks; a block whose pages carry consistent track marks is shown as several editions of one passage, of which
  the user keeps some. The facts: a removal never takes the last copy of a page, an edition block keeps exactly
  the pages of the chosen tracks, and a plan is only applied to the selections it was made for.

  \<^verbatim>\<open>localeCompare\<close> is the parameter \<open>loc\<close>.
\<close>

section \<open>Records\<close>

record page_evidence =
  pe_sourcePage :: int
  pe_exactSha256 :: bool
  pe_visualSimilarity :: rat
  pe_detailHashDistance :: int
  pe_lowInformation :: bool
  pe_editionTrackId :: "string option"
  pe_editionTrackOrdinal :: "js_num option"

datatype internal_match_kind = MatchExact | MatchTranslation

record internal_group =
  ig_groupId :: string
  ig_blockId :: string
  ig_sequenceIndex :: int
  ig_revision :: int
  ig_entryId :: string
  ig_galleryId :: gallery_id
  ig_relation :: internal_match_kind
  ig_confidence :: rat
  ig_recommendedKeepSourcePage :: int
  ig_pages :: "page_evidence list"
  ig_resolved :: bool
  ig_createdAt :: string
  ig_updatedAt :: string

record removal_selection =
  rs_groupId :: string
  rs_expectedRevision :: int
  rs_keepSourcePage :: int
  rs_removeSourcePages :: "int list"

record removal_plan =
  rp_entryId :: string
  rp_selections :: "removal_selection list"
  rp_planId :: string
  rp_filesToQuarantine :: int
  rp_bytesToQuarantine :: int
  rp_expiresAt :: string

record edition_track =
  et_id :: string
  et_ordinal :: int
  et_label :: string
  et_pages :: "int list"
  et_coveredRows :: int
  et_missingRows :: int
  et_firstPage :: "page_evidence option"

record review_block =
  rb_blockId :: string
  rb_rows :: "internal_group list"
  rb_tracks :: "edition_track list"
  rb_edition :: bool

section \<open>Blocks\<close>

text \<open>The Korean word for a set, and a letter or a number.\<close>

definition set_word :: string where
  "set_word = [CHR 0xEC, CHR 0x84, CHR 0xB8, CHR 0xED, CHR 0x8A, CHR 0xB8, CHR '' '']"

definition trackLabel :: "int \<Rightarrow> string" where
  "trackLabel ordinal =
     (if ordinal < 26 then set_word @ [upper_letters ! nat ordinal] else set_word @ show_int (ordinal + 1))"

text \<open>The track a page belongs to, when its marks are valid.\<close>

definition valid_track :: "page_evidence \<Rightarrow> (string \<times> int) option" where
  "valid_track p =
     (case (pe_editionTrackId p, pe_editionTrackOrdinal p) of
        (Some i, Some (Num r)) \<Rightarrow> if trim i \<noteq> [] \<and> rat_is_int r \<and> 0 \<le> r then Some (i, floor r) else None
      | _ \<Rightarrow> None)"

text \<open>Pushing a value under a key of an insertion-ordered map of lists.\<close>

definition push_under :: "'k \<Rightarrow> 'v \<Rightarrow> ('k \<times> 'v list) list \<Rightarrow> ('k \<times> 'v list) list" where
  "push_under k v m = AList.update k (or_value (map_of m k) [] @ [v]) m"

definition rows_by_block :: "internal_group list \<Rightarrow> (string \<times> internal_group list) list" where
  "rows_by_block groups = foldl (\<lambda>m g. push_under (ig_blockId g) g m) [] groups"

type_synonym track_maps = "(string \<times> page_evidence list) list \<times> (string \<times> int) list"

text \<open>The loop over the pages of one row, and the loop over the rows; the flag is \<^verbatim>\<open>invalid\<close>.\<close>

fun scan_row :: "string list \<Rightarrow> track_maps \<Rightarrow> page_evidence list \<Rightarrow> track_maps \<times> bool" where
  "scan_row seen m [] = (m, False)"
| "scan_row seen m (p # ps) =
     (case valid_track p of
        None \<Rightarrow> (m, True)
      | Some (i, n) \<Rightarrow>
          if i \<in> set seen \<or> (case map_of (snd m) i of Some n' \<Rightarrow> n' \<noteq> n | None \<Rightarrow> False) then (m, True)
          else scan_row (seen @ [i]) (push_under i p (fst m), AList.update i n (snd m)) ps)"

fun scan_rows :: "track_maps \<Rightarrow> internal_group list \<Rightarrow> track_maps \<times> bool" where
  "scan_rows m [] = (m, False)"
| "scan_rows m (g # gs) =
     (case scan_row [] m (ig_pages g) of (m', invalid) \<Rightarrow> if invalid then (m', True) else scan_rows m' gs)"

definition by_source_page :: "page_evidence \<Rightarrow> page_evidence \<Rightarrow> int" where
  "by_source_page l r = pe_sourcePage l - pe_sourcePage r"

definition track_of :: "nat \<Rightarrow> (string \<times> int) list \<Rightarrow> string \<times> page_evidence list \<Rightarrow> edition_track" where
  "track_of rows ordinals e =
     (let ordinal = the (map_of ordinals (fst e))
      in \<lparr>et_id = fst e, et_ordinal = ordinal, et_label = trackLabel ordinal,
          et_pages = js_sort by_number (map pe_sourcePage (snd e)),
          et_coveredRows = int (length (snd e)), et_missingRows = int rows - int (length (snd e)),
          et_firstPage = js_at (js_sort by_source_page (snd e)) 0\<rparr>)"

definition by_track :: "(string \<Rightarrow> string \<Rightarrow> int) \<Rightarrow> edition_track \<Rightarrow> edition_track \<Rightarrow> int" where
  "by_track loc = js_or (\<lambda>l r. et_ordinal l - et_ordinal r) (\<lambda>l r. loc (et_id l) (et_id r))"

definition by_sequence :: "internal_group \<Rightarrow> internal_group \<Rightarrow> int" where
  "by_sequence l r = ig_sequenceIndex l - ig_sequenceIndex r"

definition block_of ::
  "(string \<Rightarrow> string \<Rightarrow> int) \<Rightarrow> string \<times> internal_group list \<Rightarrow> review_block" where
  "block_of loc b =
     (let rows = js_sort by_sequence (snd b); pages = concat (map ig_pages rows)
      in if length rows < 2 \<or> list_ex (\<lambda>p. valid_track p = None) pages
         then \<lparr>rb_blockId = fst b, rb_rows = rows, rb_tracks = [], rb_edition = False\<rparr>
         else case scan_rows ([], []) rows of ((trackPages, ordinals), invalid) \<Rightarrow>
           let tracks = js_sort (by_track loc) (map (track_of (length rows) ordinals) trackPages);
               edition = \<not> invalid \<and> 2 \<le> length tracks \<and> list_all (\<lambda>t. 2 \<le> et_coveredRows t) tracks
                 \<and> length (set_from (map et_ordinal tracks)) = length tracks
           in \<lparr>rb_blockId = fst b, rb_rows = rows, rb_tracks = (if edition then tracks else []),
               rb_edition = edition\<rparr>)"

definition buildInternalReviewBlocks ::
  "(string \<Rightarrow> string \<Rightarrow> int) \<Rightarrow> internal_group list \<Rightarrow> review_block list" where
  "buildInternalReviewBlocks loc groups = map (block_of loc) (rows_by_block groups)"

section \<open>Selections\<close>

definition selectedInternalEditionTracks ::
  "review_block \<Rightarrow> (string \<Rightarrow> string list option) \<Rightarrow> edition_track list" where
  "selectedInternalEditionTracks block chosen =
     (if \<not> rb_edition block then []
      else let fallback = (case rb_tracks block of [] \<Rightarrow> [] | t # _ \<Rightarrow> [et_id t]);
               requested = or_value (chosen (rb_blockId block)) fallback;
               selected = filter (\<lambda>t. et_id t \<in> set requested) (rb_tracks block)
           in if selected \<noteq> [] then selected else take 1 (rb_tracks block))"

definition row_selection :: "(string \<Rightarrow> int option) \<Rightarrow> internal_group \<Rightarrow> removal_selection list" where
  "row_selection keep g =
     (let keepPage = or_value (keep (ig_groupId g)) (ig_recommendedKeepSourcePage g);
          removed = js_sort by_number (filter (\<lambda>p. p \<noteq> keepPage) (map pe_sourcePage (ig_pages g)))
      in if removed \<noteq> []
         then [\<lparr>rs_groupId = ig_groupId g, rs_expectedRevision = ig_revision g,
                rs_keepSourcePage = keepPage, rs_removeSourcePages = removed\<rparr>]
         else [])"

text \<open>An absent or empty track id belongs to no selected track.\<close>

definition on_track :: "string list \<Rightarrow> page_evidence \<Rightarrow> bool" where
  "on_track ids p = (case pe_editionTrackId p of Some i \<Rightarrow> i \<noteq> [] \<and> i \<in> set ids | None \<Rightarrow> False)"

definition edition_selection :: "string list \<Rightarrow> internal_group \<Rightarrow> removal_selection list" where
  "edition_selection ids g =
     (case js_sort by_source_page (filter (on_track ids) (ig_pages g)) of
        [] \<Rightarrow> []
      | kept # _ \<Rightarrow>
          let removed = js_sort by_number (map pe_sourcePage (filter (\<lambda>p. \<not> on_track ids p) (ig_pages g)))
          in if removed \<noteq> []
             then [\<lparr>rs_groupId = ig_groupId g, rs_expectedRevision = ig_revision g,
                    rs_keepSourcePage = pe_sourcePage kept, rs_removeSourcePages = removed\<rparr>]
             else [])"

definition block_selections ::
  "(string \<Rightarrow> string list option) \<Rightarrow> (string \<Rightarrow> int option) \<Rightarrow> review_block \<Rightarrow> removal_selection list" where
  "block_selections chosen keep block =
     (if \<not> rb_edition block then concat (map (row_selection keep) (rb_rows block))
      else let ids = map et_id (selectedInternalEditionTracks block chosen)
           in if ids = [] then [] else concat (map (edition_selection ids) (rb_rows block)))"

definition buildInternalRemovalSelections ::
  "review_block list \<Rightarrow> (string \<Rightarrow> string list option) \<Rightarrow> (string \<Rightarrow> int option) \<Rightarrow> removal_selection list" where
  "buildInternalRemovalSelections blocks chosen keep = concat (map (block_selections chosen keep) blocks)"

section \<open>Comparing selections with a plan\<close>

text \<open>The text of a selection, with its fields in the order of the type, which is the order of the backend's answer.\<close>

definition json_selection :: "removal_selection \<Rightarrow> string" where
  "json_selection s =
     ''{'' @ json_string ''groupId'' @ '':'' @ json_string (rs_groupId s)
     @ '','' @ json_string ''expectedRevision'' @ '':'' @ show_int (rs_expectedRevision s)
     @ '','' @ json_string ''keepSourcePage'' @ '':'' @ show_int (rs_keepSourcePage s)
     @ '','' @ json_string ''removeSourcePages'' @ '':'' @ json_list show_int (rs_removeSourcePages s) @ ''}''"

definition normalizedSelections ::
  "(string \<Rightarrow> string \<Rightarrow> int) \<Rightarrow> removal_selection list \<Rightarrow> removal_selection list" where
  "normalizedSelections loc ss =
     js_sort (\<lambda>l r. loc (rs_groupId l) (rs_groupId r))
       (map (\<lambda>s. s\<lparr>rs_removeSourcePages := js_sort by_number (rs_removeSourcePages s)\<rparr>) ss)"

definition selectionsMatchPlan ::
  "(string \<Rightarrow> string \<Rightarrow> int) \<Rightarrow> removal_selection list \<Rightarrow> removal_plan option \<Rightarrow> bool" where
  "selectionsMatchPlan loc ss plan =
     (case plan of
        None \<Rightarrow> False
      | Some p \<Rightarrow> json_list json_selection (normalizedSelections loc ss)
                  = json_list json_selection (normalizedSelections loc (rp_selections p)))"

section \<open>The choices of the dialog\<close>

record removal_choices =
  rc_keepPages :: "(string \<times> int) list"
  rc_tracks :: "(string \<times> string list) list"

definition initial_choices ::
  "(string \<Rightarrow> string \<Rightarrow> int) \<Rightarrow> internal_group list \<Rightarrow> removal_choices" where
  "initial_choices loc groups =
     \<lparr>rc_keepPages = foldl (\<lambda>m g. AList.update (ig_groupId g) (ig_recommendedKeepSourcePage g) m) [] groups,
      rc_tracks = foldl (\<lambda>m b. AList.update (rb_blockId b) [et_id (hd (rb_tracks b))] m) []
        (filter rb_edition (buildInternalReviewBlocks loc groups))\<rparr>"

definition toggleEditionTrack :: "string \<Rightarrow> string \<Rightarrow> string \<Rightarrow> removal_choices \<Rightarrow> removal_choices" where
  "toggleEditionTrack block fallback track c =
     (let selected = or_value (map_of (rc_tracks c) block) [fallback]
      in if track \<notin> set selected then c\<lparr>rc_tracks := AList.update block (selected @ [track]) (rc_tracks c)\<rparr>
         else if length selected = 1 then c
         else c\<lparr>rc_tracks := AList.update block (filter (\<lambda>i. i \<noteq> track) selected) (rc_tracks c)\<rparr>)"

definition keep_page :: "string \<Rightarrow> int \<Rightarrow> removal_choices \<Rightarrow> removal_choices" where
  "keep_page gid page c = c\<lparr>rc_keepPages := AList.update gid page (rc_keepPages c)\<rparr>"

datatype dialog_action = TickTrack string string string | KeepPage string int

fun dialog_step :: "removal_choices \<Rightarrow> dialog_action \<Rightarrow> removal_choices" where
  "dialog_step c (TickTrack block fallback track) = toggleEditionTrack block fallback track c"
| "dialog_step c (KeepPage gid page) = keep_page gid page c"

definition dialog_selections ::
  "(string \<Rightarrow> string \<Rightarrow> int) \<Rightarrow> internal_group list \<Rightarrow> removal_choices \<Rightarrow> removal_selection list" where
  "dialog_selections loc groups c =
     buildInternalRemovalSelections (buildInternalReviewBlocks loc groups) (map_of (rc_tracks c)) (map_of (rc_keepPages c))"

section \<open>Grouping under keys\<close>

lemma push_under_lookup:
  "map_of (foldl (\<lambda>m x. push_under (k x) (v x) m) [] xs) i =
     (if filter (\<lambda>x. k x = i) xs = [] then None else Some (map v (filter (\<lambda>x. k x = i) xs)))"
  by (induction xs rule: rev_induct) (auto simp: push_under_def lookup_update)

lemma push_under_distinct: "distinct (keys m) \<Longrightarrow> distinct (keys (push_under k v m))"
  by (simp add: push_under_def)

lemma distinct_keys_pushes: "distinct (keys m) \<Longrightarrow> distinct (keys (foldl (\<lambda>m x. push_under (k x) (v x) m) m xs))"
  by (induction xs arbitrary: m) (simp_all add: push_under_distinct)

lemma mset_push_under: "mset (concat (vals (push_under k v m))) = add_mset v (mset (concat (vals m)))"
  by (induction m) (auto simp: push_under_def)

lemma mset_pushes:
  "mset (concat (vals (foldl (\<lambda>m x. push_under (k x) (v x) m) m xs))) = mset (concat (vals m)) + mset (map v xs)"
  by (induction xs arbitrary: m) (simp_all add: mset_push_under)

lemma pushes_entry:
  assumes "(i, vs) \<in> set (foldl (\<lambda>m x. push_under (k x) (v x) m) [] xs)"
  shows "vs = map v (filter (\<lambda>x. k x = i) xs)" and "vs \<noteq> []"
proof -
  have "distinct (keys (foldl (\<lambda>m x. push_under (k x) (v x) m) [] xs))"
    by (simp add: distinct_keys_pushes)
  from map_of_entries [OF this assms] show "vs = map v (filter (\<lambda>x. k x = i) xs)" "vs \<noteq> []"
    by (auto simp: push_under_lookup split: if_splits)
qed

section \<open>Blocks hold the groups\<close>

lemma rows_entry:
  assumes "(b, rs) \<in> set (rows_by_block groups)"
  shows "rs = filter (\<lambda>g. ig_blockId g = b) groups" and "rs \<noteq> []"
  using pushes_entry [of b rs ig_blockId "\<lambda>g. g" groups] assms by (simp_all add: rows_by_block_def)

lemma block_of_fields [simp]:
  "rb_blockId (block_of loc b) = fst b" "rb_rows (block_of loc b) = js_sort by_sequence (snd b)"
  by (auto simp: block_of_def Let_def split: prod.split)

lemma block_rows:
  assumes "block \<in> set (buildInternalReviewBlocks loc groups)"
  shows "set (rb_rows block) = {g \<in> set groups. ig_blockId g = rb_blockId block}"
  using assms rows_entry(1) by (fastforce simp: buildInternalReviewBlocks_def)

lemma blocks_distinct: "distinct (map rb_blockId (buildInternalReviewBlocks loc groups))"
proof -
  have "map rb_blockId (buildInternalReviewBlocks loc groups) = keys (rows_by_block groups)"
    by (simp add: buildInternalReviewBlocks_def)
  then show ?thesis by (simp add: rows_by_block_def distinct_keys_pushes)
qed

lemma mset_block_rows: "mset (concat (map rb_rows (buildInternalReviewBlocks loc groups))) = mset groups"
proof -
  have "mset (concat (map rb_rows (map (block_of loc) m))) = mset (concat (vals m))" for m
    by (induction m) simp_all
  then show ?thesis
    using mset_pushes [of ig_blockId "\<lambda>g. g" "[]" groups] by (simp add: buildInternalReviewBlocks_def rows_by_block_def)
qed

section \<open>Tracks\<close>

definition track_id :: "page_evidence \<Rightarrow> string" where
  "track_id p = fst (the (valid_track p))"

definition track_ordinal :: "page_evidence \<Rightarrow> int" where
  "track_ordinal p = snd (the (valid_track p))"

lemma valid_track_Some: "valid_track p \<noteq> None \<Longrightarrow> pe_editionTrackId p = Some (track_id p) \<and> track_id p \<noteq> []"
  by (auto simp: valid_track_def track_id_def split: option.splits js_num.splits if_splits)

lemma scan_row_valid:
  assumes "scan_row seen m ps = (m', False)"
  shows "(\<forall>p \<in> set ps. valid_track p \<noteq> None) \<and> distinct (map track_id ps)
    \<and> (\<forall>p \<in> set ps. track_id p \<notin> set seen)
    \<and> fst m' = foldl (\<lambda>m p. push_under (track_id p) p m) (fst m) ps
    \<and> (\<forall>p \<in> set ps. map_of (snd m') (track_id p) = Some (track_ordinal p))
    \<and> (\<forall>i n. map_of (snd m) i = Some n \<longrightarrow> map_of (snd m') i = Some n)"
  using assms
proof (induction seen m ps rule: scan_row.induct)
  case (2 seen m p ps)
  from 2(2) obtain i n where v: "valid_track p = Some (i, n)" "i \<notin> set seen"
    "map_of (snd m) i = None \<or> map_of (snd m) i = Some n"
    and rest: "scan_row (seen @ [i]) (push_under i p (fst m), AList.update i n (snd m)) ps = (m', False)"
    by (auto split: option.splits if_splits)
  have i: "track_id p = i" "track_ordinal p = n" using v by (simp_all add: track_id_def track_ordinal_def)
  have IH: "(\<forall>p \<in> set ps. valid_track p \<noteq> None) \<and> distinct (map track_id ps)
    \<and> (\<forall>p \<in> set ps. track_id p \<notin> set (seen @ [i]))
    \<and> fst m' = foldl (\<lambda>m p. push_under (track_id p) p m) (push_under i p (fst m)) ps
    \<and> (\<forall>p \<in> set ps. map_of (snd m') (track_id p) = Some (track_ordinal p))
    \<and> (\<forall>j k. map_of (AList.update i n (snd m)) j = Some k \<longrightarrow> map_of (snd m') j = Some k)"
    using 2(1) [OF v(1) refl _ rest] v by auto
  have up: "map_of (AList.update i n (snd m)) i = Some n"
    "map_of (snd m) j = Some k \<Longrightarrow> map_of (AList.update i n (snd m)) j = Some k" for j k
    using v(3) by (auto simp: lookup_update)
  show ?case using IH v i up by auto
qed simp

lemma scan_rows_valid:
  assumes "scan_rows m gs = (m', False)"
  shows "(\<forall>g \<in> set gs. (\<forall>p \<in> set (ig_pages g). valid_track p \<noteq> None) \<and> distinct (map track_id (ig_pages g)))
    \<and> fst m' = foldl (\<lambda>m p. push_under (track_id p) p m) (fst m) (concat (map ig_pages gs))
    \<and> (\<forall>g \<in> set gs. \<forall>p \<in> set (ig_pages g). map_of (snd m') (track_id p) = Some (track_ordinal p))
    \<and> (\<forall>i n. map_of (snd m) i = Some n \<longrightarrow> map_of (snd m') i = Some n)"
  using assms
proof (induction m gs rule: scan_rows.induct)
  case (2 m g gs)
  from 2(2) obtain m1 where r: "scan_row [] m (ig_pages g) = (m1, False)" "scan_rows m1 gs = (m', False)"
    by (auto split: prod.splits if_splits)
  from 2(1) [OF r(1) [symmetric] _ r(2)] scan_row_valid [OF r(1)]
  show ?case by (auto simp: foldl_append)
qed simp

lemma length_set_from: "length (set_from xs) = length xs \<longleftrightarrow> distinct xs"
proof
  assume "length (set_from xs) = length xs"
  then have "card (set xs) = length xs" using distinct_card [OF distinct_set_from, of xs] by simp
  then show "distinct xs" by (rule card_distinct)
qed simp

definition block_pages :: "review_block \<Rightarrow> page_evidence list" where
  "block_pages block = concat (map ig_pages (rb_rows block))"

lemma edition_scan:
  assumes "rb_edition (block_of loc b)"
  obtains m n where "scan_rows ([], []) (rb_rows (block_of loc b)) = ((m, n), False)"
    and "rb_tracks (block_of loc b) = js_sort (by_track loc) (map (track_of (length (rb_rows (block_of loc b))) n) m)"
    and "2 \<le> length m" and "\<forall>t \<in> set (rb_tracks (block_of loc b)). 2 \<le> et_coveredRows t"
    and "distinct (map et_ordinal (rb_tracks (block_of loc b)))"
proof -
  let ?rows = "js_sort by_sequence (snd b)"
  obtain m n i where sc: "scan_rows ([], []) ?rows = ((m, n), i)" by (metis surj_pair)
  from assms have "\<not> (length ?rows < 2 \<or> list_ex (\<lambda>p. valid_track p = None) (concat (map ig_pages ?rows)))"
    by (auto simp: block_of_def Let_def split: if_splits)
  then have ok: "\<not> length ?rows < 2" "\<not> list_ex (\<lambda>p. valid_track p = None) (concat (map ig_pages ?rows))"
    by simp_all
  let ?tr = "js_sort (by_track loc) (map (track_of (length ?rows) n) m)"
  let ?ed = "\<not> i \<and> 2 \<le> length ?tr \<and> list_all (\<lambda>t. 2 \<le> et_coveredRows t) ?tr
    \<and> length (set_from (map et_ordinal ?tr)) = length ?tr"
  have blk: "block_of loc b = \<lparr>rb_blockId = fst b, rb_rows = ?rows, rb_tracks = (if ?ed then ?tr else []), rb_edition = ?ed\<rparr>"
    unfolding block_of_def Let_def by (simp only: sc prod.case ok if_False simp_thms)
  then have ed: "?ed" using assms by simp
  then have tr: "rb_tracks (block_of loc b) = ?tr" using blk by simp
  have "distinct (map et_ordinal ?tr)" using ed length_set_from [of "map et_ordinal ?tr"] by simp
  with ed show ?thesis
    by (intro that [of m n]) (simp_all add: tr sc list_all_iff)
qed

lemma mset_concat_map: "mset (concat (map f xs)) = (\<Sum>x \<in># mset xs. mset (f x))"
  by (induction xs) simp_all

lemma track_of_fields [simp]: "et_id (track_of k n e) = fst e"
  "et_pages (track_of k n e) = js_sort by_number (map pe_sourcePage (snd e))"
  "et_coveredRows (track_of k n e) = int (length (snd e))"
  by (simp_all add: track_of_def Let_def)

lemma edition_block:
  assumes "block \<in> set (buildInternalReviewBlocks loc groups)" and "rb_edition block"
  shows "\<forall>g \<in> set (rb_rows block). (\<forall>p \<in> set (ig_pages g). valid_track p \<noteq> None) \<and> distinct (map track_id (ig_pages g))"
    and "set (map et_id (rb_tracks block)) = track_id ` set (block_pages block)"
    and "distinct (map et_id (rb_tracks block))"
    and "\<forall>t \<in> set (rb_tracks block).
           et_pages t = sort (map pe_sourcePage (filter (\<lambda>p. track_id p = et_id t) (block_pages block)))"
    and "mset (concat (map et_pages (rb_tracks block))) = mset (map pe_sourcePage (block_pages block))"
    and "2 \<le> length (rb_tracks block)" and "distinct (map et_ordinal (rb_tracks block))"
    and "\<forall>t \<in> set (rb_tracks block). 2 \<le> et_coveredRows t"
proof -
  obtain b where b: "block = block_of loc b"
    using assms(1) by (auto simp: buildInternalReviewBlocks_def)
  let ?pages = "block_pages block"
  obtain m n where sc: "scan_rows ([], []) (rb_rows block) = ((m, n), False)"
    and tr: "rb_tracks block = js_sort (by_track loc) (map (track_of (length (rb_rows block)) n) m)"
    and len: "2 \<le> length m" and cov: "\<forall>t \<in> set (rb_tracks block). 2 \<le> et_coveredRows t"
    and ord: "distinct (map et_ordinal (rb_tracks block))"
    using edition_scan [of loc b] assms(2) unfolding b by blast
  note v = scan_rows_valid [OF sc]
  have m: "m = foldl (\<lambda>m p. push_under (track_id p) p m) [] ?pages" using v by (simp add: block_pages_def)
  have entry: "vs = filter (\<lambda>p. track_id p = i) ?pages \<and> vs \<noteq> []" if "(i, vs) \<in> set m" for i vs
    using pushes_entry [of i vs track_id "\<lambda>p. p" ?pages] that by (simp add: m)
  have key: "i \<in> set (keys m) \<longleftrightarrow> i \<in> track_id ` set ?pages" for i
  proof -
    have "i \<notin> set (keys m) \<longleftrightarrow> map_of m i = None" by (simp add: map_of_None_keys)
    also have "\<dots> \<longleftrightarrow> i \<notin> track_id ` set ?pages"
      by (auto simp: m push_under_lookup [of track_id "\<lambda>p. p"] filter_empty_conv)
    finally show ?thesis by blast
  qed
  show "\<forall>g \<in> set (rb_rows block). (\<forall>p \<in> set (ig_pages g). valid_track p \<noteq> None) \<and> distinct (map track_id (ig_pages g))"
    using v by simp
  show "set (map et_id (rb_tracks block)) = track_id ` set ?pages"
    using key by (auto simp: tr image_image)
  have tracks: "mset (rb_tracks block) = image_mset (track_of (length (rb_rows block)) n) (mset m)"
    by (simp add: tr)
  then have "mset (map et_id (rb_tracks block)) = mset (keys m)"
    by (simp add: mset_map multiset.map_comp comp_def)
  moreover have "distinct (keys m)" by (simp add: m distinct_keys_pushes)
  ultimately show "distinct (map et_id (rb_tracks block))" by (metis mset_eq_imp_distinct_iff)
  show "\<forall>t \<in> set (rb_tracks block).
      et_pages t = sort (map pe_sourcePage (filter (\<lambda>p. track_id p = et_id t) ?pages))"
    using entry by (auto simp: tr js_sort_by_number_eq)
  have "mset (concat (map et_pages (rb_tracks block)))
      = mset (concat (map et_pages (map (track_of (length (rb_rows block)) n) m)))"
    unfolding mset_concat_map tracks mset_map ..
  also have "\<dots> = mset (map pe_sourcePage (concat (vals m)))"
    by (induction m) simp_all
  also have "\<dots> = mset (map pe_sourcePage ?pages)"
    using mset_pushes [of track_id "\<lambda>p. p" "[]" ?pages] by (simp add: m mset_map)
  finally show "mset (concat (map et_pages (rb_tracks block))) = mset (map pe_sourcePage ?pages)" .
  show "2 \<le> length (rb_tracks block)" using len by (simp add: tr)
  show "distinct (map et_ordinal (rb_tracks block))" by (fact ord)
  show "\<forall>t \<in> set (rb_tracks block). 2 \<le> et_coveredRows t" by (fact cov)
qed

section \<open>One selection for each group\<close>

definition page_numbers :: "internal_group \<Rightarrow> int list" where
  "page_numbers g = map pe_sourcePage (ig_pages g)"

definition row_removal ::
  "(string \<Rightarrow> string list option) \<Rightarrow> (string \<Rightarrow> int option) \<Rightarrow> review_block \<Rightarrow> internal_group \<Rightarrow> removal_selection list" where
  "row_removal chosen keep block g =
     (if \<not> rb_edition block then row_selection keep g
      else let ids = map et_id (selectedInternalEditionTracks block chosen)
           in if ids = [] then [] else edition_selection ids g)"

lemma block_selections_rows: "block_selections chosen keep block = concat (map (row_removal chosen keep block) (rb_rows block))"
  by (auto simp: block_selections_def row_removal_def [abs_def] Let_def)

lemma sort_Nil [simp]: "sort xs = [] \<longleftrightarrow> xs = []"
  by (metis length_0_conv length_sort)

lemma row_selection_cases:
  "row_selection keep g = []
   \<or> row_selection keep g = [\<lparr>rs_groupId = ig_groupId g, rs_expectedRevision = ig_revision g,
        rs_keepSourcePage = or_value (keep (ig_groupId g)) (ig_recommendedKeepSourcePage g),
        rs_removeSourcePages = sort (filter (\<lambda>p. p \<noteq> or_value (keep (ig_groupId g)) (ig_recommendedKeepSourcePage g)) (page_numbers g))\<rparr>]
     \<and> (\<exists>p \<in> set (page_numbers g). p \<noteq> or_value (keep (ig_groupId g)) (ig_recommendedKeepSourcePage g))"
  by (auto simp: row_selection_def page_numbers_def js_sort_by_number_eq Let_def filter_empty_conv)

lemma edition_selection_cases:
  "edition_selection ids g = []
   \<or> (\<exists>kept. kept \<in> set (ig_pages g) \<and> on_track ids kept
        \<and> (\<exists>p \<in> set (ig_pages g). \<not> on_track ids p)
        \<and> edition_selection ids g = [\<lparr>rs_groupId = ig_groupId g, rs_expectedRevision = ig_revision g,
            rs_keepSourcePage = pe_sourcePage kept,
            rs_removeSourcePages = sort (map pe_sourcePage (filter (\<lambda>p. \<not> on_track ids p) (ig_pages g)))\<rparr>])"
proof (cases "js_sort by_source_page (filter (on_track ids) (ig_pages g))")
  case (Cons kept ks)
  then have "kept \<in> set (js_sort by_source_page (filter (on_track ids) (ig_pages g)))" by simp
  then have "kept \<in> set (ig_pages g)" "on_track ids kept" by simp_all
  with Cons show ?thesis
    by (auto simp: edition_selection_def Let_def js_sort_by_number_eq filter_empty_conv intro!: exI [of _ kept])
qed (simp add: edition_selection_def)

lemma row_removal_one:
  "row_removal chosen keep block g = [] \<or> (\<exists>s. row_removal chosen keep block g = [s] \<and> rs_groupId s = ig_groupId g)"
  using row_selection_cases [of keep g]
    edition_selection_cases [of "map et_id (selectedInternalEditionTracks block chosen)" g]
  by (auto simp: row_removal_def Let_def)

lemma at_most_one_each:
  assumes "\<And>x. f x = [] \<or> (\<exists>s. f x = [s] \<and> key s = gid x)"
  shows "mset (map key (concat (map f xs))) \<subseteq># mset (map gid xs)"
proof (induction xs)
  case (Cons x xs)
  with assms [of x] show ?case by (auto simp: subset_mset.le_iff_add intro: add_mset_add_single)
qed simp

lemma one_selection_per_group:
  "mset (map rs_groupId (buildInternalRemovalSelections (buildInternalReviewBlocks loc groups) chosen keep))
     \<subseteq># mset (map ig_groupId groups)"
proof -
  have "mset (map rs_groupId (concat (map (block_selections chosen keep) bs)))
      \<subseteq># mset (map ig_groupId (concat (map rb_rows bs)))" for bs
  proof (induction bs)
    case (Cons b bs)
    have "mset (map rs_groupId (block_selections chosen keep b)) \<subseteq># mset (map ig_groupId (rb_rows b))"
      unfolding block_selections_rows by (rule at_most_one_each) (rule row_removal_one)
    with Cons show ?case by (simp add: subset_mset.add_mono)
  qed simp
  from this [of "buildInternalReviewBlocks loc groups"] show ?thesis
    by (simp add: buildInternalRemovalSelections_def mset_block_rows flip: mset_map)
      (metis mset_block_rows mset_map)
qed

section \<open>The choices of the dialog stay usable\<close>

text \<open>What the scanner delivers: every group has its own id, no page occurs twice in a group, and the page it
  recommends to keep is one of the group's.\<close>

definition groups_ok :: "internal_group list \<Rightarrow> bool" where
  "groups_ok groups \<longleftrightarrow> distinct (map ig_groupId groups)
     \<and> list_all (\<lambda>g. distinct (page_numbers g) \<and> ig_recommendedKeepSourcePage g \<in> set (page_numbers g)) groups"

text \<open>The radio buttons of a group offer its own pages.\<close>

fun offered :: "internal_group list \<Rightarrow> dialog_action \<Rightarrow> bool" where
  "offered groups (KeepPage gid page) = list_ex (\<lambda>g. ig_groupId g = gid \<and> page \<in> set (page_numbers g)) groups"
| "offered groups (TickTrack _ _ _) = True"

definition all_entries :: "('k \<Rightarrow> 'v \<Rightarrow> bool) \<Rightarrow> ('k \<times> 'v) list \<Rightarrow> bool" where
  "all_entries P m \<longleftrightarrow> (\<forall>k v. map_of m k = Some v \<longrightarrow> P k v)"

lemma all_entries_update: "all_entries P m \<Longrightarrow> P k v \<Longrightarrow> all_entries P (AList.update k v m)"
  by (simp add: all_entries_def lookup_update)

lemma all_entries_updates:
  "\<forall>x \<in> set xs. P (k x) (v x) \<Longrightarrow> all_entries P (foldl (\<lambda>m x. AList.update (k x) (v x) m) [] xs)"
  by (induction xs rule: rev_induct) (simp_all add: all_entries_update, simp add: all_entries_def)

lemma all_entriesD: "all_entries P m \<Longrightarrow> map_of m k = Some v \<Longrightarrow> P k v"
  by (simp add: all_entries_def)

definition page_offered :: "internal_group list \<Rightarrow> string \<Rightarrow> int \<Rightarrow> bool" where
  "page_offered groups gid page \<longleftrightarrow> (\<exists>g \<in> set groups. ig_groupId g = gid \<and> page \<in> set (page_numbers g))"

definition some_tracks :: "string \<Rightarrow> string list \<Rightarrow> bool" where
  "some_tracks b ids \<longleftrightarrow> ids \<noteq> [] \<and> distinct ids"

definition keeps_offered :: "internal_group list \<Rightarrow> removal_choices \<Rightarrow> bool" where
  "keeps_offered groups c \<longleftrightarrow> all_entries (page_offered groups) (rc_keepPages c) \<and> all_entries some_tracks (rc_tracks c)"

lemma keeps_offered_initial:
  assumes "groups_ok groups"
  shows "keeps_offered groups (initial_choices loc groups)"
  unfolding keeps_offered_def initial_choices_def removal_choices.simps
proof (intro conjI all_entries_updates ballI)
  fix g assume "g \<in> set groups"
  with assms show "page_offered groups (ig_groupId g) (ig_recommendedKeepSourcePage g)"
    unfolding page_offered_def groups_ok_def list_all_iff by blast
qed (simp add: some_tracks_def)

lemma keeps_offered_step:
  assumes "keeps_offered groups c" and "offered groups a"
  shows "keeps_offered groups (dialog_step c a)"
proof (cases a)
  case (KeepPage gid page)
  with assms(2) have "page_offered groups gid page" by (simp add: page_offered_def list_ex_iff)
  with assms(1) KeepPage show ?thesis by (simp add: keeps_offered_def keep_page_def all_entries_update)
next
  case (TickTrack b fallback track)
  let ?sel = "or_value (map_of (rc_tracks c) b) [fallback]"
  have sel: "?sel \<noteq> []" "distinct ?sel"
    using assms(1) all_entriesD [of some_tracks "rc_tracks c" b]
    by (cases "map_of (rc_tracks c) b"; simp add: keeps_offered_def some_tracks_def)+
  have more: "filter (\<lambda>i. i \<noteq> track) xs \<noteq> []" if m: "length xs \<noteq> 1" "xs \<noteq> []" "distinct xs" for xs
  proof -
    obtain x y zs where "xs = x # y # zs"
      using m(1,2) by (cases xs; cases "tl xs") auto
    with m(3) show ?thesis by (auto simp: filter_empty_conv)
  qed
  define new where "new = (if track \<notin> set ?sel then ?sel @ [track] else if length ?sel = 1 then ?sel
      else filter (\<lambda>i. i \<noteq> track) ?sel)"
  have new: "some_tracks b new" using sel more [OF _ sel] by (simp add: new_def some_tracks_def)
  have "dialog_step c a = c \<or> dialog_step c a = c\<lparr>rc_tracks := AList.update b new (rc_tracks c)\<rparr>"
    by (simp add: TickTrack toggleEditionTrack_def Let_def new_def)
  with new assms(1) show ?thesis by (auto simp: keeps_offered_def all_entries_update)
qed

lemma keeps_offered_run:
  assumes "groups_ok groups" and "list_all (offered groups) acts"
  shows "keeps_offered groups (foldl dialog_step (initial_choices loc groups) acts)"
  using assms(2)
  by (induction acts rule: rev_induct) (simp_all add: keeps_offered_initial [OF assms(1)] keeps_offered_step)

section \<open>The text of selections can be read back\<close>

lemma json_selection_inj: "json_selection s @ x = json_selection t @ y \<longleftrightarrow> s = t \<and> x = y"
  by (cases s; cases t)
    (auto simp: json_selection_def json_string_inj split_before show_int_plain show_int_inj
      json_list_inj [OF self_delimiting_int])

lemma self_delimiting_selection: "self_delimiting json_selection"
  unfolding self_delimiting_def json_selection_inj by (simp add: json_selection_def)

section \<open>Properties\<close>

definition sample_page :: "int \<Rightarrow> string option \<Rightarrow> rat \<Rightarrow> page_evidence" where
  "sample_page n track ordinal = \<lparr>pe_sourcePage = n, pe_exactSha256 = True, pe_visualSimilarity = 1,
     pe_detailHashDistance = 0, pe_lowInformation = False, pe_editionTrackId = track,
     pe_editionTrackOrdinal = Some (Num ordinal)\<rparr>"

definition sample_row :: "string \<Rightarrow> int \<Rightarrow> page_evidence list \<Rightarrow> internal_group" where
  "sample_row i k ps = \<lparr>ig_groupId = i, ig_blockId = ''b'', ig_sequenceIndex = k, ig_revision = 3, ig_entryId = ''e'',
     ig_galleryId = 7, ig_relation = MatchExact, ig_confidence = 1,
     ig_recommendedKeepSourcePage = pe_sourcePage (hd ps), ig_pages = ps, ig_resolved = False,
     ig_createdAt = [], ig_updatedAt = []\<rparr>"

definition sample_groups :: "internal_group list" where
  "sample_groups =
     [sample_row ''g2'' 2 [sample_page 2 (Some ''t'') 0, sample_page 12 (Some ''u'') 1],
      sample_row ''g1'' 1 [sample_page 1 (Some ''t'') 0, sample_page 11 (Some ''u'') 1]]"

lemma row_selection_spares:
  assumes "sel \<in> set (row_selection keep g)" and "distinct (page_numbers g)"
    and "or_value (keep (ig_groupId g)) (ig_recommendedKeepSourcePage g) \<in> set (page_numbers g)"
  shows "rs_groupId sel = ig_groupId g \<and> rs_expectedRevision sel = ig_revision g
      \<and> rs_keepSourcePage sel \<in> set (page_numbers g) - set (rs_removeSourcePages sel)
      \<and> rs_removeSourcePages sel \<noteq> [] \<and> set (rs_removeSourcePages sel) \<subseteq> set (page_numbers g)
      \<and> distinct (rs_removeSourcePages sel)"
proof -
  let ?k = "or_value (keep (ig_groupId g)) (ig_recommendedKeepSourcePage g)"
  have s: "sel = \<lparr>rs_groupId = ig_groupId g, rs_expectedRevision = ig_revision g, rs_keepSourcePage = ?k,
      rs_removeSourcePages = sort (filter (\<lambda>p. p \<noteq> ?k) (page_numbers g))\<rparr>"
    and more: "\<exists>p \<in> set (page_numbers g). p \<noteq> ?k"
    using row_selection_cases [of keep g] assms(1) by (elim disjE conjE; simp)+
  show ?thesis
    unfolding s using more assms(2,3) by (simp add: filter_empty_conv Bex_def)
qed

lemma edition_selection_spares:
  assumes "sel \<in> set (edition_selection ids g)" and "distinct (page_numbers g)"
  shows "rs_groupId sel = ig_groupId g \<and> rs_expectedRevision sel = ig_revision g
      \<and> rs_keepSourcePage sel \<in> set (page_numbers g) - set (rs_removeSourcePages sel)
      \<and> rs_removeSourcePages sel \<noteq> [] \<and> set (rs_removeSourcePages sel) \<subseteq> set (page_numbers g)
      \<and> distinct (rs_removeSourcePages sel)"
proof -
  obtain kept where kept: "kept \<in> set (ig_pages g)" "on_track ids kept" "\<exists>p \<in> set (ig_pages g). \<not> on_track ids p"
    and s: "sel = \<lparr>rs_groupId = ig_groupId g, rs_expectedRevision = ig_revision g,
        rs_keepSourcePage = pe_sourcePage kept,
        rs_removeSourcePages = sort (map pe_sourcePage (filter (\<lambda>p. \<not> on_track ids p) (ig_pages g)))\<rparr>"
    using edition_selection_cases [of ids g] assms(1) by (elim disjE exE conjE; simp)
  have inj: "inj_on pe_sourcePage (set (ig_pages g))" and dis: "distinct (ig_pages g)"
    using assms(2) by (simp_all add: page_numbers_def distinct_map)
  have "pe_sourcePage kept \<notin> pe_sourcePage ` {p \<in> set (ig_pages g). \<not> on_track ids p}"
    using kept inj by (auto dest: inj_onD)
  moreover have "distinct (map pe_sourcePage (filter (\<lambda>p. \<not> on_track ids p) (ig_pages g)))"
    using assms(2) by (simp add: page_numbers_def distinct_map_filter)
  ultimately show ?thesis
    using kept by (auto simp: s page_numbers_def filter_empty_conv)
qed

text \<open>C6: Removing the repeated pages of an album never removes the last copy. Whatever the user ticks in the
  dialog, every selection sent to the backend is about one group of the review at its current revision, keeps a
  page of that group, and removes others of its pages, each once.\<close>

theorem removal_keeps_a_page:
  assumes "groups_ok groups" and "list_all (offered groups) acts"
    and "sel \<in> set (dialog_selections loc groups (foldl dialog_step (initial_choices loc groups) acts))"
  shows "\<exists>g \<in> set groups. rs_groupId sel = ig_groupId g \<and> rs_expectedRevision sel = ig_revision g
      \<and> rs_keepSourcePage sel \<in> set (page_numbers g) - set (rs_removeSourcePages sel)
      \<and> rs_removeSourcePages sel \<noteq> [] \<and> set (rs_removeSourcePages sel) \<subseteq> set (page_numbers g)
      \<and> distinct (rs_removeSourcePages sel)"
proof -
  let ?c = "foldl dialog_step (initial_choices loc groups) acts"
  obtain block g where blk: "block \<in> set (buildInternalReviewBlocks loc groups)" and "g \<in> set (rb_rows block)"
    and s: "sel \<in> set (row_removal (map_of (rc_tracks ?c)) (map_of (rc_keepPages ?c)) block g)"
    using assms(3) by (auto simp: dialog_selections_def buildInternalRemovalSelections_def block_selections_rows)
  then have g: "g \<in> set groups" by (simp add: block_rows)
  then have dis: "distinct (page_numbers g)" and rec: "ig_recommendedKeepSourcePage g \<in> set (page_numbers g)"
    using assms(1) by (auto simp: groups_ok_def list_all_iff)
  have uniq: "g' = g" if "g' \<in> set groups" "ig_groupId g' = ig_groupId g" for g'
    using assms(1) g that by (auto simp: groups_ok_def distinct_map dest: inj_onD)
  have keep: "or_value (map_of (rc_keepPages ?c) (ig_groupId g)) (ig_recommendedKeepSourcePage g) \<in> set (page_numbers g)"
  proof (cases "map_of (rc_keepPages ?c) (ig_groupId g)")
    case (Some page)
    have "keeps_offered groups ?c" by (rule keeps_offered_run [OF assms(1,2)])
    then have "page_offered groups (ig_groupId g) page"
      unfolding keeps_offered_def using all_entriesD Some by metis
    then obtain g' where "g' \<in> set groups" "ig_groupId g' = ig_groupId g" "page \<in> set (page_numbers g')"
      unfolding page_offered_def by blast
    with uniq [of g'] Some show ?thesis by auto
  qed (simp add: rec)
  show ?thesis
  proof (cases "rb_edition block")
    case False
    with s have "sel \<in> set (row_selection (map_of (rc_keepPages ?c)) g)" by (simp add: row_removal_def)
    from row_selection_spares [OF this dis keep] show ?thesis by (rule bexI [OF _ g])
  next
    case True
    with s have "sel \<in> set (edition_selection (map et_id (selectedInternalEditionTracks block (map_of (rc_tracks ?c)))) g)"
      by (simp add: row_removal_def Let_def split: if_splits)
    from edition_selection_spares [OF this dis] show ?thesis by (rule bexI [OF _ g])
  qed
qed

definition sample_actions :: "dialog_action list" where
  "sample_actions = [TickTrack ''b'' ''t'' ''u'', TickTrack ''b'' ''t'' ''t'', KeepPage ''g1'' 11]"

definition sample_selection :: removal_selection where
  "sample_selection = \<lparr>rs_groupId = ''g1'', rs_expectedRevision = 3, rs_keepSourcePage = 11, rs_removeSourcePages = [1]\<rparr>"

theorem removal_keeps_a_page_witness:
  "sample_selection \<in> set (dialog_selections lex_cmp sample_groups
       (foldl dialog_step (initial_choices lex_cmp sample_groups) sample_actions))
   \<and> (\<exists>g \<in> set sample_groups. rs_keepSourcePage sample_selection \<in> set (page_numbers g) - set (rs_removeSourcePages sample_selection))"
proof -
  have a: "groups_ok sample_groups" and b: "list_all (offered sample_groups) sample_actions" by code_simp+
  have c: "sample_selection \<in> set (dialog_selections lex_cmp sample_groups
       (foldl dialog_step (initial_choices lex_cmp sample_groups) sample_actions))"
    by code_simp
  from removal_keeps_a_page [OF a b c] c show ?thesis by blast
qed

text \<open>An edition block is what it is shown as: its tracks have different ids and ordinals, there are at least two
  of them and each covers at least two rows, no row holds two pages of one track, and the tracks put together are
  exactly the pages of the block.\<close>

theorem edition_tracks_partition:
  assumes "block \<in> set (buildInternalReviewBlocks loc groups)" and "rb_edition block"
  shows "distinct (map et_id (rb_tracks block)) \<and> distinct (map et_ordinal (rb_tracks block))
    \<and> 2 \<le> length (rb_tracks block) \<and> (\<forall>t \<in> set (rb_tracks block). 2 \<le> et_coveredRows t)
    \<and> (\<forall>g \<in> set (rb_rows block). distinct (map pe_editionTrackId (ig_pages g)))
    \<and> mset (concat (map et_pages (rb_tracks block))) = mset (map pe_sourcePage (block_pages block))"
proof -
  note f = edition_block [OF assms]
  have "distinct (map pe_editionTrackId (ig_pages g))" if g: "g \<in> set (rb_rows block)" for g
  proof -
    have "map pe_editionTrackId (ig_pages g) = map Some (map track_id (ig_pages g))"
      using f(1) g valid_track_Some by simp
    moreover have "distinct (map Some (map track_id (ig_pages g)))"
      using f(1) g by (simp add: distinct_map inj_on_def)
    ultimately show ?thesis by (simp only:)
  qed
  with f show ?thesis by simp
qed

definition sample_block :: review_block where
  "sample_block = hd (buildInternalReviewBlocks lex_cmp sample_groups)"

theorem edition_tracks_partition_witness:
  "rb_edition sample_block
   \<and> mset (concat (map et_pages (rb_tracks sample_block))) = mset (map pe_sourcePage (block_pages sample_block))"
proof -
  have "buildInternalReviewBlocks lex_cmp sample_groups \<noteq> []" and e: "rb_edition sample_block" by code_simp+
  then have "sample_block \<in> set (buildInternalReviewBlocks lex_cmp sample_groups)"
    unfolding sample_block_def by (intro hd_in_set)
  from edition_tracks_partition [OF this e] e show ?thesis by blast
qed

text \<open>A removal plan stays in force only for the selections it was made for: the texts compared are equal exactly
  when the normalised selections are, so any change of a kept page, of a removed page, of a revision or of the
  groups makes the plan void.\<close>

theorem plan_matches_selections:
  "selectionsMatchPlan loc ss plan \<longleftrightarrow>
     (case plan of None \<Rightarrow> False
      | Some p \<Rightarrow> normalizedSelections loc ss = normalizedSelections loc (rp_selections p))"
  using json_list_inj [OF self_delimiting_selection, of _ "[]" _ "[]"]
  by (simp add: selectionsMatchPlan_def split: option.split)

text \<open>No group is selected twice for removal.\<close>

theorem groups_selected_once:
  assumes "distinct (map ig_groupId groups)"
  shows "distinct (map rs_groupId (dialog_selections loc groups c))"
proof -
  obtain zs where "mset (map ig_groupId groups) = mset (map rs_groupId (dialog_selections loc groups c) @ zs)"
    using one_selection_per_group by (metis dialog_selections_def mset_append subset_mset.le_iff_add ex_mset)
  with assms mset_eq_imp_distinct_iff show ?thesis by (metis distinct_append)
qed

theorem groups_selected_once_witness:
  "distinct (map ig_groupId sample_groups)
   \<and> distinct (map rs_groupId (dialog_selections lex_cmp sample_groups (initial_choices lex_cmp sample_groups)))"
proof -
  have "distinct (map ig_groupId sample_groups)" by code_simp
  with groups_selected_once show ?thesis by blast
qed

end
