(* ===== verification/DownloadProgress.thy ===== *)
theory DownloadProgress
  imports Projection
begin

text \<open>
  \<^verbatim>\<open>src/src/state/downloadProgress.tsx\<close> and its use in \<^verbatim>\<open>HitomiFeature.tsx\<close>: the store that keeps
  the progress of downloads out of the map of galleries. An event that changes nothing but progress is put in the
  store and its listeners are told within 100 ms; any other event also goes into the map. The facts: what a card
  reads is what it would read if every event went into the map (a refinement), no applied event is left without
  its listeners being told or the timer armed, and the store stays bounded.

  A timer is a flag that says it is armed; its firing is \<open>flush\<close>. Listeners are numbers whose calls are logged. A
  listener is removed once, as React does.
\<close>

section \<open>The store\<close>

record progress_counters =
  pc_received :: nat
  pc_stale :: nat
  pc_progressOnly :: nat
  pc_notifications :: nat

record progress_store =
  ps_values :: "(gallery_id \<times> download_changed_event) list"
  ps_listeners :: "(gallery_id \<times> nat list) list"
  ps_dirty :: "gallery_id list"
  ps_timer :: bool
  ps_counters :: progress_counters
  ps_told :: "(gallery_id \<times> nat) list"

definition new_store :: progress_store where
  "new_store = \<lparr>ps_values = [], ps_listeners = [], ps_dirty = [], ps_timer = False,
     ps_counters = \<lparr>pc_received = 0, pc_stale = 0, pc_progressOnly = 0, pc_notifications = 0\<rparr>, ps_told = []\<rparr>"

definition max_entries :: nat where
  "max_entries = 4096"

definition store_read :: "progress_store \<Rightarrow> gallery_id \<Rightarrow> download_info option \<Rightarrow> download_info option" where
  "store_read s i fallback =
     (case (map_of (ps_values s) i, fallback) of
        (Some v, Some f) \<Rightarrow>
          if ev_entryId v = d_entryId f \<and> download_rev f < ev_revision v then Some (event_download v) else fallback
      | _ \<Rightarrow> fallback)"

text \<open>Whether one of the fields of \<^verbatim>\<open>STRUCTURAL_FIELDS\<close> changes.\<close>

definition structural_change :: "download_info \<Rightarrow> download_changed_event \<Rightarrow> bool" where
  "structural_change d e \<longleftrightarrow>
     d_entryId d \<noteq> ev_entryId e \<or> d_state d \<noteq> ev_state e \<or> d_attempt d \<noteq> ev_attempt e
     \<or> d_errorCode d \<noteq> ev_errorCode e \<or> d_errorMessage d \<noteq> ev_errorMessage e
     \<or> d_reviewKind d \<noteq> ev_reviewKind e \<or> d_reviewId d \<noteq> ev_reviewId e"

definition listeners_of :: "gallery_id \<Rightarrow> progress_store \<Rightarrow> nat list" where
  "listeners_of i s = or_value (map_of (ps_listeners s) i) []"

definition tell :: "gallery_id \<Rightarrow> progress_store \<Rightarrow> progress_store" where
  "tell i s =
     s\<lparr>ps_told := ps_told s @ map (Pair i) (listeners_of i s),
       ps_counters := (ps_counters s)\<lparr>pc_notifications := pc_notifications (ps_counters s) + length (listeners_of i s)\<rparr>\<rparr>"

lemma find_in: "find P xs = Some x \<Longrightarrow> x \<in> set xs \<and> P x"
  by (induction xs) (auto split: if_splits)

text \<open>The loop over the oldest entries nobody listens to.\<close>

function evict :: "gallery_id list \<Rightarrow> (gallery_id \<times> download_changed_event) list \<times> gallery_id list
    \<Rightarrow> (gallery_id \<times> download_changed_event) list \<times> gallery_id list" where
  "evict heard vd =
     (if length (fst vd) \<le> max_entries then vd
      else case find (\<lambda>i. i \<notin> set heard) (keys (fst vd)) of
        None \<Rightarrow> vd
      | Some oldest \<Rightarrow> evict heard (AList.delete oldest (fst vd), set_delete oldest (snd vd)))"
  by pat_completeness auto
termination
proof (relation "measure (\<lambda>(heard, vd). length (fst vd))", goal_cases)
  case (2 heard vd oldest)
  then show ?case using find_in [OF 2(2)] by (simp add: length_delete_less)
qed simp

declare evict.simps [simp del]

definition store_previous :: "progress_store \<Rightarrow> download_changed_event \<Rightarrow> download_info option \<Rightarrow> download_info option" where
  "store_previous s e fallback =
     or_else (store_read s (ev_galleryId e) fallback) (map_option event_download (map_of (ps_values s) (ev_galleryId e)))"

definition store_apply ::
  "download_changed_event \<Rightarrow> download_info option \<Rightarrow> progress_store \<Rightarrow> progress_store \<times> bool \<times> bool" where
  "store_apply e fallback s =
     (let i = ev_galleryId e;
          s0 = s\<lparr>ps_counters := (ps_counters s)\<lparr>pc_received := Suc (pc_received (ps_counters s))\<rparr>\<rparr>;
          previous = store_previous s e fallback
      in if stale_for (ev_entryId e) (ev_revision e) previous
         then (s0\<lparr>ps_counters := (ps_counters s0)\<lparr>pc_stale := Suc (pc_stale (ps_counters s0))\<rparr>\<rparr>, False, False)
         else
           let structural = (case previous of None \<Rightarrow> True | Some d \<Rightarrow> structural_change d e);
               vd = evict (keys (ps_listeners s0)) (AList.delete i (ps_values s0) @ [(i, e)], ps_dirty s0);
               s1 = s0\<lparr>ps_values := fst vd, ps_dirty := snd vd\<rparr>
           in (if structural then tell i (s1\<lparr>ps_dirty := set_delete i (ps_dirty s1)\<rparr>)
               else s1\<lparr>ps_counters := (ps_counters s1)\<lparr>pc_progressOnly := Suc (pc_progressOnly (ps_counters s1))\<rparr>,
                       ps_dirty := set_add i (ps_dirty s1), ps_timer := True\<rparr>,
               True, structural))"

definition store_subscribe :: "gallery_id \<Rightarrow> nat \<Rightarrow> progress_store \<Rightarrow> progress_store" where
  "store_subscribe i l s = s\<lparr>ps_listeners := AList.update i (set_add l (listeners_of i s)) (ps_listeners s)\<rparr>"

definition store_unsubscribe :: "gallery_id \<Rightarrow> nat \<Rightarrow> progress_store \<Rightarrow> progress_store" where
  "store_unsubscribe i l s =
     (let rest = set_delete l (listeners_of i s)
      in s\<lparr>ps_listeners := (if rest = [] then AList.delete i (ps_listeners s)
                            else AList.update i rest (ps_listeners s))\<rparr>)"

definition store_flush :: "progress_store \<Rightarrow> progress_store" where
  "store_flush s = fold tell (ps_dirty s) (s\<lparr>ps_timer := False, ps_dirty := []\<rparr>)"

definition store_clear :: "progress_store \<Rightarrow> progress_store" where
  "store_clear s = s\<lparr>ps_timer := False, ps_dirty := [], ps_values := []\<rparr>"

text \<open>The percentage a card shows.\<close>

definition progress_percent :: "download_info option \<Rightarrow> int" where
  "progress_percent d =
     (let raw = (case d of Some i \<Rightarrow> if d_state i = Completed then 100 else or_value (d_progress i) 0 | None \<Rightarrow> 0)
      in floor (min 100 (max 0 raw)))"

section \<open>The store beside the map\<close>

text \<open>
  The store, the map of galleries as committed, and the map as last rendered, which is the one the event handler
  and the cards read.
\<close>

record progress_view =
  pv_store :: progress_store
  pv_galleries :: gallery_map
  pv_rendered :: gallery_map

datatype progress_action =
    EventArrived download_changed_event
  | EntriesArrived "download_entry list"
  | LibraryArrived library_page
  | Rendered
  | CardSubscribed gallery_id nat
  | CardUnsubscribed gallery_id nat
  | TimerFired

definition download_of :: "gallery_map \<Rightarrow> gallery_id \<Rightarrow> download_info option" where
  "download_of m i = Option.bind (map_of m i) g_download"

definition event_arrived :: "download_changed_event \<Rightarrow> progress_view \<Rightarrow> progress_view" where
  "event_arrived e v =
     (case store_apply e (download_of (pv_rendered v) (ev_galleryId e)) (pv_store v) of
        (s, applied, structural) \<Rightarrow>
          let v' = v\<lparr>pv_store := s\<rparr>
          in if \<not> applied \<or> \<not> structural then v'
             else v'\<lparr>pv_galleries := fst (applyDownloadChanged (pv_galleries v) e)\<rparr>)"

definition entries_arrived :: "download_entry list \<Rightarrow> progress_view \<Rightarrow> progress_view" where
  "entries_arrived es v = v\<lparr>pv_galleries := mergeDownloadEntries (pv_galleries v) es\<rparr>"

definition library_arrived :: "library_page \<Rightarrow> progress_view \<Rightarrow> progress_view" where
  "library_arrived page v = v\<lparr>pv_galleries := fst (mergeDownloadLibraryPage (pv_galleries v) page)\<rparr>"

fun view_step :: "progress_view \<Rightarrow> progress_action \<Rightarrow> progress_view" where
  "view_step v (EventArrived e) = event_arrived e v"
| "view_step v (EntriesArrived es) = entries_arrived es v"
| "view_step v (LibraryArrived page) = library_arrived page v"
| "view_step v Rendered = v\<lparr>pv_rendered := pv_galleries v\<rparr>"
| "view_step v (CardSubscribed i l) = v\<lparr>pv_store := store_subscribe i l (pv_store v)\<rparr>"
| "view_step v (CardUnsubscribed i l) = v\<lparr>pv_store := store_unsubscribe i l (pv_store v)\<rparr>"
| "view_step v TimerFired = v\<lparr>pv_store := store_flush (pv_store v)\<rparr>"

text \<open>What a card shows of a download.\<close>

definition card_download :: "progress_view \<Rightarrow> gallery_id \<Rightarrow> download_info option" where
  "card_download v i = store_read (pv_store v) i (download_of (pv_rendered v) i)"

section \<open>Eviction\<close>

lemma evict_result:
  "evict heard vd = (vs, ds) \<Longrightarrow> (\<forall>i \<in> set heard. map_of vs i = map_of (fst vd) i)
     \<and> (length vs \<le> max_entries \<or> set (keys vs) \<subseteq> set heard)
     \<and> set ds \<subseteq> set (snd vd) \<and> set ds \<inter> set heard = set (snd vd) \<inter> set heard
     \<and> (distinct (keys (fst vd)) \<longrightarrow> distinct (keys vs))"
proof (induction heard vd rule: evict.induct)
  case (1 heard vd)
  show ?case
  proof (cases "length (fst vd) \<le> max_entries")
    case True
    with 1(2) show ?thesis by (simp add: evict.simps [of heard vd])
  next
    case False
    show ?thesis
    proof (cases "find (\<lambda>i. i \<notin> set heard) (keys (fst vd))")
      case None
      with False 1(2) show ?thesis
        by (auto simp: evict.simps [of heard vd] find_None_iff)
    next
      case (Some oldest)
      with False 1(2) have "evict heard (AList.delete oldest (fst vd), set_delete oldest (snd vd)) = (vs, ds)"
        by (simp add: evict.simps [of heard vd])
      from 1(1) [OF False Some this] find_in [OF Some] show ?thesis
        by (auto simp: lookup_delete)
    qed
  qed
qed

section \<open>What each operation touches\<close>

lemma tell_fields [simp]:
  "ps_values (tell i s) = ps_values s" "ps_listeners (tell i s) = ps_listeners s" "ps_dirty (tell i s) = ps_dirty s"
  "ps_timer (tell i s) = ps_timer s" "ps_told (tell i s) = ps_told s @ map (Pair i) (listeners_of i s)"
  by (simp_all add: tell_def)

lemma listeners_tell [simp]: "listeners_of i (tell j s) = listeners_of i s"
  by (simp add: listeners_of_def)

lemma fold_tell_fields [simp]:
  "ps_values (fold tell is s) = ps_values s" "ps_listeners (fold tell is s) = ps_listeners s"
  "ps_dirty (fold tell is s) = ps_dirty s" "ps_timer (fold tell is s) = ps_timer s"
  "ps_told (fold tell is s) = ps_told s @ concat (map (\<lambda>i. map (Pair i) (listeners_of i s)) is)"
  by (induction "is" arbitrary: s) (simp_all add: listeners_of_def)

lemma flush_fields [simp]:
  "ps_values (store_flush s) = ps_values s" "ps_listeners (store_flush s) = ps_listeners s"
  "ps_dirty (store_flush s) = []" "ps_timer (store_flush s) = False"
  "ps_told (store_flush s) = ps_told s @ concat (map (\<lambda>i. map (Pair i) (listeners_of i s)) (ps_dirty s))"
  by (simp_all add: store_flush_def listeners_of_def)

lemma subscribe_fields [simp]:
  "ps_values (store_subscribe i l s) = ps_values s" "ps_values (store_unsubscribe i l s) = ps_values s"
  "ps_dirty (store_subscribe i l s) = ps_dirty s" "ps_dirty (store_unsubscribe i l s) = ps_dirty s"
  "ps_timer (store_subscribe i l s) = ps_timer s" "ps_timer (store_unsubscribe i l s) = ps_timer s"
  by (simp_all add: store_subscribe_def store_unsubscribe_def Let_def)

text \<open>The store after an event: nothing but a counter when it is stale, otherwise the event is its value.\<close>

lemma apply_stale:
  assumes "stale_for (ev_entryId e) (ev_revision e) (store_previous s e fallback)"
  shows "snd (store_apply e fallback s) = (False, False)"
    and "ps_values (fst (store_apply e fallback s)) = ps_values s"
    and "ps_listeners (fst (store_apply e fallback s)) = ps_listeners s"
    and "ps_dirty (fst (store_apply e fallback s)) = ps_dirty s" "ps_timer (fst (store_apply e fallback s)) = ps_timer s"
    and "ps_told (fst (store_apply e fallback s)) = ps_told s"
  using assms by (simp_all add: store_apply_def Let_def store_previous_def store_read_def)

definition is_structural :: "progress_store \<Rightarrow> download_changed_event \<Rightarrow> download_info option \<Rightarrow> bool" where
  "is_structural s e fallback \<longleftrightarrow>
     (case store_previous s e fallback of None \<Rightarrow> True | Some d \<Rightarrow> structural_change d e)"

lemma apply_fresh:
  assumes "\<not> stale_for (ev_entryId e) (ev_revision e) (store_previous s e fallback)"
  shows "snd (store_apply e fallback s) = (True, is_structural s e fallback)"
    and "ps_listeners (fst (store_apply e fallback s)) = ps_listeners s"
    and "(ps_values (fst (store_apply e fallback s)), snd (evict (keys (ps_listeners s))
            (AList.delete (ev_galleryId e) (ps_values s) @ [(ev_galleryId e, e)], ps_dirty s)))
         = evict (keys (ps_listeners s)) (AList.delete (ev_galleryId e) (ps_values s) @ [(ev_galleryId e, e)], ps_dirty s)"
    and "ps_dirty (fst (store_apply e fallback s)) =
         (if is_structural s e fallback then set_delete (ev_galleryId e) else set_add (ev_galleryId e))
           (snd (evict (keys (ps_listeners s)) (AList.delete (ev_galleryId e) (ps_values s) @ [(ev_galleryId e, e)], ps_dirty s)))"
    and "ps_timer (fst (store_apply e fallback s)) = (ps_timer s \<or> \<not> is_structural s e fallback)"
    and "ps_told (fst (store_apply e fallback s)) = ps_told s
         @ (if is_structural s e fallback then map (Pair (ev_galleryId e)) (listeners_of (ev_galleryId e) s) else [])"
proof -
  have p: "store_previous (s\<lparr>ps_counters := c\<rparr>) e fallback = store_previous s e fallback" for c
    by (simp add: store_previous_def store_read_def)
  show "snd (store_apply e fallback s) = (True, is_structural s e fallback)"
    "ps_listeners (fst (store_apply e fallback s)) = ps_listeners s"
    "(ps_values (fst (store_apply e fallback s)), snd (evict (keys (ps_listeners s))
            (AList.delete (ev_galleryId e) (ps_values s) @ [(ev_galleryId e, e)], ps_dirty s)))
         = evict (keys (ps_listeners s)) (AList.delete (ev_galleryId e) (ps_values s) @ [(ev_galleryId e, e)], ps_dirty s)"
    "ps_dirty (fst (store_apply e fallback s)) =
         (if is_structural s e fallback then set_delete (ev_galleryId e) else set_add (ev_galleryId e))
           (snd (evict (keys (ps_listeners s)) (AList.delete (ev_galleryId e) (ps_values s) @ [(ev_galleryId e, e)], ps_dirty s)))"
    "ps_timer (fst (store_apply e fallback s)) = (ps_timer s \<or> \<not> is_structural s e fallback)"
    "ps_told (fst (store_apply e fallback s)) = ps_told s
         @ (if is_structural s e fallback then map (Pair (ev_galleryId e)) (listeners_of (ev_galleryId e) s) else [])"
    using assms unfolding store_apply_def Let_def is_structural_def [symmetric]
    by (simp_all add: p listeners_of_def tell_def)
qed

lemma apply_lookup:
  assumes "\<not> stale_for (ev_entryId e) (ev_revision e) (store_previous s e fallback)" and "i \<in> set (keys (ps_listeners s))"
  shows "map_of (ps_values (fst (store_apply e fallback s))) i = (if i = ev_galleryId e then Some e else map_of (ps_values s) i)"
proof -
  have "map_of (AList.delete (ev_galleryId e) (ps_values s) @ [(ev_galleryId e, e)]) i
      = (if i = ev_galleryId e then Some e else map_of (ps_values s) i)"
    by (simp add: map_add_def lookup_delete split: option.split)
  moreover have "\<forall>j \<in> set (keys (ps_listeners s)). map_of (ps_values (fst (store_apply e fallback s))) j
      = map_of (AList.delete (ev_galleryId e) (ps_values s) @ [(ev_galleryId e, e)]) j"
    using evict_result [OF apply_fresh(3) [OF assms(1), symmetric], THEN conjunct1] by (simp only: fst_conv)
  ultimately show ?thesis using assms(2) by metis
qed

section \<open>The store keeps up with the map\<close>

text \<open>The state of a download without the two times, which events do not carry.\<close>

definition timeless :: "download_info \<Rightarrow> download_info" where
  "timeless d = d\<lparr>d_createdAt := None, d_updatedAt := None\<rparr>"

lemma timeless_rev: "timeless a = timeless b \<Longrightarrow> download_rev a = download_rev b \<and> d_entryId a = d_entryId b"
  by (cases a; cases b) (simp add: timeless_def download_rev_def)

lemma timeless_entry: "timeless (entry_download e c) = timeless (entry_download e c')"
  by (simp add: timeless_def entry_download_def)

text \<open>
  One download: the value in the store, the states rendered and committed, and the state there would be if every
  event went into the map. A revision names one state of the download, \<open>states\<close>.
\<close>

definition named :: "string \<Rightarrow> (int \<Rightarrow> download_info) \<Rightarrow> download_info \<Rightarrow> bool" where
  "named x states d \<longleftrightarrow> d_entryId d = x \<and> timeless d = states (download_rev d)"

definition keeps_up ::
  "string \<Rightarrow> (int \<Rightarrow> download_info) \<Rightarrow> download_changed_event option \<Rightarrow> download_info \<Rightarrow> download_info \<Rightarrow> download_info \<Rightarrow> bool" where
  "keeps_up x states w f m g \<longleftrightarrow>
     named x states f \<and> named x states m \<and> named x states g
     \<and> download_rev f \<le> download_rev m \<and> download_rev m \<le> download_rev g
     \<and> (case w of None \<Rightarrow> download_rev m = download_rev g
        | Some e \<Rightarrow> named x states (event_download e) \<and> ev_revision e \<le> download_rev g
            \<and> (download_rev m < download_rev g \<longrightarrow> ev_revision e = download_rev g))"

text \<open>What the card shows once the committed map is rendered.\<close>

lemma keeps_up_shown:
  assumes "keeps_up x states w f m g"
  shows "timeless (case w of Some e \<Rightarrow> if ev_entryId e = d_entryId m \<and> download_rev m < ev_revision e
      then event_download e else m | None \<Rightarrow> m) = timeless g"
  using assms by (auto simp: keeps_up_def named_def split: option.splits)

lemma keeps_up_entry:
  assumes "keeps_up x states w f m g" and "\<And>c. named x states (entry_download e c)"
  shows "keeps_up x states w f (if de_revision e \<le> download_rev m then m else entry_download e cm)
    (if de_revision e \<le> download_rev g then g else entry_download e cg)"
  using assms by (auto simp: keeps_up_def split: option.splits)

lemma keeps_up_event:
  assumes "keeps_up x states w f m g" and "named x states (event_download e)"
    and "p = (case w of Some v \<Rightarrow> if download_rev f < ev_revision v then event_download v else f | None \<Rightarrow> f)"
    and "m' = (if ev_revision e \<le> download_rev p \<or> \<not> structural \<or> ev_revision e \<le> download_rev m then m else event_download e)"
  shows "keeps_up x states (if ev_revision e \<le> download_rev p then w else Some e) f m'
    (if ev_revision e \<le> download_rev g then g else event_download e)"
  using assms by (auto simp: keeps_up_def split: option.splits if_splits)

lemma download_of_event:
  assumes "download_of m i = Some d"
  shows "download_of (fst (applyDownloadChanged m e)) i =
    Some (if ev_galleryId e = i \<and> \<not> stale_for (ev_entryId e) (ev_revision e) (Some d) then event_download e else d)"
  using assms by (auto simp: download_of_def applyDownloadChanged_def lookup_update bind_eq_Some_conv split: option.split)

lemma download_of_entry:
  assumes "download_of m i = Some d"
  shows "download_of (merge_entry m e) i =
    Some (if de_galleryId e = i \<and> \<not> stale_for (de_entryId e) (de_revision e) (Some d) then entry_download e (Some d) else d)"
  using assms by (auto simp: download_of_def merge_entry_def lookup_update bind_eq_Some_conv Let_def)

definition view_keeps :: "string \<Rightarrow> (int \<Rightarrow> download_info) \<Rightarrow> gallery_id \<Rightarrow> progress_view \<Rightarrow> gallery_map \<Rightarrow> bool" where
  "view_keeps x states i v G \<longleftrightarrow>
     i \<in> set (keys (ps_listeners (pv_store v)))
     \<and> (\<exists>f m g. download_of (pv_rendered v) i = Some f \<and> download_of (pv_galleries v) i = Some m
          \<and> download_of G i = Some g \<and> keeps_up x states (map_of (ps_values (pv_store v)) i) f m g)"

lemma view_keepsI:
  "i \<in> set (keys (ps_listeners (pv_store v))) \<Longrightarrow> download_of (pv_rendered v) i = Some f
   \<Longrightarrow> download_of (pv_galleries v) i = Some m \<Longrightarrow> download_of G i = Some g
   \<Longrightarrow> keeps_up x states (map_of (ps_values (pv_store v)) i) f m g \<Longrightarrow> view_keeps x states i v G"
  unfolding view_keeps_def by blast

lemma view_keepsE:
  assumes "view_keeps x states i v G"
  obtains f m g where "i \<in> set (keys (ps_listeners (pv_store v)))" "download_of (pv_rendered v) i = Some f"
    "download_of (pv_galleries v) i = Some m" "download_of G i = Some g"
    "keeps_up x states (map_of (ps_values (pv_store v)) i) f m g"
  using assms unfolding view_keeps_def by blast

text \<open>The deliveries about one download name its states, and its card stays.\<close>

fun delivers :: "string \<Rightarrow> (int \<Rightarrow> download_info) \<Rightarrow> gallery_id \<Rightarrow> progress_action \<Rightarrow> bool" where
  "delivers x states i (EventArrived e) = (ev_galleryId e \<noteq> i \<or> named x states (event_download e))"
| "delivers x states i (EntriesArrived es) =
     list_all (\<lambda>e. de_galleryId e \<noteq> i \<or> named x states (entry_download e None)) es"
| "delivers x states i (LibraryArrived page) \<longleftrightarrow> distinct (map (\<lambda>item. lg_id (li_gallery item)) (lp_items page))
     \<and> list_all (\<lambda>item. lg_id (li_gallery item) \<noteq> i \<or> named x states (entry_download (li_download item) None)) (lp_items page)"
| "delivers x states i (CardUnsubscribed j l) = (j \<noteq> i)"
| "delivers x states i _ = True"

fun everything_in_map :: "gallery_map \<Rightarrow> progress_action \<Rightarrow> gallery_map" where
  "everything_in_map G (EventArrived e) = fst (applyDownloadChanged G e)"
| "everything_in_map G (EntriesArrived es) = mergeDownloadEntries G es"
| "everything_in_map G (LibraryArrived page) = fst (mergeDownloadLibraryPage G page)"
| "everything_in_map G _ = G"

text \<open>
  A page of the library is taken over without comparing revisions. It is no older than the map when it has of the
  download no revision below the one that has arrived already.
\<close>

definition page_current :: "gallery_id \<Rightarrow> gallery_map \<Rightarrow> progress_action \<Rightarrow> bool" where
  "page_current i G a = (case a of
     LibraryArrived page \<Rightarrow> list_all (\<lambda>item. lg_id (li_gallery item) \<noteq> i
       \<or> (case download_of G i of Some d \<Rightarrow> download_rev d \<le> de_revision (li_download item) | None \<Rightarrow> True)) (lp_items page)
   | _ \<Rightarrow> True)"

fun pages_current :: "gallery_id \<Rightarrow> gallery_map \<Rightarrow> progress_action list \<Rightarrow> bool" where
  "pages_current i G [] = True"
| "pages_current i G (a # as) = (page_current i G a \<and> pages_current i (everything_in_map G a) as)"

lemma named_entry: "named x states (entry_download e c) = named x states (entry_download e c')"
  using timeless_entry [of e c c'] by (simp add: named_def)

lemma entry_view_keeps:
  assumes "view_keeps x states i v G" and "de_galleryId e \<noteq> i \<or> named x states (entry_download e None)"
  shows "view_keeps x states i (v\<lparr>pv_galleries := merge_entry (pv_galleries v) e\<rparr>) (merge_entry G e)"
  using assms(1)
proof (rule view_keepsE)
  fix f m g
  assume h: "i \<in> set (keys (ps_listeners (pv_store v)))" "download_of (pv_rendered v) i = Some f"
    "download_of (pv_galleries v) i = Some m" "download_of G i = Some g"
    and k: "keeps_up x states (map_of (ps_values (pv_store v)) i) f m g"
  have x: "d_entryId m = x" "d_entryId g = x" using k by (simp_all add: keeps_up_def named_def)
  show ?thesis
  proof (cases "de_galleryId e = i")
    case False
    with h k show ?thesis by (intro view_keepsI [of _ _ f m _ g]) (simp_all add: download_of_entry)
  next
    case True
    with assms(2) have n: "named x states (entry_download e c)" for c using named_entry by blast
    then have ex: "de_entryId e = x" by (simp add: named_def)
    from keeps_up_entry [OF k n, of "Some m" "Some g"] h True ex x show ?thesis
      by (intro view_keepsI [of _ _ f _ _ _]) (simp_all add: download_of_entry stale_for_def)
  qed
qed

lemma entries_view_keeps:
  "view_keeps x states i v G \<Longrightarrow> list_all (\<lambda>e. de_galleryId e \<noteq> i \<or> named x states (entry_download e None)) es
   \<Longrightarrow> view_keeps x states i (v\<lparr>pv_galleries := mergeDownloadEntries (pv_galleries v) es\<rparr>) (mergeDownloadEntries G es)"
proof (induction es arbitrary: v G)
  case (Cons e es)
  then have "view_keeps x states i (v\<lparr>pv_galleries := merge_entry (pv_galleries v) e\<rparr>) (merge_entry G e)"
    by (intro entry_view_keeps) simp_all
  from Cons.IH [OF this] Cons.prems show ?case by (simp add: mergeDownloadEntries_def)
qed (simp add: mergeDownloadEntries_def)

lemma download_of_item: "download_of (merge_library_item m item) i = (if lg_id (li_gallery item) = i
    then Some (entry_download (li_download item) (download_of m i)) else download_of m i)"
  by (auto simp: merge_library_item_def Let_def download_of_def lookup_update intro: arg_cong [of _ _ "entry_download _"]
      split: option.split)

lemma download_of_items_other:
  "\<forall>item \<in> set items. lg_id (li_gallery item) \<noteq> i \<Longrightarrow> download_of (foldl merge_library_item m items) i = download_of m i"
  by (induction items arbitrary: m) (simp_all add: download_of_item)

lemma download_of_items:
  "item \<in> set items \<Longrightarrow> lg_id (li_gallery item) = i \<Longrightarrow> distinct (map (\<lambda>item. lg_id (li_gallery item)) items)
   \<Longrightarrow> \<exists>c. download_of (foldl merge_library_item m items) i = Some (entry_download (li_download item) c)"
proof (induction items arbitrary: m)
  case (Cons x items)
  show ?case
  proof (cases "x = item")
    case True
    with Cons.prems have "i \<notin> (\<lambda>item. lg_id (li_gallery item)) ` set items" by simp
    then have "\<forall>y \<in> set items. lg_id (li_gallery y) \<noteq> i" by blast
    with True Cons.prems(2) show ?thesis
      by (intro exI [of _ "download_of m i"]) (simp add: download_of_items_other download_of_item)
  qed (use Cons in simp)
qed simp

lemma page_view_keeps:
  assumes v: "view_keeps x states i v G" and "delivers x states i (LibraryArrived page)" and "page_current i G (LibraryArrived page)"
  shows "view_keeps x states i (view_step v (LibraryArrived page)) (everything_in_map G (LibraryArrived page))"
  using v
proof (rule view_keepsE)
  fix f m g
  assume h: "i \<in> set (keys (ps_listeners (pv_store v)))" "download_of (pv_rendered v) i = Some f"
    "download_of (pv_galleries v) i = Some m" "download_of G i = Some g"
    and k: "keeps_up x states (map_of (ps_values (pv_store v)) i) f m g"
  show ?thesis
  proof (cases "\<exists>item \<in> set (lp_items page). lg_id (li_gallery item) = i")
    case False
    with h k show ?thesis
      by (intro view_keepsI [of _ _ f m _ g]) (auto simp: library_arrived_def mergeDownloadLibraryPage_def download_of_items_other)
  next
    case True
    then obtain item where item: "item \<in> set (lp_items page)" "lg_id (li_gallery item) = i" by blast
    with assms(2) have "named x states (entry_download (li_download item) None)" by (auto simp: list_all_iff)
    then have n: "named x states (entry_download (li_download item) c)" for c using named_entry by blast
    have rv: "download_rev g \<le> de_revision (li_download item)"
      using assms(3) item h(4) by (auto simp: page_current_def list_all_iff)
    from item assms(2) obtain c c' where
      "download_of (fst (mergeDownloadLibraryPage (pv_galleries v) page)) i = Some (entry_download (li_download item) c)"
      "download_of (fst (mergeDownloadLibraryPage G page)) i = Some (entry_download (li_download item) c')"
      using download_of_items [OF item] by (auto simp: mergeDownloadLibraryPage_def) metis
    moreover have "keeps_up x states (map_of (ps_values (pv_store v)) i) f (entry_download (li_download item) c)
        (entry_download (li_download item) c')"
      using k n rv by (auto simp: keeps_up_def split: option.splits)
    ultimately show ?thesis using h by (intro view_keepsI [of _ _ f _ _ _]) (simp_all add: library_arrived_def)
  qed
qed

lemma store_read_event:
  assumes "d_entryId f = x" and "\<And>w. map_of (ps_values s) i = Some w \<Longrightarrow> ev_entryId w = x"
  shows "store_read s i (Some f) = Some (case map_of (ps_values s) i of
      Some v \<Rightarrow> if download_rev f < ev_revision v then event_download v else f | None \<Rightarrow> f)"
  using assms by (auto simp: store_read_def split: option.split)

lemma event_arrived_eq:
  "event_arrived e v = v\<lparr>pv_store := fst (store_apply e (download_of (pv_rendered v) (ev_galleryId e)) (pv_store v)),
     pv_galleries := (if snd (store_apply e (download_of (pv_rendered v) (ev_galleryId e)) (pv_store v)) = (True, True)
       then fst (applyDownloadChanged (pv_galleries v) e) else pv_galleries v)\<rparr>"
  by (auto simp: event_arrived_def Let_def split: prod.split)

lemma apply_heard: "ps_listeners (fst (store_apply e fallback s)) = ps_listeners s"
  using apply_stale(3) apply_fresh(2) by metis

lemma apply_lookup_heard:
  assumes "i \<in> set (keys (ps_listeners s))"
  shows "map_of (ps_values (fst (store_apply e fallback s))) i =
    (if i = ev_galleryId e \<and> \<not> stale_for (ev_entryId e) (ev_revision e) (store_previous s e fallback)
     then Some e else map_of (ps_values s) i)"
  using apply_stale(2) apply_lookup [OF _ assms] by (cases "stale_for (ev_entryId e) (ev_revision e) (store_previous s e fallback)") simp_all

lemma event_view_keeps:
  assumes "view_keeps x states i v G" and "ev_galleryId e \<noteq> i \<or> named x states (event_download e)"
  shows "view_keeps x states i (event_arrived e v) (fst (applyDownloadChanged G e))"
  using assms(1)
proof (rule view_keepsE)
  let ?r = "store_apply e (download_of (pv_rendered v) (ev_galleryId e)) (pv_store v)"
  fix f m g
  assume heard: "i \<in> set (keys (ps_listeners (pv_store v)))"
    and d: "download_of (pv_rendered v) i = Some f" "download_of (pv_galleries v) i = Some m" "download_of G i = Some g"
    and k: "keeps_up x states (map_of (ps_values (pv_store v)) i) f m g"
  let ?w = "map_of (ps_values (pv_store v)) i"
  have x: "d_entryId f = x" "d_entryId m = x" "d_entryId g = x" "\<And>u. ?w = Some u \<Longrightarrow> ev_entryId u = x"
    using k by (auto simp: keeps_up_def named_def)
  show ?thesis
  proof (cases "ev_galleryId e = i")
    case False
    with heard d k show ?thesis
      by (intro view_keepsI [of _ _ f m _ g])
        (simp_all add: event_arrived_eq apply_heard apply_lookup_heard download_of_event)
  next
    case True
    with assms(2) have n: "named x states (event_download e)" and ex: "ev_entryId e = x" by (auto simp: named_def)
    define p where "p = (case ?w of Some u \<Rightarrow> if download_rev f < ev_revision u then event_download u else f | None \<Rightarrow> f)"
    have px: "d_entryId p = x" using x by (auto simp: p_def split: option.split)
    have "store_previous (pv_store v) e (Some f) = Some p"
      using store_read_event [OF x(1,4)] True by (simp add: store_previous_def p_def)
    then have stale: "stale_for (ev_entryId e) (ev_revision e) (store_previous (pv_store v) e (download_of (pv_rendered v) (ev_galleryId e)))
        \<longleftrightarrow> ev_revision e \<le> download_rev p"
      using True d(1) px ex by (simp add: stale_for_def)
    define st where "st \<longleftrightarrow> is_structural (pv_store v) e (download_of (pv_rendered v) (ev_galleryId e))"
    have r: "snd ?r = (True, True) \<longleftrightarrow> \<not> ev_revision e \<le> download_rev p \<and> st"
      using apply_stale(1) [of e "pv_store v"] apply_fresh(1) [of e "pv_store v"] stale by (auto simp: st_def)
    have m: "download_of (pv_galleries (event_arrived e v)) i =
        Some (if ev_revision e \<le> download_rev p \<or> \<not> st \<or> ev_revision e \<le> download_rev m then m else event_download e)"
      using d(2) True x ex r by (auto simp: event_arrived_eq download_of_event stale_for_def)
    have w: "map_of (ps_values (pv_store (event_arrived e v))) i = (if ev_revision e \<le> download_rev p then ?w else Some e)"
      using True stale by (simp add: event_arrived_eq apply_lookup_heard [OF heard])
    show ?thesis
    proof (rule view_keepsI [OF _ _ m])
      show "i \<in> set (keys (ps_listeners (pv_store (event_arrived e v))))"
        using heard by (simp add: event_arrived_eq apply_heard)
      show "download_of (pv_rendered (event_arrived e v)) i = Some f" using d(1) by (simp add: event_arrived_eq)
      show "download_of (fst (applyDownloadChanged G e)) i
          = Some (if ev_revision e \<le> download_rev g then g else event_download e)"
        using d(3) True x ex by (simp add: download_of_event stale_for_def)
    next
      show "keeps_up x states (map_of (ps_values (pv_store (event_arrived e v))) i) f
          (if ev_revision e \<le> download_rev p \<or> \<not> st \<or> ev_revision e \<le> download_rev m then m else event_download e)
          (if ev_revision e \<le> download_rev g then g else event_download e)"
        unfolding w by (rule keeps_up_event [OF k n p_def refl])
    qed
  qed
qed

lemma heard_subscribe:
  "i \<in> set (keys (ps_listeners s)) \<Longrightarrow> i \<in> set (keys (ps_listeners (store_subscribe j l s)))"
  "i \<in> set (keys (ps_listeners s)) \<Longrightarrow> i \<noteq> j \<Longrightarrow> i \<in> set (keys (ps_listeners (store_unsubscribe j l s)))"
  by (simp_all add: store_subscribe_def store_unsubscribe_def Let_def set_keys_update keys_delete del: set_map)

lemma view_keeps_store:
  assumes "view_keeps x states i v G" and "i \<in> set (keys (ps_listeners s))" and "ps_values s = ps_values (pv_store v)"
  shows "view_keeps x states i (v\<lparr>pv_store := s\<rparr>) G"
  using assms by (auto simp: view_keeps_def)

lemma view_keeps_heard: "view_keeps x states i v G \<Longrightarrow> i \<in> set (keys (ps_listeners (pv_store v)))"
  by (simp add: view_keeps_def)

lemma step_view_keeps:
  assumes "view_keeps x states i v G" and "delivers x states i a" and "page_current i G a"
  shows "view_keeps x states i (view_step v a) (everything_in_map G a)"
proof (cases a)
  case (EventArrived e)
  with assms event_view_keeps show ?thesis by simp
next
  case (EntriesArrived es)
  with assms entries_view_keeps show ?thesis by (simp add: entries_arrived_def)
next
  case (LibraryArrived page)
  with assms page_view_keeps show ?thesis by blast
next
  case Rendered
  show ?thesis
    using assms(1)
  proof (rule view_keepsE)
    fix f m g
    assume "i \<in> set (keys (ps_listeners (pv_store v)))" "download_of (pv_galleries v) i = Some m" "download_of G i = Some g"
      and k: "keeps_up x states (map_of (ps_values (pv_store v)) i) f m g"
    moreover from k have "keeps_up x states (map_of (ps_values (pv_store v)) i) m m g" by (simp add: keeps_up_def)
    ultimately show ?thesis using Rendered by (intro view_keepsI [of _ _ m m _ g]) simp_all
  qed
next
  case (CardSubscribed j l)
  with view_keeps_store [OF assms(1) heard_subscribe(1) [OF view_keeps_heard [OF assms(1)]]] show ?thesis by simp
next
  case (CardUnsubscribed j l)
  with assms(2) have "i \<noteq> j" by simp
  from view_keeps_store [OF assms(1) heard_subscribe(2) [OF view_keeps_heard [OF assms(1)] this]] CardUnsubscribed
  show ?thesis by simp
next
  case TimerFired
  with view_keeps_store [OF assms(1), of "store_flush (pv_store v)"] view_keeps_heard [OF assms(1)] show ?thesis by simp
qed

lemma run_view_keeps:
  "view_keeps x states i v G \<Longrightarrow> list_all (delivers x states i) acts \<Longrightarrow> pages_current i G acts
   \<Longrightarrow> view_keeps x states i (foldl view_step v acts) (foldl everything_in_map G acts)"
  by (induction acts arbitrary: v G) (simp_all add: step_view_keeps)

section \<open>Nobody misses progress\<close>

datatype store_op =
    OpApply download_changed_event "download_info option"
  | OpSubscribe gallery_id nat
  | OpUnsubscribe gallery_id nat
  | OpFlush
  | OpClear

fun store_step :: "progress_store \<Rightarrow> store_op \<Rightarrow> progress_store" where
  "store_step s (OpApply e fallback) = fst (store_apply e fallback s)"
| "store_step s (OpSubscribe i l) = store_subscribe i l s"
| "store_step s (OpUnsubscribe i l) = store_unsubscribe i l s"
| "store_step s OpFlush = store_flush s"
| "store_step s OpClear = store_clear s"

text \<open>The listener has been told since, or the download waits for an armed timer.\<close>

definition told_or_due :: "gallery_id \<Rightarrow> nat \<Rightarrow> nat \<Rightarrow> progress_store \<Rightarrow> bool" where
  "told_or_due i l n s \<longleftrightarrow> l \<in> set (listeners_of i s) \<and> n \<le> length (ps_told s)
     \<and> ((i, l) \<in> set (drop n (ps_told s)) \<or> i \<in> set (ps_dirty s) \<and> ps_timer s)"

definition leaves_listener :: "gallery_id \<Rightarrow> store_op \<Rightarrow> bool" where
  "leaves_listener i op = (case op of OpUnsubscribe j _ \<Rightarrow> j \<noteq> i | OpClear \<Rightarrow> False | _ \<Rightarrow> True)"

lemma in_drop_append: "n \<le> length xs \<Longrightarrow> x \<in> set (drop n (xs @ ys)) \<longleftrightarrow> x \<in> set (drop n xs) \<or> x \<in> set ys"
  by auto

lemma listeners_heard: "l \<in> set (listeners_of i s) \<Longrightarrow> i \<in> set (keys (ps_listeners s))"
  using map_of_None_keys [of "ps_listeners s" i] by (cases "map_of (ps_listeners s) i") (simp_all add: listeners_of_def)

lemma apply_dirty:
  assumes "\<not> stale_for (ev_entryId e) (ev_revision e) (store_previous s e fallback)" and "i \<in> set (keys (ps_listeners s))"
  shows "i \<in> set (ps_dirty (fst (store_apply e fallback s))) \<longleftrightarrow>
    (if i = ev_galleryId e then \<not> is_structural s e fallback else i \<in> set (ps_dirty s))"
proof -
  let ?ds = "snd (evict (keys (ps_listeners s)) (AList.delete (ev_galleryId e) (ps_values s) @ [(ev_galleryId e, e)], ps_dirty s))"
  have "set ?ds \<inter> set (keys (ps_listeners s)) = set (ps_dirty s) \<inter> set (keys (ps_listeners s))"
    using evict_result [OF apply_fresh(3) [OF assms(1), symmetric]] by (simp only: snd_conv)
  then have "i \<in> set ?ds \<longleftrightarrow> i \<in> set (ps_dirty s)" using assms(2) by blast
  then show ?thesis by (simp add: apply_fresh(4) [OF assms(1)])
qed

lemma apply_told_or_due:
  assumes "told_or_due i l n s"
  shows "told_or_due i l n (fst (store_apply e fallback s))"
proof (cases "stale_for (ev_entryId e) (ev_revision e) (store_previous s e fallback)")
  case True
  with assms show ?thesis by (simp add: told_or_due_def listeners_of_def apply_stale)
next
  case False
  from assms have l: "l \<in> set (listeners_of i s)" and n: "n \<le> length (ps_told s)"
    and d: "(i, l) \<in> set (drop n (ps_told s)) \<or> i \<in> set (ps_dirty s) \<and> ps_timer s"
    by (simp_all add: told_or_due_def)
  have "l \<in> set (listeners_of i (fst (store_apply e fallback s)))"
    using l by (simp add: listeners_of_def apply_heard)
  moreover have "n \<le> length (ps_told (fst (store_apply e fallback s)))"
    using n by (simp add: apply_fresh(6) [OF False])
  moreover have "(i, l) \<in> set (drop n (ps_told (fst (store_apply e fallback s))))
      \<or> i \<in> set (ps_dirty (fst (store_apply e fallback s))) \<and> ps_timer (fst (store_apply e fallback s))"
    using d l unfolding apply_fresh(6) [OF False] in_drop_append [OF n] apply_dirty [OF False listeners_heard [OF l]]
      apply_fresh(5) [OF False] by auto
  ultimately show ?thesis by (simp add: told_or_due_def)
qed

lemma step_told_or_due:
  assumes "told_or_due i l n s" and "leaves_listener i op"
  shows "told_or_due i l n (store_step s op)"
proof (cases op)
  case (OpApply e fallback)
  with assms(1) show ?thesis by (simp add: apply_told_or_due)
next
  case (OpSubscribe j k)
  have "listeners_of i (store_subscribe j k s) = (if i = j then set_add k (listeners_of i s) else listeners_of i s)"
    by (simp add: store_subscribe_def listeners_of_def lookup_update)
  moreover have "ps_told (store_subscribe j k s) = ps_told s" by (simp add: store_subscribe_def)
  ultimately show ?thesis using assms(1) OpSubscribe by (auto simp: told_or_due_def)
next
  case (OpUnsubscribe j k)
  have "listeners_of i (store_unsubscribe j k s) = listeners_of i s" if "j \<noteq> i"
    using that by (simp add: store_unsubscribe_def listeners_of_def lookup_update lookup_delete Let_def)
  moreover have "ps_told (store_unsubscribe j k s) = ps_told s" by (simp add: store_unsubscribe_def Let_def)
  ultimately show ?thesis using assms OpUnsubscribe by (simp add: told_or_due_def leaves_listener_def)
next
  case OpFlush
  with assms(1) show ?thesis by (auto simp: told_or_due_def listeners_of_def)
next
  case OpClear
  with assms(2) show ?thesis by (simp add: leaves_listener_def)
qed

lemma run_told_or_due:
  "told_or_due i l n s \<Longrightarrow> list_all (leaves_listener i) ops \<Longrightarrow> told_or_due i l n (foldl store_step s ops)"
  by (induction ops arbitrary: s) (simp_all add: step_told_or_due)

section \<open>Properties\<close>

text \<open>C33: A card shows what it would show if every event went into the map of galleries: keeping progress in the store,
  coalescing it and forgetting old values of other downloads changes nothing for a download whose card is on
  screen, in whatever order events, lists of entries, pages of the library, renders and timers come. A revision of the
  download names one state of it. A page of the library, which the map takes over without comparing revisions, is no
  older than what has arrived of the download; with an older one the card goes on showing the newer state of the store,
  and the map would show the older one.\<close>

theorem progress_store_refines_map:
  assumes "download_of galleries i = Some d" and "named x states d" and "list_all (delivers x states i) acts"
    and "pages_current i galleries acts"
  shows "map_option timeless (card_download (view_step (foldl view_step
            \<lparr>pv_store = store_subscribe i l new_store, pv_galleries = galleries, pv_rendered = galleries\<rparr> acts) Rendered) i)
       = map_option timeless (download_of (foldl everything_in_map galleries acts) i)"
proof -
  let ?v = "foldl view_step \<lparr>pv_store = store_subscribe i l new_store, pv_galleries = galleries, pv_rendered = galleries\<rparr> acts"
  have "keeps_up x states None d d d" using assms(2) by (simp add: keeps_up_def)
  then have "view_keeps x states i \<lparr>pv_store = store_subscribe i l new_store, pv_galleries = galleries, pv_rendered = galleries\<rparr> galleries"
    using assms(1) by (intro view_keepsI) (simp_all add: store_subscribe_def new_store_def)
  from run_view_keeps [OF this assms(3,4)] show ?thesis
  proof (rule view_keepsE)
    fix f m g
    assume m: "download_of (pv_galleries ?v) i = Some m" and g: "download_of (foldl everything_in_map galleries acts) i = Some g"
      and k: "keeps_up x states (map_of (ps_values (pv_store ?v)) i) f m g"
    have e: "ev_entryId w = d_entryId m" if "map_of (ps_values (pv_store ?v)) i = Some w" for w
      using k that by (auto simp: keeps_up_def named_def)
    from store_read_event [OF refl e] keeps_up_shown [OF k] m g e show ?thesis
      by (auto simp: card_download_def split: option.splits)
  qed
qed

definition sample_download :: "int \<Rightarrow> rat \<Rightarrow> download_info" where
  "sample_download r p = \<lparr>d_entryId = ''e'', d_revision = Some r, d_state = Downloading, d_progress = Some p,
     d_attempt = None, d_errorCode = None, d_errorMessage = None, d_reviewKind = None, d_reviewId = None,
     d_createdAt = None, d_updatedAt = None\<rparr>"

definition sample_event :: "int \<Rightarrow> rat \<Rightarrow> download_changed_event" where
  "sample_event r p = \<lparr>ev_entryId = ''e'', ev_galleryId = 7, ev_revision = r, ev_state = Downloading,
     ev_progress = Some p, ev_attempt = None, ev_errorCode = None, ev_errorMessage = None, ev_errorRetryable = None,
     ev_reviewKind = None, ev_reviewId = None\<rparr>"

definition sample_library_page :: library_page where
  "sample_library_page = \<lparr>lp_page = 1, lp_totalItems = 1, lp_items =
     [\<lparr>li_gallery = \<lparr>lg_id = 7, lg_title = None, lg_artist = None, lg_artists = JUndef, lg_group = None, lg_pages = None,
        lg_language = None, lg_publishedRank = None, lg_tags = JUndef\<rparr>,
       li_download = (sample_entry ''e'' 7 3 Downloading)\<lparr>de_progress := Some 30\<rparr>\<rparr>]\<rparr>"

definition sample_galleries :: gallery_map where
  "sample_galleries = [(7, (placeholderGallery 7)\<lparr>g_download := Some (sample_download 1 0)\<rparr>)]"

theorem progress_store_refines_map_witness:
  "map_option timeless (card_download (view_step (foldl view_step
       \<lparr>pv_store = store_subscribe 7 0 new_store, pv_galleries = sample_galleries, pv_rendered = sample_galleries\<rparr>
       [EventArrived (sample_event 2 20), LibraryArrived sample_library_page, EventArrived (sample_event 1 0)]) Rendered) 7)
   = map_option timeless (download_of (foldl everything_in_map sample_galleries
       [EventArrived (sample_event 2 20), LibraryArrived sample_library_page, EventArrived (sample_event 1 0)]) 7)"
proof (rule progress_store_refines_map [where d = "sample_download 1 0" and x = "''e''"
        and states = "\<lambda>r. sample_download r (if r = 3 then 30 else if r = 2 then 20 else 0)"])
  show "pages_current 7 sample_galleries
      [EventArrived (sample_event 2 20), LibraryArrived sample_library_page, EventArrived (sample_event 1 0)]"
    by (simp add: page_current_def sample_library_page_def sample_entry_def sample_galleries_def applyDownloadChanged_def
        sample_event_def stale_for_def sample_download_def download_rev_def download_of_def event_download_def)
qed (simp_all add: sample_galleries_def download_of_def named_def timeless_def sample_download_def sample_event_def
      event_download_def download_rev_def sample_library_page_def sample_entry_def entry_download_def)

text \<open>Progress reaches the screen: a listener of a download to which an event has been applied has been told of it
  since, or the download waits for a timer that is armed, whatever happens in between while it stays subscribed;
  and when that timer fires the listener is told.\<close>

theorem applied_progress_told:
  assumes "fst (snd (store_apply e fallback s))" and "l \<in> set (listeners_of (ev_galleryId e) s)"
    and "list_all (leaves_listener (ev_galleryId e)) ops"
  defines "s' \<equiv> foldl store_step (fst (store_apply e fallback s)) ops"
  shows "((ev_galleryId e, l) \<in> set (drop (length (ps_told s)) (ps_told s')) \<or> ps_timer s')
    \<and> (ev_galleryId e, l) \<in> set (drop (length (ps_told s)) (ps_told (store_flush s')))"
proof -
  have f: "\<not> stale_for (ev_entryId e) (ev_revision e) (store_previous s e fallback)"
    using assms(1) apply_stale(1) by force
  have "told_or_due (ev_galleryId e) l (length (ps_told s)) (fst (store_apply e fallback s))"
    using assms(2) apply_dirty [OF f listeners_heard [OF assms(2)]]
    by (auto simp: told_or_due_def listeners_of_def apply_heard apply_fresh(5,6) [OF f])
  from run_told_or_due [OF this assms(3)] have t: "told_or_due (ev_galleryId e) l (length (ps_told s)) s'"
    by (simp add: s'_def)
  moreover have "told_or_due (ev_galleryId e) l (length (ps_told s)) (store_flush s')"
    using step_told_or_due [OF t, of OpFlush] by (simp add: leaves_listener_def)
  ultimately show ?thesis by (auto simp: told_or_due_def)
qed

theorem applied_progress_told_witness:
  "let s = store_subscribe 7 3 new_store; s' = fst (store_apply (sample_event 2 20) (Some (sample_download 1 0)) s)
   in ps_told s' = [] \<and> (7, 3) \<in> set (ps_told (store_flush s'))"
proof -
  let ?s = "store_subscribe 7 3 new_store"
  have "fst (snd (store_apply (sample_event 2 20) (Some (sample_download 1 0)) ?s))"
    "(3 :: nat) \<in> set (listeners_of (ev_galleryId (sample_event 2 20)) ?s)"
    "ps_told (fst (store_apply (sample_event 2 20) (Some (sample_download 1 0)) ?s)) = []"
    "ps_told ?s = []" "ev_galleryId (sample_event 2 20) = 7"
    by code_simp+
  with applied_progress_told [of "sample_event 2 20" "Some (sample_download 1 0)" ?s 3 "[]"] show ?thesis by simp
qed

text \<open>The store stays bounded: after an event is applied it holds at most 4096 values, unless every value belongs to
  a download somebody listens to.\<close>

theorem progress_store_bounded:
  assumes "fst (snd (store_apply e fallback s))"
  shows "length (ps_values (fst (store_apply e fallback s))) \<le> max_entries
    \<or> set (keys (ps_values (fst (store_apply e fallback s)))) \<subseteq> set (keys (ps_listeners s))"
proof -
  have f: "\<not> stale_for (ev_entryId e) (ev_revision e) (store_previous s e fallback)"
    using assms apply_stale(1) by force
  from evict_result [OF apply_fresh(3) [OF f, symmetric]] show ?thesis by (simp only:)
qed

theorem progress_store_bounded_witness:
  "length (ps_values (fst (store_apply (sample_event 2 20) None new_store))) \<le> max_entries
    \<or> set (keys (ps_values (fst (store_apply (sample_event 2 20) None new_store)))) \<subseteq> {}"
proof -
  have "fst (snd (store_apply (sample_event 2 20) None new_store))" "ps_listeners new_store = []" by code_simp+
  with progress_store_bounded [of "sample_event 2 20" None new_store] show ?thesis by simp
qed

end
