(* ===== verification/PreferenceQueue.thy ===== *)
theory PreferenceQueue
  imports JsText
begin

text \<open>
  \<^verbatim>\<open>src/src/app/usePreferenceQueue.ts\<close>: preferences the user changes quickly are merged into one patch
  while a save is running, and saved one after the other, each against the revision just read. The loop is an
  asynchronous function; \<open>qs_point\<close> says at which \<^verbatim>\<open>await\<close> it is suspended, and the answers of the backend,
  refusals and exceptions included, are events. A session belongs to one backend and is disposed of with it. The
  facts: saving is strictly one at a time, no change is lost or reordered, and four answers bring the queue to rest.

  A patch is a list of settings and values; a later value of a setting replaces an earlier one.
\<close>

section \<open>The session\<close>

type_synonym settings_patch = "(string \<times> js_value) list"

definition merge_patch :: "settings_patch \<Rightarrow> settings_patch \<Rightarrow> settings_patch" where
  "merge_patch a b = foldl (\<lambda>m kv. AList.update (fst kv) (snd kv) m) a b"

text \<open>The call of \<^verbatim>\<open>settingsGet\<close> has no argument; the log notes the patch it is made for.\<close>

datatype queue_effect =
    CallSettingsGet settings_patch
  | CallSettingsUpdate settings_patch int
  | QueueToast string

datatype queue_point = AtRest | AwaitingGet settings_patch | AwaitingUpdate settings_patch

datatype get_answer = GotRevision int | GetRefused string | GetThrown

datatype update_answer = Saved | UpdateRefused string | UpdateThrown

record queue_session =
  qs_disposed :: bool
  qs_active :: bool
  qs_queued :: "settings_patch option"
  qs_point :: queue_point
  qs_log :: "queue_effect list"

definition new_queue :: queue_session where
  "new_queue = \<lparr>qs_disposed = False, qs_active = False, qs_queued = None, qs_point = AtRest, qs_log = []\<rparr>"

definition save_failed :: string where
  "save_failed = [CHR 0xEB, CHR 0xAA, CHR 0xA9, CHR 0xEB, CHR 0xA1,
     CHR 0x9D] @ '' '' @ [CHR 0xED, CHR 0x91, CHR 0x9C, CHR 0xEC, CHR 0x8B,
     CHR 0x9C] @ '' '' @ [CHR 0xEC, CHR 0x84, CHR 0xA4, CHR 0xEC, CHR 0xA0, CHR 0x95, CHR 0xEC,
     CHR 0x9D, CHR 0x84] @ '' '' @ [CHR 0xEC, CHR 0xA0, CHR 0x80, CHR 0xEC, CHR 0x9E, CHR 0xA5,
     CHR 0xED, CHR 0x95, CHR 0x98, CHR 0xEC, CHR 0xA7, CHR 0x80] @ '' '' @ [CHR 0xEB, CHR 0xAA,
     CHR 0xBB, CHR 0xED, CHR 0x96, CHR 0x88, CHR 0xEC, CHR 0x8A, CHR 0xB5, CHR 0xEB, CHR 0x8B,
     CHR 0x88, CHR 0xEB, CHR 0x8B, CHR 0xA4] @ ''.''"

definition queue_toast :: "string \<Rightarrow> queue_session \<Rightarrow> queue_session" where
  "queue_toast m s = s\<lparr>qs_log := qs_log s @ [QueueToast (save_failed @ m)]\<rparr>"

text \<open>The head of the loop, up to the next \<^verbatim>\<open>await\<close> or the end of the function.\<close>

definition queue_loop :: "queue_session \<Rightarrow> queue_session" where
  "queue_loop s =
     (case qs_queued s of
        Some desired \<Rightarrow>
          if qs_disposed s then s\<lparr>qs_active := False, qs_point := AtRest\<rparr>
          else s\<lparr>qs_queued := None, qs_point := AwaitingGet desired, qs_log := qs_log s @ [CallSettingsGet desired]\<rparr>
      | None \<Rightarrow> s\<lparr>qs_active := False, qs_point := AtRest\<rparr>)"

definition enqueue :: "settings_patch \<Rightarrow> queue_session \<Rightarrow> queue_session" where
  "enqueue patch s =
     (if qs_disposed s then s
      else let s1 = s\<lparr>qs_queued := Some (merge_patch (or_value (qs_queued s) []) patch)\<rparr>
           in if qs_active s then s1 else queue_loop (s1\<lparr>qs_active := True\<rparr>))"

definition get_answered :: "get_answer \<Rightarrow> queue_session \<Rightarrow> queue_session" where
  "get_answered a s =
     (case qs_point s of
        AwaitingGet desired \<Rightarrow>
          if qs_disposed s then s\<lparr>qs_active := False, qs_point := AtRest\<rparr>
          else (case a of
                  GotRevision r \<Rightarrow> s\<lparr>qs_point := AwaitingUpdate desired, qs_log := qs_log s @ [CallSettingsUpdate desired r]\<rparr>
                | GetRefused m \<Rightarrow> queue_loop (queue_toast (CHR '' '' # m) s)
                | GetThrown \<Rightarrow> queue_loop (queue_toast [] s))
      | _ \<Rightarrow> s)"

definition update_answered :: "update_answer \<Rightarrow> queue_session \<Rightarrow> queue_session" where
  "update_answered a s =
     (case qs_point s of
        AwaitingUpdate desired \<Rightarrow>
          if qs_disposed s then s\<lparr>qs_active := False, qs_point := AtRest\<rparr>
          else (case a of
                  Saved \<Rightarrow> queue_loop s
                | UpdateRefused m \<Rightarrow> queue_loop (queue_toast (CHR '' '' # m) s)
                | UpdateThrown \<Rightarrow> queue_loop (queue_toast [] s))
      | _ \<Rightarrow> s)"

definition dispose_queue :: "queue_session \<Rightarrow> queue_session" where
  "dispose_queue s = s\<lparr>qs_disposed := True, qs_active := False, qs_queued := None\<rparr>"

definition queue_pending :: "queue_session \<Rightarrow> bool" where
  "queue_pending s \<longleftrightarrow> \<not> qs_disposed s \<and> (qs_active s \<or> qs_queued s \<noteq> None)"

datatype queue_event =
    Enqueue settings_patch
  | GetAnswer get_answer
  | UpdateAnswer update_answer
  | Dispose

fun queue_step :: "queue_session \<Rightarrow> queue_event \<Rightarrow> queue_session" where
  "queue_step s (Enqueue p) = enqueue p s"
| "queue_step s (GetAnswer a) = get_answered a s"
| "queue_step s (UpdateAnswer a) = update_answered a s"
| "queue_step s Dispose = dispose_queue s"

section \<open>Patches as maps\<close>

lemma map_of_merge: "map_of (merge_patch a b) = map_of a ++ map_of (rev b)"
proof (induction b rule: rev_induct)
  case (snoc kv b)
  have "map_of (merge_patch a (b @ [kv])) = (map_of (merge_patch a b))(fst kv \<mapsto> snd kv)"
    by (rule ext) (simp add: merge_patch_def lookup_update)
  with snoc show ?case by (auto simp: map_add_def fun_eq_iff split: option.split)
qed (simp add: merge_patch_def)

lemma map_of_rev: "distinct (keys m) \<Longrightarrow> map_of (rev m) = map_of m"
proof (induction m)
  case (Cons kv m)
  then have "fst kv \<notin> dom (map_of m)" by (auto simp: dom_map_of_conv_image_fst)
  with Cons show ?case by (cases kv) (auto simp: map_add_def fun_eq_iff split: option.split)
qed simp

lemma distinct_merge: "distinct (keys a) \<Longrightarrow> distinct (keys (merge_patch a b))"
  unfolding merge_patch_def by (induction b arbitrary: a) simp_all

text \<open>The settings after patches are applied one after the other, as a map.\<close>

definition settings_after :: "settings_patch \<Rightarrow> settings_patch list \<Rightarrow> string \<Rightarrow> js_value option" where
  "settings_after s ps = map_of (foldl merge_patch s ps)"

lemma settings_after_snoc: "settings_after s (ps @ [p]) = settings_after s ps ++ map_of (rev p)"
  by (simp add: settings_after_def map_of_merge)

lemma settings_after_merge:
  assumes "distinct (keys q)"
  shows "settings_after s (ps @ [merge_patch q p]) = settings_after s (ps @ [q]) ++ map_of (rev p)"
  using assms by (simp add: settings_after_snoc map_of_rev distinct_merge map_of_merge)

section \<open>One save at a time\<close>

text \<open>The patches that have been taken out of the queue, in order.\<close>

fun taken_patch :: "queue_effect \<Rightarrow> settings_patch option" where
  "taken_patch (CallSettingsGet p) = Some p"
| "taken_patch _ = None"

fun saved_patch :: "queue_effect \<Rightarrow> settings_patch option" where
  "saved_patch (CallSettingsUpdate p _) = Some p"
| "saved_patch _ = None"

definition taken :: "queue_session \<Rightarrow> settings_patch list" where
  "taken s = List.map_filter taken_patch (qs_log s)"

definition requested :: "queue_session \<Rightarrow> settings_patch list" where
  "requested s = List.map_filter saved_patch (qs_log s)"

definition still_queued :: "queue_session \<Rightarrow> settings_patch list" where
  "still_queued s = (case qs_queued s of None \<Rightarrow> [] | Some q \<Rightarrow> [q])"

fun at_rest :: "queue_point \<Rightarrow> bool" where
  "at_rest AtRest = True"
| "at_rest _ = False"

definition queue_ok :: "queue_session \<Rightarrow> bool" where
  "queue_ok s \<longleftrightarrow> (if qs_disposed s then qs_queued s = None \<and> \<not> qs_active s
     else (qs_active s \<longleftrightarrow> \<not> at_rest (qs_point s)) \<and> (qs_queued s \<noteq> None \<longrightarrow> qs_active s))
     \<and> list_all (\<lambda>q. distinct (keys q)) (still_queued s)"

lemma map_filter_snoc: "List.map_filter f (xs @ [x]) = List.map_filter f xs @ (case f x of Some y \<Rightarrow> [y] | None \<Rightarrow> [])"
  by (induction xs) (auto simp: map_filter_simps split: option.split)

lemma queue_toast_fields [simp]:
  "qs_disposed (queue_toast m s) = qs_disposed s" "qs_active (queue_toast m s) = qs_active s"
  "qs_queued (queue_toast m s) = qs_queued s" "qs_point (queue_toast m s) = qs_point s"
  "taken (queue_toast m s) = taken s" "requested (queue_toast m s) = requested s"
  by (simp_all add: queue_toast_def taken_def requested_def map_filter_snoc)

lemma queue_loop_ok:
  "\<not> qs_disposed s \<Longrightarrow> qs_active s \<Longrightarrow> list_all (\<lambda>q. distinct (keys q)) (still_queued s) \<Longrightarrow> queue_ok (queue_loop s)"
  by (auto simp: queue_ok_def queue_loop_def still_queued_def split: option.splits)

lemma queue_loop_taken: "\<not> qs_disposed s \<Longrightarrow> taken (queue_loop s) @ still_queued (queue_loop s) = taken s @ still_queued s"
  by (auto simp: queue_loop_def still_queued_def taken_def map_filter_snoc split: option.splits)

lemma queue_step_ok:
  assumes "queue_ok s"
  shows "queue_ok (queue_step s e)"
proof (cases e)
  case (Enqueue p)
  have d: "distinct (keys (merge_patch (or_value (qs_queued s) []) p))"
    using assms by (cases "qs_queued s") (simp_all add: queue_ok_def still_queued_def distinct_merge)
  show ?thesis
  proof (cases "qs_disposed s \<or> qs_active s")
    case True
    with assms d Enqueue show ?thesis by (auto simp: enqueue_def queue_ok_def still_queued_def)
  next
    case False
    with d have "queue_ok (queue_loop (s\<lparr>qs_queued := Some (merge_patch (or_value (qs_queued s) []) p), qs_active := True\<rparr>))"
      by (intro queue_loop_ok) (simp_all add: still_queued_def)
    with False Enqueue show ?thesis by (simp add: enqueue_def)
  qed
next
  case (GetAnswer a)
  show ?thesis
  proof (cases "qs_point s")
    case (AwaitingGet d)
    show ?thesis
    proof (cases "qs_disposed s")
      case False
      with assms AwaitingGet have "qs_active s" "list_all (\<lambda>q. distinct (keys q)) (still_queued s)"
        by (simp_all add: queue_ok_def)
      with False have l: "queue_ok (queue_loop (queue_toast m s))" for m
        by (intro queue_loop_ok) (simp_all add: still_queued_def)
      show ?thesis
      proof (cases a)
        case (GotRevision r)
        with assms False AwaitingGet show ?thesis
          by (simp add: GetAnswer get_answered_def queue_ok_def still_queued_def)
      qed (use l False AwaitingGet in \<open>simp_all add: GetAnswer get_answered_def\<close>)
    qed (use assms AwaitingGet GetAnswer in \<open>simp add: get_answered_def queue_ok_def still_queued_def\<close>)
  qed (use assms GetAnswer in \<open>simp_all add: get_answered_def\<close>)
next
  case (UpdateAnswer a)
  show ?thesis
  proof (cases "qs_point s")
    case (AwaitingUpdate d)
    show ?thesis
    proof (cases "qs_disposed s")
      case False
      with assms AwaitingUpdate have "qs_active s" "list_all (\<lambda>q. distinct (keys q)) (still_queued s)"
        by (simp_all add: queue_ok_def)
      with False have "queue_ok (queue_loop (queue_toast m s))" "queue_ok (queue_loop s)" for m
        by (simp_all add: queue_loop_ok still_queued_def)
      with assms False AwaitingUpdate show ?thesis
        by (cases a) (simp_all add: UpdateAnswer update_answered_def)
    qed (use assms AwaitingUpdate UpdateAnswer in \<open>simp add: update_answered_def queue_ok_def still_queued_def\<close>)
  qed (use assms UpdateAnswer in \<open>simp_all add: update_answered_def\<close>)
next
  case Dispose
  then show ?thesis by (simp add: dispose_queue_def queue_ok_def still_queued_def)
qed

interpretation queue: machine queue_step queue_ok new_queue
  by unfold_locales (simp_all add: queue_step_ok, simp add: queue_ok_def new_queue_def still_queued_def)

section \<open>Nothing is lost\<close>

fun asked_patch :: "queue_event \<Rightarrow> settings_patch option" where
  "asked_patch (Enqueue p) = Some p"
| "asked_patch _ = None"

definition asked :: "queue_event list \<Rightarrow> settings_patch list" where
  "asked es = List.map_filter asked_patch es"

lemma asked_snoc: "asked (es @ [e]) = asked es @ (case asked_patch e of Some p \<Rightarrow> [p] | None \<Rightarrow> [])"
  by (simp add: asked_def map_filter_snoc)

lemma disposed_step: "e \<noteq> Dispose \<Longrightarrow> qs_disposed (queue_step s e) = qs_disposed s"
  by (cases e) (auto simp: enqueue_def get_answered_def update_answered_def queue_loop_def queue_toast_def Let_def
      split: queue_point.splits get_answer.splits update_answer.splits option.splits)

lemma not_disposed: "Dispose \<notin> set es \<Longrightarrow> \<not> qs_disposed (foldl queue_step new_queue es)"
proof (induction es rule: rev_induct)
  case (snoc e es)
  then have "e \<noteq> Dispose" "\<not> qs_disposed (foldl queue_step new_queue es)" by auto
  then show ?case by (simp add: disposed_step)
qed (simp add: new_queue_def)

lemma answer_keeps_patches:
  assumes "\<not> qs_disposed s" and "\<forall>p. e \<noteq> Enqueue p" and "e \<noteq> Dispose"
  shows "taken (queue_step s e) @ still_queued (queue_step s e) = taken s @ still_queued s"
proof -
  have toast: "taken (queue_loop (queue_toast m s)) @ still_queued (queue_loop (queue_toast m s)) = taken s @ still_queued s" for m
    using queue_loop_taken [of "queue_toast m s"] assms(1) by (simp add: still_queued_def)
  show ?thesis
  proof (cases e)
    case (GetAnswer a)
    with assms toast show ?thesis
      by (cases "qs_point s"; cases a)
        (simp_all add: get_answered_def, simp_all add: taken_def still_queued_def map_filter_snoc)
  next
    case (UpdateAnswer a)
    with assms toast queue_loop_taken show ?thesis
      by (cases "qs_point s"; cases a) (simp_all add: update_answered_def)
  qed (use assms in auto)
qed

lemma enqueue_keeps_patches:
  assumes "queue_ok s" and "\<not> qs_disposed s"
  shows "settings_after t (taken (enqueue p s) @ still_queued (enqueue p s))
    = settings_after t (taken s @ still_queued s) ++ map_of (rev p)"
proof -
  let ?q = "or_value (qs_queued s) []"
  let ?s = "s\<lparr>qs_queued := Some (merge_patch ?q p), qs_active := True\<rparr>"
  have d: "distinct (keys ?q)"
    using assms(1) by (cases "qs_queued s") (simp_all add: queue_ok_def still_queued_def)
  have tq: "settings_after t (taken s @ [?q]) = settings_after t (taken s @ still_queued s)"
    by (cases "qs_queued s") (simp_all add: still_queued_def settings_after_snoc)
  have "taken (enqueue p s) @ still_queued (enqueue p s) = taken s @ [merge_patch ?q p]"
  proof (cases "qs_active s")
    case True
    with assms(2) show ?thesis by (simp add: enqueue_def taken_def still_queued_def)
  next
    case False
    with assms(2) have "enqueue p s = queue_loop ?s" by (simp add: enqueue_def)
    moreover have "taken ?s = taken s" "still_queued ?s = [merge_patch ?q p]" by (simp_all add: taken_def still_queued_def)
    ultimately show ?thesis using queue_loop_taken [of ?s] assms(2) by simp
  qed
  then show ?thesis by (simp only: settings_after_merge [OF d] tq)
qed

lemma run_keeps_patches:
  "Dispose \<notin> set es \<Longrightarrow>
     settings_after t (taken (foldl queue_step new_queue es) @ still_queued (foldl queue_step new_queue es))
     = settings_after t (asked es)"
proof (induction es rule: rev_induct)
  case (snoc e es)
  let ?s = "foldl queue_step new_queue es"
  have d: "\<not> qs_disposed ?s" using snoc.prems by (simp add: not_disposed)
  show ?case
  proof (cases "\<exists>p. e = Enqueue p")
    case True
    with snoc enqueue_keeps_patches [OF queue.inv_reachable d] show ?thesis
      by (auto simp: asked_snoc settings_after_snoc)
  next
    case False
    then have "asked_patch e = None" by (cases e) auto
    moreover have "e \<noteq> Dispose" using snoc.prems by auto
    ultimately show ?thesis using False snoc answer_keeps_patches [OF d, of e] by (simp add: asked_snoc)
  qed
qed (simp add: asked_def taken_def still_queued_def new_queue_def)

section \<open>A backend that accepts every save\<close>

fun accepting :: "queue_event \<Rightarrow> bool" where
  "accepting (Enqueue p) = True"
| "accepting (GetAnswer a) = (case a of GotRevision _ \<Rightarrow> True | _ \<Rightarrow> False)"
| "accepting (UpdateAnswer a) = (a = Saved)"
| "accepting Dispose = False"

definition being_read :: "queue_session \<Rightarrow> settings_patch list" where
  "being_read s = (case qs_point s of AwaitingGet d \<Rightarrow> [d] | _ \<Rightarrow> [])"

lemma queue_loop_requested:
  assumes "\<not> qs_disposed s"
  shows "requested (queue_loop s) = requested s"
    and "taken s = requested s \<Longrightarrow> taken (queue_loop s) = requested (queue_loop s) @ being_read (queue_loop s)"
  using assms by (auto simp: queue_loop_def requested_def taken_def being_read_def map_filter_snoc split: option.split)

lemma accepting_step:
  assumes "accepting e" and "\<not> qs_disposed s" and "queue_ok s" and "taken s = requested s @ being_read s"
  shows "taken (queue_step s e) = requested (queue_step s e) @ being_read (queue_step s e)"
proof (cases e)
  case (Enqueue p)
  show ?thesis
  proof (cases "qs_active s")
    case True
    with assms Enqueue show ?thesis by (simp add: enqueue_def taken_def requested_def being_read_def)
  next
    case False
    with assms(2,3) have "being_read s = []" by (cases "qs_point s") (simp_all add: queue_ok_def being_read_def)
    with assms(4) have "taken s = requested s" by simp
    with False assms(2) Enqueue queue_loop_requested(2) [of "s\<lparr>qs_queued := Some (merge_patch (or_value (qs_queued s) []) p), qs_active := True\<rparr>"]
    show ?thesis by (simp add: enqueue_def) (simp add: taken_def requested_def)
  qed
next
  case (GetAnswer a)
  with assms show ?thesis
    by (cases "qs_point s"; cases a)
      (simp_all add: get_answered_def, simp_all add: taken_def requested_def being_read_def map_filter_snoc)
next
  case (UpdateAnswer a)
  show ?thesis
  proof (cases "qs_point s")
    case (AwaitingUpdate d)
    with assms have "taken s = requested s" by (simp add: being_read_def)
    with AwaitingUpdate UpdateAnswer assms(1,2) queue_loop_requested(2) [OF assms(2)] show ?thesis
      by (simp add: update_answered_def)
  qed (use assms UpdateAnswer in \<open>simp_all add: update_answered_def\<close>)
qed (use assms in auto)

lemma accepting_run:
  "list_all accepting es \<Longrightarrow> \<not> qs_disposed (foldl queue_step new_queue es)
     \<and> taken (foldl queue_step new_queue es)
       = requested (foldl queue_step new_queue es) @ being_read (foldl queue_step new_queue es)"
proof (induction es rule: rev_induct)
  case (snoc e es)
  then have "e \<noteq> Dispose" by auto
  with snoc accepting_step [OF _ _ queue.inv_reachable] disposed_step show ?case by simp
qed (simp add: new_queue_def taken_def requested_def being_read_def)

section \<open>Coming to rest\<close>

text \<open>An answer to the call that is outstanding.\<close>

definition reply :: "queue_session \<Rightarrow> get_answer \<times> update_answer \<Rightarrow> queue_session" where
  "reply s a =
     (case qs_point s of
        AtRest \<Rightarrow> s
      | AwaitingGet _ \<Rightarrow> queue_step s (GetAnswer (fst a))
      | AwaitingUpdate _ \<Rightarrow> queue_step s (UpdateAnswer (snd a)))"

text \<open>How many answers a session can still wait for when nothing is enqueued any more.\<close>

definition answers_due :: "queue_session \<Rightarrow> nat" where
  "answers_due s = (if qs_disposed s then (case qs_point s of AtRest \<Rightarrow> 0 | _ \<Rightarrow> 1)
     else (case qs_point s of AtRest \<Rightarrow> 0 | AwaitingGet _ \<Rightarrow> 2 | AwaitingUpdate _ \<Rightarrow> 1)
        + (if qs_queued s = None then 0 else 2))"

lemma reply_due:
  assumes "queue_ok s"
  shows "answers_due (reply s a) \<le> answers_due s - 1"
proof (cases "qs_disposed s")
  case True
  then show ?thesis
    by (cases "qs_point s") (simp_all add: reply_def get_answered_def update_answered_def answers_due_def)
next
  case False
  show ?thesis
  proof (cases "qs_point s")
    case AtRest
    with assms False have "qs_queued s = None" by (cases "qs_queued s") (simp_all add: queue_ok_def)
    with AtRest False show ?thesis by (simp add: reply_def answers_due_def)
  next
    case (AwaitingGet d)
    with False show ?thesis
      by (cases "fst a"; cases "qs_queued s")
        (simp_all add: reply_def get_answered_def queue_loop_def answers_due_def queue_toast_def)
  next
    case (AwaitingUpdate d)
    with False show ?thesis
      by (cases "snd a"; cases "qs_queued s")
        (simp_all add: reply_def update_answered_def queue_loop_def answers_due_def queue_toast_def)
  qed
qed

lemma reply_ok: "queue_ok s \<Longrightarrow> queue_ok (reply s a)"
  unfolding reply_def by (auto intro: queue_step_ok simp del: queue_step.simps split: queue_point.split)

lemma replies_due:
  "queue_ok s \<Longrightarrow> queue_ok (foldl reply s as) \<and> answers_due (foldl reply s as) \<le> answers_due s - length as"
proof (induction as arbitrary: s)
  case (Cons a as)
  from Cons.IH [OF reply_ok [OF Cons.prems], of a] reply_due [OF Cons.prems, of a] show ?case by simp linarith
qed simp

section \<open>Properties\<close>

text \<open>No change of a preference is lost or reordered: while the session lives, the patches taken for saving, in their
  order, followed by the patch still queued, set exactly what the changes asked for set, one after the other.\<close>

theorem no_change_lost:
  assumes "Dispose \<notin> set es"
  shows "settings_after t (taken (foldl queue_step new_queue es) @ still_queued (foldl queue_step new_queue es))
    = settings_after t (asked es)"
  using assms by (rule run_keeps_patches)

theorem no_change_lost_witness:
  "settings_after [] (taken (foldl queue_step new_queue [Enqueue [(''a'', JBool True)], Enqueue [(''a'', JBool False)]])
       @ still_queued (foldl queue_step new_queue [Enqueue [(''a'', JBool True)], Enqueue [(''a'', JBool False)]])) ''a''
   = Some (JBool False)"
  using no_change_lost [of "[Enqueue [(''a'', JBool True)], Enqueue [(''a'', JBool False)]]" "[]"]
  by (simp add: asked_def map_filter_simps settings_after_def merge_patch_def)

text \<open>With a backend that accepts the saves, the settings are in the end those of all the changes made, in the order
  they were made: the patches sent to \<^verbatim>\<open>settingsUpdate\<close> set what the changes set.\<close>

theorem preferences_saved:
  assumes "list_all accepting es" and "qs_point (foldl queue_step new_queue es) = AtRest"
  shows "settings_after t (requested (foldl queue_step new_queue es)) = settings_after t (asked es)"
proof -
  let ?s = "foldl queue_step new_queue es"
  have acc: "\<not> qs_disposed ?s" "taken ?s = requested ?s @ being_read ?s"
    using accepting_run [OF assms(1)] by simp_all
  then have "taken ?s = requested ?s" using assms(2) by (simp add: being_read_def)
  moreover have "still_queued ?s = []"
    using queue.inv_reachable [of es] acc(1) assms(2) by (cases "qs_queued ?s") (simp_all add: queue_ok_def still_queued_def)
  moreover have "Dispose \<notin> set es" using assms(1) by (induction es) auto
  ultimately show ?thesis using run_keeps_patches [of es t] by simp
qed

definition sample_changes :: "queue_event list" where
  "sample_changes = [Enqueue [(''a'', JBool True)], Enqueue [(''a'', JBool False)], GetAnswer (GotRevision 4),
     UpdateAnswer Saved, GetAnswer (GotRevision 5), UpdateAnswer Saved]"

theorem preferences_saved_witness:
  "settings_after [] (requested (foldl queue_step new_queue sample_changes)) ''a'' = Some (JBool False)"
proof -
  have "list_all accepting sample_changes" "qs_point (foldl queue_step new_queue sample_changes) = AtRest"
    by code_simp+
  from preferences_saved [OF this, of "[]"] show ?thesis
    by (simp add: sample_changes_def asked_def map_filter_simps settings_after_def merge_patch_def)
qed

text \<open>C36: Saving comes to an end: from any state the session can reach, four answers, whatever they are, bring the loop
  to rest with nothing queued, so \<^verbatim>\<open>isPending\<close> is false.\<close>

theorem queue_comes_to_rest:
  assumes "4 \<le> length as"
  shows "qs_point (foldl reply (foldl queue_step new_queue es) as) = AtRest
    \<and> \<not> queue_pending (foldl reply (foldl queue_step new_queue es) as)"
proof -
  let ?s = "foldl queue_step new_queue es"
  have "answers_due ?s \<le> 4" by (simp add: answers_due_def split: queue_point.split)
  with replies_due [OF queue.inv_reachable, of es as] assms
  have "queue_ok (foldl reply ?s as)" "answers_due (foldl reply ?s as) = 0" by simp_all
  then show ?thesis
    by (auto simp: answers_due_def queue_ok_def queue_pending_def split: queue_point.splits if_splits)
qed

theorem queue_comes_to_rest_witness:
  "qs_point (foldl reply (foldl queue_step new_queue [Enqueue [(''a'', JNull)], Enqueue [(''b'', JNull)]])
     (replicate 4 (GotRevision 1, UpdateThrown))) = AtRest"
  using queue_comes_to_rest [of "replicate 4 (GotRevision 1, UpdateThrown)" "[Enqueue [(''a'', JNull)], Enqueue [(''b'', JNull)]]"]
  by simp

end
