(* ===== verification/AppExit.thy ===== *)
theory AppExit
  imports Prelude
begin

text \<open>
  \<^verbatim>\<open>src/src/app/useAppExit.ts\<close>: the dialog that asks before the program ends while work is running. The hook's
  references and state are one record; the calls of the backend that have not been answered yet are kept as the
  continuations they resume, and the answers, refusals and exceptions are events. React renders between two
  events, so a click sees the state the last event left. The facts: the program is only asked to quit with what the
  dialog has learned about running work, or without it after the user's own second look has failed; and the dialog
  never stays disabled without a call that will enable it again.

  The texts of the toasts are named, not spelled out. What the log notes beside the calls is what the dialog learns.
\<close>

section \<open>Contracts\<close>

text \<open>Of a running job only its presence matters here; it is known by its run id.\<close>

record work_snapshot =
  ws_queriedAt :: string
  ws_workSetFingerprint :: string
  ws_downloads :: int
  ws_recordings :: "int option"
  ws_autoFind :: "string option"
  ws_duplicateScan :: "string option"
  ws_internalDuplicateScan :: "string option"

definition hasActiveWork :: "work_snapshot \<Rightarrow> bool" where
  "hasActiveWork w \<longleftrightarrow> ws_downloads w > 0 \<or> or_value (ws_recordings w) 0 > 0 \<or> ws_autoFind w \<noteq> None
     \<or> ws_duplicateScan w \<noteq> None \<or> ws_internalDuplicateScan w \<noteq> None"

record quit_request =
  qr_expectedWorkSetFingerprint :: string
  qr_confirmActiveWork :: bool
  qr_forceWhenStatusUnknown :: "bool option"

datatype quit_reason = ConfirmationRequired | WorkChanged

record quit_result =
  qt_accepted :: bool
  qt_reason :: "quit_reason option"
  qt_snapshot :: "work_snapshot option"

section \<open>The state of the hook\<close>

datatype exit_toast = BackendMessage string | MinimizeFailed | RecheckFailed | WorkHasChanged | WorkUnconfirmed | QuitFailed

datatype exit_effect =
    CallSnapshot
  | CallMinimize
  | CallQuit quit_request
  | ShowToast exit_toast
  | Opened
  | Learned work_snapshot
  | StatusUnknown bool
  | QuitAccepted

text \<open>A call not answered yet, with what its continuation remembers: the sequence numbers it was made under, and for
  a second look at the work the quit that waits for it.\<close>

datatype exit_call =
    AwaitSnapshot nat bool "nat option"
  | AwaitMinimize nat
  | AwaitQuit nat

record exit_state =
  xe_open :: bool
  xe_snapshot :: "work_snapshot option"
  xe_statusError :: bool
  xe_forceQuitArmed :: bool
  xe_actionPending :: bool
  xe_mounted :: bool
  xe_openRef :: bool
  xe_actionPendingRef :: bool
  xe_snapshotSequence :: nat
  xe_actionSequence :: nat
  xe_calls :: "exit_call list"
  xe_log :: "exit_effect list"

definition initial_exit :: exit_state where
  "initial_exit = \<lparr>xe_open = False, xe_snapshot = None, xe_statusError = False, xe_forceQuitArmed = False,
     xe_actionPending = False, xe_mounted = False, xe_openRef = False, xe_actionPendingRef = False,
     xe_snapshotSequence = 0, xe_actionSequence = 0, xe_calls = [], xe_log = []\<rparr>"

definition log_exit :: "exit_effect \<Rightarrow> exit_state \<Rightarrow> exit_state" where
  "log_exit e s = s\<lparr>xe_log := xe_log s @ [e]\<rparr>"

definition mount :: "exit_state \<Rightarrow> exit_state" where
  "mount s = s\<lparr>xe_mounted := True, xe_open := False, xe_actionPending := False\<rparr>"

definition unmount :: "exit_state \<Rightarrow> exit_state" where
  "unmount s = s\<lparr>xe_mounted := False, xe_openRef := False, xe_actionPendingRef := False,
     xe_snapshotSequence := Suc (xe_snapshotSequence s), xe_actionSequence := Suc (xe_actionSequence s)\<rparr>"

definition refreshSnapshot :: "bool \<Rightarrow> nat option \<Rightarrow> exit_state \<Rightarrow> exit_state" where
  "refreshSnapshot arm quit s =
     (let n = Suc (xe_snapshotSequence s)
      in log_exit CallSnapshot (s\<lparr>xe_snapshotSequence := n, xe_calls := xe_calls s @ [AwaitSnapshot n arm quit]\<rparr>))"

definition openExitConfirm :: "exit_state \<Rightarrow> exit_state" where
  "openExitConfirm s =
     (if \<not> xe_mounted s \<or> xe_openRef s \<or> xe_actionPendingRef s then s
      else refreshSnapshot False None (log_exit Opened
             (s\<lparr>xe_openRef := True, xe_snapshot := None, xe_statusError := False, xe_forceQuitArmed := False,
                xe_actionPendingRef := False, xe_actionPending := False, xe_open := True\<rparr>)))"

definition closeExitConfirm :: "exit_state \<Rightarrow> exit_state" where
  "closeExitConfirm s =
     (if \<not> xe_mounted s \<or> xe_actionPendingRef s then s
      else s\<lparr>xe_snapshotSequence := Suc (xe_snapshotSequence s), xe_openRef := False, xe_open := False\<rparr>)"

definition setStatusUnavailable :: "exit_state \<Rightarrow> exit_state" where
  "setStatusUnavailable s = log_exit (StatusUnknown False)
     (s\<lparr>xe_snapshotSequence := Suc (xe_snapshotSequence s), xe_snapshot := None, xe_statusError := True,
        xe_forceQuitArmed := False\<rparr>)"

definition finishAction :: "exit_state \<Rightarrow> exit_state" where
  "finishAction s = s\<lparr>xe_actionPendingRef := False, xe_actionPending := False\<rparr>"

definition unavailable_code :: string where
  "unavailable_code = ''APP_ACTIVE_WORK_STATUS_UNAVAILABLE''"

text \<open>The common end of a refused action.\<close>

definition action_refused :: "string \<Rightarrow> string \<Rightarrow> exit_state \<Rightarrow> exit_state" where
  "action_refused code message s =
     log_exit (ShowToast (BackendMessage message))
       (finishAction (if code = unavailable_code then setStatusUnavailable s else s))"

definition snapshot_current :: "nat \<Rightarrow> exit_state \<Rightarrow> bool" where
  "snapshot_current n s \<longleftrightarrow> xe_mounted s \<and> xe_openRef s \<and> n = xe_snapshotSequence s"

definition action_current :: "nat \<Rightarrow> exit_state \<Rightarrow> bool" where
  "action_current n s \<longleftrightarrow> xe_mounted s \<and> xe_openRef s \<and> n = xe_actionSequence s"

section \<open>Clicks\<close>

definition onMinimizeToTray :: "exit_state \<Rightarrow> exit_state" where
  "onMinimizeToTray s =
     (if \<not> xe_mounted s \<or> \<not> xe_openRef s \<or> xe_actionPendingRef s then s
      else let n = Suc (xe_actionSequence s)
           in log_exit CallMinimize (s\<lparr>xe_actionPendingRef := True, xe_actionPending := True, xe_actionSequence := n,
                xe_calls := xe_calls s @ [AwaitMinimize n]\<rparr>))"

definition quit_request_for :: "work_snapshot option \<Rightarrow> quit_request" where
  "quit_request_for snapshot =
     (case snapshot of
        Some w \<Rightarrow> \<lparr>qr_expectedWorkSetFingerprint = ws_workSetFingerprint w, qr_confirmActiveWork = hasActiveWork w,
                   qr_forceWhenStatusUnknown = None\<rparr>
      | None \<Rightarrow> \<lparr>qr_expectedWorkSetFingerprint = [], qr_confirmActiveWork = True, qr_forceWhenStatusUnknown = Some True\<rparr>)"

definition onQuit :: "exit_state \<Rightarrow> exit_state" where
  "onQuit s =
     (if \<not> xe_mounted s \<or> \<not> xe_openRef s \<or> xe_actionPendingRef s then s
      else if xe_snapshot s = None \<and> \<not> xe_statusError s then s
      else let n = Suc (xe_actionSequence s);
               s1 = s\<lparr>xe_actionPendingRef := True, xe_actionPending := True, xe_actionSequence := n\<rparr>
           in if xe_snapshot s = None \<and> \<not> xe_forceQuitArmed s then refreshSnapshot True (Some n) s1
              else log_exit (CallQuit (quit_request_for (xe_snapshot s))) (s1\<lparr>xe_calls := xe_calls s1 @ [AwaitQuit n]\<rparr>))"

section \<open>Answers\<close>

text \<open>An answer to a look at the running work; a refusal and an exception count the same.\<close>

definition snapshot_answered :: "nat \<Rightarrow> bool \<Rightarrow> work_snapshot option \<Rightarrow> exit_state \<Rightarrow> exit_state \<times> bool" where
  "snapshot_answered n arm answer s =
     (if \<not> snapshot_current n s then (s, False)
      else case answer of
        Some w \<Rightarrow> (log_exit (Learned w) (s\<lparr>xe_snapshot := Some w, xe_statusError := False, xe_forceQuitArmed := False\<rparr>), True)
      | None \<Rightarrow> (log_exit (StatusUnknown arm) (s\<lparr>xe_snapshot := None, xe_statusError := True, xe_forceQuitArmed := arm\<rparr>), False))"

text \<open>What the quit does that waited for it.\<close>

definition quit_rechecked :: "nat \<Rightarrow> exit_state \<times> bool \<Rightarrow> exit_state" where
  "quit_rechecked n r =
     (case r of (s, refreshed) \<Rightarrow>
        if \<not> action_current n s then s
        else if refreshed then finishAction s else log_exit (ShowToast RecheckFailed) (finishAction s))"

datatype action_answer = ActionOk | ActionRefused string string | ActionThrown

definition minimize_answered :: "nat \<Rightarrow> action_answer \<Rightarrow> exit_state \<Rightarrow> exit_state" where
  "minimize_answered n answer s =
     (if \<not> action_current n s then s
      else case answer of
        ActionOk \<Rightarrow> (finishAction s)\<lparr>xe_snapshotSequence := Suc (xe_snapshotSequence s), xe_openRef := False, xe_open := False\<rparr>
      | ActionRefused code message \<Rightarrow> action_refused code message s
      | ActionThrown \<Rightarrow> log_exit (ShowToast MinimizeFailed) (finishAction s))"

datatype quit_answer = QuitAnswered quit_result | QuitRefused string string | QuitThrown

definition quit_declined :: "quit_result \<Rightarrow> exit_state \<Rightarrow> exit_state" where
  "quit_declined r s =
     log_exit (ShowToast (if qt_reason r = Some WorkChanged then WorkHasChanged else WorkUnconfirmed))
       (finishAction (case qt_snapshot r of
          Some w \<Rightarrow> log_exit (Learned w) (s\<lparr>xe_snapshot := Some w, xe_statusError := False, xe_forceQuitArmed := False\<rparr>)
        | None \<Rightarrow> s))"

definition quit_answered :: "nat \<Rightarrow> quit_answer \<Rightarrow> exit_state \<Rightarrow> exit_state" where
  "quit_answered n answer s =
     (if \<not> action_current n s then s
      else case answer of
        QuitAnswered r \<Rightarrow> if qt_accepted r then log_exit QuitAccepted s else quit_declined r s
      | QuitRefused code message \<Rightarrow> action_refused code message s
      | QuitThrown \<Rightarrow> log_exit (ShowToast QuitFailed) (finishAction s))"

section \<open>Events\<close>

datatype exit_event =
    Mount
  | Unmount
  | ExitRequested
  | CloseClicked
  | MinimizeClicked
  | QuitClicked
  | SnapshotArrived nat bool "nat option" "work_snapshot option"
  | MinimizeArrived nat action_answer
  | QuitArrived nat quit_answer

text \<open>The effect runs again only after its cleanup, and an answer arrives only for a call that is outstanding.\<close>

definition answered :: "exit_call \<Rightarrow> (exit_state \<Rightarrow> exit_state) \<Rightarrow> exit_state \<Rightarrow> exit_state" where
  "answered call continue s =
     (if call \<in> set (xe_calls s) then continue (s\<lparr>xe_calls := remove1 call (xe_calls s)\<rparr>) else s)"

fun exit_step :: "exit_state \<Rightarrow> exit_event \<Rightarrow> exit_state" where
  "exit_step s Mount = (if xe_mounted s then s else mount s)"
| "exit_step s Unmount = unmount s"
| "exit_step s ExitRequested = openExitConfirm s"
| "exit_step s CloseClicked = closeExitConfirm s"
| "exit_step s MinimizeClicked = onMinimizeToTray s"
| "exit_step s QuitClicked = onQuit s"
| "exit_step s (SnapshotArrived n arm quit answer) =
     answered (AwaitSnapshot n arm quit)
       (\<lambda>s. let r = snapshot_answered n arm answer s
            in case quit of None \<Rightarrow> fst r | Some q \<Rightarrow> quit_rechecked q r) s"
| "exit_step s (MinimizeArrived n answer) = answered (AwaitMinimize n) (minimize_answered n answer) s"
| "exit_step s (QuitArrived n answer) = answered (AwaitQuit n) (quit_answered n answer) s"

section \<open>What the dialog knows\<close>

text \<open>The part of the log since the dialog was last opened.\<close>

definition since_open :: "exit_effect list \<Rightarrow> exit_effect list" where
  "since_open es = rev (takeWhile (\<lambda>e. e \<noteq> Opened) (rev es))"

lemma since_open_snoc: "since_open (es @ [e]) = (if e = Opened then [] else since_open es @ [e])"
  by (simp add: since_open_def)

text \<open>A quit the dialog may ask for after what it has learned.\<close>

definition informed :: "exit_effect list \<Rightarrow> quit_request \<Rightarrow> bool" where
  "informed es r \<longleftrightarrow>
     (if qr_forceWhenStatusUnknown r = Some True
      then StatusUnknown True \<in> set es \<and> r = quit_request_for None
      else \<exists>w. Learned w \<in> set es \<and> r = quit_request_for (Some w))"

text \<open>Every quit in a log was informed by what came before it since the dialog was opened.\<close>

definition quits_informed :: "exit_effect list \<Rightarrow> bool" where
  "quits_informed es \<longleftrightarrow> (\<forall>n < length es. \<forall>r. es ! n = CallQuit r \<longrightarrow> informed (since_open (take n es)) r)"

lemma quits_informed_snoc:
  "quits_informed (es @ [e]) \<longleftrightarrow> quits_informed es \<and> (\<forall>r. e = CallQuit r \<longrightarrow> informed (since_open es) r)"
  by (auto simp: quits_informed_def less_Suc_eq nth_append)

lemma more_logged:
  "quits_informed (es @ a # b # xs) = quits_informed ((es @ [a]) @ b # xs)"
  "since_open (es @ a # b # xs) = since_open ((es @ [a]) @ b # xs)"
  by simp_all

definition knows :: "exit_state \<Rightarrow> bool" where
  "knows s \<longleftrightarrow> quits_informed (xe_log s)
     \<and> (xe_openRef s \<longrightarrow>
          (case xe_snapshot s of Some w \<Rightarrow> Learned w \<in> set (since_open (xe_log s)) | None \<Rightarrow> True)
          \<and> (xe_forceQuitArmed s \<longrightarrow> StatusUnknown True \<in> set (since_open (xe_log s))))"

text \<open>The dialog is disabled only while a call is outstanding whose answer ends that, or while the program quits.\<close>

definition ends_action :: "nat \<Rightarrow> exit_call \<Rightarrow> bool" where
  "ends_action n c \<longleftrightarrow> (case c of AwaitMinimize k \<Rightarrow> k = n | AwaitQuit k \<Rightarrow> k = n | AwaitSnapshot _ _ q \<Rightarrow> q = Some n)"

definition enabled_again :: "exit_state \<Rightarrow> bool" where
  "enabled_again s \<longleftrightarrow>
     (xe_actionPendingRef s \<longrightarrow> xe_mounted s \<and> xe_openRef s
        \<and> (QuitAccepted \<in> set (xe_log s) \<or> list_ex (ends_action (xe_actionSequence s)) (xe_calls s)))
     \<and> (xe_mounted s \<longrightarrow> (xe_actionPending s \<longleftrightarrow> xe_actionPendingRef s) \<and> (xe_open s \<longleftrightarrow> xe_openRef s))
     \<and> (xe_openRef s \<longrightarrow> xe_mounted s)"

lemmas exit_ops = mount_def unmount_def refreshSnapshot_def openExitConfirm_def closeExitConfirm_def setStatusUnavailable_def
  finishAction_def action_refused_def onMinimizeToTray_def onQuit_def snapshot_answered_def quit_rechecked_def
  minimize_answered_def quit_declined_def quit_answered_def log_exit_def snapshot_current_def action_current_def

lemma knows_logged:
  assumes "knows s" and "e \<noteq> Opened" and "\<forall>r. e \<noteq> CallQuit r"
  shows "knows (log_exit e s)"
  using assms by (auto simp: knows_def log_exit_def quits_informed_snoc since_open_snoc split: option.split)

lemma knows_same:
  assumes "knows s" and "xe_log s' = xe_log s" and "xe_openRef s' = xe_openRef s"
    and "xe_snapshot s' = xe_snapshot s" and "xe_forceQuitArmed s' = xe_forceQuitArmed s"
  shows "knows s'"
  using assms(1) unfolding knows_def assms(2-5) .

lemma knows_closed: "knows s \<Longrightarrow> xe_log s' = xe_log s \<Longrightarrow> \<not> xe_openRef s' \<Longrightarrow> knows s'"
  by (simp add: knows_def)

lemma knows_learned:
  "knows s \<Longrightarrow> knows (log_exit (Learned w) (s\<lparr>xe_snapshot := Some w, xe_statusError := b, xe_forceQuitArmed := False\<rparr>))"
  by (simp add: knows_def log_exit_def quits_informed_snoc since_open_snoc)

lemma knows_unknown:
  "knows s \<Longrightarrow> (armed \<Longrightarrow> arm)
   \<Longrightarrow> knows (log_exit (StatusUnknown arm) (s\<lparr>xe_snapshot := None, xe_statusError := b, xe_forceQuitArmed := armed\<rparr>))"
  by (auto simp: knows_def log_exit_def quits_informed_snoc since_open_snoc)

lemma knows_quit:
  assumes "knows s" and "xe_openRef s" and "xe_snapshot s \<noteq> None \<or> xe_forceQuitArmed s"
  shows "knows (log_exit (CallQuit (quit_request_for (xe_snapshot s))) s)"
proof (cases "xe_snapshot s")
  case None
  with assms show ?thesis
    by (simp add: knows_def log_exit_def quits_informed_snoc since_open_snoc informed_def quit_request_for_def)
next
  case (Some w)
  with assms have "Learned w \<in> set (since_open (xe_log s))" by (simp add: knows_def)
  moreover have "qr_forceWhenStatusUnknown (quit_request_for (Some w)) \<noteq> Some True"
    by (simp add: quit_request_for_def)
  ultimately have "informed (since_open (xe_log s)) (quit_request_for (Some w))"
    unfolding informed_def by auto
  with assms Some show ?thesis by (simp add: knows_def log_exit_def quits_informed_snoc since_open_snoc)
qed

lemma knows_finish: "knows s \<Longrightarrow> knows (finishAction s)"
  by (erule knows_same) (simp_all add: finishAction_def)

lemma knows_refused:
  assumes "knows s"
  shows "knows (action_refused code message s)"
proof -
  have "knows (s\<lparr>xe_snapshotSequence := k\<rparr>)" for k by (rule knows_same [OF assms]) simp_all
  from knows_unknown [OF this, where armed = False and arm = False and b = True]
  have "knows (setStatusUnavailable s)" by (simp add: setStatusUnavailable_def)
  with assms show ?thesis by (simp add: action_refused_def knows_logged knows_finish)
qed

lemma knows_refresh: "knows s \<Longrightarrow> knows (refreshSnapshot arm quit s)"
  unfolding refreshSnapshot_def Let_def by (rule knows_logged) (erule knows_same, simp_all)

lemma knows_call_answered:
  "knows s \<Longrightarrow> (\<And>s. knows s \<Longrightarrow> knows (continue s)) \<Longrightarrow> knows (answered c continue s)"
proof -
  assume k: "knows s" and c: "\<And>s. knows s \<Longrightarrow> knows (continue s)"
  have "knows (s\<lparr>xe_calls := cs\<rparr>)" for cs by (rule knows_same [OF k]) simp_all
  with k c show ?thesis by (simp add: answered_def)
qed

lemma knows_snapshot: "knows s \<Longrightarrow> knows (fst (snapshot_answered n arm answer s))"
  by (simp add: snapshot_answered_def knows_learned knows_unknown split: option.split)

lemma knows_rechecked: "knows (fst r) \<Longrightarrow> knows (quit_rechecked n r)"
  by (cases r) (simp add: quit_rechecked_def knows_logged knows_finish)

lemma knows_minimized:
  assumes "knows s"
  shows "knows (minimize_answered n answer s)"
proof (cases answer)
  case ActionOk
  have "knows ((finishAction s)\<lparr>xe_snapshotSequence := Suc (xe_snapshotSequence s), xe_openRef := False, xe_open := False\<rparr>)"
    by (rule knows_closed [OF knows_finish [OF assms]]) simp_all
  with assms ActionOk show ?thesis by (simp add: minimize_answered_def)
qed (use assms in \<open>simp_all add: minimize_answered_def knows_refused knows_logged knows_finish\<close>)

lemma knows_quit_answered: "knows s \<Longrightarrow> knows (quit_answered n answer s)"
  by (simp add: quit_answered_def quit_declined_def knows_refused knows_logged knows_finish knows_learned
      split: quit_answer.split option.split)

lemma knows_step:
  assumes "knows s"
  shows "knows (exit_step s e)"
proof (cases e)
  case (SnapshotArrived n arm quit answer)
  have "knows (answered (AwaitSnapshot n arm quit)
      (\<lambda>s. let r = snapshot_answered n arm answer s in case quit of None \<Rightarrow> fst r | Some q \<Rightarrow> quit_rechecked q r) s)"
    by (rule knows_call_answered [OF assms]) (simp add: Let_def knows_snapshot knows_rechecked split: option.split)
  with SnapshotArrived show ?thesis by simp
next
  case (MinimizeArrived n answer)
  with knows_call_answered [OF assms knows_minimized] show ?thesis by simp
next
  case (QuitArrived n answer)
  with knows_call_answered [OF assms knows_quit_answered] show ?thesis by simp
next
  case Mount
  have "knows (mount s)" by (rule knows_same [OF assms]) (simp_all add: mount_def)
  with Mount assms show ?thesis by simp
next
  case Unmount
  have "knows (unmount s)" by (rule knows_closed [OF assms]) (simp_all add: unmount_def)
  with Unmount show ?thesis by simp
next
  case ExitRequested
  have "knows (log_exit Opened (s\<lparr>xe_openRef := True, xe_snapshot := None, xe_statusError := False, xe_forceQuitArmed := False,
      xe_actionPendingRef := False, xe_actionPending := False, xe_open := True\<rparr>))"
    using assms by (simp add: knows_def log_exit_def quits_informed_snoc)
  with assms ExitRequested show ?thesis by (simp add: openExitConfirm_def knows_refresh)
next
  case CloseClicked
  have "knows (s\<lparr>xe_snapshotSequence := Suc (xe_snapshotSequence s), xe_openRef := False, xe_open := False\<rparr>)"
    by (rule knows_closed [OF assms]) simp_all
  with assms CloseClicked show ?thesis by (simp add: closeExitConfirm_def)
next
  case MinimizeClicked
  have "knows (s\<lparr>xe_actionPendingRef := b, xe_actionPending := c, xe_actionSequence := k, xe_calls := cs\<rparr>)" for b c k cs
    by (rule knows_same [OF assms]) simp_all
  with assms MinimizeClicked show ?thesis by (simp add: onMinimizeToTray_def Let_def knows_logged)
next
  case QuitClicked
  have k: "knows (s\<lparr>xe_actionPendingRef := b, xe_actionPending := c, xe_actionSequence := k, xe_calls := cs\<rparr>)"
    "knows (s\<lparr>xe_actionPendingRef := b, xe_actionPending := c, xe_actionSequence := k\<rparr>)" for b c k cs
    by (rule knows_same [OF assms]; simp)+
  from knows_quit [OF k(1)] k(2) assms QuitClicked show ?thesis by (auto simp: onQuit_def Let_def knows_refresh)
qed

definition dialog_shown :: "exit_state \<Rightarrow> bool" where
  "dialog_shown s \<longleftrightarrow> (xe_mounted s \<longrightarrow> (xe_actionPending s \<longleftrightarrow> xe_actionPendingRef s) \<and> (xe_open s \<longleftrightarrow> xe_openRef s)) \<and> (xe_openRef s \<longrightarrow> xe_mounted s)"

lemma enabled_shown: "enabled_again s \<Longrightarrow> dialog_shown s"
  by (simp add: enabled_again_def dialog_shown_def)

lemma shown_finish: "dialog_shown s \<Longrightarrow> enabled_again (finishAction s)"
  by (auto simp: dialog_shown_def enabled_again_def finishAction_def)

lemma shown_logged [simp]: "dialog_shown (log_exit e s) = dialog_shown s"
  by (simp add: dialog_shown_def log_exit_def)

lemma shown_unavailable [simp]: "dialog_shown (setStatusUnavailable s) = dialog_shown s"
  by (simp add: setStatusUnavailable_def log_exit_def dialog_shown_def)

lemma enabled_logged: "enabled_again s \<Longrightarrow> enabled_again (log_exit e s)"
  by (auto simp: enabled_again_def log_exit_def)

lemma enabled_learned:
  assumes "enabled_again s"
  shows "enabled_again (s\<lparr>xe_snapshot := w, xe_statusError := b, xe_forceQuitArmed := c\<rparr>)"
  using assms by (simp add: enabled_again_def)

lemma shown_learned [simp]:
  "dialog_shown (s\<lparr>xe_snapshot := w, xe_statusError := b, xe_forceQuitArmed := c\<rparr>) = dialog_shown s"
  by (simp add: dialog_shown_def)

lemma list_ex_remove: "list_ex P cs \<Longrightarrow> \<not> P c \<Longrightarrow> list_ex P (remove1 c cs)"
  by (induction cs) auto

lemma enabled_removed:
  assumes "enabled_again s" and "ends_action (xe_actionSequence s) c \<Longrightarrow> \<not> xe_actionPendingRef s"
  shows "enabled_again (s\<lparr>xe_calls := remove1 c (xe_calls s)\<rparr>)"
  using assms list_ex_remove [of "ends_action (xe_actionSequence s)" "xe_calls s" c]
  by (auto simp: enabled_again_def)

lemma pending_current: "enabled_again s \<Longrightarrow> xe_actionPendingRef s \<Longrightarrow> action_current (xe_actionSequence s) s"
  by (simp add: enabled_again_def action_current_def)

lemma enabled_refused: "dialog_shown s \<Longrightarrow> enabled_again (action_refused code message s)"
  by (simp add: action_refused_def enabled_logged shown_finish)

lemma enabled_snapshot:
  "enabled_again s \<Longrightarrow> enabled_again (fst (snapshot_answered n arm answer s))"
  "dialog_shown s \<Longrightarrow> dialog_shown (fst (snapshot_answered n arm answer s))"
  "action_current q (fst (snapshot_answered n arm answer s)) = action_current q s"
  by (simp_all add: snapshot_answered_def enabled_logged enabled_learned split: option.split)
    (simp add: action_current_def log_exit_def)

lemma current_removed [simp]: "action_current n (s\<lparr>xe_calls := cs\<rparr>) = action_current n s"
  by (simp add: action_current_def)

lemma shown_removed [simp]: "dialog_shown (s\<lparr>xe_calls := cs\<rparr>) = dialog_shown s"
  by (simp add: dialog_shown_def)

text \<open>The answer to a call either ends the action or belongs to an action that is over.\<close>

lemma enabled_answered:
  assumes "enabled_again s" and "\<And>k. ends_action k c \<longleftrightarrow> k = n"
    and "\<And>s. \<not> action_current n s \<Longrightarrow> continue s = s"
    and "\<And>s. dialog_shown s \<Longrightarrow> action_current n s \<Longrightarrow> enabled_again (continue s)"
  shows "enabled_again (answered c continue s)"
proof (cases "action_current n s")
  case True
  with assms(1,4) enabled_shown show ?thesis by (simp add: answered_def)
next
  case False
  then have "\<not> xe_actionPendingRef s" if "ends_action (xe_actionSequence s) c"
    using that assms(1,2) pending_current by auto
  with enabled_removed [OF assms(1)] assms(1,3) False show ?thesis by (simp add: answered_def)
qed

lemma enabled_minimized: "dialog_shown s \<Longrightarrow> action_current n s \<Longrightarrow> enabled_again (minimize_answered n answer s)"
  by (cases answer)
    (simp_all add: minimize_answered_def enabled_refused enabled_logged shown_finish,
     simp add: enabled_again_def finishAction_def)

lemma enabled_quit_answered: "dialog_shown s \<Longrightarrow> action_current n s \<Longrightarrow> enabled_again (quit_answered n answer s)"
  by (auto simp: quit_answered_def quit_declined_def enabled_refused enabled_logged shown_finish
      split: quit_answer.split option.split)
    (auto simp: enabled_again_def dialog_shown_def action_current_def log_exit_def)

lemma enabled_rechecked:
  "dialog_shown s \<Longrightarrow> action_current q s
   \<Longrightarrow> enabled_again (quit_rechecked q (snapshot_answered n arm answer s))"
  using enabled_snapshot(2) [of s n arm answer] enabled_snapshot(3) [of q n arm answer s]
  by (cases "snapshot_answered n arm answer s") (simp add: quit_rechecked_def enabled_logged shown_finish)

lemma enabled_step:
  assumes "enabled_again s"
  shows "enabled_again (exit_step s e)"
proof (cases e)
  case (SnapshotArrived n arm quit answer)
  show ?thesis
  proof (cases quit)
    case None
    have "enabled_again (s\<lparr>xe_calls := remove1 (AwaitSnapshot n arm None) (xe_calls s)\<rparr>)"
      by (rule enabled_removed [OF assms]) (simp add: ends_action_def)
    from enabled_snapshot(1) [OF this] assms None SnapshotArrived show ?thesis by (simp add: answered_def)
  next
    case (Some q)
    show ?thesis
    proof (cases "action_current q s")
      case True
      with enabled_rechecked [of "s\<lparr>xe_calls := remove1 (AwaitSnapshot n arm quit) (xe_calls s)\<rparr>" q n arm answer]
        enabled_shown [OF assms] assms Some SnapshotArrived
      show ?thesis by (simp add: answered_def Let_def)
    next
      case False
      then have "\<not> xe_actionPendingRef s" if "ends_action (xe_actionSequence s) (AwaitSnapshot n arm quit)"
        using that assms Some pending_current by (auto simp: ends_action_def)
      from enabled_removed [OF assms this] have e: "enabled_again (s\<lparr>xe_calls := remove1 (AwaitSnapshot n arm quit) (xe_calls s)\<rparr>)" .
      have "quit_rechecked q r = fst r" if "\<not> action_current q (fst r)" for r
        using that by (cases r) (simp add: quit_rechecked_def)
      with enabled_snapshot(1) [OF e] enabled_snapshot(3) False assms Some SnapshotArrived
      show ?thesis by (simp add: answered_def Let_def)
    qed
  qed
next
  case (MinimizeArrived n answer)
  have "enabled_again (answered (AwaitMinimize n) (minimize_answered n answer) s)"
    by (rule enabled_answered [OF assms _ _ enabled_minimized]) (auto simp: ends_action_def minimize_answered_def)
  with MinimizeArrived show ?thesis by simp
next
  case (QuitArrived n answer)
  have "enabled_again (answered (AwaitQuit n) (quit_answered n answer) s)"
    by (rule enabled_answered [OF assms _ _ enabled_quit_answered]) (auto simp: ends_action_def quit_answered_def)
  with QuitArrived show ?thesis by simp
next
  case QuitClicked
  with assms show ?thesis
    by (auto simp: onQuit_def Let_def refreshSnapshot_def log_exit_def enabled_again_def ends_action_def)
next
  case MinimizeClicked
  with assms show ?thesis
    by (auto simp: onMinimizeToTray_def Let_def log_exit_def enabled_again_def ends_action_def)
next
  case ExitRequested
  with assms show ?thesis
    by (auto simp: openExitConfirm_def Let_def refreshSnapshot_def log_exit_def enabled_again_def)
next
  case CloseClicked
  show ?thesis
  proof (cases "xe_mounted s \<and> \<not> xe_actionPendingRef s")
    case True
    moreover have "\<not> xe_actionPending s" using assms True unfolding enabled_again_def by blast
    ultimately show ?thesis unfolding CloseClicked by (simp add: closeExitConfirm_def enabled_again_def)
  next
    case False
    then have "closeExitConfirm s = s" by (auto simp: closeExitConfirm_def)
    with assms CloseClicked show ?thesis by simp
  qed
next
  case Mount
  show ?thesis
  proof (cases "xe_mounted s")
    case False
    with assms have "\<not> xe_openRef s" "\<not> xe_actionPendingRef s" by (simp_all add: enabled_again_def)
    with False Mount show ?thesis by (simp add: mount_def enabled_again_def)
  qed (use assms Mount in simp)
next
  case Unmount
  with assms show ?thesis by (auto simp: unmount_def enabled_again_def)
qed

interpretation exit_knows: machine exit_step knows initial_exit
  by unfold_locales (simp_all add: knows_step, simp add: knows_def initial_exit_def quits_informed_def)

interpretation exit_enabled: machine exit_step enabled_again initial_exit
  by unfold_locales (simp_all add: enabled_step, simp add: enabled_again_def initial_exit_def)

section \<open>Properties\<close>

text \<open>The program is only asked to quit on what the dialog knows: every request to quit, in any run, carries the
  fingerprint of the running work the dialog has learned since it was opened and confirms that work exactly when
  there is some, or is forced, and then a second look the user asked for has failed since the dialog was opened.\<close>

theorem quit_is_informed:
  assumes "xe_log (foldl exit_step initial_exit es) = before @ CallQuit r # after"
  shows "if qr_forceWhenStatusUnknown r = Some True then StatusUnknown True \<in> set (since_open before)
    else \<exists>w. Learned w \<in> set (since_open before)
           \<and> qr_expectedWorkSetFingerprint r = ws_workSetFingerprint w \<and> qr_confirmActiveWork r = hasActiveWork w"
proof -
  have "quits_informed (xe_log (foldl exit_step initial_exit es))"
    using exit_knows.inv_reachable [of es] by (simp add: knows_def)
  then have "informed (since_open before) r"
    unfolding quits_informed_def assms by (auto dest!: spec [of _ "length before"])
  then show ?thesis
    by (auto simp: informed_def quit_request_for_def split: if_splits)
qed

definition sample_work :: work_snapshot where
  "sample_work = \<lparr>ws_queriedAt = [], ws_workSetFingerprint = ''f'', ws_downloads = 2, ws_recordings = None,
     ws_autoFind = None, ws_duplicateScan = None, ws_internalDuplicateScan = None\<rparr>"

definition sample_exit :: "exit_event list" where
  "sample_exit = [Mount, ExitRequested, SnapshotArrived 1 False None None, QuitClicked,
     SnapshotArrived 2 True (Some 1) (Some sample_work), QuitClicked]"

theorem quit_is_informed_witness:
  "\<exists>w before r. xe_log (foldl exit_step initial_exit sample_exit) = before @ [CallQuit r]
     \<and> Learned w \<in> set (since_open before) \<and> qr_confirmActiveWork r = hasActiveWork w"
proof -
  let ?before = "[Opened, CallSnapshot, StatusUnknown False, CallSnapshot, Learned sample_work]"
  have l: "xe_log (foldl exit_step initial_exit sample_exit) = ?before @ CallQuit (quit_request_for (Some sample_work)) # []"
    by code_simp
  from quit_is_informed [OF l] have "\<exists>w. Learned w \<in> set (since_open ?before)
      \<and> qr_confirmActiveWork (quit_request_for (Some sample_work)) = hasActiveWork w"
    by (simp add: quit_request_for_def) blast
  with l show ?thesis by auto
qed

text \<open>The answers to a call.\<close>

fun answers :: "exit_call \<Rightarrow> exit_event \<Rightarrow> bool" where
  "answers (AwaitSnapshot n arm quit) (SnapshotArrived n' arm' quit' _) = (n = n' \<and> arm = arm' \<and> quit = quit')"
| "answers (AwaitMinimize n) (MinimizeArrived n' _) = (n = n')"
| "answers (AwaitQuit n) (QuitArrived n' _) = (n = n')"
| "answers _ _ = False"

lemma finished [simp]: "\<not> xe_actionPendingRef (finishAction s)" "xe_actionPendingRef (log_exit e s) = xe_actionPendingRef s"
  by (simp_all add: finishAction_def log_exit_def)

lemma answer_ends_action:
  assumes "c \<in> set (xe_calls s)" and "ends_action (xe_actionSequence s) c" and "action_current (xe_actionSequence s) s"
    and "answers c e"
  shows "\<not> xe_actionPendingRef (exit_step s e) \<or> QuitAccepted \<in> set (xe_log (exit_step s e))"
proof (cases c)
  case (AwaitSnapshot n arm quit)
  then obtain answer where e: "e = SnapshotArrived n arm quit answer" using assms(4) by (cases e) auto
  have q: "quit = Some (xe_actionSequence s)" using assms(2) AwaitSnapshot by (simp add: ends_action_def)
  let ?r = "snapshot_answered n arm answer (s\<lparr>xe_calls := remove1 c (xe_calls s)\<rparr>)"
  have "action_current (xe_actionSequence s) (fst ?r)" using assms(3) by (simp add: enabled_snapshot(3))
  then have "\<not> xe_actionPendingRef (quit_rechecked (xe_actionSequence s) ?r)"
    by (cases ?r) (simp add: quit_rechecked_def)
  with AwaitSnapshot e q assms(1) show ?thesis by (simp add: answered_def Let_def)
next
  case (AwaitMinimize n)
  then obtain answer where e: "e = MinimizeArrived n answer" using assms(4) by (cases e) auto
  with AwaitMinimize assms(1-3) show ?thesis
    by (cases answer) (simp_all add: ends_action_def answered_def minimize_answered_def action_refused_def)
next
  case (AwaitQuit n)
  then obtain answer where e: "e = QuitArrived n answer" using assms(4) by (cases e) auto
  with AwaitQuit assms(1-3) show ?thesis
    by (cases answer) (auto simp: ends_action_def answered_def quit_answered_def quit_declined_def action_refused_def log_exit_def [of QuitAccepted])
qed

text \<open>The dialog never stays disabled: while its buttons are disabled and the program has not agreed to quit, a call is
  outstanding, and whatever it answers, an exception included, the buttons are enabled again or the program quits.\<close>

theorem exit_dialog_never_stuck:
  assumes "xe_actionPendingRef (foldl exit_step initial_exit es)"
    and "QuitAccepted \<notin> set (xe_log (foldl exit_step initial_exit es))"
  shows "\<exists>c \<in> set (xe_calls (foldl exit_step initial_exit es)). \<forall>e. answers c e \<longrightarrow>
      \<not> xe_actionPendingRef (foldl exit_step initial_exit (es @ [e]))
      \<or> QuitAccepted \<in> set (xe_log (foldl exit_step initial_exit (es @ [e])))"
proof -
  let ?s = "foldl exit_step initial_exit es"
  have en: "enabled_again ?s" by (rule exit_enabled.inv_reachable)
  with assms obtain c where "c \<in> set (xe_calls ?s)" "ends_action (xe_actionSequence ?s) c"
    by (auto simp: enabled_again_def list_ex_iff)
  with answer_ends_action [OF _ _ pending_current [OF en assms(1)]] show ?thesis by auto
qed

theorem exit_dialog_never_stuck_witness:
  "\<exists>c \<in> set (xe_calls (foldl exit_step initial_exit sample_exit)).
     \<not> xe_actionPendingRef (foldl exit_step initial_exit (sample_exit @ [QuitArrived 2 QuitThrown]))
     \<and> answers c (QuitArrived 2 QuitThrown)"
proof -
  have p: "xe_actionPendingRef (foldl exit_step initial_exit sample_exit)"
    "QuitAccepted \<notin> set (xe_log (foldl exit_step initial_exit sample_exit))"
    "xe_calls (foldl exit_step initial_exit sample_exit) = [AwaitQuit 2]"
    "QuitAccepted \<notin> set (xe_log (foldl exit_step initial_exit (sample_exit @ [QuitArrived 2 QuitThrown])))"
    by code_simp+
  obtain c where c: "c \<in> set (xe_calls (foldl exit_step initial_exit sample_exit))"
    "\<forall>e. answers c e \<longrightarrow> \<not> xe_actionPendingRef (foldl exit_step initial_exit (sample_exit @ [e]))
      \<or> QuitAccepted \<in> set (xe_log (foldl exit_step initial_exit (sample_exit @ [e])))"
    using exit_dialog_never_stuck [OF p(1,2)] by blast
  with p(3) have "answers c (QuitArrived 2 QuitThrown)" by simp
  with c p(4) show ?thesis by blast
qed

end
