(* ===== verification/BackendAdapter.thy ===== *)
theory BackendAdapter
  imports ThumbnailClient
begin

text \<open>
  \<^verbatim>\<open>src/src/thumbnail/backendAdapter.ts\<close>: the bridge from the thumbnail client to the coordinator in the
  native process. Each \<^verbatim>\<open>resolve\<close> makes a promise; the picture arrives later as an event that may overtake
  the answer carrying its request id, and its bytes are read with a resource token that has to be given back.

  A pending object is known by its number, the index of its promise. The asynchronous functions \<^verbatim>\<open>start\<close> and
  \<^verbatim>\<open>complete\<close> are cut at their \<^verbatim>\<open>await\<close>s; \<open>pp_wait\<close> says where an object's function is suspended, and the
  answers of the backend, refusals and exceptions included, are events. Timers are flags, their firing is an
  event. Calls are logged; the log also notes the tokens received, and with a
  blob address the promise and the completion it is made for. The host gives the addresses of the blobs and
  the text of a type error. Request ids are not empty.
\<close>

section \<open>Keys on the wire\<close>

datatype backend_key =
    BGalleryCover gallery_id
  | BGalleryPage gallery_id int
  | BArtifactPage string int
  | BOverlapReviewPage string string int review_side int

fun backendKey :: "thumbnail_key \<Rightarrow> backend_key" where
  "backendKey (GalleryCover g _ _) = BGalleryCover g"
| "backendKey (SourcePage g p _ _) = BGalleryPage g p"
| "backendKey (OverlapReviewPage r c n side p _) = BOverlapReviewPage r c n side p"
| "backendKey (ArtifactPage e p _) = BArtifactPage e p"

fun keysEqual :: "backend_key \<Rightarrow> backend_key \<Rightarrow> bool" where
  "keysEqual (BGalleryCover g) (BGalleryCover g') = (g = g')"
| "keysEqual (BGalleryPage g p) (BGalleryPage g' p') = (g = g' \<and> p = p')"
| "keysEqual (BOverlapReviewPage r c n side p) (BOverlapReviewPage r' c' n' side' p') =
     (r = r' \<and> c = c' \<and> n = n' \<and> side = side' \<and> p = p')"
| "keysEqual (BArtifactPage e p) (BArtifactPage e' p') = (e = e' \<and> p = p')"
| "keysEqual _ _ = False"

fun backendKeyIdentity :: "backend_key \<Rightarrow> string" where
  "backendKeyIdentity (BGalleryCover g) = ''gallery-cover:'' @ show_int g"
| "backendKeyIdentity (BGalleryPage g p) = ''source-page:'' @ show_int g @ '':'' @ show_int p"
| "backendKeyIdentity (BOverlapReviewPage r c n side p) = thumbnailKeyIdentity (OverlapReviewPage r c n side p None)"
| "backendKeyIdentity (BArtifactPage e p) = ''artifact-page:'' @ e @ '':'' @ show_int p"

record request_dto =
  rd_key :: backend_key
  rd_consumer :: thumbnail_consumer
  rd_priority :: thumbnail_priority

definition requestDto :: "thumbnail_request \<Rightarrow> request_dto" where
  "requestDto r = \<lparr>rd_key = backendKey (tr_key r), rd_consumer = tr_consumer r, rd_priority = tr_priority r\<rparr>"

section \<open>Completions\<close>

text \<open>The bytes of a picture come with the event, or are read with a token.\<close>

datatype picture_body = Bytes "int list" | Resource string int

datatype completion_outcome =
    Ready js_num js_num picture_body
  | FailedWith string string bool

record completion_event =
  tc_requestId :: string
  tc_key :: backend_key
  tc_outcome :: completion_outcome

definition event_token :: "completion_event \<Rightarrow> string option" where
  "event_token e =
     (case tc_outcome e of Ready _ _ (Resource t _) \<Rightarrow> if t \<noteq> [] then Some t else None | _ \<Rightarrow> None)"

section \<open>The state of the adapter\<close>

datatype page_wait =
    NotWaiting
  | WaitListener thumbnail_priority
  | WaitRequest thumbnail_priority
  | WaitRead completion_event string

record pending_page =
  pp_identity :: string
  pp_request :: thumbnail_request
  pp_requestId :: "string option"
  pp_cancelled :: bool
  pp_settled :: bool
  pp_receiving :: bool
  pp_timer :: bool
  pp_early :: "(string \<times> completion_event) list"
  pp_wait :: page_wait

datatype adapter_effect =
    CallRequest request_dto
  | CallReprioritize string thumbnail_priority
  | CallCancel string
  | CallInvalidate backend_key
  | CallRead string
  | CallRelease string
  | CallUnlisten
  | CreateUrl nat string completion_event
  | RevokeUrl string
  | Settled nat "thumbnail_error + thumbnail_asset"
  | TokenReceived string

datatype listener_state = ListenerPending | ListenerOn | ListenerFailed thumbnail_error

record backend_adapter =
  ba_objects :: "pending_page list"
  ba_byIdentity :: "(string \<times> nat) list"
  ba_byRequestId :: "(string \<times> nat) list"
  ba_cancelled :: "string list"
  ba_displayUrls :: "(string \<times> string) list"
  ba_listener :: listener_state
  ba_unlisten :: bool
  ba_disposed :: bool
  ba_urls :: nat
  ba_log :: "adapter_effect list"

record adapter_host =
  ah_url :: "nat \<Rightarrow> string"
  ah_typeError :: string

definition new_adapter :: backend_adapter where
  "new_adapter = \<lparr>ba_objects = [], ba_byIdentity = [], ba_byRequestId = [], ba_cancelled = [], ba_displayUrls = [],
     ba_listener = ListenerPending, ba_unlisten = False, ba_disposed = False, ba_urls = 0, ba_log = []\<rparr>"

definition errorFrom :: "string \<Rightarrow> string \<Rightarrow> bool \<Rightarrow> thumbnail_error" where
  "errorFrom message code retryable =
     \<lparr>te_name = (if code \<noteq> [] then code else ''Error''), te_message = message, te_retryable = retryable\<rparr>"

definition logged :: "adapter_effect list \<Rightarrow> backend_adapter \<Rightarrow> backend_adapter" where
  "logged es a = a\<lparr>ba_log := ba_log a @ es\<rparr>"

definition object :: "nat \<Rightarrow> backend_adapter \<Rightarrow> pending_page" where
  "object n a = ba_objects a ! n"

definition alter :: "nat \<Rightarrow> (pending_page \<Rightarrow> pending_page) \<Rightarrow> backend_adapter \<Rightarrow> backend_adapter" where
  "alter n f a = a\<lparr>ba_objects := (ba_objects a)[n := f (ba_objects a ! n)]\<rparr>"

definition settle_page :: "nat \<Rightarrow> thumbnail_error + thumbnail_asset \<Rightarrow> backend_adapter \<Rightarrow> backend_adapter" where
  "settle_page n r a = logged [Settled n r] (alter n (pp_settled_update (\<lambda>_. True)) a)"

definition releaseEvent :: "completion_event \<Rightarrow> backend_adapter \<Rightarrow> backend_adapter" where
  "releaseEvent e a = (case event_token e of Some t \<Rightarrow> logged [CallRelease t] a | None \<Rightarrow> a)"

definition clearEarly :: "nat \<Rightarrow> string option \<Rightarrow> backend_adapter \<Rightarrow> backend_adapter" where
  "clearEarly n keep a =
     alter n (pp_early_update (\<lambda>_. []))
       (fold releaseEvent (map snd (filter (\<lambda>re. Some (fst re) \<noteq> keep) (pp_early (object n a)))) a)"

definition cancelled_capacity :: nat where "cancelled_capacity = 256"

definition rememberCancelledRequestId :: "string \<Rightarrow> backend_adapter \<Rightarrow> backend_adapter" where
  "rememberCancelledRequestId r a =
     (let ids = set_add r (set_delete r (ba_cancelled a))
      in a\<lparr>ba_cancelled := (if length ids > cancelled_capacity then drop (length ids - cancelled_capacity) ids else ids)\<rparr>)"

definition forget_identity :: "string \<Rightarrow> nat \<Rightarrow> backend_adapter \<Rightarrow> backend_adapter" where
  "forget_identity i n a =
     (if map_of (ba_byIdentity a) i = Some n then a\<lparr>ba_byIdentity := AList.delete i (ba_byIdentity a)\<rparr> else a)"

definition forget_request :: "string \<Rightarrow> backend_adapter \<Rightarrow> backend_adapter" where
  "forget_request r a = a\<lparr>ba_byRequestId := AList.delete r (ba_byRequestId a)\<rparr>"

text \<open>Giving up a request the backend knows.\<close>

definition abandon_request :: "string option \<Rightarrow> backend_adapter \<Rightarrow> backend_adapter" where
  "abandon_request r a =
     (case r of Some r \<Rightarrow> logged [CallCancel r] (rememberCancelledRequestId r (forget_request r a)) | None \<Rightarrow> a)"

section \<open>Operations of the client\<close>

definition resolve_page :: "thumbnail_request \<Rightarrow> backend_adapter \<Rightarrow> backend_adapter" where
  "resolve_page request a =
     (let n = length (ba_objects a);
          ob = \<lparr>pp_identity = thumbnailKeyIdentity (tr_key request), pp_request = request, pp_requestId = None,
                pp_cancelled = False, pp_settled = False, pp_receiving = False, pp_timer = True, pp_early = [],
                pp_wait = WaitListener (tr_priority request)\<rparr>
      in if ba_disposed a
         then settle_page n (Inl (errorFrom ''Thumbnail adapter is disposed'' [] False))
                (a\<lparr>ba_objects := ba_objects a @ [ob\<lparr>pp_timer := False, pp_wait := NotWaiting\<rparr>]\<rparr>)
         else a\<lparr>ba_objects := ba_objects a @ [ob],
                ba_byIdentity := AList.update (pp_identity ob) n (ba_byIdentity a)\<rparr>)"

definition timeout_fired :: "nat \<Rightarrow> backend_adapter \<Rightarrow> backend_adapter" where
  "timeout_fired n a =
     (let ob = object n a; a0 = alter n (pp_timer_update (\<lambda>_. False)) a
      in if pp_cancelled ob \<or> pp_settled ob then a0
         else settle_page n (Inl (errorFrom ''Thumbnail completion timed out'' ''THUMBNAIL_COMPLETION_TIMEOUT'' False))
                (clearEarly n None (abandon_request (pp_requestId ob) (forget_identity (pp_identity ob) n
                   (alter n (pp_cancelled_update (\<lambda>_. True)) a0)))))"

definition reprioritize_page :: "thumbnail_request \<Rightarrow> backend_adapter \<Rightarrow> backend_adapter" where
  "reprioritize_page request a =
     (case map_of (ba_byIdentity a) (thumbnailKeyIdentity (tr_key request)) of
        None \<Rightarrow> a
      | Some n \<Rightarrow>
          let a1 = alter n (pp_request_update (\<lambda>_. request)) a
          in case pp_requestId (object n a) of
               Some r \<Rightarrow> logged [CallReprioritize r (tr_priority request)] a1
             | None \<Rightarrow> a1)"

definition cancelled_error :: "string \<Rightarrow> thumbnail_error" where
  "cancelled_error message = errorFrom message ''THUMBNAIL_cancelled'' True"

definition cancel_page :: "thumbnail_request \<Rightarrow> backend_adapter \<Rightarrow> backend_adapter" where
  "cancel_page request a =
     (let i = thumbnailKeyIdentity (tr_key request)
      in case map_of (ba_byIdentity a) i of
        None \<Rightarrow> a
      | Some n \<Rightarrow>
          let a1 = clearEarly n None (alter n (\<lambda>ob. ob\<lparr>pp_cancelled := True, pp_timer := False\<rparr>) a);
              a2 = abandon_request (pp_requestId (object n a)) (a1\<lparr>ba_byIdentity := AList.delete i (ba_byIdentity a1)\<rparr>)
          in if pp_settled (object n a) then a2
             else settle_page n (Inl (cancelled_error ''Thumbnail request was cancelled'')) a2)"

definition release_page :: "thumbnail_request \<Rightarrow> thumbnail_asset \<Rightarrow> backend_adapter \<Rightarrow> backend_adapter" where
  "release_page request asset a =
     (case asset of
        ImageAsset url _ _ _ \<Rightarrow>
          let i = thumbnailKeyIdentity (tr_key request)
          in logged [RevokeUrl url]
               (if map_of (ba_displayUrls a) i = Some url
                then a\<lparr>ba_displayUrls := AList.delete i (ba_displayUrls a)\<rparr> else a)
      | _ \<Rightarrow> a)"

definition display_failed :: "thumbnail_request \<Rightarrow> backend_adapter \<Rightarrow> backend_adapter" where
  "display_failed request a =
     (let i = thumbnailKeyIdentity (tr_key request)
      in logged [CallInvalidate (backendKey (tr_key request))]
           (case map_of (ba_displayUrls a) i of
              Some url \<Rightarrow> if url = [] then a
                else logged [RevokeUrl url] (a\<lparr>ba_displayUrls := AList.delete i (ba_displayUrls a)\<rparr>)
            | None \<Rightarrow> a))"

text \<open>One pending object at the end.\<close>

definition dispose_page :: "nat \<Rightarrow> backend_adapter \<Rightarrow> backend_adapter" where
  "dispose_page n a =
     (let ob = object n a;
          a1 = clearEarly n None (alter n (\<lambda>ob. ob\<lparr>pp_cancelled := True, pp_timer := False\<rparr>) a);
          a2 = (case pp_requestId ob of Some r \<Rightarrow> rememberCancelledRequestId r (logged [CallCancel r] a1) | None \<Rightarrow> a1)
      in if pp_settled ob then a2 else settle_page n (Inl (cancelled_error ''Thumbnail adapter is disposed'')) a2)"

definition dispose_adapter :: "backend_adapter \<Rightarrow> backend_adapter" where
  "dispose_adapter a =
     (let a1 = logged ((if ba_unlisten a then [CallUnlisten] else []) @ map RevokeUrl (vals (ba_displayUrls a)))
                 (a\<lparr>ba_disposed := True, ba_unlisten := False, ba_displayUrls := []\<rparr>)
      in (fold dispose_page (vals (ba_byIdentity a)) a1)
           \<lparr>ba_byIdentity := [], ba_byRequestId := [], ba_cancelled := []\<rparr>)"

section \<open>Completion of a request\<close>

text \<open>The \<^verbatim>\<open>finally\<close> of \<^verbatim>\<open>complete\<close>.\<close>

definition finish_page :: "nat \<Rightarrow> completion_event \<Rightarrow> string \<Rightarrow> backend_adapter \<Rightarrow> backend_adapter" where
  "finish_page n e i a =
     releaseEvent e (forget_identity i n (forget_request (tc_requestId e)
       (alter n (\<lambda>ob. ob\<lparr>pp_timer := False, pp_wait := NotWaiting\<rparr>) a)))"

definition page_failed ::
  "nat \<Rightarrow> completion_event \<Rightarrow> string \<Rightarrow> thumbnail_error \<Rightarrow> backend_adapter \<Rightarrow> backend_adapter" where
  "page_failed n e i err a =
     finish_page n e i (if pp_settled (object n a) then a else settle_page n (Inl err) a)"

definition page_delivered ::
  "adapter_host \<Rightarrow> nat \<Rightarrow> completion_event \<Rightarrow> string \<Rightarrow> js_num \<Rightarrow> js_num \<Rightarrow> int \<Rightarrow> backend_adapter \<Rightarrow> backend_adapter" where
  "page_delivered h n e i w ht bytes a =
     (let url = ah_url h (ba_urls a)
      in finish_page n e i (settle_page n (Inr (ImageAsset url w ht (Some (int_num bytes))))
           (logged [CreateUrl n url e]
             (a\<lparr>ba_urls := Suc (ba_urls a), ba_displayUrls := AList.update i url (ba_displayUrls a)\<rparr>))))"

text \<open>The part of \<^verbatim>\<open>complete\<close> after the pending object has been found, up to the read of the bytes.\<close>

definition receive_page :: "adapter_host \<Rightarrow> nat \<Rightarrow> completion_event \<Rightarrow> backend_adapter \<Rightarrow> backend_adapter" where
  "receive_page h n e a0 =
     (let a = clearEarly n (Some (tc_requestId e)) (alter n (pp_receiving_update (\<lambda>_. True)) a0);
          ob = object n a; i = thumbnailKeyIdentity (tr_key (pp_request ob))
      in if pp_cancelled ob \<or> pp_settled ob then finish_page n e i a
         else if \<not> keysEqual (tc_key e) (backendKey (tr_key (pp_request ob)))
           then page_failed n e i (errorFrom ''Thumbnail completion key did not match its request'' ''THUMBNAIL_KEY_MISMATCH'' False) a
         else case tc_outcome e of
           FailedWith code message retryable \<Rightarrow> page_failed n e i (errorFrom message (''THUMBNAIL_'' @ code) retryable) a
         | Ready w ht (Bytes bs) \<Rightarrow> page_delivered h n e i w ht (int (length bs)) a
         | Ready w ht (Resource t bytes) \<Rightarrow>
             if t = [] then page_failed n e i \<lparr>te_name = ''TypeError'', te_message = ah_typeError h, te_retryable = False\<rparr> a
             else logged [CallRead t] (alter n (pp_wait_update (\<lambda>_. WaitRead e i)) a))"

definition handshaking :: "backend_adapter \<Rightarrow> completion_event \<Rightarrow> nat option" where
  "handshaking a e =
     (case map_of (ba_byIdentity a) (backendKeyIdentity (tc_key e)) of
        Some n \<Rightarrow> if pp_requestId (object n a) = None \<and> \<not> pp_cancelled (object n a) \<and> \<not> pp_settled (object n a)
                  then Some n else None
      | None \<Rightarrow> None)"

definition complete_event :: "adapter_host \<Rightarrow> completion_event \<Rightarrow> backend_adapter \<Rightarrow> backend_adapter" where
  "complete_event h e a =
     (if ba_disposed a then releaseEvent e a
      else if tc_requestId e \<in> set (ba_cancelled a)
        then releaseEvent e (a\<lparr>ba_cancelled := set_delete (tc_requestId e) (ba_cancelled a)\<rparr>)
      else case map_of (ba_byRequestId a) (tc_requestId e) of
        None \<Rightarrow>
          (case handshaking a e of
             Some n \<Rightarrow> alter n (pp_early_update (AList.update (tc_requestId e) e)) a
           | None \<Rightarrow> releaseEvent e a)
      | Some n \<Rightarrow> if pp_receiving (object n a) then a else receive_page h n e a)"

text \<open>The answer to the read of the bytes: their number, or an exception.\<close>

definition read_answered ::
  "adapter_host \<Rightarrow> nat \<Rightarrow> rejection + int \<Rightarrow> backend_adapter \<Rightarrow> backend_adapter" where
  "read_answered h n answer a =
     (case pp_wait (object n a) of
        WaitRead e i \<Rightarrow>
          (case answer of
             Inl thrown \<Rightarrow> page_failed n e i (or_value thrown (errorFrom ''Thumbnail payload could not be displayed'' [] False)) a
           | Inr bytes \<Rightarrow>
               if ba_disposed a \<or> pp_cancelled (object n a) \<or> pp_settled (object n a) then finish_page n e i a
               else case tc_outcome e of
                 Ready w ht (Resource _ expected) \<Rightarrow>
                   if bytes \<noteq> expected
                   then page_failed n e i (errorFrom ''Thumbnail binary length did not match'' ''THUMBNAIL_INVALID_BODY'' True) a
                   else page_delivered h n e i w ht bytes a
               | _ \<Rightarrow> a)
      | _ \<Rightarrow> a)"

section \<open>Start of a request\<close>

text \<open>The \<^verbatim>\<open>catch\<close> of \<^verbatim>\<open>start\<close>.\<close>

definition start_failed :: "nat \<Rightarrow> rejection \<Rightarrow> backend_adapter \<Rightarrow> backend_adapter" where
  "start_failed n thrown a =
     (let ob = object n a;
          a1 = forget_identity (pp_identity ob) n
                 (clearEarly n None (alter n (\<lambda>ob. ob\<lparr>pp_timer := False, pp_wait := NotWaiting\<rparr>) a));
          a2 = (case pp_requestId ob of Some r \<Rightarrow> forget_request r a1 | None \<Rightarrow> a1)
      in if \<not> pp_cancelled ob \<and> \<not> pp_settled ob
         then settle_page n (Inl (or_value thrown (errorFrom ''Thumbnail request failed'' [] False))) a2 else a2)"

text \<open>After \<^verbatim>\<open>await this.completionListenerReady\<close>.\<close>

definition listener_awaited :: "nat \<Rightarrow> backend_adapter \<Rightarrow> backend_adapter" where
  "listener_awaited n a =
     (case (pp_wait (object n a), ba_listener a) of
        (WaitListener p, ListenerOn) \<Rightarrow>
          if pp_cancelled (object n a) then alter n (pp_wait_update (\<lambda>_. NotWaiting)) a
          else logged [CallRequest (requestDto (pp_request (object n a)))] (alter n (pp_wait_update (\<lambda>_. WaitRequest p)) a)
      | (WaitListener p, ListenerFailed err) \<Rightarrow> start_failed n (Some err) a
      | _ \<Rightarrow> a)"

datatype request_answer = Granted string | RequestRefused string string | RequestThrew rejection

definition request_granted :: "adapter_host \<Rightarrow> nat \<Rightarrow> thumbnail_priority \<Rightarrow> string \<Rightarrow> backend_adapter \<Rightarrow> backend_adapter" where
  "request_granted h n p r a =
     (let a1 = alter n (\<lambda>ob. ob\<lparr>pp_requestId := Some r, pp_wait := NotWaiting\<rparr>)
                 (a\<lparr>ba_byRequestId := AList.update r n (ba_byRequestId a)\<rparr>);
          now = tr_priority (pp_request (object n a));
          a2 = (if priorityRank now > priorityRank p then logged [CallReprioritize r now] a1 else a1)
      in if pp_cancelled (object n a) then abandon_request (Some r) a1
         else case map_of (pp_early (object n a)) r of
           Some e \<Rightarrow> complete_event h e (clearEarly n (Some r) a2)
         | None \<Rightarrow> clearEarly n (Some r) a2)"

definition request_answered :: "adapter_host \<Rightarrow> nat \<Rightarrow> request_answer \<Rightarrow> backend_adapter \<Rightarrow> backend_adapter" where
  "request_answered h n answer a =
     (case pp_wait (object n a) of
        WaitRequest p \<Rightarrow>
          (case answer of
             Granted r \<Rightarrow> request_granted h n p r a
           | RequestRefused code message \<Rightarrow> start_failed n (Some (errorFrom message code False)) a
           | RequestThrew thrown \<Rightarrow> start_failed n thrown a)
      | _ \<Rightarrow> a)"

definition listener_ready :: "backend_adapter \<Rightarrow> backend_adapter" where
  "listener_ready a =
     (let a1 = a\<lparr>ba_listener := ListenerOn\<rparr>
      in if ba_listener a \<noteq> ListenerPending then a
         else if ba_disposed a then logged [CallUnlisten] a1 else a1\<lparr>ba_unlisten := True\<rparr>)"

section \<open>Events\<close>

datatype adapter_event =
    ResolveCalled thumbnail_request
  | ReprioritizeCalled thumbnail_request
  | CancelCalled thumbnail_request
  | ReleaseCalled thumbnail_request thumbnail_asset
  | DisplayFailed thumbnail_request
  | DisposeCalled
  | ListenerReady
  | ListenerRefused thumbnail_error
  | ListenerAwaited nat
  | RequestAnswered nat request_answer
  | CompletionArrived completion_event
  | ReadAnswered nat "rejection + int"
  | TimeoutFired nat

text \<open>A continuation or a timer is of an object that exists; a timer fires only while it is armed.\<close>

fun adapter_step :: "adapter_host \<Rightarrow> backend_adapter \<Rightarrow> adapter_event \<Rightarrow> backend_adapter" where
  "adapter_step h a (ResolveCalled r) = resolve_page r a"
| "adapter_step h a (ReprioritizeCalled r) = reprioritize_page r a"
| "adapter_step h a (CancelCalled r) = cancel_page r a"
| "adapter_step h a (ReleaseCalled r asset) = release_page r asset a"
| "adapter_step h a (DisplayFailed r) = display_failed r a"
| "adapter_step h a DisposeCalled = dispose_adapter a"
| "adapter_step h a ListenerReady = listener_ready a"
| "adapter_step h a (ListenerRefused err) = (if ba_listener a = ListenerPending then a\<lparr>ba_listener := ListenerFailed err\<rparr> else a)"
| "adapter_step h a (ListenerAwaited n) = (if n < length (ba_objects a) then listener_awaited n a else a)"
| "adapter_step h a (RequestAnswered n answer) = (if n < length (ba_objects a) then request_answered h n answer a else a)"
| "adapter_step h a (CompletionArrived e) =
     complete_event h e (case event_token e of Some t \<Rightarrow> logged [TokenReceived t] a | None \<Rightarrow> a)"
| "adapter_step h a (ReadAnswered n answer) = (if n < length (ba_objects a) then read_answered h n answer a else a)"
| "adapter_step h a (TimeoutFired n) =
     (if n < length (ba_objects a) \<and> pp_timer (object n a) then timeout_fired n a else a)"

end
