(* ===== verification/BackendAdapterFacts.thy ===== *)
theory BackendAdapterFacts
  imports BackendAdapter ThumbnailFacts
begin

text \<open>
  Facts about the thumbnail adapter. Every operation on a pending object is summed up as one \<open>moved\<close>: the
  object it leaves, and what it logs. From that follow, for every run, the promises (each settled at most once,
  and armed with a timer until then), the account of resource tokens, and that the picture delivered is the one
  asked for.
\<close>

section \<open>What an operation does to one object\<close>

definition moved ::
  "nat \<Rightarrow> pending_page \<Rightarrow> adapter_effect list \<Rightarrow> backend_adapter \<Rightarrow> backend_adapter \<Rightarrow> bool" where
  "moved n ob es a a' \<longleftrightarrow>
     n < length (ba_objects a) \<and> ba_objects a' = (ba_objects a)[n := ob] \<and> ba_log a' = ba_log a @ es
     \<and> ba_disposed a' = ba_disposed a
     \<and> pp_identity ob = pp_identity (object n a)
     \<and> (pp_requestId (object n a) = None \<or> pp_requestId (object n a) = pp_requestId ob)
     \<and> (\<forall>r m. map_of (ba_byRequestId a') r = Some m \<longrightarrow>
          map_of (ba_byRequestId a) r = Some m \<or> m = n \<and> pp_requestId ob = Some r)
     \<and> set (ba_byIdentity a') \<subseteq> set (ba_byIdentity a)
     \<and> (length (ba_cancelled a) \<le> cancelled_capacity \<longrightarrow> length (ba_cancelled a') \<le> cancelled_capacity)"

lemma moved_object: "moved n ob es a a' \<Longrightarrow> object n a' = ob \<and> n < length (ba_objects a')"
  by (simp add: moved_def object_def)

lemma moved_trans:
  assumes "moved n ob es a b" and "moved n ob' es' b c"
  shows "moved n ob' (es @ es') a c"
proof -
  have ob: "object n b = ob" using moved_object [OF assms(1)] by simp
  have keep: "pp_requestId ob = None \<or> pp_requestId ob = pp_requestId ob'"
    using assms(2) ob by (simp add: moved_def)
  have "map_of (ba_byRequestId a) r = Some m \<or> m = n \<and> pp_requestId ob' = Some r"
    if "map_of (ba_byRequestId c) r = Some m" for r m
  proof -
    have "map_of (ba_byRequestId b) r = Some m \<or> m = n \<and> pp_requestId ob' = Some r"
      using assms(2) that unfolding moved_def by blast
    moreover have "map_of (ba_byRequestId a) r = Some m \<or> m = n \<and> pp_requestId ob = Some r"
      if "map_of (ba_byRequestId b) r = Some m"
      using assms(1) that unfolding moved_def by blast
    ultimately show ?thesis using keep by auto
  qed
  moreover have "set (ba_byIdentity c) \<subseteq> set (ba_byIdentity a)"
    using assms unfolding moved_def by blast
  moreover have "pp_requestId (object n a) = None \<or> pp_requestId (object n a) = pp_requestId ob'"
    using assms(1) keep unfolding moved_def by auto
  ultimately show ?thesis
    using assms ob unfolding moved_def by (simp add: object_def)
qed

lemma moved_logged: "n < length (ba_objects a) \<Longrightarrow> moved n (object n a) es a (logged es a)"
  by (simp add: moved_def logged_def object_def)

lemma moved_alter:
  "n < length (ba_objects a) \<Longrightarrow> pp_identity (f (object n a)) = pp_identity (object n a)
   \<Longrightarrow> pp_requestId (f (object n a)) = pp_requestId (object n a) \<Longrightarrow> moved n (f (object n a)) [] a (alter n f a)"
  by (simp add: moved_def alter_def object_def)

definition releases :: "completion_event \<Rightarrow> adapter_effect list" where
  "releases e = (case event_token e of Some t \<Rightarrow> [CallRelease t] | None \<Rightarrow> [])"

lemma releaseEvent_logged: "releaseEvent e a = logged (releases e) a"
  by (simp add: releaseEvent_def releases_def logged_def split: option.split)

lemma logged_nil [simp]: "logged [] a = a"
  by (simp add: logged_def)

lemma logged_logged: "logged es (logged ds a) = logged (ds @ es) a"
  by (simp add: logged_def)

lemma fold_releaseEvent: "fold releaseEvent es a = logged (concat (map releases es)) a"
proof (induction es arbitrary: a)
  case (Cons e es)
  then show ?case by (simp add: releaseEvent_logged logged_logged)
qed (simp add: logged_def)

lemma moved_clearEarly:
  assumes "n < length (ba_objects a)"
  shows "moved n ((object n a)\<lparr>pp_early := []\<rparr>)
    (concat (map (\<lambda>re. releases (snd re)) (filter (\<lambda>re. Some (fst re) \<noteq> keep) (pp_early (object n a))))) a (clearEarly n keep a)"
  using assms by (simp add: clearEarly_def fold_releaseEvent moved_def alter_def logged_def object_def comp_def)

lemma moved_settle: "n < length (ba_objects a) \<Longrightarrow>
    moved n ((object n a)\<lparr>pp_settled := True\<rparr>) [Settled n x] a (settle_page n x a)"
  by (simp add: settle_page_def moved_def alter_def logged_def object_def)

lemma length_remember: "length (ba_cancelled (rememberCancelledRequestId r a)) \<le> cancelled_capacity"
  by (simp add: rememberCancelledRequestId_def Let_def)

lemma moved_forget_identity: "n < length (ba_objects a) \<Longrightarrow> moved n (object n a) [] a (forget_identity i m a)"
  by (auto simp: forget_identity_def moved_def object_def AList.delete_eq)

lemma moved_forget_request: "n < length (ba_objects a) \<Longrightarrow> moved n (object n a) [] a (forget_request r a)"
  by (simp add: forget_request_def moved_def object_def lookup_delete)

lemma moved_remember: "n < length (ba_objects a) \<Longrightarrow> moved n (object n a) [] a (rememberCancelledRequestId r a)"
  using length_remember [of r a] by (simp add: moved_def object_def rememberCancelledRequestId_def Let_def)

definition cancels :: "string option \<Rightarrow> adapter_effect list" where
  "cancels r = (case r of Some r \<Rightarrow> [CallCancel r] | None \<Rightarrow> [])"

lemma moved_abandon:
  assumes "n < length (ba_objects a)"
  shows "moved n (object n a) (cancels r) a (abandon_request r a)"
proof (cases r)
  case None
  then show ?thesis using moved_logged [OF assms, of "[]"] by (simp add: abandon_request_def cancels_def logged_def)
next
  case (Some q)
  note f = moved_forget_request [OF assms, of q]
  note m = moved_trans [OF f moved_remember [of n "forget_request q a" q]]
  have "moved n (object n a) [] a (rememberCancelledRequestId q (forget_request q a))"
    using m moved_object [OF f] by simp
  from moved_trans [OF this moved_logged [of n _ "[CallCancel q]"]] moved_object [OF this] Some
  show ?thesis by (simp add: abandon_request_def cancels_def)
qed

lemma helper_objects [simp]:
  "ba_objects (logged es a) = ba_objects a" "ba_objects (alter n f a) = (ba_objects a)[n := f (ba_objects a ! n)]"
  "ba_objects (settle_page n x a) = (ba_objects a)[n := (ba_objects a ! n)\<lparr>pp_settled := True\<rparr>]"
  "ba_objects (clearEarly n keep a) = (ba_objects a)[n := (ba_objects a ! n)\<lparr>pp_early := []\<rparr>]"
  "ba_objects (rememberCancelledRequestId r a) = ba_objects a" "ba_objects (forget_identity i m a) = ba_objects a"
  "ba_objects (forget_request r a) = ba_objects a" "ba_objects (abandon_request q a) = ba_objects a"
  by (simp_all add: logged_def alter_def settle_page_def clearEarly_def fold_releaseEvent rememberCancelledRequestId_def
      forget_identity_def forget_request_def abandon_request_def Let_def split: option.split)

definition early_releases :: "string option \<Rightarrow> pending_page \<Rightarrow> adapter_effect list" where
  "early_releases keep ob = concat (map (\<lambda>re. releases (snd re)) (filter (\<lambda>re. Some (fst re) \<noteq> keep) (pp_early ob)))"

lemma helper_log [simp]:
  "ba_log (logged es a) = ba_log a @ es" "ba_log (alter n f a) = ba_log a"
  "ba_log (settle_page n x a) = ba_log a @ [Settled n x]"
  "ba_log (clearEarly n keep a) = ba_log a @ early_releases keep (ba_objects a ! n)"
  "ba_log (rememberCancelledRequestId r a) = ba_log a" "ba_log (forget_identity i m a) = ba_log a"
  "ba_log (forget_request r a) = ba_log a" "ba_log (abandon_request q a) = ba_log a @ cancels q"
  by (simp_all add: logged_def alter_def settle_page_def clearEarly_def fold_releaseEvent rememberCancelledRequestId_def
      forget_identity_def forget_request_def abandon_request_def Let_def cancels_def early_releases_def object_def comp_def
      split: option.split)

lemma helper_disposed [simp]:
  "ba_disposed (logged es a) = ba_disposed a" "ba_disposed (alter n f a) = ba_disposed a"
  "ba_disposed (settle_page n x a) = ba_disposed a" "ba_disposed (clearEarly n keep a) = ba_disposed a"
  "ba_disposed (rememberCancelledRequestId r a) = ba_disposed a" "ba_disposed (forget_identity i m a) = ba_disposed a"
  "ba_disposed (forget_request r a) = ba_disposed a" "ba_disposed (abandon_request q a) = ba_disposed a"
  by (simp_all add: logged_def alter_def settle_page_def clearEarly_def fold_releaseEvent rememberCancelledRequestId_def
      forget_identity_def forget_request_def abandon_request_def Let_def split: option.split)

lemma helper_requests [simp]:
  "ba_byRequestId (logged es a) = ba_byRequestId a" "ba_byRequestId (alter n f a) = ba_byRequestId a"
  "ba_byRequestId (settle_page n x a) = ba_byRequestId a" "ba_byRequestId (clearEarly n keep a) = ba_byRequestId a"
  "ba_byRequestId (rememberCancelledRequestId r a) = ba_byRequestId a"
  "ba_byRequestId (forget_identity i m a) = ba_byRequestId a"
  "ba_byRequestId (forget_request r a) = AList.delete r (ba_byRequestId a)"
  "ba_byRequestId (abandon_request q a) = (case q of Some r \<Rightarrow> AList.delete r (ba_byRequestId a) | None \<Rightarrow> ba_byRequestId a)"
  by (simp_all add: logged_def alter_def settle_page_def clearEarly_def fold_releaseEvent rememberCancelledRequestId_def
      forget_identity_def forget_request_def abandon_request_def Let_def split: option.split)

lemma helper_identities [simp]:
  "ba_byIdentity (logged es a) = ba_byIdentity a" "ba_byIdentity (alter n f a) = ba_byIdentity a"
  "ba_byIdentity (settle_page n x a) = ba_byIdentity a" "ba_byIdentity (clearEarly n keep a) = ba_byIdentity a"
  "ba_byIdentity (rememberCancelledRequestId r a) = ba_byIdentity a"
  "ba_byIdentity (forget_request r a) = ba_byIdentity a" "ba_byIdentity (abandon_request q a) = ba_byIdentity a"
  "ba_byIdentity (forget_identity i m a)
     = (if map_of (ba_byIdentity a) i = Some m then AList.delete i (ba_byIdentity a) else ba_byIdentity a)"
  by (simp_all add: logged_def alter_def settle_page_def clearEarly_def fold_releaseEvent rememberCancelledRequestId_def
      forget_identity_def forget_request_def abandon_request_def Let_def split: option.split)

lemma helper_cancelled [simp]:
  "ba_cancelled (logged es a) = ba_cancelled a" "ba_cancelled (alter n f a) = ba_cancelled a"
  "ba_cancelled (settle_page n x a) = ba_cancelled a" "ba_cancelled (clearEarly n keep a) = ba_cancelled a"
  "ba_cancelled (forget_identity i m a) = ba_cancelled a" "ba_cancelled (forget_request r a) = ba_cancelled a"
  "length (ba_cancelled a) \<le> cancelled_capacity \<Longrightarrow> length (ba_cancelled (abandon_request q a)) \<le> cancelled_capacity"
  by (simp_all add: logged_def alter_def settle_page_def clearEarly_def fold_releaseEvent
      forget_identity_def forget_request_def)
    (simp add: abandon_request_def logged_def length_remember split: option.split)

text \<open>The lookups of a map an operation deletes from are those of the map before.\<close>

lemma lookup_deleted: "map_of (AList.delete k m) i = Some v \<Longrightarrow> map_of m i = Some v"
  by (simp add: lookup_delete split: if_splits)

lemma lookup_case_deleted:
  "map_of (case q of Some r \<Rightarrow> AList.delete r m | None \<Rightarrow> m) i = Some v \<Longrightarrow> map_of m i = Some v"
  by (cases q) (auto dest: lookup_deleted)

lemma lookup_if_deleted: "map_of (if c then AList.delete k m else m) i = Some v \<Longrightarrow> map_of m i = Some v"
  by (cases c) (auto dest: lookup_deleted)

lemma in_deleted: "x \<in> set (AList.delete k m) \<Longrightarrow> x \<in> set m"
  by (simp add: AList.delete_eq)

lemma in_updated: "x \<in> set (AList.update k v m) \<Longrightarrow> x = (k, v) \<or> x \<in> set m"
  by (induction m) (auto split: if_splits)

lemmas lookups_deleted = lookup_deleted lookup_case_deleted lookup_if_deleted in_deleted

lemma moved_finish:
  assumes "n < length (ba_objects a)"
  shows "moved n ((object n a)\<lparr>pp_timer := False, pp_wait := NotWaiting\<rparr>) (releases e) a (finish_page n e i a)"
  using assms by (auto simp: moved_def finish_page_def releaseEvent_logged object_def dest: lookups_deleted)

lemma settled_again:
  "pp_settled ob \<Longrightarrow> ob\<lparr>pp_settled := True, pp_timer := b, pp_wait := w\<rparr> = ob\<lparr>pp_timer := b, pp_wait := w\<rparr>"
  "pp_settled ob \<Longrightarrow> ob\<lparr>pp_cancelled := c, pp_timer := b, pp_early := es, pp_settled := True\<rparr>
     = ob\<lparr>pp_cancelled := c, pp_timer := b, pp_early := es\<rparr>"
  by (cases ob; simp)+

lemma moved_page_failed:
  assumes "n < length (ba_objects a)"
  shows "moved n ((object n a)\<lparr>pp_settled := True, pp_timer := False, pp_wait := NotWaiting\<rparr>)
    ((if pp_settled (object n a) then [] else [Settled n (Inl err)]) @ releases e) a (page_failed n e i err a)"
  using assms
  by (auto simp: moved_def page_failed_def finish_page_def releaseEvent_logged object_def settled_again dest: lookups_deleted)

lemma moved_delivered:
  assumes "n < length (ba_objects a)"
  shows "moved n ((object n a)\<lparr>pp_settled := True, pp_timer := False, pp_wait := NotWaiting\<rparr>)
    ([CreateUrl n (ah_url h (ba_urls a)) e, Settled n (Inr (ImageAsset (ah_url h (ba_urls a)) w ht (Some (int_num bytes))))]
      @ releases e) a (page_delivered h n e i w ht bytes a)"
  using assms
  by (auto simp: moved_def page_delivered_def finish_page_def releaseEvent_logged object_def Let_def dest: lookups_deleted)

section \<open>The invariant\<close>

text \<open>One pending object, where \<open>seen\<close> are the request ids whose completion has arrived.\<close>

definition page_ok :: "string set \<Rightarrow> bool \<Rightarrow> pending_page \<Rightarrow> bool" where
  "page_ok seen disposed ob \<longleftrightarrow>
     (pp_cancelled ob \<longrightarrow> pp_settled ob) \<and> (pp_settled ob \<or> pp_requestId ob \<noteq> None \<longrightarrow> pp_early ob = [])
     \<and> (\<not> pp_settled ob \<longrightarrow> disposed \<or> pp_timer ob)
     \<and> (case pp_wait ob of
          NotWaiting \<Rightarrow> True
        | WaitRead e i \<Rightarrow> pp_receiving ob \<and> pp_early ob = [] \<and> backendKeyIdentity (tc_key e) = pp_identity ob
            \<and> (case tc_outcome e of Ready _ _ (Resource _ _) \<Rightarrow> True | _ \<Rightarrow> False)
        | _ \<Rightarrow> pp_requestId ob = None)
     \<and> (pp_receiving ob \<longrightarrow> (case pp_requestId ob of Some r \<Rightarrow> r \<in> seen | None \<Rightarrow> False))
     \<and> list_all (\<lambda>re. tc_requestId (snd re) = fst re \<and> fst re \<in> seen) (pp_early ob) \<and> distinct (keys (pp_early ob))
     \<and> thumbnailKeyIdentity (tr_key (pp_request ob)) = pp_identity ob"

definition state_ok :: "string set \<Rightarrow> backend_adapter \<Rightarrow> bool" where
  "state_ok seen a \<longleftrightarrow>
     list_all (page_ok seen (ba_disposed a)) (ba_objects a)
     \<and> (\<forall>r m. map_of (ba_byRequestId a) r = Some m \<longrightarrow> m < length (ba_objects a) \<and> pp_requestId (object m a) = Some r)
     \<and> (\<forall>i m. (i, m) \<in> set (ba_byIdentity a) \<longrightarrow> m < length (ba_objects a) \<and> pp_identity (object m a) = i)
     \<and> length (ba_cancelled a) \<le> cancelled_capacity"

fun received_by :: "adapter_effect \<Rightarrow> string multiset" where
  "received_by (TokenReceived t) = {#t#}"
| "received_by _ = {#}"

fun released_by_adapter :: "adapter_effect \<Rightarrow> string multiset" where
  "released_by_adapter (CallRelease t) = {#t#}"
| "released_by_adapter _ = {#}"

definition tokens :: "(adapter_effect \<Rightarrow> string multiset) \<Rightarrow> adapter_effect list \<Rightarrow> string multiset" where
  "tokens f es = sum_list (map f es)"

definition token_of :: "completion_event \<Rightarrow> string multiset" where
  "token_of e = (case event_token e of Some t \<Rightarrow> {#t#} | None \<Rightarrow> {#})"

text \<open>The tokens an object holds: of completions that came before the request id, and of the one being read.\<close>

definition held_by :: "pending_page \<Rightarrow> string multiset" where
  "held_by ob = sum_list (map (\<lambda>re. token_of (snd re)) (pp_early ob))
     + (case pp_wait ob of WaitRead e _ \<Rightarrow> token_of e | _ \<Rightarrow> {#})"

definition held_tokens :: "backend_adapter \<Rightarrow> string multiset" where
  "held_tokens a = sum_list (map held_by (ba_objects a))"

definition settlements :: "nat \<Rightarrow> adapter_effect list \<Rightarrow> nat" where
  "settlements n es = length (filter (\<lambda>e. case e of Settled m _ \<Rightarrow> m = n | _ \<Rightarrow> False) es)"

definition pictures_named :: "pending_page list \<Rightarrow> adapter_effect list \<Rightarrow> bool" where
  "pictures_named obs es \<longleftrightarrow>
     list_all (\<lambda>x. case x of
         CreateUrl n _ e \<Rightarrow> n < length obs \<and> backendKeyIdentity (tc_key e) = pp_identity (obs ! n)
       | _ \<Rightarrow> True) es"

text \<open>
  The invariant. \<open>hand\<close> are the tokens an operation in progress holds itself; the account is kept only while
  \<open>exact\<close>, that is, as long as no completion comes twice.
\<close>

definition sound :: "bool \<Rightarrow> string set \<Rightarrow> string multiset \<Rightarrow> backend_adapter \<Rightarrow> bool" where
  "sound exact seen hand a \<longleftrightarrow> state_ok seen a
     \<and> (exact \<longrightarrow> tokens received_by (ba_log a) = tokens released_by_adapter (ba_log a) + held_tokens a + hand)
     \<and> (\<forall>n. settlements n (ba_log a) = of_bool (n < length (ba_objects a) \<and> pp_settled (object n a)))
     \<and> pictures_named (ba_objects a) (ba_log a)"

lemma tokens_append [simp]: "tokens f (es @ ds) = tokens f es + tokens f ds"
  by (simp add: tokens_def)

lemma tokens_simps [simp]: "tokens f [] = {#}" "tokens f (e # es) = f e + tokens f es"
  by (simp_all add: tokens_def)

lemma settlements_simps [simp]:
  "settlements n [] = 0" "settlements n (es @ ds) = settlements n es + settlements n ds"
  "settlements n (e # es) = (case e of Settled m _ \<Rightarrow> of_bool (m = n) | _ \<Rightarrow> 0) + settlements n es"
  by (simp_all add: settlements_def split: adapter_effect.split)

lemma pictures_simps [simp]:
  "pictures_named obs []" "pictures_named obs (es @ ds) = (pictures_named obs es \<and> pictures_named obs ds)"
  "pictures_named obs (x # es) = ((case x of CreateUrl n _ e \<Rightarrow> n < length obs
     \<and> backendKeyIdentity (tc_key e) = pp_identity (obs ! n) | _ \<Rightarrow> True) \<and> pictures_named obs es)"
  by (simp_all add: pictures_named_def)

lemma releases_facts [simp]:
  "tokens received_by (releases e) = {#}" "tokens released_by_adapter (releases e) = token_of e"
  "settlements n (releases e) = 0" "pictures_named obs (releases e)"
  by (simp_all add: releases_def token_of_def split: option.split)

lemma cancels_facts [simp]:
  "tokens f (cancels q) = (case q of Some r \<Rightarrow> f (CallCancel r) | None \<Rightarrow> {#})" "settlements n (cancels q) = 0"
  "pictures_named obs (cancels q)"
  by (simp_all add: cancels_def split: option.split)

lemma early_releases_facts [simp]:
  "tokens received_by (early_releases keep ob) = {#}" "settlements n (early_releases keep ob) = 0"
  "pictures_named obs (early_releases keep ob)"
proof -
  have "tokens received_by (concat (map (\<lambda>re. releases (snd re)) xs)) = {#}"
    "settlements n (concat (map (\<lambda>re. releases (snd re)) xs)) = 0"
    "pictures_named obs (concat (map (\<lambda>re. releases (snd re)) xs))" for xs :: "(string \<times> completion_event) list"
    by (induction xs) simp_all
  then show "tokens received_by (early_releases keep ob) = {#}" "settlements n (early_releases keep ob) = 0"
    "pictures_named obs (early_releases keep ob)"
    by (simp_all add: early_releases_def)
qed

lemma early_released:
  assumes "\<forall>r. keep = Some r \<longrightarrow> r \<notin> set (keys (pp_early ob))"
  shows "tokens released_by_adapter (early_releases keep ob) = sum_list (map (\<lambda>re. token_of (snd re)) (pp_early ob))"
proof -
  have "filter (\<lambda>re. Some (fst re) \<noteq> keep) (pp_early ob) = pp_early ob"
    using assms by (auto simp: filter_id_conv)
  moreover have "tokens released_by_adapter (concat (map (\<lambda>re. releases (snd re)) xs))
      = sum_list (map (\<lambda>re. token_of (snd re)) xs)" for xs :: "(string \<times> completion_event) list"
    by (induction xs) simp_all
  ultimately show ?thesis by (simp add: early_releases_def)
qed

lemma early_released_but:
  fixes es :: "(string \<times> completion_event) list"
  assumes "distinct (keys es)" and "map_of es r = Some e"
  shows "tokens released_by_adapter (concat (map (\<lambda>re. releases (snd re)) (filter (\<lambda>re. Some (fst re) \<noteq> Some r) es)))
      + token_of e = sum_list (map (\<lambda>re. token_of (snd re)) es)"
  using assms
proof (induction es)
  case (Cons x es)
  show ?case
  proof (cases "fst x = r")
    case True
    then have "\<forall>re \<in> set es. fst re \<noteq> r" using Cons.prems(1) by (metis distinct.simps(2) image_eqI list.set_map list.simps(9))
    then have "filter (\<lambda>re. Some (fst re) \<noteq> Some r) (x # es) = es" using True by (simp add: filter_id_conv)
    moreover have all: "tokens released_by_adapter (concat (map (\<lambda>re. releases (snd re)) xs))
        = sum_list (map (\<lambda>re. token_of (snd re)) xs)" for xs :: "(string \<times> completion_event) list"
      by (induction xs) simp_all
    moreover have "x = (r, e)" using True Cons.prems(2) by (cases x) simp
    ultimately show ?thesis by simp
  next
    case False
    then have "distinct (keys es)" "map_of es r = Some e" using Cons.prems by (cases x; simp)+
    from Cons.IH [OF this] False show ?thesis by simp
  qed
qed simp

lemma early_released_one:
  assumes "distinct (keys (pp_early ob))" and "map_of (pp_early ob) r = Some e"
  shows "tokens released_by_adapter (early_releases (Some r) ob) + token_of e
    = sum_list (map (\<lambda>re. token_of (snd re)) (pp_early ob))"
  using early_released_but [OF assms] by (simp add: early_releases_def)

lemma sound_object:
  assumes "sound exact seen hand a" and "n < length (ba_objects a)"
  shows "page_ok seen (ba_disposed a) (object n a)"
  using assms by (simp add: sound_def state_ok_def list_all_length object_def)

lemma sound_lookups:
  assumes "sound exact seen hand a"
  shows "map_of (ba_byRequestId a) r = Some m \<Longrightarrow> m < length (ba_objects a) \<and> pp_requestId (object m a) = Some r"
    and "map_of (ba_byIdentity a) i = Some m \<Longrightarrow> m < length (ba_objects a) \<and> pp_identity (object m a) = i"
  using assms by (auto simp: sound_def state_ok_def dest: map_of_SomeD)

text \<open>Replacing one object of the store.\<close>

lemma held_replaced:
  assumes "n < length obs"
  shows "sum_list (map held_by (obs[n := ob])) + held_by (obs ! n) = sum_list (map held_by obs) + held_by ob"
  using assms by (induction obs arbitrary: n) (auto simp: nth_Cons' less_Suc_eq_0_disj split: nat.split)

lemma pictures_replaced:
  assumes "pictures_named obs es" and "pp_identity ob = pp_identity (obs ! n)" and "n < length obs"
  shows "pictures_named (obs[n := ob]) es"
  using assms by (induction es) (auto simp: nth_list_update split: adapter_effect.split)

text \<open>What a change of one object has to satisfy to keep the invariant.\<close>

definition accounted :: "nat \<Rightarrow> pending_page \<Rightarrow> pending_page \<Rightarrow> adapter_effect list \<Rightarrow> bool" where
  "accounted n ob ob' es \<longleftrightarrow>
     (\<forall>m. settlements m es = of_bool (m = n \<and> pp_settled ob' \<and> \<not> pp_settled ob)) \<and> (pp_settled ob \<longrightarrow> pp_settled ob')
     \<and> tokens received_by es = {#}"

lemma moved_sound:
  assumes inv: "sound exact seen hand a" and m: "moved n ob es a a'"
    and ok: "page_ok seen (ba_disposed a) ob" and acc: "accounted n (object n a) ob es"
    and held: "exact \<Longrightarrow> held_by (object n a) + hand = tokens released_by_adapter es + held_by ob + hand'"
    and pics: "pictures_named (ba_objects a) es"
  shows "sound exact seen hand' a'"
proof -
  have n: "n < length (ba_objects a)" and obs: "ba_objects a' = (ba_objects a)[n := ob]"
    and log: "ba_log a' = ba_log a @ es" and disp: "ba_disposed a' = ba_disposed a"
    and ident: "pp_identity ob = pp_identity (ba_objects a ! n)"
    using m by (simp_all add: moved_def object_def)
  have object: "object k a' = (if k = n then ob else object k a)" if "k < length (ba_objects a)" for k
    using that n by (simp add: object_def obs)
  have "list_all (page_ok seen (ba_disposed a')) (ba_objects a')"
    using inv ok n by (simp add: sound_def state_ok_def obs disp list_all_length nth_list_update)
  moreover have "k < length (ba_objects a') \<and> pp_requestId (object k a') = Some r"
    if "map_of (ba_byRequestId a') r = Some k" for r k
  proof -
    have "map_of (ba_byRequestId a) r = Some k \<or> k = n \<and> pp_requestId ob = Some r"
      using m that unfolding moved_def by blast
    then show ?thesis
    proof
      assume "map_of (ba_byRequestId a) r = Some k"
      from sound_lookups(1) [OF inv this] m object [of k] show ?thesis by (auto simp: moved_def)
    next
      assume "k = n \<and> pp_requestId ob = Some r"
      then show ?thesis using object [of n] n obs by simp
    qed
  qed
  moreover have "k < length (ba_objects a') \<and> pp_identity (object k a') = i"
    if "(i, k) \<in> set (ba_byIdentity a')" for i k
  proof -
    have "(i, k) \<in> set (ba_byIdentity a)" using m that unfolding moved_def by blast
    then have "k < length (ba_objects a) \<and> pp_identity (object k a) = i" using inv by (simp add: sound_def state_ok_def)
    then show ?thesis using ident obs n by (cases "k = n") (auto simp: object_def)
  qed
  moreover have "length (ba_cancelled a') \<le> cancelled_capacity"
    using inv m by (simp add: sound_def state_ok_def moved_def)
  ultimately have "state_ok seen a'" by (auto simp: state_ok_def)
  moreover have "tokens received_by (ba_log a') = tokens released_by_adapter (ba_log a') + held_tokens a' + hand'" if exact
  proof -
    have "tokens received_by (ba_log a') + held_by (object n a)
        = tokens released_by_adapter (ba_log a) + (held_tokens a + (held_by (object n a) + hand))"
      using inv acc that by (simp add: sound_def log accounted_def ac_simps)
    also have "\<dots> = tokens released_by_adapter (ba_log a') + (held_tokens a + held_by ob) + hand'"
      using held [OF that] by (simp add: log ac_simps)
    also have "held_tokens a + held_by ob = held_tokens a' + held_by (object n a)"
      using held_replaced [OF n] by (simp add: held_tokens_def obs object_def)
    finally show ?thesis by (simp add: ac_simps)
  qed
  moreover have "settlements k (ba_log a') = of_bool (k < length (ba_objects a') \<and> pp_settled (object k a'))" for k
    using inv acc n object [of k] by (auto simp: sound_def log accounted_def obs)
  moreover have "pictures_named (ba_objects a') (ba_log a')"
    using inv pics pictures_replaced [OF _ ident n] by (simp add: sound_def log obs)
  ultimately show ?thesis by (simp add: sound_def)
qed

lemma accountedI:
  assumes "\<And>m. settlements m es = of_bool (m = n \<and> pp_settled ob' \<and> \<not> pp_settled ob)"
    and "pp_settled ob \<Longrightarrow> pp_settled ob'" and "tokens received_by es = {#}"
  shows "accounted n ob ob' es"
  using assms by (simp add: accounted_def)

section \<open>Every operation keeps the invariant\<close>

lemma resolve_sound:
  assumes "sound exact seen hand a"
  shows "sound exact seen hand (resolve_page request a)"
proof -
  let ?n = "length (ba_objects a)"
  have object: "(ba_objects a @ [ob]) ! k = (if k < ?n then object k a else ob)" if "k < Suc ?n" for k ob
    using that by (auto simp: object_def nth_append)
  have pics: "pictures_named (ba_objects a @ [ob]) (ba_log a)" for ob
  proof -
    have "pictures_named (obs @ [ob]) es" if "pictures_named obs es" for obs es
      using that by (induction es) (auto simp: nth_append split: adapter_effect.split)
    then show ?thesis using assms by (simp add: sound_def)
  qed
  have unsettled: "settlements ?n (ba_log a) = 0" using assms by (simp add: sound_def)
  show ?thesis
  proof (cases "ba_disposed a")
    case True
    then show ?thesis
      using assms pics unsettled
      by (auto simp: resolve_page_def sound_def state_ok_def page_ok_def held_tokens_def held_by_def Let_def object_def
          nth_append less_Suc_eq)
  next
    case False
    then show ?thesis
      using assms pics unsettled
      by (auto simp: resolve_page_def sound_def state_ok_def page_ok_def held_tokens_def held_by_def Let_def object_def
          nth_append less_Suc_eq dest!: in_updated)
  qed
qed

lemma timeout_sound:
  assumes inv: "sound exact seen hand a" and n: "n < length (ba_objects a)"
  shows "sound exact seen hand (timeout_fired n a)"
proof (cases "pp_cancelled (object n a) \<or> pp_settled (object n a)")
  case True
  have "page_ok seen (ba_disposed a) ((object n a)\<lparr>pp_timer := False\<rparr>)"
    using sound_object [OF inv n] True by (auto simp: page_ok_def split: page_wait.splits)
  moreover have "moved n ((object n a)\<lparr>pp_timer := False\<rparr>) [] a (timeout_fired n a)"
    using n True by (simp add: timeout_fired_def Let_def moved_def object_def)
  ultimately show ?thesis
    by - (rule moved_sound [OF inv], assumption+, simp_all add: accounted_def held_by_def)
next
  case False
  let ?ob = "(object n a)\<lparr>pp_timer := False, pp_cancelled := True, pp_early := [], pp_settled := True\<rparr>"
  let ?es = "cancels (pp_requestId (object n a)) @ early_releases None (object n a) @ [Settled n (Inl (errorFrom
      ''Thumbnail completion timed out'' ''THUMBNAIL_COMPLETION_TIMEOUT'' False))]"
  have m: "moved n ?ob ?es a (timeout_fired n a)"
    using n False
    by (auto simp: moved_def timeout_fired_def object_def Let_def early_releases_def dest: lookups_deleted)
  have ok: "page_ok seen (ba_disposed a) ?ob"
    using sound_object [OF inv n] by (auto simp: page_ok_def split: page_wait.splits)
  have acc: "accounted n (object n a) ?ob ?es"
    using False by (auto intro!: accountedI split: option.split)
  show ?thesis
    by (rule moved_sound [OF inv m ok acc]) (simp_all add: held_by_def early_released split: option.split)
qed

lemma reprioritize_sound:
  assumes inv: "sound exact seen hand a"
  shows "sound exact seen hand (reprioritize_page request a)"
proof (cases "map_of (ba_byIdentity a) (thumbnailKeyIdentity (tr_key request))")
  case None
  then show ?thesis using inv by (simp add: reprioritize_page_def)
next
  case (Some n)
  from sound_lookups(2) [OF inv this] have n: "n < length (ba_objects a)"
    and i: "pp_identity (object n a) = thumbnailKeyIdentity (tr_key request)" by simp_all
  let ?ob = "(object n a)\<lparr>pp_request := request\<rparr>"
  let ?es = "(case pp_requestId (object n a) of Some r \<Rightarrow> [CallReprioritize r (tr_priority request)] | None \<Rightarrow> [])"
  have m: "moved n ?ob ?es a (reprioritize_page request a)"
    using n Some by (auto simp: moved_def reprioritize_page_def object_def Let_def split: option.split)
  have ok: "page_ok seen (ba_disposed a) ?ob"
    using sound_object [OF inv n] i by (auto simp: page_ok_def split: page_wait.splits)
  have acc: "accounted n (object n a) ?ob ?es" by (auto intro!: accountedI split: option.split)
  show ?thesis
    by (rule moved_sound [OF inv m ok acc]) (simp_all add: held_by_def split: option.split)
qed

lemma cancel_sound:
  assumes inv: "sound exact seen hand a"
  shows "sound exact seen hand (cancel_page request a)"
proof (cases "map_of (ba_byIdentity a) (thumbnailKeyIdentity (tr_key request))")
  case None
  then show ?thesis using inv by (simp add: cancel_page_def)
next
  case (Some n)
  from sound_lookups(2) [OF inv this] have n: "n < length (ba_objects a)" by simp
  let ?ob = "(object n a)\<lparr>pp_cancelled := True, pp_timer := False, pp_early := [], pp_settled := True\<rparr>"
  let ?es = "early_releases None (object n a) @ cancels (pp_requestId (object n a))
    @ (if pp_settled (object n a) then [] else [Settled n (Inl (cancelled_error ''Thumbnail request was cancelled''))])"
  have m: "moved n ?ob ?es a (cancel_page request a)"
    using n Some
    by (auto simp: moved_def cancel_page_def object_def Let_def early_releases_def settled_again dest: lookups_deleted)
  have ok: "page_ok seen (ba_disposed a) ?ob"
    using sound_object [OF inv n] by (auto simp: page_ok_def split: page_wait.splits)
  have acc: "accounted n (object n a) ?ob ?es" by (auto intro!: accountedI split: option.split)
  show ?thesis
    by (rule moved_sound [OF inv m ok acc]) (simp_all add: held_by_def early_released split: option.split)
qed

lemma dispose_page_sound:
  assumes inv: "sound exact seen hand a" and n: "n < length (ba_objects a)"
  shows "sound exact seen hand (dispose_page n a)"
proof -
  let ?ob = "(object n a)\<lparr>pp_cancelled := True, pp_timer := False, pp_early := [], pp_settled := True\<rparr>"
  let ?es = "early_releases None (object n a) @ cancels (pp_requestId (object n a))
    @ (if pp_settled (object n a) then [] else [Settled n (Inl (cancelled_error ''Thumbnail adapter is disposed''))])"
  have m: "moved n ?ob ?es a (dispose_page n a)"
    using n length_remember
    by (auto simp: moved_def dispose_page_def object_def Let_def early_releases_def settled_again cancels_def
        split: option.split)
  have ok: "page_ok seen (ba_disposed a) ?ob"
    using sound_object [OF inv n] by (auto simp: page_ok_def split: page_wait.splits)
  have acc: "accounted n (object n a) ?ob ?es" by (auto intro!: accountedI split: option.split)
  show ?thesis
    by (rule moved_sound [OF inv m ok acc]) (simp_all add: held_by_def early_released split: option.split)
qed

lemma dispose_pages_sound:
  assumes "sound exact seen hand a" and "\<forall>n \<in> set ns. n < length (ba_objects a)"
  shows "sound exact seen hand (fold dispose_page ns a)"
  using assms
proof (induction ns arbitrary: a)
  case (Cons n ns)
  have "length (ba_objects (dispose_page n a)) = length (ba_objects a)"
    by (simp add: dispose_page_def Let_def split: option.split)
  then show ?case using Cons dispose_page_sound [of exact seen hand a n] by simp
qed simp

text \<open>Parts of the state the invariant does not read.\<close>

lemma sound_fields:
  assumes "sound exact seen hand a" and "ba_objects a' = ba_objects a" and "ba_disposed a \<longrightarrow> ba_disposed a'"
    and "\<And>r m. map_of (ba_byRequestId a') r = Some m \<Longrightarrow> map_of (ba_byRequestId a) r = Some m"
    and "set (ba_byIdentity a') \<subseteq> set (ba_byIdentity a)" and "length (ba_cancelled a') \<le> cancelled_capacity"
    and "ba_log a' = ba_log a @ es" and "exact \<longrightarrow> tokens received_by es + hand = tokens released_by_adapter es + hand'"
    and "\<And>n. settlements n es = 0" "pictures_named (ba_objects a) es"
  shows "sound exact seen hand' a'"
proof -
  have "page_ok seen (ba_disposed a') ob" if "page_ok seen (ba_disposed a) ob" for ob
    using that assms(3) by (auto simp: page_ok_def)
  then have "list_all (page_ok seen (ba_disposed a')) (ba_objects a')"
    using assms(1,2) by (simp add: sound_def state_ok_def list_all_iff)
  moreover have "\<forall>i m. (i, m) \<in> set (ba_byIdentity a') \<longrightarrow> m < length (ba_objects a') \<and> pp_identity (object m a') = i"
    using assms(1,2,5) by (auto simp: sound_def state_ok_def object_def)
  moreover have "\<forall>r m. map_of (ba_byRequestId a') r = Some m \<longrightarrow> m < length (ba_objects a') \<and> pp_requestId (object m a') = Some r"
    using sound_lookups(1) [OF assms(1) assms(4)] assms(2) by (simp add: object_def)
  ultimately have "state_ok seen a'" using assms(6) by (simp add: state_ok_def)
  moreover have "tokens received_by (ba_log a') = tokens released_by_adapter (ba_log a') + held_tokens a' + hand'" if exact
  proof -
    have "tokens received_by (ba_log a') = tokens released_by_adapter (ba_log a) + held_tokens a + (tokens received_by es + hand)"
      using assms(1,7) that by (simp add: sound_def ac_simps)
    then show ?thesis using assms(2,7,8) that by (simp add: held_tokens_def ac_simps)
  qed
  ultimately show ?thesis using assms(1,2,7,9,10) by (simp add: sound_def object_def)
qed

lemma dispose_sound:
  assumes inv: "sound exact seen hand a"
  shows "sound exact seen hand (dispose_adapter a)"
proof -
  let ?es = "(if ba_unlisten a then [CallUnlisten] else []) @ map RevokeUrl (vals (ba_displayUrls a))"
  let ?a = "logged ?es (a\<lparr>ba_disposed := True, ba_unlisten := False, ba_displayUrls := []\<rparr>)"
  have quiet: "tokens received_by (map RevokeUrl us) = {#}" "tokens released_by_adapter (map RevokeUrl us) = {#}"
    "settlements n (map RevokeUrl us) = 0" "pictures_named obs (map RevokeUrl us)" for n us obs
    by (induction us) simp_all
  have one: "sound exact seen hand ?a"
    by (rule sound_fields [OF inv, of _ ?es]) (use inv in \<open>auto simp: logged_def quiet sound_def state_ok_def simp del: map_map\<close>)
  have "\<forall>n \<in> set (vals (ba_byIdentity a)). n < length (ba_objects ?a)"
    using inv by (auto simp: sound_def state_ok_def)
  from dispose_pages_sound [OF one this]
  have two: "sound exact seen hand (fold dispose_page (vals (ba_byIdentity a)) ?a)" (is "sound _ _ _ ?b") .
  have "sound exact seen hand (?b\<lparr>ba_byIdentity := [], ba_byRequestId := [], ba_cancelled := []\<rparr>)"
    by (rule sound_fields [OF two, of _ "[]"]) simp_all
  then show ?thesis by (simp add: dispose_adapter_def Let_def)
qed

lemma sound_quiet:
  assumes "sound exact seen hand a"
    and "ba_objects a' = ba_objects a \<and> ba_disposed a' = ba_disposed a \<and> ba_byRequestId a' = ba_byRequestId a
      \<and> ba_byIdentity a' = ba_byIdentity a \<and> length (ba_cancelled a') \<le> length (ba_cancelled a)"
    and "ba_log a' = ba_log a @ es" and "exact \<longrightarrow> tokens received_by es + hand = tokens released_by_adapter es + hand'"
    and "\<And>n. settlements n es = 0" and "pictures_named (ba_objects a) es"
  shows "sound exact seen hand' a'"
  using assms(2) assms(1) by (intro sound_fields [OF assms(1) _ _ _ _ _ assms(3-6)]) (auto simp: sound_def state_ok_def)

lemma release_sound:
  assumes "sound exact seen hand a"
  shows "sound exact seen hand (release_page request asset a)"
proof (cases asset)
  case (ImageAsset url w ht bytes)
  show ?thesis
    by (rule sound_quiet [OF assms, where es = "[RevokeUrl url]"])
      (use ImageAsset in \<open>auto simp: release_page_def logged_def Let_def\<close>)
qed (use assms in \<open>simp_all add: release_page_def\<close>)

lemma display_failed_sound:
  assumes "sound exact seen hand a"
  shows "sound exact seen hand (display_failed request a)"
proof -
  let ?es = "case map_of (ba_displayUrls a) (thumbnailKeyIdentity (tr_key request)) of
      Some url \<Rightarrow> (if url = [] then [] else [RevokeUrl url]) | None \<Rightarrow> []"
  show ?thesis
    by (rule sound_quiet [OF assms, where es = "?es @ [CallInvalidate (backendKey (tr_key request))]"])
      (auto simp: display_failed_def logged_def Let_def split: option.split)
qed

lemma releaseEvent_sound:
  assumes "sound exact seen (hand + token_of e) a"
  shows "sound exact seen hand (releaseEvent e a)"
  by (rule sound_quiet [OF assms, where es = "releases e"])
    (auto simp: releaseEvent_logged logged_def)

lemma received_sound:
  assumes "sound exact seen hand a"
  shows "sound exact seen (hand + token_of e) (case event_token e of Some t \<Rightarrow> logged [TokenReceived t] a | None \<Rightarrow> a)"
  by (rule sound_quiet [OF assms, where es = "case event_token e of Some t \<Rightarrow> [TokenReceived t] | None \<Rightarrow> []"])
    (auto simp: logged_def token_of_def split: option.split)

lemma sound_seen: "sound exact seen hand a \<Longrightarrow> seen \<subseteq> seen' \<Longrightarrow> sound exact seen' hand a"
proof -
  assume a: "sound exact seen hand a" "seen \<subseteq> seen'"
  have "page_ok seen' d ob" if "page_ok seen d ob" for d ob
    using that a(2) unfolding page_ok_def by (auto simp: list_all_iff split: option.splits)
  then show ?thesis using a(1) by (simp add: sound_def state_ok_def list_all_iff)
qed

lemma start_failed_sound:
  assumes inv: "sound exact seen hand a" and n: "n < length (ba_objects a)"
    and wait: "case pp_wait (object n a) of WaitRead _ _ \<Rightarrow> False | _ \<Rightarrow> True"
  shows "sound exact seen hand (start_failed n thrown a)"
proof -
  let ?ob = "(object n a)\<lparr>pp_timer := False, pp_wait := NotWaiting, pp_early := [], pp_settled := True\<rparr>"
  let ?es = "early_releases None (object n a) @ (if pp_settled (object n a) then []
      else [Settled n (Inl (or_value thrown (errorFrom ''Thumbnail request failed'' [] False)))])"
  have same: "pp_settled ob \<Longrightarrow> ob\<lparr>pp_timer := False, pp_wait := NotWaiting, pp_early := [], pp_settled := True\<rparr>
      = ob\<lparr>pp_timer := False, pp_wait := NotWaiting, pp_early := []\<rparr>" for ob
    by (cases ob) simp
  have ok0: "page_ok seen (ba_disposed a) (object n a)" using sound_object [OF inv n] .
  then have settled: "pp_cancelled (object n a) \<longrightarrow> pp_settled (object n a)" by (simp add: page_ok_def)
  have m: "moved n ?ob ?es a (start_failed n thrown a)"
    using n settled
    by (auto simp: moved_def start_failed_def object_def Let_def early_releases_def same dest: lookups_deleted split: option.splits)
  have ok: "page_ok seen (ba_disposed a) ?ob"
    using ok0 by (auto simp: page_ok_def)
  have acc: "accounted n (object n a) ?ob ?es" by (auto intro!: accountedI split: option.split)
  show ?thesis
    by (rule moved_sound [OF inv m ok acc])
      (use wait in \<open>auto simp: held_by_def early_released split: option.split page_wait.splits\<close>)
qed

lemma listener_awaited_sound:
  assumes inv: "sound exact seen hand a" and n: "n < length (ba_objects a)"
  shows "sound exact seen hand (listener_awaited n a)"
proof (cases "pp_wait (object n a)")
  case (WaitListener p)
  show ?thesis
  proof (cases "ba_listener a")
    case ListenerOn
    let ?ob = "(object n a)\<lparr>pp_wait := (if pp_cancelled (object n a) then NotWaiting else WaitRequest p)\<rparr>"
    let ?es = "if pp_cancelled (object n a) then [] else [CallRequest (requestDto (pp_request (object n a)))]"
    have m: "moved n ?ob ?es a (listener_awaited n a)"
      using n WaitListener ListenerOn by (auto simp: moved_def listener_awaited_def object_def)
    have ok: "page_ok seen (ba_disposed a) ?ob"
      using sound_object [OF inv n] WaitListener by (auto simp: page_ok_def)
    have acc: "accounted n (object n a) ?ob ?es" by (auto intro!: accountedI)
    show ?thesis by (rule moved_sound [OF inv m ok acc]) (use WaitListener in \<open>auto simp: held_by_def\<close>)
  next
    case (ListenerFailed err)
    then show ?thesis using start_failed_sound [OF inv n] WaitListener by (simp add: listener_awaited_def)
  qed (use inv WaitListener in \<open>simp add: listener_awaited_def\<close>)
qed (use inv in \<open>simp_all add: listener_awaited_def\<close>)

lemma finish_sound:
  assumes inv: "sound exact seen hand a" and n: "n < length (ba_objects a)"
    and settled: "pp_settled (object n a) \<or> ba_disposed a"
    and held: "(case pp_wait (object n a) of WaitRead e' _ \<Rightarrow> token_of e' | _ \<Rightarrow> {#}) + hand = token_of e + hand'"
  shows "sound exact seen hand' (finish_page n e i a)"
proof -
  let ?ob = "(object n a)\<lparr>pp_timer := False, pp_wait := NotWaiting\<rparr>"
  have ok: "page_ok seen (ba_disposed a) ?ob"
    using sound_object [OF inv n] settled by (auto simp: page_ok_def)
  have acc: "accounted n (object n a) ?ob (releases e)" by (auto intro!: accountedI)
  show ?thesis
    by (rule moved_sound [OF inv moved_finish [OF n] ok acc]) (use held in \<open>simp_all add: held_by_def ac_simps\<close>)
qed

lemma page_failed_sound:
  assumes inv: "sound exact seen hand a" and n: "n < length (ba_objects a)" and early: "pp_early (object n a) = []"
    and held: "(case pp_wait (object n a) of WaitRead e' _ \<Rightarrow> token_of e' | _ \<Rightarrow> {#}) + hand = token_of e + hand'"
  shows "sound exact seen hand' (page_failed n e i err a)"
proof -
  let ?ob = "(object n a)\<lparr>pp_settled := True, pp_timer := False, pp_wait := NotWaiting\<rparr>"
  have ok: "page_ok seen (ba_disposed a) ?ob"
    using sound_object [OF inv n] early by (auto simp: page_ok_def)
  have acc: "accounted n (object n a) ?ob ((if pp_settled (object n a) then [] else [Settled n (Inl err)]) @ releases e)"
    by (auto intro!: accountedI)
  show ?thesis
    by (rule moved_sound [OF inv moved_page_failed [OF n] ok acc]) (use held in \<open>simp_all add: held_by_def ac_simps\<close>)
qed

lemma delivered_sound:
  assumes inv: "sound exact seen hand a" and n: "n < length (ba_objects a)" and early: "pp_early (object n a) = []"
    and held: "(case pp_wait (object n a) of WaitRead e' _ \<Rightarrow> token_of e' | _ \<Rightarrow> {#}) + hand = token_of e + hand'"
    and unsettled: "\<not> pp_settled (object n a)" and named: "backendKeyIdentity (tc_key e) = pp_identity (object n a)"
  shows "sound exact seen hand' (page_delivered h n e i w ht bytes a)"
proof -
  let ?ob = "(object n a)\<lparr>pp_settled := True, pp_timer := False, pp_wait := NotWaiting\<rparr>"
  let ?es = "[CreateUrl n (ah_url h (ba_urls a)) e, Settled n (Inr (ImageAsset (ah_url h (ba_urls a)) w ht (Some (int_num bytes))))]
      @ releases e"
  have ok: "page_ok seen (ba_disposed a) ?ob"
    using sound_object [OF inv n] early by (auto simp: page_ok_def)
  have acc: "accounted n (object n a) ?ob ?es" using unsettled by (auto intro!: accountedI)
  show ?thesis
    by (rule moved_sound [OF inv moved_delivered [OF n] ok acc])
      (use held named n in \<open>simp_all add: held_by_def object_def ac_simps\<close>)
qed

lemma read_answered_sound:
  assumes inv: "sound exact seen hand a" and n: "n < length (ba_objects a)"
  shows "sound exact seen hand (read_answered h n answer a)"
proof (cases "pp_wait (object n a)")
  case (WaitRead e i)
  have ok: "page_ok seen (ba_disposed a) (object n a)" using sound_object [OF inv n] .
  then have early: "pp_early (object n a) = []" and named: "backendKeyIdentity (tc_key e) = pp_identity (object n a)"
    and settled: "pp_cancelled (object n a) \<longrightarrow> pp_settled (object n a)"
    and body: "\<exists>w ht t b. tc_outcome e = Ready w ht (Resource t b)"
    using WaitRead by (auto simp: page_ok_def split: completion_outcome.splits picture_body.splits)
  have held: "(case pp_wait (object n a) of WaitRead e' _ \<Rightarrow> token_of e' | _ \<Rightarrow> {#}) + hand = token_of e + hand"
    using WaitRead by simp
  note failed = page_failed_sound [OF inv n early held] and delivered = delivered_sound [OF inv n early held _ named]
    and finish = finish_sound [OF inv n _ held]
  show ?thesis
    using WaitRead settled body failed delivered finish
    by (auto simp: read_answered_def split: sum.splits)
qed (use inv in \<open>simp_all add: read_answered_def\<close>)

lemma keysEqual_iff: "keysEqual k k' \<longleftrightarrow> k = k'"
  by (induction k k' rule: keysEqual.induct) auto

lemma backendKeyIdentity_backendKey: "backendKeyIdentity (backendKey k) = thumbnailKeyIdentity k"
  by (cases k) simp_all

lemma receive_sound:
  assumes inv: "sound exact seen (hand + token_of e) a0" and n: "n < length (ba_objects a0)"
    and known: "pp_requestId (object n a0) = Some r" "r \<in> seen" and fresh: "\<not> pp_receiving (object n a0)"
  shows "sound exact seen hand (receive_page h n e a0)"
proof -
  have ok0: "page_ok seen (ba_disposed a0) (object n a0)" using sound_object [OF inv n] .
  then have early0: "pp_early (object n a0) = []" and wait0: "pp_wait (object n a0) = NotWaiting"
    and name0: "thumbnailKeyIdentity (tr_key (pp_request (object n a0))) = pp_identity (object n a0)"
    and settled0: "pp_cancelled (object n a0) \<longrightarrow> pp_settled (object n a0)"
    using known fresh by (auto simp: page_ok_def split: page_wait.splits)
  define a where "a = clearEarly n (Some (tc_requestId e)) (alter n (pp_receiving_update (\<lambda>_. True)) a0)"
  let ?ob = "(object n a0)\<lparr>pp_receiving := True\<rparr>"
  have same: "(ba_objects a0 ! n)\<lparr>pp_receiving := True, pp_early := []\<rparr> = (ba_objects a0 ! n)\<lparr>pp_receiving := True\<rparr>"
    using early0 by (cases "ba_objects a0 ! n") (simp add: object_def)
  have m: "moved n ?ob [] a0 a"
    using n early0 by (auto simp: moved_def a_def object_def early_releases_def same)
  have "page_ok seen (ba_disposed a0) ?ob" using ok0 known wait0 by (simp add: page_ok_def)
  moreover have "accounted n (object n a0) ?ob []" by (simp add: accounted_def)
  ultimately have snd: "sound exact seen (hand + token_of e) a"
    by - (rule moved_sound [OF inv m], assumption+, simp_all add: held_by_def)
  have object: "object n a = ?ob" and na: "n < length (ba_objects a)" using moved_object [OF m] by simp_all
  have early: "pp_early (object n a) = []" and wait: "pp_wait (object n a) = NotWaiting"
    and settled: "pp_cancelled (object n a) \<longrightarrow> pp_settled (object n a)"
    using object early0 wait0 settled0 by simp_all
  have held: "(case pp_wait (object n a) of WaitRead e' _ \<Rightarrow> token_of e' | _ \<Rightarrow> {#}) + (hand + token_of e) = token_of e + hand"
    using wait by (simp add: ac_simps)
  let ?i = "thumbnailKeyIdentity (tr_key (pp_request (object n a)))"
  have named: "backendKeyIdentity (tc_key e) = pp_identity (object n a)"
    if "keysEqual (tc_key e) (backendKey (tr_key (pp_request (object n a))))"
    using that name0 object by (simp add: keysEqual_iff backendKeyIdentity_backendKey)
  note failed = page_failed_sound [OF snd na early held]
  show ?thesis
  proof (cases "pp_settled (object n a)")
    case True
    then have "receive_page h n e a0 = finish_page n e ?i a" by (simp add: receive_page_def Let_def a_def)
    then show ?thesis using finish_sound [OF snd na _ held] True by simp
  next
    case False
    show ?thesis
    proof (cases "keysEqual (tc_key e) (backendKey (tr_key (pp_request (object n a))))")
      case False
      then show ?thesis using failed settled \<open>\<not> pp_settled (object n a)\<close> by (simp add: receive_page_def Let_def a_def)
    next
      case True
      note delivered = delivered_sound [OF snd na early held False named [OF True]]
      have cont: "sound exact seen hand (logged [CallRead t] (alter n (pp_wait_update (\<lambda>_. WaitRead e ?i)) a))"
        if out: "tc_outcome e = Ready w ht (Resource t bytes)" for t w ht bytes
      proof -
        let ?rd = "(object n a)\<lparr>pp_wait := WaitRead e ?i\<rparr>"
        have m: "moved n ?rd [CallRead t] a (logged [CallRead t] (alter n (pp_wait_update (\<lambda>_. WaitRead e ?i)) a))"
          using na by (auto simp: moved_def object_def)
        have ok: "page_ok seen (ba_disposed a) ?rd"
          using sound_object [OF snd na] early named [OF True] out object by (simp add: page_ok_def)
        have acc: "accounted n (object n a) ?rd [CallRead t]" by (simp add: accounted_def)
        show ?thesis
          by (rule moved_sound [OF snd m ok acc]) (use wait in \<open>simp_all add: held_by_def ac_simps\<close>)
      qed
      show ?thesis
        using True False settled failed delivered cont
        by (auto simp: receive_page_def Let_def simp flip: a_def split: completion_outcome.split picture_body.split)
    qed
  qed
qed

lemma complete_sound:
  assumes inv: "sound exact seen (hand + token_of e) a" and seen: "tc_requestId e \<in> seen"
    and once: "\<And>n. exact \<Longrightarrow> map_of (ba_byRequestId a) (tc_requestId e) = Some n \<Longrightarrow> \<not> pp_receiving (object n a)"
    and new: "\<And>n. exact \<Longrightarrow> handshaking a e = Some n \<Longrightarrow> map_of (ba_byRequestId a) (tc_requestId e) = None
      \<Longrightarrow> tc_requestId e \<notin> set (keys (pp_early (object n a)))"
  shows "sound exact seen hand (complete_event h e a)"
proof -
  have released: "sound exact seen hand (releaseEvent e a)" using releaseEvent_sound [OF inv] .
  show ?thesis
  proof (cases "ba_disposed a")
    case True
    then show ?thesis using released by (simp add: complete_event_def)
  next
    case live: False
    show ?thesis
    proof (cases "tc_requestId e \<in> set (ba_cancelled a)")
      case True
      have "sound exact seen (hand + token_of e) (a\<lparr>ba_cancelled := set_delete (tc_requestId e) (ba_cancelled a)\<rparr>)"
        by (rule sound_quiet [OF inv, where es = "[]"]) (simp_all add: set_delete_def)
      from releaseEvent_sound [OF this] True live show ?thesis by (simp add: complete_event_def)
    next
      case kept: False
      show ?thesis
      proof (cases "map_of (ba_byRequestId a) (tc_requestId e)")
        case (Some n)
        from sound_lookups(1) [OF inv this] have n: "n < length (ba_objects a)"
          and r: "pp_requestId (object n a) = Some (tc_requestId e)" by simp_all
        show ?thesis
        proof (cases "pp_receiving (object n a)")
          case True
          then have "\<not> exact" using once Some by blast
          then have "sound exact seen hand a" using inv by (simp add: sound_def)
          then show ?thesis using Some True live kept by (simp add: complete_event_def)
        next
          case False
          from receive_sound [OF inv n r seen False] Some False live kept show ?thesis by (simp add: complete_event_def)
        qed
      next
        case None
        show ?thesis
        proof (cases "handshaking a e")
          case None
          with \<open>map_of _ _ = None\<close> show ?thesis using released live kept by (simp add: complete_event_def)
        next
          case (Some n)
          then have "map_of (ba_byIdentity a) (backendKeyIdentity (tc_key e)) = Some n"
            and r: "pp_requestId (object n a) = None" and st: "\<not> pp_settled (object n a)"
            by (auto simp: handshaking_def split: option.splits if_splits)
          from sound_lookups(2) [OF inv this(1)] have n: "n < length (ba_objects a)" by simp
          let ?ob = "pp_early_update (AList.update (tc_requestId e) e) (object n a)"
          have m: "moved n ?ob [] a (alter n (pp_early_update (AList.update (tc_requestId e) e)) a)"
            using n by (simp add: moved_def object_def)
          have "list_all P (AList.update k v m)" if "list_all P m" "P (k, v)" for P :: "string \<times> completion_event \<Rightarrow> bool" and k v m
            using that by (induction m) auto
          then have ok: "page_ok seen (ba_disposed a) ?ob"
            using sound_object [OF inv n] seen r st by (auto simp: page_ok_def split: page_wait.splits)
          have acc: "accounted n (object n a) ?ob []" by (simp add: accounted_def)
          have "sum_list (map (\<lambda>re. token_of (snd re)) (AList.update k v m)) = sum_list (map (\<lambda>re. token_of (snd re)) m) + token_of v"
            if "k \<notin> set (keys m)" for k v and m :: "(string \<times> completion_event) list"
            using that by (induction m) (auto simp: ac_simps)
          then have "sound exact seen hand (alter n (pp_early_update (AList.update (tc_requestId e) e)) a)"
            using new [OF _ Some \<open>map_of (ba_byRequestId a) _ = None\<close>]
            by - (rule moved_sound [OF inv m ok acc], simp_all add: held_by_def ac_simps)
          then show ?thesis using Some \<open>map_of (ba_byRequestId a) _ = None\<close> live kept by (simp add: complete_event_def)
        qed
      qed
    qed
  qed
qed

lemma granted_sound:
  assumes inv: "sound exact seen hand a" and n: "n < length (ba_objects a)" and wait: "pp_wait (object n a) = WaitRequest p"
  shows "sound exact seen hand (request_granted h n p r a)"
proof -
  have ok0: "page_ok seen (ba_disposed a) (object n a)" using sound_object [OF inv n] .
  then have none: "pp_requestId (object n a) = None" and fresh: "\<not> pp_receiving (object n a)"
    and settled: "pp_cancelled (object n a) \<longrightarrow> pp_settled (object n a)" "pp_settled (object n a) \<longrightarrow> pp_early (object n a) = []"
    and early: "list_all (\<lambda>re. tc_requestId (snd re) = fst re \<and> fst re \<in> seen) (pp_early (object n a))"
      "distinct (keys (pp_early (object n a)))"
    using wait by (auto simp: page_ok_def)
  define a1 where "a1 = alter n (\<lambda>ob. ob\<lparr>pp_requestId := Some r, pp_wait := NotWaiting\<rparr>)
                 (a\<lparr>ba_byRequestId := AList.update r n (ba_byRequestId a)\<rparr>)"
  let ?ob = "(object n a)\<lparr>pp_requestId := Some r, pp_wait := NotWaiting\<rparr>"
  show ?thesis
  proof (cases "pp_cancelled (object n a)")
    case True
    have m: "moved n ?ob (cancels (Some r)) a (abandon_request (Some r) a1)"
      using n none by (auto simp: moved_def a1_def object_def lookup_update dest!: lookup_deleted split: if_splits)
    have ok: "page_ok seen (ba_disposed a) ?ob" using ok0 settled True fresh by (simp add: page_ok_def)
    have acc: "accounted n (object n a) ?ob (cancels (Some r))" by (simp add: accounted_def)
    have "sound exact seen hand (abandon_request (Some r) a1)"
      by (rule moved_sound [OF inv m ok acc]) (use wait in \<open>simp_all add: held_by_def\<close>)
    then show ?thesis using True by (simp add: request_granted_def Let_def a1_def)
  next
    case False
    let ?es = "if priorityRank (tr_priority (pp_request (object n a))) > priorityRank p
      then [CallReprioritize r (tr_priority (pp_request (object n a)))] else []"
    define a2 where "a2 = clearEarly n (Some r) (logged ?es a1)"
    let ?ob = "?ob\<lparr>pp_early := []\<rparr>"
    have obs: "n < length (ba_objects a)" "ba_objects a2 = (ba_objects a)[n := ?ob]"
      "ba_byRequestId a2 = AList.update r n (ba_byRequestId a)" "ba_byIdentity a2 = ba_byIdentity a"
      using n by (simp_all add: a2_def a1_def object_def)
    have m: "moved n ?ob (?es @ early_releases (Some r) (object n a)) a a2"
      using n none by (auto simp: moved_def a2_def a1_def object_def lookup_update early_releases_def split: if_splits)
    have ok: "page_ok seen (ba_disposed a) ?ob" using ok0 fresh by (simp add: page_ok_def)
    have acc: "accounted n (object n a) ?ob (?es @ early_releases (Some r) (object n a))"
      by (auto intro!: accountedI)
    have run: "request_granted h n p r a
        = (case map_of (pp_early (object n a)) r of Some e \<Rightarrow> complete_event h e a2 | None \<Rightarrow> a2)"
      using False by (auto simp: request_granted_def Let_def a2_def a1_def split: option.split)
    show ?thesis
    proof (cases "map_of (pp_early (object n a)) r")
      case None
      then have "r \<notin> set (keys (pp_early (object n a)))" by (simp add: map_of_eq_None_iff)
      then have "sound exact seen hand a2"
        by - (rule moved_sound [OF inv m ok acc], use wait in \<open>simp_all add: held_by_def early_released\<close>)
      then show ?thesis using run None by simp
    next
      case (Some e)
      then have e: "tc_requestId e = r" "r \<in> seen" using early(1) by (auto simp: list_all_iff dest!: map_of_SomeD)
      have "sound exact seen (hand + token_of e) a2"
        by (rule moved_sound [OF inv m ok acc])
          (use wait early_released_one [OF early(2) Some] in \<open>simp_all add: held_by_def ac_simps\<close>)
      moreover have "object n a2 = ?ob" using moved_object [OF m] by simp
      ultimately have "sound exact seen hand (complete_event h e a2)"
        using e fresh by - (rule complete_sound, simp_all add: obs lookup_update)
      then show ?thesis using run Some by simp
    qed
  qed
qed

lemma request_answered_sound:
  assumes inv: "sound exact seen hand a" and n: "n < length (ba_objects a)"
  shows "sound exact seen hand (request_answered h n answer a)"
  using assms granted_sound [OF inv n] start_failed_sound [OF inv n]
  by (auto simp: request_answered_def split: page_wait.splits request_answer.splits)

lemma listener_ready_sound:
  assumes inv: "sound exact seen hand a"
  shows "sound exact seen hand (listener_ready a)"
  by (rule sound_quiet [OF inv, where es = "if ba_listener a = ListenerPending \<and> ba_disposed a then [CallUnlisten] else []"])
    (simp_all add: listener_ready_def Let_def)

section \<open>Runs of the adapter\<close>

primrec adapter_run :: "adapter_host \<Rightarrow> adapter_event list \<Rightarrow> backend_adapter \<Rightarrow> backend_adapter" where
  "adapter_run h [] a = a"
| "adapter_run h (e # es) a = adapter_run h es (adapter_step h a e)"

text \<open>The request ids of the completions of a run.\<close>

fun completion_ids :: "adapter_event list \<Rightarrow> string list" where
  "completion_ids [] = []"
| "completion_ids (CompletionArrived e # es) = tc_requestId e # completion_ids es"
| "completion_ids (_ # es) = completion_ids es"

lemma step_sound:
  assumes "sound exact seen {#} a" and "\<not> (\<exists>e. x = CompletionArrived e)"
  shows "sound exact seen {#} (adapter_step h a x)"
proof (cases x)
  case (ListenerRefused err)
  then show ?thesis using sound_quiet [OF assms(1), where es = "[]" and hand' = "{#}"] assms(1) by simp
qed (use assms in \<open>auto intro: resolve_sound reprioritize_sound cancel_sound release_sound display_failed_sound dispose_sound
  listener_ready_sound listener_awaited_sound request_answered_sound read_answered_sound timeout_sound\<close>)

lemma arrival_sound:
  assumes inv: "sound exact seen {#} a" and fresh: "exact \<Longrightarrow> tc_requestId e \<notin> seen"
  shows "sound exact (insert (tc_requestId e) seen) {#} (adapter_step h a (CompletionArrived e))"
proof -
  let ?a = "case event_token e of Some t \<Rightarrow> logged [TokenReceived t] a | None \<Rightarrow> a"
  have same: "ba_byRequestId ?a = ba_byRequestId a" "object n ?a = object n a" "handshaking ?a e = handshaking a e" for n
    by (auto simp: object_def handshaking_def split: option.split)
  have "sound exact (insert (tc_requestId e) seen) ({#} + token_of e) ?a"
    by (rule sound_seen [OF received_sound [OF inv]]) blast
  moreover have "\<not> pp_receiving (object n a)" if exact "map_of (ba_byRequestId a) (tc_requestId e) = Some n" for n
  proof -
    from sound_lookups(1) [OF inv that(2)] have n: "n < length (ba_objects a)"
      and r: "pp_requestId (object n a) = Some (tc_requestId e)" by simp_all
    from sound_object [OF inv n] r fresh that(1) show ?thesis by (auto simp: page_ok_def)
  qed
  moreover have "tc_requestId e \<notin> set (keys (pp_early (object n a)))" if exact "handshaking a e = Some n" for n
  proof -
    have "map_of (ba_byIdentity a) (backendKeyIdentity (tc_key e)) = Some n"
      using that(2) by (auto simp: handshaking_def split: option.splits if_splits)
    from sound_lookups(2) [OF inv this] have "n < length (ba_objects a)" by simp
    from sound_object [OF inv this] fresh that(1) show ?thesis by (auto simp: page_ok_def list_all_iff)
  qed
  ultimately show ?thesis by (simp add: same) (rule complete_sound, simp_all add: same)
qed

lemma run_sound:
  assumes "sound exact seen {#} a" and "exact \<Longrightarrow> distinct (completion_ids es) \<and> seen \<inter> set (completion_ids es) = {}"
  shows "sound exact (seen \<union> set (completion_ids es)) {#} (adapter_run h es a)"
  using assms
proof (induction es arbitrary: a seen)
  case (Cons x es)
  show ?case
  proof (cases "\<exists>e. x = CompletionArrived e")
    case True
    then obtain e where x: "x = CompletionArrived e" by blast
    have "sound exact (insert (tc_requestId e) seen) {#} (adapter_step h a x)"
      using arrival_sound [OF Cons.prems(1)] Cons.prems(2) x by auto
    from Cons.IH [OF this] Cons.prems(2) x show ?thesis by auto
  next
    case False
    then have "completion_ids (x # es) = completion_ids es" by (cases x) auto
    with Cons.IH [OF step_sound [OF Cons.prems(1) False]] Cons.prems(2) show ?thesis by auto
  qed
qed simp

lemma new_adapter_sound: "sound exact {} {#} new_adapter"
  by (simp add: sound_def state_ok_def new_adapter_def held_tokens_def)

text \<open>The calls of \<^verbatim>\<open>resolve\<close> of a run, and the identities of the objects they made.\<close>

fun resolve_calls :: "adapter_event list \<Rightarrow> thumbnail_request list" where
  "resolve_calls [] = []"
| "resolve_calls (ResolveCalled r # es) = r # resolve_calls es"
| "resolve_calls (_ # es) = resolve_calls es"

lemma identities_updated [simp]:
  "pp_identity ob = pp_identity (obs ! n) \<Longrightarrow> map pp_identity (obs[n := ob]) = map pp_identity obs"
  by (cases "n < length obs") (simp_all add: map_update list_update_same_conv list_update_beyond not_less)

lemma identity_updated [simp]:
  "pp_identity ob = pp_identity (obs ! n) \<Longrightarrow> pp_identity (obs[n := ob] ! n) = pp_identity (obs ! n)"
  by (cases "n < length obs") (simp_all add: list_update_beyond not_less)

lemma identities_finish [simp]:
  "map pp_identity (ba_objects (finish_page n e i a)) = map pp_identity (ba_objects a)"
  "map pp_identity (ba_objects (page_failed n e i err a)) = map pp_identity (ba_objects a)"
  "map pp_identity (ba_objects (page_delivered h n e i w ht bytes a)) = map pp_identity (ba_objects a)"
  "map pp_identity (ba_objects (releaseEvent e a)) = map pp_identity (ba_objects a)"
  by (simp_all add: finish_page_def page_failed_def page_delivered_def releaseEvent_logged Let_def)

lemma identities_receive [simp]: "map pp_identity (ba_objects (receive_page h n e a)) = map pp_identity (ba_objects a)"
  by (simp add: receive_page_def Let_def split: completion_outcome.split picture_body.split)

lemma identities_complete [simp]: "map pp_identity (ba_objects (complete_event h e a)) = map pp_identity (ba_objects a)"
  by (simp add: complete_event_def split: option.split)

lemma identities_failed [simp]: "map pp_identity (ba_objects (start_failed n thrown a)) = map pp_identity (ba_objects a)"
  by (simp add: start_failed_def Let_def split: option.split)

lemma identities_dispose [simp]: "map pp_identity (ba_objects (fold dispose_page ns a)) = map pp_identity (ba_objects a)"
proof (induction ns arbitrary: a)
  case (Cons n ns)
  have "map pp_identity (ba_objects (dispose_page n a)) = map pp_identity (ba_objects a)"
    by (simp add: dispose_page_def Let_def split: option.split)
  with Cons show ?case by simp
qed simp

lemma identities_granted [simp]:
  "map pp_identity (ba_objects (request_granted h n p r a)) = map pp_identity (ba_objects a)"
  by (simp add: request_granted_def Let_def split: option.split)

lemma identities_step:
  "map pp_identity (ba_objects (adapter_step h a x)) = map pp_identity (ba_objects a) @ map (thumbnailKeyIdentity \<circ> tr_key) (resolve_calls [x])"
proof (cases x)
  case (ResolveCalled r)
  then show ?thesis by (simp add: resolve_page_def Let_def list_update_append)
qed (simp_all add: reprioritize_page_def cancel_page_def release_page_def display_failed_def dispose_adapter_def
    listener_ready_def listener_awaited_def request_answered_def read_answered_def timeout_fired_def Let_def
    split: option.split thumbnail_asset.split page_wait.split listener_state.split request_answer.split sum.split
      completion_outcome.split picture_body.split)

lemma resolve_calls_Cons: "resolve_calls (x # es) = resolve_calls [x] @ resolve_calls es"
  by (cases x) simp_all

lemma identities_run:
  "map pp_identity (ba_objects (adapter_run h es a)) = map pp_identity (ba_objects a) @ map (thumbnailKeyIdentity \<circ> tr_key) (resolve_calls es)"
proof (induction es arbitrary: a)
  case (Cons x es)
  show ?case
    by (simp only: adapter_run.simps Cons.IH identities_step resolve_calls_Cons [of x es] map_append append_assoc)
qed simp

lemma backendKeyIdentity_inj: "backendKeyIdentity k = thumbnailKeyIdentity t \<longleftrightarrow> k = backendKey t"
proof
  assume same: "backendKeyIdentity k = thumbnailKeyIdentity t"
  obtain u where u: "k = backendKey u"
    by (cases k) (metis backendKey.simps)+
  with same have "bare_key u = bare_key t" by (simp add: backendKeyIdentity_backendKey identity_iff)
  then show "k = backendKey t" using u by (cases u; cases t) auto
qed (simp add: backendKeyIdentity_backendKey)

section \<open>Properties\<close>

text \<open>A run in which the completion overtakes the answer to the request.\<close>

definition overtaking_host :: adapter_host where
  "overtaking_host = \<lparr>ah_url = (\<lambda>n. ''blob:'' @ show_int (int n)), ah_typeError = ''TypeError''\<rparr>"

definition overtaking_completion :: completion_event where
  "overtaking_completion = \<lparr>tc_requestId = ''r1'', tc_key = BGalleryPage 7 3,
     tc_outcome = Ready (int_num 300) (int_num 400) (Resource ''token'' 512)\<rparr>"

definition overtaking_run :: "adapter_event list" where
  "overtaking_run = [ResolveCalled \<lparr>tr_key = SourcePage 7 3 None None, tr_consumer = ForDetail, tr_priority = Visible\<rparr>,
     ListenerReady, ListenerAwaited 0, CompletionArrived overtaking_completion, RequestAnswered 0 (Granted ''r1''),
     ReadAnswered 0 (Inr 512)]"

lemmas overtaking_defs = overtaking_run_def overtaking_completion_def overtaking_host_def

text \<open>C14: In every run of the thumbnail adapter a promise is resolved or rejected at most once, and one that is
  not settled yet still has its timeout armed, as long as the adapter is not disposed: no request of the
  client waits for ever.\<close>

theorem promises_settled_once:
  "let a = adapter_run h es new_adapter
   in settlements n (ba_log a) \<le> 1
      \<and> \<not> (n < length (ba_objects a) \<and> settlements n (ba_log a) = 0 \<and> \<not> ba_disposed a \<and> \<not> pp_timer (object n a))"
proof -
  have s: "sound False (set (completion_ids es)) {#} (adapter_run h es new_adapter)"
    using run_sound [OF new_adapter_sound, of False es h] by simp
  then show ?thesis
    using sound_object [OF s, of n] by (auto simp: Let_def sound_def page_ok_def)
qed

text \<open>C12: The account of resource tokens. When no completion comes twice, the tokens the native side handed out
  are exactly those released again and those of a completion still buffered or being read.\<close>

theorem tokens_accounted:
  assumes "distinct (completion_ids es)"
  shows "tokens received_by (ba_log (adapter_run h es new_adapter))
    = tokens released_by_adapter (ba_log (adapter_run h es new_adapter)) + held_tokens (adapter_run h es new_adapter)"
  using run_sound [OF new_adapter_sound, of True es h] assms by (simp add: sound_def)

theorem tokens_accounted_witness:
  "distinct (completion_ids overtaking_run)
   \<and> tokens received_by (ba_log (adapter_run overtaking_host overtaking_run new_adapter))
     = tokens released_by_adapter (ba_log (adapter_run overtaking_host overtaking_run new_adapter))
       + held_tokens (adapter_run overtaking_host overtaking_run new_adapter)"
  using tokens_accounted [of overtaking_run overtaking_host] by (simp add: overtaking_run_def)

text \<open>C13: Whenever the adapter makes a picture for the \<open>n\<close>-th promise, the completion is for exactly the page
  the \<open>n\<close>-th call of \<^verbatim>\<open>resolve\<close> asked for: pictures are never swapped, whatever the order in which answers
  and completions arrive.\<close>

theorem pictures_are_asked_for:
  assumes "CreateUrl n url e \<in> set (ba_log (adapter_run h es new_adapter))"
  shows "n < length (resolve_calls es) \<and> tc_key e = backendKey (tr_key (resolve_calls es ! n))"
proof -
  have s: "sound False (set (completion_ids es)) {#} (adapter_run h es new_adapter)"
    using run_sound [OF new_adapter_sound, of False es h] by simp
  have ids: "map pp_identity (ba_objects (adapter_run h es new_adapter)) = map (thumbnailKeyIdentity \<circ> tr_key) (resolve_calls es)"
    using identities_run [of h es new_adapter] by (simp add: new_adapter_def)
  from s assms have n: "n < length (ba_objects (adapter_run h es new_adapter))"
    and k: "backendKeyIdentity (tc_key e) = map pp_identity (ba_objects (adapter_run h es new_adapter)) ! n"
    by (auto simp: sound_def pictures_named_def list_all_iff)
  moreover have "length (ba_objects (adapter_run h es new_adapter)) = length (resolve_calls es)"
    using ids by (metis length_map)
  ultimately show ?thesis by (simp add: ids backendKeyIdentity_inj)
qed

lemma overtaking_log:
  "CreateUrl 0 ''blob:0'' overtaking_completion \<in> set (ba_log (adapter_run overtaking_host overtaking_run new_adapter))"
  by code_simp

theorem pictures_are_asked_for_witness:
  "0 < length (resolve_calls overtaking_run)
   \<and> tc_key overtaking_completion = backendKey (tr_key (resolve_calls overtaking_run ! 0))"
  using pictures_are_asked_for [OF overtaking_log] .

text \<open>However many requests are given up, at most 256 of their ids are remembered.\<close>

theorem cancelled_ids_bounded: "length (ba_cancelled (adapter_run h es new_adapter)) \<le> 256"
  using run_sound [OF new_adapter_sound, of False es h] by (simp add: sound_def state_ok_def cancelled_capacity_def)

text \<open>What becomes of the answer to the read of a picture: an exception rejects the promise with that
  exception, a wrong number of bytes with \<^verbatim>\<open>THUMBNAIL_INVALID_BODY\<close>, to be tried again, and in neither case a
  picture is made; the token is given back in every case.\<close>

theorem read_outcomes:
  assumes "n < length (ba_objects a)" and "pp_wait (object n a) = WaitRead e i"
    and "tc_outcome e = Ready w ht (Resource t len)" and "t \<noteq> []"
    and "\<not> ba_disposed a" and "\<not> pp_cancelled (object n a)" and "\<not> pp_settled (object n a)"
  shows "ba_log (read_answered h n answer a) = ba_log a @
    (case answer of
       Inl thrown \<Rightarrow> [Settled n (Inl (or_value thrown (errorFrom ''Thumbnail payload could not be displayed'' [] False)))]
     | Inr bytes \<Rightarrow>
         if bytes = len then [CreateUrl n (ah_url h (ba_urls a)) e,
           Settled n (Inr (ImageAsset (ah_url h (ba_urls a)) w ht (Some (int_num len))))]
         else [Settled n (Inl (errorFrom ''Thumbnail binary length did not match'' ''THUMBNAIL_INVALID_BODY'' True))])
    @ [CallRelease t]"
proof -
  have "releases e = [CallRelease t]" using assms(3,4) by (simp add: releases_def event_token_def)
  then show ?thesis
    using assms moved_page_failed [OF assms(1), of _ e i] moved_delivered [OF assms(1), of h e w ht len i]
    by (auto simp: read_answered_def moved_def split: sum.split)
qed

theorem read_outcomes_witness:
  "let a = adapter_run overtaking_host (butlast overtaking_run) new_adapter
   in ba_log (read_answered overtaking_host 0 (Inr 100) a) = ba_log a
      @ [Settled 0 (Inl (errorFrom ''Thumbnail binary length did not match'' ''THUMBNAIL_INVALID_BODY'' True)), CallRelease ''token'']"
proof -
  have "let a = adapter_run overtaking_host (butlast overtaking_run) new_adapter
    in 0 < length (ba_objects a) \<and> pp_wait (object 0 a) = WaitRead overtaking_completion ''source-page:7:3'' \<and> \<not> ba_disposed a
       \<and> \<not> pp_cancelled (object 0 a) \<and> \<not> pp_settled (object 0 a)"
    by code_simp
  then show ?thesis
    using read_outcomes [of 0 "adapter_run overtaking_host (butlast overtaking_run) new_adapter" overtaking_completion
      "''source-page:7:3''" "int_num 300" "int_num 400" "''token''" 512 overtaking_host "Inr 100"]
    by (simp add: Let_def overtaking_completion_def)
qed

end
