(* ===== verification/CoverSession.thy ===== *)
theory CoverSession
  imports ThumbnailClient
begin

text \<open>
  Covers kept warm outside the cards: \<^verbatim>\<open>src/src/thumbnail/pagePrefetch.ts\<close> (the covers of a page, and of the
  next page once those have come), \<^verbatim>\<open>sessionCoverRetainer.ts\<close> (covers of visited pages, within a number and a
  memory budget) and \<^verbatim>\<open>backgroundCoverPreloader.ts\<close> (covers of folders, four at a time).

  Each holds subscriptions of the thumbnail client, numbered in the order they are made; the log says which
  were made and released. What the client shows at the \<open>n\<close>-th look of a component is a parameter,
  \<open>shows n key\<close>. A listener only queues a microtask, which is the event \<open>ListenerRan\<close> with the number of its
  subscription.
\<close>

section \<open>The covers of a page\<close>

type_synonym shown = "nat \<Rightarrow> thumbnail_key \<Rightarrow> thumbnail_snapshot"

datatype cover_effect = Subscribed nat thumbnail_request | Released nat

datatype cover_page_view = AutoFindPage | DownloadsPage

fun page_view_id :: "cover_page_view \<Rightarrow> view_id" where
  "page_view_id AutoFindPage = AutoFind"
| "page_view_id DownloadsPage = Downloads"

definition cover_signature_part :: "gallery \<Rightarrow> range_error + string" where
  "cover_signature_part g =
     (case galleryCoverThumbnailKey g of
        Inl err \<Rightarrow> Inl err
      | Inr k \<Rightarrow> Inr (json_list id [show_int (g_id g), show_int (g_coverIndex g),
          json_string (trim (or_value (g_thumbnailKey g) [])), json_string (thumbnailKeyIdentity k)]))"

text \<open>\<^verbatim>\<open>map\<close> with a function that may throw.\<close>

fun map_or_throw :: "('a \<Rightarrow> 'e + 'b) \<Rightarrow> 'a list \<Rightarrow> 'e + 'b list" where
  "map_or_throw f [] = Inr []"
| "map_or_throw f (x # xs) =
     (case f x of
        Inl err \<Rightarrow> Inl err
      | Inr y \<Rightarrow> (case map_or_throw f xs of Inl err \<Rightarrow> Inl err | Inr ys \<Rightarrow> Inr (y # ys)))"

definition galleryCoverPageSignature :: "gallery list \<Rightarrow> range_error + string" where
  "galleryCoverPageSignature items =
     (case map_or_throw cover_signature_part items of Inl err \<Rightarrow> Inl err | Inr parts \<Rightarrow> Inr (json_list id parts))"

text \<open>The \<^verbatim>\<open>flatMap\<close> over the galleries, with the set of identities met so far.\<close>

fun first_of_identity :: "string list \<Rightarrow> thumbnail_key list \<Rightarrow> thumbnail_key list" where
  "first_of_identity seen [] = []"
| "first_of_identity seen (k # ks) =
     (if thumbnailKeyIdentity k \<in> set seen then first_of_identity seen ks
      else k # first_of_identity (thumbnailKeyIdentity k # seen) ks)"

definition galleryCoverPrefetchRequests ::
  "gallery list \<Rightarrow> cover_page_view \<Rightarrow> range_error + thumbnail_request list" where
  "galleryCoverPrefetchRequests items view =
     (case map_or_throw galleryCoverThumbnailKey items of
        Inl err \<Rightarrow> Inl err
      | Inr ks \<Rightarrow>
          Inr (map (\<lambda>k. \<lparr>tr_key = k, tr_consumer = thumbnailConsumerForView (page_view_id view), tr_priority = Prefetch\<rparr>)
                 (first_of_identity [] ks)))"

section \<open>The next page after the current one\<close>

record page_prefetch =
  pf_current :: "thumbnail_request list"
  pf_next :: "thumbnail_request list"
  pf_currentHandles :: "nat list"
  pf_nextHandles :: "nat list option"
  pf_disposed :: bool
  pf_handles :: nat
  pf_reads :: nat
  pf_log :: "cover_effect list"

definition terminal :: "thumbnail_snapshot \<Rightarrow> bool" where
  "terminal s = (case s of Resolved _ \<Rightarrow> True | ErrorShown _ _ \<Rightarrow> True | _ \<Rightarrow> False)"

text \<open>\<^verbatim>\<open>every\<close> stops at the first request that is not terminal; it returns the number of looks as well.\<close>

fun every_terminal :: "shown \<Rightarrow> nat \<Rightarrow> thumbnail_request list \<Rightarrow> bool \<times> nat" where
  "every_terminal shows n [] = (True, n)"
| "every_terminal shows n (r # rs) =
     (if terminal (shows n (tr_key r)) then every_terminal shows (Suc n) rs else (False, Suc n))"

fun subscribe_all :: "nat \<Rightarrow> thumbnail_request list \<Rightarrow> cover_effect list" where
  "subscribe_all n [] = []"
| "subscribe_all n (r # rs) = Subscribed n r # subscribe_all (Suc n) rs"

definition beginNextPage :: "shown \<Rightarrow> page_prefetch \<Rightarrow> page_prefetch" where
  "beginNextPage shows p =
     (if pf_disposed p \<or> pf_nextHandles p \<noteq> None then p
      else let (all, reads) = every_terminal shows (pf_reads p) (pf_current p); p1 = p\<lparr>pf_reads := reads\<rparr>
           in if \<not> all then p1
              else p1\<lparr>pf_nextHandles := Some [pf_handles p ..< pf_handles p + length (pf_next p)],
                pf_handles := pf_handles p + length (pf_next p),
                pf_log := pf_log p @ subscribe_all (pf_handles p) (pf_next p)\<rparr>)"

text \<open>The loop over the current page; \<open>sync\<close> says which subscriptions notify before they return.\<close>

fun subscribe_current :: "shown \<Rightarrow> (nat \<Rightarrow> bool) \<Rightarrow> thumbnail_request list \<Rightarrow> page_prefetch \<Rightarrow> page_prefetch" where
  "subscribe_current shows sync [] p = p"
| "subscribe_current shows sync (r # rs) p =
     (let h = pf_handles p;
          p1 = p\<lparr>pf_handles := Suc h, pf_log := pf_log p @ [Subscribed h r]\<rparr>;
          p2 = (if sync h then beginNextPage shows p1 else p1)
      in subscribe_current shows sync rs (p2\<lparr>pf_currentHandles := pf_currentHandles p2 @ [h]\<rparr>))"

definition prefetchNextGalleryPageAfterCurrent ::
  "shown \<Rightarrow> (nat \<Rightarrow> bool) \<Rightarrow> cover_page_view \<Rightarrow> gallery list \<Rightarrow> gallery list \<Rightarrow> range_error + page_prefetch" where
  "prefetchNextGalleryPageAfterCurrent shows sync view currentItems nextItems =
     (case galleryCoverPrefetchRequests currentItems view of
        Inl err \<Rightarrow> Inl err
      | Inr current \<Rightarrow>
          (case galleryCoverPrefetchRequests nextItems view of
             Inl err \<Rightarrow> Inl err
           | Inr next_page \<Rightarrow>
               Inr (beginNextPage shows (subscribe_current shows sync current
                 \<lparr>pf_current = current, pf_next = next_page, pf_currentHandles = [], pf_nextHandles = None,
                  pf_disposed = False, pf_handles = 0, pf_reads = 0, pf_log = []\<rparr>))))"

text \<open>The function it returns; called again, it releases again, which the client ignores.\<close>

definition dispose_prefetch :: "page_prefetch \<Rightarrow> page_prefetch" where
  "dispose_prefetch p =
     p\<lparr>pf_disposed := True,
       pf_log := pf_log p @ map Released (pf_currentHandles p) @ map Released (or_value (pf_nextHandles p) [])\<rparr>"

datatype prefetch_event = CoverNotified | PrefetchDisposed

fun prefetch_step :: "shown \<Rightarrow> page_prefetch \<Rightarrow> prefetch_event \<Rightarrow> page_prefetch" where
  "prefetch_step shows p CoverNotified = beginNextPage shows p"
| "prefetch_step shows p PrefetchDisposed = dispose_prefetch p"

section \<open>Covers of visited pages\<close>

definition SESSION_GALLERY_COVER_CAPACITY :: int where "SESSION_GALLERY_COVER_CAPACITY = 2048"

definition SESSION_GALLERY_COVER_BYTE_BUDGET :: int where
  "SESSION_GALLERY_COVER_BYTE_BUDGET = 192 * 1024 * 1024"

record retained_cover =
  rc_request :: thumbnail_request
  rc_handle :: nat
  rc_lastVisited :: nat
  rc_estimatedBytes :: rat

record cover_retainer =
  cr_capacity :: int
  cr_byteBudget :: int
  cr_entries :: "(string \<times> retained_cover) list"
  cr_visitSequence :: nat
  cr_retainedBytes :: rat
  cr_handles :: nat
  cr_reads :: nat
  cr_log :: "cover_effect list"

text \<open>The constructor throws a \<^verbatim>\<open>RangeError\<close> for a budget that is not positive.\<close>

definition new_retainer :: "int \<Rightarrow> int \<Rightarrow> cover_retainer option" where
  "new_retainer capacity byteBudget =
     (if capacity < 1 then None
      else if \<bar>byteBudget\<bar> > max_safe_integer \<or> byteBudget < 1 then None
      else Some \<lparr>cr_capacity = capacity, cr_byteBudget = byteBudget, cr_entries = [], cr_visitSequence = 0,
             cr_retainedBytes = 0, cr_handles = 0, cr_reads = 0, cr_log = []\<rparr>)"

definition remove_cover :: "string \<Rightarrow> retained_cover \<Rightarrow> cover_retainer \<Rightarrow> cover_retainer" where
  "remove_cover i e r =
     (if map_option rc_handle (map_of (cr_entries r) i) \<noteq> Some (rc_handle e) then r
      else r\<lparr>cr_entries := AList.delete i (cr_entries r),
             cr_retainedBytes := max 0 (cr_retainedBytes r - rc_estimatedBytes e),
             cr_log := cr_log r @ [Released (rc_handle e)]\<rparr>)"

definition less_recent ::
  "(retained_cover \<Rightarrow> bool) \<Rightarrow> (string \<times> retained_cover) option \<Rightarrow> string \<times> retained_cover
   \<Rightarrow> (string \<times> retained_cover) option" where
  "less_recent p best ie =
     (if \<not> p (snd ie) then best
      else case best of
        None \<Rightarrow> Some ie
      | Some b \<Rightarrow> if rc_lastVisited (snd ie) < rc_lastVisited (snd b) then Some ie else best)"

definition oldestEntry :: "(retained_cover \<Rightarrow> bool) \<Rightarrow> cover_retainer \<Rightarrow> (string \<times> retained_cover) option" where
  "oldestEntry p r = foldl (less_recent p) None (cr_entries r)"

text \<open>The two loops of \<^verbatim>\<open>evictLeastRecentlyVisited\<close>. Each round removes an entry, so there are at most as many
  rounds as entries.\<close>

primrec evict_over_budget :: "nat \<Rightarrow> cover_retainer \<Rightarrow> cover_retainer" where
  "evict_over_budget 0 r = r"
| "evict_over_budget (Suc n) r =
     (if cr_retainedBytes r > of_int (cr_byteBudget r)
      then case oldestEntry (\<lambda>e. rc_estimatedBytes e > 0) r of
             None \<Rightarrow> r
           | Some ie \<Rightarrow> evict_over_budget n (remove_cover (fst ie) (snd ie) r)
      else r)"

primrec evict_over_capacity :: "nat \<Rightarrow> cover_retainer \<Rightarrow> cover_retainer" where
  "evict_over_capacity 0 r = r"
| "evict_over_capacity (Suc n) r =
     (if int (length (cr_entries r)) > cr_capacity r
      then case oldestEntry (\<lambda>_. True) r of
             None \<Rightarrow> r
           | Some ie \<Rightarrow> evict_over_capacity n (remove_cover (fst ie) (snd ie) r)
      else r)"

definition evictLeastRecentlyVisited :: "cover_retainer \<Rightarrow> cover_retainer" where
  "evictLeastRecentlyVisited r =
     (let r1 = evict_over_budget (length (cr_entries r)) r in evict_over_capacity (length (cr_entries r1)) r1)"

definition settle_cover :: "shown \<Rightarrow> string \<Rightarrow> nat \<Rightarrow> cover_retainer \<Rightarrow> cover_retainer" where
  "settle_cover shows i h r =
     (case map_of (cr_entries r) i of
        None \<Rightarrow> r
      | Some e \<Rightarrow>
          if rc_handle e \<noteq> h then r
          else let r1 = r\<lparr>cr_reads := Suc (cr_reads r)\<rparr>
               in case shows (cr_reads r) (tr_key (rc_request e)) of
                 Resolved a \<Rightarrow>
                   evictLeastRecentlyVisited (r1\<lparr>
                     cr_retainedBytes := cr_retainedBytes r + (thumbnailMemoryCost a - rc_estimatedBytes e),
                     cr_entries := AList.update i (e\<lparr>rc_estimatedBytes := thumbnailMemoryCost a\<rparr>) (cr_entries r)\<rparr>)
               | ErrorShown _ _ \<Rightarrow> remove_cover i e r1
               | _ \<Rightarrow> r1)"

definition visit_cover :: "shown \<Rightarrow> thumbnail_request \<Rightarrow> cover_retainer \<Rightarrow> cover_retainer" where
  "visit_cover shows request r =
     (let i = thumbnailKeyIdentity (tr_key request); v = Suc (cr_visitSequence r)
      in case map_of (cr_entries r) i of
           Some e \<Rightarrow>
             settle_cover shows i (rc_handle e)
               (r\<lparr>cr_visitSequence := v, cr_entries := AList.update i (e\<lparr>rc_lastVisited := v\<rparr>) (cr_entries r)\<rparr>)
         | None \<Rightarrow>
             evictLeastRecentlyVisited (settle_cover shows i (cr_handles r)
               (r\<lparr>cr_visitSequence := v, cr_handles := Suc (cr_handles r),
                  cr_entries := AList.update i \<lparr>rc_request = request, rc_handle = cr_handles r, rc_lastVisited = v,
                    rc_estimatedBytes = 0\<rparr> (cr_entries r),
                  cr_log := cr_log r @ [Subscribed (cr_handles r) request]\<rparr>)))"

definition visit :: "shown \<Rightarrow> cover_page_view \<Rightarrow> gallery list \<Rightarrow> cover_retainer \<Rightarrow> cover_retainer" where
  "visit shows view items r =
     (case galleryCoverPrefetchRequests items view of Inl _ \<Rightarrow> r | Inr requests \<Rightarrow> fold (visit_cover shows) requests r)"

definition clear_covers :: "cover_retainer \<Rightarrow> cover_retainer" where
  "clear_covers r =
     r\<lparr>cr_entries := [], cr_retainedBytes := 0, cr_log := cr_log r @ map (Released \<circ> rc_handle) (vals (cr_entries r))\<rparr>"

datatype retainer_event = PageVisited cover_page_view "gallery list" | CoversCleared | CoverSettled string nat

fun retainer_step :: "shown \<Rightarrow> cover_retainer \<Rightarrow> retainer_event \<Rightarrow> cover_retainer" where
  "retainer_step shows r (PageVisited view items) = visit shows view items r"
| "retainer_step shows r CoversCleared = clear_covers r"
| "retainer_step shows r (CoverSettled i h) = settle_cover shows i h r"

section \<open>Covers of folders in the background\<close>

datatype preload_status = PreloadQueued | PreloadLoading | PreloadSettled

text \<open>An entry is an object, numbered when it is made; \<open>pl_handle\<close> is its \<^verbatim>\<open>release\<close>.\<close>

record cover_preload =
  pl_object :: nat
  pl_gallery :: gallery
  pl_request :: thumbnail_request
  pl_status :: preload_status
  pl_handle :: "nat option"

text \<open>\<open>bp_queued\<close> is the part of the queue from \<^verbatim>\<open>queueIndex\<close> on: identities of entries that are in the map.\<close>

record cover_preloader =
  bp_concurrency :: int
  bp_entries :: "(string \<times> cover_preload) list"
  bp_queued :: "string list"
  bp_active :: int
  bp_disposed :: bool
  bp_objects :: nat
  bp_handles :: nat
  bp_reads :: nat
  bp_log :: "cover_effect list"
  bp_retainer :: "cover_retainer option"

definition new_preloader :: "cover_retainer option \<Rightarrow> int \<Rightarrow> cover_preloader option" where
  "new_preloader retainer concurrency =
     (if concurrency < 1 then None
      else Some \<lparr>bp_concurrency = concurrency, bp_entries = [], bp_queued = [], bp_active = 0, bp_disposed = False,
             bp_objects = 0, bp_handles = 0, bp_reads = 0, bp_log = [], bp_retainer = retainer\<rparr>)"

definition release_preload :: "cover_preload \<Rightarrow> cover_preloader \<Rightarrow> cover_preloader" where
  "release_preload e b = (case pl_handle e of Some h \<Rightarrow> b\<lparr>bp_log := bp_log b @ [Released h]\<rparr> | None \<Rightarrow> b)"

definition set_preload :: "string \<Rightarrow> cover_preload \<Rightarrow> cover_preloader \<Rightarrow> cover_preloader" where
  "set_preload i e b = b\<lparr>bp_entries := AList.update i e (bp_entries b)\<rparr>"

text \<open>\<^verbatim>\<open>settle\<close> up to its call of \<^verbatim>\<open>pump\<close>; the flag says whether the call is reached.\<close>

definition settle_preload :: "shown \<Rightarrow> shown \<Rightarrow> string \<Rightarrow> nat \<Rightarrow> cover_preloader \<Rightarrow> cover_preloader \<times> bool" where
  "settle_preload shows kept_shows i ob b =
     (case map_of (bp_entries b) i of
        None \<Rightarrow> (b, False)
      | Some e \<Rightarrow>
          if bp_disposed b \<or> pl_object e \<noteq> ob \<or> pl_status e \<noteq> PreloadLoading then (b, False)
          else let s = shows (bp_reads b) (tr_key (pl_request e)); b1 = b\<lparr>bp_reads := Suc (bp_reads b)\<rparr>
               in if \<not> terminal s then (b1, False)
                  else let b2 = b1\<lparr>bp_active := bp_active b - 1,
                                   bp_retainer := (case s of
                                       Resolved _ \<Rightarrow> map_option (visit kept_shows DownloadsPage [pl_gallery e]) (bp_retainer b)
                                     | _ \<Rightarrow> bp_retainer b)\<rparr>
                       in (release_preload e (set_preload i (e\<lparr>pl_status := PreloadSettled, pl_handle := None\<rparr>) b2), True))"

text \<open>The loop of \<^verbatim>\<open>pump\<close>; while it runs, a nested \<^verbatim>\<open>pump\<close> returns at once.\<close>

primrec pump_loop :: "shown \<Rightarrow> shown \<Rightarrow> string list \<Rightarrow> cover_preloader \<Rightarrow> cover_preloader" where
  "pump_loop shows kept_shows [] b = b\<lparr>bp_queued := []\<rparr>"
| "pump_loop shows kept_shows (i # q) b =
     (if bp_active b \<ge> bp_concurrency b then b\<lparr>bp_queued := i # q\<rparr>
      else case map_of (bp_entries b) i of
        None \<Rightarrow> pump_loop shows kept_shows q b
      | Some e \<Rightarrow>
          let h = bp_handles b;
              b1 = set_preload i (e\<lparr>pl_status := PreloadLoading, pl_handle := Some h\<rparr>)
                     (b\<lparr>bp_active := bp_active b + 1, bp_handles := Suc h,
                        bp_log := bp_log b @ [Subscribed h (pl_request e)]\<rparr>)
          in pump_loop shows kept_shows q (fst (settle_preload shows kept_shows i (pl_object e) b1)))"

definition pump :: "shown \<Rightarrow> shown \<Rightarrow> cover_preloader \<Rightarrow> cover_preloader" where
  "pump shows kept_shows b = (if bp_disposed b then b else pump_loop shows kept_shows (bp_queued b) b)"

text \<open>The loop of \<^verbatim>\<open>update\<close> over the galleries: the new map, the objects of the old map whose gallery has been
  replaced, and the number of objects made; an exception ends it.\<close>

primrec next_entries ::
  "gallery list \<Rightarrow> (string \<times> cover_preload) list \<Rightarrow> (string \<times> cover_preload) list \<Rightarrow> nat
   \<Rightarrow> bool \<times> (string \<times> cover_preload) list \<times> (string \<times> cover_preload) list \<times> nat" where
  "next_entries [] old new n = (True, old, new, n)"
| "next_entries (g # gs) old new n =
     (case galleryCoverPageSignature [g] of
        Inl _ \<Rightarrow> (False, old, new, n)
      | Inr i \<Rightarrow>
          if i \<in> set (keys new) then next_entries gs old new n
          else case map_of old i of
            Some e \<Rightarrow>
              next_entries gs (AList.update i (e\<lparr>pl_gallery := g\<rparr>) old) (AList.update i (e\<lparr>pl_gallery := g\<rparr>) new) n
          | None \<Rightarrow>
              (case galleryCoverThumbnailKey g of
                 Inl _ \<Rightarrow> (False, old, new, n)
               | Inr k \<Rightarrow>
                   next_entries gs old (AList.update i \<lparr>pl_object = n, pl_gallery = g,
                     pl_request = \<lparr>tr_key = k, tr_consumer = ForDownloads, tr_priority = Prefetch\<rparr>,
                     pl_status = PreloadQueued, pl_handle = None\<rparr> new) (Suc n)))"

definition drop_preload :: "string \<times> cover_preload \<Rightarrow> cover_preloader \<Rightarrow> cover_preloader" where
  "drop_preload ie b =
     release_preload (snd ie) (if pl_status (snd ie) = PreloadLoading then b\<lparr>bp_active := bp_active b - 1\<rparr> else b)"

definition update_preloads :: "shown \<Rightarrow> shown \<Rightarrow> gallery list \<Rightarrow> cover_preloader \<Rightarrow> cover_preloader" where
  "update_preloads shows kept_shows items b =
     (if bp_disposed b then b
      else case next_entries items (bp_entries b) [] (bp_objects b) of
        (finished, old, new, n) \<Rightarrow>
          if \<not> finished then b\<lparr>bp_entries := old, bp_objects := n\<rparr>
          else let gone = filter (\<lambda>ie. fst ie \<notin> set (keys new)) old;
                   b1 = fold drop_preload gone (b\<lparr>bp_objects := n\<rparr>)
               in pump shows kept_shows (b1\<lparr>bp_entries := new,
                    bp_queued := keys (filter (\<lambda>ie. pl_status (snd ie) = PreloadQueued) new)\<rparr>))"

definition dispose_preloads :: "cover_preloader \<Rightarrow> cover_preloader" where
  "dispose_preloads b =
     (fold release_preload (vals (bp_entries b)) (b\<lparr>bp_disposed := True\<rparr>))\<lparr>bp_entries := [], bp_queued := [], bp_active := 0\<rparr>"

definition preload_settled :: "shown \<Rightarrow> shown \<Rightarrow> string \<Rightarrow> nat \<Rightarrow> cover_preloader \<Rightarrow> cover_preloader" where
  "preload_settled shows kept_shows i ob b =
     (case settle_preload shows kept_shows i ob b of (b1, reached) \<Rightarrow> if reached then pump shows kept_shows b1 else b1)"

datatype preloader_event = PreloadsUpdated "gallery list" | PreloadsDisposed | PreloadNotified string nat

fun preloader_step :: "shown \<Rightarrow> shown \<Rightarrow> cover_preloader \<Rightarrow> preloader_event \<Rightarrow> cover_preloader" where
  "preloader_step shows kept_shows b (PreloadsUpdated items) = update_preloads shows kept_shows items b"
| "preloader_step shows kept_shows b PreloadsDisposed = dispose_preloads b"
| "preloader_step shows kept_shows b (PreloadNotified i ob) = preload_settled shows kept_shows i ob b"

end
