(* ===== verification/CoverSessionFacts.thy ===== *)
theory CoverSessionFacts
  imports CoverSession
begin

text \<open>
  Facts about the covers kept warm. The account of subscriptions (each one made is either still held or has been
  released exactly once) is shared by the three components; the retainer stays within its two budgets after every
  event and gives up the least recently visited cover first; the background loader never has more than its four
  subscriptions and is never idle while covers are waiting; the next page is only asked for when the current one
  has come.
\<close>

section \<open>The account of subscriptions\<close>

fun subscribed_handles :: "cover_effect list \<Rightarrow> nat list" where
  "subscribed_handles [] = []"
| "subscribed_handles (Subscribed h _ # es) = h # subscribed_handles es"
| "subscribed_handles (Released _ # es) = subscribed_handles es"

fun released_handles :: "cover_effect list \<Rightarrow> nat list" where
  "released_handles [] = []"
| "released_handles (Released h # es) = h # released_handles es"
| "released_handles (Subscribed _ _ # es) = released_handles es"

definition ledger :: "cover_effect list \<Rightarrow> nat multiset \<Rightarrow> nat \<Rightarrow> bool" where
  "ledger es held n \<longleftrightarrow> subscribed_handles es = [0..<n] \<and> mset (released_handles es) + held = mset [0..<n]"

lemma handles_append [simp]:
  "subscribed_handles (es @ ds) = subscribed_handles es @ subscribed_handles ds"
  "released_handles (es @ ds) = released_handles es @ released_handles ds"
  by (induction es rule: subscribed_handles.induct) auto

lemma ledger_start [simp]: "ledger [] {#} 0"
  by (simp add: ledger_def)

lemma ledger_subscribe: "ledger es held n \<Longrightarrow> ledger (es @ [Subscribed n r]) (add_mset n held) (Suc n)"
  by (simp add: ledger_def)

lemma ledger_release: "ledger es (add_mset h held) n \<Longrightarrow> ledger (es @ [Released h]) held n"
  by (simp add: ledger_def)

lemma handles_released [simp]:
  "subscribed_handles (map Released hs) = []" "released_handles (map Released hs) = hs"
  by (induction hs) simp_all

lemma ledger_release_all: "ledger es (mset hs + held) n \<Longrightarrow> ledger (es @ map Released hs) held n"
  by (simp add: ledger_def ac_simps)

lemma subscribed_all [simp]: "subscribed_handles (subscribe_all n rs) = [n ..< n + length rs]"
proof (induction rs arbitrary: n)
  case (Cons r rs)
  have "[n ..< n + length (r # rs)] = n # [Suc n ..< Suc n + length rs]" by (subst upt_conv_Cons) simp_all
  with Cons show ?case by simp
qed simp

lemma released_all [simp]: "released_handles (subscribe_all n rs) = []"
  by (induction rs arbitrary: n) simp_all

lemma ledger_subscribe_all:
  assumes "ledger es held n"
  shows "ledger (es @ subscribe_all n rs) (mset [n ..< n + length rs] + held) (n + length rs)"
proof -
  have split: "[0 ..< n + length rs] = [0 ..< n] @ [n ..< n + length rs]" by (rule upt_add_eq_append) simp
  have "mset (released_handles es) + (mset [n ..< n + length rs] + held) = (mset (released_handles es) + held) + mset [n ..< n + length rs]"
    by (simp only: ac_simps)
  also have "\<dots> = mset [0 ..< n + length rs]" using assms unfolding split mset_append ledger_def by simp
  finally have m: "mset (released_handles es) + (mset [n ..< n + length rs] + held) = mset [0 ..< n + length rs]" .
  have "subscribed_handles es = [0 ..< n]" using assms by (simp add: ledger_def)
  with m show ?thesis unfolding ledger_def handles_append subscribed_all released_all append_Nil2 split by simp
qed

text \<open>What the account says: a subscription is released at most once, and those not released are the held ones.\<close>

lemma ledger_exact:
  assumes "ledger es held n"
  shows "distinct (released_handles es)" and "set_mset held = {h. h < n} - set (released_handles es)"
    and "distinct hs \<or> mset hs \<noteq> held"
proof -
  have split: "distinct (released_handles es @ xs) \<and> set (released_handles es) \<union> set xs = {h. h < n}" if "mset xs = held" for xs
  proof -
    have m: "mset (released_handles es @ xs) = mset [0..<n]" using assms that by (simp add: ledger_def)
    then have "distinct (released_handles es @ xs)" using mset_eq_imp_distinct_iff [OF m] by simp
    moreover have "set (released_handles es @ xs) = set [0..<n]" by (rule mset_eq_setD [OF m])
    ultimately show ?thesis by auto
  qed
  obtain xs where xs: "mset xs = held" using ex_mset by blast
  from split [OF xs] show "distinct (released_handles es)" by simp
  from split [OF xs] have "set xs = {h. h < n} - set (released_handles es)" by auto
  then show "set_mset held = {h. h < n} - set (released_handles es)" by (simp flip: xs)
  show "distinct hs \<or> mset hs \<noteq> held" using split [of hs] by (cases "mset hs = held") simp_all
qed

section \<open>Covers of visited pages\<close>

abbreviation cover_handles :: "(string \<times> retained_cover) list \<Rightarrow> nat multiset" where
  "cover_handles \<equiv> map_total (\<lambda>e. {#rc_handle e#})"

definition retainer_ok :: "cover_retainer \<Rightarrow> bool" where
  "retainer_ok r \<longleftrightarrow>
     distinct (keys (cr_entries r)) \<and> ledger (cr_log r) (cover_handles (cr_entries r)) (cr_handles r)
     \<and> list_all (\<lambda>ie. 0 \<le> rc_estimatedBytes (snd ie)) (cr_entries r)
     \<and> cr_retainedBytes r = map_total rc_estimatedBytes (cr_entries r)
     \<and> 1 \<le> cr_capacity r \<and> 1 \<le> cr_byteBudget r"

definition within_budgets :: "cover_retainer \<Rightarrow> bool" where
  "within_budgets r \<longleftrightarrow>
     int (length (cr_entries r)) \<le> cr_capacity r \<and> cr_retainedBytes r \<le> of_int (cr_byteBudget r)"

lemma costs_nonneg:
  fixes f :: "'a \<Rightarrow> rat"
  shows "list_all (\<lambda>ie. 0 \<le> f (snd ie)) es \<Longrightarrow> 0 \<le> map_total f es"
  by (induction es) simp_all

lemma costs_nonpos:
  fixes f :: "'a \<Rightarrow> rat"
  shows "\<forall>ie \<in> set es. f (snd ie) \<le> 0 \<Longrightarrow> map_total f es \<le> 0"
  by (induction es) (auto intro: add_nonpos_nonpos)

lemma list_all_delete: "list_all p m \<Longrightarrow> list_all p (AList.delete k m)"
  by (simp add: AList.delete_eq list_all_iff)

lemma list_all_update: "list_all p m \<Longrightarrow> p (k, v) \<Longrightarrow> list_all p (AList.update k v m)"
  by (induction m) auto

lemma remove_cover_ok:
  assumes ok: "retainer_ok r" and e: "map_of (cr_entries r) i = Some e"
  shows "retainer_ok (remove_cover i e r)" and "length (cr_entries (remove_cover i e r)) < length (cr_entries r)"
    and "cr_retainedBytes (remove_cover i e r) \<le> cr_retainedBytes r"
    and "cr_capacity (remove_cover i e r) = cr_capacity r \<and> cr_byteBudget (remove_cover i e r) = cr_byteBudget r"
proof -
  have d: "distinct (keys (cr_entries r))" using ok by (simp add: retainer_ok_def)
  have nonneg: "list_all (\<lambda>ie. 0 \<le> rc_estimatedBytes (snd ie)) (AList.delete i (cr_entries r))"
    using ok by (simp add: retainer_ok_def list_all_delete)
  have bytes: "map_total rc_estimatedBytes (AList.delete i (cr_entries r)) + rc_estimatedBytes e = cr_retainedBytes r"
    using map_total_delete [OF d, of rc_estimatedBytes i] ok e by (simp add: old_value_def retainer_ok_def)
  have handles: "cover_handles (cr_entries r) = add_mset (rc_handle e) (cover_handles (AList.delete i (cr_entries r)))"
    using map_total_delete [OF d, of "\<lambda>e. {#rc_handle e#}" i] e by (simp add: old_value_def)
  have "ledger (cr_log r @ [Released (rc_handle e)]) (cover_handles (AList.delete i (cr_entries r))) (cr_handles r)"
    using ok by (intro ledger_release) (simp add: retainer_ok_def flip: handles)
  moreover have "max 0 (cr_retainedBytes r - rc_estimatedBytes e) = map_total rc_estimatedBytes (AList.delete i (cr_entries r))"
    using bytes costs_nonneg [OF nonneg] by (simp add: max_def algebra_simps)
  ultimately show "retainer_ok (remove_cover i e r)"
    using ok e nonneg d by (simp add: retainer_ok_def remove_cover_def)
  have "i \<in> set (keys (cr_entries r))" using e by (force dest: map_of_SomeD)
  from length_delete_less [OF this] show "length (cr_entries (remove_cover i e r)) < length (cr_entries r)"
    using e by (simp add: remove_cover_def)
  have "0 \<le> rc_estimatedBytes e" using ok e by (force simp: retainer_ok_def list_all_iff dest: map_of_SomeD)
  moreover have "0 \<le> cr_retainedBytes r" using ok costs_nonneg by (auto simp: retainer_ok_def)
  ultimately show "cr_retainedBytes (remove_cover i e r) \<le> cr_retainedBytes r"
    using e by (simp add: remove_cover_def)
  show "cr_capacity (remove_cover i e r) = cr_capacity r \<and> cr_byteBudget (remove_cover i e r) = cr_byteBudget r"
    by (simp add: remove_cover_def)
qed

text \<open>The entry given up is the least recently visited of those considered.\<close>

lemma less_recent_run:
  "foldl (less_recent p) best es = res \<Longrightarrow>
     (res = None \<longleftrightarrow> best = None \<and> (\<forall>ie \<in> set es. \<not> p (snd ie)))
     \<and> (\<forall>x. res = Some x \<longrightarrow> (best = Some x \<or> x \<in> set es \<and> p (snd x))
          \<and> (\<forall>b. best = Some b \<longrightarrow> rc_lastVisited (snd x) \<le> rc_lastVisited (snd b))
          \<and> (\<forall>ie \<in> set es. p (snd ie) \<longrightarrow> rc_lastVisited (snd x) \<le> rc_lastVisited (snd ie)))"
proof (induction es arbitrary: best)
  case (Cons y es)
  from Cons.IH [of "less_recent p best y"] Cons.prems show ?case
    by (cases y; cases best; cases "p (snd y)") (auto simp: less_recent_def split: if_splits)
qed auto

lemma oldestEntry_spec:
  "oldestEntry p r = None \<Longrightarrow> \<forall>ie \<in> set (cr_entries r). \<not> p (snd ie)"
  "oldestEntry p r = Some x \<Longrightarrow> x \<in> set (cr_entries r) \<and> p (snd x)
     \<and> (\<forall>ie \<in> set (cr_entries r). p (snd ie) \<longrightarrow> rc_lastVisited (snd x) \<le> rc_lastVisited (snd ie))"
  using less_recent_run [of p None "cr_entries r" "oldestEntry p r"] by (simp_all add: oldestEntry_def)

lemma entry_of_oldest:
  assumes "retainer_ok r" and "oldestEntry p r = Some x"
  shows "map_of (cr_entries r) (fst x) = Some (snd x)"
  using assms oldestEntry_spec(2) [OF assms(2)] map_of_entries by (simp add: retainer_ok_def)

text \<open>Both loops keep the invariant and the other budget, and end within their own.\<close>

definition evicted :: "cover_retainer \<Rightarrow> cover_retainer \<Rightarrow> bool" where
  "evicted r r' \<longleftrightarrow> retainer_ok r' \<and> cr_retainedBytes r' \<le> cr_retainedBytes r \<and> length (cr_entries r') \<le> length (cr_entries r)
     \<and> cr_capacity r' = cr_capacity r \<and> cr_byteBudget r' = cr_byteBudget r"

lemma evicted_refl: "retainer_ok r \<Longrightarrow> evicted r r"
  by (simp add: evicted_def)

lemma evicted_trans: "evicted a b \<Longrightarrow> evicted b c \<Longrightarrow> evicted a c"
  by (auto simp: evicted_def)

lemma evicted_remove:
  assumes "retainer_ok r" and "map_of (cr_entries r) i = Some e"
  shows "evicted r (remove_cover i e r)"
  using remove_cover_ok [OF assms] by (simp add: evicted_def)

lemma evict_over_budget_ok:
  assumes "retainer_ok r" and "length (cr_entries r) \<le> n"
  shows "evicted r (evict_over_budget n r) \<and> cr_retainedBytes (evict_over_budget n r) \<le> of_int (cr_byteBudget r)"
  using assms
proof (induction n arbitrary: r)
  case 0
  then have "cr_retainedBytes r = 0" by (simp add: retainer_ok_def)
  with 0 show ?case by (simp add: evicted_refl retainer_ok_def)
next
  case (Suc n)
  show ?case
  proof (cases "cr_retainedBytes r > of_int (cr_byteBudget r)")
    case True
    have "\<exists>x. oldestEntry (\<lambda>e. rc_estimatedBytes e > 0) r = Some x"
    proof (rule ccontr)
      assume "\<not> ?thesis"
      then have "oldestEntry (\<lambda>e. rc_estimatedBytes e > 0) r = None" by (cases "oldestEntry (\<lambda>e. rc_estimatedBytes e > 0) r") auto
      from oldestEntry_spec(1) [OF this] have "map_total rc_estimatedBytes (cr_entries r) \<le> 0"
        by (simp add: costs_nonpos not_less)
      moreover have "0 < cr_byteBudget r" using Suc.prems(1) by (simp add: retainer_ok_def)
      ultimately show False using True Suc.prems(1) by (simp add: retainer_ok_def)
    qed
    then obtain i e where x: "oldestEntry (\<lambda>e. rc_estimatedBytes e > 0) r = Some (i, e)" by auto
    have e: "map_of (cr_entries r) i = Some e" using entry_of_oldest [OF Suc.prems(1) x] by simp
    note ev = evicted_remove [OF Suc.prems(1) e]
    have "length (cr_entries (remove_cover i e r)) \<le> n"
      using remove_cover_ok(2) [OF Suc.prems(1) e] Suc.prems(2) by simp
    from Suc.IH [OF _ this] ev evicted_trans [OF ev] True x show ?thesis by (simp add: evicted_def)
  qed (use Suc.prems in \<open>simp add: evicted_refl\<close>)
qed

lemma evict_over_capacity_ok:
  assumes "retainer_ok r" and "length (cr_entries r) \<le> n"
  shows "evicted r (evict_over_capacity n r) \<and> int (length (cr_entries (evict_over_capacity n r))) \<le> cr_capacity r"
  using assms
proof (induction n arbitrary: r)
  case 0
  then show ?case by (simp add: evicted_refl retainer_ok_def)
next
  case (Suc n)
  show ?case
  proof (cases "int (length (cr_entries r)) > cr_capacity r")
    case True
    then have "cr_entries r \<noteq> []" using Suc.prems(1) by (auto simp: retainer_ok_def)
    then have "\<not> (\<forall>ie \<in> set (cr_entries r). \<not> True)" using hd_in_set by blast
    then have "oldestEntry (\<lambda>_. True) r \<noteq> None" using oldestEntry_spec(1) [of "\<lambda>_. True" r] by blast
    then obtain ie where "oldestEntry (\<lambda>_. True) r = Some ie" by blast
    then obtain i e where x: "oldestEntry (\<lambda>_. True) r = Some (i, e)" by (cases ie) simp
    have e: "map_of (cr_entries r) i = Some e" using entry_of_oldest [OF Suc.prems(1) x] by simp
    note ev = evicted_remove [OF Suc.prems(1) e]
    have "length (cr_entries (remove_cover i e r)) \<le> n"
      using remove_cover_ok(2) [OF Suc.prems(1) e] Suc.prems(2) by simp
    from Suc.IH [OF _ this] ev evicted_trans [OF ev] True x show ?thesis by (simp add: evicted_def)
  qed (use Suc.prems in \<open>simp add: evicted_refl\<close>)
qed

lemma evict_ok:
  assumes "retainer_ok r"
  shows "evicted r (evictLeastRecentlyVisited r) \<and> within_budgets (evictLeastRecentlyVisited r)"
proof -
  let ?r1 = "evict_over_budget (length (cr_entries r)) r"
  have one: "evicted r ?r1" "cr_retainedBytes ?r1 \<le> of_int (cr_byteBudget r)"
    using evict_over_budget_ok [OF assms le_refl] by simp_all
  have two: "evicted ?r1 (evictLeastRecentlyVisited r)" "int (length (cr_entries (evictLeastRecentlyVisited r))) \<le> cr_capacity ?r1"
    using evict_over_capacity_ok [of ?r1, OF _ le_refl] one(1)
    by (simp_all add: evictLeastRecentlyVisited_def Let_def evicted_def)
  from evicted_trans [OF one(1) two(1)] show ?thesis
    using one two by (auto simp: within_budgets_def evicted_def)
qed

text \<open>What a look shows never costs a negative number of bytes.\<close>

definition sane :: "shown \<Rightarrow> bool" where
  "sane shows \<longleftrightarrow> (\<forall>n k a. shows n k = Resolved a \<longrightarrow> 0 \<le> thumbnailMemoryCost a)"

text \<open>An update of an entry that keeps its subscription.\<close>

lemma update_entry_ok:
  assumes ok: "retainer_ok r" and e: "map_of (cr_entries r) i = Some e" and same: "rc_handle e' = rc_handle e"
    and nonneg: "0 \<le> rc_estimatedBytes e'" and bytes: "b = cr_retainedBytes r + (rc_estimatedBytes e' - rc_estimatedBytes e)"
    and r': "cr_entries r' = AList.update i e' (cr_entries r)" "cr_retainedBytes r' = b" "cr_log r' = cr_log r"
      "cr_handles r' = cr_handles r" "cr_capacity r' = cr_capacity r" "cr_byteBudget r' = cr_byteBudget r"
  shows "retainer_ok r'" and "length (cr_entries r') = length (cr_entries r)"
proof -
  have "cover_handles (AList.update i e' (cr_entries r)) = cover_handles (cr_entries r)"
    using map_total_update [of "\<lambda>e. {#rc_handle e#}" i e' "cr_entries r"] e same by (simp add: old_value_def)
  moreover have "map_total rc_estimatedBytes (AList.update i e' (cr_entries r)) = b"
    using map_total_update [of rc_estimatedBytes i e' "cr_entries r"] e ok bytes
    by (simp add: old_value_def retainer_ok_def algebra_simps)
  ultimately show "retainer_ok r'" using ok nonneg by (simp add: retainer_ok_def list_all_update r')
  show "length (cr_entries r') = length (cr_entries r)"
    using e by (force simp: length_update r' dest: map_of_SomeD)
qed

lemma settle_cover_ok:
  assumes "sane shows" and ok: "retainer_ok r"
  shows "retainer_ok (settle_cover shows i h r)"
    and "within_budgets r \<Longrightarrow> within_budgets (settle_cover shows i h r)"
    and "cr_capacity (settle_cover shows i h r) = cr_capacity r \<and> cr_byteBudget (settle_cover shows i h r) = cr_byteBudget r
      \<and> int (length (cr_entries (settle_cover shows i h r))) \<le> int (length (cr_entries r))"
proof -
  let ?r = "settle_cover shows i h r"
  have "retainer_ok ?r \<and> (within_budgets r \<longrightarrow> within_budgets ?r) \<and> cr_capacity ?r = cr_capacity r
      \<and> cr_byteBudget ?r = cr_byteBudget r \<and> length (cr_entries ?r) \<le> length (cr_entries r)"
  proof (cases "map_of (cr_entries r) i")
    case None
    then show ?thesis using ok by (simp add: settle_cover_def)
  next
    case (Some e)
    let ?r1 = "r\<lparr>cr_reads := Suc (cr_reads r)\<rparr>"
    have ok1: "retainer_ok ?r1" using ok by (simp add: retainer_ok_def)
    show ?thesis
    proof (cases "rc_handle e = h")
      case True
      show ?thesis
      proof (cases "shows (cr_reads r) (tr_key (rc_request e))")
        case (Resolved a)
        let ?e = "e\<lparr>rc_estimatedBytes := thumbnailMemoryCost a\<rparr>"
        let ?r2 = "?r1\<lparr>cr_retainedBytes := cr_retainedBytes r + (thumbnailMemoryCost a - rc_estimatedBytes e),
          cr_entries := AList.update i ?e (cr_entries r)\<rparr>"
        have "0 \<le> thumbnailMemoryCost a" using assms(1) Resolved by (auto simp: sane_def)
        then have two: "retainer_ok ?r2" "length (cr_entries ?r2) = length (cr_entries r)"
          using update_entry_ok [OF ok Some, of ?e "cr_retainedBytes r + (thumbnailMemoryCost a - rc_estimatedBytes e)" ?r2]
          by simp_all
        from evict_ok [OF two(1)] two(2) True Some Resolved show ?thesis
          by (simp add: settle_cover_def Let_def evicted_def)
      next
        case (ErrorShown m c)
        from remove_cover_ok [OF ok1, of i e] Some True ErrorShown show ?thesis
          by (auto simp: settle_cover_def Let_def within_budgets_def)
      qed (use True Some ok1 in \<open>simp_all add: settle_cover_def Let_def within_budgets_def\<close>)
    qed (use Some ok in \<open>simp add: settle_cover_def\<close>)
  qed
  then show "retainer_ok ?r" "within_budgets r \<Longrightarrow> within_budgets ?r"
    "cr_capacity ?r = cr_capacity r \<and> cr_byteBudget ?r = cr_byteBudget r \<and> int (length (cr_entries ?r)) \<le> int (length (cr_entries r))"
    by simp_all
qed

lemma visit_cover_ok:
  assumes sane: "sane shows" and ok: "retainer_ok r \<and> within_budgets r"
  shows "retainer_ok (visit_cover shows request r) \<and> within_budgets (visit_cover shows request r)"
proof (cases "map_of (cr_entries r) (thumbnailKeyIdentity (tr_key request))")
  case (Some e)
  let ?i = "thumbnailKeyIdentity (tr_key request)"
  let ?r = "r\<lparr>cr_visitSequence := Suc (cr_visitSequence r),
     cr_entries := AList.update ?i (e\<lparr>rc_lastVisited := Suc (cr_visitSequence r)\<rparr>) (cr_entries r)\<rparr>"
  have r: "retainer_ok r" using ok by simp
  have "0 \<le> rc_estimatedBytes e" using r Some by (force simp: retainer_ok_def list_all_iff dest: map_of_SomeD)
  then have "retainer_ok ?r" "length (cr_entries ?r) = length (cr_entries r)"
    using update_entry_ok [OF r Some, of "e\<lparr>rc_lastVisited := Suc (cr_visitSequence r)\<rparr>" "cr_retainedBytes r" ?r] by simp_all
  moreover have "within_budgets ?r" using ok calculation(2) by (simp add: within_budgets_def)
  ultimately show ?thesis
    using settle_cover_ok(1,2) [OF sane, of ?r ?i "rc_handle e"] Some by (simp add: visit_cover_def Let_def)
next
  case None
  let ?i = "thumbnailKeyIdentity (tr_key request)"
  let ?e = "\<lparr>rc_request = request, rc_handle = cr_handles r, rc_lastVisited = Suc (cr_visitSequence r), rc_estimatedBytes = 0\<rparr>"
  let ?r = "r\<lparr>cr_visitSequence := Suc (cr_visitSequence r), cr_handles := Suc (cr_handles r),
     cr_entries := AList.update ?i ?e (cr_entries r), cr_log := cr_log r @ [Subscribed (cr_handles r) request]\<rparr>"
  have "cover_handles (AList.update ?i ?e (cr_entries r)) = add_mset (cr_handles r) (cover_handles (cr_entries r))"
    using map_total_update [of "\<lambda>e. {#rc_handle e#}" ?i ?e "cr_entries r"] None by (simp add: old_value_def)
  moreover have "map_total rc_estimatedBytes (AList.update ?i ?e (cr_entries r)) = map_total rc_estimatedBytes (cr_entries r)"
    using map_total_update [of rc_estimatedBytes ?i ?e "cr_entries r"] None by (simp add: old_value_def)
  ultimately have "retainer_ok ?r" using ok by (simp add: retainer_ok_def ledger_subscribe list_all_update)
  from evict_ok [OF settle_cover_ok(1) [OF sane this, of ?i "cr_handles r"]] show ?thesis
    using None by (simp add: visit_cover_def Let_def evicted_def)
qed

lemma visit_ok:
  assumes "sane shows" and "retainer_ok r \<and> within_budgets r"
  shows "retainer_ok (visit shows view items r) \<and> within_budgets (visit shows view items r)"
proof -
  have "retainer_ok (fold (visit_cover shows) rs r) \<and> within_budgets (fold (visit_cover shows) rs r)" for rs
    using assms(2)
  proof (induction rs arbitrary: r)
    case (Cons x rs)
    from Cons.IH [OF visit_cover_ok [OF assms(1) Cons.prems]] show ?case by simp
  qed simp
  then show ?thesis using assms(2) by (simp add: visit_def split: sum.split)
qed

lemma retainer_step_ok:
  assumes "sane shows" and "retainer_ok r \<and> within_budgets r"
  shows "retainer_ok (retainer_step shows r e) \<and> within_budgets (retainer_step shows r e)"
proof (cases e)
  case CoversCleared
  have "cover_handles es = mset (map (rc_handle \<circ> snd) es)" for es :: "(string \<times> retained_cover) list"
    by (induction es) simp_all
  then have "ledger (cr_log r @ map Released (map (rc_handle \<circ> snd) (cr_entries r))) {#} (cr_handles r)"
    using assms(2) by (intro ledger_release_all) (simp add: retainer_ok_def)
  then show ?thesis
    using CoversCleared assms(2) by (simp add: clear_covers_def retainer_ok_def within_budgets_def comp_def)
next
  case (CoverSettled i h)
  then show ?thesis using assms settle_cover_ok(1,2) [OF assms(1)] by simp
qed (use assms visit_ok in simp)

lemma new_retainer_ok: "new_retainer capacity byteBudget = Some r \<Longrightarrow> retainer_ok r \<and> within_budgets r"
  by (auto simp: new_retainer_def retainer_ok_def within_budgets_def split: if_splits)

text \<open>The budgets never change.\<close>

definition budgets :: "cover_retainer \<Rightarrow> int \<times> int" where
  "budgets r = (cr_capacity r, cr_byteBudget r)"

lemma evict_budgets:
  "budgets (evict_over_budget n r) = budgets r" "budgets (evict_over_capacity n r) = budgets r"
  by (induction n arbitrary: r) (simp_all add: budgets_def remove_cover_def split: option.split)

lemma settle_budgets: "budgets (settle_cover shows i h r) = budgets r"
  using evict_budgets
  by (simp add: settle_cover_def evictLeastRecentlyVisited_def Let_def remove_cover_def budgets_def
      split: option.split thumbnail_snapshot.split)

lemma visit_cover_budgets: "budgets (visit_cover shows request r) = budgets r"
  using evict_budgets settle_budgets
  by (simp add: visit_cover_def evictLeastRecentlyVisited_def Let_def budgets_def split: option.split)

lemma retainer_step_budgets: "budgets (retainer_step shows r e) = budgets r"
proof (cases e)
  case (PageVisited view items)
  have "budgets (fold (visit_cover shows) rs r) = budgets r" for rs
    by (induction rs arbitrary: r) (simp_all add: visit_cover_budgets)
  then show ?thesis using PageVisited by (simp add: visit_def split: sum.split)
qed (simp_all add: settle_budgets clear_covers_def, simp add: budgets_def)

lemma retainer_run_budgets: "budgets (foldl (retainer_step shows) r es) = budgets r"
  by (induction es arbitrary: r) (simp_all add: retainer_step_budgets)

lemma retainer_run_ok:
  assumes "sane shows" and "new_retainer capacity byteBudget = Some r"
  shows "retainer_ok (foldl (retainer_step shows) r es) \<and> within_budgets (foldl (retainer_step shows) r es)"
  using new_retainer_ok [OF assms(2)]
  by (induction es arbitrary: r) (use retainer_step_ok [OF assms(1)] in auto)

section \<open>Covers of folders in the background\<close>

definition loading_count :: "(string \<times> cover_preload) list \<Rightarrow> int" where
  "loading_count = map_total (\<lambda>e. of_bool (pl_status e = PreloadLoading))"

definition preload_handles :: "(string \<times> cover_preload) list \<Rightarrow> nat multiset" where
  "preload_handles = map_total (\<lambda>e. case pl_handle e of Some h \<Rightarrow> {#h#} | None \<Rightarrow> {#})"

text \<open>Only a loading entry holds a subscription.\<close>

definition preload_ok :: "cover_preload \<Rightarrow> bool" where
  "preload_ok e \<longleftrightarrow> (pl_handle e \<noteq> None) = (pl_status e = PreloadLoading)"

definition preloader_ok :: "cover_preloader \<Rightarrow> bool" where
  "preloader_ok b \<longleftrightarrow>
     distinct (keys (bp_entries b)) \<and> list_all (\<lambda>ie. preload_ok (snd ie)) (bp_entries b)
     \<and> ledger (bp_log b) (preload_handles (bp_entries b)) (bp_handles b)
     \<and> bp_active b = loading_count (bp_entries b) \<and> bp_active b \<le> bp_concurrency b"

text \<open>The queue holds waiting entries of the map, each once.\<close>

definition queue_ok :: "(string \<times> cover_preload) list \<Rightarrow> string list \<Rightarrow> bool" where
  "queue_ok es q \<longleftrightarrow> distinct q \<and> set q = {i. \<exists>e. map_of es i = Some e \<and> pl_status e = PreloadQueued}"

definition busy :: "cover_preloader \<Rightarrow> bool" where
  "busy b \<longleftrightarrow> bp_queued b = [] \<or> bp_active b = bp_concurrency b"

text \<open>Replacing the entry of an identity that is in the map.\<close>

lemma preload_replaced:
  assumes "distinct (keys es)" and "map_of es i = Some e"
  shows "loading_count (AList.update i e' es) = loading_count es + of_bool (pl_status e' = PreloadLoading) - of_bool (pl_status e = PreloadLoading)"
    and "preload_handles (AList.update i e' es) + (case pl_handle e of Some h \<Rightarrow> {#h#} | None \<Rightarrow> {#})
      = preload_handles es + (case pl_handle e' of Some h \<Rightarrow> {#h#} | None \<Rightarrow> {#})"
  using map_total_update [of "\<lambda>e. of_bool (pl_status e = PreloadLoading) :: int" i e' es]
    map_total_update [of "\<lambda>e. case pl_handle e of Some h \<Rightarrow> {#h#} | None \<Rightarrow> {#}" i e' es] assms(2)
  by (simp_all add: loading_count_def preload_handles_def old_value_def)

definition same_setup :: "cover_preloader \<Rightarrow> cover_preloader \<Rightarrow> bool" where
  "same_setup b b' \<longleftrightarrow> bp_concurrency b' = bp_concurrency b \<and> bp_disposed b' = bp_disposed b \<and> bp_queued b' = bp_queued b"

lemma settle_preload_ok:
  assumes ok: "preloader_ok b" and r: "settle_preload shows kshows i ob b = (b', reached)"
  shows "preloader_ok b'" and "same_setup b b'"
    and "queue_ok (bp_entries b) q \<Longrightarrow> queue_ok (bp_entries b') q"
    and "\<not> reached \<Longrightarrow> bp_active b' = bp_active b"
proof -
  have "preloader_ok b' \<and> same_setup b b' \<and> (queue_ok (bp_entries b) q \<longrightarrow> queue_ok (bp_entries b') q)
      \<and> (\<not> reached \<longrightarrow> bp_active b' = bp_active b)"
  proof (cases "map_of (bp_entries b) i")
    case None
    then show ?thesis using ok r by (simp add: settle_preload_def same_setup_def)
  next
    case (Some e)
    show ?thesis
    proof (cases "bp_disposed b \<or> pl_object e \<noteq> ob \<or> pl_status e \<noteq> PreloadLoading
        \<or> \<not> terminal (shows (bp_reads b) (tr_key (pl_request e)))")
      case True
      then have "b' = b \<or> b' = b\<lparr>bp_reads := Suc (bp_reads b)\<rparr>"
        using r Some by (auto simp: settle_preload_def Let_def split: if_splits)
      then show ?thesis using ok by (auto simp: same_setup_def preloader_ok_def)
    next
      case False
      then have loading: "pl_status e = PreloadLoading" by simp
      have eok: "preload_ok e" using ok Some by (force simp: preloader_ok_def list_all_iff dest: map_of_SomeD)
      then obtain h where h: "pl_handle e = Some h" using loading by (auto simp: preload_ok_def)
      let ?e = "e\<lparr>pl_status := PreloadSettled, pl_handle := None\<rparr>"
      have d: "distinct (keys (bp_entries b))" using ok by (simp add: preloader_ok_def)
      have entries: "bp_entries b' = AList.update i ?e (bp_entries b)" and rest: "bp_log b' = bp_log b @ [Released h]"
        "bp_handles b' = bp_handles b" "bp_active b' = bp_active b - 1" "bp_concurrency b' = bp_concurrency b"
        "bp_disposed b' = bp_disposed b" "bp_queued b' = bp_queued b" "reached"
        using r Some False h by (auto simp: settle_preload_def Let_def release_preload_def set_preload_def)
      note counts = preload_replaced [OF d Some, of ?e]
      have "preload_handles (bp_entries b) = add_mset h (preload_handles (bp_entries b'))"
        using counts(2) h by (simp add: entries)
      then have "ledger (bp_log b') (preload_handles (bp_entries b')) (bp_handles b')"
        using ok by (simp add: preloader_ok_def rest ledger_release)
      moreover have "bp_active b' = loading_count (bp_entries b')"
        using counts(1) loading ok by (simp add: preloader_ok_def entries rest)
      moreover have "list_all (\<lambda>ie. preload_ok (snd ie)) (bp_entries b')"
        using ok by (simp add: preloader_ok_def entries list_all_update preload_ok_def)
      ultimately have "preloader_ok b'" using ok d by (simp add: preloader_ok_def rest entries)
      moreover have "queue_ok (bp_entries b') q" if "queue_ok (bp_entries b) q"
      proof -
        have "(\<exists>e. map_of (bp_entries b') k = Some e \<and> pl_status e = PreloadQueued)
            = (\<exists>e. map_of (bp_entries b) k = Some e \<and> pl_status e = PreloadQueued)" for k
          using Some loading by (auto simp: entries lookup_update)
        then show ?thesis using that by (simp add: queue_ok_def)
      qed
      ultimately show ?thesis using rest by (simp add: same_setup_def)
    qed
  qed
  then show "preloader_ok b'" "same_setup b b'" "queue_ok (bp_entries b) q \<Longrightarrow> queue_ok (bp_entries b') q"
    "\<not> reached \<Longrightarrow> bp_active b' = bp_active b"
    by simp_all
qed

lemma start_preload_ok:
  assumes ok: "preloader_ok b" and e: "map_of (bp_entries b) i = Some e" "pl_status e = PreloadQueued"
    and room: "bp_active b < bp_concurrency b" and q: "queue_ok (bp_entries b) (i # q)"
    and b': "b' = set_preload i (e\<lparr>pl_status := PreloadLoading, pl_handle := Some (bp_handles b)\<rparr>)
      (b\<lparr>bp_active := bp_active b + 1, bp_handles := Suc (bp_handles b),
         bp_log := bp_log b @ [Subscribed (bp_handles b) (pl_request e)]\<rparr>)"
  shows "preloader_ok b'" and "queue_ok (bp_entries b') q" and "same_setup b b'"
proof -
  let ?e = "e\<lparr>pl_status := PreloadLoading, pl_handle := Some (bp_handles b)\<rparr>"
  have d: "distinct (keys (bp_entries b))" using ok by (simp add: preloader_ok_def)
  have eok: "preload_ok e" using ok e(1) by (force simp: preloader_ok_def list_all_iff dest: map_of_SomeD)
  then have none: "pl_handle e = None" using e(2) by (simp add: preload_ok_def)
  have entries: "bp_entries b' = AList.update i ?e (bp_entries b)" by (simp add: b' set_preload_def)
  note counts = preload_replaced [OF d e(1), of ?e]
  have "preload_handles (bp_entries b') = add_mset (bp_handles b) (preload_handles (bp_entries b))"
    using counts(2) none by (simp add: entries)
  then have "ledger (bp_log b') (preload_handles (bp_entries b')) (bp_handles b')"
    using ok by (simp add: preloader_ok_def b' set_preload_def ledger_subscribe)
  moreover have "bp_active b' = loading_count (bp_entries b')"
    using counts(1) e(2) ok by (simp add: preloader_ok_def entries) (simp add: b' set_preload_def)
  moreover have "list_all (\<lambda>ie. preload_ok (snd ie)) (bp_entries b')"
    using ok by (simp add: preloader_ok_def entries list_all_update preload_ok_def)
  moreover have "bp_active b' \<le> bp_concurrency b'" using room by (simp add: b' set_preload_def)
  ultimately show "preloader_ok b'" using d by (simp add: preloader_ok_def entries)
  have "set (i # q) = {k. \<exists>e. map_of (bp_entries b) k = Some e \<and> pl_status e = PreloadQueued}" and "i \<notin> set q"
    using q by (simp_all add: queue_ok_def)
  then have "set q = {k. \<exists>e. map_of (bp_entries b) k = Some e \<and> pl_status e = PreloadQueued} - {i}" by auto
  also have "\<dots> = {k. \<exists>e. map_of (bp_entries b') k = Some e \<and> pl_status e = PreloadQueued}"
    by (auto simp: entries lookup_update split: if_splits)
  finally show "queue_ok (bp_entries b') q" using q by (simp add: queue_ok_def)
  show "same_setup b b'" by (simp add: b' set_preload_def same_setup_def)
qed

lemma pump_loop_ok:
  assumes "preloader_ok b" and "queue_ok (bp_entries b) q"
  shows "preloader_ok (pump_loop shows kshows q b)
    \<and> queue_ok (bp_entries (pump_loop shows kshows q b)) (bp_queued (pump_loop shows kshows q b))
    \<and> busy (pump_loop shows kshows q b) \<and> bp_disposed (pump_loop shows kshows q b) = bp_disposed b
    \<and> bp_concurrency (pump_loop shows kshows q b) = bp_concurrency b"
  using assms
proof (induction q arbitrary: b)
  case Nil
  then show ?case by (simp add: preloader_ok_def busy_def)
next
  case (Cons i q)
  show ?case
  proof (cases "bp_active b \<ge> bp_concurrency b")
    case True
    then show ?thesis using Cons.prems by (simp add: preloader_ok_def busy_def)
  next
    case False
    have "i \<in> {k. \<exists>e. map_of (bp_entries b) k = Some e \<and> pl_status e = PreloadQueued}"
      using Cons.prems(2) unfolding queue_ok_def by (metis list.set_intros(1))
    then obtain e where e: "map_of (bp_entries b) i = Some e" "pl_status e = PreloadQueued" by auto
    define b1 where "b1 = set_preload i (e\<lparr>pl_status := PreloadLoading, pl_handle := Some (bp_handles b)\<rparr>)
      (b\<lparr>bp_active := bp_active b + 1, bp_handles := Suc (bp_handles b),
         bp_log := bp_log b @ [Subscribed (bp_handles b) (pl_request e)]\<rparr>)"
    have room: "bp_active b < bp_concurrency b" using False by simp
    note started = start_preload_ok [OF Cons.prems(1) e room Cons.prems(2) b1_def]
    define b2 where "b2 = fst (settle_preload shows kshows i (pl_object e) b1)"
    obtain reached where r: "settle_preload shows kshows i (pl_object e) b1 = (b2, reached)"
      by (cases "settle_preload shows kshows i (pl_object e) b1") (simp add: b2_def)
    note settled = settle_preload_ok [OF started(1) r]
    have "pump_loop shows kshows (i # q) b = pump_loop shows kshows q b2"
      using False e by (simp add: b2_def b1_def Let_def)
    then show ?thesis
      using Cons.IH [OF settled(1) settled(3) [OF started(2)]] started(3) settled(2) by (simp add: same_setup_def)
  qed
qed

lemma pump_ok:
  assumes "preloader_ok b" and "queue_ok (bp_entries b) (bp_queued b)" and "bp_disposed b \<Longrightarrow> busy b"
  shows "preloader_ok (pump shows kshows b) \<and> queue_ok (bp_entries (pump shows kshows b)) (bp_queued (pump shows kshows b))
    \<and> busy (pump shows kshows b) \<and> bp_concurrency (pump shows kshows b) = bp_concurrency b"
  using assms pump_loop_ok [OF assms(1,2)] by (simp add: pump_def)

text \<open>The map \<^verbatim>\<open>update\<close> builds: what it keeps of the old one it keeps unchanged but for the gallery.\<close>

definition same_entry :: "cover_preload \<Rightarrow> cover_preload \<Rightarrow> bool" where
  "same_entry e e' \<longleftrightarrow> pl_status e' = pl_status e \<and> pl_handle e' = pl_handle e"

lemma next_entries_ok:
  assumes "next_entries gs old new n = (finished, old', new', n')"
    and "list_all (\<lambda>ie. preload_ok (snd ie)) old" and "list_all (\<lambda>ie. preload_ok (snd ie)) new" and "distinct (keys new)"
    and "\<forall>i e. map_of new i = Some e \<longrightarrow> (case map_of old i of Some e' \<Rightarrow> same_entry e' e | None \<Rightarrow> pl_status e = PreloadQueued)"
  shows "keys old' = keys old \<and> map pl_status (vals old') = map pl_status (vals old) \<and> map pl_handle (vals old') = map pl_handle (vals old)
    \<and> list_all (\<lambda>ie. preload_ok (snd ie)) new' \<and> distinct (keys new')
    \<and> (\<forall>i e. map_of new' i = Some e \<longrightarrow> (case map_of old' i of Some e' \<Rightarrow> same_entry e' e | None \<Rightarrow> pl_status e = PreloadQueued))"
  using assms
proof (induction gs arbitrary: old new n)
  case (Cons g gs)
  show ?case
  proof (cases "galleryCoverPageSignature [g]")
    case (Inr i)
    show ?thesis
    proof (cases "i \<in> set (keys new)")
      case True
      then show ?thesis using Cons.IH [OF _ Cons.prems(2-5)] Cons.prems(1) Inr by simp
    next
      case new: False
      show ?thesis
      proof (cases "map_of old i")
        case (Some e)
        have kept: "keys (AList.update i (e\<lparr>pl_gallery := g\<rparr>) old) = keys old"
          "map pl_status (vals (AList.update i (e\<lparr>pl_gallery := g\<rparr>) old)) = map pl_status (vals old)"
          "map pl_handle (vals (AList.update i (e\<lparr>pl_gallery := g\<rparr>) old)) = map pl_handle (vals old)"
          using Some by (induction old) (auto split: if_splits)
        have "preload_ok e" using Cons.prems(2) Some by (force simp: list_all_iff dest: map_of_SomeD)
        then have g: "preload_ok (e\<lparr>pl_gallery := g\<rparr>)" by (simp add: preload_ok_def)
        have "next_entries gs (AList.update i (e\<lparr>pl_gallery := g\<rparr>) old) (AList.update i (e\<lparr>pl_gallery := g\<rparr>) new) n
            = (finished, old', new', n')"
          using Cons.prems(1) Inr new Some by simp
        from Cons.IH [OF this] have "keys old' = keys (AList.update i (e\<lparr>pl_gallery := g\<rparr>) old)
            \<and> map pl_status (vals old') = map pl_status (vals (AList.update i (e\<lparr>pl_gallery := g\<rparr>) old))
            \<and> map pl_handle (vals old') = map pl_handle (vals (AList.update i (e\<lparr>pl_gallery := g\<rparr>) old))
            \<and> list_all (\<lambda>ie. preload_ok (snd ie)) new' \<and> distinct (keys new')
            \<and> (\<forall>i e. map_of new' i = Some e \<longrightarrow> (case map_of old' i of Some e' \<Rightarrow> same_entry e' e | None \<Rightarrow> pl_status e = PreloadQueued))"
          using Cons.prems(2-5) g by (auto simp: list_all_update lookup_update same_entry_def split: option.splits)
        then show ?thesis unfolding kept .
      next
        case None
        show ?thesis
        proof (cases "galleryCoverThumbnailKey g")
          case (Inr k)
          with Cons.IH [of old "AList.update i \<lparr>pl_object = n, pl_gallery = g,
              pl_request = \<lparr>tr_key = k, tr_consumer = ForDownloads, tr_priority = Prefetch\<rparr>,
              pl_status = PreloadQueued, pl_handle = None\<rparr> new" "Suc n"] Cons.prems None new \<open>galleryCoverPageSignature [g] = Inr i\<close>
          show ?thesis by (auto simp: list_all_update lookup_update preload_ok_def)
        qed (use Cons.prems \<open>galleryCoverPageSignature [g] = Inr i\<close> new None in simp)
      qed
    qed
  qed (use Cons.prems in simp)
qed simp

text \<open>The totals of a map depend on its statuses and handles only.\<close>

lemma totals_by_status:
  "loading_count es = sum_list (map (\<lambda>s. of_bool (s = PreloadLoading)) (map pl_status (vals es)))"
  "preload_handles es = sum_list (map (\<lambda>h. case h of Some h \<Rightarrow> {#h#} | None \<Rightarrow> {#}) (map pl_handle (vals es)))"
  "list_all (\<lambda>ie. preload_ok (snd ie)) es
     = list_all (\<lambda>sh. (snd sh \<noteq> None) = (fst sh = PreloadLoading)) (zip (map pl_status (vals es)) (map pl_handle (vals es)))"
  by (simp_all add: loading_count_def preload_handles_def map_total_def comp_def) (induction es, simp_all add: preload_ok_def)

lemma queue_by_status:
  "queue_ok es q \<longleftrightarrow> distinct q \<and> set q = {i. map_of (zip (keys es) (map pl_status (vals es))) i = Some PreloadQueued}"
proof -
  have "map_of (zip (keys es) (map pl_status (vals es))) i = map_option pl_status (map_of es i)" for i
    by (induction es) auto
  then show ?thesis by (auto simp: queue_ok_def)
qed

lemma statuses_determine:
  assumes "keys es' = keys es" and "map pl_status (vals es') = map pl_status (vals es)" and "map pl_handle (vals es') = map pl_handle (vals es)"
  shows "loading_count es' = loading_count es" and "preload_handles es' = preload_handles es"
    and "list_all (\<lambda>ie. preload_ok (snd ie)) es' = list_all (\<lambda>ie. preload_ok (snd ie)) es"
    and "queue_ok es' q = queue_ok es q"
  by (simp_all only: totals_by_status queue_by_status assms)

lemma map_total_filter:
  "map_total f (filter p m) + map_total f (filter (\<lambda>kv. \<not> p kv) m) = map_total f m"
  by (induction m) (auto simp: ac_simps)

lemma map_total_insert_key:
  assumes "distinct (keys m)" and "i \<notin> ks"
  shows "map_total f (filter (\<lambda>kv. fst kv \<in> insert i ks) m) = old_value f m i + map_total f (filter (\<lambda>kv. fst kv \<in> ks) m)"
  using assms
proof (induction m)
  case (Cons kv m)
  have "old_value f m i = 0" if "i \<notin> set (keys m)"
  proof -
    have "map_of m i = None" using that by (simp add: map_of_None_keys)
    then show ?thesis by (simp add: old_value_def)
  qed
  with Cons show ?case by (cases kv) (auto simp: old_value_def ac_simps)
qed (simp add: old_value_def)

lemma map_total_matching:
  assumes "distinct (keys old)" and "distinct (keys new)" and "\<forall>kv \<in> set new. f (snd kv) = old_value f old (fst kv)"
  shows "map_total f new = map_total f (filter (\<lambda>kv. fst kv \<in> set (keys new)) old)"
  using assms(2,3)
proof (induction new)
  case (Cons kv new)
  have "fst kv \<notin> set (keys new)" using Cons.prems(1) by simp
  from map_total_insert_key [OF assms(1) this, of f] Cons show ?case by simp
qed (simp add: map_total_def)

lemma loading_count_nonneg: "0 \<le> loading_count es"
  by (induction es) (simp_all add: loading_count_def)

lemma drop_preload_fields:
  "bp_active (drop_preload ie b) = bp_active b - of_bool (pl_status (snd ie) = PreloadLoading)"
  "bp_handles (drop_preload ie b) = bp_handles b" "bp_concurrency (drop_preload ie b) = bp_concurrency b"
  "bp_disposed (drop_preload ie b) = bp_disposed b"
  by (simp_all add: drop_preload_def release_preload_def split: option.split)

lemma drop_preloads:
  "bp_active (fold drop_preload ies b) = bp_active b - loading_count ies"
  "bp_handles (fold drop_preload ies b) = bp_handles b" "bp_concurrency (fold drop_preload ies b) = bp_concurrency b"
  "bp_disposed (fold drop_preload ies b) = bp_disposed b"
  by (induction ies arbitrary: b) (simp_all add: drop_preload_fields loading_count_def)

lemma drop_preloads_ledger:
  "ledger (bp_log b) (preload_handles ies + held) n \<Longrightarrow> ledger (bp_log (fold drop_preload ies b)) held n"
proof (induction ies arbitrary: b)
  case (Cons ie ies)
  have "ledger (bp_log (drop_preload ie b)) (preload_handles ies + held) n"
  proof (cases "pl_handle (snd ie)")
    case None
    then show ?thesis using Cons.prems by (simp add: drop_preload_def release_preload_def preload_handles_def)
  next
    case (Some h)
    then have "ledger (bp_log b) (add_mset h (preload_handles ies + held)) n" using Cons.prems by (simp add: preload_handles_def)
    then show ?thesis using Some by (simp add: drop_preload_def release_preload_def ledger_release)
  qed
  then show ?case by (simp add: Cons.IH)
qed (simp add: preload_handles_def)

definition loader_ok :: "cover_preloader \<Rightarrow> bool" where
  "loader_ok b \<longleftrightarrow> preloader_ok b \<and> queue_ok (bp_entries b) (bp_queued b) \<and> busy b"

lemma update_preloads_ok:
  assumes ok: "loader_ok b"
  shows "loader_ok (update_preloads shows kshows items b) \<and> bp_concurrency (update_preloads shows kshows items b) = bp_concurrency b"
proof (cases "bp_disposed b")
  case True
  then show ?thesis using ok by (simp add: update_preloads_def)
next
  case live: False
  obtain finished old new n where ne: "next_entries items (bp_entries b) [] (bp_objects b) = (finished, old, new, n)"
    by (metis prod_cases4)
  have b: "preloader_ok b" "queue_ok (bp_entries b) (bp_queued b)" "busy b" using ok by (simp_all add: loader_ok_def)
  have "list_all (\<lambda>ie. preload_ok (snd ie)) (bp_entries b)" using b(1) by (simp add: preloader_ok_def)
  from next_entries_ok [OF ne this]
  have same: "keys old = keys (bp_entries b)" "map pl_status (vals old) = map pl_status (vals (bp_entries b))"
      "map pl_handle (vals old) = map pl_handle (vals (bp_entries b))"
    and new: "list_all (\<lambda>ie. preload_ok (snd ie)) new" "distinct (keys new)"
      "\<forall>i e. map_of new i = Some e \<longrightarrow> (case map_of old i of Some e' \<Rightarrow> same_entry e' e | None \<Rightarrow> pl_status e = PreloadQueued)"
    by simp_all
  note same_totals = statuses_determine [OF same]
  show ?thesis
  proof (cases finished)
    case False
    then have "update_preloads shows kshows items b = b\<lparr>bp_entries := old, bp_objects := n\<rparr>"
      using live ne by (simp add: update_preloads_def)
    then show ?thesis using b same(1) same_totals by (simp add: loader_ok_def preloader_ok_def busy_def)
  next
    case True
    have d: "distinct (keys old)" using b(1) same(1) by (simp add: preloader_ok_def)
    let ?gone = "filter (\<lambda>ie. fst ie \<notin> set (keys new)) old" and ?stay = "filter (\<lambda>ie. fst ie \<in> set (keys new)) old"
    let ?b = "(fold drop_preload ?gone (b\<lparr>bp_objects := n\<rparr>))\<lparr>bp_entries := new,
      bp_queued := keys (filter (\<lambda>ie. pl_status (snd ie) = PreloadQueued) new)\<rparr>"
    have entry: "case map_of old i of Some e' \<Rightarrow> same_entry e' e | None \<Rightarrow> pl_status e = PreloadQueued" "preload_ok e"
      if "(i, e) \<in> set new" for i e
      using that new map_of_entries [OF new(2) that] by (auto simp: list_all_iff)
    have "loading_count new = loading_count ?stay"
      unfolding loading_count_def
    proof (rule map_total_matching [OF d new(2)], rule ballI)
      fix kv assume "kv \<in> set new"
      with entry(1) [of "fst kv" "snd kv"]
      show "(of_bool (pl_status (snd kv) = PreloadLoading) :: int)
          = old_value (\<lambda>e. of_bool (pl_status e = PreloadLoading)) old (fst kv)"
        by (auto simp: old_value_def same_entry_def split: option.splits)
    qed
    moreover have "preload_handles new = preload_handles ?stay"
      unfolding preload_handles_def
    proof (rule map_total_matching [OF d new(2)], rule ballI)
      fix kv assume kv: "kv \<in> set new"
      have "pl_handle (snd kv) = None" if "pl_status (snd kv) = PreloadQueued"
        using entry(2) [of "fst kv" "snd kv"] kv that by (simp add: preload_ok_def)
      with entry(1) [of "fst kv" "snd kv"] kv
      show "(case pl_handle (snd kv) of Some h \<Rightarrow> {#h#} | None \<Rightarrow> {#})
          = old_value (\<lambda>e. case pl_handle e of Some h \<Rightarrow> {#h#} | None \<Rightarrow> {#}) old (fst kv)"
        by (auto simp: old_value_def same_entry_def split: option.splits)
    qed
    moreover have "loading_count ?stay + loading_count ?gone = bp_active b"
      using b(1) same_totals(1) by (simp add: preloader_ok_def loading_count_def map_total_filter)
    moreover have "preload_handles ?gone + preload_handles ?stay = preload_handles (bp_entries b)"
      using same_totals(2) by (simp add: preload_handles_def map_total_filter add.commute)
    moreover have "0 \<le> loading_count ?gone" by (rule loading_count_nonneg)
    moreover have "ledger (bp_log b) (preload_handles (bp_entries b)) (bp_handles b)" and "bp_active b \<le> bp_concurrency b"
      using b(1) by (simp_all add: preloader_ok_def)
    ultimately have "bp_active ?b = loading_count new" "bp_active ?b \<le> bp_concurrency ?b"
      "ledger (bp_log ?b) (preload_handles new) (bp_handles ?b)"
      using drop_preloads_ledger [of "b\<lparr>bp_objects := n\<rparr>" ?gone "preload_handles ?stay" "bp_handles b"]
      by (simp_all add: drop_preloads)
    then have "preloader_ok ?b" using new by (simp add: preloader_ok_def)
    moreover have "queue_ok (bp_entries ?b) (bp_queued ?b)"
    proof -
      have "distinct (keys (filter (\<lambda>ie. pl_status (snd ie) = PreloadQueued) new))" using new(2) by (simp add: distinct_map_filter)
      moreover have "i \<in> set (keys (filter (\<lambda>ie. pl_status (snd ie) = PreloadQueued) new))
          \<longleftrightarrow> (\<exists>e. map_of new i = Some e \<and> pl_status e = PreloadQueued)" for i
        using map_of_entries [OF new(2)] by (force dest: map_of_SomeD)
      ultimately show ?thesis by (simp add: queue_ok_def set_eq_iff)
    qed
    moreover have "update_preloads shows kshows items b = pump shows kshows ?b"
      using live True ne by (simp add: update_preloads_def Let_def)
    ultimately show ?thesis
      using pump_ok [of ?b] live by (simp add: drop_preloads loader_ok_def)
  qed
qed

lemma dispose_preloads_ok:
  assumes "loader_ok b" and "1 \<le> bp_concurrency b"
  shows "loader_ok (dispose_preloads b)" and "preload_handles (bp_entries (dispose_preloads b)) = {#}"
proof -
  have released: "ledger (bp_log (fold release_preload es b)) held n \<and> bp_handles (fold release_preload es b) = bp_handles b
      \<and> bp_concurrency (fold release_preload es b) = bp_concurrency b"
    if "ledger (bp_log b) (sum_list (map (\<lambda>e. case pl_handle e of Some h \<Rightarrow> {#h#} | None \<Rightarrow> {#}) es) + held) n" for es held n b
    using that
  proof (induction es arbitrary: b)
    case (Cons e es)
    have "ledger (bp_log (release_preload e b)) (sum_list (map (\<lambda>e. case pl_handle e of Some h \<Rightarrow> {#h#} | None \<Rightarrow> {#}) es) + held) n
        \<and> bp_handles (release_preload e b) = bp_handles b \<and> bp_concurrency (release_preload e b) = bp_concurrency b"
      using Cons.prems by (cases "pl_handle e") (simp_all add: release_preload_def ledger_release)
    with Cons.IH [of "release_preload e b"] show ?case by simp
  qed simp
  have "ledger (bp_log (b\<lparr>bp_disposed := True\<rparr>))
      (sum_list (map (\<lambda>e. case pl_handle e of Some h \<Rightarrow> {#h#} | None \<Rightarrow> {#}) (vals (bp_entries b))) + {#}) (bp_handles b)"
    using assms(1) by (simp add: loader_ok_def preloader_ok_def preload_handles_def map_total_def comp_def)
  from released [OF this] show "loader_ok (dispose_preloads b)"
    using assms(2)
    by (simp add: dispose_preloads_def loader_ok_def preloader_ok_def queue_ok_def busy_def loading_count_def preload_handles_def)
  show "preload_handles (bp_entries (dispose_preloads b)) = {#}" by (simp add: dispose_preloads_def preload_handles_def)
qed

lemma preload_settled_ok:
  assumes ok: "loader_ok b"
  shows "loader_ok (preload_settled shows kshows i ob b) \<and> bp_concurrency (preload_settled shows kshows i ob b) = bp_concurrency b"
proof -
  obtain b1 reached where r: "settle_preload shows kshows i ob b = (b1, reached)"
    by (cases "settle_preload shows kshows i ob b")
  have b: "preloader_ok b" "queue_ok (bp_entries b) (bp_queued b)" "busy b" using ok by (simp_all add: loader_ok_def)
  note settled = settle_preload_ok [OF b(1) r]
  have q: "queue_ok (bp_entries b1) (bp_queued b1)" using settled(2,3) b(2) by (simp add: same_setup_def)
  show ?thesis
  proof (cases reached)
    case True
    then have "\<not> bp_disposed b1" using r settled(2) by (auto simp: settle_preload_def same_setup_def Let_def split: option.splits if_splits)
    with pump_ok [OF settled(1) q] True r settled(2) show ?thesis
      by (simp add: preload_settled_def loader_ok_def same_setup_def)
  next
    case False
    then have "busy b1" using settled(2,4) b(3) by (simp add: busy_def same_setup_def)
    with False r settled(1,2) q show ?thesis by (simp add: preload_settled_def loader_ok_def same_setup_def)
  qed
qed

lemma preloader_step_ok:
  assumes "loader_ok b \<and> 1 \<le> bp_concurrency b"
  shows "loader_ok (preloader_step shows kshows b e) \<and> 1 \<le> bp_concurrency (preloader_step shows kshows b e)
    \<and> bp_concurrency (preloader_step shows kshows b e) = bp_concurrency b"
proof (cases e)
  case PreloadsDisposed
  have "bp_concurrency (fold release_preload es b) = bp_concurrency b" for es b
    by (induction es arbitrary: b) (simp_all add: release_preload_def split: option.split)
  then show ?thesis using PreloadsDisposed assms dispose_preloads_ok by (simp add: dispose_preloads_def)
qed (use assms update_preloads_ok preload_settled_ok in auto)

lemma preloader_run_ok:
  assumes "new_preloader retainer concurrency = Some b"
  shows "loader_ok (foldl (preloader_step shows kshows) b es)
    \<and> bp_concurrency (foldl (preloader_step shows kshows) b es) = concurrency"
proof -
  have "loader_ok b \<and> 1 \<le> bp_concurrency b \<and> bp_concurrency b = concurrency"
    using assms by (auto simp: new_preloader_def loader_ok_def preloader_ok_def queue_ok_def busy_def loading_count_def
        preload_handles_def split: if_splits)
  then have "loader_ok (foldl (preloader_step shows kshows) b es) \<and> 1 \<le> bp_concurrency (foldl (preloader_step shows kshows) b es)
    \<and> bp_concurrency (foldl (preloader_step shows kshows) b es) = concurrency"
    by (induction es arbitrary: b) (use preloader_step_ok in auto)
  then show ?thesis by blast
qed

section \<open>The next page after the current one\<close>

definition all_came :: "shown \<Rightarrow> thumbnail_request list \<Rightarrow> bool" where
  "all_came shows rs \<longleftrightarrow> (\<exists>n. \<forall>j < length rs. terminal (shows (n + j) (tr_key (rs ! j))))"

lemma every_terminal_came: "every_terminal shows n rs = (True, m) \<Longrightarrow> \<forall>j < length rs. terminal (shows (n + j) (tr_key (rs ! j)))"
proof (induction rs arbitrary: n)
  case (Cons r rs)
  then have "terminal (shows n (tr_key r))" and "every_terminal shows (Suc n) rs = (True, m)" by (auto split: if_splits)
  with Cons.IH [of "Suc n"] show ?case by (auto simp: nth_Cons' less_Suc_eq_0_disj)
qed simp

definition prefetch_ok :: "shown \<Rightarrow> nat multiset \<Rightarrow> page_prefetch \<Rightarrow> bool" where
  "prefetch_ok shows extra p \<longleftrightarrow>
     ledger (pf_log p) (mset (pf_currentHandles p) + mset (or_value (pf_nextHandles p) []) + extra) (pf_handles p)
     \<and> (pf_nextHandles p = None \<or> all_came shows (pf_current p))"

lemma begin_ok: "prefetch_ok shows extra p \<Longrightarrow> prefetch_ok shows extra (beginNextPage shows p)"
proof -
  assume ok: "prefetch_ok shows extra p"
  obtain all reads where e: "every_terminal shows (pf_reads p) (pf_current p) = (all, reads)" by (cases "every_terminal shows (pf_reads p) (pf_current p)")
  show ?thesis
  proof (cases "pf_disposed p \<or> pf_nextHandles p \<noteq> None \<or> \<not> all")
    case True
    then show ?thesis using ok e by (auto simp: beginNextPage_def prefetch_ok_def)
  next
    case False
    then have "every_terminal shows (pf_reads p) (pf_current p) = (True, reads)" using e by simp
    from every_terminal_came [OF this] have "all_came shows (pf_current p)" by (auto simp: all_came_def)
    with False e ok ledger_subscribe_all [of "pf_log p" "mset (pf_currentHandles p) + extra" "pf_handles p" "pf_next p"]
    show ?thesis by (simp add: beginNextPage_def prefetch_ok_def ac_simps)
  qed
qed

lemma begin_current: "pf_current (beginNextPage shows p) = pf_current p"
  by (simp add: beginNextPage_def Let_def split: prod.split)

lemma subscribe_current_ok:
  "prefetch_ok shows {#} p \<Longrightarrow> prefetch_ok shows {#} (subscribe_current shows sync rs p)"
proof (induction rs arbitrary: p)
  case (Cons r rs)
  let ?h = "pf_handles p"
  let ?p1 = "p\<lparr>pf_handles := Suc ?h, pf_log := pf_log p @ [Subscribed ?h r]\<rparr>"
  have "prefetch_ok shows {#?h#} ?p1"
    using Cons.prems ledger_subscribe [of "pf_log p" _ ?h r] by (simp add: prefetch_ok_def)
  then have "prefetch_ok shows {#?h#} (if sync ?h then beginNextPage shows ?p1 else ?p1)"
    using begin_ok by simp
  then have "prefetch_ok shows {#} ((if sync ?h then beginNextPage shows ?p1 else ?p1)
      \<lparr>pf_currentHandles := pf_currentHandles (if sync ?h then beginNextPage shows ?p1 else ?p1) @ [?h]\<rparr>)"
    by (simp add: prefetch_ok_def ac_simps split del: if_split)
  from Cons.IH [OF this] show ?case by (simp add: Let_def split del: if_split)
qed simp

lemma prefetch_start_ok:
  assumes "prefetchNextGalleryPageAfterCurrent shows sync view items next_items = Inr p"
  shows "prefetch_ok shows {#} p"
proof -
  have "prefetch_ok shows {#} \<lparr>pf_current = current, pf_next = next_page, pf_currentHandles = [], pf_nextHandles = None,
    pf_disposed = False, pf_handles = 0, pf_reads = 0, pf_log = []\<rparr>" for current next_page
    by (simp add: prefetch_ok_def)
  then have "prefetch_ok shows {#} (beginNextPage shows (subscribe_current shows sync current
    \<lparr>pf_current = current, pf_next = next_page, pf_currentHandles = [], pf_nextHandles = None,
     pf_disposed = False, pf_handles = 0, pf_reads = 0, pf_log = []\<rparr>))" for current next_page
    by (intro begin_ok subscribe_current_ok)
  then show ?thesis using assms by (auto simp: prefetchNextGalleryPageAfterCurrent_def split: sum.splits)
qed

section \<open>Properties\<close>

text \<open>The covers of visited pages stay within both budgets after every event, their number and the memory they are
  estimated to take, and their subscriptions are in balance: each one made was released at most once, and exactly
  those of the covers kept have not been.\<close>

theorem session_covers_bounded:
  assumes "\<forall>n k a. shows n k = Resolved a \<longrightarrow> 0 \<le> thumbnailMemoryCost a"
    and "new_retainer capacity byteBudget = Some r0" and "r = foldl (retainer_step shows) r0 es"
  shows "int (length (cr_entries r)) \<le> capacity \<and> cr_retainedBytes r \<le> of_int byteBudget
    \<and> cr_retainedBytes r = map_total rc_estimatedBytes (cr_entries r)
    \<and> distinct (released_handles (cr_log r))
    \<and> rc_handle ` set (vals (cr_entries r)) = {h. h < cr_handles r} - set (released_handles (cr_log r))"
proof -
  have "retainer_ok r \<and> within_budgets r"
    using retainer_run_ok [OF _ assms(2)] assms(1,3) by (simp add: sane_def)
  moreover have "cr_capacity r = capacity \<and> cr_byteBudget r = byteBudget"
    using retainer_run_budgets [of _ r0 es] assms(2,3) by (auto simp: budgets_def new_retainer_def split: if_splits)
  moreover have "set_mset (cover_handles es) = rc_handle ` set (vals es)" for es :: "(string \<times> retained_cover) list"
    by (induction es) auto
  ultimately show ?thesis
    using ledger_exact [of "cr_log r" "cover_handles (cr_entries r)" "cr_handles r"]
    by (simp add: retainer_ok_def within_budgets_def)
qed

theorem session_covers_bounded_witness:
  "let shows = (\<lambda>_ _. Resolved (MissingAsset None));
       r = foldl (retainer_step shows) (the (new_retainer 1 5000)) [PageVisited DownloadsPage [sample_gallery 1, sample_gallery 2]]
   in int (length (cr_entries r)) \<le> 1 \<and> cr_retainedBytes r \<le> of_int 5000 \<and> distinct (released_handles (cr_log r))"
  using session_covers_bounded [of "\<lambda>_ _. Resolved (MissingAsset None)" 1 5000 "the (new_retainer 1 5000)" _
    "[PageVisited DownloadsPage [sample_gallery 1, sample_gallery 2]]"]
  by (simp add: Let_def new_retainer_def max_safe_integer_def)

text \<open>The background loader never holds more subscriptions than its concurrency, gives every one back exactly once,
  and is never idle while covers wait: the queue is empty or all its places are taken.\<close>

theorem background_loader_busy:
  assumes "new_preloader retainer concurrency = Some b0" and "b = foldl (preloader_step shows kshows) b0 es"
  shows "bp_active b = loading_count (bp_entries b) \<and> bp_active b \<le> concurrency
    \<and> (bp_queued b = [] \<or> bp_active b = concurrency)
    \<and> distinct (released_handles (bp_log b))
    \<and> {h. \<exists>e \<in> set (vals (bp_entries b)). pl_handle e = Some h} = {h. h < bp_handles b} - set (released_handles (bp_log b))"
proof -
  have "loader_ok b \<and> bp_concurrency b = concurrency" using preloader_run_ok [OF assms(1)] assms(2) by simp
  moreover have "set_mset (preload_handles es) = {h. \<exists>e \<in> set (vals es). pl_handle e = Some h}" for es
    by (induction es) (auto simp: preload_handles_def split: option.split)
  ultimately show ?thesis
    using ledger_exact [of "bp_log b" "preload_handles (bp_entries b)" "bp_handles b"]
    by (auto simp: loader_ok_def preloader_ok_def busy_def)
qed

theorem background_loader_busy_witness:
  "let shows = (\<lambda>_ _. Loading); b = foldl (preloader_step shows shows) (the (new_preloader None 1))
         [PreloadsUpdated [sample_gallery 1, sample_gallery 2]]
   in bp_active b \<le> 1 \<and> (bp_queued b = [] \<or> bp_active b = 1)"
  using background_loader_busy [of None 1 "the (new_preloader None 1)" _ "\<lambda>_ _. Loading" "\<lambda>_ _. Loading"
    "[PreloadsUpdated [sample_gallery 1, sample_gallery 2]]"]
  by (auto simp: Let_def new_preloader_def)

text \<open>The next page is warmed only once every cover of the current page has come or failed, and when the caller
  goes away all subscriptions of both pages are given back, each once.\<close>

theorem next_page_waits:
  assumes "prefetchNextGalleryPageAfterCurrent shows sync view items next_items = Inr p0"
    and "p = foldl (prefetch_step shows) p0 (replicate k CoverNotified)"
  shows "(pf_nextHandles p = None
      \<or> (\<exists>n. \<forall>j < length (pf_current p). terminal (shows (n + j) (tr_key (pf_current p ! j)))))
    \<and> mset (released_handles (pf_log (prefetch_step shows p PrefetchDisposed))) = mset [0 ..< pf_handles p]"
proof -
  have "prefetch_ok shows {#} (foldl (prefetch_step shows) q (replicate k CoverNotified))" if "prefetch_ok shows {#} q" for q
    using that by (induction k arbitrary: q) (simp_all add: begin_ok)
  then have ok: "prefetch_ok shows {#} p" using prefetch_start_ok [OF assms(1)] assms(2) by simp
  then have "ledger (pf_log p @ map Released (pf_currentHandles p @ or_value (pf_nextHandles p) [])) {#} (pf_handles p)"
    by (intro ledger_release_all) (simp add: prefetch_ok_def)
  with ok show ?thesis by (simp add: prefetch_ok_def all_came_def ledger_def dispose_prefetch_def)
qed

definition sample_prefetch :: "range_error + page_prefetch" where
  "sample_prefetch = prefetchNextGalleryPageAfterCurrent (\<lambda>_ _. Resolved (MissingAsset None)) (\<lambda>_. False) DownloadsPage
     [sample_gallery 1] [sample_gallery 2]"

theorem next_page_waits_witness:
  "\<exists>p. sample_prefetch = Inr p \<and> pf_nextHandles p = Some [1]
     \<and> mset (released_handles (pf_log (dispose_prefetch p))) = mset [0 ..< pf_handles p]"
proof -
  have "case sample_prefetch of Inr p \<Rightarrow> pf_nextHandles p = Some [1] | Inl _ \<Rightarrow> False" by code_simp
  then obtain p where p: "sample_prefetch = Inr p" "pf_nextHandles p = Some [1]" by (auto split: sum.splits)
  with next_page_waits [of "\<lambda>_ _. Resolved (MissingAsset None)" "\<lambda>_. False" DownloadsPage "[sample_gallery 1]"
      "[sample_gallery 2]" p p 0]
  show ?thesis by (simp add: sample_prefetch_def)
qed

end
