(* ===== verification/SearchFixture.thy ===== *)
theory SearchFixture
  imports SearchTokens JsonText GalleryLayout Projection "HOL-Library.Word"
begin

unbundle bit_operations_syntax

text \<open>
  \<^verbatim>\<open>src/src/api/searchFixture.ts\<close>: the search the client runs without its native backend, over a fixed list of
  galleries (the parameter \<open>fixture\<close>, a data file of the repository). A request is normalised, its JSON text is
  hashed to the id of the query, and the matching galleries are sorted and cut into pages.

  The 64-bit arithmetic of the hash and of the random order is done on \<open>64 word\<close>: \<^verbatim>\<open>BigInt\<close> operations followed
  by \<^verbatim>\<open>& u64Mask\<close>. The facts: the id depends only on what is searched for; the result is exactly the matching
  galleries, in an order that does not depend on the order of the data file, because the mixing behind the random
  order is a permutation of the 64-bit numbers; the pages put together are the result.
\<close>

section \<open>The request\<close>

record fixture_gallery =
  fg_id :: int
  fg_title :: string
  fg_artist :: string
  fg_artists :: "string list option"
  fg_group :: "string option"
  fg_pages :: int
  fg_language :: language
  fg_tags :: "string list"
  fg_series :: "string list option"
  fg_characters :: "string list option"
  fg_publishedRank :: int
  fg_popularity :: int
  fg_related :: "int list"

record search_fixture_result =
  sf_request :: search_request
  sf_items :: "gallery_summary list"

fun languageRank :: "language \<Rightarrow> int" where
  "languageRank Korean = 0"
| "languageRank Japanese = 1"
| "languageRank Chinese = 2"
| "languageRank English = 3"

text \<open>The first byte that differs decides, then the length.\<close>

fun compareRustStrings :: "string \<Rightarrow> string \<Rightarrow> int" where
  "compareRustStrings (c # s) (d # t) =
     (let difference = of_char c - of_char d in if difference \<noteq> 0 then difference else compareRustStrings s t)"
| "compareRustStrings s t = int (length s) - int (length t)"

definition normalizedTags :: "string list \<Rightarrow> string list" where
  "normalizedTags vs = js_sort compareRustStrings (set_from (map (\<lambda>v. lower (trim v)) vs))"

definition by_language :: "language \<Rightarrow> language \<Rightarrow> int" where
  "by_language a b = languageRank a - languageRank b"

definition normalizeSearchRequest :: "search_request \<Rightarrow> search_request" where
  "normalizeSearchRequest request =
     \<lparr>sr_text = unescape (lower (trim (sr_text request))),
      sr_includeTags = normalizedTags (sr_includeTags request),
      sr_excludeTags = normalizedTags (sr_excludeTags request),
      sr_languages = js_sort by_language (set_from (sr_languages request)),
      sr_sort = sr_sort request,
      sr_pageSize = sr_pageSize request\<rparr>"

fun sort_name :: "search_sort \<Rightarrow> string" where
  "sort_name Recent = ''recent''"
| "sort_name PopularToday = ''popular_today''"
| "sort_name PopularWeek = ''popular_week''"
| "sort_name PopularMonth = ''popular_month''"
| "sort_name PopularYear = ''popular_year''"
| "sort_name RandomOrder = ''random''"

text \<open>\<^verbatim>\<open>JSON.stringify(request)\<close>, with the fields in the order \<^verbatim>\<open>normalizeSearchRequest\<close> lists them.\<close>

definition json_request :: "search_request \<Rightarrow> string" where
  "json_request r =
     ''{'' @ json_string ''text'' @ '':'' @ json_string (sr_text r)
     @ '','' @ json_string ''includeTags'' @ '':'' @ json_list json_string (sr_includeTags r)
     @ '','' @ json_string ''excludeTags'' @ '':'' @ json_list json_string (sr_excludeTags r)
     @ '','' @ json_string ''languages'' @ '':'' @ json_list json_string (map language_name (sr_languages r))
     @ '','' @ json_string ''sort'' @ '':'' @ json_string (sort_name (sr_sort r))
     @ '','' @ json_string ''pageSize'' @ '':'' @ show_int (sr_pageSize r) @ ''}''"

definition searchRequestKey :: "search_request \<Rightarrow> string" where
  "searchRequestKey request = json_request (normalizeSearchRequest request)"

section \<open>The id of a query\<close>

definition fnv1a :: "string \<Rightarrow> 64 word \<Rightarrow> 64 word" where
  "fnv1a bytes offset = foldl (\<lambda>hash byte. (hash XOR of_nat (of_char byte)) * 0x100000001b3) offset bytes"

text \<open>\<^verbatim>\<open>toString(16)\<close>.\<close>

fun hex_digits :: "nat \<Rightarrow> string" where
  "hex_digits n = (if n < 16 then [hex_char n] else hex_digits (n div 16) @ [hex_char n])"

declare hex_digits.simps [simp del]

definition hex16 :: "64 word \<Rightarrow> string" where
  "hex16 w = pad_start 16 (hex_digits (unat w))"

definition searchFixtureQueryId :: "search_request \<Rightarrow> string" where
  "searchFixtureQueryId request =
     (let canonical = searchRequestKey request
      in ''fixture-'' @ hex16 (fnv1a canonical 0xcbf29ce484222325) @ hex16 (fnv1a canonical 0x84222325cbf29ce4))"

section \<open>The galleries\<close>

definition normalizedFixtureTags :: "fixture_gallery \<Rightarrow> string list" where
  "normalizedFixtureTags g = normalizedTags (fg_tags g)"

text \<open>\<^verbatim>\<open>replace(/\s+/g, "_")\<close>.\<close>

fun underscore_spaces :: "bool \<Rightarrow> string \<Rightarrow> string" where
  "underscore_spaces inside [] = []"
| "underscore_spaces inside (c # s) =
     (if is_space c then (if inside then underscore_spaces True s else CHR ''_'' # underscore_spaces True s)
      else c # underscore_spaces False s)"

definition searchableText :: "fixture_gallery \<Rightarrow> string" where
  "searchableText g =
     (let artist = lower (fg_artist g)
      in join '' ''
        ([lower (fg_title g), artist, ''artist:'' @ normalizeTokenValue artist]
         @ (case fg_group g of
              Some n \<Rightarrow> if n = [] then [] else [lower n, ''group:'' @ normalizeTokenValue (lower n)]
            | None \<Rightarrow> [])
         @ concat (map (\<lambda>series. [series, ''series:'' @ underscore_spaces False series])
             (normalizedTags (or_value (fg_series g) [])))
         @ concat (map (\<lambda>character. [character, ''character:'' @ underscore_spaces False character])
             (normalizedTags (or_value (fg_characters g) [])))
         @ normalizedFixtureTags g))"

definition texts_value :: "string list \<Rightarrow> js_value" where
  "texts_value ss = JArr (map JStr ss)"

definition int_value :: "int \<Rightarrow> js_value" where
  "int_value i = JNum (Num (of_int i))"

definition toSummary :: "fixture_gallery \<Rightarrow> gallery_summary" where
  "toSummary g =
     \<lparr>gs_id = fg_id g, gs_title = trim (fg_title g), gs_artist = trim (fg_artist g),
      gs_artists = texts_value (or_value (fg_artists g) [trim (fg_artist g)]),
      gs_group = (case fg_group g of Some n \<Rightarrow> if trim n = [] then None else Some (trim n) | None \<Rightarrow> None),
      gs_pages = fg_pages g, gs_language = JStr (language_name (fg_language g)),
      gs_tags = texts_value (normalizedFixtureTags g),
      gs_series = texts_value (normalizedTags (or_value (fg_series g) [])),
      gs_characters = texts_value (normalizedTags (or_value (fg_characters g) [])),
      gs_publishedRank = int_value (fg_publishedRank g), gs_popularity = int_value (fg_popularity g),
      gs_thumbnailKey = JStr (''fixture-gallery-'' @ show_int (fg_id g) @ ''-cover''),
      gs_thumbnailWidth = int_value 512, gs_thumbnailHeight = int_value 512\<rparr>"

definition stableRandomRank :: "int \<Rightarrow> 64 word" where
  "stableRandomRank i =
     (let v0 = word_of_int i XOR 0x9e3779b97f4a7c15;
          v1 = (v0 XOR drop_bit 30 v0) * 0xbf58476d1ce4e5b9;
          v2 = (v1 XOR drop_bit 27 v1) * 0x94d049bb133111eb
      in v2 XOR drop_bit 31 v2)"

section \<open>The search\<close>

definition fixture_matches :: "search_request \<Rightarrow> fixture_gallery \<Rightarrow> bool" where
  "fixture_matches request g \<longleftrightarrow>
     (sr_languages request = [] \<or> fg_language g \<in> set (sr_languages request))
     \<and> set (sr_includeTags request) \<subseteq> set (normalizedFixtureTags g)
     \<and> set (sr_excludeTags request) \<inter> set (normalizedFixtureTags g) = {}
     \<and> (sr_text request = [] \<or> str_includes (sr_text request) (searchableText g))"

definition by_rank :: "fixture_gallery \<Rightarrow> fixture_gallery \<Rightarrow> int" where
  "by_rank x y =
     (if stableRandomRank (fg_id x) < stableRandomRank (fg_id y) then -1
      else if stableRandomRank (fg_id y) < stableRandomRank (fg_id x) then 1 else 0)"

text \<open>\<^verbatim>\<open>right.publishedRank - left.publishedRank || right.id - left.id\<close>, and so on.\<close>

fun fixture_order :: "search_sort \<Rightarrow> fixture_gallery \<Rightarrow> fixture_gallery \<Rightarrow> int" where
  "fixture_order Recent = js_or (\<lambda>x y. fg_publishedRank y - fg_publishedRank x) (\<lambda>x y. fg_id y - fg_id x)"
| "fixture_order RandomOrder = by_rank"
| "fixture_order _ = js_or (\<lambda>x y. fg_popularity y - fg_popularity x) (\<lambda>x y. fg_id y - fg_id x)"

definition runSearchFixture :: "fixture_gallery list \<Rightarrow> search_request \<Rightarrow> search_fixture_result" where
  "runSearchFixture fixture input =
     (let request = normalizeSearchRequest input;
          galleries = js_sort (fixture_order (sr_sort request)) (filter (fixture_matches request) fixture)
      in \<lparr>sf_request = request, sf_items = map toSummary galleries\<rparr>)"

text \<open>\<^verbatim>\<open>Math.ceil(n / pageSize)\<close>; a page size is positive where this is used.\<close>

definition searchFixturePage :: "search_fixture_result \<Rightarrow> int \<Rightarrow> gallery_page" where
  "searchFixturePage result page =
     (let items = sf_items result;
          size = sr_pageSize (sf_request result);
          totalPages = (if items = [] then 0 else ceil_div (int (length items)) size);
          offset = max 0 (page - 1) * size
      in \<lparr>pg_page = page, pg_totalPages = totalPages, pg_items = Prelude.slice (nat offset) (nat (offset + size)) items\<rparr>)"

definition galleryDetailFixture :: "fixture_gallery list \<Rightarrow> int \<Rightarrow> gallery_detail option" where
  "galleryDetailFixture fixture i =
     map_option (\<lambda>g.
       \<lparr>gd_summary = toSummary g,
        gd_related = map toSummary (List.map_filter (\<lambda>j. find (\<lambda>item. fg_id item = j) fixture) (fg_related g)),
        gd_pageDimensions = map (\<lambda>n. \<lparr>px_sourcePage = int_value n, px_width = int_value 512, px_height = int_value 512\<rparr>) [1..fg_pages g]\<rparr>)
       (find (\<lambda>item. fg_id item = i) fixture)"

text \<open>The first tag that is refused, in the order of the list.\<close>

fun tags_error :: "string \<Rightarrow> string list \<Rightarrow> (string \<times> string) option" where
  "tags_error field [] = None"
| "tags_error field (tag # tags) =
     (if lower (trim tag) = [] then Some (field, ''must not contain empty tags'')
      else if length (lower (trim tag)) > 200 then Some (field, ''each tag must be at most 200 bytes'')
      else tags_error field tags)"

definition tag_list_error :: "string \<Rightarrow> string list \<Rightarrow> (string \<times> string) option" where
  "tag_list_error field tags =
     (if length tags > 100 then Some (field, ''must contain at most 100 tags'') else tags_error field tags)"

definition searchRequestValidationError :: "search_request \<Rightarrow> (string \<times> string) option" where
  "searchRequestValidationError request =
     (if length (lower (trim (sr_text request))) > 500 then Some (''text'', ''must be at most 500 bytes'')
      else if sr_pageSize request < 1 \<or> sr_pageSize request > 200 then Some (''pageSize'', ''must be between 1 and 200'')
      else or_else (tag_list_error ''includeTags'' (sr_includeTags request))
             (tag_list_error ''excludeTags'' (sr_excludeTags request)))"

section \<open>Mixing 64-bit numbers\<close>

lemma xorshift_inj:
  fixes v w :: "64 word"
  assumes "0 < s" and e: "v XOR drop_bit s v = w XOR drop_bit s w"
  shows "v = w"
proof -
  have "bit v n = bit w n" for n
  proof (induction "64 - n" arbitrary: n rule: less_induct)
    case less
    have step: "(bit v n \<noteq> bit v (s + n)) = (bit w n \<noteq> bit w (s + n))"
      using arg_cong [OF e, of "\<lambda>u. bit u n"] by (simp add: bit_xor_iff bit_drop_bit_eq)
    show ?case
    proof (cases "n < 64")
      case True
      then have "64 - (s + n) < 64 - n" using assms(1) by linarith
      from less [OF this] step show ?thesis by blast
    next
      case False
      then show ?thesis by (auto dest: bit_imp_le_length)
    qed
  qed
  then show ?thesis by (simp add: bit_eq_iff)
qed

lemma odd_factor_inj:
  fixes v w c d :: "64 word"
  assumes "c * d = 1" and "v * c = w * c"
  shows "v = w"
proof -
  have "v * (c * d) = w * (c * d)" using assms(2) by (simp only: mult.assoc [symmetric])
  then show ?thesis by (simp add: assms(1))
qed

lemma mix_inj:
  fixes v w c d :: "64 word"
  assumes "c * d = 1" and "0 < s" and "(v XOR drop_bit s v) * c = (w XOR drop_bit s w) * c"
  shows "v = w"
  by (rule xorshift_inj [OF assms(2) odd_factor_inj [OF assms(1,3)]])

lemma mix_factors:
  "(0xbf58476d1ce4e5b9 :: 64 word) * 0x96de1b173f119089 = 1"
  "(0x94d049bb133111eb :: 64 word) * 0x319642b2d24d8ec3 = 1"
  by simp_all

lemma stableRandomRank_word: "stableRandomRank i = stableRandomRank j \<Longrightarrow> (word_of_int i :: 64 word) = word_of_int j"
proof -
  assume e: "stableRandomRank i = stableRandomRank j"
  define a :: "int \<Rightarrow> 64 word" where "a k = word_of_int k XOR 0x9e3779b97f4a7c15" for k
  define b where "b k = (a k XOR drop_bit 30 (a k)) * 0xbf58476d1ce4e5b9" for k
  define c where "c k = (b k XOR drop_bit 27 (b k)) * 0x94d049bb133111eb" for k
  have "c i XOR drop_bit 31 (c i) = c j XOR drop_bit 31 (c j)"
    using e by (simp add: stableRandomRank_def Let_def a_def b_def c_def)
  then have "c i = c j" by (rule xorshift_inj [rotated]) simp
  then have "b i = b j" unfolding c_def by (rule mix_inj [OF mix_factors(2), rotated]) simp
  then have "a i = a j" unfolding b_def by (rule mix_inj [OF mix_factors(1), rotated]) simp
  then have "a i XOR 0x9e3779b97f4a7c15 = a j XOR 0x9e3779b97f4a7c15" by simp
  then show ?thesis unfolding a_def xor.assoc xor_self_eq by simp
qed

section \<open>Normalised requests\<close>

context js_comparator
begin

lemma sorted_unique:
  assumes "\<And>x y. x \<in> set xs \<Longrightarrow> y \<in> set xs \<Longrightarrow> cmp x y \<le> 0 \<Longrightarrow> cmp y x \<le> 0 \<Longrightarrow> x = y"
  shows "mset xs = mset ys \<Longrightarrow> sorted_wrt (\<lambda>x y. cmp x y \<le> 0) xs \<Longrightarrow> sorted_wrt (\<lambda>x y. cmp x y \<le> 0) ys \<Longrightarrow> xs = ys"
  using assms
proof (induction xs arbitrary: ys)
  case (Cons x xs)
  then obtain y zs where ys: "ys = y # zs" by (cases ys) auto
  have sets: "insert x (set xs) = insert y (set zs)"
    using mset_eq_setD [OF Cons.prems(1)] ys by simp
  have "x = y"
  proof (rule ccontr)
    assume "x \<noteq> y"
    with sets have "y \<in> set xs" "x \<in> set zs" by auto
    with Cons.prems(2-4) ys \<open>x \<noteq> y\<close> show False by auto
  qed
  with Cons ys show ?case by auto
qed simp

lemma js_sort_unique:
  assumes "mset xs = mset ys"
    and "\<And>x y. x \<in> set xs \<Longrightarrow> y \<in> set xs \<Longrightarrow> cmp x y \<le> 0 \<Longrightarrow> cmp y x \<le> 0 \<Longrightarrow> x = y"
  shows "js_sort cmp xs = js_sort cmp ys"
  by (rule sorted_unique) (simp_all add: assms sorted_js_sort)

end

lemma compareRustStrings_sym: "compareRustStrings t s = - compareRustStrings s t"
  by (induction s t rule: compareRustStrings.induct) (auto simp: Let_def)

lemma compareRustStrings_eq_0: "compareRustStrings s t = 0 \<longleftrightarrow> s = t"
  by (induction s t rule: compareRustStrings.induct) (auto simp: Let_def)

lemma compareRustStrings_trans:
  "compareRustStrings s t \<le> 0 \<Longrightarrow> compareRustStrings t u \<le> 0 \<Longrightarrow> compareRustStrings s u \<le> 0"
proof (induction s arbitrary: t u)
  case Nil
  then show ?case by (cases t; cases u) auto
next
  case (Cons c s)
  then show ?case by (cases t; cases u) (auto simp: Let_def split: if_splits)
qed

interpretation rust: collation compareRustStrings
  by unfold_locales (rule compareRustStrings_sym, rule compareRustStrings_trans)

lemma js_comparator_rust: "js_comparator compareRustStrings"
  using rust.js_comparator_text [of id] by simp

lemma compareRustStrings_antisym: "compareRustStrings s t \<le> 0 \<Longrightarrow> compareRustStrings t s \<le> 0 \<Longrightarrow> s = t"
  using compareRustStrings_sym [of t s] compareRustStrings_eq_0 [of s t] by simp

lemma set_normalizedTags: "set (normalizedTags vs) = (\<lambda>v. lower (trim v)) ` set vs"
  by (simp add: normalizedTags_def)

lemma distinct_normalizedTags: "distinct (normalizedTags vs)"
  by (simp add: normalizedTags_def)

lemma normalizedTags_eq_iff: "normalizedTags vs = normalizedTags ws \<longleftrightarrow> set (normalizedTags vs) = set (normalizedTags ws)"
proof
  assume "set (normalizedTags vs) = set (normalizedTags ws)"
  then have "set (set_from (map (\<lambda>v. lower (trim v)) vs)) = set (set_from (map (\<lambda>v. lower (trim v)) ws))"
    by (simp add: set_normalizedTags)
  then have "mset (set_from (map (\<lambda>v. lower (trim v)) vs)) = mset (set_from (map (\<lambda>v. lower (trim v)) ws))"
    using set_eq_iff_mset_eq_distinct distinct_set_from by blast
  then show "normalizedTags vs = normalizedTags ws"
    unfolding normalizedTags_def
    by (rule js_comparator.js_sort_unique [OF js_comparator_rust]) (rule compareRustStrings_antisym)
qed simp

lemma lower_trim_idem: "lower (trim (lower (trim v))) = lower (trim v)"
  by (metis lower_idem trim_idem trim_lower)

lemma normalizedTags_idem: "normalizedTags (normalizedTags vs) = normalizedTags vs"
  by (simp add: normalizedTags_eq_iff set_normalizedTags image_image lower_trim_idem)

lemma by_language_comparator: "js_comparator by_language"
  using signed_comparator_up [of languageRank] by (simp add: by_language_def [abs_def] signed_comparator.axioms)

lemma languageRank_inj: "languageRank a = languageRank b \<longleftrightarrow> a = b"
  by (cases a; cases b) simp_all

lemma sorted_languages_eq_iff:
  "js_sort by_language (set_from xs) = js_sort by_language (set_from ys) \<longleftrightarrow> set xs = set ys"
proof
  assume "js_sort by_language (set_from xs) = js_sort by_language (set_from ys)"
  then show "set xs = set ys" by (metis set_js_sort set_set_from)
next
  assume "set xs = set ys"
  then have "mset (set_from xs) = mset (set_from ys)"
    using set_eq_iff_mset_eq_distinct distinct_set_from set_set_from by metis
  then show "js_sort by_language (set_from xs) = js_sort by_language (set_from ys)"
    by (rule js_comparator.js_sort_unique [OF by_language_comparator]) (simp add: by_language_def flip: languageRank_inj)
qed

lemma language_name_inj: "language_name a = language_name b \<longleftrightarrow> a = b"
  by (cases a; cases b) simp_all

lemma sort_name_inj: "sort_name a = sort_name b \<longleftrightarrow> a = b"
  by (cases a; cases b) simp_all

lemma map_language_name_inj: "map language_name xs = map language_name ys \<longleftrightarrow> xs = ys"
  by (rule inj_map_eq_map) (simp add: inj_def language_name_inj)

lemma json_request_inj: "json_request r = json_request r' \<longleftrightarrow> r = r'"
  by (cases r; cases r')
    (auto simp: json_request_def json_string_inj map_language_name_inj sort_name_inj show_int_inj)

section \<open>The order of the results\<close>

lemma by_rank_comparator: "js_comparator by_rank"
  by unfold_locales (auto simp: by_rank_def split: if_splits)

lemma fixture_order_comparator: "js_comparator (fixture_order s)"
proof -
  have ids: "js_comparator (\<lambda>x y. fg_id y - fg_id x)"
    using signed_comparator_down by (rule signed_comparator.axioms)
  show ?thesis
    by (cases s) (simp_all add: by_rank_comparator signed_comparator.js_comparator_or [OF signed_comparator_down ids])
qed

definition u64_ids :: "fixture_gallery list \<Rightarrow> bool" where
  "u64_ids gs \<longleftrightarrow> distinct (map fg_id gs) \<and> (\<forall>g \<in> set gs. 0 \<le> fg_id g \<and> fg_id g < 2 ^ 64)"

lemma stableRandomRank_inj:
  assumes "0 \<le> i" "i < 2 ^ 64" "0 \<le> j" "j < 2 ^ 64" "stableRandomRank i = stableRandomRank j"
  shows "i = j"
proof -
  from stableRandomRank_word [OF assms(5)] have "uint (word_of_int i :: 64 word) = uint (word_of_int j :: 64 word)" by simp
  then have "i mod 2 ^ 64 = j mod 2 ^ 64" by (simp add: uint_word_of_int)
  with assms show ?thesis by simp
qed

lemma fixture_order_antisym:
  assumes "u64_ids gs" and "x \<in> set gs" "y \<in> set gs" and "fixture_order s x y \<le> 0" "fixture_order s y x \<le> 0"
  shows "x = y"
proof -
  have "fg_id x = fg_id y"
  proof (cases "s = RandomOrder")
    case True
    with assms(4,5) have "stableRandomRank (fg_id x) = stableRandomRank (fg_id y)"
      by (auto simp: by_rank_def split: if_splits)
    with assms(1-3) show ?thesis by (intro stableRandomRank_inj) (simp_all add: u64_ids_def)
  next
    case False
    with assms(4,5) show ?thesis by (cases s) (auto simp: js_or_def split: if_splits)
  qed
  with assms(1-3) show ?thesis by (auto simp: u64_ids_def distinct_map dest: inj_onD)
qed

lemma u64_ids_filter: "u64_ids gs \<Longrightarrow> u64_ids (filter P gs)"
  by (auto simp: u64_ids_def distinct_map intro: inj_on_subset)

lemma run_order:
  assumes "u64_ids fixture" and "mset fixture = mset fixture'"
  shows "runSearchFixture fixture input = runSearchFixture fixture' input"
proof -
  have "js_sort (fixture_order (sr_sort r)) (filter (fixture_matches r) fixture)
      = js_sort (fixture_order (sr_sort r)) (filter (fixture_matches r) fixture')" for r
    by (rule js_comparator.js_sort_unique [OF fixture_order_comparator])
      (auto simp: assms(2) mset_filter intro: fixture_order_antisym [OF u64_ids_filter [OF assms(1)]])
  then show ?thesis by (simp add: runSearchFixture_def Let_def)
qed

lemma run_items: "mset (sf_items (runSearchFixture fixture input))
    = image_mset toSummary (mset (filter (fixture_matches (normalizeSearchRequest input)) fixture))"
  by (simp add: runSearchFixture_def Let_def)

section \<open>Pages\<close>

lemma ceil_div_nonneg: "0 < n \<Longrightarrow> 0 \<le> a \<Longrightarrow> 0 \<le> ceil_div a n"
  using ceil_div_pos [of n a] by (cases "a = 0") (auto simp: ceil_div_def)

lemma pages_join:
  assumes "1 \<le> n"
  shows "concat (map (\<lambda>p. Prelude.slice (nat ((p - 1) * n)) (nat ((p - 1) * n + n)) xs) [1..ceil_div (int (length xs)) n]) = xs"
proof -
  define t where "t = nat (ceil_div (int (length xs)) n)"
  have t: "int t = ceil_div (int (length xs)) n"
    using assms ceil_div_nonneg [of n "int (length xs)"] by (simp add: t_def)
  have ints: "[1..int m] = map (\<lambda>k. int k + 1) [0..<m]" for m
    by (induction m) (simp_all add: upto_rec2)
  have "concat (map (\<lambda>p. Prelude.slice (nat ((p - 1) * n)) (nat ((p - 1) * n + n)) xs) [1..int t])
      = concat (map (\<lambda>k. Prelude.slice (k * nat n) (k * nat n + nat n) xs) [0..<t])"
    using assms by (simp add: ints nat_add_distrib nat_mult_distrib comp_def)
  also have "\<dots> = take (t * nat n) xs" by (rule concat_slices)
  also have "\<dots> = xs"
  proof -
    have "int (length xs) \<le> int t * n"
      using ceil_div_bounds(1) [of n "int (length xs)"] assms t by simp
    also have "\<dots> = int (t * nat n)" using assms by simp
    finally show ?thesis by (simp only: take_all of_nat_le_iff)
  qed
  finally show ?thesis by (simp only: t)
qed

lemma search_pages_join:
  assumes "1 \<le> sr_pageSize (sf_request r)"
  shows "concat (map (\<lambda>p. pg_items (searchFixturePage r p)) [1..pg_totalPages (searchFixturePage r q)]) = sf_items r"
proof (cases "sf_items r = []")
  case False
  have "concat (map (\<lambda>p. pg_items (searchFixturePage r p)) [1..ceil_div (int (length (sf_items r))) (sr_pageSize (sf_request r))])
      = concat (map (\<lambda>p. Prelude.slice (nat ((p - 1) * sr_pageSize (sf_request r)))
          (nat ((p - 1) * sr_pageSize (sf_request r) + sr_pageSize (sf_request r))) (sf_items r))
          [1..ceil_div (int (length (sf_items r))) (sr_pageSize (sf_request r))])"
    by (intro arg_cong [of _ _ concat] map_cong refl) (simp add: searchFixturePage_def Let_def max_def)
  with False pages_join [OF assms, of "sf_items r"] show ?thesis by (simp add: searchFixturePage_def Let_def)
qed (simp add: searchFixturePage_def Let_def Prelude.slice_def)

lemma search_page_outside: "pg_totalPages (searchFixturePage r p) < p \<Longrightarrow> 1 \<le> sr_pageSize (sf_request r) \<Longrightarrow>
    1 \<le> p \<Longrightarrow> pg_items (searchFixturePage r p) = []"
proof -
  assume a: "pg_totalPages (searchFixturePage r p) < p" "1 \<le> sr_pageSize (sf_request r)" "1 \<le> p"
  define n where "n = sr_pageSize (sf_request r)"
  have "int (length (sf_items r)) \<le> (p - 1) * n"
  proof (cases "sf_items r = []")
    case False
    then have "ceil_div (int (length (sf_items r))) n \<le> p - 1" using a(1) by (simp add: searchFixturePage_def Let_def n_def)
    then have "ceil_div (int (length (sf_items r))) n * n \<le> (p - 1) * n" using a(2) by (intro mult_right_mono) (simp_all add: n_def)
    moreover have "1 \<le> n" using a(2) by (simp add: n_def)
    ultimately show ?thesis using ceil_div_bounds(1) [of n "int (length (sf_items r))"] by linarith
  qed (use a in \<open>simp add: n_def\<close>)
  then show ?thesis using a by (simp add: searchFixturePage_def Let_def n_def Prelude.slice_def)
qed

section \<open>The id of a query\<close>

lemma hex_digits_length: "n < 16 ^ Suc k \<Longrightarrow> length (hex_digits n) \<le> Suc k"
proof (induction k arbitrary: n)
  case 0
  then show ?case by (subst hex_digits.simps) simp
next
  case (Suc k)
  from Suc.prems have "n div 16 < 16 ^ Suc k" by (simp add: div_less_iff_less_mult mult.commute)
  with Suc.IH show ?case by (subst hex_digits.simps) simp
qed

lemma length_hex16 [simp]: "length (hex16 w) = 16"
proof -
  have "unat w < 16 ^ Suc 15" using unsigned_less [of w] by simp
  from hex_digits_length [OF this] show ?thesis by (simp add: hex16_def pad_start_def)
qed

section \<open>Properties\<close>

definition sample_fixture :: "int \<Rightarrow> int \<Rightarrow> string list \<Rightarrow> fixture_gallery" where
  "sample_fixture i rank tags = \<lparr>fg_id = i, fg_title = ''T'', fg_artist = ''A'', fg_artists = None, fg_group = None,
     fg_pages = 2, fg_language = Korean, fg_tags = tags, fg_series = None, fg_characters = None,
     fg_publishedRank = rank, fg_popularity = 1, fg_related = []\<rparr>"

definition sample_search :: "string list \<Rightarrow> search_sort \<Rightarrow> search_request" where
  "sample_search tags order = \<lparr>sr_text = [], sr_includeTags = tags, sr_excludeTags = [], sr_languages = [],
     sr_sort = order, sr_pageSize = 2\<rparr>"

text \<open>The multiply-and-shift mixing behind the random order loses nothing on 64 bits: two ids get the same rank
  exactly if they agree modulo 2 to the 64. So no two galleries tie in the random order.\<close>

theorem random_rank_mixes: "stableRandomRank i = stableRandomRank j \<longleftrightarrow> i mod 2 ^ 64 = j mod 2 ^ 64"
proof -
  have "(word_of_int i :: 64 word) = word_of_int j \<longleftrightarrow> i mod 2 ^ 64 = j mod 2 ^ 64"
    by (simp add: word_of_int_eq_iff take_bit_eq_mod)
  moreover have "stableRandomRank i = stableRandomRank j" if "(word_of_int i :: 64 word) = word_of_int j"
    unfolding stableRandomRank_def that ..
  ultimately show ?thesis using stableRandomRank_word by blast
qed

text \<open>C39: A search returns exactly the galleries of the data file that match the normalised request, each once, and
  its result does not depend on the order of the data file, whatever order is asked for.\<close>

theorem search_result_exact:
  assumes "u64_ids fixture" and "mset fixture' = mset fixture"
  shows "runSearchFixture fixture' input = runSearchFixture fixture input
    \<and> mset (sf_items (runSearchFixture fixture input))
      = image_mset toSummary {#g \<in># mset fixture. fixture_matches (normalizeSearchRequest input) g#}"
  using run_order [OF assms(1) assms(2) [symmetric]] by (simp add: run_items mset_filter assms(2))

lemma search_result_exact_witness:
  "runSearchFixture [sample_fixture 2 5 [], sample_fixture 1 5 [''x'']] (sample_search [] RandomOrder)
   = runSearchFixture [sample_fixture 1 5 [''x''], sample_fixture 2 5 []] (sample_search [] RandomOrder)"
  using search_result_exact [of "[sample_fixture 1 5 [''x''], sample_fixture 2 5 []]"
      "[sample_fixture 2 5 [], sample_fixture 1 5 [''x'']]" "sample_search [] RandomOrder"]
  by (simp add: u64_ids_def sample_fixture_def add_mset_commute)

text \<open>Two requests share a key, and so the id of their query, exactly if they search for the same thing: the same
  text once trimmed, lowered and unescaped, the same sets of tags and of languages, the same order and page size.\<close>

theorem same_key_same_search:
  "searchRequestKey r = searchRequestKey r' \<longleftrightarrow>
     unescape (lower (trim (sr_text r))) = unescape (lower (trim (sr_text r')))
     \<and> set (normalizedTags (sr_includeTags r)) = set (normalizedTags (sr_includeTags r'))
     \<and> set (normalizedTags (sr_excludeTags r)) = set (normalizedTags (sr_excludeTags r'))
     \<and> set (sr_languages r) = set (sr_languages r') \<and> sr_sort r = sr_sort r' \<and> sr_pageSize r = sr_pageSize r'"
  by (simp add: searchRequestKey_def json_request_inj normalizeSearchRequest_def sorted_languages_eq_iff
      flip: normalizedTags_eq_iff)

end
