(* ===== verification/BrowserTypes.thy ===== *)
theory BrowserTypes
  imports SearchFixture DuplicateProjection AppExit CompletedPair MergeSelection
begin

text \<open>
  The state of \<^verbatim>\<open>BrowserMockBackend\<close> (\<^verbatim>\<open>src/src/api/backend.ts\<close>), the backend that stands in for the native
  program when the client runs in a browser: the download queue, its timers, the overlap and duplicate reviews.
  The fields are the private fields of the class; an insertion-ordered \<^verbatim>\<open>Map\<close> is an association list and a
  \<^verbatim>\<open>Set\<close> a list without duplicates. \<^verbatim>\<open>window.setTimeout\<close> puts a task into a list ordered by the time it is due
  (equal times in the order they were set), \<^verbatim>\<open>emit\<close> appends to the list of events. The clock reading that an
  operation stores as a text, \<^verbatim>\<open>new Date().toISOString()\<close>, is its argument \<open>now\<close>.
\<close>

section \<open>Records of the boundary\<close>

record auto_find_run =
  af_runId :: string
  af_revision :: int
  af_state :: string
  af_totalFavorites :: int
  af_completedFavorites :: int
  af_candidatesFound :: int
  af_startedAt :: string
  af_updatedAt :: string

record internal_scan_run =
  ir_runId :: string
  ir_revision :: int
  ir_state :: string
  ir_totalArtifacts :: int
  ir_scannedArtifacts :: int
  ir_groupsFound :: int
  ir_skippedArtifacts :: int
  ir_startedAt :: string
  ir_updatedAt :: string

record automation_history_item =
  ah_reviewId :: string
  ah_incomingGalleryId :: gallery_id
  ah_title :: string
  ah_occurredAt :: string
  ah_reviewState :: review_state
  ah_removeIncomingCount :: int
  ah_removeExistingCount :: int
  ah_removedGalleryIds :: "gallery_id list"
  ah_acknowledgedAt :: "string option"

record job_event =
  je_jobId :: string
  je_galleryId :: gallery_id
  je_revision :: int
  je_state :: download_state
  je_completedUnits :: int
  je_totalUnits :: int
  je_message :: string

datatype browser_event =
    DownloadChanged download_entry
  | JobChanged job_event
  | DuplicateChanged duplicate_run

section \<open>Tasks in waiting\<close>

datatype fixture_step = ResolveStep | InterruptStep

datatype browser_task =
    DownloadTask string int fixture_step
  | DuplicateTask nat bool

record browser_timer =
  bt_due :: nat
  bt_task :: browser_task

text \<open>A new task goes behind all that are due no later.\<close>

definition schedule :: "browser_timer \<Rightarrow> browser_timer list \<Rightarrow> browser_timer list" where
  "schedule t ts = takeWhile (\<lambda>u. bt_due u \<le> bt_due t) ts @ t # dropWhile (\<lambda>u. bt_due u \<le> bt_due t) ts"

section \<open>The state\<close>

record manual_exclusion =
  mx_reason :: string
  mx_createdAt :: string
  mx_title :: string
  mx_artist :: string

record browser_backend =
  bb_clock :: nat
  bb_timers :: "browser_timer list"
  bb_listening :: bool
  bb_events :: "browser_event list"
  bb_searchQueries :: "(string \<times> search_fixture_result) list"
  bb_downloadEntries :: "(string \<times> download_entry) list"
  bb_activeDownloadEntryByGallery :: "(gallery_id \<times> string) list"
  bb_downloadQueueRequests :: "(string \<times> string \<times> download_entry list) list"
  bb_nextDownloadEntryId :: nat
  bb_autoFindRun :: "auto_find_run option"
  bb_autoFindCandidates :: "gallery_summary list"
  bb_autoFindExclusions :: "(gallery_id \<times> manual_exclusion) list"
  bb_excludedAutoFindCandidates :: "(gallery_id \<times> gallery_summary) list"
  bb_explorationRestoredGalleryIds :: "gallery_id list"
  bb_duplicateSnapshot :: duplicate_snapshot
  bb_duplicateReviews :: "(string \<times> duplicate_review) list"
  bb_downloadOverlapReviews :: "(string \<times> overlap_review) list"
  bb_composedPageCounts :: "(gallery_id \<times> int) list"
  bb_automationHistory :: "(string \<times> automation_history_item) list"
  bb_duplicateResolvedCandidates :: "string list"
  bb_duplicateHiddenGalleryIds :: "gallery_id list"
  bb_duplicateGeneration :: nat
  bb_duplicateSelectedIds :: "gallery_id list option"
  bb_nextDuplicateRunId :: nat
  bb_nextDuplicateDecisionId :: nat
  bb_internalRun :: "internal_scan_run option"

definition duplicateProfile :: hash_profile where
  "duplicateProfile = \<lparr>hp_profileVersion = 1, hp_algorithmVersion = 1, hp_dHashBits = 1024, hp_pHashBits = 64,
     hp_visualMatchThreshold = 8 / 10, hp_lowInformationStdDevThreshold = 10\<rparr>"

definition new_backend :: browser_backend where
  "new_backend = \<lparr>bb_clock = 0, bb_timers = [], bb_listening = False, bb_events = [], bb_searchQueries = [],
     bb_downloadEntries = [], bb_activeDownloadEntryByGallery = [], bb_downloadQueueRequests = [],
     bb_nextDownloadEntryId = 1, bb_autoFindRun = None, bb_autoFindCandidates = [],
     bb_autoFindExclusions = [], bb_excludedAutoFindCandidates = [], bb_explorationRestoredGalleryIds = [],
     bb_duplicateSnapshot = \<lparr>dn_profile = duplicateProfile, dn_run = None, dn_candidates = []\<rparr>,
     bb_duplicateReviews = [], bb_downloadOverlapReviews = [], bb_composedPageCounts = [], bb_automationHistory = [],
     bb_duplicateResolvedCandidates = [], bb_duplicateHiddenGalleryIds = [], bb_duplicateGeneration = 0,
     bb_duplicateSelectedIds = None, bb_nextDuplicateRunId = 1, bb_nextDuplicateDecisionId = 1,
     bb_internalRun = None\<rparr>"

definition emit :: "browser_event \<Rightarrow> browser_backend \<Rightarrow> browser_backend" where
  "emit e s = s\<lparr>bb_events := bb_events s @ [e]\<rparr>"

definition setTimeout :: "nat \<Rightarrow> browser_task \<Rightarrow> browser_backend \<Rightarrow> browser_backend" where
  "setTimeout delay task s =
     s\<lparr>bb_timers := schedule \<lparr>bt_due = bb_clock s + delay, bt_task = task\<rparr> (bb_timers s)\<rparr>"

definition set_entry :: "download_entry \<Rightarrow> browser_backend \<Rightarrow> browser_backend" where
  "set_entry e s = s\<lparr>bb_downloadEntries := AList.update (de_entryId e) e (bb_downloadEntries s)\<rparr>"

section \<open>Errors\<close>

definition conflict_suffix :: string where
  "conflict_suffix = [CHR 0xEC, CHR 0x9D, CHR 0xB4] @ ''('' @ [CHR 0xEA, CHR 0xB0,
     CHR 0x80] @ '') '' @ [CHR 0xEB, CHR 0x8B, CHR 0xA4, CHR 0xEB, CHR 0xA5,
     CHR 0xB8] @ '' '' @ [CHR 0xEC, CHR 0xB0, CHR 0xBD, CHR 0xEC, CHR 0x97, CHR 0x90, CHR 0xEC,
     CHR 0x84, CHR 0x9C] @ '' '' @ [CHR 0xEB, CHR 0xB3, CHR 0x80, CHR 0xEA, CHR 0xB2, CHR 0xBD,
     CHR 0xEB, CHR 0x90, CHR 0x98, CHR 0xEC, CHR 0x97, CHR 0x88, CHR 0xEC, CHR 0x8A, CHR 0xB5,
     CHR 0xEB, CHR 0x8B, CHR 0x88, CHR 0xEB, CHR 0x8B, CHR 0xA4] @ ''.''"

definition resolve_message :: string where
  "resolve_message = [CHR 0xEC, CHR 0xA0, CHR 0x80, CHR 0xEC, CHR 0x9E,
     CHR 0xA5] @ '' fixture'' @ [CHR 0xEC, CHR 0x9D, CHR 0x98] @ '' '' @ [CHR 0xEB, CHR 0x8C,
     CHR 0x80, CHR 0xEA, CHR 0xB8, CHR 0xB0, CHR 0xEC, CHR 0x97, CHR 0xB4] @ '' '' @ [CHR 0xEC,
     CHR 0x9A, CHR 0x94, CHR 0xEC, CHR 0xB2, CHR 0xAD, CHR 0xEC, CHR 0x9D,
     CHR 0x84] @ '' '' @ [CHR 0xED, CHR 0x99, CHR 0x95, CHR 0xEC, CHR 0x9D, CHR 0xB8, CHR 0xED,
     CHR 0x95, CHR 0x98, CHR 0xEA, CHR 0xB3, CHR 0xA0] @ '' '' @ [CHR 0xEC, CHR 0x9E, CHR 0x88,
     CHR 0xEC, CHR 0x8A, CHR 0xB5, CHR 0xEB, CHR 0x8B, CHR 0x88, CHR 0xEB, CHR 0x8B,
     CHR 0xA4] @ ''.''"

definition interrupt_message :: string where
  "interrupt_message = [CHR 0xEC, CHR 0x8B, CHR 0xA4, CHR 0xEC, CHR 0xA0,
     CHR 0x9C] @ '' '' @ [CHR 0xEC, CHR 0x9B, CHR 0x90, CHR 0xEA, CHR 0xB2,
     CHR 0xA9] @ '' artifact '' @ [CHR 0xEB, CHR 0x8B, CHR 0xA4, CHR 0xEC, CHR 0x9A, CHR 0xB4,
     CHR 0xEB, CHR 0xA1, CHR 0x9C, CHR 0xEB, CHR 0x93, CHR 0x9C] @ '' '' @ [CHR 0xEA, CHR 0xB8,
     CHR 0xB0, CHR 0xEB, CHR 0xB0, CHR 0x98, CHR 0xEC, CHR 0x9D, CHR 0x80] @ '' '' @ [CHR 0xEC,
     CHR 0x95, CHR 0x84, CHR 0xEC, CHR 0xA7, CHR 0x81] @ '' '' @ [CHR 0xEA, CHR 0xB5, CHR 0xAC,
     CHR 0xED, CHR 0x98, CHR 0x84, CHR 0xEB, CHR 0x90, CHR 0x98, CHR 0xEC, CHR 0xA7,
     CHR 0x80] @ '' '' @ [CHR 0xEC, CHR 0x95, CHR 0x8A, CHR 0xEC, CHR 0x95, CHR 0x98, CHR 0xEC,
     CHR 0x8A, CHR 0xB5, CHR 0xEB, CHR 0x8B, CHR 0x88, CHR 0xEB, CHR 0x8B, CHR 0xA4] @ ''.''"

definition conflict :: "string \<Rightarrow> api_error" where
  "conflict kind = \<lparr>ae_code = ''REVISION_CONFLICT'', ae_message = kind @ conflict_suffix, ae_retryable = False,
     ae_action = Some ActReview, ae_details = None\<rparr>"

definition validationError :: "string \<Rightarrow> string \<Rightarrow> api_error" where
  "validationError field reason = \<lparr>ae_code = ''VALIDATION_ERROR'', ae_message = field @ '': '' @ reason,
     ae_retryable = False, ae_action = Some ActNone, ae_details = Some [(''field'', JStr field), (''reason'', JStr reason)]\<rparr>"

definition notFoundError :: "string \<Rightarrow> string \<Rightarrow> (string \<times> js_value) list option \<Rightarrow> api_error" where
  "notFoundError code message details = \<lparr>ae_code = code, ae_message = message, ae_retryable = False,
     ae_action = Some ActNone, ae_details = details\<rparr>"

section \<open>States of a download\<close>

definition activeDownloadStates :: "download_state set" where
  "activeDownloadStates = {Queued, ResolvingMetadata, Downloading, Hashing, Verifying, RetryWait}"

definition cancellableDownloadStates :: "download_state set" where
  "cancellableDownloadStates = activeDownloadStates \<union> {ReviewRequired, Interrupted, Failed, Cancelled}"

fun state_text :: "download_state \<Rightarrow> string" where
  "state_text Queued = ''queued''"
| "state_text ResolvingMetadata = ''resolving_metadata''"
| "state_text Downloading = ''downloading''"
| "state_text Hashing = ''hashing''"
| "state_text Verifying = ''verifying''"
| "state_text RetryWait = ''retry_wait''"
| "state_text ReviewRequired = ''review_required''"
| "state_text Interrupted = ''interrupted''"
| "state_text Failed = ''failed''"
| "state_text Completed = ''completed''"
| "state_text Quarantined = ''quarantined''"
| "state_text Cancelled = ''cancelled''"

abbreviation active_entry :: "download_entry \<Rightarrow> bool" where
  "active_entry e \<equiv> de_state e \<in> activeDownloadStates"

section \<open>Galleries left out\<close>

definition isDuplicateExplorationExcluded :: "browser_backend \<Rightarrow> gallery_id \<Rightarrow> bool" where
  "isDuplicateExplorationExcluded s g \<longleftrightarrow>
     g \<notin> set (bb_explorationRestoredGalleryIds s) \<and> g \<in> set (bb_duplicateHiddenGalleryIds s)"

definition hide_gallery :: "gallery_id \<Rightarrow> browser_backend \<Rightarrow> browser_backend" where
  "hide_gallery g s = s\<lparr>bb_explorationRestoredGalleryIds := set_delete g (bb_explorationRestoredGalleryIds s),
     bb_duplicateHiddenGalleryIds := set_add g (bb_duplicateHiddenGalleryIds s)\<rparr>"

definition normalizedGallerySet :: "gallery_id list \<Rightarrow> gallery_id list" where
  "normalizedGallerySet galleries = js_sort by_number (set_from galleries)"

definition gallerySetKey :: "gallery_id list \<Rightarrow> string" where
  "gallerySetKey galleries = join '','' (map show_int galleries)"

section \<open>Facts\<close>

lemma set_schedule [simp]: "set (schedule t ts) = insert t (set ts)"
proof -
  have "set ts = set (takeWhile P ts) \<union> set (dropWhile P ts)" for P
    by (metis set_append takeWhile_dropWhile_id)
  then show ?thesis by (auto simp: schedule_def)
qed

lemma sorted_schedule: "sorted (map bt_due ts) \<Longrightarrow> sorted (map bt_due (schedule t ts))"
proof -
  assume a: "sorted (map bt_due ts)"
  let ?P = "\<lambda>u. bt_due u \<le> bt_due t"
  have s: "sorted (map bt_due (takeWhile ?P ts)) \<and> sorted (map bt_due (dropWhile ?P ts))
      \<and> (\<forall>u \<in> set (takeWhile ?P ts). \<forall>v \<in> set (dropWhile ?P ts). bt_due u \<le> bt_due v)"
    using a takeWhile_dropWhile_id [of ?P ts] sorted_append [of "map bt_due (takeWhile ?P ts)" "map bt_due (dropWhile ?P ts)"]
    by (simp flip: map_append)
  have "bt_due t \<le> bt_due v" if "v \<in> set (dropWhile ?P ts)" for v
  proof (cases "dropWhile ?P ts")
    case (Cons u us)
    then have "\<not> ?P u" by (metis dropWhile_eq_Cons_conv)
    moreover have "bt_due u \<le> bt_due v" using s that Cons by auto
    ultimately show ?thesis by simp
  qed (use that in \<open>simp del: dropWhile_eq_Nil_conv\<close>)
  with s show ?thesis by (auto simp: schedule_def sorted_append dest: set_takeWhileD)
qed

lemma normalized_set_eq_iff: "normalizedGallerySet xs = normalizedGallerySet ys \<longleftrightarrow> set xs = set ys"
proof
  assume "set xs = set ys"
  then have "mset (set_from xs) = mset (set_from ys)"
    using set_eq_iff_mset_eq_distinct [OF distinct_set_from distinct_set_from, of xs ys] by simp
  then show "normalizedGallerySet xs = normalizedGallerySet ys"
    unfolding normalizedGallerySet_def by (rule by_number.js_sort_unique) (simp add: by_number_def)
next
  assume "normalizedGallerySet xs = normalizedGallerySet ys"
  then have "set (normalizedGallerySet xs) = set (normalizedGallerySet ys)" by simp
  then show "set xs = set ys" by (simp add: normalizedGallerySet_def)
qed

lemma gallery_key_eq_iff:
  "gallerySetKey (normalizedGallerySet xs) = gallerySetKey (normalizedGallerySet ys) \<longleftrightarrow> set xs = set ys"
  by (simp add: gallerySetKey_def join_ints_inj normalized_set_eq_iff)

end
