(* ===== verification/BrowserDuplicates.thy ===== *)
theory BrowserDuplicates
  imports BrowserTypes
begin

text \<open>
  The duplicate scan of \<^verbatim>\<open>BrowserMockBackend\<close> (\<^verbatim>\<open>src/src/api/backend.ts\<close>): a scan runs in two timed steps, the last
  of which reports one fixed pair of editions; the user hides one of the two, keeps both, or gathers them in a
  series. A decision names the revision of the candidate it was made on.
\<close>

section \<open>Texts and the fixed pair\<close>

definition two_ids_reason :: string where
  "two_ids_reason = [CHR 0xEC, CHR 0x84, CHR 0x9C, CHR 0xEB, CHR 0xA1,
     CHR 0x9C] @ '' '' @ [CHR 0xEB, CHR 0x8B, CHR 0xA4, CHR 0xEB, CHR 0xA5,
     CHR 0xB8] @ '' '' @ [CHR 0xEC, CHR 0x95, CHR 0xA8, CHR 0xEB, CHR 0xB2,
     CHR 0x94] @ '' ID '' @ [CHR 0xEB, CHR 0x91, CHR 0x90] @ '' '' @ [CHR 0xEA, CHR 0xB0,
     CHR 0x9C, CHR 0xEB, CHR 0xA5, CHR 0xBC] @ '' '' @ [CHR 0xEC, CHR 0x9E, CHR 0x85, CHR 0xEB,
     CHR 0xA0, CHR 0xA5, CHR 0xED, CHR 0x95, CHR 0x98, CHR 0xEC, CHR 0x84, CHR 0xB8, CHR 0xEC,
     CHR 0x9A, CHR 0x94]"

definition other_scan_reason :: string where
  "other_scan_reason = [CHR 0xEB, CHR 0x8B, CHR 0xA4, CHR 0xEB, CHR 0xA5,
     CHR 0xB8] @ '' '' @ [CHR 0xEC, CHR 0xA4, CHR 0x91, CHR 0xEB, CHR 0xB3,
     CHR 0xB5] @ '' '' @ [CHR 0xEA, CHR 0xB2, CHR 0x80, CHR 0xEC, CHR 0x82, CHR 0xAC, CHR 0xEA,
     CHR 0xB0, CHR 0x80] @ '' '' @ [CHR 0xEC, CHR 0x8B, CHR 0xA4, CHR 0xED, CHR 0x96,
     CHR 0x89] @ '' '' @ [CHR 0xEC, CHR 0xA4, CHR 0x91, CHR 0xEC, CHR 0x9E, CHR 0x85, CHR 0xEB,
     CHR 0x8B, CHR 0x88, CHR 0xEB, CHR 0x8B, CHR 0xA4]"

definition both_completed_reason :: string where
  "both_completed_reason = [CHR 0xEB, CHR 0x91, CHR 0x90] @ '' '' @ [CHR 0xEC, CHR 0x95,
     CHR 0xA8, CHR 0xEB, CHR 0xB2, CHR 0x94] @ '' '' @ [CHR 0xEB, CHR 0xAA, CHR 0xA8, CHR 0xEB,
     CHR 0x91, CHR 0x90] @ '' '' @ [CHR 0xEC, CHR 0xA0, CHR 0x9C, CHR 0xEC, CHR 0x99, CHR 0xB8,
     CHR 0xEB, CHR 0x90, CHR 0x98, CHR 0xEC, CHR 0xA7, CHR 0x80] @ '' '' @ [CHR 0xEC, CHR 0x95,
     CHR 0x8A, CHR 0xEC, CHR 0x9D, CHR 0x80] @ '' '' @ [CHR 0xEB, CHR 0x8B, CHR 0xA4, CHR 0xEC,
     CHR 0x9A, CHR 0xB4, CHR 0xEB, CHR 0xA1, CHR 0x9C, CHR 0xEB, CHR 0x93,
     CHR 0x9C] @ '' '' @ [CHR 0xEC, CHR 0x99, CHR 0x84, CHR 0xEB, CHR 0xA3,
     CHR 0x8C] @ '' '' @ [CHR 0xEC, CHR 0x83, CHR 0x81, CHR 0xED, CHR 0x83, CHR 0x9C, CHR 0xEC,
     CHR 0x97, CHR 0xAC, CHR 0xEC, CHR 0x95, CHR 0xBC] @ '' '' @ [CHR 0xED, CHR 0x95, CHR 0xA9,
     CHR 0xEB, CHR 0x8B, CHR 0x88, CHR 0xEB, CHR 0x8B, CHR 0xA4]"

definition no_scan_message :: string where
  "no_scan_message = [CHR 0xEC, CHR 0x8B, CHR 0xA4, CHR 0xED, CHR 0x96,
     CHR 0x89] @ '' '' @ [CHR 0xEC, CHR 0xA4, CHR 0x91, CHR 0xEC, CHR 0x9D,
     CHR 0xB8] @ '' '' @ [CHR 0xEC, CHR 0x9E, CHR 0x91, CHR 0xED, CHR 0x92,
     CHR 0x88] @ '' '' @ [CHR 0xEC, CHR 0xA4, CHR 0x91, CHR 0xEB, CHR 0xB3,
     CHR 0xB5] @ '' '' @ [CHR 0xEA, CHR 0xB2, CHR 0x80, CHR 0xEC, CHR 0x82, CHR 0xAC, CHR 0xEA,
     CHR 0xB0, CHR 0x80] @ '' '' @ [CHR 0xEC, CHR 0x97, CHR 0x86, CHR 0xEC, CHR 0x8A, CHR 0xB5,
     CHR 0xEB, CHR 0x8B, CHR 0x88, CHR 0xEB, CHR 0x8B, CHR 0xA4] @ ''.''"

definition no_candidate_message :: string where
  "no_candidate_message = [CHR 0xEC, CHR 0xA4, CHR 0x91, CHR 0xEB, CHR 0xB3,
     CHR 0xB5] @ '' '' @ [CHR 0xED, CHR 0x9B, CHR 0x84, CHR 0xEB, CHR 0xB3, CHR 0xB4, CHR 0xEB,
     CHR 0xA5, CHR 0xBC] @ '' '' @ [CHR 0xEC, CHR 0xB0, CHR 0xBE, CHR 0xEC, CHR 0x9D,
     CHR 0x84] @ '' '' @ [CHR 0xEC, CHR 0x88, CHR 0x98] @ '' '' @ [CHR 0xEC, CHR 0x97,
     CHR 0x86, CHR 0xEC, CHR 0x8A, CHR 0xB5, CHR 0xEB, CHR 0x8B, CHR 0x88, CHR 0xEB, CHR 0x8B,
     CHR 0xA4] @ ''.''"

definition candidate_changed_message :: string where
  "candidate_changed_message = [CHR 0xEC, CHR 0xA4, CHR 0x91, CHR 0xEB, CHR 0xB3,
     CHR 0xB5] @ '' '' @ [CHR 0xED, CHR 0x9B, CHR 0x84, CHR 0xEB, CHR 0xB3, CHR 0xB4, CHR 0xEA,
     CHR 0xB0, CHR 0x80] @ '' '' @ [CHR 0xEB, CHR 0x8B, CHR 0xA4, CHR 0xEB, CHR 0xA5,
     CHR 0xB8] @ '' '' @ [CHR 0xEC, CHR 0xB0, CHR 0xBD, CHR 0xEC, CHR 0x97, CHR 0x90, CHR 0xEC,
     CHR 0x84, CHR 0x9C] @ '' '' @ [CHR 0xEB, CHR 0xB3, CHR 0x80, CHR 0xEA, CHR 0xB2, CHR 0xBD,
     CHR 0xEB, CHR 0x90, CHR 0x98, CHR 0xEC, CHR 0x97, CHR 0x88, CHR 0xEC, CHR 0x8A, CHR 0xB5,
     CHR 0xEB, CHR 0x8B, CHR 0x88, CHR 0xEB, CHR 0x8B, CHR 0xA4] @ ''.''"

definition series_needed_reason :: string where
  "series_needed_reason = ''seriesGroupId '' @ [CHR 0xEB, CHR 0x98, CHR 0x90, CHR 0xEB,
     CHR 0x8A, CHR 0x94] @ '' seriesName '' @ [CHR 0xEC, CHR 0xA4,
     CHR 0x91] @ '' '' @ [CHR 0xED, CHR 0x95, CHR 0x98, CHR 0xEB, CHR 0x82, CHR 0x98, CHR 0xEA,
     CHR 0xB0, CHR 0x80] @ '' '' @ [CHR 0xED, CHR 0x95, CHR 0x84, CHR 0xEC, CHR 0x9A, CHR 0x94,
     CHR 0xED, CHR 0x95, CHR 0xA9, CHR 0xEB, CHR 0x8B, CHR 0x88, CHR 0xEB, CHR 0x8B, CHR 0xA4]"

definition unlink_needs_target_reason :: string where
  "unlink_needs_target_reason = ''series_unlink'' @ [CHR 0xEC, CHR 0x97, CHR 0x90, CHR 0xEB,
     CHR 0x8A, CHR 0x94] @ '' '' @ [CHR 0xEB, CHR 0x8C, CHR 0x80, CHR 0xEC, CHR 0x83,
     CHR 0x81] @ '' '' @ [CHR 0xEA, CHR 0xB0, CHR 0xA4, CHR 0xEB, CHR 0x9F, CHR 0xAC, CHR 0xEB,
     CHR 0xA6, CHR 0xAC, CHR 0xEA, CHR 0xB0, CHR 0x80] @ '' '' @ [CHR 0xED, CHR 0x95, CHR 0x84,
     CHR 0xEC, CHR 0x9A, CHR 0x94, CHR 0xED, CHR 0x95, CHR 0xA9, CHR 0xEB, CHR 0x8B, CHR 0x88,
     CHR 0xEB, CHR 0x8B, CHR 0xA4]"

definition series_name :: string where
  "series_name = [CHR 0xEC, CHR 0x97, CHR 0xB0, CHR 0xEC, CHR 0x9E, CHR 0x91]"

definition evidence_sequence :: string where
  "evidence_sequence = [CHR 0xEC, CHR 0x9B, CHR 0x90, CHR 0xEB, CHR 0xB3,
     CHR 0xB8] @ '' '' @ [CHR 0xED, CHR 0x8E, CHR 0x98, CHR 0xEC, CHR 0x9D, CHR 0xB4, CHR 0xEC,
     CHR 0xA7, CHR 0x80] @ '' '' @ [CHR 0xEB, CHR 0xB2, CHR 0x88, CHR 0xED, CHR 0x98, CHR 0xB8,
     CHR 0xEB, CHR 0xA5, CHR 0xBC] @ '' '' @ [CHR 0xEB, CHR 0xB3, CHR 0xB4, CHR 0xEC, CHR 0xA1,
     CHR 0xB4, CHR 0xED, CHR 0x95, CHR 0x9C] @ '' '' @ [CHR 0xEC, CHR 0x88, CHR 0x9C, CHR 0xEC,
     CHR 0x84, CHR 0x9C] @ '' '' @ [CHR 0xEC, CHR 0xA0, CHR 0x95, CHR 0xEB, CHR 0xA0, CHR 0xAC,
     CHR 0xEC, CHR 0x97, CHR 0x90, CHR 0xEC, CHR 0x84, CHR 0x9C] @ '' '' @ [CHR 0xEC, CHR 0x84,
     CHR 0xB8] @ '' '' @ [CHR 0xED, CHR 0x8E, CHR 0x98, CHR 0xEC, CHR 0x9D, CHR 0xB4, CHR 0xEC,
     CHR 0xA7, CHR 0x80, CHR 0xEA, CHR 0xB0, CHR 0x80] @ '' '' @ [CHR 0xEB, CHR 0x8C, CHR 0x80,
     CHR 0xEC, CHR 0x9D, CHR 0x91, CHR 0xED, CHR 0x95, CHR 0xA9, CHR 0xEB, CHR 0x8B, CHR 0x88,
     CHR 0xEB, CHR 0x8B, CHR 0xA4] @ ''.''"

definition evidence_exact :: string where
  "evidence_exact = [CHR 0xED, CHR 0x95, CHR 0x9C] @ '' '' @ [CHR 0xED, CHR 0x8E, CHR 0x98,
     CHR 0xEC, CHR 0x9D, CHR 0xB4, CHR 0xEC, CHR 0xA7, CHR 0x80, CHR 0xEC, CHR 0x9D,
     CHR 0x98] @ '' '' @ [CHR 0xEA, CHR 0xB2, CHR 0x80, CHR 0xEC, CHR 0xA6, CHR 0x9D, CHR 0xEB,
     CHR 0x90, CHR 0x9C] @ '' SHA-256'' @ [CHR 0xEC, CHR 0x9D, CHR 0xB4] @ '' '' @ [CHR 0xEC,
     CHR 0xA0, CHR 0x95, CHR 0xED, CHR 0x99, CHR 0x95, CHR 0xED, CHR 0x9E,
     CHR 0x88] @ '' '' @ [CHR 0xEC, CHR 0x9D, CHR 0xBC, CHR 0xEC, CHR 0xB9, CHR 0x98, CHR 0xED,
     CHR 0x95, CHR 0xA9, CHR 0xEB, CHR 0x8B, CHR 0x88, CHR 0xEB, CHR 0x8B, CHR 0xA4] @ ''.''"

definition evidence_visual :: string where
  "evidence_visual = [CHR 0xEC, CHR 0x9E, CHR 0xAC, CHR 0xEC, CHR 0x95, CHR 0x95, CHR 0xEC,
     CHR 0xB6, CHR 0x95] @ '' '' @ [CHR 0xEA, CHR 0xB0, CHR 0x80, CHR 0xEB, CHR 0x8A, CHR 0xA5,
     CHR 0xEC, CHR 0x84, CHR 0xB1, CHR 0xEC, CHR 0x9D, CHR 0xB4] @ '' '' @ [CHR 0xEC, CHR 0x9E,
     CHR 0x88, CHR 0xEB, CHR 0x8A, CHR 0x94] @ '' '' @ [CHR 0xEB, CHR 0x91,
     CHR 0x90] @ '' '' @ [CHR 0xED, CHR 0x8E, CHR 0x98, CHR 0xEC, CHR 0x9D, CHR 0xB4, CHR 0xEC,
     CHR 0xA7, CHR 0x80, CHR 0xEA, CHR 0xB0, CHR 0x80] @ '' '' @ [CHR 0xEC, CHR 0x8B, CHR 0x9C,
     CHR 0xEA, CHR 0xB0, CHR 0x81] @ '' '' @ [CHR 0xED, CHR 0x95, CHR 0xB4, CHR 0xEC, CHR 0x8B,
     CHR 0x9C] @ '' '' @ [CHR 0xEA, CHR 0xB8, CHR 0xB0, CHR 0xEC, CHR 0xA4, CHR 0x80, CHR 0xEC,
     CHR 0x9D, CHR 0x84] @ '' '' @ [CHR 0xED, CHR 0x86, CHR 0xB5, CHR 0xEA, CHR 0xB3, CHR 0xBC,
     CHR 0xED, CHR 0x96, CHR 0x88, CHR 0xEC, CHR 0x8A, CHR 0xB5, CHR 0xEB, CHR 0x8B, CHR 0x88,
     CHR 0xEB, CHR 0x8B, CHR 0xA4] @ ''.''"

definition duplicateGalleryRef :: "gallery_id \<Rightarrow> string \<Rightarrow> string \<Rightarrow> string \<Rightarrow> int \<Rightarrow> duplicate_ref" where
  "duplicateGalleryRef i entryId title artist pageCount =
     \<lparr>dr_galleryId = i, dr_entryId = entryId, dr_title = title, dr_artist = Some artist, dr_group = None,
      dr_pageCount = pageCount\<rparr>"

definition fixture_pair :: "int \<Rightarrow> int \<Rightarrow> bool \<Rightarrow> int \<Rightarrow> int \<Rightarrow> int \<Rightarrow> rat \<Rightarrow> rat \<Rightarrow> duplicate_page_pair" where
  "fixture_pair p c exact d h detail edge visual =
     \<lparr>dp_parentSourcePage = p, dp_candidateSourcePage = c, dp_exactSha256 = exact, dp_dHashDistance = d,
      dp_pHashDistance = h, dp_detailHashDistance = detail, dp_edgeSimilarity = edge, dp_visualSimilarity = visual,
      dp_lowInformation = False\<rparr>"

definition fixture_candidate_id :: string where
  "fixture_candidate_id = ''browser-duplicate-archive-tram''"

definition browserDuplicateReviewFixture :: "string \<Rightarrow> duplicate_review" where
  "browserDuplicateReviewFixture now =
     \<lparr>dw_resolved = None, dw_artifactStale = None,
      dw_candidate = \<lparr>dc_candidateId = fixture_candidate_id, dc_revision = 0,
        dc_parent = duplicateGalleryRef 4051038 ''browser-artifact-4051038'' ''Archive of Rain'' ''serein'' 38,
        dc_candidate = duplicateGalleryRef 4050754 ''browser-artifact-4050754'' ''The Last Tram'' ''serein'' 24,
        dc_relation = DupContains, dc_confidence = 94 / 100, dc_matchedPages = 3,
        dc_parentCoverage = 79 / 1000, dc_candidateCoverage = 125 / 1000, dc_createdAt = now, dc_updatedAt = now\<rparr>,
      dw_evidence =
        [\<lparr>dv_evidenceId = ''browser-evidence-sequence'', dv_kind = SequenceAlignment, dv_confidence = 94 / 100,
          dv_matchedPages = 3, dv_description = evidence_sequence\<rparr>,
         \<lparr>dv_evidenceId = ''browser-evidence-exact'', dv_kind = ExactSha, dv_confidence = 1, dv_matchedPages = 1,
          dv_description = evidence_exact\<rparr>,
         \<lparr>dv_evidenceId = ''browser-evidence-visual'', dv_kind = VisualHash, dv_confidence = 91 / 100,
          dv_matchedPages = 2, dv_description = evidence_visual\<rparr>],
      dw_pagePairs =
        [fixture_pair 1 3 True 0 0 0 1 1, fixture_pair 7 8 False 3 4 31 (92 / 100) (94 / 100),
         fixture_pair 12 14 False 5 6 44 (89 / 100) (91 / 100)],
      dw_decisions = [], dw_seriesGroups = []\<rparr>"

section \<open>The scan\<close>

definition count_num :: "nat \<Rightarrow> js_num" where
  "count_num n = Num (of_nat n)"

definition run_running :: "duplicate_run option \<Rightarrow> bool" where
  "run_running r = (case r of Some run \<Rightarrow> du_state run = ''running'' | None \<Rightarrow> False)"

definition pair_ids_ok :: "js_num list \<Rightarrow> bool" where
  "pair_ids_ok ids \<longleftrightarrow> length ids = 2 \<and> distinct ids \<and> list_all (\<lambda>i. is_safe_integer i \<and> \<not> js_le i (Num 0)) ids"

definition id_of_num :: "js_num \<Rightarrow> gallery_id" where
  "id_of_num n = (case n of Num r \<Rightarrow> floor r | _ \<Rightarrow> 0)"

definition has_completed :: "browser_backend \<Rightarrow> gallery_id \<Rightarrow> bool" where
  "has_completed s g \<longleftrightarrow> list_ex (\<lambda>e. de_galleryId e = g \<and> de_state e = Completed) (vals (bb_downloadEntries s))"

definition scan_refusal :: "js_num list option \<Rightarrow> browser_backend \<Rightarrow> api_error option" where
  "scan_refusal galleryIds s =
     (case galleryIds of
        None \<Rightarrow> None
      | Some ids \<Rightarrow>
          if \<not> pair_ids_ok ids then Some (validationError ''galleryIds'' two_ids_reason)
          else if run_running (dn_run (bb_duplicateSnapshot s)) then Some (validationError ''galleryIds'' other_scan_reason)
          else if list_ex (\<lambda>i. \<not> has_completed s (id_of_num i) \<or> isDuplicateExplorationExcluded s (id_of_num i)) ids
          then Some (validationError ''galleryIds'' both_completed_reason)
          else None)"

definition new_run :: "string \<Rightarrow> nat \<Rightarrow> duplicate_run" where
  "new_run now n = \<lparr>du_runId = ''browser-duplicate-run-'' @ show_nat n, du_revision = Num 0, du_state = ''running'',
     du_totalArtifacts = Num 2, du_hashedArtifacts = Num 0, du_totalPairs = Num 1, du_comparedPairs = Num 0,
     du_candidatesFound = Num 0, du_startedAt = now, du_updatedAt = now, du_finishedAt = None, du_errorCode = None,
     du_errorMessage = None\<rparr>"

text \<open>The microtask that reports the new run comes before any other event.\<close>

definition start_scan ::
  "js_num list option \<Rightarrow> string \<Rightarrow> browser_backend \<Rightarrow> duplicate_run api_result \<times> browser_backend" where
  "start_scan galleryIds now s =
     (let generation = Suc (bb_duplicateGeneration s);
          run = new_run now (bb_nextDuplicateRunId s);
          s1 = s\<lparr>bb_duplicateSelectedIds := map_option (map id_of_num) galleryIds,
                 bb_duplicateGeneration := generation, bb_nextDuplicateRunId := Suc (bb_nextDuplicateRunId s),
                 bb_duplicateSnapshot := \<lparr>dn_profile = duplicateProfile, dn_run = Some run,
                   dn_candidates = dn_candidates (bb_duplicateSnapshot s)\<rparr>\<rparr>
      in (Inr run, emit (DuplicateChanged run)
           (setTimeout 90 (DuplicateTask generation True) (setTimeout 45 (DuplicateTask generation False) s1))))"

definition duplicateScanStart ::
  "js_num list option \<Rightarrow> string \<Rightarrow> browser_backend \<Rightarrow> duplicate_run api_result \<times> browser_backend" where
  "duplicateScanStart galleryIds now s =
     (case scan_refusal galleryIds s of
        Some err \<Rightarrow> (Inl err, s)
      | None \<Rightarrow>
          (case dn_run (bb_duplicateSnapshot s) of
             Some current \<Rightarrow>
               if du_state current = ''running'' then (Inr current, s)
               else start_scan galleryIds now s
           | None \<Rightarrow> start_scan galleryIds now s))"

text \<open>Numbers of a run here are integers.\<close>

definition succ_num :: "js_num \<Rightarrow> js_num" where
  "succ_num n = (case n of Num r \<Rightarrow> Num (r + 1) | m \<Rightarrow> m)"

definition set_run :: "duplicate_run \<Rightarrow> browser_backend \<Rightarrow> browser_backend" where
  "set_run run s = s\<lparr>bb_duplicateSnapshot := (bb_duplicateSnapshot s)\<lparr>dn_run := Some run\<rparr>\<rparr>"

definition duplicateScanCancel :: "string \<Rightarrow> browser_backend \<Rightarrow> duplicate_run api_result \<times> browser_backend" where
  "duplicateScanCancel now s =
     (case dn_run (bb_duplicateSnapshot s) of
        Some current \<Rightarrow>
          if du_state current = ''running''
          then
            let cancelled = current\<lparr>du_revision := succ_num (du_revision current), du_state := ''cancelled'',
                  du_updatedAt := now, du_finishedAt := Some now\<rparr>
            in (Inr cancelled, emit (DuplicateChanged cancelled)
                 (set_run cancelled (s\<lparr>bb_duplicateGeneration := Suc (bb_duplicateGeneration s)\<rparr>)))
          else (Inl (notFoundError ''DUPLICATE_SCAN_NOT_RUNNING'' no_scan_message None), s)
      | None \<Rightarrow> (Inl (notFoundError ''DUPLICATE_SCAN_NOT_RUNNING'' no_scan_message None), s))"

text \<open>A reference of the pair is given the entry of a completed download, where there is one.\<close>

definition bind_ref :: "browser_backend \<Rightarrow> duplicate_ref \<Rightarrow> duplicate_ref" where
  "bind_ref s r =
     (case find (\<lambda>e. de_galleryId e = dr_galleryId r \<and> de_state e = Completed) (vals (bb_downloadEntries s)) of
        Some e \<Rightarrow> r\<lparr>dr_entryId := de_entryId e\<rparr>
      | None \<Rightarrow> r)"

definition bind_candidate :: "browser_backend \<Rightarrow> duplicate_candidate \<Rightarrow> duplicate_candidate" where
  "bind_candidate s c = c\<lparr>dc_parent := bind_ref s (dc_parent c), dc_candidate := bind_ref s (dc_candidate c)\<rparr>"

definition selects_fixture :: "string \<Rightarrow> browser_backend \<Rightarrow> bool" where
  "selects_fixture now s =
     (case bb_duplicateSelectedIds s of
        None \<Rightarrow> True
      | Some ids \<Rightarrow> list_all (\<lambda>i. let pair = dw_candidate (browserDuplicateReviewFixture now)
          in i = dr_galleryId (dc_parent pair) \<or> i = dr_galleryId (dc_candidate pair)) ids)"

text \<open>The candidates a finished scan reports, and the state with the review of the pair in place.\<close>

definition report_fixture :: "string \<Rightarrow> browser_backend \<Rightarrow> duplicate_candidate list \<times> browser_backend" where
  "report_fixture now s =
     (let known = or_value (map_of (bb_duplicateReviews s) fixture_candidate_id) (browserDuplicateReviewFixture now);
          fixture = known\<lparr>dw_candidate := bind_candidate s (dw_candidate known)\<rparr>;
          cid = dc_candidateId (dw_candidate fixture)
      in (if cid \<in> set (bb_duplicateResolvedCandidates s) then [] else [dw_candidate fixture],
          s\<lparr>bb_duplicateReviews := AList.update cid fixture (bb_duplicateReviews s)\<rparr>))"

definition found_among :: "gallery_id list option \<Rightarrow> duplicate_candidate list \<Rightarrow> nat" where
  "found_among selected candidates =
     (case selected of
        Some ids \<Rightarrow> length (filter (\<lambda>c. dr_galleryId (dc_parent c) \<in> set ids \<and> dr_galleryId (dc_candidate c) \<in> set ids) candidates)
      | None \<Rightarrow> length candidates)"

definition advanceDuplicateScanFixture :: "nat \<Rightarrow> bool \<Rightarrow> string \<Rightarrow> browser_backend \<Rightarrow> browser_backend" where
  "advanceDuplicateScanFixture generation finish now s =
     (case dn_run (bb_duplicateSnapshot s) of
        None \<Rightarrow> s
      | Some current \<Rightarrow>
          if generation \<noteq> bb_duplicateGeneration s \<or> du_state current \<noteq> ''running'' then s
          else
            let (candidates, s1) = (if finish \<and> selects_fixture now s then report_fixture now s
                                    else (dn_candidates (bb_duplicateSnapshot s), s));
                next = current\<lparr>du_revision := succ_num (du_revision current),
                  du_state := (if finish then ''completed'' else ''running''),
                  du_hashedArtifacts := (if finish then du_totalArtifacts current else Num 1),
                  du_comparedPairs := (if finish then du_totalPairs current else Num 0),
                  du_candidatesFound := count_num (found_among (bb_duplicateSelectedIds s) candidates),
                  du_updatedAt := now,
                  du_finishedAt := (if finish then Some now else du_finishedAt current)\<rparr>
            in emit (DuplicateChanged next)
                 (s1\<lparr>bb_duplicateSnapshot := (bb_duplicateSnapshot s1)\<lparr>dn_run := Some next, dn_candidates := candidates\<rparr>\<rparr>))"

section \<open>Decisions\<close>

definition candidate_missing :: "string \<Rightarrow> api_error" where
  "candidate_missing candidateId = notFoundError ''DUPLICATE_CANDIDATE_NOT_FOUND'' no_candidate_message
     (Some [(''candidateId'', JStr candidateId)])"

definition duplicateReviewGet :: "string \<Rightarrow> browser_backend \<Rightarrow> duplicate_review api_result" where
  "duplicateReviewGet candidateId s =
     (case map_of (bb_duplicateReviews s) (trim candidateId) of
        Some review \<Rightarrow> Inr review
      | None \<Rightarrow> Inl (candidate_missing (trim candidateId)))"

definition decision_refusal :: "duplicate_decision_request \<Rightarrow> duplicate_review \<Rightarrow> api_error option" where
  "decision_refusal request review =
     (if dq_expectedRevision request \<noteq> dc_revision (dw_candidate review)
      then Some \<lparr>ae_code = ''REVISION_CONFLICT'', ae_message = candidate_changed_message, ae_retryable = False,
        ae_action = Some ActReview, ae_details = Some [(''resource'', JStr ''duplicateCandidate''),
          (''expectedRevision'', int_value (dq_expectedRevision request)),
          (''actualRevision'', int_value (dc_revision (dw_candidate review)))]\<rparr>
      else if dq_action request = SeriesLink \<and> trim (or_value (dq_seriesGroupId request) []) = []
              \<and> trim (or_value (dq_seriesName request) []) = []
      then Some (validationError ''request.seriesName'' series_needed_reason)
      else if dq_action request = SeriesUnlink \<and> dq_targetGalleryId request = None
      then Some (validationError ''request.targetGalleryId'' unlink_needs_target_reason)
      else None)"

definition nonempty :: "string \<Rightarrow> string option" where
  "nonempty t = (if t = [] then None else Some t)"

text \<open>The series a link goes into, made when the one asked for is not there.\<close>

definition link_group ::
  "duplicate_decision_request \<Rightarrow> string \<Rightarrow> string \<Rightarrow> series_group list \<Rightarrow> series_group \<times> series_group list" where
  "link_group request candidateId now groups =
     (let asked = trim (or_value (dq_seriesGroupId request) [])
      in case (if asked = [] then None else find (\<lambda>g. sg_seriesGroupId g = asked) groups) of
           Some g \<Rightarrow> (g, groups)
         | None \<Rightarrow>
             let g = \<lparr>sg_seriesGroupId = ''browser-series-'' @ candidateId @ ''-'' @ show_nat (length groups + 1),
                      sg_name = or_value (nonempty (trim (or_value (dq_seriesName request) []))) series_name,
                      sg_revision = 0, sg_members = [], sg_createdAt = now, sg_updatedAt = now\<rparr>
             in (g, groups @ [g]))"

definition link_series ::
  "duplicate_decision_request \<Rightarrow> duplicate_candidate \<Rightarrow> string \<Rightarrow> series_group list \<Rightarrow> string \<times> series_group list" where
  "link_series request c now groups =
     (let (group, groups1) = link_group request (dc_candidateId c) now groups;
          additions = filter (\<lambda>m. dr_galleryId m \<notin> dr_galleryId ` set (sg_members group)) [dc_parent c, dc_candidate c]
      in (sg_seriesGroupId group,
          map (\<lambda>item. if sg_seriesGroupId item = sg_seriesGroupId group
                 then item\<lparr>sg_revision := sg_revision item + (if additions = [] then 0 else 1),
                           sg_members := sg_members item @ additions, sg_updatedAt := now\<rparr>
                 else item) groups1))"

definition unlink_group :: "string option \<Rightarrow> gallery_id \<Rightarrow> string \<Rightarrow> series_group \<Rightarrow> series_group" where
  "unlink_group asked target now g =
     (if or_value asked [] \<noteq> [] \<and> asked \<noteq> Some (sg_seriesGroupId g) then g
      else let members = filter (\<lambda>m. dr_galleryId m \<noteq> target) (sg_members g)
           in if length members = length (sg_members g) then g
              else g\<lparr>sg_revision := sg_revision g + 1, sg_members := members, sg_updatedAt := now\<rparr>)"

text \<open>The series as the decision leaves them, and the series it is about.\<close>

definition decided_series ::
  "duplicate_decision_request \<Rightarrow> duplicate_candidate \<Rightarrow> string \<Rightarrow> series_group list \<Rightarrow> string option \<times> series_group list" where
  "decided_series request c now groups =
     (case dq_action request of
        SeriesLink \<Rightarrow> (case link_series request c now groups of (i, gs) \<Rightarrow> (Some i, gs))
      | SeriesUnlink \<Rightarrow>
          (case dq_targetGalleryId request of
             None \<Rightarrow> (dq_seriesGroupId request, groups)
           | Some target \<Rightarrow>
               let gs = map (unlink_group (dq_seriesGroupId request) target now) groups
               in (or_else (dq_seriesGroupId request)
                     (map_option sg_seriesGroupId (find (\<lambda>g. target \<in> dr_galleryId ` set (sg_members g)) gs)), gs))
      | _ \<Rightarrow> (nonempty (trim (or_value (dq_seriesGroupId request) [])), groups))"

definition hides :: "duplicate_action \<Rightarrow> duplicate_candidate \<Rightarrow> gallery_id option" where
  "hides act c = (case act of
     HideParent \<Rightarrow> Some (dr_galleryId (dc_parent c))
   | HideCandidate \<Rightarrow> Some (dr_galleryId (dc_candidate c))
   | _ \<Rightarrow> None)"

definition set_candidates :: "(duplicate_candidate list \<Rightarrow> duplicate_candidate list) \<Rightarrow> browser_backend \<Rightarrow> browser_backend" where
  "set_candidates f s = s\<lparr>bb_duplicateSnapshot :=
     (bb_duplicateSnapshot s)\<lparr>dn_candidates := f (dn_candidates (bb_duplicateSnapshot s))\<rparr>\<rparr>"

definition settle_candidate :: "duplicate_action \<Rightarrow> string \<Rightarrow> duplicate_candidate \<Rightarrow> browser_backend \<Rightarrow> browser_backend" where
  "settle_candidate act candidateId c s =
     (if act \<in> {HideParent, HideCandidate, ExcludePair}
      then set_candidates (filter (\<lambda>item. dc_candidateId item \<noteq> candidateId))
             (s\<lparr>bb_duplicateResolvedCandidates := set_add candidateId (bb_duplicateResolvedCandidates s)\<rparr>)
      else set_candidates (map (\<lambda>item. if dc_candidateId item = candidateId then c else item)) s)"

definition decided_review ::
  "duplicate_decision_request \<Rightarrow> string \<Rightarrow> string \<Rightarrow> nat \<Rightarrow> duplicate_review \<Rightarrow> duplicate_review" where
  "decided_review request candidateId now n review =
     (let c = (dw_candidate review)\<lparr>dc_revision := dc_revision (dw_candidate review) + 1, dc_updatedAt := now\<rparr>;
          (applied, groups) = decided_series request c now (dw_seriesGroups review);
          decision = \<lparr>dd_decisionId = ''browser-decision-'' @ show_nat n, dd_candidateId = candidateId,
            dd_candidateRevision = dc_revision c, dd_action = dq_action request,
            dd_targetGalleryId = dq_targetGalleryId request,
            dd_seriesGroupId = (case applied of Some i \<Rightarrow> nonempty i | None \<Rightarrow> None), dd_createdAt = now\<rparr>
      in review\<lparr>dw_candidate := c, dw_decisions := dw_decisions review @ [decision], dw_seriesGroups := groups\<rparr>)"

definition duplicateDecisionApply ::
  "duplicate_decision_request \<Rightarrow> string \<Rightarrow> browser_backend \<Rightarrow> duplicate_review api_result \<times> browser_backend" where
  "duplicateDecisionApply request now s =
     (let candidateId = trim (dq_candidateId request) in
      case map_of (bb_duplicateReviews s) candidateId of
        None \<Rightarrow> (Inl (candidate_missing candidateId), s)
      | Some review \<Rightarrow>
          (case decision_refusal request review of
             Some err \<Rightarrow> (Inl err, s)
           | None \<Rightarrow>
               let nextReview = decided_review request candidateId now (bb_nextDuplicateDecisionId s) review;
                   s1 = s\<lparr>bb_nextDuplicateDecisionId := Suc (bb_nextDuplicateDecisionId s),
                          bb_duplicateReviews := AList.update candidateId nextReview (bb_duplicateReviews s)\<rparr>;
                   s2 = (case hides (dq_action request) (dw_candidate nextReview) of
                           Some g \<Rightarrow> hide_gallery g s1
                         | None \<Rightarrow> s1)
               in (Inr nextReview, settle_candidate (dq_action request) candidateId (dw_candidate nextReview) s2)))"

end
