(* ===== verification/BrowserReviews.thy ===== *)
theory BrowserReviews
  imports BrowserDuplicates
begin

text \<open>
  The download overlap reviews of \<^verbatim>\<open>BrowserMockBackend\<close> (\<^verbatim>\<open>src/src/api/backend.ts\<close>): a download that overlaps
  with saved editions waits for decisions, by the user or by the automatic rules, on each of the candidates. A
  decision names the revision of the review; one that removes an edition hides its gallery and settles the entries
  and reviews that depend on it. The last decision puts the download back into the queue, or cancels it.

  \<open>parse\<close> is \<^verbatim>\<open>JSON.parse\<close>, \<open>None\<close> when it throws; \<open>nfkc\<close> is the normalisation the automatic rules apply to
  titles. The calls awaited inside an operation answer before anything else runs.
\<close>

section \<open>Texts\<close>

definition counts_changed_text :: string where
  "counts_changed_text = [CHR 0xED, CHR 0x8E, CHR 0x98, CHR 0xEC, CHR 0x9D, CHR 0xB4, CHR 0xEC,
     CHR 0xA7, CHR 0x80] @ '' '' @ [CHR 0xEB, CHR 0x8C, CHR 0x80, CHR 0xEC, CHR 0x9D,
     CHR 0x91] @ '' '' @ [CHR 0xEA, CHR 0xB0, CHR 0x9C, CHR 0xEC, CHR 0x88, CHR 0x98, CHR 0xEA,
     CHR 0xB0, CHR 0x80] @ '' '' @ [CHR 0xEB, CHR 0x8B, CHR 0xAC, CHR 0xEB, CHR 0x9D, CHR 0xBC,
     CHR 0xEC, CHR 0xA1, CHR 0x8C, CHR 0xEC, CHR 0x8A, CHR 0xB5, CHR 0xEB, CHR 0x8B, CHR 0x88,
     CHR 0xEB, CHR 0x8B, CHR 0xA4] @ ''. '' @ [CHR 0xEB, CHR 0x8B, CHR 0xA4, CHR 0xEC,
     CHR 0x8B, CHR 0x9C] @ '' '' @ [CHR 0xEB, CHR 0x8C, CHR 0x80, CHR 0xEC, CHR 0xA1, CHR 0xB0,
     CHR 0xED, CHR 0x95, CHR 0xB4] @ '' '' @ [CHR 0xEC, CHR 0xA3, CHR 0xBC, CHR 0xEC, CHR 0x84,
     CHR 0xB8, CHR 0xEC, CHR 0x9A, CHR 0x94] @ ''.''"

definition order_invalid_text :: string where
  "order_invalid_text = [CHR 0xED, CHR 0x8E, CHR 0x98, CHR 0xEC, CHR 0x9D, CHR 0xB4, CHR 0xEC,
     CHR 0xA7, CHR 0x80] @ '' '' @ [CHR 0xEB, CHR 0x8C, CHR 0x80, CHR 0xEC, CHR 0x9D,
     CHR 0x91] @ '' '' @ [CHR 0xEC, CHR 0x88, CHR 0x9C, CHR 0xEC, CHR 0x84, CHR 0x9C, CHR 0xEB,
     CHR 0xA5, CHR 0xBC] @ '' '' @ [CHR 0xEB, CHR 0x8B, CHR 0xA4, CHR 0xEC, CHR 0x8B,
     CHR 0x9C] @ '' '' @ [CHR 0xED, CHR 0x99, CHR 0x95, CHR 0xEC, CHR 0x9D, CHR 0xB8, CHR 0xED,
     CHR 0x95, CHR 0xB4] @ '' '' @ [CHR 0xEC, CHR 0xA3, CHR 0xBC, CHR 0xEC, CHR 0x84, CHR 0xB8,
     CHR 0xEC, CHR 0x9A, CHR 0x94] @ ''.''"

definition selection_invalid_text :: string where
  "selection_invalid_text = [CHR 0xEC, CHR 0x84, CHR 0xA0, CHR 0xED, CHR 0x83,
     CHR 0x9D] @ '' '' @ [CHR 0xED, CHR 0x8E, CHR 0x98, CHR 0xEC, CHR 0x9D, CHR 0xB4, CHR 0xEC,
     CHR 0xA7, CHR 0x80, CHR 0xEA, CHR 0xB0, CHR 0x80] @ '' '' @ [CHR 0xEC, CHR 0x9C, CHR 0xA0,
     CHR 0xED, CHR 0x9A, CHR 0xA8, CHR 0xED, CHR 0x95, CHR 0x98, CHR 0xEC, CHR 0xA7,
     CHR 0x80] @ '' '' @ [CHR 0xEC, CHR 0x95, CHR 0x8A, CHR 0xEC, CHR 0x8A, CHR 0xB5, CHR 0xEB,
     CHR 0x8B, CHR 0x88, CHR 0xEB, CHR 0x8B, CHR 0xA4] @ ''.''"

definition both_selected_text :: string where
  "both_selected_text = [CHR 0xEB, CHR 0x8C, CHR 0x80, CHR 0xEC, CHR 0x9D,
     CHR 0x91] @ '' '' @ [CHR 0xED, CHR 0x8E, CHR 0x98, CHR 0xEC, CHR 0x9D, CHR 0xB4, CHR 0xEC,
     CHR 0xA7, CHR 0x80, CHR 0xEB, CHR 0x8A, CHR 0x94] @ '' '' @ [CHR 0xED, CHR 0x95, CHR 0x9C,
     CHR 0xEC, CHR 0xAA, CHR 0xBD, CHR 0xEB, CHR 0xA7, CHR 0x8C] @ '' '' @ [CHR 0xEC, CHR 0x84,
     CHR 0xA0, CHR 0xED, CHR 0x83, CHR 0x9D, CHR 0xED, CHR 0x95, CHR 0xB4] @ '' '' @ [CHR 0xEC,
     CHR 0xA3, CHR 0xBC, CHR 0xEC, CHR 0x84, CHR 0xB8, CHR 0xEC, CHR 0x9A, CHR 0x94] @ ''.''"

definition empty_reason :: string where
  "empty_reason = [CHR 0xEB, CHR 0xB9, CHR 0x84, CHR 0xEC, CHR 0x96,
     CHR 0xB4] @ '' '' @ [CHR 0xEC, CHR 0x9E, CHR 0x88, CHR 0xEC, CHR 0x9D,
     CHR 0x84] @ '' '' @ [CHR 0xEC, CHR 0x88, CHR 0x98] @ '' '' @ [CHR 0xEC, CHR 0x97,
     CHR 0x86, CHR 0xEC, CHR 0x8A, CHR 0xB5, CHR 0xEB, CHR 0x8B, CHR 0x88, CHR 0xEB, CHR 0x8B,
     CHR 0xA4]"

definition page_reason :: string where
  "page_reason = ''1 '' @ [CHR 0xEC, CHR 0x9D, CHR 0xB4, CHR 0xEC, CHR 0x83, CHR 0x81,
     CHR 0xEC, CHR 0x9D, CHR 0x98] @ '' '' @ [CHR 0xEC, CHR 0xA0, CHR 0x95, CHR 0xEC, CHR 0x88,
     CHR 0x98, CHR 0xEC, CHR 0x97, CHR 0xAC, CHR 0xEC, CHR 0x95, CHR 0xBC] @ '' '' @ [CHR 0xED,
     CHR 0x95, CHR 0xA9, CHR 0xEB, CHR 0x8B, CHR 0x88, CHR 0xEB, CHR 0x8B, CHR 0xA4]"

definition page_size_reason :: string where
  "page_size_reason = ''1 '' @ [CHR 0xEC, CHR 0x9D, CHR 0xB4, CHR 0xEC, CHR 0x83,
     CHR 0x81] @ '' 200 '' @ [CHR 0xEC, CHR 0x9D, CHR 0xB4, CHR 0xED, CHR 0x95, CHR 0x98,
     CHR 0xEC, CHR 0x9D, CHR 0x98] @ '' '' @ [CHR 0xEC, CHR 0xA0, CHR 0x95, CHR 0xEC, CHR 0x88,
     CHR 0x98, CHR 0xEC, CHR 0x97, CHR 0xAC, CHR 0xEC, CHR 0x95, CHR 0xBC] @ '' '' @ [CHR 0xED,
     CHR 0x95, CHR 0xA9, CHR 0xEB, CHR 0x8B, CHR 0x88, CHR 0xEB, CHR 0x8B, CHR 0xA4]"

definition no_history_message :: string where
  "no_history_message = [CHR 0xEC, CHR 0x9E, CHR 0x90, CHR 0xEB, CHR 0x8F,
     CHR 0x99] @ '' '' @ [CHR 0xED, CHR 0x8C, CHR 0x90, CHR 0xEB, CHR 0xB3,
     CHR 0xB8] @ '' '' @ [CHR 0xEB, CHR 0xB6, CHR 0x84, CHR 0xEB, CHR 0xA5,
     CHR 0x98] @ '' '' @ [CHR 0xEA, CHR 0xB8, CHR 0xB0, CHR 0xEB, CHR 0xA1, CHR 0x9D, CHR 0xEC,
     CHR 0x9D, CHR 0x84] @ '' '' @ [CHR 0xEC, CHR 0xB0, CHR 0xBE, CHR 0xEC, CHR 0x9D,
     CHR 0x84] @ '' '' @ [CHR 0xEC, CHR 0x88, CHR 0x98] @ '' '' @ [CHR 0xEC, CHR 0x97,
     CHR 0x86, CHR 0xEC, CHR 0x8A, CHR 0xB5, CHR 0xEB, CHR 0x8B, CHR 0x88, CHR 0xEB, CHR 0x8B,
     CHR 0xA4] @ ''.''"

definition no_pair_message :: string where
  "no_pair_message = [CHR 0xEC, CHR 0x99, CHR 0x84, CHR 0xEB, CHR 0xA3,
     CHR 0x8C] @ '' '' @ [CHR 0xEC, CHR 0x95, CHR 0xA8, CHR 0xEB, CHR 0xB2,
     CHR 0x94] @ '' '' @ [CHR 0xEB, CHR 0x8C, CHR 0x80, CHR 0xEC, CHR 0xA1, CHR 0xB0, CHR 0xEB,
     CHR 0xA5, CHR 0xBC] @ '' '' @ [CHR 0xEC, CHR 0xB0, CHR 0xBE, CHR 0xEC, CHR 0x9D,
     CHR 0x84] @ '' '' @ [CHR 0xEC, CHR 0x88, CHR 0x98] @ '' '' @ [CHR 0xEC, CHR 0x97,
     CHR 0x86, CHR 0xEC, CHR 0x8A, CHR 0xB5, CHR 0xEB, CHR 0x8B, CHR 0x88, CHR 0xEB, CHR 0x8B,
     CHR 0xA4] @ ''.''"

definition manual_needed_reason :: string where
  "manual_needed_reason = [CHR 0xED, CHR 0x98, CHR 0x84, CHR 0xEC, CHR 0x9E,
     CHR 0xAC] @ '' '' @ [CHR 0xEC, CHR 0x99, CHR 0x84, CHR 0xEB, CHR 0xA3, CHR 0x8C, CHR 0xEB,
     CHR 0x90, CHR 0x9C] @ '' '' @ [CHR 0xEB, CHR 0x91, CHR 0x90] @ '' '' @ [CHR 0xEC,
     CHR 0x95, CHR 0xA8, CHR 0xEB, CHR 0xB2, CHR 0x94, CHR 0xEC, CHR 0x97,
     CHR 0x90] @ '' '' @ [CHR 0xEB, CHR 0x8C, CHR 0x80, CHR 0xED, CHR 0x95,
     CHR 0x9C] @ '' '' @ [CHR 0xEC, CHR 0x88, CHR 0x98, CHR 0xEB, CHR 0x8F,
     CHR 0x99] @ '' '' @ [CHR 0xED, CHR 0x8C, CHR 0x90, CHR 0xEC, CHR 0xA0, CHR 0x95, CHR 0xEC,
     CHR 0x9D, CHR 0xB4] @ '' '' @ [CHR 0xED, CHR 0x95, CHR 0x84, CHR 0xEC, CHR 0x9A, CHR 0x94,
     CHR 0xED, CHR 0x95, CHR 0xA9, CHR 0xEB, CHR 0x8B, CHR 0x88, CHR 0xEB, CHR 0x8B, CHR 0xA4]"

definition batch_audit_reason :: string where
  "batch_audit_reason = [CHR 0xED, CHR 0x95, CHR 0xA9, CHR 0xEB, CHR 0xB3,
     CHR 0xB8] @ '' '' @ [CHR 0xEC, CHR 0x9D, CHR 0xBC, CHR 0xEA, CHR 0xB4,
     CHR 0x84] @ '' '' @ [CHR 0xEC, CHR 0xA0, CHR 0x95, CHR 0xEB, CHR 0xA6,
     CHR 0xAC] @ '' '' @ [CHR 0xEA, CHR 0xB0, CHR 0x90, CHR 0xEC, CHR 0x82,
     CHR 0xAC] @ '' '' @ [CHR 0xEC, CHR 0xA0, CHR 0x95, CHR 0xEB, CHR 0xB3, CHR 0xB4, CHR 0xEA,
     CHR 0xB0, CHR 0x80] @ '' '' @ [CHR 0xEC, CHR 0x98, CHR 0xAC, CHR 0xEB, CHR 0xB0, CHR 0x94,
     CHR 0xEB, CHR 0xA5, CHR 0xB4, CHR 0xEC, CHR 0xA7, CHR 0x80] @ '' '' @ [CHR 0xEC, CHR 0x95,
     CHR 0x8A, CHR 0xEC, CHR 0x8A, CHR 0xB5, CHR 0xEB, CHR 0x8B, CHR 0x88, CHR 0xEB, CHR 0x8B,
     CHR 0xA4]"

definition object_needed_reason :: string where
  "object_needed_reason = ''JSON '' @ [CHR 0xEA, CHR 0xB0, CHR 0x9D, CHR 0xEC, CHR 0xB2,
     CHR 0xB4, CHR 0xEC, CHR 0x97, CHR 0xAC, CHR 0xEC, CHR 0x95, CHR 0xBC] @ '' '' @ [CHR 0xED,
     CHR 0x95, CHR 0xA9, CHR 0xEB, CHR 0x8B, CHR 0x88, CHR 0xEB, CHR 0x8B, CHR 0xA4]"

definition batch_current_reason :: string where
  "batch_current_reason = [CHR 0xED, CHR 0x98, CHR 0x84, CHR 0xEC, CHR 0x9E,
     CHR 0xAC] @ '' '' @ [CHR 0xEA, CHR 0xB2, CHR 0x80, CHR 0xED, CHR 0x86, CHR 0xA0, CHR 0xEC,
     CHR 0x99, CHR 0x80] @ '' '' @ [CHR 0xED, CHR 0x9B, CHR 0x84, CHR 0xEB, CHR 0xB3, CHR 0xB4,
     CHR 0xEB, CHR 0xA5, CHR 0xBC] @ '' '' @ [CHR 0xED, CHR 0x99, CHR 0x95, CHR 0xEC, CHR 0x9D,
     CHR 0xB8, CHR 0xED, CHR 0x95, CHR 0x9C] @ '' '' @ [CHR 0xEA, CHR 0xB0, CHR 0x90, CHR 0xEC,
     CHR 0x82, CHR 0xAC] @ '' '' @ [CHR 0xEC, CHR 0xA0, CHR 0x95, CHR 0xEB, CHR 0xB3, CHR 0xB4,
     CHR 0xEA, CHR 0xB0, CHR 0x80] @ '' '' @ [CHR 0xED, CHR 0x95, CHR 0x84, CHR 0xEC, CHR 0x9A,
     CHR 0x94, CHR 0xED, CHR 0x95, CHR 0xA9, CHR 0xEB, CHR 0x8B, CHR 0x88, CHR 0xEB, CHR 0x8B,
     CHR 0xA4]"

definition json_needed_reason :: string where
  "json_needed_reason = [CHR 0xEC, CHR 0x98, CHR 0xAC, CHR 0xEB, CHR 0xB0, CHR 0x94, CHR 0xEB,
     CHR 0xA5, CHR 0xB8] @ '' JSON'' @ [CHR 0xEC, CHR 0x9D, CHR 0xB4, CHR 0xEC, CHR 0x96,
     CHR 0xB4, CHR 0xEC, CHR 0x95, CHR 0xBC] @ '' '' @ [CHR 0xED, CHR 0x95, CHR 0xA9, CHR 0xEB,
     CHR 0x8B, CHR 0x88, CHR 0xEB, CHR 0x8B, CHR 0xA4]"

definition automation_audit_reason :: string where
  "automation_audit_reason = [CHR 0xEC, CHR 0x9E, CHR 0x90, CHR 0xEB, CHR 0x8F,
     CHR 0x99] @ '' '' @ [CHR 0xEC, CHR 0xA4, CHR 0x91, CHR 0xEB, CHR 0xB3,
     CHR 0xB5] @ '' '' @ [CHR 0xED, CHR 0x8C, CHR 0x90, CHR 0xEC, CHR 0xA0,
     CHR 0x95] @ '' '' @ [CHR 0xEA, CHR 0xB0, CHR 0x90, CHR 0xEC, CHR 0x82,
     CHR 0xAC] @ '' '' @ [CHR 0xEC, CHR 0xA0, CHR 0x95, CHR 0xEB, CHR 0xB3, CHR 0xB4, CHR 0xEA,
     CHR 0xB0, CHR 0x80] @ '' '' @ [CHR 0xEC, CHR 0x98, CHR 0xAC, CHR 0xEB, CHR 0xB0, CHR 0x94,
     CHR 0xEB, CHR 0xA5, CHR 0xB4, CHR 0xEC, CHR 0xA7, CHR 0x80] @ '' '' @ [CHR 0xEC, CHR 0x95,
     CHR 0x8A, CHR 0xEC, CHR 0x8A, CHR 0xB5, CHR 0xEB, CHR 0x8B, CHR 0x88, CHR 0xEB, CHR 0x8B,
     CHR 0xA4]"

definition no_overlap_message :: string where
  "no_overlap_message = [CHR 0xEB, CHR 0x8B, CHR 0xA4, CHR 0xEC, CHR 0x9A, CHR 0xB4, CHR 0xEB,
     CHR 0xA1, CHR 0x9C, CHR 0xEB, CHR 0x93, CHR 0x9C] @ '' '' @ [CHR 0xED, CHR 0x8C, CHR 0x90,
     CHR 0xEB, CHR 0xB3, CHR 0xB8] @ '' '' @ [CHR 0xEC, CHR 0xA4, CHR 0x91, CHR 0xEB, CHR 0xB3,
     CHR 0xB5] @ '' '' @ [CHR 0xEA, CHR 0xB2, CHR 0x80, CHR 0xED, CHR 0x86, CHR 0xA0, CHR 0xEB,
     CHR 0xA5, CHR 0xBC] @ '' '' @ [CHR 0xEC, CHR 0xB0, CHR 0xBE, CHR 0xEC, CHR 0x9D,
     CHR 0x84] @ '' '' @ [CHR 0xEC, CHR 0x88, CHR 0x98] @ '' '' @ [CHR 0xEC, CHR 0x97,
     CHR 0x86, CHR 0xEC, CHR 0x8A, CHR 0xB5, CHR 0xEB, CHR 0x8B, CHR 0x88, CHR 0xEB, CHR 0x8B,
     CHR 0xA4] @ ''.''"

definition select_candidate_reason :: string where
  "select_candidate_reason = [CHR 0xEA, CHR 0xB2, CHR 0x80, CHR 0xED, CHR 0x86, CHR 0xA0,
     CHR 0xEC, CHR 0x97, CHR 0x90] @ '' '' @ [CHR 0xED, CHR 0x8F, CHR 0xAC, CHR 0xED, CHR 0x95,
     CHR 0xA8, CHR 0xEB, CHR 0x90, CHR 0x9C] @ '' '' @ [CHR 0xED, CHR 0x9B, CHR 0x84, CHR 0xEB,
     CHR 0xB3, CHR 0xB4, CHR 0xEB, CHR 0xA5, CHR 0xBC] @ '' '' @ [CHR 0xEC, CHR 0x84, CHR 0xA0,
     CHR 0xED, CHR 0x83, CHR 0x9D, CHR 0xED, CHR 0x95, CHR 0xB4, CHR 0xEC, CHR 0x95,
     CHR 0xBC] @ '' '' @ [CHR 0xED, CHR 0x95, CHR 0xA9, CHR 0xEB, CHR 0x8B, CHR 0x88, CHR 0xEB,
     CHR 0x8B, CHR 0xA4]"

definition not_contained_reason :: string where
  "not_contained_reason = [CHR 0xED, CHR 0x98, CHR 0x84, CHR 0xEC, CHR 0x9E,
     CHR 0xAC] @ '' '' @ [CHR 0xED, CHR 0x9B, CHR 0x84, CHR 0xEB, CHR 0xB3, CHR 0xB4, CHR 0xEA,
     CHR 0xB0, CHR 0x80] @ '' '' @ [CHR 0xED, CHR 0x99, CHR 0x95, CHR 0xEC, CHR 0x9D, CHR 0xB8,
     CHR 0xED, CHR 0x95, CHR 0x9C] @ '' '' @ [CHR 0xEC, CHR 0x99, CHR 0x84, CHR 0xEC, CHR 0xA0,
     CHR 0x84] @ '' '' @ [CHR 0xED, CHR 0x8F, CHR 0xAC, CHR 0xED, CHR 0x95, CHR 0xA8, CHR 0xEA,
     CHR 0xB4, CHR 0x80, CHR 0xEA, CHR 0xB3, CHR 0x84, CHR 0xEB, CHR 0xA5,
     CHR 0xBC] @ '' '' @ [CHR 0xEC, CHR 0xB6, CHR 0xA9, CHR 0xEC, CHR 0xA1, CHR 0xB1, CHR 0xED,
     CHR 0x95, CHR 0x98, CHR 0xEC, CHR 0xA7, CHR 0x80] @ '' '' @ [CHR 0xEC, CHR 0x95, CHR 0x8A,
     CHR 0xEC, CHR 0x8A, CHR 0xB5, CHR 0xEB, CHR 0x8B, CHR 0x88, CHR 0xEB, CHR 0x8B, CHR 0xA4]"

definition other_winner_reason :: string where
  "other_winner_reason = [CHR 0xED, CHR 0x99, CHR 0x95, CHR 0xEC, CHR 0x9D, CHR 0xB8, CHR 0xED,
     CHR 0x95, CHR 0x9C] @ '' '' @ [CHR 0xEB, CHR 0xB3, CHR 0xB4, CHR 0xEC, CHR 0xA1, CHR 0xB4,
     CHR 0xC2, CHR 0xB7, CHR 0xEC, CHR 0xA0, CHR 0x9C, CHR 0xEC, CHR 0x99,
     CHR 0xB8] @ '' '' @ [CHR 0xEC, CHR 0x95, CHR 0xA8, CHR 0xEB, CHR 0xB2, CHR 0x94, CHR 0xEC,
     CHR 0x9D, CHR 0xB4] @ '' '' @ [CHR 0xED, CHR 0x98, CHR 0x84, CHR 0xEC, CHR 0x9E,
     CHR 0xAC] @ '' '' @ [CHR 0xED, CHR 0x8C, CHR 0x90, CHR 0xEC, CHR 0xA0, CHR 0x95, CHR 0xEA,
     CHR 0xB3, CHR 0xBC] @ '' '' @ [CHR 0xEB, CHR 0x8B, CHR 0xA4, CHR 0xEB, CHR 0xA6, CHR 0x85,
     CHR 0xEB, CHR 0x8B, CHR 0x88, CHR 0xEB, CHR 0x8B, CHR 0xA4]"

definition keeper_changed_reason :: string where
  "keeper_changed_reason = [CHR 0xEB, CHR 0xB3, CHR 0xB4, CHR 0xEC, CHR 0xA1, CHR 0xB4,
     CHR 0xED, CHR 0x95, CHR 0xA0] @ '' '' @ [CHR 0xEC, CHR 0x95, CHR 0xA8, CHR 0xEB, CHR 0xB2,
     CHR 0x94, CHR 0xEC, CHR 0x9D, CHR 0x98] @ '' '' @ [CHR 0xED, CHR 0x98, CHR 0x84, CHR 0xEC,
     CHR 0x9E, CHR 0xAC] @ '' '' @ [CHR 0xEC, CHR 0x83, CHR 0x81, CHR 0xED, CHR 0x83, CHR 0x9C,
     CHR 0xEA, CHR 0xB0, CHR 0x80] @ '' '' @ [CHR 0xEB, CHR 0xB3, CHR 0x80, CHR 0xEA, CHR 0xB2,
     CHR 0xBD, CHR 0xEB, CHR 0x90, CHR 0x98, CHR 0xEC, CHR 0x96, CHR 0xB4] @ '' '' @ [CHR 0xEC,
     CHR 0x9D, CHR 0xBC, CHR 0xEA, CHR 0xB4, CHR 0x84] @ '' '' @ [CHR 0xEC, CHR 0xA0, CHR 0x95,
     CHR 0xEB, CHR 0xA6, CHR 0xAC, CHR 0xEB, CHR 0xA5, CHR 0xBC] @ '' '' @ [CHR 0xEC, CHR 0xA4,
     CHR 0x91, CHR 0xEB, CHR 0x8B, CHR 0xA8, CHR 0xED, CHR 0x96, CHR 0x88, CHR 0xEC, CHR 0x8A,
     CHR 0xB5, CHR 0xEB, CHR 0x8B, CHR 0x88, CHR 0xEB, CHR 0x8B, CHR 0xA4]"

definition chained_changed_reason :: string where
  "chained_changed_reason = [CHR 0xEA, CHR 0xB8, CHR 0xB0, CHR 0xEC, CHR 0xA1,
     CHR 0xB4] @ '' '' @ [CHR 0xEC, CHR 0x95, CHR 0xA8, CHR 0xEB, CHR 0xB2,
     CHR 0x94] @ '' A'' @ [CHR 0xEC, CHR 0x9D, CHR 0x98] @ '' '' @ [CHR 0xEA, CHR 0xB2,
     CHR 0x80, CHR 0xED, CHR 0x86, CHR 0xA0] @ '' '' @ [CHR 0xEC, CHR 0x83, CHR 0x81, CHR 0xED,
     CHR 0x83, CHR 0x9C, CHR 0xEA, CHR 0xB0, CHR 0x80] @ '' '' @ [CHR 0xEB, CHR 0xB3, CHR 0x80,
     CHR 0xEA, CHR 0xB2, CHR 0xBD, CHR 0xEB, CHR 0x90, CHR 0x98, CHR 0xEC, CHR 0x97, CHR 0x88,
     CHR 0xEC, CHR 0x8A, CHR 0xB5, CHR 0xEB, CHR 0x8B, CHR 0x88, CHR 0xEB, CHR 0x8B, CHR 0xA4]"

definition fixture_title :: string where
  "fixture_title = [CHR 0xEC, CHR 0x83, CHR 0x88, CHR 0xEB, CHR 0xA1,
     CHR 0x9C] @ '' '' @ [CHR 0xEB, CHR 0x82, CHR 0xB4, CHR 0xEB, CHR 0xA0, CHR 0xA4, CHR 0xEB,
     CHR 0xB0, CHR 0x9B, CHR 0xEC, CHR 0x9D, CHR 0x80] @ '' '' @ [CHR 0xED, CHR 0x8C, CHR 0x90,
     CHR 0xEB, CHR 0xB3, CHR 0xB8]"

definition fixture_existing_title :: string where
  "fixture_existing_title = [CHR 0xEA, CHR 0xB8, CHR 0xB0, CHR 0xEC, CHR 0xA1,
     CHR 0xB4] @ '' '' @ [CHR 0xEB, CHR 0xB3, CHR 0xB4, CHR 0xEC, CHR 0x9C,
     CHR 0xA0] @ '' '' @ [CHR 0xED, CHR 0x8C, CHR 0x90, CHR 0xEB, CHR 0xB3, CHR 0xB8] @ '' ''"

text \<open>The length of a string in UTF-16 units: a four-byte sequence is a surrogate pair.\<close>

definition utf16_length :: "string \<Rightarrow> nat" where
  "utf16_length t = sum_list (map (\<lambda>c. let b = (of_char c :: nat) in
     if 128 \<le> b \<and> b < 192 then 0 else if 240 \<le> b then 2 else 1) t)"

section \<open>The fixed review\<close>

definition fixture_overlap_pair :: "int \<Rightarrow> int \<Rightarrow> overlap_page_pair" where
  "fixture_overlap_pair index i =
     \<lparr>pp_incomingSourcePage = i + 1, pp_existingSourcePage = i + 2, pp_exactSha256 = (i < 2 \<and> index = 0),
      pp_dHashDistance = index + i, pp_pHashDistance = index + i + 1, pp_detailHashDistance = 8 + index + i,
      pp_edgeSimilarity = (94 - 3 * of_int index) / 100, pp_visualSimilarity = (97 - 3 * of_int index) / 100,
      pp_lowInformation = False\<rparr>"

definition fixture_overlap_candidate :: "string \<Rightarrow> int \<Rightarrow> overlap_relation \<Rightarrow> overlap_candidate" where
  "fixture_overlap_candidate reviewId index relation =
     \<lparr>oc_candidateId = reviewId @ ''-candidate-'' @ show_int (index + 1),
      oc_existing = \<lparr>or_entryId = ''browser-existing-entry-'' @ show_int (index + 1), or_galleryId = 4105000 + index,
        or_title = fixture_existing_title @ show_int (index + 1), or_artists = [''fixture artist''],
        or_pageCount = 20 + index\<rparr>,
      oc_existingFingerprint = ''browser-existing-fingerprint-'' @ show_int (index + 1), oc_relation = relation,
      oc_confidence = (96 - 3 * of_int index) / 100, oc_matchedPages = 18 - index * 2,
      oc_exactPages = max 0 (12 - index * 4), oc_visualPages = 6 + index * 2,
      oc_existingCoverage = (90 - 8 * of_int index) / 100, oc_incomingCoverage = (86 - 7 * of_int index) / 100,
      oc_existingUniquePages = 2 + index, oc_incomingUniquePages = 4 + index, oc_longestAlignedRun = 8 - index,
      oc_rank = index + 1, oc_decision = None, oc_pagePairs = map (fixture_overlap_pair index) [0, 1, 2, 3]\<rparr>"

definition fixture_created :: string where
  "fixture_created = ''2026-08-25T00:00:00.000Z''"

definition browserOverlapReview :: "string \<Rightarrow> overlap_review" where
  "browserOverlapReview reviewId =
     (let incoming = \<lparr>or_entryId = ''browser-incoming-entry'', or_galleryId = 4136275, or_title = fixture_title,
            or_artists = [''fixture artist''], or_pageCount = 24\<rparr>
      in \<lparr>rv_reviewId = reviewId, rv_entryId = or_entryId incoming, rv_incoming = incoming, rv_revision = 0,
          rv_state = RPending, rv_profileVersion = 1, rv_policyVersion = 1,
          rv_incomingFingerprint = ''browser-incoming-fingerprint'',
          rv_candidates = map (\<lambda>(i, r). fixture_overlap_candidate reviewId i r)
            [(0, NearEquivalent), (1, IncomingContainsExisting), (2, ExistingContainsIncoming), (3, PartialOverlap)],
          rv_decisions = None, rv_createdAt = fixture_created, rv_updatedAt = fixture_created, rv_resolvedAt = None\<rparr>)"

definition set_review :: "string \<Rightarrow> overlap_review \<Rightarrow> browser_backend \<Rightarrow> browser_backend" where
  "set_review i review s = s\<lparr>bb_downloadOverlapReviews := AList.update i review (bb_downloadOverlapReviews s)\<rparr>"

definition downloadOverlapReviewGet :: "string \<Rightarrow> browser_backend \<Rightarrow> overlap_review api_result \<times> browser_backend" where
  "downloadOverlapReviewGet reviewId s =
     (let normalizedId = trim reviewId in
      if normalizedId = [] then (Inl (validationError ''reviewId'' empty_reason), s)
      else
        let review = or_value (map_of (bb_downloadOverlapReviews s) normalizedId) (browserOverlapReview normalizedId)
        in (Inr review, set_review normalizedId review s))"

section \<open>The history of automatic decisions\<close>

record history_page =
  hp_page :: int
  hp_pageSize :: int
  hp_totalItems :: nat
  hp_unacknowledgedItems :: nat
  hp_items :: "automation_history_item list"

definition unacknowledged :: "automation_history_item \<Rightarrow> bool" where
  "unacknowledged item \<longleftrightarrow> or_value (ah_acknowledgedAt item) [] = []"

definition downloadOverlapAutomationHistoryList ::
  "(string \<Rightarrow> string \<Rightarrow> int) \<Rightarrow> js_num \<Rightarrow> js_num \<Rightarrow> browser_backend \<Rightarrow> history_page api_result" where
  "downloadOverlapAutomationHistoryList loc page pageSize s =
     (if \<not> is_integer page \<or> js_lt page (Num 1) then Inl (validationError ''request.page'' page_reason)
      else if \<not> is_integer pageSize \<or> js_lt pageSize (Num 1) \<or> js_lt (Num 200) pageSize
      then Inl (validationError ''request.pageSize'' page_size_reason)
      else
        let allItems = js_sort (\<lambda>x y. loc (ah_occurredAt y) (ah_occurredAt x)) (vals (bb_automationHistory s));
            size = id_of_num pageSize; start = (id_of_num page - 1) * size
        in Inr \<lparr>hp_page = id_of_num page, hp_pageSize = size, hp_totalItems = length allItems,
                hp_unacknowledgedItems = length (filter unacknowledged allItems),
                hp_items = Prelude.slice (nat start) (nat (start + size)) allItems\<rparr>)"

definition downloadOverlapAutomationHistoryAcknowledge ::
  "string \<Rightarrow> string \<Rightarrow> browser_backend \<Rightarrow> automation_history_item api_result \<times> browser_backend" where
  "downloadOverlapAutomationHistoryAcknowledge reviewId now s =
     (let normalizedId = trim reviewId in
      if normalizedId = [] then (Inl (validationError ''reviewId'' empty_reason), s)
      else case map_of (bb_automationHistory s) normalizedId of
             None \<Rightarrow> (Inl (notFoundError ''DOWNLOAD_OVERLAP_AUTOMATION_HISTORY_NOT_FOUND'' no_history_message
                        (Some [(''reviewId'', JStr normalizedId)])), s)
           | Some item \<Rightarrow>
               let acknowledged = (if unacknowledged item then item\<lparr>ah_acknowledgedAt := Some now\<rparr> else item)
               in (Inr acknowledged,
                   s\<lparr>bb_automationHistory := AList.update normalizedId acknowledged (bb_automationHistory s)\<rparr>))"

section \<open>Decisions\<close>

record overlap_decision_request =
  xq_reviewId :: string
  xq_expectedRevision :: int
  xq_action :: decision_action
  xq_candidateId :: "string option"
  xq_actor :: "decision_actor option"
  xq_reasonCode :: "string option"
  xq_ruleVersion :: "int option"
  xq_featureSnapshotJson :: "string option"

record overlap_decision_result =
  xr_review :: overlap_review
  xr_resumed :: bool
  xr_cancelled :: bool

text \<open>The id of a comparison of two completed albums stands behind a prefix.\<close>

definition pair_id :: "string \<Rightarrow> string option" where
  "pair_id reviewId =
     (if starts_with duplicate_prefix reviewId then Some (drop (length duplicate_prefix) reviewId) else None)"

definition entry_state :: "browser_backend \<Rightarrow> string \<Rightarrow> download_state option" where
  "entry_state s i = map_option de_state (map_of (bb_downloadEntries s) i)"

definition pair_action :: "decision_action \<Rightarrow> duplicate_action" where
  "pair_action act = (case act of
     RemoveExistingContinue \<Rightarrow> HideParent
   | RemoveIncoming \<Rightarrow> HideCandidate
   | _ \<Rightarrow> ExcludePair)"

fun continue_decision :: "decision_action \<Rightarrow> candidate_decision option" where
  "continue_decision KeepBothContinue = Some KeepBoth"
| "continue_decision FalsePositiveContinue = Some FalsePositive"
| "continue_decision RemoveExistingContinue = Some ExistingRemoved"
| "continue_decision RemoveIncoming = None"

definition pair_refusal :: "overlap_decision_request \<Rightarrow> string \<Rightarrow> duplicate_review \<Rightarrow> browser_backend \<Rightarrow> api_error option" where
  "pair_refusal request i old s =
     (let refs = [dc_parent (dw_candidate old), dc_candidate (dw_candidate old)] in
      if dc_revision (dw_candidate old) \<noteq> xq_expectedRevision request then Some (conflict ''duplicateCandidate'')
      else if xq_actor request = Some Automation \<or> xq_candidateId request \<noteq> Some i
              \<or> i \<in> set (bb_duplicateResolvedCandidates s)
              \<or> list_ex (\<lambda>r. entry_state s (dr_entryId r) \<noteq> Some Completed
                    \<or> dr_galleryId r \<in> set (bb_duplicateHiddenGalleryIds s)) refs
      then Some (validationError ''request'' manual_needed_reason)
      else None)"

definition cancel_removed :: "string \<Rightarrow> browser_backend \<Rightarrow> browser_backend" where
  "cancel_removed entryId s =
     (case map_of (bb_downloadEntries s) entryId of
        Some entry \<Rightarrow> set_entry (entry\<lparr>de_state := Cancelled, de_revision := de_revision entry + 1,
                        de_reviewId := None, de_reviewKind := None\<rparr>) s
      | None \<Rightarrow> s)"

definition pair_removal :: "duplicate_action \<Rightarrow> duplicate_candidate \<Rightarrow> browser_backend \<Rightarrow> browser_backend" where
  "pair_removal act c s = (case act of
     HideParent \<Rightarrow> cancel_removed (dr_entryId (dc_parent c)) s
   | HideCandidate \<Rightarrow> cancel_removed (dr_entryId (dc_candidate c)) s
   | _ \<Rightarrow> s)"

definition pair_decided :: "overlap_decision_request \<Rightarrow> string \<Rightarrow> string \<Rightarrow> duplicate_review \<Rightarrow> browser_backend \<Rightarrow>
    overlap_decision_result \<times> browser_backend" where
  "pair_decided request i now old s =
     (let base = completedPairReview old;
          review = base\<lparr>rv_revision := rv_revision base + 1,
            rv_state := (if xq_action request = RemoveIncoming then RCancelled else RResolved),
            rv_candidates := map (\<lambda>c. c\<lparr>oc_decision := continue_decision (xq_action request)\<rparr>) (rv_candidates base),
            rv_decisions := Some [\<lparr>oa_candidateId = Some i, oa_action = xq_action request, oa_actor = Human,
              oa_reasonCode = None, oa_ruleVersion = None, oa_featureSnapshotJson = None, oa_createdAt = now\<rparr>]\<rparr>
      in (\<lparr>xr_review = review, xr_resumed = False, xr_cancelled = False\<rparr>,
          set_review (xq_reviewId request) review (pair_removal (pair_action (xq_action request)) (dw_candidate old) s)))"

definition decide_pair ::
  "overlap_decision_request \<Rightarrow> string \<Rightarrow> string \<Rightarrow> browser_backend \<Rightarrow> overlap_decision_result api_result \<times> browser_backend" where
  "decide_pair request i now s =
     (case map_of (bb_duplicateReviews s) i of
        None \<Rightarrow> (Inl (notFoundError ''DUPLICATE_CANDIDATE_NOT_FOUND'' no_pair_message None), s)
      | Some old \<Rightarrow>
          (case pair_refusal request i old s of
             Some err \<Rightarrow> (Inl err, s)
           | None \<Rightarrow>
               (case duplicateDecisionApply \<lparr>dq_candidateId = i, dq_expectedRevision = xq_expectedRevision request,
                       dq_action = pair_action (xq_action request), dq_targetGalleryId = None, dq_seriesGroupId = None,
                       dq_seriesName = None\<rparr> now s of
                  (Inl err, s1) \<Rightarrow> (Inl err, s1)
                | (Inr _, s1) \<Rightarrow> (case pair_decided request i now old s1 of (r, s2) \<Rightarrow> (Inr r, s2)))))"

subsection \<open>What a decision must carry\<close>

definition manual_batch_code :: string where
  "manual_batch_code = ''manual_containment_batch_v1''"

definition manualContainmentBatch :: "overlap_decision_request \<Rightarrow> bool" where
  "manualContainmentBatch request \<longleftrightarrow>
     or_value (xq_actor request) Human = Human \<and> xq_reasonCode request = Some manual_batch_code"

definition removes :: "decision_action \<Rightarrow> bool" where
  "removes act \<longleftrightarrow> act = RemoveExistingContinue \<or> act = RemoveIncoming"

definition given :: "string option \<Rightarrow> bool" where
  "given x \<longleftrightarrow> or_value x [] \<noteq> []"

definition js_field :: "string \<Rightarrow> (string \<times> js_value) list \<Rightarrow> js_value" where
  "js_field name obj = (case map_of obj name of Some v \<Rightarrow> v | None \<Rightarrow> JUndef)"

text \<open>The feature snapshot read back: \<open>Inr\<close> the object, or the reason it is refused.\<close>

definition parsed_snapshot :: "(string \<Rightarrow> js_value option) \<Rightarrow> string option \<Rightarrow> api_error + (string \<times> js_value) list" where
  "parsed_snapshot parse json =
     (case parse (or_value json []) of
        None \<Rightarrow> Inl (validationError ''request.featureSnapshotJson'' json_needed_reason)
      | Some (JObj obj) \<Rightarrow> Inr obj
      | Some _ \<Rightarrow> Inl (validationError ''request.featureSnapshotJson'' object_needed_reason))"

definition batch_snapshot ::
  "(string \<Rightarrow> js_value option) \<Rightarrow> overlap_decision_request \<Rightarrow> api_error + (string \<times> js_value) list" where
  "batch_snapshot parse request =
     (if \<not> given (xq_candidateId request) \<or> xq_ruleVersion request \<noteq> Some 1 \<or> \<not> removes (xq_action request)
         \<or> \<not> given (xq_featureSnapshotJson request)
         \<or> utf16_length (or_value (xq_featureSnapshotJson request) []) > 65536
      then Inl (validationError ''request'' batch_audit_reason)
      else case parsed_snapshot parse (xq_featureSnapshotJson request) of
             Inl err \<Rightarrow> Inl err
           | Inr obj \<Rightarrow>
               if js_field ''rule'' obj \<noteq> JStr manual_batch_code \<or> js_field ''ruleVersion'' obj \<noteq> int_value 1
                  \<or> js_field ''reviewId'' obj \<noteq> JStr (xq_reviewId request)
                  \<or> js_field ''reviewRevision'' obj \<noteq> int_value (xq_expectedRevision request)
                  \<or> js_field ''candidateId'' obj \<noteq> JStr (or_value (xq_candidateId request) [])
               then Inl (validationError ''request.featureSnapshotJson'' batch_current_reason)
               else Inr obj)"

definition automation_refusal :: "(string \<Rightarrow> js_value option) \<Rightarrow> overlap_decision_request \<Rightarrow> api_error option" where
  "automation_refusal parse request =
     (if \<not> given (xq_candidateId request) \<or> \<not> removes (xq_action request)
         \<or> xq_reasonCode request \<noteq> Some ''balanced_overlap_v5'' \<or> xq_ruleVersion request \<noteq> Some 5
         \<or> \<not> given (xq_featureSnapshotJson request)
      then Some (validationError ''request'' automation_audit_reason)
      else case parsed_snapshot parse (xq_featureSnapshotJson request) of Inl err \<Rightarrow> Some err | Inr _ \<Rightarrow> None)"

subsection \<open>Applying a decision\<close>

definition available :: "overlap_gallery_ref \<Rightarrow> browser_backend \<Rightarrow> bool" where
  "available r s =
     (case map_of (bb_downloadEntries s) (or_entryId r) of
        None \<Rightarrow> False
      | Some entry \<Rightarrow>
          if de_galleryId entry \<noteq> or_galleryId r \<or> isDuplicateExplorationExcluded s (or_galleryId r) then False
          else if de_state entry = Completed then True
          else
            (case (if or_value (de_reviewId entry) [] = [] then None
                   else map_of (bb_downloadOverlapReviews s) (or_value (de_reviewId entry) [])) of
               None \<Rightarrow> False
             | Some current \<Rightarrow> de_state entry = ReviewRequired \<and> de_reviewKind entry = Some GalleryDuplicate
                 \<and> rv_state current = RPending \<and> rv_entryId current = or_entryId r
                 \<and> or_galleryId (rv_incoming current) = or_galleryId r))"

definition selected_candidate :: "overlap_decision_request \<Rightarrow> overlap_review \<Rightarrow> overlap_candidate option" where
  "selected_candidate request review = find (\<lambda>c. Some (oc_candidateId c) = xq_candidateId request) (rv_candidates review)"

definition expected_winner :: "decision_action \<Rightarrow> strict_winner" where
  "expected_winner act = (if act = RemoveIncoming then WinExisting else WinIncoming)"

definition batch_refusal :: "(string \<Rightarrow> string) \<Rightarrow> overlap_decision_request \<Rightarrow> (string \<times> js_value) list \<Rightarrow>
    overlap_review \<Rightarrow> browser_backend \<Rightarrow> api_error option" where
  "batch_refusal nfkc request snapshot review s =
     (case selected_candidate request review of
        None \<Rightarrow> Some (validationError ''request.candidateId'' not_contained_reason)
      | Some c \<Rightarrow>
          let winner = expected_winner (xq_action request);
              contained = (case strictCandidateEvaluation nfkc review c of
                  Some ev \<Rightarrow> ce_decisionPath ev = CompleteContainment \<and> ce_winner ev = winner
                | None \<Rightarrow> False);
              keeper = (if winner = WinIncoming then rv_incoming review else oc_existing c);
              excluded = (if winner = WinIncoming then oc_existing c else rv_incoming review)
          in if rv_state review \<noteq> RPending \<or> oc_decision c \<noteq> None \<or> \<not> contained
             then Some (validationError ''request.candidateId'' not_contained_reason)
             else if js_field ''keeperGalleryId'' snapshot \<noteq> int_value (or_galleryId keeper)
                \<or> js_field ''excludedGalleryId'' snapshot \<noteq> int_value (or_galleryId excluded)
             then Some (validationError ''request.featureSnapshotJson'' other_winner_reason)
             else if \<not> available (rv_incoming review) s \<or> \<not> available keeper s
             then Some (validationError ''request.candidateId'' keeper_changed_reason)
             else None)"

text \<open>The entry of the edition a decision removes, and the review that entry itself waits for.\<close>

definition removed_entry :: "overlap_decision_request \<Rightarrow> overlap_review \<Rightarrow> browser_backend \<Rightarrow> download_entry option" where
  "removed_entry request review s =
     (if xq_action request = RemoveExistingContinue
      then case selected_candidate request review of
             Some c \<Rightarrow> map_of (bb_downloadEntries s) (or_entryId (oc_existing c))
           | None \<Rightarrow> None
      else None)"

definition chained_review ::
  "overlap_decision_request \<Rightarrow> download_entry option \<Rightarrow> browser_backend \<Rightarrow> overlap_review option" where
  "chained_review request existing s =
     (case existing of
        None \<Rightarrow> None
      | Some e \<Rightarrow>
          let rid = or_value (de_reviewId e) []
          in if de_state e = ReviewRequired \<and> de_reviewKind e = Some GalleryDuplicate \<and> rid \<noteq> []
                \<and> rid \<noteq> xq_reviewId request
             then map_of (bb_downloadOverlapReviews s) rid else None)"

definition chained_changed :: "download_entry option \<Rightarrow> overlap_review option \<Rightarrow> bool" where
  "chained_changed existing chained =
     (case existing of
        None \<Rightarrow> False
      | Some e \<Rightarrow> de_state e = ReviewRequired
          \<and> (case chained of None \<Rightarrow> True | Some r \<Rightarrow> rv_state r \<noteq> RPending \<or> rv_entryId r \<noteq> de_entryId e))"

definition decided_candidate :: "overlap_decision_request \<Rightarrow> browser_backend \<Rightarrow> overlap_candidate \<Rightarrow> overlap_candidate" where
  "decided_candidate request s c =
     (if oc_decision c \<noteq> None then c
      else if Some (oc_candidateId c) \<noteq> xq_candidateId request
      then (if entry_state s (or_entryId (oc_existing c)) = Some Quarantined
            then c\<lparr>oc_decision := Some ExistingRemoved\<rparr> else c)
      else c\<lparr>oc_decision := continue_decision (xq_action request)\<rparr>)"

definition decision_audit :: "overlap_decision_request \<Rightarrow> string \<Rightarrow> overlap_decision_audit" where
  "decision_audit request now =
     \<lparr>oa_candidateId = (if given (xq_candidateId request) then xq_candidateId request else None),
      oa_action = xq_action request, oa_actor = or_value (xq_actor request) Human,
      oa_reasonCode = (if given (xq_reasonCode request) then xq_reasonCode request else None),
      oa_ruleVersion = xq_ruleVersion request,
      oa_featureSnapshotJson = (if given (xq_featureSnapshotJson request) then xq_featureSnapshotJson request else None),
      oa_createdAt = now\<rparr>"

definition undecided :: "overlap_review \<Rightarrow> bool" where
  "undecided review \<longleftrightarrow> list_ex (\<lambda>c. oc_decision c = None) (rv_candidates review)"

definition next_review :: "overlap_decision_request \<Rightarrow> string \<Rightarrow> overlap_review \<Rightarrow> browser_backend \<Rightarrow> overlap_review" where
  "next_review request now review s =
     (let remaining = map (decided_candidate request s) (rv_candidates review);
          waiting = list_ex (\<lambda>c. oc_decision c = None) remaining
      in review\<lparr>rv_revision := rv_revision review + 1,
           rv_state := (if xq_action request = RemoveIncoming then RCancelled else if waiting then RPending else RResolved),
           rv_candidates := remaining,
           rv_decisions := Some (or_value (rv_decisions review) [] @ [decision_audit request now]),
           rv_updatedAt := now,
           rv_resolvedAt := (if waiting then rv_resolvedAt review else Some now)\<rparr>)"

definition record_automation ::
  "string \<Rightarrow> automation_history_item \<Rightarrow> browser_backend \<Rightarrow> browser_backend" where
  "record_automation reviewId item s = s\<lparr>bb_automationHistory := AList.update reviewId item (bb_automationHistory s)\<rparr>"

definition history_item ::
  "overlap_review \<Rightarrow> string \<Rightarrow> review_state \<Rightarrow> bool \<Rightarrow> bool \<Rightarrow> gallery_id option \<Rightarrow> automation_history_item option \<Rightarrow> automation_history_item" where
  "history_item review now state incoming existing removed old =
     (let known = (case old of Some h \<Rightarrow> ah_removedGalleryIds h | None \<Rightarrow> []);
          cnt = (\<lambda>f. case old of Some h \<Rightarrow> f h | None \<Rightarrow> (0 :: int))
      in \<lparr>ah_reviewId = rv_reviewId review, ah_incomingGalleryId = or_galleryId (rv_incoming review),
          ah_title = or_title (rv_incoming review), ah_occurredAt = now, ah_reviewState = state,
          ah_removeIncomingCount = cnt ah_removeIncomingCount + of_bool incoming,
          ah_removeExistingCount = cnt ah_removeExistingCount + of_bool existing,
          ah_removedGalleryIds = (case removed of Some g \<Rightarrow> set_from (known @ [g]) | None \<Rightarrow> known),
          ah_acknowledgedAt = None\<rparr>)"

definition note_automation ::
  "overlap_decision_request \<Rightarrow> overlap_review \<Rightarrow> overlap_review \<Rightarrow> browser_backend \<Rightarrow> browser_backend" where
  "note_automation request review next s =
     (if xq_actor request \<noteq> Some Automation then s
      else
        let removed = (if xq_action request = RemoveIncoming then Some (or_galleryId (rv_incoming review))
              else map_option (\<lambda>c. or_galleryId (oc_existing c)) (selected_candidate request review))
        in record_automation (xq_reviewId request)
             ((history_item review (rv_updatedAt next) (rv_state next) (xq_action request = RemoveIncoming)
                (xq_action request = RemoveExistingContinue) removed
                (map_of (bb_automationHistory s) (xq_reviewId request)))\<lparr>ah_reviewId := xq_reviewId request\<rparr>) s)"

definition withdrawn :: "download_entry \<Rightarrow> download_entry" where
  "withdrawn e = e\<lparr>de_state := Cancelled, de_reviewKind := None, de_reviewId := None\<rparr>"

text \<open>What becomes of the entry of a removed edition, in each state it can be in.\<close>

definition settle_existing :: "download_entry \<Rightarrow> overlap_review option \<Rightarrow> string \<Rightarrow> browser_backend \<Rightarrow> browser_backend" where
  "settle_existing e chained now s =
     (if de_state e = ReviewRequired \<and> chained \<noteq> None
      then case chained of
             Some r \<Rightarrow> set_entry ((withdrawn e)\<lparr>de_revision := de_revision e + 1\<rparr>)
               (set_review (rv_reviewId r) (r\<lparr>rv_revision := rv_revision r + 1, rv_state := RCancelled,
                  rv_updatedAt := now, rv_resolvedAt := Some now\<rparr>) s)
           | None \<Rightarrow> s
      else if de_state e = Completed then set_entry (e\<lparr>de_revision := de_revision e + 1, de_state := Quarantined\<rparr>) s
      else if de_state e \<in> {Failed, Interrupted, Cancelled}
      then set_entry ((withdrawn e)\<lparr>de_revision := de_revision e + (if de_state e = Cancelled then 0 else 1)\<rparr>) s
      else s)"

definition remove_existing ::
  "overlap_decision_request \<Rightarrow> overlap_review \<Rightarrow> download_entry option \<Rightarrow> overlap_review option \<Rightarrow> string \<Rightarrow> browser_backend \<Rightarrow> browser_backend" where
  "remove_existing request review existing chained now s =
     (case (selected_candidate request review, existing) of
        (Some c, Some e) \<Rightarrow>
          if xq_action request = RemoveExistingContinue
          then settle_existing e chained now (hide_gallery (or_galleryId (oc_existing c)) s) else s
      | _ \<Rightarrow> s)"

text \<open>The download that waited goes on, or is given up.\<close>

definition finish_review :: "bool \<Rightarrow> bool \<Rightarrow> string \<Rightarrow> browser_backend \<Rightarrow> browser_backend" where
  "finish_review cancelled waiting entryId s =
     (case map_of (bb_downloadEntries s) entryId of
        None \<Rightarrow> s
      | Some entry \<Rightarrow>
          if cancelled \<or> \<not> waiting
          then s\<lparr>bb_downloadEntries := AList.update entryId
                 (entry\<lparr>de_revision := de_revision entry + 1, de_state := (if cancelled then Cancelled else Queued),
                        de_reviewKind := None, de_reviewId := None\<rparr>) (bb_downloadEntries s)\<rparr>
          else s)"

definition decision_checks :: "(string \<Rightarrow> js_value option) \<Rightarrow> (string \<Rightarrow> string) \<Rightarrow> overlap_decision_request \<Rightarrow>
    overlap_review \<Rightarrow> browser_backend \<Rightarrow> api_error option" where
  "decision_checks parse nfkc request review s =
     (if rv_revision review \<noteq> xq_expectedRevision request then Some (conflict ''downloadOverlapReview'')
      else
        let selected = selected_candidate request review;
            existing = removed_entry request review s;
            chained = chained_review request existing s
        in if xq_action request \<noteq> RemoveIncoming
              \<and> (case selected of None \<Rightarrow> True | Some c \<Rightarrow> oc_decision c \<noteq> None)
           then Some (validationError ''request.candidateId'' select_candidate_reason)
           else case (if manualContainmentBatch request
                      then (case batch_snapshot parse request of
                              Inr snapshot \<Rightarrow> batch_refusal nfkc request snapshot review s
                            | Inl err \<Rightarrow> Some err)
                      else None) of
                  Some err \<Rightarrow> Some err
                | None \<Rightarrow>
                    if chained_changed existing chained
                    then Some (validationError ''request.candidateId'' chained_changed_reason) else None)"

text \<open>What is checked before the review is looked up.\<close>

definition request_refusal ::
  "(string \<Rightarrow> js_value option) \<Rightarrow> overlap_decision_request \<Rightarrow> api_error option" where
  "request_refusal parse request =
     (case (if manualContainmentBatch request
            then (case batch_snapshot parse request of Inl err \<Rightarrow> Some err | Inr _ \<Rightarrow> None) else None) of
        Some err \<Rightarrow> Some err
      | None \<Rightarrow> if xq_actor request = Some Automation then automation_refusal parse request else None)"

definition apply_decision ::
  "overlap_decision_request \<Rightarrow> string \<Rightarrow> overlap_review \<Rightarrow> browser_backend \<Rightarrow> overlap_decision_result \<times> browser_backend" where
  "apply_decision request now review s =
     (let existing = removed_entry request review s;
          chained = chained_review request existing s;
          next = next_review request now review s;
          waiting = undecided next;
          cancelled = (xq_action request = RemoveIncoming);
          s1 = note_automation request review next (set_review (xq_reviewId request) next s);
          s2 = (if cancelled then hide_gallery (or_galleryId (rv_incoming review)) s1 else s1);
          s3 = remove_existing request review existing chained now s2
      in (\<lparr>xr_review = next, xr_resumed = (\<not> cancelled \<and> \<not> waiting), xr_cancelled = cancelled\<rparr>,
          finish_review cancelled waiting (rv_entryId review) s3))"

definition downloadOverlapDecisionApply :: "(string \<Rightarrow> js_value option) \<Rightarrow> (string \<Rightarrow> string) \<Rightarrow>
    overlap_decision_request \<Rightarrow> string \<Rightarrow> browser_backend \<Rightarrow> overlap_decision_result api_result \<times> browser_backend" where
  "downloadOverlapDecisionApply parse nfkc request now s =
     (case pair_id (xq_reviewId request) of
        Some i \<Rightarrow> decide_pair request i now s
      | None \<Rightarrow>
          (case request_refusal parse request of
             Some err \<Rightarrow> (Inl err, s)
           | None \<Rightarrow>
               (case map_of (bb_downloadOverlapReviews s) (xq_reviewId request) of
                  None \<Rightarrow> (Inl (notFoundError ''DOWNLOAD_OVERLAP_REVIEW_NOT_FOUND'' no_overlap_message
                             (Some [(''reviewId'', JStr (xq_reviewId request))])), s)
                | Some review \<Rightarrow>
                    (case decision_checks parse nfkc request review s of
                       Some err \<Rightarrow> (Inl err, s)
                     | None \<Rightarrow> (case apply_decision request now review s of (r, s1) \<Rightarrow> (Inr r, s1))))))"

section \<open>Merging two editions\<close>

definition no_review_message :: string where
  "no_review_message = [CHR 0xEB, CHR 0x8B, CHR 0xA4, CHR 0xEC, CHR 0x9A, CHR 0xB4, CHR 0xEB,
     CHR 0xA1, CHR 0x9C, CHR 0xEB, CHR 0x93, CHR 0x9C] @ '' '' @ [CHR 0xED, CHR 0x8C, CHR 0x90,
     CHR 0xEB, CHR 0xB3, CHR 0xB8] @ '' '' @ [CHR 0xEA, CHR 0xB2, CHR 0x80, CHR 0xED, CHR 0x86,
     CHR 0xA0, CHR 0xEB, CHR 0xA5, CHR 0xBC] @ '' '' @ [CHR 0xEC, CHR 0xB0, CHR 0xBE, CHR 0xEC,
     CHR 0x9D, CHR 0x84] @ '' '' @ [CHR 0xEC, CHR 0x88, CHR 0x98] @ '' '' @ [CHR 0xEC,
     CHR 0x97, CHR 0x86, CHR 0xEC, CHR 0x8A, CHR 0xB5, CHR 0xEB, CHR 0x8B, CHR 0x88, CHR 0xEB,
     CHR 0x8B, CHR 0xA4] @ ''.''"

definition two_completed_reason :: string where
  "two_completed_reason = [CHR 0xED, CHR 0x98, CHR 0x84, CHR 0xEC, CHR 0x9E,
     CHR 0xAC] @ '' '' @ [CHR 0xEC, CHR 0x99, CHR 0x84, CHR 0xEB, CHR 0xA3, CHR 0x8C, CHR 0xEB,
     CHR 0x90, CHR 0x9C] @ '' '' @ [CHR 0xEB, CHR 0x91, CHR 0x90] @ '' '' @ [CHR 0xEC,
     CHR 0x95, CHR 0xA8, CHR 0xEB, CHR 0xB2, CHR 0x94, CHR 0xEC, CHR 0x9D,
     CHR 0x84] @ '' '' @ [CHR 0xEC, CHR 0x84, CHR 0xA0, CHR 0xED, CHR 0x83, CHR 0x9D, CHR 0xED,
     CHR 0x95, CHR 0xB4, CHR 0xEC, CHR 0x95, CHR 0xBC] @ '' '' @ [CHR 0xED, CHR 0x95, CHR 0xA9,
     CHR 0xEB, CHR 0x8B, CHR 0x88, CHR 0xEB, CHR 0x8B, CHR 0xA4]"

definition one_side_reason :: string where
  "one_side_reason = [CHR 0xED, CHR 0x98, CHR 0x84, CHR 0xEC, CHR 0x9E,
     CHR 0xAC] @ '' '' @ [CHR 0xEA, CHR 0xB2, CHR 0x80, CHR 0xED, CHR 0x86, CHR 0xA0, CHR 0xEC,
     CHR 0x9D, CHR 0x98] @ '' '' @ [CHR 0xED, CHR 0x95, CHR 0x9C, CHR 0xEC, CHR 0xAA,
     CHR 0xBD] @ '' '' @ [CHR 0xED, CHR 0x8E, CHR 0x98, CHR 0xEC, CHR 0x9D, CHR 0xB4, CHR 0xEC,
     CHR 0xA7, CHR 0x80, CHR 0xEB, CHR 0xA5, CHR 0xBC] @ '' '' @ [CHR 0xEC, CHR 0x84, CHR 0xA0,
     CHR 0xED, CHR 0x83, CHR 0x9D, CHR 0xED, CHR 0x95, CHR 0xB4, CHR 0xEC, CHR 0x95,
     CHR 0xBC] @ '' '' @ [CHR 0xED, CHR 0x95, CHR 0xA9, CHR 0xEB, CHR 0x8B, CHR 0x88, CHR 0xEB,
     CHR 0x8B, CHR 0xA4]"

definition merge_state_reason :: string where
  "merge_state_reason = [CHR 0xEB, CHR 0xB3, CHR 0x91, CHR 0xED, CHR 0x95, CHR 0xA9, CHR 0xED,
     CHR 0x95, CHR 0xA0] @ '' '' @ [CHR 0xEC, CHR 0x95, CHR 0xA8, CHR 0xEB, CHR 0xB2, CHR 0x94,
     CHR 0xEC, CHR 0x9D, CHR 0x98] @ '' '' @ [CHR 0xEC, CHR 0x83, CHR 0x81, CHR 0xED, CHR 0x83,
     CHR 0x9C, CHR 0xEA, CHR 0xB0, CHR 0x80] @ '' '' @ [CHR 0xEB, CHR 0xB3, CHR 0x80, CHR 0xEA,
     CHR 0xB2, CHR 0xBD, CHR 0xEB, CHR 0x90, CHR 0x98, CHR 0xEC, CHR 0x97, CHR 0x88, CHR 0xEC,
     CHR 0x8A, CHR 0xB5, CHR 0xEB, CHR 0x8B, CHR 0x88, CHR 0xEB, CHR 0x8B, CHR 0xA4]"

definition automatic_merge_reason :: string where
  "automatic_merge_reason = [CHR 0xEC, CHR 0x99, CHR 0x84, CHR 0xEC, CHR 0xA0,
     CHR 0x84] @ '' '' @ [CHR 0xED, CHR 0x8F, CHR 0xAC, CHR 0xED, CHR 0x95, CHR 0xA8, CHR 0xEB,
     CHR 0x90, CHR 0x9C] @ '' '' @ [CHR 0xEB, CHR 0xAC, CHR 0xB4, CHR 0xEA, CHR 0xB2, CHR 0x80,
     CHR 0xEC, CHR 0x97, CHR 0xB4, CHR 0xED, CHR 0x8C, CHR 0x90, CHR 0xEC, CHR 0x9D,
     CHR 0x98] @ '' '' @ [CHR 0xEC, CHR 0xA0, CHR 0x84, CHR 0xEC, CHR 0xB2,
     CHR 0xB4] @ '' '' @ [CHR 0xED, CHR 0x8E, CHR 0x98, CHR 0xEC, CHR 0x9D, CHR 0xB4, CHR 0xEC,
     CHR 0xA7, CHR 0x80, CHR 0xEB, CHR 0xA7, CHR 0x8C] @ '' '' @ [CHR 0xEC, CHR 0x9E, CHR 0x90,
     CHR 0xEB, CHR 0x8F, CHR 0x99] @ '' '' @ [CHR 0xEB, CHR 0xB3, CHR 0x91, CHR 0xED, CHR 0x95,
     CHR 0xA9, CHR 0xED, CHR 0x95, CHR 0xA0] @ '' '' @ [CHR 0xEC, CHR 0x88,
     CHR 0x98] @ '' '' @ [CHR 0xEC, CHR 0x9E, CHR 0x88, CHR 0xEC, CHR 0x8A, CHR 0xB5, CHR 0xEB,
     CHR 0x8B, CHR 0x88, CHR 0xEB, CHR 0x8B, CHR 0xA4]"

definition donor_changed_reason :: string where
  "donor_changed_reason = [CHR 0xEC, CHR 0x84, CHR 0xA0, CHR 0xED, CHR 0x83, CHR 0x9D,
     CHR 0xED, CHR 0x95, CHR 0x9C] @ '' '' @ [CHR 0xEC, CHR 0xA0, CHR 0x9C, CHR 0xEA, CHR 0xB3,
     CHR 0xB5] @ '' '' @ [CHR 0xED, CHR 0x8E, CHR 0x98, CHR 0xEC, CHR 0x9D, CHR 0xB4, CHR 0xEC,
     CHR 0xA7, CHR 0x80, CHR 0xEA, CHR 0xB0, CHR 0x80] @ '' '' @ [CHR 0xEB, CHR 0xB3, CHR 0x80,
     CHR 0xEA, CHR 0xB2, CHR 0xBD, CHR 0xEB, CHR 0x90, CHR 0x98, CHR 0xEC, CHR 0x97, CHR 0x88,
     CHR 0xEC, CHR 0x8A, CHR 0xB5, CHR 0xEB, CHR 0x8B, CHR 0x88, CHR 0xEB, CHR 0x8B, CHR 0xA4]"

definition one_to_one_reason :: string where
  "one_to_one_reason = [CHR 0xEC, CHR 0x9D, CHR 0xBC, CHR 0xEB, CHR 0x8C, CHR 0x80, CHR 0xEC,
     CHR 0x9D, CHR 0xBC] @ '' '' @ [CHR 0xEB, CHR 0x8C, CHR 0x80, CHR 0xEC, CHR 0x9D, CHR 0x91,
     CHR 0xEC, CHR 0x9D, CHR 0xB4] @ '' '' @ [CHR 0xED, CHR 0x99, CHR 0x95, CHR 0xEC, CHR 0x9D,
     CHR 0xB8, CHR 0xEB, CHR 0x90, CHR 0x9C] @ '' '' @ [CHR 0xED, CHR 0x8E, CHR 0x98, CHR 0xEC,
     CHR 0x9D, CHR 0xB4, CHR 0xEC, CHR 0xA7, CHR 0x80, CHR 0xEB, CHR 0xA7,
     CHR 0x8C] @ '' '' @ [CHR 0xEB, CHR 0xB3, CHR 0x91, CHR 0xED, CHR 0x95, CHR 0xA9, CHR 0xED,
     CHR 0x95, CHR 0xA0] @ '' '' @ [CHR 0xEC, CHR 0x88, CHR 0x98] @ '' '' @ [CHR 0xEC,
     CHR 0x9E, CHR 0x88, CHR 0xEC, CHR 0x8A, CHR 0xB5, CHR 0xEB, CHR 0x8B, CHR 0x88, CHR 0xEB,
     CHR 0x8B, CHR 0xA4]"

definition pairs_unknown_reason :: string where
  "pairs_unknown_reason = [CHR 0xEC, CHR 0x9B, CHR 0x90, CHR 0xEB, CHR 0xB3,
     CHR 0xB8] @ '' '' @ [CHR 0xEC, CHR 0xA0, CHR 0x84, CHR 0xEC, CHR 0xB2,
     CHR 0xB4] @ '' '' @ [CHR 0xED, CHR 0x8E, CHR 0x98, CHR 0xEC, CHR 0x9D, CHR 0xB4, CHR 0xEC,
     CHR 0xA7, CHR 0x80, CHR 0xEC, CHR 0x9D, CHR 0x98] @ '' '' @ [CHR 0xEB, CHR 0x8C, CHR 0x80,
     CHR 0xEC, CHR 0x9D, CHR 0x91, CHR 0xEC, CHR 0x9D, CHR 0x84] @ '' '' @ [CHR 0xED, CHR 0x99,
     CHR 0x95, CHR 0xEC, CHR 0x9D, CHR 0xB8, CHR 0xED, CHR 0x95, CHR 0xA0] @ '' '' @ [CHR 0xEC,
     CHR 0x88, CHR 0x98] @ '' '' @ [CHR 0xEC, CHR 0x97, CHR 0x86, CHR 0xEC, CHR 0x8A, CHR 0xB5,
     CHR 0xEB, CHR 0x8B, CHR 0x88, CHR 0xEB, CHR 0x8B, CHR 0xA4]"

definition source_only_reason :: string where
  "source_only_reason = [CHR 0xEC, CHR 0x9B, CHR 0x90, CHR 0xEB, CHR 0xB3, CHR 0xB8, CHR 0xEC,
     CHR 0x97, CHR 0x90, CHR 0xEB, CHR 0xA7, CHR 0x8C] @ '' '' @ [CHR 0xEC, CHR 0x9E, CHR 0x88,
     CHR 0xEB, CHR 0x8A, CHR 0x94] @ '' '' @ [CHR 0xED, CHR 0x8E, CHR 0x98, CHR 0xEC, CHR 0x9D,
     CHR 0xB4, CHR 0xEC, CHR 0xA7, CHR 0x80, CHR 0xEA, CHR 0xB0, CHR 0x80] @ '' '' @ [CHR 0xEC,
     CHR 0x9E, CHR 0x88, CHR 0xEC, CHR 0x96, CHR 0xB4] @ '' '' @ [CHR 0xEC, CHR 0xA0, CHR 0x9C,
     CHR 0xEC, CHR 0x99, CHR 0xB8, CHR 0xED, CHR 0x95, CHR 0x98, CHR 0xEB, CHR 0xA9,
     CHR 0xB0] @ '' '' @ [CHR 0xEB, CHR 0xB3, CHR 0x91, CHR 0xED, CHR 0x95, CHR 0xA9, CHR 0xED,
     CHR 0x95, CHR 0xA0] @ '' '' @ [CHR 0xEC, CHR 0x88, CHR 0x98] @ '' '' @ [CHR 0xEC,
     CHR 0x97, CHR 0x86, CHR 0xEC, CHR 0x8A, CHR 0xB5, CHR 0xEB, CHR 0x8B, CHR 0x88, CHR 0xEB,
     CHR 0x8B, CHR 0xA4]"

fun merge_error_text :: "merge_error \<Rightarrow> string" where
  "merge_error_text CountsChanged = counts_changed_text"
| "merge_error_text OrderInvalid = order_invalid_text"
| "merge_error_text SelectionInvalid = selection_invalid_text"
| "merge_error_text BothSelected = both_selected_text"

record overlap_merge_result =
  mg_mergeId :: string
  mg_sourceGalleryId :: gallery_id
  mg_targetGalleryId :: gallery_id
  mg_replacedPages :: int
  mg_addedPages :: int
  mg_backupPath :: string
  mg_affectedReviewIds :: "string list"
  mg_sourceExcluded :: bool

definition flag :: "bool option \<Rightarrow> bool" where
  "flag x = or_value x False"

definition source_ref :: "merge_side \<Rightarrow> overlap_review \<Rightarrow> overlap_candidate \<Rightarrow> overlap_gallery_ref" where
  "source_ref side review c = (case side of MExisting \<Rightarrow> oc_existing c | MIncoming \<Rightarrow> rv_incoming review)"

definition target_ref :: "merge_side \<Rightarrow> overlap_review \<Rightarrow> overlap_candidate \<Rightarrow> overlap_gallery_ref" where
  "target_ref side = source_ref (other_side side)"

text \<open>A comparison of two completed albums is turned into a review first.\<close>

definition merge_pair_refusal ::
  "overlap_merge_request \<Rightarrow> string \<Rightarrow> browser_backend \<Rightarrow> api_error + duplicate_review" where
  "merge_pair_refusal request i s =
     (case map_of (bb_duplicateReviews s) i of
        None \<Rightarrow> Inl (notFoundError ''DUPLICATE_CANDIDATE_NOT_FOUND'' no_pair_message None)
      | Some old \<Rightarrow>
          if dc_revision (dw_candidate old) \<noteq> mr_expectedRevision request then Inl (conflict ''duplicateCandidate'')
          else if mr_candidateId request \<noteq> i \<or> i \<in> set (bb_duplicateResolvedCandidates s)
             \<or> list_ex (\<lambda>r. entry_state s (dr_entryId r) \<noteq> Some Completed)
                 [dc_parent (dw_candidate old), dc_candidate (dw_candidate old)]
          then Inl (validationError ''request'' two_completed_reason)
          else Inr old)"

definition prepare_pair :: "overlap_merge_request \<Rightarrow> browser_backend \<Rightarrow> api_error + browser_backend" where
  "prepare_pair request s =
     (case pair_id (mr_reviewId request) of
        None \<Rightarrow> Inr s
      | Some i \<Rightarrow>
          (case merge_pair_refusal request i s of
             Inl err \<Rightarrow> Inl err
           | Inr old \<Rightarrow> Inr (set_review (mr_reviewId request) (completedPairReview old) s)))"

definition merge_available :: "browser_backend \<Rightarrow> overlap_gallery_ref \<Rightarrow> bool" where
  "merge_available s r \<longleftrightarrow>
     (entry_state s (or_entryId r) = Some Completed \<or> entry_state s (or_entryId r) = Some ReviewRequired)
     \<and> or_galleryId r \<notin> set (bb_duplicateHiddenGalleryIds s)"

definition automation_merge_ok ::
  "(string \<Rightarrow> string) \<Rightarrow> overlap_merge_request \<Rightarrow> overlap_review \<Rightarrow> overlap_candidate \<Rightarrow> bool" where
  "automation_merge_ok nfkc request review c =
     (case automaticUncensoredMerge nfkc review c of
        None \<Rightarrow> False
      | Some automatic \<Rightarrow> mr_sourceSide automatic = mr_sourceSide request \<and> flag (mr_excludeSource request)
          \<and> mr_selectedPages request = None
          \<and> length (mr_sourcePages automatic) = length (mr_sourcePages request)
          \<and> set (mr_sourcePages automatic) \<subseteq> set (mr_sourcePages request))"

definition safe_page :: "int \<Rightarrow> int \<Rightarrow> bool" where
  "safe_page n p \<longleftrightarrow> \<bar>p\<bar> \<le> max_safe_integer \<and> 1 \<le> p \<and> p \<le> n"

text \<open>The places in the target that the source pages go to, one page after the other; \<open>None\<close> when a page has no
  counterpart of its own.\<close>

definition counterpart ::
  "merge_side \<Rightarrow> overlap_candidate \<Rightarrow> int \<Rightarrow> int \<Rightarrow> int list \<Rightarrow> int \<Rightarrow> int option" where
  "counterpart side c sourceCount targetCount taken page =
     (case filter (\<lambda>p. pair_page side p = page) (oc_pagePairs c) of
        [p] \<Rightarrow>
          let target = pair_page (other_side side) p
          in if safe_page sourceCount page \<and> safe_page targetCount target \<and> target \<notin> set taken
                \<and> length (filter (\<lambda>q. pair_page (other_side side) q = target) (oc_pagePairs c)) = 1
             then Some target else None
      | _ \<Rightarrow> None)"

fun counterparts ::
  "merge_side \<Rightarrow> overlap_candidate \<Rightarrow> int \<Rightarrow> int \<Rightarrow> int list \<Rightarrow> int list \<Rightarrow> int list option" where
  "counterparts side c sourceCount targetCount taken [] = Some taken"
| "counterparts side c sourceCount targetCount taken (page # pages) =
     (case counterpart side c sourceCount targetCount taken page of
        None \<Rightarrow> None
      | Some target \<Rightarrow> counterparts side c sourceCount targetCount (taken @ [target]) pages)"

text \<open>A map of counts, as the loop builds it.\<close>

definition count_page :: "(int \<times> nat) list \<Rightarrow> int \<Rightarrow> (int \<times> nat) list" where
  "count_page m p = AList.update p (or_value (map_of m p) 0 + 1) m"

definition source_covered :: "merge_side \<Rightarrow> overlap_candidate \<Rightarrow> int \<Rightarrow> int \<Rightarrow> api_error option" where
  "source_covered side c sourceCount targetCount =
     (if \<not> list_all (\<lambda>p. safe_page sourceCount (pair_page side p) \<and> safe_page targetCount (pair_page (other_side side) p))
           (oc_pagePairs c)
      then Some (validationError ''request.excludeSource'' pairs_unknown_reason)
      else
        let sourceCounts = foldl count_page [] (map (pair_page side) (oc_pagePairs c));
            targetCounts = foldl count_page [] (map (pair_page (other_side side)) (oc_pagePairs c))
        in if int (length sourceCounts) \<noteq> sourceCount \<or> list_ex (\<lambda>n. n \<noteq> 1) (vals sourceCounts @ vals targetCounts)
           then Some (validationError ''request.excludeSource'' source_only_reason) else None)"

text \<open>What is merged: the places written in the target, and how many pages it gains.\<close>

definition merge_plan :: "(string \<Rightarrow> string) \<Rightarrow> overlap_merge_request \<Rightarrow> overlap_review \<Rightarrow> overlap_candidate \<Rightarrow>
    api_error + int list \<times> int" where
  "merge_plan nfkc request review c =
     (let side = mr_sourceSide request;
          source = source_ref side review c; target = target_ref side review c
      in if flag (mr_automation request) \<and> \<not> automation_merge_ok nfkc request review c
         then Inl (validationError ''automation'' automatic_merge_reason)
         else case mr_selectedPages request of
           Some sel \<Rightarrow>
             let donor = selected_on side sel; cnt = length (ms_existing sel) + length (ms_incoming sel)
             in if cnt < 1 \<or> cnt > 4000 \<or> length donor \<noteq> length (mr_sourcePages request)
                   \<or> \<not> set donor \<subseteq> set (mr_sourcePages request)
                then Inl (validationError ''selectedPages'' donor_changed_reason)
                else case mergeOutputPages c (or_pageCount (rv_incoming review)) side (Some sel) of
                       Inl err \<Rightarrow> Inl (validationError ''selectedPages'' (''Error: '' @ merge_error_text err))
                     | Inr output \<Rightarrow>
                         Inr (map (\<lambda>i. int i + 1) (filter (\<lambda>i. fst (output ! i) = side) [0..<length output]),
                              int (length output) - or_pageCount target)
         | None \<Rightarrow>
             (case counterparts side c (or_pageCount source) (or_pageCount target) [] (mr_sourcePages request) of
                None \<Rightarrow> Inl (validationError ''request.sourcePages'' one_to_one_reason)
              | Some targets \<Rightarrow>
                  if flag (mr_excludeSource request)
                  then case source_covered side c (or_pageCount source) (or_pageCount target) of
                         Some err \<Rightarrow> Inl err | None \<Rightarrow> Inr (targets, 0)
                  else Inr (targets, 0)))"

definition merge_checks :: "(string \<Rightarrow> string) \<Rightarrow> overlap_merge_request \<Rightarrow> overlap_review \<Rightarrow> browser_backend \<Rightarrow>
    api_error + overlap_candidate \<times> int list \<times> int" where
  "merge_checks nfkc request review s =
     (if rv_revision review \<noteq> mr_expectedRevision request then Inl (conflict ''downloadOverlapReview'')
      else case find (\<lambda>c. oc_candidateId c = mr_candidateId request) (rv_candidates review) of
        None \<Rightarrow> Inl (validationError ''request'' one_side_reason)
      | Some c \<Rightarrow>
          let side = mr_sourceSide request;
              source = source_ref side review c; target = target_ref side review c
          in if rv_state review \<noteq> RPending \<or> oc_decision c \<noteq> None
                \<or> (mr_selectedPages request = None \<and> mr_sourcePages request = [])
                \<or> length (mr_sourcePages request) > 4000 \<or> \<not> distinct (mr_sourcePages request)
             then Inl (validationError ''request'' one_side_reason)
             else if or_entryId source = or_entryId target \<or> \<not> merge_available s source \<or> \<not> merge_available s target
             then Inl (validationError ''request'' merge_state_reason)
             else case merge_plan nfkc request review c of
                    Inl err \<Rightarrow> Inl err
                  | Inr plan \<Rightarrow> Inr (c, plan))"

subsection \<open>What a merge does to the other reviews\<close>

definition concerns :: "string \<Rightarrow> overlap_review \<Rightarrow> bool" where
  "concerns entryId record \<longleftrightarrow>
     rv_entryId record = entryId \<or> list_ex (\<lambda>c. or_entryId (oc_existing c) = entryId) (rv_candidates record)"

definition merge_affects :: "overlap_merge_request \<Rightarrow> string \<Rightarrow> string \<Rightarrow> overlap_review \<Rightarrow> bool" where
  "merge_affects request sourceId targetId record \<longleftrightarrow>
     rv_state record = RPending
     \<and> (concerns targetId record \<or> (flag (mr_excludeSource request) \<and> concerns sourceId record))"

definition affect_review ::
  "overlap_merge_request \<Rightarrow> string \<Rightarrow> string \<Rightarrow> browser_backend \<Rightarrow> string \<times> overlap_review \<Rightarrow> browser_backend" where
  "affect_review request sourceId targetId s kv =
     (case kv of (i, record) \<Rightarrow>
        if \<not> merge_affects request sourceId targetId record then s
        else
          let cancelled = (flag (mr_excludeSource request) \<and> rv_entryId record = sourceId);
              s1 = set_review i (record\<lparr>rv_state := (if cancelled then RCancelled else RStale),
                     rv_revision := rv_revision record + 1\<rparr>) s
          in case map_of (bb_downloadEntries s) (rv_entryId record) of
               None \<Rightarrow> s1
             | Some entry \<Rightarrow>
                 if \<not> cancelled \<and> de_state entry = ReviewRequired \<and> de_reviewId entry = Some i
                 then set_entry (entry\<lparr>de_state := Queued, de_revision := de_revision entry + 1,
                        de_reviewKind := None, de_reviewId := None\<rparr>) s1
                 else s1)"

definition outdate_pair :: "string \<Rightarrow> browser_backend \<Rightarrow> string \<times> duplicate_review \<Rightarrow> browser_backend" where
  "outdate_pair targetId s kv =
     (case kv of (i, old) \<Rightarrow>
        if targetId \<noteq> dr_entryId (dc_parent (dw_candidate old)) \<and> targetId \<noteq> dr_entryId (dc_candidate (dw_candidate old))
        then s
        else set_candidates (filter (\<lambda>c. dc_candidateId c \<noteq> i))
          (s\<lparr>bb_duplicateResolvedCandidates := set_add i (bb_duplicateResolvedCandidates s),
             bb_duplicateReviews := AList.update i (old\<lparr>dw_resolved := Some True, dw_artifactStale := Some True,
               dw_candidate := (dw_candidate old)\<lparr>dc_revision := dc_revision (dw_candidate old) + 1\<rparr>\<rparr>)
               (bb_duplicateReviews s)\<rparr>))"

definition bump_completed :: "string \<Rightarrow> browser_backend \<Rightarrow> browser_backend" where
  "bump_completed entryId s =
     (case map_of (bb_downloadEntries s) entryId of
        Some e \<Rightarrow> if de_state e = Completed then set_entry (e\<lparr>de_revision := de_revision e + 1\<rparr>) s else s
      | None \<Rightarrow> s)"

definition exclude_source :: "overlap_gallery_ref \<Rightarrow> browser_backend \<Rightarrow> browser_backend" where
  "exclude_source source s = cancel_removed (or_entryId source) (hide_gallery (or_galleryId source) s)"

definition merge_snapshot :: "merge_side \<Rightarrow> overlap_candidate \<Rightarrow> gallery_id \<Rightarrow> gallery_id \<Rightarrow> string \<Rightarrow> nat \<Rightarrow> string" where
  "merge_snapshot side c sourceGallery targetGallery mergeId places =
     ''{'' @ json_string ''preferenceReason'' @ '':'' @ json_string ''uncensored_merge''
     @ '','' @ json_string ''winner'' @ '':'' @ json_string (case side of MIncoming \<Rightarrow> ''existing'' | MExisting \<Rightarrow> ''incoming'')
     @ '','' @ json_string ''candidateId'' @ '':'' @ json_string (oc_candidateId c)
     @ '','' @ json_string ''sourceGalleryId'' @ '':'' @ show_int sourceGallery
     @ '','' @ json_string ''targetGalleryId'' @ '':'' @ show_int targetGallery
     @ '','' @ json_string ''mergeId'' @ '':'' @ json_string mergeId
     @ '','' @ json_string ''replacedPages'' @ '':'' @ show_nat places @ ''}''"

definition removed_by_merge :: "merge_side \<Rightarrow> overlap_candidate \<Rightarrow> overlap_candidate \<Rightarrow> overlap_candidate" where
  "removed_by_merge side c d =
     (if side = MExisting \<and> oc_candidateId d = oc_candidateId c then d\<lparr>oc_decision := Some ExistingRemoved\<rparr> else d)"

text \<open>A merge made by the automatic rule is noted as a decision. The review looked up is the one merged.\<close>

definition note_merge :: "overlap_merge_request \<Rightarrow> overlap_review \<Rightarrow> overlap_candidate \<Rightarrow> string \<Rightarrow> nat \<Rightarrow> string \<Rightarrow>
    browser_backend \<Rightarrow> browser_backend" where
  "note_merge request review c mergeId places now s =
     (let side = mr_sourceSide request;
          source = source_ref side review c; target = target_ref side review c
      in case map_of (bb_downloadOverlapReviews s) (rv_reviewId review) of
           None \<Rightarrow> s
         | Some updated \<Rightarrow>
             let audit = \<lparr>oa_candidateId = Some (oc_candidateId c),
                   oa_action = (case side of MIncoming \<Rightarrow> RemoveIncoming | MExisting \<Rightarrow> RemoveExistingContinue),
                   oa_actor = Automation, oa_reasonCode = Some ''uncensored_containment_merge_v1'', oa_ruleVersion = Some 1,
                   oa_featureSnapshotJson = Some (merge_snapshot side c (or_galleryId source) (or_galleryId target) mergeId places),
                   oa_createdAt = now\<rparr>;
                 s1 = set_review (rv_reviewId review)
                   (updated\<lparr>rv_candidates := map (removed_by_merge side c) (rv_candidates updated),
                            rv_decisions := Some (or_value (rv_decisions updated) [] @ [audit])\<rparr>) s
             in record_automation (rv_reviewId review)
                  (history_item review now (rv_state updated) (side = MIncoming) (side = MExisting)
                     (Some (or_galleryId source)) (map_of (bb_automationHistory s1) (rv_reviewId review))) s1)"

definition apply_merge :: "overlap_merge_request \<Rightarrow> string \<Rightarrow> string \<Rightarrow> overlap_review \<Rightarrow> overlap_candidate \<Rightarrow>
    int list \<Rightarrow> int \<Rightarrow> browser_backend \<Rightarrow> overlap_merge_result \<times> browser_backend" where
  "apply_merge request uuid now review c targets added s =
     (let side = mr_sourceSide request;
          source = source_ref side review c; target = target_ref side review c;
          mergeId = ''browser-merge-'' @ uuid;
          reviews = bb_downloadOverlapReviews s;
          affected = map fst (filter (\<lambda>kv. merge_affects request (or_entryId source) (or_entryId target) (snd kv)) reviews);
          s1 = foldl (affect_review request (or_entryId source) (or_entryId target)) s reviews;
          s2 = foldl (outdate_pair (or_entryId target)) s1 (bb_duplicateReviews s1);
          s3 = bump_completed (or_entryId target) s2;
          s4 = (if flag (mr_excludeSource request) then exclude_source source s3 else s3);
          s5 = (if mr_selectedPages request \<noteq> None
                then s4\<lparr>bb_composedPageCounts :=
                  AList.update (or_galleryId target) (or_pageCount target + added) (bb_composedPageCounts s4)\<rparr> else s4);
          s6 = (if flag (mr_automation request) then note_merge request review c mergeId (length targets) now s5 else s5)
      in (\<lparr>mg_mergeId = mergeId, mg_sourceGalleryId = or_galleryId source, mg_targetGalleryId = or_galleryId target,
           mg_replacedPages = int (length targets) - added, mg_addedPages = added,
           mg_backupPath = ''.atsumi-page-merges/'' @ mergeId @ ''/original'', mg_affectedReviewIds = affected,
           mg_sourceExcluded = flag (mr_excludeSource request)\<rparr>, s6))"

definition downloadOverlapMerge :: "(string \<Rightarrow> string) \<Rightarrow> overlap_merge_request \<Rightarrow> string \<Rightarrow> string \<Rightarrow>
    browser_backend \<Rightarrow> overlap_merge_result api_result \<times> browser_backend" where
  "downloadOverlapMerge nfkc request uuid now s =
     (case prepare_pair request s of
        Inl err \<Rightarrow> (Inl err, s)
      | Inr s1 \<Rightarrow>
          (case map_of (bb_downloadOverlapReviews s1) (mr_reviewId request) of
             None \<Rightarrow> (Inl (notFoundError ''DOWNLOAD_OVERLAP_REVIEW_NOT_FOUND'' no_review_message None), s1)
           | Some review \<Rightarrow>
               (case merge_checks nfkc request review s1 of
                  Inl err \<Rightarrow> (Inl err, s1)
                | Inr (c, targets, added) \<Rightarrow>
                    (case apply_merge request uuid now review c targets added s1 of (r, s2) \<Rightarrow> (Inr r, s2)))))"

end
