(* ===== verification/BrowserExclusions.thy ===== *)
theory BrowserExclusions
  imports BrowserReviews
begin

text \<open>
  The galleries left out of exploration in \<^verbatim>\<open>BrowserMockBackend\<close> (\<^verbatim>\<open>src/src/api/backend.ts\<close>): by hand, or as
  the hidden side of a duplicate. The list shows for every gallery why it is left out; restoring takes it back; and a
  reset of the exploration data forgets what was left out by hand.
\<close>

definition unknown_artist :: string where
  "unknown_artist = [CHR 0xEC, CHR 0x95, CHR 0x8C] @ '' '' @ [CHR 0xEC, CHR 0x88,
     CHR 0x98] @ '' '' @ [CHR 0xEC, CHR 0x97, CHR 0x86, CHR 0xEB, CHR 0x8A,
     CHR 0x94] @ '' '' @ [CHR 0xEC, CHR 0x9E, CHR 0x91, CHR 0xEA, CHR 0xB0, CHR 0x80]"

definition hidden_by_pair :: string where
  "hidden_by_pair = [CHR 0xEC, CHR 0xA4, CHR 0x91, CHR 0xEB, CHR 0xB3,
     CHR 0xB5] @ '' '' @ [CHR 0xED, CHR 0x8C, CHR 0x90, CHR 0xEC, CHR 0xA0, CHR 0x95, CHR 0xEC,
     CHR 0x97, CHR 0x90, CHR 0xEC, CHR 0x84, CHR 0x9C] @ '' '' @ [CHR 0xEC, CHR 0x88, CHR 0xA8,
     CHR 0xEA, CHR 0xB9, CHR 0x80]"

definition existing_removed_detail :: string where
  "existing_removed_detail = [CHR 0xEB, CHR 0x8B, CHR 0xA4, CHR 0xEC, CHR 0x9A, CHR 0xB4,
     CHR 0xEB, CHR 0xA1, CHR 0x9C, CHR 0xEB, CHR 0x93, CHR 0x9C] @ '' '' @ [CHR 0xED, CHR 0x8C,
     CHR 0x90, CHR 0xEB, CHR 0xB3, CHR 0xB8] @ '' '' @ [CHR 0xEA, CHR 0xB2, CHR 0x80, CHR 0xED,
     CHR 0x86, CHR 0xA0, CHR 0xEC, CHR 0x97, CHR 0x90, CHR 0xEC, CHR 0x84,
     CHR 0x9C] @ '' '' @ [CHR 0xEA, CHR 0xB8, CHR 0xB0, CHR 0xEC, CHR 0xA1,
     CHR 0xB4] @ '' '' @ [CHR 0xEC, CHR 0x95, CHR 0xA8, CHR 0xEB, CHR 0xB2,
     CHR 0x94] @ '' '' @ [CHR 0xEC, CHR 0xA0, CHR 0x9C, CHR 0xEA, CHR 0xB1, CHR 0xB0]"

definition incoming_removed_detail :: string where
  "incoming_removed_detail = [CHR 0xEB, CHR 0x8B, CHR 0xA4, CHR 0xEC, CHR 0x9A, CHR 0xB4,
     CHR 0xEB, CHR 0xA1, CHR 0x9C, CHR 0xEB, CHR 0x93, CHR 0x9C] @ '' '' @ [CHR 0xED, CHR 0x8C,
     CHR 0x90, CHR 0xEB, CHR 0xB3, CHR 0xB8] @ '' '' @ [CHR 0xEA, CHR 0xB2, CHR 0x80, CHR 0xED,
     CHR 0x86, CHR 0xA0, CHR 0xEC, CHR 0x97, CHR 0x90, CHR 0xEC, CHR 0x84,
     CHR 0x9C] @ '' '' @ [CHR 0xEC, CHR 0x8B, CHR 0xA0, CHR 0xEA, CHR 0xB7,
     CHR 0x9C] @ '' '' @ [CHR 0xEC, CHR 0x95, CHR 0xA8, CHR 0xEB, CHR 0xB2,
     CHR 0x94] @ '' '' @ [CHR 0xEC, CHR 0xA0, CHR 0x9C, CHR 0xEA, CHR 0xB1, CHR 0xB0]"

section \<open>Leaving out by hand\<close>

definition ids_error :: "js_num list \<Rightarrow> api_error option" where
  "ids_error galleryIds =
     (if galleryIds = [] then Some (validationError ''galleryIds'' ''must not be empty'')
      else if length galleryIds > 200 then Some (validationError ''galleryIds'' ''must contain at most 200 IDs'')
      else if list_ex (\<lambda>i. \<not> is_integer i \<or> js_le i (Num 0)) galleryIds
      then Some (validationError ''galleryIds'' ''gallery IDs must be positive integers'')
      else None)"

definition exclude_one :: "string \<Rightarrow> string \<Rightarrow> browser_backend \<Rightarrow> gallery_id \<Rightarrow> browser_backend" where
  "exclude_one reason now s g =
     (let candidate = find (\<lambda>c. gs_id c = g) (bb_autoFindCandidates s)
      in s\<lparr>bb_excludedAutoFindCandidates := (case candidate of
               Some c \<Rightarrow> AList.update g c (bb_excludedAutoFindCandidates s)
             | None \<Rightarrow> bb_excludedAutoFindCandidates s),
           bb_explorationRestoredGalleryIds := set_delete g (bb_explorationRestoredGalleryIds s),
           bb_autoFindExclusions := AList.update g
             \<lparr>mx_reason = reason, mx_createdAt = now,
              mx_title = (case candidate of Some c \<Rightarrow> gs_title c | None \<Rightarrow> ''Gallery #'' @ show_int g),
              mx_artist = (case candidate of Some c \<Rightarrow> gs_artist c | None \<Rightarrow> unknown_artist)\<rparr>
             (bb_autoFindExclusions s)\<rparr>)"

definition autoFindExclude ::
  "js_num list \<Rightarrow> string \<Rightarrow> string \<Rightarrow> browser_backend \<Rightarrow> gallery_id list api_result \<times> browser_backend" where
  "autoFindExclude galleryIds reason now s =
     (case ids_error galleryIds of
        Some err \<Rightarrow> (Inl err, s)
      | None \<Rightarrow>
          if trim reason = [] \<or> length (trim reason) > 500
          then (Inl (validationError ''reason'' ''must contain between 1 and 500 bytes''), s)
          else
            let normalizedIds = normalizedGallerySet (map id_of_num galleryIds);
                s1 = foldl (exclude_one (trim reason) now) s normalizedIds
            in (Inr normalizedIds,
                s1\<lparr>bb_autoFindCandidates := filter (\<lambda>c. gs_id c \<notin> set normalizedIds) (bb_autoFindCandidates s1)\<rparr>))"

section \<open>Why a gallery is left out\<close>

datatype exclusion_kind = ManualExclusion | DuplicateHidden

record exclusion_reason =
  xn_kind :: exclusion_kind
  xn_detail :: string
  xn_excludedAt :: string

record exploration_exclusion =
  xe_galleryId :: gallery_id
  xe_title :: string
  xe_artist :: string
  xe_reasons :: "exclusion_reason list"

type_synonym grouped_exclusions = "(gallery_id \<times> exploration_exclusion) list"

definition addReason ::
  "gallery_id \<Rightarrow> string \<Rightarrow> string option \<Rightarrow> exclusion_reason \<Rightarrow> grouped_exclusions \<Rightarrow> grouped_exclusions" where
  "addReason g title artist reason m =
     (let current = or_value (map_of m g)
            \<lparr>xe_galleryId = g, xe_title = title,
             xe_artist = (if or_value artist [] = [] then unknown_artist else or_value artist []), xe_reasons = []\<rparr>
      in AList.update g (current\<lparr>xe_reasons := xe_reasons current @ [reason]\<rparr>) m)"

definition hasDuplicateReason :: "grouped_exclusions \<Rightarrow> gallery_id \<Rightarrow> bool" where
  "hasDuplicateReason m g = (case map_of m g of
     Some x \<Rightarrow> list_ex (\<lambda>r. xn_kind r = DuplicateHidden) (xe_reasons x)
   | None \<Rightarrow> False)"

definition add_manual :: "grouped_exclusions \<Rightarrow> gallery_id \<times> manual_exclusion \<Rightarrow> grouped_exclusions" where
  "add_manual m kv = (case kv of (g, x) \<Rightarrow>
     addReason g (mx_title x) (Some (mx_artist x))
       \<lparr>xn_kind = ManualExclusion, xn_detail = mx_reason x, xn_excludedAt = mx_createdAt x\<rparr> m)"

text \<open>The decisions of a resolved pair, newest first, each hidden gallery once.\<close>

definition hidden_ref :: "duplicate_review \<Rightarrow> duplicate_decision \<Rightarrow> duplicate_ref option" where
  "hidden_ref review d = (case dd_action d of
     HideParent \<Rightarrow> Some (dc_parent (dw_candidate review))
   | HideCandidate \<Rightarrow> Some (dc_candidate (dw_candidate review))
   | _ \<Rightarrow> None)"

fun add_hidden ::
  "browser_backend \<Rightarrow> duplicate_review \<Rightarrow> gallery_id list \<Rightarrow> duplicate_decision list \<Rightarrow> grouped_exclusions \<Rightarrow> grouped_exclusions" where
  "add_hidden s review seen [] m = m"
| "add_hidden s review seen (d # ds) m =
     (case hidden_ref review d of
        None \<Rightarrow> add_hidden s review seen ds m
      | Some r \<Rightarrow>
          if dr_galleryId r \<in> set seen then add_hidden s review seen ds m
          else add_hidden s review (dr_galleryId r # seen) ds
                 (if dr_galleryId r \<in> set (bb_explorationRestoredGalleryIds s) then m
                  else addReason (dr_galleryId r) (dr_title r) (dr_artist r)
                    \<lparr>xn_kind = DuplicateHidden, xn_detail = hidden_by_pair, xn_excludedAt = dd_createdAt d\<rparr> m))"

definition add_pair :: "browser_backend \<Rightarrow> grouped_exclusions \<Rightarrow> string \<times> duplicate_review \<Rightarrow> grouped_exclusions" where
  "add_pair s m kv = (case kv of (i, review) \<Rightarrow>
     if i \<notin> set (bb_duplicateResolvedCandidates s) then m else add_hidden s review [] (rev (dw_decisions review)) m)"

definition add_removed ::
  "browser_backend \<Rightarrow> overlap_review \<Rightarrow> overlap_gallery_ref \<Rightarrow> string \<Rightarrow> grouped_exclusions \<Rightarrow> grouped_exclusions" where
  "add_removed s review r detail m =
     (if or_galleryId r \<notin> set (bb_duplicateHiddenGalleryIds s)
         \<or> or_galleryId r \<in> set (bb_explorationRestoredGalleryIds s) \<or> hasDuplicateReason m (or_galleryId r) then m
      else addReason (or_galleryId r) (or_title r) (Some (join '', '' (or_artists r)))
        \<lparr>xn_kind = DuplicateHidden, xn_detail = detail,
         xn_excludedAt = or_value (rv_resolvedAt review) (rv_updatedAt review)\<rparr> m)"

definition add_candidate :: "browser_backend \<Rightarrow> overlap_review \<Rightarrow> grouped_exclusions \<Rightarrow> overlap_candidate \<Rightarrow> grouped_exclusions" where
  "add_candidate s review m c =
     (if oc_decision c = Some ExistingRemoved then add_removed s review (oc_existing c) existing_removed_detail m else m)"

definition add_review :: "browser_backend \<Rightarrow> grouped_exclusions \<Rightarrow> overlap_review \<Rightarrow> grouped_exclusions" where
  "add_review s m review =
     (let m1 = foldl (add_candidate s review) m (rv_candidates review)
      in if rv_state review = RCancelled then add_removed s review (rv_incoming review) incoming_removed_detail m1 else m1)"

definition grouped :: "browser_backend \<Rightarrow> grouped_exclusions" where
  "grouped s = foldl (add_review s)
     (foldl (add_pair s) (foldl add_manual [] (bb_autoFindExclusions s)) (bb_duplicateReviews s))
     (vals (bb_downloadOverlapReviews s))"

definition explorationExclusionsList :: "browser_backend \<Rightarrow> exploration_exclusion list" where
  "explorationExclusionsList s = js_sort (\<lambda>x y. xe_galleryId y - xe_galleryId x) (vals (grouped s))"

section \<open>Taking back\<close>

definition restore_one :: "browser_backend \<Rightarrow> gallery_id \<Rightarrow> browser_backend" where
  "restore_one s g =
     s\<lparr>bb_autoFindExclusions := AList.delete g (bb_autoFindExclusions s),
       bb_explorationRestoredGalleryIds := set_add g (bb_explorationRestoredGalleryIds s),
       bb_autoFindCandidates := (case map_of (bb_excludedAutoFindCandidates s) g of
           Some c \<Rightarrow> if list_ex (\<lambda>item. gs_id item = g) (bb_autoFindCandidates s) then bb_autoFindCandidates s
                     else bb_autoFindCandidates s @ [c]
         | None \<Rightarrow> bb_autoFindCandidates s),
       bb_excludedAutoFindCandidates := AList.delete g (bb_excludedAutoFindCandidates s)\<rparr>"

definition explorationExclusionsRestore ::
  "js_num list \<Rightarrow> browser_backend \<Rightarrow> gallery_id list api_result \<times> browser_backend" where
  "explorationExclusionsRestore galleryIds s =
     (case ids_error galleryIds of
        Some err \<Rightarrow> (Inl err, s)
      | None \<Rightarrow>
          let restored = normalizedGallerySet (map id_of_num galleryIds)
          in (Inr restored, foldl restore_one s restored))"

section \<open>Resetting the exploration data\<close>

definition auto_find_active_message :: string where
  "auto_find_active_message = ''Auto Find '' @ [CHR 0xEC, CHR 0x8B, CHR 0xA4, CHR 0xED,
     CHR 0x96, CHR 0x89, CHR 0xEC, CHR 0x9D, CHR 0x84] @ '' '' @ [CHR 0xEC, CHR 0xB7, CHR 0xA8,
     CHR 0xEC, CHR 0x86, CHR 0x8C, CHR 0xED, CHR 0x95, CHR 0x98, CHR 0xEA, CHR 0xB1, CHR 0xB0,
     CHR 0xEB, CHR 0x82, CHR 0x98] @ '' '' @ [CHR 0xEC, CHR 0x99, CHR 0x84, CHR 0xEB, CHR 0xA3,
     CHR 0x8C, CHR 0xED, CHR 0x95, CHR 0x9C] @ '' '' @ [CHR 0xEB, CHR 0x92,
     CHR 0xA4] @ '' '' @ [CHR 0xED, CHR 0x83, CHR 0x90, CHR 0xEC, CHR 0x83,
     CHR 0x89] @ '' '' @ [CHR 0xEB, CHR 0x8D, CHR 0xB0, CHR 0xEC, CHR 0x9D, CHR 0xB4, CHR 0xED,
     CHR 0x84, CHR 0xB0, CHR 0xEB, CHR 0xA5, CHR 0xBC] @ '' '' @ [CHR 0xEC, CHR 0xB4, CHR 0x88,
     CHR 0xEA, CHR 0xB8, CHR 0xB0, CHR 0xED, CHR 0x99, CHR 0x94, CHR 0xED, CHR 0x95, CHR 0x98,
     CHR 0xEC, CHR 0x84, CHR 0xB8, CHR 0xEC, CHR 0x9A, CHR 0x94] @ ''.''"

record reset_result =
  er_favoritesRemoved :: nat
  er_searchHistoryRemoved :: nat
  er_autoFindRunsRemoved :: nat
  er_autoFindCandidatesRemoved :: nat
  er_autoFindExclusionsRemoved :: nat

text \<open>The favourites and the search history are kept in another record; \<open>favorites\<close> and \<open>history\<close> are their sizes.\<close>

definition explorationDataReset ::
  "string \<Rightarrow> nat \<Rightarrow> nat \<Rightarrow> browser_backend \<Rightarrow> reset_result api_result \<times> browser_backend" where
  "explorationDataReset confirmation favorites history s =
     (if confirmation \<noteq> ''RESET_EXPLORATION_DATA''
      then (Inl (validationError ''confirmation'' ''must explicitly confirm exploration data reset''), s)
      else if (case bb_autoFindRun s of Some run \<Rightarrow> af_state run = ''running'' | None \<Rightarrow> False)
      then (Inl (notFoundError ''OPERATION_ACTIVE'' auto_find_active_message None), s)
      else (Inr \<lparr>er_favoritesRemoved = favorites, er_searchHistoryRemoved = history,
                 er_autoFindRunsRemoved = (if bb_autoFindRun s = None then 0 else 1),
                 er_autoFindCandidatesRemoved = length (bb_autoFindCandidates s),
                 er_autoFindExclusionsRemoved = length (bb_autoFindExclusions s)\<rparr>,
            s\<lparr>bb_autoFindExclusions := [], bb_excludedAutoFindCandidates := [], bb_explorationRestoredGalleryIds := [],
              bb_autoFindRun := None, bb_autoFindCandidates := []\<rparr>))"

end
