(* ===== verification/BrowserDownloads.thy ===== *)
theory BrowserDownloads
  imports BrowserTypes
begin

text \<open>
  The download queue of \<^verbatim>\<open>BrowserMockBackend\<close> (\<^verbatim>\<open>src/src/api/backend.ts\<close>): adding galleries under a request id,
  listing, retrying and cancelling entries, the two timed steps of a pretended download, the fingerprint of the
  work under way and the quit that carries it.

  Numbers that the code checks at run time (gallery ids, pages) arrive as \<open>js_num\<close>. Gallery ids print as decimal
  numerals, which JavaScript does below \<open>10\<^sup>2\<^sup>1\<close>. An operation that answers and changes the state returns both.
\<close>

definition num_int :: "js_num \<Rightarrow> int" where
  "num_int n = (case n of Num r \<Rightarrow> floor r | _ \<Rightarrow> 0)"

definition positive_id :: "js_num \<Rightarrow> bool" where
  "positive_id n \<longleftrightarrow> is_integer n \<and> \<not> js_le n (Num 0)"

section \<open>The pretended download\<close>

definition runFixtureDownload :: "string \<Rightarrow> int \<Rightarrow> browser_backend \<Rightarrow> browser_backend" where
  "runFixtureDownload entryId workerAttempt s =
     setTimeout 225 (DownloadTask entryId workerAttempt InterruptStep)
       (setTimeout 75 (DownloadTask entryId workerAttempt ResolveStep) s)"

fun expected_state :: "fixture_step \<Rightarrow> download_state" where
  "expected_state ResolveStep = Queued"
| "expected_state InterruptStep = ResolvingMetadata"

fun step_state :: "fixture_step \<Rightarrow> download_state" where
  "step_state ResolveStep = ResolvingMetadata"
| "step_state InterruptStep = Interrupted"

fun step_message :: "fixture_step \<Rightarrow> string" where
  "step_message ResolveStep = resolve_message"
| "step_message InterruptStep = interrupt_message"

text \<open>What a step makes of the entry it was set for.\<close>

definition worked_entry :: "int \<Rightarrow> fixture_step \<Rightarrow> download_entry \<Rightarrow> download_entry" where
  "worked_entry workerAttempt step current =
     (let failed = (step_state step = Interrupted)
      in current\<lparr>de_revision := de_revision current + 1, de_state := step_state step, de_progress := Some 0,
           de_attempt := Some workerAttempt,
           de_errorCode := (if failed then Some ''DOWNLOAD_FOUNDATION_UNAVAILABLE'' else None),
           de_errorMessage := (if failed then Some (step_message step) else None)\<rparr>)"

text \<open>The entry no longer stands for its gallery.\<close>

definition release_gallery :: "gallery_id \<Rightarrow> string \<Rightarrow> browser_backend \<Rightarrow> browser_backend" where
  "release_gallery g entryId s =
     (if map_of (bb_activeDownloadEntryByGallery s) g = Some entryId
      then s\<lparr>bb_activeDownloadEntryByGallery := AList.delete g (bb_activeDownloadEntryByGallery s)\<rparr> else s)"

definition run_download_task :: "string \<Rightarrow> int \<Rightarrow> fixture_step \<Rightarrow> browser_backend \<Rightarrow> browser_backend" where
  "run_download_task entryId workerAttempt step s =
     (case map_of (bb_downloadEntries s) entryId of
        None \<Rightarrow> s
      | Some current \<Rightarrow>
          if de_state current \<noteq> expected_state step \<or> de_attempt current \<noteq> Some workerAttempt then s
          else
            let next = worked_entry workerAttempt step current;
                s1 = s\<lparr>bb_downloadEntries := AList.update entryId next (bb_downloadEntries s)\<rparr>;
                s2 = (if step_state step = Interrupted then release_gallery (de_galleryId current) entryId s1 else s1)
            in emit (DownloadChanged next)
                 (emit (JobChanged \<lparr>je_jobId = ''browser-fixture-'' @ entryId, je_galleryId = de_galleryId current,
                    je_revision = de_revision next, je_state = de_state next, je_completedUnits = 0,
                    je_totalUnits = 1, je_message = step_message step\<rparr>) s2))"

section \<open>Adding to the queue\<close>

definition new_entry_id :: "gallery_id \<Rightarrow> nat \<Rightarrow> string" where
  "new_entry_id g n = ''browser-entry-'' @ show_int g @ ''-'' @ show_nat n"

definition new_entry :: "string \<Rightarrow> gallery_id \<Rightarrow> nat \<Rightarrow> download_entry" where
  "new_entry now g n = \<lparr>de_entryId = new_entry_id g n, de_galleryId = g, de_revision = 0, de_state = Queued,
     de_progress = Some 0, de_attempt = Some 1, de_errorCode = None, de_errorMessage = None,
     de_errorRetryable = None, de_reviewKind = None, de_reviewId = None, de_createdAt = Some now,
     de_updatedAt = Some now\<rparr>"

definition standing_entry :: "browser_backend \<Rightarrow> gallery_id \<Rightarrow> download_entry option" where
  "standing_entry s g =
     (case map_of (bb_activeDownloadEntryByGallery s) g of
        Some i \<Rightarrow> map_of (bb_downloadEntries s) i
      | None \<Rightarrow> None)"

definition start_worker :: "string \<Rightarrow> int \<Rightarrow> browser_backend \<Rightarrow> browser_backend" where
  "start_worker entryId attempt s = (if bb_listening s then runFixtureDownload entryId attempt s else s)"

definition queue_new :: "string \<Rightarrow> gallery_id \<Rightarrow> browser_backend \<Rightarrow> download_entry \<times> browser_backend" where
  "queue_new now g s =
     (let entry = new_entry now g (bb_nextDownloadEntryId s);
          s1 = s\<lparr>bb_activeDownloadEntryByGallery := AList.delete g (bb_activeDownloadEntryByGallery s),
                 bb_nextDownloadEntryId := Suc (bb_nextDownloadEntryId s)\<rparr>;
          s2 = set_entry entry s1;
          s3 = s2\<lparr>bb_activeDownloadEntryByGallery :=
                 AList.update g (de_entryId entry) (bb_activeDownloadEntryByGallery s2)\<rparr>
      in (entry, start_worker (de_entryId entry) 1 s3))"

definition queue_gallery :: "string \<Rightarrow> gallery_id \<Rightarrow> browser_backend \<Rightarrow> download_entry \<times> browser_backend" where
  "queue_gallery now g s =
     (case standing_entry s g of
        Some e \<Rightarrow> if active_entry e then (e, s) else queue_new now g s
      | None \<Rightarrow> queue_new now g s)"

fun queue_galleries :: "string \<Rightarrow> gallery_id list \<Rightarrow> browser_backend \<Rightarrow> download_entry list \<times> browser_backend" where
  "queue_galleries now [] s = ([], s)"
| "queue_galleries now (g # gs) s =
     (let (e, s1) = queue_gallery now g s; (es, s2) = queue_galleries now gs s1 in (e # es, s2))"

definition queue_refusal :: "js_num list \<Rightarrow> string \<Rightarrow> api_error option" where
  "queue_refusal galleries requestId =
     (if requestId = [] then Some (validationError ''requestId'' ''must not be empty'')
      else if length requestId > 200 then Some (validationError ''requestId'' ''must be at most 200 bytes'')
      else if galleries = [] then Some (validationError ''galleries'' ''must not be empty'')
      else if length galleries > 200 then Some (validationError ''galleries'' ''must contain at most 200 IDs'')
      else if \<not> list_all positive_id galleries
      then Some (validationError ''galleries'' ''gallery IDs must be positive integers'')
      else None)"

definition idempotency_conflict :: "string \<Rightarrow> api_error" where
  "idempotency_conflict requestId = \<lparr>ae_code = ''IDEMPOTENCY_CONFLICT'',
     ae_message = ''The request ID was already used for a different gallery set'', ae_retryable = False,
     ae_action = Some ActReview, ae_details = Some [(''requestId'', JStr requestId)]\<rparr>"

definition downloadQueueAdd ::
  "js_num list \<Rightarrow> string \<Rightarrow> string \<Rightarrow> browser_backend \<Rightarrow> download_entry list api_result \<times> browser_backend" where
  "downloadQueueAdd galleries requestId now s =
     (let normalizedRequestId = trim requestId in
      case queue_refusal galleries normalizedRequestId of
        Some err \<Rightarrow> (Inl err, s)
      | None \<Rightarrow>
          let normalizedGalleries = normalizedGallerySet (map num_int galleries);
              normalizedSetKey = gallerySetKey normalizedGalleries
          in case map_of (bb_downloadQueueRequests s) normalizedRequestId of
               Some (key, entries) \<Rightarrow>
                 if key \<noteq> normalizedSetKey then (Inl (idempotency_conflict normalizedRequestId), s)
                 else (Inr entries, s)
             | None \<Rightarrow>
                 let (entries, s1) = queue_galleries now normalizedGalleries s
                 in (Inr entries, s1\<lparr>bb_downloadQueueRequests :=
                      AList.update normalizedRequestId (normalizedSetKey, entries) (bb_downloadQueueRequests s1)\<rparr>))"

section \<open>Retrying and cancelling\<close>

definition trimmed_ids :: "string list \<Rightarrow> string list" where
  "trimmed_ids entryIds = set_from (map trim entryIds)"

definition invalid_state_error :: "string \<Rightarrow> (string \<times> js_value) list \<Rightarrow> api_error" where
  "invalid_state_error message details = \<lparr>ae_code = ''INVALID_DOWNLOAD_STATE'', ae_message = message,
     ae_retryable = False, ae_action = Some ActReview, ae_details = Some details\<rparr>"

definition missing_entry_error :: "string \<Rightarrow> api_error" where
  "missing_entry_error entryId = notFoundError ''DOWNLOAD_ENTRY_NOT_FOUND'' ''The download entry does not exist''
     (Some [(''entryId'', JStr entryId)])"

text \<open>The checks both operations begin with; what they look up then.\<close>

definition ids_refusal :: "string list \<Rightarrow> browser_backend \<Rightarrow> api_error option" where
  "ids_refusal normalized s =
     (if normalized = [] \<or> [] \<in> set normalized
      then Some (validationError ''entryIds'' ''must contain at least one non-empty entry ID'')
      else if length normalized > 200 then Some (validationError ''entryIds'' ''must contain at most 200 IDs'')
      else map_option missing_entry_error (find (\<lambda>i. map_of (bb_downloadEntries s) i = None) normalized))"

definition entries_of :: "string list \<Rightarrow> browser_backend \<Rightarrow> download_entry list" where
  "entries_of normalized s = List.map_filter (map_of (bb_downloadEntries s)) normalized"

definition retry_refusal :: "download_entry list \<Rightarrow> browser_backend \<Rightarrow> api_error option" where
  "retry_refusal entries s =
     (case find (\<lambda>e. isDuplicateExplorationExcluded s (de_galleryId e)) entries of
        Some e \<Rightarrow> Some (invalid_state_error
          (''Download entry '' @ de_entryId e
            @ '' was excluded after duplicate review and must be restored before retry'')
          [(''entryId'', JStr (de_entryId e)), (''state'', JStr (state_text (de_state e))),
           (''operation'', JStr ''retry''), (''reason'', JStr ''duplicate_excluded'')])
      | None \<Rightarrow>
          map_option (\<lambda>e. invalid_state_error
            (''Download entry '' @ de_entryId e @ '' cannot be retried from '' @ state_text (de_state e))
            [(''entryId'', JStr (de_entryId e)), (''state'', JStr (state_text (de_state e))), (''operation'', JStr ''retry'')])
          (find (\<lambda>e. \<not> active_entry e \<and> de_state e \<notin> {Failed, Interrupted, Cancelled}) entries))"

record job_ref =
  jr_jobId :: string
  jr_reused :: bool

definition retried_entry :: "download_entry \<Rightarrow> download_entry" where
  "retried_entry current =
     current\<lparr>de_revision := de_revision current + 1, de_state := Queued, de_progress := Some 0,
       de_attempt := Some (or_value (de_attempt current) 1 + 1), de_errorCode := None, de_errorMessage := None\<rparr>"

definition retry_entry :: "browser_backend \<Rightarrow> download_entry \<Rightarrow> browser_backend" where
  "retry_entry s current =
     (if active_entry current then s
      else
        let next = retried_entry current;
            s1 = set_entry next s;
            s2 = s1\<lparr>bb_activeDownloadEntryByGallery :=
                   AList.update (de_galleryId next) (de_entryId next) (bb_activeDownloadEntryByGallery s1)\<rparr>
        in start_worker (de_entryId next) (or_value (de_attempt current) 1 + 1) (emit (DownloadChanged next) s2))"

definition job_of :: "download_entry \<Rightarrow> job_ref" where
  "job_of current = \<lparr>jr_jobId = ''browser-fixture-'' @ de_entryId current, jr_reused = active_entry current\<rparr>"

definition active_count :: "browser_backend \<Rightarrow> nat" where
  "active_count s = length (filter active_entry (vals (bb_downloadEntries s)))"

definition retry_normalized :: "string list \<Rightarrow> browser_backend \<Rightarrow> job_ref list api_result \<times> browser_backend" where
  "retry_normalized normalized s =
     (case ids_refusal normalized s of
        Some err \<Rightarrow> (Inl err, s)
      | None \<Rightarrow>
          let entries = entries_of normalized s
          in case retry_refusal entries s of
               Some err \<Rightarrow> (Inl err, s)
             | None \<Rightarrow> (Inr (map job_of entries), foldl retry_entry s entries))"

definition downloadRetry :: "string list \<Rightarrow> bool \<Rightarrow> browser_backend \<Rightarrow> job_ref list api_result \<times> browser_backend" where
  "downloadRetry entryIds fillAvailable s =
     (if \<not> fillAvailable then retry_normalized (trimmed_ids entryIds) s
      else if 200 - active_count s = 0 then (Inr [], s)
      else retry_normalized (take (200 - active_count s) (trimmed_ids entryIds)) s)"

definition cancel_refusal :: "download_entry list \<Rightarrow> api_error option" where
  "cancel_refusal entries =
     map_option (\<lambda>e. invalid_state_error
         (''Download entry '' @ de_entryId e @ '' cannot be cancelled from '' @ state_text (de_state e))
         [(''entryId'', JStr (de_entryId e)), (''state'', JStr (state_text (de_state e))), (''operation'', JStr ''cancel'')])
       (find (\<lambda>e. de_state e \<notin> cancellableDownloadStates) entries)"

definition cancelled_entry :: "download_entry \<Rightarrow> download_entry" where
  "cancelled_entry current =
     (if de_state current = Cancelled then current
      else let next = current\<lparr>de_revision := de_revision current + 1, de_state := Cancelled\<rparr>
           in if de_state current = Failed \<or> de_state current = Interrupted then next
              else next\<lparr>de_errorCode := None, de_errorMessage := None\<rparr>)"

definition cancel_entry :: "browser_backend \<Rightarrow> download_entry \<Rightarrow> browser_backend" where
  "cancel_entry s current =
     (if de_state current = Cancelled then s
      else let next = cancelled_entry current
           in emit (DownloadChanged next) (release_gallery (de_galleryId next) (de_entryId next) (set_entry next s)))"

definition downloadCancel :: "string list \<Rightarrow> browser_backend \<Rightarrow> download_entry list api_result \<times> browser_backend" where
  "downloadCancel entryIds s =
     (let normalized = trimmed_ids entryIds in
      case ids_refusal normalized s of
        Some err \<Rightarrow> (Inl err, s)
      | None \<Rightarrow>
          let entries = entries_of normalized s
          in case cancel_refusal entries of
               Some err \<Rightarrow> (Inl err, s)
             | None \<Rightarrow> (Inr (map cancelled_entry entries), foldl cancel_entry s entries))"

section \<open>Listing\<close>

record list_request =
  lr_state :: "download_state option"
  lr_query :: "string option"
  lr_page :: js_num
  lr_pageSize :: js_num

record download_page =
  dg_page :: int
  dg_totalItems :: int
  dg_entries :: "download_entry list"

definition list_query :: "list_request \<Rightarrow> string" where
  "list_query request = lower (trim (or_value (lr_query request) []))"

definition list_refusal :: "list_request \<Rightarrow> api_error option" where
  "list_refusal request =
     (if \<not> is_integer (lr_page request) \<or> js_lt (lr_page request) (Num 1)
      then Some (validationError ''page'' ''must be one-based'')
      else if \<not> is_integer (lr_pageSize request) \<or> js_lt (lr_pageSize request) (Num 1) \<or> js_lt (Num 200) (lr_pageSize request)
      then Some (validationError ''pageSize'' ''must be between 1 and 200'')
      else if length (list_query request) > 500 then Some (validationError ''query'' ''must be at most 500 bytes'')
      else None)"

text \<open>The entry was cancelled by a decision of a review.\<close>

definition removed_by_review :: "browser_backend \<Rightarrow> download_entry \<Rightarrow> bool" where
  "removed_by_review s e \<longleftrightarrow> list_ex (\<lambda>review.
     (rv_entryId review = de_entryId e \<and> rv_state review = RCancelled)
     \<or> list_ex (\<lambda>c. or_entryId (oc_existing c) = de_entryId e \<and> oc_decision c = Some ExistingRemoved)
         (rv_candidates review)) (vals (bb_downloadOverlapReviews s))"

definition visible_entries :: "browser_backend \<Rightarrow> download_entry list" where
  "visible_entries s =
     filter (\<lambda>e. \<not> isDuplicateExplorationExcluded s (de_galleryId e))
       (filter (\<lambda>e. de_state e \<noteq> Cancelled \<or> \<not> removed_by_review s e) (vals (bb_downloadEntries s)))"

definition state_asked :: "list_request \<Rightarrow> download_entry \<Rightarrow> bool" where
  "state_asked request e \<longleftrightarrow> lr_state request = None \<or> lr_state request = Some (de_state e)"

definition page_of :: "list_request \<Rightarrow> 'a list \<Rightarrow> 'a list" where
  "page_of request xs =
     (let size = num_int (lr_pageSize request); offset = (num_int (lr_page request) - 1) * size
      in Prelude.slice (nat offset) (nat (offset + size)) xs)"

definition listed_entries ::
  "(string \<Rightarrow> string \<Rightarrow> int) \<Rightarrow> list_request \<Rightarrow> browser_backend \<Rightarrow> download_entry list" where
  "listed_entries loc request s =
     js_sort (js_or (\<lambda>x y. de_galleryId x - de_galleryId y) (\<lambda>x y. loc (de_entryId x) (de_entryId y)))
       (filter (\<lambda>e. list_query request = []
            \<or> str_includes (list_query request) (lower (de_entryId e @ '' '' @ show_int (de_galleryId e))))
          (filter (state_asked request) (visible_entries s)))"

definition downloadEntriesList ::
  "(string \<Rightarrow> string \<Rightarrow> int) \<Rightarrow> list_request \<Rightarrow> browser_backend \<Rightarrow> download_page api_result" where
  "downloadEntriesList loc request s =
     (case list_refusal request of
        Some err \<Rightarrow> Inl err
      | None \<Rightarrow>
          let entries = listed_entries loc request s
          in Inr \<lparr>dg_page = num_int (lr_page request), dg_totalItems = int (length entries),
                  dg_entries = page_of request entries\<rparr>)"

section \<open>The library\<close>

definition compareDownloadLibraryRecency ::
  "(string \<Rightarrow> string \<Rightarrow> int) \<Rightarrow> download_entry \<Rightarrow> download_entry \<Rightarrow> int" where
  "compareDownloadLibraryRecency loc =
     js_or (\<lambda>x y. loc (or_value (de_createdAt x) []) (or_value (de_createdAt y) []))
       (js_or (\<lambda>x y. loc (or_value (de_updatedAt x) []) (or_value (de_updatedAt y) []))
         (js_or (\<lambda>x y. de_revision x - de_revision y) (\<lambda>x y. loc (de_entryId x) (de_entryId y))))"

definition downloadLibraryDisplayTime :: "download_entry \<Rightarrow> string" where
  "downloadLibraryDisplayTime e = or_value (de_createdAt e) (or_value (de_updatedAt e) [])"

text \<open>One step of the loop that keeps the most recent entry of every gallery.\<close>

definition keep_recent :: "(string \<Rightarrow> string \<Rightarrow> int) \<Rightarrow> (gallery_id \<times> download_entry) list \<Rightarrow> download_entry
    \<Rightarrow> (gallery_id \<times> download_entry) list" where
  "keep_recent loc m entry =
     (case map_of m (de_galleryId entry) of
        Some current \<Rightarrow>
          if compareDownloadLibraryRecency loc entry current > 0 then AList.update (de_galleryId entry) entry m else m
      | None \<Rightarrow> AList.update (de_galleryId entry) entry m)"

definition canonical_entries :: "(string \<Rightarrow> string \<Rightarrow> int) \<Rightarrow> browser_backend \<Rightarrow> download_entry list" where
  "canonical_entries loc s = vals (foldl (keep_recent loc) [] (visible_entries s))"

definition summary_known :: "fixture_gallery list \<Rightarrow> browser_backend \<Rightarrow> gallery_id \<Rightarrow> gallery_summary option" where
  "summary_known fixture s i =
     or_else (map_option gd_summary (galleryDetailFixture fixture i))
       (or_else (find (\<lambda>c. gs_id c = i) (bb_autoFindCandidates s))
         (find (\<lambda>item. gs_id item = i) (concat (map sf_items (vals (bb_searchQueries s))))))"

text \<open>Of the summaries kept here the unchecked fields were made by \<^verbatim>\<open>toSummary\<close> or came with a candidate.\<close>

definition localDownloadGallery :: "fixture_gallery list \<Rightarrow> browser_backend \<Rightarrow> gallery_id \<Rightarrow> library_gallery" where
  "localDownloadGallery fixture s i =
     (case summary_known fixture s i of
        None \<Rightarrow> \<lparr>lg_id = i, lg_title = None, lg_artist = None, lg_artists = JUndef, lg_group = None, lg_pages = None,
                 lg_language = None, lg_publishedRank = None, lg_tags = JUndef\<rparr>
      | Some g \<Rightarrow> \<lparr>lg_id = i, lg_title = Some (gs_title g), lg_artist = Some (gs_artist g), lg_artists = gs_artists g,
                 lg_group = (case gs_group g of Some n \<Rightarrow> if n = [] then None else Some n | None \<Rightarrow> None),
                 lg_pages = Some (gs_pages g), lg_language = language_of (gs_language g),
                 lg_publishedRank = Some (gs_publishedRank g), lg_tags = gs_tags g\<rparr>)"

definition library_text :: "library_item \<Rightarrow> string" where
  "library_text it =
     lower (join '' '' [de_entryId (li_download it), show_int (de_galleryId (li_download it)),
       or_value (lg_title (li_gallery it)) [], or_value (lg_artist (li_gallery it)) [],
       or_value (lg_group (li_gallery it)) []])"

definition by_display_time :: "(string \<Rightarrow> string \<Rightarrow> int) \<Rightarrow> library_item \<Rightarrow> library_item \<Rightarrow> int" where
  "by_display_time loc =
     js_or (\<lambda>x y. loc (downloadLibraryDisplayTime (li_download y)) (downloadLibraryDisplayTime (li_download x)))
       (js_or (\<lambda>x y. lg_id (li_gallery y) - lg_id (li_gallery x))
         (\<lambda>x y. loc (de_entryId (li_download y)) (de_entryId (li_download x))))"

definition library_items ::
  "(string \<Rightarrow> string \<Rightarrow> int) \<Rightarrow> fixture_gallery list \<Rightarrow> list_request \<Rightarrow> browser_backend \<Rightarrow> library_item list" where
  "library_items loc fixture request s =
     js_sort (by_display_time loc)
       (filter (\<lambda>it. list_query request = [] \<or> str_includes (list_query request) (library_text it))
         (map (\<lambda>e. \<lparr>li_gallery = localDownloadGallery fixture s (de_galleryId e), li_download = e\<rparr>)
           (filter (state_asked request) (canonical_entries loc s))))"

definition downloadLibraryPageList ::
  "(string \<Rightarrow> string \<Rightarrow> int) \<Rightarrow> fixture_gallery list \<Rightarrow> list_request \<Rightarrow> browser_backend \<Rightarrow> library_page api_result" where
  "downloadLibraryPageList loc fixture request s =
     (case list_refusal request of
        Some err \<Rightarrow> Inl err
      | None \<Rightarrow>
          let items = library_items loc fixture request s
          in Inr \<lparr>lp_page = num_int (lr_page request), lp_totalItems = int (length items), lp_items = page_of request items\<rparr>)"

section \<open>The work under way, and the end of the program\<close>

definition json_opt :: "string option \<Rightarrow> string" where
  "json_opt x = (case x of Some t \<Rightarrow> json_string t | None \<Rightarrow> ''null'')"

definition browserWorkSetFingerprint ::
  "(string \<Rightarrow> string \<Rightarrow> int) \<Rightarrow> string list \<Rightarrow> string option \<Rightarrow> string option \<Rightarrow> string option \<Rightarrow> string" where
  "browserWorkSetFingerprint loc activeDownloadEntryIds autoFindRunId duplicateRunId internalDuplicateRunId =
     ''{'' @ json_string ''downloads'' @ '':'' @ json_list json_string (js_sort loc activeDownloadEntryIds)
     @ '','' @ json_string ''autoFind'' @ '':'' @ json_opt autoFindRunId
     @ '','' @ json_string ''duplicateScan'' @ '':'' @ json_opt duplicateRunId
     @ '','' @ json_string ''internalDuplicateScan'' @ '':'' @ json_opt internalDuplicateRunId @ ''}''"

definition active_entry_ids :: "browser_backend \<Rightarrow> string list" where
  "active_entry_ids s = map de_entryId (filter active_entry (vals (bb_downloadEntries s)))"

definition running_id :: "('r \<Rightarrow> string) \<Rightarrow> ('r \<Rightarrow> string) \<Rightarrow> 'r option \<Rightarrow> string option" where
  "running_id state runId run =
     (case run of Some r \<Rightarrow> if state r = ''running'' then Some (runId r) else None | None \<Rightarrow> None)"

definition autoFind_id :: "browser_backend \<Rightarrow> string option" where
  "autoFind_id s = running_id af_state af_runId (bb_autoFindRun s)"

definition duplicateScan_id :: "browser_backend \<Rightarrow> string option" where
  "duplicateScan_id s = running_id du_state du_runId (dn_run (bb_duplicateSnapshot s))"

definition internalScan_id :: "browser_backend \<Rightarrow> string option" where
  "internalScan_id s = running_id ir_state ir_runId (bb_internalRun s)"

text \<open>Of a running job the snapshot of the exit dialog keeps its run id.\<close>

definition appActiveWorkSnapshot :: "(string \<Rightarrow> string \<Rightarrow> int) \<Rightarrow> string \<Rightarrow> browser_backend \<Rightarrow> work_snapshot" where
  "appActiveWorkSnapshot loc queriedAt s =
     (let ids = js_sort loc (active_entry_ids s)
      in \<lparr>ws_queriedAt = queriedAt,
          ws_workSetFingerprint = browserWorkSetFingerprint loc ids (autoFind_id s) (duplicateScan_id s) (internalScan_id s),
          ws_downloads = int (length ids), ws_recordings = None, ws_autoFind = autoFind_id s,
          ws_duplicateScan = duplicateScan_id s, ws_internalDuplicateScan = internalScan_id s\<rparr>)"

definition appQuit :: "(string \<Rightarrow> string \<Rightarrow> int) \<Rightarrow> string \<Rightarrow> quit_request \<Rightarrow> browser_backend \<Rightarrow> quit_result" where
  "appQuit loc queriedAt request s =
     (let current = appActiveWorkSnapshot loc queriedAt s
      in if qr_expectedWorkSetFingerprint request \<noteq> ws_workSetFingerprint current
         then \<lparr>qt_accepted = False, qt_reason = Some WorkChanged, qt_snapshot = Some current\<rparr>
         else if hasActiveWork current \<and> \<not> qr_confirmActiveWork request
         then \<lparr>qt_accepted = False, qt_reason = Some ConfirmationRequired, qt_snapshot = Some current\<rparr>
         else \<lparr>qt_accepted = True, qt_reason = None, qt_snapshot = Some current\<rparr>)"

text \<open>The last step of a factory reset: the downloads, but not the log of request ids nor the standing entries, are
  forgotten. Favourites and the search history are kept in another record.\<close>

definition factory_reset :: "browser_backend \<Rightarrow> browser_backend" where
  "factory_reset s = s\<lparr>bb_downloadEntries := [], bb_autoFindExclusions := [],
     bb_excludedAutoFindCandidates := [], bb_explorationRestoredGalleryIds := [], bb_autoFindRun := None, bb_autoFindCandidates := []\<rparr>"

end
