(* ===== verification/BrowserDownloadFacts.thy ===== *)
theory BrowserDownloadFacts
  imports BrowserDownloads
begin

text \<open>
  What the lists and the exit of the browser backend promise: the library shows one entry of every visible gallery,
  the most recent; its pages put together are the library; the program only ends over the work the user was shown.
\<close>

section \<open>The most recent entry of a gallery\<close>

lemma signed_js_or: "signed_comparator c \<Longrightarrow> signed_comparator d \<Longrightarrow> signed_comparator (js_or c d)"
proof -
  assume c: "signed_comparator c" and d: "signed_comparator d"
  have "js_comparator (js_or c d)"
    by (rule signed_comparator.js_comparator_or [OF c signed_comparator.axioms(1) [OF d]])
  moreover have "js_or c d y x = - js_or c d x y" for x y
    using signed_comparator.cmp_sym [OF c, of y x] signed_comparator.cmp_sym [OF d, of y x] by (simp add: js_or_def)
  ultimately show ?thesis by (intro signed_comparator.intro signed_comparator_axioms.intro)
qed

lemma recency_signed: "collation loc \<Longrightarrow> signed_comparator (compareDownloadLibraryRecency loc)"
  unfolding compareDownloadLibraryRecency_def
  by (intro signed_js_or collation.signed_comparator_text signed_comparator_up)

definition most_recent ::
  "(string \<Rightarrow> string \<Rightarrow> int) \<Rightarrow> download_entry list \<Rightarrow> (gallery_id \<times> download_entry) list \<Rightarrow> bool" where
  "most_recent loc es m \<longleftrightarrow> distinct (keys m) \<and> set (keys m) = de_galleryId ` set es
     \<and> (\<forall>g e. map_of m g = Some e \<longrightarrow> e \<in> set es \<and> de_galleryId e = g
          \<and> (\<forall>e' \<in> set es. de_galleryId e' = g \<longrightarrow> compareDownloadLibraryRecency loc e' e \<le> 0))"

lemma most_recentD:
  assumes "most_recent loc es m" and "map_of m g = Some e"
  shows "e \<in> set es" and "de_galleryId e = g"
    and "e' \<in> set es \<Longrightarrow> de_galleryId e' = g \<Longrightarrow> compareDownloadLibraryRecency loc e' e \<le> 0"
  using assms by (auto simp: most_recent_def)

lemma most_recentI:
  assumes "distinct (keys m)" and "set (keys m) = de_galleryId ` set es"
    and "\<And>g e. map_of m g = Some e \<Longrightarrow> e \<in> set es \<and> de_galleryId e = g"
    and "\<And>g e e'. map_of m g = Some e \<Longrightarrow> e' \<in> set es \<Longrightarrow> de_galleryId e' = g \<Longrightarrow>
      compareDownloadLibraryRecency loc e' e \<le> 0"
  shows "most_recent loc es m"
  using assms unfolding most_recent_def by blast

lemma most_recent_mem:
  assumes "most_recent loc es m" and "e \<in> set es"
  obtains c where "map_of m (de_galleryId e) = Some c"
proof -
  have "de_galleryId e \<in> fst ` set m" using assms by (simp add: most_recent_def)
  then show ?thesis using that by (cases "map_of m (de_galleryId e)") (auto simp: map_of_eq_None_iff)
qed

lemma recency_facts:
  assumes "collation loc"
  shows "compareDownloadLibraryRecency loc x x \<le> 0"
    and "compareDownloadLibraryRecency loc x y \<le> 0 \<Longrightarrow> compareDownloadLibraryRecency loc y z \<le> 0 \<Longrightarrow>
      compareDownloadLibraryRecency loc x z \<le> 0"
    and "compareDownloadLibraryRecency loc x y > 0 \<Longrightarrow> compareDownloadLibraryRecency loc y x \<le> 0"
proof -
  have j: "js_comparator (compareDownloadLibraryRecency loc)" by (rule signed_comparator.axioms [OF recency_signed [OF assms]])
  show "compareDownloadLibraryRecency loc x x \<le> 0" by (rule js_comparator.cmp_refl [OF j])
  show "compareDownloadLibraryRecency loc x y \<le> 0 \<Longrightarrow> compareDownloadLibraryRecency loc y z \<le> 0 \<Longrightarrow>
      compareDownloadLibraryRecency loc x z \<le> 0" by (rule js_comparator.cmp_trans [OF j])
  show "compareDownloadLibraryRecency loc x y > 0 \<Longrightarrow> compareDownloadLibraryRecency loc y x \<le> 0"
    using js_comparator.cmp_total [OF j, of x y] by linarith
qed

lemma most_recent_put:
  assumes "collation loc" and m: "most_recent loc es m"
    and newer: "\<And>e. map_of m (de_galleryId x) = Some e \<Longrightarrow> compareDownloadLibraryRecency loc e x \<le> 0"
  shows "most_recent loc (es @ [x]) (AList.update (de_galleryId x) x m)"
proof (rule most_recentI)
  show "distinct (keys (AList.update (de_galleryId x) x m))" using m by (simp add: most_recent_def)
  show "set (keys (AList.update (de_galleryId x) x m)) = de_galleryId ` set (es @ [x])"
    unfolding set_keys_update using m by (simp add: most_recent_def)
  fix g e assume l: "map_of (AList.update (de_galleryId x) x m) g = Some e"
  then show "e \<in> set (es @ [x]) \<and> de_galleryId e = g"
    using most_recentD(1,2) [OF m] by (auto simp: lookup_update split: if_splits)
  fix e' assume e': "e' \<in> set (es @ [x])" "de_galleryId e' = g"
  show "compareDownloadLibraryRecency loc e' e \<le> 0"
  proof (cases "g = de_galleryId x")
    case True
    with l have ex: "e = x" by (simp add: lookup_update)
    show ?thesis
    proof (cases "e' = x")
      case False
      with e' have mem: "e' \<in> set es" by simp
      then obtain c where "map_of m (de_galleryId e') = Some c" by (rule most_recent_mem [OF m])
      with True e' have c: "map_of m (de_galleryId x) = Some c" by simp
      have "compareDownloadLibraryRecency loc e' c \<le> 0" using most_recentD(3) [OF m c mem] e' True by simp
      from recency_facts(2) [OF assms(1) this newer [OF c]] show ?thesis unfolding ex .
    qed (simp add: ex recency_facts(1) [OF assms(1)])
  next
    case False
    with l have c: "map_of m g = Some e" by (simp add: lookup_update)
    from False e' have "e' \<in> set es" by auto
    from most_recentD(3) [OF m c this e'(2)] show ?thesis .
  qed
qed

lemma keep_recent_step:
  assumes "collation loc" and m: "most_recent loc es m"
  shows "most_recent loc (es @ [x]) (keep_recent loc m x)"
proof (cases "map_of m (de_galleryId x)")
  case None
  with most_recent_put [OF assms, of x] show ?thesis by (simp add: keep_recent_def)
next
  case (Some c)
  show ?thesis
  proof (cases "compareDownloadLibraryRecency loc x c > 0")
    case True
    with Some most_recent_put [OF assms, of x] recency_facts(3) [OF assms(1)] show ?thesis by (simp add: keep_recent_def)
  next
    case False
    have "most_recent loc (es @ [x]) m"
    proof (rule most_recentI)
      show "distinct (keys m)" using m by (simp add: most_recent_def)
      have "de_galleryId x \<in> set (keys m)" using map_of_SomeD [OF Some] by force
      then show "set (keys m) = de_galleryId ` set (es @ [x])" using m by (auto simp: most_recent_def)
      fix g e assume l: "map_of m g = Some e"
      then show "e \<in> set (es @ [x]) \<and> de_galleryId e = g" using most_recentD(1,2) [OF m] by auto
      fix e' assume e': "e' \<in> set (es @ [x])" "de_galleryId e' = g"
      show "compareDownloadLibraryRecency loc e' e \<le> 0"
      proof (cases "e' \<in> set es")
        case True
        from most_recentD(3) [OF m l this e'(2)] show ?thesis .
      next
        case False
        with e' l Some \<open>\<not> compareDownloadLibraryRecency loc x c > 0\<close> show ?thesis by auto
      qed
    qed
    with Some False show ?thesis by (simp add: keep_recent_def)
  qed
qed

lemma keep_recent_all: "collation loc \<Longrightarrow> most_recent loc es (foldl (keep_recent loc) [] es)"
  by (induction es rule: rev_induct) (simp_all add: keep_recent_step, simp add: most_recent_def)

lemma canonical_entries:
  assumes "collation loc"
  shows "distinct (map de_galleryId (canonical_entries loc s))"
    and "de_galleryId ` set (canonical_entries loc s) = de_galleryId ` set (visible_entries s)"
    and "e \<in> set (canonical_entries loc s) \<Longrightarrow> e \<in> set (visible_entries s)"
    and "e \<in> set (canonical_entries loc s) \<Longrightarrow> e' \<in> set (visible_entries s) \<Longrightarrow> de_galleryId e' = de_galleryId e \<Longrightarrow>
      compareDownloadLibraryRecency loc e' e \<le> 0"
proof -
  define m where "m = foldl (keep_recent loc) [] (visible_entries s)"
  have r: "most_recent loc (visible_entries s) m" unfolding m_def by (rule keep_recent_all [OF assms])
  have look: "map_of m (fst kv) = Some (snd kv)" if "kv \<in> set m" for kv
    using r that by (intro map_of_entries) (simp_all add: most_recent_def)
  have keyed: "de_galleryId (snd kv) = fst kv" if "kv \<in> set m" for kv
    by (rule most_recentD(2) [OF r look [OF that]])
  have ids: "map de_galleryId (vals m) = keys m" using keyed by (auto intro!: map_cong simp: comp_def)
  have c: "canonical_entries loc s = vals m" by (simp add: canonical_entries_def m_def)
  show "distinct (map de_galleryId (canonical_entries loc s))" unfolding c ids using r by (simp add: most_recent_def)
  show "de_galleryId ` set (canonical_entries loc s) = de_galleryId ` set (visible_entries s)"
    using r ids unfolding c most_recent_def by (metis list.set_map)
  show "e \<in> set (visible_entries s)" if "e \<in> set (canonical_entries loc s)"
    using that most_recentD(1) [OF r look] by (auto simp: c)
  show "compareDownloadLibraryRecency loc e' e \<le> 0"
    if "e \<in> set (canonical_entries loc s)" "e' \<in> set (visible_entries s)" "de_galleryId e' = de_galleryId e"
  proof -
    from that(1) obtain kv where kv: "kv \<in> set m" "e = snd kv" by (auto simp: c)
    with keyed [OF kv(1)] that(3) most_recentD(3) [OF r look [OF kv(1)] that(2)] show ?thesis by simp
  qed
qed

section \<open>Pages\<close>

lemma page_of_join:
  assumes "1 \<le> n"
  shows "concat (map (\<lambda>p. page_of \<lparr>lr_state = st, lr_query = q, lr_page = Num (of_int p), lr_pageSize = Num (of_int n)\<rparr> xs)
      [1..ceil_div (int (length xs)) n]) = xs"
  using pages_join [OF assms, of xs] by (simp add: page_of_def Let_def num_int_def)

section \<open>The fingerprint of the work\<close>

lemma json_opt_inj: "json_opt a @ CHR '','' # u = json_opt b @ CHR '','' # v \<longleftrightarrow> a = b \<and> u = v"
  "json_opt a = json_opt b \<longleftrightarrow> a = b"
  by (cases a; cases b; auto simp: json_opt_def json_string_inj; auto simp: json_string_def quote_char_def)+

lemma fingerprint_inj:
  "browserWorkSetFingerprint loc ids a d i = browserWorkSetFingerprint loc ids' a' d' i' \<longleftrightarrow>
     js_sort loc ids = js_sort loc ids' \<and> a = a' \<and> d = d' \<and> i = i'"
  by (auto simp: browserWorkSetFingerprint_def json_opt_inj)

section \<open>Properties\<close>

definition library_request :: "int \<Rightarrow> int \<Rightarrow> list_request" where
  "library_request n p = \<lparr>lr_state = None, lr_query = None, lr_page = Num (of_int p), lr_pageSize = Num (of_int n)\<rparr>"

definition shown_items :: "library_page api_result \<Rightarrow> library_item list" where
  "shown_items r = (case r of Inr pg \<Rightarrow> lp_items pg | Inl _ \<Rightarrow> [])"

lemma library_request_accepted: "1 \<le> n \<Longrightarrow> n \<le> 200 \<Longrightarrow> 1 \<le> p \<Longrightarrow> list_refusal (library_request n p) = None"
proof -
  have "(of_int n :: rat) \<le> 200 \<longleftrightarrow> n \<le> 200" by (metis of_int_le_iff of_int_numeral)
  then show "1 \<le> n \<Longrightarrow> n \<le> 200 \<Longrightarrow> 1 \<le> p \<Longrightarrow> list_refusal (library_request n p) = None"
    by (simp add: list_refusal_def library_request_def js_lt_def list_query_def)
qed

lemma library_items_request: "library_items loc fixture (library_request n p) s = library_items loc fixture (library_request n 1) s"
  by (simp add: library_items_def library_request_def list_query_def state_asked_def)

lemma library_items_all:
  "mset (library_items loc fixture (library_request n 1) s)
    = mset (map (\<lambda>e. \<lparr>li_gallery = localDownloadGallery fixture s (de_galleryId e), li_download = e\<rparr>) (canonical_entries loc s))"
  by (simp add: library_items_def library_request_def list_query_def state_asked_def)

lemma lg_id_local [simp]: "lg_id (localDownloadGallery fixture s i) = i"
  by (simp add: localDownloadGallery_def split: option.splits)

text \<open>C15: The pages of the library, put together, are the library: one item for every gallery that has a visible
  entry, no gallery twice, and the entry shown is the most recent one its gallery has, by creation time, then change
  time, then revision, then id.\<close>

theorem library_shows_latest:
  assumes "collation loc" and "1 \<le> n" and "n \<le> 200"
  shows "let items = library_items loc fixture (library_request n 1) s in
    concat (map (\<lambda>p. shown_items (downloadLibraryPageList loc fixture (library_request n p) s))
      [1..ceil_div (int (length items)) n]) = items
    \<and> distinct (map (\<lambda>it. lg_id (li_gallery it)) items)
    \<and> (\<lambda>it. lg_id (li_gallery it)) ` set items = de_galleryId ` set (visible_entries s)
    \<and> (\<forall>it \<in> set items. li_download it \<in> set (visible_entries s) \<and> de_galleryId (li_download it) = lg_id (li_gallery it)
        \<and> (\<forall>e \<in> set (visible_entries s). de_galleryId e = lg_id (li_gallery it) \<longrightarrow>
             compareDownloadLibraryRecency loc e (li_download it) \<le> 0))"
proof -
  define items where "items = library_items loc fixture (library_request n 1) s"
  define f where "f e = \<lparr>li_gallery = localDownloadGallery fixture s (de_galleryId e), li_download = e\<rparr>" for e
  have m: "mset items = mset (map f (canonical_entries loc s))"
    unfolding items_def f_def by (rule library_items_all)
  have "mset (map (\<lambda>it. lg_id (li_gallery it)) items) = mset (map de_galleryId (canonical_entries loc s))"
    using arg_cong [OF m, of "image_mset (\<lambda>it. lg_id (li_gallery it))"] by (simp add: image_mset.compositionality comp_def f_def)
  then have d: "distinct (map (\<lambda>it. lg_id (li_gallery it)) items)"
    by (metis canonical_entries(1) [OF assms(1)] mset_eq_imp_distinct_iff)
  have mem: "set items = f ` set (canonical_entries loc s)" using mset_eq_setD [OF m] by simp
  have page: "shown_items (downloadLibraryPageList loc fixture (library_request n p) s)
      = page_of (library_request n p) items" if "1 \<le> p" for p
    using library_request_accepted [OF assms(2,3) that]
    by (simp add: downloadLibraryPageList_def shown_items_def Let_def library_items_request [of _ _ _ p] items_def)
  have "concat (map (\<lambda>p. shown_items (downloadLibraryPageList loc fixture (library_request n p) s))
      [1..ceil_div (int (length items)) n])
      = concat (map (\<lambda>p. page_of (library_request n p) items) [1..ceil_div (int (length items)) n])"
    by (intro arg_cong [of _ _ concat] map_cong refl page) simp
  also have "\<dots> = items" unfolding library_request_def by (rule page_of_join [OF assms(2)])
  finally have "concat (map (\<lambda>p. shown_items (downloadLibraryPageList loc fixture (library_request n p) s))
      [1..ceil_div (int (length items)) n]) = items" .
  with d canonical_entries(2-4) [OF assms(1)] show ?thesis
    unfolding items_def [symmetric] Let_def by (simp add: mem f_def image_image)
qed

lemma library_shows_latest_witness:
  "distinct (map (\<lambda>it. lg_id (li_gallery it)) (library_items lex_cmp [] (library_request 2 1) new_backend))"
  using library_shows_latest [of lex_cmp 2 "[]" new_backend] by (simp add: collation_lex_cmp Let_def)

text \<open>C20: The program only ends over the work its user was shown: a quit request made from a snapshot of the work is
  accepted later only while the same downloads are active and the same scans are running; and it is accepted as long
  as nothing has changed.\<close>

theorem quit_only_known_work:
  "(qt_accepted (appQuit loc t' (quit_request_for (Some (appActiveWorkSnapshot loc t s))) s') \<longrightarrow>
      mset (active_entry_ids s') = mset (active_entry_ids s) \<and> autoFind_id s' = autoFind_id s
      \<and> duplicateScan_id s' = duplicateScan_id s \<and> internalScan_id s' = internalScan_id s)
   \<and> qt_accepted (appQuit loc t' (quit_request_for (Some (appActiveWorkSnapshot loc t s))) s)"
proof -
  have "hasActiveWork (appActiveWorkSnapshot loc t s) = hasActiveWork (appActiveWorkSnapshot loc t' s)"
    by (simp add: hasActiveWork_def appActiveWorkSnapshot_def)
  then have "qt_accepted (appQuit loc t' (quit_request_for (Some (appActiveWorkSnapshot loc t s))) s)"
    by (simp add: appQuit_def Let_def quit_request_for_def) (simp add: appActiveWorkSnapshot_def Let_def)
  moreover have "mset (active_entry_ids s') = mset (active_entry_ids s) \<and> autoFind_id s' = autoFind_id s
      \<and> duplicateScan_id s' = duplicateScan_id s \<and> internalScan_id s' = internalScan_id s"
    if a: "qt_accepted (appQuit loc t' (quit_request_for (Some (appActiveWorkSnapshot loc t s))) s')"
  proof -
    from a have "ws_workSetFingerprint (appActiveWorkSnapshot loc t s) = ws_workSetFingerprint (appActiveWorkSnapshot loc t' s')"
      by (simp add: appQuit_def Let_def quit_request_for_def split: if_splits)
    then have "js_sort loc (js_sort loc (active_entry_ids s)) = js_sort loc (js_sort loc (active_entry_ids s'))"
      and "autoFind_id s' = autoFind_id s" "duplicateScan_id s' = duplicateScan_id s" "internalScan_id s' = internalScan_id s"
      by (simp_all add: appActiveWorkSnapshot_def Let_def fingerprint_inj)
    then show ?thesis by (metis mset_js_sort)
  qed
  ultimately show ?thesis by blast
qed

lemma quit_only_known_work_witness: "qt_accepted (appQuit lex_cmp ''2'' (quit_request_for
    (Some (appActiveWorkSnapshot lex_cmp ''1'' new_backend))) new_backend)"
  using quit_only_known_work [of lex_cmp "''2''" "''1''" new_backend new_backend] by blast

end
