(* ===== verification/BrowserBackend.thy ===== *)
theory BrowserBackend
  imports BrowserExclusions BrowserDownloadFacts
begin

text \<open>
  \<^verbatim>\<open>BrowserMockBackend\<close> (\<^verbatim>\<open>src/src/api/backend.ts\<close>) as a machine: a call answers and changes the state, time passes,
  the task that is due first runs. The facts that span its operations: entries of the download queue keep their
  identity and only move forward, a request id always means the same request, and a refused call changes nothing.
\<close>

section \<open>The machine\<close>

datatype browser_call =
    QueueAdd "js_num list" string string
  | Retry "string list" bool
  | CancelEntries "string list"
  | ScanStart "js_num list option" string
  | ScanCancel string
  | DecideDuplicate duplicate_decision_request string
  | OpenReview string
  | DecideOverlap overlap_decision_request string
  | MergeEditions overlap_merge_request string string
  | AcknowledgeHistory string string
  | ExcludeGalleries "js_num list" string string
  | RestoreGalleries "js_num list"
  | ResetExploration string nat nat

datatype browser_input =
    Call browser_call
  | Listen bool
  | Elapse nat
  | TimerFires string
  | FactoryReset

definition refused :: "'a api_result \<times> browser_backend \<Rightarrow> bool \<times> browser_backend" where
  "refused r = (case r of (Inl _, s) \<Rightarrow> (True, s) | (Inr _, s) \<Rightarrow> (False, s))"

text \<open>Whether a call is refused, and the state after it.\<close>

fun answer_call :: "(string \<Rightarrow> js_value option) \<Rightarrow> (string \<Rightarrow> string) \<Rightarrow> browser_call \<Rightarrow> browser_backend \<Rightarrow>
    bool \<times> browser_backend" where
  "answer_call parse nfkc (QueueAdd galleries requestId now) s = refused (downloadQueueAdd galleries requestId now s)"
| "answer_call parse nfkc (Retry entryIds fillAvailable) s = refused (downloadRetry entryIds fillAvailable s)"
| "answer_call parse nfkc (CancelEntries entryIds) s = refused (downloadCancel entryIds s)"
| "answer_call parse nfkc (ScanStart galleryIds now) s = refused (duplicateScanStart galleryIds now s)"
| "answer_call parse nfkc (ScanCancel now) s = refused (duplicateScanCancel now s)"
| "answer_call parse nfkc (DecideDuplicate request now) s = refused (duplicateDecisionApply request now s)"
| "answer_call parse nfkc (OpenReview reviewId) s = refused (downloadOverlapReviewGet reviewId s)"
| "answer_call parse nfkc (DecideOverlap request now) s = refused (downloadOverlapDecisionApply parse nfkc request now s)"
| "answer_call parse nfkc (MergeEditions request uuid now) s = refused (downloadOverlapMerge nfkc request uuid now s)"
| "answer_call parse nfkc (AcknowledgeHistory reviewId now) s = refused (downloadOverlapAutomationHistoryAcknowledge reviewId now s)"
| "answer_call parse nfkc (ExcludeGalleries galleryIds reason now) s = refused (autoFindExclude galleryIds reason now s)"
| "answer_call parse nfkc (RestoreGalleries galleryIds) s = refused (explorationExclusionsRestore galleryIds s)"
| "answer_call parse nfkc (ResetExploration confirmation favorites history) s =
     refused (explorationDataReset confirmation favorites history s)"

fun run_task :: "browser_task \<Rightarrow> string \<Rightarrow> browser_backend \<Rightarrow> browser_backend" where
  "run_task (DownloadTask entryId attempt step) now s = run_download_task entryId attempt step s"
| "run_task (DuplicateTask generation finish) now s = advanceDuplicateScanFixture generation finish now s"

text \<open>The first task runs once its time has come; it may run late, but not before one that was due earlier.\<close>

definition fire_timer :: "string \<Rightarrow> browser_backend \<Rightarrow> browser_backend" where
  "fire_timer now s =
     (case bb_timers s of
        [] \<Rightarrow> s
      | t # ts \<Rightarrow> if bt_due t \<le> bb_clock s then run_task (bt_task t) now (s\<lparr>bb_timers := ts\<rparr>) else s)"

fun browser_step :: "(string \<Rightarrow> js_value option) \<Rightarrow> (string \<Rightarrow> string) \<Rightarrow> browser_backend \<Rightarrow> browser_input \<Rightarrow> browser_backend" where
  "browser_step parse nfkc s (Call c) = snd (answer_call parse nfkc c s)"
| "browser_step parse nfkc s (Listen on) = s\<lparr>bb_listening := on\<rparr>"
| "browser_step parse nfkc s (Elapse d) = s\<lparr>bb_clock := bb_clock s + d\<rparr>"
| "browser_step parse nfkc s (TimerFires now) = fire_timer now s"
| "browser_step parse nfkc s FactoryReset = factory_reset s"

abbreviation run_browser where
  "run_browser parse nfkc \<equiv> foldl (browser_step parse nfkc)"

section \<open>Entries move forward\<close>

text \<open>An entry keeps its id and gallery; its revision never falls, and rises with every change of its state.\<close>

definition entry_step :: "download_entry \<Rightarrow> download_entry \<Rightarrow> bool" where
  "entry_step e e' \<longleftrightarrow> de_entryId e' = de_entryId e \<and> de_galleryId e' = de_galleryId e
     \<and> de_revision e \<le> de_revision e' \<and> (de_state e' \<noteq> de_state e \<longrightarrow> de_revision e < de_revision e')"

lemma entry_step_refl [simp]: "entry_step e e"
  by (simp add: entry_step_def)

lemma entry_step_trans: "entry_step e e' \<Longrightarrow> entry_step e' e'' \<Longrightarrow> entry_step e e''"
  by (auto simp: entry_step_def)

definition keyed :: "browser_backend \<Rightarrow> bool" where
  "keyed s \<longleftrightarrow> (\<forall>i e. map_of (bb_downloadEntries s) i = Some e \<longrightarrow> de_entryId e = i)"

lemma keyedD: "keyed s \<Longrightarrow> map_of (bb_downloadEntries s) i = Some e \<Longrightarrow> de_entryId e = i"
  by (simp add: keyed_def)

definition advances :: "browser_backend \<Rightarrow> browser_backend \<Rightarrow> bool" where
  "advances s s' \<longleftrightarrow> (\<forall>i e. map_of (bb_downloadEntries s) i = Some e \<longrightarrow>
     (\<exists>e'. map_of (bb_downloadEntries s') i = Some e' \<and> entry_step e e'))"

lemma advancesD:
  assumes "advances s s'" and "map_of (bb_downloadEntries s) i = Some e"
  obtains e' where "map_of (bb_downloadEntries s') i = Some e'" and "entry_step e e'"
  using assms unfolding advances_def by blast

lemma advancesI:
  "(\<And>i e. map_of (bb_downloadEntries s) i = Some e \<Longrightarrow> \<exists>e'. map_of (bb_downloadEntries s') i = Some e' \<and> entry_step e e')
   \<Longrightarrow> advances s s'"
  unfolding advances_def by blast

lemma advances_refl [simp]: "advances s s"
  by (rule advancesI) auto

lemma advances_trans: "advances s s' \<Longrightarrow> advances s' s'' \<Longrightarrow> advances s s''"
  by (rule advancesI) (meson advancesD entry_step_trans)

text \<open>What every operation but a queueing one does to the downloads.\<close>

definition touches :: "browser_backend \<Rightarrow> browser_backend \<Rightarrow> bool" where
  "touches s s' \<longleftrightarrow> advances s s' \<and> keys (bb_downloadEntries s') = keys (bb_downloadEntries s)
     \<and> bb_nextDownloadEntryId s' = bb_nextDownloadEntryId s
     \<and> bb_downloadQueueRequests s' = bb_downloadQueueRequests s
     \<and> (\<forall>g i. map_of (bb_activeDownloadEntryByGallery s') g = Some i \<longrightarrow>
          map_of (bb_activeDownloadEntryByGallery s) g = Some i
          \<or> (\<exists>e. map_of (bb_downloadEntries s) i = Some e \<and> de_galleryId e = g))"

lemma touches_refl [simp]: "touches s s"
  by (simp add: touches_def)

lemma advances_gallery:
  assumes "advances s s'" and "keys (bb_downloadEntries s') = keys (bb_downloadEntries s)"
    and "map_of (bb_downloadEntries s') i = Some e'"
  obtains e where "map_of (bb_downloadEntries s) i = Some e" and "entry_step e e'"
proof -
  have "i \<in> fst ` set (bb_downloadEntries s)"
    using map_of_SomeD [OF assms(3)] arg_cong [OF assms(2), of set] by force
  then obtain e where e: "map_of (bb_downloadEntries s) i = Some e"
    by (cases "map_of (bb_downloadEntries s) i") (auto simp: map_of_eq_None_iff)
  from advancesD [OF assms(1) this] assms(3) have "entry_step e e'" by auto
  with e that show ?thesis by blast
qed

lemma touches_trans:
  assumes a: "touches s s'" and b: "touches s' s''"
  shows "touches s s''"
proof -
  have "map_of (bb_activeDownloadEntryByGallery s) g = Some i
      \<or> (\<exists>e. map_of (bb_downloadEntries s) i = Some e \<and> de_galleryId e = g)"
    if "map_of (bb_activeDownloadEntryByGallery s'') g = Some i" for g i
  proof -
    from b that consider "map_of (bb_activeDownloadEntryByGallery s') g = Some i"
      | e' where "map_of (bb_downloadEntries s') i = Some e'" "de_galleryId e' = g" unfolding touches_def by blast
    then show ?thesis
    proof cases
      case 1
      with a show ?thesis by (simp add: touches_def)
    next
      case 2
      from a have "advances s s'" "keys (bb_downloadEntries s') = keys (bb_downloadEntries s)" by (simp_all add: touches_def)
      from advances_gallery [OF this 2(1)] 2(2) show ?thesis by (metis entry_step_def)
    qed
  qed
  with a b show ?thesis unfolding touches_def by (auto intro: advances_trans)
qed

lemma keyed_touches:
  assumes "touches s s'" and "keyed s"
  shows "keyed s'"
proof -
  have "de_entryId e' = i" if l: "map_of (bb_downloadEntries s') i = Some e'" for i e'
  proof -
    from assms(1) have "advances s s'" "keys (bb_downloadEntries s') = keys (bb_downloadEntries s)" by (simp_all add: touches_def)
    from this l obtain e where "map_of (bb_downloadEntries s) i = Some e" "entry_step e e'" by (rule advances_gallery)
    with keyedD [OF assms(2)] show ?thesis by (simp add: entry_step_def)
  qed
  then show ?thesis by (simp add: keyed_def)
qed

lemma touches_chain: "keyed s \<Longrightarrow> touches s s' \<Longrightarrow> (keyed s' \<Longrightarrow> touches s' s'') \<Longrightarrow> touches s s''"
  by (blast intro: touches_trans keyed_touches)

lemma touches_same:
  "bb_downloadEntries s' = bb_downloadEntries s \<Longrightarrow> bb_nextDownloadEntryId s' = bb_nextDownloadEntryId s \<Longrightarrow>
   bb_downloadQueueRequests s' = bb_downloadQueueRequests s \<Longrightarrow>
   bb_activeDownloadEntryByGallery s' = bb_activeDownloadEntryByGallery s \<Longrightarrow> touches s s'"
  by (simp add: touches_def advances_def)

lemma keys_update_known: "k \<in> set (keys m) \<Longrightarrow> keys (AList.update k v m) = keys m"
  by (induction m) auto

lemma touches_update:
  assumes "map_of (bb_downloadEntries s) i = Some e" and "entry_step e e'"
    and "bb_downloadEntries s' = AList.update i e' (bb_downloadEntries s)"
    and "bb_nextDownloadEntryId s' = bb_nextDownloadEntryId s" "bb_downloadQueueRequests s' = bb_downloadQueueRequests s"
    and "bb_activeDownloadEntryByGallery s' = bb_activeDownloadEntryByGallery s"
  shows "touches s s'"
proof -
  have "i \<in> set (keys (bb_downloadEntries s))" using map_of_SomeD [OF assms(1)] by force
  from keys_update_known [OF this] assms show ?thesis
    by (auto simp: touches_def advances_def lookup_update)
qed

lemma touches_set_entry:
  "keyed s \<Longrightarrow> map_of (bb_downloadEntries s) i = Some e \<Longrightarrow> entry_step e e' \<Longrightarrow> touches s (set_entry e' s)"
  by (rule touches_update [of s i e e']) (auto simp: set_entry_def entry_step_def keyed_def)

lemma touches_standing:
  assumes "\<And>g i. map_of m g = Some i \<Longrightarrow> map_of (bb_activeDownloadEntryByGallery s) g = Some i
      \<or> (\<exists>e. map_of (bb_downloadEntries s) i = Some e \<and> de_galleryId e = g)"
  shows "touches s (s\<lparr>bb_activeDownloadEntryByGallery := m\<rparr>)"
  using assms by (auto simp: touches_def advances_def)

lemma touches_foldl:
  assumes "\<And>s x. x \<in> set xs \<Longrightarrow> keyed s \<Longrightarrow> touches s (f s x)" and "keyed s"
  shows "touches s (foldl f s xs)"
  using assms
proof (induction xs arbitrary: s)
  case (Cons x xs)
  from Cons.prems have "touches s (f s x)" by simp
  then show ?case
    using Cons.prems by (auto intro!: touches_trans [OF _ Cons.IH] intro: keyed_touches)
qed simp

section \<open>What each operation does to the downloads\<close>

lemma touches_emit [simp]: "touches s (emit e s)"
  by (rule touches_same) (simp_all add: emit_def)

lemma touches_timeout [simp]: "touches s (setTimeout d t s)"
  by (rule touches_same) (simp_all add: setTimeout_def)

lemma touches_review [simp]: "touches s (set_review i r s)"
  by (rule touches_same) (simp_all add: set_review_def)

lemma touches_hide [simp]: "touches s (hide_gallery g s)"
  by (rule touches_same) (simp_all add: hide_gallery_def)

lemma touches_record [simp]: "touches s (record_automation i h s)"
  by (rule touches_same) (simp_all add: record_automation_def)

lemma touches_candidates [simp]: "touches s (set_candidates f s)"
  by (rule touches_same) (simp_all add: set_candidates_def)

lemma touches_release [simp]: "touches s (release_gallery g i s)"
  unfolding release_gallery_def by (auto intro!: touches_standing simp: lookup_delete split: if_splits)

lemma touches_worker [simp]: "touches s (start_worker i a s)"
  unfolding start_worker_def runFixtureDownload_def by (simp add: touches_trans [OF touches_timeout touches_timeout])

lemma entry_step_worked: "de_state current = expected_state step \<Longrightarrow> entry_step current (worked_entry a step current)"
  by (cases step) (simp_all add: entry_step_def worked_entry_def Let_def)

lemma touches_task: "touches s (run_download_task i a step s)"
proof (cases "map_of (bb_downloadEntries s) i")
  case (Some current)
  show ?thesis
  proof (cases "de_state current \<noteq> expected_state step \<or> de_attempt current \<noteq> Some a")
    case False
    let ?s1 = "s\<lparr>bb_downloadEntries := AList.update i (worked_entry a step current) (bb_downloadEntries s)\<rparr>"
    have "touches s ?s1" using Some False by (intro touches_update [of s i current "worked_entry a step current"] entry_step_worked) simp_all
    moreover have "touches ?s1 (if step_state step = Interrupted then release_gallery (de_galleryId current) i ?s1 else ?s1)" by simp
    ultimately show ?thesis
      using Some False by (auto simp: run_download_task_def Let_def intro!: touches_trans [OF _ touches_emit] intro: touches_trans)
  qed (use Some in \<open>auto simp: run_download_task_def\<close>)
qed (simp add: run_download_task_def)

text \<open>Operations on several entries work on the entries as they were at the beginning.\<close>

lemma touches_captured:
  assumes "\<And>s e. e \<in> set es \<Longrightarrow> keyed s \<Longrightarrow> map_of (bb_downloadEntries s) (de_entryId e) = Some e \<Longrightarrow> touches s (f s e)"
    and "\<And>s e j. j \<noteq> de_entryId e \<Longrightarrow> map_of (bb_downloadEntries (f s e)) j = map_of (bb_downloadEntries s) j"
    and "keyed s" and "distinct (map de_entryId es)"
    and "\<And>e. e \<in> set es \<Longrightarrow> map_of (bb_downloadEntries s) (de_entryId e) = Some e"
  shows "touches s (foldl f s es)"
  using assms
proof (induction es arbitrary: s)
  case (Cons e es)
  have t: "touches s (f s e)" using Cons.prems(1,3,5) by simp
  have "map_of (bb_downloadEntries (f s e)) (de_entryId x) = Some x" if "x \<in> set es" for x
  proof -
    have "de_entryId x \<in> de_entryId ` set es" using that by (rule imageI)
    then have "de_entryId x \<noteq> de_entryId e" using Cons.prems(4) by auto
    then show ?thesis using Cons.prems(2,5) that by simp
  qed
  with Cons.prems keyed_touches [OF t Cons.prems(3)] have "touches (f s e) (foldl f (f s e) es)"
    by (intro Cons.IH) simp_all
  with t show ?case by (auto intro: touches_trans)
qed simp

lemma entries_of_captured:
  assumes "keyed s" and "distinct normalized"
  shows "distinct (map de_entryId (entries_of normalized s))"
    and "e \<in> set (entries_of normalized s) \<Longrightarrow> map_of (bb_downloadEntries s) (de_entryId e) = Some e"
proof -
  have "map de_entryId (entries_of normalized s) = filter (\<lambda>i. map_of (bb_downloadEntries s) i \<noteq> None) normalized"
    unfolding entries_of_def
    by (induction normalized) (auto simp: List.map_filter_simps keyedD [OF assms(1)] split: option.splits)
  with assms(2) show "distinct (map de_entryId (entries_of normalized s))" by simp
  show "map_of (bb_downloadEntries s) (de_entryId e) = Some e" if "e \<in> set (entries_of normalized s)"
    using that keyedD [OF assms(1)] by (auto simp: entries_of_def List.map_filter_def)
qed

lemma touches_retry_entry:
  assumes "keyed s" and "map_of (bb_downloadEntries s) (de_entryId e) = Some e"
  shows "touches s (retry_entry s e)"
proof (cases "active_entry e")
  case False
  then have "entry_step e (retried_entry e)" by (simp add: entry_step_def retried_entry_def)
  from touches_set_entry [OF assms this] have t: "touches s (set_entry (retried_entry e) s)" .
  let ?s1 = "set_entry (retried_entry e) s"
  have l: "map_of (bb_downloadEntries ?s1) (de_entryId (retried_entry e)) = Some (retried_entry e)"
    by (simp add: set_entry_def lookup_update retried_entry_def)
  have "touches ?s1 (?s1\<lparr>bb_activeDownloadEntryByGallery := AList.update (de_galleryId (retried_entry e))
      (de_entryId (retried_entry e)) (bb_activeDownloadEntryByGallery ?s1)\<rparr>)"
    by (rule touches_standing) (use l in \<open>auto simp: lookup_update split: if_splits\<close>)
  with t have "touches s (?s1\<lparr>bb_activeDownloadEntryByGallery := AList.update (de_galleryId (retried_entry e))
      (de_entryId (retried_entry e)) (bb_activeDownloadEntryByGallery ?s1)\<rparr>)" by (rule touches_trans)
  with False show ?thesis
    unfolding retry_entry_def Let_def by (auto intro!: touches_trans [OF _ touches_worker] touches_trans [OF _ touches_emit])
qed (simp add: retry_entry_def)

lemma entries_worker [simp]: "bb_downloadEntries (start_worker i a s) = bb_downloadEntries s"
  by (simp add: start_worker_def runFixtureDownload_def setTimeout_def)

lemma entries_emit [simp]: "bb_downloadEntries (emit e s) = bb_downloadEntries s"
  by (simp add: emit_def)

lemma entries_release [simp]: "bb_downloadEntries (release_gallery g i s) = bb_downloadEntries s"
  by (simp add: release_gallery_def)

lemma retry_entry_other: "j \<noteq> de_entryId e \<Longrightarrow> map_of (bb_downloadEntries (retry_entry s e)) j = map_of (bb_downloadEntries s) j"
  by (auto simp: retry_entry_def Let_def set_entry_def lookup_update retried_entry_def)

lemma entry_step_cancelled: "entry_step e (cancelled_entry e)"
  by (simp add: entry_step_def cancelled_entry_def Let_def)

lemma cancelled_entry_id [simp]: "de_entryId (cancelled_entry e) = de_entryId e"
  using entry_step_cancelled by (simp add: entry_step_def)

lemma touches_cancel_entry:
  assumes "keyed s" and "map_of (bb_downloadEntries s) (de_entryId e) = Some e"
  shows "touches s (cancel_entry s e)"
  using touches_set_entry [OF assms entry_step_cancelled]
  by (auto simp: cancel_entry_def Let_def intro!: touches_trans [OF _ touches_emit] intro: touches_trans [OF _ touches_release])

lemma cancel_entry_other: "j \<noteq> de_entryId e \<Longrightarrow> map_of (bb_downloadEntries (cancel_entry s e)) j = map_of (bb_downloadEntries s) j"
  by (auto simp: cancel_entry_def Let_def set_entry_def lookup_update)

lemma distinct_trimmed: "distinct (trimmed_ids ids)"
  by (simp add: trimmed_ids_def)

lemma touches_retry_normalized: "keyed s \<Longrightarrow> distinct ids \<Longrightarrow> touches s (snd (retry_normalized ids s))"
  unfolding retry_normalized_def Let_def
  by (auto split: option.splits intro!: touches_captured touches_retry_entry retry_entry_other entries_of_captured)

lemma touches_retry: "keyed s \<Longrightarrow> touches s (snd (downloadRetry ids fill s))"
  by (simp add: downloadRetry_def touches_retry_normalized distinct_trimmed)

lemma touches_cancel: "keyed s \<Longrightarrow> touches s (snd (downloadCancel ids s))"
  unfolding downloadCancel_def Let_def
  by (auto split: option.splits intro!: touches_captured touches_cancel_entry cancel_entry_other entries_of_captured distinct_trimmed)

lemma touches_scan_start: "touches s (snd (duplicateScanStart ids now s))"
  by (auto simp: duplicateScanStart_def start_scan_def Let_def split: option.splits
      intro!: touches_trans [OF _ touches_emit] touches_trans [OF _ touches_timeout] touches_same)

lemma touches_scan_cancel: "touches s (snd (duplicateScanCancel now s))"
  by (auto simp: duplicateScanCancel_def set_run_def Let_def split: option.splits
      intro!: touches_trans [OF _ touches_emit] touches_same)

lemma touches_advance: "touches s (advanceDuplicateScanFixture g finish now s)"
  by (auto simp: advanceDuplicateScanFixture_def report_fixture_def Let_def split: option.splits
      intro!: touches_trans [OF _ touches_emit] touches_same)

lemma touches_settle_candidate [simp]: "touches s (settle_candidate act i c s)"
  by (auto simp: settle_candidate_def set_candidates_def intro!: touches_same)

lemma touches_decide_duplicate: "touches s (snd (duplicateDecisionApply request now s))"
  by (auto simp: duplicateDecisionApply_def Let_def split: option.splits
      intro!: touches_trans [OF _ touches_settle_candidate] touches_trans [OF _ touches_hide] touches_same)

lemma touches_cancel_removed: "keyed s \<Longrightarrow> touches s (cancel_removed i s)"
  unfolding cancel_removed_def
  by (cases "map_of (bb_downloadEntries s) i") (auto intro!: touches_set_entry simp: entry_step_def)

lemma touches_pair_decided: "keyed s \<Longrightarrow> touches s (snd (pair_decided request i now old s))"
  unfolding pair_decided_def pair_removal_def Let_def
  by (auto split: duplicate_action.splits intro!: touches_trans [OF _ touches_review] touches_cancel_removed)

lemma touches_decide_pair: "keyed s \<Longrightarrow> touches s (snd (decide_pair request i now s))"
proof -
  assume k: "keyed s"
  have d: "touches s s1" if "duplicateDecisionApply q now s = (r, s1)" for q r s1
    using touches_decide_duplicate [of s q now] that by simp
  have "touches s s2" if "duplicateDecisionApply q now s = (r, s1)" "pair_decided request i now old s1 = (x, s2)" for q r s1 old x s2
    using touches_pair_decided [OF keyed_touches [OF d [OF that(1)] k], of request i now old] that(2) touches_trans [OF d [OF that(1)]]
    by simp
  then show ?thesis
    unfolding decide_pair_def by (auto split: option.splits prod.splits sum.splits dest: d)
qed

lemma touches_settle_existing:
  assumes "keyed s" and "map_of (bb_downloadEntries s) (de_entryId e) = Some e"
  shows "touches s (settle_existing e chained now s)"
proof -
  have r: "touches s (set_entry e' (set_review i v s))" if "entry_step e e'" for e' i v
  proof (rule touches_trans [OF touches_review])
    have "keyed (set_review i v s)" by (rule keyed_touches [OF touches_review assms(1)])
    then show "touches (set_review i v s) (set_entry e' (set_review i v s))"
      using assms(2) that by (intro touches_set_entry [of _ "de_entryId e" e]) (simp_all add: set_review_def)
  qed
  show ?thesis
    unfolding settle_existing_def
    by (auto split: option.splits intro!: r touches_set_entry [OF assms] simp: entry_step_def withdrawn_def)
qed

lemma touches_note: "touches s (note_automation request review nx s)"
  by (simp add: note_automation_def Let_def)

lemma entries_hide [simp]: "bb_downloadEntries (hide_gallery g s) = bb_downloadEntries s"
  by (simp add: hide_gallery_def)

lemma entries_note [simp]: "bb_downloadEntries (note_automation request review nx s) = bb_downloadEntries s"
  by (simp add: note_automation_def record_automation_def Let_def)

lemma entries_review [simp]: "bb_downloadEntries (set_review i v s) = bb_downloadEntries s"
  by (simp add: set_review_def)

lemma touches_remove_existing:
  assumes "keyed s" and "\<And>e. existing = Some e \<Longrightarrow> map_of (bb_downloadEntries s) (de_entryId e) = Some e"
  shows "touches s (remove_existing request review existing chained now s)"
proof -
  have "touches s (settle_existing e chained now (hide_gallery g s))" if "existing = Some e" for e g
  proof (rule touches_trans [OF touches_hide])
    have "keyed (hide_gallery g s)" by (rule keyed_touches [OF touches_hide assms(1)])
    then show "touches (hide_gallery g s) (settle_existing e chained now (hide_gallery g s))"
      using assms(2) [OF that] by (intro touches_settle_existing) simp_all
  qed
  then show ?thesis unfolding remove_existing_def by (auto split: option.splits)
qed

lemma touches_finish: "touches s (finish_review cancelled waiting i s)"
proof (cases "map_of (bb_downloadEntries s) i")
  case (Some e)
  let ?e = "e\<lparr>de_revision := de_revision e + 1, de_state := (if cancelled then Cancelled else Queued),
      de_reviewKind := None, de_reviewId := None\<rparr>"
  have "touches s (s\<lparr>bb_downloadEntries := AList.update i ?e (bb_downloadEntries s)\<rparr>)"
    by (rule touches_update [OF Some, of ?e]) (simp_all add: entry_step_def)
  with Some show ?thesis by (auto simp: finish_review_def)
qed (simp add: finish_review_def)

lemma removed_entry_lookup:
  "keyed s \<Longrightarrow> removed_entry request review s = Some e \<Longrightarrow> map_of (bb_downloadEntries s) (de_entryId e) = Some e"
  by (auto simp: removed_entry_def keyedD split: if_splits option.splits)

lemma touches_apply_decision: "keyed s \<Longrightarrow> touches s (snd (apply_decision request now review s))"
proof -
  assume k: "keyed s"
  define nx where "nx = next_review request now review s"
  define s1 where "s1 = note_automation request review nx (set_review (xq_reviewId request) nx s)"
  define s2 where "s2 = (if xq_action request = RemoveIncoming then hide_gallery (or_galleryId (rv_incoming review)) s1 else s1)"
  have t1: "touches s s1" unfolding s1_def by (rule touches_trans [OF touches_review touches_note])
  have "touches s1 s2" by (simp add: s2_def)
  with t1 have t2: "touches s s2" by (rule touches_trans)
  have e2: "bb_downloadEntries s2 = bb_downloadEntries s" by (simp add: s2_def s1_def)
  have "touches s2 (remove_existing request review (removed_entry request review s)
      (chained_review request (removed_entry request review s) s) now s2)"
    using keyed_touches [OF t2 k] removed_entry_lookup [OF k] by (intro touches_remove_existing) (simp_all add: e2)
  from touches_trans [OF touches_trans [OF t2 this] touches_finish] show ?thesis
    unfolding apply_decision_def Let_def snd_conv nx_def [symmetric] s1_def [symmetric] s2_def [symmetric] .
qed

lemma touches_decide_overlap: "keyed s \<Longrightarrow> touches s (snd (downloadOverlapDecisionApply parse nfkc request now s))"
proof -
  assume k: "keyed s"
  show ?thesis
    unfolding downloadOverlapDecisionApply_def
    using touches_decide_pair [OF k] touches_apply_decision [OF k, of request now]
    by (auto split: option.splits prod.splits) (metis snd_conv)+
qed

lemma touches_affect: "keyed s \<Longrightarrow> touches s (affect_review request a b s kv)"
proof -
  assume k: "keyed s"
  have "touches s (set_entry e' (set_review i v s))"
    if "map_of (bb_downloadEntries s) j = Some e" "entry_step e e'" for i v j e e'
  proof (rule touches_trans [OF touches_review])
    have "keyed (set_review i v s)" by (rule keyed_touches [OF touches_review k])
    then show "touches (set_review i v s) (set_entry e' (set_review i v s))"
      using that by (intro touches_set_entry [of _ j e]) simp_all
  qed
  then show ?thesis
    unfolding affect_review_def Let_def by (auto split: prod.splits option.splits simp: entry_step_def)
qed

lemma touches_outdate: "touches s (outdate_pair i s kv)"
  unfolding outdate_pair_def by (auto split: prod.splits intro!: touches_trans [OF _ touches_candidates] touches_same)

lemma touches_bump: "keyed s \<Longrightarrow> touches s (bump_completed i s)"
  unfolding bump_completed_def
  by (cases "map_of (bb_downloadEntries s) i") (auto intro!: touches_set_entry simp: entry_step_def)

lemma touches_exclude_source: "keyed s \<Longrightarrow> touches s (exclude_source r s)"
  unfolding exclude_source_def by (rule touches_trans [OF touches_hide]) (auto intro: touches_cancel_removed keyed_touches [OF touches_hide])

lemma touches_note_merge: "touches s (note_merge request review c i n now s)"
  unfolding note_merge_def Let_def
  by (auto split: option.splits intro!: touches_trans [OF touches_review touches_record])

lemma touches_apply_merge: "keyed s \<Longrightarrow> touches s (snd (apply_merge request uuid now review c targets added s))"
proof -
  assume k: "keyed s"
  define src where "src = source_ref (mr_sourceSide request) review c"
  define dst where "dst = target_ref (mr_sourceSide request) review c"
  define s1 where "s1 = foldl (affect_review request (or_entryId src) (or_entryId dst)) s (bb_downloadOverlapReviews s)"
  define s2 where "s2 = foldl (outdate_pair (or_entryId dst)) s1 (bb_duplicateReviews s1)"
  define s3 where "s3 = bump_completed (or_entryId dst) s2"
  define s4 where "s4 = (if flag (mr_excludeSource request) then exclude_source src s3 else s3)"
  define s5 where "s5 = (if mr_selectedPages request \<noteq> None then s4\<lparr>bb_composedPageCounts :=
      AList.update (or_galleryId dst) (or_pageCount dst + added) (bb_composedPageCounts s4)\<rparr> else s4)"
  have t1: "touches s s1" unfolding s1_def by (rule touches_foldl [OF touches_affect k])
  have t2: "touches s s2"
    unfolding s2_def by (rule touches_trans [OF t1 touches_foldl [OF touches_outdate keyed_touches [OF t1 k]]])
  have t3: "touches s s3" unfolding s3_def by (rule touches_trans [OF t2 touches_bump [OF keyed_touches [OF t2 k]]])
  have t4: "touches s s4"
    using t3 touches_trans [OF t3 touches_exclude_source [OF keyed_touches [OF t3 k]]] by (simp add: s4_def)
  have "touches s4 s5" by (auto simp: s5_def intro: touches_same)
  with t4 have "touches s s5" by (rule touches_trans)
  then have "touches s (if flag (mr_automation request)
      then note_merge request review c (''browser-merge-'' @ uuid) (length targets) now s5 else s5)"
    by (auto intro: touches_trans [OF _ touches_note_merge])
  then show ?thesis
    unfolding apply_merge_def Let_def snd_conv src_def [symmetric] dst_def [symmetric] s1_def [symmetric] s2_def [symmetric]
      s3_def [symmetric] s4_def [symmetric] s5_def [symmetric] .
qed

lemma prepare_pair_cases: "prepare_pair request s = Inr s1 \<Longrightarrow> s1 = s \<or> (\<exists>v. s1 = set_review (mr_reviewId request) v s)"
  by (auto simp: prepare_pair_def split: option.splits sum.splits)

lemma touches_merge: "keyed s \<Longrightarrow> touches s (snd (downloadOverlapMerge nfkc request uuid now s))"
proof -
  assume k: "keyed s"
  have p: "touches s s1" if "prepare_pair request s = Inr s1" for s1
    using prepare_pair_cases [OF that] by auto
  have "touches s s2" if "prepare_pair request s = Inr s1" "apply_merge request uuid now review c targets added s1 = (r, s2)"
    for s1 review c targets added r s2
    using touches_apply_merge [OF keyed_touches [OF p [OF that(1)] k], of request uuid now review c targets added]
      that(2) touches_trans [OF p [OF that(1)]] by simp
  then show ?thesis
    unfolding downloadOverlapMerge_def by (auto split: sum.splits option.splits prod.splits dest: p)
qed

lemma touches_acknowledge: "touches s (snd (downloadOverlapAutomationHistoryAcknowledge i now s))"
  by (auto simp: downloadOverlapAutomationHistoryAcknowledge_def Let_def split: option.splits intro!: touches_same)

lemma foldl_touches: "(\<And>s x. touches s (f s x)) \<Longrightarrow> touches s (foldl f s xs)"
  by (induction xs arbitrary: s) (auto intro: touches_trans)

lemma touches_exclude: "touches s (snd (autoFindExclude ids reason now s))"
proof -
  have "touches s (foldl (exclude_one r t) s xs)" for r t xs
    by (rule foldl_touches) (simp add: exclude_one_def Let_def touches_same)
  moreover have "touches t (t\<lparr>bb_autoFindCandidates := cs\<rparr>)" for t cs
    by (rule touches_same) simp_all
  ultimately have "touches s ((foldl (exclude_one r t) s xs)\<lparr>bb_autoFindCandidates := cs\<rparr>)" for r t xs cs
    by (rule touches_trans)
  then show ?thesis by (simp add: autoFindExclude_def Let_def split: option.splits)
qed

lemma touches_restore: "touches s (snd (explorationExclusionsRestore ids s))"
proof -
  have "touches s (foldl restore_one s xs)" for xs
    by (rule foldl_touches) (simp add: restore_one_def touches_same)
  then show ?thesis by (auto simp: explorationExclusionsRestore_def Let_def split: option.splits)
qed

lemma touches_reset: "touches s (snd (explorationDataReset confirmation favorites history s))"
  by (auto simp: explorationDataReset_def intro: touches_same)

lemma touches_open: "touches s (snd (downloadOverlapReviewGet i s))"
  by (auto simp: downloadOverlapReviewGet_def Let_def)

lemma touches_fire: "touches s (fire_timer now s)"
proof -
  have "touches s (run_task t now (s\<lparr>bb_timers := ts\<rparr>))" for t ts
  proof (rule touches_trans)
    show "touches s (s\<lparr>bb_timers := ts\<rparr>)" by (rule touches_same) simp_all
    show "touches (s\<lparr>bb_timers := ts\<rparr>) (run_task t now (s\<lparr>bb_timers := ts\<rparr>))"
      by (cases t) (simp_all add: touches_task touches_advance)
  qed
  then show ?thesis by (auto simp: fire_timer_def split: list.splits)
qed

lemma snd_refused [simp]: "snd (refused r) = snd r"
  by (simp add: refused_def split: prod.splits sum.splits)

definition queues :: "browser_input \<Rightarrow> bool" where
  "queues i \<longleftrightarrow> (case i of Call (QueueAdd _ _ _) \<Rightarrow> True | _ \<Rightarrow> False)"

lemma touches_step:
  assumes "keyed s" and "\<not> queues i" and "i \<noteq> FactoryReset"
  shows "touches s (browser_step parse nfkc s i)"
proof (cases i)
  case (Call c)
  with assms(1,2) show ?thesis
    by (cases c) (simp_all add: queues_def touches_retry touches_cancel touches_scan_start touches_scan_cancel
        touches_decide_duplicate touches_open touches_decide_overlap touches_merge touches_acknowledge
        touches_exclude touches_restore touches_reset)
qed (use assms in \<open>simp_all add: touches_fire touches_same\<close>)

section \<open>Queueing makes new entries\<close>

lemma new_entry_id_inj: "new_entry_id g n = new_entry_id g' n' \<longleftrightarrow> g = g' \<and> n = n'"
proof -
  have no_dash: "CHR ''-'' \<notin> set (show_nat k)" for k
    using show_nat_digits [of "CHR ''-''" k] by (auto simp: is_digit_def digit_chars_def)
  have "show_nat n = show_nat n' \<longleftrightarrow> n = n'" using show_nat_inj by blast
  then show ?thesis
    using split_after [OF no_dash no_dash, of "show_int g" n "show_int g'" n'] by (simp add: new_entry_id_def show_int_inj)
qed

definition numbered :: "nat \<Rightarrow> gallery_id \<Rightarrow> string \<Rightarrow> bool" where
  "numbered k g i \<longleftrightarrow> (\<exists>n < k. i = new_entry_id g n)"

lemma numbered_Suc: "numbered k g i \<Longrightarrow> numbered (Suc k) g i"
  unfolding numbered_def using less_SucI by blast

lemma numbered_gallery: "numbered k g i \<Longrightarrow> numbered k' g' i \<Longrightarrow> g = g'"
  by (auto simp: numbered_def new_entry_id_inj)

lemma numbered_new [simp]: "numbered (Suc k) g (new_entry_id g k)"
  by (auto simp: numbered_def)

lemma numbered_fresh: "\<not> numbered k g (new_entry_id g' k)"
  by (auto simp: numbered_def new_entry_id_inj)

text \<open>
  The queue in order: every entry is kept once, under its id, which names its gallery and a number used only
  once; the entry standing for a gallery is one of the gallery's; a request id is kept with the galleries it named.
\<close>

definition downloads_ok :: "browser_backend \<Rightarrow> bool" where
  "downloads_ok s \<longleftrightarrow> distinct (keys (bb_downloadEntries s))
     \<and> (\<forall>i e. map_of (bb_downloadEntries s) i = Some e \<longrightarrow>
          de_entryId e = i \<and> numbered (bb_nextDownloadEntryId s) (de_galleryId e) i)
     \<and> (\<forall>g i. map_of (bb_activeDownloadEntryByGallery s) g = Some i \<longrightarrow> numbered (bb_nextDownloadEntryId s) g i)
     \<and> (\<forall>r key es. map_of (bb_downloadQueueRequests s) r = Some (key, es) \<longrightarrow>
          key = gallerySetKey (map de_galleryId es))"

lemma downloads_okD:
  assumes "downloads_ok s"
  shows "distinct (keys (bb_downloadEntries s))"
    and "map_of (bb_downloadEntries s) i = Some e \<Longrightarrow> de_entryId e = i"
    and "map_of (bb_downloadEntries s) i = Some e \<Longrightarrow> numbered (bb_nextDownloadEntryId s) (de_galleryId e) i"
    and "map_of (bb_activeDownloadEntryByGallery s) g = Some i \<Longrightarrow> numbered (bb_nextDownloadEntryId s) g i"
    and "map_of (bb_downloadQueueRequests s) r = Some (key, es) \<Longrightarrow> key = gallerySetKey (map de_galleryId es)"
  using assms unfolding downloads_ok_def by blast+

lemma downloads_okI:
  assumes "distinct (keys (bb_downloadEntries s))"
    and "\<And>i e. map_of (bb_downloadEntries s) i = Some e \<Longrightarrow> de_entryId e = i"
    and "\<And>i e. map_of (bb_downloadEntries s) i = Some e \<Longrightarrow> numbered (bb_nextDownloadEntryId s) (de_galleryId e) i"
    and "\<And>g i. map_of (bb_activeDownloadEntryByGallery s) g = Some i \<Longrightarrow> numbered (bb_nextDownloadEntryId s) g i"
    and "\<And>r key es. map_of (bb_downloadQueueRequests s) r = Some (key, es) \<Longrightarrow> key = gallerySetKey (map de_galleryId es)"
  shows "downloads_ok s"
  using assms unfolding downloads_ok_def by blast

lemma downloads_ok_keyed: "downloads_ok s \<Longrightarrow> keyed s"
  by (simp add: keyed_def downloads_okD)

lemma downloads_ok_touches:
  assumes t: "touches s s'" and ok: "downloads_ok s"
  shows "downloads_ok s'"
proof (rule downloads_okI)
  have adv: "advances s s'" and ks: "keys (bb_downloadEntries s') = keys (bb_downloadEntries s)"
    and n: "bb_nextDownloadEntryId s' = bb_nextDownloadEntryId s"
    and r: "bb_downloadQueueRequests s' = bb_downloadQueueRequests s" using t by (simp_all add: touches_def)
  show "distinct (keys (bb_downloadEntries s'))" unfolding ks by (rule downloads_okD(1) [OF ok])
  show "de_entryId e' = i" if "map_of (bb_downloadEntries s') i = Some e'" for i e'
    by (rule keyedD [OF keyed_touches [OF t downloads_ok_keyed [OF ok]] that])
  show "numbered (bb_nextDownloadEntryId s') (de_galleryId e') i" if l: "map_of (bb_downloadEntries s') i = Some e'" for i e'
  proof -
    from adv ks l obtain e where "map_of (bb_downloadEntries s) i = Some e" "entry_step e e'" by (rule advances_gallery)
    with downloads_okD(3) [OF ok] show ?thesis by (simp add: n entry_step_def)
  qed
  show "numbered (bb_nextDownloadEntryId s') g i" if "map_of (bb_activeDownloadEntryByGallery s') g = Some i" for g i
  proof -
    from t that consider "map_of (bb_activeDownloadEntryByGallery s) g = Some i"
      | e where "map_of (bb_downloadEntries s) i = Some e" "de_galleryId e = g" unfolding touches_def by blast
    then show ?thesis using downloads_okD(3,4) [OF ok] by cases (auto simp: n)
  qed
  show "key = gallerySetKey (map de_galleryId es)" if "map_of (bb_downloadQueueRequests s') q = Some (key, es)" for q key es
    using downloads_okD(5) [OF ok] that by (simp add: r)
qed

definition grows :: "browser_backend \<Rightarrow> browser_backend \<Rightarrow> bool" where
  "grows s s' \<longleftrightarrow> advances s s' \<and> bb_nextDownloadEntryId s \<le> bb_nextDownloadEntryId s'
     \<and> (\<forall>r x. map_of (bb_downloadQueueRequests s) r = Some x \<longrightarrow> map_of (bb_downloadQueueRequests s') r = Some x)"

lemma grows_refl [simp]: "grows s s"
  by (simp add: grows_def)

lemma grows_trans: "grows s s' \<Longrightarrow> grows s' s'' \<Longrightarrow> grows s s''"
  by (auto simp: grows_def intro: advances_trans)

lemma grows_touches: "touches s s' \<Longrightarrow> grows s s'"
  by (simp add: grows_def touches_def)

lemma worker_fields [simp]:
  "bb_nextDownloadEntryId (start_worker i a s) = bb_nextDownloadEntryId s"
  "bb_downloadQueueRequests (start_worker i a s) = bb_downloadQueueRequests s"
  "bb_activeDownloadEntryByGallery (start_worker i a s) = bb_activeDownloadEntryByGallery s"
  by (simp_all add: start_worker_def runFixtureDownload_def setTimeout_def)

lemma queue_new_fields:
  assumes "queue_new now g s = (e, s')"
  shows "e = new_entry now g (bb_nextDownloadEntryId s)"
    and "bb_downloadEntries s' = AList.update (de_entryId e) e (bb_downloadEntries s)"
    and "bb_nextDownloadEntryId s' = Suc (bb_nextDownloadEntryId s)"
    and "bb_downloadQueueRequests s' = bb_downloadQueueRequests s"
    and "map_of (bb_activeDownloadEntryByGallery s') h =
      (if h = g then Some (de_entryId e) else map_of (bb_activeDownloadEntryByGallery s) h)"
  using assms by (auto simp: queue_new_def Let_def set_entry_def lookup_update lookup_delete)

lemma new_entry_fields [simp]:
  "de_entryId (new_entry now g n) = new_entry_id g n" "de_galleryId (new_entry now g n) = g"
  by (simp_all add: new_entry_def)

lemma queue_new_ok:
  assumes ok: "downloads_ok s" and q: "queue_new now g s = (e, s')"
  shows "downloads_ok s' \<and> grows s s'"
proof
  note f = queue_new_fields [OF q]
  have fresh: "map_of (bb_downloadEntries s) (new_entry_id g (bb_nextDownloadEntryId s)) = None"
    using downloads_okD(3) [OF ok] numbered_fresh by (metis not_None_eq)
  show "downloads_ok s'"
  proof (rule downloads_okI)
    show "distinct (keys (bb_downloadEntries s'))" unfolding f(2) distinct_keys_update by (rule downloads_okD(1) [OF ok])
    fix i x assume l: "map_of (bb_downloadEntries s') i = Some x"
    show "de_entryId x = i" using l downloads_okD(2) [OF ok] by (auto simp: f(2) lookup_update split: if_splits)
    show "numbered (bb_nextDownloadEntryId s') (de_galleryId x) i"
      using l downloads_okD(3) [OF ok] by (auto simp: f(1-3) lookup_update intro: numbered_Suc split: if_splits)
  next
    fix h i assume "map_of (bb_activeDownloadEntryByGallery s') h = Some i"
    then show "numbered (bb_nextDownloadEntryId s') h i"
      using downloads_okD(4) [OF ok] by (auto simp: f intro: numbered_Suc split: if_splits)
  next
    fix r key es assume "map_of (bb_downloadQueueRequests s') r = Some (key, es)"
    then show "key = gallerySetKey (map de_galleryId es)" using downloads_okD(5) [OF ok] by (simp add: f)
  qed
  have "advances s s'"
    by (rule advancesI) (use fresh in \<open>auto simp: f(1,2) lookup_update\<close>)
  then show "grows s s'" by (simp add: grows_def f)
qed

lemma queue_gallery_ok:
  assumes ok: "downloads_ok s" and q: "queue_gallery now g s = (e, s')"
  shows "downloads_ok s' \<and> grows s s' \<and> de_galleryId e = g"
proof (cases "queue_new now g s = (e, s')")
  case True
  with queue_new_ok [OF ok True] queue_new_fields(1) [OF True] show ?thesis by simp
next
  case False
  with q have "standing_entry s g = Some e" and s': "s' = s"
    by (auto simp: queue_gallery_def split: option.splits if_splits)
  then obtain i where "map_of (bb_activeDownloadEntryByGallery s) g = Some i" "map_of (bb_downloadEntries s) i = Some e"
    by (auto simp: standing_entry_def split: option.splits)
  then have "de_galleryId e = g" using numbered_gallery downloads_okD(3,4) [OF ok] by blast
  with ok s' show ?thesis by simp
qed

lemma queue_galleries_ok:
  "downloads_ok s \<Longrightarrow> queue_galleries now gs s = (es, s') \<Longrightarrow> downloads_ok s' \<and> grows s s' \<and> map de_galleryId es = gs"
proof (induction gs arbitrary: s es)
  case (Cons g gs)
  obtain e s1 where q: "queue_gallery now g s = (e, s1)" by fastforce
  obtain es1 s2 where q2: "queue_galleries now gs s1 = (es1, s2)" by fastforce
  from Cons.prems(2) q q2 have e: "es = e # es1" "s' = s2" by simp_all
  from queue_gallery_ok [OF Cons.prems(1) q] have 1: "downloads_ok s1" "grows s s1" "de_galleryId e = g" by simp_all
  from Cons.IH [OF 1(1) q2 [folded e(2)]] 1 e show ?case by (auto intro: grows_trans)
qed simp

lemma queue_add_new:
  assumes "queue_refusal galleries (trim requestId) = None"
    and "map_of (bb_downloadQueueRequests s) (trim requestId) = None"
    and "queue_galleries now (normalizedGallerySet (map num_int galleries)) s = (es, s1)"
  shows "downloadQueueAdd galleries requestId now s = (Inr es, s1\<lparr>bb_downloadQueueRequests := AList.update (trim requestId)
      (gallerySetKey (normalizedGallerySet (map num_int galleries)), es) (bb_downloadQueueRequests s1)\<rparr>)"
  using assms by (simp add: downloadQueueAdd_def Let_def)

lemma queue_add_cases:
  obtains "snd (downloadQueueAdd galleries requestId now s) = s"
    and "queue_refusal galleries (trim requestId) \<noteq> None \<or> map_of (bb_downloadQueueRequests s) (trim requestId) \<noteq> None"
  | es s1 where "queue_refusal galleries (trim requestId) = None"
      and "map_of (bb_downloadQueueRequests s) (trim requestId) = None"
      and "queue_galleries now (normalizedGallerySet (map num_int galleries)) s = (es, s1)"
proof (cases "queue_refusal galleries (trim requestId) = None \<and> map_of (bb_downloadQueueRequests s) (trim requestId) = None")
  case True
  moreover obtain es s1 where "queue_galleries now (normalizedGallerySet (map num_int galleries)) s = (es, s1)" by fastforce
  ultimately show ?thesis using that(2) by blast
next
  case False
  then have "snd (downloadQueueAdd galleries requestId now s) = s"
    by (auto simp: downloadQueueAdd_def Let_def split: option.splits)
  with False that(1) show ?thesis by blast
qed

lemma queue_requests: "queue_galleries now gs s = (es, s') \<Longrightarrow> bb_downloadQueueRequests s' = bb_downloadQueueRequests s"
proof (induction gs arbitrary: s es)
  case (Cons g gs)
  obtain e s1 where q: "queue_gallery now g s = (e, s1)" by fastforce
  obtain es1 s2 where q2: "queue_galleries now gs s1 = (es1, s2)" by fastforce
  have "bb_downloadQueueRequests s1 = bb_downloadQueueRequests s"
    using q queue_new_fields(4) [of now g s] by (auto simp: queue_gallery_def split: option.splits if_splits)
  with Cons q q2 show ?case by auto
qed simp

lemma queue_add_ok:
  assumes ok: "downloads_ok s"
  shows "downloads_ok (snd (downloadQueueAdd galleries requestId now s)) \<and> grows s (snd (downloadQueueAdd galleries requestId now s))"
proof (rule queue_add_cases [of galleries requestId now s])
  fix es s1
  assume a: "queue_refusal galleries (trim requestId) = None" "map_of (bb_downloadQueueRequests s) (trim requestId) = None"
    and q: "queue_galleries now (normalizedGallerySet (map num_int galleries)) s = (es, s1)"
  from queue_galleries_ok [OF ok q] have s1: "downloads_ok s1" "grows s s1"
    and es: "map de_galleryId es = normalizedGallerySet (map num_int galleries)" by simp_all
  let ?s2 = "s1\<lparr>bb_downloadQueueRequests := AList.update (trim requestId)
      (gallerySetKey (normalizedGallerySet (map num_int galleries)), es) (bb_downloadQueueRequests s1)\<rparr>"
  have "downloads_ok ?s2"
    using s1(1) unfolding downloads_ok_def by (auto simp: lookup_update es split: if_splits)
  moreover have "grows s1 ?s2"
    using a(2) by (auto simp: grows_def advances_def lookup_update queue_requests [OF q])
  ultimately show ?thesis using s1(2) by (auto simp: queue_add_new [OF a q] intro: grows_trans)
qed (use ok in simp)

lemma browser_step_ok:
  assumes ok: "downloads_ok s"
  shows "downloads_ok (browser_step parse nfkc s i)"
proof (cases "queues i \<or> i = FactoryReset")
  case True
  then consider galleries r now where "i = Call (QueueAdd galleries r now)" | "i = FactoryReset"
    by (auto simp: queues_def split: browser_input.splits browser_call.splits)
  then show ?thesis
    by cases (use queue_add_ok [OF ok] ok in \<open>auto simp: downloads_ok_def factory_reset_def\<close>)
next
  case False
  with touches_step [OF downloads_ok_keyed [OF ok]] downloads_ok_touches [OF _ ok] show ?thesis by blast
qed

lemma browser_step_grows:
  assumes ok: "downloads_ok s" and "i \<noteq> FactoryReset"
  shows "grows s (browser_step parse nfkc s i)"
proof (cases "queues i")
  case True
  then obtain galleries r now where "i = Call (QueueAdd galleries r now)"
    by (auto simp: queues_def split: browser_input.splits browser_call.splits)
  with queue_add_ok [OF ok] show ?thesis by simp
next
  case False
  with touches_step [OF downloads_ok_keyed [OF ok] False assms(2)] show ?thesis by (rule_tac grows_touches)
qed

interpretation browser: machine "browser_step parse nfkc" downloads_ok new_backend for parse nfkc
  by unfold_locales (simp add: downloads_ok_def new_backend_def, rule browser_step_ok)

lemma run_grows: "downloads_ok s \<Longrightarrow> FactoryReset \<notin> set is \<Longrightarrow> grows s (run_browser parse nfkc s is)"
proof (induction "is" arbitrary: s)
  case (Cons i "is")
  then have "grows s (browser_step parse nfkc s i)" by (intro browser_step_grows) auto
  with Cons show ?case by (auto intro: grows_trans browser_step_ok)
qed simp

lemma run_requests:
  "downloads_ok s \<Longrightarrow> map_of (bb_downloadQueueRequests s) r = Some x \<Longrightarrow>
   map_of (bb_downloadQueueRequests (run_browser parse nfkc s is)) r = Some x"
proof (induction "is" arbitrary: s)
  case (Cons i "is")
  have "map_of (bb_downloadQueueRequests (browser_step parse nfkc s i)) r = Some x"
  proof (cases "i = FactoryReset")
    case False
    from browser_step_grows [OF Cons.prems(1) this, of parse nfkc] Cons.prems(2) show ?thesis by (cases x) (auto simp: grows_def)
  qed (use Cons.prems in \<open>simp add: factory_reset_def\<close>)
  with Cons show ?case by (simp add: browser_step_ok)
qed simp

section \<open>Properties\<close>

text \<open>C17: However the browser backend is used, its download queue stays in order: no id twice, every entry under its
  own id, which names its gallery and a number used once; the entry standing for a gallery is one of that gallery;
  a request id is kept with the galleries it named.\<close>

theorem browser_downloads_ok: "downloads_ok (run_browser parse nfkc new_backend is)"
  by (rule browser.inv_reachable)

definition sample_inputs :: "browser_input list" where
  "sample_inputs = [Listen True, Call (QueueAdd [Num 5] ''r'' ''t'')]"

lemma sample_queue:
  "queue_refusal [Num 5] (trim ''r'') = None"
  "fst (downloadQueueAdd [Num 5] ''r'' ''t'' (new_backend\<lparr>bb_listening := True\<rparr>)) = Inr [new_entry ''t'' 5 1]"
  "bb_downloadEntries (run_browser parse nfkc new_backend sample_inputs) = [(new_entry_id 5 1, new_entry ''t'' 5 1)]"
  by (simp_all add: sample_inputs_def downloadQueueAdd_def Let_def queue_refusal_def positive_id_def rat_is_int_def
      new_backend_def normalizedGallerySet_def set_from_def set_add_def num_int_def queue_gallery_def queue_new_def
      standing_entry_def set_entry_def start_worker_def runFixtureDownload_def setTimeout_def trim_def trim_start_def is_space_def)

text \<open>C19: Short of a factory reset no download is lost or goes back: whatever happens, an entry stays in the queue
  under its id and gallery, its revision never falls, and it has risen if the state differs.\<close>

theorem browser_entries_advance:
  assumes "FactoryReset \<notin> set js"
    and "map_of (bb_downloadEntries (run_browser parse nfkc new_backend is)) i = Some e"
  shows "\<exists>e'. map_of (bb_downloadEntries (run_browser parse nfkc new_backend (is @ js))) i = Some e'
    \<and> de_galleryId e' = de_galleryId e \<and> de_revision e \<le> de_revision e'
    \<and> (de_state e' \<noteq> de_state e \<longrightarrow> de_revision e < de_revision e')"
proof -
  have "grows (run_browser parse nfkc new_backend is) (run_browser parse nfkc new_backend (is @ js))"
    unfolding foldl_append by (rule run_grows [OF browser.inv_reachable assms(1)])
  then have "advances (run_browser parse nfkc new_backend is) (run_browser parse nfkc new_backend (is @ js))"
    by (simp add: grows_def)
  from advancesD [OF this assms(2)] show ?thesis unfolding entry_step_def by metis
qed

lemma browser_entries_advance_witness:
  "\<exists>e'. map_of (bb_downloadEntries (run_browser (\<lambda>_. None) id new_backend
       (sample_inputs @ [Elapse 75, TimerFires ''u'']))) (new_entry_id 5 1) = Some e' \<and> de_galleryId e' = 5"
  using browser_entries_advance [of "[Elapse 75, TimerFires ''u'']" "\<lambda>_. None" id sample_inputs "new_entry_id 5 1" "new_entry ''t'' 5 1"]
  by (auto simp: sample_queue(3))

text \<open>A request id means one request for good: once it has queued some galleries, the same id with the same set
  of galleries gets the entries of the first time and queues nothing, however long after; with another set it is a
  conflict.\<close>

theorem request_id_idempotent:
  assumes "downloadQueueAdd galleries requestId now (run_browser parse nfkc new_backend is) = (Inr es, s1)"
    and "trim requestId' = trim requestId" and "queue_refusal galleries' (trim requestId') = None"
  shows "downloadQueueAdd galleries' requestId' now' (run_browser parse nfkc s1 js) =
    (if set (map num_int galleries') = set (map num_int galleries)
     then (Inr es, run_browser parse nfkc s1 js)
     else (Inl (idempotency_conflict (trim requestId)), run_browser parse nfkc s1 js))"
proof -
  let ?s = "run_browser parse nfkc new_backend is"
  let ?key = "gallerySetKey (normalizedGallerySet (map num_int galleries))"
  have ok: "downloads_ok ?s" by (rule browser.inv_reachable)
  from queue_add_ok [OF ok, of galleries requestId now] assms(1) have ok1: "downloads_ok s1" by simp
  have "map_of (bb_downloadQueueRequests s1) (trim requestId) = Some (?key, es)"
  proof (cases "map_of (bb_downloadQueueRequests ?s) (trim requestId)")
    case None
    obtain es1 s2 where q: "queue_galleries now (normalizedGallerySet (map num_int galleries)) ?s = (es1, s2)" by fastforce
    from assms(1) None have r: "queue_refusal galleries (trim requestId) = None"
      by (auto simp: downloadQueueAdd_def Let_def split: option.splits)
    from queue_add_new [OF r None q] assms(1) show ?thesis by (auto simp: lookup_update)
  next
    case (Some x)
    with assms(1) show ?thesis by (cases x) (auto simp: downloadQueueAdd_def Let_def split: option.splits if_splits)
  qed
  from run_requests [OF ok1 this] have "map_of (bb_downloadQueueRequests (run_browser parse nfkc s1 js)) (trim requestId) = Some (?key, es)" .
  with assms(2,3) show ?thesis
    by (simp add: downloadQueueAdd_def Let_def gallery_key_eq_iff)
qed

lemma request_id_idempotent_witness:
  "\<exists>s. fst (downloadQueueAdd [Num 5] '' r'' ''u'' s) = Inr [new_entry ''t'' 5 1]"
proof -
  obtain s1 where "downloadQueueAdd [Num 5] ''r'' ''t'' (run_browser (\<lambda>_. None) id new_backend [Listen True])
      = (Inr [new_entry ''t'' 5 1], s1)"
    using sample_queue(2) by (metis browser_step.simps(2) foldl_Cons foldl_Nil prod.collapse)
  from request_id_idempotent [OF this, of "'' r''" "[Num 5]" "''u''" "[Elapse 5]"] sample_queue(1)
  show ?thesis
    by (intro exI [of _ "s1\<lparr>bb_clock := bb_clock s1 + 5\<rparr>"]) (simp add: trim_def trim_start_def is_space_def)
qed

end
