(* ===== verification/BrowserBackendFacts.thy ===== *)
theory BrowserBackendFacts
  imports BrowserBackend
begin

text \<open>
  More facts that span the operations of the browser backend: a refused call changes nothing; and while someone
  listens, every active download has its timed steps ahead of it, so the queue comes to rest.
\<close>

section \<open>Refused calls\<close>

lemma fst_refused: "fst (refused r) \<longleftrightarrow> (\<exists>err. fst r = Inl err)"
  by (auto simp: refused_def split: prod.splits sum.splits)

lemma queue_refused: "fst (downloadQueueAdd gs r now s) = Inl err \<Longrightarrow> snd (downloadQueueAdd gs r now s) = s"
  by (auto simp: downloadQueueAdd_def Let_def split: option.splits prod.splits if_splits)

lemma retry_refused: "fst (downloadRetry ids fill s) = Inl err \<Longrightarrow> snd (downloadRetry ids fill s) = s"
  by (auto simp: downloadRetry_def retry_normalized_def Let_def split: option.splits if_splits)

lemma cancel_refused: "fst (downloadCancel ids s) = Inl err \<Longrightarrow> snd (downloadCancel ids s) = s"
  by (auto simp: downloadCancel_def Let_def split: option.splits)

lemma scan_start_refused: "fst (duplicateScanStart ids now s) = Inl err \<Longrightarrow> snd (duplicateScanStart ids now s) = s"
  by (auto simp: duplicateScanStart_def start_scan_def Let_def split: option.splits if_splits)

lemma scan_cancel_refused: "fst (duplicateScanCancel now s) = Inl err \<Longrightarrow> snd (duplicateScanCancel now s) = s"
  by (auto simp: duplicateScanCancel_def Let_def split: option.splits if_splits)

lemma duplicate_refused: "fst (duplicateDecisionApply q now s) = Inl err \<Longrightarrow> snd (duplicateDecisionApply q now s) = s"
  by (auto simp: duplicateDecisionApply_def Let_def split: option.splits)

lemma pair_refused:
  assumes "fst (decide_pair request i now s) = Inl err"
  shows "snd (decide_pair request i now s) = s"
proof -
  have d: "s1 = s" if "duplicateDecisionApply q now s = (Inl e, s1)" for q e s1
    using duplicate_refused [of q now s e] that by simp
  with assms show ?thesis
    unfolding decide_pair_def by (auto split: option.splits prod.splits sum.splits dest: d)
qed

lemma overlap_refused: "fst (downloadOverlapDecisionApply parse nfkc request now s) = Inl err \<Longrightarrow>
    snd (downloadOverlapDecisionApply parse nfkc request now s) = s"
  unfolding downloadOverlapDecisionApply_def
  by (auto split: option.splits prod.splits intro: pair_refused)

text \<open>
  A merge of two completed albums is refused either before or after the comparison of the two has been stored as
  a review; a comparison stored stays. Any other refused merge leaves the state as it is.
\<close>

definition merge_leaves :: "overlap_merge_request \<Rightarrow> browser_backend \<Rightarrow> browser_backend" where
  "merge_leaves request s =
     (case pair_id (mr_reviewId request) of
        None \<Rightarrow> s
      | Some i \<Rightarrow>
          (case map_of (bb_duplicateReviews s) i of
             None \<Rightarrow> s
           | Some old \<Rightarrow>
               if dc_revision (dw_candidate old) = mr_expectedRevision request \<and> mr_candidateId request = i
                 \<and> i \<notin> set (bb_duplicateResolvedCandidates s)
                 \<and> entry_state s (dr_entryId (dc_parent (dw_candidate old))) = Some Completed
                 \<and> entry_state s (dr_entryId (dc_candidate (dw_candidate old))) = Some Completed
               then set_review (mr_reviewId request) (completedPairReview old) s else s))"

lemma merge_refused:
  assumes "fst (downloadOverlapMerge nfkc request uuid now s) = Inl err"
  shows "snd (downloadOverlapMerge nfkc request uuid now s) = merge_leaves request s"
proof -
  have r: "s1 = merge_leaves request s" if "prepare_pair request s = Inr s1" for s1
    using that by (auto simp: prepare_pair_def merge_leaves_def merge_pair_refusal_def split: option.splits sum.splits if_splits)
  have l: "merge_leaves request s = s" if "prepare_pair request s = Inl e" for e
    using that by (auto simp: prepare_pair_def merge_leaves_def merge_pair_refusal_def split: option.splits sum.splits if_splits)
  show ?thesis
    using assms unfolding downloadOverlapMerge_def by (auto split: sum.splits option.splits prod.splits dest: r l)
qed

lemma history_refused: "fst (downloadOverlapAutomationHistoryAcknowledge i now s) = Inl err \<Longrightarrow>
    snd (downloadOverlapAutomationHistoryAcknowledge i now s) = s"
  by (cases "trim i = []"; cases "map_of (bb_automationHistory s) (trim i)")
    (simp_all add: downloadOverlapAutomationHistoryAcknowledge_def Let_def)

lemma exclude_refused: "fst (autoFindExclude ids reason now s) = Inl err \<Longrightarrow> snd (autoFindExclude ids reason now s) = s"
  by (auto simp: autoFindExclude_def Let_def split: option.splits if_splits)

lemma restore_refused: "fst (explorationExclusionsRestore ids s) = Inl err \<Longrightarrow> snd (explorationExclusionsRestore ids s) = s"
  by (auto simp: explorationExclusionsRestore_def Let_def split: option.splits)

lemma reset_refused: "fst (explorationDataReset confirmation favorites history s) = Inl err \<Longrightarrow>
    snd (explorationDataReset confirmation favorites history s) = s"
  by (auto simp: explorationDataReset_def split: if_splits)

lemma open_refused: "fst (downloadOverlapReviewGet i s) = Inl err \<Longrightarrow> snd (downloadOverlapReviewGet i s) = s"
  by (auto simp: downloadOverlapReviewGet_def Let_def split: if_splits)

section \<open>Workers\<close>

definition has_interrupt :: "string \<Rightarrow> int \<Rightarrow> browser_timer list \<Rightarrow> bool" where
  "has_interrupt i a ts \<longleftrightarrow> DownloadTask i a InterruptStep \<in> bt_task ` set ts"

text \<open>The first step is ahead, and the second behind it.\<close>

fun waits :: "string \<Rightarrow> int \<Rightarrow> browser_timer list \<Rightarrow> bool" where
  "waits i a [] = False"
| "waits i a (t # ts) = (bt_task t = DownloadTask i a ResolveStep \<and> has_interrupt i a ts \<or> waits i a ts)"

lemma waits_interrupt: "waits i a ts \<Longrightarrow> has_interrupt i a ts"
  by (induction ts) (auto simp: has_interrupt_def)

lemma waits_insert: "waits i a (xs @ ys) \<Longrightarrow> waits i a (xs @ t # ys)"
  by (induction xs) (auto simp: has_interrupt_def)

lemma waits_schedule: "waits i a ts \<Longrightarrow> waits i a (schedule t ts)"
  unfolding schedule_def by (rule waits_insert) simp

lemma interrupt_schedule: "has_interrupt i a ts \<Longrightarrow> has_interrupt i a (schedule t ts)"
  by (auto simp: has_interrupt_def)

lemma waits_resolve: "bt_task t = DownloadTask i a ResolveStep \<Longrightarrow> has_interrupt i a ys \<Longrightarrow> waits i a (xs @ t # ys)"
  by (induction xs) auto

lemma waits_both:
  assumes "d \<le> d'"
  shows "waits i a (schedule \<lparr>bt_due = d', bt_task = DownloadTask i a InterruptStep\<rparr>
    (schedule \<lparr>bt_due = d, bt_task = DownloadTask i a ResolveStep\<rparr> ts))"
proof -
  let ?t = "\<lparr>bt_due = d, bt_task = DownloadTask i a ResolveStep\<rparr>" and ?u = "\<lparr>bt_due = d', bt_task = DownloadTask i a InterruptStep\<rparr>"
  let ?P = "\<lambda>u. bt_due u \<le> d"
  define xs ys where "xs = takeWhile ?P ts" and "ys = dropWhile ?P ts"
  have s: "schedule ?t ts = xs @ ?t # ys" by (simp add: schedule_def xs_def ys_def)
  have "\<forall>u \<in> set xs. bt_due u \<le> d'" using assms by (auto simp: xs_def dest!: set_takeWhileD)
  then have "schedule ?u (xs @ ?t # ys) = xs @ ?t # schedule ?u ys"
    using assms by (simp add: schedule_def takeWhile_append dropWhile_append)
  moreover have "has_interrupt i a (schedule ?u ys)" by (auto simp: has_interrupt_def)
  ultimately show ?thesis unfolding s by (simp add: waits_resolve)
qed

definition worker_ok :: "browser_timer list \<Rightarrow> download_entry \<Rightarrow> bool" where
  "worker_ok ts e \<longleftrightarrow> (case de_state e of
     Queued \<Rightarrow> (\<exists>a. de_attempt e = Some a \<and> waits (de_entryId e) a ts)
   | ResolvingMetadata \<Rightarrow> (\<exists>a. de_attempt e = Some a \<and> has_interrupt (de_entryId e) a ts)
   | st \<Rightarrow> st \<notin> activeDownloadStates)"

lemma worker_ok_idle: "\<not> active_entry e \<Longrightarrow> worker_ok ts e"
  by (cases "de_state e") (simp_all add: worker_ok_def activeDownloadStates_def)

lemma worker_ok_none: "worker_ok [] e \<Longrightarrow> \<not> active_entry e"
  by (cases "de_state e") (simp_all add: worker_ok_def has_interrupt_def activeDownloadStates_def)

lemma worker_ok_schedule: "worker_ok ts e \<Longrightarrow> worker_ok (schedule t ts) e"
  by (auto simp: worker_ok_def intro: waits_schedule interrupt_schedule split: download_state.splits)

text \<open>A first step never stands without the second behind it.\<close>

fun paired :: "browser_timer list \<Rightarrow> bool" where
  "paired [] = True"
| "paired (t # ts) = ((\<forall>i a. bt_task t = DownloadTask i a ResolveStep \<longrightarrow> has_interrupt i a ts) \<and> paired ts)"

lemma paired_insert:
  "paired (xs @ ys) \<Longrightarrow> (\<And>i a. bt_task t = DownloadTask i a ResolveStep \<Longrightarrow> has_interrupt i a ys) \<Longrightarrow> paired (xs @ t # ys)"
  by (induction xs) (auto simp: has_interrupt_def)

lemma paired_schedule:
  assumes "paired ts" and "\<forall>i a. bt_task t \<noteq> DownloadTask i a ResolveStep"
  shows "paired (schedule t ts)"
  unfolding schedule_def by (rule paired_insert) (use assms in auto)

lemma paired_both:
  assumes "paired ts" and "d \<le> d'"
  shows "paired (schedule \<lparr>bt_due = d', bt_task = DownloadTask i a InterruptStep\<rparr>
    (schedule \<lparr>bt_due = d, bt_task = DownloadTask i a ResolveStep\<rparr> ts))"
proof -
  let ?t = "\<lparr>bt_due = d, bt_task = DownloadTask i a ResolveStep\<rparr>" and ?u = "\<lparr>bt_due = d', bt_task = DownloadTask i a InterruptStep\<rparr>"
  let ?P = "\<lambda>u. bt_due u \<le> d"
  define xs ys where "xs = takeWhile ?P ts" and "ys = dropWhile ?P ts"
  have s: "schedule ?t ts = xs @ ?t # ys" and ts: "ts = xs @ ys" by (simp_all add: schedule_def xs_def ys_def)
  have "\<forall>u \<in> set xs. bt_due u \<le> d'" using assms(2) by (auto simp: xs_def dest!: set_takeWhileD)
  then have u: "schedule ?u (xs @ ?t # ys) = xs @ ?t # schedule ?u ys" "schedule ?u (xs @ ys) = xs @ schedule ?u ys"
    using assms(2) by (simp_all add: schedule_def takeWhile_append dropWhile_append)
  have "paired (schedule ?u (xs @ ys))" by (rule paired_schedule) (use assms(1) ts in simp_all)
  then have "paired (xs @ schedule ?u ys)" by (simp add: u)
  then show ?thesis unfolding s u by (rule paired_insert) (auto simp: has_interrupt_def)
qed

text \<open>A listener is there, and every active entry, with the exceptions \<open>X\<close>, has its steps ahead.\<close>

definition worked :: "(download_entry \<Rightarrow> bool) \<Rightarrow> browser_backend \<Rightarrow> bool" where
  "worked X s \<longleftrightarrow> bb_listening s \<and> paired (bb_timers s)
     \<and> (\<forall>i e. map_of (bb_downloadEntries s) i = Some e \<longrightarrow> worker_ok (bb_timers s) e \<or> X e)"

lemma workedD: "worked X s \<Longrightarrow> map_of (bb_downloadEntries s) i = Some e \<Longrightarrow> worker_ok (bb_timers s) e \<or> X e"
  by (simp add: worked_def)

lemma worked_mono: "worked X s \<Longrightarrow> (\<And>e. X e \<Longrightarrow> Y e) \<Longrightarrow> worked Y s"
  by (auto simp: worked_def)

definition idle :: "browser_backend \<Rightarrow> browser_backend \<Rightarrow> bool" where
  "idle s s' \<longleftrightarrow> bb_downloadEntries s' = bb_downloadEntries s \<and> bb_timers s' = bb_timers s \<and> bb_listening s' = bb_listening s"

lemma worked_idle: "worked X s \<Longrightarrow> idle s s' \<Longrightarrow> worked X s'"
  by (simp add: worked_def idle_def)

lemma idle_refl [simp]: "idle s s"
  by (simp add: idle_def)

lemma idle_trans: "idle s s' \<Longrightarrow> idle s' s'' \<Longrightarrow> idle s s''"
  by (simp add: idle_def)

lemma idle_simps [simp]:
  "idle s (emit e s)" "idle s (set_review i r s)" "idle s (hide_gallery g s)" "idle s (release_gallery g i s)"
  "idle s (set_candidates f s)" "idle s (settle_candidate act i c s)" "idle s (set_run run s)"
  by (simp_all add: idle_def emit_def set_review_def hide_gallery_def release_gallery_def set_candidates_def
      settle_candidate_def set_run_def)

lemma idle_foldl: "(\<And>s x. idle s (f s x)) \<Longrightarrow> idle s (foldl f s xs)"
  by (induction xs arbitrary: s) (auto intro: idle_trans)

lemma worked_timeout: "worked X s \<Longrightarrow> \<forall>i a. t \<noteq> DownloadTask i a ResolveStep \<Longrightarrow> worked X (setTimeout d t s)"
  by (auto simp: worked_def setTimeout_def intro!: paired_schedule worker_ok_schedule)

section \<open>Every operation keeps the workers\<close>

lemma worked_put:
  assumes "worked X s" and "worker_ok (bb_timers s') e" and "bb_listening s' = bb_listening s"
    and "bb_downloadEntries s' = AList.update i e (bb_downloadEntries s)"
    and "\<And>x. worker_ok (bb_timers s) x \<Longrightarrow> worker_ok (bb_timers s') x"
    and "paired (bb_timers s) \<Longrightarrow> paired (bb_timers s')"
  shows "worked X s'"
  using assms by (auto simp: worked_def lookup_update)

lemma worker_ok_started:
  assumes "de_state e = Queued" and "de_attempt e = Some a"
  shows "worker_ok (bb_timers (runFixtureDownload (de_entryId e) a s)) e"
  using assms by (simp add: worker_ok_def runFixtureDownload_def setTimeout_def waits_both)

lemma worked_start:
  assumes "worked X s0" and "idle s0 s" and "de_state e = Queued" and "de_attempt e = Some a"
    and "bb_downloadEntries s' = AList.update (de_entryId e) e (bb_downloadEntries s)"
    and "bb_timers s' = bb_timers s" "bb_listening s' = bb_listening s"
  shows "worked X (start_worker (de_entryId e) a s')"
proof -
  have l: "bb_listening s'" using assms(1,2,7) by (simp add: worked_def idle_def)
  let ?r = "runFixtureDownload (de_entryId e) a s'"
  have f: "bb_downloadEntries ?r = bb_downloadEntries s'" "bb_listening ?r = bb_listening s'"
    "bb_timers ?r = schedule \<lparr>bt_due = bb_clock s' + 225, bt_task = DownloadTask (de_entryId e) a InterruptStep\<rparr>
       (schedule \<lparr>bt_due = bb_clock s' + 75, bt_task = DownloadTask (de_entryId e) a ResolveStep\<rparr> (bb_timers s'))"
    by (simp_all add: runFixtureDownload_def setTimeout_def)
  have "worked X ?r"
  proof (rule worked_put [OF worked_idle [OF assms(1,2)]])
    show "worker_ok (bb_timers ?r) e" by (rule worker_ok_started [OF assms(3,4)])
    show "bb_listening ?r = bb_listening s" by (simp add: f assms(7))
    show "bb_downloadEntries ?r = AList.update (de_entryId e) e (bb_downloadEntries s)" by (simp add: f assms(5))
    show "worker_ok (bb_timers ?r) x" if "worker_ok (bb_timers s) x" for x
      unfolding f(3) assms(6) by (intro worker_ok_schedule that)
    show "paired (bb_timers ?r)" if "paired (bb_timers s)"
      unfolding f(3) assms(6) by (rule paired_both [OF that]) simp
  qed
  with l show ?thesis by (simp add: start_worker_def)
qed

lemma worked_queue_new: "worked X s \<Longrightarrow> queue_new now g s = (e, s') \<Longrightarrow> worked X s'"
proof -
  assume w: "worked X s" and q: "queue_new now g s = (e, s')"
  let ?e = "new_entry now g (bb_nextDownloadEntryId s)"
  let ?s2 = "set_entry ?e (s\<lparr>bb_activeDownloadEntryByGallery := AList.delete g (bb_activeDownloadEntryByGallery s),
      bb_nextDownloadEntryId := Suc (bb_nextDownloadEntryId s)\<rparr>)"
  let ?s3 = "?s2\<lparr>bb_activeDownloadEntryByGallery := AList.update g (de_entryId ?e) (bb_activeDownloadEntryByGallery ?s2)\<rparr>"
  have "worked X (start_worker (de_entryId ?e) 1 ?s3)"
    by (rule worked_start [OF w idle_refl]) (simp_all add: set_entry_def, simp_all add: new_entry_def)
  with q show ?thesis by (auto simp: queue_new_def Let_def)
qed

lemma worked_queue_galleries: "worked X s \<Longrightarrow> queue_galleries now gs s = (es, s') \<Longrightarrow> worked X s'"
proof (induction gs arbitrary: s es)
  case (Cons g gs)
  obtain e s1 where q: "queue_gallery now g s = (e, s1)" by fastforce
  obtain es1 s2 where q2: "queue_galleries now gs s1 = (es1, s2)" by fastforce
  have "worked X s1"
    using q Cons.prems(1) worked_queue_new [OF Cons.prems(1)] by (auto simp: queue_gallery_def split: option.splits if_splits)
  with Cons q q2 show ?case by auto
qed simp

lemma worked_queue_add: "worked X s \<Longrightarrow> worked X (snd (downloadQueueAdd gs r now s))"
proof (rule queue_add_cases [of gs r now s])
  fix es s1
  assume w: "worked X s" and a: "queue_refusal gs (trim r) = None" "map_of (bb_downloadQueueRequests s) (trim r) = None"
    and q: "queue_galleries now (normalizedGallerySet (map num_int gs)) s = (es, s1)"
  from worked_queue_galleries [OF w q] show ?thesis by (simp add: queue_add_new [OF a q]) (simp add: worked_def)
qed simp

lemma worked_retry_entry: "worked X s \<Longrightarrow> worked X (retry_entry s e)"
proof (cases "active_entry e")
  case False
  assume w: "worked X s"
  let ?n = "retried_entry e"
  let ?s2 = "(set_entry ?n s)\<lparr>bb_activeDownloadEntryByGallery :=
      AList.update (de_galleryId ?n) (de_entryId ?n) (bb_activeDownloadEntryByGallery (set_entry ?n s))\<rparr>"
  have "worked X (start_worker (de_entryId ?n) (or_value (de_attempt e) 1 + 1) (emit (DownloadChanged ?n) ?s2))"
    by (rule worked_start [OF w idle_refl]) (simp_all add: emit_def set_entry_def, simp_all add: retried_entry_def)
  with False show ?thesis by (simp add: retry_entry_def Let_def)
qed (simp add: retry_entry_def)

lemma worked_retry: "worked X s \<Longrightarrow> worked X (snd (downloadRetry ids fill s))"
proof -
  assume w: "worked X s"
  have "worked X (foldl retry_entry s es)" for es
    using w by (induction es arbitrary: s) (simp_all add: worked_retry_entry)
  with w show ?thesis by (auto simp: downloadRetry_def retry_normalized_def Let_def split: option.splits)
qed

lemma worked_cancel_entry: "worked X s \<Longrightarrow> worked X (cancel_entry s e)"
proof (cases "de_state e = Cancelled")
  case False
  assume w: "worked X s"
  have st: "de_state (cancelled_entry e) = Cancelled" by (simp add: cancelled_entry_def Let_def)
  have "worked X (set_entry (cancelled_entry e) s)"
    by (rule worked_put [OF w, of _ "cancelled_entry e" "de_entryId (cancelled_entry e)"])
      (simp_all add: set_entry_def worker_ok_idle st activeDownloadStates_def)
  with False show ?thesis by (simp add: cancel_entry_def Let_def) (rule worked_idle, assumption, rule idle_trans [OF idle_simps(4) idle_simps(1)])
qed (simp add: cancel_entry_def)

lemma worked_cancel: "worked X s \<Longrightarrow> worked X (snd (downloadCancel ids s))"
proof -
  assume w: "worked X s"
  have "worked X (foldl cancel_entry s es)" for es
    using w by (induction es arbitrary: s) (simp_all add: worked_cancel_entry)
  with w show ?thesis by (auto simp: downloadCancel_def Let_def split: option.splits)
qed

lemma idle_duplicate: "idle s (snd (duplicateDecisionApply q now s))"
  by (auto simp: duplicateDecisionApply_def Let_def idle_def settle_candidate_def set_candidates_def hide_gallery_def
      split: option.splits)

lemma idle_scan_cancel: "idle s (snd (duplicateScanCancel now s))"
  by (auto simp: duplicateScanCancel_def Let_def idle_def set_run_def emit_def split: option.splits)

lemma idle_open: "idle s (snd (downloadOverlapReviewGet i s))"
  by (auto simp: downloadOverlapReviewGet_def Let_def)

lemma idle_history: "idle s (snd (downloadOverlapAutomationHistoryAcknowledge i now s))"
  by (auto simp: downloadOverlapAutomationHistoryAcknowledge_def Let_def idle_def split: option.splits)

lemma idle_exclude: "idle s (snd (autoFindExclude ids reason now s))"
proof -
  have "idle s (foldl (exclude_one r t) s xs)" for r t xs
    by (rule idle_foldl) (simp add: exclude_one_def Let_def idle_def)
  then show ?thesis by (auto simp: autoFindExclude_def Let_def idle_def split: option.splits)
qed

lemma idle_restore: "idle s (snd (explorationExclusionsRestore ids s))"
proof -
  have "idle s (foldl restore_one s xs)" for xs
    by (rule idle_foldl) (simp add: restore_one_def idle_def)
  then show ?thesis by (auto simp: explorationExclusionsRestore_def Let_def split: option.splits)
qed

lemma idle_reset: "idle s (snd (explorationDataReset confirmation favorites history s))"
  by (auto simp: explorationDataReset_def idle_def)

lemma idle_advance: "idle s (advanceDuplicateScanFixture g finish now s)"
  by (auto simp: advanceDuplicateScanFixture_def report_fixture_def Let_def idle_def emit_def split: option.splits)

lemma worked_scan_start: "worked X s \<Longrightarrow> worked X (snd (duplicateScanStart ids now s))"
proof -
  assume w: "worked X s"
  have "worked X (snd (start_scan ids now s))"
    unfolding start_scan_def Let_def snd_conv
    by (rule worked_idle [OF _ idle_simps(1)], intro worked_timeout, rule worked_idle [OF w]) (simp_all add: idle_def)
  with w show ?thesis by (auto simp: duplicateScanStart_def split: option.splits)
qed

section \<open>The timers\<close>

lemma worker_ok_rest:
  assumes "worker_ok (t # ts) e" and "\<And>a step. bt_task t \<noteq> DownloadTask (de_entryId e) a step"
  shows "worker_ok ts e"
proof -
  have "bt_task t \<noteq> DownloadTask (de_entryId e) a ResolveStep" "DownloadTask (de_entryId e) a InterruptStep \<noteq> bt_task t" for a
    using assms(2) by (simp_all add: eq_commute)
  with assms(1) show ?thesis by (auto simp: worker_ok_def has_interrupt_def image_iff split: download_state.splits)
qed

lemma worker_ok_other:
  assumes "worker_ok (t # ts) e" and "bt_task t = DownloadTask i a step"
    and "de_state e \<noteq> expected_state step \<or> de_attempt e \<noteq> Some a"
  shows "worker_ok ts e"
proof (cases step)
  case ResolveStep
  with assms show ?thesis
    by (auto simp: worker_ok_def has_interrupt_def image_iff split: download_state.splits)
next
  case InterruptStep
  with assms show ?thesis
    by (auto simp: worker_ok_def has_interrupt_def image_iff split: download_state.splits)
qed

lemma worker_ok_worked:
  assumes "paired (t # ts)" and "bt_task t = DownloadTask (de_entryId e) a step"
    and "de_state e = expected_state step" "de_attempt e = Some a"
  shows "worker_ok ts (worked_entry a step e)"
proof (cases step)
  case ResolveStep
  with assms show ?thesis by (simp add: worker_ok_def worked_entry_def Let_def)
next
  case InterruptStep
  then show ?thesis by (simp add: worker_ok_def worked_entry_def Let_def activeDownloadStates_def)
qed

lemma run_task_fields: "bb_timers (run_download_task i a step s) = bb_timers s" "bb_listening (run_download_task i a step s) = bb_listening s"
  by (auto simp: run_download_task_def Let_def emit_def release_gallery_def split: option.splits)

lemma run_task_entries: "map_of (bb_downloadEntries (run_download_task i a step s)) j =
    (case map_of (bb_downloadEntries s) j of
       None \<Rightarrow> None
     | Some e \<Rightarrow> Some (if j = i \<and> de_state e = expected_state step \<and> de_attempt e = Some a
                      then worked_entry a step e else e))"
  by (auto simp: run_download_task_def Let_def emit_def release_gallery_def lookup_update split: option.splits)

lemma worked_fire:
  assumes "worked X s" and "keyed s"
  shows "worked X (fire_timer now s)"
proof (cases "bb_timers s")
  case (Cons t ts)
  have pr: "paired (t # ts)" and l: "bb_listening s" using assms(1) Cons by (simp_all add: worked_def)
  have "worked X (run_task (bt_task t) now (s\<lparr>bb_timers := ts\<rparr>))"
  proof (cases "bt_task t")
    case (DownloadTask i a step)
    let ?s = "s\<lparr>bb_timers := ts\<rparr>"
    have "worker_ok ts x \<or> X x" if m: "map_of (bb_downloadEntries (run_download_task i a step ?s)) j = Some x" for j x
    proof -
      from m obtain e where e: "map_of (bb_downloadEntries s) j = Some e"
        and x: "x = (if j = i \<and> de_state e = expected_state step \<and> de_attempt e = Some a then worked_entry a step e else e)"
        by (auto simp: run_task_entries split: option.splits)
      have ok: "worker_ok (t # ts) e \<or> X e" using workedD [OF assms(1) e] by (simp add: Cons)
      have id: "de_entryId e = j" by (rule keyedD [OF assms(2) e])
      show ?thesis
      proof (cases "j = i")
        case False
        with x ok worker_ok_rest [of t ts e] DownloadTask id show ?thesis by auto
      next
        case True
        with x ok worker_ok_other [of t ts e, OF _ DownloadTask] worker_ok_worked [OF pr] DownloadTask id show ?thesis by auto
      qed
    qed
    with l pr show ?thesis unfolding DownloadTask run_task.simps worked_def by (simp add: run_task_fields)
  next
    case (DuplicateTask g finish)
    have "worker_ok ts e \<or> X e" if "map_of (bb_downloadEntries s) i = Some e" for i e
      using workedD [OF assms(1) that, unfolded Cons] worker_ok_rest [of t ts e] by (auto simp: DuplicateTask)
    with l pr have "worked X (s\<lparr>bb_timers := ts\<rparr>)" by (simp add: worked_def)
    from worked_idle [OF this idle_advance] show ?thesis by (simp add: DuplicateTask)
  qed
  with Cons assms show ?thesis by (simp add: fire_timer_def)
qed (use assms in \<open>simp add: fire_timer_def\<close>)

text \<open>A decision and a merge of overlapping editions queue a download without a worker.\<close>

fun puts_back :: "browser_call \<Rightarrow> bool" where
  "puts_back (DecideOverlap _ _) = True"
| "puts_back (MergeEditions _ _ _) = True"
| "puts_back _ = False"

lemma worked_step:
  assumes w: "worked X s" and ok: "downloads_ok s" and "i \<noteq> Listen False" and "\<And>c. i = Call c \<Longrightarrow> \<not> puts_back c"
  shows "worked X (browser_step parse nfkc s i)"
proof (cases i)
  case (Call c)
  with assms show ?thesis
    by (cases c) (simp_all add: worked_queue_add worked_retry worked_cancel worked_scan_start
        worked_idle [OF w idle_duplicate] worked_idle [OF w idle_scan_cancel] worked_idle [OF w idle_open]
        worked_idle [OF w idle_history] worked_idle [OF w idle_exclude] worked_idle [OF w idle_restore]
        worked_idle [OF w idle_reset])
qed (use assms in \<open>simp_all add: worked_fire downloads_ok_keyed, simp_all add: worked_def factory_reset_def\<close>)

section \<open>Coming to rest\<close>

lemma fire_due:
  assumes "bb_timers s = t # ts" and "bt_due t \<le> bb_clock s"
  shows "bb_timers (fire_timer now s) = ts" and "bb_clock (fire_timer now s) = bb_clock s"
  using assms idle_advance [of "s\<lparr>bb_timers := ts\<rparr>"]
  by (cases "bt_task t"; auto simp: fire_timer_def run_task_fields idle_def run_download_task_def Let_def emit_def release_gallery_def
      advanceDuplicateScanFixture_def report_fixture_def split: option.splits)+

lemma fire_all:
  "\<forall>t \<in> set (bb_timers s). bt_due t \<le> bb_clock s \<Longrightarrow> length (bb_timers s) = n \<Longrightarrow>
   bb_timers (run_browser parse nfkc s (replicate n (TimerFires now))) = []"
proof (induction n arbitrary: s)
  case (Suc n)
  then obtain t ts where ts: "bb_timers s = t # ts" by (cases "bb_timers s") auto
  with Suc.prems have d: "bt_due t \<le> bb_clock s" by simp
  note f = fire_due [OF ts d, of now]
  from Suc.prems ts have "\<forall>t \<in> set (bb_timers (fire_timer now s)). bt_due t \<le> bb_clock (fire_timer now s)"
    "length (bb_timers (fire_timer now s)) = n" by (simp_all add: f)
  from Suc.IH [OF this] show ?case by simp
qed simp

section \<open>Decisions and merges\<close>

text \<open>
  What a decision or a merge does to the downloads: it starts no worker, and an entry it changes is one that is given
  up, saved, or back in the queue.
\<close>

definition settled_states :: "download_state set" where
  "settled_states = {Queued, Cancelled, Quarantined, Completed}"

definition settles :: "browser_backend \<Rightarrow> browser_backend \<Rightarrow> bool" where
  "settles s s' \<longleftrightarrow> bb_timers s' = bb_timers s \<and> bb_listening s' = bb_listening s
     \<and> (\<forall>i e. map_of (bb_downloadEntries s') i = Some e \<longrightarrow>
          map_of (bb_downloadEntries s) i = Some e \<or> de_state e \<in> settled_states)"

lemma settles_refl [simp]: "settles s s"
  by (simp add: settles_def)

lemma settles_trans: "settles s s' \<Longrightarrow> settles s' s'' \<Longrightarrow> settles s s''"
  unfolding settles_def by metis

lemma settles_idle: "idle s s' \<Longrightarrow> settles s s'"
  by (simp add: settles_def idle_def)

lemma settles_after: "settles s s' \<Longrightarrow> idle s' s'' \<Longrightarrow> settles s s''"
  by (blast intro: settles_trans settles_idle)

lemma settles_entry: "de_state e \<in> settled_states \<Longrightarrow> settles s (set_entry e s)"
  by (auto simp: settles_def set_entry_def lookup_update split: if_splits)

lemma settles_set: "de_state e \<in> settled_states \<Longrightarrow> idle s s' \<Longrightarrow> settles s (set_entry e s')"
  by (rule settles_trans [OF settles_idle settles_entry])

lemma settles_foldl: "(\<And>s x. settles s (f s x)) \<Longrightarrow> settles s (foldl f s xs)"
  by (induction xs arbitrary: s) (auto intro: settles_trans)

lemma settles_cancel_removed: "settles s (cancel_removed i s)"
  unfolding cancel_removed_def by (auto split: option.splits intro!: settles_entry simp: settled_states_def)

lemma settles_decide_pair: "settles s (snd (decide_pair request i now s))"
proof -
  have d: "idle s s1" if "duplicateDecisionApply q now s = (r, s1)" for q r s1
    using idle_duplicate [of s q now] that by simp
  have p: "settles s1 (snd (pair_decided request i now old s1))" for s1 old
    unfolding pair_decided_def pair_removal_def Let_def
    by (auto split: duplicate_action.splits intro!: settles_after [OF _ idle_simps(2)] settles_cancel_removed)
  have "settles s s2" if "duplicateDecisionApply q now s = (r, s1)" "pair_decided request i now old s1 = (x, s2)" for q r s1 old x s2
    using settles_trans [OF settles_idle [OF d [OF that(1)]] p [of s1 old]] that(2) by simp
  then show ?thesis
    unfolding decide_pair_def by (auto split: option.splits prod.splits sum.splits dest: d settles_idle)
qed

lemma settles_settle_existing: "settles s (settle_existing e chained now s)"
  unfolding settle_existing_def
  by (auto split: option.splits intro!: settles_set simp: settled_states_def withdrawn_def)

lemma settles_remove_existing: "settles s (remove_existing request review existing chained now s)"
  unfolding remove_existing_def
  by (auto split: option.splits intro: settles_trans [OF settles_idle [OF idle_simps(3)] settles_settle_existing])

lemma settles_finish: "settles s (finish_review cancelled waiting i s)"
  by (auto simp: finish_review_def settles_def settled_states_def lookup_update split: option.splits)

lemma idle_note: "idle s (note_automation request review nx s)"
  by (simp add: note_automation_def record_automation_def idle_def Let_def)

lemma settles_decide: "settles s (snd (downloadOverlapDecisionApply parse nfkc request now s))"
proof -
  have "settles s (snd (apply_decision request now review s))" for review
    unfolding apply_decision_def Let_def snd_conv
    by (rule settles_trans [OF settles_trans [OF settles_idle settles_remove_existing] settles_finish])
      (auto intro: idle_trans [OF idle_trans [OF idle_simps(2) idle_note] idle_simps(3)] idle_trans [OF idle_simps(2) idle_note])
  then show ?thesis
    unfolding downloadOverlapDecisionApply_def using settles_decide_pair [of s request _ now]
    by (auto split: option.splits prod.splits) (metis snd_conv)+
qed

lemma settles_apply_merge: "settles s (snd (apply_merge request uuid now review c targets added s))"
proof -
  have a: "settles s (affect_review request i j s kv)" for i j s kv
    unfolding affect_review_def Let_def
    by (auto split: prod.splits option.splits intro: settles_idle settles_set simp: settled_states_def)
  have o: "settles s (outdate_pair i s kv)" for i s kv
    unfolding outdate_pair_def
    by (auto split: prod.splits intro!: settles_idle idle_trans [OF _ idle_simps(5)]) (simp_all add: idle_def)
  have b: "settles s (bump_completed i s)" for i s
    unfolding bump_completed_def by (auto split: option.splits intro!: settles_entry simp: settled_states_def)
  have x: "settles s (exclude_source src s)" for src s
    unfolding exclude_source_def by (rule settles_trans [OF settles_idle [OF idle_simps(3)] settles_cancel_removed])
  have n: "idle s (note_merge request review c m k now s)" for m k s
    by (auto simp: note_merge_def record_automation_def set_review_def idle_def Let_def split: option.splits)
  have c: "settles s (s\<lparr>bb_composedPageCounts := m\<rparr>)" for m s by (simp add: settles_def)
  have i: "settles s s' \<Longrightarrow> settles s' s1 \<Longrightarrow> settles s (if P then s1 else s')" for s s' s1 P
    by (auto intro: settles_trans)
  show ?thesis
    unfolding apply_merge_def Let_def snd_conv
    by (intro i [OF _ settles_idle [OF n]] i [OF _ c] i [OF _ x] settles_trans [OF _ b] settles_trans [OF settles_foldl settles_foldl] a o)
qed

lemma settles_merge: "settles s (snd (downloadOverlapMerge nfkc request uuid now s))"
proof -
  have p: "settles s s1" if "prepare_pair request s = Inr s1" for s1
    using prepare_pair_cases [OF that] by (auto intro: settles_idle)
  have "settles s s2" if "prepare_pair request s = Inr s1" "apply_merge request uuid now review c targets added s1 = (r, s2)"
    for s1 review c targets added r s2
    using settles_trans [OF p [OF that(1)] settles_apply_merge, of request uuid now review c targets added] that(2) by simp
  then show ?thesis
    unfolding downloadOverlapMerge_def by (auto split: sum.splits option.splits prod.splits dest: p)
qed

lemma settles_call: "puts_back c \<Longrightarrow> settles s (snd (answer_call parse nfkc c s))"
  by (cases c) (simp_all add: settles_decide settles_merge)

text \<open>A download that a decision or a merge among the inputs put back into the queue, and that is as it was then.\<close>

definition put_back_by :: "(string \<Rightarrow> js_value option) \<Rightarrow> (string \<Rightarrow> string) \<Rightarrow> browser_backend \<Rightarrow> browser_input list \<Rightarrow>
    download_entry \<Rightarrow> bool" where
  "put_back_by parse nfkc s is e \<longleftrightarrow> de_state e = Queued
     \<and> (\<exists>before c after. is = before @ Call c # after \<and> puts_back c
          \<and> map_of (bb_downloadEntries (run_browser parse nfkc s before)) (de_entryId e) \<noteq> Some e
          \<and> map_of (bb_downloadEntries (run_browser parse nfkc s (before @ [Call c]))) (de_entryId e) = Some e)"

lemma put_back_more: "put_back_by parse nfkc s is e \<Longrightarrow> put_back_by parse nfkc s (is @ [i]) e"
  unfolding put_back_by_def by force

lemma put_back_first: "put_back_by parse nfkc (browser_step parse nfkc s i) is e \<Longrightarrow> put_back_by parse nfkc s (i # is) e"
  unfolding put_back_by_def by (metis append_Cons foldl_Cons)

lemma worked_run:
  assumes "worked (\<lambda>_. False) s" and "downloads_ok s" and "Listen False \<notin> set is"
  shows "worked (put_back_by parse nfkc s is) (run_browser parse nfkc s is) \<and> downloads_ok (run_browser parse nfkc s is)"
  using assms(3)
proof (induction "is" rule: rev_induct)
  case Nil
  then show ?case using assms(1,2) by (simp add: put_back_by_def)
next
  case (snoc i xs)
  let ?s = "run_browser parse nfkc s xs" and ?X = "put_back_by parse nfkc s (xs @ [i])"
  from snoc have w: "worked (put_back_by parse nfkc s xs) ?s" and ok: "downloads_ok ?s" and i: "i \<noteq> Listen False" by auto
  have wX: "worked ?X ?s" by (rule worked_mono [OF w put_back_more])
  have ok': "downloads_ok (browser_step parse nfkc ?s i)" by (rule browser_step_ok [OF ok])
  have "worked ?X (browser_step parse nfkc ?s i)"
  proof (cases "\<exists>c. i = Call c \<and> puts_back c")
    case False
    with worked_step [OF wX ok i] show ?thesis by blast
  next
    case True
    then obtain c where c: "i = Call c" "puts_back c" by blast
    let ?t = "browser_step parse nfkc ?s i"
    have st: "settles ?s ?t" using settles_call [OF c(2)] by (simp add: c(1))
    have "worker_ok (bb_timers ?t) e \<or> ?X e" if e: "map_of (bb_downloadEntries ?t) j = Some e" for j e
    proof (cases "map_of (bb_downloadEntries ?s) j = Some e")
      case True
      with workedD [OF wX] st show ?thesis by (auto simp: settles_def)
    next
      case False
      have id: "de_entryId e = j" by (rule downloads_okD(2) [OF ok' e])
      from False e st have "de_state e \<in> settled_states" unfolding settles_def by blast
      then consider "de_state e = Queued" | "\<not> active_entry e" by (auto simp: settled_states_def activeDownloadStates_def)
      then show ?thesis
      proof cases
        case 1
        have "?X e" unfolding put_back_by_def
          by (rule conjI [OF 1], rule exI [of _ xs], rule exI [of _ c], rule exI [of _ "[]"]) (use False e id c in simp)
        then show ?thesis ..
      qed (simp add: worker_ok_idle)
    qed
    then show ?thesis using wX st by (simp add: worked_def settles_def)
  qed
  with ok' show ?case by simp
qed

section \<open>Properties\<close>

text \<open>C16: The queue comes to rest. Start with any backend in order that has nothing under way, let someone listen from
  now on, and let anything happen: once the pending tasks have had their time and run, a download that is still
  active is one that a decision or a merge of overlapping editions put back into the queue, and that has been as it
  was put back ever since (nothing works on it). Without such a call no download is active.\<close>

theorem downloads_come_to_rest:
  assumes "downloads_ok s0" and "bb_timers s0 = []" and "active_entry_ids s0 = []" and "Listen False \<notin> set is"
    and "\<forall>t \<in> set (bb_timers (run_browser parse nfkc s0 (Listen True # is))).
      bt_due t \<le> bb_clock (run_browser parse nfkc s0 (Listen True # is)) + d"
    and "n = length (bb_timers (run_browser parse nfkc s0 (Listen True # is)))"
    and "inputs = Listen True # is @ Elapse d # replicate n (TimerFires now)"
  shows "bb_timers (run_browser parse nfkc s0 inputs) = []
    \<and> (\<forall>e \<in> set (vals (bb_downloadEntries (run_browser parse nfkc s0 inputs))).
         active_entry e \<longrightarrow> put_back_by parse nfkc s0 inputs e)
    \<and> ((\<forall>c. Call c \<in> set is \<longrightarrow> \<not> puts_back c) \<longrightarrow> active_entry_ids (run_browser parse nfkc s0 inputs) = [])"
proof -
  let ?l = "s0\<lparr>bb_listening := True\<rparr>" and ?r = "is @ Elapse d # replicate n (TimerFires now)"
  let ?s = "run_browser parse nfkc s0 (Listen True # is)" and ?last = "run_browser parse nfkc s0 inputs"
  have "?last = run_browser parse nfkc (?s\<lparr>bb_clock := bb_clock ?s + d\<rparr>) (replicate n (TimerFires now))" by (simp add: assms(7))
  then have t: "bb_timers ?last = []" using fire_all [of "?s\<lparr>bb_clock := bb_clock ?s + d\<rparr>" n] assms(5,6) by simp
  have "worker_ok [] e" if m: "map_of (bb_downloadEntries s0) i = Some e" for i e
  proof (rule worker_ok_idle)
    from map_of_SomeD [OF m] have "e \<in> set (vals (bb_downloadEntries s0))" by force
    with assms(3) show "\<not> active_entry e" by (auto simp: active_entry_ids_def filter_empty_conv)
  qed
  then have "worked (\<lambda>_. False) ?l" by (simp add: worked_def assms(2))
  moreover have l: "downloads_ok ?l" by (rule downloads_ok_touches [OF _ assms(1)]) (simp add: touches_same)
  moreover have "Listen False \<notin> set ?r" using assms(4) by auto
  ultimately have "worked (put_back_by parse nfkc ?l ?r) (run_browser parse nfkc ?l ?r) \<and> downloads_ok (run_browser parse nfkc ?l ?r)"
    by (rule worked_run)
  then have w: "worked (put_back_by parse nfkc ?l ?r) ?last" and ok: "downloads_ok ?last" by (simp_all add: assms(7))
  have a: "put_back_by parse nfkc s0 inputs e" if "e \<in> set (vals (bb_downloadEntries ?last))" "active_entry e" for e
  proof -
    from that(1) obtain kv where kv: "kv \<in> set (bb_downloadEntries ?last)" "e = snd kv" by auto
    from workedD [OF w map_of_entries [OF downloads_okD(1) [OF ok] kv(1)]] kv(2) that(2) t worker_ok_none
    have "put_back_by parse nfkc ?l ?r e" by auto
    then show ?thesis using put_back_first [of parse nfkc s0 "Listen True" ?r e] by (simp add: assms(7))
  qed
  have "active_entry_ids ?last = []" if "\<forall>c. Call c \<in> set is \<longrightarrow> \<not> puts_back c"
  proof -
    have "\<not> active_entry e" if e: "e \<in> set (vals (bb_downloadEntries ?last))" for e
    proof
      assume "active_entry e"
      from a [OF e this] obtain before c after where "inputs = before @ Call c # after" "puts_back c"
        unfolding put_back_by_def by blast
      then have "Call c \<in> set inputs" "puts_back c" by simp_all
      with \<open>\<forall>c. Call c \<in> set is \<longrightarrow> \<not> puts_back c\<close> show False by (auto simp: assms(7))
    qed
    then show ?thesis by (auto simp: active_entry_ids_def filter_empty_conv)
  qed
  with t a show ?thesis by blast
qed

lemma downloads_come_to_rest_witness:
  "active_entry_ids (run_browser (\<lambda>_. None) id new_backend
     (sample_inputs @ Elapse 225 # replicate 2 (TimerFires ''u''))) = []"
proof -
  have s: "bb_clock (run_browser (\<lambda>_. None) id new_backend sample_inputs) = 0"
    "map bt_due (bb_timers (run_browser (\<lambda>_. None) id new_backend sample_inputs)) = [75, 225]"
    by (simp_all add: sample_inputs_def downloadQueueAdd_def Let_def queue_refusal_def positive_id_def rat_is_int_def
      new_backend_def normalizedGallerySet_def set_from_def set_add_def num_int_def queue_gallery_def queue_new_def
      standing_entry_def set_entry_def start_worker_def runFixtureDownload_def setTimeout_def schedule_def trim_def
      trim_start_def is_space_def)
  have "bt_due t \<le> 225" if "t \<in> set (bb_timers (run_browser (\<lambda>_. None) id new_backend sample_inputs))" for t
  proof -
    have "bt_due t \<in> set (map bt_due (bb_timers (run_browser (\<lambda>_. None) id new_backend sample_inputs)))" using that by simp
    then show ?thesis unfolding s(2) by auto
  qed
  moreover have "2 = length (bb_timers (run_browser (\<lambda>_. None) id new_backend sample_inputs))"
    using arg_cong [OF s(2), of length] by simp
  moreover have "downloads_ok new_backend" "bb_timers new_backend = []" "active_entry_ids new_backend = []"
    by (simp_all add: downloads_ok_def new_backend_def active_entry_ids_def)
  ultimately show ?thesis
    using downloads_come_to_rest [of new_backend "[Call (QueueAdd [Num 5] ''r'' ''t'')]" "\<lambda>_. None" id 225 2 _ "''u''"] s(1)
    by (simp add: sample_inputs_def)
qed

text \<open>C40: A call of the browser backend that is refused leaves the state exactly as it was, whatever the request and
  whatever the reason; the one exception is a refused merge of two completed albums, which leaves the state as it
  was but for the review made of their comparison, and that only if the comparison is open, is named in its current
  revision, and both albums are still saved. The calls are those of the machine: queueing, retrying, cancelling, the
  duplicate scan and its decisions, the overlap reviews, their decisions, merges and history, the exclusions and
  the reset of the exploration data.\<close>

theorem refused_calls_change_nothing:
  assumes "fst (answer_call parse nfkc c s)"
  shows "snd (answer_call parse nfkc c s) = (case c of MergeEditions request uuid now \<Rightarrow> merge_leaves request s | _ \<Rightarrow> s)"
proof (cases "\<exists>request uuid now. c = MergeEditions request uuid now")
  case True
  then obtain request uuid now where c: "c = MergeEditions request uuid now" by blast
  with assms obtain err where "fst (downloadOverlapMerge nfkc request uuid now s) = Inl err" by (auto simp: fst_refused)
  from merge_refused [OF this] c show ?thesis by simp
next
  case False
  then show ?thesis
    using assms by (cases c) (auto simp: fst_refused queue_refused retry_refused cancel_refused scan_start_refused
        scan_cancel_refused duplicate_refused open_refused overlap_refused history_refused exclude_refused restore_refused
        reset_refused)
qed

lemma refused_calls_change_nothing_witness:
  "snd (answer_call (\<lambda>_. None) id (CancelEntries [''x'']) new_backend) = new_backend"
proof -
  have "fst (answer_call (\<lambda>_. None) id (CancelEntries [''x'']) new_backend)"
    by (simp add: refused_def downloadCancel_def trimmed_ids_def set_from_def set_add_def ids_refusal_def new_backend_def
        trim_def trim_start_def is_space_def)
  from refused_calls_change_nothing [OF this] show ?thesis by simp
qed

section \<open>What the queue does not guard\<close>

text \<open>An older entry of a gallery that is queued again can be retried beside the newer one.\<close>

lemma retry_makes_two_active:
  "\<exists>is. map (\<lambda>e. (de_galleryId e, de_state e)) (filter active_entry
     (vals (bb_downloadEntries (run_browser parse nfkc new_backend is)))) = [(5, Queued), (5, Queued)]"
proof -
  define e0 where "e0 = (new_entry ''t'' 5 1)\<lparr>de_revision := 1, de_state := Cancelled\<rparr>"
  let ?is = "[Call (QueueAdd [Num 5] ''r'' ''t''), Call (CancelEntries [new_entry_id 5 1]),
     Call (QueueAdd [Num 5] ''q'' ''t''), Call (Retry [new_entry_id 5 1] False)]"
  have ne: "new_entry_id 5 1 \<noteq> []" by (simp add: new_entry_id_def)
  have tr: "trim (new_entry_id 5 (Suc 0)) = new_entry_id 5 (Suc 0)"
    by (simp add: new_entry_id_def show_int_def show_nat.simps digit_char_def digit_chars_def trim_def trim_start_def is_space_def)
  have "map (\<lambda>e. (de_galleryId e, de_state e)) (filter active_entry
     (vals (bb_downloadEntries (run_browser parse nfkc new_backend ?is)))) = [(5, Queued), (5, Queued)]"
    using ne
    by (simp add: downloadQueueAdd_def Let_def queue_refusal_def positive_id_def rat_is_int_def new_entry_id_inj
      new_backend_def normalizedGallerySet_def set_from_def set_add_def num_int_def queue_gallery_def queue_new_def
      standing_entry_def set_entry_def start_worker_def trim_def [of "''r''"] trim_def [of "''q''"] trim_start_def is_space_def
      downloadCancel_def trimmed_ids_def ids_refusal_def entries_of_def List.map_filter_simps cancel_refusal_def
      new_entry_def cancellableDownloadStates_def activeDownloadStates_def cancel_entry_def cancelled_entry_def
      emit_def release_gallery_def downloadRetry_def retry_normalized_def retry_refusal_def isDuplicateExplorationExcluded_def
      retry_entry_def retried_entry_def tr)
  then show ?thesis by (rule exI)
qed

text \<open>After a factory reset a request id still answers with the entries of before, which are no longer there.\<close>

lemma reset_replays_lost_entries:
  "fst (downloadQueueAdd [Num 5] ''r'' ''u'' (run_browser parse nfkc new_backend (sample_inputs @ [FactoryReset]))) = Inr [new_entry ''t'' 5 1]"
  "bb_downloadEntries (run_browser parse nfkc new_backend (sample_inputs @ [FactoryReset])) = []"
  by (simp_all add: sample_inputs_def factory_reset_def downloadQueueAdd_def Let_def queue_refusal_def positive_id_def rat_is_int_def
      new_backend_def normalizedGallerySet_def set_from_def set_add_def num_int_def queue_gallery_def queue_new_def
      standing_entry_def set_entry_def start_worker_def runFixtureDownload_def setTimeout_def trim_def trim_start_def is_space_def)

end
