(* ===== verification/BrowserReviewOrder.thy ===== *)
theory BrowserReviewOrder
  imports BrowserBackendFacts
begin

text \<open>
  How the reviews of the browser backend are kept: every review stands under its own id, and the revision of a review
  of a waiting download, or of a pair of completed albums, never falls, whatever happens.
\<close>

section \<open>The reviews in order\<close>

text \<open>Maps without a key twice; reviews under their ids; the ids of pairs carry no blanks around them.\<close>

definition stored_ok :: "browser_backend \<Rightarrow> bool" where
  "stored_ok s \<longleftrightarrow> distinct (keys (bb_downloadOverlapReviews s)) \<and> distinct (keys (bb_duplicateReviews s))
     \<and> (\<forall>i r. map_of (bb_downloadOverlapReviews s) i = Some r \<longrightarrow> rv_reviewId r = i)
     \<and> (\<forall>i w. map_of (bb_duplicateReviews s) i = Some w \<longrightarrow> dc_candidateId (dw_candidate w) = i \<and> trim i = i)"

lemma stored_okD:
  assumes "stored_ok s"
  shows "map_of (bb_downloadOverlapReviews s) i = Some r \<Longrightarrow> rv_reviewId r = i"
    and "map_of (bb_duplicateReviews s) i = Some w \<Longrightarrow> dc_candidateId (dw_candidate w) = i"
    and "map_of (bb_duplicateReviews s) i = Some w \<Longrightarrow> trim i = i"
  using assms by (auto simp: stored_ok_def)

text \<open>What becomes of the reviews of \<open>s\<close>: they stay, and their revisions do not fall.\<close>

definition since :: "browser_backend \<Rightarrow> browser_backend \<Rightarrow> bool" where
  "since s s' \<longleftrightarrow> stored_ok s'
     \<and> (\<forall>i r. pair_id i = None \<longrightarrow> map_of (bb_downloadOverlapReviews s) i = Some r \<longrightarrow>
          (\<exists>r'. map_of (bb_downloadOverlapReviews s') i = Some r' \<and> rv_revision r \<le> rv_revision r'))
     \<and> (\<forall>i w. map_of (bb_duplicateReviews s) i = Some w \<longrightarrow>
          (\<exists>w'. map_of (bb_duplicateReviews s') i = Some w' \<and> dc_revision (dw_candidate w) \<le> dc_revision (dw_candidate w')))"

lemma since_ok: "since s s' \<Longrightarrow> stored_ok s'"
  by (simp add: since_def)

lemma since_refl: "stored_ok s \<Longrightarrow> since s s"
  by (auto simp: since_def)

lemma since_trans: "since s s' \<Longrightarrow> since s' s'' \<Longrightarrow> since s s''"
  unfolding since_def by (meson order_trans)

lemma since_review:
  "since s s' \<Longrightarrow> pair_id i = None \<Longrightarrow> map_of (bb_downloadOverlapReviews s) i = Some r \<Longrightarrow>
   \<exists>r'. map_of (bb_downloadOverlapReviews s') i = Some r' \<and> rv_revision r \<le> rv_revision r'"
  by (simp add: since_def)

lemma since_pair:
  "since s s' \<Longrightarrow> map_of (bb_duplicateReviews s) i = Some w \<Longrightarrow>
   \<exists>w'. map_of (bb_duplicateReviews s') i = Some w' \<and> dc_revision (dw_candidate w) \<le> dc_revision (dw_candidate w')"
  by (simp add: since_def)

lemma since_set_review:
  assumes "since s0 s" and "rv_reviewId v = i"
    and "\<And>r. pair_id i = None \<Longrightarrow> map_of (bb_downloadOverlapReviews s0) i = Some r \<Longrightarrow> rv_revision r \<le> rv_revision v"
  shows "since s0 (set_review i v s)"
  using assms unfolding since_def stored_ok_def set_review_def
  by (auto simp: lookup_update distinct_keys_update simp del: set_map)

lemma since_set_pair:
  assumes "since s0 s" and "dc_candidateId (dw_candidate v) = i" and "trim i = i"
    and "\<And>w. map_of (bb_duplicateReviews s0) i = Some w \<Longrightarrow> dc_revision (dw_candidate w) \<le> dc_revision (dw_candidate v)"
    and "bb_downloadOverlapReviews s' = bb_downloadOverlapReviews s"
    and "bb_duplicateReviews s' = AList.update i v (bb_duplicateReviews s)"
  shows "since s0 s'"
  using assms unfolding since_def stored_ok_def
  by (auto simp: lookup_update distinct_keys_update simp del: set_map)

text \<open>Most operations leave the reviews alone.\<close>

definition aside :: "browser_backend \<Rightarrow> browser_backend \<Rightarrow> bool" where
  "aside s s' \<longleftrightarrow> bb_downloadOverlapReviews s' = bb_downloadOverlapReviews s \<and> bb_duplicateReviews s' = bb_duplicateReviews s"

lemma aside_refl [simp]: "aside s s"
  by (simp add: aside_def)

lemma aside_trans: "aside s s' \<Longrightarrow> aside s' s'' \<Longrightarrow> aside s s''"
  by (simp add: aside_def)

lemma since_aside:
  assumes "since s s'" and "aside s' s''"
  shows "since s s''"
proof -
  from assms(2) have e: "bb_downloadOverlapReviews s'' = bb_downloadOverlapReviews s'" "bb_duplicateReviews s'' = bb_duplicateReviews s'"
    by (simp_all add: aside_def)
  show ?thesis using assms(1) unfolding since_def stored_ok_def e .
qed

lemma aside_foldl: "(\<And>s x. aside s (f s x)) \<Longrightarrow> aside s (foldl f s xs)"
  by (induction xs arbitrary: s) (auto intro: aside_trans)

lemma aside_simps [simp]:
  "aside s (emit e s)" "aside s (setTimeout d t s)" "aside s (hide_gallery g s)" "aside s (release_gallery g i s)"
  "aside s (set_candidates f s)" "aside s (settle_candidate act i c s)" "aside s (set_run run s)" "aside s (set_entry x s)"
  "aside s (start_worker i a s)" "aside s (record_automation i h s)"
  by (simp_all add: aside_def emit_def setTimeout_def hide_gallery_def release_gallery_def set_candidates_def
      settle_candidate_def set_run_def set_entry_def start_worker_def runFixtureDownload_def record_automation_def)

lemma aside_note: "aside s (note_automation request review nx s)"
  by (simp add: note_automation_def record_automation_def aside_def Let_def)

lemma aside_finish: "aside s (finish_review cancelled waiting i s)"
  by (auto simp: finish_review_def aside_def split: option.splits)

lemma aside_cancel_removed: "aside s (cancel_removed i s)"
  by (auto simp: cancel_removed_def split: option.splits)

lemma aside_bump: "aside s (bump_completed i s)"
  by (auto simp: bump_completed_def split: option.splits)

lemma aside_exclude_source: "aside s (exclude_source r s)"
  unfolding exclude_source_def by (rule aside_trans [OF aside_simps(3) aside_cancel_removed])

lemma aside_queue_galleries: "queue_galleries now gs s = (es, s') \<Longrightarrow> aside s s'"
proof (induction gs arbitrary: s es)
  case (Cons g gs)
  obtain e s1 where q: "queue_gallery now g s = (e, s1)" by fastforce
  obtain es1 s2 where q2: "queue_galleries now gs s1 = (es1, s2)" by fastforce
  have "aside s s1"
    using q by (auto simp: queue_gallery_def queue_new_def Let_def aside_def set_entry_def start_worker_def
        runFixtureDownload_def setTimeout_def split: option.splits if_splits)
  with Cons q q2 show ?case by (auto intro: aside_trans)
qed simp

lemma aside_queue_add: "aside s (snd (downloadQueueAdd gs r now s))"
proof (rule queue_add_cases [of gs r now s])
  fix es s1
  assume a: "queue_refusal gs (trim r) = None" "map_of (bb_downloadQueueRequests s) (trim r) = None"
    and q: "queue_galleries now (normalizedGallerySet (map num_int gs)) s = (es, s1)"
  from aside_queue_galleries [OF q] show ?thesis by (simp add: queue_add_new [OF a q] aside_def)
qed simp

lemma aside_retry: "aside s (snd (downloadRetry ids fill s))"
proof -
  have "aside s (foldl retry_entry s es)" for es
    by (rule aside_foldl)
      (simp add: retry_entry_def Let_def aside_def set_entry_def emit_def start_worker_def runFixtureDownload_def setTimeout_def)
  then show ?thesis by (auto simp: downloadRetry_def retry_normalized_def Let_def split: option.splits)
qed

lemma aside_cancel: "aside s (snd (downloadCancel ids s))"
proof -
  have "aside s (foldl cancel_entry s es)" for es
    by (rule aside_foldl) (simp add: cancel_entry_def Let_def aside_def set_entry_def emit_def release_gallery_def)
  then show ?thesis by (auto simp: downloadCancel_def Let_def split: option.splits)
qed

lemma aside_scan_start: "aside s (snd (duplicateScanStart ids now s))"
  by (auto simp: duplicateScanStart_def start_scan_def Let_def aside_def emit_def setTimeout_def split: option.splits)

lemma aside_scan_cancel: "aside s (snd (duplicateScanCancel now s))"
  by (auto simp: duplicateScanCancel_def Let_def aside_def set_run_def emit_def split: option.splits)

lemma aside_history: "aside s (snd (downloadOverlapAutomationHistoryAcknowledge i now s))"
  by (auto simp: downloadOverlapAutomationHistoryAcknowledge_def Let_def aside_def split: option.splits)

lemma aside_exclude: "aside s (snd (autoFindExclude ids reason now s))"
proof -
  have "aside s (foldl (exclude_one r t) s xs)" for r t xs
    by (rule aside_foldl) (simp add: exclude_one_def Let_def aside_def)
  then show ?thesis by (auto simp: autoFindExclude_def Let_def aside_def split: option.splits)
qed

lemma aside_restore: "aside s (snd (explorationExclusionsRestore ids s))"
proof -
  have "aside s (foldl restore_one s xs)" for xs
    by (rule aside_foldl) (simp add: restore_one_def aside_def)
  then show ?thesis by (auto simp: explorationExclusionsRestore_def Let_def split: option.splits)
qed

lemma aside_reset: "aside s (snd (explorationDataReset confirmation favorites history s))"
  by (auto simp: explorationDataReset_def aside_def)

lemma aside_task: "aside s (run_download_task i a step s)"
  by (auto simp: run_download_task_def Let_def aside_def emit_def release_gallery_def split: option.splits)

section \<open>The operations on reviews\<close>

lemma since_open: "stored_ok s \<Longrightarrow> since s (snd (downloadOverlapReviewGet i s))"
proof -
  assume ok: "stored_ok s"
  have "since s (set_review (trim i) (or_value (map_of (bb_downloadOverlapReviews s) (trim i)) (browserOverlapReview (trim i))) s)"
    using stored_okD(1) [OF ok]
    by (intro since_set_review since_refl ok; cases "map_of (bb_downloadOverlapReviews s) (trim i)")
      (auto simp: browserOverlapReview_def Let_def)
  with since_refl [OF ok] show ?thesis by (auto simp: downloadOverlapReviewGet_def Let_def)
qed

lemma trim_fixture: "trim fixture_candidate_id = fixture_candidate_id"
  by (simp add: fixture_candidate_id_def trim_def trim_start_def is_space_def)

lemma since_report: "stored_ok s \<Longrightarrow> since s (snd (report_fixture now s))"
proof -
  assume ok: "stored_ok s"
  define known where "known = or_value (map_of (bb_duplicateReviews s) fixture_candidate_id) (browserDuplicateReviewFixture now)"
  have id: "dc_candidateId (dw_candidate known) = fixture_candidate_id"
    using stored_okD(2) [OF ok]
    by (cases "map_of (bb_duplicateReviews s) fixture_candidate_id") (simp_all add: known_def browserDuplicateReviewFixture_def)
  show ?thesis
    by (rule since_set_pair [OF since_refl [OF ok], of "known\<lparr>dw_candidate := bind_candidate s (dw_candidate known)\<rparr>" fixture_candidate_id])
      (simp_all add: report_fixture_def Let_def bind_candidate_def id trim_fixture known_def [symmetric],
       simp add: known_def)
qed

lemma since_advance: "stored_ok s \<Longrightarrow> since s (advanceDuplicateScanFixture g finish now s)"
proof -
  assume ok: "stored_ok s"
  have e: "aside t (emit e (t\<lparr>bb_duplicateSnapshot := sn\<rparr>))" for t e sn by (simp add: aside_def emit_def)
  show ?thesis
    unfolding advanceDuplicateScanFixture_def Let_def
    using since_refl [OF ok] since_aside [OF since_refl [OF ok] e] since_aside [OF since_report [OF ok, of now] e]
    by (auto split: option.splits prod.splits)
qed

lemma decided_review_fields:
  "dc_candidateId (dw_candidate (decided_review request i now n review)) = dc_candidateId (dw_candidate review)"
  "dc_revision (dw_candidate (decided_review request i now n review)) = dc_revision (dw_candidate review) + 1"
  by (simp_all add: decided_review_def Let_def split: prod.splits)

lemma duplicate_decided:
  assumes "duplicateDecisionApply request now s = (Inr x, s')"
  obtains review where "map_of (bb_duplicateReviews s) (trim (dq_candidateId request)) = Some review"
    and "dq_expectedRevision request = dc_revision (dw_candidate review)"
    and "bb_duplicateReviews s' = AList.update (trim (dq_candidateId request))
      (decided_review request (trim (dq_candidateId request)) now (bb_nextDuplicateDecisionId s) review) (bb_duplicateReviews s)"
    and "bb_downloadOverlapReviews s' = bb_downloadOverlapReviews s"
  using assms
  by (auto simp: duplicateDecisionApply_def decision_refusal_def Let_def settle_candidate_def set_candidates_def
      hide_gallery_def split: option.splits if_splits)

lemma since_decide_duplicate:
  assumes ok: "stored_ok s"
  shows "since s (snd (duplicateDecisionApply request now s))"
proof (cases "fst (duplicateDecisionApply request now s)")
  case (Inl err)
  with duplicate_refused [OF Inl] since_refl [OF ok] show ?thesis by simp
next
  case (Inr x)
  then have "duplicateDecisionApply request now s = (Inr x, snd (duplicateDecisionApply request now s))" by (simp add: prod_eq_iff)
  from duplicate_decided [OF this] obtain review where
    m: "map_of (bb_duplicateReviews s) (trim (dq_candidateId request)) = Some review"
    and d: "bb_duplicateReviews (snd (duplicateDecisionApply request now s)) = AList.update (trim (dq_candidateId request))
      (decided_review request (trim (dq_candidateId request)) now (bb_nextDuplicateDecisionId s) review) (bb_duplicateReviews s)"
    and r: "bb_downloadOverlapReviews (snd (duplicateDecisionApply request now s)) = bb_downloadOverlapReviews s" by blast
  show ?thesis
    by (rule since_set_pair [OF since_refl [OF ok] _ _ _ r d])
      (use stored_okD(2,3) [OF ok m] m in \<open>simp_all add: decided_review_fields\<close>)
qed

lemma pair_id_Some: "pair_id x = Some i \<longleftrightarrow> x = duplicate_prefix @ i"
  unfolding pair_id_def starts_with_def append_eq_conv_conj by (auto, metis append_take_drop_id)

lemma completed_id: "rv_reviewId (completedPairReview w) = duplicate_prefix @ dc_candidateId (dw_candidate w)"
  by (simp add: completedPairReview_def completedPairReviewId_def Let_def)

lemma since_pair_decided:
  assumes "since s0 s" and "pair_id (xq_reviewId request) = Some i" and "dc_candidateId (dw_candidate old) = i"
  shows "since s0 (snd (pair_decided request i now old s))"
proof -
  have "aside s (pair_removal act c s)" for act c
    by (auto simp: pair_removal_def intro: aside_cancel_removed split: duplicate_action.splits)
  from since_aside [OF assms(1) this] show ?thesis
    unfolding pair_decided_def Let_def snd_conv
    by (rule since_set_review) (use assms(2,3) in \<open>simp_all add: completed_id pair_id_Some\<close>)
qed

lemma since_decide_pair:
  assumes ok: "stored_ok s" and p: "pair_id (xq_reviewId request) = Some i"
  shows "since s (snd (decide_pair request i now s))"
proof -
  have d: "since s s1" if "duplicateDecisionApply q now s = (r, s1)" for q r s1
    using since_decide_duplicate [OF ok, of q now] that by simp
  have "since s s2" if "map_of (bb_duplicateReviews s) i = Some old" "duplicateDecisionApply q now s = (r, s1)"
    "pair_decided request i now old s1 = (x, s2)" for q r s1 old x s2
    using since_pair_decided [OF d [OF that(2)] p stored_okD(2) [OF ok that(1)], of now] that(3) by simp
  then show ?thesis
    unfolding decide_pair_def using since_refl [OF ok] by (auto split: option.splits prod.splits sum.splits dest: d)
qed

lemma next_review_fields:
  "rv_reviewId (next_review request now review s) = rv_reviewId review"
  "rv_revision (next_review request now review s) = rv_revision review + 1"
  by (simp_all add: next_review_def Let_def)

lemma since_settle_existing:
  assumes "since s0 s" and "\<And>v. chained = Some v \<Longrightarrow> map_of (bb_downloadOverlapReviews s0) (rv_reviewId v) = Some v"
  shows "since s0 (settle_existing e chained now s)"
proof -
  have "since s0 (set_review (rv_reviewId v) (v\<lparr>rv_revision := rv_revision v + 1, rv_state := RCancelled,
                  rv_updatedAt := now, rv_resolvedAt := Some now\<rparr>) s)" if "chained = Some v" for v
    by (rule since_set_review [OF assms(1)]) (use assms(2) [OF that] in simp_all)
  with assms(1) show ?thesis
    by (auto simp: settle_existing_def intro: since_aside split: option.splits)
qed

lemma since_remove_existing:
  assumes "since s0 s" and "\<And>v. chained = Some v \<Longrightarrow> map_of (bb_downloadOverlapReviews s0) (rv_reviewId v) = Some v"
  shows "since s0 (remove_existing request review existing chained now s)"
  using assms since_settle_existing [OF since_aside [OF assms(1) aside_simps(3)] assms(2)]
  by (auto simp: remove_existing_def split: option.splits)

lemma since_apply_decision:
  assumes ok: "stored_ok s" and m: "map_of (bb_downloadOverlapReviews s) (xq_reviewId request) = Some review"
  shows "since s (snd (apply_decision request now review s))"
proof -
  define existing where "existing = removed_entry request review s"
  define chained where "chained = chained_review request existing s"
  define nx where "nx = next_review request now review s"
  have ch: "map_of (bb_downloadOverlapReviews s) (rv_reviewId v) = Some v" if "chained = Some v" for v
    using that stored_okD(1) [OF ok]
    by (auto simp: chained_def chained_review_def Let_def split: option.splits if_splits)
  have "since s (set_review (xq_reviewId request) nx s)"
    by (rule since_set_review [OF since_refl [OF ok]])
      (use stored_okD(1) [OF ok m] m in \<open>simp_all add: nx_def next_review_fields\<close>)
  then have "since s (note_automation request review nx (set_review (xq_reviewId request) nx s))"
    by (rule since_aside [OF _ aside_note])
  then have "since s (if xq_action request = RemoveIncoming
      then hide_gallery (or_galleryId (rv_incoming review)) (note_automation request review nx (set_review (xq_reviewId request) nx s))
      else note_automation request review nx (set_review (xq_reviewId request) nx s))"
    by (auto intro: since_aside)
  from since_aside [OF since_remove_existing [OF this ch] aside_finish] show ?thesis
    unfolding apply_decision_def Let_def snd_conv existing_def [symmetric] chained_def [symmetric] nx_def [symmetric] .
qed

lemma since_decide:
  assumes ok: "stored_ok s"
  shows "since s (snd (downloadOverlapDecisionApply parse nfkc request now s))"
proof -
  have "since s s'" if "map_of (bb_downloadOverlapReviews s) (xq_reviewId request) = Some review"
    "apply_decision request now review s = (r, s')" for review r s'
    using since_apply_decision [OF ok that(1), of now] that(2) by simp
  then show ?thesis
    unfolding downloadOverlapDecisionApply_def using since_refl [OF ok] since_decide_pair [OF ok]
    by (auto split: option.splits prod.splits)
qed

section \<open>Merges\<close>

lemma since_affect:
  assumes "since s0 s" and "stored_ok s0" and "map_of (bb_downloadOverlapReviews s0) (fst kv) = Some (snd kv)"
  shows "since s0 (affect_review request a b s kv)"
proof -
  have "since s0 (set_review (fst kv) ((snd kv)\<lparr>rv_state := st, rv_revision := rv_revision (snd kv) + 1\<rparr>) s)" for st
    by (rule since_set_review [OF assms(1)]) (use stored_okD(1) [OF assms(2,3)] assms(3) in simp_all)
  with assms(1) show ?thesis
    by (cases kv) (auto simp: affect_review_def Let_def intro: since_aside [OF _ aside_simps(8)] split: option.splits)
qed

lemma since_affected:
  "since s0 s \<Longrightarrow> stored_ok s0 \<Longrightarrow> (\<And>kv. kv \<in> set kvs \<Longrightarrow> map_of (bb_downloadOverlapReviews s0) (fst kv) = Some (snd kv)) \<Longrightarrow>
   since s0 (foldl (affect_review request a b) s kvs)"
  by (induction kvs arbitrary: s) (auto intro: since_affect)

lemma since_outdate:
  assumes "since s0 s" and "stored_ok s0" and "map_of (bb_duplicateReviews s0) (fst kv) = Some (snd kv)"
  shows "since s0 (outdate_pair i s kv)"
proof -
  let ?v = "(snd kv)\<lparr>dw_resolved := Some True, dw_artifactStale := Some True,
      dw_candidate := (dw_candidate (snd kv))\<lparr>dc_revision := dc_revision (dw_candidate (snd kv)) + 1\<rparr>\<rparr>"
  have "since s0 (s\<lparr>bb_duplicateResolvedCandidates := set_add (fst kv) (bb_duplicateResolvedCandidates s),
      bb_duplicateReviews := AList.update (fst kv) ?v (bb_duplicateReviews s)\<rparr>)"
    by (rule since_set_pair [OF assms(1), of ?v "fst kv"]) (use stored_okD(2,3) [OF assms(2,3)] assms(3) in simp_all)
  from since_aside [OF this aside_simps(5)] assms(1) show ?thesis
    by (cases kv) (auto simp: outdate_pair_def)
qed

lemma since_outdated:
  "since s0 s \<Longrightarrow> stored_ok s0 \<Longrightarrow> (\<And>kv. kv \<in> set kvs \<Longrightarrow> map_of (bb_duplicateReviews s0) (fst kv) = Some (snd kv)) \<Longrightarrow>
   since s0 (foldl (outdate_pair i) s kvs)"
  by (induction kvs arbitrary: s) (auto intro: since_outdate)

lemma since_note_merge: "stored_ok s \<Longrightarrow> since s (note_merge request review c i n now s)"
proof -
  assume ok: "stored_ok s"
  have "since s (set_review (rv_reviewId review) (v\<lparr>rv_candidates := cs, rv_decisions := ds\<rparr>) s)"
    if "map_of (bb_downloadOverlapReviews s) (rv_reviewId review) = Some v" for v cs ds
    by (rule since_set_review [OF since_refl [OF ok]]) (use stored_okD(1) [OF ok that] that in simp_all)
  then show ?thesis
    unfolding note_merge_def Let_def
    by (auto intro: since_aside [OF _ aside_simps(10)] since_refl ok split: option.splits)
qed

lemma since_apply_merge:
  assumes ok: "stored_ok s"
  shows "since s (snd (apply_merge request uuid now review c targets added s))"
proof -
  define src where "src = source_ref (mr_sourceSide request) review c"
  define dst where "dst = target_ref (mr_sourceSide request) review c"
  define s1 where "s1 = foldl (affect_review request (or_entryId src) (or_entryId dst)) s (bb_downloadOverlapReviews s)"
  define s2 where "s2 = foldl (outdate_pair (or_entryId dst)) s1 (bb_duplicateReviews s1)"
  define s3 where "s3 = bump_completed (or_entryId dst) s2"
  define s4 where "s4 = (if flag (mr_excludeSource request) then exclude_source src s3 else s3)"
  define s5 where "s5 = (if mr_selectedPages request \<noteq> None then s4\<lparr>bb_composedPageCounts :=
      AList.update (or_galleryId dst) (or_pageCount dst + added) (bb_composedPageCounts s4)\<rparr> else s4)"
  have t1: "since s s1"
    unfolding s1_def by (rule since_affected [OF since_refl [OF ok] ok]) (use ok in \<open>auto simp: stored_ok_def\<close>)
  note o1 = since_ok [OF t1]
  have t2: "since s s2"
    unfolding s2_def by (rule since_trans [OF t1 since_outdated [OF since_refl [OF o1] o1]]) (use o1 in \<open>auto simp: stored_ok_def\<close>)
  have t3: "since s s3" unfolding s3_def by (rule since_aside [OF t2 aside_bump])
  then have t4: "since s s4" unfolding s4_def by (auto intro: since_aside [OF _ aside_exclude_source])
  have "aside s4 s5" by (simp add: s5_def aside_def)
  with t4 have t5: "since s s5" by (rule since_aside)
  then have "since s (if flag (mr_automation request)
      then note_merge request review c (''browser-merge-'' @ uuid) (length targets) now s5 else s5)"
    by (auto intro: since_trans [OF _ since_note_merge] since_ok)
  then show ?thesis
    unfolding apply_merge_def Let_def snd_conv src_def [symmetric] dst_def [symmetric] s1_def [symmetric] s2_def [symmetric]
      s3_def [symmetric] s4_def [symmetric] s5_def [symmetric] .
qed

lemma since_prepare:
  assumes ok: "stored_ok s" and "prepare_pair request s = Inr s1"
  shows "since s s1"
proof (cases "pair_id (mr_reviewId request)")
  case None
  with assms since_refl [OF ok] show ?thesis by (simp add: prepare_pair_def)
next
  case (Some i)
  with assms(2) obtain old where old: "map_of (bb_duplicateReviews s) i = Some old"
    and s1: "s1 = set_review (mr_reviewId request) (completedPairReview old) s"
    by (auto simp: prepare_pair_def merge_pair_refusal_def split: option.splits sum.splits if_splits)
  have "rv_reviewId (completedPairReview old) = mr_reviewId request"
    using Some stored_okD(2) [OF ok old] by (simp add: completed_id pair_id_Some)
  with Some show ?thesis unfolding s1 by (intro since_set_review since_refl ok) simp_all
qed

lemma since_merge:
  assumes ok: "stored_ok s"
  shows "since s (snd (downloadOverlapMerge nfkc request uuid now s))"
proof -
  note p = since_prepare [OF ok]
  have "since s s2" if "prepare_pair request s = Inr s1" "apply_merge request uuid now review c targets added s1 = (r, s2)"
    for s1 review c targets added r s2
    using since_trans [OF p [OF that(1)] since_apply_merge [OF since_ok [OF p [OF that(1)]]], of request uuid now review c targets added]
      that(2) by simp
  then show ?thesis
    unfolding downloadOverlapMerge_def using since_refl [OF ok]
    by (auto split: sum.splits option.splits prod.splits dest: p)
qed

section \<open>Every input\<close>

lemma since_fire: "stored_ok s \<Longrightarrow> since s (fire_timer now s)"
proof -
  assume ok: "stored_ok s"
  have "since s (run_task t now (s\<lparr>bb_timers := ts\<rparr>))" for t ts
  proof -
    have a: "aside s (s\<lparr>bb_timers := ts\<rparr>)" by (simp add: aside_def)
    note s = since_aside [OF since_refl [OF ok] a]
    show ?thesis by (cases t) (simp_all add: since_aside [OF s aside_task] since_trans [OF s since_advance [OF since_ok [OF s]]])
  qed
  with since_refl [OF ok] show ?thesis by (auto simp: fire_timer_def split: list.splits)
qed

lemma since_step:
  assumes ok: "stored_ok s"
  shows "since s (browser_step parse nfkc s i)"
proof (cases i)
  case (Call c)
  note a = since_aside [OF since_refl [OF ok]]
  show ?thesis unfolding Call
    by (cases c) (simp_all add: a [OF aside_queue_add] a [OF aside_retry] a [OF aside_cancel] a [OF aside_scan_start]
        a [OF aside_scan_cancel] a [OF aside_history] a [OF aside_exclude] a [OF aside_restore] a [OF aside_reset]
        since_decide_duplicate [OF ok] since_open [OF ok] since_decide [OF ok] since_merge [OF ok])
qed (use since_fire [OF ok] since_aside [OF since_refl [OF ok]] in \<open>simp_all add: aside_def factory_reset_def\<close>)

interpretation reviews: machine "browser_step parse nfkc" stored_ok new_backend for parse nfkc
  by unfold_locales (simp add: stored_ok_def new_backend_def, rule since_ok [OF since_step])

lemma since_run: "stored_ok s \<Longrightarrow> since s (run_browser parse nfkc s is)"
proof (induction "is" arbitrary: s)
  case (Cons i "is")
  from since_step [OF Cons.prems] have "since s (browser_step parse nfkc s i)" .
  with Cons.IH [OF since_ok [OF this]] show ?case by (auto intro: since_trans)
qed (simp add: since_refl)

lemma run_downloads_ok: "downloads_ok s \<Longrightarrow> downloads_ok (run_browser parse nfkc s is)"
  by (induction "is" arbitrary: s) (simp_all add: browser_step_ok)

end
