(* ===== verification/BrowserReviewFacts.thy ===== *)
theory BrowserReviewFacts
  imports BrowserReviewOrder
begin

text \<open>
  What the decisions and merges of the browser backend promise: a decision is accepted once for each revision of its
  review, decides what it says and nothing decided before, and moves the waiting download on exactly when all is
  decided; an edition merged away whole is one whose every page has a place of its own in the other, and one merged
  by a selection of pages leaves exactly the selected ones. The starting state is any whose maps are in order, for
  the backend on its own never has a saved album; \<open>run_browser\<close> is everything that happened since.
\<close>

section \<open>Counting pages\<close>

lemma foldl_count:
  "distinct (keys (foldl count_page [] xs)) \<and> set (keys (foldl count_page [] xs)) = set xs
   \<and> (\<forall>x. map_of (foldl count_page [] xs) x = (if x \<in> set xs then Some (length (filter (\<lambda>y. y = x) xs)) else None))"
proof (induction xs rule: rev_induct)
  case (snoc a xs)
  then show ?case
    by (simp add: count_page_def set_keys_update lookup_update del: set_map) (auto simp: count_page_def filter_empty_conv)
qed simp

lemma all_once_distinct: "(\<And>x. x \<in> set xs \<Longrightarrow> length (filter (\<lambda>y. y = x) xs) = 1) \<Longrightarrow> distinct xs"
proof (induction xs)
  case (Cons a xs)
  have "a \<notin> set xs"
  proof
    assume "a \<in> set xs"
    then have "filter (\<lambda>y. y = a) xs \<noteq> []" by (simp add: filter_empty_conv)
    with Cons.prems [of a] show False by simp
  qed
  moreover have "distinct xs"
  proof (rule Cons.IH)
    show "length (filter (\<lambda>y. y = x) xs) = 1" if "x \<in> set xs" for x
      using Cons.prems [of x] that \<open>a \<notin> set xs\<close> by (auto split: if_splits)
  qed
  ultimately show ?case by simp
qed simp

lemma counts_all_one:
  assumes "\<not> list_ex (\<lambda>n. n \<noteq> 1) (vals (foldl count_page [] xs))"
  shows "distinct xs" and "length (foldl count_page [] xs) = card (set xs)"
proof -
  note f = foldl_count [of xs]
  have "length (filter (\<lambda>y. y = x) xs) = 1" if "x \<in> set xs" for x
  proof -
    from f that have "map_of (foldl count_page [] xs) x = Some (length (filter (\<lambda>y. y = x) xs))" by simp
    from map_of_SomeD [OF this] assms show ?thesis by (force simp: list_ex_iff)
  qed
  then show "distinct xs" by (rule all_once_distinct)
  show "length (foldl count_page [] xs) = card (set xs)"
    using f by (metis distinct_card length_map)
qed

lemma source_covered_pages:
  assumes "source_covered side c n m = None"
  shows "distinct (map (pair_page side) (oc_pagePairs c))" and "set (map (pair_page side) (oc_pagePairs c)) = {1..n}"
    and "distinct (map (pair_page (other_side side)) (oc_pagePairs c))"
    and "set (map (pair_page (other_side side)) (oc_pagePairs c)) \<subseteq> {1..m}"
proof -
  let ?s = "map (pair_page side) (oc_pagePairs c)" and ?t = "map (pair_page (other_side side)) (oc_pagePairs c)"
  from assms have safe: "list_all (\<lambda>p. safe_page n (pair_page side p) \<and> safe_page m (pair_page (other_side side) p)) (oc_pagePairs c)"
    and n: "int (length (foldl count_page [] ?s)) = n"
    and once: "\<not> list_ex (\<lambda>n. n \<noteq> 1) (vals (foldl count_page [] ?s))" "\<not> list_ex (\<lambda>n. n \<noteq> 1) (vals (foldl count_page [] ?t))"
    by (simp_all add: source_covered_def Let_def split: if_splits)
  show "distinct ?s" by (rule counts_all_one(1) [OF once(1)])
  show "distinct ?t" by (rule counts_all_one(1) [OF once(2)])
  show "set ?t \<subseteq> {1..m}" using safe by (auto simp: list_all_iff safe_page_def)
  have sub: "set ?s \<subseteq> {1..n}" using safe by (auto simp: list_all_iff safe_page_def)
  have "card (set ?s) = card {1..n}" using n counts_all_one(2) [OF once(1)] by simp
  with sub show "set ?s = {1..n}" by (intro card_subset_eq) simp_all
qed

section \<open>An accepted merge\<close>

lemma merge_accepted:
  assumes "downloadOverlapMerge nfkc request uuid now s = (Inr r, s')"
  obtains s1 review c targets added
  where "prepare_pair request s = Inr s1" and "map_of (bb_downloadOverlapReviews s1) (mr_reviewId request) = Some review"
    and "merge_checks nfkc request review s1 = Inr (c, targets, added)"
    and "apply_merge request uuid now review c targets added s1 = (r, s')"
  using assms unfolding downloadOverlapMerge_def by (auto split: sum.splits option.splits prod.splits)

lemma merge_checks_plan:
  assumes "merge_checks nfkc request review s = Inr (c, targets, added)"
  shows "c \<in> set (rv_candidates review)" and "oc_candidateId c = mr_candidateId request"
    and "merge_available s (source_ref (mr_sourceSide request) review c)"
    and "merge_plan nfkc request review c = Inr (targets, added)"
  using assms by (auto simp: merge_checks_def Let_def find_Some_iff split: option.splits if_splits sum.splits)

lemma merge_plan_covered:
  assumes "merge_plan nfkc request review c = Inr (targets, added)" and "mr_selectedPages request = None"
    and "mr_excludeSource request = Some True"
  shows "source_covered (mr_sourceSide request) c (or_pageCount (source_ref (mr_sourceSide request) review c))
    (or_pageCount (target_ref (mr_sourceSide request) review c)) = None"
  using assms by (auto simp: merge_plan_def Let_def flag_def split: option.splits if_splits)

lemma side_pages: "side_count c (or_pageCount (rv_incoming review)) side = or_pageCount (source_ref side review c)"
  by (cases side) (simp_all add: side_count_def source_ref_def)

lemma merge_plan_selected:
  assumes m: "merge_checks nfkc request review s = Inr (c, targets, added)" and sel: "mr_selectedPages request = Some sel"
  obtains out where "mergeOutputPages c (or_pageCount (rv_incoming review)) (mr_sourceSide request) (Some sel) = Inr out"
    and "set (selected_on (mr_sourceSide request) sel) = set (mr_sourcePages request)"
    and "added = int (length out) - or_pageCount (target_ref (mr_sourceSide request) review c)"
proof -
  let ?side = "mr_sourceSide request"
  from merge_checks_plan(4) [OF m] sel obtain out where
    out: "mergeOutputPages c (or_pageCount (rv_incoming review)) ?side (Some sel) = Inr out"
    and len: "length (selected_on ?side sel) = length (mr_sourcePages request)"
    and sub: "set (selected_on ?side sel) \<subseteq> set (mr_sourcePages request)"
    and add: "added = int (length out) - or_pageCount (target_ref ?side review c)"
    by (auto simp: merge_plan_def Let_def split: if_splits sum.splits)
  have "distinct (selected_on ?side sel)" using mergeOutputPages_Inr(3) [OF out] by (simp add: valid_pages_def)
  moreover have "distinct (mr_sourcePages request)"
    using m by (auto simp: merge_checks_def Let_def split: option.splits if_splits)
  ultimately have "set (selected_on ?side sel) = set (mr_sourcePages request)"
    using len sub by (intro card_subset_eq) (simp_all add: distinct_card)
  with out add that show ?thesis by blast
qed

text \<open>Of two pages that match each other, one is in the album.\<close>

lemma pair_in_output:
  assumes out: "mergeOutputPages c n side (Some sel) = Inr out" and p: "p \<in> set (oc_pagePairs c)"
  shows "pair_page side p \<in> set (pages_of side out) \<or> pair_page (other_side side) p \<in> set (pages_of (other_side side) out)"
proof (cases "pair_page side p \<in> set (selected_on side sel)")
  case True
  with mergeOutputPages_pages(1) [OF out] show ?thesis by simp
next
  case False
  note r = mergeOutputPages_Inr [OF out]
  have "q = p" if "q \<in> set (oc_pagePairs c)" "pair_page (other_side side) q = pair_page (other_side side) p" for q
  proof -
    let ?find = "find (\<lambda>x. pair_page (other_side side) x = pair_page (other_side side) p) (js_sort by_existing (oc_pagePairs c))"
    have "?find = Some q" by (subst that(2) [symmetric]) (rule find_pair [OF r(1)], simp add: that(1))
    moreover have "?find = Some p" by (rule find_pair [OF r(1)]) (simp add: p)
    ultimately show ?thesis by simp
  qed
  with False have "\<not> replaced side (\<lambda>q. q \<in> set (selected_on side sel)) (oc_pagePairs c) (pair_page (other_side side) p)"
    by (auto simp: replaced_def)
  moreover have "1 \<le> pair_page (other_side side) p \<and> pair_page (other_side side) p \<le> side_count c n (other_side side)"
    using r(2) p by (intro in_range_page) simp
  ultimately show ?thesis unfolding mergeOutputPages_pages(2) [OF out] by simp
qed

lemma entries_candidates [simp]: "bb_downloadEntries (set_candidates f s) = bb_downloadEntries s"
  by (simp add: set_candidates_def)

lemma note_merge_fields:
  "bb_downloadEntries (note_merge request review c i n now s) = bb_downloadEntries s"
  "bb_duplicateHiddenGalleryIds (note_merge request review c i n now s) = bb_duplicateHiddenGalleryIds s"
  "bb_explorationRestoredGalleryIds (note_merge request review c i n now s) = bb_explorationRestoredGalleryIds s"
  "bb_composedPageCounts (note_merge request review c i n now s) = bb_composedPageCounts s"
  by (auto simp: note_merge_def record_automation_def set_review_def Let_def split: option.splits)

lemma apply_merge_composed:
  assumes a: "apply_merge request uuid now review c targets added s = (r, s')" and sel: "mr_selectedPages request \<noteq> None"
  shows "map_of (bb_composedPageCounts s') (or_galleryId (target_ref (mr_sourceSide request) review c))
      = Some (or_pageCount (target_ref (mr_sourceSide request) review c) + added)"
    and "mg_addedPages r = added"
proof -
  let ?dst = "target_ref (mr_sourceSide request) review c"
  obtain t where "s' = (if flag (mr_automation request) then note_merge request review c (''browser-merge-'' @ uuid) (length targets) now t else t)"
    and t: "map_of (bb_composedPageCounts t) (or_galleryId ?dst) = Some (or_pageCount ?dst + added)"
  proof -
    define t4 where "t4 = (let s1 = foldl (affect_review request (or_entryId (source_ref (mr_sourceSide request) review c)) (or_entryId ?dst)) s
          (bb_downloadOverlapReviews s);
        s2 = foldl (outdate_pair (or_entryId ?dst)) s1 (bb_duplicateReviews s1); s3 = bump_completed (or_entryId ?dst) s2
      in if flag (mr_excludeSource request) then exclude_source (source_ref (mr_sourceSide request) review c) s3 else s3)"
    have "s' = (let t = t4\<lparr>bb_composedPageCounts := AList.update (or_galleryId ?dst) (or_pageCount ?dst + added)
          (bb_composedPageCounts t4)\<rparr>
        in if flag (mr_automation request) then note_merge request review c (''browser-merge-'' @ uuid) (length targets) now t else t)"
    proof -
      have "s' = snd (apply_merge request uuid now review c targets added s)" by (simp only: a snd_conv)
      then show ?thesis unfolding apply_merge_def Let_def snd_conv t4_def by (simp only: sel if_True not_False_eq_True)
    qed
    then show ?thesis using that by (simp add: Let_def lookup_update)
  qed
  then show "map_of (bb_composedPageCounts s') (or_galleryId ?dst) = Some (or_pageCount ?dst + added)"
    by (simp add: note_merge_fields)
  show "mg_addedPages r = added"
  proof -
    have "r = fst (apply_merge request uuid now review c targets added s)" by (simp only: a fst_conv)
    then show ?thesis unfolding apply_merge_def Let_def fst_conv by simp
  qed
qed

lemma cancel_removed_fields:
  "bb_duplicateHiddenGalleryIds (cancel_removed i s) = bb_duplicateHiddenGalleryIds s"
  "bb_explorationRestoredGalleryIds (cancel_removed i s) = bb_explorationRestoredGalleryIds s"
  by (auto simp: cancel_removed_def set_entry_def split: option.splits)

lemma excluded_source:
  assumes "keyed s" and "map_of (bb_downloadEntries s) (or_entryId r) = Some e"
  shows "entry_state (exclude_source r s) (or_entryId r) = Some Cancelled"
    and "isDuplicateExplorationExcluded (exclude_source r s) (or_galleryId r)"
proof -
  have id: "de_entryId e = or_entryId r" by (rule keyedD [OF assms])
  show "entry_state (exclude_source r s) (or_entryId r) = Some Cancelled"
    using assms(2) id by (simp add: exclude_source_def cancel_removed_def entry_state_def set_entry_def lookup_update)
  show "isDuplicateExplorationExcluded (exclude_source r s) (or_galleryId r)"
    by (simp add: exclude_source_def isDuplicateExplorationExcluded_def cancel_removed_fields) (simp add: hide_gallery_def)
qed

lemma apply_merge_excluded:
  assumes k: "keyed s" and a: "apply_merge request uuid now review c targets added s = (r, s')"
    and e: "map_of (bb_downloadEntries s) (or_entryId (source_ref (mr_sourceSide request) review c)) = Some e"
    and x: "mr_excludeSource request = Some True"
  shows "entry_state s' (or_entryId (source_ref (mr_sourceSide request) review c)) = Some Cancelled"
    and "isDuplicateExplorationExcluded s' (or_galleryId (source_ref (mr_sourceSide request) review c))"
proof -
  define src where "src = source_ref (mr_sourceSide request) review c"
  define dst where "dst = target_ref (mr_sourceSide request) review c"
  define s1 where "s1 = foldl (affect_review request (or_entryId src) (or_entryId dst)) s (bb_downloadOverlapReviews s)"
  define s2 where "s2 = foldl (outdate_pair (or_entryId dst)) s1 (bb_duplicateReviews s1)"
  define s3 where "s3 = bump_completed (or_entryId dst) s2"
  have t1: "touches s s1" unfolding s1_def by (rule touches_foldl [OF touches_affect k])
  have t2: "touches s s2"
    unfolding s2_def by (rule touches_trans [OF t1 touches_foldl [OF touches_outdate keyed_touches [OF t1 k]]])
  have t3: "touches s s3" unfolding s3_def by (rule touches_trans [OF t2 touches_bump [OF keyed_touches [OF t2 k]]])
  then have "advances s s3" by (simp add: touches_def)
  from advancesD [OF this e] obtain e3 where e3: "map_of (bb_downloadEntries s3) (or_entryId src) = Some e3"
    unfolding src_def by blast
  note X = excluded_source [OF keyed_touches [OF t3 k] e3]
  have s': "bb_downloadEntries s' = bb_downloadEntries (exclude_source src s3)
    \<and> bb_duplicateHiddenGalleryIds s' = bb_duplicateHiddenGalleryIds (exclude_source src s3)
    \<and> bb_explorationRestoredGalleryIds s' = bb_explorationRestoredGalleryIds (exclude_source src s3)"
    using a x unfolding apply_merge_def Let_def src_def [symmetric] dst_def [symmetric] s1_def [symmetric] s2_def [symmetric]
      s3_def [symmetric] by (auto simp: flag_def note_merge_fields)
  then show "entry_state s' (or_entryId (source_ref (mr_sourceSide request) review c)) = Some Cancelled"
    and "isDuplicateExplorationExcluded s' (or_galleryId (source_ref (mr_sourceSide request) review c))"
    using X by (simp_all add: entry_state_def isDuplicateExplorationExcluded_def src_def)
qed

section \<open>An accepted decision\<close>

lemma decision_accepted:
  assumes "downloadOverlapDecisionApply parse nfkc request now s = (Inr r, s')" and "pair_id (xq_reviewId request) = None"
  obtains review where "map_of (bb_downloadOverlapReviews s) (xq_reviewId request) = Some review"
    and "decision_checks parse nfkc request review s = None" and "apply_decision request now review s = (r, s')"
  using assms unfolding downloadOverlapDecisionApply_def by (auto split: option.splits prod.splits)

lemma decision_checks_revision:
  "decision_checks parse nfkc request review s = None \<Longrightarrow> rv_revision review = xq_expectedRevision request"
  by (simp add: decision_checks_def split: if_splits)

lemma reviews_fields [simp]:
  "bb_downloadOverlapReviews (hide_gallery g s) = bb_downloadOverlapReviews s"
  "bb_downloadOverlapReviews (note_automation request review nx s) = bb_downloadOverlapReviews s"
  "bb_downloadOverlapReviews (finish_review c w i s) = bb_downloadOverlapReviews s"
  "bb_downloadOverlapReviews (set_entry e s) = bb_downloadOverlapReviews s"
  by (auto simp: hide_gallery_def note_automation_def record_automation_def finish_review_def set_entry_def Let_def
      split: option.splits)

lemma chained_id:
  assumes "stored_ok s" and "chained_review request existing s = Some v"
  shows "rv_reviewId v \<noteq> xq_reviewId request"
proof -
  from assms(2) obtain e where e: "existing = Some e" "or_value (de_reviewId e) [] \<noteq> xq_reviewId request"
    "map_of (bb_downloadOverlapReviews s) (or_value (de_reviewId e) []) = Some v"
    by (auto simp: chained_review_def Let_def split: option.splits if_splits)
  then have "rv_reviewId v = or_value (de_reviewId e) []" using stored_okD(1) [OF assms(1)] by simp
  with e(2) show ?thesis by simp
qed

lemma reviews_remove_existing:
  assumes "\<And>v. chained = Some v \<Longrightarrow> rv_reviewId v \<noteq> i"
  shows "map_of (bb_downloadOverlapReviews (remove_existing request review existing chained now s)) i
    = map_of (bb_downloadOverlapReviews s) i"
  using assms
  by (auto simp: remove_existing_def settle_existing_def set_review_def lookup_update split: option.splits)

lemma apply_decision_review:
  assumes "stored_ok s" and "apply_decision request now review s = (r, s')"
  shows "xr_review r = next_review request now review s"
    and "map_of (bb_downloadOverlapReviews s') (xq_reviewId request) = Some (next_review request now review s)"
  using assms chained_id [OF assms(1)]
  by (auto simp: apply_decision_def Let_def reviews_remove_existing set_review_def lookup_update)

lemma decided_candidate_final: "oc_decision c \<noteq> None \<Longrightarrow> decided_candidate request s c = c"
  by (simp add: decided_candidate_def)

lemma undecided_next: "undecided (next_review request now review s) \<longleftrightarrow>
    list_ex (\<lambda>c. oc_decision c = None) (rv_candidates (next_review request now review s))"
  by (simp add: undecided_def)



lemma pair_accepted:
  assumes "downloadOverlapDecisionApply parse nfkc request now s = (Inr r, s')" and "pair_id (xq_reviewId request) = Some i"
  obtains old s1 x where "map_of (bb_duplicateReviews s) i = Some old" and "pair_refusal request i old s = None"
    and "duplicateDecisionApply \<lparr>dq_candidateId = i, dq_expectedRevision = xq_expectedRevision request,
        dq_action = pair_action (xq_action request), dq_targetGalleryId = None, dq_seriesGroupId = None,
        dq_seriesName = None\<rparr> now s = (Inr x, s1)"
    and "pair_decided request i now old s1 = (r, s')"
  using assms unfolding downloadOverlapDecisionApply_def decide_pair_def by (auto split: option.splits prod.splits sum.splits)


lemma entry_state_review [simp]: "entry_state (set_review i v s) = entry_state s"
  by (simp add: entry_state_def set_review_def fun_eq_iff)


text \<open>The review that a request names: the one stored, or the comparison of two completed albums.\<close>

definition review_named :: "string \<Rightarrow> browser_backend \<Rightarrow> overlap_review option" where
  "review_named reviewId s =
     (case pair_id reviewId of
        None \<Rightarrow> map_of (bb_downloadOverlapReviews s) reviewId
      | Some i \<Rightarrow> map_option completedPairReview (map_of (bb_duplicateReviews s) i))"

lemma compared_prepared: "prepare_pair request s = Inr s1 \<Longrightarrow>
    map_of (bb_downloadOverlapReviews s1) (mr_reviewId request) = Some review \<Longrightarrow> review_named (mr_reviewId request) s = Some review"
  by (auto simp: prepare_pair_def merge_pair_refusal_def review_named_def set_review_def lookup_update Let_def
      split: option.splits sum.splits if_splits)

lemma completed_revision: "rv_revision (completedPairReview w) = dc_revision (dw_candidate w)"
  by (simp add: completedPairReview_def Let_def)


text \<open>What an accepted decision leaves under the review: a higher revision.\<close>

lemma decision_ages:
  assumes ok: "stored_ok s" and d: "downloadOverlapDecisionApply parse nfkc request now s = (Inr r, s')"
  shows "rv_revision (xr_review r) = xq_expectedRevision request + 1"
    and "\<exists>review. review_named (xq_reviewId request) s' = Some review \<and> xq_expectedRevision request < rv_revision review"
proof -
  have "rv_revision (xr_review r) = xq_expectedRevision request + 1
    \<and> (\<exists>review. review_named (xq_reviewId request) s' = Some review \<and> xq_expectedRevision request < rv_revision review)"
  proof (cases "pair_id (xq_reviewId request)")
    case None
    from decision_accepted [OF d None] obtain review where
      m: "map_of (bb_downloadOverlapReviews s) (xq_reviewId request) = Some review"
      and c: "decision_checks parse nfkc request review s = None" and a: "apply_decision request now review s = (r, s')" .
    from apply_decision_review [OF ok a] decision_checks_revision [OF c] None show ?thesis
      by (simp add: next_review_fields review_named_def)
  next
    case (Some i)
    from pair_accepted [OF d Some] obtain old s1 x where
      m: "map_of (bb_duplicateReviews s) i = Some old" and p: "pair_refusal request i old s = None"
      and x: "duplicateDecisionApply \<lparr>dq_candidateId = i, dq_expectedRevision = xq_expectedRevision request,
        dq_action = pair_action (xq_action request), dq_targetGalleryId = None, dq_seriesGroupId = None,
        dq_seriesName = None\<rparr> now s = (Inr x, s1)"
      and a: "pair_decided request i now old s1 = (r, s')" by blast
    have rev: "dc_revision (dw_candidate old) = xq_expectedRevision request"
      using p by (auto simp: pair_refusal_def Let_def split: if_splits)
    obtain w where d1: "map_of (bb_duplicateReviews s1) i = Some w" "dc_revision (dw_candidate w) = dc_revision (dw_candidate old) + 1"
      by (rule duplicate_decided [OF x])
        (use stored_okD(3) [OF ok m] m in \<open>auto simp: lookup_update decided_review_fields\<close>)
    have "bb_duplicateReviews s' = bb_duplicateReviews s1"
      using a by (auto simp: pair_decided_def Let_def pair_removal_def set_review_def cancel_removed_def set_entry_def
          split: duplicate_action.splits option.splits)
    moreover have "rv_revision (xr_review r) = dc_revision (dw_candidate old) + 1"
      using a by (auto simp: pair_decided_def Let_def completed_revision)
    ultimately show ?thesis using d1 rev Some by (simp add: review_named_def completed_revision)
  qed
  then show "rv_revision (xr_review r) = xq_expectedRevision request + 1"
    and "\<exists>review. review_named (xq_reviewId request) s' = Some review \<and> xq_expectedRevision request < rv_revision review"
    by blast+
qed

lemma named_since:
  assumes "since s s'" and "review_named i s = Some v"
  shows "\<exists>v'. review_named i s' = Some v' \<and> rv_revision v \<le> rv_revision v'"
proof (cases "pair_id i")
  case None
  with since_review [OF assms(1) None] assms(2) show ?thesis by (simp add: review_named_def)
next
  case (Some k)
  with assms(2) obtain w where "map_of (bb_duplicateReviews s) k = Some w" "v = completedPairReview w"
    by (auto simp: review_named_def)
  with since_pair [OF assms(1), of k w] Some show ?thesis
    by (auto simp: review_named_def completed_revision)
qed

lemma outdated_refused:
  assumes "review_named (xq_reviewId request) s = Some review" and "rv_revision review \<noteq> xq_expectedRevision request"
  shows "\<exists>err. downloadOverlapDecisionApply parse nfkc request now s = (Inl err, s)"
proof (cases "pair_id (xq_reviewId request)")
  case None
  with assms have "decision_checks parse nfkc request review s \<noteq> None" by (simp add: decision_checks_def)
  with None assms(1) show ?thesis by (auto simp: downloadOverlapDecisionApply_def review_named_def split: option.splits)
next
  case (Some i)
  with assms obtain w where w: "map_of (bb_duplicateReviews s) i = Some w" "dc_revision (dw_candidate w) \<noteq> xq_expectedRevision request"
    by (auto simp: review_named_def completed_revision)
  then have "pair_refusal request i w s \<noteq> None" by (simp add: pair_refusal_def Let_def)
  with Some w(1) show ?thesis by (auto simp: downloadOverlapDecisionApply_def decide_pair_def)
qed

section \<open>Properties\<close>

text \<open>A review of one candidate, with the entries of both editions.\<close>

definition sample_keep :: overlap_decision_request where
  "sample_keep = \<lparr>xq_reviewId = ''r'', xq_expectedRevision = 1, xq_action = KeepBothContinue, xq_candidateId = Some ''c'',
     xq_actor = None, xq_reasonCode = None, xq_ruleVersion = None, xq_featureSnapshotJson = None\<rparr>"

definition sample_pair_candidate :: overlap_candidate where
  "sample_pair_candidate = sample_candidate ''c'' (sample_ref (new_entry_id 2 1) 2 ''old'' 2) NearEquivalent [sample_pair 1 1, sample_pair 2 2] 2"

definition sample_open :: overlap_review where
  "sample_open = sample_review (sample_ref (new_entry_id 1 0) 1 ''new'' 2) [sample_pair_candidate]"

definition sample_waiting :: browser_backend where
  "sample_waiting = new_backend\<lparr>
     bb_downloadEntries := [(new_entry_id 1 0, sample_entry (new_entry_id 1 0) 1 0 ReviewRequired),
       (new_entry_id 2 1, sample_entry (new_entry_id 2 1) 2 0 Completed)],
     bb_nextDownloadEntryId := 2, bb_downloadOverlapReviews := [(''r'', sample_open)]\<rparr>"

lemmas sample_overlap_eval = sample_waiting_def sample_open_def sample_keep_def sample_pair_candidate_def sample_candidate_def
  sample_pair_def sample_ref_def sample_review_def sample_entry_def new_backend_def Let_def new_entry_id_inj

lemma sample_overlap_facts: "stored_ok sample_waiting" "downloads_ok sample_waiting"
  by (auto simp: sample_overlap_eval stored_ok_def downloads_ok_def numbered_def split: if_splits)

lemma sample_keep_accepted:
  "\<exists>r s'. downloadOverlapDecisionApply parse nfkc sample_keep ''t'' sample_waiting = (Inr r, s')"
  by (simp add: sample_overlap_eval downloadOverlapDecisionApply_def pair_id_def duplicate_prefix_def starts_with_def
      request_refusal_def manualContainmentBatch_def manual_batch_code_def decision_checks_def selected_candidate_def
      removed_entry_def chained_review_def chained_changed_def apply_decision_def)

text \<open>C5: A review takes one decision for each of its revisions. In a backend that started with its reviews in order (a
  new one has none), once a decision made on a revision is accepted the review has the next revision, and a second one
  made on the same revision is refused and changes nothing: whoever sends it, whatever it asks, and whatever has
  happened in between. This holds of the reviews of waiting downloads and of those of two completed albums.\<close>

theorem one_decision_per_revision:
  assumes "stored_ok s0" and "s = run_browser parse nfkc s0 is"
    and "downloadOverlapDecisionApply parse nfkc request now s = (Inr r, s')"
    and "xq_reviewId request' = xq_reviewId request" and "xq_expectedRevision request' = xq_expectedRevision request"
    and "s'' = run_browser parse nfkc s' later"
  shows "rv_revision (xr_review r) = xq_expectedRevision request + 1
    \<and> (\<exists>err. downloadOverlapDecisionApply parse nfkc request' now' s'' = (Inl err, s''))"
proof -
  have ok: "stored_ok s" unfolding assms(2) by (rule since_ok [OF since_run [OF assms(1)]])
  have "stored_ok s'" using since_ok [OF since_decide [OF ok, of parse nfkc request now]] assms(3) by simp
  from since_run [OF this, of parse nfkc later] have t: "since s' s''" by (simp add: assms(6))
  note a = decision_ages [OF ok assms(3)]
  from a(2) named_since [OF t] obtain v where "review_named (xq_reviewId request) s'' = Some v" "xq_expectedRevision request < rv_revision v"
    by (metis order_less_le_trans)
  then have "\<exists>err. downloadOverlapDecisionApply parse nfkc request' now' s'' = (Inl err, s'')"
    using outdated_refused [of request' s'' v] by (simp add: assms(4,5))
  with a(1) show ?thesis ..
qed

lemma one_decision_per_revision_witness:
  "\<exists>r s' err. downloadOverlapDecisionApply (\<lambda>_. None) id sample_keep ''t'' sample_waiting = (Inr r, s')
     \<and> rv_revision (xr_review r) = 2
     \<and> downloadOverlapDecisionApply (\<lambda>_. None) id (sample_keep\<lparr>xq_action := RemoveIncoming\<rparr>) ''u''
         (run_browser (\<lambda>_. None) id s' [Call (OpenReview ''r''), FactoryReset])
       = (Inl err, run_browser (\<lambda>_. None) id s' [Call (OpenReview ''r''), FactoryReset])"
proof -
  obtain r s' where d: "downloadOverlapDecisionApply (\<lambda>_. None) id sample_keep ''t'' sample_waiting = (Inr r, s')"
    using sample_keep_accepted by blast
  have "sample_waiting = run_browser (\<lambda>_. None) id sample_waiting []" by simp
  from one_decision_per_revision [OF sample_overlap_facts(1) this d _ _ refl, of "sample_keep\<lparr>xq_action := RemoveIncoming\<rparr>"] d
  show ?thesis by (fastforce simp: sample_keep_def)
qed



text \<open>C3: An edition merged away leaves its pages behind. If a merge that excludes its source is accepted, the source's
  download is cancelled and its gallery left out. Without a selection of pages this takes that every page of the
  source has exactly one counterpart, that no two share one, and that all lie within the target. With a selection the
  composed album has exactly the selected pages of the source, which are the ones the request names, and all pages
  of the target in order but those a selected page replaces; so of any two pages that match, one is in it, and
  a page of the source without a match is left behind only when it was not selected.\<close>

theorem merged_away_loses_no_page:
  assumes "downloads_ok s0" and "s = run_browser parse nfkc s0 is"
    and "downloadOverlapMerge nfkc request uuid now s = (Inr r, s')" and "mr_excludeSource request = Some True"
    and "side = mr_sourceSide request"
  shows "\<exists>review c. review_named (mr_reviewId request) s = Some review
    \<and> oc_candidateId c = mr_candidateId request \<and> c \<in> set (rv_candidates review)
    \<and> entry_state s' (or_entryId (source_ref side review c)) = Some Cancelled
    \<and> isDuplicateExplorationExcluded s' (or_galleryId (source_ref side review c))
    \<and> (case mr_selectedPages request of
         None \<Rightarrow> distinct (map (pair_page side) (oc_pagePairs c))
           \<and> set (map (pair_page side) (oc_pagePairs c)) = {1..or_pageCount (source_ref side review c)}
           \<and> distinct (map (pair_page (other_side side)) (oc_pagePairs c))
           \<and> set (map (pair_page (other_side side)) (oc_pagePairs c)) \<subseteq> {1..or_pageCount (target_ref side review c)}
       | Some sel \<Rightarrow>
           (\<exists>output. mergeOutputPages c (or_pageCount (rv_incoming review)) side (Some sel) = Inr output
              \<and> pages_of side output = sort (selected_on side sel)
              \<and> set (selected_on side sel) = set (mr_sourcePages request)
              \<and> pages_of (other_side side) output =
                  filter (\<lambda>p. \<not> replaced side (\<lambda>q. q \<in> set (selected_on side sel)) (oc_pagePairs c) p)
                    [1..or_pageCount (target_ref side review c)]
              \<and> (\<forall>p \<in> set (oc_pagePairs c). pair_page side p \<in> set (pages_of side output)
                   \<or> pair_page (other_side side) p \<in> set (pages_of (other_side side) output))
              \<and> map_of (bb_composedPageCounts s') (or_galleryId (target_ref side review c)) = Some (int (length output))
              \<and> mg_addedPages r = int (length output) - or_pageCount (target_ref side review c)))"
proof -
  have k0: "keyed s" unfolding assms(2) by (rule downloads_ok_keyed [OF run_downloads_ok [OF assms(1)]])
  from merge_accepted [OF assms(3)] obtain s1 review c targets added where
    p: "prepare_pair request s = Inr s1" and v: "map_of (bb_downloadOverlapReviews s1) (mr_reviewId request) = Some review"
    and m: "merge_checks nfkc request review s1 = Inr (c, targets, added)"
    and a: "apply_merge request uuid now review c targets added s1 = (r, s')" .
  note mc = merge_checks_plan [OF m]
  have k: "keyed s1" using prepare_pair_cases [OF p] keyed_touches [OF touches_review k0] k0 by auto
  from mc(3) obtain e where e: "map_of (bb_downloadEntries s1) (or_entryId (source_ref (mr_sourceSide request) review c)) = Some e"
    by (auto simp: merge_available_def entry_state_def)
  note x = apply_merge_excluded [OF k a e assms(4)]
  have t: "side_count c (or_pageCount (rv_incoming review)) (other_side side) = or_pageCount (target_ref side review c)"
    by (simp add: side_pages target_ref_def)
  show ?thesis
  proof (cases "mr_selectedPages request")
    case None
    show ?thesis
      using compared_prepared [OF p v] mc(1,2) source_covered_pages [OF merge_plan_covered [OF mc(4) None assms(4)]] x None
      unfolding assms(5) by (intro exI [of _ review] exI [of _ c]) simp
  next
    case (Some sel)
    from merge_plan_selected [OF m Some] obtain out where
      out: "mergeOutputPages c (or_pageCount (rv_incoming review)) (mr_sourceSide request) (Some sel) = Inr out"
      and sp: "set (selected_on (mr_sourceSide request) sel) = set (mr_sourcePages request)"
      and ad: "added = int (length out) - or_pageCount (target_ref (mr_sourceSide request) review c)" .
    have "mr_selectedPages request \<noteq> None" using Some by simp
    note ac = apply_merge_composed [OF a this]
    show ?thesis
      using compared_prepared [OF p v] mc(1,2) x Some out sp ad ac mergeOutputPages_pages [OF out] pair_in_output [OF out] t
      unfolding assms(5) by (intro exI [of _ review] exI [of _ c]) auto
  qed
qed

definition sample_merge :: overlap_merge_request where
  "sample_merge = \<lparr>mr_reviewId = ''r'', mr_expectedRevision = 1, mr_candidateId = ''c'', mr_sourceSide = MExisting,
     mr_sourcePages = [1], mr_selectedPages = None, mr_automation = None, mr_excludeSource = Some True\<rparr>"

lemma sample_merge_accepted:
  "\<exists>r s'. downloadOverlapMerge nfkc sample_merge ''u'' ''t'' sample_waiting = (Inr r, s')
     \<and> isDuplicateExplorationExcluded s' 2 \<and> explorationExclusionsList s' = []"
  by (simp add: sample_overlap_eval sample_merge_def downloadOverlapMerge_def prepare_pair_def pair_id_def duplicate_prefix_def
      starts_with_def merge_checks_def source_ref_def target_ref_def merge_available_def entry_state_def merge_plan_def
      flag_def counterpart_def safe_page_def max_safe_integer_def source_covered_def count_page_def apply_merge_def
      affect_review_def merge_affects_def concerns_def set_review_def set_entry_def outdate_pair_def bump_completed_def
      exclude_source_def hide_gallery_def cancel_removed_def set_delete_def set_add_def isDuplicateExplorationExcluded_def
      explorationExclusionsList_def grouped_def add_review_def add_candidate_def)

lemma merged_away_loses_no_page_witness:
  "\<exists>r s'. downloadOverlapMerge id sample_merge ''u'' ''t'' sample_waiting = (Inr r, s')
     \<and> entry_state sample_waiting (new_entry_id 2 1) = Some Completed \<and> entry_state s' (new_entry_id 2 1) = Some Cancelled
     \<and> isDuplicateExplorationExcluded s' 2"
proof -
  obtain r s' where d: "downloadOverlapMerge id sample_merge ''u'' ''t'' sample_waiting = (Inr r, s')"
    using sample_merge_accepted by blast
  have w: "sample_waiting = run_browser (\<lambda>_. None) id sample_waiting []" by simp
  have v: "review_named (mr_reviewId sample_merge) sample_waiting
      = Some sample_open"
    "mr_excludeSource sample_merge = Some True"
    "source_ref (mr_sourceSide sample_merge) v sample_pair_candidate = sample_ref (new_entry_id 2 1) 2 ''old'' 2" for v
    by (simp_all add: review_named_def sample_merge_def sample_overlap_eval pair_id_def duplicate_prefix_def starts_with_def
        source_ref_def)
  from merged_away_loses_no_page [OF sample_overlap_facts(2) w d v(2) refl, unfolded v(1)]
  have "entry_state s' (new_entry_id 2 1) = Some Cancelled" "isDuplicateExplorationExcluded s' 2"
    by (auto simp: sample_open_def sample_review_def v(3)) (simp_all add: sample_ref_def)
  moreover have "entry_state sample_waiting (new_entry_id 2 1) = Some Completed"
    by (simp add: entry_state_def sample_overlap_eval)
  ultimately show ?thesis using d by blast
qed

section \<open>What the reviews do not guard\<close>

text \<open>A review that a merge has made stale still takes a decision, and puts its download back into the queue.\<close>

lemma stale_review_decided:
  "\<exists>r s'. downloadOverlapDecisionApply parse nfkc sample_keep ''t'' (sample_waiting
       \<lparr>bb_downloadOverlapReviews := [(''r'', sample_open\<lparr>rv_state := RStale\<rparr>)]\<rparr>) = (Inr r, s')
     \<and> xr_resumed r \<and> entry_state s' (new_entry_id 1 0) = Some Queued"
  by (simp add: sample_overlap_eval downloadOverlapDecisionApply_def pair_id_def duplicate_prefix_def starts_with_def
      request_refusal_def manualContainmentBatch_def manual_batch_code_def decision_checks_def selected_candidate_def
      removed_entry_def chained_review_def chained_changed_def apply_decision_def next_review_def undecided_def
      decided_candidate_def note_automation_def remove_existing_def finish_review_def set_review_def entry_state_def)

end
