(* ===== verification/BrowserInternal.thy ===== *)
theory BrowserInternal
  imports BrowserTypes InternalDuplicate
begin

text \<open>
  The search for repeated pages inside one album of \<^verbatim>\<open>BrowserMockBackend\<close> (\<^verbatim>\<open>src/src/api/backend.ts\<close>): a scan over
  some downloads that passes each through three timed stages and then reports fixed groups; a plan that names, for
  groups of a given revision, the page to keep and the pages to remove; carrying the plan out, which moves the
  pages into quarantine and settles the groups; and undoing that.

  These operations have fields of their own, the record below; of the rest of the backend they read the download
  entries, the argument \<open>entries\<close>. Timers are a list ordered by the time they are due; the arguments \<open>now\<close> and \<open>ms\<close>
  are \<^verbatim>\<open>new Date().toISOString()\<close> and \<^verbatim>\<open>Date.now()\<close>; \<open>loc\<close> is \<^verbatim>\<open>localeCompare\<close>.
\<close>

section \<open>Texts\<close>

definition other_internal_scan_message :: string where
  "other_internal_scan_message = [CHR 0xEB, CHR 0x8B, CHR 0xA4, CHR 0xEB, CHR 0xA5,
     CHR 0xB8] @ '' '' @ [CHR 0xEC, CHR 0x84, CHR 0xA0, CHR 0xED, CHR 0x83,
     CHR 0x9D] @ '' '' @ [CHR 0xED, CHR 0x95, CHR 0xAD, CHR 0xEB, CHR 0xAA, CHR 0xA9, CHR 0xEC,
     CHR 0x9D, CHR 0x98] @ '' '' @ [CHR 0xEB, CHR 0x82, CHR 0xB4, CHR 0xEB, CHR 0xB6,
     CHR 0x80] @ '' '' @ [CHR 0xEC, CHR 0xA4, CHR 0x91, CHR 0xEB, CHR 0xB3,
     CHR 0xB5] @ '' '' @ [CHR 0xEA, CHR 0xB2, CHR 0x80, CHR 0xEC, CHR 0x82, CHR 0xAC, CHR 0xEA,
     CHR 0xB0, CHR 0x80] @ '' '' @ [CHR 0xEC, CHR 0x9D, CHR 0xB4, CHR 0xEB, CHR 0xAF,
     CHR 0xB8] @ '' '' @ [CHR 0xEC, CHR 0x8B, CHR 0xA4, CHR 0xED, CHR 0x96,
     CHR 0x89] @ '' '' @ [CHR 0xEC, CHR 0xA4, CHR 0x91, CHR 0xEC, CHR 0x9E, CHR 0x85, CHR 0xEB,
     CHR 0x8B, CHR 0x88, CHR 0xEB, CHR 0x8B, CHR 0xA4] @ ''.''"

definition no_internal_scan_message :: string where
  "no_internal_scan_message = [CHR 0xEC, CHR 0x8B, CHR 0xA4, CHR 0xED, CHR 0x96,
     CHR 0x89] @ '' '' @ [CHR 0xEC, CHR 0xA4, CHR 0x91, CHR 0xEC, CHR 0x9D,
     CHR 0xB8] @ '' '' @ [CHR 0xEB, CHR 0x82, CHR 0xB4, CHR 0xEB, CHR 0xB6,
     CHR 0x80] @ '' '' @ [CHR 0xEC, CHR 0xA4, CHR 0x91, CHR 0xEB, CHR 0xB3,
     CHR 0xB5] @ '' '' @ [CHR 0xEA, CHR 0xB2, CHR 0x80, CHR 0xEC, CHR 0x82, CHR 0xAC, CHR 0xEA,
     CHR 0xB0, CHR 0x80] @ '' '' @ [CHR 0xEC, CHR 0x97, CHR 0x86, CHR 0xEC, CHR 0x8A, CHR 0xB5,
     CHR 0xEB, CHR 0x8B, CHR 0x88, CHR 0xEB, CHR 0x8B, CHR 0xA4] @ ''.''"

definition no_internal_entry_message :: string where
  "no_internal_entry_message = [CHR 0xEB, CHR 0x82, CHR 0xB4, CHR 0xEB, CHR 0xB6,
     CHR 0x80] @ '' '' @ [CHR 0xEC, CHR 0xA4, CHR 0x91, CHR 0xEB, CHR 0xB3,
     CHR 0xB5] @ '' '' @ [CHR 0xEA, CHR 0xB2, CHR 0x80, CHR 0xED, CHR 0x86,
     CHR 0xA0] @ '' '' @ [CHR 0xED, CHR 0x95, CHR 0xAD, CHR 0xEB, CHR 0xAA, CHR 0xA9, CHR 0xEC,
     CHR 0x9D, CHR 0x84] @ '' '' @ [CHR 0xEC, CHR 0xB0, CHR 0xBE, CHR 0xEC, CHR 0x9D,
     CHR 0x84] @ '' '' @ [CHR 0xEC, CHR 0x88, CHR 0x98] @ '' '' @ [CHR 0xEC, CHR 0x97,
     CHR 0x86, CHR 0xEC, CHR 0x8A, CHR 0xB5, CHR 0xEB, CHR 0x8B, CHR 0x88, CHR 0xEB, CHR 0x8B,
     CHR 0xA4] @ ''.''"

definition no_internal_group_message :: string where
  "no_internal_group_message = [CHR 0xEB, CHR 0x82, CHR 0xB4, CHR 0xEB, CHR 0xB6,
     CHR 0x80] @ '' '' @ [CHR 0xEC, CHR 0xA4, CHR 0x91, CHR 0xEB, CHR 0xB3,
     CHR 0xB5] @ '' '' @ [CHR 0xEA, CHR 0xB7, CHR 0xB8, CHR 0xEB, CHR 0xA3, CHR 0xB9, CHR 0xEC,
     CHR 0x9D, CHR 0x84] @ '' '' @ [CHR 0xEC, CHR 0xB0, CHR 0xBE, CHR 0xEC, CHR 0x9D,
     CHR 0x84] @ '' '' @ [CHR 0xEC, CHR 0x88, CHR 0x98] @ '' '' @ [CHR 0xEC, CHR 0x97,
     CHR 0x86, CHR 0xEC, CHR 0x8A, CHR 0xB5, CHR 0xEB, CHR 0x8B, CHR 0x88, CHR 0xEB, CHR 0x8B,
     CHR 0xA4] @ ''.''"

definition rows_mismatch_reason :: string where
  "rows_mismatch_reason = ''keep/remove '' @ [CHR 0xED, CHR 0x8E, CHR 0x98, CHR 0xEC, CHR 0x9D,
     CHR 0xB4, CHR 0xEC, CHR 0xA7, CHR 0x80, CHR 0xEA, CHR 0xB0, CHR 0x80] @ '' '' @ [CHR 0xEA,
     CHR 0xB2, CHR 0x80, CHR 0xED, CHR 0x86, CHR 0xA0] @ '' '' @ [CHR 0xED, CHR 0x96, CHR 0x89,
     CHR 0xEA, CHR 0xB3, CHR 0xBC] @ '' '' @ [CHR 0xEC, CHR 0x9D, CHR 0xBC, CHR 0xEC, CHR 0xB9,
     CHR 0x98, CHR 0xED, CHR 0x95, CHR 0xB4, CHR 0xEC, CHR 0x95, CHR 0xBC] @ '' '' @ [CHR 0xED,
     CHR 0x95, CHR 0xA9, CHR 0xEB, CHR 0x8B, CHR 0x88, CHR 0xEB, CHR 0x8B, CHR 0xA4]"

definition plan_invalid_message :: string where
  "plan_invalid_message = [CHR 0xEC, CHR 0xA0, CHR 0x9C, CHR 0xEA, CHR 0xB1,
     CHR 0xB0] @ '' '' @ [CHR 0xEA, CHR 0xB3, CHR 0x84, CHR 0xED, CHR 0x9A, CHR 0x8D, CHR 0xEC,
     CHR 0x9D, CHR 0xB4] @ '' '' @ [CHR 0xEB, CHR 0xA7, CHR 0x8C, CHR 0xEB, CHR 0xA3, CHR 0x8C,
     CHR 0xEB, CHR 0x90, CHR 0x98, CHR 0xEC, CHR 0x97, CHR 0x88, CHR 0xEA, CHR 0xB1, CHR 0xB0,
     CHR 0xEB, CHR 0x82, CHR 0x98] @ '' '' @ [CHR 0xEC, CHR 0xA1, CHR 0xB4, CHR 0xEC, CHR 0x9E,
     CHR 0xAC, CHR 0xED, CHR 0x95, CHR 0x98, CHR 0xEC, CHR 0xA7, CHR 0x80] @ '' '' @ [CHR 0xEC,
     CHR 0x95, CHR 0x8A, CHR 0xEC, CHR 0x8A, CHR 0xB5, CHR 0xEB, CHR 0x8B, CHR 0x88, CHR 0xEB,
     CHR 0x8B, CHR 0xA4] @ ''.''"

definition no_record_message :: string where
  "no_record_message = [CHR 0xEB, CHR 0x90, CHR 0x98, CHR 0xEB, CHR 0x8F, CHR 0x8C, CHR 0xEB,
     CHR 0xA6, CHR 0xB4] @ '' '' @ [CHR 0xEA, CHR 0xB2, CHR 0xA9, CHR 0xEB, CHR 0xA6,
     CHR 0xAC] @ '' '' @ [CHR 0xEA, CHR 0xB8, CHR 0xB0, CHR 0xEB, CHR 0xA1, CHR 0x9D, CHR 0xEC,
     CHR 0x9D, CHR 0x84] @ '' '' @ [CHR 0xEC, CHR 0xB0, CHR 0xBE, CHR 0xEC, CHR 0x9D,
     CHR 0x84] @ '' '' @ [CHR 0xEC, CHR 0x88, CHR 0x98] @ '' '' @ [CHR 0xEC, CHR 0x97,
     CHR 0x86, CHR 0xEC, CHR 0x8A, CHR 0xB5, CHR 0xEB, CHR 0x8B, CHR 0x88, CHR 0xEB, CHR 0x8B,
     CHR 0xA4] @ ''.''"

definition one_download_reason :: string where
  "one_download_reason = [CHR 0xED, CHR 0x95, CHR 0x9C] @ '' '' @ [CHR 0xEB, CHR 0x8B,
     CHR 0xA4, CHR 0xEC, CHR 0x9A, CHR 0xB4, CHR 0xEB, CHR 0xA1, CHR 0x9C, CHR 0xEB, CHR 0x93,
     CHR 0x9C, CHR 0xEC, CHR 0x9D, CHR 0x98] @ '' '' @ [CHR 0xED, CHR 0x8E, CHR 0x98, CHR 0xEC,
     CHR 0x9D, CHR 0xB4, CHR 0xEC, CHR 0xA7, CHR 0x80, CHR 0xEB, CHR 0xA7,
     CHR 0x8C] @ '' '' @ [CHR 0xEC, CHR 0x84, CHR 0xA0, CHR 0xED, CHR 0x83, CHR 0x9D, CHR 0xED,
     CHR 0x95, CHR 0xB4, CHR 0xEC, CHR 0x95, CHR 0xBC] @ '' '' @ [CHR 0xED, CHR 0x95, CHR 0xA9,
     CHR 0xEB, CHR 0x8B, CHR 0x88, CHR 0xEB, CHR 0x8B, CHR 0xA4]"

definition download_title :: string where
  "download_title = [CHR 0xEB, CHR 0x8B, CHR 0xA4, CHR 0xEC, CHR 0x9A, CHR 0xB4, CHR 0xEB,
     CHR 0xA1, CHR 0x9C, CHR 0xEB, CHR 0x93, CHR 0x9C] @ '' ''"

section \<open>Records\<close>

record internal_run = internal_scan_run +
  iu_totalPages :: int
  iu_comparedPairs :: int
  iu_algorithmVersion :: int
  iu_skippedPages :: int
  iu_finishedAt :: "string option"

datatype scan_stage = StageHashing | StageComparing | StageFinalizing

record artifact_progress =
  ap_runId :: string
  ap_sequence :: int
  ap_entryId :: string
  ap_galleryId :: gallery_id
  ap_artifactIndex :: int
  ap_totalArtifacts :: int
  ap_processedPages :: int
  ap_totalPages :: int
  ap_comparedPairs :: int
  ap_totalPairs :: int
  ap_progressPercent :: int
  ap_stage :: scan_stage

datatype quarantine_state = PendingQuarantine | InQuarantine | PendingRestore | Restored

record quarantine_record =
  qr_recordId :: string
  qr_planId :: string
  qr_entryId :: string
  qr_galleryId :: gallery_id
  qr_sourcePage :: int
  qr_originalRelativePath :: string
  qr_quarantineRelativePath :: string
  qr_reason :: string
  qr_state :: quarantine_state
  qr_createdAt :: string
  qr_updatedAt :: string

record removal_request =
  rq_entryId :: string
  rq_selections :: "removal_selection list"

record internal_review =
  nr_entryId :: string
  nr_galleryId :: gallery_id
  nr_title :: string
  nr_groups :: "internal_group list"
  nr_quarantineRecords :: "quarantine_record list"

datatype internal_event = InternalChanged internal_run | ArtifactProgress artifact_progress

text \<open>What the timers of a scan hold: the generation and the run they were set for, and what they report.\<close>

datatype internal_task =
    StageTask nat string nat string nat int scan_stage
  | FinishTask nat internal_run "string list"

record internal_backend =
  ib_clock :: nat
  ib_timers :: "(nat \<times> internal_task) list"
  ib_events :: "internal_event list"
  ib_run :: "internal_run option"
  ib_groups :: "internal_group list"
  ib_records :: "quarantine_record list"
  ib_generation :: nat
  ib_nextRunId :: nat
  ib_activeKey :: "string option"
  ib_progress :: "artifact_progress option"
  ib_plans :: "(string \<times> removal_plan) list"
  ib_nextPlanId :: nat

definition new_internal :: internal_backend where
  "new_internal = \<lparr>ib_clock = 0, ib_timers = [], ib_events = [], ib_run = None, ib_groups = [], ib_records = [],
     ib_generation = 0, ib_nextRunId = 1, ib_activeKey = None, ib_progress = None, ib_plans = [], ib_nextPlanId = 1\<rparr>"

definition report :: "internal_event \<Rightarrow> internal_backend \<Rightarrow> internal_backend" where
  "report e s = s\<lparr>ib_events := ib_events s @ [e]\<rparr>"

definition arm :: "nat \<Rightarrow> internal_task \<Rightarrow> internal_backend \<Rightarrow> internal_backend" where
  "arm delay task s =
     (let due = ib_clock s + delay
      in s\<lparr>ib_timers := takeWhile (\<lambda>t. fst t \<le> due) (ib_timers s) @ (due, task) # dropWhile (\<lambda>t. fst t \<le> due) (ib_timers s)\<rparr>)"

definition scan_running :: "internal_backend \<Rightarrow> bool" where
  "scan_running s \<longleftrightarrow> (case ib_run s of Some r \<Rightarrow> ir_state r = ''running'' | None \<Rightarrow> False)"

section \<open>Scanning\<close>

definition entry_ids_refusal :: "string list \<Rightarrow> api_error option" where
  "entry_ids_refusal ids =
     (if ids = [] then Some (validationError ''entryIds'' ''must not be empty'')
      else if length ids > 200 then Some (validationError ''entryIds'' ''must contain at most 200 entries'')
      else if list_ex (\<lambda>i. i = [] \<or> length i > 200) (set_from (map trim ids))
      then Some (validationError ''entryIds'' ''must contain non-empty IDs of at most 200 bytes'')
      else None)"

definition entry_set_key :: "string list \<Rightarrow> string" where
  "entry_set_key ids = json_list json_string ids"

definition new_internal_run :: "string \<Rightarrow> nat \<Rightarrow> string list \<Rightarrow> internal_run" where
  "new_internal_run now n ids =
     \<lparr>ir_runId = ''browser-internal-run-'' @ show_nat n, ir_revision = 0, ir_state = ''running'',
      ir_totalArtifacts = int (length ids), ir_scannedArtifacts = 0, ir_groupsFound = 0, ir_skippedArtifacts = 0,
      ir_startedAt = now, ir_updatedAt = now, iu_totalPages = 24 * int (length ids), iu_comparedPairs = 0,
      iu_algorithmVersion = 4, iu_skippedPages = 0, iu_finishedAt = None\<rparr>"

definition entry_gallery :: "(string \<times> download_entry) list \<Rightarrow> string \<Rightarrow> nat \<Rightarrow> gallery_id" where
  "entry_gallery entries entryId index =
     (case map_of entries entryId of Some e \<Rightarrow> de_galleryId e | None \<Rightarrow> 4051038 + int index)"

text \<open>\<open>index\<close> counts from 0, the reported index from 1.\<close>

definition mockArtifactProgress ::
  "(string \<times> download_entry) list \<Rightarrow> string \<Rightarrow> nat \<Rightarrow> string \<Rightarrow> nat \<Rightarrow> int \<Rightarrow> scan_stage \<Rightarrow> artifact_progress" where
  "mockArtifactProgress entries runId artifacts entryId index sequence stage =
     \<lparr>ap_runId = runId, ap_sequence = sequence, ap_entryId = entryId,
      ap_galleryId = entry_gallery entries entryId index, ap_artifactIndex = int index + 1,
      ap_totalArtifacts = int artifacts, ap_processedPages = (if stage = StageHashing then 0 else 24), ap_totalPages = 24,
      ap_comparedPairs = (case stage of StageHashing \<Rightarrow> 0 | StageComparing \<Rightarrow> 138 | StageFinalizing \<Rightarrow> 276),
      ap_totalPairs = 276,
      ap_progressPercent = (case stage of StageHashing \<Rightarrow> 0 | StageComparing \<Rightarrow> 65 | StageFinalizing \<Rightarrow> 99),
      ap_stage = stage\<rparr>"

definition arm_stages :: "nat \<Rightarrow> string \<Rightarrow> nat \<Rightarrow> internal_backend \<Rightarrow> nat \<times> string \<Rightarrow> internal_backend" where
  "arm_stages generation runId artifacts s e =
     (let index = fst e; entryId = snd e; baseSequence = int index * 3 + 1; baseDelay = index * 80;
          stage = StageTask generation runId artifacts entryId index;
          s1 = (if index > 0 then arm baseDelay (stage baseSequence StageHashing) s else s)
      in arm (baseDelay + 55) (stage (baseSequence + 2) StageFinalizing)
           (arm (baseDelay + 30) (stage (baseSequence + 1) StageComparing) s1))"

text \<open>The microtask that reports the new run comes before any other event.\<close>

definition begin_internal_scan ::
  "(string \<times> download_entry) list \<Rightarrow> string list \<Rightarrow> string \<Rightarrow> internal_backend \<Rightarrow> internal_run \<times> internal_backend" where
  "begin_internal_scan entries ids now s =
     (let generation = Suc (ib_generation s); run = new_internal_run now (ib_nextRunId s) ids; artifacts = length ids;
          progress = mockArtifactProgress entries (ir_runId run) artifacts (hd ids) 0 1 StageHashing;
          s1 = s\<lparr>ib_generation := generation, ib_activeKey := Some (entry_set_key ids),
                 ib_nextRunId := Suc (ib_nextRunId s), ib_progress := Some progress, ib_run := Some run\<rparr>;
          s2 = foldl (arm_stages generation (ir_runId run) artifacts) s1 (List.enumerate 0 ids)
      in (run, report (ArtifactProgress progress) (report (InternalChanged run)
                 (arm (artifacts * 80) (FinishTask generation run ids) s2))))"

definition internalDuplicateScanStart ::
  "(string \<Rightarrow> string \<Rightarrow> int) \<Rightarrow> (string \<times> download_entry) list \<Rightarrow> string list \<Rightarrow> string \<Rightarrow> internal_backend
    \<Rightarrow> internal_run api_result \<times> internal_backend" where
  "internalDuplicateScanStart loc entries entryIds now s =
     (case entry_ids_refusal entryIds of
        Some err \<Rightarrow> (Inl err, s)
      | None \<Rightarrow>
          let ids = js_sort loc (set_from (map trim entryIds))
          in case ib_run s of
               Some current \<Rightarrow>
                 if ir_state current \<noteq> ''running'' then apfst Inr (begin_internal_scan entries ids now s)
                 else if ib_activeKey s = Some (entry_set_key ids) then (Inr current, s)
                 else (Inl \<lparr>ae_code = ''OPERATION_ACTIVE'', ae_message = other_internal_scan_message, ae_retryable = False,
                            ae_action = Some ActNone, ae_details = None\<rparr>, s)
             | None \<Rightarrow> apfst Inr (begin_internal_scan entries ids now s))"

definition internalDuplicateScanCancel ::
  "string \<Rightarrow> internal_backend \<Rightarrow> internal_run api_result \<times> internal_backend" where
  "internalDuplicateScanCancel now s =
     (let none = (Inl (notFoundError ''INTERNAL_DUPLICATE_SCAN_NOT_RUNNING'' no_internal_scan_message None), s)
      in case ib_run s of
           None \<Rightarrow> none
         | Some current \<Rightarrow>
             if ir_state current \<noteq> ''running'' then none
             else let cancelled = current\<lparr>ir_revision := ir_revision current + 1, ir_state := ''cancelled'',
                                         ir_updatedAt := now, iu_finishedAt := Some now\<rparr>
                  in (Inr cancelled, report (InternalChanged cancelled)
                       (s\<lparr>ib_generation := Suc (ib_generation s), ib_activeKey := None, ib_progress := None,
                          ib_run := Some cancelled\<rparr>)))"

section \<open>The timers of a scan\<close>

definition fixture_evidence :: "bool \<Rightarrow> rat \<Rightarrow> int \<Rightarrow> int \<Rightarrow> page_evidence" where
  "fixture_evidence exact similarity distance page =
     \<lparr>pe_sourcePage = page, pe_exactSha256 = exact, pe_visualSimilarity = similarity, pe_detailHashDistance = distance,
      pe_lowInformation = False, pe_editionTrackId = None, pe_editionTrackOrdinal = None\<rparr>"

definition fixture_group :: "string \<Rightarrow> gallery_id \<Rightarrow> string \<Rightarrow> string \<Rightarrow> string \<Rightarrow> int \<Rightarrow> internal_match_kind \<Rightarrow> rat \<Rightarrow>
    int \<Rightarrow> int list \<Rightarrow> internal_group" where
  "fixture_group entryId g now suffix block sequence relation confidence distance pages =
     \<lparr>ig_groupId = entryId @ suffix, ig_blockId = entryId @ block, ig_sequenceIndex = sequence, ig_revision = 0,
      ig_entryId = entryId, ig_galleryId = g, ig_relation = relation, ig_confidence = confidence,
      ig_recommendedKeepSourcePage = hd pages,
      ig_pages = map (fixture_evidence (relation = MatchExact) confidence distance) pages,
      ig_resolved = False, ig_createdAt = now, ig_updatedAt = now\<rparr>"

definition fixture_groups :: "(string \<times> download_entry) list \<Rightarrow> string \<Rightarrow> nat \<times> string \<Rightarrow> internal_group list" where
  "fixture_groups entries now e =
     (let i = snd e; g = entry_gallery entries i (fst e)
      in [fixture_group i g now ''-exact-1'' ''-block-1'' 0 MatchExact 1 0 [2, 8],
          fixture_group i g now ''-visual-1'' ''-block-2'' 0 MatchTranslation (94 / 100) 17 [14, 20],
          fixture_group i g now ''-visual-2'' ''-block-2'' 1 MatchTranslation (91 / 100) 22 [15, 21]])"

definition finished_run :: "string \<Rightarrow> string list \<Rightarrow> internal_run \<Rightarrow> internal_run" where
  "finished_run now ids run = run\<lparr>ir_revision := 2, ir_state := ''completed'', ir_scannedArtifacts := int (length ids),
     iu_comparedPairs := 276 * int (length ids), ir_groupsFound := 3 * int (length ids), ir_updatedAt := now,
     iu_finishedAt := Some now\<rparr>"

fun run_internal_task :: "(string \<times> download_entry) list \<Rightarrow> string \<Rightarrow> internal_task \<Rightarrow> internal_backend \<Rightarrow>
    internal_backend" where
  "run_internal_task entries now (StageTask generation runId artifacts entryId index sequence stage) s =
     (if generation \<noteq> ib_generation s \<or> \<not> scan_running s then s
      else let progress = mockArtifactProgress entries runId artifacts entryId index sequence stage
           in report (ArtifactProgress progress) (s\<lparr>ib_progress := Some progress\<rparr>))"
| "run_internal_task entries now (FinishTask generation run ids) s =
     (if generation \<noteq> ib_generation s \<or> \<not> scan_running s then s
      else let groups = concat (map (fixture_groups entries now) (List.enumerate 0 ids));
               finished = finished_run now ids run
           in report (InternalChanged finished)
                (s\<lparr>ib_activeKey := None, ib_progress := None, ib_run := Some finished,
                   ib_groups := filter (\<lambda>g. ig_entryId g \<notin> set ids) (ib_groups s) @ groups\<rparr>))"

text \<open>The first task runs once its time has come.\<close>

definition fire_internal :: "(string \<times> download_entry) list \<Rightarrow> string \<Rightarrow> internal_backend \<Rightarrow> internal_backend" where
  "fire_internal entries now s =
     (case ib_timers s of
        [] \<Rightarrow> s
      | t # ts \<Rightarrow> if fst t \<le> ib_clock s then run_internal_task entries now (snd t) (s\<lparr>ib_timers := ts\<rparr>) else s)"

section \<open>Review\<close>

text \<open>A gallery id that is missing or zero counts as absent.\<close>

definition known_id :: "gallery_id option \<Rightarrow> bool" where
  "known_id g \<longleftrightarrow> (case g of Some i \<Rightarrow> i \<noteq> 0 | None \<Rightarrow> False)"

definition internalDuplicateReviewGet :: "fixture_gallery list \<Rightarrow> (string \<times> download_entry) list \<Rightarrow> string \<Rightarrow>
    internal_backend \<Rightarrow> internal_review api_result" where
  "internalDuplicateReviewGet fixture entries entryId s =
     (let i = trim entryId;
          groups = filter (\<lambda>g. ig_entryId g = i \<and> \<not> ig_resolved g) (ib_groups s);
          records = filter (\<lambda>r. qr_entryId r = i) (ib_records s);
          target = or_else (map_option ig_galleryId (js_at groups 0))
                     (map_option de_galleryId (find (\<lambda>e. de_entryId e = i) (vals entries)));
          resolved = or_else target (map_option qr_galleryId (js_at records 0));
          missing = Inl (notFoundError ''INTERNAL_DUPLICATE_ENTRY_NOT_FOUND'' no_internal_entry_message
                           (Some [(''entryId'', JStr i)]))
      in if \<not> known_id target \<and> records = [] then missing
         else if \<not> known_id resolved then missing
         else Inr \<lparr>nr_entryId = i, nr_galleryId = or_value resolved 0,
                nr_title = (case (if known_id target then galleryDetailFixture fixture (or_value target 0) else None) of
                    Some d \<Rightarrow> gs_title (gd_summary d)
                  | None \<Rightarrow> download_title @ i),
                nr_groups = groups, nr_quarantineRecords = records\<rparr>)"

section \<open>Plans\<close>

definition group_pages :: "internal_group \<Rightarrow> int set" where
  "group_pages g = set (map pe_sourcePage (ig_pages g))"

definition selection_refusal :: "string \<Rightarrow> internal_backend \<Rightarrow> removal_selection \<Rightarrow> api_error option" where
  "selection_refusal entryId s sel =
     (case find (\<lambda>g. ig_groupId g = rs_groupId sel \<and> ig_entryId g = entryId) (ib_groups s) of
        None \<Rightarrow> Some (notFoundError ''INTERNAL_DUPLICATE_ENTRY_NOT_FOUND'' no_internal_group_message None)
      | Some g \<Rightarrow>
          if ig_revision g \<noteq> rs_expectedRevision sel then Some (conflict ''internalDuplicateGroup'')
          else if rs_keepSourcePage sel \<notin> group_pages g \<or> rs_removeSourcePages sel = []
            \<or> list_ex (\<lambda>p. p \<notin> group_pages g \<or> p = rs_keepSourcePage sel) (rs_removeSourcePages sel)
          then Some (validationError ''request.selections'' rows_mismatch_reason)
          else None)"

fun selections_refusal :: "string \<Rightarrow> internal_backend \<Rightarrow> removal_selection list \<Rightarrow> api_error option" where
  "selections_refusal entryId s [] = None"
| "selections_refusal entryId s (sel # sels) =
     (case selection_refusal entryId s sel of Some err \<Rightarrow> Some err | None \<Rightarrow> selections_refusal entryId s sels)"

definition internalRemovalPlan :: "removal_request \<Rightarrow> int \<Rightarrow> internal_backend \<Rightarrow> removal_plan api_result \<times> internal_backend" where
  "internalRemovalPlan request ms s =
     (if rq_selections request = [] then (Inl (validationError ''request.selections'' ''must not be empty''), s)
      else case selections_refusal (rq_entryId request) s (rq_selections request) of
             Some err \<Rightarrow> (Inl err, s)
           | None \<Rightarrow>
               let files = set_from (concat (map rs_removeSourcePages (rq_selections request)));
                   plan = \<lparr>rp_entryId = rq_entryId request, rp_selections = rq_selections request,
                     rp_planId = ''browser-internal-plan-'' @ show_nat (ib_nextPlanId s),
                     rp_filesToQuarantine = int (length files), rp_bytesToQuarantine = int (length files) * 512000,
                     rp_expiresAt = show_int (ms + 15 * 60 * 1000)\<rparr>
               in (Inr plan, s\<lparr>ib_nextPlanId := Suc (ib_nextPlanId s),
                               ib_plans := AList.update (rp_planId plan) plan (ib_plans s)\<rparr>))"

text \<open>
  \<^verbatim>\<open>Number(plan.expiresAt)\<close>, for the texts that the plans hold: those of an integer.
\<close>

definition digits_value :: "string \<Rightarrow> int" where
  "digits_value s = foldl (\<lambda>n c. 10 * n + (of_char c - 48)) 0 s"

definition time_value :: "string \<Rightarrow> int" where
  "time_value s = (case s of c # t \<Rightarrow> if c = CHR ''-'' then - digits_value t else digits_value s | [] \<Rightarrow> 0)"

definition page_file :: "int \<Rightarrow> string" where
  "page_file page = pad_start 4 (show_int page) @ ''.webp''"

definition quarantine_of :: "string \<Rightarrow> string \<Rightarrow> removal_plan \<Rightarrow> gallery_id \<Rightarrow> int \<Rightarrow> quarantine_record" where
  "quarantine_of reason now plan g page =
     \<lparr>qr_recordId = ''browser-page-quarantine-'' @ rp_planId plan @ ''-'' @ show_int page, qr_planId = rp_planId plan,
      qr_entryId = rp_entryId plan, qr_galleryId = g, qr_sourcePage = page,
      qr_originalRelativePath = ''browser/'' @ rp_entryId plan @ ''/'' @ page_file page,
      qr_quarantineRelativePath =
        ''browser/'' @ rp_entryId plan @ ''/.atsumi-page-quarantine/'' @ rp_planId plan @ ''/'' @ page_file page,
      qr_reason = (if trim reason = [] then ''internal duplicate review'' else trim reason),
      qr_state = InQuarantine, qr_createdAt = now, qr_updatedAt = now\<rparr>"

definition plan_records :: "string \<Rightarrow> string \<Rightarrow> removal_plan \<Rightarrow> internal_backend \<Rightarrow> quarantine_record list" where
  "plan_records reason now plan s =
     concat (map (\<lambda>sel.
       let g = (case find (\<lambda>g. ig_groupId g = rs_groupId sel) (ib_groups s) of Some g \<Rightarrow> ig_galleryId g | None \<Rightarrow> 1)
       in map (quarantine_of reason now plan g) (rs_removeSourcePages sel)) (rp_selections plan))"

definition settle_group :: "bool \<Rightarrow> string \<Rightarrow> string set \<Rightarrow> internal_group \<Rightarrow> internal_group" where
  "settle_group resolved now ids g =
     (if ig_groupId g \<in> ids
      then g\<lparr>ig_revision := ig_revision g + 1, ig_resolved := resolved, ig_updatedAt := now\<rparr> else g)"

text \<open>The answer shows the review after the change; the change stands even if there is no review to show.\<close>

definition removal_answer :: "fixture_gallery list \<Rightarrow> (string \<times> download_entry) list \<Rightarrow> string \<Rightarrow>
    (internal_review \<Rightarrow> quarantine_record list) \<Rightarrow> internal_backend \<Rightarrow>
    (internal_review \<times> quarantine_record list) api_result \<times> internal_backend" where
  "removal_answer fixture entries entryId records s =
     (case internalDuplicateReviewGet fixture entries entryId s of
        Inl err \<Rightarrow> (Inl err, s)
      | Inr review \<Rightarrow> (Inr (review, records review), s))"

definition internalRemovalApply :: "fixture_gallery list \<Rightarrow> (string \<times> download_entry) list \<Rightarrow> string \<Rightarrow> string \<Rightarrow>
    string \<Rightarrow> int \<Rightarrow> internal_backend \<Rightarrow> (internal_review \<times> quarantine_record list) api_result \<times> internal_backend" where
  "internalRemovalApply fixture entries planId reason now ms s =
     (let invalid = (Inl (notFoundError ''INTERNAL_REMOVAL_PLAN_INVALID'' plan_invalid_message None), s)
      in case map_of (ib_plans s) planId of
           None \<Rightarrow> invalid
         | Some plan \<Rightarrow>
             if time_value (rp_expiresAt plan) < ms then invalid
             else let records = plan_records reason now plan s
                  in removal_answer fixture entries (rp_entryId plan) (\<lambda>_. records)
                       (s\<lparr>ib_groups := map (settle_group True now (set (map rs_groupId (rp_selections plan)))) (ib_groups s),
                          ib_records := ib_records s @ records\<rparr>))"

definition undone_groups :: "quarantine_record list \<Rightarrow> internal_backend \<Rightarrow> string set" where
  "undone_groups records s = set (concat (map (\<lambda>planId.
     case map_of (ib_plans s) planId of Some plan \<Rightarrow> map rs_groupId (rp_selections plan) | None \<Rightarrow> [])
       (map qr_planId records)))"

definition restore_record :: "string \<Rightarrow> string set \<Rightarrow> quarantine_record \<Rightarrow> quarantine_record" where
  "restore_record now ids r =
     (if qr_recordId r \<in> ids then r\<lparr>qr_state := Restored, qr_updatedAt := now\<rparr> else r)"

definition internalRemovalUndo :: "fixture_gallery list \<Rightarrow> (string \<times> download_entry) list \<Rightarrow> string list \<Rightarrow> string \<Rightarrow>
    internal_backend \<Rightarrow> (internal_review \<times> quarantine_record list) api_result \<times> internal_backend" where
  "internalRemovalUndo fixture entries recordIds now s =
     (if recordIds = [] then (Inl (validationError ''request.recordIds'' ''must not be empty''), s)
      else let requested = set recordIds;
               records = filter (\<lambda>r. qr_recordId r \<in> requested \<and> qr_state r = InQuarantine) (ib_records s)
           in case records of
                [] \<Rightarrow> (Inl (notFoundError ''INTERNAL_REMOVAL_PLAN_INVALID'' no_record_message None), s)
              | r # rs \<Rightarrow>
                  if list_ex (\<lambda>x. qr_entryId x \<noteq> qr_entryId r) records
                  then (Inl (validationError ''request.recordIds'' one_download_reason), s)
                  else removal_answer fixture entries (qr_entryId r)
                         (\<lambda>review. filter (\<lambda>x. qr_recordId x \<in> requested) (nr_quarantineRecords review))
                         (s\<lparr>ib_groups := map (settle_group False now (undone_groups records s)) (ib_groups s),
                            ib_records := map (restore_record now requested) (ib_records s)\<rparr>))"

section \<open>The machine\<close>

datatype internal_input =
    InternalStart "(string \<times> download_entry) list" "string list" string
  | InternalCancel string
  | InternalElapse nat
  | InternalFires "(string \<times> download_entry) list" string
  | InternalPlan removal_request int
  | InternalApply "(string \<times> download_entry) list" string string string int
  | InternalUndo "(string \<times> download_entry) list" "string list" string

fun internal_step :: "(string \<Rightarrow> string \<Rightarrow> int) \<Rightarrow> fixture_gallery list \<Rightarrow> internal_backend \<Rightarrow> internal_input \<Rightarrow>
    internal_backend" where
  "internal_step loc fixture s (InternalStart entries ids now) = snd (internalDuplicateScanStart loc entries ids now s)"
| "internal_step loc fixture s (InternalCancel now) = snd (internalDuplicateScanCancel now s)"
| "internal_step loc fixture s (InternalElapse d) = s\<lparr>ib_clock := ib_clock s + d\<rparr>"
| "internal_step loc fixture s (InternalFires entries now) = fire_internal entries now s"
| "internal_step loc fixture s (InternalPlan request ms) = snd (internalRemovalPlan request ms s)"
| "internal_step loc fixture s (InternalApply entries planId reason now ms) =
     snd (internalRemovalApply fixture entries planId reason now ms s)"
| "internal_step loc fixture s (InternalUndo entries recordIds now) =
     snd (internalRemovalUndo fixture entries recordIds now s)"

end
