(* ===== verification/BrowserInternalFacts.thy ===== *)
theory BrowserInternalFacts
  imports BrowserInternal
begin

text \<open>
  What the search for repeated pages guarantees: a running scan always has the timer that ends it, whatever was
  started and cancelled before; a plan that is carried out and undone leaves the groups as they were, up to their
  revisions; the records of a plan name its pages.
\<close>

section \<open>Time values\<close>

lemma digit_char_value: "n < 10 \<Longrightarrow> of_char (digit_char n) = (48 + int n)"
  by (simp add: digit_char_def digit_chars_def) (auto simp: less_Suc_eq numeral_eq_Suc)

lemma digits_value_append: "digits_value (s @ [c]) = 10 * digits_value s + (of_char c - 48)"
  by (simp add: digits_value_def)

lemma digits_value_show: "digits_value (show_nat n) = int n"
proof (induction n rule: less_induct)
  case (less n)
  show ?case
  proof (cases "n < 10")
    case True
    then show ?thesis by (simp add: show_nat.simps [of n] digits_value_def digit_char_value)
  next
    case False
    then have "digits_value (show_nat n) = 10 * int (n div 10) + int (n mod 10)"
      by (simp add: show_nat.simps [of n] digits_value_append less digit_char_value del: of_nat_div of_nat_mod)
    also have "\<dots> = int (10 * (n div 10) + n mod 10)" by (simp only: of_nat_add of_nat_mult of_nat_numeral)
    finally show ?thesis by simp
  qed
qed

lemma time_value_show [simp]: "time_value (show_int i) = i"
proof (cases "i < 0")
  case False
  obtain c t where s: "show_nat (nat i) = c # t" by (cases "show_nat (nat i)") auto
  with show_nat_digits [of c "nat i"] have "c \<noteq> CHR ''-''" by (auto simp: is_digit_def digit_chars_def)
  with s False digits_value_show [of "nat i"] show ?thesis by (simp add: show_int_def time_value_def)
qed (simp add: show_int_def time_value_def digits_value_show)

section \<open>Timers\<close>

lemma set_arm [simp]: "set (ib_timers (arm d t s)) = insert (ib_clock s + d, t) (set (ib_timers s))"
proof -
  have "set (takeWhile P xs) \<union> set (dropWhile P xs) = set xs" for P :: "nat \<times> internal_task \<Rightarrow> bool" and xs
    by (metis set_append takeWhile_dropWhile_id)
  then show ?thesis by (auto simp: arm_def Let_def)
qed

lemma arm_fields [simp]:
  "ib_clock (arm d t s) = ib_clock s" "ib_run (arm d t s) = ib_run s" "ib_groups (arm d t s) = ib_groups s"
  "ib_records (arm d t s) = ib_records s" "ib_generation (arm d t s) = ib_generation s"
  "ib_activeKey (arm d t s) = ib_activeKey s" "ib_progress (arm d t s) = ib_progress s"
  "ib_plans (arm d t s) = ib_plans s" "ib_nextPlanId (arm d t s) = ib_nextPlanId s"
  by (simp_all add: arm_def Let_def)

lemma report_fields [simp]:
  "ib_timers (report e s) = ib_timers s" "ib_clock (report e s) = ib_clock s" "ib_run (report e s) = ib_run s"
  "ib_groups (report e s) = ib_groups s" "ib_records (report e s) = ib_records s"
  "ib_generation (report e s) = ib_generation s" "ib_activeKey (report e s) = ib_activeKey s"
  "ib_progress (report e s) = ib_progress s" "ib_plans (report e s) = ib_plans s"
  "ib_nextPlanId (report e s) = ib_nextPlanId s"
  by (simp_all add: report_def)

lemma scan_running_cong: "ib_run s = ib_run s' \<Longrightarrow> scan_running s = scan_running s'"
  by (simp add: scan_running_def)

fun task_generation :: "internal_task \<Rightarrow> nat" where
  "task_generation (StageTask g r n e i q st) = g"
| "task_generation (FinishTask g r ids) = g"

text \<open>The stages of a download do not end a scan.\<close>

definition only_stages :: "nat \<Rightarrow> (nat \<times> internal_task) set \<Rightarrow> bool" where
  "only_stages g T \<longleftrightarrow> (\<forall>t \<in> T. \<exists>r n e i q st. snd t = StageTask g r n e i q st)"

lemma arm_stages_all:
  "\<exists>T. only_stages g T \<and> set (ib_timers (foldl (arm_stages g r n) s es)) = T \<union> set (ib_timers s)
     \<and> ib_clock (foldl (arm_stages g r n) s es) = ib_clock s
     \<and> ib_run (foldl (arm_stages g r n) s es) = ib_run s
     \<and> ib_groups (foldl (arm_stages g r n) s es) = ib_groups s
     \<and> ib_records (foldl (arm_stages g r n) s es) = ib_records s
     \<and> ib_generation (foldl (arm_stages g r n) s es) = ib_generation s
     \<and> ib_activeKey (foldl (arm_stages g r n) s es) = ib_activeKey s
     \<and> ib_progress (foldl (arm_stages g r n) s es) = ib_progress s
     \<and> ib_plans (foldl (arm_stages g r n) s es) = ib_plans s
     \<and> ib_nextPlanId (foldl (arm_stages g r n) s es) = ib_nextPlanId s"
proof (induction es arbitrary: s)
  case Nil
  show ?case by (rule exI [of _ "{}"]) (simp add: only_stages_def)
next
  case (Cons e es)
  define s' where "s' = arm_stages g r n s e"
  have same: "ib_clock s' = ib_clock s" "ib_run s' = ib_run s" "ib_groups s' = ib_groups s" "ib_records s' = ib_records s"
    "ib_generation s' = ib_generation s" "ib_activeKey s' = ib_activeKey s" "ib_progress s' = ib_progress s"
    "ib_plans s' = ib_plans s" "ib_nextPlanId s' = ib_nextPlanId s"
    by (simp_all add: s'_def arm_stages_def Let_def)
  have "\<exists>U. only_stages g U \<and> set (ib_timers s') = U \<union> set (ib_timers s)"
    by (rule exI [of _ "set (ib_timers s') - set (ib_timers s)"])
      (auto simp: s'_def arm_stages_def Let_def only_stages_def)
  then obtain U where U: "only_stages g U" "set (ib_timers s') = U \<union> set (ib_timers s)" by blast
  from Cons.IH [of s'] obtain T where T: "only_stages g T"
    "set (ib_timers (foldl (arm_stages g r n) s' es)) = T \<union> set (ib_timers s')" and rest:
    "ib_clock (foldl (arm_stages g r n) s' es) = ib_clock s'" "ib_run (foldl (arm_stages g r n) s' es) = ib_run s'"
    "ib_groups (foldl (arm_stages g r n) s' es) = ib_groups s'" "ib_records (foldl (arm_stages g r n) s' es) = ib_records s'"
    "ib_generation (foldl (arm_stages g r n) s' es) = ib_generation s'"
    "ib_activeKey (foldl (arm_stages g r n) s' es) = ib_activeKey s'"
    "ib_progress (foldl (arm_stages g r n) s' es) = ib_progress s'" "ib_plans (foldl (arm_stages g r n) s' es) = ib_plans s'"
    "ib_nextPlanId (foldl (arm_stages g r n) s' es) = ib_nextPlanId s'"
    by blast
  have "only_stages g (T \<union> U)" using T(1) U(1) by (auto simp: only_stages_def)
  moreover have "set (ib_timers (foldl (arm_stages g r n) s' es)) = (T \<union> U) \<union> set (ib_timers s)" using T(2) U(2) by auto
  ultimately show ?case using rest same by (auto simp: s'_def [symmetric])
qed

section \<open>A scan in progress\<close>

text \<open>
  No timer belongs to a later scan; while a scan runs its closing timer is pending, holds its run and its downloads,
  and there is progress to show.
\<close>

definition scan_ok :: "internal_backend \<Rightarrow> bool" where
  "scan_ok s \<longleftrightarrow>
     (\<forall>t \<in> set (ib_timers s). task_generation (snd t) \<le> ib_generation s)
     \<and> (scan_running s \<longleftrightarrow> ib_activeKey s \<noteq> None) \<and> (scan_running s \<longleftrightarrow> ib_progress s \<noteq> None)
     \<and> (scan_running s \<longrightarrow> (\<exists>t \<in> set (ib_timers s). \<exists>r ids. snd t = FinishTask (ib_generation s) r ids))
     \<and> (\<forall>t \<in> set (ib_timers s). \<forall>r ids. snd t = FinishTask (ib_generation s) r ids \<longrightarrow> scan_running s \<longrightarrow>
          ib_run s = Some r \<and> ib_activeKey s = Some (entry_set_key ids))"

lemma scan_okD:
  assumes "scan_ok s"
  shows "t \<in> set (ib_timers s) \<Longrightarrow> task_generation (snd t) \<le> ib_generation s"
    and "scan_running s \<longleftrightarrow> ib_activeKey s \<noteq> None" and "scan_running s \<longleftrightarrow> ib_progress s \<noteq> None"
    and "scan_running s \<Longrightarrow> \<exists>t \<in> set (ib_timers s). \<exists>r ids. snd t = FinishTask (ib_generation s) r ids"
    and "t \<in> set (ib_timers s) \<Longrightarrow> snd t = FinishTask (ib_generation s) r ids \<Longrightarrow> scan_running s \<Longrightarrow>
      ib_run s = Some r \<and> ib_activeKey s = Some (entry_set_key ids)"
  using assms unfolding scan_ok_def by blast+

text \<open>Timers that do not end the scan may go.\<close>

lemma scan_ok_fewer:
  assumes ok: "scan_ok s" and sub: "set (ib_timers s') \<subseteq> set (ib_timers s)"
    and same: "ib_generation s' = ib_generation s" "ib_activeKey s' = ib_activeKey s" "ib_run s' = ib_run s"
    and progress: "ib_progress s' = None \<longleftrightarrow> ib_progress s = None"
    and keeps: "\<And>t r ids. t \<in> set (ib_timers s) \<Longrightarrow> snd t = FinishTask (ib_generation s) r ids \<Longrightarrow> scan_running s \<Longrightarrow>
      t \<in> set (ib_timers s')"
  shows "scan_ok s'"
proof -
  have r: "scan_running s' = scan_running s" by (rule scan_running_cong) (rule same(3))
  have "\<exists>t \<in> set (ib_timers s'). \<exists>q ids. snd t = FinishTask (ib_generation s) q ids" if "scan_running s"
    using scan_okD(4) [OF ok that] keeps [OF _ _ that] by blast
  moreover have "ib_run s = Some q \<and> ib_activeKey s = Some (entry_set_key ids)"
    if "t \<in> set (ib_timers s')" "snd t = FinishTask (ib_generation s) q ids" "scan_running s" for t q ids
    using scan_okD(5) [OF ok _ that(2,3)] that(1) sub by blast
  moreover have "task_generation (snd t) \<le> ib_generation s" if "t \<in> set (ib_timers s')" for t
    using scan_okD(1) [OF ok] that sub by blast
  ultimately show ?thesis
    unfolding scan_ok_def r same progress
    by (intro conjI ballI allI impI) (rule scan_okD(2,3) [OF ok] | blast)+
qed

lemma scan_ok_same:
  "scan_ok s \<Longrightarrow> ib_timers s' = ib_timers s \<Longrightarrow> ib_generation s' = ib_generation s \<Longrightarrow> ib_activeKey s' = ib_activeKey s
    \<Longrightarrow> ib_progress s' = ib_progress s \<Longrightarrow> ib_run s' = ib_run s \<Longrightarrow> scan_ok s'"
  by (rule scan_ok_fewer [of s]) simp_all

lemma scan_ok_idle:
  assumes "\<forall>t \<in> set (ib_timers s). task_generation (snd t) \<le> ib_generation s"
    and "\<not> scan_running s" "ib_activeKey s = None" "ib_progress s = None"
  shows "scan_ok s"
  using assms by (simp add: scan_ok_def)

lemma scan_ok_begin:
  assumes "scan_ok s"
  shows "scan_ok (snd (begin_internal_scan entries ids now s))"
proof -
  define run where "run = new_internal_run now (ib_nextRunId s) ids"
  define g where "g = Suc (ib_generation s)"
  define progress where "progress = mockArtifactProgress entries (ir_runId run) (length ids) (hd ids) 0 1 StageHashing"
  define s1 where "s1 = s\<lparr>ib_generation := g, ib_activeKey := Some (entry_set_key ids),
    ib_nextRunId := Suc (ib_nextRunId s), ib_progress := Some progress, ib_run := Some run\<rparr>"
  define s2 where "s2 = foldl (arm_stages g (ir_runId run) (length ids)) s1 (List.enumerate 0 ids)"
  obtain T where T: "only_stages g T" "set (ib_timers s2) = T \<union> set (ib_timers s)"
    and f: "ib_run s2 = Some run" "ib_generation s2 = g" "ib_activeKey s2 = Some (entry_set_key ids)"
      "ib_progress s2 = Some progress"
    using arm_stages_all [of g "ir_runId run" "length ids" s1 "List.enumerate 0 ids"] by (auto simp: s2_def s1_def)
  let ?s = "report (ArtifactProgress progress) (report (InternalChanged run)
                 (arm (length ids * 80) (FinishTask g run ids) s2))"
  have e: "snd (begin_internal_scan entries ids now s) = ?s"
    by (simp add: begin_internal_scan_def Let_def run_def g_def progress_def s1_def s2_def)
  have old: "task_generation (snd t) < g" if "t \<in> set (ib_timers s)" for t
    using scan_okD(1) [OF assms that] by (simp add: g_def)
  have run: "scan_running ?s" using f by (simp add: scan_running_def run_def new_internal_run_def)
  have tasks: "snd t = FinishTask g r js \<Longrightarrow> r = run \<and> js = ids"
    if "t \<in> insert (ib_clock s2 + length ids * 80, FinishTask g run ids) (T \<union> set (ib_timers s))" for t r js
    using that T(1) old [of t] by (auto simp: only_stages_def)
  have "task_generation (snd t) \<le> g"
    if "t \<in> insert (ib_clock s2 + length ids * 80, FinishTask g run ids) (T \<union> set (ib_timers s))" for t
    using that T(1) old [of t] by (fastforce simp: only_stages_def)
  with tasks run show ?thesis unfolding e scan_ok_def by (auto simp: f T(2))
qed

lemma scan_ok_start:
  "scan_ok s \<Longrightarrow> scan_ok (snd (internalDuplicateScanStart loc entries ids now s))"
  by (auto simp: internalDuplicateScanStart_def Let_def scan_ok_begin apfst_def map_prod_def case_prod_beta
      split: option.splits)

lemma scan_ok_cancel: "scan_ok s \<Longrightarrow> scan_ok (snd (internalDuplicateScanCancel now s))"
proof -
  assume ok: "scan_ok s"
  have "task_generation (snd t) \<le> Suc (ib_generation s)" if "t \<in> set (ib_timers s)" for t
    using scan_okD(1) [OF ok that] by simp
  then show ?thesis using ok
    by (auto simp: internalDuplicateScanCancel_def Let_def scan_running_def split: option.splits intro!: scan_ok_idle)
qed

text \<open>What a task leaves alone.\<close>

lemma task_fields [simp]:
  "ib_timers (run_internal_task entries now task s) = ib_timers s"
  "ib_clock (run_internal_task entries now task s) = ib_clock s"
  "ib_generation (run_internal_task entries now task s) = ib_generation s"
  "ib_plans (run_internal_task entries now task s) = ib_plans s"
  "ib_nextPlanId (run_internal_task entries now task s) = ib_nextPlanId s"
  "ib_records (run_internal_task entries now task s) = ib_records s"
  by (cases task; simp add: Let_def)+

lemma finished_not_running: "ir_state (finished_run now ids r) = ''completed''"
  by (simp add: finished_run_def)

lemma scan_ok_task:
  assumes "scan_ok s" "ib_timers s = t # ts"
  shows "scan_ok (run_internal_task entries now (snd t) (s\<lparr>ib_timers := ts\<rparr>))"
proof (cases "task_generation (snd t) = ib_generation s \<and> scan_running s")
  case False
  have r: "scan_running (s\<lparr>ib_timers := ts\<rparr>) = scan_running s" by (rule scan_running_cong) simp
  have "run_internal_task entries now (snd t) (s\<lparr>ib_timers := ts\<rparr>) = s\<lparr>ib_timers := ts\<rparr>"
    using False r by (cases "snd t") auto
  moreover have "scan_ok (s\<lparr>ib_timers := ts\<rparr>)"
    by (rule scan_ok_fewer [OF assms(1)]) (use assms(2) False in auto)
  ultimately show ?thesis by simp
next
  case True
  have r: "scan_running (s\<lparr>ib_timers := ts\<rparr>) = scan_running s" by (rule scan_running_cong) simp
  show ?thesis
  proof (cases "snd t")
    case (FinishTask g run ids)
    show ?thesis
      by (rule scan_ok_idle) (use scan_okD(1) [OF assms(1)] assms(2) True r in
        \<open>auto simp: FinishTask Let_def scan_running_def finished_not_running\<close>)
  next
    case (StageTask g run n e i q st)
    define s' where "s' = run_internal_task entries now (snd t) (s\<lparr>ib_timers := ts\<rparr>)"
    have f: "ib_timers s' = ts" "ib_generation s' = ib_generation s" "ib_activeKey s' = ib_activeKey s"
      "ib_progress s' \<noteq> None" "ib_run s' = ib_run s"
      using True r by (auto simp: s'_def StageTask Let_def)
    have "scan_ok s'"
      by (rule scan_ok_fewer [OF assms(1)])
        (use assms(2) f True scan_okD(3) [OF assms(1)] StageTask in auto)
    then show ?thesis by (simp add: s'_def)
  qed
qed

lemma scan_ok_fire: "scan_ok s \<Longrightarrow> scan_ok (fire_internal entries now s)"
proof (cases "ib_timers s")
  case (Cons t ts)
  moreover assume "scan_ok s"
  ultimately show ?thesis using scan_ok_task [of s t ts] by (simp add: fire_internal_def)
qed (simp add: fire_internal_def)

lemma removal_answer_snd [simp]: "snd (removal_answer fixture entries entryId f s) = s"
  by (simp add: removal_answer_def split: sum.splits)

lemma scan_ok_plan: "scan_ok s \<Longrightarrow> scan_ok (snd (internalRemovalPlan request ms s))"
  by (auto simp: internalRemovalPlan_def Let_def split: option.splits elim!: scan_ok_same)

lemma scan_ok_apply: "scan_ok s \<Longrightarrow> scan_ok (snd (internalRemovalApply fixture entries planId reason now ms s))"
  by (auto simp: internalRemovalApply_def Let_def split: option.splits elim!: scan_ok_same)

lemma scan_ok_undo: "scan_ok s \<Longrightarrow> scan_ok (snd (internalRemovalUndo fixture entries ids now s))"
  by (auto simp: internalRemovalUndo_def Let_def split: list.splits elim!: scan_ok_same)

lemma scan_ok_new: "scan_ok new_internal"
  by (simp add: scan_ok_def new_internal_def scan_running_def)

lemma scan_ok_step: "scan_ok s \<Longrightarrow> scan_ok (internal_step loc fixture s i)"
proof (cases i)
  case (InternalElapse d)
  moreover assume "scan_ok s"
  ultimately show ?thesis by (auto elim!: scan_ok_same)
qed (simp_all add: scan_ok_start scan_ok_cancel scan_ok_fire scan_ok_plan scan_ok_apply scan_ok_undo)

interpretation internal_scan: machine "internal_step loc fixture" scan_ok new_internal for loc fixture
  by unfold_locales (rule scan_ok_new, rule scan_ok_step)

section \<open>All timers run\<close>

abbreviation run_internal where
  "run_internal loc fixture \<equiv> foldl (internal_step loc fixture)"

definition run_tasks :: "(string \<times> download_entry) list \<Rightarrow> string \<Rightarrow> internal_backend \<Rightarrow> (nat \<times> internal_task) list \<Rightarrow>
    internal_backend" where
  "run_tasks entries now = foldl (\<lambda>s t. run_internal_task entries now (snd t) s)"

lemma run_tasks_simps [simp]:
  "run_tasks entries now s [] = s"
  "run_tasks entries now s (t # ts) = run_tasks entries now (run_internal_task entries now (snd t) s) ts"
  by (simp_all add: run_tasks_def)

lemma task_timers: "run_internal_task entries now task (s\<lparr>ib_timers := ts\<rparr>) = (run_internal_task entries now task s)\<lparr>ib_timers := ts\<rparr>"
proof -
  have "scan_running (s\<lparr>ib_timers := ts\<rparr>) = scan_running s" by (rule scan_running_cong) simp
  then show ?thesis by (cases task) (simp_all add: Let_def report_def)
qed

lemma fire_all_internal:
  "\<forall>t \<in> set (ib_timers s). fst t \<le> ib_clock s \<Longrightarrow> n = length (ib_timers s) \<Longrightarrow>
   run_internal loc fixture s (replicate n (InternalFires entries now))
     = run_tasks entries now (s\<lparr>ib_timers := []\<rparr>) (ib_timers s)"
proof (induction n arbitrary: s)
  case (Suc n)
  then obtain t ts where ts: "ib_timers s = t # ts" by (cases "ib_timers s") auto
  let ?s = "run_internal_task entries now (snd t) (s\<lparr>ib_timers := ts\<rparr>)"
  from Suc.prems ts have f: "fire_internal entries now s = ?s" by (simp add: fire_internal_def)
  have "run_internal loc fixture ?s (replicate n (InternalFires entries now)) = run_tasks entries now (?s\<lparr>ib_timers := []\<rparr>) ts"
    using Suc.IH [of ?s] Suc.prems ts by simp
  then show ?case by (simp add: f ts task_timers)
qed simp

lemma tasks_idle: "\<not> scan_running s \<Longrightarrow> run_tasks entries now s ts = s"
proof (induction ts)
  case (Cons t ts)
  then show ?case by (cases "snd t") auto
qed simp

lemma tasks_finish:
  fixes entries now
  assumes "scan_running s" "\<exists>t \<in> set ts. \<exists>q js. snd t = FinishTask (ib_generation s) q js"
    and "\<And>t q js. t \<in> set ts \<Longrightarrow> snd t = FinishTask (ib_generation s) q js \<Longrightarrow> q = r \<and> js = ids"
  defines "s' \<equiv> run_tasks entries now s ts"
  shows "ib_run s' = Some (finished_run now ids r)" and "ib_activeKey s' = None" and "ib_progress s' = None"
    and "ib_groups s' = filter (\<lambda>g. ig_entryId g \<notin> set ids) (ib_groups s)
           @ concat (map (fixture_groups entries now) (List.enumerate 0 ids))"
proof -
  let ?goal = "\<lambda>s ts. ib_run (run_tasks entries now s ts) = Some (finished_run now ids r)
    \<and> ib_activeKey (run_tasks entries now s ts) = None \<and> ib_progress (run_tasks entries now s ts) = None
    \<and> ib_groups (run_tasks entries now s ts) = filter (\<lambda>g. ig_entryId g \<notin> set ids) (ib_groups s)
        @ concat (map (fixture_groups entries now) (List.enumerate 0 ids))"
  have "?goal s ts" using assms(1-3)
  proof (induction ts arbitrary: s)
    case (Cons t ts)
    let ?s = "run_internal_task entries now (snd t) s"
    show ?case
    proof (cases "\<exists>q js. snd t = FinishTask (ib_generation s) q js")
      case True
      then have t: "snd t = FinishTask (ib_generation s) r ids" using Cons.prems(3) [of t] by auto
      then have "\<not> scan_running ?s" using Cons.prems(1) by (simp add: Let_def scan_running_def finished_not_running)
      then have "run_tasks entries now s (t # ts) = ?s" by (simp add: tasks_idle)
      then show ?thesis using t Cons.prems(1) by (simp add: Let_def)
    next
      case False
      then have same: "ib_run ?s = ib_run s" "ib_groups ?s = ib_groups s" "ib_generation ?s = ib_generation s"
        by (cases "snd t"; simp add: Let_def)+
      have "scan_running ?s" using Cons.prems(1) same(1) scan_running_cong by blast
      moreover have "\<exists>u \<in> set ts. \<exists>q js. snd u = FinishTask (ib_generation ?s) q js"
        using Cons.prems(2) False same(3) by auto
      moreover have "q = r \<and> js = ids" if "u \<in> set ts" "snd u = FinishTask (ib_generation ?s) q js" for u q js
        using Cons.prems(3) [of u q js] that same(3) by simp
      ultimately have "?goal ?s ts" by (rule Cons.IH)
      then show ?thesis by (simp add: same(2))
    qed
  qed simp
  then show "ib_run s' = Some (finished_run now ids r)" and "ib_activeKey s' = None" and "ib_progress s' = None"
    and "ib_groups s' = filter (\<lambda>g. ig_entryId g \<notin> set ids) (ib_groups s)
           @ concat (map (fixture_groups entries now) (List.enumerate 0 ids))"
    by (simp_all add: s'_def)
qed

lemma entry_set_key_inj [simp]: "entry_set_key a = entry_set_key b \<longleftrightarrow> a = b"
  using json_strings_inj [of a "[]" b "[]"] by (simp add: entry_set_key_def)

section \<open>Plans and records\<close>

text \<open>A plan is kept under its id, removes pages in every selection, and every record belongs to a known plan.\<close>

definition record_of_plan :: "(string \<times> removal_plan) list \<Rightarrow> quarantine_record \<Rightarrow> bool" where
  "record_of_plan plans r \<longleftrightarrow> (\<exists>p. map_of plans (qr_planId r) = Some p \<and> qr_entryId r = rp_entryId p
     \<and> qr_recordId r = ''browser-page-quarantine-'' @ qr_planId r @ ''-'' @ show_int (qr_sourcePage r))"

definition plan_ok :: "nat \<Rightarrow> string \<times> removal_plan \<Rightarrow> bool" where
  "plan_ok n e \<longleftrightarrow> fst e = rp_planId (snd e) \<and> (\<exists>k < n. fst e = ''browser-internal-plan-'' @ show_nat k)
     \<and> rp_selections (snd e) \<noteq> [] \<and> list_all (\<lambda>sel. rs_removeSourcePages sel \<noteq> []) (rp_selections (snd e))"

definition removals_ok :: "internal_backend \<Rightarrow> bool" where
  "removals_ok s \<longleftrightarrow> list_all (plan_ok (ib_nextPlanId s)) (ib_plans s) \<and> list_all (record_of_plan (ib_plans s)) (ib_records s)"

lemma removals_ok_same:
  "removals_ok s \<Longrightarrow> ib_plans s' = ib_plans s \<Longrightarrow> ib_nextPlanId s' = ib_nextPlanId s \<Longrightarrow> ib_records s' = ib_records s \<Longrightarrow>
   removals_ok s'"
  by (simp add: removals_ok_def)

lemma begin_fields [simp]:
  "ib_plans (snd (begin_internal_scan entries ids now s)) = ib_plans s"
  "ib_nextPlanId (snd (begin_internal_scan entries ids now s)) = ib_nextPlanId s"
  "ib_records (snd (begin_internal_scan entries ids now s)) = ib_records s"
  using arm_stages_all [of "Suc (ib_generation s)" "ir_runId (new_internal_run now (ib_nextRunId s) ids)" "length ids"
      "s\<lparr>ib_generation := Suc (ib_generation s), ib_activeKey := Some (entry_set_key ids),
          ib_nextRunId := Suc (ib_nextRunId s),
          ib_progress := Some (mockArtifactProgress entries (ir_runId (new_internal_run now (ib_nextRunId s) ids))
            (length ids) (hd ids) 0 1 StageHashing),
          ib_run := Some (new_internal_run now (ib_nextRunId s) ids)\<rparr>" "List.enumerate 0 ids"]
  by (auto simp: begin_internal_scan_def Let_def)

lemma selections_accepted:
  "selections_refusal e s sels = None \<Longrightarrow> list_all (\<lambda>sel. selection_refusal e s sel = None) sels"
  by (induction sels) (auto split: option.splits)

lemma selection_accepted:
  assumes "selection_refusal e s sel = None"
  obtains g where "g \<in> set (ib_groups s)" "ig_groupId g = rs_groupId sel" "ig_entryId g = e"
    "ig_revision g = rs_expectedRevision sel" "rs_keepSourcePage sel \<in> group_pages g" "rs_removeSourcePages sel \<noteq> []"
    "set (rs_removeSourcePages sel) \<subseteq> group_pages g - {rs_keepSourcePage sel}"
proof -
  let ?P = "\<lambda>g. ig_groupId g = rs_groupId sel \<and> ig_entryId g = e"
  from assms obtain g where f: "find ?P (ib_groups s) = Some g"
    unfolding selection_refusal_def by (cases "find ?P (ib_groups s)") auto
  then have "g \<in> set (ib_groups s)" "?P g" by (auto simp: find_Some_iff)
  moreover from assms f have "ig_revision g = rs_expectedRevision sel" "rs_keepSourcePage sel \<in> group_pages g"
    "rs_removeSourcePages sel \<noteq> []" "set (rs_removeSourcePages sel) \<subseteq> group_pages g - {rs_keepSourcePage sel}"
    by (auto simp: selection_refusal_def list_ex_iff split: if_splits)
  ultimately show thesis using that by blast
qed

lemma plan_ok_mono: "plan_ok n e \<Longrightarrow> n \<le> m \<Longrightarrow> plan_ok m e"
  unfolding plan_ok_def by (meson less_le_trans)

lemma removals_ok_plan:
  assumes ok: "removals_ok s"
  shows "removals_ok (snd (internalRemovalPlan request ms s))"
proof (cases "rq_selections request = [] \<or> selections_refusal (rq_entryId request) s (rq_selections request) \<noteq> None")
  case True
  then show ?thesis using ok by (auto simp: internalRemovalPlan_def)
next
  case False
  let ?n = "ib_nextPlanId s" let ?id = "''browser-internal-plan-'' @ show_nat ?n"
  define plan where "plan = (case internalRemovalPlan request ms s of (Inr p, _) \<Rightarrow> p)"
  have s': "snd (internalRemovalPlan request ms s) = s\<lparr>ib_nextPlanId := Suc ?n, ib_plans := AList.update ?id plan (ib_plans s)\<rparr>"
    and plan: "rp_planId plan = ?id" "rp_selections plan = rq_selections request"
    using False by (auto simp: internalRemovalPlan_def Let_def plan_def)
  have old: "plan_ok ?n e" if "e \<in> set (ib_plans s)" for e using ok that by (simp add: removals_ok_def list_all_iff)
  have "rs_removeSourcePages sel \<noteq> []" if sel: "sel \<in> set (rq_selections request)" for sel
  proof -
    have "selection_refusal (rq_entryId request) s sel = None"
      using selections_accepted [of "rq_entryId request" s "rq_selections request"] False sel by (simp add: list_all_iff)
    then show ?thesis by (rule selection_accepted)
  qed
  then have "plan_ok (Suc ?n) (?id, plan)" using False by (auto simp: plan_ok_def plan list_all_iff)
  moreover have "plan_ok (Suc ?n) e" if "e \<in> set (ib_plans s)" for e by (rule plan_ok_mono [OF old [OF that]]) simp
  ultimately have "list_all (plan_ok (Suc ?n)) (AList.update ?id plan (ib_plans s))"
    using set_update_subset [of ?id plan "ib_plans s"] by (fastforce simp: list_all_iff)
  moreover have "record_of_plan (AList.update ?id plan (ib_plans s)) r" if "r \<in> set (ib_records s)" for r
  proof -
    have r: "record_of_plan (ib_plans s) r" using ok that by (simp add: removals_ok_def list_all_iff)
    then obtain p where "map_of (ib_plans s) (qr_planId r) = Some p" by (auto simp: record_of_plan_def)
    then have "plan_ok ?n (qr_planId r, p)" by (intro old map_of_in_set)
    then obtain k where "k < ?n" "qr_planId r = ''browser-internal-plan-'' @ show_nat k" by (auto simp: plan_ok_def)
    then have "qr_planId r \<noteq> ?id" using show_nat_inj [of k ?n] by auto
    then show ?thesis using r by (simp add: record_of_plan_def lookup_update)
  qed
  ultimately show ?thesis by (simp add: s' removals_ok_def list_all_iff)
qed

lemma plan_records_of:
  "r \<in> set (plan_records reason now plan s) \<Longrightarrow> qr_planId r = rp_planId plan \<and> qr_entryId r = rp_entryId plan
    \<and> qr_recordId r = ''browser-page-quarantine-'' @ qr_planId r @ ''-'' @ show_int (qr_sourcePage r) \<and> qr_state r = InQuarantine"
  by (auto simp: plan_records_def quarantine_of_def Let_def)

lemma removals_ok_apply:
  assumes ok: "removals_ok s"
  shows "removals_ok (snd (internalRemovalApply fixture entries planId reason now ms s))"
proof (cases "map_of (ib_plans s) planId")
  case (Some p)
  have "plan_ok (ib_nextPlanId s) (planId, p)" using ok map_of_in_set [OF Some] by (simp add: removals_ok_def list_all_iff)
  then have "planId = rp_planId p" by (simp add: plan_ok_def)
  then have "record_of_plan (ib_plans s) r" if "r \<in> set (plan_records reason now p s)" for r
    using plan_records_of [OF that] Some by (simp add: record_of_plan_def)
  then show ?thesis using ok by (auto simp: internalRemovalApply_def Some Let_def removals_ok_def list_all_iff)
qed (use ok in \<open>simp add: internalRemovalApply_def Let_def\<close>)

lemma restore_fields [simp]:
  "qr_planId (restore_record now ids r) = qr_planId r" "qr_entryId (restore_record now ids r) = qr_entryId r"
  "qr_recordId (restore_record now ids r) = qr_recordId r" "qr_sourcePage (restore_record now ids r) = qr_sourcePage r"
  by (simp_all add: restore_record_def)

lemma removals_ok_undo:
  "removals_ok s \<Longrightarrow> removals_ok (snd (internalRemovalUndo fixture entries ids now s))"
  by (auto simp: internalRemovalUndo_def Let_def removals_ok_def list_all_iff record_of_plan_def split: list.splits)

lemma removals_ok_step: "removals_ok s \<Longrightarrow> removals_ok (internal_step loc fixture s i)"
proof (cases i)
  case (InternalStart entries ids now)
  moreover assume "removals_ok s"
  ultimately show ?thesis
    by (auto simp: internalDuplicateScanStart_def Let_def apfst_def map_prod_def case_prod_beta
        split: option.splits elim!: removals_ok_same)
next
  case (InternalCancel now)
  moreover assume "removals_ok s"
  ultimately show ?thesis
    by (auto simp: internalDuplicateScanCancel_def Let_def split: option.splits elim!: removals_ok_same)
next
  case (InternalFires entries now)
  moreover assume "removals_ok s"
  ultimately show ?thesis by (auto simp: fire_internal_def split: list.splits elim!: removals_ok_same)
next
  case (InternalElapse d)
  moreover assume "removals_ok s"
  ultimately show ?thesis by (auto elim!: removals_ok_same)
qed (simp_all add: removals_ok_plan removals_ok_apply removals_ok_undo)

interpretation internal_removals: machine "internal_step loc fixture" removals_ok new_internal for loc fixture
  by unfold_locales (simp add: removals_ok_def new_internal_def, rule removals_ok_step)

lemma plan_okD: "plan_ok n (i, p) \<Longrightarrow> rp_planId p = i \<and> (\<exists>k. i = ''browser-internal-plan-'' @ show_nat k)"
  unfolding plan_ok_def fst_conv snd_conv by blast

text \<open>A record id names its plan.\<close>

lemma record_id_plan:
  assumes "show_nat k @ ''-'' @ show_int a = show_nat m @ ''-'' @ show_int b"
  shows "k = m"
proof -
  have "CHR ''-'' \<notin> set (show_nat n)" for n using show_nat_digits [of "CHR ''-''" n] by (auto simp: is_digit_def digit_chars_def)
  then show ?thesis using assms split_before [of "CHR ''-''" "show_nat k" "show_nat m" "show_int a" "show_int b"]
    by (auto dest: show_nat_inj)
qed

lemma plan_of_record:
  assumes ok: "removals_ok s" and r: "r \<in> set (ib_records s)" and p: "map_of (ib_plans s) planId = Some p"
    and id: "qr_recordId r = qr_recordId q" and q: "q \<in> set (plan_records reason now p s')"
  shows "qr_planId r = planId \<and> qr_entryId r = rp_entryId p"
proof -
  have plans: "plan_ok (ib_nextPlanId s) e" if "e \<in> set (ib_plans s)" for e
    using ok that by (simp add: removals_ok_def list_all_iff)
  have "record_of_plan (ib_plans s) r" using ok r by (simp add: removals_ok_def list_all_iff)
  then obtain p' where p': "map_of (ib_plans s) (qr_planId r) = Some p'" "qr_entryId r = rp_entryId p'"
    "qr_recordId r = ''browser-page-quarantine-'' @ qr_planId r @ ''-'' @ show_int (qr_sourcePage r)"
    by (auto simp: record_of_plan_def)
  obtain k where k: "qr_planId r = ''browser-internal-plan-'' @ show_nat k"
    using plan_okD [OF plans [OF map_of_in_set [OF p'(1)]]] by blast
  obtain m where m: "planId = ''browser-internal-plan-'' @ show_nat m" "rp_planId p = planId"
    using plan_okD [OF plans [OF map_of_in_set [OF p]]] by blast
  have "show_nat k @ ''-'' @ show_int (qr_sourcePage r) = show_nat m @ ''-'' @ show_int (qr_sourcePage q)"
    using id p'(3) plan_records_of [OF q] k m by simp
  then have "k = m" by (rule record_id_plan)
  then show ?thesis using k m p'(1,2) p by simp
qed

lemma plan_records_ne:
  assumes "removals_ok s" "map_of (ib_plans s) planId = Some p"
  shows "plan_records reason now p s \<noteq> []"
proof -
  have "plan_ok (ib_nextPlanId s) (planId, p)" using assms map_of_in_set [OF assms(2)] by (simp add: removals_ok_def list_all_iff)
  then obtain sel where "sel \<in> set (rp_selections p)" "rs_removeSourcePages sel \<noteq> []"
    by (cases "rp_selections p") (auto simp: plan_ok_def)
  then show ?thesis by (auto simp: plan_records_def Let_def)
qed

lemma apply_state:
  assumes "map_of (ib_plans s) planId = Some p" "ms \<le> time_value (rp_expiresAt p)"
  shows "snd (internalRemovalApply fixture entries planId reason now ms s) =
    s\<lparr>ib_groups := map (settle_group True now (set (map rs_groupId (rp_selections p)))) (ib_groups s),
       ib_records := ib_records s @ plan_records reason now p s\<rparr>"
  using assms by (simp add: internalRemovalApply_def Let_def)

lemma undo_state:
  assumes "ids \<noteq> []" and records: "filter (\<lambda>r. qr_recordId r \<in> set ids \<and> qr_state r = InQuarantine) (ib_records s) = rs"
    and "rs \<noteq> []" "\<forall>r \<in> set rs. qr_entryId r = e"
  shows "snd (internalRemovalUndo fixture entries ids now s) =
    s\<lparr>ib_groups := map (settle_group False now (undone_groups rs s)) (ib_groups s),
       ib_records := map (restore_record now (set ids)) (ib_records s)\<rparr>"
proof -
  obtain r rest where rs: "rs = r # rest" using assms(3) by (cases rs) auto
  then have "\<not> list_ex (\<lambda>x. qr_entryId x \<noteq> qr_entryId r) rs" using assms(4) by (auto simp: list_ex_iff)
  then show ?thesis using assms(1) rs by (simp add: internalRemovalUndo_def Let_def records)
qed

lemma undone_groups_plan:
  assumes "rs \<noteq> []" "\<forall>r \<in> set rs. qr_planId r = planId" "map_of (ib_plans s) planId = Some p"
  shows "undone_groups rs s = set (map rs_groupId (rp_selections p))"
  using assms by (cases rs) (auto simp: undone_groups_def)

text \<open>Carrying a plan out and undoing it.\<close>

lemma removal_then_undo:
  fixes reason now
  assumes ok: "removals_ok s" and p: "map_of (ib_plans s) planId = Some p" and time: "ms \<le> time_value (rp_expiresAt p)"
  defines "records \<equiv> plan_records reason now p s"
  defines "sel \<equiv> set (map rs_groupId (rp_selections p))"
  shows "snd (internalRemovalUndo fixture entries (map qr_recordId records) now'
           (snd (internalRemovalApply fixture entries planId reason now ms s))) =
    s\<lparr>ib_groups := map (settle_group False now' sel \<circ> settle_group True now sel) (ib_groups s),
       ib_records := map (restore_record now' (qr_recordId ` set records)) (ib_records s @ records)\<rparr>"
proof -
  let ?s = "s\<lparr>ib_groups := map (settle_group True now sel) (ib_groups s), ib_records := ib_records s @ records\<rparr>"
  let ?ids = "map qr_recordId records"
  define rs where "rs = filter (\<lambda>r. qr_recordId r \<in> set ?ids \<and> qr_state r = InQuarantine) (ib_records ?s)"
  have ne: "records \<noteq> []" using plan_records_ne [OF ok p] by (simp add: records_def)
  have planId: "rp_planId p = planId"
    using ok map_of_in_set [OF p] by (auto simp: removals_ok_def list_all_iff plan_ok_def)
  have mine: "qr_planId r = planId \<and> qr_entryId r = rp_entryId p" if r: "r \<in> set rs" for r
  proof (cases "r \<in> set records")
    case True
    then show ?thesis using plan_records_of [of r reason now p s] planId by (simp add: records_def)
  next
    case False
    with r obtain q where "r \<in> set (ib_records s)" "q \<in> set records" "qr_recordId r = qr_recordId q" by (auto simp: rs_def)
    then show ?thesis using plan_of_record [OF ok _ p, of r q reason now s] by (simp add: records_def)
  qed
  have "set records \<subseteq> set rs" using plan_records_of [of _ reason now p s] by (auto simp: rs_def records_def)
  with ne have rs: "rs \<noteq> []" by auto
  have "snd (internalRemovalApply fixture entries planId reason now ms s) = ?s"
    using apply_state [OF p time] by (simp add: records_def sel_def)
  moreover have "snd (internalRemovalUndo fixture entries ?ids now' ?s) =
      ?s\<lparr>ib_groups := map (settle_group False now' (undone_groups rs ?s)) (ib_groups ?s),
         ib_records := map (restore_record now' (set ?ids)) (ib_records ?s)\<rparr>"
    by (rule undo_state [of _ _ _ "rp_entryId p"]) (use ne rs mine in \<open>simp_all add: rs_def\<close>)
  moreover have "undone_groups rs ?s = sel"
    using undone_groups_plan [OF rs, of planId ?s p] mine p by (simp add: sel_def)
  ultimately show ?thesis by simp
qed

section \<open>Properties\<close>

text \<open>C22: A scan that runs always finishes once its timers have had their time: whatever was started, cancelled, planned
  and carried out before, the run is then completed over the downloads it was started for, the groups
  of those downloads are the newly found ones, and the groups of all other downloads are kept.\<close>

theorem internal_scan_finishes:
  fixes loc fixture "is" entries now
  defines "s \<equiv> run_internal loc fixture new_internal is"
  assumes "ib_run s = Some r" "ir_state r = ''running''"
    and "\<forall>t \<in> set (ib_timers s). fst t \<le> ib_clock s + d" "n = length (ib_timers s)"
  defines "s' \<equiv> run_internal loc fixture s (InternalElapse d # replicate n (InternalFires entries now))"
  shows "\<exists>ids. ib_activeKey s = Some (entry_set_key ids) \<and> ib_run s' = Some (finished_run now ids r)
    \<and> ib_activeKey s' = None \<and> ib_progress s' = None
    \<and> ib_groups s' = filter (\<lambda>g. ig_entryId g \<notin> set ids) (ib_groups s)
        @ concat (map (fixture_groups entries now) (List.enumerate 0 ids))"
proof -
  have ok: "scan_ok s" unfolding s_def by (rule internal_scan.inv_reachable)
  have run: "scan_running s" using assms(2,3) by (simp add: scan_running_def)
  obtain t q ids where t: "t \<in> set (ib_timers s)" "snd t = FinishTask (ib_generation s) q ids"
    using scan_okD(4) [OF ok run] by blast
  note key = scan_okD(5) [OF ok _ _ run]
  have k: "ib_activeKey s = Some (entry_set_key ids)" using key [OF t] by blast
  have one: "q' = r \<and> js = ids" if "u \<in> set (ib_timers s)" "snd u = FinishTask (ib_generation s) q' js" for u q' js
    using key [OF that] k assms(2) by simp
  let ?s = "s\<lparr>ib_clock := ib_clock s + d\<rparr>"
  have s': "s' = run_tasks entries now (?s\<lparr>ib_timers := []\<rparr>) (ib_timers s)"
    using fire_all_internal [of ?s n loc fixture entries now] assms(4,5) by (simp add: s'_def)
  let ?t = "?s\<lparr>ib_timers := []\<rparr>"
  have run': "scan_running ?t" using run by (simp add: scan_running_def)
  have pending: "\<exists>u \<in> set (ib_timers s). \<exists>q js. snd u = FinishTask (ib_generation ?t) q js"
    using t by (intro bexI [OF _ t(1)]) simp
  have only: "q' = r \<and> js = ids" if "u \<in> set (ib_timers s)" "snd u = FinishTask (ib_generation ?t) q' js" for u q' js
    using one [of u q' js] that by simp
  have g: "ib_groups ?t = ib_groups s" by simp
  note fin = tasks_finish [where entries = entries and now = now, OF run' pending only, folded s', unfolded g]
  show ?thesis by (rule exI [of _ ids]) (intro conjI k fin)
qed

text \<open>A scan of one download, its timers, and the groups it finds.\<close>

definition sample_scan :: "internal_input list" where
  "sample_scan = [InternalStart [] ['' a''] ''t'']"

definition sample_found :: "internal_input list" where
  "sample_found = sample_scan @ InternalElapse 80 # replicate 3 (InternalFires [] ''u'')"

lemma timers_arm: "ib_timers (arm d t s) = takeWhile (\<lambda>u. fst u \<le> ib_clock s + d) (ib_timers s)
    @ (ib_clock s + d, t) # dropWhile (\<lambda>u. fst u \<le> ib_clock s + d) (ib_timers s)"
  by (simp add: arm_def Let_def)

lemma sample_scan_state:
  "ib_run (run_internal lex_cmp [] new_internal sample_scan) = Some (new_internal_run ''t'' 1 [''a''])"
  "ib_clock (run_internal lex_cmp [] new_internal sample_scan) = 0"
  "map fst (ib_timers (run_internal lex_cmp [] new_internal sample_scan)) = [30, 55, 80]"
  "ib_activeKey (run_internal lex_cmp [] new_internal sample_scan) = Some (entry_set_key [''a''])"
  "ib_groups (run_internal lex_cmp [] new_internal sample_scan) = []"
proof -
  have t: "trim '' a'' = ''a''" by (simp add: trim_def trim_start_def is_space_def)
  have r: "entry_ids_refusal ['' a''] = None" "js_sort lex_cmp (set_from [''a'']) = [''a'']"
    by (simp_all add: entry_ids_refusal_def set_from_def set_add_def t js_sort_def)
  have s: "run_internal lex_cmp [] new_internal sample_scan = snd (begin_internal_scan [] [''a''] ''t'' new_internal)"
    by (simp add: sample_scan_def internalDuplicateScanStart_def r t Let_def new_internal_def)
  show "ib_run (run_internal lex_cmp [] new_internal sample_scan) = Some (new_internal_run ''t'' 1 [''a''])"
    "ib_clock (run_internal lex_cmp [] new_internal sample_scan) = 0"
    "map fst (ib_timers (run_internal lex_cmp [] new_internal sample_scan)) = [30, 55, 80]"
    "ib_activeKey (run_internal lex_cmp [] new_internal sample_scan) = Some (entry_set_key [''a''])"
    "ib_groups (run_internal lex_cmp [] new_internal sample_scan) = []"
    unfolding s begin_internal_scan_def
    by (simp_all add: Let_def arm_stages_def timers_arm enumerate_eq_zip new_internal_def)
qed

lemma internal_scan_finishes_witness:
  "ib_groups (run_internal lex_cmp [] new_internal sample_found) = fixture_groups [] ''u'' (0, ''a'')"
proof -
  let ?s = "run_internal lex_cmp [] new_internal sample_scan"
  have n: "3 = length (ib_timers ?s)" using arg_cong [OF sample_scan_state(3), of length] by simp
  have due: "\<forall>t \<in> set (ib_timers ?s). fst t \<le> ib_clock ?s + 80"
  proof
    fix t assume "t \<in> set (ib_timers ?s)"
    then have "fst t \<in> set (map fst (ib_timers ?s))" by simp
    then show "fst t \<le> ib_clock ?s + 80" unfolding sample_scan_state(2,3) by auto
  qed
  have run: "ir_state (new_internal_run ''t'' 1 [''a'']) = ''running''" by (simp add: new_internal_run_def)
  obtain ids where ids: "ib_activeKey ?s = Some (entry_set_key ids)"
    and groups: "ib_groups (run_internal lex_cmp [] ?s (InternalElapse 80 # replicate 3 (InternalFires [] ''u''))) =
      filter (\<lambda>g. ig_entryId g \<notin> set ids) (ib_groups ?s)
        @ concat (map (fixture_groups [] ''u'') (List.enumerate 0 ids))"
    using internal_scan_finishes [OF sample_scan_state(1) run due n, of "[]" "''u''"] by blast
  have "ids = [''a'']" using ids unfolding sample_scan_state(4) by simp
  moreover have "run_internal lex_cmp [] new_internal sample_found =
      run_internal lex_cmp [] ?s (InternalElapse 80 # replicate 3 (InternalFires [] ''u''))"
    unfolding sample_found_def foldl_append ..
  ultimately show ?thesis using groups by (simp only: sample_scan_state(5)) (simp add: enumerate_eq_zip)
qed

text \<open>C21: Undoing a removal brings everything back: after a plan is carried out every group it names is settled and its
  pages are in quarantine, one record for each; when those records are then undone, the groups are as before, open
  again, with two more revisions, and no record of the plan is left in quarantine.\<close>

theorem removal_undone:
  fixes loc fixture "is" entries reason now later
  defines "s \<equiv> run_internal loc fixture new_internal is"
  assumes "map_of (ib_plans s) planId = Some p" "ms \<le> time_value (rp_expiresAt p)"
  defines "chosen \<equiv> rs_groupId ` set (rp_selections p)" and "records \<equiv> plan_records reason now p s"
  defines "s1 \<equiv> internal_step loc fixture s (InternalApply entries planId reason now ms)"
  defines "s2 \<equiv> internal_step loc fixture s1 (InternalUndo entries (map qr_recordId records) later)"
  shows "(\<forall>g \<in> set (ib_groups s1). ig_groupId g \<in> chosen \<longrightarrow> ig_resolved g)
    \<and> ib_records s1 = ib_records s @ records
    \<and> map qr_sourcePage records = concat (map rs_removeSourcePages (rp_selections p))
    \<and> ib_groups s2 = map (\<lambda>g. if ig_groupId g \<in> chosen
        then g\<lparr>ig_revision := ig_revision g + 2, ig_resolved := False, ig_updatedAt := later\<rparr> else g) (ib_groups s)
    \<and> (\<forall>r \<in> set (ib_records s2). qr_recordId r \<in> qr_recordId ` set records \<longrightarrow> qr_state r = Restored)"
proof -
  have ok: "removals_ok s" unfolding s_def by (rule internal_removals.inv_reachable)
  have c: "set (map rs_groupId (rp_selections p)) = chosen" by (simp add: chosen_def)
  have s1: "s1 = s\<lparr>ib_groups := map (settle_group True now chosen) (ib_groups s), ib_records := ib_records s @ records\<rparr>"
    using apply_state [OF assms(2,3)] by (simp add: s1_def records_def c [symmetric])
  have s2: "s2 = s\<lparr>ib_groups := map (settle_group False later chosen \<circ> settle_group True now chosen) (ib_groups s),
       ib_records := map (restore_record later (qr_recordId ` set records)) (ib_records s @ records)\<rparr>"
    using removal_then_undo [OF ok assms(2,3), of fixture entries reason now later]
    by (simp add: s2_def s1_def records_def c [symmetric])
  have twice: "settle_group False later chosen (settle_group True now chosen g) = (if ig_groupId g \<in> chosen
    then g\<lparr>ig_revision := ig_revision g + 2, ig_resolved := False, ig_updatedAt := later\<rparr> else g)" for g
    by (simp add: settle_group_def)
  have pages: "map qr_sourcePage records = concat (map rs_removeSourcePages (rp_selections p))"
    by (simp add: records_def plan_records_def map_concat comp_def Let_def quarantine_of_def)
  show ?thesis using pages by (auto simp: s1 s2 twice settle_group_def restore_record_def)
qed

lemma fire_fields [simp]:
  "ib_plans (fire_internal entries now s) = ib_plans s" "ib_nextPlanId (fire_internal entries now s) = ib_nextPlanId s"
  "ib_records (fire_internal entries now s) = ib_records s"
  by (simp_all add: fire_internal_def split: list.splits)

definition sample_removal :: removal_request where
  "sample_removal = \<lparr>rq_entryId = ''a'', rq_selections =
     [\<lparr>rs_groupId = ''a-exact-1'', rs_expectedRevision = 0, rs_keepSourcePage = 2, rs_removeSourcePages = [8]\<rparr>]\<rparr>"

definition sample_plan :: removal_plan where
  "sample_plan = \<lparr>rp_entryId = ''a'', rp_selections = rq_selections sample_removal, rp_planId = ''browser-internal-plan-1'',
     rp_filesToQuarantine = 1, rp_bytesToQuarantine = 512000, rp_expiresAt = show_int 900000\<rparr>"

lemma sample_found_state:
  "ib_groups (run_internal lex_cmp [] new_internal sample_found) = fixture_groups [] ''u'' (0, ''a'')"
  "ib_plans (run_internal lex_cmp [] new_internal sample_found) = []"
  "ib_nextPlanId (run_internal lex_cmp [] new_internal sample_found) = 1"
proof -
  let ?s = "run_internal lex_cmp [] new_internal sample_scan"
  let ?s' = "?s\<lparr>ib_clock := ib_clock ?s + 80\<rparr>"
  have ok: "scan_ok ?s" by (rule internal_scan.inv_reachable)
  have run: "scan_running ?s" by (simp add: scan_running_def sample_scan_state(1) new_internal_run_def)
  have n: "3 = length (ib_timers ?s')" using arg_cong [OF sample_scan_state(3), of length] by simp
  have "fst t \<le> ib_clock ?s'" if "t \<in> set (ib_timers ?s')" for t
  proof -
    have "fst t \<in> set (map fst (ib_timers ?s))" using that by simp
    then show ?thesis unfolding sample_scan_state(3) by auto
  qed
  then have e: "run_internal lex_cmp [] ?s' (replicate 3 (InternalFires [] ''u'')) =
      run_tasks [] ''u'' (?s'\<lparr>ib_timers := []\<rparr>) (ib_timers ?s')"
    by (intro fire_all_internal) (use n in auto)
  have f: "run_internal lex_cmp [] new_internal sample_found = run_tasks [] ''u'' (?s'\<lparr>ib_timers := []\<rparr>) (ib_timers ?s)"
    using e by (simp add: sample_found_def)
  have ids: "q = new_internal_run ''t'' 1 [''a''] \<and> js = [''a'']"
    if "t \<in> set (ib_timers ?s)" "snd t = FinishTask (ib_generation ?s) q js" for t q js
    using scan_okD(5) [OF ok that run] unfolding sample_scan_state(1,4) by auto
  have t: "scan_running (?s'\<lparr>ib_timers := []\<rparr>)" using run by (simp add: scan_running_def)
  have pending: "\<exists>t \<in> set (ib_timers ?s). \<exists>q js. snd t = FinishTask (ib_generation (?s'\<lparr>ib_timers := []\<rparr>)) q js"
    using scan_okD(4) [OF ok run] by simp
  have "ib_groups (run_tasks [] ''u'' (?s'\<lparr>ib_timers := []\<rparr>) (ib_timers ?s)) =
      filter (\<lambda>g. ig_entryId g \<notin> set [''a'']) (ib_groups (?s'\<lparr>ib_timers := []\<rparr>))
        @ concat (map (fixture_groups [] ''u'') (List.enumerate 0 [''a'']))"
    by (rule tasks_finish(4) [OF t pending, of "new_internal_run ''t'' 1 [''a'']"], rule ids, simp_all)
  then show "ib_groups (run_internal lex_cmp [] new_internal sample_found) = fixture_groups [] ''u'' (0, ''a'')"
    by (simp add: f sample_scan_state(5) enumerate_eq_zip)
  have same: "ib_plans (run_tasks [] ''u'' x ts) = ib_plans x" "ib_nextPlanId (run_tasks [] ''u'' x ts) = ib_nextPlanId x" for x ts
    by (induction ts arbitrary: x) simp_all
  have "ib_plans ?s = []" "ib_nextPlanId ?s = 1"
    by (simp_all add: sample_scan_def internalDuplicateScanStart_def Let_def new_internal_def split: option.splits)
  then show "ib_plans (run_internal lex_cmp [] new_internal sample_found) = []"
    "ib_nextPlanId (run_internal lex_cmp [] new_internal sample_found) = 1"
    by (simp_all add: f same)
qed

lemma sample_plan_known:
  "map_of (ib_plans (run_internal lex_cmp [] new_internal (sample_found @ [InternalPlan sample_removal 0]))) ''browser-internal-plan-1''
     = Some sample_plan"
proof -
  let ?s = "run_internal lex_cmp [] new_internal sample_found"
  have one: "show_nat (Suc 0) = ''1''" by (simp add: show_nat.simps [of "Suc 0"] digit_char_def digit_chars_def)
  have "selections_refusal ''a'' ?s (rq_selections sample_removal) = None"
    by (simp add: sample_removal_def selection_refusal_def sample_found_state(1) fixture_groups_def fixture_group_def
        fixture_evidence_def group_pages_def Let_def)
  then have "fst (internalRemovalPlan sample_removal 0 ?s) = Inr sample_plan"
    "ib_plans (snd (internalRemovalPlan sample_removal 0 ?s)) = [(''browser-internal-plan-1'', sample_plan)]"
    by (simp_all add: internalRemovalPlan_def sample_removal_def sample_plan_def Let_def sample_found_state(2,3)
        set_from_def set_add_def one)
  then show ?thesis by simp
qed

lemma removal_undone_witness:
  "map (\<lambda>g. (ig_revision g, ig_resolved g)) (ib_groups (run_internal lex_cmp [] new_internal (sample_found @
     [InternalPlan sample_removal 0, InternalApply [] ''browser-internal-plan-1'' [] ''v'' 7,
      InternalUndo [] (map qr_recordId (plan_records [] ''v'' sample_plan
        (run_internal lex_cmp [] new_internal (sample_found @ [InternalPlan sample_removal 0])))) ''w''])))
   = [(2, False), (0, False), (0, False)]"
proof -
  let ?s = "run_internal lex_cmp [] new_internal (sample_found @ [InternalPlan sample_removal 0])"
  have "ib_groups ?s = ib_groups (run_internal lex_cmp [] new_internal sample_found)"
    by (simp add: internalRemovalPlan_def Let_def split: option.splits)
  then have g: "ib_groups ?s = fixture_groups [] ''u'' (0, ''a'')" by (simp add: sample_found_state(1))
  have time: "7 \<le> time_value (rp_expiresAt sample_plan)" by (simp add: sample_plan_def)
  note u = removal_undone [OF sample_plan_known time, of "[]" "[]" "''v''" "''w''"]
  have "ib_groups (internal_step lex_cmp [] (internal_step lex_cmp [] ?s (InternalApply [] ''browser-internal-plan-1'' [] ''v'' 7))
      (InternalUndo [] (map qr_recordId (plan_records [] ''v'' sample_plan ?s)) ''w'')) =
    map (\<lambda>g. if ig_groupId g \<in> rs_groupId ` set (rp_selections sample_plan)
      then g\<lparr>ig_revision := ig_revision g + 2, ig_resolved := False, ig_updatedAt := ''w''\<rparr> else g) (ib_groups ?s)"
    using u by (elim conjE) assumption
  note e = this
  have r: "run_internal lex_cmp [] new_internal (sample_found @
     [InternalPlan sample_removal 0, InternalApply [] ''browser-internal-plan-1'' [] ''v'' 7, InternalUndo [] x ''w'']) =
     internal_step lex_cmp [] (internal_step lex_cmp [] ?s (InternalApply [] ''browser-internal-plan-1'' [] ''v'' 7))
       (InternalUndo [] x ''w'')" for x
    by (simp only: foldl_append foldl_Cons foldl_Nil)
  show ?thesis unfolding r e unfolding g
    by (simp add: fixture_groups_def fixture_group_def Let_def sample_plan_def sample_removal_def)
qed

section \<open>What a plan does not check\<close>

text \<open>A plan can be carried out again, which leaves two records of one id.\<close>

lemma plan_applies_twice:
  fixes fixture entries reason now
  assumes "removals_ok s" "map_of (ib_plans s) planId = Some p" "ms \<le> time_value (rp_expiresAt p)"
  defines "s1 \<equiv> snd (internalRemovalApply fixture entries planId reason now ms s)"
  shows "\<not> distinct (map qr_recordId (ib_records (snd (internalRemovalApply fixture entries planId reason now ms s1))))"
proof -
  have s1: "ib_records s1 = ib_records s @ plan_records reason now p s" "ib_plans s1 = ib_plans s"
    using apply_state [OF assms(2,3)] by (simp_all add: s1_def)
  have "map qr_recordId (plan_records reason now p s1) = map qr_recordId (plan_records reason now p s)"
    by (simp add: plan_records_def map_concat comp_def Let_def quarantine_of_def)
  moreover have "plan_records reason now p s \<noteq> []" using plan_records_ne [OF assms(1,2)] .
  ultimately have "set (map qr_recordId (ib_records s1)) \<inter> set (map qr_recordId (plan_records reason now p s1)) \<noteq> {}"
    by (cases "plan_records reason now p s") (auto simp: s1(1))
  moreover have "map_of (ib_plans s1) planId = Some p" using assms(2) s1(2) by simp
  ultimately show ?thesis using apply_state [OF _ assms(3), of s1 planId] by auto
qed

text \<open>Two selections of one group may between them remove all its pages.\<close>

lemma selections_remove_all:
  "selections_refusal ''a'' (new_internal\<lparr>ib_groups := fixture_groups [] ''u'' (0, ''a'')\<rparr>)
     [\<lparr>rs_groupId = ''a-exact-1'', rs_expectedRevision = 0, rs_keepSourcePage = 2, rs_removeSourcePages = [8]\<rparr>,
      \<lparr>rs_groupId = ''a-exact-1'', rs_expectedRevision = 0, rs_keepSourcePage = 8, rs_removeSourcePages = [2]\<rparr>] = None"
  by (simp add: selection_refusal_def fixture_groups_def fixture_group_def fixture_evidence_def group_pages_def Let_def)

end
