(* ===== verification/BrowserSettings.thy ===== *)
theory BrowserSettings
  imports BrowserReviews PreferenceQueue GalleryLayout
begin

text \<open>
  The settings of \<^verbatim>\<open>BrowserMockBackend\<close> (\<^verbatim>\<open>src/src/api/backend.ts\<close>): reading them from the local storage, which
  repairs what it finds there, updating them against the revision the caller has seen, with the check of every
  field, and writing them back. A settings object is a list of fields and values, since what comes from the
  storage or from a caller is only checked here; \<open>None\<close> as the result of a call is an exception.

  The storage holds a text; the model holds what \<^verbatim>\<open>JSON.parse\<close> makes of it (\<open>None\<close> where that throws), and
  \<open>json_copy\<close> is what \<^verbatim>\<open>JSON.stringify\<close> and \<^verbatim>\<open>JSON.parse\<close> together do to a value. \<open>units\<close> cuts a text into its UTF-16
  units, \<open>loc\<close> is \<^verbatim>\<open>localeCompare\<close>.
\<close>

section \<open>Texts\<close>

definition settings_word :: string where
  "settings_word = [CHR 0xEC, CHR 0x84, CHR 0xA4, CHR 0xEC, CHR 0xA0, CHR 0x95]"

definition not_empty_reason :: string where
  "not_empty_reason = [CHR 0xEB, CHR 0xB9, CHR 0x84, CHR 0xEC, CHR 0x96,
     CHR 0xB4] @ '' '' @ [CHR 0xEC, CHR 0x9E, CHR 0x88, CHR 0xEC, CHR 0x9D,
     CHR 0x84] @ '' '' @ [CHR 0xEC, CHR 0x88, CHR 0x98] @ '' '' @ [CHR 0xEC, CHR 0x97,
     CHR 0x86, CHR 0xEC, CHR 0x8A, CHR 0xB5, CHR 0xEB, CHR 0x8B, CHR 0x88, CHR 0xEB, CHR 0x8B,
     CHR 0xA4] @ ''.''"

definition template_bytes_reason :: string where
  "template_bytes_reason = ''UTF-8 '' @ [CHR 0xEA, CHR 0xB8, CHR 0xB0, CHR 0xEC, CHR 0xA4,
     CHR 0x80] @ '' 512'' @ [CHR 0xEB, CHR 0xB0, CHR 0x94, CHR 0xEC, CHR 0x9D, CHR 0xB4,
     CHR 0xED, CHR 0x8A, CHR 0xB8] @ '' '' @ [CHR 0xEC, CHR 0x9D, CHR 0xB4, CHR 0xED, CHR 0x95,
     CHR 0x98, CHR 0xEC, CHR 0x97, CHR 0xAC, CHR 0xEC, CHR 0x95, CHR 0xBC] @ '' '' @ [CHR 0xED,
     CHR 0x95, CHR 0xA9, CHR 0xEB, CHR 0x8B, CHR 0x88, CHR 0xEB, CHR 0x8B, CHR 0xA4] @ ''.''"

definition template_control_reason :: string where
  "template_control_reason = [CHR 0xEC, CHR 0xA0, CHR 0x9C, CHR 0xEC, CHR 0x96,
     CHR 0xB4] @ '' '' @ [CHR 0xEB, CHR 0xAC, CHR 0xB8, CHR 0xEC, CHR 0x9E, CHR 0x90, CHR 0xEB,
     CHR 0xA5, CHR 0xBC] @ '' '' @ [CHR 0xED, CHR 0x8F, CHR 0xAC, CHR 0xED, CHR 0x95, CHR 0xA8,
     CHR 0xED, CHR 0x95, CHR 0xA0] @ '' '' @ [CHR 0xEC, CHR 0x88,
     CHR 0x98] @ '' '' @ [CHR 0xEC, CHR 0x97, CHR 0x86, CHR 0xEC, CHR 0x8A, CHR 0xB5, CHR 0xEB,
     CHR 0x8B, CHR 0x88, CHR 0xEB, CHR 0x8B, CHR 0xA4] @ ''.''"

definition template_braces_reason :: string where
  "template_braces_reason = [CHR 0xEC, CHR 0xA4, CHR 0x91, CHR 0xEA, CHR 0xB4, CHR 0x84,
     CHR 0xED, CHR 0x98, CHR 0xB8, CHR 0xEA, CHR 0xB0, CHR 0x80] @ '' '' @ [CHR 0xEC, CHR 0x98,
     CHR 0xAC, CHR 0xEB, CHR 0xB0, CHR 0x94, CHR 0xEB, CHR 0xA5, CHR 0xB4, CHR 0xEA, CHR 0xB2,
     CHR 0x8C] @ '' '' @ [CHR 0xEB, CHR 0x8B, CHR 0xAB, CHR 0xED, CHR 0x98, CHR 0x80, CHR 0xEC,
     CHR 0x95, CHR 0xBC] @ '' '' @ [CHR 0xED, CHR 0x95, CHR 0xA9, CHR 0xEB, CHR 0x8B, CHR 0x88,
     CHR 0xEB, CHR 0x8B, CHR 0xA4] @ ''.''"

definition template_tokens_reason :: string where
  "template_tokens_reason = ''artist/title/group/id '' @ [CHR 0xED, CHR 0x86, CHR 0xA0,
     CHR 0xED, CHR 0x81, CHR 0xB0, CHR 0xEB, CHR 0xA7, CHR 0x8C] @ '' '' @ [CHR 0xEC, CHR 0x82,
     CHR 0xAC, CHR 0xEC, CHR 0x9A, CHR 0xA9, CHR 0xED, CHR 0x95, CHR 0xA0] @ '' '' @ [CHR 0xEC,
     CHR 0x88, CHR 0x98] @ '' '' @ [CHR 0xEC, CHR 0x9E, CHR 0x88, CHR 0xEC, CHR 0x8A, CHR 0xB5,
     CHR 0xEB, CHR 0x8B, CHR 0x88, CHR 0xEB, CHR 0x8B, CHR 0xA4] @ ''.''"

definition template_id_reason :: string where
  "template_id_reason = ''{id} '' @ [CHR 0xED, CHR 0x86, CHR 0xA0, CHR 0xED, CHR 0x81,
     CHR 0xB0, CHR 0xEC, CHR 0x9D, CHR 0xB4] @ '' '' @ [CHR 0xED, CHR 0x95, CHR 0x84, CHR 0xEC,
     CHR 0x9A, CHR 0x94, CHR 0xED, CHR 0x95, CHR 0xA9, CHR 0xEB, CHR 0x8B, CHR 0x88, CHR 0xEB,
     CHR 0x8B, CHR 0xA4] @ ''.''"

definition range_from :: string where
  "range_from = '' '' @ [CHR 0xEC, CHR 0x9D, CHR 0xB4, CHR 0xEC, CHR 0x83, CHR 0x81] @ '' ''"

definition range_to :: string where
  "range_to = '' '' @ [CHR 0xEC, CHR 0x9D, CHR 0xB4, CHR 0xED, CHR 0x95, CHR 0x98, CHR 0xEC,
     CHR 0x9D, CHR 0x98] @ '' '' @ [CHR 0xEC, CHR 0xA0, CHR 0x95, CHR 0xEC, CHR 0x88, CHR 0x98,
     CHR 0xEC, CHR 0x97, CHR 0xAC, CHR 0xEC, CHR 0x95, CHR 0xBC] @ '' '' @ [CHR 0xED, CHR 0x95,
     CHR 0xA9, CHR 0xEB, CHR 0x8B, CHR 0x88, CHR 0xEB, CHR 0x8B, CHR 0xA4] @ ''.''"

section \<open>Objects\<close>

definition field :: "string \<Rightarrow> (string \<times> js_value) list \<Rightarrow> js_value" where
  "field f s = or_value (map_of s f) JUndef"

definition nullish :: "js_value \<Rightarrow> bool" where
  "nullish v \<longleftrightarrow> v = JUndef \<or> v = JNull"

fun num_of :: "js_value \<Rightarrow> js_num" where
  "num_of (JNum n) = n"
| "num_of v = NaN"

fun texts_of :: "js_value list \<Rightarrow> string list option" where
  "texts_of [] = Some []"
| "texts_of (JStr t # vs) = map_option ((#) t) (texts_of vs)"
| "texts_of (v # vs) = None"

text \<open>What is left of a value after it was written as JSON and read again.\<close>

fun json_copy :: "js_value \<Rightarrow> js_value" where
  "json_copy (JNum n) = (if is_finite n then JNum n else JNull)"
| "json_copy JUndef = JNull"
| "json_copy (JArr vs) = JArr (map json_copy vs)"
| "json_copy (JObj kvs) = JObj (map (\<lambda>kv. (fst kv, json_copy (snd kv))) (filter (\<lambda>kv. snd kv \<noteq> JUndef) kvs))"
| "json_copy v = v"

text \<open>\<^verbatim>\<open>{...v}\<close>.\<close>

fun spread :: "(string \<Rightarrow> string list) \<Rightarrow> js_value \<Rightarrow> (string \<times> js_value) list" where
  "spread units (JObj kvs) = kvs"
| "spread units (JArr vs) = map (\<lambda>iv. (show_nat (fst iv), snd iv)) (List.enumerate 0 vs)"
| "spread units (JStr t) = map (\<lambda>iv. (show_nat (fst iv), JStr (snd iv))) (List.enumerate 0 (units t))"
| "spread units v = []"

section \<open>Defaults and repairs\<close>

definition defaultSettings :: "(string \<times> js_value) list" where
  "defaultSettings =
     [(''highPerformanceProcessing'', JBool False), (''chzzkSsdStaging'', JBool False), (''revision'', JNum (Num 0)),
      (''downloadRoot'', JStr []), (''folderNameTemplate'', JStr ''[{artist}] {title} [{group}] {id}''),
      (''autoFindHistoryMode'', JStr ''newer_than_latest_owned''), (''downloadOverlapAutoMode'', JStr ''off''),
      (''explorePageSize'', JNum (Num 50)), (''danbooruPageSize'', JNum (Num 60)), (''maxColumns'', JNum (Num 3)),
      (''previewWidth'', JNum (Num 220)), (''danbooruPreviewWidth'', JNum (Num 190)),
      (''relatedPreviewWidth'', JNum (Num 240)), (''privacyMode'', JBool False), (''privacyOnStartup'', JBool True),
      (''cacheLimitGb'', JNum (Num 10)), (''concurrentImageRequests'', JNum (Num 5)),
      (''downloadAdaptiveConcurrency'', JBool True), (''downloadAdaptiveMaxRequests'', JNum (Num 8)),
      (''requestStartIntervalMs'', JNum (Num 25)), (''autoFindGrouping'', JStr ''all''),
      (''downloadsGrouping'', JStr ''all''), (''exploreDisplayMode'', JStr ''detail''),
      (''autoFindDisplayMode'', JStr ''detail''), (''downloadsDisplayMode'', JStr ''detail''),
      (''collapsedGroupKeys'', JArr []), (''searchIncludeTags'', JArr []), (''searchExcludeTags'', JArr [])]"

definition normalizeGlobalSearchTags :: "(string \<Rightarrow> string \<Rightarrow> int) \<Rightarrow> js_value \<Rightarrow> string list option" where
  "normalizeGlobalSearchTags loc v =
     (case v of
        JArr vs \<Rightarrow>
          if length vs > 100 then None
          else (case texts_of vs of
                  None \<Rightarrow> None
                | Some ts \<Rightarrow>
                    let tags = map (\<lambda>t. lower (trim t)) ts
                    in if list_ex (\<lambda>t. t = [] \<or> length t > 200) tags then None else Some (js_sort loc (set_from tags)))
      | _ \<Rightarrow> None)"

definition isGalleryGrouping :: "js_value \<Rightarrow> bool" where
  "isGalleryGrouping v \<longleftrightarrow> v = JStr ''all'' \<or> v = JStr ''day'' \<or> v = JStr ''artist''"

definition isGalleryDisplayMode :: "js_value \<Rightarrow> bool" where
  "isGalleryDisplayMode v \<longleftrightarrow> v = JStr ''detail'' \<or> v = JStr ''compact''"

text \<open>\<^verbatim>\<open>rest.split("\\")\<close> begins with a server and a share.\<close>

definition backslash_char :: char where "backslash_char = CHR 0x5C"

definition first_two_filled :: "string \<Rightarrow> bool" where
  "first_two_filled rest \<longleftrightarrow> takeWhile (\<lambda>c. c \<noteq> backslash_char) rest \<noteq> []
     \<and> (case dropWhile (\<lambda>c. c \<noteq> backslash_char) rest of
          [] \<Rightarrow> False | _ # t \<Rightarrow> takeWhile (\<lambda>c. c \<noteq> backslash_char) t \<noteq> [])"

definition verbatim_prefix :: string where
  "verbatim_prefix = [backslash_char, backslash_char, CHR ''?'', backslash_char]"

definition unc_prefix :: string where
  "unc_prefix = verbatim_prefix @ ''UNC'' @ [backslash_char]"

definition drive_path :: "string \<Rightarrow> bool" where
  "drive_path s \<longleftrightarrow> (case s of c # d # e # _ \<Rightarrow> c \<in> set upper_letters \<union> set lower_letters \<and> d = CHR '':'' \<and> e = backslash_char
     | _ \<Rightarrow> False)"

definition windowsPathForDisplay :: "string \<Rightarrow> string" where
  "windowsPathForDisplay v =
     (if starts_with unc_prefix v
      then let rest = drop (length unc_prefix) v
           in if first_two_filled rest then [backslash_char, backslash_char] @ rest else v
      else if \<not> starts_with verbatim_prefix v then v
      else let rest = drop (length verbatim_prefix) v in if drive_path rest then rest else v)"

definition integer_between :: "int \<Rightarrow> int \<Rightarrow> js_value \<Rightarrow> bool" where
  "integer_between a b v \<longleftrightarrow> is_integer (num_of v) \<and> js_le (Num (of_int a)) (num_of v) \<and> js_le (num_of v) (Num (of_int b))"

definition preset_width :: "js_value \<Rightarrow> bool" where
  "preset_width v \<longleftrightarrow> list_ex (\<lambda>p. v = JNum (Num (of_int (pr_width p)))) GALLERY_PREVIEW_PRESETS"

definition related_width :: "js_value \<Rightarrow> bool" where
  "related_width v \<longleftrightarrow> list_ex (\<lambda>w. v = JNum (Num (of_int w))) [180, 200, 220, 240, 260, 280, 300, 320 :: int]"

definition text_array :: "string list \<Rightarrow> js_value" where
  "text_array ts = JArr (map JStr ts)"

text \<open>The strings of an array that are not blank.\<close>

definition filled_texts :: "js_value list \<Rightarrow> string list" where
  "filled_texts vs = List.map_filter (\<lambda>v. case v of JStr t \<Rightarrow> if trim t \<noteq> [] then Some t else None | _ \<Rightarrow> None) vs"

definition or_default :: "(js_value \<Rightarrow> bool) \<Rightarrow> js_value \<Rightarrow> js_value \<Rightarrow> js_value" where
  "or_default P v d = (if P v then v else d)"

text \<open>The repair of each field, in the order of the object that is built; the root of the downloads is apart.\<close>

definition default :: "string \<Rightarrow> js_value" where
  "default f = field f defaultSettings"

definition repairs :: "(string \<Rightarrow> string \<Rightarrow> int) \<Rightarrow> (string \<times> (js_value \<Rightarrow> js_value)) list" where
  "repairs loc =
     [(''previewWidth'', \<lambda>v. JNum (Num (of_int (normalizeGalleryPreviewWidth
         (num_of (if nullish v then default ''previewWidth'' else v)))))),
      (''relatedPreviewWidth'', \<lambda>v. or_default related_width (if nullish v then default ''relatedPreviewWidth'' else v)
         (default ''relatedPreviewWidth'')),
      (''explorePageSize'', \<lambda>v. or_default (integer_between 10 200) v (default ''explorePageSize'')),
      (''danbooruPageSize'', \<lambda>v. or_default (integer_between 10 100) v (default ''danbooruPageSize'')),
      (''danbooruPreviewWidth'', \<lambda>v. or_default preset_width v (default ''danbooruPreviewWidth'')),
      (''privacyMode'', \<lambda>v. JBool (v = JBool True)),
      (''privacyOnStartup'', \<lambda>v. JBool (v \<noteq> JBool False)),
      (''downloadAdaptiveConcurrency'', \<lambda>v. or_default (\<lambda>v. v = JBool True \<or> v = JBool False) v
         (default ''downloadAdaptiveConcurrency'')),
      (''chzzkSsdStaging'', \<lambda>v. JBool (v = JBool True)),
      (''highPerformanceProcessing'', \<lambda>v. JBool (v = JBool True)),
      (''downloadAdaptiveMaxRequests'', \<lambda>v. or_default (integer_between 1 8) v (default ''downloadAdaptiveMaxRequests'')),
      (''autoFindGrouping'', \<lambda>v. or_default isGalleryGrouping v (JStr ''all'')),
      (''downloadsGrouping'', \<lambda>v. or_default isGalleryGrouping v (JStr ''all'')),
      (''exploreDisplayMode'', \<lambda>v. or_default isGalleryDisplayMode v (JStr ''detail'')),
      (''autoFindDisplayMode'', \<lambda>v. or_default isGalleryDisplayMode v (JStr ''detail'')),
      (''downloadsDisplayMode'', \<lambda>v. or_default isGalleryDisplayMode v (JStr ''detail'')),
      (''collapsedGroupKeys'', \<lambda>v. text_array (case v of JArr vs \<Rightarrow> js_sort loc (set_from (filled_texts vs)) | _ \<Rightarrow> [])),
      (''searchIncludeTags'', \<lambda>v. text_array (or_value (normalizeGlobalSearchTags loc v) [])),
      (''searchExcludeTags'', \<lambda>v. text_array (or_value (normalizeGlobalSearchTags loc v) [])),
      (''autoFindHistoryMode'', \<lambda>v. or_default (\<lambda>v. v = JStr ''include_all_history'') v (JStr ''newer_than_latest_owned'')),
      (''downloadOverlapAutoMode'', \<lambda>v. or_default (\<lambda>v. v = JStr ''recommend'' \<or> v = JStr ''strict_quarantine'') v
         (JStr ''off''))]"

definition repaired_fields :: "(string \<Rightarrow> string \<Rightarrow> int) \<Rightarrow> string \<Rightarrow> (string \<times> js_value) list \<Rightarrow> (string \<times> js_value) list" where
  "repaired_fields loc path p = (''downloadRoot'', JStr path) # map (\<lambda>fr. (fst fr, snd fr (field (fst fr) p))) (repairs loc)"

text \<open>Reading a member of \<^verbatim>\<open>null\<close> or a method of something that is not a string throws.\<close>

definition repaired :: "(string \<Rightarrow> string list) \<Rightarrow> (string \<Rightarrow> string \<Rightarrow> int) \<Rightarrow> js_value \<Rightarrow> (string \<times> js_value) list option" where
  "repaired units loc parsed =
     (if parsed = JNull then None
      else let p = spread units parsed; path = field ''downloadRoot'' p
           in case (if nullish path then default ''downloadRoot'' else path) of
                JStr t \<Rightarrow> Some (merge_patch (merge_patch defaultSettings p) (repaired_fields loc (windowsPathForDisplay t) p))
              | _ \<Rightarrow> None)"

definition readPersistedBrowserSettings :: "(string \<Rightarrow> string list) \<Rightarrow> (string \<Rightarrow> string \<Rightarrow> int) \<Rightarrow> js_value option option \<Rightarrow>
    (string \<times> js_value) list" where
  "readPersistedBrowserSettings units loc stored =
     (case stored of
        Some (Some parsed) \<Rightarrow> or_value (repaired units loc parsed) defaultSettings
      | _ \<Rightarrow> defaultSettings)"

section \<open>Checks\<close>

definition integer_error :: "string \<Rightarrow> int \<Rightarrow> int \<Rightarrow> js_value \<Rightarrow> api_error option" where
  "integer_error f a b v =
     (if integer_between a b v then None
      else Some (validationError f (show_int a @ range_from @ show_int b @ range_to)))"

text \<open>The control characters: below 0x20, 0x7F, and 0x80 to 0x9F, which UTF-8 writes in two bytes.\<close>

fun has_control :: "string \<Rightarrow> bool" where
  "has_control [] = False"
| "has_control (c # s) =
     ((of_char c :: nat) < 0x20 \<or> c = CHR 0x7F
      \<or> (c = CHR 0xC2 \<and> (case s of d # _ \<Rightarrow> 0x80 \<le> (of_char d :: nat) \<and> (of_char d :: nat) \<le> 0x9F | [] \<Rightarrow> False)) \<or> has_control s)"

definition template_tokens :: "string list" where
  "template_tokens = [''artist'', ''title'', ''group'', ''id'']"

text \<open>The loop over the template; the flag is \<^verbatim>\<open>hasId\<close>.\<close>

function template_loop :: "bool \<Rightarrow> string \<Rightarrow> string option" where
  "template_loop hasId [] = (if hasId then None else Some template_id_reason)"
| "template_loop hasId (c # s) =
     (if c = CHR ''}'' then Some template_braces_reason
      else if c \<noteq> CHR ''{'' then template_loop hasId s
      else let token = takeWhile (\<lambda>d. d \<noteq> CHR ''}'') s
           in if CHR ''}'' \<notin> set s \<or> CHR ''{'' \<in> set token then Some template_braces_reason
              else if token \<notin> set template_tokens then Some template_tokens_reason
              else template_loop (hasId \<or> token = ''id'') (drop (Suc (length token)) s))"
  by pat_completeness auto

termination
  by (relation "measure (\<lambda>(h, s). length s)") auto

definition validateFolderNameTemplate :: "string \<Rightarrow> api_error option" where
  "validateFolderNameTemplate t =
     (let bad = validationError ''folderNameTemplate''
      in if trim t = [] then Some (bad not_empty_reason)
         else if length t > 512 then Some (bad template_bytes_reason)
         else if has_control t then Some (bad template_control_reason)
         else map_option bad (template_loop False t))"

definition check :: "string \<Rightarrow> string \<Rightarrow> bool \<Rightarrow> api_error option" where
  "check f reason holds = (if holds then None else Some (validationError f reason))"

definition boolean :: "js_value \<Rightarrow> bool" where
  "boolean v \<longleftrightarrow> v = JBool True \<or> v = JBool False"

definition group_keys_ok :: "js_value \<Rightarrow> bool" where
  "group_keys_ok v \<longleftrightarrow> (case v of
     JArr vs \<Rightarrow> length vs \<le> 2048
       \<and> list_all (\<lambda>k. case k of JStr t \<Rightarrow> trim t \<noteq> [] \<and> utf16_length t \<le> 256 | _ \<Rightarrow> False) vs
   | _ \<Rightarrow> False)"

definition disjoint_tags :: "string list option \<Rightarrow> string list option \<Rightarrow> bool" where
  "disjoint_tags inc exc \<longleftrightarrow> (case (inc, exc) of (Some i, Some e) \<Rightarrow> \<not> list_ex (\<lambda>t. t \<in> set e) i | _ \<Rightarrow> True)"

definition settings_checks :: "(string \<Rightarrow> string \<Rightarrow> int) \<Rightarrow> string \<Rightarrow> (string \<times> js_value) list \<Rightarrow> api_error option list" where
  "settings_checks loc template s =
     (let get = (\<lambda>f. field f s);
          inc = normalizeGlobalSearchTags loc (get ''searchIncludeTags'');
          exc = normalizeGlobalSearchTags loc (get ''searchExcludeTags'');
          tags = ''must contain at most 100 non-empty tags of at most 200 bytes'';
          preset = ''must be one of the supported preview presets'';
          grouping = ''must be all, day or artist''; display = ''must be detail or compact''
      in [validateFolderNameTemplate template,
          check ''highPerformanceProcessing'' ''must be a boolean'' (boolean (get ''highPerformanceProcessing'')),
          check ''autoFindHistoryMode'' ''must be a supported history mode''
            (get ''autoFindHistoryMode'' \<in> {JStr ''include_all_history'', JStr ''newer_than_latest_owned''}),
          check ''downloadOverlapAutoMode'' ''must be off, recommend or strict_quarantine''
            (get ''downloadOverlapAutoMode'' \<in> {JStr ''off'', JStr ''recommend'', JStr ''strict_quarantine''}),
          integer_error ''explorePageSize'' 10 200 (get ''explorePageSize''),
          integer_error ''danbooruPageSize'' 10 100 (get ''danbooruPageSize''),
          integer_error ''maxColumns'' 1 4 (get ''maxColumns''),
          check ''previewWidth'' preset (preset_width (get ''previewWidth'')),
          check ''danbooruPreviewWidth'' preset (preset_width (get ''danbooruPreviewWidth'')),
          check ''relatedPreviewWidth'' ''must be one of the supported related preview presets''
            (related_width (get ''relatedPreviewWidth'')),
          check ''privacyOnStartup'' ''must be a boolean'' (boolean (get ''privacyOnStartup'')),
          check ''privacyMode'' ''must be a boolean'' (boolean (get ''privacyMode'')),
          check ''autoFindGrouping'' grouping (isGalleryGrouping (get ''autoFindGrouping'')),
          check ''downloadsGrouping'' grouping (isGalleryGrouping (get ''downloadsGrouping'')),
          check ''exploreDisplayMode'' display (isGalleryDisplayMode (get ''exploreDisplayMode'')),
          check ''autoFindDisplayMode'' display (isGalleryDisplayMode (get ''autoFindDisplayMode'')),
          check ''downloadsDisplayMode'' display (isGalleryDisplayMode (get ''downloadsDisplayMode'')),
          check ''collapsedGroupKeys'' ''must contain at most 2048 non-empty group keys'' (group_keys_ok (get ''collapsedGroupKeys'')),
          check ''searchIncludeTags'' tags (inc \<noteq> None), check ''searchExcludeTags'' tags (exc \<noteq> None),
          check ''searchIncludeTags'' ''must not overlap searchExcludeTags'' (disjoint_tags inc exc),
          integer_error ''cacheLimitGb'' 1 30 (get ''cacheLimitGb''),
          integer_error ''concurrentImageRequests'' 1 30 (get ''concurrentImageRequests''),
          check ''chzzkSsdStaging'' ''must be a boolean'' (get ''chzzkSsdStaging'' = JUndef \<or> boolean (get ''chzzkSsdStaging'')),
          check ''downloadAdaptiveConcurrency'' ''must be a boolean'' (boolean (get ''downloadAdaptiveConcurrency'')),
          integer_error ''downloadAdaptiveMaxRequests'' 1 8 (get ''downloadAdaptiveMaxRequests''),
          integer_error ''requestStartIntervalMs'' 0 5000 (get ''requestStartIntervalMs'')])"

text \<open>\<^verbatim>\<open>a ?? b ?? ...\<close>\<close>

fun first_error :: "api_error option list \<Rightarrow> api_error option" where
  "first_error [] = None"
| "first_error (e # es) = or_else e (first_error es)"

section \<open>The settings of a session\<close>

record settings_session =
  bs_settings :: "(string \<times> js_value) list"
  bs_stored :: "js_value option option"
  bs_events :: "(string \<times> js_value) list list"

definition key_texts :: "js_value \<Rightarrow> string list" where
  "key_texts v = (case v of JArr vs \<Rightarrow> or_value (texts_of vs) [] | _ \<Rightarrow> [])"

definition accepted_settings :: "(string \<Rightarrow> string \<Rightarrow> int) \<Rightarrow> js_num \<Rightarrow> (string \<times> js_value) list \<Rightarrow> (string \<times> js_value) list" where
  "accepted_settings loc revision s = merge_patch s
     [(''collapsedGroupKeys'', text_array (js_sort loc (set_from (map trim (key_texts (field ''collapsedGroupKeys'' s)))))),
      (''searchIncludeTags'', text_array (or_value (normalizeGlobalSearchTags loc (field ''searchIncludeTags'' s)) [])),
      (''searchExcludeTags'', text_array (or_value (normalizeGlobalSearchTags loc (field ''searchExcludeTags'' s)) [])),
      (''revision'', JNum (succ_num revision))]"

definition persistBrowserSettings :: "(string \<times> js_value) list \<Rightarrow> js_value option option" where
  "persistBrowserSettings s = Some (Some (json_copy (JObj s)))"

definition patched :: "(string \<times> js_value) list \<Rightarrow> (string \<times> js_value) list \<Rightarrow> (string \<times> js_value) list" where
  "patched s patch =
     (let s1 = merge_patch s patch
      in if field ''autoFindHistoryMode'' s1 = JStr ''newer_than_oldest_downloaded''
         then AList.update ''autoFindHistoryMode'' (JStr ''newer_than_latest_owned'') s1 else s1)"

text \<open>\<open>None\<close>: the path or the template is not a string, and asking it for a method throws.\<close>

definition settingsUpdate :: "(string \<Rightarrow> string \<Rightarrow> int) \<Rightarrow> (string \<times> js_value) list \<Rightarrow> js_num \<Rightarrow> settings_session \<Rightarrow>
    (string \<times> js_value) list api_result option \<times> settings_session" where
  "settingsUpdate loc patch expectedRevision s =
     (if expectedRevision = NaN \<or> field ''revision'' (bs_settings s) \<noteq> JNum expectedRevision
      then (Some (Inl (conflict settings_word)), s)
      else
        let s1 = patched (bs_settings s) patch
        in case (field ''downloadRoot'' s1, field ''folderNameTemplate'' s1) of
             (JStr path, JStr template) \<Rightarrow>
               let s2 = AList.update ''downloadRoot'' (JStr (windowsPathForDisplay path)) s1
               in (case first_error (settings_checks loc template s2) of
                     Some err \<Rightarrow> (Some (Inl err), s)
                   | None \<Rightarrow>
                       let s3 = accepted_settings loc expectedRevision s2
                       in (Some (Inr s3), \<lparr>bs_settings = s3, bs_stored = persistBrowserSettings s3, bs_events = bs_events s @ [s3]\<rparr>))
           | _ \<Rightarrow> (None, s))"

datatype settings_input = SettingsPatch "(string \<times> js_value) list" js_num | Restart

definition started_with :: "(string \<Rightarrow> string list) \<Rightarrow> (string \<Rightarrow> string \<Rightarrow> int) \<Rightarrow> js_value option option \<Rightarrow> settings_session" where
  "started_with units loc stored =
     \<lparr>bs_settings = readPersistedBrowserSettings units loc stored, bs_stored = stored, bs_events = []\<rparr>"

fun settings_step :: "(string \<Rightarrow> string list) \<Rightarrow> (string \<Rightarrow> string \<Rightarrow> int) \<Rightarrow> settings_session \<Rightarrow> settings_input \<Rightarrow> settings_session" where
  "settings_step units loc s (SettingsPatch patch revision) = snd (settingsUpdate loc patch revision s)"
| "settings_step units loc s Restart = started_with units loc (bs_stored s)"

end
