(* ===== verification/BrowserSettingsFacts.thy ===== *)
theory BrowserSettingsFacts
  imports BrowserSettings
begin

text \<open>
  What the settings of the browser backend promise: a folder name template is accepted exactly if it is made of
  literal text and known tokens, one of which is the id; settings that were accepted have every field in its range;
  and they survive a restart.
\<close>

section \<open>Objects\<close>

lemma distinct_merge_iff [simp]: "distinct (keys (merge_patch s p)) = distinct (keys s)"
  unfolding merge_patch_def by (induction p arbitrary: s) simp_all

lemma field_merge:
  assumes "distinct (keys p)"
  shows "field f (merge_patch s p) = (case map_of p f of Some v \<Rightarrow> v | None \<Rightarrow> field f s)"
proof -
  have "map_of (rev p) g = map_of p g" for g
  proof (cases "map_of p g")
    case None
    then have "map_of (rev p) g = None" by (simp add: map_of_eq_None_iff)
    with None show ?thesis by simp
  next
    case (Some v)
    then have "(g, v) \<in> set (rev p)" by (simp add: map_of_in_set)
    then show ?thesis using assms Some by (intro trans [OF map_of_is_SomeI]) (simp_all add: rev_map [symmetric])
  qed
  then show ?thesis by (simp add: field_def map_of_merge map_add_def split: option.splits)
qed

lemma field_update: "field f (AList.update g v s) = (if f = g then v else field f s)"
  by (simp add: field_def lookup_update)

lemma field_json:
  assumes "distinct (keys s)"
  shows "field f (map (\<lambda>kv. (fst kv, json_copy (snd kv))) (filter (\<lambda>kv. snd kv \<noteq> JUndef) s))
    = (if field f s = JUndef then JUndef else json_copy (field f s))"
  using assms
proof (induction s)
  case (Cons kv s)
  show ?case
  proof (cases "fst kv = f")
    case True
    then have "f \<notin> set (keys s)" using Cons.prems by auto
    then have "map_of (map (\<lambda>kv. (fst kv, json_copy (snd kv))) (filter (\<lambda>kv. snd kv \<noteq> JUndef) s)) f = None"
      by (force simp: map_of_eq_None_iff)
    then show ?thesis using True by (simp add: field_def)
  next
    case False
    then show ?thesis using Cons by (cases kv) (simp add: field_def)
  qed
qed (simp add: field_def)

lemma json_copy_texts [simp]: "json_copy (text_array ts) = text_array ts"
  by (simp add: text_array_def)

lemma texts_of_map [simp]: "texts_of (map JStr ts) = Some ts"
  by (induction ts) simp_all

lemma texts_of_Some: "texts_of vs = Some ts \<longleftrightarrow> vs = map JStr ts"
  by (induction vs arbitrary: ts rule: texts_of.induct) auto

lemma filled_texts_map [simp]: "filled_texts (map JStr ts) = filter (\<lambda>t. trim t \<noteq> []) ts"
  by (induction ts) (simp_all add: filled_texts_def List.map_filter_simps)

section \<open>Sorted lists without repetition\<close>

lemma js_sort_id: "sorted_wrt (\<lambda>x y. cmp x y \<le> 0) xs \<Longrightarrow> js_sort cmp xs = xs"
proof (induction xs)
  case (Cons x xs)
  then show ?case by (cases xs) simp_all
qed simp

lemma js_sort_twice:
  assumes "collation loc"
  shows "js_sort loc (js_sort loc xs) = js_sort loc xs"
proof (rule js_sort_id)
  show "sorted_wrt (\<lambda>x y. loc x y \<le> 0) (js_sort loc xs)"
    using js_comparator.sorted_js_sort [OF collation.js_comparator_text [OF assms, of id]] by simp
qed

section \<open>Templates\<close>

text \<open>A template as its author means it: literal characters, and tokens in braces.\<close>

datatype template_piece = Literal char | Token string

fun render :: "template_piece \<Rightarrow> string" where
  "render (Literal c) = [c]"
| "render (Token t) = CHR ''{'' # t @ ''}''"

fun piece_ok :: "template_piece \<Rightarrow> bool" where
  "piece_ok (Literal c) \<longleftrightarrow> c \<noteq> CHR ''{'' \<and> c \<noteq> CHR ''}''"
| "piece_ok (Token t) \<longleftrightarrow> t \<in> set template_tokens"

lemma token_no_brace: "t \<in> set template_tokens \<Longrightarrow> CHR ''}'' \<notin> set t \<and> CHR ''{'' \<notin> set t"
  by (auto simp: template_tokens_def)

lemma split_brace: "c \<in> set s \<Longrightarrow> s = takeWhile (\<lambda>d. d \<noteq> c) s @ c # drop (Suc (length (takeWhile (\<lambda>d. d \<noteq> c) s))) s"
proof (induction s)
  case (Cons d s)
  then show ?case by (cases "d = c") auto
qed simp

lemma take_before: "c \<notin> set t \<Longrightarrow> takeWhile (\<lambda>d. d \<noteq> c) (t @ c # r) = t"
  by (induction t) auto

lemma template_loop_pieces:
  "template_loop h t = None \<Longrightarrow> \<exists>ps. t = concat (map render ps) \<and> list_all piece_ok ps \<and> (h \<or> Token ''id'' \<in> set ps)"
proof (induction h t rule: template_loop.induct)
  case (1 h)
  then show ?case by (intro exI [of _ "[]"]) (simp split: if_splits)
next
  case (2 h c s)
  show ?case
  proof (cases "c = CHR ''{''")
    case False
    with 2(3) have c: "c \<noteq> CHR ''}''" and loop: "template_loop h s = None" by (simp_all split: if_splits)
    obtain ps where "s = concat (map render ps)" "list_all piece_ok ps" "h \<or> Token ''id'' \<in> set ps"
      using 2(1) [OF c False loop] by blast
    then show ?thesis using c False by (intro exI [of _ "Literal c # ps"]) simp
  next
    case True
    let ?token = "takeWhile (\<lambda>d. d \<noteq> CHR ''}'') s"
    have ok: "CHR ''}'' \<in> set s" "?token \<in> set template_tokens"
      "template_loop (h \<or> ?token = ''id'') (drop (Suc (length ?token)) s) = None"
      using 2(3) True by (auto simp: Let_def split: if_splits)
    moreover have "CHR ''{'' \<notin> set ?token" using token_no_brace [OF ok(2)] by blast
    ultimately obtain ps where ps: "drop (Suc (length ?token)) s = concat (map render ps)" "list_all piece_ok ps"
      "(h \<or> ?token = ''id'') \<or> Token ''id'' \<in> set ps"
      using 2(2) [of ?token] True by auto
    have s: "s = ?token @ CHR ''}'' # drop (Suc (length ?token)) s" by (rule split_brace [OF ok(1)])
    have "c # s = concat (map render (Token ?token # ps))" using True ps(1) by (subst s) simp
    moreover have "list_all piece_ok (Token ?token # ps)" using ok(2) ps(2) by simp
    moreover have "h \<or> Token ''id'' \<in> set (Token ?token # ps)" using ps(3) by auto
    ultimately show ?thesis by blast
  qed
qed

lemma pieces_template_loop:
  "list_all piece_ok ps \<Longrightarrow> h \<or> Token ''id'' \<in> set ps \<Longrightarrow> template_loop h (concat (map render ps)) = None"
proof (induction ps arbitrary: h)
  case (Cons p ps)
  show ?case
  proof (cases p)
    case (Literal c)
    then show ?thesis using Cons by simp
  next
    case (Token t)
    with Cons.prems have t: "t \<in> set template_tokens" by simp
    note b = token_no_brace [OF t]
    have w: "takeWhile (\<lambda>d. d \<noteq> CHR ''}'') (t @ CHR ''}'' # r) = t" for r
      by (rule take_before) (use b in blast)
    define r where "r = concat (map render ps)"
    have ps: "list_all piece_ok ps" using Cons.prems(1) by simp
    have "(h \<or> t = ''id'') \<or> Token ''id'' \<in> set ps" using Cons.prems(2) Token by auto
    then have ih: "template_loop (h \<or> t = ''id'') r = None" unfolding r_def by (rule Cons.IH [OF ps])
    have d: "drop (Suc (length t)) (t @ CHR ''}'' # r) = r" by simp
    have in_set: "CHR ''}'' \<in> set (t @ CHR ''}'' # r)" by simp
    have "template_loop h (CHR ''{'' # t @ CHR ''}'' # r) = None"
      unfolding template_loop.simps(2) Let_def w d using b t ih in_set by (simp only: if_False simp_thms) simp
    then show ?thesis by (simp add: Token r_def)
  qed
qed simp

section \<open>Checked settings\<close>

lemma first_error_None: "first_error es = None \<longleftrightarrow> list_all (\<lambda>e. e = None) es"
  by (induction es) (auto split: option.splits elim: or_else.elims)

lemma check_None [simp]: "check f r b = None \<longleftrightarrow> b"
  by (simp add: check_def)

lemma integer_error_None [simp]: "integer_error f a b v = None \<longleftrightarrow> integer_between a b v"
  by (simp add: integer_error_def)

lemma integer_betweenD:
  assumes "integer_between a b v"
  obtains i where "v = JNum (Num (of_int i))" "a \<le> i" "i \<le> b"
proof -
  from assms obtain i where "num_of v = Num (of_int i)" by (auto simp: integer_between_def is_integer_iff)
  with assms that show thesis by (cases v) (auto simp: integer_between_def)
qed

text \<open>Lists of texts as they are kept: without repetition, in the order of the collation.\<close>

definition kept_tags :: "(string \<Rightarrow> string \<Rightarrow> int) \<Rightarrow> js_value \<Rightarrow> string list \<Rightarrow> bool" where
  "kept_tags loc v ts \<longleftrightarrow> v = text_array ts \<and> normalizeGlobalSearchTags loc v = Some ts"

definition kept_keys :: "(string \<Rightarrow> string \<Rightarrow> int) \<Rightarrow> js_value \<Rightarrow> bool" where
  "kept_keys loc v \<longleftrightarrow> (\<exists>ks. v = text_array ks \<and> length ks \<le> 2048 \<and> distinct ks \<and> js_sort loc ks = ks
     \<and> (\<forall>k \<in> set ks. trim k = k \<and> k \<noteq> [] \<and> utf16_length k \<le> 256))"

text \<open>What each field holds once settings were accepted.\<close>

definition field_rules :: "(string \<Rightarrow> string \<Rightarrow> int) \<Rightarrow> (string \<times> (js_value \<Rightarrow> bool)) list" where
  "field_rules loc =
     [(''revision'', \<lambda>v. \<exists>n. v = JNum (Num (of_nat n))),
      (''folderNameTemplate'', \<lambda>v. \<exists>t. v = JStr t \<and> validateFolderNameTemplate t = None),
      (''highPerformanceProcessing'', boolean), (''privacyOnStartup'', boolean), (''privacyMode'', boolean),
      (''downloadAdaptiveConcurrency'', boolean),
      (''autoFindHistoryMode'', \<lambda>v. v \<in> {JStr ''include_all_history'', JStr ''newer_than_latest_owned''}),
      (''downloadOverlapAutoMode'', \<lambda>v. v \<in> {JStr ''off'', JStr ''recommend'', JStr ''strict_quarantine''}),
      (''explorePageSize'', integer_between 10 200), (''danbooruPageSize'', integer_between 10 100),
      (''maxColumns'', integer_between 1 4), (''cacheLimitGb'', integer_between 1 30),
      (''concurrentImageRequests'', integer_between 1 30), (''downloadAdaptiveMaxRequests'', integer_between 1 8),
      (''requestStartIntervalMs'', integer_between 0 5000), (''previewWidth'', preset_width),
      (''danbooruPreviewWidth'', preset_width), (''relatedPreviewWidth'', related_width),
      (''autoFindGrouping'', isGalleryGrouping), (''downloadsGrouping'', isGalleryGrouping),
      (''exploreDisplayMode'', isGalleryDisplayMode), (''autoFindDisplayMode'', isGalleryDisplayMode),
      (''downloadsDisplayMode'', isGalleryDisplayMode), (''collapsedGroupKeys'', kept_keys loc),
      (''searchIncludeTags'', \<lambda>v. \<exists>ts. kept_tags loc v ts), (''searchExcludeTags'', \<lambda>v. \<exists>ts. kept_tags loc v ts)]"

definition tags_apart :: "(string \<Rightarrow> string \<Rightarrow> int) \<Rightarrow> (string \<times> js_value) list \<Rightarrow> bool" where
  "tags_apart loc s \<longleftrightarrow> (\<forall>inc exc. kept_tags loc (field ''searchIncludeTags'' s) inc \<longrightarrow>
     kept_tags loc (field ''searchExcludeTags'' s) exc \<longrightarrow> set inc \<inter> set exc = {})"

definition settings_valid :: "(string \<Rightarrow> string \<Rightarrow> int) \<Rightarrow> (string \<times> js_value) list \<Rightarrow> bool" where
  "settings_valid loc s \<longleftrightarrow> list_all (\<lambda>fr. snd fr (field (fst fr) s)) (field_rules loc) \<and> tags_apart loc s
     \<and> (\<exists>t. field ''downloadRoot'' s = JStr t)
     \<and> (field ''chzzkSsdStaging'' s = JUndef \<or> boolean (field ''chzzkSsdStaging'' s))"

lemma tags_normalized:
  assumes "collation loc" "normalizeGlobalSearchTags loc v = Some ts"
  shows "kept_tags loc (text_array ts) ts"
proof -
  from assms(2) obtain us where us: "length us \<le> 100" "ts = js_sort loc (set_from (map (\<lambda>t. lower (trim t)) us))"
    "\<And>t. t \<in> set us \<Longrightarrow> lower (trim t) \<noteq> [] \<and> length (lower (trim t)) \<le> 200"
    by (cases v) (auto simp: normalizeGlobalSearchTags_def texts_of_Some Let_def list_ex_iff not_less split: if_splits option.splits)
  have d: "distinct ts" using us(2) by simp
  have "length ts = card (set ts)" using d by (simp add: distinct_card)
  also have "\<dots> \<le> length us" using us(2) by (simp add: card_image_le card_length le_trans [OF card_image_le [OF finite_set] card_length])
  finally have l: "length ts \<le> 100" using us(1) by simp
  have same: "lower (trim t) = t" if "t \<in> set ts" for t
    using that us(2) by (auto simp: lower_trim_idem)
  have m: "map (\<lambda>t. lower (trim t)) ts = ts" by (rule map_idI) (rule same)
  have "js_sort loc (set_from ts) = ts" using d us(2) js_sort_twice [OF assms(1)] by simp
  moreover have "t \<noteq> [] \<and> length t \<le> 200" if "t \<in> set ts" for t using that us(2,3) by auto
  ultimately show ?thesis
    using l by (force simp: kept_tags_def normalizeGlobalSearchTags_def text_array_def m list_ex_iff not_less)
qed

lemma utf16_length_dropWhile: "utf16_length (dropWhile P t) \<le> utf16_length t"
  by (induction t) (auto simp: utf16_length_def)

lemma utf16_length_rev [simp]: "utf16_length (rev t) = utf16_length t"
  by (simp add: utf16_length_def rev_map [symmetric])

lemma utf16_length_trim: "utf16_length (trim t) \<le> utf16_length t"
  unfolding trim_def utf16_length_rev
  by (rule order_trans [OF utf16_length_dropWhile]) (simp add: utf16_length_dropWhile)

lemma keys_kept:
  assumes "collation loc" "length ks \<le> 2048" "\<forall>k \<in> set ks. trim k \<noteq> [] \<and> utf16_length k \<le> 256"
  shows "kept_keys loc (text_array (js_sort loc (set_from (map trim ks))))"
proof -
  let ?ks = "js_sort loc (set_from (map trim ks))"
  have "length ?ks = card (trim ` set ks)" using distinct_card [of ?ks] by simp
  also have "\<dots> \<le> length ks" by (rule le_trans [OF card_image_le [OF finite_set] card_length])
  finally have "length ?ks \<le> 2048" using assms(2) by simp
  moreover have "js_sort loc ?ks = ?ks" by (rule js_sort_twice [OF assms(1)])
  ultimately show ?thesis
    using assms(3) order_trans [OF utf16_length_trim] unfolding kept_keys_def by (intro exI [of _ ?ks]) auto
qed

text \<open>What an accepted update made of the fields.\<close>

lemma field_accepted:
  "f \<notin> {''collapsedGroupKeys'', ''searchIncludeTags'', ''searchExcludeTags'', ''revision''} \<Longrightarrow>
    field f (accepted_settings loc n s) = field f s"
  "field ''revision'' (accepted_settings loc n s) = JNum (succ_num n)"
  "field ''collapsedGroupKeys'' (accepted_settings loc n s) =
    text_array (js_sort loc (set_from (map trim (key_texts (field ''collapsedGroupKeys'' s)))))"
  "field ''searchIncludeTags'' (accepted_settings loc n s) =
    text_array (or_value (normalizeGlobalSearchTags loc (field ''searchIncludeTags'' s)) [])"
  "field ''searchExcludeTags'' (accepted_settings loc n s) =
    text_array (or_value (normalizeGlobalSearchTags loc (field ''searchExcludeTags'' s)) [])"
  by (simp_all add: accepted_settings_def field_merge)

lemma group_keysD:
  assumes "group_keys_ok v"
  obtains ks where "v = JArr (map JStr ks)" "length ks \<le> 2048" "\<forall>k \<in> set ks. trim k \<noteq> [] \<and> utf16_length k \<le> 256"
proof -
  from assms obtain vs where v: "v = JArr vs" "length vs \<le> 2048"
    and e: "list_all (\<lambda>k. case k of JStr t \<Rightarrow> trim t \<noteq> [] \<and> utf16_length t \<le> 256 | _ \<Rightarrow> False) vs"
    by (cases v) (auto simp: group_keys_ok_def)
  from e have "\<exists>ks. vs = map JStr ks \<and> (\<forall>k \<in> set ks. trim k \<noteq> [] \<and> utf16_length k \<le> 256)"
  proof (induction vs)
    case (Cons w vs)
    then obtain ks where "vs = map JStr ks" "\<forall>k \<in> set ks. trim k \<noteq> [] \<and> utf16_length k \<le> 256" by auto
    moreover obtain t where "w = JStr t" "trim t \<noteq> []" "utf16_length t \<le> 256" using Cons.prems by (cases w) auto
    ultimately show ?case by (intro exI [of _ "t # ks"]) simp
  qed simp
  with v that show thesis by auto
qed

lemma update_valid:
  assumes loc: "collation loc" and accepted: "first_error (settings_checks loc template s) = None"
    and template: "field ''folderNameTemplate'' s = JStr template" and path: "field ''downloadRoot'' s = JStr path"
  shows "settings_valid loc (accepted_settings loc (Num (of_nat n)) s)"
proof -
  from accepted have ok: "list_all (\<lambda>e. e = None) (settings_checks loc template s)" by (simp only: first_error_None)
  let ?inc = "normalizeGlobalSearchTags loc (field ''searchIncludeTags'' s)"
  let ?exc = "normalizeGlobalSearchTags loc (field ''searchExcludeTags'' s)"
  from ok obtain inc exc where tags: "?inc = Some inc" "?exc = Some exc"
    by (auto simp: settings_checks_def Let_def)
  have "disjoint_tags ?inc ?exc" using ok by (simp add: settings_checks_def Let_def)
  then have dis: "set inc \<inter> set exc = {}" by (auto simp: tags disjoint_tags_def list_ex_iff)
  obtain ks where ks: "field ''collapsedGroupKeys'' s = JArr (map JStr ks)" "length ks \<le> 2048" "\<forall>k \<in> set ks. trim k \<noteq> [] \<and> utf16_length k \<le> 256"
    using ok by (auto simp: settings_checks_def Let_def intro: group_keysD)
  let ?r = "accepted_settings loc (Num (of_nat n)) s"
  have keys: "kept_keys loc (field ''collapsedGroupKeys'' ?r)"
    using keys_kept [OF loc ks(2,3)] by (simp add: field_accepted(3) ks(1) key_texts_def)
  have kept: "kept_tags loc (field ''searchIncludeTags'' ?r) inc" "kept_tags loc (field ''searchExcludeTags'' ?r) exc"
    using tags_normalized [OF loc] tags by (simp_all add: field_accepted(4,5))
  then have apart: "tags_apart loc ?r" using dis by (auto simp: tags_apart_def kept_tags_def)
  have revision: "\<exists>m. field ''revision'' ?r = JNum (Num (of_nat m))"
    by (intro exI [of _ "Suc n"]) (simp add: field_accepted(2) succ_num_def)
  note C = ok [unfolded settings_checks_def Let_def, simplified]
  have t: "\<exists>t. field ''folderNameTemplate'' ?r = JStr t \<and> validateFolderNameTemplate t = None"
    using C template by (simp add: field_accepted(1))
  have tags': "\<exists>ts. kept_tags loc (field ''searchIncludeTags'' ?r) ts" "\<exists>ts. kept_tags loc (field ''searchExcludeTags'' ?r) ts"
    using kept by blast+
  have "list_all (\<lambda>fr. snd fr (field (fst fr) ?r)) (field_rules loc)"
    unfolding field_rules_def list.pred_inject fst_conv snd_conv
    by (intro conjI revision t keys tags' TrueI; simp add: field_accepted(1) C)
  moreover have "field ''chzzkSsdStaging'' ?r = JUndef \<or> boolean (field ''chzzkSsdStaging'' ?r)"
    using C by (simp add: field_accepted(1))
  ultimately show ?thesis using apart path by (simp add: settings_valid_def field_accepted(1))
qed

section \<open>Reading settings back\<close>

text \<open>Values that JSON keeps.\<close>

definition plain :: "js_value \<Rightarrow> bool" where
  "plain v \<longleftrightarrow> v \<noteq> JUndef \<and> json_copy v = v"

lemma plain_simps [simp]: "plain (JStr t)" "plain (JBool b)" "plain (JNum (Num r))" "plain (text_array ts)"
  by (simp_all add: plain_def text_array_def)

lemma plain_cases:
  "boolean v \<Longrightarrow> plain v" "integer_between a b v \<Longrightarrow> plain v" "preset_width v \<Longrightarrow> plain v" "related_width v \<Longrightarrow> plain v"
  "isGalleryGrouping v \<Longrightarrow> plain v" "isGalleryDisplayMode v \<Longrightarrow> plain v" "kept_keys loc v \<Longrightarrow> plain v" "kept_tags loc v ts \<Longrightarrow> plain v"
proof -
  show "integer_between a b v \<Longrightarrow> plain v" by (erule integer_betweenD) simp
qed (auto simp: boolean_def preset_width_def list_ex_iff related_width_def isGalleryGrouping_def isGalleryDisplayMode_def
    kept_keys_def kept_tags_def)

lemma kept_keys_read:
  assumes "kept_keys loc v"
  shows "text_array (case v of JArr vs \<Rightarrow> js_sort loc (set_from (filled_texts vs)) | _ \<Rightarrow> []) = v"
proof -
  from assms obtain ks where ks: "v = text_array ks" "distinct ks" "js_sort loc ks = ks" "\<forall>k \<in> set ks. trim k = k \<and> k \<noteq> []"
    by (auto simp: kept_keys_def)
  then have "filter (\<lambda>t. trim t \<noteq> []) ks = ks" by (auto simp: filter_id_conv)
  then show ?thesis using ks(1-3) by (simp add: text_array_def)
qed

lemma preset_width_read: "preset_width v \<Longrightarrow> JNum (Num (of_int (normalizeGalleryPreviewWidth (num_of v)))) = v"
  by (auto simp: preset_width_def GALLERY_PREVIEW_PRESETS_def preset_def normalizeGalleryPreviewWidth_def)

lemma rules_plain:
  assumes "(f, P) \<in> set (field_rules loc)" "P v"
  shows "plain v"
  using assms by (auto simp: field_rules_def intro: plain_cases)

text \<open>A repair leaves alone what its rule allows.\<close>

lemma repairs_keep:
  "list_all (\<lambda>fr. fst fr = ''chzzkSsdStaging'' \<or> (\<exists>P. map_of (field_rules loc) (fst fr) = Some P \<and> (\<forall>v. P v \<longrightarrow> snd fr v = v)))
     (repairs loc)"
proof -
  have "kept_tags loc v ts \<Longrightarrow> text_array (or_value (normalizeGlobalSearchTags loc v) []) = v" for v ts
    by (auto simp: kept_tags_def)
  moreover have "\<not> nullish v" if "preset_width v \<or> related_width v" for v
    using that by (auto simp: preset_width_def related_width_def list_ex_iff nullish_def)
  ultimately show ?thesis
    by (auto simp: repairs_def field_rules_def or_default_def kept_keys_read preset_width_read boolean_def)
qed

text \<open>The fields an object has after it was stored.\<close>

definition stored_fields :: "(string \<times> js_value) list \<Rightarrow> (string \<times> js_value) list" where
  "stored_fields s = map (\<lambda>kv. (fst kv, json_copy (snd kv))) (filter (\<lambda>kv. snd kv \<noteq> JUndef) s)"

lemma read_stored:
  fixes units loc
  assumes d: "distinct (keys s)" and path: "field ''downloadRoot'' s = JStr t"
  defines "r \<equiv> readPersistedBrowserSettings units loc (persistBrowserSettings s)"
  shows "r = merge_patch (merge_patch defaultSettings (stored_fields s))
      (repaired_fields loc (windowsPathForDisplay t) (stored_fields s))"
    and "distinct (keys r)"
    and "plain (field f s) \<Longrightarrow> field f (stored_fields s) = field f s"
    and "field f r = (case map_of (repaired_fields loc (windowsPathForDisplay t) (stored_fields s)) f of
        Some v \<Rightarrow> v
      | None \<Rightarrow> (case map_of (stored_fields s) f of Some v \<Rightarrow> v | None \<Rightarrow> default f))"
proof -
  have fp: "field g (stored_fields s) = (if field g s = JUndef then JUndef else json_copy (field g s))" for g
    using field_json [OF d] by (simp add: stored_fields_def)
  then show "plain (field f s) \<Longrightarrow> field f (stored_fields s) = field f s" by (simp add: plain_def)
  have "field ''downloadRoot'' (stored_fields s) = JStr t" using fp [of "''downloadRoot''"] path by simp
  then show r: "r = merge_patch (merge_patch defaultSettings (stored_fields s))
      (repaired_fields loc (windowsPathForDisplay t) (stored_fields s))"
    by (simp add: r_def readPersistedBrowserSettings_def persistBrowserSettings_def repaired_def stored_fields_def
        nullish_def Let_def)
  then show "distinct (keys r)" by (simp add: defaultSettings_def)
  have dp: "distinct (keys (stored_fields s))" using distinct_map_filter [OF d] by (simp add: stored_fields_def comp_def)
  have df: "distinct (keys (repaired_fields loc u (stored_fields s)))" for u
    by (simp add: repaired_fields_def repairs_def)
  show "field f r = (case map_of (repaired_fields loc (windowsPathForDisplay t) (stored_fields s)) f of
        Some v \<Rightarrow> v
      | None \<Rightarrow> (case map_of (stored_fields s) f of Some v \<Rightarrow> v | None \<Rightarrow> default f))"
    unfolding r field_merge [OF df] field_merge [OF dp] default_def ..
qed

lemma map_of_fields: "map_of (map (\<lambda>fr. (fst fr, snd fr (field (fst fr) p))) xs) f = map_option (\<lambda>h. h (field f p)) (map_of xs f)"
  by (induction xs) auto

text \<open>Settings that were accepted are read back as they were.\<close>

lemma read_back:
  fixes units
  assumes valid: "settings_valid loc s" and d: "distinct (keys s)"
  defines "r \<equiv> readPersistedBrowserSettings units loc (persistBrowserSettings s)"
  shows "f \<in> set (keys (field_rules loc)) \<Longrightarrow> field f r = field f s"
    and "field ''downloadRoot'' s = JStr path \<Longrightarrow> field ''downloadRoot'' r = JStr (windowsPathForDisplay path)"
    and "field ''chzzkSsdStaging'' r = JBool (field ''chzzkSsdStaging'' s = JBool True)"
    and "settings_valid loc r" and "distinct (keys r)"
proof -
  obtain t where t: "field ''downloadRoot'' s = JStr t" using valid by (auto simp: settings_valid_def)
  note read = read_stored(2,4) [where units = units and loc = loc, OF d t, folded r_def]
  note stored = read_stored(3) [OF d t]
  show "distinct (keys r)" by (rule read(1))
  have lookup: "field f r = h (field f (stored_fields s))" if "map_of (repairs loc) f = Some h" "f \<noteq> ''downloadRoot''" for f h
    using that by (simp add: read(2) repaired_fields_def map_of_fields)
  have same: "field f r = field f s" if f: "f \<in> set (keys (field_rules loc))" for f
  proof -
    obtain P where P: "map_of (field_rules loc) f = Some P" using f by (cases "map_of (field_rules loc) f") (auto simp: map_of_eq_None_iff)
    have m: "(f, P) \<in> set (field_rules loc)" using map_of_in_set [OF P] .
    then have h: "P (field f s)" using valid by (auto simp: settings_valid_def list_all_iff)
    note p = rules_plain [OF m h]
    have ne: "f \<noteq> ''downloadRoot''" "f \<noteq> ''chzzkSsdStaging''" using f by (auto simp: field_rules_def)
    show ?thesis
    proof (cases "map_of (repairs loc) f")
      case (Some g)
      then have "\<exists>P. map_of (field_rules loc) f = Some P \<and> (\<forall>v. P v \<longrightarrow> g v = v)"
        using repairs_keep [of loc] map_of_in_set [OF Some] ne by (auto simp: list_all_iff)
      then show ?thesis using lookup [OF Some ne(1)] stored [OF p] P h by simp
    next
      case None
      have "map_of (stored_fields s) f = Some (field f s)"
        using stored [OF p] p by (cases "map_of (stored_fields s) f") (simp_all add: field_def plain_def)
      then show ?thesis using None ne by (simp add: read(2) repaired_fields_def map_of_fields)
    qed
  qed
  then show "f \<in> set (keys (field_rules loc)) \<Longrightarrow> field f r = field f s" .
  show "field ''downloadRoot'' s = JStr path \<Longrightarrow> field ''downloadRoot'' r = JStr (windowsPathForDisplay path)"
    using t by (simp add: read(2) repaired_fields_def)
  have "field ''chzzkSsdStaging'' (stored_fields s) = JBool True \<longleftrightarrow> field ''chzzkSsdStaging'' s = JBool True"
    using field_json [OF d, of "''chzzkSsdStaging''"] valid
    by (auto simp: settings_valid_def boolean_def stored_fields_def)
  then show ssd: "field ''chzzkSsdStaging'' r = JBool (field ''chzzkSsdStaging'' s = JBool True)"
    using lookup [of "''chzzkSsdStaging''"] by (simp add: repairs_def)
  have "list_all (\<lambda>fr. snd fr (field (fst fr) r)) (field_rules loc)"
    using valid same by (auto simp: settings_valid_def list_all_iff rev_image_eqI)
  moreover have "tags_apart loc r"
    using valid same by (simp add: settings_valid_def tags_apart_def field_rules_def)
  ultimately show "settings_valid loc r"
    using t ssd by (simp add: settings_valid_def boolean_def read(2) repaired_fields_def)
qed

section \<open>Sessions\<close>

text \<open>What is stored was written by an accepted update.\<close>

definition session_ok :: "(string \<Rightarrow> string \<Rightarrow> int) \<Rightarrow> settings_session \<Rightarrow> bool" where
  "session_ok loc s \<longleftrightarrow> settings_valid loc (bs_settings s) \<and> distinct (keys (bs_settings s))
     \<and> (bs_stored s = None
        \<or> (\<exists>r. settings_valid loc r \<and> distinct (keys r) \<and> bs_stored s = persistBrowserSettings r))"

lemma default_template: "validateFolderNameTemplate ''[{artist}] {title} [{group}] {id}'' = None"
proof -
  have "trim ''[{artist}] {title} [{group}] {id}'' \<noteq> []" by (simp add: trim_def trim_start_def is_space_def)
  moreover have "\<not> has_control ''[{artist}] {title} [{group}] {id}''" by simp
  moreover have "template_loop False ''[{artist}] {title} [{group}] {id}'' = None"
    by (simp add: template_tokens_def)
  ultimately show ?thesis by (simp add: validateFolderNameTemplate_def)
qed

lemma defaults_valid: "settings_valid loc defaultSettings"
proof -
  have "kept_keys loc (JArr [])" by (simp add: kept_keys_def text_array_def)
  moreover have "kept_tags loc (JArr []) ts \<longleftrightarrow> ts = []" for ts
    by (auto simp: kept_tags_def text_array_def normalizeGlobalSearchTags_def set_from_def)
  moreover have "integer_between a b (JNum (Num (numeral k))) \<longleftrightarrow> a \<le> numeral k \<and> numeral k \<le> b" for a b k
    using rat_is_int_of_int [of "numeral k"] of_int_le_iff [where 'a = rat, of a "numeral k"]
      of_int_le_iff [where 'a = rat, of "numeral k" b] by (simp add: integer_between_def del: of_int_le_iff)
  moreover have "\<exists>n. (0 :: rat) = of_nat n" by (rule exI [of _ 0]) simp
  moreover have "kept_tags loc (JArr []) = (\<lambda>ts. ts = [])" using calculation(2) by blast
  moreover have apart: "tags_apart loc defaultSettings"
    using calculation(2) by (simp add: tags_apart_def field_def defaultSettings_def)
  moreover have "list_all (\<lambda>fr. snd fr (field (fst fr) defaultSettings)) (field_rules loc)"
    using calculation(1-5)
    by (simp add: field_rules_def field_def defaultSettings_def default_template boolean_def
        preset_width_def related_width_def GALLERY_PREVIEW_PRESETS_def preset_def isGalleryGrouping_def isGalleryDisplayMode_def)
  ultimately show ?thesis
    by (simp add: settings_valid_def boolean_def) (simp add: field_def defaultSettings_def)
qed

lemma update_accepted:
  assumes "settingsUpdate loc patch n s = (Some (Inr r), s')"
  obtains template s2 path where "r = accepted_settings loc n s2" "first_error (settings_checks loc template s2) = None"
    "field ''folderNameTemplate'' s2 = JStr template" "field ''downloadRoot'' s2 = JStr path"
    "field ''revision'' (bs_settings s) = JNum n" "distinct (keys s2) = distinct (keys (bs_settings s))"
    "s' = \<lparr>bs_settings = r, bs_stored = persistBrowserSettings r, bs_events = bs_events s @ [r]\<rparr>"
proof -
  let ?s1 = "patched (bs_settings s) patch"
  have d: "distinct (keys ?s1) = distinct (keys (bs_settings s))" by (simp add: patched_def Let_def)
  have rev: "field ''revision'' (bs_settings s) = JNum n" using assms by (auto simp: settingsUpdate_def split: if_splits)
  obtain path template where t: "field ''downloadRoot'' ?s1 = JStr path" "field ''folderNameTemplate'' ?s1 = JStr template"
    using assms by (auto simp: settingsUpdate_def Let_def split: if_splits js_value.splits)
  let ?s2 = "AList.update ''downloadRoot'' (JStr (windowsPathForDisplay path)) ?s1"
  have "first_error (settings_checks loc template ?s2) = None \<and> r = accepted_settings loc n ?s2
    \<and> s' = \<lparr>bs_settings = r, bs_stored = persistBrowserSettings r, bs_events = bs_events s @ [r]\<rparr>"
    using assms by (auto simp: settingsUpdate_def Let_def t split: if_splits option.splits)
  moreover have "field ''folderNameTemplate'' ?s2 = JStr template"
    "field ''downloadRoot'' ?s2 = JStr (windowsPathForDisplay path)" by (simp_all add: field_update t)
  moreover have "distinct (keys ?s2) = distinct (keys (bs_settings s))" using d by simp
  ultimately show thesis using that rev by blast
qed

lemma update_session:
  assumes loc: "collation loc" and ok: "session_ok loc s" and u: "settingsUpdate loc patch n s = (Some (Inr r), s')"
  shows "settings_valid loc r" and "distinct (keys r)" and "bs_settings s' = r" and "bs_stored s' = persistBrowserSettings r"
proof -
  obtain template s2 path where r: "r = accepted_settings loc n s2"
    "first_error (settings_checks loc template s2) = None" "field ''folderNameTemplate'' s2 = JStr template"
    "field ''downloadRoot'' s2 = JStr path" "field ''revision'' (bs_settings s) = JNum n"
    and d: "distinct (keys s2) = distinct (keys (bs_settings s))"
    and s': "s' = \<lparr>bs_settings = r, bs_stored = persistBrowserSettings r, bs_events = bs_events s @ [r]\<rparr>"
    using update_accepted [OF u] .
  have "\<exists>k. field ''revision'' (bs_settings s) = JNum (Num (of_nat k))"
    using ok by (simp add: session_ok_def settings_valid_def field_rules_def)
  with r(5) obtain k where "n = Num (of_nat k)" by auto
  then show "settings_valid loc r" using update_valid [OF loc r(2-4)] by (simp add: r(1))
  show "distinct (keys r)" using d ok by (simp add: r(1) accepted_settings_def session_ok_def)
  show "bs_settings s' = r" "bs_stored s' = persistBrowserSettings r" by (simp_all add: s')
qed

lemma update_refused: "fst (settingsUpdate loc patch n s) = None \<or> (\<exists>e. fst (settingsUpdate loc patch n s) = Some (Inl e)) \<Longrightarrow>
    snd (settingsUpdate loc patch n s) = s"
  by (auto simp: settingsUpdate_def Let_def split: if_splits js_value.splits option.splits)

lemma settings_session_step:
  assumes loc: "collation loc" and ok: "session_ok loc s"
  shows "session_ok loc (settings_step units loc s i)"
proof (cases i)
  case (SettingsPatch patch n)
  obtain a s' where u: "settingsUpdate loc patch n s = (a, s')" by (cases "settingsUpdate loc patch n s")
  consider "a = None" | e where "a = Some (Inl e)" | r where "a = Some (Inr r)" by (cases a) (auto elim: sum.exhaust)
  then show ?thesis
  proof cases
    case 3
    then show ?thesis using update_session [OF loc ok u [unfolded 3]] SettingsPatch u by (auto simp: session_ok_def)
  qed (use update_refused [of loc patch n s] ok SettingsPatch u in auto)
next
  case Restart
  from ok have "bs_stored s = None
      \<or> (\<exists>r. settings_valid loc r \<and> distinct (keys r) \<and> bs_stored s = persistBrowserSettings r)"
    by (simp add: session_ok_def)
  then show ?thesis
  proof (elim disjE exE conjE)
    assume "bs_stored s = None"
    then show ?thesis using defaults_valid
      by (simp add: Restart session_ok_def started_with_def readPersistedBrowserSettings_def) (simp add: defaultSettings_def)
  next
    fix r assume r: "settings_valid loc r" "distinct (keys r)" "bs_stored s = persistBrowserSettings r"
    then show ?thesis using read_back(4,5) [OF r(1,2), of units]
      by (auto simp: Restart session_ok_def started_with_def)
  qed
qed

lemma session_ok_start: "session_ok loc (started_with units loc None)"
  using defaults_valid
  by (simp add: session_ok_def started_with_def readPersistedBrowserSettings_def) (simp add: defaultSettings_def)

text \<open>The machine, for the comparison of texts that the code is run with.\<close>

interpretation settings_session: machine "settings_step units lex_cmp" "session_ok lex_cmp" "started_with units lex_cmp None" for units
  by unfold_locales (rule session_ok_start, rule settings_session_step [OF collation_lex_cmp])

lemma session_ok_run: "collation loc \<Longrightarrow> session_ok loc s \<Longrightarrow> session_ok loc (foldl (settings_step units loc) s is)"
  by (induction "is" arbitrary: s) (simp_all add: settings_session_step)

section \<open>Examples\<close>

lemma one_column_more:
  "\<exists>r s'. settingsUpdate lex_cmp [(''maxColumns'', JNum (Num 4))] (Num 0) (started_with (\<lambda>_. []) lex_cmp None) = (Some (Inr r), s')"
proof -
  define s2 where "s2 = AList.update ''downloadRoot'' (JStr []) (AList.update ''maxColumns'' (JNum (Num 4)) defaultSettings)"
  have p: "patched defaultSettings [(''maxColumns'', JNum (Num 4))] = AList.update ''maxColumns'' (JNum (Num 4)) defaultSettings"
    by (simp add: patched_def merge_patch_def Let_def field_update) (simp add: field_def defaultSettings_def)
  have path: "windowsPathForDisplay [] = []" by (simp add: windowsPathForDisplay_def unc_prefix_def verbatim_prefix_def starts_with_def)
  have tags: "normalizeGlobalSearchTags lex_cmp (JArr []) = Some []" by (simp add: normalizeGlobalSearchTags_def)
  have between: "integer_between a b (JNum (Num (of_int k)))" if "a \<le> k" "k \<le> b" for a b k
    using that by (simp add: integer_between_def)
  have "list_all (\<lambda>fr. snd fr (field (fst fr) defaultSettings)) (field_rules lex_cmp)"
    using defaults_valid by (simp add: settings_valid_def)
  note rules = this [unfolded field_rules_def, simplified]
  have empty: "field ''collapsedGroupKeys'' defaultSettings = JArr []" "field ''searchIncludeTags'' defaultSettings = JArr []"
    "field ''searchExcludeTags'' defaultSettings = JArr []" "field ''chzzkSsdStaging'' defaultSettings = JBool False"
    "field ''downloadRoot'' defaultSettings = JStr []" "field ''revision'' defaultSettings = JNum (Num 0)"
    "field ''folderNameTemplate'' defaultSettings = JStr ''[{artist}] {title} [{group}] {id}''"
    by (simp_all add: field_def defaultSettings_def)
  have "list_all (\<lambda>e. e = None) (settings_checks lex_cmp ''[{artist}] {title} [{group}] {id}'' s2)"
    unfolding s2_def using rules between [of 1 4 4]
    by (simp add: settings_checks_def Let_def field_update empty tags default_template group_keys_ok_def
        disjoint_tags_def boolean_def)
  then have "first_error (settings_checks lex_cmp ''[{artist}] {title} [{group}] {id}'' s2) = None"
    by (simp only: first_error_None)
  then show ?thesis
    by (simp add: settingsUpdate_def started_with_def readPersistedBrowserSettings_def empty p field_update path s2_def Let_def)
qed

text \<open>Reading does not repair every field: a number of columns that no update would accept is taken from the storage.\<close>

lemma stored_columns_unchecked:
  "field ''maxColumns'' (readPersistedBrowserSettings units loc (Some (Some (JObj [(''maxColumns'', JNum (Num 99))])))) = JNum (Num 99)"
  "\<not> integer_between 1 4 (JNum (Num 99))"
proof -
  have "windowsPathForDisplay [] = []" by (simp add: windowsPathForDisplay_def unc_prefix_def verbatim_prefix_def starts_with_def)
  moreover have "field ''downloadRoot'' [(''maxColumns'', JNum (Num 99))] = JUndef" "default ''downloadRoot'' = JStr []"
    by (simp_all add: field_def default_def defaultSettings_def)
  moreover have "field ''maxColumns'' (merge_patch (merge_patch defaultSettings [(''maxColumns'', JNum (Num 99))])
      (repaired_fields loc [] [(''maxColumns'', JNum (Num 99))])) = JNum (Num 99)"
    by (subst field_merge) (simp_all add: repaired_fields_def repairs_def field_merge)
  ultimately show "field ''maxColumns'' (readPersistedBrowserSettings units loc (Some (Some (JObj [(''maxColumns'', JNum (Num 99))])))) = JNum (Num 99)"
    by (simp add: readPersistedBrowserSettings_def repaired_def Let_def nullish_def)
  show "\<not> integer_between 1 4 (JNum (Num 99))" by (simp add: integer_between_def)
qed

section \<open>Properties\<close>

text \<open>C27: A folder name template is accepted exactly if it is not blank, has at most 512 bytes and no control characters,
  and consists of literal characters other than braces and of the tokens for artist, title, group and id in braces,
  the id among them.\<close>

theorem template_accepted:
  "validateFolderNameTemplate t = None \<longleftrightarrow> trim t \<noteq> [] \<and> length t \<le> 512 \<and> \<not> has_control t
     \<and> (\<exists>ps. t = concat (map render ps) \<and> list_all piece_ok ps \<and> Token ''id'' \<in> set ps)"
proof -
  have "template_loop False t = None \<longleftrightarrow> (\<exists>ps. t = concat (map render ps) \<and> list_all piece_ok ps \<and> Token ''id'' \<in> set ps)"
    (is "_ \<longleftrightarrow> ?pieces")
  proof
    show "template_loop False t = None \<Longrightarrow> ?pieces" using template_loop_pieces [of False t] by simp
    show "?pieces \<Longrightarrow> template_loop False t = None" by (elim exE conjE) (simp add: pieces_template_loop)
  qed
  then show ?thesis by (simp add: validateFolderNameTemplate_def Let_def not_less)
qed

text \<open>C25: Whatever updates callers try, in any order and with restarts in between, the settings in use always pass every
  check: numbers are integers in their ranges, choices are known ones, lists are normalised, and no tag is both
  demanded and excluded.\<close>

theorem settings_stay_valid:
  assumes "collation loc"
  shows "settings_valid loc (bs_settings (foldl (settings_step units loc) (started_with units loc None) is))"
  using session_ok_run [OF assms session_ok_start] by (simp add: session_ok_def)

lemma settings_stay_valid_witness:
  "settings_valid lex_cmp (bs_settings (foldl (settings_step (\<lambda>_. []) lex_cmp) (started_with (\<lambda>_. []) lex_cmp None)
     [SettingsPatch [(''maxColumns'', JNum (Num 4))] (Num 0), Restart]))"
  by (rule settings_stay_valid [OF collation_lex_cmp])

text \<open>C26: Settings survive a restart: after an accepted update, reading the storage gives every checked field as the update
  left it; the root of the downloads is put into its display form once more, and the staging switch, which may be
  missing, is on exactly if it was.\<close>

theorem settings_survive_restart:
  fixes units
  assumes "collation loc"
    and "settingsUpdate loc patch n (foldl (settings_step units loc) (started_with units loc None) is) = (Some (Inr r), s')"
  defines "again \<equiv> bs_settings (settings_step units loc s' Restart)"
  shows "(\<forall>f \<in> set (keys (field_rules loc)). field f again = field f r)
    \<and> (\<exists>path. field ''downloadRoot'' r = JStr path \<and> field ''downloadRoot'' again = JStr (windowsPathForDisplay path))
    \<and> field ''chzzkSsdStaging'' again = JBool (field ''chzzkSsdStaging'' r = JBool True)"
proof -
  have ok: "session_ok loc (foldl (settings_step units loc) (started_with units loc None) is)"
    by (rule session_ok_run [OF assms(1) session_ok_start])
  note u = update_session [OF assms(1) ok assms(2)]
  have again: "again = readPersistedBrowserSettings units loc (persistBrowserSettings r)"
    by (simp add: again_def started_with_def u(4))
  obtain path where "field ''downloadRoot'' r = JStr path" using u(1) by (auto simp: settings_valid_def)
  then show ?thesis
    using read_back(1) [OF u(1,2), where units = units] read_back(2) [OF u(1,2), where units = units]
      read_back(3) [OF u(1,2), where units = units] by (simp add: again)
qed

lemma settings_survive_restart_witness:
  "\<exists>r again path. fst (settingsUpdate lex_cmp [(''maxColumns'', JNum (Num 4))] (Num 0) (started_with (\<lambda>_. []) lex_cmp None)) = Some (Inr r)
    \<and> (\<forall>f \<in> set (keys (field_rules lex_cmp)). field f again = field f r)
    \<and> field ''downloadRoot'' again = JStr (windowsPathForDisplay path)"
proof -
  obtain r s' where u: "settingsUpdate lex_cmp [(''maxColumns'', JNum (Num 4))] (Num 0) (started_with (\<lambda>_. []) lex_cmp None) = (Some (Inr r), s')"
    using one_column_more by blast
  then have "settingsUpdate lex_cmp [(''maxColumns'', JNum (Num 4))] (Num 0)
      (foldl (settings_step (\<lambda>_. []) lex_cmp) (started_with (\<lambda>_. []) lex_cmp None) []) = (Some (Inr r), s')"
    by (simp only: foldl_Nil)
  note survives = settings_survive_restart [OF collation_lex_cmp this]
  show ?thesis
  proof (intro exI conjI)
    show "fst (settingsUpdate lex_cmp [(''maxColumns'', JNum (Num 4))] (Num 0) (started_with (\<lambda>_. []) lex_cmp None)) = Some (Inr r)"
      unfolding u fst_conv ..
    show "\<forall>f \<in> set (keys (field_rules lex_cmp)). field f (bs_settings (settings_step (\<lambda>_. []) lex_cmp s' Restart)) = field f r"
      using survives by (rule conjunct1)
    show "field ''downloadRoot'' (bs_settings (settings_step (\<lambda>_. []) lex_cmp s' Restart))
        = JStr (windowsPathForDisplay (case field ''downloadRoot'' r of JStr path \<Rightarrow> path | _ \<Rightarrow> []))"
      using conjunct1 [OF conjunct2 [OF survives]] by (elim exE conjE) (simp only: js_value.case)
  qed
qed

end
