(* ===== verification/BrowserSearch.thy ===== *)
theory BrowserSearch
  imports BrowserDuplicates
begin

text \<open>
  Searching in \<^verbatim>\<open>BrowserMockBackend\<close> (\<^verbatim>\<open>src/src/api/backend.ts\<close>): a search that is submitted gets an id, under which its
  result is kept and its pages are fetched; what was searched for is remembered in the history; favourites are kept
  by namespace and normalised value. \<open>fixture\<close> is the data file of galleries, \<open>loc\<close> is \<^verbatim>\<open>localeCompare\<close>, \<open>now\<close> the reading
  of the clock; the global include and exclude tags of the settings are the arguments \<open>inc\<close> and \<open>exc\<close> of a submission.
\<close>

section \<open>Records\<close>

datatype favorite_namespace = ArtistNs | GroupNs | SeriesNs | CharacterNs | TagNs

fun namespace_text :: "favorite_namespace \<Rightarrow> string" where
  "namespace_text ArtistNs = ''artist''"
| "namespace_text GroupNs = ''group''"
| "namespace_text SeriesNs = ''series''"
| "namespace_text CharacterNs = ''character''"
| "namespace_text TagNs = ''tag''"

record favorite_record =
  fv_namespace :: favorite_namespace
  fv_value :: string
  fv_revision :: nat
  fv_createdAt :: string
  fv_updatedAt :: string

record history_entry =
  he_historyId :: nat
  he_request :: search_request
  he_useCount :: nat
  he_lastUsedAt :: string

record search_session =
  sb_searchQueries :: "(string \<times> search_fixture_result) list"
  sb_searchHistory :: "(string \<times> history_entry) list"
  sb_nextSearchHistoryId :: nat
  sb_favorites :: "(string \<times> favorite_record) list"

definition new_search_session :: search_session where
  "new_search_session = \<lparr>sb_searchQueries = [], sb_searchHistory = [], sb_nextSearchHistoryId = 1, sb_favorites = []\<rparr>"

section \<open>Searching\<close>

definition recordSearchHistory :: "search_request \<Rightarrow> string \<Rightarrow> search_session \<Rightarrow> search_session" where
  "recordSearchHistory input now s =
     (let request = normalizeSearchRequest input
      in if sr_text request = [] \<and> sr_includeTags request = [] \<and> sr_excludeTags request = [] then s
         else let fingerprint = json_request request
              in case map_of (sb_searchHistory s) fingerprint of
                   Some current \<Rightarrow>
                     s\<lparr>sb_searchHistory := AList.update fingerprint
                         (current\<lparr>he_useCount := he_useCount current + 1, he_lastUsedAt := now\<rparr>) (sb_searchHistory s)\<rparr>
                 | None \<Rightarrow>
                     s\<lparr>sb_nextSearchHistoryId := sb_nextSearchHistoryId s + 1,
                       sb_searchHistory := AList.update fingerprint
                         \<lparr>he_historyId = sb_nextSearchHistoryId s, he_request = request, he_useCount = 1, he_lastUsedAt = now\<rparr>
                         (sb_searchHistory s)\<rparr>)"

definition effective_request :: "(string \<Rightarrow> string \<Rightarrow> int) \<Rightarrow> string list \<Rightarrow> string list \<Rightarrow> search_request \<Rightarrow> search_request" where
  "effective_request loc inc exc request = applyGlobalSearchRules loc (normalizeSearchRequest request) inc exc"

definition searchSubmit :: "fixture_gallery list \<Rightarrow> (string \<Rightarrow> string \<Rightarrow> int) \<Rightarrow> string list \<Rightarrow> string list \<Rightarrow> search_request \<Rightarrow>
    string \<Rightarrow> search_session \<Rightarrow> search_submission api_result \<times> search_session" where
  "searchSubmit fixture loc inc exc request now s =
     (case searchRequestValidationError request of
        Some (f, reason) \<Rightarrow> (Inl (validationError f reason), s)
      | None \<Rightarrow>
          let effectiveRequest = effective_request loc inc exc request;
              queryId = searchFixtureQueryId effectiveRequest;
              result = runSearchFixture fixture effectiveRequest;
              s1 = recordSearchHistory request now (s\<lparr>sb_searchQueries := AList.update queryId result (sb_searchQueries s)\<rparr>)
          in (Inr \<lparr>ss_queryId = queryId, ss_firstPage = searchFixturePage result 1\<rparr>, s1))"

definition request_id_error :: "string \<Rightarrow> api_error option" where
  "request_id_error requestId =
     (if trim requestId = [] \<or> length (trim requestId) > 200
      then Some (validationError ''requestId'' ''must contain between 1 and 200 bytes'') else None)"

definition searchPageGet :: "string \<Rightarrow> js_num \<Rightarrow> string \<Rightarrow> search_session \<Rightarrow> gallery_page api_result" where
  "searchPageGet queryId page requestId s =
     (case request_id_error requestId of
        Some err \<Rightarrow> Inl err
      | None \<Rightarrow>
          let normalizedQueryId = trim queryId; p = id_of_num page
          in if normalizedQueryId = [] then Inl (validationError ''queryId'' ''must not be empty'')
             else if length normalizedQueryId > 200 then Inl (validationError ''queryId'' ''must be at most 200 bytes'')
             else if \<not> is_integer page \<or> p < 1 then Inl (validationError ''page'' ''must be one-based'')
             else (case map_of (sb_searchQueries s) normalizedQueryId of
                     None \<Rightarrow> Inl (notFoundError ''QUERY_NOT_FOUND''
                       ''The search query is no longer available; submit it again'' (Some [(''queryId'', JStr normalizedQueryId)]))
                   | Some result \<Rightarrow>
                       let pageResult = searchFixturePage result p
                       in if (pg_totalPages pageResult = 0 \<and> p \<noteq> 1) \<or> (pg_totalPages pageResult > 0 \<and> p > pg_totalPages pageResult)
                          then Inl (validationError ''page'' ''must not exceed the available search pages'')
                          else Inr pageResult))"

definition searchPageCancel :: "string \<Rightarrow> bool api_result" where
  "searchPageCancel requestId = (case request_id_error requestId of Some err \<Rightarrow> Inl err | None \<Rightarrow> Inr True)"

section \<open>Details\<close>

definition gallery_id_error :: "js_num \<Rightarrow> api_error option" where
  "gallery_id_error i =
     (if \<not> is_integer i \<or> id_of_num i \<le> 0 then Some (validationError ''galleryId'' ''must be a positive integer'') else None)"

definition source_not_found :: "js_num \<Rightarrow> api_error" where
  "source_not_found i =
     notFoundError ''SOURCE_NOT_FOUND'' ''The gallery could not be found in the current source'' (Some [(''galleryId'', JNum i)])"

definition galleryDetailGet :: "fixture_gallery list \<Rightarrow> (gallery_id \<times> int) list \<Rightarrow> js_num \<Rightarrow> gallery_detail api_result" where
  "galleryDetailGet fixture composed i =
     (case gallery_id_error i of
        Some err \<Rightarrow> Inl err
      | None \<Rightarrow>
          (case galleryDetailFixture fixture (id_of_num i) of
             None \<Rightarrow> Inl (source_not_found i)
           | Some detail \<Rightarrow>
               Inr (case map_of composed (id_of_num i) of
                      Some n \<Rightarrow> detail\<lparr>gd_summary := (gd_summary detail)\<lparr>gs_pages := n\<rparr>, gd_pageDimensions := []\<rparr>
                    | None \<Rightarrow> detail)))"

definition gallerySummaryGet :: "fixture_gallery list \<Rightarrow> (gallery_id \<times> int) list \<Rightarrow> js_num \<Rightarrow> gallery_summary api_result" where
  "gallerySummaryGet fixture composed i =
     (case gallery_id_error i of
        Some err \<Rightarrow> Inl err
      | None \<Rightarrow>
          (case galleryDetailFixture fixture (id_of_num i) of
             None \<Rightarrow> Inl (source_not_found i)
           | Some detail \<Rightarrow>
               Inr (case map_of composed (id_of_num i) of
                      Some n \<Rightarrow> (gd_summary detail)\<lparr>gs_pages := n\<rparr>
                    | None \<Rightarrow> gd_summary detail)))"

section \<open>Favourites\<close>

definition favorite_order :: "(string \<Rightarrow> string \<Rightarrow> int) \<Rightarrow> favorite_record \<Rightarrow> favorite_record \<Rightarrow> int" where
  "favorite_order loc = js_or (\<lambda>x y. loc (namespace_text (fv_namespace x)) (namespace_text (fv_namespace y)))
     (\<lambda>x y. loc (fv_value x) (fv_value y))"

definition favoritesList :: "(string \<Rightarrow> string \<Rightarrow> int) \<Rightarrow> search_session \<Rightarrow> favorite_record list" where
  "favoritesList loc s = js_sort (favorite_order loc) (vals (sb_favorites s))"

text \<open>\<^verbatim>\<open>split(/\s+/).join(" ")\<close>: every run of white space becomes one space.\<close>

fun single_spaces :: "bool \<Rightarrow> string \<Rightarrow> string" where
  "single_spaces inside [] = []"
| "single_spaces inside (c # s) =
     (if is_space c then (if inside then single_spaces True s else CHR '' '' # single_spaces True s)
      else c # single_spaces False s)"

definition favorite_value :: "string \<Rightarrow> string" where
  "favorite_value v = single_spaces False (lower (trim v))"

definition favorite_value_error :: "string \<Rightarrow> api_error option" where
  "favorite_value_error v =
     (if v = [] then Some (validationError ''favorite.value'' ''must not be empty'')
      else if length v > 200 then Some (validationError ''favorite.value'' ''must be at most 200 bytes'')
      else if list_ex (\<lambda>c. (of_char c :: nat) < 0x20 \<or> c = CHR 0x7F) v
           then Some (validationError ''favorite.value'' ''must not contain control characters'')
      else None)"

definition favorite_map_key :: "favorite_namespace \<Rightarrow> string \<Rightarrow> string" where
  "favorite_map_key ns v = namespace_text ns @ '':'' @ v"

text \<open>The result is the favourite while it is enabled.\<close>

definition favoriteSet :: "favorite_namespace \<Rightarrow> string \<Rightarrow> bool \<Rightarrow> string \<Rightarrow> search_session \<Rightarrow>
    favorite_record option api_result \<times> search_session" where
  "favoriteSet ns input enabled now s =
     (let v = favorite_value input; mapKey = favorite_map_key ns v
      in case favorite_value_error v of
           Some err \<Rightarrow> (Inl err, s)
         | None \<Rightarrow>
             if \<not> enabled then (Inr None, s\<lparr>sb_favorites := AList.delete mapKey (sb_favorites s)\<rparr>)
             else let favorite = (case map_of (sb_favorites s) mapKey of
                        Some current \<Rightarrow> current\<lparr>fv_revision := fv_revision current + 1, fv_updatedAt := now\<rparr>
                      | None \<Rightarrow> \<lparr>fv_namespace = ns, fv_value = v, fv_revision = 0, fv_createdAt = now, fv_updatedAt = now\<rparr>)
                  in (Inr (Some favorite), s\<lparr>sb_favorites := AList.update mapKey favorite (sb_favorites s)\<rparr>))"

section \<open>History\<close>

definition history_order :: "(string \<Rightarrow> string \<Rightarrow> int) \<Rightarrow> history_entry \<Rightarrow> history_entry \<Rightarrow> int" where
  "history_order loc = js_or (\<lambda>x y. loc (he_lastUsedAt y) (he_lastUsedAt x))
     (\<lambda>x y. int (he_historyId y) - int (he_historyId x))"

definition searchHistoryList :: "(string \<Rightarrow> string \<Rightarrow> int) \<Rightarrow> js_num \<Rightarrow> search_session \<Rightarrow> history_entry list api_result" where
  "searchHistoryList loc limit s =
     (if \<not> is_integer limit \<or> id_of_num limit < 1 \<or> id_of_num limit > 100
      then Inl (validationError ''limit'' ''must be between 1 and 100'')
      else Inr (List.take (nat (id_of_num limit)) (js_sort (history_order loc) (vals (sb_searchHistory s)))))"

text \<open>What was searched for, without the size of the pages.\<close>

definition history_key :: "history_entry \<Rightarrow> string" where
  "history_key e =
     (let r = he_request e
      in json_list (\<lambda>t. t) [json_string (sr_text r), json_list json_string (sr_includeTags r),
           json_list json_string (sr_excludeTags r), json_list json_string (map language_name (sr_languages r)),
           json_string (sort_name (sr_sort r))])"

definition searchHistoryRemove :: "js_num \<Rightarrow> search_session \<Rightarrow> nat api_result \<times> search_session" where
  "searchHistoryRemove historyId s =
     (if \<not> is_safe_integer historyId \<or> id_of_num historyId \<le> 0 then (Inl (validationError ''historyId'' ''must be positive''), s)
      else case find (\<lambda>e. int (he_historyId e) = id_of_num historyId) (vals (sb_searchHistory s)) of
             None \<Rightarrow> (Inr 0, s)
           | Some selected \<Rightarrow>
               let gone = (\<lambda>kv. history_key (snd kv) = history_key selected)
               in (Inr (length (filter gone (sb_searchHistory s))),
                   s\<lparr>sb_searchHistory := filter (\<lambda>kv. \<not> gone kv) (sb_searchHistory s)\<rparr>))"

definition searchHistoryClear :: "search_session \<Rightarrow> nat api_result \<times> search_session" where
  "searchHistoryClear s = (Inr (length (sb_searchHistory s)), s\<lparr>sb_searchHistory := []\<rparr>)"

section \<open>Calls\<close>

text \<open>The calls that change the state; \<open>ForgetAll\<close> is what a factory reset does to it.\<close>

datatype search_call =
    Submit "string list" "string list" search_request string
  | SetFavorite favorite_namespace string bool string
  | HistoryRemove js_num
  | HistoryClear
  | ForgetAll

fun search_step :: "fixture_gallery list \<Rightarrow> (string \<Rightarrow> string \<Rightarrow> int) \<Rightarrow> search_session \<Rightarrow> search_call \<Rightarrow> search_session" where
  "search_step fixture loc s (Submit inc exc request now) = snd (searchSubmit fixture loc inc exc request now s)"
| "search_step fixture loc s (SetFavorite ns v enabled now) = snd (favoriteSet ns v enabled now s)"
| "search_step fixture loc s (HistoryRemove i) = snd (searchHistoryRemove i s)"
| "search_step fixture loc s HistoryClear = snd (searchHistoryClear s)"
| "search_step fixture loc s ForgetAll = s\<lparr>sb_favorites := [], sb_searchHistory := []\<rparr>"

end
