(* ===== verification/BrowserSearchFacts.thy ===== *)
theory BrowserSearchFacts
  imports BrowserSearch
begin

text \<open>
  What searching in the browser backend promises: the pages of a submitted search stay available and, put together,
  are its result; the history holds each search once and counts its uses; a favourite is listed exactly if the last
  call about it asked for it.
\<close>

section \<open>Ids of queries\<close>

lemma hex_char_plain: "\<not> is_space (hex_char n)"
proof -
  have "n mod 16 \<in> {0..<16}" by simp
  also have "{0..<16 :: nat} = {0, 1, 2, 3, 4, 5, 6, 7, 8, 9, 10, 11, 12, 13, 14, 15}" by (auto simp: numeral_eq_Suc less_Suc_eq)
  finally show ?thesis by (auto simp: hex_char_def is_space_def)
qed

lemma hex_digits_last: "hex_digits n \<noteq> [] \<and> \<not> is_space (last (hex_digits n))"
  by (cases "n < 16") (simp_all add: hex_digits.simps [of n] hex_char_plain)

lemma hex16_last: "hex16 w \<noteq> [] \<and> \<not> is_space (last (hex16 w))"
  using hex_digits_last [of "unat w"] by (simp add: hex16_def pad_start_def)

lemma trim_same: "t \<noteq> [] \<Longrightarrow> \<not> is_space (hd t) \<Longrightarrow> \<not> is_space (last t) \<Longrightarrow> trim t = t"
  by (simp add: trim_def hd_rev dropWhile_eq_self_iff [THEN iffD2])

lemma query_id_plain: "trim (searchFixtureQueryId r) = searchFixtureQueryId r"
  "searchFixtureQueryId r \<noteq> []" "length (searchFixtureQueryId r) = 40"
proof -
  let ?k = "searchRequestKey r"
  have q: "searchFixtureQueryId r = ''fixture-'' @ hex16 (fnv1a ?k 0xcbf29ce484222325) @ hex16 (fnv1a ?k 0x84222325cbf29ce4)"
    by (simp add: searchFixtureQueryId_def Let_def)
  show "searchFixtureQueryId r \<noteq> []" "length (searchFixtureQueryId r) = 40" by (simp_all add: q)
  show "trim (searchFixtureQueryId r) = searchFixtureQueryId r"
    using hex16_last by (intro trim_same) (simp_all add: q is_space_def)
qed

section \<open>Results that were submitted\<close>

lemma submit_queries:
  "sb_searchQueries (snd (searchSubmit fixture loc inc exc request now s)) =
    (if searchRequestValidationError request = None
     then AList.update (searchFixtureQueryId (effective_request loc inc exc request))
       (runSearchFixture fixture (effective_request loc inc exc request)) (sb_searchQueries s)
     else sb_searchQueries s)"
  by (auto simp: searchSubmit_def recordSearchHistory_def Let_def split: option.splits)

lemma other_queries [simp]:
  "sb_searchQueries (snd (favoriteSet ns v enabled now s)) = sb_searchQueries s"
  "sb_searchQueries (snd (searchHistoryRemove i s)) = sb_searchQueries s"
  "sb_searchQueries (snd (searchHistoryClear s)) = sb_searchQueries s"
  by (auto simp: favoriteSet_def searchHistoryRemove_def searchHistoryClear_def Let_def split: option.splits)

text \<open>No other search has the same id: a collision of the hash.\<close>

definition no_collision :: "(string \<Rightarrow> string \<Rightarrow> int) \<Rightarrow> search_request \<Rightarrow> search_call \<Rightarrow> bool" where
  "no_collision loc eff c = (case c of
     Submit inc exc request now \<Rightarrow>
       searchFixtureQueryId (effective_request loc inc exc request) = searchFixtureQueryId eff
         \<longrightarrow> searchRequestKey (effective_request loc inc exc request) = searchRequestKey eff
   | _ \<Rightarrow> True)"

lemma run_by_key: "searchRequestKey r = searchRequestKey r' \<Longrightarrow> runSearchFixture fixture r = runSearchFixture fixture r'"
  by (simp add: searchRequestKey_def json_request_inj runSearchFixture_def)

lemma result_kept:
  assumes "map_of (sb_searchQueries s) (searchFixtureQueryId eff) = Some (runSearchFixture fixture eff)"
    and "list_all (no_collision loc eff) cs"
  shows "map_of (sb_searchQueries (foldl (search_step fixture loc) s cs)) (searchFixtureQueryId eff)
    = Some (runSearchFixture fixture eff)"
  using assms
proof (induction cs arbitrary: s)
  case (Cons c cs)
  have "map_of (sb_searchQueries (search_step fixture loc s c)) (searchFixtureQueryId eff) = Some (runSearchFixture fixture eff)"
    using Cons.prems by (cases c) (auto simp: submit_queries lookup_update no_collision_def intro: run_by_key)
  with Cons show ?case by simp
qed simp

lemma valid_page_size: "searchRequestValidationError r = None \<Longrightarrow> 1 \<le> sr_pageSize r"
  by (auto simp: searchRequestValidationError_def split: if_splits)

lemma effective_page_size [simp]: "sr_pageSize (effective_request loc inc exc r) = sr_pageSize r"
  by (simp add: effective_request_def applyGlobalSearchRules_def normalizeSearchRequest_def Let_def)

lemma result_page_size [simp]: "sr_pageSize (sf_request (runSearchFixture fixture r)) = sr_pageSize r"
  by (simp add: runSearchFixture_def normalizeSearchRequest_def Let_def)

lemma page_total: "pg_totalPages (searchFixturePage r p) = pg_totalPages (searchFixturePage r 1)"
  by (simp add: searchFixturePage_def Let_def)

lemma page_total_nonneg: "1 \<le> sr_pageSize (sf_request r) \<Longrightarrow> 0 \<le> pg_totalPages (searchFixturePage r p)"
  using ceil_div_nonneg [of "sr_pageSize (sf_request r)" "int (length (sf_items r))"]
  by (simp add: searchFixturePage_def Let_def)

section \<open>History\<close>

definition uses_of :: "(string \<times> history_entry) list \<Rightarrow> string \<Rightarrow> nat" where
  "uses_of m fp = (case map_of m fp of Some e \<Rightarrow> he_useCount e | None \<Rightarrow> 0)"

text \<open>The search a call adds to the history.\<close>

definition searched :: "search_call \<Rightarrow> string option" where
  "searched c = (case c of
     Submit inc exc request now \<Rightarrow>
       let r = normalizeSearchRequest request
       in if searchRequestValidationError request \<noteq> None
             \<or> (sr_text r = [] \<and> sr_includeTags r = [] \<and> sr_excludeTags r = []) then None
          else Some (json_request r)
   | _ \<Rightarrow> None)"

definition forgets :: "search_call \<Rightarrow> bool" where
  "forgets c \<longleftrightarrow> (case c of HistoryRemove i \<Rightarrow> True | HistoryClear \<Rightarrow> True | ForgetAll \<Rightarrow> True | _ \<Rightarrow> False)"

definition history_ok :: "search_session \<Rightarrow> bool" where
  "history_ok s \<longleftrightarrow> distinct (keys (sb_searchHistory s))
     \<and> distinct (map he_historyId (vals (sb_searchHistory s)))
     \<and> (\<forall>(fp, e) \<in> set (sb_searchHistory s). fp = json_request (he_request e) \<and> 1 \<le> he_useCount e
          \<and> 1 \<le> he_historyId e \<and> he_historyId e < sb_nextSearchHistoryId s)
     \<and> 1 \<le> sb_nextSearchHistoryId s"

lemma vals_update_ids:
  "map_of m k = Some v \<Longrightarrow> f v' = f v \<Longrightarrow> distinct (keys m) \<Longrightarrow> map f (vals (AList.update k v' m)) = map f (vals m)"
  by (induction m) (auto split: if_splits)

lemma update_fresh: "k \<notin> set (keys m) \<Longrightarrow> AList.update k v m = m @ [(k, v)]"
  by (induction m) auto

lemma record_history:
  assumes "history_ok s"
  shows "history_ok (recordSearchHistory r now s)"
proof -
  let ?r = "normalizeSearchRequest r"
  let ?m = "sb_searchHistory s"
  have ok: "distinct (keys ?m)" "distinct (map he_historyId (vals ?m))" "1 \<le> sb_nextSearchHistoryId s"
    "\<And>fp e. (fp, e) \<in> set ?m \<Longrightarrow> fp = json_request (he_request e) \<and> 1 \<le> he_useCount e
      \<and> 1 \<le> he_historyId e \<and> he_historyId e < sb_nextSearchHistoryId s"
    using assms by (auto simp: history_ok_def)
  show "history_ok (recordSearchHistory r now s)"
  proof (cases "sr_text ?r = [] \<and> sr_includeTags ?r = [] \<and> sr_excludeTags ?r = []")
    case False
    show ?thesis
    proof (cases "map_of ?m (json_request ?r)")
      case None
      then have fresh: "json_request ?r \<notin> set (keys ?m)" by (simp add: map_of_None_keys)
      have "sb_nextSearchHistoryId s \<notin> he_historyId ` set (vals ?m)" using ok(4) by fastforce
      then show ?thesis using None False ok
        by (auto simp: recordSearchHistory_def Let_def history_ok_def update_fresh [OF fresh] fresh less_Suc_eq)
    next
      case (Some e)
      note e = ok(4) [OF map_of_in_set [OF Some]]
      have "map he_historyId (vals (AList.update (json_request ?r) (e\<lparr>he_useCount := he_useCount e + 1, he_lastUsedAt := now\<rparr>) ?m))
          = map he_historyId (vals ?m)"
        by (rule vals_update_ids [OF Some]) (simp_all add: ok(1))
      moreover have "fp = json_request (he_request e') \<and> 1 \<le> he_useCount e' \<and> 1 \<le> he_historyId e' \<and> he_historyId e' < sb_nextSearchHistoryId s"
        if "(fp, e') \<in> set (AList.update (json_request ?r) (e\<lparr>he_useCount := he_useCount e + 1, he_lastUsedAt := now\<rparr>) ?m)" for fp e'
        using subsetD [OF set_update_subset that] ok(4) [of fp e'] e by auto
      ultimately show ?thesis using Some False ok(1-3)
        by (simp add: recordSearchHistory_def Let_def history_ok_def) blast
    qed
  qed (use assms in \<open>simp add: recordSearchHistory_def Let_def\<close>)
qed

lemma record_uses:
  "searchRequestValidationError r = None \<Longrightarrow> uses_of (sb_searchHistory (recordSearchHistory r now s)) fp
    = uses_of (sb_searchHistory s) fp + of_bool (searched (Submit inc exc r now) = Some fp)"
  by (auto simp: recordSearchHistory_def searched_def Let_def uses_of_def lookup_update split: option.splits)

lemma submit_history:
  "searchRequestValidationError r \<noteq> None \<Longrightarrow> snd (searchSubmit fixture loc inc exc r now s) = s"
  "searchRequestValidationError r = None \<Longrightarrow>
    snd (searchSubmit fixture loc inc exc r now s) = recordSearchHistory r now (s\<lparr>sb_searchQueries :=
      AList.update (searchFixtureQueryId (effective_request loc inc exc r))
        (runSearchFixture fixture (effective_request loc inc exc r)) (sb_searchQueries s)\<rparr>)"
  by (auto simp: searchSubmit_def Let_def split: option.splits)

lemma favorite_history [simp]: "sb_searchHistory (snd (favoriteSet ns v enabled now s)) = sb_searchHistory s"
  "sb_nextSearchHistoryId (snd (favoriteSet ns v enabled now s)) = sb_nextSearchHistoryId s"
  by (auto simp: favoriteSet_def Let_def split: option.splits)

lemma history_subset:
  assumes "history_ok s" and "sb_searchHistory s' = filter P (sb_searchHistory s)"
    and "sb_nextSearchHistoryId s' = sb_nextSearchHistoryId s"
  shows "history_ok s'"
  using assms by (auto simp: history_ok_def distinct_map_filter)

lemma history_ok_step:
  assumes "history_ok s"
  shows "history_ok (search_step fixture loc s c)"
proof (cases c)
  case (Submit inc exc request now)
  show ?thesis
  proof (cases "searchRequestValidationError request = None")
    case True
    have "history_ok (s\<lparr>sb_searchQueries := q\<rparr>)" for q using assms by (simp add: history_ok_def)
    then show ?thesis using True Submit by (simp add: submit_history record_history)
  qed (use assms Submit in \<open>simp add: submit_history\<close>)
next
  case (SetFavorite ns v enabled now)
  then show ?thesis using assms by (simp add: history_ok_def)
next
  case (HistoryRemove i)
  show ?thesis
    using assms unfolding HistoryRemove search_step.simps searchHistoryRemove_def
    by (auto simp: Let_def intro: history_subset split: option.splits)
next
  case HistoryClear
  then show ?thesis using assms by (simp add: searchHistoryClear_def history_ok_def)
next
  case ForgetAll
  then show ?thesis using assms by (simp add: history_ok_def)
qed

lemma history_ok_new: "history_ok new_search_session"
  by (simp add: history_ok_def new_search_session_def)

interpretation history: machine "search_step fixture loc" history_ok new_search_session for fixture loc
  by unfold_locales (rule history_ok_new, rule history_ok_step)

lemma uses_step:
  assumes "\<not> forgets c"
  shows "uses_of (sb_searchHistory (search_step fixture loc s c)) fp
    = uses_of (sb_searchHistory s) fp + of_bool (searched c = Some fp)"
proof (cases c)
  case (Submit inc exc request now)
  show ?thesis
  proof (cases "searchRequestValidationError request = None")
    case True
    then show ?thesis using Submit record_uses [OF True, of now _ fp inc exc] by (simp add: submit_history)
  next
    case False
    then show ?thesis using Submit by (simp add: submit_history searched_def Let_def)
  qed
qed (use assms in \<open>simp_all add: forgets_def searched_def\<close>)

lemma uses_run:
  "list_all (\<lambda>c. \<not> forgets c) cs \<Longrightarrow> uses_of (sb_searchHistory (foldl (search_step fixture loc) s cs)) fp
    = uses_of (sb_searchHistory s) fp + length (filter (\<lambda>c. searched c = Some fp) cs)"
  by (induction cs arbitrary: s) (simp_all add: uses_step)

section \<open>Favourites\<close>

definition favorites_ok :: "(string \<times> favorite_record) list \<Rightarrow> bool" where
  "favorites_ok m \<longleftrightarrow> distinct (keys m)
     \<and> (\<forall>(k, f) \<in> set m. k = favorite_map_key (fv_namespace f) (fv_value f) \<and> favorite_value_error (fv_value f) = None)"

lemma favorite_map_key_inj: "favorite_map_key ns v = favorite_map_key ns' v' \<longleftrightarrow> ns = ns' \<and> v = v'"
  by (cases ns; cases ns') (simp_all add: favorite_map_key_def)

lemma submit_favorites [simp]: "sb_favorites (snd (searchSubmit fixture loc inc exc r now s)) = sb_favorites s"
  by (auto simp: searchSubmit_def recordSearchHistory_def Let_def split: option.splits)

lemma history_favorites [simp]: "sb_favorites (snd (searchHistoryRemove i s)) = sb_favorites s"
  "sb_favorites (snd (searchHistoryClear s)) = sb_favorites s"
  by (auto simp: searchHistoryRemove_def searchHistoryClear_def Let_def split: option.splits)

lemma favorites_ok_set:
  assumes "favorites_ok (sb_favorites s)"
  shows "favorites_ok (sb_favorites (snd (favoriteSet ns v enabled now s)))"
proof -
  let ?m = "sb_favorites s"
  have ok: "distinct (keys ?m)"
    "\<And>k f. (k, f) \<in> set ?m \<Longrightarrow> k = favorite_map_key (fv_namespace f) (fv_value f) \<and> favorite_value_error (fv_value f) = None"
    using assms by (auto simp: favorites_ok_def)
  have put: "favorites_ok (AList.update k f ?m)"
    if "k = favorite_map_key (fv_namespace f) (fv_value f)" "favorite_value_error (fv_value f) = None" for k f
  proof -
    have "k' = favorite_map_key (fv_namespace f') (fv_value f') \<and> favorite_value_error (fv_value f') = None"
      if "(k', f') \<in> set (AList.update k f ?m)" for k' f'
      using subsetD [OF set_update_subset that] ok(2) [of k' f'] \<open>k = _\<close> \<open>favorite_value_error (fv_value f) = None\<close> by auto
    then show ?thesis using ok(1) by (auto simp: favorites_ok_def)
  qed
  have del: "favorites_ok (AList.delete k ?m)" for k
    using assms subsetD [OF set_delete_subset, of _ k ?m] by (auto simp: favorites_ok_def)
  show ?thesis
  proof (cases "favorite_value_error (favorite_value v)")
    case None
    show ?thesis
    proof (cases "map_of ?m (favorite_map_key ns (favorite_value v))")
      case (Some f)
      from ok(2) [OF map_of_in_set [OF Some]]
      show ?thesis using Some None del by (auto simp: favoriteSet_def Let_def intro!: put)
    qed (use None del in \<open>auto simp: favoriteSet_def Let_def intro!: put\<close>)
  qed (use assms in \<open>simp add: favoriteSet_def Let_def\<close>)
qed

lemma favorites_ok_step: "favorites_ok (sb_favorites s) \<Longrightarrow> favorites_ok (sb_favorites (search_step fixture loc s c))"
  by (cases c) (simp_all add: favorites_ok_set, simp add: favorites_ok_def)

interpretation favourites: machine "search_step fixture loc" "\<lambda>s. favorites_ok (sb_favorites s)" new_search_session
  for fixture loc
  by unfold_locales (simp add: new_search_session_def favorites_ok_def, rule favorites_ok_step)

text \<open>What the last call about a favourite asked for.\<close>

fun wish :: "favorite_namespace \<Rightarrow> string \<Rightarrow> bool \<Rightarrow> search_call \<Rightarrow> bool" where
  "wish ns v w (SetFavorite ns' t enabled now) =
     (if ns' = ns \<and> favorite_value t = v \<and> favorite_value_error v = None then enabled else w)"
| "wish ns v w ForgetAll = False"
| "wish ns v w c = w"

lemma listed_step:
  "favorite_map_key ns v \<in> set (keys (sb_favorites (search_step fixture loc s c)))
    \<longleftrightarrow> wish ns v (favorite_map_key ns v \<in> set (keys (sb_favorites s))) c"
  by (cases c) (auto simp: favoriteSet_def Let_def set_keys_update favorite_map_key_inj simp del: set_map split: option.splits)

lemma listed_run:
  "favorite_map_key ns v \<in> set (keys (sb_favorites (foldl (search_step fixture loc) s cs)))
    \<longleftrightarrow> foldl (wish ns v) (favorite_map_key ns v \<in> set (keys (sb_favorites s))) cs"
proof (induction cs arbitrary: s)
  case (Cons c cs)
  show ?case by (simp only: foldl_Cons Cons.IH listed_step)
qed simp

lemma favorites_key: "favorites_ok m \<Longrightarrow> (k, f) \<in> set m \<Longrightarrow> k = favorite_map_key (fv_namespace f) (fv_value f)"
  by (auto simp: favorites_ok_def)

lemma listed_iff:
  assumes "favorites_ok (sb_favorites s)"
  shows "(ns, v) \<in> set (map (\<lambda>f. (fv_namespace f, fv_value f)) (favoritesList loc s))
    \<longleftrightarrow> favorite_map_key ns v \<in> set (keys (sb_favorites s))"
proof
  note ok = favorites_key [OF assms]
  assume "(ns, v) \<in> set (map (\<lambda>f. (fv_namespace f, fv_value f)) (favoritesList loc s))"
  then obtain k f where f: "(k, f) \<in> set (sb_favorites s)" "fv_namespace f = ns" "fv_value f = v"
    by (auto simp: favoritesList_def)
  then have "k = favorite_map_key ns v" using ok [OF f(1)] by simp
  with f(1) show "favorite_map_key ns v \<in> set (keys (sb_favorites s))" by (auto intro: rev_image_eqI)
next
  note ok = favorites_key [OF assms]
  assume "favorite_map_key ns v \<in> set (keys (sb_favorites s))"
  then obtain f where f: "(favorite_map_key ns v, f) \<in> set (sb_favorites s)" by auto
  have "fv_namespace f = ns" "fv_value f = v" using ok [OF f] by (simp_all add: favorite_map_key_inj)
  then have "(ns, v) = (fv_namespace f, fv_value f)" by simp
  then show "(ns, v) \<in> set (map (\<lambda>f. (fv_namespace f, fv_value f)) (favoritesList loc s))"
    using f by (auto simp: favoritesList_def intro: rev_image_eqI)
qed

lemma listed_distinct:
  assumes "favorites_ok (sb_favorites s)"
  shows "distinct (map (\<lambda>f. (fv_namespace f, fv_value f)) (favoritesList loc s))"
proof -
  have "map fst (sb_favorites s) = map (\<lambda>f. favorite_map_key (fv_namespace f) (fv_value f)) (vals (sb_favorites s))"
    using assms by (auto simp: favorites_ok_def)
  then have d: "distinct (map (\<lambda>f. favorite_map_key (fv_namespace f) (fv_value f)) (vals (sb_favorites s)))"
    using assms unfolding favorites_ok_def by (metis)
  then have "distinct (vals (sb_favorites s))" by (simp only: distinct_map)
  moreover have i: "inj_on (\<lambda>f. favorite_map_key (fv_namespace f) (fv_value f)) (set (vals (sb_favorites s)))"
    using d by (simp only: distinct_map)
  have "inj_on (\<lambda>f. (fv_namespace f, fv_value f)) (set (vals (sb_favorites s)))"
    by (rule inj_onI) (rule inj_onD [OF i], simp_all only: prod.inject)
  ultimately show ?thesis by (simp add: favoritesList_def distinct_map)
qed

section \<open>Properties\<close>

text \<open>C30: A search that was accepted stays available: whatever is called afterwards, short of another search whose id
  collides with this one, its pages are answered under its id up to the last one and refused beyond; the first page
  is the one the submission answered; put together the pages are the result of the search.\<close>

theorem submitted_pages_available:
  fixes fixture loc inc exc request submission
  assumes "searchSubmit fixture loc inc exc request now s = (Inr submission, s')"
    and "list_all (no_collision loc (effective_request loc inc exc request)) cs"
    and "request_id_error requestId = None"
  defines "r \<equiv> runSearchFixture fixture (effective_request loc inc exc request)"
  defines "pages \<equiv> pg_totalPages (ss_firstPage submission)"
  shows "searchPageGet (ss_queryId submission) (Num (of_int p)) requestId (foldl (search_step fixture loc) s' cs)
      = (if p < 1 then Inl (validationError ''page'' ''must be one-based'')
         else if p > max 1 pages then Inl (validationError ''page'' ''must not exceed the available search pages'')
         else Inr (searchFixturePage r p))
    \<and> searchFixturePage r 1 = ss_firstPage submission
    \<and> concat (map (\<lambda>p. pg_items (searchFixturePage r p)) [1..pages]) = sf_items r"
proof -
  let ?eff = "effective_request loc inc exc request"
  have valid: "searchRequestValidationError request = None"
    using assms(1) by (auto simp: searchSubmit_def split: option.splits)
  have sub: "submission = \<lparr>ss_queryId = searchFixtureQueryId ?eff, ss_firstPage = searchFixturePage r 1\<rparr>"
    using assms(1) valid by (simp add: searchSubmit_def Let_def r_def)
  have "sb_searchQueries s' = AList.update (searchFixtureQueryId ?eff) r (sb_searchQueries s)"
    using submit_queries [of fixture loc inc exc request now s] assms(1) valid by (simp add: r_def)
  then have "map_of (sb_searchQueries (foldl (search_step fixture loc) s' cs)) (searchFixtureQueryId ?eff) = Some r"
    unfolding r_def by (intro result_kept [OF _ assms(2)]) (simp add: lookup_update)
  moreover have size: "1 \<le> sr_pageSize (sf_request r)" using valid_page_size [OF valid] by (simp add: r_def)
  moreover have "id_of_num (Num (of_int p)) = p" by (simp add: id_of_num_def)
  moreover have "pg_totalPages (searchFixturePage r p) = pages" for p
    using page_total [of r p] by (simp add: pages_def sub)
  ultimately show ?thesis
    using page_total_nonneg [OF size, of 1] search_pages_join [OF size, of 1] assms(3) query_id_plain [of ?eff]
    by (simp add: sub searchPageGet_def Let_def)
qed

lemma submitted_pages_available_witness:
  "searchPageGet (searchFixtureQueryId (effective_request lex_cmp [] [] (sample_search [''x''] Recent))) (Num (of_int 2)) ''r''
     (snd (favoriteSet TagNs ''x'' True ''t''
       (snd (searchSubmit [sample_fixture 1 5 [''x'']] lex_cmp [] [] (sample_search [''x''] Recent) ''t'' new_search_session))))
   = Inl (validationError ''page'' ''must not exceed the available search pages'')"
proof -
  let ?fx = "[sample_fixture 1 5 [''x'']]" and ?rq = "sample_search [''x''] Recent"
  have valid: "searchRequestValidationError ?rq = None"
    by (simp add: searchRequestValidationError_def sample_search_def tag_list_error_def trim_def is_space_def lower_def lower_char_def)
  obtain sub s' where sub: "searchSubmit ?fx lex_cmp [] [] ?rq ''t'' new_search_session = (Inr sub, s')"
    using valid by (simp add: searchSubmit_def Let_def)
  have id: "ss_queryId sub = searchFixtureQueryId (effective_request lex_cmp [] [] ?rq)"
    and first: "ss_firstPage sub = searchFixturePage (runSearchFixture ?fx (effective_request lex_cmp [] [] ?rq)) 1"
    using sub valid by (auto simp: searchSubmit_def Let_def)
  have r: "request_id_error ''r'' = None" by (simp add: request_id_error_def trim_def is_space_def)
  have n: "length (sf_items (runSearchFixture ?fx q)) \<in> {0, 1}" for q by (auto simp: runSearchFixture_def Let_def)
  have "sr_pageSize ?rq = 2" by (simp add: sample_search_def)
  then have "pg_totalPages (ss_firstPage sub) \<le> 1"
    using n [of "effective_request lex_cmp [] [] ?rq"] unfolding first
    by (auto simp: searchFixturePage_def Let_def ceil_div_def)
  then show ?thesis
    using submitted_pages_available [OF sub, of "[SetFavorite TagNs ''x'' True ''t'']" "''r''" 2]
    by (simp add: no_collision_def r id sub)
qed

text \<open>C31: The history counts: as long as nothing is removed, the number of uses of a search grows by the number of times
  it was submitted, in whatever spelling; each search has one entry, under its own id.\<close>

theorem history_counts_searches:
  fixes fixture loc earlier later
  assumes "list_all (\<lambda>c. \<not> forgets c) later"
  defines "before \<equiv> foldl (search_step fixture loc) new_search_session earlier"
    and "after \<equiv> foldl (search_step fixture loc) new_search_session (earlier @ later)"
  shows "uses_of (sb_searchHistory after) fp
      = uses_of (sb_searchHistory before) fp + length (filter (\<lambda>c. searched c = Some fp) later)
    \<and> history_ok after"
  using uses_run [OF assms(1), of fixture loc before fp]
    history.inv_reachable [of fixture loc "earlier @ later"] by (simp add: before_def after_def)

lemma history_counts_searches_witness:
  "uses_of (sb_searchHistory (foldl (search_step [] lex_cmp) new_search_session
     ([HistoryClear] @ [Submit [] [] (sample_search ['' X''] Recent) ''t'', Submit [] [] (sample_search [''x''] Recent) ''u''])))
     (json_request (normalizeSearchRequest (sample_search [''x''] Recent))) = 2"
proof -
  have e: "normalizeSearchRequest (sample_search ['' X''] Recent) = normalizeSearchRequest (sample_search [''x''] Recent)"
    by code_simp
  have "searched (Submit [] [] (sample_search [''x''] Recent) ''u'')
      = Some (json_request (normalizeSearchRequest (sample_search [''x''] Recent)))"
    "searched (Submit [] [] (sample_search ['' X''] Recent) ''t'')
      = Some (json_request (normalizeSearchRequest (sample_search [''x''] Recent)))"
    by code_simp+
  then show ?thesis
    using history_counts_searches [of "[Submit [] [] (sample_search ['' X''] Recent) ''t'', Submit [] [] (sample_search [''x''] Recent) ''u'']"
        "[] :: fixture_gallery list" lex_cmp "[HistoryClear]" "json_request (normalizeSearchRequest (sample_search [''x''] Recent))"]
    by (simp add: forgets_def searchHistoryClear_def new_search_session_def uses_of_def)
qed

text \<open>C32: A favourite is listed exactly if the last valid call about it, in any spelling, enabled it and no factory reset
  came after; none is listed twice.\<close>

theorem favorites_follow_calls:
  fixes fixture loc cs
  defines "listed \<equiv> map (\<lambda>f. (fv_namespace f, fv_value f))
    (favoritesList loc (foldl (search_step fixture loc) new_search_session cs))"
  shows "((ns, v) \<in> set (listed) \<longleftrightarrow> foldl (wish ns v) False cs) \<and> distinct (listed)"
proof
  note ok = favourites.inv_reachable [of fixture loc cs]
  show "(ns, v) \<in> set (listed) \<longleftrightarrow> foldl (wish ns v) False cs"
    unfolding listed_def listed_iff [OF ok] listed_run by (simp add: new_search_session_def)
  show "distinct (listed)" unfolding listed_def by (rule listed_distinct [OF ok])
qed

end
