(* ===== verification/BrowserAutoFind.thy ===== *)
theory BrowserAutoFind
  imports BrowserSearch BrowserExclusions
begin

text \<open>
  Auto Find in \<^verbatim>\<open>BrowserMockBackend\<close> (\<^verbatim>\<open>src/src/api/backend.ts\<close>): a run searches for the galleries of each favourite
  artist and group, one timer after the other, and collects those the user has not dealt with yet; what is older than
  the latest album owned of a favourite is left out, as the history mode says. Candidates can be excluded and taken back.
  The rest of the backend that a run looks at (favourites, downloads, hidden galleries, settings) is the record
  \<open>auto_world\<close>, which may change at any moment.
\<close>

section \<open>Records\<close>

type_synonym favorite_key = "favorite_namespace \<times> string"

datatype history_mode = IncludeAllHistory | NewerThanLatestOwned | NewerThanOldestDownloaded

datatype auto_run_state = AutoRunning | AutoCompleted | AutoFailed | AutoCancelled

record auto_run =
  ar_runId :: string
  ar_revision :: nat
  ar_state :: auto_run_state
  ar_totalFavorites :: nat
  ar_completedFavorites :: nat
  ar_candidatesFound :: nat
  ar_startedAt :: string
  ar_updatedAt :: string
  ar_finishedAt :: "string option"
  ar_historyMode :: history_mode

record cutoff_evidence =
  cx_namespace :: "favorite_namespace option"
  cx_artist :: string
  cx_oldestOwned :: "gallery_id option"
  cx_latestOwned :: "gallery_id option"
  cx_qualifiedOwnedCount :: nat

record truncation =
  tn_namespace :: "favorite_namespace option"
  tn_artist :: string
  tn_eligibleCount :: nat
  tn_limit :: nat

record auto_candidate =
  ac_gallery :: gallery_summary
  ac_runId :: string
  ac_matchedFavorite :: favorite_key
  ac_matchedFavorites :: "favorite_key list option"
  ac_discoveredAt :: string

record auto_world =
  aw_favorites :: "favorite_record list"
  aw_entries :: "download_entry list"
  aw_hiddenIds :: "gallery_id list"
  aw_historyMode :: history_mode

text \<open>What a timer of a run holds: the generation, the favourite, and whether it is the last.\<close>

type_synonym auto_task = "nat \<times> favorite_record \<times> bool"

record auto_backend =
  ab_world :: auto_world
  ab_clock :: nat
  ab_timers :: "(nat \<times> auto_task) list"
  ab_events :: "auto_run list"
  ab_generation :: nat
  ab_nextRunId :: nat
  ab_run :: "auto_run option"
  ab_candidates :: "auto_candidate list"
  ab_cutoffEvidence :: "cutoff_evidence list"
  ab_truncations :: "truncation list"
  ab_excludedIds :: "gallery_id list"
  ab_excludedCandidates :: "(gallery_id \<times> auto_candidate) list"
  ab_restoredIds :: "gallery_id list"

definition new_auto :: "auto_world \<Rightarrow> auto_backend" where
  "new_auto w = \<lparr>ab_world = w, ab_clock = 0, ab_timers = [], ab_events = [], ab_generation = 0, ab_nextRunId = 1,
     ab_run = None, ab_candidates = [], ab_cutoffEvidence = [], ab_truncations = [], ab_excludedIds = [],
     ab_excludedCandidates = [], ab_restoredIds = []\<rparr>"

definition candidate_id :: "auto_candidate \<Rightarrow> gallery_id" where
  "candidate_id c = gs_id (ac_gallery c)"

section \<open>What a favourite finds\<close>

definition favorite_key :: "favorite_record \<Rightarrow> favorite_key" where
  "favorite_key f = (fv_namespace f, fv_value f)"

definition favorite_request :: "favorite_record \<Rightarrow> search_request" where
  "favorite_request f =
     \<lparr>sr_text = namespace_text (fv_namespace f) @ '':'' @ map (\<lambda>c. if c = CHR '' '' then CHR ''_'' else c) (fv_value f),
      sr_includeTags = [], sr_excludeTags = [], sr_languages = [Korean, Japanese, Chinese, English],
      sr_sort = Recent, sr_pageSize = 200\<rparr>"

definition favorite_hits :: "fixture_gallery list \<Rightarrow> favorite_record \<Rightarrow> gallery_summary list" where
  "favorite_hits fixture f = sf_items (runSearchFixture fixture (favorite_request f))"

definition historyModeAllows :: "gallery_id \<Rightarrow> cutoff_evidence option \<Rightarrow> history_mode \<Rightarrow> bool" where
  "historyModeAllows g evidence mode =
     (if mode = IncludeAllHistory then True
      else case Option.bind evidence (if mode = NewerThanOldestDownloaded then cx_oldestOwned else cx_latestOwned) of
             None \<Rightarrow> True
           | Some cutoff \<Rightarrow> g > cutoff)"

definition owned_ids :: "fixture_gallery list \<Rightarrow> download_entry list \<Rightarrow> favorite_record \<Rightarrow> gallery_id list" where
  "owned_ids fixture entries f =
     (let completedOwned = filter (\<lambda>e. de_state e = Completed \<or> de_state e = Quarantined) entries
      in js_sort (\<lambda>x y. y - x)
           (map gs_id (filter (\<lambda>g. list_ex (\<lambda>e. de_galleryId e = gs_id g) completedOwned) (favorite_hits fixture f))))"

definition cutoff_of :: "fixture_gallery list \<Rightarrow> download_entry list \<Rightarrow> favorite_record \<Rightarrow> cutoff_evidence" where
  "cutoff_of fixture entries f =
     (let ownedIds = owned_ids fixture entries f
      in \<lparr>cx_namespace = Some (fv_namespace f), cx_artist = fv_value f, cx_oldestOwned = None,
          cx_latestOwned = js_at ownedIds 0, cx_qualifiedOwnedCount = length ownedIds\<rparr>)"

definition evidence_for :: "favorite_record \<Rightarrow> cutoff_evidence list \<Rightarrow> cutoff_evidence option" where
  "evidence_for f = find (\<lambda>e. or_value (cx_namespace e) ArtistNs = fv_namespace f \<and> cx_artist e = fv_value f)"

definition eligible_galleries :: "fixture_gallery list \<Rightarrow> cutoff_evidence list \<Rightarrow> history_mode \<Rightarrow> favorite_record \<Rightarrow>
    gallery_summary list" where
  "eligible_galleries fixture evidence mode f =
     filter (\<lambda>g. historyModeAllows (gs_id g) (evidence_for f evidence) mode) (favorite_hits fixture f)"

section \<open>Running\<close>

definition auto_running :: "auto_backend \<Rightarrow> bool" where
  "auto_running s \<longleftrightarrow> (case ab_run s of Some r \<Rightarrow> ar_state r = AutoRunning | None \<Rightarrow> False)"

definition arm_auto :: "nat \<Rightarrow> auto_task \<Rightarrow> (nat \<times> auto_task) list \<Rightarrow> (nat \<times> auto_task) list" where
  "arm_auto due task ts = takeWhile (\<lambda>t. fst t \<le> due) ts @ (due, task) # dropWhile (\<lambda>t. fst t \<le> due) ts"

definition new_auto_run :: "auto_backend \<Rightarrow> favorite_record list \<Rightarrow> string \<Rightarrow> auto_run" where
  "new_auto_run s artists now =
     \<lparr>ar_runId = ''browser-auto-find-'' @ show_nat (ab_nextRunId s), ar_revision = 0,
      ar_state = (if artists \<noteq> [] then AutoRunning else AutoCompleted), ar_totalFavorites = length artists,
      ar_completedFavorites = 0, ar_candidatesFound = 0, ar_startedAt = now, ar_updatedAt = now,
      ar_finishedAt = (if artists = [] then Some now else None), ar_historyMode = aw_historyMode (ab_world s)\<rparr>"

text \<open>One timer for each favourite; the index counts from zero.\<close>

fun arm_favorites :: "nat \<Rightarrow> nat \<Rightarrow> nat \<Rightarrow> favorite_record list \<Rightarrow> (nat \<times> auto_task) list \<Rightarrow> (nat \<times> auto_task) list" where
  "arm_favorites clock generation index [] ts = ts"
| "arm_favorites clock generation index (f # fs) ts =
     arm_favorites clock generation (Suc index) fs
       (arm_auto (clock + 60 * (index + 1)) (generation, f, fs = []) ts)"

definition watched_favorites :: "auto_world \<Rightarrow> favorite_record list" where
  "watched_favorites w = filter (\<lambda>f. fv_namespace f = ArtistNs \<or> fv_namespace f = GroupNs) (aw_favorites w)"

text \<open>The microtask that reports the new run comes before any other event.\<close>

definition autoFindRefresh :: "fixture_gallery list \<Rightarrow> string \<Rightarrow> auto_backend \<Rightarrow> auto_run api_result \<times> auto_backend" where
  "autoFindRefresh fixture now s =
     (if auto_running s then (Inr (the (ab_run s)), s)
      else let artists = watched_favorites (ab_world s);
               generation = Suc (ab_generation s);
               run = new_auto_run s artists now
           in (Inr run,
               s\<lparr>ab_generation := generation, ab_nextRunId := Suc (ab_nextRunId s), ab_run := Some run,
                 ab_candidates := [], ab_cutoffEvidence := map (cutoff_of fixture (aw_entries (ab_world s))) artists,
                 ab_truncations := [], ab_events := ab_events s @ [run],
                 ab_timers := arm_favorites (ab_clock s) generation 0 artists (ab_timers s)\<rparr>))"

definition not_running_message :: string where
  "not_running_message = [CHR 0xEC, CHR 0x8B, CHR 0xA4, CHR 0xED, CHR 0x96, CHR 0x89] @ '' ''
     @ [CHR 0xEC, CHR 0xA4, CHR 0x91, CHR 0xEC, CHR 0x9D, CHR 0xB8] @ '' ''
     @ [CHR 0xEC, CHR 0x9E, CHR 0x90, CHR 0xEB, CHR 0x8F, CHR 0x99] @ '' ''
     @ [CHR 0xED, CHR 0x83, CHR 0x90, CHR 0xEC, CHR 0x83, CHR 0x89, CHR 0xEC, CHR 0x9D, CHR 0xB4] @ '' ''
     @ [CHR 0xEC, CHR 0x97, CHR 0x86, CHR 0xEC, CHR 0x8A, CHR 0xB5, CHR 0xEB, CHR 0x8B, CHR 0x88, CHR 0xEB, CHR 0x8B, CHR 0xA4] @ ''.''"

definition autoFindCancel :: "string \<Rightarrow> auto_backend \<Rightarrow> auto_run api_result \<times> auto_backend" where
  "autoFindCancel now s =
     (case ab_run s of
        Some current \<Rightarrow>
          if ar_state current = AutoRunning
          then let cancelled = current\<lparr>ar_revision := ar_revision current + 1, ar_state := AutoCancelled,
                     ar_updatedAt := now, ar_finishedAt := Some now\<rparr>
               in (Inr cancelled, s\<lparr>ab_generation := Suc (ab_generation s), ab_run := Some cancelled,
                     ab_events := ab_events s @ [cancelled]\<rparr>)
          else (Inl (notFoundError ''AUTO_FIND_NOT_RUNNING'' not_running_message None), s)
      | None \<Rightarrow> (Inl (notFoundError ''AUTO_FIND_NOT_RUNNING'' not_running_message None), s))"

text \<open>A candidate found before that another favourite finds too.\<close>

definition also_matched :: "gallery_id list \<Rightarrow> favorite_key \<Rightarrow> auto_candidate \<Rightarrow> auto_candidate" where
  "also_matched eligibleIds key c =
     (if candidate_id c \<notin> set eligibleIds then c
      else let matches = or_value (ac_matchedFavorites c) [ac_matchedFavorite c]
           in if key \<in> set matches then c else c\<lparr>ac_matchedFavorites := Some (matches @ [key])\<rparr>)"

definition auto_hidden :: "auto_backend \<Rightarrow> gallery_id \<Rightarrow> bool" where
  "auto_hidden s g \<longleftrightarrow> g \<notin> set (ab_restoredIds s) \<and> g \<in> set (aw_hiddenIds (ab_world s))"

text \<open>The galleries of the favourite that become candidates.\<close>

definition fresh_galleries :: "auto_backend \<Rightarrow> gallery_summary list \<Rightarrow> gallery_summary list" where
  "fresh_galleries s eligible =
     filter (\<lambda>g. gs_id g \<notin> set (map de_galleryId (aw_entries (ab_world s))) \<and> \<not> auto_hidden s (gs_id g)
       \<and> gs_id g \<notin> set (ab_excludedIds s) \<and> gs_id g \<notin> set (map candidate_id (ab_candidates s))) (List.take 200 eligible)"

definition new_candidate :: "auto_run \<Rightarrow> favorite_key \<Rightarrow> string \<Rightarrow> gallery_summary \<Rightarrow> auto_candidate" where
  "new_candidate current key now g =
     \<lparr>ac_gallery = g, ac_runId = ar_runId current, ac_matchedFavorite = key, ac_matchedFavorites = Some [key], ac_discoveredAt = now\<rparr>"

definition runAutoFindFixture :: "fixture_gallery list \<Rightarrow> string \<Rightarrow> auto_task \<Rightarrow> auto_backend \<Rightarrow> auto_backend" where
  "runAutoFindFixture fixture now task s =
     (case task of (generation, favorite, finalFavorite) \<Rightarrow>
        if generation \<noteq> ab_generation s \<or> \<not> auto_running s then s
        else
          let current = the (ab_run s);
              key = favorite_key favorite;
              eligible = eligible_galleries fixture (ab_cutoffEvidence s) (ar_historyMode current) favorite;
              marked = map (also_matched (map gs_id eligible) key) (ab_candidates s);
              candidates = map (new_candidate current key now) (fresh_galleries s eligible);
              allCandidates = marked @ candidates;
              completedFavorites = ar_completedFavorites current + 1;
              completed = finalFavorite \<or> completedFavorites \<ge> ar_totalFavorites current;
              run = current\<lparr>ar_revision := ar_revision current + 1,
                ar_state := (if completed then AutoCompleted else AutoRunning),
                ar_completedFavorites := completedFavorites, ar_candidatesFound := length allCandidates, ar_updatedAt := now,
                ar_finishedAt := (if completed then Some now else ar_finishedAt current)\<rparr>;
              truncations = filter (\<lambda>t. tn_artist t \<noteq> fv_value favorite \<or> or_value (tn_namespace t) ArtistNs \<noteq> fv_namespace favorite)
                  (ab_truncations s)
                @ (if length eligible > 200
                   then [\<lparr>tn_namespace = Some (fv_namespace favorite), tn_artist = fv_value favorite,
                          tn_eligibleCount = length eligible, tn_limit = 200\<rparr>] else [])
          in s\<lparr>ab_run := Some run, ab_candidates := allCandidates, ab_truncations := truncations, ab_events := ab_events s @ [run]\<rparr>)"

definition fire_auto :: "fixture_gallery list \<Rightarrow> string \<Rightarrow> auto_backend \<Rightarrow> auto_backend" where
  "fire_auto fixture now s =
     (case ab_timers s of
        [] \<Rightarrow> s
      | t # ts \<Rightarrow> if fst t \<le> ab_clock s then runAutoFindFixture fixture now (snd t) (s\<lparr>ab_timers := ts\<rparr>) else s)"

section \<open>Excluding and taking back\<close>

definition exclude_candidate :: "auto_backend \<Rightarrow> gallery_id \<Rightarrow> auto_backend" where
  "exclude_candidate s g =
     s\<lparr>ab_excludedCandidates := (case find (\<lambda>c. candidate_id c = g) (ab_candidates s) of
           Some c \<Rightarrow> AList.update g c (ab_excludedCandidates s)
         | None \<Rightarrow> ab_excludedCandidates s),
       ab_restoredIds := set_delete g (ab_restoredIds s),
       ab_excludedIds := set_add g (ab_excludedIds s)\<rparr>"

definition exclude_candidates :: "gallery_id list \<Rightarrow> auto_backend \<Rightarrow> auto_backend" where
  "exclude_candidates ids s =
     (let s1 = foldl exclude_candidate s ids
      in s1\<lparr>ab_candidates := filter (\<lambda>c. candidate_id c \<notin> set ids) (ab_candidates s1)\<rparr>)"

definition restore_candidate :: "auto_backend \<Rightarrow> gallery_id \<Rightarrow> auto_backend" where
  "restore_candidate s g =
     s\<lparr>ab_excludedIds := set_delete g (ab_excludedIds s),
       ab_restoredIds := set_add g (ab_restoredIds s),
       ab_candidates := (case map_of (ab_excludedCandidates s) g of
           Some c \<Rightarrow> if list_ex (\<lambda>item. candidate_id item = g) (ab_candidates s) then ab_candidates s else ab_candidates s @ [c]
         | None \<Rightarrow> ab_candidates s),
       ab_excludedCandidates := AList.delete g (ab_excludedCandidates s)\<rparr>"

section \<open>Resets\<close>

text \<open>
  \<^verbatim>\<open>explorationDataReset\<close> and the last step of a factory reset, as far as they concern Auto Find: favourites, exclusions,
  candidates and the run are forgotten. The first is refused while a run goes on, and invalidates its timers.
\<close>

definition forget_auto :: "auto_backend \<Rightarrow> auto_backend" where
  "forget_auto s = s\<lparr>ab_world := (ab_world s)\<lparr>aw_favorites := []\<rparr>, ab_excludedIds := [], ab_excludedCandidates := [],
     ab_restoredIds := [], ab_run := None, ab_candidates := [], ab_cutoffEvidence := [], ab_truncations := []\<rparr>"

definition auto_data_reset :: "string \<Rightarrow> auto_backend \<Rightarrow> auto_backend" where
  "auto_data_reset confirmation s =
     (if confirmation \<noteq> ''RESET_EXPLORATION_DATA'' \<or> auto_running s then s
      else forget_auto (s\<lparr>ab_generation := Suc (ab_generation s)\<rparr>))"

section \<open>The snapshot\<close>

text \<open>A summary as the rules of the settings read it; the summaries of the data file have these types.\<close>

definition text_items :: "js_value \<Rightarrow> string list" where
  "text_items v = (case v of JArr vs \<Rightarrow> List.map_filter (\<lambda>v. case v of JStr t \<Rightarrow> Some t | _ \<Rightarrow> None) vs | _ \<Rightarrow> [])"

definition language_value :: "js_value \<Rightarrow> language" where
  "language_value v =
     (if v = JStr ''japanese'' then Japanese else if v = JStr ''chinese'' then Chinese
      else if v = JStr ''english'' then English else Korean)"

definition rule_view :: "gallery_summary \<Rightarrow> rule_gallery" where
  "rule_view g = \<lparr>rg_artist = gs_artist g, rg_tags = text_items (gs_tags g), rg_language = language_value (gs_language g),
     rg_artists = Some (text_items (gs_artists g)), rg_group = gs_group g, rg_series = Some (text_items (gs_series g)),
     rg_characters = Some (text_items (gs_characters g))\<rparr>"

definition autoFindSnapshot :: "string list \<Rightarrow> string list \<Rightarrow> auto_backend \<Rightarrow>
    auto_run option \<times> auto_candidate list \<times> cutoff_evidence list \<times> truncation list" where
  "autoFindSnapshot inc exc s =
     (ab_run s, filter (\<lambda>c. matchesGlobalSearchRules (rule_view (ac_gallery c)) inc exc) (ab_candidates s),
      ab_cutoffEvidence s, ab_truncations s)"

section \<open>Steps\<close>

datatype auto_input =
    AutoRefresh string
  | AutoCancel string
  | AutoElapse nat
  | AutoFires string
  | AutoExclude "gallery_id list"
  | AutoRestore "gallery_id list"
  | AutoDataReset string
  | AutoFactoryReset
  | WorldChanges auto_world

fun auto_step :: "fixture_gallery list \<Rightarrow> auto_backend \<Rightarrow> auto_input \<Rightarrow> auto_backend" where
  "auto_step fixture s (AutoRefresh now) = snd (autoFindRefresh fixture now s)"
| "auto_step fixture s (AutoCancel now) = snd (autoFindCancel now s)"
| "auto_step fixture s (AutoElapse d) = s\<lparr>ab_clock := ab_clock s + d\<rparr>"
| "auto_step fixture s (AutoFires now) = fire_auto fixture now s"
| "auto_step fixture s (AutoExclude ids) = exclude_candidates ids s"
| "auto_step fixture s (AutoRestore ids) = foldl restore_candidate s ids"
| "auto_step fixture s (AutoDataReset confirmation) = auto_data_reset confirmation s"
| "auto_step fixture s AutoFactoryReset = forget_auto s"
| "auto_step fixture s (WorldChanges w) = s\<lparr>ab_world := w\<rparr>"

end
