(* ===== verification/BrowserAutoFindFacts.thy ===== *)
theory BrowserAutoFindFacts
  imports BrowserAutoFind
begin

text \<open>
  What Auto Find promises: left alone, a run completes and its candidates are exactly the galleries of the favourites
  the user has not dealt with; under any interleaving of runs, cancellations, timers and changes of the rest of the
  backend no gallery is a candidate twice and none that is excluded.
\<close>

section \<open>Timers\<close>

lemma set_arm_auto [simp]: "set (arm_auto due task ts) = insert (due, task) (set ts)"
proof -
  have "set (takeWhile P xs) \<union> set (dropWhile P xs) = set xs" for P :: "nat \<times> auto_task \<Rightarrow> bool" and xs
    by (metis set_append takeWhile_dropWhile_id)
  then show ?thesis by (auto simp: arm_auto_def)
qed

lemma dropWhile_later:
  fixes ts :: "(nat \<times> 'a) list"
  shows "sorted (map fst ts) \<Longrightarrow> t \<in> set (dropWhile (\<lambda>t. fst t \<le> due) ts) \<Longrightarrow> due < fst t"
proof (induction ts)
  case (Cons u ts)
  then show ?case by (cases "fst u \<le> due") (auto dest: order_less_le_trans)
qed simp

lemma sorted_arm_auto:
  assumes "sorted (map fst ts)"
  shows "sorted (map fst (arm_auto due task ts))"
proof -
  let ?P = "\<lambda>t. fst t \<le> due"
  have "sorted (map fst (takeWhile ?P ts @ dropWhile ?P ts))" using assms by simp
  then have "sorted (map fst (takeWhile ?P ts))" "sorted (map fst (dropWhile ?P ts))"
    "\<forall>t \<in> set (takeWhile ?P ts). \<forall>u \<in> set (dropWhile ?P ts). fst t \<le> fst u"
    by (simp_all only: map_append sorted_append) auto
  moreover have "\<forall>t \<in> set (takeWhile ?P ts). fst t \<le> due" by (auto dest: set_takeWhileD)
  moreover have "\<forall>u \<in> set (dropWhile ?P ts). due \<le> fst u" using dropWhile_later [OF assms, of _ due] by fastforce
  ultimately show ?thesis by (auto simp: arm_auto_def sorted_append)
qed

lemma filter_arm_auto:
  assumes "sorted (map fst ts)" and "\<forall>t \<in> set ts. P t \<longrightarrow> fst t \<le> due"
  shows "filter P (arm_auto due task ts) = filter P ts @ (if P (due, task) then [(due, task)] else [])"
proof -
  let ?Q = "\<lambda>t. fst t \<le> due"
  have "filter P (dropWhile ?Q ts) = []"
    using dropWhile_later [OF assms(1), of _ due] assms(2) by (force simp: filter_empty_conv dest: set_dropWhileD)
  moreover from this have "filter P ts = filter P (takeWhile ?Q ts)"
    by (metis append_Nil2 filter_append takeWhile_dropWhile_id)
  ultimately show ?thesis by (simp add: arm_auto_def)
qed

text \<open>The tasks of a run, one for each favourite, the last one marked.\<close>

fun run_tasks :: "nat \<Rightarrow> nat \<Rightarrow> nat \<Rightarrow> favorite_record list \<Rightarrow> (nat \<times> auto_task) list" where
  "run_tasks clock g i [] = []"
| "run_tasks clock g i (f # fs) = (clock + 60 * (i + 1), g, f, fs = []) # run_tasks clock g (Suc i) fs"

abbreviation of_generation :: "nat \<Rightarrow> nat \<times> auto_task \<Rightarrow> bool" where
  "of_generation g t \<equiv> fst (snd t) = g"

lemma arm_favorites_facts:
  "sorted (map fst ts) \<Longrightarrow> (\<forall>t \<in> set ts. of_generation g t \<longrightarrow> fst t \<le> clock + 60 * (i + 1)) \<Longrightarrow>
    sorted (map fst (arm_favorites clock g i fs ts))
    \<and> filter (of_generation g) (arm_favorites clock g i fs ts) = filter (of_generation g) ts @ run_tasks clock g i fs
    \<and> set (arm_favorites clock g i fs ts) = set ts \<union> set (run_tasks clock g i fs)"
proof (induction fs arbitrary: i ts)
  case (Cons f fs)
  let ?ts = "arm_auto (clock + 60 * (i + 1)) (g, f, fs = []) ts"
  have s: "sorted (map fst ?ts)" by (rule sorted_arm_auto [OF Cons.prems(1)])
  have b: "\<forall>t \<in> set ?ts. of_generation g t \<longrightarrow> fst t \<le> clock + 60 * (Suc i + 1)" using Cons.prems(2) by fastforce
  show ?case using Cons.IH [OF s b] filter_arm_auto [OF Cons.prems] by auto
qed simp

lemma run_tasks_facts:
  "map (\<lambda>t. fst (snd (snd t))) (run_tasks clock g i fs) = fs" "length (run_tasks clock g i fs) = length fs"
  "t \<in> set (run_tasks clock g i fs) \<Longrightarrow> of_generation g t \<and> fst t \<le> clock + 60 * (i + length fs)"
  by (induction fs arbitrary: i) fastforce+

section \<open>Firing\<close>

lemma run_auto_fields [simp]:
  "ab_timers (runAutoFindFixture fixture now task s) = ab_timers s"
  "ab_clock (runAutoFindFixture fixture now task s) = ab_clock s"
  "ab_generation (runAutoFindFixture fixture now task s) = ab_generation s"
  "ab_world (runAutoFindFixture fixture now task s) = ab_world s"
  "ab_excludedIds (runAutoFindFixture fixture now task s) = ab_excludedIds s"
  "ab_excludedCandidates (runAutoFindFixture fixture now task s) = ab_excludedCandidates s"
  "ab_restoredIds (runAutoFindFixture fixture now task s) = ab_restoredIds s"
  "ab_cutoffEvidence (runAutoFindFixture fixture now task s) = ab_cutoffEvidence s"
  by (simp_all add: runAutoFindFixture_def Let_def split: prod.splits)

lemma run_auto_timers: "runAutoFindFixture fixture now task (s\<lparr>ab_timers := ts\<rparr>) = (runAutoFindFixture fixture now task s)\<lparr>ab_timers := ts\<rparr>"
  by (simp add: runAutoFindFixture_def auto_running_def fresh_galleries_def auto_hidden_def Let_def split: prod.splits)

lemma stale_task: "fst task \<noteq> ab_generation s \<Longrightarrow> runAutoFindFixture fixture now task s = s"
  by (cases task) (simp add: runAutoFindFixture_def)

definition run_all :: "fixture_gallery list \<Rightarrow> auto_backend \<Rightarrow> (string \<times> nat \<times> auto_task) list \<Rightarrow> auto_backend" where
  "run_all fixture = foldl (\<lambda>s nt. runAutoFindFixture fixture (fst nt) (snd (snd nt)) s)"

lemma run_all_fields [simp]:
  "ab_timers (run_all fixture s nts) = ab_timers s" "ab_clock (run_all fixture s nts) = ab_clock s"
  "ab_generation (run_all fixture s nts) = ab_generation s"
  by (induction nts arbitrary: s) (simp_all add: run_all_def)

lemma run_all_timers: "run_all fixture (s\<lparr>ab_timers := ts\<rparr>) nts = (run_all fixture s nts)\<lparr>ab_timers := ts\<rparr>"
  by (induction nts arbitrary: s) (simp_all add: run_all_def run_auto_timers)

lemma run_all_current: "run_all fixture s nts = run_all fixture s (filter (\<lambda>nt. of_generation (ab_generation s) (snd nt)) nts)"
proof (induction nts arbitrary: s)
  case (Cons nt nts)
  show ?case
  proof (cases "of_generation (ab_generation s) (snd nt)")
    case True
    then show ?thesis using Cons.IH [of "runAutoFindFixture fixture (fst nt) (snd (snd nt)) s"] by (simp add: run_all_def)
  next
    case False
    then show ?thesis using Cons.IH [of s] by (simp add: run_all_def stale_task)
  qed
qed simp

lemma fire_all_auto:
  assumes "ab_timers s = due @ rest" "\<forall>t \<in> set due. fst t \<le> ab_clock s" "rest = [] \<or> ab_clock s < fst (hd rest)"
    and "length due \<le> length nows"
  shows "foldl (\<lambda>s now. fire_auto fixture now s) s nows = (run_all fixture s (zip nows due))\<lparr>ab_timers := rest\<rparr>"
  using assms
proof (induction nows arbitrary: s due)
  case Nil
  then show ?case by (simp add: run_all_def)
next
  case (Cons now nows)
  show ?case
  proof (cases due)
    case Nil
    have "fire_auto fixture now s = s" using Cons.prems Nil by (cases rest) (auto simp: fire_auto_def)
    then show ?thesis using Cons.IH [of s "[]"] Cons.prems Nil by (simp add: run_all_def)
  next
    case (Cons t ts)
    let ?s = "runAutoFindFixture fixture now (snd t) (s\<lparr>ab_timers := ts @ rest\<rparr>)"
    have f: "fire_auto fixture now s = ?s" using Cons.prems Cons by (simp add: fire_auto_def)
    have "foldl (\<lambda>s now. fire_auto fixture now s) ?s nows = (run_all fixture ?s (zip nows ts))\<lparr>ab_timers := rest\<rparr>"
      by (rule Cons.IH) (use Cons.prems Cons in auto)
    then show ?thesis using f Cons by (simp add: run_all_def run_auto_timers run_all_timers [unfolded run_all_def])
  qed
qed

lemma zip_filter:
  "length ts \<le> length nows \<Longrightarrow>
    \<exists>ns. length ns = length (filter P ts) \<and> filter (\<lambda>nt. P (snd nt)) (zip nows ts) = zip ns (filter P ts)"
proof (induction ts arbitrary: nows)
  case (Cons t ts)
  then obtain n ns where n: "nows = n # ns" "length ts \<le> length ns" by (cases nows) auto
  obtain ms where "length ms = length (filter P ts)" "filter (\<lambda>nt. P (snd nt)) (zip ns ts) = zip ms (filter P ts)"
    using Cons.IH [OF n(2)] by blast
  then show ?case using n(1) by (intro exI [of _ "if P t then n # ms else ms"]) simp
qed simp

text \<open>Once the tasks of the run are due, firing the timers runs them in order, whatever other timers there are.\<close>

lemma fire_current:
  assumes "sorted (map fst (ab_timers s))" and "filter (of_generation (ab_generation s)) (ab_timers s) = tasks"
    and "\<forall>t \<in> set tasks. fst t \<le> ab_clock s" and "length (ab_timers s) \<le> length nows"
  shows "\<exists>ns rest. length ns = length tasks
    \<and> foldl (\<lambda>s now. fire_auto fixture now s) s nows = (run_all fixture s (zip ns tasks))\<lparr>ab_timers := rest\<rparr>"
proof -
  let ?P = "of_generation (ab_generation s)"
  define due where "due = takeWhile (\<lambda>t. fst t \<le> ab_clock s) (ab_timers s)"
  define rest where "rest = dropWhile (\<lambda>t. fst t \<le> ab_clock s) (ab_timers s)"
  have split: "ab_timers s = due @ rest" by (simp add: due_def rest_def)
  have later: "ab_clock s < fst t" if "t \<in> set rest" for t using dropWhile_later [OF assms(1)] that by (simp add: rest_def)
  have none: "filter ?P rest = []"
  proof (rule ccontr)
    assume "filter ?P rest \<noteq> []"
    then obtain t where "t \<in> set rest" "?P t" by (auto simp: filter_empty_conv)
    moreover from this have "t \<in> set tasks" by (simp add: split flip: assms(2))
    ultimately show False using later [of t] assms(3) by auto
  qed
  have current: "filter ?P due = tasks" using assms(2) none by (simp add: split)
  have len: "length due \<le> length nows" using assms(4) by (simp add: split)
  have "rest = [] \<or> ab_clock s < fst (hd rest)" using later by (cases rest) auto
  then have f: "foldl (\<lambda>s now. fire_auto fixture now s) s nows = (run_all fixture s (zip nows due))\<lparr>ab_timers := rest\<rparr>"
    by (intro fire_all_auto [OF split _ _ len]) (auto simp: due_def dest: set_takeWhileD)
  obtain ns where "length ns = length tasks" "filter (\<lambda>nt. ?P (snd nt)) (zip nows due) = zip ns tasks"
    using zip_filter [OF len, of ?P] by (auto simp: current)
  then show ?thesis using f run_all_current [of fixture s "zip nows due"] by auto
qed

section \<open>Finding\<close>

lemma also_matched_id [simp]: "candidate_id (also_matched ids key c) = candidate_id c"
  by (simp add: also_matched_def candidate_id_def Let_def)

lemma also_matched_ids [simp]: "map (\<lambda>c. candidate_id (also_matched ids key c)) cs = map candidate_id cs"
  by simp

lemma new_candidate_id [simp]: "candidate_id (new_candidate r key now g) = gs_id g"
  by (simp add: new_candidate_def candidate_id_def)

text \<open>The galleries no favourite brings back.\<close>

definition blocked :: "auto_backend \<Rightarrow> gallery_id \<Rightarrow> bool" where
  "blocked s g \<longleftrightarrow> g \<in> set (map de_galleryId (aw_entries (ab_world s))) \<or> auto_hidden s g \<or> g \<in> set (ab_excludedIds s)"

definition offers :: "fixture_gallery list \<Rightarrow> cutoff_evidence list \<Rightarrow> history_mode \<Rightarrow> favorite_record \<Rightarrow> gallery_id set" where
  "offers fixture evidence mode f = gs_id ` set (List.take 200 (eligible_galleries fixture evidence mode f))"

definition ids_of :: "auto_backend \<Rightarrow> gallery_id set" where
  "ids_of s = candidate_id ` set (ab_candidates s)"

lemma summary_id [simp]: "gs_id (toSummary g) = fg_id g"
  by (simp add: toSummary_def Let_def)

lemma eligible_distinct:
  assumes "distinct (map fg_id fixture)"
  shows "distinct (map gs_id (eligible_galleries fixture evidence mode f))"
proof -
  have "distinct (map fg_id (js_sort cmp (filter P fixture)))" for cmp P
  proof -
    have "inj_on fg_id (set fixture)" "distinct fixture" using assms by (simp_all add: distinct_map)
    then show ?thesis by (auto simp: distinct_map intro: inj_on_subset)
  qed
  then have "distinct (map gs_id (favorite_hits fixture f))"
    by (simp add: favorite_hits_def runSearchFixture_def Let_def comp_def)
  then show ?thesis by (simp add: eligible_galleries_def distinct_map_filter)
qed

lemma fresh_ids: "gs_id ` set (fresh_galleries s es) = {i \<in> gs_id ` set (List.take 200 es). \<not> blocked s i \<and> i \<notin> ids_of s}"
  by (auto simp: fresh_galleries_def blocked_def ids_of_def)

lemma fresh_distinct: "distinct (map gs_id es) \<Longrightarrow> distinct (map gs_id (fresh_galleries s es))"
  by (simp add: fresh_galleries_def distinct_map_filter distinct_take flip: take_map)

lemma run_one:
  fixes fixture now f final
  assumes "auto_running s" and "ab_run s = Some r"
  defines "s' \<equiv> runAutoFindFixture fixture now (ab_generation s, f, final) s"
  shows "\<exists>r'. ab_run s' = Some r' \<and> ar_totalFavorites r' = ar_totalFavorites r \<and> ar_historyMode r' = ar_historyMode r
      \<and> ar_completedFavorites r' = Suc (ar_completedFavorites r) \<and> ar_candidatesFound r' = length (ab_candidates s')
      \<and> ar_state r' = (if final \<or> ar_totalFavorites r \<le> Suc (ar_completedFavorites r) then AutoCompleted else AutoRunning)"
    and "ids_of s' = ids_of s \<union> {i \<in> offers fixture (ab_cutoffEvidence s) (ar_historyMode r) f. \<not> blocked s i}"
    and "distinct (map fg_id fixture) \<Longrightarrow> distinct (map candidate_id (ab_candidates s)) \<Longrightarrow>
      distinct (map candidate_id (ab_candidates s'))"
proof -
  let ?e = "eligible_galleries fixture (ab_cutoffEvidence s) (ar_historyMode r) f"
  have c: "map candidate_id (ab_candidates s') = map candidate_id (ab_candidates s) @ map gs_id (fresh_galleries s ?e)"
    using assms(1,2) by (simp add: s'_def runAutoFindFixture_def Let_def)
  show "\<exists>r'. ab_run s' = Some r' \<and> ar_totalFavorites r' = ar_totalFavorites r \<and> ar_historyMode r' = ar_historyMode r
      \<and> ar_completedFavorites r' = Suc (ar_completedFavorites r) \<and> ar_candidatesFound r' = length (ab_candidates s')
      \<and> ar_state r' = (if final \<or> ar_totalFavorites r \<le> Suc (ar_completedFavorites r) then AutoCompleted else AutoRunning)"
    using assms(1,2) by (simp add: s'_def runAutoFindFixture_def Let_def)
  have "ids_of s' = ids_of s \<union> gs_id ` set (fresh_galleries s ?e)"
    using arg_cong [OF c, of set] by (simp add: ids_of_def)
  then show "ids_of s' = ids_of s \<union> {i \<in> offers fixture (ab_cutoffEvidence s) (ar_historyMode r) f. \<not> blocked s i}"
    by (auto simp: fresh_ids offers_def)
  assume "distinct (map fg_id fixture)" "distinct (map candidate_id (ab_candidates s))"
  then show "distinct (map candidate_id (ab_candidates s'))"
    using fresh_distinct [OF eligible_distinct] fresh_ids [of s ?e] unfolding c by (auto simp: ids_of_def)
qed

lemma blocked_run [simp]: "blocked (runAutoFindFixture fixture now task s) = blocked s"
  by (simp add: blocked_def auto_hidden_def fun_eq_iff)

lemma run_all_tasks:
  fixes fixture nows clock i fs
  assumes "fs \<noteq> []" "auto_running s" "ab_run s = Some r" "ar_completedFavorites r + length fs = ar_totalFavorites r"
    and "length nows = length fs" "distinct (map fg_id fixture)" "distinct (map candidate_id (ab_candidates s))"
  defines "s' \<equiv> run_all fixture s (zip nows (run_tasks clock (ab_generation s) i fs))"
  shows "\<exists>r'. ab_run s' = Some r' \<and> ar_state r' = AutoCompleted \<and> ar_completedFavorites r' = ar_totalFavorites r
      \<and> ar_totalFavorites r' = ar_totalFavorites r \<and> ar_candidatesFound r' = length (ab_candidates s')
      \<and> ids_of s' = ids_of s \<union> {j \<in> (\<Union>f \<in> set fs. offers fixture (ab_cutoffEvidence s) (ar_historyMode r) f). \<not> blocked s j}
      \<and> distinct (map candidate_id (ab_candidates s'))"
  unfolding s'_def using assms(1-7)
proof (induction fs arbitrary: s r nows i)
  case (Cons f fs)
  then obtain now ns where nows: "nows = now # ns" by (cases nows) auto
  let ?s = "runAutoFindFixture fixture now (ab_generation s, f, fs = []) s"
  note one = run_one [OF Cons.prems(2,3), of fixture now f "fs = []"]
  obtain r' where r': "ab_run ?s = Some r'" "ar_totalFavorites r' = ar_totalFavorites r" "ar_historyMode r' = ar_historyMode r"
    "ar_completedFavorites r' = Suc (ar_completedFavorites r)" "ar_candidatesFound r' = length (ab_candidates ?s)"
    "ar_state r' = (if fs = [] \<or> ar_totalFavorites r \<le> Suc (ar_completedFavorites r) then AutoCompleted else AutoRunning)"
    using one(1) by blast
  have d: "distinct (map candidate_id (ab_candidates ?s))" by (rule one(3) [OF Cons.prems(6,7)])
  have step: "run_all fixture s (zip nows (run_tasks clock (ab_generation s) i (f # fs)))
      = run_all fixture ?s (zip ns (run_tasks clock (ab_generation s) (Suc i) fs))"
    by (simp add: nows run_all_def)
  show ?case
  proof (cases "fs = []")
    case True
    have "run_all fixture s (zip nows (run_tasks clock (ab_generation s) i (f # fs))) = ?s"
      unfolding step using True by (simp add: run_all_def)
    then show ?thesis using r' one(2) d True Cons.prems(4) by simp
  next
    case False
    have "length fs \<ge> 1" using False by (cases fs) auto
    then have "ar_state r' = AutoRunning" using False Cons.prems(4) r'(6) by simp
    then have running: "auto_running ?s" by (simp add: auto_running_def r'(1))
    have "\<exists>q. ab_run (run_all fixture ?s (zip ns (run_tasks clock (ab_generation ?s) (Suc i) fs))) = Some q
        \<and> ar_state q = AutoCompleted \<and> ar_completedFavorites q = ar_totalFavorites r' \<and> ar_totalFavorites q = ar_totalFavorites r'
        \<and> ar_candidatesFound q = length (ab_candidates (run_all fixture ?s (zip ns (run_tasks clock (ab_generation ?s) (Suc i) fs))))
        \<and> ids_of (run_all fixture ?s (zip ns (run_tasks clock (ab_generation ?s) (Suc i) fs))) = ids_of ?s
          \<union> {j \<in> (\<Union>f \<in> set fs. offers fixture (ab_cutoffEvidence ?s) (ar_historyMode r') f). \<not> blocked ?s j}
        \<and> distinct (map candidate_id (ab_candidates (run_all fixture ?s (zip ns (run_tasks clock (ab_generation ?s) (Suc i) fs)))))"
      by (rule Cons.IH [OF False running r'(1)]) (use Cons.prems(4-6) r' d nows in auto)
    then show ?thesis unfolding step using one(2) r'(2,3) by (auto simp del: set_map)
  qed
qed simp

section \<open>At every moment\<close>

definition auto_ok :: "auto_backend \<Rightarrow> bool" where
  "auto_ok s \<longleftrightarrow> sorted (map fst (ab_timers s)) \<and> (\<forall>t \<in> set (ab_timers s). fst (snd t) \<le> ab_generation s)
     \<and> distinct (map candidate_id (ab_candidates s)) \<and> ids_of s \<inter> set (ab_excludedIds s) = {}
     \<and> (\<forall>(g, c) \<in> set (ab_excludedCandidates s). candidate_id c = g)"

lemma auto_ok_same:
  "auto_ok s \<Longrightarrow> ab_timers s' = ab_timers s \<Longrightarrow> ab_generation s \<le> ab_generation s' \<Longrightarrow> ab_candidates s' = ab_candidates s
    \<Longrightarrow> ab_excludedIds s' = ab_excludedIds s \<Longrightarrow> ab_excludedCandidates s' = ab_excludedCandidates s \<Longrightarrow> auto_ok s'"
  by (fastforce simp: auto_ok_def ids_of_def)

lemma refresh_timers:
  assumes "auto_ok s"
  defines "g \<equiv> Suc (ab_generation s)"
  shows "sorted (map fst (arm_favorites clock g 0 fs (ab_timers s)))"
    and "filter (of_generation g) (arm_favorites clock g 0 fs (ab_timers s)) = run_tasks clock g 0 fs"
    and "\<forall>t \<in> set (arm_favorites clock g 0 fs (ab_timers s)). fst (snd t) \<le> g"
proof -
  have old: "\<forall>t \<in> set (ab_timers s). fst (snd t) < g" using assms by (fastforce simp: auto_ok_def)
  then have none: "filter (of_generation g) (ab_timers s) = []" by (auto simp: filter_empty_conv)
  have a: "sorted (map fst (ab_timers s))" using assms by (simp add: auto_ok_def)
  have b: "\<forall>t \<in> set (ab_timers s). of_generation g t \<longrightarrow> fst t \<le> clock + 60 * (0 + 1)" using old by auto
  note facts = arm_favorites_facts [OF a b, of fs]
  show "sorted (map fst (arm_favorites clock g 0 fs (ab_timers s)))"
    "filter (of_generation g) (arm_favorites clock g 0 fs (ab_timers s)) = run_tasks clock g 0 fs"
    using facts none by simp_all
  show "\<forall>t \<in> set (arm_favorites clock g 0 fs (ab_timers s)). fst (snd t) \<le> g"
    using facts old run_tasks_facts(3) [of _ clock g 0 fs] by fastforce
qed

lemma auto_ok_refresh: "auto_ok s \<Longrightarrow> auto_ok (snd (autoFindRefresh fixture now s))"
  using refresh_timers [of s] by (auto simp: autoFindRefresh_def Let_def auto_ok_def ids_of_def)

lemma auto_ok_cancel: "auto_ok s \<Longrightarrow> auto_ok (snd (autoFindCancel now s))"
  by (auto simp: autoFindCancel_def Let_def split: option.splits intro: auto_ok_same)

lemma auto_ok_run:
  assumes "auto_ok s" "distinct (map fg_id fixture)"
  shows "auto_ok (runAutoFindFixture fixture now task s)"
proof (cases "fst task = ab_generation s \<and> auto_running s")
  case True
  then obtain f final where task: "task = (ab_generation s, f, final)" by (cases task) auto
  obtain r where r: "ab_run s = Some r" using True by (auto simp: auto_running_def split: option.splits)
  have running: "auto_running s" using True by simp
  show ?thesis
    using run_one(2,3) [OF running r, of fixture now f final] assms
    unfolding task auto_ok_def by (auto simp: blocked_def simp del: set_map)
next
  case False
  then have "runAutoFindFixture fixture now task s = s" by (cases task) (auto simp: runAutoFindFixture_def)
  with assms(1) show ?thesis by simp
qed

lemma auto_ok_fire:
  assumes "auto_ok s" "distinct (map fg_id fixture)"
  shows "auto_ok (fire_auto fixture now s)"
proof (cases "ab_timers s")
  case (Cons t ts)
  have "auto_ok (s\<lparr>ab_timers := ts\<rparr>)" using assms(1) Cons by (simp add: auto_ok_def ids_of_def)
  from auto_ok_run [OF this assms(2)] show ?thesis using Cons assms(1) by (simp add: fire_auto_def)
qed (use assms in \<open>simp add: fire_auto_def\<close>)

lemma exclude_fields:
  "ab_timers (foldl exclude_candidate s ids) = ab_timers s" "ab_generation (foldl exclude_candidate s ids) = ab_generation s"
  "ab_candidates (foldl exclude_candidate s ids) = ab_candidates s"
  "set (ab_excludedIds (foldl exclude_candidate s ids)) = set (ab_excludedIds s) \<union> set ids"
  by (induction ids arbitrary: s) (auto simp: exclude_candidate_def)

lemma exclude_keys:
  "\<forall>(g, c) \<in> set (ab_excludedCandidates s). candidate_id c = g \<Longrightarrow>
    \<forall>(g, c) \<in> set (ab_excludedCandidates (foldl exclude_candidate s ids)). candidate_id c = g"
proof (induction ids arbitrary: s)
  case (Cons i ids)
  have "candidate_id c = g" if "(g, c) \<in> set (ab_excludedCandidates (exclude_candidate s i))" for g c
  proof (cases "find (\<lambda>c. candidate_id c = i) (ab_candidates s)")
    case None
    then show ?thesis using that Cons.prems by (auto simp: exclude_candidate_def)
  next
    case (Some k)
    then have "candidate_id k = i" by (auto simp: find_Some_iff)
    moreover have "(g, c) \<in> insert (i, k) (set (ab_excludedCandidates s))"
      using that Some set_update_subset by (fastforce simp: exclude_candidate_def)
    ultimately show ?thesis using Cons.prems by auto
  qed
  then show ?case using Cons.IH [of "exclude_candidate s i"] by auto
qed simp

lemma auto_ok_exclude: "auto_ok s \<Longrightarrow> auto_ok (exclude_candidates ids s)"
  using exclude_keys [of s ids]
  by (auto simp: exclude_candidates_def Let_def auto_ok_def exclude_fields ids_of_def distinct_map_filter)

lemma auto_ok_restore: "auto_ok s \<Longrightarrow> auto_ok (restore_candidate s g)"
proof -
  assume ok: "auto_ok s"
  have kept: "\<forall>(g, c) \<in> set (AList.delete g (ab_excludedCandidates s)). candidate_id c = g"
    using ok subsetD [OF set_delete_subset, of _ g "ab_excludedCandidates s"] by (auto simp: auto_ok_def)
  show ?thesis
  proof (cases "map_of (ab_excludedCandidates s) g")
    case None
    then show ?thesis using ok kept by (auto simp: restore_candidate_def auto_ok_def ids_of_def)
  next
    case (Some c)
    then have "candidate_id c = g" using ok map_of_in_set [OF Some] by (auto simp: auto_ok_def)
    then show ?thesis using ok kept Some by (auto simp: restore_candidate_def auto_ok_def ids_of_def list_ex_iff)
  qed
qed

lemma auto_ok_restores: "auto_ok s \<Longrightarrow> auto_ok (foldl restore_candidate s ids)"
  by (induction ids arbitrary: s) (simp_all add: auto_ok_restore)

lemma auto_ok_new: "auto_ok (new_auto w)"
  by (simp add: auto_ok_def new_auto_def ids_of_def)

lemma auto_ok_forget: "auto_ok s \<Longrightarrow> auto_ok (forget_auto s)"
  by (simp add: forget_auto_def auto_ok_def ids_of_def)

lemma auto_ok_reset: "auto_ok s \<Longrightarrow> auto_ok (auto_data_reset confirmation s)"
proof -
  assume "auto_ok s"
  then have "auto_ok (s\<lparr>ab_generation := Suc (ab_generation s)\<rparr>)" by (auto simp: auto_ok_def ids_of_def)
  from auto_ok_forget [OF this] \<open>auto_ok s\<close> show ?thesis by (simp add: auto_data_reset_def)
qed

lemma auto_ok_step: "auto_ok s \<Longrightarrow> distinct (map fg_id fixture) \<Longrightarrow> auto_ok (auto_step fixture s i)"
  by (cases i) (simp_all add: auto_ok_refresh auto_ok_cancel auto_ok_fire auto_ok_exclude auto_ok_restores auto_ok_forget auto_ok_reset, auto intro: auto_ok_same)

text \<open>The data file has each gallery once.\<close>

interpretation auto_find: machine "auto_step fixture" "\<lambda>s. distinct (map fg_id fixture) \<longrightarrow> auto_ok s" "new_auto w" for fixture w
  by unfold_locales (simp_all add: auto_ok_new auto_ok_step)

section \<open>The cut-off\<close>

lemma hits_by_key: "favorite_key f = favorite_key f' \<Longrightarrow> favorite_hits fixture f = favorite_hits fixture f'"
  by (simp add: favorite_hits_def favorite_request_def favorite_key_def)

lemma evidence_of:
  assumes "f \<in> set fs"
  shows "evidence_for f (map (cutoff_of fixture entries) fs) = Some (cutoff_of fixture entries f)"
proof -
  let ?P = "\<lambda>e. or_value (cx_namespace e) ArtistNs = fv_namespace f \<and> cx_artist e = fv_value f"
  have c: "?P (cutoff_of fixture entries f') \<longleftrightarrow> favorite_key f' = favorite_key f" for f'
    by (simp add: cutoff_of_def Let_def favorite_key_def)
  have same: "cutoff_of fixture entries f' = cutoff_of fixture entries f" if "favorite_key f' = favorite_key f" for f'
    using that hits_by_key [OF that, of fixture] by (simp add: cutoff_of_def owned_ids_def favorite_key_def Let_def)
  show ?thesis
    unfolding evidence_for_def using assms
  proof (induction fs)
    case (Cons f' fs)
    show ?case
    proof (cases "favorite_key f' = favorite_key f")
      case True
      then show ?thesis using c [of f'] same [of f'] by simp
    next
      case False
      then have "f \<noteq> f'" by auto
      then show ?thesis using False c [of f'] Cons by auto
    qed
  qed simp
qed

lemma latest_owned:
  assumes "js_at (owned_ids fixture entries f) 0 = Some m" and "o' \<in> set (owned_ids fixture entries f)"
  shows "o' \<le> m"
proof -
  let ?xs = "map gs_id (filter (\<lambda>g. list_ex (\<lambda>e. de_galleryId e = gs_id g)
      (filter (\<lambda>e. de_state e = Completed \<or> de_state e = Quarantined) entries)) (favorite_hits fixture f))"
  have "signed_comparator (\<lambda>x y. y - (x :: int))" using signed_comparator_down [of "\<lambda>x. x :: int"] by simp
  then have "sorted_wrt (\<lambda>x y. y - x \<le> 0) (js_sort (\<lambda>x y. y - x) ?xs)"
    by (intro js_comparator.sorted_js_sort signed_comparator.axioms(1))
  moreover have "owned_ids fixture entries f = js_sort (\<lambda>x y. y - x) ?xs" by (simp add: owned_ids_def Let_def)
  ultimately have "sorted_wrt (\<lambda>x y. y \<le> x) (owned_ids fixture entries f)" by simp
  then show ?thesis using assms by (cases "owned_ids fixture entries f") (auto simp: js_at_def)
qed

text \<open>What a favourite offers is newer than what is owned of it, where the history mode asks for that.\<close>

lemma offers_newer:
  assumes "f \<in> set fs" and "i \<in> offers fixture (map (cutoff_of fixture entries) fs) NewerThanLatestOwned f"
  shows "i \<in> gs_id ` set (favorite_hits fixture f) \<and> (\<forall>m \<in> set (owned_ids fixture entries f). m < i)"
proof -
  let ?cut = "map (cutoff_of fixture entries) fs"
  obtain g where g: "i = gs_id g" "g \<in> set (favorite_hits fixture f)"
    "historyModeAllows (gs_id g) (evidence_for f ?cut) NewerThanLatestOwned"
    using assms(2) by (auto simp: offers_def eligible_galleries_def dest!: in_set_takeD)
  have latest: "cx_latestOwned (cutoff_of fixture entries f) = js_at (owned_ids fixture entries f) 0"
    by (simp add: cutoff_of_def Let_def)
  have "m < i" if m: "m \<in> set (owned_ids fixture entries f)" for m
  proof -
    obtain n where n: "js_at (owned_ids fixture entries f) 0 = Some n"
      using m by (cases "owned_ids fixture entries f") (auto simp: js_at_def)
    have "n < i" using g(1,3) by (simp add: evidence_of [OF assms(1)] historyModeAllows_def latest n)
    with latest_owned [OF n m] show ?thesis by simp
  qed
  with g show ?thesis by blast
qed

section \<open>Properties\<close>

text \<open>C23: A run of Auto Find that is left alone completes, one favourite after the other, and its candidates are then
  exactly the galleries its favourites offer, up to 200 for each, that are not downloaded, hidden or excluded, each
  once. In the mode that asks for news, each candidate is newer than every album owned of a favourite that offers it.\<close>

theorem auto_find_exact:
  fixes fixture w now d nows "is"
  assumes "distinct (map fg_id fixture)"
    and "\<not> auto_running (foldl (auto_step fixture) (new_auto w) is)"
  defines "s \<equiv> foldl (auto_step fixture) (new_auto w) is"
  defines "favorites \<equiv> watched_favorites (ab_world s)"
    and "started \<equiv> auto_step fixture s (AutoRefresh now)"
  assumes "60 * length favorites \<le> d" and "length (ab_timers started) \<le> length nows"
  defines "finished \<equiv> foldl (auto_step fixture) started (AutoElapse d # map AutoFires nows)"
  shows "(\<exists>r. ab_run finished = Some r \<and> ar_state r = AutoCompleted \<and> ar_completedFavorites r = length favorites
        \<and> ar_totalFavorites r = length favorites \<and> ar_candidatesFound r = length (ab_candidates finished))
    \<and> ids_of finished = {i \<in> (\<Union>f \<in> set favorites. offers fixture
        (map (cutoff_of fixture (aw_entries (ab_world s))) favorites) (aw_historyMode (ab_world s)) f). \<not> blocked s i}
    \<and> distinct (map candidate_id (ab_candidates finished))
    \<and> (aw_historyMode (ab_world s) = NewerThanLatestOwned \<longrightarrow>
        ids_of finished \<subseteq> {i. \<exists>f \<in> set favorites. i \<in> gs_id ` set (favorite_hits fixture f)
          \<and> (\<forall>m \<in> set (owned_ids fixture (aw_entries (ab_world s)) f). m < i)})"
proof -
  let ?cut = "map (cutoff_of fixture (aw_entries (ab_world s))) favorites"
  let ?mode = "aw_historyMode (ab_world s)"
  have ok: "auto_ok s" using auto_find.inv_reachable [of fixture w "is"] assms(1) by (simp add: s_def)
  have idle: "\<not> auto_running s" using assms(2) by (simp add: s_def)
  define g where "g = Suc (ab_generation s)"
  define s1 where "s1 = started\<lparr>ab_clock := ab_clock s + d\<rparr>"
  define run where "run = new_auto_run s favorites now"
  have s1: "ab_timers s1 = arm_favorites (ab_clock s) g 0 favorites (ab_timers s)" "ab_generation s1 = g"
    "ab_run s1 = Some run" "ab_candidates s1 = []" "ab_cutoffEvidence s1 = ?cut" "ab_clock s1 = ab_clock s + d"
    "ids_of s1 = {}" "blocked s1 = blocked s" "ab_timers started = ab_timers s1" "ab_clock started = ab_clock s"
    using idle by (auto simp: s1_def started_def autoFindRefresh_def Let_def g_def run_def favorites_def ids_of_def
        blocked_def auto_hidden_def fun_eq_iff)
  note timers = refresh_timers [OF ok, of "ab_clock s" favorites, folded g_def, folded s1(1)]
  have "\<forall>t \<in> set (run_tasks (ab_clock s) g 0 favorites). fst t \<le> ab_clock s1"
    using run_tasks_facts(3) [of _ "ab_clock s" g 0 favorites] assms(6) by (fastforce simp: s1(6))
  then obtain ns rest where ns: "length ns = length favorites" "foldl (\<lambda>s now. fire_auto fixture now s) s1 nows
      = (run_all fixture s1 (zip ns (run_tasks (ab_clock s) g 0 favorites)))\<lparr>ab_timers := rest\<rparr>"
    using fire_current [of s1 "run_tasks (ab_clock s) g 0 favorites" nows fixture] timers(1,2) assms(7)
    by (auto simp: s1(2,9) run_tasks_facts)
  have f: "finished = (run_all fixture s1 (zip ns (run_tasks (ab_clock s) g 0 favorites)))\<lparr>ab_timers := rest\<rparr>"
    using ns(2) by (simp add: finished_def s1_def s1(10) foldl_map)
  have result: "(\<exists>r. ab_run finished = Some r \<and> ar_state r = AutoCompleted \<and> ar_completedFavorites r = length favorites
        \<and> ar_totalFavorites r = length favorites \<and> ar_candidatesFound r = length (ab_candidates finished))
      \<and> ids_of finished = {i \<in> (\<Union>f \<in> set favorites. offers fixture ?cut ?mode f). \<not> blocked s i}
      \<and> distinct (map candidate_id (ab_candidates finished))"
  proof (cases "favorites = []")
    case True
    then show ?thesis unfolding f by (simp add: run_all_def s1(3,4) run_def new_auto_run_def ids_of_def)
  next
    case False
    have running: "auto_running s1" using False by (simp add: auto_running_def s1(3) run_def new_auto_run_def)
    have d: "distinct (map candidate_id (ab_candidates s1))" by (simp add: s1(4))
    have t: "ar_completedFavorites run + length favorites = ar_totalFavorites run" "ar_totalFavorites run = length favorites"
      "ar_historyMode run = ?mode" by (simp_all add: run_def new_auto_run_def)
    from run_all_tasks [OF False running s1(3) t(1) ns(1) assms(1) d, of "ab_clock s" 0]
    show ?thesis unfolding f by (auto simp: s1(2,4,5,8) t(2,3) ids_of_def)
  qed
  moreover have "ids_of finished \<subseteq> {i. \<exists>f \<in> set favorites. i \<in> gs_id ` set (favorite_hits fixture f)
      \<and> (\<forall>m \<in> set (owned_ids fixture (aw_entries (ab_world s)) f). m < i)}" if "?mode = NewerThanLatestOwned"
    using result offers_newer [of _ favorites _ fixture "aw_entries (ab_world s)"] that by auto blast
  ultimately show ?thesis by blast
qed

definition sample_world :: auto_world where
  "sample_world = \<lparr>aw_favorites = [\<lparr>fv_namespace = ArtistNs, fv_value = ''a'', fv_revision = 0, fv_createdAt = ''t'', fv_updatedAt = ''t''\<rparr>],
     aw_entries = [], aw_hiddenIds = [], aw_historyMode = NewerThanLatestOwned\<rparr>"

lemma auto_find_exact_witness:
  "\<exists>r. ab_run (foldl (auto_step [sample_fixture 1 5 []]) (new_auto sample_world) [AutoElapse 5, AutoRefresh ''t'', AutoElapse 60, AutoFires ''u'']) = Some r
     \<and> ar_state r = AutoCompleted \<and> ar_totalFavorites r = 1"
proof -
  have "distinct (map fg_id [sample_fixture 1 5 []])" by simp
  moreover have "\<not> auto_running (foldl (auto_step [sample_fixture 1 5 []]) (new_auto sample_world) [AutoElapse 5])"
    by (simp add: auto_running_def new_auto_def)
  ultimately show ?thesis
    using auto_find_exact [of "[sample_fixture 1 5 []]" sample_world "[AutoElapse 5]" 60 "''t''" "[''u'']"]
    by (auto simp: watched_favorites_def sample_world_def new_auto_def autoFindRefresh_def auto_running_def arm_auto_def Let_def)
qed

text \<open>Inputs that take \<open>g\<close> back: restoring it, and the two resets.\<close>

fun takes_back :: "gallery_id \<Rightarrow> auto_input \<Rightarrow> bool" where
  "takes_back g (AutoRestore rs) = (g \<in> set rs)"
| "takes_back g (AutoDataReset confirmation) = (confirmation = ''RESET_EXPLORATION_DATA'')"
| "takes_back g AutoFactoryReset = True"
| "takes_back g _ = False"

lemma excluded_kept:
  "g \<in> set (ab_excludedIds s) \<Longrightarrow> \<not> takes_back g i \<Longrightarrow>
    g \<in> set (ab_excludedIds (auto_step fixture s i))"
proof (cases i)
  case (AutoRestore rs)
  have "g \<notin> set rs \<Longrightarrow> g \<in> set (ab_excludedIds s) \<Longrightarrow> g \<in> set (ab_excludedIds (foldl restore_candidate s rs))" for s
    by (induction rs arbitrary: s) (auto simp: restore_candidate_def)
  moreover assume "g \<in> set (ab_excludedIds s)" "\<not> takes_back g i"
  ultimately show ?thesis using AutoRestore by simp
qed (auto simp: autoFindRefresh_def autoFindCancel_def fire_auto_def exclude_candidates_def exclude_fields auto_data_reset_def
  Let_def runAutoFindFixture_def split: option.splits list.splits prod.splits)

text \<open>C24: A gallery that is excluded stays out: whatever runs, cancellations, timers and changes of downloads and favourites
  come before and after, it is no candidate until it is taken back or the exploration data or everything is reset; and no
  gallery is ever a candidate twice.\<close>

theorem excluded_stay_out:
  fixes fixture w before ids later
  assumes "distinct (map fg_id fixture)" and "g \<in> set ids"
    and "list_all (\<lambda>i. \<not> takes_back g i) later"
  defines "s \<equiv> foldl (auto_step fixture) (new_auto w) (before @ AutoExclude ids # later)"
  shows "g \<notin> ids_of s \<and> distinct (map candidate_id (ab_candidates s))"
proof -
  have ok: "auto_ok s" using auto_find.inv_reachable [of fixture w "before @ AutoExclude ids # later"] assms(1) by (simp add: s_def)
  have keep: "g \<in> set (ab_excludedIds (foldl (auto_step fixture) t later))" if "g \<in> set (ab_excludedIds t)" for t
    using that assms(3) by (induction later arbitrary: t) (simp_all add: excluded_kept)
  have "g \<in> set (ab_excludedIds (exclude_candidates ids t))" for t
    using assms(2) by (simp add: exclude_candidates_def Let_def exclude_fields)
  then have "g \<in> set (ab_excludedIds s)" using keep by (simp add: s_def)
  then show ?thesis using ok by (auto simp: auto_ok_def)
qed

lemma excluded_stay_out_witness:
  "1 \<notin> ids_of (foldl (auto_step [sample_fixture 1 5 []]) (new_auto sample_world)
     ([AutoRefresh ''t'', AutoElapse 60, AutoFires ''u''] @ AutoExclude [1] # [AutoRestore [2], AutoDataReset ''no'', AutoRefresh ''t'',
       AutoElapse 60, AutoFires ''u'']))"
  using excluded_stay_out [of "[sample_fixture 1 5 []]" 1 "[1]" "[AutoRestore [2], AutoDataReset ''no'', AutoRefresh ''t'',
       AutoElapse 60, AutoFires ''u'']" sample_world "[AutoRefresh ''t'', AutoElapse 60, AutoFires ''u'']"] by simp

end
