(* ===== verification/DanbooruPreferences.thy ===== *)
theory DanbooruPreferences
  imports GalleryGroups SearchFixture
begin

text \<open>
  \<^verbatim>\<open>src/src/danbooru/searchPreferences.ts\<close>: the filters of the Danbooru search, how they are cleaned when they come from
  the storage, and the query text they become. The unions of string literals of the code are strings here; what
  \<^verbatim>\<open>sanitizeDanbooruSearchFilters\<close> lets through is one of the literals. The storage holds what \<^verbatim>\<open>JSON.parse\<close> makes of
  its text, \<open>None\<close> where that throws.
\<close>

section \<open>Words and formats\<close>

text \<open>\<^verbatim>\<open>trim().split(/\s+/).filter(Boolean)\<close>.\<close>

function words :: "string \<Rightarrow> string list" where
  "words s =
     (case dropWhile is_space s of
        [] \<Rightarrow> []
      | c # t \<Rightarrow> (c # takeWhile (\<lambda>d. \<not> is_space d) t) # words (dropWhile (\<lambda>d. \<not> is_space d) t))"
  by pat_completeness auto

termination
proof (relation "measure length")
  fix s c t
  assume e: "dropWhile is_space s = c # t"
  have "length (dropWhile (\<lambda>d. \<not> is_space d) t) \<le> length t" by (rule length_dropWhile_le)
  also have "\<dots> < length (dropWhile is_space s)" by (simp add: e)
  also have "\<dots> \<le> length s" by (rule length_dropWhile_le)
  finally show "(dropWhile (\<lambda>d. \<not> is_space d) t, s) \<in> measure length" by simp
qed simp

declare words.simps [simp del]

definition all_digits :: "string \<Rightarrow> bool" where
  "all_digits s \<longleftrightarrow> s \<noteq> [] \<and> list_all is_digit s"

definition isDate :: "string \<Rightarrow> bool" where
  "isDate s \<longleftrightarrow> length s = 10 \<and> dated s"

definition numeric_text :: "string \<Rightarrow> bool" where
  "numeric_text s \<longleftrightarrow> all_digits (strip_prefix ''-'' s)"

section \<open>Filters\<close>

record danbooru_filters =
  df_ratings :: "string list"
  df_fileTypes :: "string list"
  df_dateFrom :: string
  df_dateTo :: string
  df_minimumScore :: string
  df_minimumFavorites :: string
  df_relationship :: string
  df_sort :: string

definition DANBOORU_RATINGS :: "string list" where
  "DANBOORU_RATINGS = [''g'', ''s'', ''q'', ''e'']"

definition DANBOORU_FILE_TYPES :: "string list" where
  "DANBOORU_FILE_TYPES = [''jpg'', ''png'', ''gif'', ''webp'', ''avif'', ''webm'', ''mp4'', ''zip'']"

definition DANBOORU_RELATIONSHIPS :: "string list" where
  "DANBOORU_RELATIONSHIPS = [''any'', ''has_parent'', ''no_parent'', ''has_children'', ''no_children'']"

text \<open>Each order with its metatag; the newest first needs none.\<close>

definition DANBOORU_SORTS :: "(string \<times> string option) list" where
  "DANBOORU_SORTS = [(''newest'', None), (''oldest'', Some ''order:id_asc''), (''score'', Some ''order:score''),
     (''favorites'', Some ''order:favcount''), (''resolution'', Some ''order:mpixels''), (''file_size'', Some ''order:filesize''),
     (''tag_count'', Some ''order:tagcount''), (''portrait'', Some ''order:portrait''), (''landscape'', Some ''order:landscape'')]"

definition DANBOORU_UNLIMITED_METATAGS :: "string list" where
  "DANBOORU_UNLIMITED_METATAGS =
     [''status'', ''rating'', ''limit'', ''is'', ''id'', ''date'', ''age'', ''filesize'', ''filetype'', ''parent'', ''child'',
      ''md5'', ''width'', ''height'', ''duration'', ''mpixels'', ''ratio'', ''score'', ''upvote'', ''downvotes'', ''favcount'',
      ''embedded'', ''tagcount'', ''pixiv_id'', ''pixiv'']"

definition defaultDanbooruSearchFilters :: danbooru_filters where
  "defaultDanbooruSearchFilters = \<lparr>df_ratings = DANBOORU_RATINGS, df_fileTypes = DANBOORU_FILE_TYPES, df_dateFrom = [],
     df_dateTo = [], df_minimumScore = [], df_minimumFavorites = [], df_relationship = ''any'', df_sort = ''newest''\<rparr>"

section \<open>Cleaning\<close>

definition member_of :: "string \<Rightarrow> (string \<times> js_value) list \<Rightarrow> js_value" where
  "member_of f ms = or_value (map_of ms f) JUndef"

text \<open>The known values an array contains, in their own order.\<close>

definition chosen :: "string list \<Rightarrow> js_value \<Rightarrow> string list" where
  "chosen known v = (case v of JArr vs \<Rightarrow> filter (\<lambda>k. JStr k \<in> set vs) known | _ \<Rightarrow> known)"

definition one_of :: "string list \<Rightarrow> string \<Rightarrow> js_value \<Rightarrow> string" where
  "one_of known other v = (case v of JStr t \<Rightarrow> if t \<in> set known then t else other | _ \<Rightarrow> other)"

definition text_if :: "(string \<Rightarrow> bool) \<Rightarrow> js_value \<Rightarrow> string" where
  "text_if P v = (case v of JStr t \<Rightarrow> if P t then t else [] | _ \<Rightarrow> [])"

definition clean_fields :: "(string \<times> js_value) list \<Rightarrow> danbooru_filters" where
  "clean_fields ms =
     \<lparr>df_ratings = chosen DANBOORU_RATINGS (member_of ''ratings'' ms),
      df_fileTypes = chosen DANBOORU_FILE_TYPES (member_of ''fileTypes'' ms),
      df_dateFrom = text_if isDate (member_of ''dateFrom'' ms), df_dateTo = text_if isDate (member_of ''dateTo'' ms),
      df_minimumScore = text_if numeric_text (member_of ''minimumScore'' ms),
      df_minimumFavorites = text_if numeric_text (member_of ''minimumFavorites'' ms),
      df_relationship = one_of DANBOORU_RELATIONSHIPS ''any'' (member_of ''relationship'' ms),
      df_sort = one_of (keys DANBOORU_SORTS) ''newest'' (member_of ''sort'' ms)\<rparr>"

text \<open>An array is an object too; none of the fields is a member of it.\<close>

definition sanitizeDanbooruSearchFilters :: "js_value \<Rightarrow> danbooru_filters" where
  "sanitizeDanbooruSearchFilters v =
     (case v of
        JObj ms \<Rightarrow> clean_fields ms
      | JArr vs \<Rightarrow> clean_fields []
      | _ \<Rightarrow> defaultDanbooruSearchFilters)"

text \<open>A filter object as a value, the fields in the order of the literal.\<close>

definition filters_value :: "danbooru_filters \<Rightarrow> js_value" where
  "filters_value f = JObj
     [(''ratings'', texts_value (df_ratings f)), (''fileTypes'', texts_value (df_fileTypes f)),
      (''dateFrom'', JStr (df_dateFrom f)), (''dateTo'', JStr (df_dateTo f)), (''minimumScore'', JStr (df_minimumScore f)),
      (''minimumFavorites'', JStr (df_minimumFavorites f)), (''relationship'', JStr (df_relationship f)), (''sort'', JStr (df_sort f))]"

text \<open>Nothing stored reads as \<^verbatim>\<open>null\<close>.\<close>

definition loadDanbooruSearchPreferences :: "js_value option option \<Rightarrow> danbooru_filters" where
  "loadDanbooruSearchPreferences stored =
     (case or_value stored (Some JNull) of
        Some v \<Rightarrow> sanitizeDanbooruSearchFilters v
      | None \<Rightarrow> defaultDanbooruSearchFilters)"

text \<open>What is stored, and what the event carries; a storage that refuses to write leaves everything as it was.\<close>

definition saveDanbooruSearchPreferences :: "bool \<Rightarrow> danbooru_filters \<Rightarrow> js_value option option \<Rightarrow>
    bool \<times> js_value option option \<times> danbooru_filters list" where
  "saveDanbooruSearchPreferences writable f stored =
     (let sanitized = sanitizeDanbooruSearchFilters (filters_value f)
      in if writable then (True, Some (Some (filters_value sanitized)), [sanitized]) else (False, stored, []))"

section \<open>The query\<close>

definition selectionMetatag :: "string list \<Rightarrow> string list \<Rightarrow> string \<Rightarrow> string list" where
  "selectionMetatag vs allValues name =
     (if vs = [] \<or> length vs = length allValues then [] else [name @ '':'' @ join '','' vs])"

definition date_terms :: "string \<Rightarrow> string \<Rightarrow> string list" where
  "date_terms dateFrom dateTo =
     (if dateFrom \<noteq> [] \<and> dateTo \<noteq> [] then [''date:'' @ dateFrom @ ''..'' @ dateTo]
      else if dateFrom \<noteq> [] then [''date:>='' @ dateFrom]
      else if dateTo \<noteq> [] then [''date:<='' @ dateTo] else [])"

definition relationship_terms :: "string \<Rightarrow> string list" where
  "relationship_terms r =
     (if r = ''has_parent'' then [''parent:any''] else if r = ''no_parent'' then [''parent:none'']
      else if r = ''has_children'' then [''child:any''] else if r = ''no_children'' then [''child:none''] else [])"

definition sort_terms :: "string \<Rightarrow> string list" where
  "sort_terms s = (case map_of DANBOORU_SORTS s of Some (Some tag) \<Rightarrow> [tag] | _ \<Rightarrow> [])"

definition filter_terms :: "danbooru_filters \<Rightarrow> string list" where
  "filter_terms f =
     selectionMetatag (df_ratings f) DANBOORU_RATINGS ''rating''
     @ selectionMetatag (df_fileTypes f) DANBOORU_FILE_TYPES ''filetype''
     @ date_terms (df_dateFrom f) (df_dateTo f)
     @ (if df_minimumScore f \<noteq> [] then [''score:>='' @ df_minimumScore f] else [])
     @ (if df_minimumFavorites f \<noteq> [] then [''favcount:>='' @ df_minimumFavorites f] else [])
     @ relationship_terms (df_relationship f) @ sort_terms (df_sort f)"

definition buildDanbooruSearchQuery :: "string \<Rightarrow> danbooru_filters \<Rightarrow> string" where
  "buildDanbooruSearchQuery tags f =
     (let raw = trim tags in if all_digits raw then raw else join '' '' (words raw @ filter_terms f))"

text \<open>The name of a metatag: what stands before a colon that is not the first character.\<close>

definition before_colon :: "string \<Rightarrow> string option" where
  "before_colon t =
     (let i = index_of (CHR '':'') t in case i of Some (Suc n) \<Rightarrow> Some (take (Suc n) t) | _ \<Rightarrow> None)"

definition danbooruLimitedTermCount :: "string \<Rightarrow> nat" where
  "danbooruLimitedTermCount query =
     length (filter (\<lambda>term. case before_colon (strip_prefix ''-'' term) of
         None \<Rightarrow> True
       | Some name \<Rightarrow> lower name \<notin> set DANBOORU_UNLIMITED_METATAGS) (words query))"

definition activeDanbooruFilterCount :: "danbooru_filters \<Rightarrow> nat" where
  "activeDanbooruFilterCount f =
     of_bool (length (df_ratings f) \<noteq> length DANBOORU_RATINGS) + of_bool (length (df_fileTypes f) \<noteq> length DANBOORU_FILE_TYPES)
     + of_bool (df_dateFrom f \<noteq> [] \<or> df_dateTo f \<noteq> []) + of_bool (df_minimumScore f \<noteq> [])
     + of_bool (df_minimumFavorites f \<noteq> []) + of_bool (df_relationship f \<noteq> ''any'')"

end
