(* ===== verification/BrowserDanbooru.thy ===== *)
theory BrowserDanbooru
  imports DanbooruPreferences BrowserReviews
begin

text \<open>
  The Danbooru part of \<^verbatim>\<open>BrowserMockBackend\<close> (\<^verbatim>\<open>src/src/api/backend.ts\<close>): eighteen fixed posts, the search over them by
  terms and metatags, the posts related to one, completion of tags, and the downloads. \<open>picture\<close> draws the picture of a
  post (an SVG text in the code), \<open>r\<close> is the value of \<^verbatim>\<open>Math.random()\<close>, \<open>ms\<close> the one of \<^verbatim>\<open>Date.now()\<close>. Numbers in terms are
  exact fractions; the code rounds them to doubles. A page size of the list of downloads is positive.
\<close>

section \<open>The posts\<close>

record danbooru_post =
  dp_id :: int
  dp_createdAt :: string
  dp_rating :: string
  dp_score :: int
  dp_favoriteCount :: int
  dp_imageWidth :: int
  dp_imageHeight :: int
  dp_fileExt :: string
  dp_fileSize :: int
  dp_previewUrl :: string
  dp_artists :: "string list"
  dp_copyrights :: "string list"
  dp_characters :: "string list"
  dp_tags :: "string list"
  dp_parentId :: "int option"
  dp_hasChildren :: bool

text \<open>The large picture and the file have the address of the preview.\<close>

definition fixture_post :: "(int \<Rightarrow> string \<Rightarrow> string) \<Rightarrow> nat \<Rightarrow> danbooru_post" where
  "fixture_post picture index =
     (let i = 12000000 + int index; uneven = index mod 2 \<noteq> 0
      in \<lparr>dp_id = i, dp_createdAt = ''2026-08-31T18:'' @ pad_start 2 (show_nat index) @ '':00.000Z'',
          dp_rating = (if index mod 4 = 0 then ''s'' else ''g''), dp_score = 120 - int index, dp_favoriteCount = 40 + int index,
          dp_imageWidth = (if uneven then 1600 else 1200), dp_imageHeight = (if uneven then 1200 else 1800), dp_fileExt = ''jpg'',
          dp_fileSize = 2000000 + int index * 1000, dp_previewUrl = picture i ([''#ef8098'', ''#58c6cd'', ''#f0ad5b''] ! (index mod 3)),
          dp_artists = [''fixture_artist_'' @ show_nat (index mod 3 + 1)],
          dp_copyrights = [if uneven then ''original'' else ''atsumi_fixture''],
          dp_characters = (if uneven then [''sample_character_'' @ show_nat (index mod 4 + 1)] else []),
          dp_tags = [''blue_sky'', if uneven then ''landscape'' else ''portrait''],
          dp_parentId = (if index = 1 \<or> index = 2 then Some 12000000 else if index = 6 \<or> index = 7 then Some 12000005 else None),
          dp_hasChildren = (index = 0 \<or> index = 5)\<rparr>)"

definition browserDanbooruPosts :: "(int \<Rightarrow> string \<Rightarrow> string) \<Rightarrow> danbooru_post list" where
  "browserDanbooruPosts picture = map (fixture_post picture) [0..<18]"

record danbooru_pool =
  pl_id :: int
  pl_name :: string
  pl_category :: string
  pl_postIds :: "int list"

definition browserDanbooruPools :: "danbooru_post list \<Rightarrow> danbooru_pool list" where
  "browserDanbooruPools posts =
     [\<lparr>pl_id = 91, pl_name = ''atsumi_fixture_sequence'', pl_category = ''series'', pl_postIds = map dp_id (Prelude.slice 0 7 posts)\<rparr>,
      \<lparr>pl_id = 92, pl_name = ''fixture_variations'', pl_category = ''collection'', pl_postIds = map dp_id (Prelude.slice 4 12 posts)\<rparr>]"

definition post_tags :: "danbooru_post \<Rightarrow> string list" where
  "post_tags p = dp_artists p @ dp_copyrights p @ dp_characters p @ dp_tags p"

section \<open>Terms\<close>

definition danbooruMetatagName :: "string \<Rightarrow> string option" where
  "danbooruMetatagName term = before_colon (strip_prefix ''-'' term)"

definition browserDanbooruLimitedTermCount :: "string list \<Rightarrow> nat" where
  "browserDanbooruLimitedTermCount terms =
     length (filter (\<lambda>term. case danbooruMetatagName term of
         None \<Rightarrow> True
       | Some name \<Rightarrow> name \<notin> set DANBOORU_UNLIMITED_METATAGS) terms)"

text \<open>\<^verbatim>\<open>-?\d+(?:\.\d+)?\<close> as a whole text, and its value.\<close>

definition decimal :: "string \<Rightarrow> rat option" where
  "decimal s =
     (let body = strip_prefix ''-'' s;
          sign = (if starts_with ''-'' s then - 1 else 1);
          whole = takeWhile is_digit body
      in if whole = [] then None
         else case dropWhile is_digit body of
                [] \<Rightarrow> Some (sign * of_nat (GalleryGroups.digits_value whole))
              | c # fraction \<Rightarrow>
                  if c = CHR ''.'' \<and> all_digits fraction
                  then Some (sign * (of_nat (GalleryGroups.digits_value whole)
                    + of_nat (GalleryGroups.digits_value fraction) / 10 ^ length fraction))
                  else None)"

definition split_operator :: "string \<Rightarrow> string \<times> string" where
  "split_operator e =
     (if starts_with ''>='' e then (''>='', drop 2 e) else if starts_with ''<='' e then (''<='', drop 2 e)
      else if starts_with ''>'' e then (''>'', drop 1 e) else if starts_with ''<'' e then (''<'', drop 1 e) else ([], e))"

definition browserDanbooruMatchesNumeric :: "rat \<Rightarrow> string \<Rightarrow> bool" where
  "browserDanbooruMatchesNumeric actual expression =
     (case split_operator expression of (operator, number) \<Rightarrow>
        case decimal number of
          None \<Rightarrow> True
        | Some expected \<Rightarrow>
            if operator = ''>='' then actual \<ge> expected
            else if operator = ''<='' then actual \<le> expected
            else if operator = ''>'' then actual > expected
            else if operator = ''<'' then actual < expected
            else actual = expected)"

text \<open>Texts are compared by their units.\<close>

definition not_after :: "string \<Rightarrow> string \<Rightarrow> bool" where
  "not_after s t \<longleftrightarrow> compareRustStrings s t \<le> 0"

definition date_range :: "string \<Rightarrow> (string \<times> string) option" where
  "date_range e =
     (let l = take 10 e; r = drop 12 e in if length e = 22 \<and> isDate l \<and> take 2 (drop 10 e) = ''..'' \<and> isDate r then Some (l, r) else None)"

definition browserDanbooruMatchesDate :: "string \<Rightarrow> string \<Rightarrow> bool" where
  "browserDanbooruMatchesDate createdAt expression =
     (let date = take 10 createdAt
      in case date_range expression of
           Some (l, r) \<Rightarrow> not_after l date \<and> not_after date r
         | None \<Rightarrow>
             if starts_with ''>='' expression then not_after (drop 2 expression) date
             else if starts_with ''<='' expression then not_after date (drop 2 expression)
             else date = expression)"

text \<open>\<^verbatim>\<open>value.split(",")\<close>.\<close>

fun split_commas :: "string \<Rightarrow> string list" where
  "split_commas [] = [[]]"
| "split_commas (c # s) =
     (if c = CHR '','' then [] # split_commas s
      else case split_commas s of t # ts \<Rightarrow> (c # t) # ts | [] \<Rightarrow> [[c]])"

definition term_parts :: "string \<Rightarrow> string option \<times> string" where
  "term_parts term =
     (let normalized = strip_prefix ''-'' term
      in case before_colon normalized of
           Some name \<Rightarrow> (Some name, drop (Suc (length name)) normalized)
         | None \<Rightarrow> (None, normalized))"

definition matches_parent :: "int option \<Rightarrow> string \<Rightarrow> bool" where
  "matches_parent parent v =
     (if v = ''any'' then parent \<noteq> None \<and> parent \<noteq> Some 0
      else if v = ''none'' then parent = None \<or> parent = Some 0
      else (case parent of Some i \<Rightarrow> show_int i | None \<Rightarrow> ''undefined'') = v)"

definition matches_child :: "bool \<Rightarrow> string \<Rightarrow> bool" where
  "matches_child hasChildren v = (if v = ''any'' then hasChildren else if v = ''none'' then \<not> hasChildren else True)"

definition matches_text :: "danbooru_post \<Rightarrow> string \<Rightarrow> bool" where
  "matches_text p v = list_ex (\<lambda>candidate. str_includes (lower v) (lower candidate)) (post_tags p)"

definition part_matches :: "danbooru_post \<Rightarrow> string option \<Rightarrow> string \<Rightarrow> bool" where
  "part_matches p name v =
     (case name of
        None \<Rightarrow> matches_text p v
      | Some n \<Rightarrow>
          if n = ''rating'' then dp_rating p \<in> set (split_commas v)
          else if n = ''filetype'' then lower (dp_fileExt p) \<in> set (split_commas v)
          else if n = ''date'' then browserDanbooruMatchesDate (dp_createdAt p) v
          else if n = ''score'' then browserDanbooruMatchesNumeric (of_int (dp_score p)) v
          else if n = ''favcount'' then browserDanbooruMatchesNumeric (of_int (dp_favoriteCount p)) v
          else if n = ''width'' then browserDanbooruMatchesNumeric (of_int (dp_imageWidth p)) v
          else if n = ''height'' then browserDanbooruMatchesNumeric (of_int (dp_imageHeight p)) v
          else if n = ''mpixels'' then browserDanbooruMatchesNumeric (of_int (dp_imageWidth p * dp_imageHeight p) / 1000000) v
          else if n = ''parent'' then matches_parent (dp_parentId p) v
          else if n = ''child'' then matches_child (dp_hasChildren p) v
          else if n \<in> set DANBOORU_UNLIMITED_METATAGS then True
          else if n = ''order'' then True
          else matches_text p v)"

definition term_matches :: "danbooru_post \<Rightarrow> string \<Rightarrow> bool" where
  "term_matches p term =
     (case term_parts term of (name, v) \<Rightarrow>
        if starts_with ''-'' term then \<not> part_matches p name v else part_matches p name v)"

section \<open>Order\<close>

definition fraction_order :: "(danbooru_post \<Rightarrow> rat) \<Rightarrow> danbooru_post \<Rightarrow> danbooru_post \<Rightarrow> int" where
  "fraction_order f x y = (if f x > f y then - 1 else if f x < f y then 1 else 0)"

definition newest_first :: "danbooru_post \<Rightarrow> danbooru_post \<Rightarrow> int" where
  "newest_first x y = dp_id y - dp_id x"

definition largest_first :: "(danbooru_post \<Rightarrow> int) \<Rightarrow> danbooru_post \<Rightarrow> danbooru_post \<Rightarrow> int" where
  "largest_first f = js_or (\<lambda>x y. f y - f x) newest_first"

definition post_order :: "string \<Rightarrow> danbooru_post \<Rightarrow> danbooru_post \<Rightarrow> int" where
  "post_order order =
     (if order = ''id_asc'' then (\<lambda>x y. dp_id x - dp_id y)
      else if order = ''score'' then largest_first dp_score
      else if order = ''favcount'' then largest_first dp_favoriteCount
      else if order = ''mpixels'' then largest_first (\<lambda>p. dp_imageWidth p * dp_imageHeight p)
      else if order = ''filesize'' then largest_first dp_fileSize
      else if order = ''tagcount'' then largest_first (\<lambda>p. int (length (dp_tags p)))
      else if order = ''portrait'' then js_or (fraction_order (\<lambda>p. of_int (dp_imageHeight p) / of_int (dp_imageWidth p))) newest_first
      else if order = ''landscape'' then js_or (fraction_order (\<lambda>p. of_int (dp_imageWidth p) / of_int (dp_imageHeight p))) newest_first
      else newest_first)"

definition order_of :: "string list \<Rightarrow> string" where
  "order_of terms = (case find (starts_with ''order:'') terms of Some t \<Rightarrow> drop 6 t | None \<Rightarrow> ''id'')"

definition filterAndSortBrowserDanbooruPosts :: "danbooru_post list \<Rightarrow> string list \<Rightarrow> danbooru_post list" where
  "filterAndSortBrowserDanbooruPosts posts terms =
     js_sort (post_order (order_of terms)) (filter (\<lambda>p. list_all (term_matches p) terms) posts)"

section \<open>Searching\<close>

record danbooru_page =
  dg_items :: "danbooru_post list"
  dg_page :: int
  dg_hasMore :: bool

definition tag_limit_message :: string where
  "tag_limit_message = ''Danbooru '' @ [CHR 0xEB, CHR 0xB9, CHR 0x84, CHR 0xEB, CHR 0xA1, CHR 0x9C, CHR 0xEA, CHR 0xB7, CHR 0xB8,
     CHR 0xEC, CHR 0x9D, CHR 0xB8] @ '' '' @ [CHR 0xEA, CHR 0xB2, CHR 0x80, CHR 0xEC, CHR 0x83, CHR 0x89, CHR 0xEC, CHR 0x9D,
     CHR 0x80] @ '' '' @ [CHR 0xEC, CHR 0xA0, CHR 0x9C, CHR 0xED, CHR 0x95, CHR 0x9C] @ '' '' @ [CHR 0xEB, CHR 0x8C, CHR 0x80,
     CHR 0xEC, CHR 0x83, CHR 0x81] @ '' '' @ [CHR 0xEC, CHR 0xA1, CHR 0xB0, CHR 0xEA, CHR 0xB1, CHR 0xB4, CHR 0xEC, CHR 0x9D,
     CHR 0x84] @ '' '' @ [CHR 0xEC, CHR 0xB5, CHR 0x9C, CHR 0xEB, CHR 0x8C, CHR 0x80] @ '' 2'' @ [CHR 0xEA, CHR 0xB0, CHR 0x9C,
     CHR 0xEA, CHR 0xB9, CHR 0x8C, CHR 0xEC, CHR 0xA7, CHR 0x80] @ '' '' @ [CHR 0xEC, CHR 0x82, CHR 0xAC, CHR 0xEC, CHR 0x9A,
     CHR 0xA9, CHR 0xED, CHR 0x95, CHR 0xA0] @ '' '' @ [CHR 0xEC, CHR 0x88, CHR 0x98] @ '' '' @ [CHR 0xEC, CHR 0x9E, CHR 0x88,
     CHR 0xEC, CHR 0x8A, CHR 0xB5, CHR 0xEB, CHR 0x8B, CHR 0x88, CHR 0xEB, CHR 0x8B, CHR 0xA4] @ ''.''"

definition post_missing_message :: string where
  "post_missing_message = [CHR 0xED, CHR 0x95, CHR 0xB4, CHR 0xEB, CHR 0x8B, CHR 0xB9] @ '' Danbooru post'' @ [CHR 0xEB, CHR 0xA5,
     CHR 0xBC] @ '' '' @ [CHR 0xEC, CHR 0xB0, CHR 0xBE, CHR 0xEC, CHR 0x9D, CHR 0x84] @ '' '' @ [CHR 0xEC, CHR 0x88, CHR 0x98]
     @ '' '' @ [CHR 0xEC, CHR 0x97, CHR 0x86, CHR 0xEC, CHR 0x8A, CHR 0xB5, CHR 0xEB, CHR 0x8B, CHR 0x88, CHR 0xEB, CHR 0x8B,
     CHR 0xA4] @ ''.''"

definition page_between :: "js_num \<Rightarrow> int \<Rightarrow> bool" where
  "page_between n maximum \<longleftrightarrow> is_integer n \<and> 1 \<le> id_of_num n \<and> id_of_num n \<le> maximum"

definition danbooruSearch :: "danbooru_post list \<Rightarrow> string \<Rightarrow> js_num \<Rightarrow> js_num \<Rightarrow> danbooru_page api_result" where
  "danbooruSearch posts tags page pageSize =
     (if \<not> page_between page 1000 then Inl (validationError ''page'' ''must be between 1 and 1000'')
      else if \<not> page_between pageSize 100 then Inl (validationError ''pageSize'' ''must be between 1 and 100'')
      else let terms = words (lower (trim tags))
           in if browserDanbooruLimitedTermCount terms > 2
              then Inl (notFoundError ''DANBOORU_TAG_LIMIT'' tag_limit_message None)
              else
                let numeric = (if all_digits (trim tags) then Some (int (GalleryGroups.digits_value (trim tags))) else None);
                    filtered = (case numeric of
                        None \<Rightarrow> filterAndSortBrowserDanbooruPosts posts terms
                      | Some i \<Rightarrow> filter (\<lambda>p. dp_id p = i) posts);
                    size = id_of_num pageSize;
                    offset = (id_of_num page - 1) * size
                in Inr \<lparr>dg_items = Prelude.slice (nat offset) (nat (offset + size)) filtered, dg_page = id_of_num page,
                        dg_hasMore = (offset + size < int (length filtered))\<rparr>)"

definition danbooruRandom :: "danbooru_post list \<Rightarrow> rat \<Rightarrow> danbooru_post" where
  "danbooruRandom posts r = posts ! nat \<lfloor>r * of_nat (length posts)\<rfloor>"

section \<open>Related posts\<close>

record pool_relation =
  pr_pool :: danbooru_pool
  pr_postCount :: nat
  pr_currentIndex :: nat
  pr_items :: "danbooru_post list"

record related_posts =
  rp_parent :: "danbooru_post option"
  rp_siblings :: "danbooru_post list"
  rp_children :: "danbooru_post list"
  rp_pools :: "pool_relation list"

definition pool_relation :: "danbooru_post list \<Rightarrow> int \<Rightarrow> danbooru_pool \<Rightarrow> pool_relation option" where
  "pool_relation posts postId pool =
     (case index_of postId (pl_postIds pool) of
        None \<Rightarrow> None
      | Some currentIndex \<Rightarrow>
          let start = min (currentIndex - 4) (length (pl_postIds pool) - 9);
              selectedIds = set_from (Prelude.slice start (start + 9) (pl_postIds pool))
          in Some \<lparr>pr_pool = pool, pr_postCount = length (pl_postIds pool), pr_currentIndex = currentIndex,
                   pr_items = List.map_filter (\<lambda>i. find (\<lambda>p. dp_id p = i) posts) (filter (\<lambda>i. i \<in> set selectedIds) (pl_postIds pool))\<rparr>)"

definition danbooruRelated :: "danbooru_post list \<Rightarrow> int \<Rightarrow> int option \<Rightarrow> bool \<Rightarrow> related_posts api_result" where
  "danbooruRelated posts postId requestParent requestHasChildren =
     (case find (\<lambda>p. dp_id p = postId) posts of
        None \<Rightarrow> Inl (notFoundError ''DANBOORU_POST_NOT_FOUND'' post_missing_message None)
      | Some current \<Rightarrow>
          let parentId = or_else requestParent (dp_parentId current)
          in Inr \<lparr>rp_parent = (case parentId of None \<Rightarrow> None | Some i \<Rightarrow> find (\<lambda>p. dp_id p = i) posts),
                  rp_siblings = (if parentId = None then [] else filter (\<lambda>p. dp_parentId p = parentId \<and> dp_id p \<noteq> postId) posts),
                  rp_children = (if requestHasChildren \<or> dp_hasChildren current then filter (\<lambda>p. dp_parentId p = Some postId) posts else []),
                  rp_pools = List.map_filter (pool_relation posts postId) (browserDanbooruPools posts)\<rparr>)"

section \<open>Completion\<close>

record autocomplete_item =
  au_label :: string
  au_value :: string
  au_category :: nat
  au_postCount :: int

definition danbooruAutocomplete :: "danbooru_post list \<Rightarrow> string \<Rightarrow> int \<Rightarrow> autocomplete_item list" where
  "danbooruAutocomplete posts query limit =
     (let normalized = lower (trim query)
      in if utf16_length normalized < 2 then []
         else let tags = set_from (concat (map post_tags posts))
              in map (\<lambda>(index, tag). \<lparr>au_label = tag, au_value = tag, au_category = index mod 5, au_postCount = 1000 - int index\<rparr>)
                   (List.enumerate 0 (Prelude.slice 0 (nat (max 1 (min 10 limit))) (filter (str_includes normalized) tags))))"

section \<open>Downloads\<close>

record danbooru_record =
  dd_post :: danbooru_post
  dd_fileName :: string
  dd_downloadedAt :: string
  dd_bytes :: int

type_synonym danbooru_downloads = "(int \<times> danbooru_record) list"

definition danbooruDownload :: "danbooru_post list \<Rightarrow> int \<Rightarrow> nat \<Rightarrow> danbooru_downloads \<Rightarrow> danbooru_record api_result \<times> danbooru_downloads" where
  "danbooruDownload posts postId ms m =
     (case map_of m postId of
        Some existing \<Rightarrow> (Inr existing, m)
      | None \<Rightarrow>
          (case find (\<lambda>p. dp_id p = postId) posts of
             None \<Rightarrow> (Inl (notFoundError ''DANBOORU_POST_NOT_FOUND'' post_missing_message None), m)
           | Some post \<Rightarrow>
               let rec = \<lparr>dd_post = post, dd_fileName = show_int (dp_id post) @ ''.'' @ dp_fileExt post,
                     dd_downloadedAt = show_nat ms, dd_bytes = dp_fileSize post\<rparr>
               in (Inr rec, AList.update (dp_id post) rec m)))"

definition record_matches :: "string \<Rightarrow> danbooru_record \<Rightarrow> bool" where
  "record_matches query r \<longleftrightarrow>
     query = [] \<or> list_ex (\<lambda>v. str_includes query (lower v)) (show_int (dp_id (dd_post r)) # post_tags (dd_post r))"

record danbooru_downloads_page =
  dl_items :: "danbooru_record list"
  dl_page :: int
  dl_total :: nat
  dl_totalPages :: int

definition later_first :: "danbooru_record \<Rightarrow> danbooru_record \<Rightarrow> int" where
  "later_first x y = int (GalleryGroups.digits_value (dd_downloadedAt y)) - int (GalleryGroups.digits_value (dd_downloadedAt x))"

definition danbooruDownloadsList :: "string \<Rightarrow> int \<Rightarrow> int \<Rightarrow> danbooru_downloads \<Rightarrow> danbooru_downloads_page" where
  "danbooruDownloadsList query requestPage pageSize m =
     (let records = js_sort later_first (filter (record_matches (lower (trim query))) (vals m));
          totalPages = max 1 (ceil_div (int (length records)) pageSize);
          page = max 1 (min totalPages requestPage);
          offset = (page - 1) * pageSize
      in \<lparr>dl_items = Prelude.slice (nat offset) (nat (offset + pageSize)) records, dl_page = page,
          dl_total = length records, dl_totalPages = totalPages\<rparr>)"

end
