(* ===== verification/DanbooruFacts.thy ===== *)
theory DanbooruFacts
  imports BrowserDanbooru
begin

text \<open>
  What the Danbooru search promises: the query that the filters become finds, in the browser backend, exactly the posts
  that satisfy them, in the order asked for; the client and the backend agree on how many terms count against the limit;
  filters survive the storage.
\<close>

section \<open>Words\<close>

lemma words_none: "dropWhile is_space s = [] \<Longrightarrow> words s = []"
  by (subst words.simps) (simp only: list.case)

lemma words_some: "dropWhile is_space s = c # t \<Longrightarrow>
    words s = (c # takeWhile (\<lambda>d. \<not> is_space d) t) # words (dropWhile (\<lambda>d. \<not> is_space d) t)"
  by (subst words.simps) (simp only: list.case)

lemma words_Nil [simp]: "words [] = []"
  by (simp add: words.simps)

lemma words_space: "is_space c \<Longrightarrow> words (c # s) = words s"
  by (simp add: words.simps [of "c # s"]) (simp add: words.simps [of s])

lemma words_cut: "is_space c \<Longrightarrow> words (u @ c # v) = words u @ words v"
proof (induction u rule: words.induct)
  case (1 u)
  show ?case
  proof (cases "dropWhile is_space u")
    case Nil
    then have sp: "\<forall>d \<in> set u. is_space d" by simp
    have "words (u @ w) = words w" for w
      using sp by (induction u) (simp_all add: words_space)
    then show ?thesis using 1(2) words_none [OF Nil] by (simp add: words_space)
  next
    case (Cons d t)
    define r where "r = dropWhile (\<lambda>d. \<not> is_space d) t"
    have u: "dropWhile is_space (u @ c # v) = d # (t @ c # v)"
    proof -
      have "\<exists>x \<in> set u. \<not> is_space x" using Cons dropWhile_eq_Nil_conv by (metis list.distinct(1))
      then show ?thesis using Cons by (auto simp: dropWhile_append1)
    qed
    have ih: "words (r @ c # v) = words r @ words v" using 1(1) [OF Cons] 1(2) by (simp add: r_def)
    have tw: "takeWhile (\<lambda>d. \<not> is_space d) (t @ c # v) = takeWhile (\<lambda>d. \<not> is_space d) t"
      using 1(2) by (induction t) auto
    have dw: "words (dropWhile (\<lambda>d. \<not> is_space d) (t @ c # v)) = words (r @ c # v)"
      using 1(2) unfolding r_def by (induction t) (auto simp: words_space)
    have "words (u @ c # v) = (d # takeWhile (\<lambda>d. \<not> is_space d) (t @ c # v)) # words (dropWhile (\<lambda>d. \<not> is_space d) (t @ c # v))"
      by (rule words_some [OF u])
    also have "\<dots> = (d # takeWhile (\<lambda>d. \<not> is_space d) t) # words r @ words v" by (simp only: tw dw ih)
    also have "\<dots> = words u @ words v" by (simp add: words_some [OF Cons] r_def)
    finally show ?thesis .
  qed
qed

definition plain_word :: "string \<Rightarrow> bool" where
  "plain_word w \<longleftrightarrow> w \<noteq> [] \<and> (\<forall>c \<in> set w. \<not> is_space c)"

lemma words_word: "plain_word w \<Longrightarrow> words w = [w]"
proof -
  assume w: "plain_word w"
  then obtain c t where ct: "w = c # t" by (cases w) (auto simp: plain_word_def)
  with w have c: "\<not> is_space c" "\<forall>d \<in> set t. \<not> is_space d" by (auto simp: plain_word_def)
  then have e: "dropWhile is_space (c # t) = c # t" "takeWhile (\<lambda>d. \<not> is_space d) t = t" by (simp_all add: takeWhile_eq_all_conv)
  have n: "dropWhile (\<lambda>d. \<not> is_space d) t = []" using c(2) by simp
  show ?thesis using words_some [OF e(1)] by (simp only: ct e(2) n words_Nil)
qed

lemma words_join: "list_all plain_word ws \<Longrightarrow> words (join '' '' ws) = ws"
proof (induction ws)
  case (Cons w ws)
  show ?case
  proof (cases ws)
    case (Cons v vs)
    have "words (w @ CHR '' '' # join '' '' ws) = words w @ words (join '' '' ws)"
      by (rule words_cut) (simp add: is_space_def)
    then show ?thesis using Cons.IH Cons.prems Cons by (simp add: words_word)
  qed (use Cons.prems in \<open>simp add: words_word\<close>)
qed simp

lemma words_plain: "w \<in> set (words s) \<Longrightarrow> plain_word w"
proof (induction s rule: words.induct)
  case (1 s)
  show ?case
  proof (cases "dropWhile is_space s")
    case Nil
    then show ?thesis using 1(2) words_none [OF Nil] by simp
  next
    case (Cons c t)
    have "\<not> is_space c" using Cons by (metis hd_dropWhile list.distinct(1) list.sel(1))
    then have "plain_word (c # takeWhile (\<lambda>d. \<not> is_space d) t)" by (auto simp: plain_word_def dest: set_takeWhileD)
    moreover have "w = c # takeWhile (\<lambda>d. \<not> is_space d) t \<or> w \<in> set (words (dropWhile (\<lambda>d. \<not> is_space d) t))"
      using 1(2) by (simp only: words_some [OF Cons] list.set insert_iff)
    ultimately show ?thesis using 1(1) [OF Cons] by blast
  qed
qed

lemma words_spaces: "\<forall>c \<in> set u. is_space c \<Longrightarrow> words (s @ u) = words s" "\<forall>c \<in> set u. is_space c \<Longrightarrow> words (u @ s) = words s"
proof -
  have sp: "\<forall>c \<in> set u. is_space c \<Longrightarrow> words u = []" for u by (induction u) (simp_all add: words_space)
  show "\<forall>c \<in> set u. is_space c \<Longrightarrow> words (s @ u) = words s" using sp by (cases u) (simp_all add: words_cut)
  show "\<forall>c \<in> set u. is_space c \<Longrightarrow> words (u @ s) = words s" by (induction u) (simp_all add: words_space)
qed

lemma trim_parts: "\<exists>u v. (\<forall>c \<in> set u. is_space c) \<and> (\<forall>c \<in> set v. is_space c) \<and> s = u @ trim s @ v"
proof -
  let ?d = "dropWhile is_space s"
  have "s = takeWhile is_space s @ ?d" by simp
  moreover have "?d = trim s @ rev (takeWhile is_space (rev ?d))"
    by (metis rev_append rev_rev_ident takeWhile_dropWhile_id trim_def)
  ultimately show ?thesis
    by (intro exI [of _ "takeWhile is_space s"] exI [of _ "rev (takeWhile is_space (rev ?d))"]) (auto dest: set_takeWhileD)
qed

lemma words_of_trim [simp]: "words (trim s) = words s"
proof -
  obtain u v where p: "\<forall>c \<in> set u. is_space c" "\<forall>c \<in> set v. is_space c" "s = u @ trim s @ v"
    using trim_parts [of s] by blast
  have "words s = words (u @ trim s @ v)" using p(3) by (rule arg_cong)
  also have "\<dots> = words (trim s)" using words_spaces p(1,2) by simp
  finally show ?thesis by simp
qed

lemma words_lower: "words (lower s) = map lower (words s)"
proof (induction s rule: words.induct)
  case (1 s)
  have d: "dropWhile is_space (lower s) = lower (dropWhile is_space s)" for s
    by (induction s) (simp_all add: lower_def)
  have t: "takeWhile (\<lambda>d. \<not> is_space d) (lower t) = lower (takeWhile (\<lambda>d. \<not> is_space d) t)"
    "dropWhile (\<lambda>d. \<not> is_space d) (lower t) = lower (dropWhile (\<lambda>d. \<not> is_space d) t)" for t
    by (induction t) (simp_all add: lower_def)
  show ?case
  proof (cases "dropWhile is_space s")
    case (Cons c u)
    have l: "lower (c # u) = lower_char c # lower u" for u by (simp add: lower_def)
    have "dropWhile is_space (lower s) = lower_char c # lower u" by (simp only: d Cons l)
    from words_some [OF this] show ?thesis using 1 [OF Cons] by (simp add: words_some [OF Cons] l t)
  next
    case Nil
    then have "dropWhile is_space (lower s) = []" by (simp only: d lower_Nil)
    from words_none [OF this] words_none [OF Nil] show ?thesis by simp
  qed
qed

lemma words_empty: "words s = [] \<Longrightarrow> \<forall>c \<in> set s. is_space c"
proof (cases "dropWhile is_space s")
  case (Cons c t)
  assume "words s = []"
  with words_some [OF Cons] show ?thesis by simp
qed simp

lemma words_ends: "a @ c # b = trim s \<Longrightarrow> is_space c \<Longrightarrow> words a \<noteq> [] \<and> words b \<noteq> []"
proof -
  let ?d = "dropWhile is_space s"
  assume e: "a @ c # b = trim s" and c: "is_space c"
  have d: "?d = trim s @ rev (takeWhile is_space (rev ?d))"
    by (metis rev_append rev_rev_ident takeWhile_dropWhile_id trim_def)
  have "?d \<noteq> []" using d e by (metis append_is_Nil_conv list.distinct(1))
  then have "\<not> is_space (hd ?d)" by (rule hd_dropWhile)
  moreover have "hd ?d = (if a = [] then c else hd a)" using d e by (cases a) (metis append_Cons append_Nil list.sel(1))+
  ultimately have a: "a \<noteq> []" "\<not> is_space (hd a)" using c by (auto split: if_splits)
  have r: "rev (trim s) = dropWhile is_space (rev ?d)" by (simp add: trim_def)
  then have "dropWhile is_space (rev ?d) \<noteq> []" using e by (metis append_is_Nil_conv list.distinct(1) rev_is_Nil_conv)
  then have "\<not> is_space (hd (rev (trim s)))" unfolding r by (rule hd_dropWhile)
  then have "\<not> is_space (last (a @ c # b))" unfolding e hd_rev .
  then have b: "b \<noteq> []" "\<not> is_space (last b)" using c by (auto split: if_splits)
  show ?thesis using words_empty [of a] words_empty [of b] a b by auto
qed

lemma words_one: "words s = [w] \<Longrightarrow> trim s = w"
proof -
  assume "words s = [w]"
  then have one: "words (trim s) = [w]" by simp
  have "\<not> is_space c" if "c \<in> set (trim s)" for c
  proof
    assume c: "is_space c"
    obtain a b where ab: "trim s = a @ c # b" using \<open>c \<in> set (trim s)\<close> by (meson split_list)
    have "words (trim s) = words a @ words b" by (simp only: ab words_cut [OF c])
    with one words_ends [OF ab [symmetric] c] show False by (cases "words a") auto
  qed
  moreover have "trim s \<noteq> []" using one words_Nil by (metis list.distinct(1))
  ultimately have "words (trim s) = [trim s]" by (intro words_word) (simp add: plain_word_def)
  with one show ?thesis by simp
qed

section \<open>Terms\<close>

text \<open>Marks are no letters, so case does not matter to them.\<close>

lemma lower_char_mark:
  assumes "m \<in> {CHR '':'', CHR ''-'', CHR '',''}"
  shows "lower_char c = m \<longleftrightarrow> c = m"
proof (cases "map_of (zip upper_letters lower_letters) c")
  case (Some d)
  then have "d \<in> set lower_letters" "c \<in> set upper_letters" by (meson map_of_SomeD set_zip_rightD set_zip_leftD)+
  moreover have "m \<notin> set lower_letters \<union> set upper_letters" using assms by (auto simp: lower_letters_def upper_letters_def)
  ultimately show ?thesis using Some by (auto simp: lower_char_def)
qed (simp add: lower_char_def)

lemma index_of_lower: "index_of (CHR '':'') (lower t) = index_of (CHR '':'') t"
  unfolding index_of_def lower_def by (induction t) (simp_all add: lower_char_mark)

lemma before_colon_lower: "before_colon (lower t) = map_option lower (before_colon t)"
  unfolding before_colon_def index_of_lower Let_def
  by (cases "index_of (CHR '':'') t") (simp_all only: option.case option.map, simp add: lower_def take_map split: nat.splits)

lemma starts_with_minus_lower: "starts_with ''-'' (lower t) = starts_with ''-'' t"
  by (cases t) (simp_all add: starts_with_def lower_def lower_char_mark)

lemma strip_minus_lower: "strip_prefix ''-'' (lower t) = lower (strip_prefix ''-'' t)"
  by (simp add: strip_prefix_def starts_with_minus_lower) (simp add: lower_def drop_map)

lemma index_of_first: "x \<notin> set u \<Longrightarrow> index_of x (u @ x # v) = Some (length u)"
  unfolding index_of_def by (induction u) auto

lemma before_colon_name: "CHR '':'' \<notin> set n \<Longrightarrow> n \<noteq> [] \<Longrightarrow> before_colon (n @ CHR '':'' # v) = Some n"
  by (cases n) (simp_all add: before_colon_def index_of_first [of _ "_ # _", simplified])

lemma split_commas_plain: "CHR '','' \<notin> set t \<Longrightarrow> split_commas t = [t]"
  by (induction t) auto

lemma split_commas_cut: "CHR '','' \<notin> set t \<Longrightarrow> split_commas (t @ CHR '','' # s) = t # split_commas s"
  by (induction t) auto

lemma split_commas_join: "ts \<noteq> [] \<Longrightarrow> \<forall>t \<in> set ts. CHR '','' \<notin> set t \<Longrightarrow> split_commas (join '','' ts) = ts"
proof (induction ts)
  case (Cons t ts)
  then show ?case by (cases ts) (simp_all add: split_commas_plain split_commas_cut)
qed simp

lemma set_join: "set (join sep ts) \<subseteq> set sep \<union> \<Union> (set ` set ts)"
  by (induction sep ts rule: join.induct) auto

text \<open>What a numeric text means.\<close>

definition number_of :: "string \<Rightarrow> int" where
  "number_of m = (if starts_with ''-'' m then - int (GalleryGroups.digits_value (drop 1 m)) else int (GalleryGroups.digits_value m))"

lemma decimal_number: "numeric_text m \<Longrightarrow> decimal m = Some (of_int (number_of m))"
proof -
  assume "numeric_text m"
  then have d: "strip_prefix ''-'' m \<noteq> []" "\<forall>c \<in> set (strip_prefix ''-'' m). is_digit c"
    by (simp_all add: numeric_text_def all_digits_def list_all_iff)
  have t: "takeWhile is_digit (strip_prefix ''-'' m) = strip_prefix ''-'' m" using d(2) by (simp add: takeWhile_eq_all_conv)
  have "dropWhile is_digit (strip_prefix ''-'' m) = []" using d(2) by simp
  with d(1) t show ?thesis by (simp only: decimal_def Let_def list.case if_False) (simp add: number_of_def strip_prefix_def)
qed

section \<open>What filters mean\<close>

text \<open>No choice, or every choice, is no restriction.\<close>

definition unrestricted :: "string list \<Rightarrow> string list \<Rightarrow> bool" where
  "unrestricted vs known \<longleftrightarrow> vs = [] \<or> set known \<subseteq> set vs"

definition related_as :: "string \<Rightarrow> danbooru_post \<Rightarrow> bool" where
  "related_as r p \<longleftrightarrow>
     (r = ''has_parent'' \<longrightarrow> dp_parentId p \<notin> {None, Some 0}) \<and> (r = ''no_parent'' \<longrightarrow> dp_parentId p \<in> {None, Some 0})
     \<and> (r = ''has_children'' \<longrightarrow> dp_hasChildren p) \<and> (r = ''no_children'' \<longrightarrow> \<not> dp_hasChildren p)"

definition satisfies :: "danbooru_filters \<Rightarrow> danbooru_post \<Rightarrow> bool" where
  "satisfies f p \<longleftrightarrow>
     (unrestricted (df_ratings f) DANBOORU_RATINGS \<or> dp_rating p \<in> set (df_ratings f))
     \<and> (unrestricted (df_fileTypes f) DANBOORU_FILE_TYPES \<or> lower (dp_fileExt p) \<in> set (df_fileTypes f))
     \<and> (df_dateFrom f = [] \<or> not_after (df_dateFrom f) (take 10 (dp_createdAt p)))
     \<and> (df_dateTo f = [] \<or> not_after (take 10 (dp_createdAt p)) (df_dateTo f))
     \<and> (df_minimumScore f = [] \<or> number_of (df_minimumScore f) \<le> dp_score p)
     \<and> (df_minimumFavorites f = [] \<or> number_of (df_minimumFavorites f) \<le> dp_favoriteCount p)
     \<and> related_as (df_relationship f) p"

definition sort_key :: "string \<Rightarrow> string" where
  "sort_key s = (case map_of DANBOORU_SORTS s of Some (Some tag) \<Rightarrow> drop 6 tag | _ \<Rightarrow> ''id'')"

text \<open>Filters as the cleaning leaves them.\<close>

definition clean :: "danbooru_filters \<Rightarrow> bool" where
  "clean f \<longleftrightarrow> (\<exists>P. df_ratings f = filter P DANBOORU_RATINGS) \<and> (\<exists>P. df_fileTypes f = filter P DANBOORU_FILE_TYPES)
     \<and> (df_dateFrom f = [] \<or> isDate (df_dateFrom f)) \<and> (df_dateTo f = [] \<or> isDate (df_dateTo f))
     \<and> (df_minimumScore f = [] \<or> numeric_text (df_minimumScore f))
     \<and> (df_minimumFavorites f = [] \<or> numeric_text (df_minimumFavorites f))
     \<and> df_relationship f \<in> set DANBOORU_RELATIONSHIPS \<and> df_sort f \<in> set (keys DANBOORU_SORTS)"

lemma clean_default: "clean defaultDanbooruSearchFilters"
proof -
  have "\<exists>P. xs = filter P xs" for xs :: "string list" by (rule exI [of _ "\<lambda>_. True"]) simp
  then show ?thesis by (simp add: clean_def defaultDanbooruSearchFilters_def DANBOORU_RELATIONSHIPS_def DANBOORU_SORTS_def)
qed

lemma chosen_filter: "\<exists>P. chosen known v = filter P known"
proof (cases v)
  case (JArr vs)
  then show ?thesis by (intro exI [of _ "\<lambda>k. JStr k \<in> set vs"]) (simp add: chosen_def)
qed (rule exI [of _ "\<lambda>_. True"], simp add: chosen_def)+

lemma clean_ms: "clean (clean_fields ms)"
proof -
  have "text_if P v = [] \<or> P (text_if P v)" for P v by (cases v) (simp_all add: text_if_def)
  moreover have one: "one_of known k v \<in> set known" if "k \<in> set known" for known k v using that by (cases v) (simp_all add: one_of_def)
  have "one_of DANBOORU_RELATIONSHIPS ''any'' v \<in> set DANBOORU_RELATIONSHIPS"
    "one_of (keys DANBOORU_SORTS) ''newest'' v \<in> set (keys DANBOORU_SORTS)" for v
    by (rule one, simp add: DANBOORU_RELATIONSHIPS_def, rule one, simp add: DANBOORU_SORTS_def)
  ultimately show ?thesis by (simp add: clean_def clean_fields_def chosen_filter del: set_map)
qed

lemma clean_sanitize: "clean (sanitizeDanbooruSearchFilters v)"
  by (cases v) (simp_all add: sanitizeDanbooruSearchFilters_def clean_default clean_ms)

section \<open>Terms of the filters\<close>

definition safe :: "string \<Rightarrow> bool" where
  "safe t \<longleftrightarrow> (\<forall>c \<in> set t. \<not> is_space c \<and> lower_char c = c)"

lemma safe_append [simp]: "safe (s @ t) \<longleftrightarrow> safe s \<and> safe t"
  by (auto simp: safe_def)

lemma safe_lower: "safe t \<Longrightarrow> lower t = t"
  by (auto simp: safe_def lower_def intro: map_idI)

lemma safe_digit: "is_digit c \<Longrightarrow> \<not> is_space c \<and> lower_char c = c"
proof -
  have "\<forall>c \<in> set digit_chars. \<not> is_space c \<and> lower_char c = c" by code_simp
  then show "is_digit c \<Longrightarrow> ?thesis" by (simp add: is_digit_def)
qed

lemma date_chars: "isDate s \<Longrightarrow> c \<in> set s \<Longrightarrow> is_digit c \<or> c = CHR ''-''"
  by (auto simp: isDate_def dated_def eval_nat_numeral length_Suc_conv Prelude.slice_def)

lemma safe_date: "isDate s \<Longrightarrow> safe s"
proof -
  have "\<not> is_space (CHR ''-'') \<and> lower_char (CHR ''-'') = CHR ''-''" by code_simp
  then show "isDate s \<Longrightarrow> safe s" using date_chars [of s] safe_digit unfolding safe_def by metis
qed

lemma safe_number: "numeric_text s \<Longrightarrow> safe s"
proof -
  have m: "\<not> is_space (CHR ''-'') \<and> lower_char (CHR ''-'') = CHR ''-''" by code_simp
  assume n: "numeric_text s"
  have "is_digit c \<or> c = CHR ''-''" if "c \<in> set s" for c
  proof (cases "starts_with ''-'' s")
    case True
    then obtain t where "s = CHR ''-'' # t" by (auto simp: starts_with_iff)
    then show ?thesis using n that by (auto simp: numeric_text_def all_digits_def strip_prefix_def list_all_iff)
  qed (use n that in \<open>auto simp: numeric_text_def all_digits_def strip_prefix_def list_all_iff\<close>)
  then show ?thesis using m safe_digit unfolding safe_def by metis
qed

lemma safe_known: "list_all (\<lambda>t. safe t \<and> CHR '','' \<notin> set t) (DANBOORU_RATINGS @ DANBOORU_FILE_TYPES)"
  unfolding safe_def by code_simp

lemma safe_join: "(\<And>t. t \<in> set ts \<Longrightarrow> safe t) \<Longrightarrow> safe (join '','' ts)"
proof -
  assume ts: "\<And>t. t \<in> set ts \<Longrightarrow> safe t"
  have "\<not> is_space (CHR '','') \<and> lower_char (CHR '','') = CHR '',''" by code_simp
  moreover have "c = CHR '','' \<or> (\<exists>t \<in> set ts. c \<in> set t)" if "c \<in> set (join '','' ts)" for c
    using subsetD [OF set_join that] by auto
  ultimately show ?thesis using ts by (auto simp: safe_def)
qed

lemma filter_all: "length (filter P xs) = length xs \<longleftrightarrow> set xs \<subseteq> set (filter P xs)"
proof
  assume "length (filter P xs) = length xs"
  then have "\<forall>x \<in> set xs. P x" using length_filter_less [of _ xs P] by fastforce
  then show "set xs \<subseteq> set (filter P xs)" by auto
next
  assume "set xs \<subseteq> set (filter P xs)"
  then have "filter P xs = xs" by (auto simp: filter_id_conv)
  then show "length (filter P xs) = length xs" by simp
qed

lemma restricted: "vs = filter P known \<Longrightarrow> (vs = [] \<or> length vs = length known) = unrestricted vs known"
  by (simp only: unrestricted_def filter_all)

lemma safe_filter: "vs = filter P DANBOORU_RATINGS \<or> vs = filter P DANBOORU_FILE_TYPES \<Longrightarrow> t \<in> set vs \<Longrightarrow> safe t \<and> CHR '','' \<notin> set t"
  using safe_known by (auto simp: list_all_iff)

lemma selection_term:
  assumes "vs = filter P DANBOORU_RATINGS \<and> known = DANBOORU_RATINGS \<or> vs = filter P DANBOORU_FILE_TYPES \<and> known = DANBOORU_FILE_TYPES"
  shows "list_all Q (selectionMetatag vs known name) \<longleftrightarrow> unrestricted vs known \<or> Q (name @ CHR '':'' # join '','' vs)"
    and "\<not> unrestricted vs known \<Longrightarrow> split_commas (join '','' vs) = vs"
    and "safe (join '','' vs)"
proof -
  have v: "vs = filter P known" using assms by auto
  note s = safe_filter [of vs P]
  show "list_all Q (selectionMetatag vs known name) \<longleftrightarrow> unrestricted vs known \<or> Q (name @ CHR '':'' # join '','' vs)"
    using restricted [OF v] by (simp add: selectionMetatag_def)
  show "\<not> unrestricted vs known \<Longrightarrow> split_commas (join '','' vs) = vs"
    using s assms by (intro split_commas_join) (auto simp: unrestricted_def)
  show "safe (join '','' vs)" using s assms by (intro safe_join) auto
qed

lemma term_named: "CHR '':'' \<notin> set n \<Longrightarrow> n \<noteq> [] \<Longrightarrow> hd n \<noteq> CHR ''-'' \<Longrightarrow>
    term_matches p (n @ CHR '':'' # v) = part_matches p (Some n) v"
  by (cases n) (simp_all add: term_matches_def term_parts_def starts_with_def strip_prefix_def
      before_colon_name [of "_ # _", simplified])

lemma numeric_least: "numeric_text m \<Longrightarrow> browserDanbooruMatchesNumeric (of_int i) (''>='' @ m) \<longleftrightarrow> number_of m \<le> i"
  by (simp add: browserDanbooruMatchesNumeric_def split_operator_def starts_with_def decimal_number)

lemma not_range: "\<not> is_digit c \<Longrightarrow> date_range (c # s) = None"
  by (auto simp: date_range_def isDate_def dated_def Let_def)

lemma date_one:
  "browserDanbooruMatchesDate d (''>='' @ t) \<longleftrightarrow> not_after t (take 10 d)"
  "browserDanbooruMatchesDate d (''<='' @ t) \<longleftrightarrow> not_after (take 10 d) t"
proof -
  have "\<not> is_digit (CHR ''>'')" "\<not> is_digit (CHR ''<'')" by (simp_all add: is_digit_def digit_chars_def)
  then show "browserDanbooruMatchesDate d (''>='' @ t) \<longleftrightarrow> not_after t (take 10 d)"
    "browserDanbooruMatchesDate d (''<='' @ t) \<longleftrightarrow> not_after (take 10 d) t"
    by (simp_all add: browserDanbooruMatchesDate_def not_range starts_with_def Let_def)
qed

lemma date_both: "isDate l \<Longrightarrow> isDate r \<Longrightarrow>
    browserDanbooruMatchesDate d (l @ ''..'' @ r) \<longleftrightarrow> not_after l (take 10 d) \<and> not_after (take 10 d) r"
proof -
  assume "isDate l" "isDate r"
  then have "date_range (l @ ''..'' @ r) = Some (l, r)" by (simp add: date_range_def Let_def isDate_def)
  then show ?thesis by (simp add: browserDanbooruMatchesDate_def Let_def)
qed

lemma date_matches:
  assumes "l = [] \<or> isDate l" "r = [] \<or> isDate r"
  shows "list_all (term_matches p) (date_terms l r) \<longleftrightarrow>
    (l = [] \<or> not_after l (take 10 (dp_createdAt p))) \<and> (r = [] \<or> not_after (take 10 (dp_createdAt p)) r)"
proof -
  have n: "term_matches p (''date:'' @ v) = browserDanbooruMatchesDate (dp_createdAt p) v" for v
    using term_named [of "''date''" p v] by (simp add: part_matches_def)
  note one = date_one [of "dp_createdAt p", simplified] and both = date_both [of l r "dp_createdAt p", simplified]
  show ?thesis using assms n [of "''>='' @ l"] n [of "''<='' @ r"] n [of "l @ ''..'' @ r"]
    by (auto simp: date_terms_def one both)
qed

lemma number_matches:
  assumes "m = [] \<or> numeric_text m"
  shows "list_all (term_matches p) (if m \<noteq> [] then [''score:>='' @ m] else []) \<longleftrightarrow> m = [] \<or> number_of m \<le> dp_score p"
    and "list_all (term_matches p) (if m \<noteq> [] then [''favcount:>='' @ m] else []) \<longleftrightarrow> m = [] \<or> number_of m \<le> dp_favoriteCount p"
  using assms term_named [of "''score''" p "''>='' @ m"] term_named [of "''favcount''" p "''>='' @ m"]
    numeric_least [of m "dp_score p"] numeric_least [of m "dp_favoriteCount p"]
  by (auto simp: part_matches_def)

lemma relationship_matches: "list_all (term_matches p) (relationship_terms r) \<longleftrightarrow> related_as r p"
  using term_named [of "''parent''" p "''any''"] term_named [of "''parent''" p "''none''"]
    term_named [of "''child''" p "''any''"] term_named [of "''child''" p "''none''"]
  by (auto simp: relationship_terms_def related_as_def part_matches_def matches_parent_def matches_child_def)

lemma sort_matches: "s \<in> set (keys DANBOORU_SORTS) \<Longrightarrow> list_all (term_matches p) (sort_terms s)"
  using term_named [of "''order''" p] by (auto simp: sort_terms_def DANBOORU_SORTS_def part_matches_def DANBOORU_UNLIMITED_METATAGS_def)

lemma filters_match:
  assumes "clean f"
  shows "list_all (term_matches p) (filter_terms f) \<longleftrightarrow> satisfies f p"
proof -
  from assms obtain P Q where P: "df_ratings f = filter P DANBOORU_RATINGS" and Q: "df_fileTypes f = filter Q DANBOORU_FILE_TYPES"
    by (auto simp: clean_def)
  note r = selection_term(1,2) [OF disjI1 [OF conjI [OF P refl]]] and t = selection_term(1,2) [OF disjI2 [OF conjI [OF Q refl]]]
  have "list_all (term_matches p) (selectionMetatag (df_ratings f) DANBOORU_RATINGS ''rating'')
      \<longleftrightarrow> unrestricted (df_ratings f) DANBOORU_RATINGS \<or> dp_rating p \<in> set (df_ratings f)"
    using term_named [of "''rating''" p "join '','' (df_ratings f)"]
    by (cases "unrestricted (df_ratings f) DANBOORU_RATINGS") (simp_all add: r part_matches_def)
  moreover have "list_all (term_matches p) (selectionMetatag (df_fileTypes f) DANBOORU_FILE_TYPES ''filetype'')
      \<longleftrightarrow> unrestricted (df_fileTypes f) DANBOORU_FILE_TYPES \<or> lower (dp_fileExt p) \<in> set (df_fileTypes f)"
    using term_named [of "''filetype''" p "join '','' (df_fileTypes f)"]
    by (cases "unrestricted (df_fileTypes f) DANBOORU_FILE_TYPES") (simp_all add: t part_matches_def)
  ultimately show ?thesis
    using assms date_matches [of "df_dateFrom f" "df_dateTo f" p] number_matches(1) [of "df_minimumScore f" p]
      number_matches(2) [of "df_minimumFavorites f" p] relationship_matches [of p "df_relationship f"] sort_matches [of "df_sort f" p]
    by (simp only: filter_terms_def satisfies_def clean_def list_all_append) blast
qed

lemma safe_literals: "list_all safe [''rating:'', ''filetype:'', ''date:'', ''date:>='', ''date:<='', ''..'', ''score:>='', ''favcount:>='',
    ''parent:any'', ''parent:none'', ''child:any'', ''child:none'', ''order:id_asc'', ''order:score'', ''order:favcount'',
    ''order:mpixels'', ''order:filesize'', ''order:tagcount'', ''order:portrait'', ''order:landscape'']"
  unfolding safe_def by code_simp

lemmas safe_literal = safe_literals [simplified]

text \<open>The terms are words in lower case, and each has a colon; only the last kind gives an order.\<close>

definition term_ok :: "string \<Rightarrow> bool" where
  "term_ok t \<longleftrightarrow> safe t \<and> CHR '':'' \<in> set t"

lemma term_ok_word: "term_ok t \<Longrightarrow> plain_word t \<and> lower t = t"
  by (auto simp: term_ok_def plain_word_def safe_lower) (auto simp: safe_def)

lemma filter_terms_ok:
  assumes "clean f"
  shows "list_all term_ok (filter_terms f)"
proof -
  from assms obtain P Q where P: "df_ratings f = filter P DANBOORU_RATINGS" and Q: "df_fileTypes f = filter Q DANBOORU_FILE_TYPES"
    by (auto simp: clean_def)
  note r = selection_term(1,3) [OF disjI1 [OF conjI [OF P refl]]] and t = selection_term(1,3) [OF disjI2 [OF conjI [OF Q refl]]]
  have "list_all term_ok (selectionMetatag (df_ratings f) DANBOORU_RATINGS ''rating'')"
    using safe_append [of "''rating:''" "join '','' (df_ratings f)"] safe_literal(1) r(2) by (simp add: r(1) term_ok_def)
  moreover have "list_all term_ok (selectionMetatag (df_fileTypes f) DANBOORU_FILE_TYPES ''filetype'')"
    using safe_append [of "''filetype:''" "join '','' (df_fileTypes f)"] safe_literal t(2) by (simp add: t(1) term_ok_def)
  moreover have "list_all term_ok (date_terms (df_dateFrom f) (df_dateTo f))"
    using assms safe_append [of "''date:''" "df_dateFrom f @ ''..'' @ df_dateTo f"] safe_append [of "''date:>=''" "df_dateFrom f"]
      safe_append [of "''..''" "df_dateTo f"] safe_append [of "''date:<=''" "df_dateTo f"] safe_literal safe_date
    by (auto simp: date_terms_def term_ok_def clean_def)
  moreover have "list_all term_ok (if df_minimumScore f \<noteq> [] then [''score:>='' @ df_minimumScore f] else [])"
    "list_all term_ok (if df_minimumFavorites f \<noteq> [] then [''favcount:>='' @ df_minimumFavorites f] else [])"
    using assms safe_append [of "''score:>=''" "df_minimumScore f"] safe_append [of "''favcount:>=''" "df_minimumFavorites f"]
      safe_literal safe_number by (auto simp: term_ok_def clean_def)
  moreover have "list_all term_ok (relationship_terms (df_relationship f))"
    using safe_literal by (simp add: relationship_terms_def term_ok_def)
  moreover have "list_all term_ok (sort_terms (df_sort f))"
    using safe_literal assms by (auto simp: clean_def sort_terms_def DANBOORU_SORTS_def term_ok_def)
  ultimately show ?thesis by (simp only: filter_terms_def list_all_append simp_thms)
qed

lemma no_order: "find (starts_with ''order:'') (selectionMetatag vs known ''rating'' @ selectionMetatag ws known' ''filetype'' @ date_terms l r
    @ (if m \<noteq> [] then [''score:>='' @ m] else []) @ (if n \<noteq> [] then [''favcount:>='' @ n] else []) @ relationship_terms rel @ ts)
  = find (starts_with ''order:'') ts"
  by (simp add: selectionMetatag_def date_terms_def relationship_terms_def starts_with_def)

lemma order_terms: "s \<in> set (keys DANBOORU_SORTS) \<Longrightarrow> order_of (sort_terms s) = sort_key s"
  by (auto simp: sort_terms_def sort_key_def DANBOORU_SORTS_def order_of_def starts_with_def)

lemma find_append: "find P (xs @ ys) = or_else (find P xs) (find P ys)"
  by (induction xs) auto

lemma order_of_query:
  assumes "clean f"
  shows "order_of (ws @ filter_terms f) = (if list_ex (starts_with ''order:'') ws then order_of ws else sort_key (df_sort f))"
proof -
  have o: "find (starts_with ''order:'') (filter_terms f) = find (starts_with ''order:'') (sort_terms (df_sort f))"
    unfolding filter_terms_def by (rule no_order)
  have e: "order_of (sort_terms (df_sort f)) = sort_key (df_sort f)" using assms by (intro order_terms) (simp add: clean_def)
  show ?thesis
  proof (cases "find (starts_with ''order:'') ws")
    case None
    then have "\<not> list_ex (starts_with ''order:'') ws" by (auto simp: find_None_iff list_ex_iff)
    then show ?thesis using None o e by (simp add: order_of_def find_append)
  next
    case (Some t)
    then have "list_ex (starts_with ''order:'') ws" by (auto simp: find_Some_iff list_ex_iff)
    then show ?thesis using Some by (simp add: order_of_def find_append)
  qed
qed

text \<open>The words of a query.\<close>

lemma query_words:
  assumes "clean f" "\<not> all_digits (trim tags)"
  shows "words (buildDanbooruSearchQuery tags f) = words tags @ filter_terms f"
proof -
  have "list_all plain_word (words tags @ filter_terms f)"
    using words_plain [of _ tags] filter_terms_ok [OF assms(1)] term_ok_word by (auto simp: list_all_iff)
  then show ?thesis using assms(2) words_join by (simp add: buildDanbooruSearchQuery_def Let_def)
qed

lemma lowered_words:
  assumes "clean f" "\<not> all_digits (trim tags)"
  shows "words (lower (trim (buildDanbooruSearchQuery tags f))) = map lower (words tags) @ filter_terms f"
proof -
  have "map lower (filter_terms f) = filter_terms f"
    using filter_terms_ok [OF assms(1)] term_ok_word by (auto simp: list_all_iff intro: map_idI)
  then show ?thesis by (simp add: words_lower query_words [OF assms])
qed

lemma query_not_numeric:
  assumes "clean f" "\<not> all_digits (trim tags)"
  shows "\<not> all_digits (trim (buildDanbooruSearchQuery tags f))"
proof
  let ?t = "trim (buildDanbooruSearchQuery tags f)"
  assume a: "all_digits ?t"
  then have "plain_word ?t" using safe_digit by (auto simp: all_digits_def plain_word_def list_all_iff)
  then have "words ?t = [?t]" by (rule words_word)
  then have e: "words tags @ filter_terms f = [?t]" by (simp add: query_words [OF assms])
  show False
  proof (cases "filter_terms f")
    case Nil
    then have "trim tags = ?t" using e words_one by simp
    with a assms(2) show False by simp
  next
    case (Cons u us)
    then have "term_ok ?t" using e filter_terms_ok [OF assms(1)] by (cases "words tags") auto
    then have "CHR '':'' \<in> set ?t" by (simp add: term_ok_def)
    with a have "is_digit (CHR '':'')" by (auto simp: all_digits_def list_all_iff)
    then show False by (simp add: is_digit_def digit_chars_def)
  qed
qed

text \<open>Counting terms on either side.\<close>

lemma limited_count: "browserDanbooruLimitedTermCount (words (lower (trim q))) = danbooruLimitedTermCount q"
proof -
  have "words (lower (trim q)) = map lower (words q)" by (simp add: words_lower)
  moreover have "(case danbooruMetatagName (lower t) of None \<Rightarrow> True | Some n \<Rightarrow> n \<notin> set DANBOORU_UNLIMITED_METATAGS)
      \<longleftrightarrow> (case before_colon (strip_prefix ''-'' t) of None \<Rightarrow> True | Some n \<Rightarrow> lower n \<notin> set DANBOORU_UNLIMITED_METATAGS)" for t
    unfolding danbooruMetatagName_def strip_minus_lower before_colon_lower by (simp split: option.splits)
  ultimately show ?thesis
    by (simp add: browserDanbooruLimitedTermCount_def danbooruLimitedTermCount_def filter_map comp_def)
qed

section \<open>Properties\<close>

definition found_posts :: "danbooru_post list \<Rightarrow> string \<Rightarrow> danbooru_filters \<Rightarrow> danbooru_post list" where
  "found_posts posts tags f =
     (let ws = map lower (words tags)
      in js_sort (post_order (if list_ex (starts_with ''order:'') ws then order_of ws else sort_key (df_sort f)))
           (filter (\<lambda>p. list_all (term_matches p) ws \<and> satisfies f p) posts))"

lemma found_exactly:
  assumes "clean f" "\<not> all_digits (trim tags)"
  shows "filterAndSortBrowserDanbooruPosts posts (words (lower (trim (buildDanbooruSearchQuery tags f)))) = found_posts posts tags f"
proof -
  have "(\<lambda>p. list_all (term_matches p) (map lower (words tags) @ filter_terms f))
      = (\<lambda>p. list_all (term_matches p) (map lower (words tags)) \<and> satisfies f p)"
    using filters_match [OF assms(1)] by auto
  then show ?thesis
    unfolding lowered_words [OF assms] filterAndSortBrowserDanbooruPosts_def found_posts_def Let_def order_of_query [OF assms(1)]
    by simp
qed

text \<open>C28: The filters of the Danbooru search mean what they say. For any stored or edited value \<open>v\<close> of them, cleaned, and any
  words in the search field that are not one number, the query text built from them makes the backend answer: an invalid
  page or page size is refused, more than two counted terms are refused (as many as the client counts before it sends), and
  otherwise the page holds its part of exactly the posts that match every word and satisfy every filter, in the order asked
  for, an order among the words before the one of the filters.
\<close>

theorem danbooru_filters_exact:
  assumes "\<not> all_digits (trim tags)" and f: "f = sanitizeDanbooruSearchFilters v"
  shows "danbooruSearch posts (buildDanbooruSearchQuery tags f) page pageSize =
    (if \<not> page_between page 1000 then Inl (validationError ''page'' ''must be between 1 and 1000'')
     else if \<not> page_between pageSize 100 then Inl (validationError ''pageSize'' ''must be between 1 and 100'')
     else if danbooruLimitedTermCount (buildDanbooruSearchQuery tags f) > 2
     then Inl (notFoundError ''DANBOORU_TAG_LIMIT'' tag_limit_message None)
     else let start = (id_of_num page - 1) * id_of_num pageSize; stop = start + id_of_num pageSize
          in Inr \<lparr>dg_items = Prelude.slice (nat start) (nat stop) (found_posts posts tags f), dg_page = id_of_num page,
                  dg_hasMore = (stop < int (length (found_posts posts tags f)))\<rparr>)"
proof -
  have c: "clean f" unfolding f by (rule clean_sanitize)
  show ?thesis
    by (simp only: danbooruSearch_def Let_def limited_count found_exactly [OF c assms(1)] query_not_numeric [OF c assms(1)]
        if_False option.case)
qed

text \<open>The word is matched without case, and one rating and an order come from the filters.\<close>

theorem danbooru_filters_exact_witness:
  "let v = JObj [(''ratings'', JArr [JStr ''g'']), (''fileTypes'', JArr [JStr ''jpg'']), (''sort'', JStr ''oldest'')];
       posts = map (fixture_post (\<lambda>_ _. [])) [3, 2, 1, 0]
   in map_option (map dp_id \<circ> dg_items) (case danbooruSearch posts
          (buildDanbooruSearchQuery '' Landscape'' (sanitizeDanbooruSearchFilters v)) (Num 1) (Num 1) of Inr g \<Rightarrow> Some g | Inl _ \<Rightarrow> None)
      = Some [12000001]"
proof -
  have d: "\<not> all_digits (trim '' Landscape'')" by code_simp
  show ?thesis unfolding Let_def danbooru_filters_exact [OF d refl] by code_simp
qed

lemma chosen_stored: "chosen known (texts_value (filter P known)) = filter P known"
  by (auto simp: chosen_def texts_value_def intro!: filter_cong)

lemma sanitize_clean: "clean f \<Longrightarrow> sanitizeDanbooruSearchFilters (filters_value f) = f"
proof -
  assume c: "clean f"
  then obtain P Q where P: "df_ratings f = filter P DANBOORU_RATINGS" and Q: "df_fileTypes f = filter Q DANBOORU_FILE_TYPES"
    by (auto simp: clean_def)
  from c show ?thesis
    by (cases f) (auto simp: clean_def sanitizeDanbooruSearchFilters_def filters_value_def clean_fields_def member_of_def
        chosen_stored one_of_def text_if_def)
qed

lemma clean_load: "clean (loadDanbooruSearchPreferences stored)"
  by (simp add: loadDanbooruSearchPreferences_def clean_sanitize clean_default split: option.split)

text \<open>C29: The filters survive the storage. What a save leaves there reads back as the filters that were saved, cleaned, and it
  is what the event tells the other views; a storage that refuses to write leaves what reads back as it was and tells
  nothing. Cleaning is done once: filters that were read are stored and read again unchanged.
\<close>

theorem filters_survive_storage:
  "(case saveDanbooruSearchPreferences writable f stored of
      (saved, stored', told) \<Rightarrow>
        saved = writable
        \<and> loadDanbooruSearchPreferences stored' =
            (if writable then sanitizeDanbooruSearchFilters (filters_value f) else loadDanbooruSearchPreferences stored)
        \<and> told = (if writable then [loadDanbooruSearchPreferences stored'] else []))
   \<and> (case saveDanbooruSearchPreferences True (loadDanbooruSearchPreferences stored) stored of
        (_, stored', _) \<Rightarrow> loadDanbooruSearchPreferences stored' = loadDanbooruSearchPreferences stored)"
proof -
  have again: "loadDanbooruSearchPreferences (Some (Some (filters_value g))) = g" if "clean g" for g
    using that by (simp add: loadDanbooruSearchPreferences_def sanitize_clean)
  show ?thesis by (simp add: saveDanbooruSearchPreferences_def Let_def again clean_sanitize clean_load sanitize_clean)
qed

end
