(* ===== verification/Spec2Isabelle.thy ===== *)
theory Spec2Isabelle
  imports UiState GalleryQuery OverlapAlignment MergeSelection OverlapContainment CompletedPair
    Projection SearchTokens GalleryGroups GallerySelectors GalleryLayout DownloadCancellation DownloadRandom
    DuplicateProjection ThumbnailFacts ExplorePageFacts InternalDuplicate DownloadProgress PreferenceQueue AppExit
    BackendAdapterFacts CoverSessionFacts SearchFixture BrowserReviewFacts BrowserInternalFacts
    BrowserSettingsFacts BrowserSearchFacts BrowserAutoFindFacts DanbooruFacts
begin

text \<open>
  A verification library for the Atsumi client, the TypeScript application under \<^verbatim>\<open>src/src\<close>. The client searches
  galleries, shows them as cards and pages, downloads them, and helps the user to remove what is there twice:
  the same album saved in two editions, or a page repeated within one album. It talks to a backend that is either
  the native program (Rust, behind \<^verbatim>\<open>BackendClient\<close> in \<^verbatim>\<open>api/backend.ts\<close>) or, in a browser, an in-memory one in
  the same file. This library models the client's decisions and bookkeeping and that in-memory backend, translates
  them operation by operation, and proves what they promise. Paths below are relative to \<^verbatim>\<open>src/src\<close>.

  \<^bold>\<open>How the parts interact.\<close> The React component \<^verbatim>\<open>features/hitomi/HitomiFeature.tsx\<close> owns the state and passes actions to the reducers
  (\<open>UiState\<close>, \<open>GalleryQuery\<close>); answers and events of the backend are folded into galleries and download entries by
  \<open>Projection\<close>, into the duplicate scan by \<open>DuplicateProjection\<close> and into progress by \<open>DownloadProgress\<close>;
  \<open>GallerySelectors\<close>, \<open>GalleryGroups\<close> and \<open>GalleryLayout\<close> choose, group and place what is shown. Search text goes through
  \<open>SearchTokens\<close>. Pictures are asked for through \<open>ThumbnailClient\<close>, which calls the adapter \<open>BackendAdapter\<close>; the covers
  a page will need are asked for early by \<open>CoverSession\<close>, and answers for search pages are kept by \<open>ExplorePageSession\<close>.
  When a download overlaps a saved album, the review (\<open>OverlapTypes\<close>) is drawn by \<open>OverlapAlignment\<close>, merged by hand by
  \<open>MergeSelection\<close>, decided without asking by \<open>OverlapAuto\<close> and grouped by \<open>OverlapContainment\<close>; \<open>CompletedPair\<close> turns a
  duplicate of two saved albums into such a review. \<open>BrowserTypes\<close> to \<open>BrowserSettings\<close> are the other side of these calls.

  \<^bold>\<open>Foundations.\<close>
  \<open>Prelude\<close>: JavaScript numbers as rationals with NaN and the infinities, integers, \<open>slice\<close>, sets and maps in the order
  of insertion (association lists with distinct keys), the insertion sort \<open>js_sort\<close> that any stable sort agrees with for
  a consistent comparison, and the locales \<open>keyed_store\<close>, \<open>js_comparator\<close>, \<open>signed_comparator\<close> and \<open>machine\<close> (an
  invariant of a step function and of every run of it).
  \<open>JsText\<close>: strings are lists of UTF-8 bytes; trimming, letter case and character classes are those of ASCII;
  \<open>collation\<close> states what is used of \<^verbatim>\<open>localeCompare\<close>. \<open>JsonText\<close>: \<^verbatim>\<open>JSON.stringify\<close> for keys, with its injectivity.
  \<open>CoreTypes\<close>, \<open>OverlapTypes\<close>, \<open>DuplicateTypes\<close>, \<open>BrowserTypes\<close>: the records of \<^verbatim>\<open>core/types.ts\<close> and \<^verbatim>\<open>api/contracts.ts\<close>.

  \<^bold>\<open>Theories and code.\<close>
  \<open>UiState\<close>: \<^verbatim>\<open>state/uiState.ts\<close>. The open tab always exists and the remembered ones are distinct.
  \<open>GalleryQuery\<close>: \<^verbatim>\<open>state/galleryQuery.ts\<close>. From a submission to the next, only its own pages are shown.
  \<open>Projection\<close>: \<^verbatim>\<open>state/galleryProjection.ts\<close>, \<^verbatim>\<open>state/downloadProjection.ts\<close>. Of events and entry lists the newest
  state that arrived is the one shown, in any order of arrival; items of library pages are shown as they come (locale \<open>revision_gate\<close>, interpreted for events, entries and mixed updates).
  \<open>DuplicateProjection\<close>, \<open>DuplicateTypes\<close>: \<^verbatim>\<open>state/duplicateProjection.ts\<close> and the handlers of its events.
  \<open>DownloadProgress\<close>: the progress store refines a map from entry ids to the last progress of the newest attempt.
  \<open>GallerySelectors\<close>, \<open>GalleryGroups\<close>, \<open>GalleryLayout\<close>, \<open>DownloadRandom\<close>, \<open>DownloadCancellation\<close>: \<^verbatim>\<open>state/selectors.ts\<close>,
  \<^verbatim>\<open>state/galleryGrouping.ts\<close> with \<^verbatim>\<open>state/autoFindFavorites.ts\<close>, the files under \<^verbatim>\<open>layout/\<close> with \<^verbatim>\<open>state/autoFindPagination.ts\<close>,
  \<^verbatim>\<open>state/downloadRandom.ts\<close> and \<^verbatim>\<open>state/downloadCancellation.ts\<close>: visible sets, folders, columns, a random pick that does not
  favour prolific artists, and cancelling in batches of 200.
  \<open>SearchTokens\<close>: \<^verbatim>\<open>search/searchTokens.ts\<close>, \<^verbatim>\<open>search/globalSearchRules.ts\<close>: canonical tokens are stable, and the rules on a
  query agree with the rules on its tokens. \<open>SearchFixture\<close>: \<^verbatim>\<open>api/searchFixture.ts\<close>: what a search answers, exactly.
  \<open>OverlapAlignment\<close>, \<open>MergeSelection\<close>: \<^verbatim>\<open>downloadOverlap/\<close>: every page has its column once; the merged album holds exactly
  the chosen pages in order. \<open>OverlapAuto\<close>, \<open>OverlapContainment\<close>: \<^verbatim>\<open>state/downloadOverlapAuto.ts\<close>,
  \<^verbatim>\<open>state/downloadOverlapContainment.ts\<close>: an automatic exclusion has its evidence, and complete containment
  matches every page of the edition left out.
  \<open>CompletedPair\<close>: \<^verbatim>\<open>state/completedPairReview.ts\<close>. \<open>InternalDuplicate\<close>: \<^verbatim>\<open>components/internalDuplicateReviewModel.ts\<close>: the plan that removes repeated pages of one album
  leaves a page of each group.
  \<open>ThumbnailModel\<close>, \<open>ThumbnailClient\<close>, \<open>ThumbnailFacts\<close>: \<^verbatim>\<open>thumbnail/model.ts\<close>, \<^verbatim>\<open>thumbnail/memoryCost.ts\<close>,
  \<^verbatim>\<open>thumbnail/client.ts\<close>: display handles
  are accounted for under every sequence of subscriptions, answers, timers and invalidations, what is kept stays within
  its bounds, and no subscriber is left waiting. \<open>BackendAdapter\<close>, \<open>BackendAdapterFacts\<close>: \<^verbatim>\<open>thumbnail/backendAdapter.ts\<close>:
  tokens are read or released, promises settle at most once, and pictures not asked for are not kept.
  \<open>CoverSession\<close>, \<open>CoverSessionFacts\<close>, \<open>ExplorePageSession\<close>, \<open>ExplorePageFacts\<close>: the covers kept warm and the pages kept.
  \<open>PreferenceQueue\<close>, \<open>AppExit\<close>: \<^verbatim>\<open>app/usePreferenceQueue.ts\<close>, \<^verbatim>\<open>app/useAppExit.ts\<close> as the states of their hooks: changes of
  preferences are merged and sent one at a time until none is left; the program ends only after the user saw the work
  that is running.
  \<open>BrowserDownloads\<close>, \<open>BrowserDuplicates\<close>, \<open>BrowserReviews\<close>, \<open>BrowserExclusions\<close>, \<open>BrowserBackend\<close>, \<open>BrowserBackendFacts\<close>,
  \<open>BrowserDownloadFacts\<close>, \<open>BrowserReviewOrder\<close>, \<open>BrowserReviewFacts\<close>: the class \<^verbatim>\<open>BrowserMockBackend\<close> of \<^verbatim>\<open>api/backend.ts\<close> as
  one machine of calls, timers and the factory reset: its queue stays in order and comes to rest, refused calls change
  nothing, reviews keep their ids and only gain revisions, and decisions and merges do what they say. The reset of the
  exploration data is an operation of this machine and of the one of Auto Find. \<open>BrowserInternal\<close>, \<open>BrowserInternalFacts\<close>: its search for repeated pages and the removal plans.
  \<open>BrowserSettings\<close>, \<open>BrowserSettingsFacts\<close>: its settings, checked field by field, stored and read again. \<open>BrowserSearch\<close>, \<open>BrowserSearchFacts\<close>: searches under their ids, their history,
  and favourites. \<open>BrowserAutoFind\<close>, \<open>BrowserAutoFindFacts\<close>: the runs that look for new galleries of the favourites.
  \<open>DanbooruPreferences\<close>, \<open>BrowserDanbooru\<close>, \<open>DanbooruFacts\<close>: the filters of \<^verbatim>\<open>danbooru/searchPreferences.ts\<close> and the posts
  the backend finds for them.

  \<^bold>\<open>Parameters.\<close> What the code takes from its surroundings is an argument: \<^verbatim>\<open>localeCompare\<close> (\<open>loc\<close>, with the laws of
  \<open>collation\<close>), NFKC normalisation (\<open>nfkc\<close>), \<^verbatim>\<open>JSON.parse\<close> (\<open>parse\<close>), readings of clocks (\<open>now\<close>, \<open>ms\<close>), random identifiers
  (\<open>uuid\<close>), the cutting of a text into UTF-16 units (\<open>units\<close>), the list of the fixture's galleries, and the adapters of
  the native side. Hooks and classes are state machines whose inputs are calls, answers, timers and renders; a property
  of a machine holds for every sequence of them.

  \<^bold>\<open>Bounds.\<close> No definition runs on fuel: recursion is structural or has a measure, timers are lists that a step shortens.
  The bounds that appear are the code's: 256 pictures and 64 MiB retained, 2048 covers and 192 MiB in a session, a window
  of two pages, batches of 200, 4096 keys of the adapter and 256 cancelled requests, four loads at a time, pages of at
  most 200, request ids of at most 200 bytes, templates of at most 512 bytes.

  \<^bold>\<open>Not modelled.\<close> React views and effects (\<^verbatim>\<open>features/hitomi/HitomiFeature.tsx\<close> and the dialogs and cards): rendering, pointer handling
  and the wiring of the parts above; the wrappers of native calls; the streaming player, its recordings and page scripts,
  which live on the DOM and on media elements; requests to the community service; the vendored player bundles; the native
  program, which is Rust; build tools. Of \<^verbatim>\<open>BrowserMockBackend\<close> the thumbnail stand-in, the previews chosen for galleries and
  artists, the tag catalogue and its suggestions, the window placement, the storage usage, the preparation of original
  pictures, the preview that a maintenance action has to match, and the operations that answer the same whatever
  happened are left out. Texts outside ASCII are compared and folded only through the parameters.
\<close>

end
